(* ===== verification/Prelude.thy ===== *)
theory Prelude
  imports Main "HOL-Library.AList" "HOL-Library.Word" "HOL-Library.Signed_Division"
begin

text \<open>
  Shared vocabulary of the development: the Go types every component uses
  (64-bit integers, instants, durations, byte strings, maps that are iterated),
  the machine arithmetic on them, and the generic lemmas on lists and
  association lists that carry the component proofs.

  \<^item> An \<open>int64\<close> (or Go's 64-bit \<open>int\<close>) is an \<open>int\<close> in the range described by
    \<open>int64\<close>; every addition, subtraction or product of the source that is not
    protected by a guard is followed by \<open>wrap64\<close>, the two's complement wrap.
  \<^item> A \<open>uint64\<close> counter or version is a \<open>64 word\<close>; identifiers (\<open>uint\<close>), which
    the program only compares, are \<open>nat\<close>.
  \<^item> A \<open>time.Time\<close> is the number of nanoseconds since Go's zero time
    (January 1, year 1, UTC), so \<open>IsZero\<close> is equality with \<open>0\<close>; a
    \<open>time.Duration\<close> is a number of nanoseconds. The monotonic reading that
    \<open>time.Now\<close> carries is on the same scale as the wall reading.
  \<^item> A Go map that the program ranges over is an association list without
    duplicate keys, whose order stands for the unspecified iteration order.
\<close>

unbundle bit_operations_syntax

named_theorems go_arith \<open>range facts and rewrite rules for 64-bit arithmetic\<close>
named_theorems go_time \<open>unfolding of the operations on instants and durations\<close>

type_synonym time = int
type_synonym duration = int
type_synonym uint64 = "64 word"

section \<open>Machine integers\<close>

definition MaxInt64 :: int where
  "MaxInt64 = 9223372036854775807"

definition MinInt64 :: int where
  "MinInt64 = - 9223372036854775808"

definition int64 :: "int \<Rightarrow> bool" where
  "int64 x \<longleftrightarrow> MinInt64 \<le> x \<and> x \<le> MaxInt64"

definition wrap64 :: "int \<Rightarrow> int" where
  "wrap64 x = (x + 9223372036854775808) mod 18446744073709551616 - 9223372036854775808"

definition MaxUint64 :: uint64 where
  "MaxUint64 = - 1"

lemmas int64_defs [go_arith] = MaxInt64_def MinInt64_def int64_def

lemma wrap64_id [simp]: "int64 x \<Longrightarrow> wrap64 x = x"
  by (simp add: wrap64_def int64_defs)

lemma int64_wrap64 [simp]: "int64 (wrap64 x)"
proof -
  have "0 \<le> (x + 9223372036854775808) mod 18446744073709551616"
    and "(x + 9223372036854775808) mod 18446744073709551616 < 18446744073709551616"
    by (rule pos_mod_sign, simp, rule pos_mod_bound, simp)
  then show ?thesis by (simp add: wrap64_def int64_defs)
qed

lemma int64_nonneg [go_arith]: "0 \<le> x \<Longrightarrow> x \<le> MaxInt64 \<Longrightarrow> int64 x"
  by (simp add: int64_defs)

lemma int64_0 [simp]: "int64 0"
  by (simp add: int64_defs)

text \<open>A \<open>uint64\<close> counter that stops at its maximum instead of wrapping.\<close>

lemma word_Suc_mono: "(w :: uint64) < MaxUint64 \<Longrightarrow> w < w + 1"
  unfolding MaxUint64_def by (metis inc_less_eq_self_iff_eq leI order_less_irrefl)

lemma MaxUint64_pos [simp]: "0 < MaxUint64"
  by code_simp

lemma word_plus1_nonzero: "(w :: uint64) < MaxUint64 \<Longrightarrow> w + 1 \<noteq> 0"
  using word_Suc_mono [of w] by auto

lemma word_or_eq_0_iff [simp]: "x OR y = 0 \<longleftrightarrow> x = 0 \<and> y = 0"
  for x y :: "'a :: len word"
  by (auto simp: bit_eq_iff bit_simps)

section \<open>Checked summation\<close>

text \<open>
  The loop \<open>total, ok = add(total, value); if !ok { return 0, false }\<close>, which
  appears over several slices and with several checked additions.
\<close>

fun checked_fold :: "(int \<Rightarrow> int \<Rightarrow> int option) \<Rightarrow> int \<Rightarrow> int list \<Rightarrow> int option" where
  "checked_fold add t [] = Some t"
| "checked_fold add t (x # xs) =
     (case add t x of None \<Rightarrow> None | Some t' \<Rightarrow> checked_fold add t' xs)"

text \<open>
  The contract of a checked addition of non-negative amounts: it returns the
  mathematical sum, or nothing where an operand is negative or the sum does not
  fit. What a loop over it computes follows from the contract alone.
\<close>

locale checked_addition =
  fixes add :: "int \<Rightarrow> int \<Rightarrow> int option"
  assumes add_sum: "int64 l \<Longrightarrow> int64 r \<Longrightarrow>
    add l r = (if 0 \<le> l \<and> 0 \<le> r \<and> l + r \<le> MaxInt64 then Some (l + r) else None)"
begin

lemma fold_Some_iff:
  assumes "0 \<le> t" and "t \<le> MaxInt64" and "list_all int64 xs"
  shows "checked_fold add t xs = Some s \<longleftrightarrow>
    list_all (\<lambda>x. 0 \<le> x) xs \<and> t + sum_list xs \<le> MaxInt64 \<and> s = t + sum_list xs"
  using assms
proof (induction xs arbitrary: t)
  case Nil
  then show ?case by auto
next
  case (Cons x xs)
  have nonneg: "list_all (\<lambda>x. 0 \<le> x) xs \<Longrightarrow> 0 \<le> sum_list xs"
    by (simp add: list_all_iff sum_list_nonneg)
  have t: "int64 t" using Cons.prems by (simp add: int64_nonneg)
  have x: "int64 x" using Cons.prems by simp
  show ?case
  proof (cases "0 \<le> x \<and> t + x \<le> MaxInt64")
    case True
    then have "add t x = Some (t + x)" using add_sum [OF t x] Cons.prems by simp
    then have "checked_fold add t (x # xs) = checked_fold add (t + x) xs" by simp
    with Cons.IH [of "t + x"] True Cons.prems show ?thesis by (auto simp: algebra_simps)
  next
    case False
    then have "add t x = None" using add_sum [OF t x] Cons.prems by auto
    with False nonneg show ?thesis by auto
  qed
qed

lemma fold_None_iff:
  assumes "0 \<le> t" and "t \<le> MaxInt64" and "list_all int64 xs"
  shows "checked_fold add t xs = None \<longleftrightarrow>
    \<not> list_all (\<lambda>x. 0 \<le> x) xs \<or> MaxInt64 < t + sum_list xs"
  using fold_Some_iff [OF assms] by (cases "checked_fold add t xs") force+

lemma fold_range:
  assumes "0 \<le> t" and "t \<le> MaxInt64" and "list_all int64 xs" and "checked_fold add t xs = Some s"
  shows "0 \<le> s \<and> s \<le> MaxInt64"
proof -
  have "list_all (\<lambda>x. 0 \<le> x) xs" and s: "t + sum_list xs \<le> MaxInt64" "s = t + sum_list xs"
    using assms fold_Some_iff by blast+
  then have "0 \<le> sum_list xs" by (simp add: list_all_iff sum_list_nonneg)
  with s assms(1) show ?thesis by simp
qed

end

section \<open>Instants and durations\<close>

definition Nanosecond :: duration where "Nanosecond = 1"
definition Millisecond :: duration where "Millisecond = 1000000"
definition Second :: duration where "Second = 1000000000"
definition Minute :: duration where "Minute = 60000000000"
definition Hour :: duration where "Hour = 3600000000000"

text \<open>Nanoseconds from Go's zero time to the Unix epoch.\<close>

definition unix_epoch :: time where
  "unix_epoch = 62135596800000000000"

definition IsZero :: "time \<Rightarrow> bool" where
  "IsZero t \<longleftrightarrow> t = 0"

definition After :: "time \<Rightarrow> time \<Rightarrow> bool" where
  "After t u \<longleftrightarrow> u < t"

definition Before :: "time \<Rightarrow> time \<Rightarrow> bool" where
  "Before t u \<longleftrightarrow> t < u"

definition TimeAdd :: "time \<Rightarrow> duration \<Rightarrow> time" where
  "TimeAdd t d = t + d"

text \<open>\<open>Time.Sub\<close> saturates at the ends of the duration range.\<close>

definition TimeSub :: "time \<Rightarrow> time \<Rightarrow> duration" where
  "TimeSub t u = max MinInt64 (min MaxInt64 (t - u))"

definition UnixNano :: "time \<Rightarrow> int" where
  "UnixNano t = wrap64 (t - unix_epoch)"

definition UnixMilli :: "time \<Rightarrow> int" where
  "UnixMilli t = wrap64 ((t - unix_epoch) div Millisecond)"

lemmas duration_defs = Nanosecond_def Millisecond_def Second_def Minute_def Hour_def

declare duration_defs [go_time] IsZero_def [go_time] After_def [go_time] Before_def [go_time]
  TimeAdd_def [go_time] TimeSub_def [go_time]

section \<open>Maps that are iterated\<close>

type_synonym ('k, 'v) gomap = "('k \<times> 'v) list"

abbreviation keys :: "('k, 'v) gomap \<Rightarrow> 'k list" where
  "keys m \<equiv> map fst m"

abbreviation wf_map :: "('k, 'v) gomap \<Rightarrow> bool" where
  "wf_map m \<equiv> distinct (keys m)"

lemma map_of_update [simp]: "map_of (AList.update k v m) = (map_of m)(k \<mapsto> v)"
  by (simp add: update_conv')

lemma map_of_delete [simp]: "map_of (AList.delete k m) = (map_of m)(k := None)"
  by (simp add: delete_conv')

lemma wf_map_update [simp, intro]: "wf_map m \<Longrightarrow> wf_map (AList.update k v m)"
  by (rule distinct_update)

lemma wf_map_delete [simp, intro]: "wf_map m \<Longrightarrow> wf_map (AList.delete k m)"
  by (rule distinct_delete)

lemma wf_map_member: "wf_map m \<Longrightarrow> (k, v) \<in> set m \<longleftrightarrow> map_of m k = Some v"
  by (auto simp: map_of_eq_Some_iff)

lemma set_update_subset: "set (AList.update k v m) \<subseteq> insert (k, v) (set m)"
  by (induction m) (auto split: if_splits)

lemma keys_delete [simp]: "set (keys (AList.delete k m)) = set (keys m) - {k}"
  by (auto simp: delete_keys)

lemma length_delete: "wf_map m \<Longrightarrow> k \<in> set (keys m) \<Longrightarrow>
    length (AList.delete k m) = length m - 1"
proof (induction m)
  case Nil
  then show ?case by simp
next
  case (Cons p m)
  obtain a b where p: "p = (a, b)" by (cases p)
  show ?case
  proof (cases "a = k")
    case True
    with Cons.prems p have "k \<notin> set (keys m)" by auto
    then have "AList.delete k m = m" by (simp add: delete_idem)
    with True p show ?thesis by simp
  next
    case False
    with Cons.prems p have mem: "k \<in> set (keys m)" by auto
    then have "m \<noteq> []" by auto
    with Cons False p mem show ?thesis by (cases m) auto
  qed
qed

lemma find_SomeD: "find P xs = Some x \<Longrightarrow> x \<in> set xs \<and> P x"
  by (induction xs) (auto split: if_splits)

lemma insort_key_map_conv: "insort_key f (g x) (map g xs) = map g (insort_key (\<lambda>a. f (g a)) x xs)"
  by (induction xs) simp_all

lemma sort_key_map_conv: "sort_key f (map g xs) = map g (sort_key (\<lambda>a. f (g a)) xs)"
  by (induction xs) (simp_all add: insort_key_map_conv)

section \<open>Byte strings\<close>

text \<open>
  A Go string is a byte sequence. \<open>TrimSpace\<close> removes leading and trailing
  Unicode white space, given here by the UTF-8 encodings of its code points.
\<close>

definition utf8_spaces :: "string list" where
  "utf8_spaces =
     [ [CHR 0x09], [CHR 0x0A], [CHR 0x0B], [CHR 0x0C], [CHR 0x0D], [CHR 0x20],
       [CHR 0xC2, CHR 0x85], [CHR 0xC2, CHR 0xA0], [CHR 0xE1, CHR 0x9A, CHR 0x80],
       [CHR 0xE2, CHR 0x80, CHR 0x80], [CHR 0xE2, CHR 0x80, CHR 0x81],
       [CHR 0xE2, CHR 0x80, CHR 0x82], [CHR 0xE2, CHR 0x80, CHR 0x83],
       [CHR 0xE2, CHR 0x80, CHR 0x84], [CHR 0xE2, CHR 0x80, CHR 0x85],
       [CHR 0xE2, CHR 0x80, CHR 0x86], [CHR 0xE2, CHR 0x80, CHR 0x87],
       [CHR 0xE2, CHR 0x80, CHR 0x88], [CHR 0xE2, CHR 0x80, CHR 0x89],
       [CHR 0xE2, CHR 0x80, CHR 0x8A], [CHR 0xE2, CHR 0x80, CHR 0xA8],
       [CHR 0xE2, CHR 0x80, CHR 0xA9], [CHR 0xE2, CHR 0x80, CHR 0xAF],
       [CHR 0xE2, CHR 0x81, CHR 0x9F], [CHR 0xE3, CHR 0x80, CHR 0x80] ]"

fun is_prefix :: "'a list \<Rightarrow> 'a list \<Rightarrow> bool" where
  "is_prefix [] ys = True"
| "is_prefix (x # xs) [] = False"
| "is_prefix (x # xs) (y # ys) = (x = y \<and> is_prefix xs ys)"

text \<open>Strip any of the patterns from the front, as long as one matches.\<close>

fun strip_front :: "string list \<Rightarrow> nat \<Rightarrow> string \<Rightarrow> string" where
  "strip_front pats 0 s = s"
| "strip_front pats (Suc n) s =
     (case find (\<lambda>p. p \<noteq> [] \<and> is_prefix p s) pats of
        None \<Rightarrow> s
      | Some p \<Rightarrow> strip_front pats n (drop (length p) s))"

definition TrimSpace :: "string \<Rightarrow> string" where
  "TrimSpace s =
     (let t = strip_front utf8_spaces (length s) s
      in rev (strip_front (map rev utf8_spaces) (length t) (rev t)))"

fun ContainsSub :: "string \<Rightarrow> string \<Rightarrow> bool" where
  "ContainsSub [] p = is_prefix p []"
| "ContainsSub (c # s) p = (is_prefix p (c # s) \<or> ContainsSub s p)"

definition ascii_lower :: "char \<Rightarrow> char" where
  "ascii_lower c = (let n = of_char c :: nat in
     if 65 \<le> n \<and> n \<le> 90 then char_of (n + 32) else c)"

text \<open>
  \<open>strings.ToLower\<close>, as far as ASCII results are concerned: besides the ASCII
  capitals, the Kelvin sign and the dotted capital I are the only code points that
  Go maps to an ASCII letter. Other bytes are left alone, which no comparison with
  an ASCII string can observe.
\<close>

fun ToLower :: "string \<Rightarrow> string" where
  "ToLower [] = []"
| "ToLower (a # b # c # s) =
     (if a = CHR 0xE2 \<and> b = CHR 0x84 \<and> c = CHR 0xAA then CHR ''k'' # ToLower s
      else if a = CHR 0xC4 \<and> b = CHR 0xB0 then CHR ''i'' # ToLower (c # s)
      else ascii_lower a # ToLower (b # c # s))"
| "ToLower [a, b] = (if a = CHR 0xC4 \<and> b = CHR 0xB0 then [CHR ''i''] else [ascii_lower a, ascii_lower b])"
| "ToLower [a] = [ascii_lower a]"

definition HasPrefix :: "string \<Rightarrow> string \<Rightarrow> bool" where
  "HasPrefix s p = is_prefix p s"

definition HasSuffix :: "string \<Rightarrow> string \<Rightarrow> bool" where
  "HasSuffix s p = is_prefix (rev p) (rev s)"

text \<open>The value of a string of decimal digits, and \<open>strconv.ParseInt\<close> in base 10 with 64 bits.\<close>

definition is_digit :: "char \<Rightarrow> bool" where
  "is_digit c \<longleftrightarrow> 48 \<le> (of_char c :: nat) \<and> (of_char c :: nat) \<le> 57"

definition decimal_value :: "string \<Rightarrow> nat" where
  "decimal_value s = foldl (\<lambda>v c. v * 10 + ((of_char c :: nat) - 48)) 0 s"

definition ParseInt :: "string \<Rightarrow> int option" where
  "ParseInt s =
     (let negative = (s \<noteq> [] \<and> hd s = CHR ''-'');
          digits = (if s \<noteq> [] \<and> (hd s = CHR ''-'' \<or> hd s = CHR ''+'') then tl s else s);
          value = (if negative then - int (decimal_value digits) else int (decimal_value digits))
      in if digits \<noteq> [] \<and> list_all is_digit digits \<and> int64 value then Some value else None)"

lemma strip_front_stop:
  "(\<And>p. p \<in> set pats \<Longrightarrow> p \<noteq> [] \<Longrightarrow> \<not> is_prefix p s) \<Longrightarrow> strip_front pats n s = s"
proof (cases n)
  case (Suc m)
  assume "\<And>p. p \<in> set pats \<Longrightarrow> p \<noteq> [] \<Longrightarrow> \<not> is_prefix p s"
  then have "find (\<lambda>p. p \<noteq> [] \<and> is_prefix p s) pats = None" by (auto simp: find_None_iff)
  with Suc show ?thesis by simp
qed simp

lemma is_prefix_hd: "is_prefix p s \<Longrightarrow> p \<noteq> [] \<Longrightarrow> s \<noteq> [] \<and> hd s = hd p"
  by (cases p; cases s) auto

text \<open>A string whose first and last byte start and end no space is unchanged.\<close>

lemma TrimSpace_id:
  assumes "s \<noteq> []"
    and "hd s \<notin> set (map hd utf8_spaces)" and "last s \<notin> set (map last utf8_spaces)"
  shows "TrimSpace s = s"
proof -
  have front: "strip_front utf8_spaces n s = s" for n
    using assms(2) by (intro strip_front_stop) (metis image_eqI image_set is_prefix_hd)
  have "\<not> is_prefix p (rev s)" if p: "p \<in> set (map rev utf8_spaces)" "p \<noteq> []" for p
  proof
    assume "is_prefix p (rev s)"
    then have eq: "hd (rev s) = hd p" using is_prefix_hd p by blast
    obtain q where q: "q \<in> set utf8_spaces" "p = rev q" using p by auto
    then have "last s = last q" using eq by (simp add: hd_rev)
    then show False using assms(3) q by auto
  qed
  then have "strip_front (map rev utf8_spaces) n (rev s) = rev s" for n
    by (intro strip_front_stop) auto
  with front show ?thesis by (simp add: TrimSpace_def Let_def)
qed

section \<open>Transition systems\<close>

text \<open>
  The contract that the operations of a component share: each of them keeps the
  component's invariant. The second locale adds a relation between an earlier and
  a later state that every operation establishes.
\<close>

locale invariant_system =
  fixes step :: "'s \<Rightarrow> 's \<Rightarrow> bool" and inv :: "'s \<Rightarrow> bool"
  assumes step_inv: "inv s \<Longrightarrow> step s t \<Longrightarrow> inv t"
begin

lemma steps_inv: "step\<^sup>*\<^sup>* s t \<Longrightarrow> inv s \<Longrightarrow> inv t"
  by (induction rule: rtranclp_induct) (auto intro: step_inv)

end

locale monotone_system = invariant_system +
  fixes rel :: "'a \<Rightarrow> 'a \<Rightarrow> bool"
  assumes rel_refl: "rel s s" and rel_trans: "rel s t \<Longrightarrow> rel t u \<Longrightarrow> rel s u"
    and step_rel: "inv s \<Longrightarrow> step s t \<Longrightarrow> rel s t"
begin

lemma steps_rel: "step\<^sup>*\<^sup>* s t \<Longrightarrow> inv s \<Longrightarrow> rel s t"
  by (induction rule: rtranclp_induct) (auto intro: rel_refl rel_trans step_rel steps_inv)

end

end
