(* ===== verification/Usage.thy ===== *)
theory Usage
  imports Prelude
begin

unbundle bit_operations_syntax

text \<open>
  Token usage (\<open>src/internal/usage\<close>): the checked arithmetic of
  \<open>arithmetic.go\<close>, the diagnostics bit set and result types of \<open>types.go\<close>, and
  the accumulator of \<open>accumulator.go\<close>, which collects the usage of one request
  over several provider events and publishes it once. An operation of the
  accumulator returns the error it reports (if any) and the accumulator after
  the call.
\<close>

section \<open>Checked arithmetic\<close>

definition SubtractCached :: "int \<Rightarrow> int \<Rightarrow> int option" where
  "SubtractCached inclusive cached =
     (if inclusive < 0 \<or> cached < 0 \<or> cached > inclusive then None
      else Some (wrap64 (inclusive - cached)))"

definition CheckedAdd :: "int \<Rightarrow> int \<Rightarrow> int option" where
  "CheckedAdd left right =
     (if left < 0 \<or> right < 0 \<or> left > wrap64 (MaxInt64 - right) then None
      else Some (wrap64 (left + right)))"

record Tokens =
  tk_UncachedInput :: int
  tk_CacheRead :: int
  tk_CacheWrite5M :: int
  tk_CacheWrite1H :: int
  tk_CacheWriteUnknown :: int
  tk_Output :: int

definition Tokens0 :: Tokens where
  "Tokens0 = \<lparr>tk_UncachedInput = 0, tk_CacheRead = 0, tk_CacheWrite5M = 0,
     tk_CacheWrite1H = 0, tk_CacheWriteUnknown = 0, tk_Output = 0\<rparr>"

definition token_fields :: "Tokens \<Rightarrow> int list" where
  "token_fields t = [tk_UncachedInput t, tk_CacheRead t, tk_CacheWrite5M t,
     tk_CacheWrite1H t, tk_CacheWriteUnknown t, tk_Output t]"

definition CheckedTotal :: "Tokens \<Rightarrow> int option" where
  "CheckedTotal tokens = checked_fold CheckedAdd 0 (token_fields tokens)"

section \<open>Diagnostics and results\<close>

datatype State =
    StateComplete | StatePartial | StateMissing | StateNotApplicable | State_other string

datatype DiagnosticCode =
    DiagnosticUnsupportedBillableDetail
  | DiagnosticCacheWriteDefaulted5M
  | DiagnosticNegativeValue
  | DiagnosticInvalidNumber
  | DiagnosticMissingRequiredField
  | DiagnosticInconsistentTotal
  | DiagnosticInvalidPayload
  | DiagnosticInvalidEventSequence
  | Diagnostic_other string

fun diagnostic_flag :: "DiagnosticCode \<Rightarrow> 16 word" where
  "diagnostic_flag DiagnosticUnsupportedBillableDetail = 1"
| "diagnostic_flag DiagnosticCacheWriteDefaulted5M = 2"
| "diagnostic_flag DiagnosticNegativeValue = 4"
| "diagnostic_flag DiagnosticInvalidNumber = 8"
| "diagnostic_flag DiagnosticMissingRequiredField = 16"
| "diagnostic_flag DiagnosticInconsistentTotal = 32"
| "diagnostic_flag DiagnosticInvalidPayload = 64"
| "diagnostic_flag DiagnosticInvalidEventSequence = 128"
| "diagnostic_flag (Diagnostic_other _) = 0"

record Diagnostics =
  dg_flags :: "16 word"
  dg_totalDelta :: int
  dg_deltaPresent :: bool

definition Diagnostics0 :: Diagnostics where
  "Diagnostics0 = \<lparr>dg_flags = 0, dg_totalDelta = 0, dg_deltaPresent = False\<rparr>"

text \<open>
  The two \<open>switch\<close> statements of \<open>Add\<close> and \<open>Has\<close> name one flag per code and
  have no case for any other string, which is a flag of no bits here.
\<close>

definition Diagnostics_Add :: "Diagnostics \<Rightarrow> DiagnosticCode \<Rightarrow> Diagnostics" where
  "Diagnostics_Add d code = d\<lparr>dg_flags := dg_flags d OR diagnostic_flag code\<rparr>"

definition Diagnostics_Has :: "Diagnostics \<Rightarrow> DiagnosticCode \<Rightarrow> bool" where
  "Diagnostics_Has d code \<longleftrightarrow> dg_flags d AND diagnostic_flag code \<noteq> 0"

definition SetTotalDelta :: "Diagnostics \<Rightarrow> int \<Rightarrow> Diagnostics" where
  "SetTotalDelta d delta =
     (Diagnostics_Add d DiagnosticInconsistentTotal)\<lparr>dg_totalDelta := delta, dg_deltaPresent := True\<rparr>"

definition TotalDelta :: "Diagnostics \<Rightarrow> int \<times> bool" where
  "TotalDelta d = (dg_totalDelta d, dg_deltaPresent d)"

definition Diagnostics_Merge :: "Diagnostics \<Rightarrow> Diagnostics \<Rightarrow> Diagnostics" where
  "Diagnostics_Merge d other =
     (let d1 = d\<lparr>dg_flags := dg_flags d OR dg_flags other\<rparr>
      in if dg_deltaPresent other
         then d1\<lparr>dg_totalDelta := dg_totalDelta other, dg_deltaPresent := True\<rparr> else d1)"

record Result =
  rs_Tokens :: Tokens
  rs_State :: State
  rs_Diagnostics :: Diagnostics

record Patch =
  pt_UncachedInput :: "int option"
  pt_CacheRead :: "int option"
  pt_CacheWrite5M :: "int option"
  pt_CacheWrite1H :: "int option"
  pt_CacheWriteUnknown :: "int option"
  pt_Output :: "int option"
  pt_Final :: bool
  pt_Diagnostics :: Diagnostics

definition patch_fields :: "Patch \<Rightarrow> int option list" where
  "patch_fields p = [pt_UncachedInput p, pt_CacheRead p, pt_CacheWrite5M p,
     pt_CacheWrite1H p, pt_CacheWriteUnknown p, pt_Output p]"

section \<open>The accumulator\<close>

datatype UsageError = ErrFinalized | ErrNegativePatch | ErrTokenOverflow

record Accumulator =
  ac_tokens :: Tokens
  ac_presence :: "8 word"
  ac_diagnostics :: Diagnostics
  ac_final :: bool
  ac_finalized :: bool

definition Accumulator0 :: Accumulator where
  "Accumulator0 = \<lparr>ac_tokens = Tokens0, ac_presence = 0, ac_diagnostics = Diagnostics0,
     ac_final = False, ac_finalized = False\<rparr>"

definition validPatch :: "Patch \<Rightarrow> bool" where
  "validPatch p \<longleftrightarrow> list_all (\<lambda>v. case v of None \<Rightarrow> True | Some x \<Rightarrow> \<not> x < 0) (patch_fields p)"

text \<open>One present field of a patch: store the value and set the presence bit.\<close>

definition apply_field ::
  "int option \<Rightarrow> (int \<Rightarrow> Tokens \<Rightarrow> Tokens) \<Rightarrow> 8 word \<Rightarrow> Accumulator \<Rightarrow> Accumulator" where
  "apply_field v upd flag a = (case v of
       None \<Rightarrow> a
     | Some x \<Rightarrow> a\<lparr>ac_tokens := upd x (ac_tokens a), ac_presence := ac_presence a OR flag\<rparr>)"

definition accumulator_apply :: "Patch \<Rightarrow> Accumulator \<Rightarrow> Accumulator" where
  "accumulator_apply p a0 =
     (let a1 = apply_field (pt_UncachedInput p) (\<lambda>x t. t\<lparr>tk_UncachedInput := x\<rparr>) 1 a0;
          a2 = apply_field (pt_CacheRead p) (\<lambda>x t. t\<lparr>tk_CacheRead := x\<rparr>) 2 a1;
          a3 = apply_field (pt_CacheWrite5M p) (\<lambda>x t. t\<lparr>tk_CacheWrite5M := x\<rparr>) 4 a2;
          a4 = apply_field (pt_CacheWrite1H p) (\<lambda>x t. t\<lparr>tk_CacheWrite1H := x\<rparr>) 8 a3;
          a5 = apply_field (pt_CacheWriteUnknown p) (\<lambda>x t. t\<lparr>tk_CacheWriteUnknown := x\<rparr>) 16 a4
      in apply_field (pt_Output p) (\<lambda>x t. t\<lparr>tk_Output := x\<rparr>) 32 a5)"

definition ReplaceSnapshot :: "Patch \<Rightarrow> Accumulator \<Rightarrow> UsageError option \<times> Accumulator" where
  "ReplaceSnapshot patch a =
     (if ac_finalized a then (Some ErrFinalized, a)
      else if \<not> validPatch patch then (Some ErrNegativePatch, a)
      else
        let candidate = accumulator_apply patch
              (Accumulator0\<lparr>ac_diagnostics := pt_Diagnostics patch, ac_final := pt_Final patch\<rparr>)
        in if CheckedTotal (ac_tokens candidate) = None then (Some ErrTokenOverflow, a)
           else (None, a\<lparr>ac_tokens := ac_tokens candidate, ac_presence := ac_presence candidate,
                   ac_diagnostics := ac_diagnostics candidate, ac_final := ac_final candidate\<rparr>))"

definition MergePatch :: "Patch \<Rightarrow> Accumulator \<Rightarrow> UsageError option \<times> Accumulator" where
  "MergePatch patch a =
     (if ac_finalized a then (Some ErrFinalized, a)
      else if \<not> validPatch patch then (Some ErrNegativePatch, a)
      else
        let applied = accumulator_apply patch a;
            candidate = applied\<lparr>
              ac_diagnostics := Diagnostics_Merge (ac_diagnostics applied) (pt_Diagnostics patch),
              ac_final := (ac_final applied \<or> pt_Final patch)\<rparr>
        in if CheckedTotal (ac_tokens candidate) = None then (Some ErrTokenOverflow, a)
           else (None, a\<lparr>ac_tokens := ac_tokens candidate, ac_presence := ac_presence candidate,
                   ac_diagnostics := ac_diagnostics candidate, ac_final := ac_final candidate\<rparr>))"

definition Finalize :: "bool \<Rightarrow> Accumulator \<Rightarrow> Result option \<times> Accumulator" where
  "Finalize applicable a =
     (if ac_finalized a then (None, a)
      else
        let a' = a\<lparr>ac_finalized := True\<rparr> in
        if \<not> applicable
        then (Some \<lparr>rs_Tokens = Tokens0, rs_State = StateNotApplicable, rs_Diagnostics = Diagnostics0\<rparr>, a')
        else
          let st = (if ac_presence a = 0 then StateMissing
                    else if ac_final a then StateComplete else StatePartial)
          in (Some \<lparr>rs_Tokens = ac_tokens a, rs_State = st, rs_Diagnostics = ac_diagnostics a\<rparr>, a'))"

text \<open>The calls a request makes on its accumulator, in order.\<close>

datatype acc_call = CallReplace Patch | CallMerge Patch | CallFinalize bool

fun acc_step :: "Accumulator \<Rightarrow> acc_call \<Rightarrow> Accumulator" where
  "acc_step a (CallReplace p) = snd (ReplaceSnapshot p a)"
| "acc_step a (CallMerge p) = snd (MergePatch p a)"
| "acc_step a (CallFinalize b) = snd (Finalize b a)"

fun acc_run :: "Accumulator \<Rightarrow> acc_call list \<Rightarrow> Accumulator" where
  "acc_run a [] = a"
| "acc_run a (c # cs) = acc_run (acc_step a c) cs"

section \<open>Arithmetic lemmas\<close>

lemma CheckedAdd_eq:
  assumes "int64 l" and "int64 r"
  shows "CheckedAdd l r = (if 0 \<le> l \<and> 0 \<le> r \<and> l + r \<le> MaxInt64 then Some (l + r) else None)"
proof (cases "0 \<le> l \<and> 0 \<le> r")
  case True
  then have "int64 (MaxInt64 - r)" using assms by (simp add: int64_defs)
  moreover have "l + r \<le> MaxInt64 \<Longrightarrow> int64 (l + r)" using True by (simp add: int64_defs)
  ultimately show ?thesis using True by (auto simp: CheckedAdd_def)
qed (auto simp: CheckedAdd_def)

interpretation usage_add: checked_addition CheckedAdd
  by unfold_locales (rule CheckedAdd_eq)

definition tokens_int64 :: "Tokens \<Rightarrow> bool" where
  "tokens_int64 t \<longleftrightarrow> list_all int64 (token_fields t)"

definition tokens_nonneg :: "Tokens \<Rightarrow> bool" where
  "tokens_nonneg t \<longleftrightarrow> list_all (\<lambda>x. 0 \<le> x) (token_fields t)"

lemma CheckedTotal_Some_iff:
  "tokens_int64 t \<Longrightarrow> CheckedTotal t = Some s \<longleftrightarrow>
     tokens_nonneg t \<and> sum_list (token_fields t) \<le> MaxInt64 \<and> s = sum_list (token_fields t)"
  unfolding CheckedTotal_def tokens_int64_def tokens_nonneg_def
  by (subst usage_add.fold_Some_iff) (auto simp: MaxInt64_def)

lemma tokens_total_cases:
  assumes "tokens_int64 t"
  shows "CheckedTotal t \<noteq> None \<longleftrightarrow> tokens_nonneg t \<and> sum_list (token_fields t) \<le> MaxInt64"
  using CheckedTotal_Some_iff [OF assms] by (cases "CheckedTotal t") auto

section \<open>Diagnostics are a set of codes\<close>

definition known_code :: "DiagnosticCode \<Rightarrow> bool" where
  "known_code c \<longleftrightarrow> diagnostic_flag c \<noteq> 0"

lemma word_and_or_nonzero:
  "((x OR y) AND (b :: 16 word) \<noteq> 0) \<longleftrightarrow> (x AND b \<noteq> 0) \<or> (y AND b \<noteq> 0)"
  by (auto simp: word_ao_dist)

lemma diagnostic_flags_disjoint:
  "diagnostic_flag c AND diagnostic_flag c' \<noteq> 0 \<longleftrightarrow> known_code c \<and> c = c'"
  by (cases c; cases c') (simp_all add: known_code_def)

lemma Has_Add: "Diagnostics_Has (Diagnostics_Add d c) c' \<longleftrightarrow> Diagnostics_Has d c' \<or> (known_code c \<and> c = c')"
  by (simp add: Diagnostics_Has_def Diagnostics_Add_def word_and_or_nonzero diagnostic_flags_disjoint)

lemma Has_Merge: "Diagnostics_Has (Diagnostics_Merge d e) c \<longleftrightarrow> Diagnostics_Has d c \<or> Diagnostics_Has e c"
  by (simp add: Diagnostics_Has_def Diagnostics_Merge_def Let_def word_and_or_nonzero)

section \<open>Accumulator invariant\<close>

text \<open>The presence bits of the six fields, in the order of \<open>token_fields\<close>.\<close>

definition presence_bits :: "8 word list" where
  "presence_bits = [1, 2, 4, 8, 16, 32]"

definition acc_inv :: "Accumulator \<Rightarrow> bool" where
  "acc_inv a \<longleftrightarrow> tokens_int64 (ac_tokens a) \<and> CheckedTotal (ac_tokens a) \<noteq> None \<and>
     list_all (\<lambda>(b, x). ac_presence a AND b \<noteq> 0 \<or> x = 0) (zip presence_bits (token_fields (ac_tokens a)))"

definition patch_int64 :: "Patch \<Rightarrow> bool" where
  "patch_int64 p \<longleftrightarrow> list_all (\<lambda>v. case v of None \<Rightarrow> True | Some x \<Rightarrow> int64 x) (patch_fields p)"

fun call_int64 :: "acc_call \<Rightarrow> bool" where
  "call_int64 (CallReplace p) = patch_int64 p"
| "call_int64 (CallMerge p) = patch_int64 p"
| "call_int64 (CallFinalize b) = True"

lemma length_token_fields [simp]: "length (token_fields t) = 6"
  by (simp add: token_fields_def)

lemma length_patch_fields [simp]: "length (patch_fields p) = 6"
  by (simp add: patch_fields_def)

text \<open>What applying a patch leaves in each field.\<close>

definition field_or :: "int option \<Rightarrow> int \<Rightarrow> int" where
  "field_or v old = (case v of None \<Rightarrow> old | Some x \<Rightarrow> x)"

lemma apply_field_tokens:
  "ac_tokens (apply_field v (\<lambda>x t. t\<lparr>tk_UncachedInput := x\<rparr>) b a) =
     (ac_tokens a)\<lparr>tk_UncachedInput := field_or v (tk_UncachedInput (ac_tokens a))\<rparr>"
  "ac_tokens (apply_field v (\<lambda>x t. t\<lparr>tk_CacheRead := x\<rparr>) b a) =
     (ac_tokens a)\<lparr>tk_CacheRead := field_or v (tk_CacheRead (ac_tokens a))\<rparr>"
  "ac_tokens (apply_field v (\<lambda>x t. t\<lparr>tk_CacheWrite5M := x\<rparr>) b a) =
     (ac_tokens a)\<lparr>tk_CacheWrite5M := field_or v (tk_CacheWrite5M (ac_tokens a))\<rparr>"
  "ac_tokens (apply_field v (\<lambda>x t. t\<lparr>tk_CacheWrite1H := x\<rparr>) b a) =
     (ac_tokens a)\<lparr>tk_CacheWrite1H := field_or v (tk_CacheWrite1H (ac_tokens a))\<rparr>"
  "ac_tokens (apply_field v (\<lambda>x t. t\<lparr>tk_CacheWriteUnknown := x\<rparr>) b a) =
     (ac_tokens a)\<lparr>tk_CacheWriteUnknown := field_or v (tk_CacheWriteUnknown (ac_tokens a))\<rparr>"
  "ac_tokens (apply_field v (\<lambda>x t. t\<lparr>tk_Output := x\<rparr>) b a) =
     (ac_tokens a)\<lparr>tk_Output := field_or v (tk_Output (ac_tokens a))\<rparr>"
  by (cases v; simp add: apply_field_def field_or_def)+

lemma token_fields_apply:
  "token_fields (ac_tokens (accumulator_apply p a)) =
     map2 field_or (patch_fields p) (token_fields (ac_tokens a))"
  by (simp add: accumulator_apply_def Let_def apply_field_tokens token_fields_def patch_fields_def)

lemma apply_field_frame [simp]:
  "ac_diagnostics (apply_field v upd b a) = ac_diagnostics a"
  "ac_final (apply_field v upd b a) = ac_final a"
  "ac_finalized (apply_field v upd b a) = ac_finalized a"
  by (cases v; simp add: apply_field_def)+

definition field_flag :: "int option \<Rightarrow> 8 word \<Rightarrow> 8 word" where
  "field_flag v b = (if v = None then 0 else b)"

definition patch_presence :: "Patch \<Rightarrow> 8 word" where
  "patch_presence p = field_flag (pt_UncachedInput p) 1 OR field_flag (pt_CacheRead p) 2 OR
     field_flag (pt_CacheWrite5M p) 4 OR field_flag (pt_CacheWrite1H p) 8 OR
     field_flag (pt_CacheWriteUnknown p) 16 OR field_flag (pt_Output p) 32"

lemma ac_presence_apply_field:
  "ac_presence (apply_field v upd b a) = ac_presence a OR field_flag v b"
  by (simp add: apply_field_def field_flag_def split: option.split)

lemma ac_presence_apply:
  "ac_presence (accumulator_apply p a) = ac_presence a OR patch_presence p"
  by (simp add: accumulator_apply_def Let_def patch_presence_def ac_presence_apply_field or.assoc)

lemma ac_frame_apply [simp]:
  "ac_diagnostics (accumulator_apply p a) = ac_diagnostics a"
  "ac_final (accumulator_apply p a) = ac_final a"
  "ac_finalized (accumulator_apply p a) = ac_finalized a"
  by (simp_all add: accumulator_apply_def Let_def)

lemma field_flag_and:
  "field_flag v b AND c = (if v = None then 0 else b AND c)"
  by (simp add: field_flag_def)

lemma patch_presence_bit:
  "patch_presence p AND 1 = 0 \<longleftrightarrow> pt_UncachedInput p = None"
  "patch_presence p AND 2 = 0 \<longleftrightarrow> pt_CacheRead p = None"
  "patch_presence p AND 4 = 0 \<longleftrightarrow> pt_CacheWrite5M p = None"
  "patch_presence p AND 8 = 0 \<longleftrightarrow> pt_CacheWrite1H p = None"
  "patch_presence p AND 16 = 0 \<longleftrightarrow> pt_CacheWriteUnknown p = None"
  "patch_presence p AND 32 = 0 \<longleftrightarrow> pt_Output p = None"
  by (simp_all add: patch_presence_def word_ao_dist field_flag_and)

lemma int64_field_or: "int64 old \<Longrightarrow> (case v of None \<Rightarrow> True | Some x \<Rightarrow> int64 x) \<Longrightarrow> int64 (field_or v old)"
  by (simp add: field_or_def split: option.splits)

lemma tokens_int64_apply:
  "tokens_int64 (ac_tokens a) \<Longrightarrow> patch_int64 p \<Longrightarrow> tokens_int64 (ac_tokens (accumulator_apply p a))"
  by (simp add: tokens_int64_def token_fields_apply patch_int64_def)
    (simp add: patch_fields_def token_fields_def int64_field_or)

definition presence_ok :: "8 word \<Rightarrow> Tokens \<Rightarrow> bool" where
  "presence_ok w t \<longleftrightarrow>
     list_all (\<lambda>(b, x). w AND b \<noteq> 0 \<or> x = 0) (zip presence_bits (token_fields t))"

lemma presence_ok_apply:
  "presence_ok (ac_presence a) (ac_tokens a) \<Longrightarrow>
   presence_ok (ac_presence (accumulator_apply p a)) (ac_tokens (accumulator_apply p a))"
  unfolding presence_ok_def token_fields_apply ac_presence_apply
  by (simp add: presence_bits_def patch_fields_def token_fields_def word_ao_dist patch_presence_bit)
    (auto simp: field_or_def)

lemma acc_inv_alt:
  "acc_inv a \<longleftrightarrow> tokens_int64 (ac_tokens a) \<and> CheckedTotal (ac_tokens a) \<noteq> None \<and>
     presence_ok (ac_presence a) (ac_tokens a)"
  by (simp add: acc_inv_def presence_ok_def)

lemma acc_inv_init: "acc_inv Accumulator0"
  by (simp add: acc_inv_def Accumulator0_def Tokens0_def tokens_int64_def token_fields_def
      CheckedTotal_def CheckedAdd_eq MaxInt64_def presence_bits_def)

lemma acc_inv_Replace: "acc_inv a \<Longrightarrow> patch_int64 p \<Longrightarrow> acc_inv (snd (ReplaceSnapshot p a))"
  using acc_inv_init tokens_int64_apply [of Accumulator0 p]
    tokens_int64_apply [of "Accumulator0\<lparr>ac_diagnostics := pt_Diagnostics p, ac_final := pt_Final p\<rparr>" p]
    presence_ok_apply [of "Accumulator0\<lparr>ac_diagnostics := pt_Diagnostics p, ac_final := pt_Final p\<rparr>" p]
  by (simp add: ReplaceSnapshot_def Let_def acc_inv_alt)

lemma acc_inv_Merge: "acc_inv a \<Longrightarrow> patch_int64 p \<Longrightarrow> acc_inv (snd (MergePatch p a))"
  using tokens_int64_apply [of a p] presence_ok_apply [of a p]
  by (simp add: MergePatch_def Let_def acc_inv_alt)

lemma acc_inv_Finalize: "acc_inv a \<Longrightarrow> acc_inv (snd (Finalize b a))"
  by (simp add: Finalize_def Let_def acc_inv_alt)

lemma acc_inv_step: "acc_inv a \<Longrightarrow> call_int64 c \<Longrightarrow> acc_inv (acc_step a c)"
  by (cases c) (simp_all add: acc_inv_Replace acc_inv_Merge acc_inv_Finalize)

lemma acc_inv_run: "acc_inv a \<Longrightarrow> list_all call_int64 cs \<Longrightarrow> acc_inv (acc_run a cs)"
  by (induction cs arbitrary: a) (simp_all add: acc_inv_step)

lemma acc_finalized_step: "ac_finalized a \<Longrightarrow> acc_step a c = a"
  by (cases c) (simp_all add: ReplaceSnapshot_def MergePatch_def Finalize_def)

lemma acc_finalized_run: "ac_finalized a \<Longrightarrow> acc_run a cs = a"
  by (induction cs) (simp_all add: acc_finalized_step)

section \<open>Properties\<close>

text \<open>
  Whatever calls a request makes on its accumulator, the published
  token breakdown never overflows: every field is a non-negative count, the
  total of the six fields fits in an \<open>int64\<close>, and a field no patch has set is
  still zero.
\<close>

theorem accumulator_total_safe:
  assumes "list_all call_int64 calls" and "a = acc_run Accumulator0 calls"
  shows "tokens_nonneg (ac_tokens a)
    \<and> CheckedTotal (ac_tokens a) = Some (sum_list (token_fields (ac_tokens a)))
    \<and> sum_list (token_fields (ac_tokens a)) \<le> MaxInt64
    \<and> (\<forall>i < 6. ac_presence a AND presence_bits ! i = 0 \<longrightarrow> token_fields (ac_tokens a) ! i = 0)"
proof -
  have inv: "acc_inv a" using acc_inv_run [OF acc_inv_init assms(1)] assms(2) by simp
  then have int: "tokens_int64 (ac_tokens a)" and tot: "CheckedTotal (ac_tokens a) \<noteq> None"
    by (simp_all add: acc_inv_def)
  have len: "length presence_bits = 6" by (simp add: presence_bits_def)
  have "ac_presence a AND presence_bits ! i \<noteq> 0 \<or> token_fields (ac_tokens a) ! i = 0" if "i < 6" for i
    using inv that len by (auto simp: acc_inv_def list_all_length)
  then show ?thesis
    using tot tokens_total_cases [OF int] CheckedTotal_Some_iff [OF int] by blast
qed

definition sample_patch :: Patch where
  "sample_patch = \<lparr>pt_UncachedInput = Some 12, pt_CacheRead = None, pt_CacheWrite5M = None,
     pt_CacheWrite1H = None, pt_CacheWriteUnknown = None, pt_Output = Some 7,
     pt_Final = True, pt_Diagnostics = Diagnostics0\<rparr>"

lemma sample_patch_int64: "patch_int64 sample_patch"
  by (simp add: patch_int64_def patch_fields_def sample_patch_def int64_defs)

theorem accumulator_total_safe_witness:
  "tokens_nonneg (ac_tokens (acc_run Accumulator0 [CallMerge sample_patch, CallFinalize True]))"
  using accumulator_total_safe [of "[CallMerge sample_patch, CallFinalize True]"]
  by (simp add: sample_patch_int64)

text \<open>
  A usage result is published at most once: after a call of
  \<open>Finalize\<close> every later call reports that the accumulator is finalized, returns
  no second result, and leaves the accumulator as it is.
\<close>

theorem finalize_publishes_once:
  assumes "a = acc_run (snd (Finalize b a0)) calls"
  shows "fst (Finalize b' a) = None \<and> snd (Finalize b' a) = a
    \<and> ReplaceSnapshot p a = (Some ErrFinalized, a) \<and> MergePatch p a = (Some ErrFinalized, a)
    \<and> a = snd (Finalize b a0)"
proof -
  have "ac_finalized (snd (Finalize b a0))" by (simp add: Finalize_def Let_def)
  then have "a = snd (Finalize b a0)" and "ac_finalized a"
    using acc_finalized_run assms by simp_all
  then show ?thesis by (simp add: Finalize_def ReplaceSnapshot_def MergePatch_def)
qed

theorem finalize_publishes_once_witness:
  "fst (Finalize True (acc_run (snd (Finalize True Accumulator0)) [CallMerge sample_patch])) = None"
  using finalize_publishes_once [OF refl] by blast

definition last_present :: "int option list \<Rightarrow> int \<Rightarrow> int" where
  "last_present vs old = foldl (\<lambda>x v. field_or v x) old vs"

lemma MergePatch_ok:
  assumes "fst (MergePatch p a) = None"
  shows "token_fields (ac_tokens (snd (MergePatch p a))) =
      map2 field_or (patch_fields p) (token_fields (ac_tokens a))"
    and "ac_final (snd (MergePatch p a)) \<longleftrightarrow> ac_final a \<or> pt_Final p"
  using assms by (auto simp: MergePatch_def Let_def token_fields_apply split: if_splits)

fun merge_all :: "Accumulator \<Rightarrow> Patch list \<Rightarrow> UsageError option \<times> Accumulator" where
  "merge_all a [] = (None, a)"
| "merge_all a (p # ps) = (case MergePatch p a of (None, a') \<Rightarrow> merge_all a' ps | (Some e, a') \<Rightarrow> (Some e, a'))"

lemma merge_all_fields:
  assumes "merge_all a ps = (None, a')" and "i < 6"
  shows "token_fields (ac_tokens a') ! i =
      last_present (map (\<lambda>p. patch_fields p ! i) ps) (token_fields (ac_tokens a) ! i)
    \<and> (ac_final a' \<longleftrightarrow> ac_final a \<or> (\<exists>p \<in> set ps. pt_Final p))"
  using assms
proof (induction ps arbitrary: a)
  case Nil
  then show ?case by (simp add: last_present_def)
next
  case (Cons p ps)
  then obtain a1 where step: "MergePatch p a = (None, a1)" and rest: "merge_all a1 ps = (None, a')"
    by (auto split: prod.splits option.splits)
  have "token_fields (ac_tokens a1) ! i = field_or (patch_fields p ! i) (token_fields (ac_tokens a) ! i)"
    using MergePatch_ok(1) [of p a] step Cons.prems(2) by simp
  moreover have "ac_final a1 \<longleftrightarrow> ac_final a \<or> pt_Final p" using MergePatch_ok(2) [of p a] step by simp
  ultimately show ?case using Cons.IH [OF rest Cons.prems(2)] by (auto simp: last_present_def)
qed

text \<open>
  Merging patches is last-writer-wins per field: after a sequence
  of patches that are all accepted, every token field holds the value of the
  last patch that carries it, and its old value when no patch does; the result
  is final exactly when some patch was. A rejected call changes nothing.
\<close>

theorem merge_last_writer_wins:
  assumes "merge_all a ps = (e, a')" and "i < 6"
  shows "(e = None \<longrightarrow>
      token_fields (ac_tokens a') ! i =
        last_present (map (\<lambda>p. patch_fields p ! i) ps) (token_fields (ac_tokens a) ! i)
      \<and> (ac_final a' \<longleftrightarrow> ac_final a \<or> (\<exists>p \<in> set ps. pt_Final p)))
    \<and> (\<forall>p. fst (MergePatch p a) \<noteq> None \<longrightarrow> snd (MergePatch p a) = a)"
  using merge_all_fields [of a ps a' i] assms by (auto simp: MergePatch_def Let_def split: if_splits)

end
