(* ===== verification/Pricing_Amount.thy ===== *)
theory Pricing_Amount
  imports Usage
begin

text \<open>
  Money arithmetic (\<open>src/internal/pricing/nanousd.go\<close>): amounts in billionths of
  one USD as \<open>int64\<close>, their decimal notation in both directions, the rounded cost
  of one usage component and the checked addition of costs. The source computes
  on \<open>big.Int\<close>, which is \<open>int\<close> here; every conversion back to \<open>int64\<close> is
  guarded by \<open>IsInt64\<close>.
\<close>

type_synonym NanoUSD = int

record Multiplier =
  mu_Numerator :: int
  mu_Denominator :: int

definition nanoUSDPerUSD :: int where "nanoUSDPerUSD = 1000000000"
definition tokensPerMillion :: int where "tokensPerMillion = 1000000"

section \<open>Decimal notation\<close>

definition digit_char :: "nat \<Rightarrow> char" where
  "digit_char d = char_of (48 + d)"

text \<open>\<open>strconv.FormatInt\<close> and \<open>big.Int.String\<close> on a non-negative number.\<close>

fun decimal :: "nat \<Rightarrow> string" where
  "decimal n = (if n < 10 then [digit_char n] else decimal (n div 10) @ [digit_char (n mod 10)])"

declare decimal.simps [simp del]

definition decimalDigits :: "string \<Rightarrow> bool" where
  "decimalDigits s \<longleftrightarrow> list_all is_digit s"

definition zeros :: "nat \<Rightarrow> string" where
  "zeros n = replicate n (CHR ''0'')"

definition TrimRight0 :: "string \<Rightarrow> string" where
  "TrimRight0 s = rev (dropWhile (\<lambda>c. c = CHR ''0'') (rev s))"

text \<open>\<open>strings.Cut\<close> at the first point: before, after, and whether there is one.\<close>

definition CutPoint :: "string \<Rightarrow> string \<times> string \<times> bool" where
  "CutPoint s =
     (let before = takeWhile (\<lambda>c. c \<noteq> CHR ''.'') s;
          rest = dropWhile (\<lambda>c. c \<noteq> CHR ''.'') s
      in if rest = [] then (s, [], False) else (before, tl rest, True))"

datatype USDError = USDNotDecimal | USDTooManyPlaces | USDNotNonNegative | USDOutOfRange

definition ParseUSD :: "string \<Rightarrow> USDError + NanoUSD" where
  "ParseUSD value =
     (if value = [] \<or> TrimSpace value \<noteq> value then Inl USDNotDecimal
      else case CutPoint value of (integer, fraction, hasFraction) \<Rightarrow>
        if integer = [] \<or> (hasFraction \<and> fraction = []) \<or> ContainsSub fraction ''.''
           \<or> length fraction > 9 then Inl USDTooManyPlaces
        else if \<not> decimalDigits integer \<or> (hasFraction \<and> \<not> decimalDigits fraction)
        then Inl USDNotNonNegative
        else
          let amount = int (decimal_value (integer @ fraction @ zeros (9 - length fraction)))
          in if \<not> int64 amount then Inl USDOutOfRange else Inr amount)"

definition FormatUSD :: "NanoUSD \<Rightarrow> string" where
  "FormatUSD value =
     (let negative = value < 0;
          amount = (if negative then - value else value);
          whole = amount div nanoUSDPerUSD;
          fraction = amount mod nanoUSDPerUSD;
          prefix = (if negative then ''-'' else [])
      in if fraction = 0 then prefix @ decimal (nat whole)
         else
           let text0 = decimal (nat fraction);
               text1 = zeros (9 - length text0) @ text0;
               text2 = TrimRight0 text1
           in prefix @ decimal (nat whole) @ ''.'' @ text2)"

section \<open>Component cost and checked addition\<close>

definition QuoteComponent :: "int \<Rightarrow> NanoUSD \<Rightarrow> Multiplier \<Rightarrow> NanoUSD option" where
  "QuoteComponent tokens price multiplier =
     (if tokens < 0 \<or> price < 0 \<or> mu_Numerator multiplier \<le> 0 \<or> mu_Denominator multiplier \<le> 0
      then None
      else
        let numerator = tokens * price * mu_Numerator multiplier;
            denominator = tokensPerMillion * mu_Denominator multiplier;
            quotient0 = numerator sdiv denominator;
            remainder = numerator smod denominator;
            quotient = (if remainder * 2 \<ge> denominator then quotient0 + 1 else quotient0)
        in if quotient < 0 \<or> \<not> int64 quotient then None else Some quotient)"

definition CheckedAddNanoUSD :: "NanoUSD \<Rightarrow> NanoUSD \<Rightarrow> NanoUSD option" where
  "CheckedAddNanoUSD left right =
     (if left < 0 \<or> right < 0 \<or> left > wrap64 (MaxInt64 - right) then None
      else Some (wrap64 (left + right)))"

section \<open>Lemmas on digits\<close>

lemma of_char_digit [simp]: "d < 10 \<Longrightarrow> of_char (digit_char d) = (48 + d :: nat)"
  by (simp add: digit_char_def)

lemma is_digit_digit_char [simp]: "d < 10 \<Longrightarrow> is_digit (digit_char d)"
  by (simp add: is_digit_def)

lemma is_digit_zero [simp]: "is_digit (CHR ''0'')"
  by (simp add: is_digit_def)

lemma decimal_digits: "list_all is_digit (decimal n)"
  by (induction n rule: decimal.induct) (subst decimal.simps, auto)

lemma decimal_nonempty [simp]: "decimal n \<noteq> []"
  by (subst decimal.simps) simp

lemma decimal_value_Nil [simp]: "decimal_value [] = 0"
  by (simp add: decimal_value_def)

lemma decimal_value_snoc [simp]:
  "decimal_value (s @ [c]) = decimal_value s * 10 + ((of_char c :: nat) - 48)"
  by (simp add: decimal_value_def)

lemma decimal_value_append:
  "decimal_value (s @ t) = decimal_value s * 10 ^ length t + decimal_value t"
proof (induction t rule: rev_induct)
  case (snoc c t)
  have "decimal_value (s @ t @ [c]) = decimal_value ((s @ t) @ [c])" by simp
  also have "\<dots> = decimal_value (s @ t) * 10 + ((of_char c :: nat) - 48)"
    by (rule decimal_value_snoc)
  finally show ?case using snoc by (simp add: algebra_simps)
qed simp

lemma decimal_value_decimal [simp]: "decimal_value (decimal n) = n"
proof (induction n rule: decimal.induct)
  case (1 n)
  show ?case
  proof (cases "n < 10")
    case True
    then show ?thesis by (subst decimal.simps) (simp add: decimal_value_def)
  next
    case False
    with "1.IH" have "decimal_value (decimal (n div 10)) = n div 10" by simp
    with False show ?thesis by (subst decimal.simps) (simp add: div_mult_mod_eq)
  qed
qed

lemma decimal_value_zeros [simp]: "decimal_value (zeros n) = 0"
proof (induction n)
  case (Suc n)
  have "decimal_value ([CHR ''0''] @ zeros n) = 0"
    unfolding decimal_value_append using Suc by (simp add: decimal_value_def)
  then show ?case by (simp add: zeros_def)
qed (simp add: zeros_def)

lemma length_decimal: "n < 10 ^ Suc k \<Longrightarrow> length (decimal n) \<le> Suc k"
proof (induction k arbitrary: n)
  case 0
  then show ?case by (subst decimal.simps) simp
next
  case (Suc k)
  show ?case
  proof (cases "n < 10")
    case True
    then show ?thesis by (subst decimal.simps) simp
  next
    case False
    have "n div 10 < 10 ^ Suc k" using Suc.prems by (simp add: less_mult_imp_div_less)
    then have "length (decimal (n div 10)) \<le> Suc k" by (rule Suc.IH)
    with False show ?thesis by (subst decimal.simps) simp
  qed
qed

lemma TrimRight0_pad: "\<exists>k. TrimRight0 s @ zeros k = s"
proof -
  let ?z = "takeWhile (\<lambda>c. c = CHR ''0'') (rev s)"
  have "?z = zeros (length ?z)"
    unfolding zeros_def by (rule replicate_length_same [symmetric]) (auto dest: set_takeWhileD)
  moreover have "rev (zeros k) = zeros k" for k by (simp add: zeros_def)
  moreover have "TrimRight0 s @ rev ?z = s"
    unfolding TrimRight0_def by (metis rev_append rev_rev_ident takeWhile_dropWhile_id)
  ultimately show ?thesis by metis
qed

lemma length_zeros [simp]: "length (zeros n) = n"
  by (simp add: zeros_def)

lemma TrimRight0_Nil_value: "TrimRight0 s = [] \<Longrightarrow> decimal_value s = 0"
  using TrimRight0_pad [of s] by auto

lemma TrimRight0_digits: "list_all is_digit s \<Longrightarrow> list_all is_digit (TrimRight0 s)"
  unfolding TrimRight0_def list_all_iff by (metis set_dropWhileD set_rev)

lemma digit_not_point: "list_all is_digit s \<Longrightarrow> CHR ''.'' \<notin> set s"
  by (auto simp: list_all_iff is_digit_def)

lemma ContainsSub_char: "ContainsSub s [c] \<longleftrightarrow> c \<in> set s"
  by (induction s) auto

lemma CutPoint_none: "CHR ''.'' \<notin> set s \<Longrightarrow> CutPoint s = (s, [], False)"
  by (auto simp: CutPoint_def Let_def)

lemma CutPoint_some:
  assumes "CHR ''.'' \<notin> set s"
  shows "CutPoint (s @ ''.'' @ t) = (s, t, True)"
proof -
  have "takeWhile (\<lambda>c. c \<noteq> CHR ''.'') (s @ ''.'' @ t) = s"
    and "dropWhile (\<lambda>c. c \<noteq> CHR ''.'') (s @ ''.'' @ t) = ''.'' @ t"
    using assms by (auto simp: takeWhile_append dropWhile_append)
  then show ?thesis by (simp add: CutPoint_def)
qed

lemma spaces_not_digits:
  "is_digit c \<Longrightarrow> c \<notin> set (map hd utf8_spaces) \<and> c \<notin> set (map last utf8_spaces)"
  by (auto simp: utf8_spaces_def is_digit_def)

lemma TrimSpace_digits:
  "s \<noteq> [] \<Longrightarrow> is_digit (hd s) \<Longrightarrow> is_digit (last s) \<Longrightarrow> TrimSpace s = s"
  using spaces_not_digits by (intro TrimSpace_id) auto

text \<open>What \<open>ParseUSD\<close> does on the two shapes of a canonical decimal.\<close>

lemma ParseUSD_whole:
  assumes "list_all is_digit s" and "s \<noteq> []"
  shows "ParseUSD s = (let v = int (decimal_value s) * nanoUSDPerUSD in
    if int64 v then Inr v else Inl USDOutOfRange)"
proof -
  have "TrimSpace s = s" using assms by (intro TrimSpace_digits) (auto simp: list_all_iff)
  moreover have "CutPoint s = (s, [], False)" using assms by (simp add: CutPoint_none digit_not_point)
  ultimately show ?thesis using assms
    by (simp add: ParseUSD_def Let_def decimalDigits_def decimal_value_append nanoUSDPerUSD_def)
qed

lemma ParseUSD_fraction:
  assumes "list_all is_digit s" and "s \<noteq> []"
    and "list_all is_digit t" and "t \<noteq> []" and "length t \<le> 9"
  shows "ParseUSD (s @ ''.'' @ t) =
    (let v = int (decimal_value s) * nanoUSDPerUSD + int (decimal_value (t @ zeros (9 - length t))) in
     if int64 v then Inr v else Inl USDOutOfRange)"
proof -
  have "TrimSpace (s @ ''.'' @ t) = s @ ''.'' @ t"
    using assms by (intro TrimSpace_digits) (auto simp: list_all_iff)
  moreover have "\<not> ContainsSub t ''.''" using assms by (simp add: ContainsSub_char digit_not_point)
  moreover have "length (t @ zeros (9 - length t)) = 9" using assms by simp
  ultimately show ?thesis using assms
    by (simp add: ParseUSD_def Let_def decimalDigits_def CutPoint_some digit_not_point
        decimal_value_append [of s] nanoUSDPerUSD_def del: append_Cons)
qed

text \<open>The nine digits of a fraction, padded, trimmed and padded again.\<close>

lemma fraction_text:
  assumes "0 < f" and "f < 1000000000"
  defines "padded \<equiv> zeros (9 - length (decimal f)) @ decimal f"
  shows "list_all is_digit (TrimRight0 padded)" and "TrimRight0 padded \<noteq> []"
    and "length (TrimRight0 padded) \<le> 9"
    and "decimal_value (TrimRight0 padded @ zeros (9 - length (TrimRight0 padded))) = f"
proof -
  have "length (decimal f) \<le> 9" using length_decimal [of f 8] assms(2) by simp
  then have len: "length padded = 9" by (simp add: padded_def)
  have digits: "list_all is_digit padded"
    using decimal_digits [of f] by (auto simp: padded_def zeros_def list_all_iff)
  have val: "decimal_value padded = f" by (simp add: padded_def decimal_value_append)
  obtain k where k: "TrimRight0 padded @ zeros k = padded" using TrimRight0_pad by blast
  then have eq9: "length (TrimRight0 padded) + k = 9" using len by (metis length_append length_zeros)
  then have "9 - length (TrimRight0 padded) = k" by simp
  with k val show "decimal_value (TrimRight0 padded @ zeros (9 - length (TrimRight0 padded))) = f" by simp
  show "list_all is_digit (TrimRight0 padded)" using digits by (rule TrimRight0_digits)
  show "TrimRight0 padded \<noteq> []" using TrimRight0_Nil_value [of padded] val assms(1) by auto
  show "length (TrimRight0 padded) \<le> 9" using eq9 by simp
qed

lemma ParseUSD_FormatUSD_nonneg:
  assumes "0 \<le> v" and "v \<le> MaxInt64"
  shows "ParseUSD (FormatUSD v) = Inr v"
proof -
  define w f where "w = v div nanoUSDPerUSD" and "f = v mod nanoUSDPerUSD"
  have v: "w * nanoUSDPerUSD + f = v" by (simp add: w_def f_def)
  have w: "0 \<le> w" using assms by (simp add: w_def nanoUSDPerUSD_def pos_imp_zdiv_nonneg_iff)
  have f: "0 \<le> f" "f < 1000000000" by (simp_all add: f_def nanoUSDPerUSD_def)
  have int64: "int64 v" using assms by (simp add: int64_nonneg)
  show ?thesis
  proof (cases "f = 0")
    case True
    then have "FormatUSD v = decimal (nat w)"
      using assms by (simp add: FormatUSD_def Let_def w_def f_def)
    then show ?thesis
      using ParseUSD_whole [OF decimal_digits decimal_nonempty, of "nat w"] v w True int64
      by (simp add: Let_def)
  next
    case False
    let ?t = "TrimRight0 (zeros (9 - length (decimal (nat f))) @ decimal (nat f))"
    have fmt: "FormatUSD v = decimal (nat w) @ ''.'' @ ?t"
      using assms False by (simp add: FormatUSD_def Let_def w_def f_def)
    have nf: "0 < nat f" "nat f < 1000000000" using False f by auto
    show ?thesis
      unfolding fmt
      using ParseUSD_fraction [OF decimal_digits decimal_nonempty fraction_text(1-3) [OF nf], of "nat w"]
        fraction_text(4) [OF nf] v w f int64
      by (simp add: Let_def)
  qed
qed

lemma ParseUSD_range: "ParseUSD s = Inr v \<Longrightarrow> 0 \<le> v \<and> v \<le> MaxInt64"
  by (auto simp: ParseUSD_def Let_def int64_def split: if_splits prod.splits)

lemma ParseUSD_minus: "ParseUSD (CHR ''-'' # s) \<noteq> Inr v"
proof -
  have "decimalDigits (takeWhile (\<lambda>c. c \<noteq> CHR ''.'') (CHR ''-'' # s)) = False"
    and "decimalDigits (CHR ''-'' # s) = False"
    by (simp_all add: decimalDigits_def is_digit_def)
  then show ?thesis by (auto simp: ParseUSD_def CutPoint_def Let_def split: if_splits)
qed

section \<open>Rounding and addition\<close>

lemma sdiv_nonneg: "0 \<le> a \<Longrightarrow> 0 < b \<Longrightarrow> a sdiv b = a div b" for a b :: int
  by (cases "a = 0") (simp_all add: signed_divide_int_def)

lemma smod_nonneg: "0 \<le> a \<Longrightarrow> 0 < b \<Longrightarrow> a smod b = a mod b" for a b :: int
  by (cases "a = 0") (simp_all add: signed_modulo_int_def)

lemma round_half_up:
  fixes n d :: int
  assumes "0 < d"
  shows "(if n mod d * 2 \<ge> d then n div d + 1 else n div d) = (2 * n + d) div (2 * d)"
proof -
  define q r where "q = n div d" and "r = n mod d"
  have n: "n = d * q + r" by (simp add: q_def r_def)
  have r: "0 \<le> r" "r < d" using assms by (simp_all add: r_def)
  have "(2 * n + d) div (2 * d) = (if r * 2 \<ge> d then q + 1 else q)"
  proof (cases "r * 2 \<ge> d")
    case True
    have "2 * n + d = 2 * d * (q + 1) + (2 * r - d)" by (simp add: n algebra_simps)
    from int_div_pos_eq [OF this] have "(2 * n + d) div (2 * d) = q + 1" using True r by linarith
    with True show ?thesis by simp
  next
    case False
    have "2 * n + d = 2 * d * q + (2 * r + d)" by (simp add: n algebra_simps)
    from int_div_pos_eq [OF this] have "(2 * n + d) div (2 * d) = q" using False r by linarith
    with False show ?thesis by simp
  qed
  then show ?thesis by (simp add: q_def r_def)
qed

definition quote_args :: "int \<Rightarrow> NanoUSD \<Rightarrow> Multiplier \<Rightarrow> bool" where
  "quote_args t p m \<longleftrightarrow> 0 \<le> t \<and> 0 \<le> p \<and> 0 < mu_Numerator m \<and> 0 < mu_Denominator m"

definition exact_cost :: "int \<Rightarrow> NanoUSD \<Rightarrow> Multiplier \<Rightarrow> int" where
  "exact_cost t p m = (2 * (t * p * mu_Numerator m) + tokensPerMillion * mu_Denominator m)
     div (2 * (tokensPerMillion * mu_Denominator m))"

lemma exact_cost_nonneg: "quote_args t p m \<Longrightarrow> 0 \<le> exact_cost t p m"
  by (simp add: exact_cost_def quote_args_def tokensPerMillion_def pos_imp_zdiv_nonneg_iff)

lemma QuoteComponent_eq:
  "QuoteComponent t p m =
     (if quote_args t p m \<and> exact_cost t p m \<le> MaxInt64 then Some (exact_cost t p m) else None)"
proof (cases "quote_args t p m")
  case True
  define n d where "n = t * p * mu_Numerator m" and "d = tokensPerMillion * mu_Denominator m"
  have n: "0 \<le> n" and d: "0 < d"
    using True by (simp_all add: n_def d_def quote_args_def tokensPerMillion_def)
  have q: "(if n smod d * 2 \<ge> d then n sdiv d + 1 else n sdiv d) = exact_cost t p m"
    unfolding exact_cost_def n_def [symmetric] d_def [symmetric]
    unfolding sdiv_nonneg [OF n d] smod_nonneg [OF n d] by (rule round_half_up [OF d])
  have range: "\<not> (exact_cost t p m < 0 \<or> \<not> int64 (exact_cost t p m)) \<longleftrightarrow> exact_cost t p m \<le> MaxInt64"
    using exact_cost_nonneg [OF True] by (auto simp: int64_defs)
  have guard: "\<not> (t < 0 \<or> p < 0 \<or> mu_Numerator m \<le> 0 \<or> mu_Denominator m \<le> 0)"
    using True by (auto simp: quote_args_def)
  show ?thesis
    unfolding QuoteComponent_def Let_def n_def [symmetric] d_def [symmetric] q
    using guard range True by auto
qed (auto simp: QuoteComponent_def quote_args_def)

lemma CheckedAddNanoUSD_eq: "CheckedAddNanoUSD l r = CheckedAdd l r"
  by (simp add: CheckedAddNanoUSD_def CheckedAdd_def)

interpretation cost_add: checked_addition CheckedAddNanoUSD
  unfolding CheckedAddNanoUSD_eq by (rule usage_add.checked_addition_axioms)

section \<open>Properties\<close>

text \<open>
  Formatting and parsing an amount are inverse on the amounts the
  parser accepts: every non-negative \<open>int64\<close> amount survives the round trip, a
  parsed amount is in that range (so parsing, formatting and parsing again is
  stable), and the notation of a negative amount is never accepted.
\<close>

theorem usd_roundtrip:
  assumes "int64 v"
  shows "(0 \<le> v \<longrightarrow> ParseUSD (FormatUSD v) = Inr v)
    \<and> (v < 0 \<longrightarrow> isl (ParseUSD (FormatUSD v)))
    \<and> (\<forall>s u. ParseUSD s = Inr u \<longrightarrow> ParseUSD (FormatUSD u) = Inr u)"
proof -
  have "\<exists>rest. FormatUSD v = CHR ''-'' # rest" if "v < 0"
    using that by (auto simp: FormatUSD_def Let_def)
  then have "isl (ParseUSD (FormatUSD v))" if "v < 0"
    using that ParseUSD_minus by (metis isl_def obj_sumE)
  moreover have "ParseUSD (FormatUSD u) = Inr u" if "ParseUSD s = Inr u" for s u
    using ParseUSD_range [OF that] ParseUSD_FormatUSD_nonneg by blast
  ultimately show ?thesis
    using ParseUSD_FormatUSD_nonneg [of v] assms by (auto simp: int64_def)
qed

theorem usd_roundtrip_witness:
  "ParseUSD (FormatUSD 1050000000) = Inr 1050000000 \<and> FormatUSD 1050000000 = ''1.05''"
proof -
  have "FormatUSD 1050000000 = ''1.05''"
    by (simp add: FormatUSD_def Let_def nanoUSDPerUSD_def decimal.simps zeros_def TrimRight0_def
        digit_char_def char_of_eq_iff)
  then show ?thesis using usd_roundtrip [of 1050000000] by (simp add: int64_defs)
qed

text \<open>
  Property C27. The cost of a usage component is the exact rational price
  \<open>tokens * price * numerator / (10^6 * denominator)\<close> rounded half up to a whole
  nano USD: a quote is within half a unit of the exact value, there is a quote
  whenever the arguments are in the domain and that rounded value fits in an
  \<open>int64\<close>, and there is none otherwise.
\<close>

theorem quote_component_rounds_half_up:
  "(QuoteComponent t p m = Some c \<longrightarrow>
      quote_args t p m \<and> 0 \<le> c \<and> c \<le> MaxInt64
      \<and> (2 * c - 1) * (tokensPerMillion * mu_Denominator m) \<le> 2 * (t * p * mu_Numerator m)
      \<and> 2 * (t * p * mu_Numerator m) < (2 * c + 1) * (tokensPerMillion * mu_Denominator m))
   \<and> (QuoteComponent t p m = None \<longleftrightarrow> \<not> quote_args t p m \<or> MaxInt64 < exact_cost t p m)"
proof -
  define n d where "n = t * p * mu_Numerator m" and "d = tokensPerMillion * mu_Denominator m"
  have near: "(2 * exact_cost t p m - 1) * d \<le> 2 * n \<and> 2 * n < (2 * exact_cost t p m + 1) * d"
    if "quote_args t p m"
  proof -
    have d: "0 < d" using that by (simp add: d_def quote_args_def tokensPerMillion_def)
    define q r where "q = (2 * n + d) div (2 * d)" and "r = (2 * n + d) mod (2 * d)"
    have split: "2 * n + d = 2 * d * q + r" by (simp add: q_def r_def)
    have r: "0 \<le> r" "r < 2 * d" using d by (simp_all add: r_def)
    have "exact_cost t p m = q" by (simp add: exact_cost_def q_def n_def d_def)
    with split r show ?thesis by (simp add: algebra_simps)
  qed
  show ?thesis
    using near exact_cost_nonneg [of t p m] unfolding n_def d_def
    by (auto simp: QuoteComponent_eq not_le)
qed

theorem quote_component_rounds_half_up_witness:
  "QuoteComponent 1500 3000000001 \<lparr>mu_Numerator = 8, mu_Denominator = 5\<rparr> = Some 7200000
   \<and> (2 * 7200000 - 1) * (tokensPerMillion * 5) \<le> 2 * (1500 * 3000000001 * 8)"
proof -
  have q: "QuoteComponent 1500 3000000001 \<lparr>mu_Numerator = 8, mu_Denominator = 5\<rparr> = Some 7200000"
    by code_simp
  with quote_component_rounds_half_up [of 1500 3000000001 "\<lparr>mu_Numerator = 8, mu_Denominator = 5\<rparr>" 7200000]
  show ?thesis by simp
qed

end
