(* ===== verification/Pricing_Table.thy ===== *)
theory Pricing_Table
  imports Pricing_Amount
begin

text \<open>
  Price tables (\<open>src/internal/pricing/types.go\<close> and \<open>compile.go\<close>): the data of a
  pricing rule, its validation and the exact lookup table built from a list of
  rules. A table is a map from identities to rules; the pointer receiver of
  \<open>Lookup\<close> may be nil, which is \<open>None\<close> here. The map of mode schedules is
  ranged over, so it is an association list.
\<close>

type_synonym Mode = string

definition ModeStandard :: Mode where "ModeStandard = ''standard''"
definition ModeFast :: Mode where "ModeFast = ''fast''"

record Price =
  pr_NanoUSDPerMillion :: NanoUSD
  pr_Set :: bool

record Prices =
  ps_Input :: Price
  ps_Output :: Price
  ps_CacheRead :: Price
  ps_CacheWrite :: Price

record Identity =
  id_ChannelID :: string
  id_ModelID :: string

record ReceiptRule =
  rr_ScopeKey :: string
  rr_ChannelID :: string
  rr_ModelID :: string

record ContextTier =
  ct_InputThresholdTokens :: int
  ct_Prices :: Prices

record Schedule =
  sc_Prices :: Prices
  sc_ContextTiers :: "ContextTier list"

record Rule =
  ru_Identity :: Identity
  ru_Prices :: Prices
  ru_ContextTiers :: "ContextTier list"
  ru_ModeSchedules :: "(Mode, Schedule) gomap"
  ru_IsManual :: bool

type_synonym Table = "Identity \<rightharpoonup> Rule"

datatype PricingError =
    ErrProviderLength | ErrProviderSegments | ErrProviderChars
  | ErrGroupID
  | ErrDuplicateIdentity Identity
  | ErrInvalidMode Mode | ErrModeNoPrice Mode | ErrFastTiers | ErrModeTiers Mode PricingError
  | ErrChannelLength | ErrChannelSpace | ErrChannelControl
  | ErrModelLength | ErrModelSpace | ErrModelControl
  | ErrReceiptChannel | ErrReceiptScopeRequired | ErrReceiptScope | ErrReceiptVersion
  | ErrScopeKey string
  | ErrNegativePrice
  | ErrTierThreshold | ErrTierOrder | ErrTierNoPrice

definition maxProviderIDBytes :: nat where "maxProviderIDBytes = 246"
definition maxChannelIDBytes :: nat where "maxChannelIDBytes = 64"
definition maxModelIDBytes :: nat where "maxModelIDBytes = 255"
definition maxModeBytes :: nat where "maxModeBytes = 64"

section \<open>Names\<close>

definition is_lower :: "char \<Rightarrow> bool" where
  "is_lower c \<longleftrightarrow> 97 \<le> (of_char c :: nat) \<and> (of_char c :: nat) \<le> 122"

text \<open>The byte loop of \<open>Mode.Valid\<close>; \<open>i\<close> is the index and \<open>n\<close> the length.\<close>

fun mode_chars :: "nat \<Rightarrow> nat \<Rightarrow> string \<Rightarrow> bool" where
  "mode_chars n i [] = True"
| "mode_chars n i (c # cs) =
     (if is_lower c \<or> is_digit c then mode_chars n (Suc i) cs
      else if i > 0 \<and> int i < int n - 1 \<and> (c = CHR ''-'' \<or> c = CHR ''_'') then mode_chars n (Suc i) cs
      else False)"

definition Mode_Valid :: "Mode \<Rightarrow> bool" where
  "Mode_Valid mode \<longleftrightarrow>
     \<not> (length mode = 0 \<or> length mode > maxModeBytes) \<and> mode_chars (length mode) 0 mode"

text \<open>The loop of \<open>ProviderScopeKey\<close>: the flag says that a segment has just begun.\<close>

fun provider_chars :: "bool \<Rightarrow> string \<Rightarrow> PricingError option" where
  "provider_chars separator [] = (if separator then Some ErrProviderSegments else None)"
| "provider_chars separator (c # cs) =
     (if is_lower c \<or> is_digit c then provider_chars False cs
      else if c = CHR ''.'' \<or> c = CHR ''-''
      then (if separator then Some ErrProviderSegments else provider_chars True cs)
      else Some ErrProviderChars)"

definition ProviderScopeKey :: "string \<Rightarrow> PricingError + string" where
  "ProviderScopeKey providerID =
     (if length providerID = 0 \<or> length providerID > maxProviderIDBytes then Inl ErrProviderLength
      else case provider_chars True providerID of
        Some e \<Rightarrow> Inl e
      | None \<Rightarrow> Inr (''provider:'' @ providerID))"

definition GroupScopeKey :: "nat \<Rightarrow> PricingError + string" where
  "GroupScopeKey groupID = (if groupID = 0 then Inl ErrGroupID else Inr (''group:'' @ decimal groupID))"

text \<open>A byte string contains the encoding of a control code point.\<close>

fun has_control :: "string \<Rightarrow> bool" where
  "has_control [] = False"
| "has_control [c] = (let n = of_char c :: nat in n < 32 \<or> n = 127)"
| "has_control (c # d # s) =
     (let n = of_char c :: nat; k = of_char d :: nat
      in n < 32 \<or> n = 127 \<or> (n = 194 \<and> 128 \<le> k \<and> k \<le> 159) \<or> has_control (d # s))"

definition validateChannelID :: "string \<Rightarrow> PricingError option" where
  "validateChannelID channelID =
     (if length channelID = 0 \<or> length channelID > maxChannelIDBytes then Some ErrChannelLength
      else if TrimSpace channelID \<noteq> channelID then Some ErrChannelSpace
      else if has_control channelID then Some ErrChannelControl
      else None)"

definition validateModelID :: "string \<Rightarrow> PricingError option" where
  "validateModelID modelID =
     (if length modelID = 0 \<or> length modelID > maxModelIDBytes then Some ErrModelLength
      else if TrimSpace modelID \<noteq> modelID then Some ErrModelSpace
      else if has_control modelID then Some ErrModelControl
      else None)"

definition validateIdentity :: "Identity \<Rightarrow> PricingError option" where
  "validateIdentity identity =
     (case validateChannelID (id_ChannelID identity) of
        Some e \<Rightarrow> Some e
      | None \<Rightarrow> validateModelID (id_ModelID identity))"

text \<open>\<open>strings.CutPrefix\<close> and \<open>strconv.ParseUint(_, 10, 64)\<close>.\<close>

definition CutPrefix :: "string \<Rightarrow> string \<Rightarrow> string option" where
  "CutPrefix s p = (if is_prefix p s then Some (drop (length p) s) else None)"

definition ParseUint :: "string \<Rightarrow> nat option" where
  "ParseUint s =
     (if s \<noteq> [] \<and> decimalDigits s \<and> decimal_value s < 2 ^ 64 then Some (decimal_value s) else None)"

definition validateScopeKey :: "string \<Rightarrow> PricingError option" where
  "validateScopeKey scopeKey =
     (case CutPrefix scopeKey ''provider:'' of
        Some providerID \<Rightarrow>
          (case ProviderScopeKey providerID of
             Inl _ \<Rightarrow> Some (ErrScopeKey scopeKey)
           | Inr canonical \<Rightarrow> if canonical \<noteq> scopeKey then Some (ErrScopeKey scopeKey) else None)
      | None \<Rightarrow>
          (case CutPrefix scopeKey ''group:'' of
             Some groupText \<Rightarrow>
               (case ParseUint groupText of
                  None \<Rightarrow> Some (ErrScopeKey scopeKey)
                | Some parsed \<Rightarrow>
                    (case GroupScopeKey parsed of
                       Inl _ \<Rightarrow> Some (ErrScopeKey scopeKey)
                     | Inr canonical \<Rightarrow>
                         if canonical \<noteq> scopeKey then Some (ErrScopeKey scopeKey) else None))
           | None \<Rightarrow> Some (ErrScopeKey scopeKey)))"

definition validateReceiptRule :: "ReceiptRule \<Rightarrow> int \<Rightarrow> PricingError option" where
  "validateReceiptRule rule schemaVersion =
     (if schemaVersion = 1 then
        (case validateModelID (rr_ModelID rule) of
           Some e \<Rightarrow> Some e
         | None \<Rightarrow>
             if rr_ChannelID rule \<noteq> [] then Some ErrReceiptChannel
             else if rr_ScopeKey rule = [] then Some ErrReceiptScopeRequired
             else validateScopeKey (rr_ScopeKey rule))
      else if schemaVersion = 2 then
        (case validateModelID (rr_ModelID rule) of
           Some e \<Rightarrow> Some e
         | None \<Rightarrow>
             if rr_ScopeKey rule \<noteq> [] then Some ErrReceiptScope
             else if rr_ChannelID rule \<noteq> [] then Some ErrReceiptChannel
             else None)
      else if schemaVersion = 3 \<or> schemaVersion = 4 then
        (if rr_ScopeKey rule \<noteq> [] then Some ErrReceiptScope
         else validateIdentity \<lparr>id_ChannelID = rr_ChannelID rule, id_ModelID = rr_ModelID rule\<rparr>)
      else Some ErrReceiptVersion)"

section \<open>Rules and tables\<close>

definition price_list :: "Prices \<Rightarrow> Price list" where
  "price_list p = [ps_Input p, ps_Output p, ps_CacheRead p, ps_CacheWrite p]"

definition validatePrices :: "Prices \<Rightarrow> PricingError option" where
  "validatePrices prices =
     (if list_ex (\<lambda>p. pr_NanoUSDPerMillion p < 0) (price_list prices) then Some ErrNegativePrice else None)"

definition hasSetPrice :: "Prices \<Rightarrow> bool" where
  "hasSetPrice p \<longleftrightarrow> pr_Set (ps_Input p) \<or> pr_Set (ps_Output p) \<or> pr_Set (ps_CacheRead p)
     \<or> pr_Set (ps_CacheWrite p)"

fun validate_tiers_from :: "int \<Rightarrow> ContextTier list \<Rightarrow> PricingError option" where
  "validate_tiers_from previous [] = None"
| "validate_tiers_from previous (tier # tiers) =
     (if ct_InputThresholdTokens tier < 0 then Some ErrTierThreshold
      else if ct_InputThresholdTokens tier \<le> previous then Some ErrTierOrder
      else case validatePrices (ct_Prices tier) of
        Some e \<Rightarrow> Some e
      | None \<Rightarrow>
          if \<not> hasSetPrice (ct_Prices tier) then Some ErrTierNoPrice
          else validate_tiers_from (ct_InputThresholdTokens tier) tiers)"

definition validateContextTiers :: "ContextTier list \<Rightarrow> PricingError option" where
  "validateContextTiers tiers = validate_tiers_from (- 1) tiers"

fun validate_modes :: "(Mode, Schedule) gomap \<Rightarrow> PricingError option" where
  "validate_modes [] = None"
| "validate_modes ((mode, schedule) # rest) =
     (if \<not> Mode_Valid mode \<or> mode = ModeStandard then Some (ErrInvalidMode mode)
      else case validatePrices (sc_Prices schedule) of
        Some e \<Rightarrow> Some e
      | None \<Rightarrow>
          if \<not> hasSetPrice (sc_Prices schedule) then Some (ErrModeNoPrice mode)
          else if mode = ModeFast \<and> sc_ContextTiers schedule \<noteq> [] then Some ErrFastTiers
          else case validateContextTiers (sc_ContextTiers schedule) of
            Some e \<Rightarrow> Some (ErrModeTiers mode e)
          | None \<Rightarrow> validate_modes rest)"

definition validateRule :: "Rule \<Rightarrow> PricingError option" where
  "validateRule rule =
     (case validateIdentity (ru_Identity rule) of
        Some e \<Rightarrow> Some e
      | None \<Rightarrow> (case validatePrices (ru_Prices rule) of
        Some e \<Rightarrow> Some e
      | None \<Rightarrow> (case validateContextTiers (ru_ContextTiers rule) of
        Some e \<Rightarrow> Some e
      | None \<Rightarrow> validate_modes (ru_ModeSchedules rule))))"

fun build_table :: "Table \<Rightarrow> Rule list \<Rightarrow> PricingError + Table" where
  "build_table table [] = Inr table"
| "build_table table (rule # rules) =
     (case validateRule rule of
        Some e \<Rightarrow> Inl e
      | None \<Rightarrow>
          if table (ru_Identity rule) \<noteq> None then Inl (ErrDuplicateIdentity (ru_Identity rule))
          else build_table (table(ru_Identity rule \<mapsto> rule)) rules)"

definition NewTable :: "Rule list \<Rightarrow> PricingError + Table" where
  "NewTable rules = build_table Map.empty rules"

definition Lookup :: "Table option \<Rightarrow> Identity \<Rightarrow> Rule option" where
  "Lookup table identity = (case table of None \<Rightarrow> None | Some rules \<Rightarrow> rules identity)"

section \<open>Valid rules and tables\<close>

definition prices_ok :: "Prices \<Rightarrow> bool" where
  "prices_ok p \<longleftrightarrow> list_all (\<lambda>x. 0 \<le> pr_NanoUSDPerMillion x) (price_list p)"

lemma validatePrices_None [simp]: "validatePrices p = None \<longleftrightarrow> prices_ok p"
  by (simp add: validatePrices_def prices_ok_def not_less [symmetric] list_ex_iff list_all_iff)

text \<open>Thresholds are non-negative and strictly increasing; every tier has a price.\<close>

definition tiers_ok :: "ContextTier list \<Rightarrow> bool" where
  "tiers_ok ts \<longleftrightarrow> sorted_wrt (<) (map ct_InputThresholdTokens ts)
     \<and> list_all (\<lambda>t. 0 \<le> ct_InputThresholdTokens t \<and> prices_ok (ct_Prices t) \<and> hasSetPrice (ct_Prices t)) ts"

lemma validate_tiers_from_None:
  "validate_tiers_from q ts = None \<Longrightarrow> tiers_ok ts \<and> (\<forall>t \<in> set ts. q < ct_InputThresholdTokens t)"
proof (induction ts arbitrary: q)
  case Nil
  then show ?case by (simp add: tiers_ok_def)
next
  case (Cons t ts)
  from Cons.prems have head: "0 \<le> ct_InputThresholdTokens t" "q < ct_InputThresholdTokens t"
      "prices_ok (ct_Prices t)" "hasSetPrice (ct_Prices t)"
    and rest: "validate_tiers_from (ct_InputThresholdTokens t) ts = None"
    by (auto split: if_splits option.splits)
  from Cons.IH [OF rest] have "tiers_ok ts" and above: "\<forall>u \<in> set ts. ct_InputThresholdTokens t < ct_InputThresholdTokens u"
    by auto
  with head show ?case by (force simp: tiers_ok_def)
qed

lemma validateContextTiers_None: "validateContextTiers ts = None \<Longrightarrow> tiers_ok ts"
  by (simp add: validateContextTiers_def validate_tiers_from_None)

lemma validate_modes_None:
  "validate_modes ms = None \<Longrightarrow> (m, s) \<in> set ms \<Longrightarrow>
     Mode_Valid m \<and> m \<noteq> ModeStandard \<and> prices_ok (sc_Prices s) \<and> tiers_ok (sc_ContextTiers s)"
  by (induction ms rule: validate_modes.induct)
    (auto split: if_splits option.splits dest: validateContextTiers_None)

definition rule_ok :: "Rule \<Rightarrow> bool" where
  "rule_ok r \<longleftrightarrow> validateIdentity (ru_Identity r) = None \<and> prices_ok (ru_Prices r)
     \<and> tiers_ok (ru_ContextTiers r)
     \<and> (\<forall>(m, s) \<in> set (ru_ModeSchedules r). Mode_Valid m \<and> m \<noteq> ModeStandard
          \<and> prices_ok (sc_Prices s) \<and> tiers_ok (sc_ContextTiers s))"

lemma validateRule_None: "validateRule r = None \<Longrightarrow> rule_ok r"
  by (auto simp: validateRule_def rule_ok_def dest: validate_modes_None validateContextTiers_None
      split: option.splits)

definition table_ok :: "Table \<Rightarrow> bool" where
  "table_ok t \<longleftrightarrow> (\<forall>i r. t i = Some r \<longrightarrow> ru_Identity r = i \<and> rule_ok r)"

lemma build_table_Cons:
  "build_table t (r # rs) = Inr t' \<longleftrightarrow>
     validateRule r = None \<and> t (ru_Identity r) = None
     \<and> build_table (t(ru_Identity r \<mapsto> r)) rs = Inr t'"
  by (simp split: option.split)

declare build_table.simps(2) [simp del]

lemma table_ok_insert: "table_ok t \<Longrightarrow> rule_ok r \<Longrightarrow> table_ok (t(ru_Identity r \<mapsto> r))"
  by (simp add: table_ok_def)

lemma build_table_ok: "build_table t rules = Inr t' \<Longrightarrow> table_ok t \<Longrightarrow> table_ok t'"
  by (induction rules arbitrary: t) (auto simp: build_table_Cons dest: validateRule_None intro: table_ok_insert)

text \<open>What the finished table answers: the rules it was built from, and no others.\<close>

lemma build_table_lookup:
  "build_table t rules = Inr t' \<Longrightarrow>
     distinct (map ru_Identity rules) \<and> (\<forall>r \<in> set rules. t (ru_Identity r) = None)
     \<and> t' = t ++ map_of (map (\<lambda>r. (ru_Identity r, r)) rules)"
proof (induction rules arbitrary: t)
  case Nil
  then show ?case by simp
next
  case (Cons rule rules)
  let ?t = "t(ru_Identity rule \<mapsto> rule)"
  from Cons.prems have new: "t (ru_Identity rule) = None" and rest: "build_table ?t rules = Inr t'"
    by (simp_all add: build_table_Cons)
  note IH = Cons.IH [OF rest]
  then have away: "ru_Identity rule \<notin> ru_Identity ` set rules" by auto
  let ?m = "map_of (map (\<lambda>r. (ru_Identity r, r)) rules)"
  have "ru_Identity rule \<notin> dom ?m" using away by (simp add: dom_map_of_conv_image_fst image_image)
  then have "?t ++ ?m = (t ++ ?m)(ru_Identity rule \<mapsto> rule)" by (rule map_add_upd_left)
  then have "t' = t ++ map_of (map (\<lambda>r. (ru_Identity r, r)) (rule # rules))"
    using IH by (metis (no_types, lifting) list.simps(9) map_add_upd map_of.simps(2) fst_conv snd_conv)
  moreover have "\<forall>r \<in> set (rule # rules). t (ru_Identity r) = None"
    using IH new away by (metis fun_upd_apply option.distinct(1) set_ConsD)
  moreover have "distinct (map ru_Identity (rule # rules))" using IH away by simp
  ultimately show ?case by blast
qed

text \<open>
  A table built by \<open>NewTable\<close> answers a lookup with exactly the rule
  of that identity in its input, and with nothing for an identity that is not
  there; it is built only from rules that pass validation (known identity,
  non-negative prices, strictly increasing tier thresholds, canonical modes
  other than the standard one) with pairwise different identities.
\<close>

theorem new_table_lookup:
  assumes "NewTable rules = Inr t"
  shows "(\<forall>r \<in> set rules. Lookup (Some t) (ru_Identity r) = Some r \<and> rule_ok r)
    \<and> (\<forall>i r. Lookup (Some t) i = Some r \<longrightarrow> r \<in> set rules \<and> ru_Identity r = i)
    \<and> distinct (map ru_Identity rules)"
proof -
  have t: "t = map_of (map (\<lambda>r. (ru_Identity r, r)) rules)" and d: "distinct (map ru_Identity rules)"
    using build_table_lookup [of Map.empty rules t] assms by (simp_all add: NewTable_def)
  have dk: "distinct (map fst (map (\<lambda>r. (ru_Identity r, r)) rules))" using d by (simp add: comp_def)
  have ok: "table_ok t"
    using build_table_ok [of Map.empty rules t] assms by (simp add: NewTable_def table_ok_def)
  have mem: "Lookup (Some t) i = Some r \<longleftrightarrow> r \<in> set rules \<and> ru_Identity r = i" for i r
    unfolding Lookup_def option.case t map_of_eq_Some_iff [OF dk] by auto
  have "Lookup (Some t) i = Some r \<Longrightarrow> rule_ok r" for i r
    using ok by (simp add: Lookup_def table_ok_def)
  with mem d show ?thesis by blast
qed

definition sample_prices :: Prices where
  "sample_prices = \<lparr>ps_Input = \<lparr>pr_NanoUSDPerMillion = 3000000000, pr_Set = True\<rparr>,
     ps_Output = \<lparr>pr_NanoUSDPerMillion = 15000000000, pr_Set = True\<rparr>,
     ps_CacheRead = \<lparr>pr_NanoUSDPerMillion = 0, pr_Set = False\<rparr>,
     ps_CacheWrite = \<lparr>pr_NanoUSDPerMillion = 0, pr_Set = False\<rparr>\<rparr>"

definition sample_identity :: Identity where
  "sample_identity = \<lparr>id_ChannelID = ''openai'', id_ModelID = ''gpt''\<rparr>"

definition sample_rule :: Rule where
  "sample_rule = \<lparr>ru_Identity = sample_identity, ru_Prices = sample_prices,
     ru_ContextTiers = [\<lparr>ct_InputThresholdTokens = 200000, ct_Prices = sample_prices\<rparr>],
     ru_ModeSchedules = [(ModeFast, \<lparr>sc_Prices = sample_prices, sc_ContextTiers = []\<rparr>)],
     ru_IsManual = False\<rparr>"

lemma sample_rule_identity: "ru_Identity sample_rule = sample_identity"
  by (simp add: sample_rule_def)

lemma sample_rule_valid: "validateRule sample_rule = None"
  by code_simp

theorem new_table_lookup_witness:
  "NewTable [sample_rule] = Inr [sample_identity \<mapsto> sample_rule]
   \<and> Lookup (Some [sample_identity \<mapsto> sample_rule]) sample_identity = Some sample_rule"
proof -
  have new: "NewTable [sample_rule] = Inr [sample_identity \<mapsto> sample_rule]"
    by (simp add: NewTable_def build_table_Cons sample_rule_valid sample_rule_identity)
  show ?thesis using new new_table_lookup [OF new] by (simp add: sample_rule_identity)
qed

end
