(* ===== verification/Pricing_Quote.thy ===== *)
theory Pricing_Quote
  imports Pricing_Table
begin

text \<open>
  Quotes and receipts (\<open>src/internal/pricing/quote.go\<close> and \<open>receipt.go\<close>) and the
  persisted usage and cost matrix (\<open>src/internal/usagecost/validate.go\<close>). A quote
  prices a finalized usage result against a table and freezes the rates it used
  in a receipt; \<open>ValidateReceipt\<close> checks a stored receipt on its own. The
  theorems relate the two: whatever a table quotes, its receipt validates and
  its cost state is one the usage store accepts.
\<close>

section \<open>Quotes\<close>

datatype CostState = CostStatePriced | CostStateUnpriced | CostStateNotApplicable | CostState_other string

datatype Completeness =
    CompletenessComplete | CompletenessPartial | CompletenessUnavailable | CompletenessNotApplicable

record Quote =
  qt_State :: CostState
  qt_Completeness :: Completeness
  qt_EstimatedCostNanoUSD :: NanoUSD

datatype ReceiptLineState = ReceiptLinePriced | ReceiptLineUnpriced | ReceiptLineState_other string

record ReceiptLine =
  ln_Code :: string
  ln_Quantity :: int
  ln_RateNanoUSDPerMillion :: "int option"
  ln_Multiplier :: Multiplier
  ln_State :: ReceiptLineState
  ln_AmountNanoUSD :: "int option"

record Receipt =
  rc_SchemaVersion :: int
  rc_Method :: string
  rc_MethodVersion :: int
  rc_Currency :: string
  rc_PricingMode :: Mode
  rc_Rule :: ReceiptRule
  rc_ContextThresholdTokens :: "int option"
  rc_LineItems :: "ReceiptLine list"
  rc_TotalNanoUSD :: int

definition ReceiptMethodUnitRateSum :: string where
  "ReceiptMethodUnitRateSum = ''unit_rate_sum''"

definition directPriceMultiplier :: Multiplier where
  "directPriceMultiplier = \<lparr>mu_Numerator = 1, mu_Denominator = 1\<rparr>"

definition cacheWriteOneHourMultiplier :: Multiplier where
  "cacheWriteOneHourMultiplier = \<lparr>mu_Numerator = 8, mu_Denominator = 5\<rparr>"

definition unavailableQuote :: Quote where
  "unavailableQuote = \<lparr>qt_State = CostStateUnpriced, qt_Completeness = CompletenessUnavailable,
     qt_EstimatedCostNanoUSD = 0\<rparr>"

definition input_fields :: "Tokens \<Rightarrow> int list" where
  "input_fields t = [tk_UncachedInput t, tk_CacheRead t, tk_CacheWrite5M t,
     tk_CacheWrite1H t, tk_CacheWriteUnknown t]"

definition checkedInputTokens :: "Tokens \<Rightarrow> int option" where
  "checkedInputTokens tokens = checked_fold CheckedAdd 0 (input_fields tokens)"

fun select_from :: "Prices \<times> int option \<Rightarrow> ContextTier list \<Rightarrow> int \<Rightarrow> Prices \<times> int option" where
  "select_from sel [] inputTokens = sel"
| "select_from sel (tier # tiers) inputTokens =
     (if inputTokens < ct_InputThresholdTokens tier then sel
      else select_from (ct_Prices tier, Some (ct_InputThresholdTokens tier)) tiers inputTokens)"

definition selectSchedulePrices :: "Prices \<Rightarrow> ContextTier list \<Rightarrow> int \<Rightarrow> Prices \<times> int option" where
  "selectSchedulePrices base tiers inputTokens = select_from (base, None) tiers inputTokens"

text \<open>
  One priced dimension of a usage result, and the variables of the loop over the
  five of them. The loop leaves the function early (\<open>None\<close>) when a component or
  the running sum does not fit.
\<close>

record Component =
  cp_code :: string
  cp_tokens :: int
  cp_price :: Price
  cp_multiplier :: Multiplier

record QuoteLoop =
  ql_positiveBillable :: bool
  ql_pricedPositive :: bool
  ql_partial :: bool
  ql_cost :: NanoUSD
  ql_lines :: "ReceiptLine list"

definition unpriced_line :: "string \<Rightarrow> int \<Rightarrow> Multiplier \<Rightarrow> ReceiptLine" where
  "unpriced_line code quantity multiplier =
     \<lparr>ln_Code = code, ln_Quantity = quantity, ln_RateNanoUSDPerMillion = None,
      ln_Multiplier = multiplier, ln_State = ReceiptLineUnpriced, ln_AmountNanoUSD = None\<rparr>"

definition quote_step :: "Component \<Rightarrow> QuoteLoop \<Rightarrow> QuoteLoop option" where
  "quote_step c st0 =
     (if cp_tokens c = 0 then Some st0
      else
        let st = st0\<lparr>ql_positiveBillable := True\<rparr>;
            line = unpriced_line (cp_code c) (cp_tokens c) (cp_multiplier c)
        in if \<not> pr_Set (cp_price c)
           then Some (st\<lparr>ql_partial := True, ql_lines := ql_lines st @ [line]\<rparr>)
           else case QuoteComponent (cp_tokens c) (pr_NanoUSDPerMillion (cp_price c)) (cp_multiplier c) of
             None \<Rightarrow> None
           | Some componentCost \<Rightarrow>
               (case CheckedAddNanoUSD (ql_cost st) componentCost of
                  None \<Rightarrow> None
                | Some cost \<Rightarrow>
                    Some (st\<lparr>ql_cost := cost,
                      ql_lines := ql_lines st @ [line\<lparr>
                        ln_RateNanoUSDPerMillion := Some (pr_NanoUSDPerMillion (cp_price c)),
                        ln_AmountNanoUSD := Some componentCost,
                        ln_State := ReceiptLinePriced\<rparr>],
                      ql_pricedPositive := True\<rparr>)))"

fun quote_loop :: "Component list \<Rightarrow> QuoteLoop \<Rightarrow> QuoteLoop option" where
  "quote_loop [] st = Some st"
| "quote_loop (c # cs) st = (case quote_step c st of None \<Rightarrow> None | Some st' \<Rightarrow> quote_loop cs st')"

definition components :: "Tokens \<Rightarrow> Prices \<Rightarrow> Component list" where
  "components t p =
     [ \<lparr>cp_code = ''input'', cp_tokens = tk_UncachedInput t, cp_price = ps_Input p,
        cp_multiplier = directPriceMultiplier\<rparr>,
       \<lparr>cp_code = ''cache_read'', cp_tokens = tk_CacheRead t, cp_price = ps_CacheRead p,
        cp_multiplier = directPriceMultiplier\<rparr>,
       \<lparr>cp_code = ''cache_write_5m'', cp_tokens = tk_CacheWrite5M t, cp_price = ps_CacheWrite p,
        cp_multiplier = directPriceMultiplier\<rparr>,
       \<lparr>cp_code = ''cache_write_1h'', cp_tokens = tk_CacheWrite1H t, cp_price = ps_CacheWrite p,
        cp_multiplier = cacheWriteOneHourMultiplier\<rparr>,
       \<lparr>cp_code = ''output'', cp_tokens = tk_Output t, cp_price = ps_Output p,
        cp_multiplier = directPriceMultiplier\<rparr> ]"

text \<open>The schedule of a rule for one request: its mode, prices and tier threshold.\<close>

definition select_schedule :: "Rule \<Rightarrow> Mode \<Rightarrow> int \<Rightarrow> Mode \<times> Prices \<times> int option" where
  "select_schedule rule mode inputTokens =
     (let standard = selectSchedulePrices (ru_Prices rule) (ru_ContextTiers rule) inputTokens
      in if snd standard = None \<and> mode \<noteq> [] \<and> mode \<noteq> ModeStandard
         then case map_of (ru_ModeSchedules rule) mode of
                Some schedule \<Rightarrow>
                  (mode, selectSchedulePrices (sc_Prices schedule) (sc_ContextTiers schedule) inputTokens)
              | None \<Rightarrow> (ModeStandard, standard)
         else (ModeStandard, standard))"

definition quote_result ::
  "Identity \<Rightarrow> Result \<Rightarrow> Mode \<Rightarrow> Prices \<Rightarrow> int option \<Rightarrow> Quote \<times> Receipt option" where
  "quote_result identity result selectedMode prices selectedThreshold =
     (let tokens = rs_Tokens result;
          unknown = tk_CacheWriteUnknown tokens > 0;
          init = \<lparr>ql_positiveBillable = unknown, ql_pricedPositive = False,
                  ql_partial = (rs_State result = StatePartial \<or> unknown),
                  ql_cost = 0, ql_lines = []\<rparr>
      in case quote_loop (components tokens prices) init of
           None \<Rightarrow> (unavailableQuote, None)
         | Some st \<Rightarrow>
             let lines = (if unknown
                   then ql_lines st @ [unpriced_line ''cache_write'' (tk_CacheWriteUnknown tokens) directPriceMultiplier]
                   else ql_lines st);
                 receipt = \<lparr>rc_SchemaVersion = 4, rc_Method = ReceiptMethodUnitRateSum,
                   rc_MethodVersion = 1, rc_Currency = ''USD'', rc_PricingMode = selectedMode,
                   rc_Rule = \<lparr>rr_ScopeKey = [], rr_ChannelID = id_ChannelID identity,
                              rr_ModelID = id_ModelID identity\<rparr>,
                   rc_ContextThresholdTokens = selectedThreshold,
                   rc_LineItems = lines, rc_TotalNanoUSD = ql_cost st\<rparr>
             in if ql_positiveBillable st \<and> \<not> ql_pricedPositive st
                then (unavailableQuote, Some receipt)
                else (\<lparr>qt_State = CostStatePriced,
                       qt_Completeness = (if ql_partial st then CompletenessPartial else CompletenessComplete),
                       qt_EstimatedCostNanoUSD = ql_cost st\<rparr>, Some receipt))"

definition QuoteForModeWithReceipt ::
  "Table option \<Rightarrow> Identity \<Rightarrow> Result \<Rightarrow> Mode \<Rightarrow> Quote \<times> Receipt option" where
  "QuoteForModeWithReceipt table identity result mode =
     (case rs_State result of
        StateNotApplicable \<Rightarrow>
          (\<lparr>qt_State = CostStateNotApplicable, qt_Completeness = CompletenessNotApplicable,
            qt_EstimatedCostNanoUSD = 0\<rparr>, None)
      | StateMissing \<Rightarrow> (unavailableQuote, None)
      | State_other _ \<Rightarrow> (unavailableQuote, None)
      | _ \<Rightarrow>
          (case Lookup table identity of
             None \<Rightarrow> (unavailableQuote, None)
           | Some rule \<Rightarrow>
               if CheckedTotal (rs_Tokens result) = None then (unavailableQuote, None)
               else case checkedInputTokens (rs_Tokens result) of
                 None \<Rightarrow> (unavailableQuote, None)
               | Some inputTokens \<Rightarrow>
                   (case select_schedule rule mode inputTokens of
                      (selectedMode, prices, threshold) \<Rightarrow>
                        quote_result identity result selectedMode prices threshold)))"

definition QuoteForMode :: "Table option \<Rightarrow> Identity \<Rightarrow> Result \<Rightarrow> Mode \<Rightarrow> Quote" where
  "QuoteForMode table identity result mode = fst (QuoteForModeWithReceipt table identity result mode)"

definition QuoteWithReceipt :: "Table option \<Rightarrow> Identity \<Rightarrow> Result \<Rightarrow> Quote \<times> Receipt option" where
  "QuoteWithReceipt table identity result = QuoteForModeWithReceipt table identity result ModeStandard"

definition Table_Quote :: "Table option \<Rightarrow> Identity \<Rightarrow> Result \<Rightarrow> Quote" where
  "Table_Quote table identity result = fst (QuoteForModeWithReceipt table identity result ModeStandard)"

section \<open>Receipts\<close>

datatype ReceiptError =
    ErrContract | ErrHistoricalMode | ErrReceiptMode | ErrReceiptRule PricingError
  | ErrThreshold | ErrTotal | ErrLineCode string | ErrLineDuplicate string | ErrLineQuantity
  | ErrPricedLine | ErrAmountMismatch | ErrTotalOverflow | ErrUnpricedLine | ErrLineState | ErrTotalMismatch

definition allowed_codes :: "string list" where
  "allowed_codes = [''input'', ''cache_read'', ''cache_write_5m'', ''cache_write_1h'', ''cache_write'', ''output'']"

fun validate_lines :: "string list \<Rightarrow> NanoUSD \<Rightarrow> ReceiptLine list \<Rightarrow> ReceiptError + NanoUSD" where
  "validate_lines seen amount_sum [] = Inr amount_sum"
| "validate_lines seen amount_sum (line # lines) =
     (if ln_Code line \<notin> set allowed_codes then Inl (ErrLineCode (ln_Code line))
      else if ln_Code line \<in> set seen then Inl (ErrLineDuplicate (ln_Code line))
      else if ln_Quantity line \<le> 0 \<or> mu_Numerator (ln_Multiplier line) \<le> 0
              \<or> mu_Denominator (ln_Multiplier line) \<le> 0 then Inl ErrLineQuantity
      else case ln_State line of
        ReceiptLinePriced \<Rightarrow>
          (case (ln_RateNanoUSDPerMillion line, ln_AmountNanoUSD line) of
             (Some rate, Some amount) \<Rightarrow>
               if rate < 0 \<or> amount < 0 then Inl ErrPricedLine
               else (case QuoteComponent (ln_Quantity line) rate (ln_Multiplier line) of
                       None \<Rightarrow> Inl ErrAmountMismatch
                     | Some quoted \<Rightarrow>
                         if quoted \<noteq> amount then Inl ErrAmountMismatch
                         else (case CheckedAddNanoUSD amount_sum quoted of
                                 None \<Rightarrow> Inl ErrTotalOverflow
                               | Some s \<Rightarrow> validate_lines (ln_Code line # seen) s lines))
           | _ \<Rightarrow> Inl ErrPricedLine)
      | ReceiptLineUnpriced \<Rightarrow>
          if ln_RateNanoUSDPerMillion line \<noteq> None \<or> ln_AmountNanoUSD line \<noteq> None
          then Inl ErrUnpricedLine
          else validate_lines (ln_Code line # seen) amount_sum lines
      | ReceiptLineState_other _ \<Rightarrow> Inl ErrLineState)"

definition ValidateReceipt :: "Receipt \<Rightarrow> ReceiptError option" where
  "ValidateReceipt receipt =
     (if (rc_SchemaVersion receipt \<noteq> 1 \<and> rc_SchemaVersion receipt \<noteq> 2
          \<and> rc_SchemaVersion receipt \<noteq> 3 \<and> rc_SchemaVersion receipt \<noteq> 4)
         \<or> rc_Method receipt \<noteq> ReceiptMethodUnitRateSum \<or> rc_MethodVersion receipt \<noteq> 1
         \<or> rc_Currency receipt \<noteq> ''USD'' then Some ErrContract
      else if rc_SchemaVersion receipt < 4 \<and> rc_PricingMode receipt \<noteq> [] then Some ErrHistoricalMode
      else if \<not> rc_SchemaVersion receipt < 4 \<and> \<not> Mode_Valid (rc_PricingMode receipt) then Some ErrReceiptMode
      else case validateReceiptRule (rc_Rule receipt) (rc_SchemaVersion receipt) of
        Some e \<Rightarrow> Some (ErrReceiptRule e)
      | None \<Rightarrow>
          if (case rc_ContextThresholdTokens receipt of None \<Rightarrow> False | Some t \<Rightarrow> t < 0) then Some ErrThreshold
          else if rc_TotalNanoUSD receipt < 0 then Some ErrTotal
          else case validate_lines [] 0 (rc_LineItems receipt) of
            Inl e \<Rightarrow> Some e
          | Inr s \<Rightarrow> if s \<noteq> rc_TotalNanoUSD receipt then Some ErrTotalMismatch else None)"

section \<open>The persisted usage and cost matrix\<close>

datatype UsageCostError = ErrEstimatedCost | ErrCombination | ErrNonzeroCost

definition usagecost_Validate :: "State \<Rightarrow> CostState \<Rightarrow> int \<Rightarrow> UsageCostError option" where
  "usagecost_Validate usageState costState estimatedCostNanoUSD =
     (if estimatedCostNanoUSD < 0 then Some ErrEstimatedCost
      else
        let validCombination = (case usageState of
              StateComplete \<Rightarrow> costState = CostStatePriced \<or> costState = CostStateUnpriced
            | StatePartial \<Rightarrow> costState = CostStatePriced \<or> costState = CostStateUnpriced
            | StateMissing \<Rightarrow> costState = CostStateUnpriced
            | StateNotApplicable \<Rightarrow> costState = CostStateNotApplicable
            | State_other _ \<Rightarrow> False)
        in if \<not> validCombination then Some ErrCombination
           else if costState \<noteq> CostStatePriced \<and> estimatedCostNanoUSD \<noteq> 0 then Some ErrNonzeroCost
           else None)"

section \<open>Tier selection\<close>

text \<open>
  The tiers below the input size form a prefix of a valid tier list, and the
  loop stops at the last of them.
\<close>

lemma select_from_filter:
  "sorted_wrt (<) (map ct_InputThresholdTokens ts) \<Longrightarrow>
   select_from sel ts n = (case rev (filter (\<lambda>t. ct_InputThresholdTokens t \<le> n) ts) of
      [] \<Rightarrow> sel | t # _ \<Rightarrow> (ct_Prices t, Some (ct_InputThresholdTokens t)))"
proof (induction ts arbitrary: sel)
  case Nil
  then show ?case by simp
next
  case (Cons t ts)
  show ?case
  proof (cases "n < ct_InputThresholdTokens t")
    case True
    then have "filter (\<lambda>t. ct_InputThresholdTokens t \<le> n) (t # ts) = []"
      using Cons.prems by (auto simp: filter_empty_conv)
    with True show ?thesis by simp
  next
    case False
    with Cons show ?thesis by (auto split: list.split)
  qed
qed

lemma select_from_origin:
  "select_from sel ts n = sel \<or>
   (\<exists>t \<in> set ts. select_from sel ts n = (ct_Prices t, Some (ct_InputThresholdTokens t)))"
proof (induction ts arbitrary: sel)
  case (Cons t ts)
  then show ?case using Cons [of "(ct_Prices t, Some (ct_InputThresholdTokens t))"] by auto
qed simp

lemma select_threshold_nonneg:
  "tiers_ok ts \<Longrightarrow> selectSchedulePrices base ts n = (p, Some th) \<Longrightarrow> 0 \<le> th"
  using select_from_origin [of "(base, None)" ts n]
  by (auto simp: selectSchedulePrices_def tiers_ok_def list_all_iff)

lemma select_prices_ok:
  "tiers_ok ts \<Longrightarrow> prices_ok base \<Longrightarrow> selectSchedulePrices base ts n = (p, th) \<Longrightarrow> prices_ok p"
  using select_from_origin [of "(base, None)" ts n]
  by (auto simp: selectSchedulePrices_def tiers_ok_def list_all_iff)

lemma Mode_Valid_standard: "Mode_Valid ModeStandard"
  by code_simp

lemma select_schedule_ok:
  assumes "rule_ok r" and "select_schedule r mode n = (m, p, th)"
  shows "Mode_Valid m \<and> prices_ok p \<and> (\<forall>x. th = Some x \<longrightarrow> 0 \<le> x)"
proof -
  have "\<exists>base ts. selectSchedulePrices base ts n = (p, th) \<and> prices_ok base \<and> tiers_ok ts \<and> Mode_Valid m"
  proof (cases "snd (selectSchedulePrices (ru_Prices r) (ru_ContextTiers r) n) = None
      \<and> mode \<noteq> [] \<and> mode \<noteq> ModeStandard \<and> map_of (ru_ModeSchedules r) mode \<noteq> None")
    case True
    then obtain s where s: "map_of (ru_ModeSchedules r) mode = Some s" by auto
    then have "(mode, s) \<in> set (ru_ModeSchedules r)" by (rule map_of_SomeD)
    with assms(1) have "Mode_Valid mode \<and> prices_ok (sc_Prices s) \<and> tiers_ok (sc_ContextTiers s)"
      by (auto simp: rule_ok_def)
    moreover have "m = mode" and "selectSchedulePrices (sc_Prices s) (sc_ContextTiers s) n = (p, th)"
      using assms(2) True s by (auto simp: select_schedule_def Let_def)
    ultimately show ?thesis by blast
  next
    case False
    then have "m = ModeStandard" and "selectSchedulePrices (ru_Prices r) (ru_ContextTiers r) n = (p, th)"
      using assms(2) by (auto simp: select_schedule_def Let_def split: if_splits option.splits)
    with assms(1) Mode_Valid_standard show ?thesis by (auto simp: rule_ok_def)
  qed
  then show ?thesis using select_prices_ok select_threshold_nonneg by blast
qed

section \<open>Every receipt a quote produces validates\<close>

lemma validate_lines_append:
  "validate_lines seen s (xs @ ys) = (case validate_lines seen s xs of
     Inl e \<Rightarrow> Inl e | Inr s' \<Rightarrow> validate_lines (rev (map ln_Code xs) @ seen) s' ys)"
proof (induction xs arbitrary: seen s)
  case Nil
  then show ?case by simp
next
  case (Cons x xs)
  then show ?case
    by (cases "ln_State x"; cases "ln_RateNanoUSDPerMillion x"; cases "ln_AmountNanoUSD x")
      (simp_all split: option.split sum.split)
qed

text \<open>
  The loop invariant: the lines written so far validate to the running cost,
  and their codes are pairwise different codes of the components already done.
\<close>

definition loop_inv :: "string set \<Rightarrow> QuoteLoop \<Rightarrow> bool" where
  "loop_inv done st \<longleftrightarrow>
     validate_lines [] 0 (ql_lines st) = Inr (ql_cost st) \<and> set (map ln_Code (ql_lines st)) \<subseteq> done
     \<and> 0 \<le> ql_cost st \<and> ql_cost st \<le> MaxInt64
     \<and> (\<not> ql_pricedPositive st \<longrightarrow> ql_cost st = 0)"

definition component_ok :: "Component \<Rightarrow> bool" where
  "component_ok c \<longleftrightarrow> 0 \<le> cp_tokens c \<and> 0 \<le> pr_NanoUSDPerMillion (cp_price c)
     \<and> 0 < mu_Numerator (cp_multiplier c) \<and> 0 < mu_Denominator (cp_multiplier c)
     \<and> cp_code c \<in> set allowed_codes"

lemma QuoteComponent_range: "QuoteComponent t p m = Some c \<Longrightarrow> 0 \<le> c \<and> c \<le> MaxInt64"
  using exact_cost_nonneg [of t p m] by (auto simp: QuoteComponent_eq split: if_splits)

lemma quote_step_inv:
  assumes inv: "loop_inv done st" and ok: "component_ok c" and new: "cp_code c \<notin> done"
    and step: "quote_step c st = Some st'"
  shows "loop_inv (insert (cp_code c) done) st'"
proof (cases "cp_tokens c = 0")
  case True
  with step inv show ?thesis by (auto simp: quote_step_def loop_inv_def)
next
  case False
  then have pos: "0 < cp_tokens c" using ok by (simp add: component_ok_def)
  have fresh: "cp_code c \<notin> set (map ln_Code (ql_lines st))" using inv new by (auto simp: loop_inv_def)
  show ?thesis
  proof (cases "pr_Set (cp_price c)")
    case False
    with step \<open>cp_tokens c \<noteq> 0\<close> inv ok pos fresh show ?thesis
      by (auto simp: quote_step_def Let_def loop_inv_def validate_lines_append component_ok_def
          unpriced_line_def image_subset_iff)
  next
    case True
    with step \<open>cp_tokens c \<noteq> 0\<close> obtain q s where
      q: "QuoteComponent (cp_tokens c) (pr_NanoUSDPerMillion (cp_price c)) (cp_multiplier c) = Some q"
      and s: "CheckedAddNanoUSD (ql_cost st) q = Some s"
      by (auto simp: quote_step_def Let_def split: option.splits)
    have "0 \<le> q" "q \<le> MaxInt64" using QuoteComponent_range [OF q] by simp_all
    moreover have "0 \<le> s \<and> s \<le> MaxInt64"
      using s inv calculation
      by (auto simp: loop_inv_def cost_add.add_sum int64_nonneg split: if_splits)
    ultimately show ?thesis
      using step True \<open>cp_tokens c \<noteq> 0\<close> inv ok pos fresh q s
      by (auto simp: quote_step_def Let_def loop_inv_def validate_lines_append component_ok_def
          unpriced_line_def image_subset_iff)
  qed
qed

lemma quote_loop_inv:
  "quote_loop cs st = Some st' \<Longrightarrow> loop_inv done st \<Longrightarrow> list_all component_ok cs \<Longrightarrow>
   distinct (map cp_code cs) \<Longrightarrow> set (map cp_code cs) \<inter> done = {} \<Longrightarrow>
   loop_inv (set (map cp_code cs) \<union> done) st'"
proof (induction cs arbitrary: st "done")
  case Nil
  then show ?case by simp
next
  case (Cons c cs)
  then obtain st1 where step: "quote_step c st = Some st1" and rest: "quote_loop cs st1 = Some st'"
    by (auto split: option.splits)
  have "loop_inv (insert (cp_code c) done) st1"
    using quote_step_inv [OF Cons.prems(2) _ _ step] Cons.prems by auto
  then show ?case using Cons.IH [OF rest, of "insert (cp_code c) done"] Cons.prems by auto
qed

lemma components_ok:
  "tokens_nonneg t \<Longrightarrow> prices_ok p \<Longrightarrow> list_all component_ok (components t p)"
  by (simp add: components_def component_ok_def tokens_nonneg_def token_fields_def prices_ok_def
      price_list_def directPriceMultiplier_def cacheWriteOneHourMultiplier_def allowed_codes_def)

lemma components_codes:
  "map cp_code (components t p) = [''input'', ''cache_read'', ''cache_write_5m'', ''cache_write_1h'', ''output'']"
  by (simp add: components_def)

lemma quote_loop_valid:
  assumes "quote_loop (components t p) st = Some st'" and "tokens_nonneg t" and "prices_ok p"
    and "ql_lines st = []" and "ql_cost st = 0"
  shows "loop_inv (set (map cp_code (components t p))) st'"
proof -
  have "loop_inv {} st" using assms(4,5) by (simp add: loop_inv_def MaxInt64_def)
  moreover have "distinct (map cp_code (components t p))" by (simp add: components_codes)
  ultimately show ?thesis
    using quote_loop_inv [OF assms(1), of "{}"] components_ok [OF assms(2,3)] by simp
qed

lemma quote_result_valid:
  assumes res: "quote_result i res m p th = (q, Some rc)"
    and ident: "validateIdentity i = None" and mode: "Mode_Valid m"
    and prices: "prices_ok p" and thr: "\<forall>x. th = Some x \<longrightarrow> 0 \<le> x" and tokens: "tokens_nonneg (rs_Tokens res)"
  shows "ValidateReceipt rc = None \<and> (qt_State q = CostStatePriced \<longrightarrow> qt_EstimatedCostNanoUSD q = rc_TotalNanoUSD rc)
    \<and> rc_PricingMode rc = m \<and> rc_ContextThresholdTokens rc = th"
proof -
  define t where "t = rs_Tokens res"
  define init where "init = \<lparr>ql_positiveBillable = tk_CacheWriteUnknown t > 0, ql_pricedPositive = False,
      ql_partial = (rs_State res = StatePartial \<or> tk_CacheWriteUnknown t > 0), ql_cost = 0, ql_lines = []\<rparr>"
  from res obtain st where st: "quote_loop (components t p) init = Some st"
    by (auto simp: quote_result_def Let_def t_def init_def split: option.splits)
  have inv: "loop_inv (set (map cp_code (components t p))) st"
    using quote_loop_valid [OF st] tokens prices by (simp add: t_def init_def)
  define lines where "lines = (if tk_CacheWriteUnknown t > 0
      then ql_lines st @ [unpriced_line ''cache_write'' (tk_CacheWriteUnknown t) directPriceMultiplier]
      else ql_lines st)"
  have lines_ok: "validate_lines [] 0 lines = Inr (ql_cost st)"
  proof (cases "tk_CacheWriteUnknown t > 0")
    case True
    have "''cache_write'' \<notin> set (map ln_Code (ql_lines st))"
      using inv unfolding loop_inv_def components_codes by auto
    then show ?thesis using True inv
      by (simp add: lines_def validate_lines_append loop_inv_def unpriced_line_def allowed_codes_def
          directPriceMultiplier_def)
  next
    case False
    then show ?thesis using inv by (simp add: lines_def loop_inv_def)
  qed
  have rc: "rc = \<lparr>rc_SchemaVersion = 4, rc_Method = ReceiptMethodUnitRateSum, rc_MethodVersion = 1,
      rc_Currency = ''USD'', rc_PricingMode = m,
      rc_Rule = \<lparr>rr_ScopeKey = [], rr_ChannelID = id_ChannelID i, rr_ModelID = id_ModelID i\<rparr>,
      rc_ContextThresholdTokens = th, rc_LineItems = lines, rc_TotalNanoUSD = ql_cost st\<rparr>"
    and q: "qt_State q = CostStatePriced \<longrightarrow> qt_EstimatedCostNanoUSD q = ql_cost st"
    using res st unfolding quote_result_def Let_def t_def [symmetric] init_def [symmetric]
    by (auto simp: lines_def unavailableQuote_def split: if_splits)
  have eta: "validateIdentity \<lparr>id_ChannelID = id_ChannelID i, id_ModelID = id_ModelID i\<rparr> = validateIdentity i"
    by (cases i) simp
  have "ValidateReceipt rc = None"
    using lines_ok inv ident mode thr eta
    by (cases th) (simp_all add: ValidateReceipt_def rc validateReceiptRule_def loop_inv_def)
  with rc q show ?thesis by simp
qed

text \<open>The total of a receipt that validates is the sum of its line amounts.\<close>

definition line_amount :: "ReceiptLine \<Rightarrow> int" where
  "line_amount l = (case ln_AmountNanoUSD l of None \<Rightarrow> 0 | Some a \<Rightarrow> a)"

lemma CheckedAddNanoUSD_Some:
  "CheckedAddNanoUSD l r = Some s \<Longrightarrow> r \<le> MaxInt64 \<Longrightarrow> s = l + r \<and> 0 \<le> l \<and> 0 \<le> r \<and> s \<le> MaxInt64"
proof -
  assume s: "CheckedAddNanoUSD l r = Some s" and r: "r \<le> MaxInt64"
  then have g: "0 \<le> l" "0 \<le> r" "l \<le> wrap64 (MaxInt64 - r)"
    by (auto simp: CheckedAddNanoUSD_def split: if_splits)
  then have "int64 (MaxInt64 - r)" using r by (simp add: int64_defs)
  then have "l \<le> MaxInt64 - r" using g by simp
  then have "int64 (l + r)" using g by (simp add: int64_defs)
  with s g \<open>l \<le> MaxInt64 - r\<close> show ?thesis by (auto simp: CheckedAddNanoUSD_def split: if_splits)
qed

lemma validate_lines_sum:
  "validate_lines seen s lines = Inr s' \<Longrightarrow> s' = s + sum_list (map line_amount lines)"
proof (induction lines arbitrary: seen s)
  case Nil
  then show ?case by simp
next
  case (Cons l ls)
  show ?case
  proof (cases "ln_State l")
    case ReceiptLinePriced
    with Cons.prems obtain a u where a: "ln_AmountNanoUSD l = Some a"
      and q: "\<exists>rate. QuoteComponent (ln_Quantity l) rate (ln_Multiplier l) = Some a"
      and u: "CheckedAddNanoUSD s a = Some u"
      and rest: "validate_lines (ln_Code l # seen) u ls = Inr s'"
      by (auto split: if_splits option.splits)
    have "u = s + a" using CheckedAddNanoUSD_Some [OF u] q QuoteComponent_range by blast
    with Cons.IH [OF rest] a show ?thesis by (simp add: line_amount_def)
  next
    case ReceiptLineUnpriced
    with Cons.prems have "ln_AmountNanoUSD l = None" and "validate_lines (ln_Code l # seen) s ls = Inr s'"
      by (auto split: if_splits)
    with Cons.IH show ?thesis by (simp add: line_amount_def)
  next
    case (ReceiptLineState_other x)
    with Cons.prems show ?thesis by (auto split: if_splits)
  qed
qed

lemma ValidateReceipt_total:
  "ValidateReceipt rc = None \<Longrightarrow> rc_TotalNanoUSD rc = sum_list (map line_amount (rc_LineItems rc))"
  using validate_lines_sum [of "[]" 0 "rc_LineItems rc"]
  by (auto simp: ValidateReceipt_def split: if_splits option.splits sum.splits)

lemma QuoteForMode_receipt:
  assumes "QuoteForModeWithReceipt table i res mode = (q, Some rc)"
  obtains rule n m p th where "Lookup table i = Some rule" and "CheckedTotal (rs_Tokens res) \<noteq> None"
    and "checkedInputTokens (rs_Tokens res) = Some n"
    and "select_schedule rule mode n = (m, p, th)" and "quote_result i res m p th = (q, Some rc)"
  using assms unfolding QuoteForModeWithReceipt_def
  by (cases "rs_State res") (auto split: option.splits if_splits prod.splits)

lemma quote_loop_cost_nonneg:
  "quote_loop cs st = Some st' \<Longrightarrow> 0 \<le> ql_cost st \<Longrightarrow> 0 \<le> ql_cost st'"
proof (induction cs arbitrary: st)
  case Nil
  then show ?case by simp
next
  case (Cons c cs)
  then obtain st1 where step: "quote_step c st = Some st1" and rest: "quote_loop cs st1 = Some st'"
    by (auto split: option.splits)
  have "0 \<le> ql_cost st1"
  proof (cases "cp_tokens c = 0 \<or> \<not> pr_Set (cp_price c)")
    case True
    with step Cons.prems(2) show ?thesis by (auto simp: quote_step_def Let_def split: if_splits)
  next
    case False
    with step obtain q s where
      q: "QuoteComponent (cp_tokens c) (pr_NanoUSDPerMillion (cp_price c)) (cp_multiplier c) = Some q"
      and s: "CheckedAddNanoUSD (ql_cost st) q = Some s" and "ql_cost st1 = s"
      by (auto simp: quote_step_def Let_def split: option.splits)
    with CheckedAddNanoUSD_Some [OF s] QuoteComponent_range [OF q] show ?thesis by simp
  qed
  with Cons.IH [OF rest] show ?case by simp
qed

lemma quote_result_matrix:
  "0 \<le> qt_EstimatedCostNanoUSD (fst (quote_result i res m p th)) \<and>
     (qt_State (fst (quote_result i res m p th)) = CostStatePriced
      \<or> qt_State (fst (quote_result i res m p th)) = CostStateUnpriced
         \<and> qt_EstimatedCostNanoUSD (fst (quote_result i res m p th)) = 0)"
  by (auto simp: quote_result_def Let_def unavailableQuote_def dest!: quote_loop_cost_nonneg
      split: option.split)

text \<open>The largest tier threshold that an input of \<open>n\<close> tokens reaches.\<close>

definition reached_threshold :: "ContextTier list \<Rightarrow> int \<Rightarrow> int option" where
  "reached_threshold ts n =
     (let reached = filter (\<lambda>h. h \<le> n) (map ct_InputThresholdTokens ts)
      in if reached = [] then None else Some (Max (set reached)))"

lemma select_from_reached:
  "sorted_wrt (<) (map ct_InputThresholdTokens ts) \<Longrightarrow>
   snd (select_from sel ts n) = (case reached_threshold ts n of None \<Rightarrow> snd sel | Some h \<Rightarrow> Some h)"
proof (induction ts arbitrary: sel)
  case Nil
  then show ?case by (simp add: reached_threshold_def)
next
  case (Cons t ts)
  let ?h = ct_InputThresholdTokens
  have above: "\<forall>u \<in> set ts. ?h t < ?h u" and rest: "sorted_wrt (<) (map ?h ts)"
    using Cons.prems by auto
  show ?case
  proof (cases "n < ?h t")
    case True
    then have "filter (\<lambda>h. h \<le> n) (map ?h (t # ts)) = []"
      using above by (auto simp: filter_empty_conv)
    with True show ?thesis by (simp add: reached_threshold_def)
  next
    case False
    define hs where "hs = filter (\<lambda>h. h \<le> n) (map ?h ts)"
    have "Max (set (?h t # hs)) = Max (set hs)" if "hs \<noteq> []"
    proof -
      have "Max (set hs) \<in> set hs" using that by simp
      then have "?h t < Max (set hs)" using above unfolding hs_def by auto
      with that show ?thesis by simp
    qed
    then have "reached_threshold (t # ts) n
        = (case reached_threshold ts n of None \<Rightarrow> Some (?h t) | Some h \<Rightarrow> Some h)"
      using False by (simp add: reached_threshold_def Let_def del: set_filter flip: hs_def)
    with False Cons.IH [OF rest] show ?thesis by (simp split: option.split)
  qed
qed

lemma selectSchedulePrices_reached:
  "tiers_ok ts \<Longrightarrow> snd (selectSchedulePrices base ts n) = reached_threshold ts n"
  by (simp add: selectSchedulePrices_def tiers_ok_def select_from_reached split: option.split)

lemma quote_result_receipt:
  "quote_result i res m p th = (q, Some rc) \<Longrightarrow> rc_PricingMode rc = m \<and> rc_ContextThresholdTokens rc = th"
  by (auto simp: quote_result_def Let_def split: option.splits if_splits)

section \<open>Properties\<close>

text \<open>
  Property C29. Every receipt that a table built by \<open>NewTable\<close> writes passes
  \<open>ValidateReceipt\<close>, whatever the mode, the tiers and the usage: its line codes
  are allowed and unique, each priced amount is the quote of its own rate and
  quantity, and its total is the sum of the line amounts and, when the quote is
  priced, exactly the quoted cost.
\<close>

theorem quote_receipt_validates:
  assumes table: "NewTable rules = Inr t" and tokens: "tokens_int64 (rs_Tokens res)"
    and quote: "QuoteForModeWithReceipt (Some t) i res mode = (q, Some rc)"
  shows "ValidateReceipt rc = None
    \<and> rc_TotalNanoUSD rc = sum_list (map line_amount (rc_LineItems rc))
    \<and> (qt_State q = CostStatePriced \<longrightarrow> qt_EstimatedCostNanoUSD q = rc_TotalNanoUSD rc)"
proof -
  obtain rule n m p th where look: "Lookup (Some t) i = Some rule"
    and total: "CheckedTotal (rs_Tokens res) \<noteq> None"
    and sel: "select_schedule rule mode n = (m, p, th)" and qr: "quote_result i res m p th = (q, Some rc)"
    using quote by (rule QuoteForMode_receipt)
  have "table_ok t"
    using build_table_ok [of Map.empty rules t] table by (simp add: NewTable_def table_ok_def)
  then have rule: "rule_ok rule" and ident: "ru_Identity rule = i"
    using look by (simp_all add: table_ok_def Lookup_def)
  have nonneg: "tokens_nonneg (rs_Tokens res)" using tokens_total_cases [OF tokens] total by simp
  have "validateIdentity i = None" using rule ident by (simp add: rule_ok_def)
  then have "ValidateReceipt rc = None
      \<and> (qt_State q = CostStatePriced \<longrightarrow> qt_EstimatedCostNanoUSD q = rc_TotalNanoUSD rc)"
    using quote_result_valid [OF qr] select_schedule_ok [OF rule sel] nonneg by blast
  with ValidateReceipt_total show ?thesis by blast
qed

definition sample_result :: Result where
  "sample_result = \<lparr>rs_Tokens = Tokens0\<lparr>tk_UncachedInput := 1200, tk_Output := 350\<rparr>,
     rs_State = StateComplete, rs_Diagnostics = Diagnostics0\<rparr>"

lemma sample_table: "NewTable [sample_rule] = Inr [sample_identity \<mapsto> sample_rule]"
  by (simp add: NewTable_def build_table_Cons sample_rule_valid sample_rule_identity)

lemma sample_quote:
  "QuoteForModeWithReceipt (Some [sample_identity \<mapsto> sample_rule]) sample_identity sample_result ModeFast
     = (\<lparr>qt_State = CostStatePriced, qt_Completeness = CompletenessComplete, qt_EstimatedCostNanoUSD = 8850000\<rparr>,
        snd (QuoteForModeWithReceipt (Some [sample_identity \<mapsto> sample_rule]) sample_identity sample_result ModeFast))
   \<and> snd (QuoteForModeWithReceipt (Some [sample_identity \<mapsto> sample_rule]) sample_identity sample_result ModeFast) \<noteq> None"
  by code_simp

theorem quote_receipt_validates_witness:
  "\<exists>rc. QuoteForModeWithReceipt (Some [sample_identity \<mapsto> sample_rule]) sample_identity sample_result ModeFast
       = (\<lparr>qt_State = CostStatePriced, qt_Completeness = CompletenessComplete, qt_EstimatedCostNanoUSD = 8850000\<rparr>, Some rc)
     \<and> ValidateReceipt rc = None \<and> rc_TotalNanoUSD rc = 8850000"
proof -
  obtain rc where q: "QuoteForModeWithReceipt (Some [sample_identity \<mapsto> sample_rule]) sample_identity sample_result ModeFast
       = (\<lparr>qt_State = CostStatePriced, qt_Completeness = CompletenessComplete, qt_EstimatedCostNanoUSD = 8850000\<rparr>, Some rc)"
    using sample_quote by (metis option.exhaust)
  have "tokens_int64 (rs_Tokens sample_result)"
    by (simp add: sample_result_def tokens_int64_def token_fields_def Tokens0_def int64_defs)
  from quote_receipt_validates [OF sample_table this q] q show ?thesis by auto
qed

lemma quote_matrix_ok:
  assumes known: "rs_State res \<in> {StateComplete, StatePartial, StateMissing, StateNotApplicable}"
  shows "usagecost_Validate (rs_State res) (qt_State (QuoteForMode table i res mode))
     (qt_EstimatedCostNanoUSD (QuoteForMode table i res mode)) = None"
proof (cases "rs_State res = StateComplete \<or> rs_State res = StatePartial")
  case False
  with known show ?thesis
    by (auto simp: QuoteForMode_def QuoteForModeWithReceipt_def usagecost_Validate_def unavailableQuote_def)
next
  case True
  let ?q = "QuoteForMode table i res mode"
  have "0 \<le> qt_EstimatedCostNanoUSD ?q
    \<and> (qt_State ?q = CostStatePriced \<or> qt_State ?q = CostStateUnpriced \<and> qt_EstimatedCostNanoUSD ?q = 0)"
    using True
    by (elim disjE) (simp_all add: QuoteForMode_def QuoteForModeWithReceipt_def unavailableQuote_def
        quote_result_matrix split: option.split prod.split)
  with True show ?thesis by (auto simp: usagecost_Validate_def)
qed

text \<open>
  Whatever the table and the mode, a quote of a result in one of the
  four published usage states is accepted by the persisted usage and cost matrix:
  the cost is never negative, a complete or partial usage is priced or unpriced,
  and an unpriced or not applicable cost is zero.
\<close>

theorem quote_matches_matrix:
  assumes known: "rs_State res \<in> {StateComplete, StatePartial, StateMissing, StateNotApplicable}"
  shows "usagecost_Validate (rs_State res) (qt_State (QuoteForMode table i res mode))
     (qt_EstimatedCostNanoUSD (QuoteForMode table i res mode)) = None"
  using known by (rule quote_matrix_ok)

theorem quote_matches_matrix_witness:
  "rs_State sample_result = StateComplete
   \<and> usagecost_Validate StateComplete
       (qt_State (QuoteForMode (Some [sample_identity \<mapsto> sample_rule]) sample_identity sample_result ModeFast))
       (qt_EstimatedCostNanoUSD (QuoteForMode (Some [sample_identity \<mapsto> sample_rule]) sample_identity sample_result ModeFast)) = None"
proof -
  have state: "rs_State sample_result = StateComplete" by (simp add: sample_result_def)
  with quote_matches_matrix [of sample_result "Some [sample_identity \<mapsto> sample_rule]" sample_identity ModeFast]
  show ?thesis by simp
qed

text \<open>
  The schedule a receipt freezes. When the input reaches a context
  tier of the rule, the largest such tier is used under the standard mode,
  whatever mode was asked for; otherwise the schedule of the requested mode is
  used, with the largest of its own tiers that is reached, and a mode without a
  schedule is quoted at the standard base prices.
\<close>

theorem quote_selects_schedule:
  assumes table: "NewTable rules = Inr t" and look: "Lookup (Some t) i = Some rule"
    and quote: "QuoteForModeWithReceipt (Some t) i res mode = (q, Some rc)"
    and input: "checkedInputTokens (rs_Tokens res) = Some n"
  shows "(rc_PricingMode rc, rc_ContextThresholdTokens rc) =
    (case reached_threshold (ru_ContextTiers rule) n of
       Some h \<Rightarrow> (ModeStandard, Some h)
     | None \<Rightarrow>
         if mode = [] \<or> mode = ModeStandard then (ModeStandard, None)
         else case map_of (ru_ModeSchedules rule) mode of
           None \<Rightarrow> (ModeStandard, None)
         | Some schedule \<Rightarrow> (mode, reached_threshold (sc_ContextTiers schedule) n))"
proof -
  obtain m p th where sel: "select_schedule rule mode n = (m, p, th)"
    and qr: "quote_result i res m p th = (q, Some rc)"
    using QuoteForMode_receipt [OF quote] look input by (metis option.inject)
  have "table_ok t"
    using build_table_ok [of Map.empty rules t] table by (simp add: NewTable_def table_ok_def)
  then have ok: "rule_ok rule" using look by (simp add: table_ok_def Lookup_def)
  have tiers: "snd (selectSchedulePrices (ru_Prices rule) (ru_ContextTiers rule) n)
      = reached_threshold (ru_ContextTiers rule) n"
    using ok by (simp add: rule_ok_def selectSchedulePrices_reached)
  have modes: "snd (selectSchedulePrices (sc_Prices s) (sc_ContextTiers s) n)
      = reached_threshold (sc_ContextTiers s) n" if "map_of (ru_ModeSchedules rule) mode = Some s" for s
    using ok map_of_SomeD [OF that] by (auto simp: rule_ok_def intro: selectSchedulePrices_reached)
  have "(m, th) = (case reached_threshold (ru_ContextTiers rule) n of
       Some h \<Rightarrow> (ModeStandard, Some h)
     | None \<Rightarrow>
         if mode = [] \<or> mode = ModeStandard then (ModeStandard, None)
         else case map_of (ru_ModeSchedules rule) mode of
           None \<Rightarrow> (ModeStandard, None)
         | Some schedule \<Rightarrow> (mode, reached_threshold (sc_ContextTiers schedule) n))"
    using sel tiers modes
    by (auto simp: select_schedule_def Let_def split: option.split if_splits option.splits)
  with quote_result_receipt [OF qr] show ?thesis by simp
qed

theorem quote_selects_schedule_witness:
  "\<exists>q rc. QuoteForModeWithReceipt (Some [sample_identity \<mapsto> sample_rule]) sample_identity sample_result ModeFast
      = (q, Some rc)
    \<and> (rc_PricingMode rc, rc_ContextThresholdTokens rc) =
    (case reached_threshold (ru_ContextTiers sample_rule) 1200 of
       Some h \<Rightarrow> (ModeStandard, Some h)
     | None \<Rightarrow>
         if ModeFast = [] \<or> ModeFast = ModeStandard then (ModeStandard, None)
         else case map_of (ru_ModeSchedules sample_rule) ModeFast of
           None \<Rightarrow> (ModeStandard, None)
         | Some schedule \<Rightarrow> (ModeFast, reached_threshold (sc_ContextTiers schedule) 1200))"
proof -
  obtain q rc where q: "QuoteForModeWithReceipt (Some [sample_identity \<mapsto> sample_rule]) sample_identity sample_result ModeFast
       = (q, Some rc)"
    using sample_quote by (metis option.exhaust)
  have "checkedInputTokens (rs_Tokens sample_result) = Some 1200" by code_simp
  from quote_selects_schedule [OF sample_table _ q this] q show ?thesis by (simp add: Lookup_def)
qed

end
