(* ===== verification/Rate_Limit.thy ===== *)
theory Rate_Limit
  imports Prelude
begin

text \<open>
  The per access key request limiter (\<open>src/internal/ratelimit/access_key_rpm.go\<close>):
  a deque of the accepted instants of the last minute per access key, trimmed on
  every call and swept once a minute.

  The deque keeps a slice and a head index, and compacts the slice when the dead
  prefix is long; the interface \<open>sliding_window\<close> states what the limiter relies
  on, and the limiter is proved to take the decisions of a specification that
  keeps the whole log of accepted requests and counts the last minute in it.
\<close>

section \<open>The deque of timestamps\<close>

record LimitDecision =
  ld_Allowed :: bool
  ld_RetryAfter :: duration

record timestampDeque =
  td_values :: "time list"
  td_head :: nat

definition timestampDeque0 :: timestampDeque where
  "timestampDeque0 = \<lparr>td_values = [], td_head = 0\<rparr>"

text \<open>The loop of \<open>dropThrough\<close>: the first index at or after \<open>head\<close> that is past the cutoff.\<close>

function skip_head :: "time \<Rightarrow> time list \<Rightarrow> nat \<Rightarrow> nat" where
  "skip_head cutoff values head =
     (if head < length values \<and> \<not> After (values ! head) cutoff
      then skip_head cutoff values (head + 1) else head)"
  by pat_completeness auto
termination
  by (relation "measure (\<lambda>(cutoff, values, head). length values - head)") auto

declare skip_head.simps [simp del]

definition dropThrough :: "time \<Rightarrow> timestampDeque \<Rightarrow> timestampDeque" where
  "dropThrough cutoff deque =
     (let head = skip_head cutoff (td_values deque) (td_head deque)
      in if head = length (td_values deque) then deque\<lparr>td_values := [], td_head := 0\<rparr>
         else if 64 < head \<and> length (td_values deque) \<le> head * 2
         then deque\<lparr>td_values := drop head (td_values deque), td_head := 0\<rparr>
         else deque\<lparr>td_head := head\<rparr>)"

definition deque_len :: "timestampDeque \<Rightarrow> int" where
  "deque_len deque = int (length (td_values deque)) - int (td_head deque)"

text \<open>Indexing outside the slice panics: no value.\<close>

definition deque_at :: "int \<Rightarrow> timestampDeque \<Rightarrow> time option" where
  "deque_at index deque =
     (let i = int (td_head deque) + index
      in if 0 \<le> i \<and> i < int (length (td_values deque)) then Some (td_values deque ! nat i) else None)"

definition deque_push :: "time \<Rightarrow> timestampDeque \<Rightarrow> timestampDeque" where
  "deque_push value deque = deque\<lparr>td_values := td_values deque @ [value]\<rparr>"

section \<open>The limiter\<close>

record AccessKeyRPM =
  rl_windows :: "(nat, timestampDeque) gomap"
  rl_lastCleanup :: time

definition NewAccessKeyRPM :: AccessKeyRPM where
  "NewAccessKeyRPM = \<lparr>rl_windows = [], rl_lastCleanup = 0\<rparr>"

definition ceilToSecond :: "duration \<Rightarrow> duration" where
  "ceilToSecond d = (if d \<le> 0 then d else wrap64 ((wrap64 (d + Second - 1) sdiv Second) * Second))"

fun cleanup_windows :: "time \<Rightarrow> (nat, timestampDeque) gomap \<Rightarrow> (nat, timestampDeque) gomap" where
  "cleanup_windows cutoff [] = []"
| "cleanup_windows cutoff ((accessKeyID, window) # rest) =
     (if deque_len (dropThrough cutoff window) = 0 then cleanup_windows cutoff rest
      else (accessKeyID, dropThrough cutoff window) # cleanup_windows cutoff rest)"

definition cleanup :: "time \<Rightarrow> AccessKeyRPM \<Rightarrow> AccessKeyRPM" where
  "cleanup now limiter =
     (if \<not> IsZero (rl_lastCleanup limiter) \<and> TimeSub now (rl_lastCleanup limiter) < Minute then limiter
      else limiter\<lparr>rl_windows := cleanup_windows (TimeAdd now (- Minute)) (rl_windows limiter),
                   rl_lastCleanup := now\<rparr>)"

definition window_of :: "AccessKeyRPM \<Rightarrow> nat \<Rightarrow> timestampDeque" where
  "window_of limiter accessKeyID =
     (case map_of (rl_windows limiter) accessKeyID of None \<Rightarrow> timestampDeque0 | Some w \<Rightarrow> w)"

definition clampRetry :: "duration \<Rightarrow> duration" where
  "clampRetry d = (let r = (if d < Second then Second else d) in if r > Minute then Minute else r)"

text \<open>
  \<open>Allow\<close> at the instant \<open>now\<close> the clock returns; the decision is \<open>None\<close> where the
  indexing would panic.
\<close>

definition Allow :: "time \<Rightarrow> nat \<Rightarrow> int \<Rightarrow> AccessKeyRPM \<Rightarrow> LimitDecision option \<times> AccessKeyRPM" where
  "Allow now accessKeyID limit limiter0 =
     (let limiter = cleanup now limiter0
      in if limit \<le> 0
         then (Some \<lparr>ld_Allowed = True, ld_RetryAfter = 0\<rparr>,
               limiter\<lparr>rl_windows := AList.delete accessKeyID (rl_windows limiter)\<rparr>)
         else
           let window = dropThrough (TimeAdd now (- Minute)) (window_of limiter accessKeyID);
               count = deque_len window
           in if limit \<le> count
              then case deque_at (count - limit) window of
                     None \<Rightarrow> (None, limiter)
                   | Some target \<Rightarrow>
                       let retryAfter = clampRetry (ceilToSecond (TimeSub (TimeAdd target Minute) now))
                       in (Some \<lparr>ld_Allowed = False, ld_RetryAfter = retryAfter\<rparr>,
                           limiter\<lparr>rl_windows := AList.update accessKeyID window (rl_windows limiter)\<rparr>)
              else (Some \<lparr>ld_Allowed = True, ld_RetryAfter = 0\<rparr>,
                    limiter\<lparr>rl_windows := AList.update accessKeyID (deque_push now window) (rl_windows limiter)\<rparr>))"

section \<open>What the limiter relies on\<close>

locale sliding_window =
  fixes emptyw :: 'w
    and dropw :: "time \<Rightarrow> 'w \<Rightarrow> 'w"
    and lenw :: "'w \<Rightarrow> int"
    and atw :: "int \<Rightarrow> 'w \<Rightarrow> time option"
    and pushw :: "time \<Rightarrow> 'w \<Rightarrow> 'w"
    and absw :: "'w \<Rightarrow> time list"
    and invw :: "'w \<Rightarrow> bool"
  assumes abs_empty: "absw emptyw = []" and inv_empty: "invw emptyw"
    and abs_drop: "invw w \<Longrightarrow> absw (dropw c w) = dropWhile (\<lambda>t. t \<le> c) (absw w)"
    and inv_drop: "invw w \<Longrightarrow> invw (dropw c w)"
    and len_abs: "invw w \<Longrightarrow> lenw w = int (length (absw w))"
    and at_abs: "invw w \<Longrightarrow> 0 \<le> i \<Longrightarrow> atw i w = (if i < int (length (absw w)) then Some (absw w ! nat i) else None)"
    and abs_push: "invw w \<Longrightarrow> absw (pushw t w) = absw w @ [t]"
    and inv_push: "invw w \<Longrightarrow> invw (pushw t w)"
begin

lemma drop_sorted:
  assumes "invw w" and "sorted (absw w)"
  shows "absw (dropw c w) = filter (\<lambda>t. c < t) (absw w)"
proof -
  have "dropWhile (\<lambda>t. t \<le> c) xs = filter (\<lambda>t. c < t) xs" if "sorted xs" for xs :: "time list"
    using that
  proof (induction xs)
    case (Cons a xs)
    show ?case
    proof (cases "a \<le> c")
      case False
      then have "filter (\<lambda>t. c < t) xs = xs" using Cons.prems by (auto simp: filter_id_conv)
      with False show ?thesis by simp
    qed (use Cons in simp)
  qed simp
  with assms show ?thesis by (simp add: abs_drop)
qed

text \<open>The window is a suffix of the log that holds everything newer than some past cutoff.\<close>

lemma drop_log:
  assumes "invw w" and "sorted log" and "absw w = filter (\<lambda>t. c0 < t) log" and "c0 \<le> c"
  shows "absw (dropw c w) = filter (\<lambda>t. c < t) log"
proof -
  have "absw (dropw c w) = filter (\<lambda>t. c < t) (filter (\<lambda>t. c0 < t) log)"
    using drop_sorted [OF assms(1)] assms(2,3) by (simp add: sorted_filter [of id, simplified])
  also have "\<dots> = filter (\<lambda>t. c < t) log" using assms(4) by (auto simp: filter_filter intro: filter_cong)
  finally show ?thesis .
qed

end

definition deque_abs :: "timestampDeque \<Rightarrow> time list" where
  "deque_abs d = drop (td_head d) (td_values d)"

definition deque_inv :: "timestampDeque \<Rightarrow> bool" where
  "deque_inv d \<longleftrightarrow> td_head d \<le> length (td_values d)"

lemma skip_head_drop:
  "h \<le> length vs \<Longrightarrow> skip_head c vs h \<le> length vs \<and> drop (skip_head c vs h) vs = dropWhile (\<lambda>t. t \<le> c) (drop h vs)"
proof (induction c vs h rule: skip_head.induct)
  case (1 c vs h)
  show ?case
  proof (cases "h < length vs")
    case True
    then have "drop h vs = vs ! h # drop (Suc h) vs" by (simp add: Cons_nth_drop_Suc)
    with 1 True show ?thesis by (simp add: skip_head.simps [of c vs h] After_def)
  next
    case False
    then have "skip_head c vs h = h" by (simp add: skip_head.simps [of c vs h])
    with 1 False show ?thesis by simp
  qed
qed

interpretation rpm: sliding_window timestampDeque0 dropThrough deque_len deque_at deque_push deque_abs deque_inv
proof
  show "deque_abs timestampDeque0 = []" "deque_inv timestampDeque0"
    by (simp_all add: deque_abs_def deque_inv_def timestampDeque0_def)
next
  fix w :: timestampDeque and c i t :: int
  assume inv: "deque_inv w"
  have skip: "skip_head c (td_values w) (td_head w) \<le> length (td_values w)"
    and rest: "drop (skip_head c (td_values w) (td_head w)) (td_values w) = dropWhile (\<lambda>t. t \<le> c) (deque_abs w)"
    using skip_head_drop [of "td_head w" "td_values w" c] inv by (simp_all add: deque_inv_def deque_abs_def)
  show "deque_abs (dropThrough c w) = dropWhile (\<lambda>t. t \<le> c) (deque_abs w)"
    using rest [symmetric] by (simp add: dropThrough_def Let_def deque_abs_def)
  show "deque_inv (dropThrough c w)"
    using skip by (simp add: dropThrough_def Let_def deque_inv_def)
  show "deque_len w = int (length (deque_abs w))"
    and "deque_abs (deque_push t w) = deque_abs w @ [t]" and "deque_inv (deque_push t w)"
    using inv by (simp_all add: deque_len_def deque_abs_def deque_push_def deque_inv_def)
  show "deque_at i w = (if i < int (length (deque_abs w)) then Some (deque_abs w ! nat i) else None)"
    if "0 \<le> i"
    using inv that by (simp add: deque_at_def Let_def deque_abs_def deque_inv_def nat_add_distrib)
qed

section \<open>Specification: the log of accepted requests\<close>

text \<open>
  The specification keeps, per access key, every accepted instant since the key
  was last unlimited, and decides by counting the log entries of the last minute.
\<close>

type_synonym request_log = "nat \<Rightarrow> time list"

definition last_minute :: "time \<Rightarrow> time list \<Rightarrow> time list" where
  "last_minute now log = filter (\<lambda>t. now - Minute < t) log"

definition spec_allow :: "time \<Rightarrow> nat \<Rightarrow> int \<Rightarrow> request_log \<Rightarrow> LimitDecision \<times> request_log" where
  "spec_allow now k limit log =
     (if limit \<le> 0 then (\<lparr>ld_Allowed = True, ld_RetryAfter = 0\<rparr>, log(k := []))
      else let recent = last_minute now (log k)
           in if int (length recent) < limit
              then (\<lparr>ld_Allowed = True, ld_RetryAfter = 0\<rparr>, log(k := log k @ [now]))
              else (\<lparr>ld_Allowed = False, ld_RetryAfter =
                      clampRetry (ceilToSecond (recent ! (length recent - nat limit) + Minute - now))\<rparr>, log))"

text \<open>A window holds the log entries past some cutoff that is at least a minute old.\<close>

definition window_rel :: "time \<Rightarrow> time list \<Rightarrow> timestampDeque \<Rightarrow> bool" where
  "window_rel now log w \<longleftrightarrow> deque_inv w \<and> sorted log \<and> (\<forall>t \<in> set log. t \<le> now)
     \<and> (\<exists>c \<le> now - Minute. deque_abs w = filter (\<lambda>t. c < t) log)"

definition limiter_rel :: "time \<Rightarrow> request_log \<Rightarrow> AccessKeyRPM \<Rightarrow> bool" where
  "limiter_rel now log limiter \<longleftrightarrow> wf_map (rl_windows limiter)
     \<and> (\<forall>k. window_rel now (log k) (window_of limiter k))"

lemma window_rel_empty: "window_rel now [] timestampDeque0"
  using rpm.abs_empty rpm.inv_empty by (auto simp: window_rel_def)

lemma window_rel_later: "window_rel now log w \<Longrightarrow> now \<le> now' \<Longrightarrow> window_rel now' log w"
  unfolding window_rel_def by (metis diff_right_mono order_trans)

lemma window_rel_drop:
  assumes "window_rel now log w"
  shows "window_rel now log (dropThrough (now - Minute) w)"
    and "deque_abs (dropThrough (now - Minute) w) = last_minute now log"
proof -
  obtain c where c: "c \<le> now - Minute" "deque_abs w = filter (\<lambda>t. c < t) log"
    and w: "deque_inv w" "sorted log"
    using assms by (auto simp: window_rel_def)
  show abs: "deque_abs (dropThrough (now - Minute) w) = last_minute now log"
    unfolding last_minute_def using rpm.drop_log [OF w c(2) c(1)] .
  with assms show "window_rel now log (dropThrough (now - Minute) w)"
    by (auto simp: window_rel_def last_minute_def rpm.inv_drop)
qed

lemma window_rel_push:
  assumes "window_rel now log w" and "deque_abs w = last_minute now log"
  shows "window_rel now (log @ [now]) (deque_push now w)"
  using assms rpm.abs_push [of w now] rpm.inv_push [of w now]
  by (auto simp: window_rel_def last_minute_def sorted_append Minute_def intro!: exI [of _ "now - Minute"])

lemma dropped_window_empty:
  assumes "deque_inv w" and "deque_len (dropThrough c w) = 0"
  shows "deque_abs (dropThrough c w) = []"
  using assms rpm.len_abs [OF rpm.inv_drop [OF assms(1)], of c] by simp

lemma map_of_cleanup:
  "wf_map ws \<Longrightarrow> map_of (cleanup_windows c ws) k = (case map_of ws k of None \<Rightarrow> None
     | Some w \<Rightarrow> if deque_len (dropThrough c w) = 0 then None else Some (dropThrough c w))"
proof (induction c ws rule: cleanup_windows.induct)
  case (2 c j w rest)
  have "map_of rest j = None" using 2 by (simp add: map_of_eq_None_iff)
  with 2 show ?case by auto
qed simp

lemma wf_map_cleanup: "wf_map ws \<Longrightarrow> wf_map (cleanup_windows c ws)"
proof -
  have "set (keys (cleanup_windows c ws)) \<subseteq> set (keys ws)" for c ws
    by (induction c ws rule: cleanup_windows.induct) auto
  then show "wf_map ws \<Longrightarrow> wf_map (cleanup_windows c ws)"
    by (induction c ws rule: cleanup_windows.induct) auto
qed

lemma cleanup_rel:
  assumes rel: "limiter_rel now log limiter"
  shows "limiter_rel now log (cleanup now limiter)"
proof (cases "\<not> IsZero (rl_lastCleanup limiter) \<and> TimeSub now (rl_lastCleanup limiter) < Minute")
  case True
  with rel show ?thesis by (simp add: cleanup_def)
next
  case False
  have wf: "wf_map (rl_windows limiter)" using rel by (simp add: limiter_rel_def)
  have "window_rel now (log k) (window_of (cleanup now limiter) k)" for k
  proof (cases "map_of (rl_windows limiter) k")
    case None
    then have "window_of (cleanup now limiter) k = window_of limiter k"
      using False wf by (simp add: cleanup_def window_of_def map_of_cleanup)
    with rel show ?thesis by (simp add: limiter_rel_def)
  next
    case (Some w)
    then have w: "window_rel now (log k) w" using rel by (auto simp: limiter_rel_def window_of_def split: option.splits)
    let ?d = "dropThrough (now - Minute) w"
    have window: "window_of (cleanup now limiter) k = (if deque_len ?d = 0 then timestampDeque0 else ?d)"
      using False wf Some by (auto simp: cleanup_def window_of_def map_of_cleanup TimeAdd_def)
    have "deque_abs ?d = []" if "deque_len ?d = 0"
      using dropped_window_empty that w by (simp add: window_rel_def)
    then have "window_rel now (log k) timestampDeque0" if "deque_len ?d = 0"
      using that window_rel_drop [OF w] by (auto simp: window_rel_def rpm.abs_empty rpm.inv_empty)
    with window window_rel_drop [OF w] show ?thesis by simp
  qed
  with False wf show ?thesis by (simp add: limiter_rel_def cleanup_def wf_map_cleanup)
qed

lemma window_of_update [simp]:
  "window_of (l\<lparr>rl_windows := AList.update k w (rl_windows l)\<rparr>) j = (if j = k then w else window_of l j)"
  "window_of (l\<lparr>rl_windows := AList.delete k (rl_windows l)\<rparr>) j = (if j = k then timestampDeque0 else window_of l j)"
  by (simp_all add: window_of_def)

text \<open>One call of \<open>Allow\<close> takes the decision of the specification and keeps the relation.\<close>

lemma Allow_refines:
  assumes rel: "limiter_rel now log limiter"
  shows "fst (Allow now k limit limiter) = Some (fst (spec_allow now k limit log))"
    and "limiter_rel now (snd (spec_allow now k limit log)) (snd (Allow now k limit limiter))"
proof -
  define l where "l = cleanup now limiter"
  have l: "limiter_rel now log l" using cleanup_rel [OF rel] by (simp add: l_def)
  define w where "w = dropThrough (now - Minute) (window_of l k)"
  define recent where "recent = last_minute now (log k)"
  have wk: "window_rel now (log k) (window_of l k)" using l by (simp add: limiter_rel_def)
  have w: "window_rel now (log k) w" and abs: "deque_abs w = recent"
    using window_rel_drop [OF wk] by (simp_all add: w_def recent_def)
  have inv: "deque_inv w" using w by (simp add: window_rel_def)
  have len: "deque_len w = int (length recent)" using rpm.len_abs [OF inv] abs by simp
  have upd: "limiter_rel now (log(k := lg)) (l\<lparr>rl_windows := AList.update k d (rl_windows l)\<rparr>)"
    if "window_rel now lg d" for lg d
    using that l by (simp add: limiter_rel_def)
  have del: "limiter_rel now (log(k := [])) (l\<lparr>rl_windows := AList.delete k (rl_windows l)\<rparr>)"
    using l by (simp add: limiter_rel_def window_rel_empty)
  have at_eq: "deque_at (int (length recent) - limit) w = Some (recent ! (length recent - nat limit))"
    and bounds: "recent ! (length recent - nat limit) \<in> set recent"
    if "0 < limit" "limit \<le> int (length recent)"
  proof -
    have "nat (int (length recent) - limit) = length recent - nat limit" using that by linarith
    then show "deque_at (int (length recent) - limit) w = Some (recent ! (length recent - nat limit))"
      using that rpm.at_abs [OF inv, of "int (length recent) - limit"] abs by simp
    show "recent ! (length recent - nat limit) \<in> set recent" using that by (intro nth_mem) linarith
  qed
  have sub: "TimeSub (TimeAdd x Minute) now = x + Minute - now" if "x \<in> set recent" for x
    using that w by (auto simp: go_time go_arith window_rel_def recent_def last_minute_def)
  have "fst (Allow now k limit limiter) = Some (fst (spec_allow now k limit log))
    \<and> limiter_rel now (snd (spec_allow now k limit log)) (snd (Allow now k limit limiter))"
  proof (cases "limit \<le> 0")
    case True
    with del show ?thesis by (simp add: Allow_def spec_allow_def flip: l_def)
  next
    case False
    show ?thesis
    proof (cases "int (length recent) < limit")
      case True
      then show ?thesis
        using False len upd [OF window_rel_push [OF w]] abs
        by (simp add: Allow_def spec_allow_def Let_def recent_def TimeAdd_def flip: l_def w_def)
    next
      case denied: False
      then have "deque_at (int (length recent) - limit) w = Some (recent ! (length recent - nat limit))"
        and "TimeSub (TimeAdd (recent ! (length recent - nat limit)) Minute) now
          = recent ! (length recent - nat limit) + Minute - now"
        using at_eq sub bounds False by simp_all
      with denied False len upd [OF w] show ?thesis
        by (simp add: Allow_def spec_allow_def Let_def TimeAdd_def flip: l_def w_def recent_def)
    qed
  qed
  then show "fst (Allow now k limit limiter) = Some (fst (spec_allow now k limit log))"
    and "limiter_rel now (snd (spec_allow now k limit log)) (snd (Allow now k limit limiter))" by simp_all
qed

section \<open>Runs of the limiter\<close>

text \<open>A request is the instant of the call, the access key and its limit at that moment.\<close>

type_synonym request = "time \<times> nat \<times> int"

fun allow_run :: "request list \<Rightarrow> AccessKeyRPM \<Rightarrow> LimitDecision option list \<times> AccessKeyRPM" where
  "allow_run [] limiter = ([], limiter)"
| "allow_run ((now, k, limit) # rs) limiter =
     (let (d, limiter') = Allow now k limit limiter; (ds, limiter'') = allow_run rs limiter'
      in (d # ds, limiter''))"

fun spec_run :: "request list \<Rightarrow> request_log \<Rightarrow> LimitDecision list \<times> request_log" where
  "spec_run [] log = ([], log)"
| "spec_run ((now, k, limit) # rs) log =
     (let (d, log') = spec_allow now k limit log; (ds, log'') = spec_run rs log'
      in (d # ds, log''))"

text \<open>The instants at which requests of key \<open>k\<close> were accepted.\<close>

fun accepted :: "nat \<Rightarrow> request list \<Rightarrow> LimitDecision list \<Rightarrow> time list" where
  "accepted k ((now, j, limit) # rs) (d # ds) =
     (if j = k \<and> ld_Allowed d then now # accepted k rs ds else accepted k rs ds)"
| "accepted k _ _ = []"

lemma limiter_rel_later: "limiter_rel now log l \<Longrightarrow> now \<le> now' \<Longrightarrow> limiter_rel now' log l"
  unfolding limiter_rel_def by (blast intro: window_rel_later)

lemma limiter_rel_new: "limiter_rel now (\<lambda>_. []) NewAccessKeyRPM"
  by (simp add: limiter_rel_def NewAccessKeyRPM_def window_of_def window_rel_empty)

lemma allow_run_refines:
  assumes "limiter_rel now log l" and "sorted (now # map fst rs)"
  shows "fst (allow_run rs l) = map Some (fst (spec_run rs log))"
  using assms
proof (induction rs arbitrary: now log l)
  case Nil
  then show ?case by simp
next
  case (Cons r rs)
  obtain t k limit where r: "r = (t, k, limit)" by (cases r)
  have rel: "limiter_rel t log l" using Cons.prems r limiter_rel_later by auto
  have "limiter_rel t (snd (spec_allow t k limit log)) (snd (Allow t k limit l))"
    and "fst (Allow t k limit l) = Some (fst (spec_allow t k limit log))"
    using Allow_refines [OF rel] by simp_all
  then show ?case using Cons.IH Cons.prems(2) r by (simp add: Let_def split_beta)
qed

text \<open>At most \<open>L\<close> entries of a log fall into any interval of one minute.\<close>

definition minute_bound :: "int \<Rightarrow> time list \<Rightarrow> bool" where
  "minute_bound L log \<longleftrightarrow> (\<forall>a. int (length (filter (\<lambda>t. a < t \<and> t \<le> a + Minute) log)) \<le> L)"

lemma minute_bound_snoc:
  assumes bound: "minute_bound L log" and old: "\<forall>t \<in> set log. t \<le> now"
    and room: "int (length (last_minute now log)) < L"
  shows "minute_bound L (log @ [now])"
  unfolding minute_bound_def
proof
  fix a
  have "int (length (filter (\<lambda>t. a < t \<and> t \<le> a + Minute) log)) \<le> L"
    using bound by (simp add: minute_bound_def)
  moreover have "length (filter (\<lambda>t. a < t \<and> t \<le> a + Minute) log) \<le> length (last_minute now log)"
    if "now \<le> a + Minute"
  proof -
    have "filter (\<lambda>t. a < t \<and> t \<le> a + Minute) log = filter (\<lambda>t. a < t \<and> t \<le> a + Minute) (last_minute now log)"
      using that by (auto simp: last_minute_def filter_filter intro!: filter_cong)
    then show ?thesis by simp
  qed
  ultimately show "int (length (filter (\<lambda>t. a < t \<and> t \<le> a + Minute) (log @ [now]))) \<le> L"
    using room by (cases "now \<le> a + Minute") auto
qed

lemma spec_run_bound:
  assumes "sorted (now # map fst rs)" and "\<forall>t \<in> set (log k). t \<le> now"
    and "minute_bound L (log k)" and "\<forall>(t, j, limit) \<in> set rs. j = k \<longrightarrow> 0 < limit \<and> limit \<le> L"
  shows "minute_bound L (log k @ accepted k rs (fst (spec_run rs log)))"
  using assms
proof (induction rs arbitrary: now log)
  case Nil
  then show ?case by simp
next
  case (Cons r rs)
  obtain t j limit where r: "r = (t, j, limit)" by (cases r)
  define log' where "log' = snd (spec_allow t j limit log)"
  let ?d = "fst (spec_allow t j limit log)"
  have le: "\<forall>u \<in> set (log k). u \<le> t" using Cons.prems r by (auto intro: order_trans)
  have limit: "0 < limit \<and> limit \<le> L" if "j = k" using Cons.prems(4) r that by auto
  have eq: "log' k @ accepted k rs (fst (spec_run rs log'))
      = log k @ accepted k (r # rs) (fst (spec_run (r # rs) log))"
    using limit by (auto simp: r log'_def spec_allow_def Let_def split_beta)
  have "minute_bound L (log' k) \<and> (\<forall>u \<in> set (log' k). u \<le> t)"
  proof (cases "j = k \<and> int (length (last_minute t (log k))) < limit")
    case True
    with limit minute_bound_snoc [OF Cons.prems(3) le] le show ?thesis
      by (simp add: log'_def spec_allow_def)
  next
    case False
    with limit Cons.prems(3) le show ?thesis by (auto simp: log'_def spec_allow_def Let_def)
  qed
  with Cons.IH [of t log'] Cons.prems r eq show ?case by auto
qed

section \<open>Retry hints\<close>

lemma ceilToSecond_bounds:
  assumes "0 < d" and "d \<le> Minute"
  shows "d \<le> ceilToSecond d \<and> Second \<le> ceilToSecond d \<and> ceilToSecond d \<le> Minute"
proof -
  have "(d + Second - 1) sdiv Second = (d + Second - 1) div Second"
    using assms by (simp add: signed_divide_int_def go_time)
  moreover have q: "1 \<le> (d + Second - 1) div Second" "(d + Second - 1) div Second \<le> 60"
    using assms by (simp_all add: go_time)
  then have "int64 ((d + Second - 1) div Second * Second)" and "int64 (d + Second - 1)"
    using assms by (auto simp: go_time go_arith)
  ultimately have "ceilToSecond d = (d + Second - 1) div Second * Second"
    using assms by (simp add: ceilToSecond_def)
  with q assms show ?thesis by (simp add: go_time)
qed

lemma clampRetry_id: "Second \<le> d \<Longrightarrow> d \<le> Minute \<Longrightarrow> clampRetry d = d"
  by (simp add: clampRetry_def)

lemma spec_denied:
  assumes "spec_allow now k limit log = (d, log')" and "\<not> ld_Allowed d"
    and "sorted (log k)" and "\<forall>t \<in> set (log k). t \<le> now"
  shows "Second \<le> ld_RetryAfter d" and "ld_RetryAfter d \<le> Minute" and "log' = log" and "0 < limit"
    and "now + ld_RetryAfter d \<le> now' \<Longrightarrow> int (length (last_minute now' (log k))) < limit"
proof -
  define recent where "recent = last_minute now (log k)"
  define i where "i = length recent - nat limit"
  have limit: "0 < limit" "limit \<le> int (length recent)" and log': "log' = log"
    and d: "ld_RetryAfter d = clampRetry (ceilToSecond (recent ! i + Minute - now))"
    using assms(1,2) by (auto simp: spec_allow_def Let_def recent_def i_def split: if_splits)
  have i: "i < length recent" using limit by (simp add: i_def)
  then have "recent ! i \<in> set recent" by simp
  then have "0 < recent ! i + Minute - now" "recent ! i + Minute - now \<le> Minute"
    using assms(4) by (auto simp: recent_def last_minute_def)
  from ceilToSecond_bounds [OF this] clampRetry_id d
  have r: "recent ! i + Minute - now \<le> ld_RetryAfter d" "Second \<le> ld_RetryAfter d" "ld_RetryAfter d \<le> Minute"
    by auto
  from r limit log' show "Second \<le> ld_RetryAfter d" "ld_RetryAfter d \<le> Minute" "log' = log" "0 < limit" by auto
  assume later: "now + ld_RetryAfter d \<le> now'"
  then have past: "recent ! i \<le> now' - Minute" and now': "now \<le> now'" using r by (auto simp: go_time)
  have sorted: "sorted recent" using assms(3) by (simp add: recent_def last_minute_def sorted_filter [of id, simplified])
  have "last_minute now' (log k) = filter (\<lambda>t. now' - Minute < t) recent"
    using now' by (auto simp: recent_def last_minute_def filter_filter intro!: filter_cong)
  also have "\<dots> = filter (\<lambda>t. now' - Minute < t) (take (Suc i) recent @ drop (Suc i) recent)" by simp
  also have "\<dots> = filter (\<lambda>t. now' - Minute < t) (drop (Suc i) recent)"
  proof -
    have "t \<le> recent ! i" if "t \<in> set (take (Suc i) recent)" for t
      using that i sorted by (auto simp: in_set_conv_nth less_Suc_eq_le intro: sorted_nth_mono)
    then have "filter (\<lambda>t. now' - Minute < t) (take (Suc i) recent) = []"
      using past by (force simp: filter_empty_conv)
    then show ?thesis unfolding filter_append by simp
  qed
  finally have "length (last_minute now' (log k)) \<le> length recent - Suc i"
    by (metis length_drop length_filter_le)
  then show "int (length (last_minute now' (log k))) < limit" using limit i by (simp add: i_def)
qed

section \<open>Properties\<close>

text \<open>
  On every sequence of requests with a clock that does not run
  backwards, from a new limiter, no call panics and every decision, retry hint
  included, is the one obtained by counting the accepted requests of the last
  minute in a complete log: neither the compaction of the deque nor the sweep of
  idle keys is ever visible.
\<close>

theorem rpm_refines_log:
  assumes "sorted (map fst rs)"
  shows "fst (allow_run rs NewAccessKeyRPM) = map Some (fst (spec_run rs (\<lambda>_. [])))"
proof (cases rs)
  case (Cons r rs')
  then show ?thesis
    using allow_run_refines [OF limiter_rel_new, of "fst r" rs] assms by auto
qed simp

theorem rpm_refines_log_witness:
  "fst (allow_run [(1, 7, 2), (5, 7, 2), (9, 8, 1), (10, 7, 2), (Minute + 3, 7, 2)] NewAccessKeyRPM)
   = map Some (fst (spec_run [(1, 7, 2), (5, 7, 2), (9, 8, 1), (10, 7, 2), (Minute + 3, 7, 2)] (\<lambda>_. [])))"
  by (rule rpm_refines_log) (simp add: Minute_def)

text \<open>
  Property C11. The rate limit itself: while the limit of an access key is
  positive and at most \<open>L\<close>, no interval of one minute contains more than \<open>L\<close>
  accepted requests of that key, whatever other keys do in between.
\<close>

theorem rpm_limit_respected:
  assumes sorted: "sorted (map fst rs)" and L: "0 \<le> L"
    and limits: "\<forall>(t, j, limit) \<in> set rs. j = k \<longrightarrow> 0 < limit \<and> limit \<le> L"
  shows "int (length (filter (\<lambda>t. a < t \<and> t \<le> a + Minute)
      (accepted k rs (map the (fst (allow_run rs NewAccessKeyRPM)))))) \<le> L"
proof (cases rs)
  case (Cons r rs')
  have run: "fst (allow_run rs NewAccessKeyRPM) = map Some (fst (spec_run rs (\<lambda>_. [])))"
    using allow_run_refines [OF limiter_rel_new, of "fst r" rs] sorted Cons by auto
  have "minute_bound L ([] @ accepted k rs (fst (spec_run rs (\<lambda>_. []))))"
    using spec_run_bound [of "fst r" rs "\<lambda>_. []" k L] sorted Cons limits L by (auto simp: minute_bound_def)
  then show ?thesis by (simp add: minute_bound_def run comp_def)
qed (use L in simp)

theorem rpm_limit_respected_witness:
  "int (length (filter (\<lambda>t. 0 < t \<and> t \<le> 0 + Minute)
      (accepted 7 [(1, 7, 2), (5, 7, 2), (9, 8, 1), (10, 7, 2)]
        (map the (fst (allow_run [(1, 7, 2), (5, 7, 2), (9, 8, 1), (10, 7, 2)] NewAccessKeyRPM)))))) \<le> 2"
  by (rule rpm_limit_respected) simp_all

text \<open>
  The hint of a refusal is honest. In any state the limiter reaches,
  a refusal asks to wait between one second and one minute, and if the key sends
  nothing else, a request made after waiting that long is accepted.
\<close>

theorem rpm_retry_after_suffices:
  assumes rel: "limiter_rel now log limiter"
    and denied: "Allow now k limit limiter = (Some d, limiter')" "\<not> ld_Allowed d"
    and later: "now + ld_RetryAfter d \<le> now'"
  shows "Second \<le> ld_RetryAfter d \<and> ld_RetryAfter d \<le> Minute
     \<and> (\<exists>d'. fst (Allow now' k limit limiter') = Some d' \<and> ld_Allowed d')"
proof -
  obtain d0 log' where spec: "spec_allow now k limit log = (d0, log')" by fastforce
  have d0: "d0 = d" and rel': "limiter_rel now log' limiter'"
    using Allow_refines [OF rel, of k limit] spec denied(1) by simp_all
  have log: "sorted (log k)" "\<forall>t \<in> set (log k). t \<le> now"
    using rel by (auto simp: limiter_rel_def window_rel_def)
  note hint = spec_denied [OF spec _ log, unfolded d0, OF denied(2)]
  have "now \<le> now'" using later hint(1) by (simp add: go_time)
  then have rel'': "limiter_rel now' log limiter'" using limiter_rel_later rel' hint(3) by simp
  have "ld_Allowed (fst (spec_allow now' k limit log))"
    using hint(5) [OF later] by (simp add: spec_allow_def Let_def)
  with Allow_refines(1) [OF rel'', of k limit] hint(1,2) show ?thesis by simp
qed

definition busy_limiter :: AccessKeyRPM where
  "busy_limiter = \<lparr>rl_windows = [(7, \<lparr>td_values = [1, 5], td_head = 0\<rparr>)], rl_lastCleanup = 1\<rparr>"

lemma busy_limiter_rel: "limiter_rel 10 (\<lambda>k. if k = 7 then [1, 5] else []) busy_limiter"
  by (auto simp: limiter_rel_def busy_limiter_def window_of_def window_rel_def deque_inv_def
      deque_abs_def timestampDeque0_def Minute_def intro: exI [of _ "10 - Minute"])

lemma busy_limiter_denies:
  "Allow 10 7 2 busy_limiter = (Some \<lparr>ld_Allowed = False, ld_RetryAfter = Minute\<rparr>, busy_limiter)"
  by code_simp

theorem rpm_retry_after_suffices_witness:
  "Allow 10 7 2 busy_limiter = (Some \<lparr>ld_Allowed = False, ld_RetryAfter = Minute\<rparr>, busy_limiter)
   \<and> (\<exists>d'. fst (Allow (10 + Minute) 7 2 busy_limiter) = Some d' \<and> ld_Allowed d')"
  using rpm_retry_after_suffices [OF busy_limiter_rel busy_limiter_denies, of "10 + Minute"] busy_limiter_denies
  by simp

end
