(* ===== verification/Protocol.thy ===== *)
theory Protocol
  imports Prelude
begin

text \<open>
  Protocol identifiers shared by the runtime (\<open>src/internal/protocol/protocol.go\<close>).
  A protocol is the string the program stores and hashes.
\<close>

type_synonym Protocol = string

definition OpenAICompletions :: Protocol where "OpenAICompletions = ''openai-completions''"
definition OpenAIResponses :: Protocol where "OpenAIResponses = ''openai-responses''"
definition OpenAIImages :: Protocol where "OpenAIImages = ''openai-images''"
definition OpenAIEmbeddings :: Protocol where "OpenAIEmbeddings = ''openai-embeddings''"
definition Anthropic :: Protocol where "Anthropic = ''anthropic''"
definition Gemini :: Protocol where "Gemini = ''gemini''"

definition Protocol_Valid :: "Protocol \<Rightarrow> bool" where
  "Protocol_Valid p \<longleftrightarrow> p = OpenAICompletions \<or> p = OpenAIResponses \<or> p = OpenAIImages
     \<or> p = OpenAIEmbeddings \<or> p = Anthropic \<or> p = Gemini"

definition DataPlaneEnabled :: "Protocol \<Rightarrow> bool" where
  "DataPlaneEnabled p \<longleftrightarrow> p = OpenAICompletions \<or> p = OpenAIResponses \<or> p = OpenAIImages
     \<or> p = OpenAIEmbeddings \<or> p = Anthropic \<or> p = Gemini"

definition SupportsModelOptionalRequests :: "Protocol \<Rightarrow> bool" where
  "SupportsModelOptionalRequests p \<longleftrightarrow> p = OpenAIResponses"

definition DataPlaneProtocols :: "Protocol list" where
  "DataPlaneProtocols = [OpenAICompletions, OpenAIResponses, OpenAIImages, OpenAIEmbeddings, Anthropic, Gemini]"

lemmas protocol_names = OpenAICompletions_def OpenAIResponses_def OpenAIImages_def OpenAIEmbeddings_def
  Anthropic_def Gemini_def

text \<open>The data plane accepts exactly the valid protocols, each listed once.\<close>

lemma data_plane_protocols:
  "distinct DataPlaneProtocols" "p \<in> set DataPlaneProtocols \<longleftrightarrow> Protocol_Valid p"
  "DataPlaneEnabled p \<longleftrightarrow> Protocol_Valid p"
  by (auto simp: DataPlaneProtocols_def Protocol_Valid_def DataPlaneEnabled_def protocol_names)

end
