(* ===== verification/Affinity.thy ===== *)
theory Affinity
  imports Protocol
begin

text \<open>
  The soft affinity cache (\<open>src/internal/affinity/cache.go\<close>) and the derivation
  of its keys (\<open>src/internal/affinity/key.go\<close>).

  The cache is a Go map from keys to elements of a doubly linked list. Elements
  are addresses here: \<open>ca_elem\<close> is the store of entry objects, \<open>ca_entries\<close> the
  map from keys to addresses and \<open>ca_recent\<close> the list of addresses, most recent
  first. The refinement lemmas show that the map and the list always describe the
  same bounded list of entries, kept in order of last use.
\<close>

section \<open>Types\<close>

type_synonym Key = string

definition Key_Valid :: "Key \<Rightarrow> bool" where
  "Key_Valid key \<longleftrightarrow> key \<noteq> []"

record Target =
  tg_GroupID :: nat
  tg_CredentialID :: nat
  tg_IdentityGeneration :: uint64

definition Target0 :: Target where
  "Target0 = \<lparr>tg_GroupID = 0, tg_CredentialID = 0, tg_IdentityGeneration = 0\<rparr>"

definition Target_Valid :: "Target \<Rightarrow> bool" where
  "Target_Valid t \<longleftrightarrow> tg_GroupID t \<noteq> 0 \<and> tg_CredentialID t \<noteq> 0 \<and> tg_IdentityGeneration t \<noteq> 0"

record Observation =
  ob_Target :: Target
  ob_key :: Key
  ob_revision :: uint64
  ob_version :: uint64
  ob_found :: bool

definition Observation0 :: Observation where
  "Observation0 = \<lparr>ob_Target = Target0, ob_key = [], ob_revision = 0, ob_version = 0, ob_found = False\<rparr>"

definition Found :: "Observation \<Rightarrow> bool" where
  "Found observation = ob_found observation"

record cacheEntry =
  ce_key :: Key
  ce_target :: Target
  ce_version :: uint64
  ce_expiresAt :: time

type_synonym element = nat

text \<open>
  \<open>ca_now\<close> says that the clock function is set; the instant it returns is an
  argument of the operations. \<open>ca_fresh\<close> is the next unused address.
\<close>

record Cache =
  ca_entries :: "(Key, element) gomap"
  ca_recent :: "element list"
  ca_capacity :: int
  ca_ttl :: duration
  ca_now :: bool
  ca_revision :: uint64
  ca_nextVersion :: uint64
  ca_elem :: "element \<Rightarrow> cacheEntry"
  ca_fresh :: element

definition DefaultTTL :: duration where "DefaultTTL = Hour"
definition DefaultCapacity :: int where "DefaultCapacity = 10000"

definition no_entry :: cacheEntry where
  "no_entry = \<lparr>ce_key = [], ce_target = Target0, ce_version = 0, ce_expiresAt = 0\<rparr>"

definition newCache :: "int \<Rightarrow> duration \<Rightarrow> bool \<Rightarrow> Cache" where
  "newCache capacity ttl now =
     \<lparr>ca_entries = [], ca_recent = [], ca_capacity = capacity, ca_ttl = ttl, ca_now = now,
      ca_revision = 0, ca_nextVersion = 0, ca_elem = (\<lambda>_. no_entry), ca_fresh = 0\<rparr>"

definition NewCache :: Cache where
  "NewCache = newCache DefaultCapacity DefaultTTL True"

section \<open>Operations\<close>

definition MoveToFront :: "element \<Rightarrow> element list \<Rightarrow> element list" where
  "MoveToFront e recent = (if e \<in> set recent then e # remove1 e recent else recent)"

definition removeLocked :: "element \<Rightarrow> Cache \<Rightarrow> Cache" where
  "removeLocked e cache =
     cache\<lparr>ca_entries := AList.delete (ce_key (ca_elem cache e)) (ca_entries cache),
           ca_recent := remove1 e (ca_recent cache)\<rparr>"

definition currentElementLocked :: "Key \<Rightarrow> time \<Rightarrow> Cache \<Rightarrow> element option \<times> Cache" where
  "currentElementLocked key now cache =
     (case map_of (ca_entries cache) key of
        None \<Rightarrow> (None, cache)
      | Some e \<Rightarrow>
          if \<not> Before now (ce_expiresAt (ca_elem cache e)) then (None, removeLocked e cache)
          else (Some e, cache))"

text \<open>The eviction loop: it ends because each turn removes the back of the list.\<close>

function evict :: "Cache \<Rightarrow> Cache" where
  "evict cache =
     (if ca_capacity cache \<le> int (length (ca_entries cache)) \<and> ca_recent cache \<noteq> []
      then evict (removeLocked (last (ca_recent cache)) cache) else cache)"
  by pat_completeness auto
termination
proof (relation "measure (\<lambda>cache. length (ca_recent cache))")
  fix cache :: Cache
  assume "ca_capacity cache \<le> int (length (ca_entries cache)) \<and> ca_recent cache \<noteq> []"
  then have "last (ca_recent cache) \<in> set (ca_recent cache)" and "ca_recent cache \<noteq> []" by simp_all
  then show "(removeLocked (last (ca_recent cache)) cache, cache) \<in> measure (\<lambda>cache. length (ca_recent cache))"
    by (simp add: removeLocked_def length_remove1)
qed simp

declare evict.simps [simp del]

definition insertLocked :: "Key \<Rightarrow> Target \<Rightarrow> time \<Rightarrow> Cache \<Rightarrow> bool \<times> Cache" where
  "insertLocked key target now cache0 =
     (let cache = evict cache0;
          version = ca_nextVersion cache + 1;
          e = ca_fresh cache;
          entry = \<lparr>ce_key = key, ce_target = target, ce_version = version,
                   ce_expiresAt = TimeAdd now (ca_ttl cache)\<rparr>
      in (True, cache\<lparr>ca_nextVersion := version, ca_elem := (ca_elem cache)(e := entry), ca_fresh := e + 1,
                      ca_recent := e # ca_recent cache,
                      ca_entries := AList.update key e (ca_entries cache)\<rparr>))"

definition Configure :: "uint64 \<Rightarrow> int \<Rightarrow> duration \<Rightarrow> Cache option \<Rightarrow> bool \<times> Cache option" where
  "Configure revision capacity ttl ptr =
     (case ptr of
        None \<Rightarrow> (False, None)
      | Some cache \<Rightarrow>
          if revision = 0 \<or> capacity \<le> 0 \<or> ttl \<le> 0 \<or> \<not> ca_now cache then (False, Some cache)
          else if revision < ca_revision cache then (False, Some cache)
          else if revision = ca_revision cache
          then (ca_capacity cache = capacity \<and> ca_ttl cache = ttl, Some cache)
          else (True, Some (cache\<lparr>ca_revision := revision, ca_capacity := capacity, ca_ttl := ttl,
                                  ca_entries := [], ca_recent := []\<rparr>)))"

definition Cache_Lookup :: "Key \<Rightarrow> time \<Rightarrow> Cache option \<Rightarrow> Observation \<times> Cache option" where
  "Cache_Lookup key now ptr =
     (case ptr of
        None \<Rightarrow> (Observation0, None)
      | Some cache0 \<Rightarrow>
          if \<not> Key_Valid key \<or> \<not> ca_now cache0 then (Observation0, Some cache0)
          else case currentElementLocked key now cache0 of
            (None, cache) \<Rightarrow>
              (Observation0\<lparr>ob_key := key, ob_revision := ca_revision cache\<rparr>, Some cache)
          | (Some e, cache) \<Rightarrow>
              (\<lparr>ob_Target = ce_target (ca_elem cache e), ob_key = key, ob_revision = ca_revision cache,
                ob_version = ce_version (ca_elem cache e), ob_found = True\<rparr>,
               Some (cache\<lparr>ca_recent := MoveToFront e (ca_recent cache)\<rparr>)))"

definition refreshLocked :: "element \<Rightarrow> Target \<Rightarrow> time \<Rightarrow> Cache \<Rightarrow> bool \<times> Cache" where
  "refreshLocked e target now cache =
     (let version = ca_nextVersion cache + 1
      in (True, cache\<lparr>ca_nextVersion := version,
             ca_elem := (ca_elem cache)(e := (ca_elem cache e)\<lparr>ce_target := target, ce_version := version,
                                            ce_expiresAt := TimeAdd now (ca_ttl cache)\<rparr>),
             ca_recent := MoveToFront e (ca_recent cache)\<rparr>))"

definition recordLocked :: "Key \<Rightarrow> Observation \<Rightarrow> Target \<Rightarrow> time \<Rightarrow> Cache \<Rightarrow> bool \<times> Cache" where
  "recordLocked key observed target now cache0 =
     (if ca_capacity cache0 \<le> 0 \<or> ca_ttl cache0 \<le> 0 \<or> ob_revision observed \<noteq> ca_revision cache0
      then (False, cache0)
      else case currentElementLocked key now cache0 of
        (None, cache) \<Rightarrow> insertLocked key target now cache
      | (Some e, cache) \<Rightarrow>
          if ob_found observed
          then if ce_version (ca_elem cache e) \<noteq> ob_version observed
                  \<or> ce_target (ca_elem cache e) \<noteq> ob_Target observed
               then (False, cache) else refreshLocked e target now cache
          else (False, cache))"

definition RecordSuccess ::
  "Key \<Rightarrow> Observation \<Rightarrow> Target \<Rightarrow> time \<Rightarrow> Cache option \<Rightarrow> bool \<times> Cache option" where
  "RecordSuccess key observed target now ptr =
     (case ptr of
        None \<Rightarrow> (False, None)
      | Some cache \<Rightarrow>
          if \<not> Key_Valid key \<or> \<not> Target_Valid target \<or> \<not> ca_now cache then (False, Some cache)
          else if Key_Valid (ob_key observed) \<and> ob_key observed \<noteq> key then (False, Some cache)
          else case recordLocked key observed target now cache of (ok, cache') \<Rightarrow> (ok, Some cache'))"

definition entryCount :: "Cache option \<Rightarrow> int" where
  "entryCount ptr = (case ptr of None \<Rightarrow> 0 | Some cache \<Rightarrow> int (length (ca_entries cache)))"

section \<open>Key material\<close>

definition keyDomain :: string where
  "keyDomain = ''gpt-load/affinity/prompt-prefix-hmac/v2''"

text \<open>\<open>binary.BigEndian.PutUint64\<close>: eight bytes, the most significant first.\<close>

definition BigEndianUint64 :: "uint64 \<Rightarrow> string" where
  "BigEndianUint64 w = map (\<lambda>i. char_of (unat (drop_bit (8 * (7 - i)) w) :: nat)) [0..<8]"

definition writeKeyField :: "string \<Rightarrow> string" where
  "writeKeyField value = BigEndianUint64 (of_nat (length value)) @ value"

definition key_material :: "nat \<Rightarrow> Protocol \<Rightarrow> string \<Rightarrow> string" where
  "key_material accessKeyID clientProtocol prefix =
     writeKeyField keyDomain @ BigEndianUint64 (of_nat accessKeyID)
       @ writeKeyField clientProtocol @ writeKeyField prefix"

text \<open>The hasher, keyed with a secret, is a parameter; \<open>None\<close> is a missing hasher.\<close>

definition DeriveKey :: "(string \<Rightarrow> string) option \<Rightarrow> nat \<Rightarrow> Protocol \<Rightarrow> string \<Rightarrow> Key" where
  "DeriveKey hasher accessKeyID clientProtocol prefix =
     (case hasher of
        None \<Rightarrow> []
      | Some Hash \<Rightarrow>
          if accessKeyID = 0 \<or> \<not> Protocol_Valid clientProtocol \<or> length prefix = 0 then []
          else Hash (key_material accessKeyID clientProtocol prefix))"

section \<open>Specification: a bounded list in order of last use\<close>

definition lru_drop :: "Key \<Rightarrow> cacheEntry list \<Rightarrow> cacheEntry list" where
  "lru_drop key es = filter (\<lambda>e. ce_key e \<noteq> key) es"

definition lru_current :: "Key \<Rightarrow> time \<Rightarrow> cacheEntry list \<Rightarrow> cacheEntry option \<times> cacheEntry list" where
  "lru_current key now es =
     (case find (\<lambda>e. ce_key e = key) es of
        None \<Rightarrow> (None, es)
      | Some e \<Rightarrow> if now < ce_expiresAt e then (Some e, es) else (None, lru_drop key es))"

definition lru_lookup :: "Key \<Rightarrow> time \<Rightarrow> cacheEntry list \<Rightarrow> cacheEntry option \<times> cacheEntry list" where
  "lru_lookup key now es =
     (case lru_current key now es of
        (None, es') \<Rightarrow> (None, es')
      | (Some e, es') \<Rightarrow> (Some e, e # lru_drop key es'))"

definition lru_record ::
  "Key \<Rightarrow> Observation \<Rightarrow> cacheEntry \<Rightarrow> time \<Rightarrow> nat \<Rightarrow> cacheEntry list \<Rightarrow> bool \<times> cacheEntry list" where
  "lru_record key observed new now capacity es =
     (case lru_current key now es of
        (None, es') \<Rightarrow> (True, new # take (capacity - 1) es')
      | (Some e, es') \<Rightarrow>
          if ob_found observed \<and> ce_version e = ob_version observed \<and> ce_target e = ob_Target observed
          then (True, new # lru_drop key es') else (False, es'))"

definition cache_list :: "Cache \<Rightarrow> cacheEntry list" where
  "cache_list c = map (ca_elem c) (ca_recent c)"

section \<open>The map and the list agree\<close>

definition cache_coherent :: "Cache \<Rightarrow> bool" where
  "cache_coherent c \<longleftrightarrow> wf_map (ca_entries c) \<and> distinct (ca_recent c)
     \<and> (\<forall>e \<in> set (ca_recent c). e < ca_fresh c)
     \<and> (\<forall>k e. map_of (ca_entries c) k = Some e \<longleftrightarrow> e \<in> set (ca_recent c) \<and> ce_key (ca_elem c e) = k)"

definition cache_inv :: "Cache \<Rightarrow> bool" where
  "cache_inv c \<longleftrightarrow> cache_coherent c \<and> int (length (ca_entries c)) \<le> max 0 (ca_capacity c)
     \<and> (\<forall>e \<in> set (cache_list c). ce_version e \<le> ca_nextVersion c)"

lemma coherent_entry:
  "cache_coherent c \<Longrightarrow> map_of (ca_entries c) k = Some e \<longleftrightarrow> e \<in> set (ca_recent c) \<and> ce_key (ca_elem c e) = k"
  unfolding cache_coherent_def by simp

lemma coherent_key_inj:
  assumes "cache_coherent c" and "e \<in> set (ca_recent c)" and "e' \<in> set (ca_recent c)"
    and "ce_key (ca_elem c e) = ce_key (ca_elem c e')"
  shows "e = e'"
proof -
  have "map_of (ca_entries c) (ce_key (ca_elem c e)) = Some e"
    and "map_of (ca_entries c) (ce_key (ca_elem c e)) = Some e'"
    using assms by (simp_all add: coherent_entry)
  then show ?thesis by simp
qed

lemma coherent_length:
  assumes "cache_coherent c"
  shows "length (ca_entries c) = length (ca_recent c)"
proof -
  let ?f = "\<lambda>e. ce_key (ca_elem c e)"
  have "dom (map_of (ca_entries c)) = ?f ` set (ca_recent c)"
    using coherent_entry [OF assms] by (auto simp: dom_def)
  then have "set (keys (ca_entries c)) = ?f ` set (ca_recent c)" by (simp add: dom_map_of_conv_image_fst)
  moreover have "inj_on ?f (set (ca_recent c))"
    using coherent_key_inj [OF assms] by (auto simp: inj_on_def)
  ultimately have "card (set (keys (ca_entries c))) = card (set (ca_recent c))"
    using card_image by metis
  moreover have "card (set (keys (ca_entries c))) = length (ca_entries c)"
    using assms distinct_card [of "keys (ca_entries c)"] by (simp add: cache_coherent_def)
  moreover have "card (set (ca_recent c)) = length (ca_recent c)"
    using assms by (simp add: cache_coherent_def distinct_card)
  ultimately show ?thesis by simp
qed

lemma coherent_find:
  assumes "cache_coherent c"
  shows "find (\<lambda>e. ce_key e = k) (cache_list c) = map_option (ca_elem c) (map_of (ca_entries c) k)"
proof (cases "map_of (ca_entries c) k")
  case None
  then have "\<forall>e \<in> set (ca_recent c). ce_key (ca_elem c e) \<noteq> k"
    using coherent_entry [OF assms, of k] by auto
  then have "find (\<lambda>e. ce_key e = k) (cache_list c) = None" by (auto simp: cache_list_def find_None_iff)
  with None show ?thesis by simp
next
  case (Some e)
  then have e: "e \<in> set (ca_recent c)" "ce_key (ca_elem c e) = k"
    using coherent_entry [OF assms, of k] by auto
  obtain x where x: "find (\<lambda>e. ce_key e = k) (cache_list c) = Some x"
    using e by (cases "find (\<lambda>e. ce_key e = k) (cache_list c)") (auto simp: cache_list_def find_None_iff)
  then have "x \<in> set (cache_list c)" "ce_key x = k" by (auto simp: find_Some_iff)
  then obtain e' where "e' \<in> set (ca_recent c)" "x = ca_elem c e'" "ce_key (ca_elem c e') = k"
    by (auto simp: cache_list_def)
  with coherent_key_inj [OF assms] e have "x = ca_elem c e" by blast
  with x Some show ?thesis by simp
qed

lemma drop_element:
  assumes "cache_coherent c" and "e \<in> set (ca_recent c)"
  shows "map (ca_elem c) (remove1 e (ca_recent c)) = lru_drop (ce_key (ca_elem c e)) (cache_list c)"
proof -
  have "remove1 e (ca_recent c) = filter (\<lambda>x. e \<noteq> x) (ca_recent c)"
    using assms by (simp add: cache_coherent_def distinct_remove1_removeAll removeAll_filter_not_eq)
  also have "\<dots> = filter (\<lambda>x. ce_key (ca_elem c x) \<noteq> ce_key (ca_elem c e)) (ca_recent c)"
    using coherent_key_inj [OF assms(1)] assms(2) by (auto intro!: filter_cong)
  finally show ?thesis by (simp add: lru_drop_def cache_list_def filter_map comp_def)
qed

lemma removeLocked_refines:
  assumes "cache_coherent c" and "e \<in> set (ca_recent c)"
  shows "cache_coherent (removeLocked e c)"
    and "cache_list (removeLocked e c) = lru_drop (ce_key (ca_elem c e)) (cache_list c)"
proof -
  show "cache_list (removeLocked e c) = lru_drop (ce_key (ca_elem c e)) (cache_list c)"
    using drop_element [OF assms] by (simp add: cache_list_def removeLocked_def)
  show "cache_coherent (removeLocked e c)"
    using assms coherent_key_inj [OF assms(1) _ assms(2)] unfolding cache_coherent_def removeLocked_def
    by auto
qed

lemma MoveToFront_set [simp]: "set (MoveToFront e xs) = set xs"
proof -
  have "x \<in> set (MoveToFront e xs) \<longleftrightarrow> x \<in> set xs" for x
    by (cases "x = e") (auto simp: MoveToFront_def in_set_remove1)
  then show ?thesis by blast
qed

lemma MoveToFront_distinct [simp]: "distinct xs \<Longrightarrow> distinct (MoveToFront e xs)"
  by (auto simp: MoveToFront_def)

lemma cache_front_refines:
  assumes "cache_coherent c" and "e \<in> set (ca_recent c)"
  shows "cache_coherent (c\<lparr>ca_recent := MoveToFront e (ca_recent c)\<rparr>)"
    and "cache_list (c\<lparr>ca_recent := MoveToFront e (ca_recent c)\<rparr>)
      = ca_elem c e # lru_drop (ce_key (ca_elem c e)) (cache_list c)"
proof -
  show "cache_coherent (c\<lparr>ca_recent := MoveToFront e (ca_recent c)\<rparr>)"
    using assms(1) by (simp add: cache_coherent_def)
  show "cache_list (c\<lparr>ca_recent := MoveToFront e (ca_recent c)\<rparr>)
      = ca_elem c e # lru_drop (ce_key (ca_elem c e)) (cache_list c)"
    using assms(2) drop_element [OF assms] by (simp add: cache_list_def MoveToFront_def)
qed

lemma current_refines:
  assumes coh: "cache_coherent c" and cur: "currentElementLocked k now c = (r, c')"
  shows "cache_coherent c'" and "lru_current k now (cache_list c) = (map_option (ca_elem c) r, cache_list c')"
    and "\<And>e. r = Some e \<Longrightarrow> c' = c \<and> e \<in> set (ca_recent c) \<and> ce_key (ca_elem c e) = k"
    and "r = None \<Longrightarrow> find (\<lambda>e. ce_key e = k) (cache_list c') = None"
    and "ca_nextVersion c' = ca_nextVersion c \<and> ca_capacity c' = ca_capacity c \<and> ca_ttl c' = ca_ttl c
      \<and> ca_revision c' = ca_revision c \<and> ca_now c' = ca_now c \<and> ca_elem c' = ca_elem c"
proof -
  have "cache_coherent c' \<and> lru_current k now (cache_list c) = (map_option (ca_elem c) r, cache_list c')
    \<and> (\<forall>e. r = Some e \<longrightarrow> c' = c \<and> e \<in> set (ca_recent c) \<and> ce_key (ca_elem c e) = k)
    \<and> (r = None \<longrightarrow> find (\<lambda>e. ce_key e = k) (cache_list c') = None)
    \<and> ca_nextVersion c' = ca_nextVersion c \<and> ca_capacity c' = ca_capacity c \<and> ca_ttl c' = ca_ttl c
    \<and> ca_revision c' = ca_revision c \<and> ca_now c' = ca_now c \<and> ca_elem c' = ca_elem c"
  proof (cases "map_of (ca_entries c) k")
    case None
    with coh cur coherent_find [OF coh, of k] show ?thesis
      by (auto simp: currentElementLocked_def lru_current_def)
  next
    case (Some e)
    then have e: "e \<in> set (ca_recent c)" "ce_key (ca_elem c e) = k" using coherent_entry [OF coh] by auto
    have "find (\<lambda>x. ce_key x = k) (lru_drop k (cache_list c)) = None"
      by (auto simp: find_None_iff lru_drop_def)
    moreover have "find (\<lambda>x. ce_key x = k) (cache_list c) = Some (ca_elem c e)"
      using coherent_find [OF coh, of k] Some by simp
    moreover have "ca_nextVersion (removeLocked e c) = ca_nextVersion c \<and> ca_capacity (removeLocked e c) = ca_capacity c
        \<and> ca_ttl (removeLocked e c) = ca_ttl c \<and> ca_revision (removeLocked e c) = ca_revision c
        \<and> ca_now (removeLocked e c) = ca_now c \<and> ca_elem (removeLocked e c) = ca_elem c"
      by (simp add: removeLocked_def)
    moreover have "(r, c') = (if now < ce_expiresAt (ca_elem c e) then (Some e, c) else (None, removeLocked e c))"
      using cur Some by (auto simp: currentElementLocked_def Before_def split: if_splits)
    ultimately show ?thesis
      using coh e removeLocked_refines [OF coh e(1)]
      by (cases "now < ce_expiresAt (ca_elem c e)") (simp_all add: lru_current_def)
  qed
  then show "cache_coherent c'" and "lru_current k now (cache_list c) = (map_option (ca_elem c) r, cache_list c')"
    and "\<And>e. r = Some e \<Longrightarrow> c' = c \<and> e \<in> set (ca_recent c) \<and> ce_key (ca_elem c e) = k"
    and "r = None \<Longrightarrow> find (\<lambda>e. ce_key e = k) (cache_list c') = None"
    and "ca_nextVersion c' = ca_nextVersion c \<and> ca_capacity c' = ca_capacity c \<and> ca_ttl c' = ca_ttl c
      \<and> ca_revision c' = ca_revision c \<and> ca_now c' = ca_now c \<and> ca_elem c' = ca_elem c" by blast+
qed

lemma remove1_last: "distinct xs \<Longrightarrow> xs \<noteq> [] \<Longrightarrow> remove1 (last xs) xs = butlast xs"
  by (induction xs) auto

lemma evict_refines:
  assumes "cache_coherent c" and "0 < ca_capacity c"
  shows "cache_coherent (evict c) \<and> cache_list (evict c) = take (nat (ca_capacity c) - 1) (cache_list c)
    \<and> ca_nextVersion (evict c) = ca_nextVersion c \<and> ca_capacity (evict c) = ca_capacity c
    \<and> ca_ttl (evict c) = ca_ttl c \<and> ca_revision (evict c) = ca_revision c \<and> ca_now (evict c) = ca_now c
    \<and> ca_elem (evict c) = ca_elem c \<and> ca_fresh (evict c) = ca_fresh c"
  using assms
proof (induction c rule: evict.induct)
  case (1 c)
  note len = coherent_length [OF 1(2)]
  show ?case
  proof (cases "ca_capacity c \<le> int (length (ca_entries c)) \<and> ca_recent c \<noteq> []")
    case False
    then have "length (ca_recent c) \<le> nat (ca_capacity c) - 1" using len 1(3) by auto
    then have "take (nat (ca_capacity c) - 1) (cache_list c) = cache_list c" by (simp add: cache_list_def)
    moreover have "evict c = c" using False by (subst evict.simps) auto
    ultimately show ?thesis using 1(2) by simp
  next
    case True
    let ?r = "removeLocked (last (ca_recent c)) c"
    have last: "last (ca_recent c) \<in> set (ca_recent c)" using True by simp
    have coh: "cache_coherent ?r" using removeLocked_refines(1) [OF 1(2) last] .
    have "ca_recent ?r = butlast (ca_recent c)"
      using True 1(2) by (simp add: removeLocked_def remove1_last cache_coherent_def)
    then have list: "cache_list ?r = butlast (cache_list c)"
      by (simp add: cache_list_def map_butlast removeLocked_def)
    have "nat (ca_capacity c) - 1 \<le> length (cache_list c) - 1"
      using True len by (auto simp: cache_list_def intro!: diff_le_mono)
    then have "take (nat (ca_capacity c) - 1) (butlast (cache_list c)) = take (nat (ca_capacity c) - 1) (cache_list c)"
      by (simp add: butlast_conv_take min_def)
    moreover have "evict c = evict ?r" using True by (subst evict.simps) simp
    moreover have "ca_capacity ?r = ca_capacity c \<and> ca_nextVersion ?r = ca_nextVersion c \<and> ca_ttl ?r = ca_ttl c
      \<and> ca_revision ?r = ca_revision c \<and> ca_now ?r = ca_now c \<and> ca_elem ?r = ca_elem c \<and> ca_fresh ?r = ca_fresh c"
      by (simp add: removeLocked_def)
    ultimately show ?thesis using 1(1) [OF True coh] 1(3) list by simp
  qed
qed

definition new_entry :: "Key \<Rightarrow> Target \<Rightarrow> time \<Rightarrow> Cache \<Rightarrow> cacheEntry" where
  "new_entry key target now c = \<lparr>ce_key = key, ce_target = target, ce_version = ca_nextVersion c + 1,
     ce_expiresAt = now + ca_ttl c\<rparr>"

lemma insertLocked_refines:
  assumes coh: "cache_coherent c" and cap: "0 < ca_capacity c"
    and absent: "find (\<lambda>e. ce_key e = k) (cache_list c) = None"
    and ins: "insertLocked k t now c = (b, c')"
  shows "b \<and> cache_coherent c' \<and> cache_list c' = new_entry k t now c # take (nat (ca_capacity c) - 1) (cache_list c)
    \<and> ca_nextVersion c' = ca_nextVersion c + 1 \<and> ca_capacity c' = ca_capacity c
    \<and> ca_revision c' = ca_revision c"
proof -
  define d where "d = evict c"
  have d: "cache_coherent d" "cache_list d = take (nat (ca_capacity c) - 1) (cache_list c)"
    "ca_nextVersion d = ca_nextVersion c" "ca_capacity d = ca_capacity c" "ca_ttl d = ca_ttl c"
    "ca_revision d = ca_revision c"
    using evict_refines [OF coh cap] by (simp_all add: d_def)
  have c': "c' = d\<lparr>ca_nextVersion := ca_nextVersion c + 1, ca_elem := (ca_elem d)(ca_fresh d := new_entry k t now c),
      ca_fresh := ca_fresh d + 1, ca_recent := ca_fresh d # ca_recent d,
      ca_entries := AList.update k (ca_fresh d) (ca_entries d)\<rparr>" and b
    using ins d by (simp_all add: insertLocked_def Let_def new_entry_def TimeAdd_def flip: d_def)
  have absent_d: "ce_key (ca_elem d e) \<noteq> k" if "e \<in> set (ca_recent d)" for e
  proof -
    have "ca_elem d e \<in> set (cache_list d)" using that by (simp add: cache_list_def)
    then have "ca_elem d e \<in> set (cache_list c)" using d(2) by (metis in_set_takeD)
    with absent show ?thesis by (auto simp: find_None_iff)
  qed
  have fresh: "ca_fresh d \<notin> set (ca_recent d)" and below: "\<forall>e \<in> set (ca_recent d). e < ca_fresh d"
    using d(1) by (auto simp: cache_coherent_def)
  have "map_of (ca_entries c') j = Some e \<longleftrightarrow> e \<in> set (ca_recent c') \<and> ce_key (ca_elem c' e) = j" for j e
    using coherent_entry [OF d(1), of j e] absent_d fresh by (auto simp: c' new_entry_def)
  moreover have "wf_map (ca_entries c')" "distinct (ca_recent c')" "\<forall>e \<in> set (ca_recent c'). e < ca_fresh c'"
    using d(1) below by (auto simp: c' cache_coherent_def)
  ultimately have "cache_coherent c'" unfolding cache_coherent_def by blast
  moreover have "map ((ca_elem d)(ca_fresh d := x)) (ca_recent d) = map (ca_elem d) (ca_recent d)" for x
    using fresh by simp
  then have "cache_list c' = new_entry k t now c # cache_list d" by (simp add: c' cache_list_def)
  ultimately show ?thesis using d(2,4,6) \<open>b\<close> by (simp add: c')
qed

lemma refreshLocked_refines:
  assumes coh: "cache_coherent c" and e: "e \<in> set (ca_recent c)" "ce_key (ca_elem c e) = k"
    and ref: "refreshLocked e t now c = (b, c')"
  shows "b \<and> cache_coherent c' \<and> cache_list c' = new_entry k t now c # lru_drop k (cache_list c)
    \<and> ca_nextVersion c' = ca_nextVersion c + 1 \<and> ca_capacity c' = ca_capacity c
    \<and> ca_revision c' = ca_revision c"
proof -
  have "(ca_elem c e)\<lparr>ce_target := t, ce_version := ca_nextVersion c + 1, ce_expiresAt := now + ca_ttl c\<rparr>
      = new_entry k t now c"
    using e by (cases "ca_elem c e") (simp add: new_entry_def)
  then have c': "c' = c\<lparr>ca_nextVersion := ca_nextVersion c + 1, ca_elem := (ca_elem c)(e := new_entry k t now c),
      ca_recent := MoveToFront e (ca_recent c)\<rparr>" and b
    using ref by (auto simp: refreshLocked_def Let_def TimeAdd_def)
  have "map_of (ca_entries c') j = Some x \<longleftrightarrow> x \<in> set (ca_recent c') \<and> ce_key (ca_elem c' x) = j" for j x
    using coherent_entry [OF coh, of j x] e by (auto simp: c' new_entry_def)
  moreover have "wf_map (ca_entries c')" "distinct (ca_recent c')" "\<forall>e \<in> set (ca_recent c'). e < ca_fresh c'"
    using coh by (auto simp: c' cache_coherent_def)
  ultimately have coh': "cache_coherent c'" unfolding cache_coherent_def by blast
  have "e \<notin> set (remove1 e (ca_recent c))" using coh by (simp add: cache_coherent_def)
  then have "map ((ca_elem c)(e := x)) (remove1 e (ca_recent c)) = map (ca_elem c) (remove1 e (ca_recent c))" for x
    by simp
  then have "cache_list c' = new_entry k t now c # lru_drop k (cache_list c)"
    using drop_element [OF coh e(1)] e by (simp add: c' cache_list_def MoveToFront_def)
  with coh' \<open>b\<close> show ?thesis by (simp add: c')
qed

text \<open>\<open>recordLocked\<close> under its two configuration guards is the update of the specification.\<close>

lemma recordLocked_refines:
  assumes coh: "cache_coherent c" and rec: "recordLocked k ob t now c = (b, c')"
    and guards: "0 < ca_capacity c" "0 < ca_ttl c" "ob_revision ob = ca_revision c"
  shows "cache_coherent c' \<and> (b, cache_list c') = lru_record k ob (new_entry k t now c) now (nat (ca_capacity c)) (cache_list c)
    \<and> ca_nextVersion c' = (if b then ca_nextVersion c + 1 else ca_nextVersion c)
    \<and> ca_capacity c' = ca_capacity c \<and> ca_revision c' = ca_revision c"
proof -
  obtain r d where cur: "currentElementLocked k now c = (r, d)" by fastforce
  note d = current_refines [OF coh cur]
  have same: "new_entry k t now d = new_entry k t now c" "ca_capacity d = ca_capacity c"
    using d(5) by (simp_all add: new_entry_def)
  show ?thesis
  proof (cases r)
    case None
    then have ins: "insertLocked k t now d = (b, c')" using rec guards cur by (simp add: recordLocked_def)
    have "0 < ca_capacity d" using same guards by simp
    from insertLocked_refines [OF d(1) this d(4) [OF None] ins] d(2,5) None same
    show ?thesis by (simp add: lru_record_def)
  next
    case (Some e)
    note e = d(3) [OF Some]
    show ?thesis
    proof (cases "ob_found ob \<and> ce_version (ca_elem c e) = ob_version ob \<and> ce_target (ca_elem c e) = ob_Target ob")
      case True
      then have "refreshLocked e t now c = (b, c')" using rec guards cur Some e by (simp add: recordLocked_def)
      from refreshLocked_refines [OF coh _ _ this, of k] e True d(2) Some show ?thesis
        by (simp add: lru_record_def)
    next
      case False
      then have "(b, c') = (False, c)" using rec guards cur Some e by (auto simp: recordLocked_def split: if_splits)
      with False coh d(2) Some e show ?thesis by (auto simp: lru_record_def)
    qed
  qed
qed

section \<open>Runs of the cache\<close>

text \<open>
  The calls on one cache, in any order and with any arguments and clock readings.
  The version counter has 64 bits; the run is one in which it does not wrap.
\<close>

inductive cache_step :: "Cache \<Rightarrow> Cache \<Rightarrow> bool" where
  configure: "Configure revision capacity ttl (Some c) = (ok, Some c') \<Longrightarrow> cache_step c c'"
| lookup: "Cache_Lookup key now (Some c) = (observation, Some c') \<Longrightarrow> cache_step c c'"
| record_success: "ca_nextVersion c < MaxUint64 \<Longrightarrow>
    RecordSuccess key observed target now (Some c) = (ok, Some c') \<Longrightarrow> cache_step c c'"

lemma lru_current_subset:
  "lru_current k now es = (r, es') \<Longrightarrow> set es' \<subseteq> set es \<and> length es' \<le> length es
     \<and> (\<forall>e. r = Some e \<longrightarrow> e \<in> set es \<and> ce_key e = k \<and> now < ce_expiresAt e \<and> es' = es)"
  by (auto simp: lru_current_def lru_drop_def find_Some_iff split: option.splits if_splits)

lemma lru_record_cases:
  assumes "lru_record k ob new now cap es = (b, es')"
  shows "(\<forall>x \<in> set es'. x \<in> set es \<or> b \<and> x = new) \<and> (b \<longrightarrow> new \<in> set es')
    \<and> (0 < cap \<and> length es \<le> cap \<longrightarrow> length es' \<le> cap)"
proof -
  obtain r es1 where cur: "lru_current k now es = (r, es1)" by fastforce
  note sub = lru_current_subset [OF cur]
  show ?thesis
  proof (cases r)
    case None
    with assms cur sub set_take_subset [of "cap - 1" es1] show ?thesis by (auto simp: lru_record_def)
  next
    case (Some e)
    then have "e \<in> set es" "ce_key e = k" "es1 = es" using sub by auto
    then have "length (lru_drop k es) < length es"
      unfolding lru_drop_def by (intro length_filter_less [of e]) auto
    with assms cur Some \<open>es1 = es\<close> show ?thesis by (auto simp: lru_record_def lru_drop_def split: if_splits)
  qed
qed

lemma Lookup_cases:
  assumes coh: "cache_coherent c" and look: "Cache_Lookup k now (Some c) = (ob, Some c')"
    and valid: "Key_Valid k" "ca_now c"
  shows "cache_coherent c' \<and> ca_nextVersion c' = ca_nextVersion c \<and> ca_capacity c' = ca_capacity c
    \<and> ca_revision c' = ca_revision c
    \<and> ob_key ob = k \<and> ob_revision ob = ca_revision c
    \<and> (case lru_lookup k now (cache_list c) of (r, es) \<Rightarrow> cache_list c' = es \<and>
        (case r of None \<Rightarrow> \<not> ob_found ob
         | Some e \<Rightarrow> ob_found ob \<and> ob_Target ob = ce_target e \<and> ob_version ob = ce_version e))"
proof -
  obtain r d where cur: "currentElementLocked k now c = (r, d)" by fastforce
  note d = current_refines [OF coh cur]
  show ?thesis
  proof (cases r)
    case None
    with d look valid cur show ?thesis
      by (auto simp: Cache_Lookup_def lru_lookup_def Observation0_def)
  next
    case (Some e)
    with d(3) have e: "d = c" "e \<in> set (ca_recent c)" "ce_key (ca_elem c e) = k" by auto
    with cache_front_refines [OF coh e(2)] d(2) look valid cur Some show ?thesis
      by (auto simp: Cache_Lookup_def lru_lookup_def)
  qed
qed

lemma RecordSuccess_cases:
  assumes coh: "cache_coherent c" and rec: "RecordSuccess k ob t now (Some c) = (b, Some c')"
  shows "c' = c \<and> \<not> b \<or> Key_Valid k \<and> Target_Valid t \<and> 0 < ca_capacity c \<and> ob_revision ob = ca_revision c
    \<and> cache_coherent c' \<and> (b, cache_list c') = lru_record k ob (new_entry k t now c) now (nat (ca_capacity c)) (cache_list c)
    \<and> ca_nextVersion c' = (if b then ca_nextVersion c + 1 else ca_nextVersion c)
    \<and> ca_capacity c' = ca_capacity c \<and> ca_revision c' = ca_revision c"
proof (cases "\<not> Key_Valid k \<or> \<not> Target_Valid t \<or> \<not> ca_now c \<or> (Key_Valid (ob_key ob) \<and> ob_key ob \<noteq> k)
    \<or> ca_capacity c \<le> 0 \<or> ca_ttl c \<le> 0 \<or> ob_revision ob \<noteq> ca_revision c")
  case True
  with rec show ?thesis by (auto simp: RecordSuccess_def recordLocked_def split: if_splits)
next
  case False
  then have "recordLocked k ob t now c = (b, c')" using rec by (auto simp: RecordSuccess_def split: prod.splits if_splits)
  from recordLocked_refines [OF coh this] False show ?thesis by auto
qed

text \<open>
  What an earlier and a later state have in common: revision and version counter
  only grow, and an entry of the later state is an entry of the earlier one or
  carries a version the earlier state had not handed out.
\<close>

definition cache_later :: "Cache \<Rightarrow> Cache \<Rightarrow> bool" where
  "cache_later c c' \<longleftrightarrow> ca_revision c \<le> ca_revision c' \<and> ca_nextVersion c \<le> ca_nextVersion c'
     \<and> (\<forall>e \<in> set (cache_list c'). e \<in> set (cache_list c) \<or> ca_nextVersion c < ce_version e)"

lemma lru_lookup_subset: "lru_lookup k now es = (r, es') \<Longrightarrow> set es' \<subseteq> set es \<and> length es' \<le> length es"
proof -
  assume look: "lru_lookup k now es = (r, es')"
  obtain r1 es1 where cur: "lru_current k now es = (r1, es1)" by fastforce
  note sub = lru_current_subset [OF cur]
  show ?thesis
  proof (cases r1)
    case None
    with look cur sub show ?thesis by (simp add: lru_lookup_def)
  next
    case (Some e)
    then have e: "e \<in> set es" "ce_key e = k" "es1 = es" using sub by auto
    then have "length (lru_drop k es) < length es"
      unfolding lru_drop_def by (intro length_filter_less [of e]) auto
    with look cur Some e show ?thesis by (auto simp: lru_lookup_def lru_drop_def)
  qed
qed

lemma cache_step_later:
  assumes inv: "cache_inv c" and step: "cache_step c c'"
  shows "cache_inv c' \<and> cache_later c c'"
  using step
proof cases
  case (configure revision capacity ttl ok)
  with inv show ?thesis
    by (auto simp: Configure_def cache_inv_def cache_later_def cache_coherent_def cache_list_def split: if_splits)
next
  case (lookup key now observation)
  have coh: "cache_coherent c" using inv by (simp add: cache_inv_def)
  show ?thesis
  proof (cases "Key_Valid key \<and> ca_now c")
    case True
    obtain r es where es: "lru_lookup key now (cache_list c) = (r, es)" by fastforce
    with Lookup_cases [OF coh lookup] True
    have "cache_coherent c' \<and> ca_nextVersion c' = ca_nextVersion c \<and> ca_capacity c' = ca_capacity c
        \<and> ca_revision c' = ca_revision c" and list: "cache_list c' = es" by simp_all
    moreover have "length (ca_entries c') \<le> length (ca_entries c)"
      using calculation coh lru_lookup_subset [OF es] list [symmetric] by (simp add: coherent_length cache_list_def)
    ultimately show ?thesis
      using inv lru_lookup_subset [OF es] by (auto simp: cache_inv_def cache_later_def)
  next
    case False
    with lookup inv show ?thesis by (auto simp: Cache_Lookup_def cache_later_def)
  qed
next
  case (record_success key observed target now ok)
  have coh: "cache_coherent c" using inv by (simp add: cache_inv_def)
  have fresh: "ca_nextVersion c < ca_nextVersion c + 1" using word_Suc_mono [OF record_success(1)] .
  from RecordSuccess_cases [OF coh record_success(2)] show ?thesis
  proof (elim disjE conjE)
    assume "c' = c"
    with inv show ?thesis by (simp add: cache_later_def)
  next
    let ?new = "new_entry key target now c"
    assume c': "cache_coherent c'" "ca_capacity c' = ca_capacity c" "ca_revision c' = ca_revision c"
      "ca_nextVersion c' = (if ok then ca_nextVersion c + 1 else ca_nextVersion c)"
      and list: "(ok, cache_list c') = lru_record key observed ?new now (nat (ca_capacity c)) (cache_list c)"
      and cap: "0 < ca_capacity c"
    note cases = lru_record_cases [OF list [symmetric]]
    have "length (cache_list c) \<le> nat (ca_capacity c)"
      using inv cap coherent_length [OF coh] by (auto simp: cache_inv_def cache_list_def)
    then have "int (length (ca_entries c')) \<le> max 0 (ca_capacity c')"
      using cases cap c' coherent_length [OF c'(1)] by (auto simp: cache_list_def le_nat_iff)
    moreover have new: "ce_version ?new = ca_nextVersion c + 1" by (simp add: new_entry_def)
    moreover have "ca_nextVersion c \<le> ca_nextVersion c'" using less_imp_le [OF fresh] c' by simp
    moreover have "ce_version e \<le> ca_nextVersion c'" if "e \<in> set (cache_list c')" for e
    proof (cases "e \<in> set (cache_list c)")
      case True
      then have "ce_version e \<le> ca_nextVersion c" using inv by (simp add: cache_inv_def)
      then show ?thesis using \<open>ca_nextVersion c \<le> ca_nextVersion c'\<close> by (rule order_trans)
    next
      case False
      with that cases new c' show ?thesis by auto
    qed
    ultimately show ?thesis
      using inv cases c' fresh by (auto simp: cache_inv_def cache_later_def)
  qed
qed

interpretation affinity: monotone_system cache_step cache_inv cache_later
proof
  show "cache_inv c \<Longrightarrow> cache_step c c' \<Longrightarrow> cache_inv c'" for c c' using cache_step_later by blast
  show "cache_inv c \<Longrightarrow> cache_step c c' \<Longrightarrow> cache_later c c'" for c c' using cache_step_later by blast
  show "cache_later c c" for c by (simp add: cache_later_def)
  show "cache_later c d \<Longrightarrow> cache_later d e \<Longrightarrow> cache_later c e" for c d e
    unfolding cache_later_def by (meson dual_order.trans order_le_less_trans)
qed

lemma newCache_inv: "cache_inv (newCache capacity ttl now)"
  by (simp add: cache_inv_def newCache_def cache_coherent_def cache_list_def)

text \<open>An entry that is live now was found by a lookup and is unchanged by it.\<close>

lemma lookup_live:
  assumes coh: "cache_coherent c" and found: "ob_found (fst (Cache_Lookup k now (Some c)))"
  obtains e where "lru_current k now (cache_list c) = (Some e, cache_list c)" and "e \<in> set (cache_list c)"
    and "ce_key e = k" and "currentElementLocked k now c = (map_of (ca_entries c) k, c)"
    and "map_of (ca_entries c) k \<noteq> None" and "ca_elem c (the (map_of (ca_entries c) k)) = e"
proof -
  obtain r d where cur: "currentElementLocked k now c = (r, d)" by fastforce
  note d = current_refines [OF coh cur]
  obtain x where x: "r = Some x"
    using found cur by (cases r) (auto simp: Cache_Lookup_def Observation0_def split: if_splits)
  with d(3) have "d = c" "x \<in> set (ca_recent c)" "ce_key (ca_elem c x) = k" by auto
  moreover then have "map_of (ca_entries c) k = Some x" using coherent_entry [OF coh] by blast
  ultimately show ?thesis using that [of "ca_elem c x"] d(2) x cur by (simp add: cache_list_def)
qed

section \<open>Key material is injective\<close>

lemma BigEndian_inj:
  assumes "BigEndianUint64 v = BigEndianUint64 w"
  shows "v = w"
proof (rule bit_word_eqI)
  fix n assume "n < LENGTH(64)"
  then have n: "n < 64" by simp
  define j where "j = n div 8"
  have j: "j < 8" "n = 8 * j + n mod 8" using n by (simp_all add: j_def)
  have "7 - j \<in> {0..<8}" and jj: "7 - (7 - j) = j" using j by auto
  moreover have "\<forall>i \<in> {0..<8}. char_of (unat (drop_bit (8 * (7 - i)) v)) = char_of (unat (drop_bit (8 * (7 - i)) w))"
    using assms unfolding BigEndianUint64_def by (simp only: map_eq_conv set_upt)
  ultimately have "char_of (unat (drop_bit (8 * j) v)) = char_of (unat (drop_bit (8 * j) w))"
    by metis
  then have "unat (drop_bit (8 * j) v) mod 256 = unat (drop_bit (8 * j) w) mod 256"
    by (metis of_char_of)
  then have "take_bit 8 (unat (drop_bit (8 * j) v)) = take_bit 8 (unat (drop_bit (8 * j) w))"
    by (simp add: take_bit_eq_mod)
  then have "bit (take_bit 8 (unat (drop_bit (8 * j) v))) (n mod 8) = bit (take_bit 8 (unat (drop_bit (8 * j) w))) (n mod 8)"
    by simp
  then show "bit v n = bit w n" using j by (simp add: bit_simps)
qed

lemma length_BigEndian [simp]: "length (BigEndianUint64 w) = 8"
  by (simp add: BigEndianUint64_def)

lemma of_nat_uint64_inj: "of_nat a = (of_nat b :: uint64) \<Longrightarrow> a < 2 ^ 64 \<Longrightarrow> b < 2 ^ 64 \<Longrightarrow> a = b"
proof -
  assume eq: "of_nat a = (of_nat b :: uint64)" and ab: "a < 2 ^ 64" "b < 2 ^ 64"
  from eq have "unat (of_nat a :: uint64) = unat (of_nat b :: uint64)" by (rule arg_cong)
  with ab show "a = b" by (simp add: unsigned_of_nat take_bit_nat_eq_self)
qed

lemma writeKeyField_inj:
  assumes "writeKeyField v @ xs = writeKeyField w @ ys" and "length v < 2 ^ 64" and "length w < 2 ^ 64"
  shows "v = w \<and> xs = ys"
proof -
  have "BigEndianUint64 (of_nat (length v)) = BigEndianUint64 (of_nat (length w))" and rest: "v @ xs = w @ ys"
    using assms(1) by (simp_all add: writeKeyField_def)
  then have "length v = length w" using BigEndian_inj of_nat_uint64_inj assms(2,3) by blast
  with rest show ?thesis by simp
qed

lemma key_material_inj:
  assumes "key_material a p x = key_material b q y" and "a < 2 ^ 64" and "b < 2 ^ 64"
    and "length p < 2 ^ 64" "length q < 2 ^ 64" "length x < 2 ^ 64" "length y < 2 ^ 64"
  shows "a = b \<and> p = q \<and> x = y"
proof -
  have "BigEndianUint64 (of_nat a) = BigEndianUint64 (of_nat b)"
    and rest: "writeKeyField p @ writeKeyField x = writeKeyField q @ writeKeyField y"
    using assms(1) by (simp_all add: key_material_def)
  then have "a = b" using BigEndian_inj of_nat_uint64_inj assms by blast
  moreover have "p = q" "writeKeyField x = writeKeyField y" using writeKeyField_inj [OF rest] assms by simp_all
  ultimately show ?thesis using writeKeyField_inj [of x "[]" y "[]"] assms by simp
qed

section \<open>Properties\<close>

text \<open>
  Property C34. In every state a cache reaches, the map and the linked list hold the
  same entries, never more than the capacity, and the operations are those of a
  list in order of last use: a lookup returns the unexpired entry of its key and
  moves it to the front, and an accepted success puts its entry in front,
  evicting from the back where the cache is full.
\<close>

theorem cache_refines_lru:
  assumes reach: "cache_step\<^sup>*\<^sup>* (newCache capacity0 ttl0 True) c" and key: "Key_Valid k"
  shows "entryCount (Some c) = int (length (cache_list c)) \<and> int (length (cache_list c)) \<le> max 0 (ca_capacity c)
    \<and> (\<forall>ob c'. ca_now c \<and> Cache_Lookup k now (Some c) = (ob, Some c') \<longrightarrow>
        cache_list c' = snd (lru_lookup k now (cache_list c))
        \<and> (ob_found ob \<longleftrightarrow> fst (lru_lookup k now (cache_list c)) \<noteq> None)
        \<and> (\<forall>e. fst (lru_lookup k now (cache_list c)) = Some e \<longrightarrow>
             ob_Target ob = ce_target e \<and> ob_version ob = ce_version e))
    \<and> (\<forall>ob t b c'. RecordSuccess k ob t now (Some c) = (b, Some c') \<longrightarrow>
        c' = c \<and> \<not> b \<or>
        (b, cache_list c') = lru_record k ob (new_entry k t now c) now (nat (ca_capacity c)) (cache_list c))"
proof -
  have inv: "cache_inv c" using affinity.steps_inv [OF reach newCache_inv] .
  then have coh: "cache_coherent c" by (simp add: cache_inv_def)
  have "entryCount (Some c) = int (length (cache_list c)) \<and> int (length (cache_list c)) \<le> max 0 (ca_capacity c)"
    using inv coherent_length [OF coh] by (simp add: entryCount_def cache_list_def cache_inv_def)
  moreover have "cache_list c' = snd (lru_lookup k now (cache_list c))
        \<and> (ob_found ob \<longleftrightarrow> fst (lru_lookup k now (cache_list c)) \<noteq> None)
        \<and> (\<forall>e. fst (lru_lookup k now (cache_list c)) = Some e \<longrightarrow>
             ob_Target ob = ce_target e \<and> ob_version ob = ce_version e)"
    if "ca_now c \<and> Cache_Lookup k now (Some c) = (ob, Some c')" for ob c'
    using Lookup_cases [OF coh conjunct2 [OF that] key conjunct1 [OF that]]
    by (auto simp: split_beta split: option.splits)
  moreover have "c' = c \<and> \<not> b \<or>
        (b, cache_list c') = lru_record k ob (new_entry k t now c) now (nat (ca_capacity c)) (cache_list c)"
    if "RecordSuccess k ob t now (Some c) = (b, Some c')" for ob t b c'
    using RecordSuccess_cases [OF coh that] by blast
  ultimately show ?thesis by blast
qed

definition sample_target :: Target where
  "sample_target = \<lparr>tg_GroupID = 1, tg_CredentialID = 2, tg_IdentityGeneration = 3\<rparr>"

definition sample_cache :: Cache where
  "sample_cache = the (snd (RecordSuccess ''k'' Observation0 sample_target 10 (Some (newCache 2 Hour True))))"

lemma sample_cache_learned:
  "RecordSuccess ''k'' Observation0 sample_target 10 (Some (newCache 2 Hour True)) = (True, Some sample_cache)"
  "ca_nextVersion (newCache 2 Hour True) < MaxUint64"
proof -
  show "RecordSuccess ''k'' Observation0 sample_target 10 (Some (newCache 2 Hour True)) = (True, Some sample_cache)"
    unfolding sample_cache_def
    by (simp add: RecordSuccess_def recordLocked_def newCache_def Observation0_def Key_Valid_def sample_target_def
        Target_Valid_def Hour_def currentElementLocked_def insertLocked_def Let_def evict.simps)
  have "(0 :: uint64) < MaxUint64" by code_simp
  then show "ca_nextVersion (newCache 2 Hour True) < MaxUint64" by (simp add: newCache_def)
qed

theorem cache_refines_lru_witness:
  "entryCount (Some sample_cache) = int (length (cache_list sample_cache))
   \<and> int (length (cache_list sample_cache)) \<le> max 0 (ca_capacity sample_cache)"
proof -
  have "cache_step\<^sup>*\<^sup>* (newCache 2 Hour True) sample_cache"
    using cache_step.record_success [OF sample_cache_learned(2) sample_cache_learned(1)] by (rule r_into_rtranclp)
  from cache_refines_lru [OF this, of "''k''"] show ?thesis by (auto simp: Key_Valid_def)
qed

text \<open>
  Concurrent learners do not overwrite each other. A request that
  looked a key up and finishes after another request has learned a target for the
  same key is refused, and the cache is left as it was, for as long as the learned
  entry is still served; any calls may happen in between.
\<close>

theorem cache_lost_update_refused:
  assumes reach: "cache_step\<^sup>*\<^sup>* (newCache capacity0 ttl0 True) c0"
    and observe: "Cache_Lookup k now0 (Some c0) = (ob, Some c1)" "Key_Valid k" "ca_now c0"
    and between: "cache_step\<^sup>*\<^sup>* c1 c2"
    and learned: "RecordSuccess k ob2 t2 now2 (Some c2) = (True, Some c3)" "ca_nextVersion c2 < MaxUint64"
    and after: "cache_step\<^sup>*\<^sup>* c3 c4"
    and served: "ob_found (fst (Cache_Lookup k now (Some c4)))"
  shows "RecordSuccess k ob t now (Some c4) = (False, Some c4)"
proof -
  have inv0: "cache_inv c0" using affinity.steps_inv [OF reach newCache_inv] .
  then have coh0: "cache_coherent c0" by (simp add: cache_inv_def)
  have "cache_step c0 c1" using observe(1) by (rule cache_step.lookup)
  then have inv1: "cache_inv c1" and later01: "cache_later c0 c1" using cache_step_later [OF inv0] by auto
  have inv2: "cache_inv c2" using affinity.steps_inv [OF between inv1] .
  have later12: "cache_later c1 c2" using affinity.steps_rel [OF between inv1] .
  have coh2: "cache_coherent c2" using inv2 by (simp add: cache_inv_def)
  have "cache_step c2 c3" using learned by (metis cache_step.record_success)
  then have inv3: "cache_inv c3" using cache_step_later [OF inv2] by auto
  have later34: "cache_later c3 c4" using affinity.steps_rel [OF after inv3] .
  have coh4: "cache_coherent c4" using affinity.steps_inv [OF after inv3] by (simp add: cache_inv_def)
  let ?new = "new_entry k t2 now2 c2"
  have v3: "ca_nextVersion c3 = ca_nextVersion c2 + 1"
    and list3: "(True, cache_list c3) = lru_record k ob2 ?new now2 (nat (ca_capacity c2)) (cache_list c2)"
    using RecordSuccess_cases [OF coh2 learned(1)] by auto
  have coh3: "cache_coherent c3" using inv3 by (simp add: cache_inv_def)
  have new3: "?new \<in> set (cache_list c3)" using lru_record_cases [OF list3 [symmetric]] by simp
  have fresh: "ca_nextVersion c2 < ca_nextVersion c2 + 1" using word_Suc_mono [OF learned(2)] .
  have ob_version: "ob_version ob \<le> ca_nextVersion c0" if "ob_found ob"
  proof -
    have found: "ob_found (fst (Cache_Lookup k now0 (Some c0)))" using observe(1) that by simp
    obtain e where "lru_current k now0 (cache_list c0) = (Some e, cache_list c0)" and e: "e \<in> set (cache_list c0)"
      by (rule lookup_live [OF coh0 found])
    then have "fst (lru_lookup k now0 (cache_list c0)) = Some e" by (simp add: lru_lookup_def)
    then have "ob_version ob = ce_version e"
      using Lookup_cases [OF coh0 observe] by (auto simp: split_beta)
    with e inv0 show ?thesis by (simp add: cache_inv_def)
  qed
  obtain e4 where e4: "e4 \<in> set (cache_list c4)" "ce_key e4 = k"
    and cur: "currentElementLocked k now c4 = (map_of (ca_entries c4) k, c4)" "map_of (ca_entries c4) k \<noteq> None"
      "ca_elem c4 (the (map_of (ca_entries c4) k)) = e4"
    by (rule lookup_live [OF coh4 served])
  have "ca_nextVersion c2 < ce_version e4"
  proof (cases "e4 \<in> set (cache_list c3)")
    case True
    have "find (\<lambda>e. ce_key e = k) (cache_list c3) = Some x" if "x \<in> set (cache_list c3)" "ce_key x = k" for x
      using that coherent_find [OF coh3, of k] coherent_entry [OF coh3, of k] by (auto simp: cache_list_def)
    then have "e4 = ?new" using True e4 new3 by (metis new_entry_def cacheEntry.select_convs(1) option.inject)
    with fresh show ?thesis by (simp add: new_entry_def)
  next
    case False
    then have "ca_nextVersion c3 < ce_version e4" using later34 e4 by (auto simp: cache_later_def)
    with v3 fresh show ?thesis by (metis order.strict_trans)
  qed
  moreover have "ca_nextVersion c0 \<le> ca_nextVersion c2"
    using later01 later12 unfolding cache_later_def by (metis order.trans)
  ultimately have "\<not> (ob_found ob \<and> ce_version e4 = ob_version ob)"
    using ob_version by (metis leD order.strict_trans1)
  then show ?thesis
    using cur by (auto simp: RecordSuccess_def recordLocked_def)
qed

theorem cache_lost_update_refused_witness:
  "RecordSuccess ''k'' (Observation0\<lparr>ob_key := ''k''\<rparr>) sample_target 20 (Some sample_cache) = (False, Some sample_cache)"
proof (rule cache_lost_update_refused)
  show "Cache_Lookup ''k'' 5 (Some (newCache 2 Hour True))
      = (Observation0\<lparr>ob_key := ''k''\<rparr>, Some (newCache 2 Hour True))"
    by (simp add: Cache_Lookup_def newCache_def currentElementLocked_def Key_Valid_def Observation0_def)
  show "RecordSuccess ''k'' Observation0 sample_target 10 (Some (newCache 2 Hour True)) = (True, Some sample_cache)"
    by (rule sample_cache_learned)
  show "ob_found (fst (Cache_Lookup ''k'' 20 (Some sample_cache)))"
    by (simp add: sample_cache_def RecordSuccess_def recordLocked_def newCache_def Observation0_def Key_Valid_def
        sample_target_def Target_Valid_def Hour_def currentElementLocked_def insertLocked_def Let_def evict.simps
        Cache_Lookup_def go_time)
  show "ca_nextVersion (newCache 2 Hour True) < MaxUint64" by (rule sample_cache_learned)
  show "cache_step\<^sup>*\<^sup>* (newCache 2 Hour True) (newCache 2 Hour True)" by simp
  show "cache_step\<^sup>*\<^sup>* (newCache 2 Hour True) (newCache 2 Hour True)" by simp
qed (simp_all add: Key_Valid_def newCache_def)

text \<open>
  Affinity keys of different tenants, protocols or prompt prefixes
  differ: valid arguments that are not all equal give different keys under a hash
  that does not collide on the two messages hashed. The length prefixes make the
  hashed material unambiguous; the hash is the keyed digest of the program.
\<close>

theorem derive_key_separates:
  assumes hash: "inj_on Hash {key_material a p x, key_material b q y}"
    and sizes: "a < 2 ^ 64" "b < 2 ^ 64" "length x < 2 ^ 64" "length y < 2 ^ 64"
    and valid: "a \<noteq> 0" "b \<noteq> 0" "Protocol_Valid p" "Protocol_Valid q" "x \<noteq> []" "y \<noteq> []"
    and differ: "(a, p, x) \<noteq> (b, q, y)"
  shows "DeriveKey (Some Hash) a p x \<noteq> DeriveKey (Some Hash) b q y"
proof
  assume "DeriveKey (Some Hash) a p x = DeriveKey (Some Hash) b q y"
  then have "Hash (key_material a p x) = Hash (key_material b q y)" using valid by (simp add: DeriveKey_def)
  from inj_onD [OF hash this] have "key_material a p x = key_material b q y" by blast
  moreover have "length p < 2 ^ 64" "length q < 2 ^ 64"
    using valid by (auto simp: Protocol_Valid_def protocol_names)
  ultimately show False using key_material_inj sizes differ by blast
qed

theorem derive_key_separates_witness:
  "DeriveKey (Some (\<lambda>m. ''h'' @ m)) 1 Anthropic ''ab'' \<noteq> DeriveKey (Some (\<lambda>m. ''h'' @ m)) 1 Gemini ''ab''"
proof (rule derive_key_separates)
  show "inj_on (\<lambda>m. ''h'' @ m) M" for M :: "string set" by (simp add: inj_on_def)
qed (simp_all add: Protocol_Valid_def protocol_names)

end
