(* ===== verification/Access_Quota.thy ===== *)
theory Access_Quota
  imports Prelude "HOL-Library.Multiset"
begin

text \<open>
  The estimated cost limits of access keys (\<open>src/internal/accessquota/runtime.go\<close>):
  per key a total limit and periodic limits whose window opens with the first
  request it admits, a ticket that remembers the windows a request was admitted
  in, accounting when the request completes, and the dirty snapshots that a
  checkpoint writes and acknowledges.

  An entry keeps its rules in order and a map from rule identifiers to the same
  objects; here the map gives positions in the list. Each operation runs under
  the mutex of the entry it locks, so it is one step. The receiver is the runtime
  that the process creates at start, never nil. The wake-up of the checkpoint
  worker is recorded as a count of calls of the installed notifier.
\<close>

section \<open>Types\<close>

definition MinPeriodSeconds :: int where "MinPeriodSeconds = 60"
definition MaxPeriodSeconds :: int where "MaxPeriodSeconds = 365 * 24 * 60 * 60"
definition MaxPeriodicRules :: int where "MaxPeriodicRules = 10"

datatype Kind = KindTotal | KindPeriodic | Kind_other string

record QuotaRule =
  qr_ID :: nat
  qr_Revision :: uint64
  qr_Kind :: Kind
  qr_LimitNanoUSD :: int
  qr_PeriodSeconds :: int

record RestoredState =
  rs_AccessKeyID :: nat
  rs_RuleID :: nat
  rs_RuleRevision :: uint64
  rs_UsedNanoUSD :: int
  rs_WindowStartedAtMS :: "int option"
  rs_WindowEndsAtMS :: "int option"
  rs_WindowGeneration :: uint64
  rs_SnapshotVersion :: uint64

record TicketRule =
  tr_RuleID :: nat
  tr_RuleRevision :: uint64
  tr_WindowGeneration :: uint64

record Ticket =
  ti_AccessKeyID :: nat
  ti_Rules :: "TicketRule list"

datatype RuleStatus = RuleStatusAvailable | RuleStatusInactive | RuleStatusExhausted

record RuleView =
  rv_Rule :: QuotaRule
  rv_UsedNanoUSD :: int
  rv_RemainingNanoUSD :: int
  rv_Status :: RuleStatus
  rv_WindowStartedAtMS :: "int option"
  rv_WindowEndsAtMS :: "int option"
  rv_WindowGeneration :: uint64

record QuotaDecision =
  qd_Allowed :: bool
  qd_Recoverable :: bool
  qd_NextAvailableAtMS :: "int option"
  qd_BlockingRules :: "RuleView list"

record QuotaView =
  qv_ObservedAtMS :: int
  qv_Allowed :: bool
  qv_Recoverable :: bool
  qv_NextAvailableAtMS :: "int option"
  qv_Rules :: "RuleView list"

datatype CompletionFault = CompletionFaultNone | CompletionFaultNegativeEstimate | CompletionFaultOverflow

record runtimeRule =
  rr_definition :: QuotaRule
  rr_usedNanoUSD :: int
  rr_windowStartedAtMS :: "int option"
  rr_windowEndsAtMS :: "int option"
  rr_windowGeneration :: uint64
  rr_snapshotVersion :: uint64
  rr_dirty :: bool

record accessKeyEntry =
  ak_rules :: "runtimeRule list"
  ak_byID :: "nat \<rightharpoonup> nat"

record Runtime =
  rt_entries :: "(nat, accessKeyEntry) gomap"
  rt_restored :: "(nat, RestoredState) gomap"
  rt_restorePending :: bool
  rt_dirtyNotifier :: bool
  rt_wakeups :: nat
  rt_overflowFaultTotal :: uint64

datatype QuotaError =
    ErrAlreadyInitialized | ErrInvalidState nat | ErrIncompleteWindow nat | ErrInvalidWindow nat
  | ErrDuplicateState nat | ErrKeyIDRequired | ErrRuleIdentity nat | ErrDuplicateRule nat nat nat
  | ErrTotalPeriod nat | ErrPeriodRange nat | ErrDuplicatePeriod nat | ErrRuleKind nat Kind
  | ErrRuleCount nat | ErrStateMissing nat nat | ErrStateMismatch nat | ErrTotalWindow nat
  | ErrInactiveUsage nat | ErrNoGeneration nat | ErrWindowDuration nat | ErrOrphanState nat
  | ErrChangedWithoutRevision nat

definition NewRuntime :: Runtime where
  "NewRuntime = \<lparr>rt_entries = [], rt_restored = [], rt_restorePending = False, rt_dirtyNotifier = False,
     rt_wakeups = 0, rt_overflowFaultTotal = 0\<rparr>"

definition SetDirtyNotifier :: "bool \<Rightarrow> Runtime \<Rightarrow> Runtime" where
  "SetDirtyNotifier notifier runtime = runtime\<lparr>rt_dirtyNotifier := notifier\<rparr>"

definition notifyDirty :: "Runtime \<Rightarrow> Runtime" where
  "notifyDirty runtime = (if rt_dirtyNotifier runtime then runtime\<lparr>rt_wakeups := rt_wakeups runtime + 1\<rparr> else runtime)"

definition lockEntry :: "nat \<Rightarrow> Runtime \<Rightarrow> accessKeyEntry option" where
  "lockEntry accessKeyID runtime =
     (if accessKeyID = 0 then None else map_of (rt_entries runtime) accessKeyID)"

definition put_entry :: "nat \<Rightarrow> accessKeyEntry \<Rightarrow> Runtime \<Rightarrow> Runtime" where
  "put_entry accessKeyID entry runtime =
     runtime\<lparr>rt_entries := AList.update accessKeyID entry (rt_entries runtime)\<rparr>"

section \<open>Rule definitions\<close>

record rule_counts =
  rk_globals :: "nat \<rightharpoonup> nat"
  rk_total :: int
  rk_periodic :: int
  rk_periods :: "int list"

definition validate_rule :: "nat \<Rightarrow> QuotaRule \<Rightarrow> rule_counts \<Rightarrow> QuotaError + rule_counts" where
  "validate_rule accessKeyID rule st0 =
     (if qr_ID rule = 0 \<or> qr_Revision rule = 0 \<or> qr_LimitNanoUSD rule \<le> 0
      then Inl (ErrRuleIdentity accessKeyID)
      else case rk_globals st0 (qr_ID rule) of
        Some owner \<Rightarrow> Inl (ErrDuplicateRule (qr_ID rule) owner accessKeyID)
      | None \<Rightarrow>
          let st = st0\<lparr>rk_globals := (rk_globals st0)(qr_ID rule \<mapsto> accessKeyID)\<rparr>
          in case qr_Kind rule of
            KindTotal \<Rightarrow>
              if qr_PeriodSeconds rule \<noteq> 0 then Inl (ErrTotalPeriod (qr_ID rule))
              else Inr (st\<lparr>rk_total := rk_total st + 1\<rparr>)
          | KindPeriodic \<Rightarrow>
              if qr_PeriodSeconds rule < MinPeriodSeconds \<or> qr_PeriodSeconds rule > MaxPeriodSeconds
              then Inl (ErrPeriodRange (qr_ID rule))
              else if qr_PeriodSeconds rule \<in> set (rk_periods st) then Inl (ErrDuplicatePeriod (qr_ID rule))
              else Inr (st\<lparr>rk_periodic := rk_periodic st + 1,
                           rk_periods := qr_PeriodSeconds rule # rk_periods st\<rparr>)
          | Kind_other _ \<Rightarrow> Inl (ErrRuleKind (qr_ID rule) (qr_Kind rule)))"

fun validate_rules_loop :: "nat \<Rightarrow> QuotaRule list \<Rightarrow> rule_counts \<Rightarrow> QuotaError + rule_counts" where
  "validate_rules_loop accessKeyID [] st = Inr st"
| "validate_rules_loop accessKeyID (rule # rules) st =
     (case validate_rule accessKeyID rule st of
        Inl e \<Rightarrow> Inl e
      | Inr st' \<Rightarrow> validate_rules_loop accessKeyID rules st')"

definition validateRules :: "nat \<Rightarrow> QuotaRule list \<Rightarrow> (nat \<rightharpoonup> nat) \<Rightarrow> QuotaError + (nat \<rightharpoonup> nat)" where
  "validateRules accessKeyID rules globalRuleIDs =
     (case validate_rules_loop accessKeyID rules
        \<lparr>rk_globals = globalRuleIDs, rk_total = 0, rk_periodic = 0, rk_periods = []\<rparr> of
        Inl e \<Rightarrow> Inl e
      | Inr st \<Rightarrow>
          if rk_total st > 1 \<or> rk_periodic st > MaxPeriodicRules then Inl (ErrRuleCount accessKeyID)
          else Inr (rk_globals st))"

definition rule_less :: "QuotaRule \<Rightarrow> QuotaRule \<Rightarrow> bool" where
  "rule_less left right =
     (if qr_Kind left \<noteq> qr_Kind right then qr_Kind left = KindTotal
      else if qr_PeriodSeconds left \<noteq> qr_PeriodSeconds right
      then qr_PeriodSeconds left < qr_PeriodSeconds right
      else qr_ID left < qr_ID right)"

text \<open>\<open>sort.Slice\<close> with the comparison above, as insertion sort.\<close>

fun insert_rule :: "QuotaRule \<Rightarrow> QuotaRule list \<Rightarrow> QuotaRule list" where
  "insert_rule r [] = [r]"
| "insert_rule r (x # xs) = (if rule_less x r then x # insert_rule r xs else r # x # xs)"

definition sortRules :: "QuotaRule list \<Rightarrow> QuotaRule list" where
  "sortRules rules = foldr insert_rule rules []"

fun normalize_from ::
  "(nat \<rightharpoonup> nat) \<Rightarrow> (nat, QuotaRule list) gomap \<Rightarrow> QuotaError + (nat, QuotaRule list) gomap" where
  "normalize_from globalRuleIDs [] = Inr []"
| "normalize_from globalRuleIDs ((accessKeyID, source) # rest) =
     (if accessKeyID = 0 then Inl ErrKeyIDRequired
      else if source = [] then normalize_from globalRuleIDs rest
      else case validateRules accessKeyID source globalRuleIDs of
        Inl e \<Rightarrow> Inl e
      | Inr globalRuleIDs' \<Rightarrow>
          (case normalize_from globalRuleIDs' rest of
             Inl e \<Rightarrow> Inl e
           | Inr normalized \<Rightarrow> Inr ((accessKeyID, sortRules source) # normalized)))"

definition normalizeDefinitions :: "(nat, QuotaRule list) gomap \<Rightarrow> QuotaError + (nat, QuotaRule list) gomap" where
  "normalizeDefinitions definitions = normalize_from Map.empty definitions"

definition ValidateDefinitions :: "(nat, QuotaRule list) gomap \<Rightarrow> QuotaError option" where
  "ValidateDefinitions definitions =
     (case normalizeDefinitions definitions of Inl e \<Rightarrow> Some e | Inr _ \<Rightarrow> None)"

section \<open>Entries and restored states\<close>

definition new_rule :: "QuotaRule \<Rightarrow> runtimeRule" where
  "new_rule definition = \<lparr>rr_definition = definition, rr_usedNanoUSD = 0, rr_windowStartedAtMS = None,
     rr_windowEndsAtMS = None, rr_windowGeneration = 0, rr_snapshotVersion = 1, rr_dirty = False\<rparr>"

fun index_rules :: "nat \<Rightarrow> QuotaRule list \<Rightarrow> (nat \<rightharpoonup> nat) \<Rightarrow> (nat \<rightharpoonup> nat)" where
  "index_rules i [] m = m"
| "index_rules i (r # rs) m = index_rules (i + 1) rs (m(qr_ID r \<mapsto> i))"

definition newAccessKeyEntry :: "QuotaRule list \<Rightarrow> accessKeyEntry" where
  "newAccessKeyEntry rules = \<lparr>ak_rules = map new_rule rules, ak_byID = index_rules 0 rules Map.empty\<rparr>"

definition entry_rule :: "accessKeyEntry \<Rightarrow> nat \<Rightarrow> runtimeRule option" where
  "entry_rule entry ruleID = map_option (\<lambda>i. ak_rules entry ! i) (ak_byID entry ruleID)"

definition validateRestoredState :: "RestoredState \<Rightarrow> QuotaError option" where
  "validateRestoredState st =
     (if rs_AccessKeyID st = 0 \<or> rs_RuleID st = 0 \<or> rs_RuleRevision st = 0 \<or> rs_UsedNanoUSD st < 0
         \<or> rs_SnapshotVersion st = 0 then Some (ErrInvalidState (rs_RuleID st))
      else case (rs_WindowStartedAtMS st, rs_WindowEndsAtMS st) of
        (None, None) \<Rightarrow> None
      | (Some started, Some ends) \<Rightarrow>
          if started < 0 \<or> ends \<le> started then Some (ErrInvalidWindow (rs_RuleID st)) else None
      | _ \<Rightarrow> Some (ErrIncompleteWindow (rs_RuleID st)))"

text \<open>A periodic window without an end would panic; \<open>validateRestoredState\<close> rules it out.\<close>

definition applyRestoredState :: "runtimeRule \<Rightarrow> RestoredState \<Rightarrow> QuotaError + runtimeRule" where
  "applyRestoredState rule st =
     (let ruleID = qr_ID (rr_definition rule);
          restored = rule\<lparr>rr_usedNanoUSD := rs_UsedNanoUSD st, rr_windowStartedAtMS := rs_WindowStartedAtMS st,
            rr_windowEndsAtMS := rs_WindowEndsAtMS st, rr_windowGeneration := rs_WindowGeneration st,
            rr_snapshotVersion := rs_SnapshotVersion st\<rparr>
      in if qr_Kind (rr_definition rule) = KindTotal
         then if rs_WindowStartedAtMS st \<noteq> None \<or> rs_WindowEndsAtMS st \<noteq> None \<or> rs_WindowGeneration st \<noteq> 0
              then Inl (ErrTotalWindow ruleID) else Inr restored
         else case rs_WindowStartedAtMS st of
           None \<Rightarrow>
             if rs_UsedNanoUSD st \<noteq> 0 \<or> rs_WindowGeneration st \<noteq> 0
             then Inl (ErrInactiveUsage ruleID) else Inr restored
         | Some started \<Rightarrow>
             if rs_WindowGeneration st = 0 then Inl (ErrNoGeneration ruleID)
             else if wrap64 (the (rs_WindowEndsAtMS st) - started)
                     \<noteq> wrap64 (qr_PeriodSeconds (rr_definition rule) * (Second div Millisecond))
             then Inl (ErrWindowDuration ruleID) else Inr restored)"

fun restore_rules ::
  "nat \<Rightarrow> runtimeRule list \<Rightarrow> (nat, RestoredState) gomap
   \<Rightarrow> QuotaError + (runtimeRule list \<times> (nat, RestoredState) gomap)" where
  "restore_rules accessKeyID [] remaining = Inr ([], remaining)"
| "restore_rules accessKeyID (rule # rules) remaining =
     (let ruleID = qr_ID (rr_definition rule)
      in case map_of remaining ruleID of
        None \<Rightarrow> Inl (ErrStateMissing ruleID accessKeyID)
      | Some st \<Rightarrow>
          if rs_AccessKeyID st \<noteq> accessKeyID \<or> rs_RuleRevision st \<noteq> qr_Revision (rr_definition rule)
          then Inl (ErrStateMismatch ruleID)
          else case applyRestoredState rule st of
            Inl e \<Rightarrow> Inl e
          | Inr rule' \<Rightarrow>
              (case restore_rules accessKeyID rules (AList.delete ruleID remaining) of
                 Inl e \<Rightarrow> Inl e
               | Inr (rules', remaining') \<Rightarrow> Inr (rule' # rules', remaining')))"

fun restore_entries ::
  "(nat, QuotaRule list) gomap \<Rightarrow> (nat, RestoredState) gomap
   \<Rightarrow> QuotaError + ((nat, accessKeyEntry) gomap \<times> (nat, RestoredState) gomap)" where
  "restore_entries [] remaining = Inr ([], remaining)"
| "restore_entries ((accessKeyID, rules) # rest) remaining =
     (let entry = newAccessKeyEntry rules
      in case restore_rules accessKeyID (ak_rules entry) remaining of
        Inl e \<Rightarrow> Inl e
      | Inr (rules', remaining') \<Rightarrow>
          (case restore_entries rest remaining' of
             Inl e \<Rightarrow> Inl e
           | Inr (entries, remaining'') \<Rightarrow> Inr ((accessKeyID, entry\<lparr>ak_rules := rules'\<rparr>) # entries, remaining'')))"

definition entriesFromRestore ::
  "(nat, QuotaRule list) gomap \<Rightarrow> (nat, RestoredState) gomap \<Rightarrow> QuotaError + (nat, accessKeyEntry) gomap" where
  "entriesFromRestore definitions restored =
     (case restore_entries definitions restored of
        Inl e \<Rightarrow> Inl e
      | Inr (entries, remaining) \<Rightarrow>
          if remaining \<noteq> [] then Inl (ErrOrphanState (hd (sort (keys remaining)))) else Inr entries)"

fun restore_states ::
  "RestoredState list \<Rightarrow> (nat, RestoredState) gomap \<Rightarrow> QuotaError + (nat, RestoredState) gomap" where
  "restore_states [] restored = Inr restored"
| "restore_states (st # states) restored =
     (case validateRestoredState st of
        Some e \<Rightarrow> Inl e
      | None \<Rightarrow>
          if map_of restored (rs_RuleID st) \<noteq> None then Inl (ErrDuplicateState (rs_RuleID st))
          else restore_states states (AList.update (rs_RuleID st) st restored))"

definition Restore :: "RestoredState list \<Rightarrow> Runtime \<Rightarrow> QuotaError option \<times> Runtime" where
  "Restore states runtime =
     (case restore_states states [] of
        Inl e \<Rightarrow> (Some e, runtime)
      | Inr restored \<Rightarrow>
          if rt_restorePending runtime \<or> length (rt_entries runtime) \<noteq> 0
          then (Some ErrAlreadyInitialized, runtime)
          else (None, runtime\<lparr>rt_restored := restored, rt_restorePending := True\<rparr>))"

section \<open>Reconciliation with the definitions\<close>

definition cloneRuntimeState :: "runtimeRule \<Rightarrow> runtimeRule \<Rightarrow> runtimeRule" where
  "cloneRuntimeState target source =
     target\<lparr>rr_usedNanoUSD := rr_usedNanoUSD source, rr_windowStartedAtMS := rr_windowStartedAtMS source,
            rr_windowEndsAtMS := rr_windowEndsAtMS source, rr_windowGeneration := rr_windowGeneration source,
            rr_snapshotVersion := rr_snapshotVersion source, rr_dirty := rr_dirty source\<rparr>"

fun carry_rules :: "accessKeyEntry \<Rightarrow> runtimeRule list \<Rightarrow> QuotaError + runtimeRule list" where
  "carry_rules current [] = Inr []"
| "carry_rules current (rule # rules) =
     (let carried = (case entry_rule current (qr_ID (rr_definition rule)) of
            None \<Rightarrow> Inr rule
          | Some previous \<Rightarrow>
              if qr_Revision (rr_definition previous) \<noteq> qr_Revision (rr_definition rule) then Inr rule
              else if qr_Kind (rr_definition previous) \<noteq> qr_Kind (rr_definition rule)
                      \<or> qr_PeriodSeconds (rr_definition previous) \<noteq> qr_PeriodSeconds (rr_definition rule)
              then Inl (ErrChangedWithoutRevision (qr_ID (rr_definition rule)))
              else Inr (cloneRuntimeState rule previous))
      in case carried of
        Inl e \<Rightarrow> Inl e
      | Inr rule' \<Rightarrow> (case carry_rules current rules of Inl e \<Rightarrow> Inl e | Inr rules' \<Rightarrow> Inr (rule' # rules')))"

fun next_entries ::
  "(nat, accessKeyEntry) gomap \<Rightarrow> (nat, QuotaRule list) gomap \<Rightarrow> QuotaError + (nat, accessKeyEntry) gomap" where
  "next_entries entries [] = Inr []"
| "next_entries entries ((accessKeyID, rules) # rest) =
     (if rules = [] then next_entries entries rest
      else
        let entry = newAccessKeyEntry rules
        in case (case map_of entries accessKeyID of
                   None \<Rightarrow> Inr (ak_rules entry)
                 | Some current \<Rightarrow> carry_rules current (ak_rules entry)) of
          Inl e \<Rightarrow> Inl e
        | Inr rules' \<Rightarrow>
            (case next_entries entries rest of
               Inl e \<Rightarrow> Inl e
             | Inr nexts \<Rightarrow> Inr ((accessKeyID, entry\<lparr>ak_rules := rules'\<rparr>) # nexts)))"

definition Reconcile :: "(nat, QuotaRule list) gomap \<Rightarrow> Runtime \<Rightarrow> QuotaError option \<times> Runtime" where
  "Reconcile definitions runtime =
     (case normalizeDefinitions definitions of
        Inl e \<Rightarrow> (Some e, runtime)
      | Inr normalized \<Rightarrow>
          if rt_restorePending runtime
          then case entriesFromRestore normalized (rt_restored runtime) of
                 Inl e \<Rightarrow> (Some e, runtime)
               | Inr entries \<Rightarrow>
                   (None, runtime\<lparr>rt_entries := entries, rt_restored := [], rt_restorePending := False\<rparr>)
          else case next_entries (rt_entries runtime) normalized of
                 Inl e \<Rightarrow> (Some e, runtime)
               | Inr entries \<Rightarrow> (None, runtime\<lparr>rt_entries := entries\<rparr>))"

section \<open>Decisions\<close>

definition periodicInactive :: "runtimeRule \<Rightarrow> int \<Rightarrow> bool" where
  "periodicInactive rule nowMS =
     (case (rr_windowStartedAtMS rule, rr_windowEndsAtMS rule) of
        (Some _, Some ends) \<Rightarrow> ends \<le> nowMS
      | _ \<Rightarrow> True)"

definition remaining :: "int \<Rightarrow> int \<Rightarrow> int" where
  "remaining limit used = (if limit \<le> used then 0 else wrap64 (limit - used))"

definition ruleViewLocked :: "runtimeRule \<Rightarrow> int \<Rightarrow> RuleView" where
  "ruleViewLocked rule nowMS =
     (let definition = rr_definition rule;
          view = \<lparr>rv_Rule = definition, rv_UsedNanoUSD = 0, rv_RemainingNanoUSD = qr_LimitNanoUSD definition,
                  rv_Status = RuleStatusAvailable, rv_WindowStartedAtMS = None, rv_WindowEndsAtMS = None,
                  rv_WindowGeneration = rr_windowGeneration rule\<rparr>
      in if qr_Kind definition = KindPeriodic \<and> periodicInactive rule nowMS
         then view\<lparr>rv_Status := RuleStatusInactive\<rparr>
         else view\<lparr>rv_UsedNanoUSD := rr_usedNanoUSD rule,
                   rv_RemainingNanoUSD := remaining (qr_LimitNanoUSD definition) (rr_usedNanoUSD rule),
                   rv_WindowStartedAtMS := rr_windowStartedAtMS rule, rv_WindowEndsAtMS := rr_windowEndsAtMS rule,
                   rv_Status := (if qr_LimitNanoUSD definition \<le> rr_usedNanoUSD rule
                                 then RuleStatusExhausted else RuleStatusAvailable)\<rparr>)"

definition allowedDecision :: QuotaDecision where
  "allowedDecision = \<lparr>qd_Allowed = True, qd_Recoverable = True, qd_NextAvailableAtMS = None, qd_BlockingRules = []\<rparr>"

fun decision_loop :: "runtimeRule list \<Rightarrow> int \<Rightarrow> QuotaDecision \<times> int \<Rightarrow> QuotaDecision \<times> int" where
  "decision_loop [] nowMS st = st"
| "decision_loop (rule # rules) nowMS (decision0, next) =
     (let view = ruleViewLocked rule nowMS
      in if rv_Status view \<noteq> RuleStatusExhausted then decision_loop rules nowMS (decision0, next)
         else
           let decision = decision0\<lparr>qd_Allowed := False,
                 qd_BlockingRules := qd_BlockingRules decision0 @ [view]\<rparr>
           in if qr_Kind (rr_definition rule) = KindTotal
              then decision_loop rules nowMS (decision\<lparr>qd_Recoverable := False, qd_NextAvailableAtMS := None\<rparr>, next)
              else case rv_WindowEndsAtMS view of
                None \<Rightarrow> decision_loop rules nowMS (decision, next)
              | Some ends \<Rightarrow>
                  decision_loop rules nowMS
                    (decision, if qd_Recoverable decision \<and> ends > next then ends else next))"

definition decisionLocked :: "accessKeyEntry \<Rightarrow> int \<Rightarrow> QuotaDecision" where
  "decisionLocked entry nowMS =
     (case decision_loop (ak_rules entry) nowMS (allowedDecision, 0) of
        (decision, next) \<Rightarrow>
          if \<not> qd_Allowed decision \<and> qd_Recoverable decision \<and> next > 0
          then decision\<lparr>qd_NextAvailableAtMS := Some next\<rparr> else decision)"

definition Check :: "nat \<Rightarrow> time \<Rightarrow> Runtime \<Rightarrow> QuotaDecision" where
  "Check accessKeyID now runtime =
     (case lockEntry accessKeyID runtime of
        None \<Rightarrow> allowedDecision
      | Some entry \<Rightarrow> decisionLocked entry (UnixMilli now))"

section \<open>Admission and completion\<close>

definition advanceVersion :: "runtimeRule \<Rightarrow> runtimeRule" where
  "advanceVersion rule = rule\<lparr>
     rr_snapshotVersion := (if rr_snapshotVersion rule < MaxUint64 then rr_snapshotVersion rule + 1
                            else rr_snapshotVersion rule),
     rr_dirty := True\<rparr>"

definition opens_window :: "runtimeRule \<Rightarrow> int \<Rightarrow> bool" where
  "opens_window rule nowMS \<longleftrightarrow> qr_Kind (rr_definition rule) = KindPeriodic \<and> periodicInactive rule nowMS"

definition open_window :: "time \<Rightarrow> runtimeRule \<Rightarrow> runtimeRule" where
  "open_window now rule =
     (if \<not> opens_window rule (UnixMilli now) then rule
      else advanceVersion (rule\<lparr>
        rr_windowStartedAtMS := Some (UnixMilli now),
        rr_windowEndsAtMS :=
          Some (UnixMilli (TimeAdd now (wrap64 (qr_PeriodSeconds (rr_definition rule) * Second)))),
        rr_usedNanoUSD := 0,
        rr_windowGeneration := (if rr_windowGeneration rule < MaxUint64 then rr_windowGeneration rule + 1
                                else rr_windowGeneration rule)\<rparr>))"

definition ticket_rule :: "runtimeRule \<Rightarrow> TicketRule" where
  "ticket_rule rule = \<lparr>tr_RuleID = qr_ID (rr_definition rule), tr_RuleRevision = qr_Revision (rr_definition rule),
     tr_WindowGeneration = rr_windowGeneration rule\<rparr>"

definition Admit :: "nat \<Rightarrow> time \<Rightarrow> Runtime \<Rightarrow> (Ticket \<times> QuotaDecision) \<times> Runtime" where
  "Admit accessKeyID now runtime =
     (case lockEntry accessKeyID runtime of
        None \<Rightarrow> ((\<lparr>ti_AccessKeyID = accessKeyID, ti_Rules = []\<rparr>, allowedDecision), runtime)
      | Some entry \<Rightarrow>
          let nowMS = UnixMilli now;
              decision = decisionLocked entry nowMS
          in if \<not> qd_Allowed decision
             then ((\<lparr>ti_AccessKeyID = accessKeyID, ti_Rules = []\<rparr>, decision), runtime)
             else
               let is_dirty = list_ex (\<lambda>rule. opens_window rule nowMS) (ak_rules entry);
                   rules = map (open_window now) (ak_rules entry);
                   ticket = \<lparr>ti_AccessKeyID = accessKeyID, ti_Rules = map ticket_rule rules\<rparr>;
                   runtime' = put_entry accessKeyID (entry\<lparr>ak_rules := rules\<rparr>) runtime
               in ((ticket, allowedDecision), if is_dirty then notifyDirty runtime' else runtime'))"

text \<open>The amount a completed request leaves on a rule, and the fault it reports.\<close>

definition complete_used :: "int \<Rightarrow> int \<Rightarrow> CompletionFault \<Rightarrow> (int \<times> CompletionFault) option" where
  "complete_used used costNanoUSD fault =
     (if costNanoUSD < 0 then Some (MaxInt64, CompletionFaultNegativeEstimate)
      else if costNanoUSD = 0 then None
      else if wrap64 (MaxInt64 - costNanoUSD) < used
      then Some (MaxInt64, if fault = CompletionFaultNone then CompletionFaultOverflow else fault)
      else Some (wrap64 (used + costNanoUSD), fault))"

record completion_state =
  cs_entry :: accessKeyEntry
  cs_fault :: CompletionFault
  cs_dirty :: bool

definition complete_rule :: "int \<Rightarrow> TicketRule \<Rightarrow> completion_state \<Rightarrow> completion_state" where
  "complete_rule costNanoUSD ticketRule st =
     (case ak_byID (cs_entry st) (tr_RuleID ticketRule) of
        None \<Rightarrow> st
      | Some i \<Rightarrow>
          let rule = ak_rules (cs_entry st) ! i
          in if qr_Revision (rr_definition rule) \<noteq> tr_RuleRevision ticketRule then st
             else if qr_Kind (rr_definition rule) = KindPeriodic
                     \<and> rr_windowGeneration rule \<noteq> tr_WindowGeneration ticketRule then st
             else case complete_used (rr_usedNanoUSD rule) costNanoUSD (cs_fault st) of
               None \<Rightarrow> st
             | Some (used, fault) \<Rightarrow>
                 if used = rr_usedNanoUSD rule then st\<lparr>cs_fault := fault\<rparr>
                 else st\<lparr>cs_fault := fault, cs_dirty := True,
                         cs_entry := (cs_entry st)\<lparr>ak_rules :=
                           (ak_rules (cs_entry st))[i := advanceVersion (rule\<lparr>rr_usedNanoUSD := used\<rparr>)]\<rparr>\<rparr>)"

definition Complete :: "Ticket \<Rightarrow> int \<Rightarrow> Runtime \<Rightarrow> CompletionFault \<times> Runtime" where
  "Complete ticket costNanoUSD runtime =
     (if ti_AccessKeyID ticket = 0 \<or> ti_Rules ticket = [] then (CompletionFaultNone, runtime)
      else case lockEntry (ti_AccessKeyID ticket) runtime of
        None \<Rightarrow> (CompletionFaultNone, runtime)
      | Some entry \<Rightarrow>
          let st = fold (complete_rule costNanoUSD) (ti_Rules ticket)
                     \<lparr>cs_entry = entry, cs_fault = CompletionFaultNone, cs_dirty = False\<rparr>;
              runtime1 = put_entry (ti_AccessKeyID ticket) (cs_entry st) runtime;
              runtime2 = (if cs_fault st \<noteq> CompletionFaultNone
                          then runtime1\<lparr>rt_overflowFaultTotal := rt_overflowFaultTotal runtime1 + 1\<rparr> else runtime1)
          in (cs_fault st, if cs_dirty st then notifyDirty runtime2 else runtime2))"

section \<open>Views, snapshots and acknowledgement\<close>

definition Snapshot :: "nat \<Rightarrow> time \<Rightarrow> Runtime \<Rightarrow> QuotaView" where
  "Snapshot accessKeyID now runtime =
     (case lockEntry accessKeyID runtime of
        None \<Rightarrow> \<lparr>qv_ObservedAtMS = UnixMilli now, qv_Allowed = True, qv_Recoverable = True,
                 qv_NextAvailableAtMS = None, qv_Rules = []\<rparr>
      | Some entry \<Rightarrow>
          let decision = decisionLocked entry (UnixMilli now)
          in \<lparr>qv_ObservedAtMS = UnixMilli now, qv_Allowed = qd_Allowed decision,
              qv_Recoverable = qd_Recoverable decision, qv_NextAvailableAtMS = qd_NextAvailableAtMS decision,
              qv_Rules = map (\<lambda>rule. ruleViewLocked rule (UnixMilli now)) (ak_rules entry)\<rparr>)"

definition restoredState :: "nat \<Rightarrow> runtimeRule \<Rightarrow> RestoredState" where
  "restoredState accessKeyID rule =
     \<lparr>rs_AccessKeyID = accessKeyID, rs_RuleID = qr_ID (rr_definition rule),
      rs_RuleRevision = qr_Revision (rr_definition rule), rs_UsedNanoUSD = rr_usedNanoUSD rule,
      rs_WindowStartedAtMS = rr_windowStartedAtMS rule, rs_WindowEndsAtMS = rr_windowEndsAtMS rule,
      rs_WindowGeneration = rr_windowGeneration rule, rs_SnapshotVersion = rr_snapshotVersion rule\<rparr>"

fun dirty_rules :: "int \<Rightarrow> nat \<Rightarrow> runtimeRule list \<Rightarrow> RestoredState list \<Rightarrow> bool \<times> RestoredState list" where
  "dirty_rules limit accessKeyID [] result = (False, result)"
| "dirty_rules limit accessKeyID (rule # rules) result =
     (if \<not> rr_dirty rule then dirty_rules limit accessKeyID rules result
      else
        let result' = result @ [restoredState accessKeyID rule]
        in if limit > 0 \<and> int (length result') \<ge> limit then (True, result')
           else dirty_rules limit accessKeyID rules result')"

fun dirty_entries :: "int \<Rightarrow> nat list \<Rightarrow> Runtime \<Rightarrow> RestoredState list \<Rightarrow> RestoredState list" where
  "dirty_entries limit [] runtime result = result"
| "dirty_entries limit (accessKeyID # ids) runtime result =
     (case lockEntry accessKeyID runtime of
        None \<Rightarrow> dirty_entries limit ids runtime result
      | Some entry \<Rightarrow>
          (case dirty_rules limit accessKeyID (ak_rules entry) result of
             (True, result') \<Rightarrow> result'
           | (False, result') \<Rightarrow> dirty_entries limit ids runtime result'))"

definition DirtySnapshots :: "int \<Rightarrow> Runtime \<Rightarrow> RestoredState list" where
  "DirtySnapshots limit runtime =
     (if limit = 0 then [] else dirty_entries limit (sort (keys (rt_entries runtime))) runtime [])"

definition Ack :: "nat \<Rightarrow> nat \<Rightarrow> uint64 \<Rightarrow> uint64 \<Rightarrow> Runtime \<Rightarrow> Runtime" where
  "Ack accessKeyID ruleID revision snapshotVersion runtime =
     (case lockEntry accessKeyID runtime of
        None \<Rightarrow> runtime
      | Some entry \<Rightarrow>
          (case ak_byID entry ruleID of
             None \<Rightarrow> runtime
           | Some i \<Rightarrow>
               let rule = ak_rules entry ! i
               in if qr_Revision (rr_definition rule) \<noteq> revision \<or> rr_snapshotVersion rule \<noteq> snapshotVersion
                  then runtime
                  else put_entry accessKeyID
                         (entry\<lparr>ak_rules := (ak_rules entry)[i := rule\<lparr>rr_dirty := False\<rparr>]\<rparr>) runtime))"

definition Stats :: "Runtime \<Rightarrow> uint64" where
  "Stats runtime = rt_overflowFaultTotal runtime"

section \<open>Well-formed rules\<close>

definition definition_ok :: "QuotaRule \<Rightarrow> bool" where
  "definition_ok d \<longleftrightarrow> qr_ID d \<noteq> 0 \<and> qr_Revision d \<noteq> 0 \<and> 0 < qr_LimitNanoUSD d
     \<and> (qr_Kind d = KindTotal \<and> qr_PeriodSeconds d = 0
        \<or> qr_Kind d = KindPeriodic \<and> MinPeriodSeconds \<le> qr_PeriodSeconds d \<and> qr_PeriodSeconds d \<le> MaxPeriodSeconds)"

text \<open>
  A window, once open, is exactly one period long; a periodic rule without a
  window has no usage and generation zero; a total rule never has a window.
\<close>

definition window_ok :: "runtimeRule \<Rightarrow> bool" where
  "window_ok r \<longleftrightarrow>
     (if rr_windowStartedAtMS r = None
      then rr_windowEndsAtMS r = None \<and> rr_windowGeneration r = 0
           \<and> (qr_Kind (rr_definition r) = KindPeriodic \<longrightarrow> rr_usedNanoUSD r = 0)
      else qr_Kind (rr_definition r) = KindPeriodic \<and> rr_windowGeneration r \<noteq> 0
           \<and> 0 \<le> the (rr_windowStartedAtMS r)
           \<and> rr_windowEndsAtMS r = Some (the (rr_windowStartedAtMS r) + qr_PeriodSeconds (rr_definition r) * 1000)
           \<and> the (rr_windowStartedAtMS r) + qr_PeriodSeconds (rr_definition r) * 1000 \<le> MaxInt64)"

definition quota_rule_ok :: "runtimeRule \<Rightarrow> bool" where
  "quota_rule_ok r \<longleftrightarrow> definition_ok (rr_definition r) \<and> 0 \<le> rr_usedNanoUSD r \<and> rr_usedNanoUSD r \<le> MaxInt64
     \<and> rr_snapshotVersion r \<noteq> 0 \<and> window_ok r"

abbreviation rule_id :: "runtimeRule \<Rightarrow> nat" where
  "rule_id r \<equiv> qr_ID (rr_definition r)"

definition entry_ok :: "accessKeyEntry \<Rightarrow> bool" where
  "entry_ok e \<longleftrightarrow> list_all quota_rule_ok (ak_rules e) \<and> distinct (map rule_id (ak_rules e))
     \<and> (\<forall>ruleID i. ak_byID e ruleID = Some i \<longleftrightarrow> i < length (ak_rules e) \<and> rule_id (ak_rules e ! i) = ruleID)"

definition all_rule_ids :: "(nat, accessKeyEntry) gomap \<Rightarrow> nat list" where
  "all_rule_ids entries = concat (map (\<lambda>(k, e). map rule_id (ak_rules e)) entries)"

text \<open>The values a stored state holds are 64-bit integers.\<close>

definition state_int64 :: "RestoredState \<Rightarrow> bool" where
  "state_int64 s \<longleftrightarrow> int64 (rs_UsedNanoUSD s) \<and> (\<forall>x. rs_WindowStartedAtMS s = Some x \<longrightarrow> int64 x)
     \<and> (\<forall>x. rs_WindowEndsAtMS s = Some x \<longrightarrow> int64 x)"

definition restored_ok :: "(nat, RestoredState) gomap \<Rightarrow> bool" where
  "restored_ok m \<longleftrightarrow> (\<forall>(k, s) \<in> set m. validateRestoredState s = None \<and> state_int64 s \<and> rs_RuleID s = k)"

definition quota_inv :: "Runtime \<Rightarrow> bool" where
  "quota_inv r \<longleftrightarrow> wf_map (rt_entries r) \<and> distinct (all_rule_ids (rt_entries r))
     \<and> (\<forall>(k, e) \<in> set (rt_entries r). k \<noteq> 0 \<and> entry_ok e)
     \<and> wf_map (rt_restored r) \<and> restored_ok (rt_restored r)"

subsection \<open>Definitions that pass validation\<close>

lemma validate_rule_Inr:
  assumes "validate_rule k rule st = Inr st'"
  shows "definition_ok rule \<and> rk_globals st (qr_ID rule) = None
    \<and> rk_globals st' = (rk_globals st)(qr_ID rule \<mapsto> k)"
  using assms
  by (auto simp: validate_rule_def definition_ok_def Let_def split: if_splits option.splits Kind.splits)

lemma validate_rules_loop_Inr:
  "validate_rules_loop k rules st = Inr st' \<Longrightarrow>
   list_all definition_ok rules \<and> distinct (map qr_ID rules)
   \<and> set (map qr_ID rules) \<inter> dom (rk_globals st) = {}
   \<and> dom (rk_globals st') = dom (rk_globals st) \<union> set (map qr_ID rules)"
proof (induction rules arbitrary: st)
  case Nil
  then show ?case by simp
next
  case (Cons rule rules)
  then obtain st1 where step: "validate_rule k rule st = Inr st1" and rest: "validate_rules_loop k rules st1 = Inr st'"
    by (auto split: sum.splits)
  have "definition_ok rule" "rk_globals st (qr_ID rule) = None" "dom (rk_globals st1) = insert (qr_ID rule) (dom (rk_globals st))"
    using validate_rule_Inr [OF step] by auto
  with Cons.IH [OF rest] show ?case by auto
qed

lemma validateRules_Inr:
  "validateRules k rules g = Inr g' \<Longrightarrow>
   list_all definition_ok rules \<and> distinct (map qr_ID rules)
   \<and> set (map qr_ID rules) \<inter> dom g = {} \<and> dom g' = dom g \<union> set (map qr_ID rules)"
proof -
  let ?st = "\<lparr>rk_globals = g, rk_total = 0, rk_periodic = 0, rk_periods = []\<rparr>"
  assume "validateRules k rules g = Inr g'"
  then obtain st' where "validate_rules_loop k rules ?st = Inr st'" and "g' = rk_globals st'"
    by (auto simp: validateRules_def split: sum.splits if_splits)
  with validate_rules_loop_Inr [of k rules ?st st'] show ?thesis by simp
qed

lemma mset_insert_rule [simp]: "mset (insert_rule r xs) = add_mset r (mset xs)"
  by (induction xs) auto

lemma mset_sortRules [simp]: "mset (sortRules rules) = mset rules"
  by (induction rules) (simp_all add: sortRules_def)

lemma set_sortRules [simp]: "set (sortRules rules) = set rules"
  by (metis mset_sortRules set_mset_mset)

lemma distinct_sortRules [simp]: "distinct (map qr_ID (sortRules rules)) = distinct (map qr_ID rules)"
  by (metis distinct_map mset_sortRules mset_eq_imp_distinct_iff set_sortRules)

lemma insert_rule_ids: "set (map qr_ID (sortRules rules)) = set (map qr_ID rules)"
  by simp

definition definition_ids :: "(nat, QuotaRule list) gomap \<Rightarrow> nat list" where
  "definition_ids n = concat (map (\<lambda>(k, rules). map qr_ID rules) n)"

lemma definition_ids_simps [simp]:
  "definition_ids [] = []" "definition_ids ((k, rules) # n) = map qr_ID rules @ definition_ids n"
  by (simp_all add: definition_ids_def)

lemma normalize_from_Inr:
  "normalize_from g defs = Inr n \<Longrightarrow> wf_map defs \<Longrightarrow>
   set (keys n) \<subseteq> set (keys defs) \<and> wf_map n \<and> distinct (definition_ids n) \<and> set (definition_ids n) \<inter> dom g = {}
   \<and> (\<forall>(k, rules) \<in> set n. k \<noteq> 0 \<and> rules \<noteq> [] \<and> list_all definition_ok rules)"
proof (induction g defs arbitrary: n rule: normalize_from.induct)
  case (1 g)
  then show ?case by simp
next
  case (2 g k source rest)
  show ?case
  proof (cases "source = []")
    case True
    with 2 show ?thesis by (auto split: if_splits)
  next
    case False
    with 2(3) obtain g' n' where k: "k \<noteq> 0" and v: "validateRules k source g = Inr g'"
      and rest: "normalize_from g' rest = Inr n'" and n: "n = (k, sortRules source) # n'"
      by (auto split: if_splits sum.splits)
    have IH: "set (keys n') \<subseteq> set (keys rest)" "wf_map n'" "distinct (definition_ids n')"
      "set (definition_ids n') \<inter> dom g' = {}"
      "\<forall>(k, rules) \<in> set n'. k \<noteq> 0 \<and> rules \<noteq> [] \<and> list_all definition_ok rules"
      using 2(2) [OF _ False v rest] k 2(4) by simp_all
    have v': "list_all definition_ok source" "distinct (map qr_ID source)" "set (map qr_ID source) \<inter> dom g = {}"
      "dom g' = dom g \<union> set (map qr_ID source)"
      using validateRules_Inr [OF v] by simp_all
    have "sortRules source \<noteq> []" using False by (metis set_empty set_sortRules)
    moreover have "list_all definition_ok (sortRules source)" using v'(1) by (simp add: list_all_iff)
    moreover have "set (map qr_ID source) \<inter> set (definition_ids n') = {}" "set (definition_ids n') \<inter> dom g = {}"
      using IH(4) v'(4) by blast+
    moreover have "k \<notin> set (keys n')" using IH(1) 2(4) by auto
    ultimately show ?thesis
      using IH(1-3,5) n k v'(2,3) by (simp add: Int_Un_distrib2 subset_insertI2)
  qed
qed

lemmas normalizeDefinitions_Inr = normalize_from_Inr [where g = Map.empty, folded normalizeDefinitions_def]

subsection \<open>Every operation keeps the invariant\<close>

lemma index_rules_Some:
  "distinct (map qr_ID rs) \<Longrightarrow> index_rules i rs m x = Some j \<longleftrightarrow>
     (\<exists>a < length rs. j = i + a \<and> qr_ID (rs ! a) = x) \<or> (x \<notin> set (map qr_ID rs) \<and> m x = Some j)"
proof (induction rs arbitrary: i m)
  case Nil
  then show ?case by simp
next
  case (Cons r rs)
  have "(\<exists>a < length (r # rs). j = i + a \<and> qr_ID ((r # rs) ! a) = x)
      \<longleftrightarrow> j = i \<and> qr_ID r = x \<or> (\<exists>a < length rs. j = i + 1 + a \<and> qr_ID (rs ! a) = x)"
    by (auto simp: less_Suc_eq_0_disj)
  with Cons show ?case by auto
qed

lemma newAccessKeyEntry_rules [simp]: "ak_rules (newAccessKeyEntry rules) = map new_rule rules"
  by (simp add: newAccessKeyEntry_def)

lemma entry_ok_from_definitions:
  assumes "map rr_definition rules' = rules" and "list_all quota_rule_ok rules'" and "distinct (map qr_ID rules)"
  shows "entry_ok ((newAccessKeyEntry rules)\<lparr>ak_rules := rules'\<rparr>)"
proof -
  have len: "length rules' = length rules" using assms(1) by (metis length_map)
  have "rule_id (rules' ! i) = qr_ID (rules ! i)" if "i < length rules" for i
    using assms(1) len that by (metis nth_map)
  then have "index_rules 0 rules Map.empty x = Some i \<longleftrightarrow> i < length rules' \<and> rule_id (rules' ! i) = x" for x i
    using index_rules_Some [OF assms(3)] len by auto
  moreover have "distinct (map rule_id rules')" using assms(3) unfolding assms(1) [symmetric] by (simp add: comp_def)
  ultimately show ?thesis using assms(2) by (simp add: entry_ok_def newAccessKeyEntry_def)
qed

lemma entry_ok_rules:
  assumes "entry_ok e" and "map rr_definition rules' = map rr_definition (ak_rules e)"
    and "list_all quota_rule_ok rules'"
  shows "entry_ok (e\<lparr>ak_rules := rules'\<rparr>)"
proof -
  have len: "length rules' = length (ak_rules e)" using assms(2) by (metis length_map)
  have "rule_id (rules' ! i) = rule_id (ak_rules e ! i)" if "i < length rules'" for i
    using assms(2) len that by (metis nth_map)
  moreover have "map rule_id rules' = map rule_id (ak_rules e)"
    using assms(2) by (metis (no_types, lifting) comp_apply list.map_comp map_eq_conv)
  ultimately show ?thesis using assms(1,3) len by (auto simp: entry_ok_def)
qed

lemma all_rule_ids_simps [simp]:
  "all_rule_ids [] = []" "all_rule_ids ((k, e) # es) = map rule_id (ak_rules e) @ all_rule_ids es"
  by (simp_all add: all_rule_ids_def)

lemma all_rule_ids_update:
  "wf_map es \<Longrightarrow> map_of es k = Some e \<Longrightarrow> map rule_id (ak_rules e') = map rule_id (ak_rules e) \<Longrightarrow>
   all_rule_ids (AList.update k e' es) = all_rule_ids es"
  by (induction es) (auto split: if_splits)

lemma put_entry_inv:
  assumes inv: "quota_inv r" and e: "map_of (rt_entries r) k = Some e"
    and same: "map rr_definition (ak_rules e') = map rr_definition (ak_rules e)" and ok: "entry_ok e'"
  shows "quota_inv (put_entry k e' r)"
proof -
  have "map rule_id (ak_rules e') = map rule_id (ak_rules e)"
    using same by (metis (no_types, lifting) comp_apply list.map_comp map_eq_conv)
  then have "all_rule_ids (AList.update k e' (rt_entries r)) = all_rule_ids (rt_entries r)"
    using inv e by (auto simp: quota_inv_def intro: all_rule_ids_update)
  moreover have "k \<noteq> 0" using inv map_of_SomeD [OF e] by (auto simp: quota_inv_def)
  moreover have "set (AList.update k e' (rt_entries r)) \<subseteq> insert (k, e') (set (rt_entries r))"
    by (rule set_update_subset)
  ultimately show ?thesis using inv ok by (auto simp: quota_inv_def put_entry_def)
qed

lemma quota_inv_notify [simp]: "quota_inv (notifyDirty r) = quota_inv r"
  by (simp add: quota_inv_def notifyDirty_def)

lemma quota_inv_fault [simp]: "quota_inv (r\<lparr>rt_overflowFaultTotal := n\<rparr>) = quota_inv r"
  by (simp add: quota_inv_def)

lemma lockEntry_Some: "quota_inv r \<Longrightarrow> lockEntry k r = Some e \<Longrightarrow> map_of (rt_entries r) k = Some e \<and> entry_ok e \<and> k \<noteq> 0"
  by (auto simp: lockEntry_def quota_inv_def split: if_splits dest: map_of_SomeD)

lemma advanceVersion_ok:
  "quota_rule_ok r \<Longrightarrow> quota_rule_ok (advanceVersion r)"
  by (auto simp: advanceVersion_def quota_rule_ok_def window_ok_def word_plus1_nonzero)

subsubsection \<open>Admission\<close>

text \<open>The clock readings of the program: after 1970 and far from the end of the 64-bit range.\<close>

definition clock_ok :: "time \<Rightarrow> bool" where
  "clock_ok now \<longleftrightarrow> unix_epoch \<le> now
     \<and> (now - unix_epoch) div Millisecond + MaxPeriodSeconds * 1000 \<le> MaxInt64"

lemma clock_milli: "clock_ok now \<Longrightarrow> UnixMilli now = (now - unix_epoch) div Millisecond \<and> 0 \<le> UnixMilli now"
proof -
  assume now: "clock_ok now"
  then have "0 \<le> (now - unix_epoch) div Millisecond" by (simp add: clock_ok_def pos_imp_zdiv_nonneg_iff Millisecond_def)
  moreover then have "int64 ((now - unix_epoch) div Millisecond)"
    using now by (auto simp: clock_ok_def MaxPeriodSeconds_def intro: int64_nonneg)
  ultimately show ?thesis by (simp add: UnixMilli_def)
qed

lemma window_end_milli:
  assumes "clock_ok now" and "0 \<le> p" and "p \<le> MaxPeriodSeconds"
  shows "UnixMilli (TimeAdd now (wrap64 (p * Second))) = UnixMilli now + p * 1000
    \<and> UnixMilli now + p * 1000 \<le> MaxInt64"
proof -
  have "wrap64 (p * Second) = p * Second" using assms by (simp add: MaxPeriodSeconds_def go_time go_arith)
  moreover have "(now + p * Second - unix_epoch) div Millisecond = (now - unix_epoch) div Millisecond + p * 1000"
  proof -
    have "now + p * Second - unix_epoch = (now - unix_epoch) + p * 1000 * Millisecond" by (simp add: go_time)
    moreover have "Millisecond \<noteq> 0" by (simp add: Millisecond_def)
    ultimately show ?thesis by (simp only: div_mult_self1) simp
  qed
  moreover have "(now - unix_epoch) div Millisecond + p * 1000 \<le> MaxInt64"
    using assms by (simp add: clock_ok_def MaxPeriodSeconds_def)
  moreover have "0 \<le> (now - unix_epoch) div Millisecond + p * 1000"
    using assms clock_milli [OF assms(1)] by simp
  ultimately show ?thesis
    using clock_milli [OF assms(1)] by (simp add: UnixMilli_def TimeAdd_def int64_nonneg)
qed

lemma open_window_ok:
  assumes "quota_rule_ok r" and "clock_ok now"
  shows "quota_rule_ok (open_window now r)"
proof (cases "opens_window r (UnixMilli now)")
  case True
  then have kind: "qr_Kind (rr_definition r) = KindPeriodic" by (simp add: opens_window_def)
  with assms(1) have p: "0 \<le> qr_PeriodSeconds (rr_definition r)" "qr_PeriodSeconds (rr_definition r) \<le> MaxPeriodSeconds"
    by (auto simp: quota_rule_ok_def definition_ok_def MinPeriodSeconds_def)
  have gen: "(if rr_windowGeneration r < MaxUint64 then rr_windowGeneration r + 1 else rr_windowGeneration r) \<noteq> 0"
    using word_plus1_nonzero MaxUint64_pos by (metis)
  define ends where "ends = UnixMilli (TimeAdd now (wrap64 (qr_PeriodSeconds (rr_definition r) * Second)))"
  have window: "ends = UnixMilli now + qr_PeriodSeconds (rr_definition r) * 1000" "ends \<le> MaxInt64"
    "0 \<le> UnixMilli now"
    using window_end_milli [OF assms(2) p] clock_milli [OF assms(2)] by (simp_all add: ends_def)
  have "quota_rule_ok (r\<lparr>rr_windowStartedAtMS := Some (UnixMilli now), rr_windowEndsAtMS := Some ends, rr_usedNanoUSD := 0,
      rr_windowGeneration := (if rr_windowGeneration r < MaxUint64 then rr_windowGeneration r + 1 else rr_windowGeneration r)\<rparr>)"
    using assms(1) kind window gen by (simp add: quota_rule_ok_def window_ok_def MaxInt64_def)
  then show ?thesis using True by (simp add: open_window_def advanceVersion_ok flip: ends_def)
next
  case False
  with assms show ?thesis by (simp add: open_window_def)
qed

lemma open_window_definition [simp]: "rr_definition (open_window now r) = rr_definition r"
  by (simp add: open_window_def advanceVersion_def)

lemma Admit_inv:
  assumes "quota_inv r" and "clock_ok now" and "Admit k now r = (res, r')"
  shows "quota_inv r'"
proof (cases "lockEntry k r")
  case None
  with assms show ?thesis by (simp add: Admit_def)
next
  case (Some e)
  note e = lockEntry_Some [OF assms(1) Some]
  have "list_all quota_rule_ok (map (open_window now) (ak_rules e))"
    using e assms(2) open_window_ok by (auto simp: entry_ok_def list_all_iff)
  then have "entry_ok (e\<lparr>ak_rules := map (open_window now) (ak_rules e)\<rparr>)"
    using e by (intro entry_ok_rules) (simp_all add: comp_def)
  then have "quota_inv (put_entry k (e\<lparr>ak_rules := map (open_window now) (ak_rules e)\<rparr>) r)"
    using e by (intro put_entry_inv [OF assms(1)]) (simp_all add: comp_def)
  with assms Some show ?thesis by (auto simp: Admit_def Let_def split: if_splits)
qed

subsubsection \<open>Completion and acknowledgement\<close>

lemma complete_used_Some:
  assumes "0 \<le> used" and "used \<le> MaxInt64" and "int64 cost"
  shows "complete_used used cost fault =
    (if cost < 0 then Some (MaxInt64, CompletionFaultNegativeEstimate)
     else if cost = 0 then None
     else if MaxInt64 < used + cost then Some (MaxInt64, if fault = CompletionFaultNone then CompletionFaultOverflow else fault)
     else Some (used + cost, fault))"
  using assms by (simp add: complete_used_def int64_defs)

lemma complete_used_range:
  assumes "0 \<le> used" and "used \<le> MaxInt64" and "int64 cost" and "complete_used used cost fault = Some (u, f)"
  shows "used \<le> u \<and> u \<le> MaxInt64"
  using assms by (auto simp: complete_used_Some split: if_splits)

text \<open>
  A ticket fits the rules when none of its lines refers to a periodic rule at
  generation zero, that is to a window that was never open.
\<close>

definition line_fits :: "QuotaRule list \<Rightarrow> TicketRule \<Rightarrow> bool" where
  "line_fits ds t \<longleftrightarrow> (\<forall>d \<in> set ds. qr_ID d = tr_RuleID t \<and> qr_Revision d = tr_RuleRevision t
     \<and> qr_Kind d = KindPeriodic \<longrightarrow> tr_WindowGeneration t \<noteq> 0)"

abbreviation definitions :: "accessKeyEntry \<Rightarrow> QuotaRule list" where
  "definitions e \<equiv> map rr_definition (ak_rules e)"

text \<open>What one turn of the loop of \<open>Complete\<close> does to a rule it refers to.\<close>

definition line_matches :: "TicketRule \<Rightarrow> runtimeRule \<Rightarrow> bool" where
  "line_matches t r \<longleftrightarrow> rule_id r = tr_RuleID t \<and> qr_Revision (rr_definition r) = tr_RuleRevision t
     \<and> (qr_Kind (rr_definition r) = KindPeriodic \<longrightarrow> rr_windowGeneration r = tr_WindowGeneration t)"

definition charge :: "int \<Rightarrow> runtimeRule \<Rightarrow> runtimeRule" where
  "charge cost r =
     (let used = (if cost < 0 then MaxInt64 else min MaxInt64 (rr_usedNanoUSD r + cost))
      in if used = rr_usedNanoUSD r then r else advanceVersion (r\<lparr>rr_usedNanoUSD := used\<rparr>))"

lemma entry_index:
  "entry_ok e \<Longrightarrow> ak_byID e x = Some i \<longleftrightarrow> i < length (ak_rules e) \<and> rule_id (ak_rules e ! i) = x"
  by (simp add: entry_ok_def)

lemma entry_id_inj:
  "entry_ok e \<Longrightarrow> i < length (ak_rules e) \<Longrightarrow> j < length (ak_rules e) \<Longrightarrow>
   rule_id (ak_rules e ! i) = rule_id (ak_rules e ! j) \<Longrightarrow> i = j"
  using nth_eq_iff_index_eq [of "map rule_id (ak_rules e)" i j] by (simp add: entry_ok_def)

lemma charge_definition [simp]: "rr_definition (charge c r) = rr_definition r"
  by (simp add: charge_def advanceVersion_def Let_def)

lemma charge_ok:
  assumes "quota_rule_ok r" and "qr_Kind (rr_definition r) = KindPeriodic \<longrightarrow> rr_windowGeneration r \<noteq> 0"
  shows "quota_rule_ok (charge cost r)"
proof -
  define used where "used = (if cost < 0 then MaxInt64 else min MaxInt64 (rr_usedNanoUSD r + cost))"
  have "0 \<le> used" "used \<le> MaxInt64" using assms(1) by (auto simp: used_def quota_rule_ok_def MaxInt64_def)
  moreover have "window_ok (r\<lparr>rr_usedNanoUSD := used\<rparr>)"
    using assms by (auto simp: window_ok_def quota_rule_ok_def split: if_splits)
  ultimately have "quota_rule_ok (r\<lparr>rr_usedNanoUSD := used\<rparr>)" using assms(1) by (simp add: quota_rule_ok_def)
  with assms(1) show ?thesis by (simp add: charge_def advanceVersion_ok flip: used_def)
qed

lemma complete_rule_charges:
  assumes ok: "entry_ok (cs_entry st)" and cost: "int64 cost"
  shows "cs_entry (complete_rule cost t st)
    = (cs_entry st)\<lparr>ak_rules := map (\<lambda>r. if line_matches t r then charge cost r else r) (ak_rules (cs_entry st))\<rparr>"
proof (cases "\<exists>i < length (ak_rules (cs_entry st)). line_matches t (ak_rules (cs_entry st) ! i)")
  case False
  then have "map (\<lambda>r. if line_matches t r then charge cost r else r) (ak_rules (cs_entry st)) = ak_rules (cs_entry st)"
    by (intro nth_equalityI) auto
  moreover have "complete_rule cost t st = st"
    using False entry_index [OF ok] by (auto simp: complete_rule_def line_matches_def Let_def split: option.split)
  ultimately show ?thesis by simp
next
  case True
  then obtain i where i: "i < length (ak_rules (cs_entry st))" and m: "line_matches t (ak_rules (cs_entry st) ! i)"
    by blast
  define r where "r = ak_rules (cs_entry st) ! i"
  have others: "\<not> line_matches t (ak_rules (cs_entry st) ! j)" if "j < length (ak_rules (cs_entry st))" "j \<noteq> i" for j
    using that i m entry_id_inj [OF ok, of i j] by (auto simp: line_matches_def)
  have "map (\<lambda>r. if line_matches t r then charge cost r else r) (ak_rules (cs_entry st))
      = (ak_rules (cs_entry st))[i := charge cost r]"
    using i m others by (intro nth_equalityI) (auto simp: nth_list_update r_def)
  moreover have idx: "ak_byID (cs_entry st) (tr_RuleID t) = Some i"
    using entry_index [OF ok] i m by (simp add: line_matches_def)
  have used: "0 \<le> rr_usedNanoUSD r" "rr_usedNanoUSD r \<le> MaxInt64"
    using ok i by (auto simp: entry_ok_def list_all_length quota_rule_ok_def r_def)
  have "cs_entry (complete_rule cost t st) = (cs_entry st)\<lparr>ak_rules := (ak_rules (cs_entry st))[i := charge cost r]\<rparr>"
  proof (cases "cost = 0")
    case True
    then have "charge cost r = r" using used by (simp add: charge_def min_def)
    with idx m True show ?thesis
      by (simp add: complete_rule_def Let_def line_matches_def complete_used_def r_def)
  next
    case False
    with idx m used complete_used_Some [OF used cost, of "cs_fault st"] show ?thesis
      by (auto simp: complete_rule_def Let_def line_matches_def charge_def r_def min_def split: if_splits)
  qed
  ultimately show ?thesis by simp
qed

lemma entry_ok_charge:
  assumes ok: "entry_ok e" and fits: "line_fits (definitions e) t"
  shows "entry_ok (e\<lparr>ak_rules := map (\<lambda>r. if line_matches t r then charge cost r else r) (ak_rules e)\<rparr>)"
proof (rule entry_ok_rules [OF ok])
  show "list_all quota_rule_ok (map (\<lambda>r. if line_matches t r then charge cost r else r) (ak_rules e))"
    using ok fits charge_ok by (auto simp: entry_ok_def list_all_iff line_fits_def line_matches_def)
qed (simp add: comp_def if_distrib [of rr_definition] cong: if_cong)

text \<open>The whole loop: every rule is charged once per matching ticket line.\<close>

definition charge_lines :: "int \<Rightarrow> TicketRule list \<Rightarrow> runtimeRule \<Rightarrow> runtimeRule" where
  "charge_lines cost ts = fold (\<lambda>t r. if line_matches t r then charge cost r else r) ts"

lemma charge_lines_simps [simp]:
  "charge_lines cost [] r = r"
  "charge_lines cost (t # ts) r = charge_lines cost ts (if line_matches t r then charge cost r else r)"
  by (simp_all add: charge_lines_def)

lemma charge_lines_definition [simp]: "rr_definition (charge_lines cost ts r) = rr_definition r"
  by (induction ts arbitrary: r) auto

lemma complete_loop:
  assumes "entry_ok (cs_entry st)" and "int64 cost" and "list_all (line_fits (definitions (cs_entry st))) ts"
  shows "entry_ok (cs_entry (fold (complete_rule cost) ts st))
    \<and> cs_entry (fold (complete_rule cost) ts st)
        = (cs_entry st)\<lparr>ak_rules := map (charge_lines cost ts) (ak_rules (cs_entry st))\<rparr>"
  using assms
proof (induction ts arbitrary: st)
  case Nil
  then show ?case by (simp add: charge_lines_def)
next
  case (Cons t ts)
  let ?st = "complete_rule cost t st"
  have entry: "cs_entry ?st = (cs_entry st)\<lparr>ak_rules :=
      map (\<lambda>r. if line_matches t r then charge cost r else r) (ak_rules (cs_entry st))\<rparr>"
    using complete_rule_charges [OF Cons.prems(1,2)] .
  then have ok: "entry_ok (cs_entry ?st)" using entry_ok_charge Cons.prems by simp
  have "definitions (cs_entry ?st) = definitions (cs_entry st)"
    by (simp add: entry comp_def if_distrib [of rr_definition] cong: if_cong)
  then have fits: "list_all (line_fits (definitions (cs_entry ?st))) ts" using Cons.prems(3) by simp
  from Cons.IH [OF ok Cons.prems(2) fits] entry show ?case by (auto simp: comp_def)
qed

lemma Complete_entry:
  assumes inv: "quota_inv r" and cost: "int64 cost"
    and e: "lockEntry (ti_AccessKeyID ticket) r = Some e" and lines: "ti_Rules ticket \<noteq> []"
    and fits: "list_all (line_fits (definitions e)) (ti_Rules ticket)"
    and res: "Complete ticket cost r = (fault, r')"
  shows "quota_inv r' \<and> rt_entries r' = AList.update (ti_AccessKeyID ticket)
      (e\<lparr>ak_rules := map (charge_lines cost (ti_Rules ticket)) (ak_rules e)\<rparr>) (rt_entries r)
    \<and> rt_restored r' = rt_restored r \<and> rt_restorePending r' = rt_restorePending r"
proof -
  note lock = lockEntry_Some [OF inv e]
  define st where "st = fold (complete_rule cost) (ti_Rules ticket)
    \<lparr>cs_entry = e, cs_fault = CompletionFaultNone, cs_dirty = False\<rparr>"
  have st: "entry_ok (cs_entry st)"
    "cs_entry st = e\<lparr>ak_rules := map (charge_lines cost (ti_Rules ticket)) (ak_rules e)\<rparr>"
    using complete_loop [of "\<lparr>cs_entry = e, cs_fault = CompletionFaultNone, cs_dirty = False\<rparr>" cost "ti_Rules ticket"]
      lock cost fits unfolding st_def by auto
  have "quota_inv (put_entry (ti_AccessKeyID ticket) (cs_entry st) r)"
    using lock st by (intro put_entry_inv [OF inv]) (simp_all add: comp_def)
  moreover have "r' = (let r2 = (if cs_fault st \<noteq> CompletionFaultNone
      then (put_entry (ti_AccessKeyID ticket) (cs_entry st) r)
        \<lparr>rt_overflowFaultTotal := rt_overflowFaultTotal (put_entry (ti_AccessKeyID ticket) (cs_entry st) r) + 1\<rparr>
      else put_entry (ti_AccessKeyID ticket) (cs_entry st) r) in if cs_dirty st then notifyDirty r2 else r2)"
    using res e lines lock by (auto simp: Complete_def Let_def simp flip: st_def)
  ultimately show ?thesis using st by (auto simp: Let_def notifyDirty_def put_entry_def quota_inv_def)
qed

lemma Complete_unchanged:
  "lockEntry (ti_AccessKeyID ticket) r = None \<or> ti_Rules ticket = [] \<Longrightarrow> Complete ticket cost r = (CompletionFaultNone, r)"
  by (auto simp: Complete_def)

text \<open>\<open>Ack\<close> clears the mark of the one rule it names, or nothing.\<close>

lemma Ack_cases:
  assumes inv: "quota_inv r"
  obtains "Ack k ruleID revision version r = r"
  | e i where "map_of (rt_entries r) k = Some e" and "entry_ok e" and "i < length (ak_rules e)"
    and "rule_id (ak_rules e ! i) = ruleID" and "qr_Revision (rr_definition (ak_rules e ! i)) = revision"
    and "rr_snapshotVersion (ak_rules e ! i) = version"
    and "Ack k ruleID revision version r
      = put_entry k (e\<lparr>ak_rules := (ak_rules e)[i := (ak_rules e ! i)\<lparr>rr_dirty := False\<rparr>]\<rparr>) r"
proof (cases "lockEntry k r")
  case None
  with that(1) show ?thesis by (simp add: Ack_def)
next
  case (Some e)
  note lock = lockEntry_Some [OF inv Some]
  show ?thesis
  proof (cases "ak_byID e ruleID")
    case None
    with that(1) Some show ?thesis by (simp add: Ack_def)
  next
    case i: (Some i)
    then have "i < length (ak_rules e)" "rule_id (ak_rules e ! i) = ruleID" using entry_index lock by blast+
    note facts = this
    show ?thesis
    proof (cases "qr_Revision (rr_definition (ak_rules e ! i)) = revision \<and> rr_snapshotVersion (ak_rules e ! i) = version")
      case True
      with facts lock Some i show ?thesis by (intro that(2) [of e i]) (auto simp: Ack_def Let_def)
    next
      case False
      with Some i show ?thesis by (intro that(1)) (auto simp: Ack_def Let_def)
    qed
  qed
qed

lemma definitions_dirty:
  "i < length rules \<Longrightarrow> map rr_definition (rules[i := (rules ! i)\<lparr>rr_dirty := b\<rparr>]) = map rr_definition rules"
  by (intro nth_equalityI) (auto simp: nth_list_update)

lemma Ack_inv:
  assumes "quota_inv r"
  shows "quota_inv (Ack k ruleID revision version r)"
  using assms
proof (cases rule: Ack_cases [where k = k and ruleID = ruleID and revision = revision and version = version])
  case 1
  with assms show ?thesis by simp
next
  case (2 e i)
  let ?rules = "(ak_rules e)[i := (ak_rules e ! i)\<lparr>rr_dirty := False\<rparr>]"
  have "quota_rule_ok ((ak_rules e ! i)\<lparr>rr_dirty := False\<rparr>)"
    using 2(2,3) by (auto simp: entry_ok_def list_all_length quota_rule_ok_def window_ok_def)
  then have "list_all quota_rule_ok ?rules"
    using 2(2,3) by (auto simp: entry_ok_def list_all_length nth_list_update)
  then have "entry_ok (e\<lparr>ak_rules := ?rules\<rparr>)"
    using 2(2,3) definitions_dirty by (intro entry_ok_rules) auto
  then have "quota_inv (put_entry k (e\<lparr>ak_rules := ?rules\<rparr>) r)"
    using 2(1,3) definitions_dirty by (intro put_entry_inv [OF assms]) auto
  with 2(7) show ?thesis by simp
qed

subsubsection \<open>Restoration and reconciliation\<close>

lemma new_rule_ok: "definition_ok d \<Longrightarrow> quota_rule_ok (new_rule d)"
  by (simp add: quota_rule_ok_def new_rule_def window_ok_def MaxInt64_def)

lemma restore_states_Inr:
  "restore_states states m = Inr m' \<Longrightarrow> wf_map m \<Longrightarrow> restored_ok m \<Longrightarrow> list_all state_int64 states \<Longrightarrow>
   wf_map m' \<and> restored_ok m'"
proof (induction states arbitrary: m)
  case Nil
  then show ?case by simp
next
  case (Cons s states)
  let ?m = "AList.update (rs_RuleID s) s m"
  have v: "validateRestoredState s = None" and rest: "restore_states states ?m = Inr m'"
    using Cons.prems(1) by (auto split: option.splits if_splits)
  have "restored_ok ?m"
    using set_update_subset [of "rs_RuleID s" s m] Cons.prems(3,4) v by (fastforce simp: restored_ok_def)
  with Cons.IH [OF rest wf_map_update [OF Cons.prems(2)]] Cons.prems(4) show ?case by simp
qed

lemma Restore_inv: "quota_inv r \<Longrightarrow> list_all state_int64 states \<Longrightarrow> Restore states r = (err, r') \<Longrightarrow> quota_inv r'"
  using restore_states_Inr [of states "[]"]
  by (auto simp: Restore_def quota_inv_def restored_ok_def [of "[]"] split: sum.splits if_splits)

lemma applyRestoredState_Inr:
  assumes app: "applyRestoredState rule s = Inr rule'" and valid: "validateRestoredState s = None"
    and d: "definition_ok (rr_definition rule)" and range: "rs_UsedNanoUSD s \<le> MaxInt64"
      "\<And>x. rs_WindowEndsAtMS s = Some x \<Longrightarrow> int64 x"
  shows "quota_rule_ok rule' \<and> rr_definition rule' = rr_definition rule"
proof -
  have rule': "rule' = rule\<lparr>rr_usedNanoUSD := rs_UsedNanoUSD s, rr_windowStartedAtMS := rs_WindowStartedAtMS s,
      rr_windowEndsAtMS := rs_WindowEndsAtMS s, rr_windowGeneration := rs_WindowGeneration s,
      rr_snapshotVersion := rs_SnapshotVersion s\<rparr>"
    using app by (auto simp: applyRestoredState_def Let_def split: if_splits option.splits)
  have basic: "0 \<le> rs_UsedNanoUSD s" "rs_SnapshotVersion s \<noteq> 0"
    using valid by (auto simp: validateRestoredState_def split: if_splits)
  have "window_ok rule'"
  proof (cases "rs_WindowStartedAtMS s")
    case None
    then have "rs_WindowEndsAtMS s = None"
      using valid by (auto simp: validateRestoredState_def split: if_splits option.splits)
    with None app show ?thesis
      by (auto simp: rule' window_ok_def applyRestoredState_def Let_def split: if_splits)
  next
    case (Some a)
    then obtain b where b: "rs_WindowEndsAtMS s = Some b" and ab: "0 \<le> a" "a < b"
      using valid by (auto simp: validateRestoredState_def split: if_splits option.splits)
    have kind: "qr_Kind (rr_definition rule) = KindPeriodic" and gen: "rs_WindowGeneration s \<noteq> 0"
      and dur: "wrap64 (b - a) = wrap64 (qr_PeriodSeconds (rr_definition rule) * (Second div Millisecond))"
      using app Some b d by (auto simp: applyRestoredState_def definition_ok_def Let_def split: if_splits)
    have "int64 (b - a)" using range(2) [OF b] ab by (simp add: int64_defs)
    moreover have "int64 (qr_PeriodSeconds (rr_definition rule) * 1000)"
      using d kind by (simp add: definition_ok_def MinPeriodSeconds_def MaxPeriodSeconds_def int64_defs)
    ultimately have "b = a + qr_PeriodSeconds (rr_definition rule) * 1000"
      using dur by (simp add: go_time)
    with kind gen ab b Some range(2) [OF b] show ?thesis by (simp add: rule' window_ok_def int64_def)
  qed
  with basic d range(1) show ?thesis by (simp add: quota_rule_ok_def rule')
qed

lemma set_delete_subset: "set (AList.delete k m) \<subseteq> set m"
  by (auto simp: AList.delete_eq)

lemma restored_ok_delete: "restored_ok m \<Longrightarrow> restored_ok (AList.delete k m)"
  using set_delete_subset [of k m] by (auto simp: restored_ok_def)

lemma restore_rules_Inr:
  "restore_rules k rules m = Inr (rules', m') \<Longrightarrow> restored_ok m \<Longrightarrow>
   list_all (\<lambda>r. definition_ok (rr_definition r)) rules \<Longrightarrow>
   list_all quota_rule_ok rules' \<and> map rr_definition rules' = map rr_definition rules \<and> restored_ok m'"
proof (induction rules arbitrary: m rules')
  case Nil
  then show ?case by simp
next
  case (Cons rule rules)
  obtain s rule1 rules1 where s: "map_of m (rule_id rule) = Some s"
    and app: "applyRestoredState rule s = Inr rule1"
    and rest: "restore_rules k rules (AList.delete (rule_id rule) m) = Inr (rules1, m')" and eq: "rules' = rule1 # rules1"
    using Cons.prems(1) by (auto simp: Let_def split: option.splits if_splits sum.splits)
  have s_ok: "validateRestoredState s = None" "state_int64 s"
    using Cons.prems(2) map_of_SomeD [OF s] by (auto simp: restored_ok_def)
  then have "quota_rule_ok rule1 \<and> rr_definition rule1 = rr_definition rule"
    using applyRestoredState_Inr [OF app] Cons.prems(3) by (simp add: state_int64_def int64_def)
  with Cons.IH [OF rest restored_ok_delete [OF Cons.prems(2)]] Cons.prems(3) eq show ?case by simp
qed

lemma restore_entries_Inr:
  assumes "restore_entries n m = Inr (entries, m')" and "restored_ok m" and "distinct (definition_ids n)"
    and "\<forall>(k, rules) \<in> set n. k \<noteq> 0 \<and> list_all definition_ok rules"
  shows "keys entries = keys n \<and> all_rule_ids entries = definition_ids n
    \<and> (\<forall>(k, e) \<in> set entries. k \<noteq> 0 \<and> entry_ok e)
    \<and> map (\<lambda>(k, e). (k, definitions e)) entries = n"
  using assms
proof (induction n m arbitrary: entries rule: restore_entries.induct)
  case (1 m)
  then show ?case by simp
next
  case (2 k rules rest m)
  obtain rules' m1 es where rr: "restore_rules k (map new_rule rules) m = Inr (rules', m1)"
    and rest: "restore_entries rest m1 = Inr (es, m')"
    and entries: "entries = (k, (newAccessKeyEntry rules)\<lparr>ak_rules := rules'\<rparr>) # es"
    using 2(2) by (auto simp: Let_def split: sum.splits)
  have "list_all (\<lambda>r. definition_ok (rr_definition r)) (map new_rule rules)"
    using 2(5) by (simp add: list_all_iff new_rule_def)
  from restore_rules_Inr [OF rr 2(3) this]
  have ok: "list_all quota_rule_ok rules'" and defs: "map rr_definition rules' = rules" and m1: "restored_ok m1"
    by (simp_all add: comp_def new_rule_def)
  have e: "entry_ok ((newAccessKeyEntry rules)\<lparr>ak_rules := rules'\<rparr>)"
    using entry_ok_from_definitions [OF defs ok] 2(4) by simp
  have "restore_rules k (ak_rules (newAccessKeyEntry rules)) m = Inr (rules', m1)"
    using rr by (simp add: newAccessKeyEntry_def)
  from 2(1) [OF refl this refl rest m1] 2(4,5) entries e defs show ?case
    by (auto simp: comp_def)
qed

lemma clone_ok:
  assumes "quota_rule_ok previous" and "definition_ok (rr_definition rule)"
    and "qr_Kind (rr_definition previous) = qr_Kind (rr_definition rule)"
    and "qr_PeriodSeconds (rr_definition previous) = qr_PeriodSeconds (rr_definition rule)"
  shows "quota_rule_ok (cloneRuntimeState rule previous)"
  using assms by (auto simp: cloneRuntimeState_def quota_rule_ok_def window_ok_def)

lemma entry_rule_ok: "entry_ok e \<Longrightarrow> entry_rule e x = Some r \<Longrightarrow> r \<in> set (ak_rules e) \<and> quota_rule_ok r \<and> rule_id r = x"
  using entry_index [of e x] by (auto simp: entry_rule_def entry_ok_def list_all_length)

lemma carry_rules_Inr:
  "carry_rules e rules = Inr rules' \<Longrightarrow> entry_ok e \<Longrightarrow> list_all quota_rule_ok rules \<Longrightarrow>
   list_all quota_rule_ok rules' \<and> map rr_definition rules' = map rr_definition rules"
proof (induction rules arbitrary: rules')
  case Nil
  then show ?case by simp
next
  case (Cons rule rules)
  obtain rule' rest where rest: "carry_rules e rules = Inr rest" and eq: "rules' = rule' # rest"
    and rule': "rule' = rule \<or> (\<exists>previous. entry_rule e (rule_id rule) = Some previous
      \<and> qr_Kind (rr_definition previous) = qr_Kind (rr_definition rule)
      \<and> qr_PeriodSeconds (rr_definition previous) = qr_PeriodSeconds (rr_definition rule)
      \<and> rule' = cloneRuntimeState rule previous)"
    using Cons.prems(1) by (auto simp: Let_def split: option.splits if_splits sum.splits)
  have "definition_ok (rr_definition rule)" using Cons.prems(3) by (simp add: quota_rule_ok_def)
  then have "quota_rule_ok rule' \<and> rr_definition rule' = rr_definition rule"
    using rule' Cons.prems(3) clone_ok entry_rule_ok [OF Cons.prems(2)] by (auto simp: cloneRuntimeState_def)
  with Cons.IH [OF rest Cons.prems(2)] Cons.prems(3) eq show ?case by simp
qed

lemma next_entries_Inr:
  assumes "next_entries old n = Inr entries" and "\<forall>(k, e) \<in> set old. entry_ok e"
    and "distinct (definition_ids n)"
    and "\<forall>(k, rules) \<in> set n. k \<noteq> 0 \<and> rules \<noteq> [] \<and> list_all definition_ok rules"
  shows "keys entries = keys n \<and> all_rule_ids entries = definition_ids n
    \<and> (\<forall>(k, e) \<in> set entries. k \<noteq> 0 \<and> entry_ok e)
    \<and> map (\<lambda>(k, e). (k, definitions e)) entries = n"
  using assms
proof (induction n arbitrary: entries)
  case Nil
  then show ?case by simp
next
  case (Cons p n)
  obtain k rules where p: "p = (k, rules)" by (cases p)
  have rules: "rules \<noteq> []" "list_all definition_ok rules" "k \<noteq> 0" using Cons.prems(4) p by auto
  obtain rules' es where rest: "next_entries old n = Inr es"
    and carried: "(case map_of old k of None \<Rightarrow> Inr (ak_rules (newAccessKeyEntry rules))
        | Some current \<Rightarrow> carry_rules current (ak_rules (newAccessKeyEntry rules))) = Inr rules'"
    and entries: "entries = (k, (newAccessKeyEntry rules)\<lparr>ak_rules := rules'\<rparr>) # es"
    using Cons.prems(1) p rules(1) by (auto simp: Let_def split: sum.splits)
  have news: "list_all quota_rule_ok (map new_rule rules)" using rules(2) new_rule_ok by (simp add: list_all_iff)
  have "list_all quota_rule_ok rules' \<and> map rr_definition rules' = map rr_definition (map new_rule rules)"
  proof (cases "map_of old k")
    case None
    with carried news show ?thesis by simp
  next
    case (Some current)
    then have "entry_ok current" using Cons.prems(2) by (auto dest: map_of_SomeD)
    with carried Some news carry_rules_Inr show ?thesis by auto
  qed
  then have ok: "list_all quota_rule_ok rules'" and defs: "map rr_definition rules' = rules"
    by (simp_all add: comp_def new_rule_def)
  have e: "entry_ok ((newAccessKeyEntry rules)\<lparr>ak_rules := rules'\<rparr>)"
    using entry_ok_from_definitions [OF defs ok] Cons.prems(3) p by simp
  from Cons.IH [OF rest Cons.prems(2)] Cons.prems(3,4) p entries e defs rules show ?case
    by (auto simp: comp_def)
qed

lemma Reconcile_cases:
  assumes inv: "quota_inv r" and wf: "wf_map defs" and rec: "Reconcile defs r = (err, r')"
  shows "quota_inv r' \<and> (err \<noteq> None \<longrightarrow> r' = r)
    \<and> (err = None \<longrightarrow> (\<exists>n. normalizeDefinitions defs = Inr n
         \<and> map (\<lambda>(k, e). (k, definitions e)) (rt_entries r') = n) \<and> \<not> rt_restorePending r')"
proof (cases "normalizeDefinitions defs")
  case (Inl e)
  with inv rec show ?thesis by (auto simp: Reconcile_def)
next
  case (Inr n)
  note n = normalizeDefinitions_Inr [OF Inr wf]
  show ?thesis
  proof (cases "err = None")
    case False
    with rec Inr inv show ?thesis by (auto simp: Reconcile_def split: sum.splits if_splits)
  next
    case True
    have "\<exists>entries. rt_entries r' = entries \<and> keys entries = keys n \<and> all_rule_ids entries = definition_ids n
      \<and> (\<forall>(k, e) \<in> set entries. k \<noteq> 0 \<and> entry_ok e) \<and> map (\<lambda>(k, e). (k, definitions e)) entries = n
      \<and> (rt_restored r' = rt_restored r \<or> rt_restored r' = []) \<and> \<not> rt_restorePending r'"
    proof (cases "rt_restorePending r")
      case True
      then obtain entries where es: "entriesFromRestore n (rt_restored r) = Inr entries"
        and r': "r' = r\<lparr>rt_entries := entries, rt_restored := [], rt_restorePending := False\<rparr>"
        using rec Inr \<open>err = None\<close> by (auto simp: Reconcile_def split: sum.splits)
      then have "restore_entries n (rt_restored r) = Inr (entries, [])"
        by (auto simp: entriesFromRestore_def split: sum.splits if_splits)
      moreover have "\<forall>(k, rules) \<in> set n. k \<noteq> 0 \<and> list_all definition_ok rules" using n by auto
      moreover have "restored_ok (rt_restored r)" using inv by (simp add: quota_inv_def)
      ultimately show ?thesis using restore_entries_Inr n r' by simp
    next
      case False
      then obtain entries where es: "next_entries (rt_entries r) n = Inr entries" and r': "r' = r\<lparr>rt_entries := entries\<rparr>"
        using rec Inr \<open>err = None\<close> by (auto simp: Reconcile_def split: sum.splits)
      moreover have "\<forall>(k, e) \<in> set (rt_entries r). entry_ok e" using inv by (auto simp: quota_inv_def)
      ultimately show ?thesis using next_entries_Inr [OF es] n False by simp
    qed
    with n inv Inr True show ?thesis by (auto simp: quota_inv_def restored_ok_def)
  qed
qed

section \<open>Runs of the runtime\<close>

text \<open>
  A run interleaves the calls with the tickets that are outstanding. A rule
  identifier and revision name one kind of rule for ever (\<open>kinds\<close>): the control
  plane gives a rule a new revision when it changes its kind or period.
\<close>

type_synonym quota_system = "Runtime \<times> Ticket list"

inductive quota_step :: "(nat \<Rightarrow> uint64 \<Rightarrow> Kind) \<Rightarrow> quota_system \<Rightarrow> quota_system \<Rightarrow> bool"
  for kinds :: "nat \<Rightarrow> uint64 \<Rightarrow> Kind" where
  restore: "list_all state_int64 states \<Longrightarrow> Restore states r = (err, r') \<Longrightarrow> quota_step kinds (r, ts) (r', ts)"
| reconcile: "wf_map defs \<Longrightarrow> (\<forall>(k, rules) \<in> set defs. \<forall>d \<in> set rules. qr_Kind d = kinds (qr_ID d) (qr_Revision d)) \<Longrightarrow>
    Reconcile defs r = (err, r') \<Longrightarrow> quota_step kinds (r, ts) (r', ts)"
| admit: "clock_ok now \<Longrightarrow> Admit k now r = ((ticket, decision), r') \<Longrightarrow> quota_step kinds (r, ts) (r', ticket # ts)"
| complete: "ticket \<in> set ts \<Longrightarrow> int64 cost \<Longrightarrow> Complete ticket cost r = (fault, r') \<Longrightarrow>
    quota_step kinds (r, ts) (r', remove1 ticket ts)"
| ack: "quota_step kinds (r, ts) (Ack k ruleID revision version r, ts)"
| notifier: "quota_step kinds (r, ts) (SetDirtyNotifier b r, ts)"

definition kinds_agree :: "(nat \<Rightarrow> uint64 \<Rightarrow> Kind) \<Rightarrow> Runtime \<Rightarrow> bool" where
  "kinds_agree kinds r \<longleftrightarrow> (\<forall>(k, e) \<in> set (rt_entries r). \<forall>d \<in> set (definitions e).
     qr_Kind d = kinds (qr_ID d) (qr_Revision d))"

definition ticket_ok :: "(nat \<Rightarrow> uint64 \<Rightarrow> Kind) \<Rightarrow> Ticket \<Rightarrow> bool" where
  "ticket_ok kinds t \<longleftrightarrow> distinct (map tr_RuleID (ti_Rules t)) \<and> (\<forall>l \<in> set (ti_Rules t).
     kinds (tr_RuleID l) (tr_RuleRevision l) = KindPeriodic \<longrightarrow> tr_WindowGeneration l \<noteq> 0)"

definition system_inv :: "(nat \<Rightarrow> uint64 \<Rightarrow> Kind) \<Rightarrow> quota_system \<Rightarrow> bool" where
  "system_inv kinds s \<longleftrightarrow> quota_inv (fst s) \<and> kinds_agree kinds (fst s) \<and> (\<forall>t \<in> set (snd s). ticket_ok kinds t)"

lemma ticket_fits:
  assumes "kinds_agree kinds r" and "ticket_ok kinds t" and "map_of (rt_entries r) k = Some e"
  shows "list_all (line_fits (definitions e)) (ti_Rules t)"
  using assms map_of_SomeD [OF assms(3)]
  by (fastforce simp: list_all_iff line_fits_def kinds_agree_def ticket_ok_def)

lemma kinds_agree_put:
  assumes "kinds_agree kinds r" and "map_of (rt_entries r) k = Some e" and "definitions e' = definitions e"
  shows "kinds_agree kinds (put_entry k e' r)"
proof -
  have old: "\<forall>d \<in> set (definitions x). qr_Kind d = kinds (qr_ID d) (qr_Revision d)" if "(j, x) \<in> set (rt_entries r)" for j x
    using assms(1) that unfolding kinds_agree_def by blast
  have "\<forall>d \<in> set (definitions x). qr_Kind d = kinds (qr_ID d) (qr_Revision d)"
    if "(j, x) \<in> set (AList.update k e' (rt_entries r))" for j x
  proof (cases "(j, x) = (k, e')")
    case True
    with old [OF map_of_SomeD [OF assms(2)]] assms(3) show ?thesis by (metis prod.inject)
  next
    case False
    with that set_update_subset [of k e' "rt_entries r"] old show ?thesis by blast
  qed
  then show ?thesis unfolding kinds_agree_def put_entry_def by (simp del: set_map) blast
qed

lemma kinds_agree_entries: "rt_entries r' = rt_entries r \<Longrightarrow> kinds_agree kinds r' = kinds_agree kinds r"
  by (simp add: kinds_agree_def)

text \<open>The tickets of an admission carry the generation of an open window.\<close>

lemma open_window_generation:
  assumes "quota_rule_ok r" and "qr_Kind (rr_definition r) = KindPeriodic" and "clock_ok now"
  shows "rr_windowGeneration (open_window now r) \<noteq> 0"
proof -
  have "quota_rule_ok (open_window now r)" using open_window_ok assms by simp
  moreover have "rr_windowStartedAtMS (open_window now r) \<noteq> None"
    using assms(2) by (auto simp: open_window_def opens_window_def periodicInactive_def advanceVersion_def split: option.splits)
  ultimately show ?thesis by (auto simp: quota_rule_ok_def window_ok_def split: if_splits)
qed

lemma Admit_cases:
  assumes inv: "quota_inv r" and clock: "clock_ok now" and adm: "Admit k now r = ((ticket, decision), r')"
  shows "rt_entries r' = rt_entries r \<and> ti_Rules ticket = [] \<and> ti_AccessKeyID ticket = k \<or>
    (\<exists>e. map_of (rt_entries r) k = Some e \<and> entry_ok e \<and> qd_Allowed (decisionLocked e (UnixMilli now))
       \<and> decision = allowedDecision
       \<and> ticket = \<lparr>ti_AccessKeyID = k, ti_Rules = map (\<lambda>r. ticket_rule (open_window now r)) (ak_rules e)\<rparr>
       \<and> rt_entries r' = AList.update k (e\<lparr>ak_rules := map (open_window now) (ak_rules e)\<rparr>) (rt_entries r))"
proof (cases "lockEntry k r")
  case None
  with adm show ?thesis by (auto simp: Admit_def)
next
  case (Some e)
  note e = lockEntry_Some [OF inv Some]
  show ?thesis
  proof (cases "qd_Allowed (decisionLocked e (UnixMilli now))")
    case True
    with adm Some e show ?thesis
      by (auto simp: Admit_def Let_def put_entry_def notifyDirty_def comp_def split: if_splits)
  next
    case False
    with adm Some show ?thesis by (auto simp: Admit_def)
  qed
qed

lemma normalize_definitions_subset:
  "normalize_from g defs = Inr n \<Longrightarrow> (k, rules) \<in> set n \<Longrightarrow> \<exists>source. (k, source) \<in> set defs \<and> set rules = set source"
proof (induction g defs arbitrary: n rule: normalize_from.induct)
  case (2 g j source rest)
  show ?case
  proof (cases "source = []")
    case True
    with 2 show ?thesis by (auto split: if_splits)
  next
    case False
    with 2(3) obtain g' n' where "j \<noteq> 0" "validateRules j source g = Inr g'" "normalize_from g' rest = Inr n'"
      and n: "n = (j, sortRules source) # n'"
      by (auto split: if_splits sum.splits)
    with 2(2) False have IH: "(k, rules) \<in> set n' \<Longrightarrow> \<exists>source. (k, source) \<in> set rest \<and> set rules = set source" by blast
    show ?thesis
    proof (cases "(k, rules) \<in> set n'")
      case True
      then obtain src where "(k, src) \<in> set rest" "set rules = set src" using IH by blast
      then show ?thesis by auto
    next
      case False
      with 2(4) n have "k = j" "set rules = set source" by auto
      then show ?thesis by auto
    qed
  qed
qed simp

lemma quota_step_inv:
  assumes inv: "system_inv kinds s" and step: "quota_step kinds s s'"
  shows "system_inv kinds s'"
  using step inv
proof cases
  case (restore states r err r' ts)
  then have "rt_entries r' = rt_entries r" by (auto simp: Restore_def split: sum.splits if_splits)
  with restore inv Restore_inv show ?thesis by (auto simp: system_inv_def cong: kinds_agree_entries)
next
  case (reconcile defs r err r' ts)
  note c = Reconcile_cases [OF _ reconcile(3,5)]
  have "kinds_agree kinds r'" if inv_r: "quota_inv r" and "kinds_agree kinds r"
  proof (cases "err = None")
    case False
    with c [OF that(1)] that show ?thesis by auto
  next
    case True
    then obtain n where n: "normalize_from Map.empty defs = Inr n" and
      entries: "map (\<lambda>(k, e). (k, definitions e)) (rt_entries r') = n"
      using c [OF inv_r] by (auto simp: normalizeDefinitions_def)
    have "qr_Kind d = kinds (qr_ID d) (qr_Revision d)"
      if e: "(k, e) \<in> set (rt_entries r')" and d: "d \<in> set (definitions e)" for k e d
    proof -
      have "(k, definitions e) \<in> set n" using e entries by force
      with normalize_definitions_subset [OF n] obtain source where "(k, source) \<in> set defs" "d \<in> set source"
        using d by blast
      with reconcile(4) show ?thesis by fastforce
    qed
    then show ?thesis unfolding kinds_agree_def by blast
  qed
  with reconcile inv c show ?thesis by (auto simp: system_inv_def)
next
  case (admit now k r ticket decision r' ts)
  have r: "quota_inv r" "kinds_agree kinds r" using inv admit by (simp_all add: system_inv_def)
  have r': "quota_inv r'" using Admit_inv r(1) admit by blast
  from Admit_cases [OF r(1) admit(3,4)] show ?thesis
  proof (elim disjE exE conjE)
    assume "rt_entries r' = rt_entries r" "ti_Rules ticket = []"
    with r r' inv admit show ?thesis by (auto simp: system_inv_def ticket_ok_def cong: kinds_agree_entries)
  next
    fix e
    assume e: "map_of (rt_entries r) k = Some e" "entry_ok e"
      and t: "ticket = \<lparr>ti_AccessKeyID = k, ti_Rules = map (\<lambda>r. ticket_rule (open_window now r)) (ak_rules e)\<rparr>"
      and es: "rt_entries r' = AList.update k (e\<lparr>ak_rules := map (open_window now) (ak_rules e)\<rparr>) (rt_entries r)"
    have "kinds_agree kinds (put_entry k (e\<lparr>ak_rules := map (open_window now) (ak_rules e)\<rparr>) r)"
      using r(2) e(1) by (rule kinds_agree_put) (simp add: comp_def)
    then have "kinds_agree kinds r'" by (simp add: kinds_agree_def put_entry_def es)
    moreover have "ticket_ok kinds ticket"
    proof -
      have "rr_windowGeneration (open_window now x) \<noteq> 0"
        if "x \<in> set (ak_rules e)" "kinds (rule_id x) (qr_Revision (rr_definition x)) = KindPeriodic" for x
      proof -
        have "qr_Kind (rr_definition x) = KindPeriodic"
          using that r(2) map_of_SomeD [OF e(1)] unfolding kinds_agree_def by force
        moreover have "quota_rule_ok x" using that e(2) by (simp add: entry_ok_def list_all_iff)
        ultimately show ?thesis using open_window_generation admit(3) by blast
      qed
      moreover have "distinct (map rule_id (ak_rules e))" using e(2) by (simp add: entry_ok_def)
      ultimately show ?thesis by (auto simp: ticket_ok_def t ticket_rule_def comp_def)
    qed
    ultimately show ?thesis using r' inv admit by (auto simp: system_inv_def)
  qed
next
  case (complete ticket ts cost r fault r')
  have r: "quota_inv r" "kinds_agree kinds r" "ticket_ok kinds ticket"
    using inv complete by (auto simp: system_inv_def)
  have "quota_inv r' \<and> kinds_agree kinds r'"
  proof (cases "lockEntry (ti_AccessKeyID ticket) r = None \<or> ti_Rules ticket = []")
    case True
    with Complete_unchanged complete r show ?thesis by auto
  next
    case False
    then obtain e where e: "lockEntry (ti_AccessKeyID ticket) r = Some e" by auto
    note lock = lockEntry_Some [OF r(1) e]
    let ?e = "e\<lparr>ak_rules := map (charge_lines cost (ti_Rules ticket)) (ak_rules e)\<rparr>"
    have c: "quota_inv r'" "rt_entries r' = AList.update (ti_AccessKeyID ticket) ?e (rt_entries r)"
      using Complete_entry [OF r(1) complete(4) e _ ticket_fits [OF r(2,3)] complete(5)] lock False by auto
    have "kinds_agree kinds (put_entry (ti_AccessKeyID ticket) ?e r)"
      using r(2) lock by (auto intro!: kinds_agree_put simp: comp_def)
    then have "kinds_agree kinds r'" by (simp add: kinds_agree_def put_entry_def c(2))
    with c(1) show ?thesis by simp
  qed
  with complete inv show ?thesis by (auto simp: system_inv_def dest: notin_set_remove1)
next
  case (ack r ts k ruleID revision version)
  then have r: "quota_inv r" "kinds_agree kinds r" using inv by (simp_all add: system_inv_def)
  from r(1) have "kinds_agree kinds (Ack k ruleID revision version r)"
  proof (cases rule: Ack_cases [where k = k and ruleID = ruleID and revision = revision and version = version])
    case 1
    with r show ?thesis by simp
  next
    case (2 e i)
    show ?thesis unfolding 2(7)
      by (rule kinds_agree_put [OF r(2) 2(1)]) (simp add: definitions_dirty [OF 2(3)])
  qed
  with r inv ack Ack_inv show ?thesis by (simp add: system_inv_def)
next
  case (notifier r ts b)
  with inv show ?thesis by (simp add: system_inv_def SetDirtyNotifier_def quota_inv_def kinds_agree_def)
qed

interpretation quota: invariant_system "quota_step kinds" "system_inv kinds" for kinds
  by standard (rule quota_step_inv)

lemma NewRuntime_inv: "system_inv kinds (NewRuntime, [])"
  by (simp add: system_inv_def NewRuntime_def quota_inv_def kinds_agree_def restored_ok_def)

section \<open>Decisions\<close>

definition exhausted :: "runtimeRule \<Rightarrow> int \<Rightarrow> bool" where
  "exhausted r nowMS \<longleftrightarrow> rv_Status (ruleViewLocked r nowMS) = RuleStatusExhausted"

lemma exhausted_iff:
  "exhausted r nowMS \<longleftrightarrow> qr_LimitNanoUSD (rr_definition r) \<le> rr_usedNanoUSD r
     \<and> \<not> (qr_Kind (rr_definition r) = KindPeriodic \<and> periodicInactive r nowMS)"
  by (simp add: exhausted_def ruleViewLocked_def Let_def)

definition blocked_total :: "runtimeRule list \<Rightarrow> int \<Rightarrow> bool" where
  "blocked_total rs nowMS \<longleftrightarrow> (\<exists>r \<in> set rs. exhausted r nowMS \<and> qr_Kind (rr_definition r) = KindTotal)"

lemma exhausted_ends: "exhausted r nowMS \<Longrightarrow> rv_WindowEndsAtMS (ruleViewLocked r nowMS) = rr_windowEndsAtMS r"
  by (auto simp: exhausted_def ruleViewLocked_def Let_def split: if_splits)

lemma decision_loop_spec:
  assumes "list_all quota_rule_ok rs" and "decision_loop rs nowMS (d, n) = (d', n')"
  shows "(qd_Allowed d' \<longleftrightarrow> qd_Allowed d \<and> (\<forall>r \<in> set rs. \<not> exhausted r nowMS))
    \<and> (qd_Recoverable d' \<longleftrightarrow> qd_Recoverable d \<and> \<not> blocked_total rs nowMS)
    \<and> (qd_NextAvailableAtMS d = None \<longrightarrow> qd_NextAvailableAtMS d' = None)
    \<and> qd_BlockingRules d' = qd_BlockingRules d @ map (\<lambda>r. ruleViewLocked r nowMS) (filter (\<lambda>r. exhausted r nowMS) rs)
    \<and> n \<le> n'
    \<and> (\<forall>r \<in> set rs. \<forall>x. qd_Recoverable d' \<and> exhausted r nowMS \<and> rr_windowEndsAtMS r = Some x \<longrightarrow> x \<le> n')
    \<and> (n' = n \<or> (\<exists>r \<in> set rs. exhausted r nowMS \<and> rr_windowEndsAtMS r = Some n'))"
  using assms
proof (induction rs arbitrary: d n)
  case Nil
  then show ?case by (auto simp: blocked_total_def)
next
  case (Cons r rs)
  have total_ends: "rr_windowEndsAtMS r = None" if "qr_Kind (rr_definition r) = KindTotal"
    using Cons.prems(1) that by (auto simp: quota_rule_ok_def window_ok_def split: if_splits)
  show ?case
  proof (cases "exhausted r nowMS")
    case False
    then have "decision_loop rs nowMS (d, n) = (d', n')" using Cons.prems(2) by (simp add: exhausted_def Let_def)
    from Cons.IH [OF _ this] Cons.prems(1) False show ?thesis by (auto simp: blocked_total_def)
  next
    case True
    define d1 where "d1 = d\<lparr>qd_Allowed := False, qd_BlockingRules := qd_BlockingRules d @ [ruleViewLocked r nowMS]\<rparr>"
    show ?thesis
    proof (cases "qr_Kind (rr_definition r) = KindTotal")
      case total: True
      define d2 where "d2 = d1\<lparr>qd_Recoverable := False, qd_NextAvailableAtMS := None\<rparr>"
      have "decision_loop rs nowMS (d2, n) = (d', n')"
        using Cons.prems(2) True total by (simp add: exhausted_def Let_def d1_def d2_def)
      from Cons.IH [OF _ this] Cons.prems(1) True total total_ends show ?thesis
        by (auto simp: blocked_total_def d1_def d2_def)
    next
      case periodic: False
      define n1 where "n1 = (case rr_windowEndsAtMS r of None \<Rightarrow> n
        | Some ends \<Rightarrow> if qd_Recoverable d \<and> ends > n then ends else n)"
      have "decision_loop rs nowMS (d1, n1) = (d', n')"
        using Cons.prems(2) True periodic exhausted_ends [OF True]
        by (auto simp: exhausted_def Let_def d1_def n1_def split: option.splits)
      note IH = Cons.IH [OF _ this]
      have "list_all quota_rule_ok rs" using Cons.prems(1) by simp
      note IH = IH [OF this]
      have n1: "n \<le> n1" "n1 = n \<or> rr_windowEndsAtMS r = Some n1"
        "qd_Recoverable d \<Longrightarrow> rr_windowEndsAtMS r = Some x \<Longrightarrow> x \<le> n1" for x
        by (auto simp: n1_def split: option.splits if_splits)
      have d1: "qd_Recoverable d1 = qd_Recoverable d" "qd_NextAvailableAtMS d1 = qd_NextAvailableAtMS d"
        "\<not> qd_Allowed d1" "qd_BlockingRules d1 = qd_BlockingRules d @ [ruleViewLocked r nowMS]"
        by (simp_all add: d1_def)
      have "n \<le> n'" using IH n1(1) by linarith
      moreover have "x \<le> n'" if "qd_Recoverable d'" "rr_windowEndsAtMS r = Some x" for x
        using that IH n1(3) d1 by force
      moreover have "n' = n \<or> (\<exists>s \<in> set (r # rs). exhausted s nowMS \<and> rr_windowEndsAtMS s = Some n')"
        using IH n1(2) True by auto
      ultimately show ?thesis using IH d1 True periodic by (auto simp: blocked_total_def)
    qed
  qed
qed

lemma periodic_end_pos:
  assumes "quota_rule_ok r" and "rr_windowEndsAtMS r = Some x"
  shows "0 < x"
proof -
  have "qr_Kind (rr_definition r) = KindPeriodic \<and> 0 \<le> the (rr_windowStartedAtMS r)
      \<and> x = the (rr_windowStartedAtMS r) + qr_PeriodSeconds (rr_definition r) * 1000"
    using assms by (auto simp: quota_rule_ok_def window_ok_def split: if_splits)
  moreover then have "60 \<le> qr_PeriodSeconds (rr_definition r)"
    using assms(1) by (simp add: quota_rule_ok_def definition_ok_def MinPeriodSeconds_def)
  ultimately show ?thesis by linarith
qed

lemma periodic_exhausted_end:
  "quota_rule_ok r \<Longrightarrow> exhausted r nowMS \<Longrightarrow> qr_Kind (rr_definition r) \<noteq> KindTotal \<Longrightarrow>
   \<exists>x. rr_windowEndsAtMS r = Some x \<and> nowMS < x"
  by (auto simp: exhausted_iff quota_rule_ok_def definition_ok_def periodicInactive_def split: option.splits)

lemma decisionLocked_spec:
  fixes nowMS :: int
  assumes ok: "list_all quota_rule_ok (ak_rules e)"
  defines "d \<equiv> decisionLocked e nowMS"
  shows "qd_Allowed d \<longleftrightarrow> (\<forall>r \<in> set (ak_rules e). \<not> exhausted r nowMS)"
    and "qd_Recoverable d \<longleftrightarrow> \<not> blocked_total (ak_rules e) nowMS"
    and "qd_BlockingRules d = map (\<lambda>r. ruleViewLocked r nowMS) (filter (\<lambda>r. exhausted r nowMS) (ak_rules e))"
    and "\<not> qd_Allowed d \<Longrightarrow> qd_Recoverable d \<Longrightarrow> \<exists>next. qd_NextAvailableAtMS d = Some next
      \<and> (\<exists>r \<in> set (ak_rules e). exhausted r nowMS \<and> rr_windowEndsAtMS r = Some next)
      \<and> (\<forall>r \<in> set (ak_rules e). \<forall>x. exhausted r nowMS \<and> rr_windowEndsAtMS r = Some x \<longrightarrow> x \<le> next)"
    and "qd_Allowed d \<or> \<not> qd_Recoverable d \<Longrightarrow> qd_NextAvailableAtMS d = None"
proof -
  obtain d1 n where loop: "decision_loop (ak_rules e) nowMS (allowedDecision, 0) = (d1, n)" by fastforce
  note spec = decision_loop_spec [OF ok loop]
  have d: "d = (if \<not> qd_Allowed d1 \<and> qd_Recoverable d1 \<and> 0 < n then d1\<lparr>qd_NextAvailableAtMS := Some n\<rparr> else d1)"
    by (simp add: d_def decisionLocked_def loop)
  have same: "qd_Allowed d = qd_Allowed d1" "qd_Recoverable d = qd_Recoverable d1" "qd_BlockingRules d = qd_BlockingRules d1"
    by (simp_all add: d)
  show "qd_Allowed d \<longleftrightarrow> (\<forall>r \<in> set (ak_rules e). \<not> exhausted r nowMS)"
    and "qd_Recoverable d \<longleftrightarrow> \<not> blocked_total (ak_rules e) nowMS"
    and "qd_BlockingRules d = map (\<lambda>r. ruleViewLocked r nowMS) (filter (\<lambda>r. exhausted r nowMS) (ak_rules e))"
    using spec unfolding same by (simp_all add: allowedDecision_def)
  show "qd_Allowed d \<or> \<not> qd_Recoverable d \<Longrightarrow> qd_NextAvailableAtMS d = None"
    using spec unfolding same by (auto simp: d allowedDecision_def)
  assume blocked: "\<not> qd_Allowed d" "qd_Recoverable d"
  then obtain r where r: "r \<in> set (ak_rules e)" "exhausted r nowMS" "qr_Kind (rr_definition r) \<noteq> KindTotal"
    using spec unfolding same by (auto simp: allowedDecision_def blocked_total_def)
  have rules_ok: "quota_rule_ok s" if "s \<in> set (ak_rules e)" for s using ok that by (simp add: list_all_iff)
  obtain x where x: "rr_windowEndsAtMS r = Some x" using periodic_exhausted_end [OF rules_ok] r by blast
  then have "0 < x" "x \<le> n"
    using periodic_end_pos [OF rules_ok [OF r(1)]] spec r blocked unfolding same by auto
  then have n: "0 < n" by simp
  moreover have "\<exists>r \<in> set (ak_rules e). exhausted r nowMS \<and> rr_windowEndsAtMS r = Some n" using spec n by auto
  ultimately show "\<exists>next. qd_NextAvailableAtMS d = Some next
      \<and> (\<exists>r \<in> set (ak_rules e). exhausted r nowMS \<and> rr_windowEndsAtMS r = Some next)
      \<and> (\<forall>r \<in> set (ak_rules e). \<forall>x. exhausted r nowMS \<and> rr_windowEndsAtMS r = Some x \<longrightarrow> x \<le> next)"
    using spec blocked unfolding same by (intro exI [of _ n]) (auto simp: d)
qed

text \<open>With no completion in between, exhaustion of a rule only ends, and at its window end.\<close>

lemma exhausted_later:
  assumes "quota_rule_ok r" and "nowMS \<le> laterMS"
  shows "exhausted r laterMS \<longleftrightarrow> exhausted r nowMS \<and> (\<forall>x. rr_windowEndsAtMS r = Some x \<longrightarrow> laterMS < x)"
  using assms
  by (auto simp: exhausted_iff periodicInactive_def quota_rule_ok_def definition_ok_def window_ok_def
      split: option.splits if_splits)

section \<open>Properties\<close>

text \<open>
  Property C22. In every state the runtime reaches, a refusal names exactly the
  exhausted rules, says that waiting helps exactly when no total limit is among
  them, and then gives the instant at which it does: until that instant the key
  stays refused, and from it on, as long as nothing else is charged, it is
  admitted.
\<close>

theorem quota_refusal_is_exact:
  assumes reach: "(quota_step kinds)\<^sup>*\<^sup>* (NewRuntime, []) (r, ts)"
    and e: "map_of (rt_entries r) k = Some e"
    and refused: "\<not> qd_Allowed (Check k now r)"
    and later: "UnixMilli now \<le> UnixMilli now'"
  shows "map rv_Rule (qd_BlockingRules (Check k now r))
      = map rr_definition (filter (\<lambda>rule. exhausted rule (UnixMilli now)) (ak_rules e))
    \<and> (qd_Recoverable (Check k now r) \<longleftrightarrow> \<not> blocked_total (ak_rules e) (UnixMilli now))
    \<and> (\<not> qd_Recoverable (Check k now r) \<longrightarrow> \<not> qd_Allowed (Check k now' r))
    \<and> (qd_Recoverable (Check k now r) \<longrightarrow> (\<exists>next. qd_NextAvailableAtMS (Check k now r) = Some next
         \<and> UnixMilli now < next \<and> (qd_Allowed (Check k now' r) \<longleftrightarrow> next \<le> UnixMilli now')))"
proof -
  have inv: "quota_inv r" using quota.steps_inv [OF reach NewRuntime_inv] by (simp add: system_inv_def)
  then have ok: "list_all quota_rule_ok (ak_rules e)" and "k \<noteq> 0"
    using map_of_SomeD [OF e] by (auto simp: quota_inv_def entry_ok_def)
  then have check: "Check k t r = decisionLocked e (UnixMilli t)" for t
    using e by (simp add: Check_def lockEntry_def)
  have rule_ok: "quota_rule_ok x" if "x \<in> set (ak_rules e)" for x using ok that by (simp add: list_all_iff)
  note now = decisionLocked_spec [OF ok, of "UnixMilli now"]
  have allowed': "qd_Allowed (Check k now' r) \<longleftrightarrow> (\<forall>x \<in> set (ak_rules e). \<not> exhausted x (UnixMilli now'))"
    using decisionLocked_spec(1) [OF ok] by (simp add: check)
  have "rv_Rule (ruleViewLocked x n) = rr_definition x" for x n by (simp add: ruleViewLocked_def Let_def)
  then have blocking: "map rv_Rule (qd_BlockingRules (Check k now r))
      = map rr_definition (filter (\<lambda>rule. exhausted rule (UnixMilli now)) (ak_rules e))"
    by (simp add: check now(3) comp_def)
  have total: "\<not> qd_Allowed (Check k now' r)" if blocked: "blocked_total (ak_rules e) (UnixMilli now)"
  proof -
    obtain x where x: "x \<in> set (ak_rules e)" "exhausted x (UnixMilli now)" "qr_Kind (rr_definition x) = KindTotal"
      using blocked by (auto simp: blocked_total_def)
    then have "exhausted x (UnixMilli now')" by (simp add: exhausted_iff)
    with x allowed' show ?thesis by blast
  qed
  have "\<exists>next. qd_NextAvailableAtMS (Check k now r) = Some next \<and> UnixMilli now < next
      \<and> (qd_Allowed (Check k now' r) \<longleftrightarrow> next \<le> UnixMilli now')" if rec: "qd_Recoverable (Check k now r)"
  proof -
    obtain n x where n: "qd_NextAvailableAtMS (Check k now r) = Some n" and x: "x \<in> set (ak_rules e)"
      "exhausted x (UnixMilli now)" "rr_windowEndsAtMS x = Some n"
      and max: "\<forall>y \<in> set (ak_rules e). \<forall>z. exhausted y (UnixMilli now) \<and> rr_windowEndsAtMS y = Some z \<longrightarrow> z \<le> n"
      using now(4) refused rec unfolding check by blast
    have periodic: "qr_Kind (rr_definition y) \<noteq> KindTotal" if "y \<in> set (ak_rules e)" "exhausted y (UnixMilli now)" for y
      using rec that now(2) by (auto simp: check blocked_total_def)
    have "UnixMilli now < n" using periodic_exhausted_end [OF rule_ok [OF x(1)] x(2) periodic [OF x(1,2)]] x(3) by auto
    moreover have "exhausted y (UnixMilli now') \<Longrightarrow> UnixMilli now' < n" if y: "y \<in> set (ak_rules e)" for y
    proof -
      assume ex': "exhausted y (UnixMilli now')"
      then have ex: "exhausted y (UnixMilli now)" using exhausted_later [OF rule_ok [OF y] later] by blast
      obtain z where z: "rr_windowEndsAtMS y = Some z" using periodic_exhausted_end [OF rule_ok [OF y] ex periodic [OF y ex]] by blast
      then have "UnixMilli now' < z" using ex' exhausted_later [OF rule_ok [OF y] later] by blast
      with max y ex z show ?thesis by force
    qed
    moreover have "exhausted x (UnixMilli now')" if "UnixMilli now' < n"
      using exhausted_later [OF rule_ok [OF x(1)] later] x that by simp
    ultimately have "qd_Allowed (Check k now' r) \<longleftrightarrow> n \<le> UnixMilli now'"
      unfolding allowed' using x(1) by (meson leD linorder_not_le)
    with n \<open>UnixMilli now < n\<close> show ?thesis by blast
  qed
  with blocking total now(2) show ?thesis by (auto simp: check)
qed

text \<open>A key with one hourly limit: reconciled, one request admitted, and its cost charged.\<close>

definition sample_definitions :: "(nat, QuotaRule list) gomap" where
  "sample_definitions = [(7, [\<lparr>qr_ID = 3, qr_Revision = 1, qr_Kind = KindPeriodic, qr_LimitNanoUSD = 100,
     qr_PeriodSeconds = 3600\<rparr>])]"

definition sample_now :: time where
  "sample_now = unix_epoch + 1000 * Second"

definition sample_reconciled :: Runtime where
  "sample_reconciled = snd (Reconcile sample_definitions NewRuntime)"

definition sample_ticket :: Ticket where
  "sample_ticket = fst (fst (Admit 7 sample_now sample_reconciled))"

definition sample_admitted :: Runtime where
  "sample_admitted = snd (Admit 7 sample_now sample_reconciled)"

definition sample_charged :: Runtime where
  "sample_charged = snd (Complete sample_ticket 250 sample_admitted)"

lemma sample_steps:
  "(quota_step (\<lambda>_ _. KindPeriodic))\<^sup>*\<^sup>* (NewRuntime, []) (sample_reconciled, [])"
  "(quota_step (\<lambda>_ _. KindPeriodic))\<^sup>*\<^sup>* (NewRuntime, []) (sample_admitted, [sample_ticket])"
  "(quota_step (\<lambda>_ _. KindPeriodic))\<^sup>*\<^sup>* (NewRuntime, []) (sample_charged, [])"
proof -
  let ?step = "quota_step (\<lambda>_ _. KindPeriodic)"
  have "?step (NewRuntime, []) (sample_reconciled, [])"
    by (rule quota_step.reconcile [where defs = sample_definitions and err = "fst (Reconcile sample_definitions NewRuntime)"])
      (simp_all add: sample_definitions_def sample_reconciled_def)
  then show a: "?step\<^sup>*\<^sup>* (NewRuntime, []) (sample_reconciled, [])" by (rule r_into_rtranclp)
  have "?step (sample_reconciled, []) (sample_admitted, [sample_ticket])"
  proof (rule quota_step.admit [where now = sample_now and k = 7 and decision = "snd (fst (Admit 7 sample_now sample_reconciled))"])
    show "clock_ok sample_now" by code_simp
  qed (simp add: sample_admitted_def sample_ticket_def)
  with a show b: "?step\<^sup>*\<^sup>* (NewRuntime, []) (sample_admitted, [sample_ticket])" by (rule rtranclp.rtrancl_into_rtrancl)
  have "?step (sample_admitted, [sample_ticket]) (sample_charged, remove1 sample_ticket [sample_ticket])"
    by (rule quota_step.complete [where cost = 250 and fault = "fst (Complete sample_ticket 250 sample_admitted)"])
      (simp_all add: sample_charged_def int64_defs)
  with b show "?step\<^sup>*\<^sup>* (NewRuntime, []) (sample_charged, [])" by (simp add: rtranclp.rtrancl_into_rtrancl)
qed

lemma sample_entry: "map_of (rt_entries sample_charged) 7 = Some (the (map_of (rt_entries sample_charged) 7))"
proof -
  have "map_option (\<lambda>e. length (ak_rules e)) (map_of (rt_entries sample_charged) 7) = Some 1" by code_simp
  then show ?thesis by auto
qed

theorem quota_refusal_is_exact_witness:
  "\<exists>next. qd_NextAvailableAtMS (Check 7 (sample_now + Second) sample_charged) = Some next
     \<and> (qd_Allowed (Check 7 (sample_now + 3700 * Second) sample_charged) \<longleftrightarrow> next \<le> UnixMilli (sample_now + 3700 * Second))"
proof -
  have refused: "\<not> qd_Allowed (Check 7 (sample_now + Second) sample_charged)" by code_simp
  have rec: "qd_Recoverable (Check 7 (sample_now + Second) sample_charged)" by code_simp
  have "UnixMilli (sample_now + Second) \<le> UnixMilli (sample_now + 3700 * Second)" by code_simp
  from quota_refusal_is_exact [OF sample_steps(3) sample_entry refused this] rec show ?thesis by blast
qed

text \<open>
  Property C15. Admission. Whenever a request of a limited key is admitted, no rule
  was exhausted; afterwards every periodic window of the key is open and contains
  the instant of the request, a window that was already open keeps its usage and
  a new one starts at zero, and the ticket names every rule with the generation
  of that window.
\<close>

theorem quota_admission_sound:
  assumes reach: "(quota_step kinds)\<^sup>*\<^sup>* (NewRuntime, []) (r, ts)" and clock: "clock_ok now"
    and e: "map_of (rt_entries r) k = Some e"
    and adm: "Admit k now r = ((ticket, decision), r')" and allowed: "qd_Allowed decision"
  shows "\<exists>e'. map_of (rt_entries r') k = Some e' \<and> length (ak_rules e') = length (ak_rules e)
    \<and> ti_Rules ticket = map ticket_rule (ak_rules e')
    \<and> (\<forall>i < length (ak_rules e). \<not> exhausted (ak_rules e ! i) (UnixMilli now)
        \<and> rr_definition (ak_rules e' ! i) = rr_definition (ak_rules e ! i)
        \<and> rr_usedNanoUSD (ak_rules e' ! i) < qr_LimitNanoUSD (rr_definition (ak_rules e ! i))
        \<and> (if opens_window (ak_rules e ! i) (UnixMilli now)
           then rr_usedNanoUSD (ak_rules e' ! i) = 0
             \<and> rr_windowStartedAtMS (ak_rules e' ! i) = Some (UnixMilli now)
             \<and> rr_windowEndsAtMS (ak_rules e' ! i)
                 = Some (UnixMilli now + qr_PeriodSeconds (rr_definition (ak_rules e ! i)) * 1000)
           else ak_rules e' ! i = ak_rules e ! i))"
proof -
  have inv: "quota_inv r" using quota.steps_inv [OF reach NewRuntime_inv] by (simp add: system_inv_def)
  have k: "k \<noteq> 0" and ok: "entry_ok e" using inv map_of_SomeD [OF e] by (auto simp: quota_inv_def)
  then have rules: "list_all quota_rule_ok (ak_rules e)" by (simp add: entry_ok_def)
  have lock: "lockEntry k r = Some e" using e k by (simp add: lockEntry_def)
  define e' where "e' = e\<lparr>ak_rules := map (open_window now) (ak_rules e)\<rparr>"
  have dec: "qd_Allowed (decisionLocked e (UnixMilli now))"
    using adm allowed lock by (auto simp: Admit_def Let_def split: if_splits)
  then have free: "\<not> exhausted x (UnixMilli now)" if "x \<in> set (ak_rules e)" for x
    using decisionLocked_spec(1) [OF rules] that by simp
  have r': "rt_entries r' = AList.update k e' (rt_entries r)" and t: "ti_Rules ticket = map ticket_rule (ak_rules e')"
    using adm lock dec by (auto simp: Admit_def Let_def e'_def put_entry_def notifyDirty_def split: if_splits)
  have window: "rr_usedNanoUSD (open_window now x) < qr_LimitNanoUSD (rr_definition x)
      \<and> (if opens_window x (UnixMilli now)
         then rr_usedNanoUSD (open_window now x) = 0 \<and> rr_windowStartedAtMS (open_window now x) = Some (UnixMilli now)
           \<and> rr_windowEndsAtMS (open_window now x) = Some (UnixMilli now + qr_PeriodSeconds (rr_definition x) * 1000)
         else open_window now x = x)" if x: "x \<in> set (ak_rules e)" for x
  proof (cases "opens_window x (UnixMilli now)")
    case True
    then have "0 \<le> qr_PeriodSeconds (rr_definition x)" "qr_PeriodSeconds (rr_definition x) \<le> MaxPeriodSeconds"
      "0 < qr_LimitNanoUSD (rr_definition x)"
      using rules x by (auto simp: list_all_iff quota_rule_ok_def definition_ok_def MinPeriodSeconds_def opens_window_def)
    with window_end_milli [OF clock] True show ?thesis by (simp add: open_window_def advanceVersion_def)
  next
    case False
    with free [OF x] show ?thesis by (auto simp: open_window_def exhausted_iff opens_window_def)
  qed
  show ?thesis
    by (rule exI [of _ e'], use r' t window free in \<open>auto simp: e'_def\<close>)
qed

theorem quota_admission_sound_witness:
  "\<exists>e'. map_of (rt_entries sample_admitted) 7 = Some e' \<and> ti_Rules sample_ticket = map ticket_rule (ak_rules e')"
proof -
  have clock: "clock_ok sample_now" by code_simp
  have "map_option (\<lambda>e. length (ak_rules e)) (map_of (rt_entries sample_reconciled) 7) = Some 1" by code_simp
  then obtain e where e: "map_of (rt_entries sample_reconciled) 7 = Some e" by auto
  have adm: "Admit 7 sample_now sample_reconciled
      = ((sample_ticket, snd (fst (Admit 7 sample_now sample_reconciled))), sample_admitted)"
    by (simp add: sample_admitted_def sample_ticket_def)
  have "qd_Allowed (snd (fst (Admit 7 sample_now sample_reconciled)))" by code_simp
  from quota_admission_sound [OF sample_steps(1) clock e adm this] show ?thesis by blast
qed

subsection \<open>Charges\<close>

lemma charge_lines_none: "\<forall>t \<in> set ts. tr_RuleID t \<noteq> rule_id r \<Longrightarrow> charge_lines cost ts r = r"
  by (induction ts) (auto simp: line_matches_def)

lemma charge_lines_once:
  assumes "distinct (map tr_RuleID ts)"
  shows "charge_lines cost ts r = (if \<exists>t \<in> set ts. line_matches t r then charge cost r else r)"
  using assms
proof (induction ts)
  case (Cons t ts)
  show ?case
  proof (cases "line_matches t r")
    case True
    then have "rule_id r = tr_RuleID t" by (simp add: line_matches_def)
    moreover have "tr_RuleID t \<notin> tr_RuleID ` set ts" using Cons.prems by simp
    ultimately have "\<forall>u \<in> set ts. tr_RuleID u \<noteq> rule_id r" by (metis image_eqI)
    then have "charge_lines cost ts (charge cost r) = charge cost r" by (intro charge_lines_none) simp
    with True show ?thesis by simp
  next
    case False
    with Cons show ?thesis by simp
  qed
qed simp

text \<open>
  Property C16. Accounting. Completing an outstanding ticket adds the cost to
  exactly the rules the request was admitted under, once each and saturating at
  the largest 64-bit amount; a rule that was redefined or whose window has been
  replaced since, and every rule of another key, is untouched. A negative
  estimate exhausts the rules instead of crediting them.
\<close>

theorem quota_charges_admitted_rules:
  assumes reach: "(quota_step kinds)\<^sup>*\<^sup>* (NewRuntime, []) (r, ts)" and ticket: "ticket \<in> set ts"
    and cost: "int64 cost" and e: "map_of (rt_entries r) k = Some e"
    and res: "Complete ticket cost r = (fault, r')"
  shows "\<exists>e'. map_of (rt_entries r') k = Some e' \<and> length (ak_rules e') = length (ak_rules e)
    \<and> (\<forall>i < length (ak_rules e). let x = ak_rules e ! i; x' = ak_rules e' ! i in
        rr_definition x' = rr_definition x \<and>
        (if ti_AccessKeyID ticket = k \<and> (\<exists>t \<in> set (ti_Rules ticket). line_matches t x)
         then rr_usedNanoUSD x' = (if cost < 0 then MaxInt64 else min MaxInt64 (rr_usedNanoUSD x + cost))
         else x' = x))"
proof -
  have sys: "system_inv kinds (r, ts)" using quota.steps_inv [OF reach NewRuntime_inv] .
  then have inv: "quota_inv r" and agree: "kinds_agree kinds r" and tok: "ticket_ok kinds ticket"
    using ticket by (auto simp: system_inv_def)
  have charged: "rr_usedNanoUSD (charge cost x) = (if cost < 0 then MaxInt64 else min MaxInt64 (rr_usedNanoUSD x + cost))" for x
    by (simp add: charge_def Let_def advanceVersion_def)
  show ?thesis
  proof (cases "ti_AccessKeyID ticket = k \<and> ti_Rules ticket \<noteq> []")
    case True
    have "k \<noteq> 0" using inv map_of_SomeD [OF e] by (auto simp: quota_inv_def)
    then have lock: "lockEntry (ti_AccessKeyID ticket) r = Some e" using True e by (simp add: lockEntry_def)
    have "rt_entries r' = AList.update k (e\<lparr>ak_rules := map (charge_lines cost (ti_Rules ticket)) (ak_rules e)\<rparr>) (rt_entries r)"
      using Complete_entry [OF inv cost lock _ ticket_fits [OF agree tok e] res] True by simp
    moreover have "distinct (map tr_RuleID (ti_Rules ticket))" using tok by (simp add: ticket_ok_def)
    ultimately show ?thesis
      using True by (simp add: charge_lines_once charged Let_def)
  next
    case False
    have "map_of (rt_entries r') k = Some e"
    proof (cases "lockEntry (ti_AccessKeyID ticket) r = None \<or> ti_Rules ticket = []")
      case True
      with Complete_unchanged res e show ?thesis by auto
    next
      case other: False
      then obtain e2 where e2: "lockEntry (ti_AccessKeyID ticket) r = Some e2" by auto
      with lockEntry_Some [OF inv e2] ticket_fits [OF agree tok] Complete_entry [OF inv cost e2 _ _ res] other False e
      show ?thesis by auto
    qed
    with False show ?thesis by (intro exI [of _ e]) auto
  qed
qed

theorem quota_charges_admitted_rules_witness:
  "\<exists>e'. map_of (rt_entries sample_charged) 7 = Some e' \<and> length (ak_rules e') = 1"
proof -
  have "map_option (\<lambda>e. length (ak_rules e)) (map_of (rt_entries sample_admitted) 7) = Some 1" by code_simp
  then obtain e where e: "map_of (rt_entries sample_admitted) 7 = Some e" "length (ak_rules e) = 1" by auto
  have res: "Complete sample_ticket 250 sample_admitted
      = (fst (Complete sample_ticket 250 sample_admitted), sample_charged)"
    by (simp add: sample_charged_def)
  have "int64 250" by (simp add: int64_defs)
  from quota_charges_admitted_rules [OF sample_steps(2) _ this e(1) res] e(2) show ?thesis by auto
qed

text \<open>
  No charge is lost to a late acknowledgement. If a completion changes
  a rule after its snapshot was taken, acknowledging the older snapshot leaves the
  rule marked for the next checkpoint, with its new amount.
\<close>

theorem quota_late_ack_keeps_charge:
  assumes reach: "(quota_step kinds)\<^sup>*\<^sup>* (NewRuntime, []) (r, ts)" and ticket: "ticket \<in> set ts"
    and cost: "int64 cost" and e: "map_of (rt_entries r) k = Some e" and i: "i < length (ak_rules e)"
    and res: "Complete ticket cost r = (fault, r')" and e': "map_of (rt_entries r') k = Some e'"
    and changed: "ak_rules e' ! i \<noteq> ak_rules e ! i" and version: "rr_snapshotVersion (ak_rules e ! i) < MaxUint64"
  shows "let snapshot = restoredState k (ak_rules e ! i)
    in Ack k (rs_RuleID snapshot) (rs_RuleRevision snapshot) (rs_SnapshotVersion snapshot) r' = r'
       \<and> rr_dirty (ak_rules e' ! i)"
proof -
  have sys: "system_inv kinds (r, ts)" using quota.steps_inv [OF reach NewRuntime_inv] .
  then have inv: "quota_inv r" and agree: "kinds_agree kinds r" and tok: "ticket_ok kinds ticket"
    using ticket by (auto simp: system_inv_def)
  have lines: "\<not> (lockEntry (ti_AccessKeyID ticket) r = None \<or> ti_Rules ticket = [])"
  proof
    assume "lockEntry (ti_AccessKeyID ticket) r = None \<or> ti_Rules ticket = []"
    then have "r' = r" using Complete_unchanged res by simp
    with e e' changed show False by simp
  qed
  then obtain e2 where e2: "lockEntry (ti_AccessKeyID ticket) r = Some e2" by auto
  note lock = lockEntry_Some [OF inv e2]
  have c: "quota_inv r'" "rt_entries r' = AList.update (ti_AccessKeyID ticket)
      (e2\<lparr>ak_rules := map (charge_lines cost (ti_Rules ticket)) (ak_rules e2)\<rparr>) (rt_entries r)"
    using Complete_entry [OF inv cost e2 _ _ res] lock lines ticket_fits [OF agree tok] by auto
  have k: "ti_AccessKeyID ticket = k" using c(2) e e' changed by (auto split: if_splits)
  then have "e2 = e" using lock e by simp
  then have "ak_rules e' ! i = charge_lines cost (ti_Rules ticket) (ak_rules e ! i)"
    using c(2) e' k i by auto
  moreover have "distinct (map tr_RuleID (ti_Rules ticket))" using tok by (simp add: ticket_ok_def)
  ultimately have x': "ak_rules e' ! i = charge cost (ak_rules e ! i)"
    using changed by (auto simp: charge_lines_once split: if_splits)
  then have newer: "rr_snapshotVersion (ak_rules e' ! i) \<noteq> rr_snapshotVersion (ak_rules e ! i)"
    and dirty: "rr_dirty (ak_rules e' ! i)"
    using changed version word_Suc_mono [OF version] by (auto simp: charge_def Let_def advanceVersion_def split: if_splits)
  have i': "i < length (ak_rules e')" and id: "rule_id (ak_rules e' ! i) = rule_id (ak_rules e ! i)"
    using c(2) e' k i \<open>e2 = e\<close> x' by auto
  have ok': "entry_ok e'" using c(1) map_of_SomeD [OF e'] by (auto simp: quota_inv_def)
  have "ak_byID e' (rule_id (ak_rules e ! i)) = Some i" using entry_index [OF ok'] i' id by simp
  then have "Ack k (rule_id (ak_rules e ! i)) revision (rr_snapshotVersion (ak_rules e ! i)) r' = r'" for revision
    using e' newer by (auto simp: Ack_def lockEntry_def Let_def split: option.split)
  with dirty show ?thesis by (simp add: restoredState_def)
qed

theorem quota_late_ack_keeps_charge_witness:
  "\<exists>e. map_of (rt_entries sample_admitted) 7 = Some e
     \<and> Ack 7 3 1 (rr_snapshotVersion (ak_rules e ! 0)) sample_charged = sample_charged"
proof -
  have "map_option (\<lambda>e. (length (ak_rules e), rr_usedNanoUSD (ak_rules e ! 0), rule_id (ak_rules e ! 0),
      qr_Revision (rr_definition (ak_rules e ! 0)), rr_snapshotVersion (ak_rules e ! 0)))
      (map_of (rt_entries sample_admitted) 7) = Some (1, 0, 3, 1, 2)" by code_simp
  then obtain e where e: "map_of (rt_entries sample_admitted) 7 = Some e" "length (ak_rules e) = 1"
      "rr_usedNanoUSD (ak_rules e ! 0) = 0" "rule_id (ak_rules e ! 0) = 3" "qr_Revision (rr_definition (ak_rules e ! 0)) = 1"
      "rr_snapshotVersion (ak_rules e ! 0) = 2"
    by auto
  have "map_option (\<lambda>e. rr_usedNanoUSD (ak_rules e ! 0)) (map_of (rt_entries sample_charged) 7) = Some 250" by code_simp
  then obtain e' where e': "map_of (rt_entries sample_charged) 7 = Some e'" "rr_usedNanoUSD (ak_rules e' ! 0) = 250"
    by auto
  have res: "Complete sample_ticket 250 sample_admitted
      = (fst (Complete sample_ticket 250 sample_admitted), sample_charged)"
    by (simp add: sample_charged_def)
  have cost: "int64 250" by (simp add: int64_defs)
  have "(2 :: uint64) < MaxUint64" by code_simp
  then have version: "rr_snapshotVersion (ak_rules e ! 0) < MaxUint64" using e by simp
  have changed: "ak_rules e' ! 0 \<noteq> ak_rules e ! 0" using e(3) e'(2) by auto
  from quota_late_ack_keeps_charge [OF sample_steps(2) _ cost e(1) _ res e'(1) changed version] e show ?thesis
    by (auto simp: restoredState_def Let_def)
qed

section \<open>Restart\<close>

definition all_states :: "Runtime \<Rightarrow> RestoredState list" where
  "all_states r = concat (map (\<lambda>(k, e). map (restoredState k) (ak_rules e)) (rt_entries r))"

definition clean :: "runtimeRule \<Rightarrow> runtimeRule" where
  "clean rule = rule\<lparr>rr_dirty := False\<rparr>"

lemma restoredState_valid:
  assumes "quota_rule_ok x" and "k \<noteq> 0"
  shows "validateRestoredState (restoredState k x) = None"
proof (cases "rr_windowStartedAtMS x")
  case None
  with assms show ?thesis
    by (auto simp: validateRestoredState_def restoredState_def quota_rule_ok_def definition_ok_def window_ok_def split: if_splits)
next
  case (Some a)
  then have "0 \<le> a" "rr_windowEndsAtMS x = Some (a + qr_PeriodSeconds (rr_definition x) * 1000)"
    "60 \<le> qr_PeriodSeconds (rr_definition x)"
    using assms by (auto simp: quota_rule_ok_def window_ok_def definition_ok_def MinPeriodSeconds_def split: if_splits)
  with Some assms show ?thesis
    by (simp add: validateRestoredState_def restoredState_def quota_rule_ok_def definition_ok_def)
qed

lemma apply_restoredState:
  assumes "quota_rule_ok x"
  shows "applyRestoredState (new_rule (rr_definition x)) (restoredState k x) = Inr (clean x)"
proof -
  have eq: "(new_rule (rr_definition x))\<lparr>rr_usedNanoUSD := rr_usedNanoUSD x, rr_windowStartedAtMS := rr_windowStartedAtMS x,
      rr_windowEndsAtMS := rr_windowEndsAtMS x, rr_windowGeneration := rr_windowGeneration x,
      rr_snapshotVersion := rr_snapshotVersion x\<rparr> = clean x"
    by (simp add: new_rule_def clean_def)
  show ?thesis
  proof (cases "rr_windowStartedAtMS x")
    case None
    with assms eq show ?thesis
      by (auto simp: applyRestoredState_def restoredState_def Let_def quota_rule_ok_def definition_ok_def window_ok_def
          new_rule_def)
  next
    case (Some a)
    with assms eq show ?thesis
      by (simp add: applyRestoredState_def restoredState_def Let_def quota_rule_ok_def window_ok_def go_time new_rule_def)
  qed
qed

lemma restore_states_map:
  assumes "list_all (\<lambda>s. validateRestoredState s = None) states" and "distinct (map rs_RuleID states)"
    and "set (map rs_RuleID states) \<inter> set (keys m) = {}" and "wf_map m"
  shows "\<exists>m'. restore_states states m = Inr m' \<and> wf_map m'
    \<and> set (keys m') = set (keys m) \<union> set (map rs_RuleID states)
    \<and> (\<forall>s \<in> set states. map_of m' (rs_RuleID s) = Some s)
    \<and> (\<forall>x. x \<notin> set (map rs_RuleID states) \<longrightarrow> map_of m' x = map_of m x)"
  using assms
proof (induction states arbitrary: m)
  case Nil
  then show ?case by simp
next
  case (Cons s states)
  let ?m = "AList.update (rs_RuleID s) s m"
  have new: "map_of m (rs_RuleID s) = None" using Cons.prems(3) by (auto simp: map_of_eq_None_iff)
  have keys: "set (keys ?m) = insert (rs_RuleID s) (set (keys m))"
    by (metis dom_map_of_conv_image_fst dom_fun_upd map_of_update option.discI set_map)
  obtain m' where "restore_states states ?m = Inr m'" "wf_map m'"
    "set (keys m') = set (keys ?m) \<union> set (map rs_RuleID states)"
    "\<forall>s \<in> set states. map_of m' (rs_RuleID s) = Some s"
    "\<forall>x. x \<notin> set (map rs_RuleID states) \<longrightarrow> map_of m' x = map_of ?m x"
    using Cons.IH [of ?m] Cons.prems keys by auto
  moreover have "rs_RuleID s \<notin> set (map rs_RuleID states)" using Cons.prems(2) by simp
  ultimately show ?case using Cons.prems(1) new keys by auto
qed

lemma restore_rules_back:
  assumes "list_all quota_rule_ok xs" and "distinct (map rule_id xs)" and "wf_map m"
    and "\<forall>x \<in> set xs. map_of m (rule_id x) = Some (restoredState k x)"
  shows "\<exists>m'. restore_rules k (map (\<lambda>x. new_rule (rr_definition x)) xs) m = Inr (map clean xs, m') \<and> wf_map m'
    \<and> map_of m' = (\<lambda>j. if j \<in> set (map rule_id xs) then None else map_of m j)"
  using assms
proof (induction xs arbitrary: m)
  case Nil
  then show ?case by simp
next
  case (Cons x xs)
  let ?m = "AList.delete (rule_id x) m"
  have fresh: "rule_id x \<notin> set (map rule_id xs)" using Cons.prems(2) by simp
  have "rule_id y \<noteq> rule_id x" if "y \<in> set xs" for y using fresh that by (auto simp: image_iff)
  then have "\<forall>y \<in> set xs. map_of ?m (rule_id y) = Some (restoredState k y)"
    using Cons.prems(4) by simp
  then obtain m' where rest: "restore_rules k (map (\<lambda>x. new_rule (rr_definition x)) xs) ?m = Inr (map clean xs, m')"
    "wf_map m'" "map_of m' = (\<lambda>j. if j \<in> set (map rule_id xs) then None else map_of ?m j)"
    using Cons.IH [of ?m] Cons.prems by auto
  have x: "map_of m (rule_id x) = Some (restoredState k x)" using Cons.prems(4) by simp
  have id: "rr_definition (new_rule (rr_definition x)) = rr_definition x" by (simp add: new_rule_def)
  have st: "rs_AccessKeyID (restoredState k x) = k" "rs_RuleRevision (restoredState k x) = qr_Revision (rr_definition x)"
    by (simp_all add: restoredState_def)
  have "restore_rules k (map (\<lambda>x. new_rule (rr_definition x)) (x # xs)) m = Inr (map clean (x # xs), m')"
    using rest(1) x apply_restoredState [of x k] Cons.prems(1) by (simp add: Let_def id st)
  moreover have "map_of m' = (\<lambda>j. if j \<in> set (map rule_id (x # xs)) then None else map_of m j)"
    using rest(3) by (auto simp: fun_eq_iff)
  ultimately show ?case using rest(2) by blast
qed

definition clean_entry :: "accessKeyEntry \<Rightarrow> accessKeyEntry" where
  "clean_entry e = e\<lparr>ak_rules := map clean (ak_rules e)\<rparr>"

lemma entry_byID_unique:
  assumes "entry_ok e"
  shows "(newAccessKeyEntry (definitions e))\<lparr>ak_rules := rs\<rparr> = e\<lparr>ak_rules := rs\<rparr>"
proof -
  have dist: "distinct (map qr_ID (definitions e))" using assms by (simp add: entry_ok_def comp_def)
  have "index_rules 0 (definitions e) Map.empty x = ak_byID e x" for x
  proof -
    have "index_rules 0 (definitions e) Map.empty x = Some i \<longleftrightarrow> ak_byID e x = Some i" for i
      using index_rules_Some [OF dist, of 0 Map.empty x i] entry_index [OF assms, of x i] by auto
    then show ?thesis by (metis option.exhaust)
  qed
  then have "ak_byID (newAccessKeyEntry (definitions e)) = ak_byID e" by (simp add: newAccessKeyEntry_def fun_eq_iff)
  then show ?thesis by (cases e; cases "newAccessKeyEntry (definitions e)") simp
qed

lemma restore_entries_back:
  assumes "distinct (all_rule_ids es)" and "\<forall>(k, e) \<in> set es. k \<noteq> 0 \<and> entry_ok e" and "wf_map m"
    and "\<forall>(k, e) \<in> set es. \<forall>x \<in> set (ak_rules e). map_of m (rule_id x) = Some (restoredState k x)"
  shows "\<exists>m'. restore_entries (map (\<lambda>(k, e). (k, definitions e)) es) m
      = Inr (map (\<lambda>(k, e). (k, clean_entry e)) es, m') \<and> wf_map m'
    \<and> map_of m' = (\<lambda>j. if j \<in> set (all_rule_ids es) then None else map_of m j)"
  using assms
proof (induction es arbitrary: m)
  case Nil
  then show ?case by simp
next
  case (Cons p es)
  obtain k e where p: "p = (k, e)" by (cases p)
  have e: "entry_ok e" "k \<noteq> 0" using Cons.prems(2) p by auto
  obtain m1 where m1: "restore_rules k (map (\<lambda>x. new_rule (rr_definition x)) (ak_rules e)) m = Inr (map clean (ak_rules e), m1)"
    "wf_map m1" "map_of m1 = (\<lambda>j. if j \<in> set (map rule_id (ak_rules e)) then None else map_of m j)"
    using restore_rules_back [of "ak_rules e" m k] e Cons.prems(3,4) p by (auto simp: entry_ok_def)
  have dist: "set (map rule_id (ak_rules e)) \<inter> set (all_rule_ids es) = {}" "distinct (all_rule_ids es)"
    using Cons.prems(1) p by simp_all
  have kept: "map_of m1 (rule_id x) = Some (restoredState j x)" if je: "(j, d) \<in> set es" and x: "x \<in> set (ak_rules d)" for j d x
  proof -
    have "rule_id x \<in> set (all_rule_ids es)" using je x by (force simp: all_rule_ids_def)
    then have "rule_id x \<notin> set (map rule_id (ak_rules e))" using dist by blast
    with m1(3) Cons.prems(4) je x show ?thesis by fastforce
  qed
  obtain m' where m': "restore_entries (map (\<lambda>(k, e). (k, definitions e)) es) m1
      = Inr (map (\<lambda>(k, e). (k, clean_entry e)) es, m')" "wf_map m'"
    "map_of m' = (\<lambda>j. if j \<in> set (all_rule_ids es) then None else map_of m1 j)"
    using Cons.IH [OF dist(2) _ m1(2)] Cons.prems(2) kept by auto
  have "restore_entries (map (\<lambda>(k, e). (k, definitions e)) (p # es)) m
      = Inr (map (\<lambda>(k, e). (k, clean_entry e)) (p # es), m')"
    using m1(1) m'(1) p entry_byID_unique [OF e(1), of "map clean (ak_rules e)"]
    by (simp add: Let_def comp_def clean_entry_def)
  moreover have "map_of m' = (\<lambda>j. if j \<in> set (all_rule_ids (p # es)) then None else map_of m j)"
    using m1(3) m'(3) p by (auto simp: fun_eq_iff)
  ultimately show ?case using m'(2) by blast
qed

text \<open>
  Property C35. A restart loses nothing. Restoring the states of all rules, in any
  order, into a new runtime and reconciling it with the definitions in force
  succeeds and rebuilds every entry with its usage, windows, generations and
  versions; only the marks for the checkpoint are cleared.
\<close>

theorem quota_restart_roundtrip:
  assumes reach: "(quota_step kinds)\<^sup>*\<^sup>* (NewRuntime, []) (r, ts)"
    and defs: "normalizeDefinitions defs = Inr (map (\<lambda>(k, e). (k, definitions e)) (rt_entries r))"
    and states: "mset states = mset (all_states r)"
  shows "\<exists>r1 r2. Restore states NewRuntime = (None, r1) \<and> Reconcile defs r1 = (None, r2)
    \<and> rt_entries r2 = map (\<lambda>(k, e). (k, clean_entry e)) (rt_entries r) \<and> \<not> rt_restorePending r2"
proof -
  have inv: "quota_inv r" using quota.steps_inv [OF reach NewRuntime_inv] by (simp add: system_inv_def)
  have ok: "\<forall>(k, e) \<in> set (rt_entries r). k \<noteq> 0 \<and> entry_ok e" and ids: "distinct (all_rule_ids (rt_entries r))"
    using inv by (auto simp: quota_inv_def)
  have "map rs_RuleID (all_states r) = all_rule_ids (rt_entries r)"
    by (simp add: all_states_def all_rule_ids_def map_concat comp_def case_prod_unfold restoredState_def)
  then have "mset (map rs_RuleID states) = mset (all_rule_ids (rt_entries r))" using states by (metis mset_map)
  then have dist: "distinct (map rs_RuleID states)" and idset: "set (map rs_RuleID states) = set (all_rule_ids (rt_entries r))"
    using ids by (metis mset_eq_imp_distinct_iff, metis mset_eq_setD)
  have set: "set states = set (all_states r)" using states by (rule mset_eq_setD)
  have valid: "list_all (\<lambda>s. validateRestoredState s = None) states"
    using ok restoredState_valid unfolding list_all_iff set
    by (fastforce simp: all_states_def entry_ok_def list_all_iff)
  obtain m where m: "restore_states states [] = Inr m" "wf_map m" "set (keys m) = set (map rs_RuleID states)"
    "\<forall>s \<in> set states. map_of m (rs_RuleID s) = Some s"
    using restore_states_map [OF valid dist, of "[]"] by auto
  have "map_of m (rule_id x) = Some (restoredState k x)" if "(k, e) \<in> set (rt_entries r)" "x \<in> set (ak_rules e)" for k e x
  proof -
    have "restoredState k x \<in> set states" using that set by (force simp: all_states_def)
    with m(4) have "map_of m (rs_RuleID (restoredState k x)) = Some (restoredState k x)" by blast
    then show ?thesis by (simp add: restoredState_def)
  qed
  then obtain m' where m': "restore_entries (map (\<lambda>(k, e). (k, definitions e)) (rt_entries r)) m
      = Inr (map (\<lambda>(k, e). (k, clean_entry e)) (rt_entries r), m')"
    "map_of m' = (\<lambda>j. if j \<in> set (all_rule_ids (rt_entries r)) then None else map_of m j)"
    using restore_entries_back [OF ids ok m(2)] by blast
  have "map_of m' j = None" for j using m'(2) m(3) idset by (auto simp: map_of_eq_None_iff)
  then have "m' = []" by (metis list.exhaust map_of_eq_None_iff list.set_intros(1) list.simps(9) image_eqI set_map)
  then have entries: "entriesFromRestore (map (\<lambda>(k, e). (k, definitions e)) (rt_entries r)) m
      = Inr (map (\<lambda>(k, e). (k, clean_entry e)) (rt_entries r))"
    by (simp add: entriesFromRestore_def m')
  have r1: "Restore states NewRuntime = (None, NewRuntime\<lparr>rt_restored := m, rt_restorePending := True\<rparr>)"
    by (simp add: Restore_def m(1) NewRuntime_def)
  define r2 where "r2 = NewRuntime\<lparr>rt_entries := map (\<lambda>(k, e). (k, clean_entry e)) (rt_entries r),
    rt_restored := [], rt_restorePending := False\<rparr>"
  have "Reconcile defs (NewRuntime\<lparr>rt_restored := m, rt_restorePending := True\<rparr>) = (None, r2)"
    by (simp add: Reconcile_def defs entries r2_def)
  with r1 show ?thesis by (auto simp: r2_def)
qed

theorem quota_restart_roundtrip_witness:
  "\<exists>r1 r2. Restore (all_states sample_charged) NewRuntime = (None, r1) \<and> Reconcile sample_definitions r1 = (None, r2)
    \<and> rt_entries r2 = map (\<lambda>(k, e). (k, clean_entry e)) (rt_entries sample_charged) \<and> \<not> rt_restorePending r2"
proof -
  have "normalizeDefinitions sample_definitions
      = Inr (map (\<lambda>(k, e). (k, definitions e)) (rt_entries sample_charged))" by code_simp
  from quota_restart_roundtrip [OF sample_steps(3) this refl] show ?thesis .
qed

end
