(* ===== verification/Execution.thy ===== *)
theory Execution
  imports Protocol
begin

text \<open>
  The provider-neutral execution contract (\<open>src/internal/execution/contracts.go\<close>):
  operations and their replay policy, route modes and requirements, dispatch
  states, and the evidence an executor returns for a failed attempt.

  String enumerations are datatypes with the constants of the source; the empty
  string is a constructor where the program gives it a meaning, and any other
  string is the constructor \<open>..._other\<close>.
\<close>

datatype Operation =
    OperationChatCompletion | OperationResponsesCreate | OperationResponsesRetrieve
  | OperationResponsesDelete | OperationResponsesCancel | OperationResponsesInputItems
  | OperationResponsesCompact | OperationResponsesInputTokens | OperationCountTokens
  | OperationResponsesPassthrough | OperationImagesGenerate | OperationImagesEdit
  | OperationEmbeddingsCreate | OperationListModels | OperationProbe | Operation_other string

definition Operation_Valid :: "Operation \<Rightarrow> bool" where
  "Operation_Valid oper = (case oper of Operation_other _ \<Rightarrow> False | _ \<Rightarrow> True)"

datatype ReplayPolicy = ReplayPolicyLegacy | ReplayPolicyRequireRejectedBeforeProcessing

definition Operation_ReplayPolicy :: "Operation \<Rightarrow> ReplayPolicy" where
  "Operation_ReplayPolicy oper =
     (case oper of
        OperationImagesGenerate \<Rightarrow> ReplayPolicyRequireRejectedBeforeProcessing
      | OperationImagesEdit \<Rightarrow> ReplayPolicyRequireRejectedBeforeProcessing
      | OperationEmbeddingsCreate \<Rightarrow> ReplayPolicyRequireRejectedBeforeProcessing
      | _ \<Rightarrow> ReplayPolicyLegacy)"

datatype RouteMode = RouteNative | RouteConverted | RouteMode_other string

definition RouteMode_Valid :: "RouteMode \<Rightarrow> bool" where
  "RouteMode_Valid m \<longleftrightarrow> m = RouteNative \<or> m = RouteConverted"

datatype RouteRequirement =
    RouteRequirementEmpty | RouteRequirementAny | RouteRequirementNative | RouteRequirement_other string

definition RouteRequirement_Normalize :: "RouteRequirement \<Rightarrow> RouteRequirement" where
  "RouteRequirement_Normalize r = (if r = RouteRequirementEmpty then RouteRequirementAny else r)"

definition RouteRequirement_Valid :: "RouteRequirement \<Rightarrow> bool" where
  "RouteRequirement_Valid r =
     (case RouteRequirement_Normalize r of
        RouteRequirementAny \<Rightarrow> True | RouteRequirementNative \<Rightarrow> True | _ \<Rightarrow> False)"

definition RouteRequirement_Allows :: "RouteRequirement \<Rightarrow> RouteMode \<Rightarrow> bool" where
  "RouteRequirement_Allows r mode =
     (if \<not> RouteMode_Valid mode \<or> \<not> RouteRequirement_Valid r then False
      else RouteRequirement_Normalize r = RouteRequirementAny \<or> mode = RouteNative)"

datatype ResponsesStorePreference =
    ResponsesStorePreferenceNone | ResponsesStorePreferencePreferStored | ResponsesStorePreference_other string

definition ResponsesStorePreference_Valid :: "ResponsesStorePreference \<Rightarrow> bool" where
  "ResponsesStorePreference_Valid p \<longleftrightarrow>
     p = ResponsesStorePreferenceNone \<or> p = ResponsesStorePreferencePreferStored"

datatype DispatchState = DispatchNotSent | DispatchMaybeSent | DispatchLocal | DispatchState_other string

definition DispatchState_Valid :: "DispatchState \<Rightarrow> bool" where
  "DispatchState_Valid s \<longleftrightarrow> s = DispatchNotSent \<or> s = DispatchMaybeSent \<or> s = DispatchLocal"

datatype ErrorOrigin =
    ErrorOriginEmpty | ErrorOriginClient | ErrorOriginUpstream | ErrorOriginDownstream
  | ErrorOriginInternal | ErrorOrigin_other string

definition ErrorOrigin_Valid :: "ErrorOrigin \<Rightarrow> bool" where
  "ErrorOrigin_Valid x = (case x of ErrorOrigin_other _ \<Rightarrow> False | _ \<Rightarrow> True)"

datatype ErrorScope =
    ErrorScopeEmpty | ErrorScopeRequest | ErrorScopeModel | ErrorScopeCredential
  | ErrorScopeGroup | ErrorScope_other string

definition ErrorScope_Valid :: "ErrorScope \<Rightarrow> bool" where
  "ErrorScope_Valid x = (case x of ErrorScope_other _ \<Rightarrow> False | _ \<Rightarrow> True)"

datatype ErrorKind =
    ErrorKindTransport | ErrorKindTimeout | ErrorKindCanceled | ErrorKindHTTP | ErrorKindProvider
  | ErrorKindInvalidRequest | ErrorKindConversionUnsupported | ErrorKindInternal | ErrorKind_other string

definition ErrorKind_Valid :: "ErrorKind \<Rightarrow> bool" where
  "ErrorKind_Valid x = (case x of ErrorKind_other _ \<Rightarrow> False | _ \<Rightarrow> True)"

datatype FailureHint =
    FailureHintEmpty | FailureHintInvalidCredential | FailureHintRefreshRequired
  | FailureHintRefreshUnavailable | FailureHintReauthorizationRequired | FailureHintRateLimited
  | FailureHintRequestRejected | FailureHintCandidateUnavailable | FailureHintModelUnavailable
  | FailureHintHostError | FailureHint_other string

definition FailureHint_Valid :: "FailureHint \<Rightarrow> bool" where
  "FailureHint_Valid x = (case x of FailureHint_other _ \<Rightarrow> False | _ \<Rightarrow> True)"

datatype ReplaySafety =
    ReplaySafetyEmpty | ReplaySafetyUnknown | ReplaySafetyRejectedBeforeProcessing | ReplaySafety_other string

definition ReplaySafety_Valid :: "ReplaySafety \<Rightarrow> bool" where
  "ReplaySafety_Valid x \<longleftrightarrow>
     x = ReplaySafetyEmpty \<or> x = ReplaySafetyUnknown \<or> x = ReplaySafetyRejectedBeforeProcessing"

text \<open>Header fields in the (unspecified) order in which the map is ranged over.\<close>

type_synonym Header = "(string, string list) gomap"

record ErrorEvidence =
  ev_Kind :: ErrorKind
  ev_Hint :: FailureHint
  ev_OriginHint :: ErrorOrigin
  ev_ScopeHint :: ErrorScope
  ev_StatusCode :: int
  ev_Type :: string
  ev_Code :: string
  ev_Summary :: string
  ev_RequestID :: string
  ev_RetryAfter :: duration
  ev_ReplaySafety :: ReplaySafety
  ev_Header :: Header

definition UnaryResponseBodyLimit :: "Protocol \<Rightarrow> int" where
  "UnaryResponseBodyLimit clientProtocol =
     (if clientProtocol = OpenAIImages then 64 * 2 ^ 20
      else if clientProtocol = OpenAIEmbeddings then 64 * 2 ^ 20
      else 32 * 2 ^ 20)"

definition SSEEventLimit :: "Protocol \<Rightarrow> int" where
  "SSEEventLimit clientProtocol = (if clientProtocol = OpenAIImages then 32 * 2 ^ 20 else 10 * 2 ^ 20)"

text \<open>\<open>strings.NewReplacer("-", "_", " ", "_")\<close>.\<close>

definition underscore :: "string \<Rightarrow> string" where
  "underscore s = map (\<lambda>c. if c = CHR ''-'' \<or> c = CHR '' '' then CHR ''_'' else c) s"

definition UpstreamCountTokensUnsupported :: "Operation \<Rightarrow> int \<Rightarrow> string \<Rightarrow> string \<Rightarrow> bool" where
  "UpstreamCountTokensUnsupported oper status typeValue codeValue =
     (if oper \<noteq> OperationCountTokens \<and> oper \<noteq> OperationResponsesInputTokens then False
      else if status = 404 \<or> status = 405 \<or> status = 501 then True
      else list_ex (\<lambda>value. underscore (ToLower (TrimSpace value))
              \<in> {''unsupported_operation'', ''operation_not_supported'', ''not_implemented''})
            [typeValue, codeValue])"

lemma replay_policy_iff:
  "Operation_ReplayPolicy oper = ReplayPolicyRequireRejectedBeforeProcessing \<longleftrightarrow>
     oper \<in> {OperationImagesGenerate, OperationImagesEdit, OperationEmbeddingsCreate}"
  by (cases oper) (simp_all add: Operation_ReplayPolicy_def)

text \<open>A native requirement accepts only the native route; every other valid requirement accepts both.\<close>

lemma route_allows_iff:
  "RouteRequirement_Allows r m \<longleftrightarrow>
     (r = RouteRequirementNative \<and> m = RouteNative)
     \<or> (r \<in> {RouteRequirementEmpty, RouteRequirementAny} \<and> m \<in> {RouteNative, RouteConverted})"
  by (cases r; cases m)
    (simp_all add: RouteRequirement_Allows_def RouteMode_Valid_def RouteRequirement_Valid_def
      RouteRequirement_Normalize_def)

end
