(* ===== verification/Health_Judge.thy ===== *)
theory Health_Judge
  imports Execution "HOL-Library.Multiset"
begin

text \<open>
  The judge of execution attempts (\<open>src/internal/health\<close>: \<open>classification.go\<close>,
  \<open>decision.go\<close>, \<open>ratelimit.go\<close>, \<open>execution_judge.go\<close>): from the evidence of one
  attempt it selects a failure category, whether and how the request is retried,
  and the one runtime effect on the credential or group.

  \<open>JudgeExecution\<close> checks that the evidence is present before it calls the
  functions that dereference it, so those take the evidence itself. The parsers
  of the standard library for HTTP dates, RFC 3339 times and durations are
  arguments; every theorem holds whatever they return.
\<close>

section \<open>Categories and decisions\<close>

datatype FailureCategory =
    FailureCategoryAmbiguous | FailureCategoryOK | FailureCategoryRateLimited
  | FailureCategoryModelUnavailable | FailureCategoryInvalidKey | FailureCategoryUpstreamHostError
  | FailureCategoryClientError | FailureCategoryConversionUnsupported | FailureCategoryDownstreamCancel
  | FailureCategoryAuthenticationRequired | FailureCategory_other nat

definition FailureCategory_Valid :: "FailureCategory \<Rightarrow> bool" where
  "FailureCategory_Valid category = (case category of FailureCategory_other _ \<Rightarrow> False | _ \<Rightarrow> True)"

definition FailureCategory_String :: "FailureCategory \<Rightarrow> string" where
  "FailureCategory_String category =
     (case category of
        FailureCategoryOK \<Rightarrow> ''ok''
      | FailureCategoryRateLimited \<Rightarrow> ''rate_limited''
      | FailureCategoryModelUnavailable \<Rightarrow> ''model_unavailable''
      | FailureCategoryInvalidKey \<Rightarrow> ''invalid_key''
      | FailureCategoryUpstreamHostError \<Rightarrow> ''upstream_host_error''
      | FailureCategoryClientError \<Rightarrow> ''client_error''
      | FailureCategoryConversionUnsupported \<Rightarrow> ''conversion_unsupported''
      | FailureCategoryDownstreamCancel \<Rightarrow> ''downstream_cancel''
      | FailureCategoryAuthenticationRequired \<Rightarrow> ''authentication_required''
      | _ \<Rightarrow> ''ambiguous'')"

datatype Action =
    ActionTerminate | ActionRetry | ActionCooldownCredential | ActionFailCredential | ActionSkipGroup

datatype RetryDirective = RetryNone | RetryRefreshCredential | RetryNextCandidate | RetryDirective_other string

datatype Effect =
    EffectNone | EffectCooldownCredential | EffectRecordCredentialFailure | EffectSkipGroup | Effect_other string

type_synonym RuleID = string

definition RetryDirective_Valid :: "RetryDirective \<Rightarrow> bool" where
  "RetryDirective_Valid d \<longleftrightarrow> d = RetryNone \<or> d = RetryRefreshCredential \<or> d = RetryNextCandidate"

definition Effect_Valid :: "Effect \<Rightarrow> bool" where
  "Effect_Valid e \<longleftrightarrow> e = EffectNone \<or> e = EffectCooldownCredential \<or> e = EffectRecordCredentialFailure
     \<or> e = EffectSkipGroup"

record DecisionContext =
  dc_DefaultRateLimitCooldown :: duration
  dc_CredentialRefreshable :: bool
  dc_Method :: string
  dc_Operation :: Operation

record HealthDecision =
  hd_Category :: FailureCategory
  hd_Origin :: ErrorOrigin
  hd_Scope :: ErrorScope
  hd_Retry :: RetryDirective
  hd_Effect :: Effect
  hd_CooldownUntil :: time
  hd_RuleID :: RuleID

definition ShouldRetry :: "HealthDecision \<Rightarrow> bool" where
  "ShouldRetry d \<longleftrightarrow> hd_Retry d = RetryRefreshCredential \<or> hd_Retry d = RetryNextCandidate"

definition LegacyAction :: "HealthDecision \<Rightarrow> Action" where
  "LegacyAction d =
     (case hd_Effect d of
        EffectCooldownCredential \<Rightarrow> ActionCooldownCredential
      | EffectRecordCredentialFailure \<Rightarrow> ActionFailCredential
      | EffectSkipGroup \<Rightarrow> ActionSkipGroup
      | _ \<Rightarrow> if hd_Retry d = RetryRefreshCredential \<or> hd_Retry d = RetryNextCandidate
             then ActionRetry else ActionTerminate)"

datatype DecisionError =
    ErrCategory | ErrOrigin | ErrScope | ErrRetry | ErrEffect | ErrRuleIDRequired | ErrRuleIDLength
  | ErrRuleIDCharacter | ErrCooldownDeadline | ErrCooldownEffect

definition rule_character :: "char \<Rightarrow> bool" where
  "rule_character c \<longleftrightarrow> (97 \<le> (of_char c :: nat) \<and> (of_char c :: nat) \<le> 122)
     \<or> (48 \<le> (of_char c :: nat) \<and> (of_char c :: nat) \<le> 57)
     \<or> c = CHR ''.'' \<or> c = CHR ''_'' \<or> c = CHR ''-''"

definition Decision_Validate :: "HealthDecision \<Rightarrow> DecisionError option" where
  "Decision_Validate d =
     (if \<not> FailureCategory_Valid (hd_Category d) then Some ErrCategory
      else if \<not> ErrorOrigin_Valid (hd_Origin d) then Some ErrOrigin
      else if \<not> ErrorScope_Valid (hd_Scope d) then Some ErrScope
      else if \<not> RetryDirective_Valid (hd_Retry d) then Some ErrRetry
      else if \<not> Effect_Valid (hd_Effect d) then Some ErrEffect
      else if TrimSpace (hd_RuleID d) = [] then Some ErrRuleIDRequired
      else if length (hd_RuleID d) > 128 then Some ErrRuleIDLength
      else if \<not> list_all rule_character (hd_RuleID d) then Some ErrRuleIDCharacter
      else if hd_Effect d = EffectCooldownCredential \<and> IsZero (hd_CooldownUntil d) then Some ErrCooldownDeadline
      else if hd_Effect d \<noteq> EffectCooldownCredential \<and> \<not> IsZero (hd_CooldownUntil d) then Some ErrCooldownEffect
      else None)"

section \<open>Reset headers\<close>

definition maxRateLimitResetDelay :: duration where
  "maxRateLimitResetDelay = Hour"

text \<open>\<open>http.ParseTime\<close>, \<open>time.Parse(time.RFC3339)\<close> and \<open>time.ParseDuration\<close>.\<close>

record TimeParsers =
  tp_HTTPTime :: "string \<Rightarrow> time option"
  tp_RFC3339 :: "string \<Rightarrow> time option"
  tp_Duration :: "string \<Rightarrow> duration option"

definition matchingHeaderValues :: "Header \<Rightarrow> (string \<Rightarrow> bool) \<Rightarrow> string list" where
  "matchingHeaderValues header matches =
     concat (map (\<lambda>(name, entries). if matches (ToLower name) then entries else []) header)"

definition parseRetryAfter :: "TimeParsers \<Rightarrow> string \<Rightarrow> time \<Rightarrow> time option" where
  "parseRetryAfter tp value now =
     (let trimmed = TrimSpace value
      in case ParseInt trimmed of
           Some seconds \<Rightarrow>
             if seconds \<le> 0 \<or> seconds > maxRateLimitResetDelay div Second then None
             else Some (TimeAdd now (wrap64 (seconds * Second)))
         | None \<Rightarrow> tp_HTTPTime tp trimmed)"

definition parseResetValue :: "TimeParsers \<Rightarrow> string \<Rightarrow> time \<Rightarrow> time option" where
  "parseResetValue tp value now =
     (let trimmed = TrimSpace value
      in case tp_RFC3339 tp trimmed of
           Some reset \<Rightarrow> Some reset
         | None \<Rightarrow>
             (case tp_Duration tp trimmed of
                Some d \<Rightarrow> if d \<le> 0 \<or> d > maxRateLimitResetDelay then None else Some (TimeAdd now d)
              | None \<Rightarrow>
                  (case ParseInt trimmed of
                     None \<Rightarrow> None
                   | Some numeric \<Rightarrow>
                       if numeric \<ge> 1000000000000 then Some (unix_epoch + numeric * Millisecond)
                       else if numeric \<ge> 1000000000 then Some (unix_epoch + numeric * Second)
                       else if numeric > 0 \<and> numeric \<le> maxRateLimitResetDelay div Second
                       then Some (TimeAdd now (wrap64 (numeric * Second)))
                       else None)))"

fun latest_reset :: "(string \<Rightarrow> time option) \<Rightarrow> time \<Rightarrow> time \<Rightarrow> time \<Rightarrow> string list \<Rightarrow> time" where
  "latest_reset parse now limit latest [] = latest"
| "latest_reset parse now limit latest (value # values) =
     (case parse value of
        None \<Rightarrow> latest_reset parse now limit latest values
      | Some reset \<Rightarrow>
          if \<not> After reset now \<or> After reset limit then latest_reset parse now limit latest values
          else if IsZero latest \<or> After reset latest then latest_reset parse now limit reset values
          else latest_reset parse now limit latest values)"

definition latestValidReset :: "TimeParsers \<Rightarrow> string list \<Rightarrow> time \<Rightarrow> bool \<Rightarrow> time option" where
  "latestValidReset tp values now retryAfter =
     (let latest = latest_reset (\<lambda>value. if retryAfter then parseRetryAfter tp value now else parseResetValue tp value now)
            now (TimeAdd now maxRateLimitResetDelay) 0 values
      in if IsZero latest then None else Some latest)"

definition is_retry_after :: "string \<Rightarrow> bool" where
  "is_retry_after name \<longleftrightarrow> name = ''retry-after''"

definition is_anthropic_reset :: "string \<Rightarrow> bool" where
  "is_anthropic_reset name \<longleftrightarrow> HasPrefix name ''anthropic-ratelimit-'' \<and> HasSuffix name ''-reset''"

definition is_ratelimit_reset :: "string \<Rightarrow> bool" where
  "is_ratelimit_reset name \<longleftrightarrow> name = ''x-ratelimit-reset'' \<or> HasPrefix name ''x-ratelimit-reset-''"

definition ParseRateLimitReset :: "TimeParsers \<Rightarrow> Header \<Rightarrow> time \<Rightarrow> time option" where
  "ParseRateLimitReset tp header now =
     (case latestValidReset tp (matchingHeaderValues header is_retry_after) now True of
        Some reset \<Rightarrow> Some reset
      | None \<Rightarrow>
          (case latestValidReset tp (matchingHeaderValues header is_anthropic_reset) now False of
             Some reset \<Rightarrow> Some reset
           | None \<Rightarrow> latestValidReset tp (matchingHeaderValues header is_ratelimit_reset) now False))"

section \<open>The judge\<close>

datatype DownstreamErr = DownstreamOK | DownstreamCanceled | DownstreamDeadlineExceeded | DownstreamOther

record ExecutionAttempt =
  at_DispatchState :: DispatchState
  at_StatusCode :: int
  at_Header :: Header
  at_Evidence :: "ErrorEvidence option"
  at_DownstreamCommitted :: bool
  at_DownstreamErr :: DownstreamErr
  at_Now :: time

definition decision ::
  "FailureCategory \<Rightarrow> ErrorOrigin \<Rightarrow> ErrorScope \<Rightarrow> RetryDirective \<Rightarrow> Effect \<Rightarrow> RuleID \<Rightarrow> HealthDecision" where
  "decision category origin scope retry effect ruleID =
     \<lparr>hd_Category = category, hd_Origin = origin, hd_Scope = scope, hd_Retry = retry, hd_Effect = effect,
      hd_CooldownUntil = 0, hd_RuleID = ruleID\<rparr>"

definition normalizeDecisionContext :: "DecisionContext \<Rightarrow> DecisionContext" where
  "normalizeDecisionContext value =
     (if dc_DefaultRateLimitCooldown value \<le> 0 then value\<lparr>dc_DefaultRateLimitCooldown := Minute\<rparr> else value)"

definition originForEvidence :: "ErrorEvidence \<Rightarrow> ErrorOrigin" where
  "originForEvidence ev =
     (if ev_OriginHint ev \<noteq> ErrorOriginEmpty then ev_OriginHint ev
      else case ev_Kind ev of
        ErrorKindTransport \<Rightarrow> ErrorOriginUpstream
      | ErrorKindTimeout \<Rightarrow> ErrorOriginUpstream
      | ErrorKindHTTP \<Rightarrow> ErrorOriginUpstream
      | ErrorKindProvider \<Rightarrow> ErrorOriginUpstream
      | ErrorKindCanceled \<Rightarrow> ErrorOriginDownstream
      | ErrorKindConversionUnsupported \<Rightarrow> ErrorOriginInternal
      | ErrorKindInternal \<Rightarrow> ErrorOriginInternal
      | ErrorKindInvalidRequest \<Rightarrow> ErrorOriginClient
      | ErrorKind_other _ \<Rightarrow> ErrorOriginEmpty)"

definition originForDispatch :: "DispatchState \<Rightarrow> ErrorOrigin" where
  "originForDispatch d =
     (if d = DispatchLocal then ErrorOriginInternal
      else if d = DispatchMaybeSent \<or> d = DispatchNotSent then ErrorOriginUpstream
      else ErrorOriginEmpty)"

definition scopeOrDefault :: "ErrorScope \<Rightarrow> ErrorScope \<Rightarrow> ErrorScope" where
  "scopeOrDefault value fallback = (if value \<noteq> ErrorScopeEmpty then value else fallback)"

definition isSuccessStatus :: "int \<Rightarrow> bool" where
  "isSuccessStatus statusCode \<longleftrightarrow> 200 \<le> statusCode \<and> statusCode < 300"

definition containsAny :: "string \<Rightarrow> string list \<Rightarrow> bool" where
  "containsAny value markers = list_ex (\<lambda>marker. ContainsSub value marker) markers"

definition retryUnlessExplicitlyUnknown :: "ErrorEvidence \<Rightarrow> RetryDirective" where
  "retryUnlessExplicitlyUnknown ev =
     (if ev_ReplaySafety ev = ReplaySafetyUnknown then RetryNone else RetryNextCandidate)"

definition requestMayReplayAfterResponse :: "DecisionContext \<Rightarrow> bool" where
  "requestMayReplayAfterResponse ctx =
     (if ToLower (dc_Method ctx) = ''get'' \<or> ToLower (dc_Method ctx) = ''head'' then True
      else case dc_Operation ctx of
        OperationResponsesRetrieve \<Rightarrow> True
      | OperationResponsesInputItems \<Rightarrow> True
      | OperationResponsesInputTokens \<Rightarrow> True
      | OperationCountTokens \<Rightarrow> True
      | OperationListModels \<Rightarrow> True
      | _ \<Rightarrow> False)"

definition ResponseStarted :: "ExecutionAttempt \<Rightarrow> bool" where
  "ResponseStarted attempt \<longleftrightarrow> at_StatusCode attempt \<noteq> 0
     \<or> (case at_Evidence attempt of None \<Rightarrow> False | Some ev \<Rightarrow> ev_StatusCode ev \<noteq> 0)"

definition candidatePreparationDecision :: "ErrorEvidence \<Rightarrow> HealthDecision option" where
  "candidatePreparationDecision ev =
     (if ev_OriginHint ev \<noteq> ErrorOriginInternal then None
      else if ev_Code ev = ''credential_decrypt_failed'' \<or> ev_Code ev = ''credential_normalization_failed''
              \<or> ev_Code ev = ''credential_proxy_prepare_failed''
      then if ev_ScopeHint ev \<noteq> ErrorScopeCredential then None
           else Some (decision FailureCategoryAmbiguous ErrorOriginInternal (ev_ScopeHint ev)
                        RetryNextCandidate EffectNone (''candidate.'' @ ev_Code ev))
      else if ev_Code ev = ''group_proxy_prepare_failed''
      then if ev_ScopeHint ev \<noteq> ErrorScopeGroup then None
           else Some (decision FailureCategoryAmbiguous ErrorOriginInternal (ev_ScopeHint ev)
                        RetryNextCandidate EffectSkipGroup (''candidate.'' @ ev_Code ev))
      else None)"

definition refreshTemporarilyUnavailableDecision ::
  "ErrorEvidence \<Rightarrow> ExecutionAttempt \<Rightarrow> DecisionContext \<Rightarrow> HealthDecision" where
  "refreshTemporarilyUnavailableDecision ev attempt ctx =
     (let limited = ev_StatusCode ev = 429;
          category = (if limited then FailureCategoryRateLimited else FailureCategoryUpstreamHostError);
          ruleID = (if limited then ''auth.refresh_rate_limited'' else ''auth.refresh_temporarily_unavailable'');
          cooldown0 = (if dc_DefaultRateLimitCooldown ctx \<le> 0 then Minute else dc_DefaultRateLimitCooldown ctx);
          cooldown = (if ev_RetryAfter ev > 0 then ev_RetryAfter ev else cooldown0)
      in (decision category ErrorOriginUpstream ErrorScopeCredential RetryNextCandidate
            EffectCooldownCredential ruleID)\<lparr>hd_CooldownUntil := TimeAdd (at_Now attempt) cooldown\<rparr>)"

definition structuredUnsupportedModelClientError :: "int \<Rightarrow> ErrorEvidence \<Rightarrow> bool" where
  "structuredUnsupportedModelClientError statusCode ev =
     (if statusCode \<noteq> 400 then False
      else list_ex (\<lambda>value. let normalized = ToLower (TrimSpace value)
              in normalized = ''unsupported_model'' \<or> normalized = ''unsupported-model'')
            [ev_Type ev, ev_Code ev])"

definition rate_markers :: "string list" where
  "rate_markers = [''rate_limit'', ''rate limit'', ''too_many_requests'', ''quota_exceeded'',
     ''resource_exhausted'', ''throttl'']"

definition model_markers :: "string list" where
  "model_markers = [''model_not_found'', ''model not found'', ''model_not_available'',
     ''model unavailable'', ''deployment_not_found'', ''unsupported_model'']"

definition key_markers :: "string list" where
  "key_markers = [''invalid_api_key'', ''api_key_invalid'', ''authentication_error'',
     ''authentication failed'', ''invalid credential'', ''api key not valid'']"

definition classify_status :: "int \<Rightarrow> string \<Rightarrow> ErrorEvidence \<Rightarrow> FailureCategory" where
  "classify_status statusCode markers ev =
     (if statusCode = 429 \<or> containsAny markers rate_markers then FailureCategoryRateLimited
      else if statusCode = 401 then FailureCategoryInvalidKey
      else if containsAny markers model_markers then FailureCategoryModelUnavailable
      else if containsAny markers key_markers then FailureCategoryInvalidKey
      else if 500 \<le> statusCode \<and> statusCode \<le> 599 then FailureCategoryUpstreamHostError
      else if 400 \<le> statusCode \<and> statusCode \<le> 499 then FailureCategoryClientError
      else if ev_Kind ev = ErrorKindInvalidRequest then FailureCategoryClientError
      else FailureCategoryAmbiguous)"

definition classifyExecutionEvidence :: "ErrorEvidence \<Rightarrow> ExecutionAttempt \<Rightarrow> FailureCategory" where
  "classifyExecutionEvidence ev attempt =
     (let statusCode = (if at_StatusCode attempt = 0 then ev_StatusCode ev else at_StatusCode attempt)
      in if statusCode = 401 \<and> ev_ReplaySafety ev = ReplaySafetyUnknown \<and> ev_Hint ev = FailureHintEmpty
         then FailureCategoryAmbiguous
         else if structuredUnsupportedModelClientError statusCode ev then FailureCategoryClientError
         else case ev_Hint ev of
           FailureHintInvalidCredential \<Rightarrow> FailureCategoryInvalidKey
         | FailureHintRefreshRequired \<Rightarrow> FailureCategoryAuthenticationRequired
         | FailureHintReauthorizationRequired \<Rightarrow> FailureCategoryAuthenticationRequired
         | FailureHintRateLimited \<Rightarrow> FailureCategoryRateLimited
         | FailureHintRequestRejected \<Rightarrow> FailureCategoryClientError
         | FailureHintCandidateUnavailable \<Rightarrow> FailureCategoryModelUnavailable
         | FailureHintModelUnavailable \<Rightarrow> FailureCategoryModelUnavailable
         | FailureHintHostError \<Rightarrow> FailureCategoryUpstreamHostError
         | _ \<Rightarrow> classify_status statusCode
                  (ToLower (ev_Type ev @ '' '' @ ev_Code ev @ '' '' @ ev_Summary ev)) ev)"

definition transientCapacityDecision :: "ErrorEvidence \<Rightarrow> HealthDecision option" where
  "transientCapacityDecision ev =
     (if ev_ReplaySafety ev \<noteq> ReplaySafetyRejectedBeforeProcessing
         \<or> originForEvidence ev \<noteq> ErrorOriginUpstream
         \<or> (ev_Kind ev \<noteq> ErrorKindHTTP \<and> ev_Kind ev \<noteq> ErrorKindProvider) then None
      else
        let codeValue = ToLower (TrimSpace (ev_Code ev));
            overloaded = codeValue = ''server_is_overloaded'';
            rateLimited = codeValue = ''rate_limit_exceeded''
        in if overloaded = rateLimited then None
           else Some (decision (if rateLimited then FailureCategoryRateLimited else FailureCategoryUpstreamHostError)
                        ErrorOriginUpstream (ev_ScopeHint ev) RetryNextCandidate EffectNone
                        ''candidate.transient_capacity''))"

definition rateLimitDecision ::
  "TimeParsers \<Rightarrow> ErrorEvidence \<Rightarrow> ExecutionAttempt \<Rightarrow> DecisionContext \<Rightarrow> HealthDecision" where
  "rateLimitDecision tp ev attempt ctx =
     (let scope = ev_ScopeHint ev
      in if scope = ErrorScopeRequest \<or> scope = ErrorScopeModel
         then decision FailureCategoryRateLimited (originForEvidence ev) scope RetryNone EffectNone
                ''rate_limit.scoped''
         else
           let ruleID = (if scope = ErrorScopeCredential then ''rate_limit.credential.default_cooldown''
                         else ''legacy.http_429_credential_cooldown'');
               result = decision FailureCategoryRateLimited (originForEvidence ev) scope
                          (retryUnlessExplicitlyUnknown ev) EffectCooldownCredential ruleID
           in if ev_RetryAfter ev > 0
              then result\<lparr>hd_CooldownUntil := TimeAdd (at_Now attempt) (ev_RetryAfter ev),
                          hd_RuleID := ''rate_limit.retry_after''\<rparr>
              else
                let header = (if length (at_Header attempt) = 0 then ev_Header ev else at_Header attempt)
                in case ParseRateLimitReset tp header (at_Now attempt) of
                     Some until \<Rightarrow> result\<lparr>hd_CooldownUntil := until, hd_RuleID := ''rate_limit.reset_header''\<rparr>
                   | None \<Rightarrow> result\<lparr>hd_CooldownUntil :=
                       TimeAdd (at_Now attempt) (dc_DefaultRateLimitCooldown ctx)\<rparr>)"

definition authenticationDecision :: "ErrorEvidence \<Rightarrow> ExecutionAttempt \<Rightarrow> DecisionContext \<Rightarrow> HealthDecision" where
  "authenticationDecision ev attempt ctx =
     (let auth = decision FailureCategoryAuthenticationRequired ErrorOriginUpstream ErrorScopeCredential
      in if at_DispatchState attempt = DispatchMaybeSent
            \<and> ev_ReplaySafety ev \<noteq> ReplaySafetyRejectedBeforeProcessing
         then auth RetryNone EffectNone ''auth.replay_unsafe''
         else if ev_Hint ev = FailureHintRefreshRequired
         then if dc_CredentialRefreshable ctx \<and> ev_ReplaySafety ev = ReplaySafetyRejectedBeforeProcessing
              then auth RetryRefreshCredential EffectNone ''auth.refresh_required''
              else auth RetryNextCandidate EffectNone ''auth.refresh_unavailable''
         else auth RetryNextCandidate EffectNone ''auth.reauthorization_required'')"

definition ambiguousRuleID :: "ErrorEvidence \<Rightarrow> RuleID" where
  "ambiguousRuleID ev =
     (if ev_Code ev = ''upstream_sse_error'' then ''stream.provider_error''
      else if ev_Code ev = ''upstream_stream_terminated'' then ''stream.upstream_terminated''
      else if ev_Code ev = ''upstream_protocol_error'' then ''stream.protocol_error''
      else if ev_Code ev = ''upstream_stream_idle_timeout'' then ''stream.idle_timeout''
      else if ev_Code ev = ''upstream_response_incomplete'' then ''stream.provider_incomplete''
      else ''fallback.ambiguous'')"

definition modelUnavailableDecision :: "ErrorEvidence \<Rightarrow> ExecutionAttempt \<Rightarrow> DecisionContext \<Rightarrow> HealthDecision" where
  "modelUnavailableDecision ev attempt ctx =
     (let scope = scopeOrDefault (ev_ScopeHint ev) ErrorScopeModel;
          retry = retryUnlessExplicitlyUnknown ev
      in if Operation_ReplayPolicy (dc_Operation ctx) = ReplayPolicyRequireRejectedBeforeProcessing
         then decision FailureCategoryModelUnavailable (originForEvidence ev) scope retry EffectNone
                (if dc_Operation ctx = OperationEmbeddingsCreate then ''embeddings.model_unavailable''
                 else ''images.model_unavailable'')
         else (decision FailureCategoryModelUnavailable (originForEvidence ev) scope retry
                 EffectCooldownCredential ''model.unavailable'')
                \<lparr>hd_CooldownUntil := TimeAdd (at_Now attempt) Hour\<rparr>)"

definition hostErrorDecision :: "ErrorEvidence \<Rightarrow> DecisionContext \<Rightarrow> HealthDecision" where
  "hostErrorDecision ev ctx =
     (let make = (\<lambda>retry ruleID. decision FailureCategoryUpstreamHostError (originForEvidence ev)
             (scopeOrDefault (ev_ScopeHint ev) ErrorScopeGroup) retry EffectSkipGroup ruleID)
      in if ev_ReplaySafety ev = ReplaySafetyRejectedBeforeProcessing
         then make RetryNextCandidate ''upstream.host_error.rejected_before_processing''
         else if ev_ReplaySafety ev \<noteq> ReplaySafetyUnknown \<and> requestMayReplayAfterResponse ctx
         then make RetryNextCandidate ''upstream.host_error.read_only''
         else make RetryNone ''upstream.host_error.replay_unsafe'')"

definition decisionForExecutionCategory ::
  "TimeParsers \<Rightarrow> FailureCategory \<Rightarrow> ErrorEvidence \<Rightarrow> ExecutionAttempt \<Rightarrow> DecisionContext \<Rightarrow> HealthDecision" where
  "decisionForExecutionCategory tp category ev attempt ctx =
     (case transientCapacityDecision ev of
        Some transientCapacity \<Rightarrow> transientCapacity
      | None \<Rightarrow>
          let origin = originForEvidence ev; scope = ev_ScopeHint ev
          in if ev_Hint ev = FailureHintCandidateUnavailable
             then if ev_ReplaySafety ev = ReplaySafetyUnknown
                  then decision category origin scope RetryNone EffectNone ''safety.replay_unknown''
                  else decision category origin (scopeOrDefault scope ErrorScopeModel) RetryNextCandidate
                         EffectNone ''candidate.unavailable''
             else case category of
               FailureCategoryRateLimited \<Rightarrow> rateLimitDecision tp ev attempt ctx
             | FailureCategoryModelUnavailable \<Rightarrow> modelUnavailableDecision ev attempt ctx
             | FailureCategoryInvalidKey \<Rightarrow>
                 decision category origin (scopeOrDefault scope ErrorScopeCredential)
                   (retryUnlessExplicitlyUnknown ev) EffectRecordCredentialFailure ''auth.invalid_credential''
             | FailureCategoryAuthenticationRequired \<Rightarrow> authenticationDecision ev attempt ctx
             | FailureCategoryUpstreamHostError \<Rightarrow> hostErrorDecision ev ctx
             | FailureCategoryConversionUnsupported \<Rightarrow>
                 decision category ErrorOriginInternal (scopeOrDefault scope ErrorScopeGroup) RetryNone
                   EffectSkipGroup ''conversion.unsupported''
             | FailureCategoryClientError \<Rightarrow>
                 decision category origin (scopeOrDefault scope ErrorScopeRequest) RetryNone EffectNone
                   ''fallback.http_client_error''
             | FailureCategoryOK \<Rightarrow>
                 decision category origin scope RetryNone EffectNone ''success.upstream_response''
             | _ \<Rightarrow> decision category origin scope RetryNone EffectNone (ambiguousRuleID ev))"

definition constrainOperationReplay ::
  "HealthDecision \<Rightarrow> ErrorEvidence \<Rightarrow> ExecutionAttempt \<Rightarrow> DecisionContext \<Rightarrow> HealthDecision" where
  "constrainOperationReplay result ev attempt ctx =
     (if hd_Retry result = RetryNone \<or> at_DispatchState attempt \<noteq> DispatchMaybeSent
         \<or> Operation_ReplayPolicy (dc_Operation ctx) \<noteq> ReplayPolicyRequireRejectedBeforeProcessing then result
      else if ev_ReplaySafety ev = ReplaySafetyRejectedBeforeProcessing then result
      else result\<lparr>hd_Retry := RetryNone, hd_RuleID := ''safety.operation_replay_unsafe''\<rparr>)"

definition trustedCommittedCredentialEffect :: "HealthDecision \<Rightarrow> ErrorEvidence \<Rightarrow> bool" where
  "trustedCommittedCredentialEffect result ev =
     (if hd_Scope result \<noteq> ErrorScopeCredential then False
      else if ev_ScopeHint ev = ErrorScopeCredential then True
      else hd_Effect result = EffectRecordCredentialFailure \<and> ev_Hint ev = FailureHintInvalidCredential)"

definition constrainCommittedDecision ::
  "HealthDecision \<Rightarrow> ErrorEvidence \<Rightarrow> ExecutionAttempt \<Rightarrow> HealthDecision" where
  "constrainCommittedDecision result ev attempt =
     (if \<not> at_DownstreamCommitted attempt then result
      else
        let keep = (hd_Effect result = EffectCooldownCredential \<or> hd_Effect result = EffectRecordCredentialFailure)
              \<and> trustedCommittedCredentialEffect result ev;
            result1 = result\<lparr>hd_Retry := RetryNone\<rparr>;
            result2 = (if keep then result1 else result1\<lparr>hd_Effect := EffectNone, hd_CooldownUntil := 0\<rparr>)
        in if hd_Category result2 = FailureCategoryRateLimited \<and> hd_Effect result2 = EffectCooldownCredential
           then result2\<lparr>hd_RuleID := ''rate_limit.credential.committed''\<rparr>
           else if hd_Retry result \<noteq> hd_Retry result2 \<or> hd_Effect result \<noteq> hd_Effect result2
           then result2\<lparr>hd_RuleID := ''safety.committed''\<rparr>
           else result2)"

definition notSentDecision :: "ErrorEvidence \<Rightarrow> ExecutionAttempt \<Rightarrow> DecisionContext \<Rightarrow> HealthDecision" where
  "notSentDecision ev attempt ctx =
     (case candidatePreparationDecision ev of
        Some result \<Rightarrow> result
      | None \<Rightarrow>
          if ev_Hint ev = FailureHintRefreshRequired then authenticationDecision ev attempt ctx
          else if ev_Hint ev = FailureHintRefreshUnavailable
          then refreshTemporarilyUnavailableDecision ev attempt ctx
          else if ev_Hint ev = FailureHintReauthorizationRequired
          then decision FailureCategoryAuthenticationRequired ErrorOriginUpstream ErrorScopeCredential
                 RetryNextCandidate EffectNone ''auth.reauthorization_required''
          else case ev_Kind ev of
            ErrorKindTransport \<Rightarrow> decision FailureCategoryUpstreamHostError ErrorOriginUpstream ErrorScopeGroup
              RetryNextCandidate EffectSkipGroup ''transport.not_sent''
          | ErrorKindTimeout \<Rightarrow> decision FailureCategoryUpstreamHostError ErrorOriginUpstream ErrorScopeGroup
              RetryNextCandidate EffectSkipGroup ''transport.not_sent''
          | ErrorKindConversionUnsupported \<Rightarrow> decision FailureCategoryConversionUnsupported ErrorOriginInternal
              ErrorScopeGroup RetryNextCandidate EffectSkipGroup ''conversion.not_sent''
          | ErrorKindInvalidRequest \<Rightarrow> decision FailureCategoryClientError (originForEvidence ev)
              (scopeOrDefault (ev_ScopeHint ev) ErrorScopeRequest) RetryNone EffectNone
              ''request.invalid_before_dispatch''
          | _ \<Rightarrow> decision FailureCategoryAmbiguous (originForEvidence ev) (ev_ScopeHint ev) RetryNone EffectNone
              ''fallback.not_sent'')"

definition maybeSentDecision ::
  "TimeParsers \<Rightarrow> ErrorEvidence \<Rightarrow> ExecutionAttempt \<Rightarrow> DecisionContext \<Rightarrow> HealthDecision" where
  "maybeSentDecision tp ev attempt ctx =
     (if \<not> ResponseStarted attempt \<and> (ev_Kind ev = ErrorKindTransport \<or> ev_Kind ev = ErrorKindTimeout)
      then decision FailureCategoryAmbiguous ErrorOriginUpstream (ev_ScopeHint ev) RetryNone EffectNone
             ''transport.outcome_unknown''
      else if 100 \<le> at_StatusCode attempt \<and> at_StatusCode attempt < 200
      then decision FailureCategoryAmbiguous ErrorOriginUpstream ErrorScopeRequest RetryNone EffectNone
             ''safety.final_informational_response''
      else
        let category = classifyExecutionEvidence ev attempt;
            result0 = decisionForExecutionCategory tp category ev attempt ctx;
            result1 = (if ev_ReplaySafety ev = ReplaySafetyUnknown \<and> hd_RuleID result0 = ''fallback.ambiguous''
                       then result0\<lparr>hd_RuleID := ''safety.replay_unknown''\<rparr> else result0);
            result2 = constrainOperationReplay result1 ev attempt ctx
        in constrainCommittedDecision result2 ev attempt)"

definition JudgeExecution :: "TimeParsers \<Rightarrow> ExecutionAttempt \<Rightarrow> DecisionContext \<Rightarrow> HealthDecision" where
  "JudgeExecution tp attempt ctx0 =
     (let ctx = normalizeDecisionContext ctx0
      in if at_DownstreamErr attempt = DownstreamCanceled \<or> at_DownstreamErr attempt = DownstreamDeadlineExceeded
         then decision FailureCategoryDownstreamCancel ErrorOriginDownstream ErrorScopeRequest RetryNone EffectNone
                ''safety.downstream_cancel''
         else if at_DownstreamErr attempt \<noteq> DownstreamOK
         then decision FailureCategoryAmbiguous ErrorOriginDownstream ErrorScopeRequest RetryNone EffectNone
                ''safety.downstream_write_failed''
         else case at_Evidence attempt of
           None \<Rightarrow>
             if at_DownstreamCommitted attempt \<and> isSuccessStatus (at_StatusCode attempt)
             then decision FailureCategoryOK ErrorOriginUpstream ErrorScopeEmpty RetryNone EffectNone
                    ''success.committed_stream''
             else if DispatchState_Valid (at_DispatchState attempt) \<and> isSuccessStatus (at_StatusCode attempt)
             then decision FailureCategoryOK ErrorOriginUpstream ErrorScopeEmpty RetryNone EffectNone
                    ''success.upstream_response''
             else decision FailureCategoryAmbiguous (originForDispatch (at_DispatchState attempt)) ErrorScopeEmpty
                    RetryNone EffectNone ''fallback.missing_evidence''
         | Some ev \<Rightarrow>
             if ev_Kind ev = ErrorKindCanceled
             then decision FailureCategoryDownstreamCancel ErrorOriginDownstream ErrorScopeRequest RetryNone
                    EffectNone ''safety.execution_canceled''
             else if at_DispatchState attempt = DispatchNotSent then notSentDecision ev attempt ctx
             else if at_DispatchState attempt \<noteq> DispatchMaybeSent
             then decision FailureCategoryAmbiguous (originForEvidence ev) (ev_ScopeHint ev) RetryNone EffectNone
                    ''fallback.invalid_dispatch_state''
             else maybeSentDecision tp ev attempt ctx)"

section \<open>Every decision keeps the contract\<close>

definition valid_rule :: "RuleID \<Rightarrow> bool" where
  "valid_rule s \<longleftrightarrow> TrimSpace s \<noteq> [] \<and> length s \<le> 128 \<and> list_all rule_character s"

lemma valid_rule_names [simp]:
  "valid_rule ''auth.invalid_credential''"
  "valid_rule ''auth.reauthorization_required''"
  "valid_rule ''auth.refresh_rate_limited''"
  "valid_rule ''auth.refresh_required''"
  "valid_rule ''auth.refresh_temporarily_unavailable''"
  "valid_rule ''auth.refresh_unavailable''"
  "valid_rule ''auth.replay_unsafe''"
  "valid_rule ''candidate.transient_capacity''"
  "valid_rule ''candidate.unavailable''"
  "valid_rule ''conversion.not_sent''"
  "valid_rule ''conversion.unsupported''"
  "valid_rule ''embeddings.model_unavailable''"
  "valid_rule ''fallback.ambiguous''"
  "valid_rule ''fallback.http_client_error''"
  "valid_rule ''fallback.invalid_dispatch_state''"
  "valid_rule ''fallback.missing_evidence''"
  "valid_rule ''fallback.not_sent''"
  "valid_rule ''images.model_unavailable''"
  "valid_rule ''legacy.http_429_credential_cooldown''"
  "valid_rule ''model.unavailable''"
  "valid_rule ''rate_limit.credential.committed''"
  "valid_rule ''rate_limit.credential.default_cooldown''"
  "valid_rule ''rate_limit.reset_header''"
  "valid_rule ''rate_limit.retry_after''"
  "valid_rule ''rate_limit.scoped''"
  "valid_rule ''request.invalid_before_dispatch''"
  "valid_rule ''safety.committed''"
  "valid_rule ''safety.downstream_cancel''"
  "valid_rule ''safety.downstream_write_failed''"
  "valid_rule ''safety.execution_canceled''"
  "valid_rule ''safety.final_informational_response''"
  "valid_rule ''safety.operation_replay_unsafe''"
  "valid_rule ''safety.replay_unknown''"
  "valid_rule ''stream.idle_timeout''"
  "valid_rule ''stream.protocol_error''"
  "valid_rule ''stream.provider_error''"
  "valid_rule ''stream.provider_incomplete''"
  "valid_rule ''stream.upstream_terminated''"
  "valid_rule ''success.committed_stream''"
  "valid_rule ''success.upstream_response''"
  "valid_rule ''transport.not_sent''"
  "valid_rule ''transport.outcome_unknown''"
  "valid_rule ''upstream.host_error.read_only''"
  "valid_rule ''upstream.host_error.rejected_before_processing''"
  "valid_rule ''upstream.host_error.replay_unsafe''"
  "valid_rule ''candidate.credential_decrypt_failed''"
  "valid_rule ''candidate.credential_normalization_failed''"
  "valid_rule ''candidate.credential_proxy_prepare_failed''"
  "valid_rule ''candidate.group_proxy_prepare_failed''"
  by code_simp+

lemma decision_sel [simp]:
  "hd_Category (decision c og sc r e i) = c" "hd_Origin (decision c og sc r e i) = og"
  "hd_Scope (decision c og sc r e i) = sc" "hd_Retry (decision c og sc r e i) = r"
  "hd_Effect (decision c og sc r e i) = e" "hd_CooldownUntil (decision c og sc r e i) = 0"
  "hd_RuleID (decision c og sc r e i) = i"
  by (simp_all add: decision_def)

lemma Decision_Validate_None:
  "Decision_Validate d = None \<longleftrightarrow> FailureCategory_Valid (hd_Category d) \<and> ErrorOrigin_Valid (hd_Origin d)
     \<and> ErrorScope_Valid (hd_Scope d) \<and> RetryDirective_Valid (hd_Retry d) \<and> Effect_Valid (hd_Effect d)
     \<and> valid_rule (hd_RuleID d) \<and> (hd_Effect d = EffectCooldownCredential \<longleftrightarrow> hd_CooldownUntil d \<noteq> 0)"
  by (auto simp: Decision_Validate_def valid_rule_def IsZero_def)

lemmas enum_valid_defs = FailureCategory_Valid_def ErrorOrigin_Valid_def ErrorScope_Valid_def
  RetryDirective_Valid_def Effect_Valid_def

definition evidence_ok :: "ErrorEvidence \<Rightarrow> bool" where
  "evidence_ok ev \<longleftrightarrow> ErrorOrigin_Valid (ev_OriginHint ev) \<and> ErrorScope_Valid (ev_ScopeHint ev)"

lemma origin_ok [simp]: "evidence_ok ev \<Longrightarrow> ErrorOrigin_Valid (originForEvidence ev)"
  by (auto simp: originForEvidence_def evidence_ok_def ErrorOrigin_Valid_def split: ErrorKind.split)

lemma scope_ok [simp]: "evidence_ok ev \<Longrightarrow> ErrorScope_Valid (ev_ScopeHint ev)"
  by (simp add: evidence_ok_def)

lemma scope_default_ok [simp]:
  "evidence_ok ev \<Longrightarrow> ErrorScope_Valid d \<Longrightarrow> ErrorScope_Valid (scopeOrDefault (ev_ScopeHint ev) d)"
  by (simp add: scopeOrDefault_def)

lemma enums_ok [simp]:
  "ErrorOrigin_Valid ErrorOriginUpstream" "ErrorOrigin_Valid ErrorOriginInternal"
  "ErrorOrigin_Valid ErrorOriginDownstream" "ErrorOrigin_Valid ErrorOriginEmpty"
  "ErrorScope_Valid ErrorScopeEmpty" "ErrorScope_Valid ErrorScopeRequest" "ErrorScope_Valid ErrorScopeModel"
  "ErrorScope_Valid ErrorScopeCredential" "ErrorScope_Valid ErrorScopeGroup"
  "RetryDirective_Valid RetryNone" "RetryDirective_Valid RetryNextCandidate" "RetryDirective_Valid RetryRefreshCredential"
  "Effect_Valid EffectNone" "Effect_Valid EffectCooldownCredential" "Effect_Valid EffectSkipGroup"
  "Effect_Valid EffectRecordCredentialFailure" "RetryDirective_Valid (retryUnlessExplicitlyUnknown ev)"
  by (simp_all add: enum_valid_defs retryUnlessExplicitlyUnknown_def)

lemma category_ok [simp]: "FailureCategory_Valid c \<longleftrightarrow> (\<forall>n. c \<noteq> FailureCategory_other n)"
  by (cases c) (simp_all add: FailureCategory_Valid_def)

text \<open>A reset header is honoured only within the next hour.\<close>

lemma latest_reset_range:
  "latest_reset parse now limit latest vs = r \<Longrightarrow> latest = 0 \<or> now < latest \<and> latest \<le> limit \<Longrightarrow>
   r = 0 \<or> now < r \<and> r \<le> limit"
proof (induction vs arbitrary: latest)
  case Nil
  then show ?case by simp
next
  case (Cons v vs)
  then show ?case
    by (cases "parse v") (auto simp: After_def not_less split: if_splits)
qed

lemma latestValidReset_range:
  assumes "latestValidReset tp values now b = Some r"
  shows "now < r \<and> r \<le> now + Hour"
proof -
  define l where "l = latest_reset (\<lambda>value. if b then parseRetryAfter tp value now else parseResetValue tp value now)
    now (now + Hour) 0 values"
  have "l = 0 \<or> now < l \<and> l \<le> now + Hour" by (rule latest_reset_range [OF l_def [symmetric]]) simp
  moreover have "r = l" "l \<noteq> 0"
    using assms by (auto simp: latestValidReset_def Let_def l_def IsZero_def TimeAdd_def maxRateLimitResetDelay_def split: if_splits)
  ultimately show ?thesis by simp
qed

lemma ParseRateLimitReset_range: "ParseRateLimitReset tp header now = Some r \<Longrightarrow> now < r \<and> r \<le> now + Hour"
  by (auto simp: ParseRateLimitReset_def dest: latestValidReset_range split: option.splits)

text \<open>
  What a decision reached with evidence guarantees about its cooldown: set exactly
  for the cooldown effect, in the future, and at most the delay the provider asked
  for, the configured default, or one hour.
\<close>

definition cooldown_ok :: "ErrorEvidence \<Rightarrow> ExecutionAttempt \<Rightarrow> DecisionContext \<Rightarrow> HealthDecision \<Rightarrow> bool" where
  "cooldown_ok ev attempt ctx d \<longleftrightarrow>
     (if hd_Effect d = EffectCooldownCredential
      then at_Now attempt < hd_CooldownUntil d
           \<and> hd_CooldownUntil d \<le> at_Now attempt + max Hour (max (ev_RetryAfter ev) (dc_DefaultRateLimitCooldown ctx))
      else hd_CooldownUntil d = 0)"

definition decision_ok :: "HealthDecision \<Rightarrow> bool" where
  "decision_ok d \<longleftrightarrow> FailureCategory_Valid (hd_Category d) \<and> ErrorOrigin_Valid (hd_Origin d)
     \<and> ErrorScope_Valid (hd_Scope d) \<and> RetryDirective_Valid (hd_Retry d) \<and> Effect_Valid (hd_Effect d)
     \<and> valid_rule (hd_RuleID d)"

lemma decision_ok_decision [simp]:
  "decision_ok (decision c og sc r e i) \<longleftrightarrow> FailureCategory_Valid c \<and> ErrorOrigin_Valid og \<and> ErrorScope_Valid sc
     \<and> RetryDirective_Valid r \<and> Effect_Valid e \<and> valid_rule i"
  by (simp add: decision_ok_def)

lemma decision_ok_cooldown [simp]: "decision_ok (d\<lparr>hd_CooldownUntil := t\<rparr>) = decision_ok d"
  by (simp add: decision_ok_def)

lemma cooldown_ok_decision [simp]:
  "e \<noteq> EffectCooldownCredential \<Longrightarrow> cooldown_ok ev a ctx (decision c og sc r e i)"
  by (simp add: cooldown_ok_def)

lemma candidatePreparation_ok:
  "candidatePreparationDecision ev = Some d \<Longrightarrow> decision_ok d \<and> cooldown_ok ev a ctx d
     \<and> hd_Retry d = RetryNextCandidate"
  by (auto simp: candidatePreparationDecision_def split: if_splits)

lemma refreshUnavailable_ok:
  "0 < dc_DefaultRateLimitCooldown ctx \<Longrightarrow>
   decision_ok (refreshTemporarilyUnavailableDecision ev a ctx)
   \<and> cooldown_ok ev a ctx (refreshTemporarilyUnavailableDecision ev a ctx)"
  by (auto simp: refreshTemporarilyUnavailableDecision_def cooldown_ok_def Let_def TimeAdd_def)

lemma rateLimit_ok:
  assumes "evidence_ok ev" and "0 < dc_DefaultRateLimitCooldown ctx"
  shows "decision_ok (rateLimitDecision tp ev a ctx) \<and> cooldown_ok ev a ctx (rateLimitDecision tp ev a ctx)"
proof -
  have "decision_ok (d\<lparr>hd_CooldownUntil := t, hd_RuleID := i\<rparr>) = (decision_ok (d\<lparr>hd_RuleID := i\<rparr>))" for d t i
    by (simp add: decision_ok_def)
  with assms ParseRateLimitReset_range show ?thesis
    by (fastforce simp: rateLimitDecision_def cooldown_ok_def Let_def TimeAdd_def decision_ok_def split: option.split)
qed

lemma authentication_ok:
  "decision_ok (authenticationDecision ev a ctx) \<and> cooldown_ok ev a ctx (authenticationDecision ev a ctx)"
  by (simp add: authenticationDecision_def Let_def)

lemma transientCapacity_ok:
  "transientCapacityDecision ev = Some d \<Longrightarrow> evidence_ok ev \<Longrightarrow> decision_ok d \<and> cooldown_ok ev a ctx d"
  by (auto simp: transientCapacityDecision_def Let_def split: if_splits)

lemma modelUnavailable_ok:
  "evidence_ok ev \<Longrightarrow> decision_ok (modelUnavailableDecision ev a ctx) \<and> cooldown_ok ev a ctx (modelUnavailableDecision ev a ctx)"
  by (simp add: modelUnavailableDecision_def Let_def cooldown_ok_def TimeAdd_def Hour_def)

lemma hostError_ok:
  "evidence_ok ev \<Longrightarrow> decision_ok (hostErrorDecision ev ctx) \<and> cooldown_ok ev a ctx (hostErrorDecision ev ctx)"
  by (simp add: hostErrorDecision_def Let_def)

lemma ambiguousRuleID_ok [simp]: "valid_rule (ambiguousRuleID ev)"
  by (simp add: ambiguousRuleID_def)

lemma classify_ok: "classifyExecutionEvidence ev a \<noteq> FailureCategory_other n"
  by (auto simp: classifyExecutionEvidence_def classify_status_def Let_def split: FailureHint.split)

lemma forCategory_ok:
  assumes "evidence_ok ev" and "0 < dc_DefaultRateLimitCooldown ctx" and "\<forall>n. c \<noteq> FailureCategory_other n"
  shows "decision_ok (decisionForExecutionCategory tp c ev a ctx) \<and> cooldown_ok ev a ctx (decisionForExecutionCategory tp c ev a ctx)"
proof (cases "transientCapacityDecision ev")
  case (Some d)
  with transientCapacity_ok assms show ?thesis by (simp add: decisionForExecutionCategory_def)
next
  case None
  then show ?thesis
    using assms rateLimit_ok authentication_ok modelUnavailable_ok hostError_ok
    by (cases c) (simp_all add: decisionForExecutionCategory_def Let_def)
qed

lemma constrainOperation_ok:
  "decision_ok d \<and> cooldown_ok ev a ctx d \<Longrightarrow>
   decision_ok (constrainOperationReplay d ev a ctx) \<and> cooldown_ok ev a ctx (constrainOperationReplay d ev a ctx)"
  by (auto simp: constrainOperationReplay_def decision_ok_def cooldown_ok_def)

lemma constrainCommitted_ok:
  "decision_ok d \<and> cooldown_ok ev a ctx d \<Longrightarrow>
   decision_ok (constrainCommittedDecision d ev a) \<and> cooldown_ok ev a ctx (constrainCommittedDecision d ev a)"
  by (auto simp: constrainCommittedDecision_def decision_ok_def cooldown_ok_def Let_def)

lemma maybeSent_ok:
  assumes "evidence_ok ev" and "0 < dc_DefaultRateLimitCooldown ctx"
  shows "decision_ok (maybeSentDecision tp ev a ctx) \<and> cooldown_ok ev a ctx (maybeSentDecision tp ev a ctx)"
proof -
  let ?d = "decisionForExecutionCategory tp (classifyExecutionEvidence ev a) ev a ctx"
  have "decision_ok ?d \<and> cooldown_ok ev a ctx ?d" using forCategory_ok assms classify_ok by blast
  then have "decision_ok (?d\<lparr>hd_RuleID := ''safety.replay_unknown''\<rparr>) \<and> cooldown_ok ev a ctx (?d\<lparr>hd_RuleID := ''safety.replay_unknown''\<rparr>)"
    by (simp add: decision_ok_def cooldown_ok_def)
  with \<open>decision_ok ?d \<and> _\<close> have committed:
    "decision_ok (constrainCommittedDecision (constrainOperationReplay (if b then ?d\<lparr>hd_RuleID := ''safety.replay_unknown''\<rparr> else ?d) ev a ctx) ev a)
     \<and> cooldown_ok ev a ctx (constrainCommittedDecision (constrainOperationReplay (if b then ?d\<lparr>hd_RuleID := ''safety.replay_unknown''\<rparr> else ?d) ev a ctx) ev a)" for b
    by (intro constrainCommitted_ok constrainOperation_ok) simp
  show ?thesis
    unfolding maybeSentDecision_def Let_def using assms(1) committed by auto
qed

lemma notSent_ok:
  assumes "evidence_ok ev" and "0 < dc_DefaultRateLimitCooldown ctx"
  shows "decision_ok (notSentDecision ev a ctx) \<and> cooldown_ok ev a ctx (notSentDecision ev a ctx)"
proof (cases "candidatePreparationDecision ev")
  case (Some d)
  with candidatePreparation_ok show ?thesis by (simp add: notSentDecision_def)
next
  case None
  then show ?thesis
    using assms authentication_ok refreshUnavailable_ok
    by (cases "ev_Kind ev") (simp_all add: notSentDecision_def)
qed

section \<open>When a request is retried\<close>

lemma constrainCommitted_retry:
  "hd_Retry (constrainCommittedDecision d ev a) = (if at_DownstreamCommitted a then RetryNone else hd_Retry d)"
  by (simp add: constrainCommittedDecision_def Let_def)

lemma constrainCommitted_effect:
  assumes "at_DownstreamCommitted a" and "hd_Effect (constrainCommittedDecision d ev a) \<noteq> EffectNone"
  shows "hd_Effect (constrainCommittedDecision d ev a) \<in> {EffectCooldownCredential, EffectRecordCredentialFailure}
    \<and> hd_Scope (constrainCommittedDecision d ev a) = ErrorScopeCredential
    \<and> (ev_ScopeHint ev = ErrorScopeCredential \<or> ev_Hint ev = FailureHintInvalidCredential)"
  using assms
  by (auto simp: constrainCommittedDecision_def Let_def trustedCommittedCredentialEffect_def split: if_splits)

lemma constrainOperation_retry:
  assumes "at_DispatchState a = DispatchMaybeSent" and "hd_Retry (constrainOperationReplay d ev a ctx) \<noteq> RetryNone"
  shows "hd_Retry d = hd_Retry (constrainOperationReplay d ev a ctx)
    \<and> (Operation_ReplayPolicy (dc_Operation ctx) = ReplayPolicyRequireRejectedBeforeProcessing \<longrightarrow>
        ev_ReplaySafety ev = ReplaySafetyRejectedBeforeProcessing)"
  using assms by (auto simp: constrainOperationReplay_def split: if_splits)

lemma rateLimit_retry: "hd_Retry (rateLimitDecision tp ev a ctx) \<in> {RetryNone, retryUnlessExplicitlyUnknown ev}"
  by (simp add: rateLimitDecision_def Let_def split: option.split)

text \<open>
  Why a request that may have been sent can be sent again: the provider says that it rejected the request before
  processing it; or it refused it for the rate, the model, the candidate or the credential; or it failed, and the
  request only reads.
\<close>

definition refused_or_harmless :: "FailureCategory \<Rightarrow> ErrorEvidence \<Rightarrow> DecisionContext \<Rightarrow> bool" where
  "refused_or_harmless category ev ctx \<longleftrightarrow>
     ev_ReplaySafety ev = ReplaySafetyRejectedBeforeProcessing
     \<or> ev_Hint ev = FailureHintCandidateUnavailable
     \<or> category \<in> {FailureCategoryRateLimited, FailureCategoryModelUnavailable, FailureCategoryInvalidKey}
     \<or> category = FailureCategoryUpstreamHostError
        \<and> (ToLower (dc_Method ctx) \<in> {''get'', ''head''}
            \<or> dc_Operation ctx \<in> {OperationResponsesRetrieve, OperationResponsesInputItems, OperationResponsesInputTokens,
                 OperationCountTokens, OperationListModels})"

lemma may_replay_iff:
  "requestMayReplayAfterResponse ctx \<longleftrightarrow> ToLower (dc_Method ctx) \<in> {''get'', ''head''}
     \<or> dc_Operation ctx \<in> {OperationResponsesRetrieve, OperationResponsesInputItems, OperationResponsesInputTokens,
          OperationCountTokens, OperationListModels}"
  by (auto simp: requestMayReplayAfterResponse_def split: Operation.split)

lemma forCategory_retry:
  assumes "at_DispatchState a = DispatchMaybeSent"
    and "hd_Retry (decisionForExecutionCategory tp c ev a ctx) \<noteq> RetryNone"
  shows "ev_ReplaySafety ev \<noteq> ReplaySafetyUnknown \<and> refused_or_harmless c ev ctx
    \<and> (hd_Retry (decisionForExecutionCategory tp c ev a ctx) = RetryRefreshCredential \<longrightarrow>
        dc_CredentialRefreshable ctx \<and> ev_Hint ev = FailureHintRefreshRequired
        \<and> ev_ReplaySafety ev = ReplaySafetyRejectedBeforeProcessing)"
proof (cases "transientCapacityDecision ev")
  case (Some d)
  then have "ev_ReplaySafety ev = ReplaySafetyRejectedBeforeProcessing" "hd_Retry d = RetryNextCandidate"
    by (auto simp: transientCapacityDecision_def Let_def split: if_splits)
  with Some show ?thesis by (simp add: decisionForExecutionCategory_def refused_or_harmless_def)
next
  case None
  have rl: "hd_Retry (rateLimitDecision tp ev a ctx) = RetryNone
      \<or> hd_Retry (rateLimitDecision tp ev a ctx) = RetryNextCandidate \<and> ev_ReplaySafety ev \<noteq> ReplaySafetyUnknown"
    using rateLimit_retry [of tp ev a ctx] by (auto simp: retryUnlessExplicitlyUnknown_def split: if_splits)
  show ?thesis
    using None assms rl
    by (cases c)
      (auto simp: decisionForExecutionCategory_def Let_def retryUnlessExplicitlyUnknown_def refused_or_harmless_def
        modelUnavailableDecision_def authenticationDecision_def hostErrorDecision_def may_replay_iff split: if_splits)
qed

lemma maybeSent_retry:
  assumes sent: "at_DispatchState a = DispatchMaybeSent" and retry: "hd_Retry (maybeSentDecision tp ev a ctx) \<noteq> RetryNone"
  shows "\<not> at_DownstreamCommitted a \<and> ev_ReplaySafety ev \<noteq> ReplaySafetyUnknown
    \<and> refused_or_harmless (classifyExecutionEvidence ev a) ev ctx
    \<and> \<not> (\<not> ResponseStarted a \<and> (ev_Kind ev = ErrorKindTransport \<or> ev_Kind ev = ErrorKindTimeout))
    \<and> (Operation_ReplayPolicy (dc_Operation ctx) = ReplayPolicyRequireRejectedBeforeProcessing \<longrightarrow>
        ev_ReplaySafety ev = ReplaySafetyRejectedBeforeProcessing)
    \<and> (hd_Retry (maybeSentDecision tp ev a ctx) = RetryRefreshCredential \<longrightarrow>
        dc_CredentialRefreshable ctx \<and> ev_Hint ev = FailureHintRefreshRequired
        \<and> ev_ReplaySafety ev = ReplaySafetyRejectedBeforeProcessing)"
proof -
  let ?d = "decisionForExecutionCategory tp (classifyExecutionEvidence ev a) ev a ctx"
  define d1 where "d1 = (if ev_ReplaySafety ev = ReplaySafetyUnknown \<and> hd_RuleID ?d = ''fallback.ambiguous''
    then ?d\<lparr>hd_RuleID := ''safety.replay_unknown''\<rparr> else ?d)"
  have d1: "hd_Retry d1 = hd_Retry ?d" by (simp add: d1_def)
  have started: "\<not> (\<not> ResponseStarted a \<and> (ev_Kind ev = ErrorKindTransport \<or> ev_Kind ev = ErrorKindTimeout))"
    and final: "maybeSentDecision tp ev a ctx = constrainCommittedDecision (constrainOperationReplay d1 ev a ctx) ev a"
    using retry by (auto simp: maybeSentDecision_def Let_def d1_def split: if_splits)
  have nc: "\<not> at_DownstreamCommitted a" and op: "hd_Retry (constrainOperationReplay d1 ev a ctx) \<noteq> RetryNone"
    and eq: "hd_Retry (maybeSentDecision tp ev a ctx) = hd_Retry (constrainOperationReplay d1 ev a ctx)"
    using retry unfolding final by (auto simp: constrainCommitted_retry split: if_splits)
  note c = constrainOperation_retry [OF sent op]
  have "hd_Retry ?d \<noteq> RetryNone" using c op d1 by simp
  from forCategory_retry [OF sent this] c d1 eq nc started show ?thesis by auto
qed

section \<open>Properties\<close>

text \<open>
  Property C6. Every decision of the judge passes the decision contract that the
  gateway checks: known category, origin, scope, retry and effect, a well-formed
  rule name, and a cooldown deadline exactly when the effect is a cooldown. The
  deadline lies in the future and never beyond the longest of one hour, the delay
  the provider asked for and the configured default.
\<close>

theorem judge_decision_valid:
  assumes evidence: "\<And>ev. at_Evidence a = Some ev \<Longrightarrow>
      ErrorOrigin_Valid (ev_OriginHint ev) \<and> ErrorScope_Valid (ev_ScopeHint ev)"
    and clock: "0 \<le> at_Now a"
  shows "Decision_Validate (JudgeExecution tp a ctx) = None
    \<and> (hd_Effect (JudgeExecution tp a ctx) = EffectCooldownCredential \<longrightarrow>
        at_Now a < hd_CooldownUntil (JudgeExecution tp a ctx)
        \<and> (\<exists>ev. at_Evidence a = Some ev \<and> hd_CooldownUntil (JudgeExecution tp a ctx)
             \<le> at_Now a + max Hour (max (ev_RetryAfter ev) (dc_DefaultRateLimitCooldown ctx))))"
proof -
  let ?ctx = "normalizeDecisionContext ctx"
  have pos: "0 < dc_DefaultRateLimitCooldown ?ctx"
    and max: "max Hour (max x (dc_DefaultRateLimitCooldown ?ctx)) \<le> max Hour (max x (dc_DefaultRateLimitCooldown ctx))" for x
    by (auto simp: normalizeDecisionContext_def go_time)
  have contract: "Decision_Validate d = None" if "decision_ok d" "cooldown_ok ev a ?ctx d" for ev d
    using that clock by (auto simp: Decision_Validate_None decision_ok_def cooldown_ok_def split: if_splits)
  show ?thesis
  proof (cases "at_DownstreamErr a = DownstreamOK \<and> at_Evidence a \<noteq> None")
    case False
    then show ?thesis
      by (auto simp: JudgeExecution_def Let_def Decision_Validate_None originForDispatch_def split: option.split)
  next
    case True
    then obtain ev where ev: "at_Evidence a = Some ev" by auto
    have eok: "evidence_ok ev" using evidence [OF ev] by (simp add: evidence_ok_def)
    have "decision_ok (JudgeExecution tp a ctx) \<and> cooldown_ok ev a ?ctx (JudgeExecution tp a ctx)"
      using True ev eok notSent_ok [OF eok pos] maybeSent_ok [OF eok pos] by (simp add: JudgeExecution_def Let_def)
    with contract ev max [of "ev_RetryAfter ev"] show ?thesis by (force simp: cooldown_ok_def)
  qed
qed

definition sample_evidence :: ErrorEvidence where
  "sample_evidence = \<lparr>ev_Kind = ErrorKindHTTP, ev_Hint = FailureHintRateLimited, ev_OriginHint = ErrorOriginUpstream,
     ev_ScopeHint = ErrorScopeCredential, ev_StatusCode = 429, ev_Type = [], ev_Code = [], ev_Summary = ''slow down'',
     ev_RequestID = [], ev_RetryAfter = 5 * Second, ev_ReplaySafety = ReplaySafetyRejectedBeforeProcessing, ev_Header = []\<rparr>"

definition sample_attempt :: ExecutionAttempt where
  "sample_attempt = \<lparr>at_DispatchState = DispatchMaybeSent, at_StatusCode = 429, at_Header = [],
     at_Evidence = Some sample_evidence, at_DownstreamCommitted = False, at_DownstreamErr = DownstreamOK,
     at_Now = unix_epoch\<rparr>"

definition sample_context :: DecisionContext where
  "sample_context = \<lparr>dc_DefaultRateLimitCooldown = Minute, dc_CredentialRefreshable = False, dc_Method = ''POST'',
     dc_Operation = OperationImagesGenerate\<rparr>"

definition no_parsers :: TimeParsers where
  "no_parsers = \<lparr>tp_HTTPTime = (\<lambda>_. None), tp_RFC3339 = (\<lambda>_. None), tp_Duration = (\<lambda>_. None)\<rparr>"

lemma sample_judgement:
  "hd_Effect (JudgeExecution no_parsers sample_attempt sample_context) = EffectCooldownCredential"
  "hd_Retry (JudgeExecution no_parsers sample_attempt sample_context) = RetryNextCandidate"
  by code_simp+

theorem judge_decision_valid_witness:
  "Decision_Validate (JudgeExecution no_parsers sample_attempt sample_context) = None
   \<and> at_Now sample_attempt < hd_CooldownUntil (JudgeExecution no_parsers sample_attempt sample_context)"
proof -
  have "\<And>ev. at_Evidence sample_attempt = Some ev \<Longrightarrow>
      ErrorOrigin_Valid (ev_OriginHint ev) \<and> ErrorScope_Valid (ev_ScopeHint ev)"
    by (auto simp: sample_attempt_def sample_evidence_def)
  moreover have "0 \<le> at_Now sample_attempt" by (simp add: sample_attempt_def unix_epoch_def)
  ultimately show ?thesis using judge_decision_valid [of sample_attempt no_parsers sample_context] sample_judgement by blast
qed

lemma judge_retry_known:
  assumes sent: "at_DispatchState a \<noteq> DispatchNotSent" and retry: "hd_Retry (JudgeExecution tp a ctx) \<noteq> RetryNone"
  shows "\<not> at_DownstreamCommitted a \<and> at_DownstreamErr a = DownstreamOK
    \<and> (\<exists>ev. at_Evidence a = Some ev \<and> ev_ReplaySafety ev \<noteq> ReplaySafetyUnknown
        \<and> refused_or_harmless (classifyExecutionEvidence ev a) ev ctx
        \<and> (ev_Kind ev \<in> {ErrorKindTransport, ErrorKindTimeout} \<longrightarrow> ResponseStarted a)
        \<and> (dc_Operation ctx \<in> {OperationImagesGenerate, OperationImagesEdit, OperationEmbeddingsCreate} \<longrightarrow>
            ev_ReplaySafety ev = ReplaySafetyRejectedBeforeProcessing))"
proof -
  obtain ev where ev: "at_Evidence a = Some ev" and down: "at_DownstreamErr a = DownstreamOK"
    and maybe: "at_DispatchState a = DispatchMaybeSent"
    and eq: "JudgeExecution tp a ctx = maybeSentDecision tp ev a (normalizeDecisionContext ctx)"
    using assms by (cases "at_Evidence a") (auto simp: JudgeExecution_def Let_def split: if_splits)
  have oper: "dc_Operation (normalizeDecisionContext ctx) = dc_Operation ctx" by (simp add: normalizeDecisionContext_def)
  have "hd_Retry (maybeSentDecision tp ev a (normalizeDecisionContext ctx)) \<noteq> RetryNone" using retry eq by simp
  moreover have "refused_or_harmless c ev (normalizeDecisionContext ctx) = refused_or_harmless c ev ctx" for c
    by (simp add: refused_or_harmless_def normalizeDecisionContext_def)
  ultimately show ?thesis using maybeSent_retry [OF maybe, of tp ev "normalizeDecisionContext ctx"] ev down oper
    by (auto simp: replay_policy_iff)
qed



text \<open>
  After the response was committed downstream, a request that may have
  been sent is never retried, and the only lasting effects are on the credential,
  when the evidence itself blames the credential.
\<close>

theorem judge_committed_is_final:
  assumes sent: "at_DispatchState a \<noteq> DispatchNotSent" and committed: "at_DownstreamCommitted a"
  shows "hd_Retry (JudgeExecution tp a ctx) = RetryNone
    \<and> (hd_Effect (JudgeExecution tp a ctx) = EffectNone \<or>
       (hd_Effect (JudgeExecution tp a ctx) \<in> {EffectCooldownCredential, EffectRecordCredentialFailure}
        \<and> hd_Scope (JudgeExecution tp a ctx) = ErrorScopeCredential
        \<and> (\<exists>ev. at_Evidence a = Some ev
             \<and> (ev_ScopeHint ev = ErrorScopeCredential \<or> ev_Hint ev = FailureHintInvalidCredential))))"
proof (cases "at_Evidence a")
  case None
  then show ?thesis by (auto simp: JudgeExecution_def Let_def)
next
  case (Some ev)
  let ?ctx = "normalizeDecisionContext ctx"
  have "hd_Retry (maybeSentDecision tp ev a ?ctx) = RetryNone \<and> (hd_Effect (maybeSentDecision tp ev a ?ctx) = EffectNone \<or>
      (hd_Effect (maybeSentDecision tp ev a ?ctx) \<in> {EffectCooldownCredential, EffectRecordCredentialFailure}
        \<and> hd_Scope (maybeSentDecision tp ev a ?ctx) = ErrorScopeCredential
        \<and> (ev_ScopeHint ev = ErrorScopeCredential \<or> ev_Hint ev = FailureHintInvalidCredential)))"
  proof (cases "hd_Retry (maybeSentDecision tp ev a ?ctx) = RetryNone \<and> hd_Effect (maybeSentDecision tp ev a ?ctx) = EffectNone")
    case False
    then obtain d where d: "maybeSentDecision tp ev a ?ctx = constrainCommittedDecision d ev a"
      by (auto simp: maybeSentDecision_def Let_def split: if_splits)
    show ?thesis
      unfolding d using committed constrainCommitted_retry [of d ev a] constrainCommitted_effect [OF committed, of d ev]
      by (cases "hd_Effect (constrainCommittedDecision d ev a) = EffectNone") simp_all
  qed blast
  with Some sent show ?thesis by (auto simp: JudgeExecution_def Let_def)
qed

theorem judge_committed_is_final_witness:
  "hd_Retry (JudgeExecution no_parsers (sample_attempt\<lparr>at_DownstreamCommitted := True\<rparr>) sample_context) = RetryNone"
  using judge_committed_is_final [of "sample_attempt\<lparr>at_DownstreamCommitted := True\<rparr>" no_parsers sample_context]
  by (simp add: sample_attempt_def)

text \<open>The deadlines a list of header values offers.\<close>

definition offered_resets :: "(string \<Rightarrow> time option) \<Rightarrow> time \<Rightarrow> string list \<Rightarrow> time set" where
  "offered_resets parse now values = {r. (\<exists>v \<in> set values. parse v = Some r) \<and> now < r \<and> r \<le> now + Hour}"

lemma offered_resets_Nil [simp]: "offered_resets parse now [] = {}"
  by (simp add: offered_resets_def)

lemma offered_resets_Cons:
  "offered_resets parse now (v # vs) =
     (case parse v of None \<Rightarrow> {} | Some r \<Rightarrow> if now < r \<and> r \<le> now + Hour then {r} else {}) \<union> offered_resets parse now vs"
  by (auto simp: offered_resets_def split: option.split)

lemma offered_resets_finite [simp]: "finite (offered_resets parse now values)"
  by (induction "values") (auto simp: offered_resets_Cons split: option.split)

lemma latest_reset_Max:
  assumes "0 \<le> now" and "latest = 0 \<or> now < latest"
  shows "latest_reset parse now (now + Hour) latest vs =
    (if latest = 0 \<and> offered_resets parse now vs = {} then 0
     else Max ((if latest = 0 then {} else {latest}) \<union> offered_resets parse now vs))"
  using assms(2)
proof (induction vs arbitrary: latest)
  case (Cons v vs)
  show ?case
  proof (cases "parse v")
    case None
    then show ?thesis using Cons by (simp add: offered_resets_Cons)
  next
    case (Some r)
    show ?thesis
    proof (cases "now < r \<and> r \<le> now + Hour")
      case False
      then show ?thesis using Some Cons by (auto simp: offered_resets_Cons go_time)
    next
      case True
      have later: "max r (Max (insert latest A)) = (if r > latest then Max (insert r A) else Max (insert latest A))"
        if "finite A" for A using that by (cases "A = {}") (auto simp: max_def)
      show ?thesis
        using Some True Cons.IH [of r] Cons.IH [of latest] Cons.prems assms(1)
        by (auto simp: offered_resets_Cons go_time later)
    qed
  qed
qed simp

lemma latestValidReset_Max:
  assumes "0 \<le> now"
  shows "latestValidReset tp vs now ra =
    (let V = offered_resets (\<lambda>v. if ra then parseRetryAfter tp v now else parseResetValue tp v now) now vs
     in if V = {} then None else Some (Max V))"
proof -
  let ?V = "offered_resets (\<lambda>v. if ra then parseRetryAfter tp v now else parseResetValue tp v now) now vs"
  have "Max ?V \<noteq> 0" if "?V \<noteq> {}"
    using Max_in [of ?V] that assms by (auto simp: offered_resets_def)
  then show ?thesis
    using latest_reset_Max [OF assms, of 0] unfolding latestValidReset_def
    by (auto simp: Let_def IsZero_def TimeAdd_def maxRateLimitResetDelay_def)
qed

text \<open>
  The deadline read from rate limit headers does not depend on the
  order in which Go ranges over the header map, and it lies within the next hour:
  the latest acceptable value of the first header family that has one.
\<close>

theorem rate_limit_reset_order_independent:
  assumes clock: "0 \<le> now" and order: "mset header = mset header'"
  shows "ParseRateLimitReset tp header now = ParseRateLimitReset tp header' now
    \<and> (\<forall>reset. ParseRateLimitReset tp header now = Some reset \<longrightarrow> now < reset \<and> reset \<le> now + Hour)"
proof -
  have "set (matchingHeaderValues header m) = set (matchingHeaderValues header' m)" for m
    using mset_eq_setD [OF order] by (simp add: matchingHeaderValues_def)
  then have same: "offered_resets parse now (matchingHeaderValues header m) = offered_resets parse now (matchingHeaderValues header' m)"
    for parse m by (simp add: offered_resets_def)
  have bound: "now < r \<and> r \<le> now + Hour" if r: "latestValidReset tp vs now ra = Some r" for r vs ra
  proof -
    let ?V = "offered_resets (\<lambda>v. if ra then parseRetryAfter tp v now else parseResetValue tp v now) now vs"
    have "?V \<noteq> {}" "r = Max ?V"
      using r unfolding latestValidReset_Max [OF clock] Let_def by (auto split: if_splits)
    then show ?thesis using Max_in [of ?V] by (auto simp: offered_resets_def)
  qed
  have "latestValidReset tp (matchingHeaderValues header m) now ra = latestValidReset tp (matchingHeaderValues header' m) now ra"
    for m ra by (simp add: latestValidReset_Max [OF clock] same)
  then show ?thesis
    by (auto simp: ParseRateLimitReset_def split: option.splits dest: bound)
qed

theorem rate_limit_reset_order_independent_witness:
  "ParseRateLimitReset no_parsers [(''Retry-After'', [''30'']), (''X-Ratelimit-Reset'', [''60''])] unix_epoch
     = ParseRateLimitReset no_parsers [(''X-Ratelimit-Reset'', [''60'']), (''Retry-After'', [''30''])] unix_epoch
   \<and> ParseRateLimitReset no_parsers [(''Retry-After'', [''30'']), (''X-Ratelimit-Reset'', [''60''])] unix_epoch
     = Some (unix_epoch + 30 * Second)"
proof
  show "ParseRateLimitReset no_parsers [(''Retry-After'', [''30'']), (''X-Ratelimit-Reset'', [''60''])] unix_epoch
     = ParseRateLimitReset no_parsers [(''X-Ratelimit-Reset'', [''60'']), (''Retry-After'', [''30''])] unix_epoch"
    using rate_limit_reset_order_independent [of unix_epoch "[(''Retry-After'', [''30'']), (''X-Ratelimit-Reset'', [''60''])]"
      "[(''X-Ratelimit-Reset'', [''60'']), (''Retry-After'', [''30''])]" no_parsers]
    by (simp add: unix_epoch_def)
  show "ParseRateLimitReset no_parsers [(''Retry-After'', [''30'']), (''X-Ratelimit-Reset'', [''60''])] unix_epoch
     = Some (unix_epoch + 30 * Second)" by code_simp
qed

end
