(* ===== verification/Health_Stats.thy ===== *)
theory Health_Stats
  imports Health_Judge
begin

text \<open>
  Rolling health statistics of credentials (\<open>src/internal/health/stats.go\<close>,
  \<open>runtime_checkpoint.go\<close>) and the striped lock that serialises health mutations
  (\<open>mutation.go\<close>).

  A window keeps five one-minute buckets in a ring and the run of failures and
  problems since the last success. The lemmas relate it to the complete log of
  events: the ring counts exactly the events of the last five minutes, in
  whatever order they are recorded. The counters are \<open>64 word\<close>s and wrap as the
  source's \<open>uint64\<close> do. A minute is a quotient of an \<open>int64\<close> by a minute, so the
  subtraction in \<open>Snapshot\<close> stays far inside the range and is written without a wrap.

  Each exported method holds the store's mutex and is one step.
\<close>

section \<open>Buckets and windows\<close>

definition statsBucketCount :: nat where
  "statsBucketCount = 5"

definition statsBucketWidth :: duration where
  "statsBucketWidth = Minute"

record CredentialStats =
  cs_Success :: uint64
  cs_Failure :: uint64
  cs_Problem :: uint64
  cs_ConsecutiveFailure :: uint64
  cs_ConsecutiveProblem :: uint64
  cs_LastFailureCategory :: FailureCategory
  cs_LastStatusCode :: int

definition CredentialStats0 :: CredentialStats where
  "CredentialStats0 = \<lparr>cs_Success = 0, cs_Failure = 0, cs_Problem = 0, cs_ConsecutiveFailure = 0,
     cs_ConsecutiveProblem = 0, cs_LastFailureCategory = FailureCategoryAmbiguous, cs_LastStatusCode = 0\<rparr>"

record statsBucket =
  sb_minute :: int
  sb_valid :: bool
  sb_success :: uint64
  sb_failure :: uint64
  sb_problem :: uint64

definition statsBucket0 :: statsBucket where
  "statsBucket0 = \<lparr>sb_minute = 0, sb_valid = False, sb_success = 0, sb_failure = 0, sb_problem = 0\<rparr>"

record credentialStatsWindow =
  cw_buckets :: "statsBucket list"
  cw_consecutiveFailure :: uint64
  cw_consecutiveProblem :: uint64
  cw_lastEventAt :: time
  cw_lastEventRecorded :: bool
  cw_lastFailureCategory :: FailureCategory
  cw_lastStatusCode :: int

definition credentialStatsWindow0 :: credentialStatsWindow where
  "credentialStatsWindow0 = \<lparr>cw_buckets = replicate statsBucketCount statsBucket0, cw_consecutiveFailure = 0,
     cw_consecutiveProblem = 0, cw_lastEventAt = 0, cw_lastEventRecorded = False,
     cw_lastFailureCategory = FailureCategoryAmbiguous, cw_lastStatusCode = 0\<rparr>"

record StatsStore =
  windows :: "(nat, credentialStatsWindow) gomap"

datatype statsEvent = statsEventSuccess | statsEventFailure | statsEventProblem

definition NewStatsStore :: StatsStore where
  "NewStatsStore = \<lparr>windows = []\<rparr>"

definition statsBucketSlot :: "int \<Rightarrow> nat" where
  "statsBucketSlot minute =
     (let slot = minute smod int statsBucketCount
      in nat (if slot < 0 then slot + int statsBucketCount else slot))"

definition stats_minute :: "time \<Rightarrow> int" where
  "stats_minute at = UnixNano at sdiv statsBucketWidth"

section \<open>Operations\<close>

text \<open>
  The bucket of the event's minute is opened or advanced; an event older than the
  bucket in its slot is dropped.
\<close>

definition open_bucket :: "statsBucket \<Rightarrow> int \<Rightarrow> statsBucket option" where
  "open_bucket bucket minute =
     (if \<not> sb_valid bucket \<or> minute > sb_minute bucket then Some (statsBucket0\<lparr>sb_minute := minute, sb_valid := True\<rparr>)
      else if minute < sb_minute bucket then None
      else Some bucket)"

definition count_event :: "statsEvent \<Rightarrow> statsBucket \<Rightarrow> statsBucket" where
  "count_event event bucket =
     (if event = statsEventSuccess then bucket\<lparr>sb_success := sb_success bucket + 1\<rparr>
      else
        let bucket1 = bucket\<lparr>sb_problem := sb_problem bucket + 1\<rparr>
        in if event = statsEventFailure then bucket1\<lparr>sb_failure := sb_failure bucket1 + 1\<rparr> else bucket1)"

definition note_event ::
  "statsEvent \<Rightarrow> FailureCategory \<Rightarrow> int \<Rightarrow> time \<Rightarrow> credentialStatsWindow \<Rightarrow> credentialStatsWindow" where
  "note_event event category statusCode at window =
     (if cw_lastEventRecorded window \<and> Before at (cw_lastEventAt window) then window
      else
        let window1 = window\<lparr>cw_lastEventAt := at, cw_lastEventRecorded := True\<rparr>
        in if event = statsEventSuccess
           then window1\<lparr>cw_consecutiveFailure := 0, cw_consecutiveProblem := 0,
                  cw_lastFailureCategory := FailureCategoryAmbiguous, cw_lastStatusCode := 0\<rparr>
           else
             let window2 = (if event = statsEventFailure
                   then window1\<lparr>cw_consecutiveFailure := cw_consecutiveFailure window1 + 1\<rparr> else window1)
             in window2\<lparr>cw_consecutiveProblem := cw_consecutiveProblem window2 + 1,
                  cw_lastFailureCategory := category, cw_lastStatusCode := statusCode\<rparr>)"

definition record_window ::
  "statsEvent \<Rightarrow> FailureCategory \<Rightarrow> int \<Rightarrow> time \<Rightarrow> credentialStatsWindow \<Rightarrow> credentialStatsWindow" where
  "record_window event category statusCode at window =
     (let minute = stats_minute at; slot = statsBucketSlot minute
      in case open_bucket (cw_buckets window ! slot) minute of
           None \<Rightarrow> window
         | Some bucket \<Rightarrow>
             note_event event category statusCode at
               (window\<lparr>cw_buckets := (cw_buckets window)[slot := count_event event bucket]\<rparr>))"

definition window_of :: "StatsStore \<Rightarrow> nat \<Rightarrow> credentialStatsWindow" where
  "window_of store credentialID =
     (case map_of (windows store) credentialID of None \<Rightarrow> credentialStatsWindow0 | Some window \<Rightarrow> window)"

definition record_event ::
  "nat \<Rightarrow> statsEvent \<Rightarrow> FailureCategory \<Rightarrow> int \<Rightarrow> time \<Rightarrow> StatsStore \<Rightarrow> StatsStore" where
  "record_event credentialID event category statusCode at store =
     (if credentialID = 0 then store
      else store\<lparr>windows := AList.update credentialID
             (record_window event category statusCode at (window_of store credentialID)) (windows store)\<rparr>)"

definition RecordSuccess :: "nat \<Rightarrow> time \<Rightarrow> StatsStore \<Rightarrow> StatsStore" where
  "RecordSuccess credentialID at = record_event credentialID statsEventSuccess FailureCategoryOK 0 at"

definition RecordFailure :: "nat \<Rightarrow> FailureCategory \<Rightarrow> int \<Rightarrow> time \<Rightarrow> StatsStore \<Rightarrow> StatsStore" where
  "RecordFailure credentialID category statusCode at =
     record_event credentialID statsEventFailure category statusCode at"

definition RecordProblem :: "nat \<Rightarrow> FailureCategory \<Rightarrow> int \<Rightarrow> time \<Rightarrow> StatsStore \<Rightarrow> StatsStore" where
  "RecordProblem credentialID category statusCode at =
     record_event credentialID statsEventProblem category statusCode at"

definition Stats_Reset :: "nat \<Rightarrow> StatsStore \<Rightarrow> StatsStore" where
  "Stats_Reset credentialID store =
     (if credentialID = 0 then store else store\<lparr>windows := AList.delete credentialID (windows store)\<rparr>)"

definition clear_window :: "credentialStatsWindow \<Rightarrow> credentialStatsWindow" where
  "clear_window window = window\<lparr>cw_consecutiveFailure := 0, cw_consecutiveProblem := 0,
     cw_lastFailureCategory := FailureCategoryAmbiguous, cw_lastStatusCode := 0\<rparr>"

definition ClearProblemState :: "nat \<Rightarrow> StatsStore \<Rightarrow> StatsStore" where
  "ClearProblemState credentialID store =
     (if credentialID = 0 then store
      else case map_of (windows store) credentialID of
             None \<Rightarrow> store
           | Some window \<Rightarrow> store\<lparr>windows := AList.update credentialID (clear_window window) (windows store)\<rparr>)"

fun sum_buckets :: "int \<Rightarrow> CredentialStats \<Rightarrow> statsBucket list \<Rightarrow> CredentialStats" where
  "sum_buckets currentMinute stats [] = stats"
| "sum_buckets currentMinute stats (bucket # buckets) =
     (if \<not> sb_valid bucket \<or> sb_minute bucket < currentMinute - (int statsBucketCount - 1)
         \<or> sb_minute bucket > currentMinute
      then sum_buckets currentMinute stats buckets
      else sum_buckets currentMinute
             (stats\<lparr>cs_Success := cs_Success stats + sb_success bucket,
                    cs_Failure := cs_Failure stats + sb_failure bucket,
                    cs_Problem := cs_Problem stats + sb_problem bucket\<rparr>) buckets)"

definition Stats_Snapshot :: "nat \<Rightarrow> time \<Rightarrow> StatsStore \<Rightarrow> CredentialStats" where
  "Stats_Snapshot credentialID now store =
     (if credentialID = 0 then CredentialStats0
      else case map_of (windows store) credentialID of
             None \<Rightarrow> CredentialStats0
           | Some window \<Rightarrow>
               sum_buckets (stats_minute now)
                 (CredentialStats0\<lparr>cs_ConsecutiveFailure := cw_consecutiveFailure window,
                    cs_ConsecutiveProblem := cw_consecutiveProblem window,
                    cs_LastFailureCategory := cw_lastFailureCategory window,
                    cs_LastStatusCode := cw_lastStatusCode window\<rparr>) (cw_buckets window))"

section \<open>Checkpoints\<close>

record StatsBucketCheckpoint =
  bc_Minute :: int
  bc_Valid :: bool
  bc_Success :: uint64
  bc_Failure :: uint64
  bc_Problem :: uint64

record StatsRuntimeCheckpoint =
  rc_CredentialID :: nat
  rc_Buckets :: "StatsBucketCheckpoint list"
  rc_ConsecutiveFailure :: uint64
  rc_ConsecutiveProblem :: uint64
  rc_LastEventAt :: time
  rc_LastEventRecorded :: bool
  rc_LastFailureCategory :: FailureCategory
  rc_LastStatusCode :: int

definition bucket_checkpoint :: "statsBucket \<Rightarrow> StatsBucketCheckpoint" where
  "bucket_checkpoint bucket = \<lparr>bc_Minute = sb_minute bucket, bc_Valid = sb_valid bucket,
     bc_Success = sb_success bucket, bc_Failure = sb_failure bucket, bc_Problem = sb_problem bucket\<rparr>"

definition window_checkpoint :: "nat \<times> credentialStatsWindow \<Rightarrow> StatsRuntimeCheckpoint" where
  "window_checkpoint entry =
     (let (credentialID, window) = entry
      in \<lparr>rc_CredentialID = credentialID, rc_Buckets = map bucket_checkpoint (cw_buckets window),
          rc_ConsecutiveFailure = cw_consecutiveFailure window,
          rc_ConsecutiveProblem = cw_consecutiveProblem window,
          rc_LastEventAt = cw_lastEventAt window, rc_LastEventRecorded = cw_lastEventRecorded window,
          rc_LastFailureCategory = cw_lastFailureCategory window,
          rc_LastStatusCode = cw_lastStatusCode window\<rparr>)"

definition Stats_CaptureRuntimeCheckpoint :: "StatsStore \<Rightarrow> StatsRuntimeCheckpoint list" where
  "Stats_CaptureRuntimeCheckpoint store = sort_key rc_CredentialID (map window_checkpoint (windows store))"

fun restore_buckets :: "statsBucket list \<Rightarrow> StatsBucketCheckpoint list \<Rightarrow> statsBucket list" where
  "restore_buckets buckets [] = buckets"
| "restore_buckets buckets (b # bs) =
     (if \<not> bc_Valid b then restore_buckets buckets bs
      else restore_buckets
             (buckets[statsBucketSlot (bc_Minute b) :=
                \<lparr>sb_minute = bc_Minute b, sb_valid = True, sb_success = bc_Success b,
                 sb_failure = bc_Failure b, sb_problem = bc_Problem b\<rparr>]) bs)"

definition restore_window :: "StatsRuntimeCheckpoint \<Rightarrow> credentialStatsWindow" where
  "restore_window c =
     \<lparr>cw_buckets = restore_buckets (replicate statsBucketCount statsBucket0) (rc_Buckets c),
      cw_consecutiveFailure = rc_ConsecutiveFailure c, cw_consecutiveProblem = rc_ConsecutiveProblem c,
      cw_lastEventAt = rc_LastEventAt c, cw_lastEventRecorded = rc_LastEventRecorded c,
      cw_lastFailureCategory = rc_LastFailureCategory c, cw_lastStatusCode = rc_LastStatusCode c\<rparr>"

fun Stats_RestoreRuntimeCheckpoint :: "StatsRuntimeCheckpoint list \<Rightarrow> StatsStore \<Rightarrow> int \<times> StatsStore" where
  "Stats_RestoreRuntimeCheckpoint [] store = (0, store)"
| "Stats_RestoreRuntimeCheckpoint (c # cs) store =
     (if rc_CredentialID c = 0 \<or> length (rc_Buckets c) > statsBucketCount
      then Stats_RestoreRuntimeCheckpoint cs store
      else
        let (restored, store') = Stats_RestoreRuntimeCheckpoint cs
              (store\<lparr>windows := AList.update (rc_CredentialID c) (restore_window c) (windows store)\<rparr>)
        in (restored + 1, store'))"

section \<open>The ring and the log of events\<close>

lemma statsBucketSlot_mod: "statsBucketSlot m = nat (m mod 5)"
proof -
  have "m smod 5 = (if m < 0 then - ((- m) mod 5) else m mod 5)"
    by (auto simp: signed_modulo_int_def signed_divide_int_def minus_mult_div_eq_mod sgn_if)
  moreover have "m < 0 \<Longrightarrow> - m mod 5 \<noteq> 0 \<Longrightarrow> m mod 5 = 5 - (- m) mod 5" by presburger
  moreover have "- m mod 5 = 0 \<Longrightarrow> m mod 5 = 0" by presburger
  moreover have "0 \<le> - m mod 5" by simp
  ultimately show ?thesis
    by (auto simp: statsBucketSlot_def Let_def statsBucketCount_def)
qed

lemma statsBucketSlot_less [simp]: "statsBucketSlot m < 5"
  by (simp add: statsBucketSlot_mod nat_less_iff)

lemma statsBucketSlot_window:
  "bij_betw statsBucketSlot {cur - 4..cur} {..<5}"
proof -
  have "inj_on statsBucketSlot {cur - 4..cur}"
  proof (rule inj_onI)
    fix x y assume *: "x \<in> {cur - 4..cur}" "y \<in> {cur - 4..cur}" "statsBucketSlot x = statsBucketSlot y"
    have "x mod 5 = y mod 5" using *(3) by (simp add: statsBucketSlot_mod eq_nat_nat_iff)
    then obtain k where "x - y = 5 * k" by (metis dvdE mod_eq_dvd_iff)
    moreover from this *(1,2) have "- 4 \<le> 5 * k" "5 * k \<le> 4" by auto
    then have "k = 0" by presburger
    ultimately show "x = y" by simp
  qed
  moreover from this have "card (statsBucketSlot ` {cur - 4..cur}) = card {..<5::nat}" by (simp add: card_image)
  then have "statsBucketSlot ` {cur - 4..cur} = {..<5}" by (intro card_subset_eq) auto
  ultimately show ?thesis by (simp add: bij_betw_def)
qed

text \<open>The events of one credential, oldest first, and how many of them have a property.\<close>

type_synonym event_log = "(statsEvent \<times> time) list"

definition log_count :: "(statsEvent \<Rightarrow> bool) \<Rightarrow> (int \<Rightarrow> bool) \<Rightarrow> event_log \<Rightarrow> nat" where
  "log_count E M L = length (filter (\<lambda>(e, at). E e \<and> M (stats_minute at)) L)"

lemma log_count_snoc [simp]:
  "log_count E M (L @ [(e, at)]) = log_count E M L + (if E e \<and> M (stats_minute at) then 1 else 0)"
  by (simp add: log_count_def)

lemma log_count_Nil [simp]: "log_count E M [] = 0"
  by (simp add: log_count_def)

lemma log_count_0: "(\<And>e at. (e, at) \<in> set L \<Longrightarrow> \<not> M (stats_minute at)) \<Longrightarrow> log_count E M L = 0"
  by (auto simp: log_count_def filter_empty_conv)

lemma log_count_sum:
  assumes "finite W"
  shows "(\<Sum>m\<in>W. log_count E ((=) m) L) = log_count E (\<lambda>m. m \<in> W) L"
proof (induction L rule: rev_induct)
  case (snoc p L)
  obtain e at where "p = (e, at)" by (cases p)
  then show ?case using snoc assms by (cases "E e") (simp_all add: sum.distrib)
qed simp

text \<open>What the bucket in one slot says about the log.\<close>

definition bucket_inv :: "event_log \<Rightarrow> nat \<Rightarrow> statsBucket \<Rightarrow> bool" where
  "bucket_inv L i b \<longleftrightarrow>
     (if sb_valid b then
        statsBucketSlot (sb_minute b) = i
        \<and> (\<exists>(e, at) \<in> set L. stats_minute at = sb_minute b)
        \<and> (\<forall>(e, at) \<in> set L. statsBucketSlot (stats_minute at) = i \<longrightarrow> stats_minute at \<le> sb_minute b)
        \<and> sb_success b = of_nat (log_count ((=) statsEventSuccess) ((=) (sb_minute b)) L)
        \<and> sb_failure b = of_nat (log_count ((=) statsEventFailure) ((=) (sb_minute b)) L)
        \<and> sb_problem b = of_nat (log_count ((\<noteq>) statsEventSuccess) ((=) (sb_minute b)) L)
      else b = statsBucket0 \<and> (\<forall>(e, at) \<in> set L. statsBucketSlot (stats_minute at) \<noteq> i))"

definition ring_inv :: "event_log \<Rightarrow> statsBucket list \<Rightarrow> bool" where
  "ring_inv L bs \<longleftrightarrow> length bs = 5 \<and> (\<forall>i < 5. bucket_inv L i (bs ! i))"

lemma ring_inv_initial: "ring_inv [] (replicate statsBucketCount statsBucket0)"
  by (simp add: ring_inv_def bucket_inv_def statsBucketCount_def statsBucket0_def)

lemma bucket_inv_other:
  assumes "bucket_inv L i b" and "statsBucketSlot (stats_minute at) \<noteq> i"
  shows "bucket_inv (L @ [(e, at)]) i b"
  using assms by (auto simp: bucket_inv_def split: if_splits)

lemma bucket_inv_refused:
  assumes "bucket_inv L i b" and "open_bucket b (stats_minute at) = None"
  shows "bucket_inv (L @ [(e, at)]) i b"
  using assms by (auto simp: bucket_inv_def open_bucket_def split: if_splits)

lemma bucket_inv_counted:
  assumes inv: "bucket_inv L (statsBucketSlot (stats_minute at)) b" and ob: "open_bucket b (stats_minute at) = Some b'"
  shows "bucket_inv (L @ [(e, at)]) (statsBucketSlot (stats_minute at)) (count_event e b')"
proof -
  let ?m = "stats_minute at"
  let ?i = "statsBucketSlot ?m"
  have b': "sb_valid b' \<and> sb_minute b' = ?m
    \<and> sb_success b' = of_nat (log_count ((=) statsEventSuccess) ((=) ?m) L)
    \<and> sb_failure b' = of_nat (log_count ((=) statsEventFailure) ((=) ?m) L)
    \<and> sb_problem b' = of_nat (log_count ((\<noteq>) statsEventSuccess) ((=) ?m) L)
    \<and> (\<forall>(e, t) \<in> set L. statsBucketSlot (stats_minute t) = ?i \<longrightarrow> stats_minute t \<le> ?m)"
  proof (cases "\<not> sb_valid b \<or> ?m > sb_minute b")
    case True
    then have fresh: "b' = statsBucket0\<lparr>sb_minute := ?m, sb_valid := True\<rparr>" using ob by (auto simp: open_bucket_def)
    have old: "stats_minute t < ?m" if "(f, t) \<in> set L" "statsBucketSlot (stats_minute t) = ?i" for f t
      using inv True that by (fastforce simp: bucket_inv_def split: if_splits)
    then have "log_count E ((=) ?m) L = 0" for E by (intro log_count_0) force
    with old fresh show ?thesis by (force simp: statsBucket0_def)
  next
    case False
    with ob have "b' = b" "sb_valid b" "sb_minute b = ?m" by (auto simp: open_bucket_def split: if_splits)
    with inv show ?thesis by (simp add: bucket_inv_def)
  qed
  then show ?thesis
    by (cases e) (auto simp: bucket_inv_def count_event_def Let_def)
qed

lemma note_event_buckets [simp]: "cw_buckets (note_event e cat code at w) = cw_buckets w"
  by (simp add: note_event_def Let_def)

lemma record_window_ring:
  assumes "ring_inv L (cw_buckets w)"
  shows "ring_inv (L @ [(e, at)]) (cw_buckets (record_window e cat code at w))"
proof (cases "open_bucket (cw_buckets w ! statsBucketSlot (stats_minute at)) (stats_minute at)")
  case None
  then show ?thesis
    using assms by (auto simp: ring_inv_def record_window_def Let_def intro: bucket_inv_refused bucket_inv_other)
next
  case (Some b)
  then show ?thesis
    using assms by (auto simp: ring_inv_def record_window_def Let_def nth_list_update intro: bucket_inv_counted bucket_inv_other)
qed

section \<open>Runs\<close>

datatype StatsOp =
    OpRecord nat statsEvent FailureCategory int time
  | OpReset nat
  | OpClear nat

fun stats_op :: "StatsOp \<Rightarrow> StatsStore \<Rightarrow> StatsStore" where
  "stats_op (OpRecord c e cat code at) store = record_event c e cat code at store"
| "stats_op (OpReset c) store = Stats_Reset c store"
| "stats_op (OpClear c) store = ClearProblemState c store"

definition run_stats :: "StatsOp list \<Rightarrow> StatsStore" where
  "run_stats ops = fold stats_op ops NewStatsStore"

text \<open>The log of a credential since its last reset, and since its last reset or clearing.\<close>

fun log_op :: "nat \<Rightarrow> StatsOp \<Rightarrow> event_log \<Rightarrow> event_log" where
  "log_op c (OpRecord d e cat code at) L = (if d = c then L @ [(e, at)] else L)"
| "log_op c (OpReset d) L = (if d = c then [] else L)"
| "log_op c (OpClear d) L = L"

fun trail_op :: "nat \<Rightarrow> StatsOp \<Rightarrow> event_log \<Rightarrow> event_log" where
  "trail_op c (OpClear d) L = (if d = c then [] else L)"
| "trail_op c oper L = log_op c oper L"

definition log_of :: "nat \<Rightarrow> StatsOp list \<Rightarrow> event_log" where
  "log_of c ops = fold (log_op c) ops []"

definition trail_of :: "nat \<Rightarrow> StatsOp list \<Rightarrow> event_log" where
  "trail_of c ops = fold (trail_op c) ops []"

lemma run_stats_snoc [simp]: "run_stats (ops @ [oper]) = stats_op oper (run_stats ops)"
  by (simp add: run_stats_def)

lemma log_of_snoc [simp]: "log_of c (ops @ [oper]) = log_op c oper (log_of c ops)"
  by (simp add: log_of_def)

lemma trail_of_snoc [simp]: "trail_of c (ops @ [oper]) = trail_op c oper (trail_of c ops)"
  by (simp add: trail_of_def)

lemma run_stats_Nil [simp]: "run_stats [] = NewStatsStore" "log_of c [] = []" "trail_of c [] = []"
  by (simp_all add: run_stats_def log_of_def trail_of_def)

lemma windows_after_op:
  assumes "c \<noteq> 0"
  shows "map_of (windows (stats_op oper store)) c =
    (case oper of
       OpRecord d e cat code at \<Rightarrow> if d = c then Some (record_window e cat code at (window_of store c)) else map_of (windows store) c
     | OpReset d \<Rightarrow> if d = c then None else map_of (windows store) c
     | OpClear d \<Rightarrow> if d = c then map_option clear_window (map_of (windows store) c) else map_of (windows store) c)"
  using assms
  by (cases oper) (auto simp: record_event_def Stats_Reset_def ClearProblemState_def split: option.split)

lemma run_ring:
  assumes "c \<noteq> 0"
  shows "case map_of (windows (run_stats ops)) c of
      None \<Rightarrow> log_of c ops = [] | Some w \<Rightarrow> ring_inv (log_of c ops) (cw_buckets w)"
proof (induction ops rule: rev_induct)
  case Nil
  then show ?case by (simp add: NewStatsStore_def)
next
  case (snoc oper ops)
  have start: "ring_inv (log_of c ops) (cw_buckets (window_of (run_stats ops) c))"
    using snoc ring_inv_initial by (auto simp: window_of_def credentialStatsWindow0_def split: option.splits)
  show ?case
    using snoc record_window_ring [OF start]
    by (cases oper) (auto simp: windows_after_op [OF assms] clear_window_def simp del: stats_op.simps split: option.splits)
qed

lemma sum_buckets_eq:
  "sum_buckets cur st bs =
     st\<lparr>cs_Success := cs_Success st + (\<Sum>b\<leftarrow>filter (\<lambda>b. sb_valid b \<and> sb_minute b \<in> {cur - 4..cur}) bs. sb_success b),
        cs_Failure := cs_Failure st + (\<Sum>b\<leftarrow>filter (\<lambda>b. sb_valid b \<and> sb_minute b \<in> {cur - 4..cur}) bs. sb_failure b),
        cs_Problem := cs_Problem st + (\<Sum>b\<leftarrow>filter (\<lambda>b. sb_valid b \<and> sb_minute b \<in> {cur - 4..cur}) bs. sb_problem b)\<rparr>"
  by (induction cur st bs rule: sum_buckets.induct) (auto simp: statsBucketCount_def add.assoc)

text \<open>The part of a sum over the ring that a window of five minutes sees.\<close>

lemma ring_window_sum:
  fixes cnt :: "statsBucket \<Rightarrow> uint64"
  assumes ring: "ring_inv L bs" and past: "\<And>e at. (e, at) \<in> set L \<Longrightarrow> stats_minute at \<le> cur"
    and cnt: "\<And>i. i < 5 \<Longrightarrow> sb_valid (bs ! i) \<Longrightarrow> cnt (bs ! i) = of_nat (log_count E ((=) (sb_minute (bs ! i))) L)"
  shows "(\<Sum>b\<leftarrow>filter (\<lambda>b. sb_valid b \<and> sb_minute b \<in> {cur - 4..cur}) bs. cnt b)
    = of_nat (log_count E (\<lambda>m. cur - 4 \<le> m \<and> m \<le> cur) L)"
proof -
  let ?g = "\<lambda>b. if sb_valid b \<and> sb_minute b \<in> {cur - 4..cur} then cnt b else 0"
  have len: "length bs = 5" using ring by (simp add: ring_inv_def)
  have slot: "?g (bs ! statsBucketSlot m) = of_nat (log_count E ((=) m) L)" if m: "m \<in> {cur - 4..cur}" for m
  proof -
    let ?b = "bs ! statsBucketSlot m"
    have inv: "bucket_inv L (statsBucketSlot m) ?b" using ring by (simp add: ring_inv_def)
    show ?thesis
    proof (cases "sb_valid ?b \<and> sb_minute ?b \<in> {cur - 4..cur}")
      case True
      then have "statsBucketSlot (sb_minute ?b) = statsBucketSlot m" using inv by (simp add: bucket_inv_def)
      then have "sb_minute ?b = m"
        using inj_onD [OF bij_betw_imp_inj_on [OF statsBucketSlot_window [of cur]]] True m by blast
      with True cnt [of "statsBucketSlot m"] show ?thesis by auto
    next
      case False
      have "stats_minute at \<noteq> m" if "(e, at) \<in> set L" for e at
        using inv False past m that by (fastforce simp: bucket_inv_def split: if_splits)
      then have "log_count E ((=) m) L = 0" by (intro log_count_0) blast
      with False show ?thesis by auto
    qed
  qed
  have "(\<Sum>b\<leftarrow>filter (\<lambda>b. sb_valid b \<and> sb_minute b \<in> {cur - 4..cur}) bs. cnt b) = (\<Sum>b\<leftarrow>bs. ?g b)"
    by (simp add: sum_list_map_filter')
  also have "\<dots> = (\<Sum>i<5. ?g (bs ! i))"
    by (simp add: sum_list_sum_nth len atLeast0LessThan)
  also have "\<dots> = (\<Sum>m\<in>{cur - 4..cur}. ?g (bs ! statsBucketSlot m))"
    using sum.reindex_bij_betw [OF statsBucketSlot_window [of cur], of "\<lambda>i. ?g (bs ! i)"] by simp
  also have "\<dots> = (\<Sum>m\<in>{cur - 4..cur}. of_nat (log_count E ((=) m) L))"
    by (intro sum.cong refl slot)
  also have "\<dots> = of_nat (log_count E (\<lambda>m. cur - 4 \<le> m \<and> m \<le> cur) L)"
    using log_count_sum [of "{cur - 4..cur}" E L] by (simp flip: of_nat_sum)
  finally show ?thesis .
qed

text \<open>
  Property C25. After any sequence of recordings, resets and clearings, in whatever
  order the instants arrive, the snapshot of a credential counts exactly the
  events since its last reset that fall into the current minute and the four
  before it (modulo the width of the counters), provided no event lies in the
  future of the snapshot. Recycling ring slots loses and duplicates nothing.
\<close>

theorem stats_window_counts_log:
  assumes c: "c \<noteq> 0" and past: "\<And>e at. (e, at) \<in> set (log_of c ops) \<Longrightarrow> stats_minute at \<le> stats_minute now"
  shows "cs_Success (Stats_Snapshot c now (run_stats ops)) =
      of_nat (log_count ((=) statsEventSuccess) (\<lambda>m. stats_minute now - 4 \<le> m \<and> m \<le> stats_minute now) (log_of c ops))
    \<and> cs_Failure (Stats_Snapshot c now (run_stats ops)) =
      of_nat (log_count ((=) statsEventFailure) (\<lambda>m. stats_minute now - 4 \<le> m \<and> m \<le> stats_minute now) (log_of c ops))
    \<and> cs_Problem (Stats_Snapshot c now (run_stats ops)) =
      of_nat (log_count ((\<noteq>) statsEventSuccess) (\<lambda>m. stats_minute now - 4 \<le> m \<and> m \<le> stats_minute now) (log_of c ops))"
proof (cases "map_of (windows (run_stats ops)) c")
  case None
  then show ?thesis using run_ring [OF c, of ops] by (simp add: Stats_Snapshot_def CredentialStats0_def)
next
  case (Some w)
  then have ring: "ring_inv (log_of c ops) (cw_buckets w)" using run_ring [OF c, of ops] by simp
  have inv: "bucket_inv (log_of c ops) i (cw_buckets w ! i)" if "i < 5" for i
    using ring that by (simp add: ring_inv_def)
  note window = ring_window_sum [OF ring past]
  have success: "sb_valid (cw_buckets w ! i) \<Longrightarrow> sb_success (cw_buckets w ! i) =
      of_nat (log_count ((=) statsEventSuccess) ((=) (sb_minute (cw_buckets w ! i))) (log_of c ops))" if "i < 5" for i
    using inv [OF that] by (simp add: bucket_inv_def)
  have failure: "sb_valid (cw_buckets w ! i) \<Longrightarrow> sb_failure (cw_buckets w ! i) =
      of_nat (log_count ((=) statsEventFailure) ((=) (sb_minute (cw_buckets w ! i))) (log_of c ops))" if "i < 5" for i
    using inv [OF that] by (simp add: bucket_inv_def)
  have problem: "sb_valid (cw_buckets w ! i) \<Longrightarrow> sb_problem (cw_buckets w ! i) =
      of_nat (log_count ((\<noteq>) statsEventSuccess) ((=) (sb_minute (cw_buckets w ! i))) (log_of c ops))" if "i < 5" for i
    using inv [OF that] by (simp add: bucket_inv_def)
  show ?thesis
    using c Some window [OF _ success] window [OF _ failure] window [OF _ problem]
    by (simp add: Stats_Snapshot_def sum_buckets_eq CredentialStats0_def)
qed

theorem stats_window_counts_log_witness:
  "cs_Failure (Stats_Snapshot 7 (unix_epoch + 10 * Minute)
     (run_stats [OpRecord 7 statsEventFailure FailureCategoryInvalidKey 401 (unix_epoch + 3 * Minute),
                 OpRecord 7 statsEventFailure FailureCategoryInvalidKey 401 (unix_epoch + 8 * Minute),
                 OpRecord 7 statsEventFailure FailureCategoryInvalidKey 401 (unix_epoch + 7 * Minute)])) = 2"
proof -
  let ?ops = "[OpRecord 7 statsEventFailure FailureCategoryInvalidKey 401 (unix_epoch + 3 * Minute),
                 OpRecord 7 statsEventFailure FailureCategoryInvalidKey 401 (unix_epoch + 8 * Minute),
                 OpRecord 7 statsEventFailure FailureCategoryInvalidKey 401 (unix_epoch + 7 * Minute)]"
  have past: "stats_minute at \<le> stats_minute (unix_epoch + 10 * Minute)" if "(e, at) \<in> set (log_of 7 ?ops)" for e at
  proof -
    have "at \<in> {unix_epoch + 3 * Minute, unix_epoch + 8 * Minute, unix_epoch + 7 * Minute}"
      using that by (auto simp: log_of_def)
    moreover have "stats_minute (unix_epoch + 3 * Minute) \<le> stats_minute (unix_epoch + 10 * Minute)"
      "stats_minute (unix_epoch + 8 * Minute) \<le> stats_minute (unix_epoch + 10 * Minute)"
      "stats_minute (unix_epoch + 7 * Minute) \<le> stats_minute (unix_epoch + 10 * Minute)" by code_simp+
    ultimately show ?thesis by auto
  qed
  have "log_count ((=) statsEventFailure) (\<lambda>m. stats_minute (unix_epoch + 10 * Minute) - 4 \<le> m
      \<and> m \<le> stats_minute (unix_epoch + 10 * Minute)) (log_of 7 ?ops) = 2" by code_simp
  then show ?thesis using stats_window_counts_log [of 7 ?ops "unix_epoch + 10 * Minute", OF _ past] by simp
qed

section \<open>The run of problems\<close>

text \<open>The events after the last success.\<close>

definition problem_run :: "event_log \<Rightarrow> event_log" where
  "problem_run L = takeWhile (\<lambda>(e, at). e \<noteq> statsEventSuccess) (rev L)"

definition in_order :: "event_log \<Rightarrow> bool" where
  "in_order L \<longleftrightarrow> sorted (map snd L) \<and> (\<forall>(e, at) \<in> set L. int64 (at - unix_epoch))"

lemma in_order_snoc:
  "in_order (L @ [(e, at)]) \<longleftrightarrow> in_order L \<and> int64 (at - unix_epoch) \<and> (\<forall>(f, t) \<in> set L. t \<le> at)"
  by (auto simp: in_order_def sorted_append)

lemma stats_minute_mono:
  assumes "t \<le> u" and "int64 (t - unix_epoch)" and "int64 (u - unix_epoch)"
  shows "stats_minute t \<le> stats_minute u"
proof -
  have mono: "x sdiv 60000000000 \<le> y sdiv 60000000000" if "x \<le> y" for x y :: int
  proof (cases "0 \<le> x")
    case True
    with that show ?thesis by (simp add: signed_divide_int_def sgn_if zdiv_mono1 pos_imp_zdiv_nonneg_iff)
  next
    case False
    have "0 \<le> \<bar>x\<bar> div 60000000000" "0 \<le> \<bar>y\<bar> div 60000000000" by simp_all
    moreover have "y < 0 \<Longrightarrow> - y div 60000000000 \<le> - x div 60000000000" using that by (simp add: zdiv_mono1)
    ultimately show ?thesis using False by (auto simp: signed_divide_int_def sgn_if)
  qed
  show ?thesis
    using assms mono [of "t - unix_epoch" "u - unix_epoch"]
    by (simp add: stats_minute_def UnixNano_def statsBucketWidth_def Minute_def)
qed

definition run_inv :: "event_log \<Rightarrow> event_log \<Rightarrow> credentialStatsWindow \<Rightarrow> bool" where
  "run_inv L T w \<longleftrightarrow> ring_inv L (cw_buckets w)
     \<and> cw_consecutiveFailure w = of_nat (length (filter (\<lambda>(e, at). e = statsEventFailure) (problem_run T)))
     \<and> cw_consecutiveProblem w = of_nat (length (problem_run T))
     \<and> (if L = [] then w = credentialStatsWindow0 \<and> T = [] else cw_lastEventRecorded w \<and> cw_lastEventAt w = snd (last L))"

lemma problem_run_snoc [simp]:
  "problem_run (L @ [(e, at)]) = (if e = statsEventSuccess then [] else (e, at) # problem_run L)"
  "problem_run [] = []"
  by (simp_all add: problem_run_def)

lemma note_event_run:
  assumes inv: "run_inv L T w" and ordered: "in_order (L @ [(e, at)])"
  shows "run_inv (L @ [(e, at)]) (T @ [(e, at)]) (record_window e cat code at w)"
proof -
  let ?b = "cw_buckets w ! statsBucketSlot (stats_minute at)"
  have ring: "ring_inv L (cw_buckets w)" using inv by (simp add: run_inv_def)
  have old: "stats_minute t \<le> stats_minute at" if "(f, t) \<in> set L" for f t
    using that ordered by (auto simp: in_order_def sorted_append intro!: stats_minute_mono)
  have "bucket_inv L (statsBucketSlot (stats_minute at)) ?b" using ring by (simp add: ring_inv_def)
  then have "open_bucket ?b (stats_minute at) \<noteq> None"
    using old by (fastforce simp: bucket_inv_def open_bucket_def split: if_splits)
  then obtain b where b: "open_bucket ?b (stats_minute at) = Some b" by blast
  have "\<not> (cw_lastEventRecorded w \<and> Before at (cw_lastEventAt w))"
  proof (cases "L = []")
    case False
    then have "last L \<in> set L" by simp
    with ordered False inv show ?thesis by (cases "last L") (auto simp: in_order_snoc run_inv_def Before_def)
  qed (use inv in \<open>simp add: run_inv_def credentialStatsWindow0_def\<close>)
  then show ?thesis
    using record_window_ring [OF ring, of e at cat code] inv b
    by (cases e) (auto simp: run_inv_def record_window_def note_event_def Let_def)
qed

lemma run_trail:
  assumes c: "c \<noteq> 0" and ordered: "in_order (log_of c ops)"
  shows "case map_of (windows (run_stats ops)) c of
      None \<Rightarrow> log_of c ops = [] \<and> trail_of c ops = [] | Some w \<Rightarrow> run_inv (log_of c ops) (trail_of c ops) w \<and> log_of c ops \<noteq> []"
  using ordered
proof (induction ops rule: rev_induct)
  case Nil
  then show ?case by (simp add: NewStatsStore_def)
next
  case (snoc oper ops)
  show ?case
  proof (cases oper)
    case (OpRecord d e cat code at)
    with snoc.prems have "in_order (log_of c ops)" by (auto simp: in_order_snoc split: if_splits)
    note IH = snoc.IH [OF this]
    have start: "run_inv (log_of c ops) (trail_of c ops) (window_of (run_stats ops) c)"
      using IH ring_inv_initial
      by (auto simp: window_of_def run_inv_def credentialStatsWindow0_def split: option.splits)
    show ?thesis
    proof (cases "d = c")
      case True
      with snoc.prems OpRecord note_event_run [OF start, of e at cat code] show ?thesis
        by (simp add: windows_after_op [OF c] del: stats_op.simps)
    qed (use IH OpRecord in \<open>auto simp: windows_after_op [OF c] simp del: stats_op.simps split: option.splits\<close>)
  next
    case (OpReset d)
    with snoc show ?thesis by (auto simp: windows_after_op [OF c] simp del: stats_op.simps split: option.splits)
  next
    case (OpClear d)
    with snoc show ?thesis
      by (auto simp: windows_after_op [OF c] run_inv_def clear_window_def simp del: stats_op.simps split: option.splits)
  qed
qed

text \<open>
  For events that arrive in the order of their instants, the
  consecutive counters are the length of the run of problems, and the number of
  failures in it, since the last success, clearing or reset.
\<close>

theorem stats_consecutive_counts_run:
  assumes c: "c \<noteq> 0" and ordered: "in_order (log_of c ops)"
  shows "cs_ConsecutiveProblem (Stats_Snapshot c now (run_stats ops)) = of_nat (length (problem_run (trail_of c ops)))
    \<and> cs_ConsecutiveFailure (Stats_Snapshot c now (run_stats ops)) =
        of_nat (length (filter (\<lambda>(e, at). e = statsEventFailure) (problem_run (trail_of c ops))))"
proof (cases "map_of (windows (run_stats ops)) c")
  case None
  then show ?thesis using run_trail [OF assms] by (simp add: Stats_Snapshot_def CredentialStats0_def)
next
  case (Some w)
  then show ?thesis
    using run_trail [OF assms] c by (simp add: Stats_Snapshot_def sum_buckets_eq CredentialStats0_def run_inv_def)
qed

theorem stats_consecutive_counts_run_witness:
  "cs_ConsecutiveFailure (Stats_Snapshot 7 unix_epoch
     (run_stats [OpRecord 7 statsEventSuccess FailureCategoryOK 0 unix_epoch,
                 OpRecord 7 statsEventProblem FailureCategoryRateLimited 429 (unix_epoch + Second),
                 OpRecord 7 statsEventFailure FailureCategoryInvalidKey 401 (unix_epoch + 2 * Second)])) = 1"
proof -
  let ?ops = "[OpRecord 7 statsEventSuccess FailureCategoryOK 0 unix_epoch,
                 OpRecord 7 statsEventProblem FailureCategoryRateLimited 429 (unix_epoch + Second),
                 OpRecord 7 statsEventFailure FailureCategoryInvalidKey 401 (unix_epoch + 2 * Second)]"
  have "in_order (log_of 7 ?ops)" by code_simp
  moreover have "length (filter (\<lambda>(e, at). e = statsEventFailure) (problem_run (trail_of 7 ?ops))) = 1" by code_simp
  ultimately show ?thesis using stats_consecutive_counts_run [of 7 ?ops unix_epoch] by simp
qed

section \<open>Checkpoints restore the store\<close>

text \<open>What every reachable window satisfies, whatever its log.\<close>

definition window_ok :: "credentialStatsWindow \<Rightarrow> bool" where
  "window_ok w \<longleftrightarrow> length (cw_buckets w) = 5
     \<and> (\<forall>i < 5. if sb_valid (cw_buckets w ! i) then statsBucketSlot (sb_minute (cw_buckets w ! i)) = i
                else cw_buckets w ! i = statsBucket0)"

lemma ring_window_ok: "ring_inv L (cw_buckets w) \<Longrightarrow> window_ok w"
  by (auto simp: ring_inv_def bucket_inv_def window_ok_def split: if_splits)

lemma run_windows:
  "wf_map (windows (run_stats ops)) \<and> 0 \<notin> set (keys (windows (run_stats ops)))"
proof (induction ops rule: rev_induct)
  case (snoc oper ops)
  then show ?case
    by (cases oper) (auto simp: record_event_def Stats_Reset_def ClearProblemState_def update_keys
        dom_update delete_keys distinct_removeAll simp flip: set_map split: option.split)
qed (simp add: NewStatsStore_def)

lemma restore_buckets_length [simp]: "length (restore_buckets bs cs) = length bs"
  by (induction bs cs rule: restore_buckets.induct) simp_all

lemma restore_buckets_nth:
  assumes "length bs = 5"
    and "\<And>j. j < length xs \<Longrightarrow> sb_valid (xs ! j) \<Longrightarrow> statsBucketSlot (sb_minute (xs ! j)) = k + j"
    and "i < 5"
  shows "restore_buckets bs (map bucket_checkpoint xs) ! i =
    (if k \<le> i \<and> i < k + length xs \<and> sb_valid (xs ! (i - k)) then xs ! (i - k) else bs ! i)"
  using assms(1,2)
proof (induction xs arbitrary: bs k)
  case Nil
  then show ?case by auto
next
  case (Cons x xs)
  let ?bs = "if sb_valid x then bs[k := x] else bs"
  have slot: "sb_valid x \<Longrightarrow> statsBucketSlot (sb_minute x) = k" using Cons.prems(2) [of 0] by simp
  have head: "restore_buckets bs (map bucket_checkpoint (x # xs)) = restore_buckets ?bs (map bucket_checkpoint xs)"
    using slot by (cases x) (simp add: bucket_checkpoint_def)
  have "restore_buckets ?bs (map bucket_checkpoint xs) ! i =
      (if Suc k \<le> i \<and> i < Suc k + length xs \<and> sb_valid (xs ! (i - Suc k)) then xs ! (i - Suc k) else ?bs ! i)"
    using Cons.prems Cons.prems(2) [of "Suc _"] by (intro Cons.IH) auto
  moreover consider "i = k" | "i < k" | "k < i" by linarith
  then have "(if Suc k \<le> i \<and> i < Suc k + length xs \<and> sb_valid (xs ! (i - Suc k)) then xs ! (i - Suc k) else ?bs ! i) =
      (if k \<le> i \<and> i < k + length (x # xs) \<and> sb_valid ((x # xs) ! (i - k)) then (x # xs) ! (i - k) else bs ! i)"
  proof cases
    case 3
    then have "i - k = Suc (i - Suc k)" by simp
    with 3 show ?thesis by simp
  qed (use Cons.prems(1) assms(3) in auto)
  ultimately show ?case unfolding head by simp
qed

lemma restore_window_checkpoint:
  assumes "window_ok w"
  shows "restore_window (window_checkpoint (c, w)) = w"
proof -
  have len: "length (cw_buckets w) = 5" using assms by (simp add: window_ok_def)
  have "restore_buckets (replicate statsBucketCount statsBucket0) (map bucket_checkpoint (cw_buckets w)) = cw_buckets w"
  proof (rule nth_equalityI)
    fix i assume "i < length (restore_buckets (replicate statsBucketCount statsBucket0) (map bucket_checkpoint (cw_buckets w)))"
    then have i: "i < 5" by (simp add: statsBucketCount_def)
    show "restore_buckets (replicate statsBucketCount statsBucket0) (map bucket_checkpoint (cw_buckets w)) ! i = cw_buckets w ! i"
      using restore_buckets_nth [of "replicate statsBucketCount statsBucket0" "cw_buckets w" 0, OF _ _ i] assms i len
      by (auto simp: window_ok_def statsBucketCount_def split: if_splits)
  qed (simp add: len statsBucketCount_def)
  then show ?thesis by (cases w) (simp add: restore_window_def window_checkpoint_def)
qed

lemma restore_checkpoints:
  assumes "\<And>c w. (c, w) \<in> set es \<Longrightarrow> c \<noteq> 0 \<and> window_ok w" and "wf_map es"
  shows "fst (Stats_RestoreRuntimeCheckpoint (map window_checkpoint es) store) = int (length es)
    \<and> map_of (windows (snd (Stats_RestoreRuntimeCheckpoint (map window_checkpoint es) store))) = map_of (windows store) ++ map_of es"
  using assms
proof (induction es arbitrary: store)
  case (Cons p es)
  obtain c w where p: "p = (c, w)" by (cases p)
  have ok: "c \<noteq> 0" "window_ok w" using Cons.prems(1) p by auto
  then have len: "length (rc_Buckets (window_checkpoint (c, w))) = 5" "rc_CredentialID (window_checkpoint (c, w)) = c"
    by (simp_all add: window_checkpoint_def window_ok_def)
  let ?st = "store\<lparr>windows := AList.update c w (windows store)\<rparr>"
  have "fst (Stats_RestoreRuntimeCheckpoint (map window_checkpoint es) ?st) = int (length es)
    \<and> map_of (windows (snd (Stats_RestoreRuntimeCheckpoint (map window_checkpoint es) ?st))) = map_of (windows ?st) ++ map_of es"
    using Cons.prems by (intro Cons.IH) auto
  moreover have "c \<notin> dom (map_of es)" using Cons.prems(2) p by (simp add: dom_map_of_conv_image_fst)
  ultimately show ?case
    using ok len p restore_window_checkpoint [OF ok(2), of c]
    by (auto simp: statsBucketCount_def split_beta fun_eq_iff map_add_def split: option.split)
qed simp

text \<open>
  Restart round trip. Restoring the captured checkpoint of any
  reachable store into a fresh one brings back the window of every credential and
  reports how many were restored; the checkpoint lists the credentials in
  ascending order, whatever the iteration order of the map.
\<close>

theorem stats_checkpoint_roundtrip:
  "map_of (windows (snd (Stats_RestoreRuntimeCheckpoint (Stats_CaptureRuntimeCheckpoint (run_stats ops)) NewStatsStore)))
      = map_of (windows (run_stats ops))
   \<and> fst (Stats_RestoreRuntimeCheckpoint (Stats_CaptureRuntimeCheckpoint (run_stats ops)) NewStatsStore)
      = int (length (windows (run_stats ops)))
   \<and> sorted (map rc_CredentialID (Stats_CaptureRuntimeCheckpoint (run_stats ops)))"
proof -
  let ?es = "windows (run_stats ops)"
  have ids: "rc_CredentialID (window_checkpoint e) = fst e" for e by (simp add: window_checkpoint_def split_beta)
  have sorted: "Stats_CaptureRuntimeCheckpoint (run_stats ops) = map window_checkpoint (sort_key fst ?es)"
    unfolding Stats_CaptureRuntimeCheckpoint_def by (simp add: sort_key_map_conv ids o_def)
  have "c \<noteq> 0 \<and> window_ok w" if "(c, w) \<in> set ?es" for c w
  proof
    show c: "c \<noteq> 0" using that run_windows [of ops] by force
    have "map_of ?es c = Some w" using that run_windows [of ops] by simp
    with run_ring [OF c, of ops] show "window_ok w" by (auto intro: ring_window_ok)
  qed
  moreover have distinct: "wf_map (sort_key fst ?es)" using run_windows [of ops]
    by (metis distinct_map distinct_sort set_sort)
  ultimately have "fst (Stats_RestoreRuntimeCheckpoint (map window_checkpoint (sort_key fst ?es)) NewStatsStore) = int (length ?es)
    \<and> map_of (windows (snd (Stats_RestoreRuntimeCheckpoint (map window_checkpoint (sort_key fst ?es)) NewStatsStore)))
      = map_of (sort_key fst ?es)"
    using restore_checkpoints [of "sort_key fst ?es" NewStatsStore] by (simp add: NewStatsStore_def)
  moreover have "map_of (sort_key fst ?es) = map_of ?es"
    using distinct run_windows [of ops] by (intro map_of_eqI) (auto simp: map_of_eq_Some_iff)
  ultimately show ?thesis by (simp add: sorted ids o_def)
qed

end
