(* ===== verification/Health_Mutation.thy ===== *)
theory Health_Mutation
  imports Prelude
begin

text \<open>
  The striped lock of health mutations (\<open>src/internal/health/mutation.go\<close>). A call
  of \<open>Do\<close> or \<open>DoMany\<close> is the sequence of actions it performs: lock some of the 64
  stripes, run the callback, unlock in reverse order. Concurrent calls are
  interleaved by a step relation in which locking a stripe waits until it is free.
  Callbacks are opaque and do not call the coordinator again.
\<close>

definition mutationStripeCount :: nat where
  "mutationStripeCount = 64"

datatype 'f LockAction = Lock nat | Run 'f | Unlock nat

definition stripe :: "nat \<Rightarrow> nat" where
  "stripe credentialID = credentialID mod mutationStripeCount"

definition Do :: "nat \<Rightarrow> 'f option \<Rightarrow> 'f LockAction list" where
  "Do credentialID fn =
     (case fn of None \<Rightarrow> []
      | Some f \<Rightarrow> [Lock (stripe credentialID), Run f, Unlock (stripe credentialID)])"

fun stripe_indexes :: "nat set \<Rightarrow> nat list \<Rightarrow> nat list" where
  "stripe_indexes selected [] = []"
| "stripe_indexes selected (credentialID # ids) =
     (let index = stripe credentialID
      in if index \<in> selected then stripe_indexes selected ids
         else index # stripe_indexes (insert index selected) ids)"

definition DoMany :: "nat list \<Rightarrow> 'f option \<Rightarrow> 'f LockAction list" where
  "DoMany credentialIDs fn =
     (case fn of None \<Rightarrow> []
      | Some f \<Rightarrow>
          let indexes = sort (stripe_indexes {} credentialIDs)
          in map Lock indexes @ [Run f] @ map Unlock (rev indexes))"

section \<open>Interleaving\<close>

text \<open>The remaining actions of every call, and the call that holds each stripe.\<close>

record 'f Coordinator =
  calls :: "'f LockAction list list"
  holder :: "nat \<Rightarrow> nat option"

inductive lock_step :: "'f Coordinator \<Rightarrow> 'f Coordinator \<Rightarrow> bool" where
  step_lock: "t < length (calls s) \<Longrightarrow> calls s ! t = Lock i # rest \<Longrightarrow> holder s i = None \<Longrightarrow>
     lock_step s \<lparr>calls = (calls s)[t := rest], holder = (holder s)(i \<mapsto> t)\<rparr>"
| step_run: "t < length (calls s) \<Longrightarrow> calls s ! t = Run f # rest \<Longrightarrow>
     lock_step s (s\<lparr>calls := (calls s)[t := rest]\<rparr>)"
| step_unlock: "t < length (calls s) \<Longrightarrow> calls s ! t = Unlock i # rest \<Longrightarrow>
     lock_step s \<lparr>calls = (calls s)[t := rest], holder = (holder s)(i := None)\<rparr>"

definition start :: "'f LockAction list list \<Rightarrow> 'f Coordinator" where
  "start ps = \<lparr>calls = ps, holder = \<lambda>_. None\<rparr>"

section \<open>Well-formed calls\<close>

lemma stripe_indexes_set: "set (stripe_indexes S ids) = stripe ` set ids - S"
  by (induction S ids rule: stripe_indexes.induct) (auto simp: Let_def)

lemma stripe_indexes_distinct: "distinct (stripe_indexes S ids)"
  by (induction S ids rule: stripe_indexes.induct) (auto simp: Let_def stripe_indexes_set)

text \<open>
  A call in progress over an ascending list of stripes: it is locking (the first
  part is held), or unlocking (what is held is still to be unlocked).
\<close>

definition call_state :: "'f LockAction list \<Rightarrow> nat set \<Rightarrow> bool" where
  "call_state p held \<longleftrightarrow>
     (\<exists>A B f. p = map Lock B @ [Run f] @ map Unlock (rev (A @ B)) \<and> sorted_wrt (<) (A @ B) \<and> held = set A)
     \<or> (\<exists>A. p = map Unlock (rev A) \<and> distinct A \<and> held = set A)"

lemma call_state_DoMany: "call_state (DoMany ids fn) {}"
proof (cases fn)
  case (Some f)
  have "sorted_wrt (<) (sort (stripe_indexes {} ids))"
    by (simp add: strict_sorted_iff stripe_indexes_distinct)
  with Some show ?thesis unfolding call_state_def
    by (intro disjI1 exI [of _ "[]"] exI [of _ "sort (stripe_indexes {} ids)"] exI [of _ f]) (simp add: DoMany_def Let_def)
qed (simp add: call_state_def DoMany_def)

lemma Do_DoMany: "Do c fn = DoMany [c] fn"
  by (simp add: Do_def DoMany_def Let_def split: option.split)

lemma call_state_lock:
  assumes "call_state (Lock i # rest) held"
  shows "(\<forall>j \<in> held. j < i) \<and> call_state rest (insert i held)"
proof -
  from assms obtain A B f where p: "Lock i # rest = map Lock B @ [Run f] @ map Unlock (rev (A @ B))"
    and s: "sorted_wrt (<) (A @ B)" and h: "held = set A"
    unfolding call_state_def by (auto simp: Cons_eq_map_conv)
  then obtain C where B: "B = i # C" by (cases B) auto
  then have "rest = map Lock C @ [Run f] @ map Unlock (rev ((A @ [i]) @ C))" using p by simp
  then have "call_state rest (insert i held)" using s h B unfolding call_state_def by (intro disjI1 exI [of _ "A @ [i]"] exI [of _ C]) auto
  with s h B show ?thesis by (auto simp: sorted_wrt_append)
qed

lemma call_state_run: "call_state (Run f # rest) held \<Longrightarrow> call_state rest held"
proof -
  assume "call_state (Run f # rest) held"
  then obtain A B g where p: "Run f # rest = map Lock B @ [Run g] @ map Unlock (rev (A @ B))"
    and s: "sorted_wrt (<) (A @ B)" and h: "held = set A"
    unfolding call_state_def by (auto simp: Cons_eq_map_conv)
  then have "B = []" by (cases B) auto
  with p s h show ?thesis by (auto simp: call_state_def strict_sorted_iff)
qed

lemma call_state_unlock: "call_state (Unlock i # rest) held \<Longrightarrow> i \<in> held \<and> call_state rest (held - {i})"
proof -
  assume "call_state (Unlock i # rest) held"
  then obtain A where p: "Unlock i # rest = map Unlock (rev A)" and d: "distinct A" and h: "held = set A"
    unfolding call_state_def by (auto simp: Cons_eq_append_conv Cons_eq_map_conv)
  then obtain C where "A = C @ [i]" by (cases A rule: rev_cases) auto
  with p d h show ?thesis by (auto simp: call_state_def)
qed

lemma call_state_done: "call_state [] held \<Longrightarrow> held = {}"
  by (auto simp: call_state_def)

text \<open>
  Every call is in such a state, with exactly the stripes it holds, and has done a
  prefix of its program.
\<close>

definition lock_inv :: "'f LockAction list list \<Rightarrow> 'f Coordinator \<Rightarrow> bool" where
  "lock_inv ps s \<longleftrightarrow> length (calls s) = length ps
     \<and> (\<forall>t < length ps. call_state (calls s ! t) {i. holder s i = Some t} \<and> (\<exists>don. ps ! t = don @ calls s ! t))
     \<and> (\<forall>i t. holder s i = Some t \<longrightarrow> t < length ps)"

lemma lock_inv_advance:
  assumes inv: "lock_inv ps s" and t: "t < length ps" "calls s ! t = a # rest"
    and own: "call_state rest {j. h j = Some t}"
    and others: "\<And>u. u \<noteq> t \<Longrightarrow> {j. h j = Some u} = {j. holder s j = Some u}"
  shows "lock_inv ps \<lparr>calls = (calls s)[t := rest], holder = h\<rparr>"
proof -
  have len: "length (calls s) = length ps" using inv by (simp add: lock_inv_def)
  have "call_state ((calls s)[t := rest] ! u) {j. h j = Some u} \<and> (\<exists>don. ps ! u = don @ (calls s)[t := rest] ! u)"
    if u: "u < length ps" for u
  proof (cases "u = t")
    case True
    obtain don where "ps ! t = don @ a # rest" using inv t by (auto simp: lock_inv_def)
    then have "ps ! t = (don @ [a]) @ rest" by simp
    with True own t len show ?thesis by (metis nth_list_update_eq)
  next
    case False
    with inv others u show ?thesis by (simp add: lock_inv_def)
  qed
  moreover have "u < length ps" if "h i = Some u" for i u
    using that others [of u] inv t(1) by (cases "u = t") (auto simp: lock_inv_def)
  ultimately show ?thesis using len by (simp add: lock_inv_def)
qed

lemma lock_step_inv:
  assumes inv: "lock_inv ps s" and "lock_step s s'"
  shows "lock_inv ps s'"
  using assms(2)
proof cases
  case (step_lock t i rest)
  have t: "t < length ps" using inv step_lock by (simp add: lock_inv_def)
  have c: "call_state (Lock i # rest) {j. holder s j = Some t}" using inv t step_lock by (metis lock_inv_def)
  have "{j. ((holder s)(i \<mapsto> t)) j = Some t} = insert i {j. holder s j = Some t}" by auto
  with call_state_lock [OF c] have "call_state rest {j. ((holder s)(i \<mapsto> t)) j = Some t}" by simp
  then show ?thesis
    unfolding step_lock(1) by (rule lock_inv_advance [OF inv t step_lock(3)]) (use step_lock in auto)
next
  case (step_run t f rest)
  have t: "t < length ps" using inv step_run by (simp add: lock_inv_def)
  have c: "call_state (Run f # rest) {j. holder s j = Some t}" using inv t step_run by (metis lock_inv_def)
  from lock_inv_advance [OF inv t step_run(3) call_state_run [OF c]] step_run show ?thesis by (cases s) simp
next
  case (step_unlock t i rest)
  have t: "t < length ps" using inv step_unlock by (simp add: lock_inv_def)
  have c: "call_state (Unlock i # rest) {j. holder s j = Some t}" using inv t step_unlock by (metis lock_inv_def)
  note u = call_state_unlock [OF c]
  have "{j. ((holder s)(i := None)) j = Some t} = {j. holder s j = Some t} - {i}" by auto
  with u have "call_state rest {j. ((holder s)(i := None)) j = Some t}" by simp
  then show ?thesis
    unfolding step_unlock(1) by (rule lock_inv_advance [OF inv t step_unlock(3)]) (use u in auto)
qed

interpretation coordinator: invariant_system lock_step "lock_inv ps" for ps
  by unfold_locales (rule lock_step_inv)

text \<open>The programs of a collection of calls.\<close>

definition programs :: "(nat list \<times> 'f option) list \<Rightarrow> 'f LockAction list list" where
  "programs reqs = map (\<lambda>(ids, fn). DoMany ids fn) reqs"

lemma lock_inv_start: "lock_inv (programs reqs) (start (programs reqs))"
  by (auto simp: lock_inv_def start_def programs_def split_beta call_state_DoMany)

lemma reachable_inv: "lock_step\<^sup>*\<^sup>* (start (programs reqs)) s \<Longrightarrow> lock_inv (programs reqs) s"
  using coordinator.steps_inv lock_inv_start by blast

text \<open>A call that cannot step waits for a stripe above all those it holds.\<close>

lemma blocked_waits:
  assumes inv: "lock_inv ps s" and t: "t < length ps" and busy: "calls s ! t \<noteq> []" and stuck: "\<And>s'. \<not> lock_step s s'"
  obtains i u where "hd (calls s ! t) = Lock i" and "holder s i = Some u" and "\<forall>j. holder s j = Some t \<longrightarrow> j < i"
proof -
  from busy obtain a rest where p: "calls s ! t = a # rest" by (cases "calls s ! t") auto
  have len: "t < length (calls s)" using inv t by (simp add: lock_inv_def)
  have "\<exists>i. a = Lock i" using step_run [OF len] step_unlock [OF len] p stuck by (cases a) blast+
  then obtain i where i: "a = Lock i" ..
  with step_lock [OF len] p stuck obtain u where u: "holder s i = Some u" by (cases "holder s i") blast+
  have "call_state (Lock i # rest) {j. holder s j = Some t}" using inv t p i by (auto simp: lock_inv_def)
  from call_state_lock [OF this] have "\<forall>j. holder s j = Some t \<longrightarrow> j < i" by blast
  with that p i u show ?thesis by simp
qed

lemma stuck_is_done:
  assumes inv: "lock_inv ps s" and stuck: "\<And>s'. \<not> lock_step s s'" and t: "t < length ps"
  shows "calls s ! t = []"
proof (rule ccontr)
  assume busy: "calls s ! t \<noteq> []"
  let ?W = "{i. \<exists>t < length ps. calls s ! t \<noteq> [] \<and> hd (calls s ! t) = Lock i}"
  have "?W \<subseteq> (\<lambda>t. case hd (calls s ! t) of Lock i \<Rightarrow> i | _ \<Rightarrow> 0) ` {..<length ps}"
  proof
    fix i assume "i \<in> ?W"
    then obtain u where "u < length ps" "hd (calls s ! u) = Lock i" by blast
    then show "i \<in> (\<lambda>t. case hd (calls s ! t) of Lock i \<Rightarrow> i | _ \<Rightarrow> 0) ` {..<length ps}"
      by (intro image_eqI [of _ _ u]) simp_all
  qed
  then have fin: "finite ?W" by (rule finite_subset) simp
  obtain i0 where "i0 \<in> ?W" by (rule blocked_waits [OF inv t busy stuck]) (use t busy in blast)
  then have "Max ?W \<in> ?W" using fin by (metis (no_types, lifting) Max_in emptyE)
  then obtain u where u: "u < length ps" "calls s ! u \<noteq> []" "hd (calls s ! u) = Lock (Max ?W)" by blast
  obtain v where v: "holder s (Max ?W) = Some v"
    by (rule blocked_waits [OF inv u(1,2) stuck]) (use u(3) in auto)
  then have vlen: "v < length ps" using inv by (auto simp: lock_inv_def)
  have "calls s ! v \<noteq> []"
  proof
    assume "calls s ! v = []"
    then have "{i. holder s i = Some v} = {}" using inv vlen call_state_done by (metis lock_inv_def)
    with v show False by auto
  qed
  then obtain j where j: "hd (calls s ! v) = Lock j" "\<forall>k. holder s k = Some v \<longrightarrow> k < j"
    by (rule blocked_waits [OF inv vlen _ stuck]) blast
  with \<open>calls s ! v \<noteq> []\<close> vlen have "j \<in> ?W" by blast
  then have "j \<le> Max ?W" using fin by (rule Max_ge [rotated])
  with j v show False by auto
qed

text \<open>Every step performs one action.\<close>

lemma lock_step_work: "lock_step s s' \<Longrightarrow> sum_list (map length (calls s)) = Suc (sum_list (map length (calls s')))"
proof -
  have *: "sum_list (map length ps) = Suc (sum_list (map length (ps[t := rest])))" if "t < length ps" "ps ! t = a # rest"
    for ps :: "'f LockAction list list" and t a rest
    using that by (induction ps arbitrary: t) (auto simp: nth_Cons split: nat.splits)
  show "lock_step s s' \<Longrightarrow> ?thesis" by (cases rule: lock_step.cases) (auto simp: *)
qed

lemma steps_work: "(lock_step ^^ n) s s' \<Longrightarrow> sum_list (map length (calls s)) = n + sum_list (map length (calls s'))"
  by (induction n arbitrary: s') (auto dest!: lock_step_work)

text \<open>
  Property C28. Concurrent health mutations never deadlock, for any number of calls
  over any credentials: as long as one of them is unfinished, some call can take
  its next action, and since every run takes exactly as many steps as there are
  actions, every maximal run completes all calls.
\<close>

theorem mutation_no_deadlock:
  assumes run: "(lock_step ^^ n) (start (programs reqs)) s"
  shows "((\<exists>t < length reqs. calls s ! t \<noteq> []) \<longleftrightarrow> (\<exists>s'. lock_step s s'))
    \<and> n + sum_list (map length (calls s)) = sum_list (map length (programs reqs))"
proof
  have inv: "lock_inv (programs reqs) s" using run by (intro reachable_inv) (rule relpowp_imp_rtranclp)
  have len: "length (calls s) = length reqs" using inv by (simp add: lock_inv_def programs_def)
  show "(\<exists>t < length reqs. calls s ! t \<noteq> []) \<longleftrightarrow> (\<exists>s'. lock_step s s')"
  proof
    assume "\<exists>t < length reqs. calls s ! t \<noteq> []"
    then show "\<exists>s'. lock_step s s'" using stuck_is_done [OF inv] by (metis length_map programs_def)
  next
    assume "\<exists>s'. lock_step s s'"
    then show "\<exists>t < length reqs. calls s ! t \<noteq> []" by (auto simp: len elim!: lock_step.cases)
  qed
  show "n + sum_list (map length (calls s)) = sum_list (map length (programs reqs))"
    using steps_work [OF run] by (simp add: start_def)
qed

text \<open>Two calls over a shared stripe, named in opposite order, after the first has taken its first lock.\<close>

definition sample_calls :: "(nat list \<times> unit option) list" where
  "sample_calls = [([5, 70], Some ()), ([6, 133], Some ())]"

definition sample_state :: "unit Coordinator" where
  "sample_state = \<lparr>calls = (programs sample_calls)[0 := tl (programs sample_calls ! 0)], holder = Map.empty(5 \<mapsto> 0)\<rparr>"

lemma sample_step: "lock_step (start (programs sample_calls)) sample_state"
proof -
  have "calls (start (programs sample_calls)) ! 0 = Lock 5 # tl (programs sample_calls ! 0)" by code_simp
  then have "lock_step (start (programs sample_calls))
      \<lparr>calls = (calls (start (programs sample_calls)))[0 := tl (programs sample_calls ! 0)],
       holder = (holder (start (programs sample_calls)))(5 \<mapsto> 0)\<rparr>"
    by (intro step_lock) (simp_all add: start_def programs_def sample_calls_def)
  then show ?thesis by (simp add: sample_state_def start_def)
qed

theorem mutation_no_deadlock_witness:
  "(lock_step ^^ 1) (start (programs sample_calls)) sample_state \<and> (\<exists>s'. lock_step sample_state s')"
proof
  show run: "(lock_step ^^ 1) (start (programs sample_calls)) sample_state" using sample_step by (simp only: relpowp_1)
  have "length sample_calls = 2" "calls sample_state ! 1 \<noteq> []" by code_simp+
  then show "\<exists>s'. lock_step sample_state s'" using mutation_no_deadlock [OF run] by (metis one_less_numeral_iff semiring_norm(76))
qed

section \<open>Mutual exclusion\<close>

text \<open>A call that is about to run its callback holds every stripe of its credentials.\<close>

lemma running_holds:
  assumes inv: "lock_inv (programs reqs) s" and t: "t < length reqs" "reqs ! t = (ids, fn)"
    and running: "calls s ! t = Run f # rest" and c: "c \<in> set ids"
  shows "holder s (stripe c) = Some t"
proof -
  have p: "programs reqs ! t = DoMany ids fn" using t by (simp add: programs_def)
  obtain don where don: "DoMany ids fn = don @ Run f # rest"
    using inv t running p by (auto simp: lock_inv_def programs_def)
  then obtain g where "fn = Some g" by (cases fn) (auto simp: DoMany_def)
  let ?L = "sort (stripe_indexes {} ids)"
  have prog: "map Lock ?L @ Run g # map Unlock (rev ?L) = don @ Run f # rest"
    using don \<open>fn = Some g\<close> by (simp add: DoMany_def Let_def)
  have split: "rest = map Unlock (rev ys)" if "map Lock xs @ Run g # map Unlock (rev ys) = don @ Run f # rest" for xs ys don
    using that
  proof (induction xs arbitrary: don)
    case Nil
    then show ?case by (cases don) (auto simp: map_eq_append_conv)
  next
    case (Cons x xs)
    then show ?case by (cases don) auto
  qed
  have rest: "rest = map Unlock (rev ?L)" by (rule split [OF prog])
  have "call_state (Run f # rest) {i. holder s i = Some t}" using inv t running by (metis lock_inv_def length_map programs_def)
  then obtain A B h where state: "Run f # rest = map Lock B @ [Run h] @ map Unlock (rev (A @ B))"
    "{i. holder s i = Some t} = set A" unfolding call_state_def by (auto simp: Cons_eq_map_conv)
  then have "B = []" by (cases B) auto
  then have "map Unlock (rev A) = (map Unlock (rev ?L) :: 'a LockAction list)" using state rest by simp
  then have "set A = set ?L" by (metis list.inj_map_strong LockAction.inject(3) rev_is_rev_conv)
  then have "stripe c \<in> set A" using c by (simp add: stripe_indexes_set)
  with state show ?thesis by blast
qed

text \<open>
  Health mutations exclude each other per credential: two calls that
  name a common credential are never both inside their callbacks.
\<close>

theorem mutation_exclusion:
  assumes run: "lock_step\<^sup>*\<^sup>* (start (programs reqs)) s"
    and t: "t < length reqs" "calls s ! t = Run f # rest" and u: "u < length reqs" "calls s ! u = Run g # rest'"
    and shared: "c \<in> set (fst (reqs ! t))" "c \<in> set (fst (reqs ! u))"
  shows "t = u"
proof -
  note inv = reachable_inv [OF run]
  have "holder s (stripe c) = Some t" by (rule running_holds [OF inv t(1) _ t(2) shared(1)]) (rule surjective_pairing)
  moreover have "holder s (stripe c) = Some u" by (rule running_holds [OF inv u(1) _ u(2) shared(2)]) (rule surjective_pairing)
  ultimately show ?thesis by simp
qed

text \<open>Two calls over credential 70, with the first inside its callback.\<close>

definition shared_calls :: "(nat list \<times> unit option) list" where
  "shared_calls = [([70], Some ()), ([5, 70], Some ())]"

definition running_state :: "unit Coordinator" where
  "running_state = \<lparr>calls = (programs shared_calls)[0 := [Run (), Unlock 6]], holder = Map.empty(6 \<mapsto> 0)\<rparr>"

lemma running_step: "lock_step (start (programs shared_calls)) running_state"
proof -
  have "calls (start (programs shared_calls)) ! 0 = Lock 6 # [Run (), Unlock 6]" by code_simp
  then have "lock_step (start (programs shared_calls))
      \<lparr>calls = (calls (start (programs shared_calls)))[0 := [Run (), Unlock 6]],
       holder = (holder (start (programs shared_calls)))(6 \<mapsto> 0)\<rparr>"
    by (intro step_lock) (simp_all add: start_def programs_def shared_calls_def)
  then show ?thesis by (simp add: running_state_def start_def)
qed

theorem mutation_exclusion_witness:
  "lock_step\<^sup>*\<^sup>* (start (programs shared_calls)) running_state \<and> calls running_state ! 0 = [Run (), Unlock 6]
   \<and> (\<forall>g rest. calls running_state ! 1 \<noteq> Run g # rest)"
proof (intro conjI allI notI)
  show run: "lock_step\<^sup>*\<^sup>* (start (programs shared_calls)) running_state" using running_step by (rule r_into_rtranclp)
  show first: "calls running_state ! 0 = [Run (), Unlock 6]" by code_simp
  fix g rest assume "calls running_state ! 1 = Run g # rest"
  moreover have "length shared_calls = 2" "70 \<in> set (fst (shared_calls ! 0))" "70 \<in> set (fst (shared_calls ! 1))" by code_simp+
  ultimately have "(0 :: nat) = 1" using mutation_exclusion [OF run _ first, of 1 g rest 70] by simp
  then show False by simp
qed

end
