(* ===== verification/Channel_Target.thy ===== *)
theory Channel_Target
  imports Execution "HOL-Library.List_Lexorder" "HOL-Library.Char_ord"
begin

text \<open>
  The execution target of a channel (\<open>ResolvedTarget\<close> in
  \<open>src/internal/channel/channel.go\<close>): which operations of which client protocol it
  serves, natively or by conversion, and how it handles stored responses.
\<close>

section \<open>Operation names\<close>

fun Operation_name :: "Operation \<Rightarrow> string" where
  "Operation_name OperationChatCompletion = ''chat_completion''"
| "Operation_name OperationResponsesCreate = ''responses_create''"
| "Operation_name OperationResponsesRetrieve = ''responses_retrieve''"
| "Operation_name OperationResponsesDelete = ''responses_delete''"
| "Operation_name OperationResponsesCancel = ''responses_cancel''"
| "Operation_name OperationResponsesInputItems = ''responses_input_items''"
| "Operation_name OperationResponsesCompact = ''responses_compact''"
| "Operation_name OperationResponsesInputTokens = ''responses_input_tokens''"
| "Operation_name OperationCountTokens = ''count_tokens''"
| "Operation_name OperationResponsesPassthrough = ''responses_passthrough''"
| "Operation_name OperationImagesGenerate = ''images_generate''"
| "Operation_name OperationImagesEdit = ''images_edit''"
| "Operation_name OperationEmbeddingsCreate = ''embeddings_create''"
| "Operation_name OperationListModels = ''list_models''"
| "Operation_name OperationProbe = ''probe''"
| "Operation_name (Operation_other s) = s"

section \<open>Targets\<close>

datatype ResponsesStoreHandling =
    ResponsesStoreHandlingNone | ResponsesStoreHandlingUpstreamManaged | ResponsesStoreHandlingStateless
  | ResponsesStoreHandling_other string

text \<open>The mode of an operation for a model, given its declared mode (\<open>spec.RouteResolver\<close>).\<close>

type_synonym RouteResolver = "string \<Rightarrow> RouteMode \<Rightarrow> RouteMode"

record ResolvedTarget =
  rt_ChannelID :: string
  rt_ProviderKind :: string
  rt_TargetConfig :: string
  rt_CatalogProviderID :: string
  rt_modes :: "(Protocol, (Operation, RouteMode) gomap) gomap"
  rt_resolvers :: "(Protocol \<times> Operation, RouteResolver) gomap"
  rt_responsesStoreHandlings :: "(Protocol \<times> Operation, ResponsesStoreHandling) gomap"

definition Target_Mode :: "ResolvedTarget \<Rightarrow> Protocol \<Rightarrow> Operation \<Rightarrow> RouteMode option" where
  "Target_Mode t clientProtocol oper =
     (case map_of (rt_modes t) clientProtocol of
        None \<Rightarrow> None
      | Some byOperation \<Rightarrow> map_of byOperation oper)"

definition Target_ResponsesStoreHandling :: "ResolvedTarget \<Rightarrow> Protocol \<Rightarrow> Operation \<Rightarrow> ResponsesStoreHandling" where
  "Target_ResponsesStoreHandling t clientProtocol oper =
     (case map_of (rt_responsesStoreHandlings t) (clientProtocol, oper) of
        None \<Rightarrow> ResponsesStoreHandlingNone
      | Some h \<Rightarrow> h)"

definition ModeForModel :: "ResolvedTarget \<Rightarrow> Protocol \<Rightarrow> Operation \<Rightarrow> string \<Rightarrow> RouteMode option" where
  "ModeForModel t clientProtocol oper upstreamModel =
     (case Target_Mode t clientProtocol oper of
        None \<Rightarrow> None
      | Some mode \<Rightarrow>
          (case map_of (rt_resolvers t) (clientProtocol, oper) of
             None \<Rightarrow> Some mode
           | Some resolver \<Rightarrow>
               let resolved = resolver upstreamModel mode
               in if RouteMode_Valid resolved then Some resolved else None))"

fun first_route :: "(RouteMode \<Rightarrow> bool) \<Rightarrow> ResolvedTarget \<Rightarrow> Operation \<Rightarrow> string \<Rightarrow> Protocol list \<Rightarrow> (Protocol \<times> RouteMode) option" where
  "first_route accepts t oper upstreamModel [] = None"
| "first_route accepts t oper upstreamModel (p # ps) =
     (case ModeForModel t p oper upstreamModel of
        None \<Rightarrow> first_route accepts t oper upstreamModel ps
      | Some mode \<Rightarrow> if accepts mode then Some (p, mode) else first_route accepts t oper upstreamModel ps)"

definition PreferredRoute :: "ResolvedTarget \<Rightarrow> Operation \<Rightarrow> string \<Rightarrow> (Protocol \<times> RouteMode) option" where
  "PreferredRoute t oper upstreamModel =
     (case first_route (\<lambda>mode. mode = RouteNative) t oper upstreamModel DataPlaneProtocols of
        Some found \<Rightarrow> Some found
      | None \<Rightarrow> first_route (\<lambda>_. True) t oper upstreamModel DataPlaneProtocols)"

definition PreferredProtocol :: "ResolvedTarget \<Rightarrow> Operation \<Rightarrow> string \<Rightarrow> Protocol option" where
  "PreferredProtocol t oper upstreamModel = map_option fst (PreferredRoute t oper upstreamModel)"

definition Operations :: "ResolvedTarget \<Rightarrow> Protocol \<Rightarrow> Operation list" where
  "Operations t clientProtocol =
     sort_key Operation_name (keys (case map_of (rt_modes t) clientProtocol of None \<Rightarrow> [] | Some byOperation \<Rightarrow> byOperation))"

definition SupportsResponsesLifecycle :: "ResolvedTarget \<Rightarrow> bool" where
  "SupportsResponsesLifecycle t =
     list_all (\<lambda>oper. Target_Mode t OpenAIResponses oper = Some RouteNative)
       [OperationResponsesRetrieve, OperationResponsesDelete, OperationResponsesCancel, OperationResponsesInputItems]"

lemma first_route_Some:
  "first_route accepts t oper model ps = Some (p, mode) \<Longrightarrow>
     p \<in> set ps \<and> ModeForModel t p oper model = Some mode \<and> accepts mode"
  by (induction ps) (auto split: option.splits if_splits)

lemma first_route_None:
  "first_route accepts t oper model ps = None \<longleftrightarrow>
     (\<forall>p \<in> set ps. \<forall>mode. ModeForModel t p oper model = Some mode \<longrightarrow> \<not> accepts mode)"
  by (induction ps) (auto split: option.splits if_splits)

text \<open>The preferred route is declared, and it is converted only if no data plane protocol has a native one.\<close>

lemma preferred_route:
  "PreferredRoute t oper model = Some (p, mode) \<Longrightarrow>
     Protocol_Valid p \<and> ModeForModel t p oper model = Some mode
     \<and> (mode \<noteq> RouteNative \<longrightarrow> (\<forall>q. Protocol_Valid q \<longrightarrow> ModeForModel t q oper model \<noteq> Some RouteNative))"
  unfolding PreferredRoute_def
  by (auto simp: first_route_None data_plane_protocols split: option.splits dest!: first_route_Some)

lemma set_Operations: "oper \<in> set (Operations t p) \<longleftrightarrow> Target_Mode t p oper \<noteq> None"
proof -
  have "oper \<in> fst ` set m \<longleftrightarrow> map_of m oper \<noteq> None" for m :: "(Operation, RouteMode) gomap"
    by (simp add: map_of_eq_None_iff)
  then show ?thesis by (auto simp: Operations_def Target_Mode_def split: option.split)
qed

end
