(* ===== verification/Outbound_Proxy.thy ===== *)
theory Outbound_Proxy
  imports Prelude
begin

text \<open>
  The outbound proxy policy (\<open>src/internal/outboundproxy/proxy.go\<close>): normal forms of a
  configured proxy, and which of the credential, group, global and environment
  settings a connection uses. The functions of \<open>net/url\<close> and \<open>encoding/json\<close> the code
  calls are fields of \<open>url_library\<close> and \<open>json_library\<close>.
\<close>

datatype ProxyMode =
    ModeInherit | ModeDirect | ModeCustom | ModeEnvironment | ModeEmpty | ProxyMode_other string

datatype ProxySource =
    SourceCredential | SourceGroup | SourceGlobal | SourceEnvironment | SourceDefault | SourceEmpty
  | ProxySource_other string

record ProxyConfig =
  pc_Mode :: ProxyMode
  pc_URL :: string

record Effective =
  ef_Config :: ProxyConfig
  ef_Source :: ProxySource

record ProxyView =
  pv_ConfiguredMode :: ProxyMode
  pv_EffectiveMode :: ProxyMode
  pv_EffectiveSource :: ProxySource
  pv_DisplayURL :: string
  pv_HasAuth :: bool

text \<open>A parsed URL; the user information is a name and, when the colon is present, a password.\<close>

record URL =
  u_Scheme :: string
  u_Opaque :: string
  u_User :: "(string \<times> string option) option"
  u_Host :: string
  u_Path :: string
  u_RawPath :: string
  u_ForceQuery :: bool
  u_RawQuery :: string
  u_Fragment :: string
  u_RawFragment :: string

record url_library =
  lib_Parse :: "string \<Rightarrow> URL option"
  lib_String :: "URL \<Rightarrow> string"
  lib_Hostname :: "string \<Rightarrow> string"
  lib_Port :: "string \<Rightarrow> string"
  lib_UserString :: "string \<Rightarrow> string"

record json_library =
  lib_Marshal :: "ProxyConfig \<Rightarrow> string"
  lib_Unmarshal :: "string \<Rightarrow> ProxyConfig option"

definition Environment :: "(string \<Rightarrow> string) \<Rightarrow> ProxyConfig option" where
  "Environment getenv =
     (if list_ex (\<lambda>key. TrimSpace (getenv key) \<noteq> [])
           [''HTTPS_PROXY'', ''https_proxy'', ''HTTP_PROXY'', ''http_proxy'']
      then Some \<lparr>pc_Mode = ModeEnvironment, pc_URL = []\<rparr> else None)"

text \<open>\<open>strconv.ParseUint\<close> in base 10 with 16 bits.\<close>

definition ParseUint16 :: "string \<Rightarrow> nat option" where
  "ParseUint16 s = (if s \<noteq> [] \<and> list_all is_digit s \<and> decimal_value s < 2 ^ 16 then Some (decimal_value s) else None)"

definition port_ok :: "string \<Rightarrow> bool" where
  "port_ok port \<longleftrightarrow> (case ParseUint16 port of None \<Rightarrow> False | Some v \<Rightarrow> v \<noteq> 0)"

definition user_ok :: "(string \<times> string option) option \<Rightarrow> bool" where
  "user_ok user =
     (case user of
        None \<Rightarrow> True
      | Some (name, password) \<Rightarrow> name \<noteq> [] \<and> (case password of None \<Rightarrow> False | Some p \<Rightarrow> p \<noteq> []))"

definition normalizeCustom :: "url_library \<Rightarrow> string \<Rightarrow> ProxyConfig option" where
  "normalizeCustom lib endpoint0 =
     (let endpoint = TrimSpace endpoint0 in
      if endpoint = [] then None
      else case lib_Parse lib endpoint of
        None \<Rightarrow> None
      | Some parsed0 \<Rightarrow>
          if u_Opaque parsed0 \<noteq> [] \<or> lib_Hostname lib (u_Host parsed0) = [] then None
          else
            let parsed = parsed0\<lparr>u_Scheme := ToLower (u_Scheme parsed0)\<rparr>;
                port = lib_Port lib (u_Host parsed)
            in if u_Scheme parsed \<noteq> ''http'' \<and> u_Scheme parsed \<noteq> ''socks5'' then None
               else if HasSuffix (u_Host parsed) '':'' \<or> (u_Scheme parsed = ''socks5'' \<and> port = []) then None
               else if port \<noteq> [] \<and> \<not> port_ok port then None
               else if u_Path parsed \<noteq> [] \<and> u_Path parsed \<noteq> ''/'' then None
               else if u_RawQuery parsed \<noteq> [] \<or> u_ForceQuery parsed \<or> u_Fragment parsed \<noteq> [] \<or> u_RawFragment parsed \<noteq> [] then None
               else if \<not> user_ok (u_User parsed) then None
               else Some \<lparr>pc_Mode = ModeCustom, pc_URL = lib_String lib (parsed\<lparr>u_Path := [], u_RawPath := []\<rparr>)\<rparr>)"

definition Proxy_Normalize :: "url_library \<Rightarrow> ProxyConfig \<Rightarrow> ProxyConfig option" where
  "Proxy_Normalize lib c =
     (case pc_Mode c of
        ModeInherit \<Rightarrow> if pc_URL c \<noteq> [] then None else Some \<lparr>pc_Mode = ModeInherit, pc_URL = []\<rparr>
      | ModeDirect \<Rightarrow> if pc_URL c \<noteq> [] then None else Some \<lparr>pc_Mode = ModeDirect, pc_URL = []\<rparr>
      | ModeCustom \<Rightarrow> normalizeCustom lib (pc_URL c)
      | _ \<Rightarrow> None)"

definition Proxy_Display :: "url_library \<Rightarrow> ProxyConfig \<Rightarrow> (string \<times> bool) option" where
  "Proxy_Display lib c =
     (case Proxy_Normalize lib c of
        None \<Rightarrow> None
      | Some n \<Rightarrow>
          if pc_Mode n \<noteq> ModeCustom then Some ([], False)
          else case lib_Parse lib (pc_URL n) of
            None \<Rightarrow> None
          | Some parsed \<Rightarrow>
              (case u_User parsed of
                 Some (name, password) \<Rightarrow>
                   let userinfo = lib_UserString lib name @ (if password \<noteq> None then '':******'' else [])
                   in Some (u_Scheme parsed @ ''://'' @ userinfo @ ''@'' @ u_Host parsed, True)
               | None \<Rightarrow> Some (lib_String lib parsed, False)))"

fun resolve_from :: "url_library \<Rightarrow> (ProxyConfig option \<times> ProxySource) list \<Rightarrow> Effective option" where
  "resolve_from lib [] = Some \<lparr>ef_Config = \<lparr>pc_Mode = ModeDirect, pc_URL = []\<rparr>, ef_Source = SourceDefault\<rparr>"
| "resolve_from lib ((None, source) # rest) = resolve_from lib rest"
| "resolve_from lib ((Some c, source) # rest) =
     (if source = SourceEnvironment \<and> pc_Mode c = ModeEnvironment \<and> pc_URL c = []
      then Some \<lparr>ef_Config = c, ef_Source = source\<rparr>
      else case Proxy_Normalize lib c of
        None \<Rightarrow> None
      | Some n \<Rightarrow>
          if pc_Mode n = ModeInherit then resolve_from lib rest
          else Some \<lparr>ef_Config = n, ef_Source = source\<rparr>)"

definition Proxy_Resolve ::
  "url_library \<Rightarrow> ProxyConfig option \<Rightarrow> ProxyConfig option \<Rightarrow> ProxyConfig option \<Rightarrow> ProxyConfig option \<Rightarrow> Effective option" where
  "Proxy_Resolve lib credential groupProxy global environment =
     resolve_from lib [(credential, SourceCredential), (groupProxy, SourceGroup), (global, SourceGlobal), (environment, SourceEnvironment)]"

definition NormalizeEffective :: "url_library \<Rightarrow> Effective \<Rightarrow> Effective option" where
  "NormalizeEffective lib e =
     (if pc_Mode (ef_Config e) = ModeEmpty
      then Some \<lparr>ef_Config = \<lparr>pc_Mode = ModeDirect, pc_URL = []\<rparr>, ef_Source = SourceDefault\<rparr>
      else if pc_Mode (ef_Config e) = ModeEnvironment then
        (if pc_URL (ef_Config e) \<noteq> [] then None
         else Some \<lparr>ef_Config = \<lparr>pc_Mode = ModeEnvironment, pc_URL = []\<rparr>, ef_Source = SourceEnvironment\<rparr>)
      else case Proxy_Normalize lib (ef_Config e) of
        None \<Rightarrow> None
      | Some c \<Rightarrow>
          if pc_Mode c = ModeInherit then None
          else Some \<lparr>ef_Config = c, ef_Source = (if ef_Source e = SourceEmpty then SourceDefault else ef_Source e)\<rparr>)"

definition NewView :: "url_library \<Rightarrow> ProxyConfig option \<Rightarrow> Effective \<Rightarrow> ProxyView option" where
  "NewView lib configured effective =
     (case (case configured of None \<Rightarrow> Some ModeInherit | Some c \<Rightarrow> map_option pc_Mode (Proxy_Normalize lib c)) of
        None \<Rightarrow> None
      | Some configuredMode \<Rightarrow>
          (case (if pc_Mode (ef_Config effective) = ModeEnvironment then Some ([], False)
                 else Proxy_Display lib (ef_Config effective)) of
             None \<Rightarrow> None
           | Some (display, hasAuth) \<Rightarrow>
               Some \<lparr>pv_ConfiguredMode = configuredMode, pv_EffectiveMode = pc_Mode (ef_Config effective),
                 pv_EffectiveSource = ef_Source effective, pv_DisplayURL = display, pv_HasAuth = hasAuth\<rparr>))"

definition Proxy_Encode :: "url_library \<Rightarrow> json_library \<Rightarrow> ProxyConfig \<Rightarrow> string option" where
  "Proxy_Encode lib json c = map_option (lib_Marshal json) (Proxy_Normalize lib c)"

text \<open>\<open>lib_Unmarshal\<close> is the strict decoder: unknown fields and trailing input are refused.\<close>

definition Proxy_Decode :: "url_library \<Rightarrow> json_library \<Rightarrow> string \<Rightarrow> ProxyConfig option" where
  "Proxy_Decode lib json encoded =
     (case lib_Unmarshal json encoded of None \<Rightarrow> None | Some c \<Rightarrow> Proxy_Normalize lib c)"

section \<open>Resolution\<close>

lemma normalize_mode: "Proxy_Normalize lib c = Some n \<Longrightarrow> pc_Mode n = pc_Mode c \<and> pc_Mode n \<in> {ModeInherit, ModeDirect, ModeCustom}"
  by (auto simp: Proxy_Normalize_def normalizeCustom_def Let_def split: ProxyMode.splits if_splits option.splits)

lemma resolve_from_concrete:
  "resolve_from lib cs = Some e \<Longrightarrow>
     pc_Mode (ef_Config e) \<in> {ModeDirect, ModeCustom}
     \<or> (pc_Mode (ef_Config e) = ModeEnvironment \<and> pc_URL (ef_Config e) = [] \<and> ef_Source e = SourceEnvironment)"
  by (induction lib cs rule: resolve_from.induct) (auto split: if_splits option.splits dest: normalize_mode)

text \<open>A resolved proxy is concrete: it never inherits, and only the environment source defers to the environment.\<close>

lemma resolve_concrete:
  "Proxy_Resolve lib credential groupProxy global environment = Some e \<Longrightarrow>
     pc_Mode (ef_Config e) \<noteq> ModeInherit
     \<and> (pc_Mode (ef_Config e) = ModeEnvironment \<longrightarrow> ef_Source e = SourceEnvironment)"
  unfolding Proxy_Resolve_def by (drule resolve_from_concrete) auto

text \<open>The most specific setting that does not inherit wins, whatever the less specific ones hold.\<close>

lemma resolve_precedence:
  "Proxy_Normalize lib c = Some n \<Longrightarrow> pc_Mode n \<noteq> ModeInherit \<Longrightarrow>
     Proxy_Resolve lib (Some c) groupProxy global environment = Some \<lparr>ef_Config = n, ef_Source = SourceCredential\<rparr>
     \<and> Proxy_Resolve lib None (Some c) global environment = Some \<lparr>ef_Config = n, ef_Source = SourceGroup\<rparr>
     \<and> Proxy_Resolve lib None None (Some c) environment = Some \<lparr>ef_Config = n, ef_Source = SourceGlobal\<rparr>"
  by (simp add: Proxy_Resolve_def)

end
