(* ===== verification/Channel_Registry.thy ===== *)
theory Channel_Registry
  imports Channel_Target Outbound_Proxy
begin

text \<open>
  The directory of channels (\<open>Registry\<close> in \<open>src/internal/channel/channel.go\<close>): validation of
  the compiled definitions, lookups, validation of parameters and credentials, and the
  resolution of an execution target. The JSON codec is a \<open>channel_json\<close>: its decoder gives
  the fields of a strict object with, for each, the string it holds (\<open>None\<close> when the value
  is not one), or the reason why the input is refused.
\<close>

section \<open>Definitions of channels\<close>

datatype InputKind = InputText | InputURL | InputSecret | InputKind_other string

datatype ConnectionType = ConnectionAPIKey | ConnectionSubscription | ConnectionType_other string

datatype AuthorizationMethod =
    AuthorizationBrowserOAuth | AuthorizationDeviceOAuth | AuthorizationOAuthFile | AuthorizationSelfDiscovery
  | AuthorizationMethod_other string

definition AuthorizationMethod_Valid :: "AuthorizationMethod \<Rightarrow> bool" where
  "AuthorizationMethod_Valid m = (case m of AuthorizationMethod_other _ \<Rightarrow> False | _ \<Rightarrow> True)"

datatype EndpointPolicy = EndpointFixedWithOverride | EndpointPolicy_other string

definition provider_kinds :: "string list" where
  "provider_kinds = [''openai'', ''codex'', ''claude'', ''antigravity'', ''grok'', ''kiro'', ''anthropic'', ''gemini'',
     ''multi_protocol_gateway'', ''openai_compatible'', ''azure_openai'', ''aws_bedrock'', ''google_vertex'',
     ''deepseek'', ''openrouter'', ''groq'', ''xai'']"

definition ProviderKind_Valid :: "string \<Rightarrow> bool" where
  "ProviderKind_Valid kind \<longleftrightarrow> kind \<in> set provider_kinds"

definition ProviderKind_SupportsOutboundProxy :: "string \<Rightarrow> bool" where
  "ProviderKind_SupportsOutboundProxy kind =
     (if \<not> ProviderKind_Valid kind then False
      else kind \<notin> {''azure_openai'', ''aws_bedrock'', ''google_vertex''})"

record ValidationError =
  ve_Field :: string
  ve_Reason :: string

text \<open>A field of a schema; \<open>fs_normalize\<close> is the error text or the normal form, absent when nil.\<close>

record fieldSpec =
  fs_Key :: string
  fs_InputKind :: InputKind
  fs_Required :: bool
  fs_defaultValue :: string
  fs_normalize :: "(string \<Rightarrow> string + string) option"

record Descriptor =
  ds_ID :: string
  ds_Name :: string
  ds_Description :: string
  ds_SearchTerms :: "string list"
  ds_ConnectionType :: string
  ds_AuthorizationMethods :: "AuthorizationMethod list"
  ds_ClientProtocols :: "Protocol list"

record channel_definition =
  cd_descriptor :: Descriptor
  cd_params :: "fieldSpec list"
  cd_validateParams :: "(string \<Rightarrow> ValidationError + (string, string) gomap) option"
  cd_credentials :: "fieldSpec list"
  cd_validateCredential :: "((string, string) gomap \<Rightarrow> ValidationError option) option"
  cd_catalogProviderID :: string
  cd_providerKind :: string
  cd_connectionType :: ConnectionType
  cd_credentialInput :: string
  cd_endpointPolicy :: EndpointPolicy
  cd_fixedBaseURL :: string
  cd_fixedTargetConfig :: string
  cd_modes :: "(Protocol, (Operation, RouteMode) gomap) gomap"
  cd_resolvers :: "(Protocol \<times> Operation, RouteResolver) gomap"
  cd_responsesStoreHandlings :: "(Protocol \<times> Operation, ResponsesStoreHandling) gomap"

record ChannelRegistry =
  byID :: "string \<Rightarrow> channel_definition option"
  order :: "string list"

record channel_json =
  cj_decode :: "string \<Rightarrow> string + (string, string option) gomap"
  cj_marshal :: "(string, string) gomap \<Rightarrow> string"
  cj_valid :: "string \<Rightarrow> bool"

section \<open>Schemas\<close>

definition validation_error :: "string \<Rightarrow> string \<Rightarrow> ValidationError" where
  "validation_error field reason = \<lparr>ve_Field = field, ve_Reason = reason\<rparr>"

text \<open>One field of the loop; validated definitions have a normalizer for every field.\<close>

definition validate_field ::
  "string \<Rightarrow> (string, string option) gomap \<Rightarrow> fieldSpec \<Rightarrow> (string, string) gomap
     \<Rightarrow> ValidationError + (string, string) gomap" where
  "validate_field prefix object field result =
     (let key = fs_Key field; path = prefix @ ''.'' @ key in
      case map_of object key of
        None \<Rightarrow>
          if fs_defaultValue field \<noteq> [] then Inr (AList.update key (fs_defaultValue field) result)
          else if fs_Required field then Inl (validation_error path ''required'')
          else Inr result
      | Some None \<Rightarrow> Inl (validation_error path ''must be a string'')
      | Some (Some text) \<Rightarrow>
          if TrimSpace text = [] \<and> fs_defaultValue field \<noteq> [] then Inr (AList.update key (fs_defaultValue field) result)
          else case fs_normalize field of
                 None \<Rightarrow> Inl (validation_error path ''no normalizer'')
               | Some normalizer \<Rightarrow>
                   (case normalizer text of
                      Inl reason \<Rightarrow> Inl (validation_error path reason)
                    | Inr normalized \<Rightarrow> Inr (AList.update key normalized result)))"

fun validate_fields ::
  "string \<Rightarrow> (string, string option) gomap \<Rightarrow> fieldSpec list \<Rightarrow> (string, string) gomap
     \<Rightarrow> ValidationError + (string, string) gomap" where
  "validate_fields prefix object [] result = Inr result"
| "validate_fields prefix object (field # fs) result =
     (case validate_field prefix object field result of
        Inl e \<Rightarrow> Inl e
      | Inr next \<Rightarrow> validate_fields prefix object fs next)"

definition schema_validate ::
  "channel_json \<Rightarrow> fieldSpec list \<Rightarrow> string \<Rightarrow> string \<Rightarrow> ValidationError + (string, string) gomap" where
  "schema_validate json schema prefix raw =
     (case cj_decode json raw of
        Inl reason \<Rightarrow> Inl (validation_error prefix reason)
      | Inr object \<Rightarrow>
          (case find (\<lambda>key. key \<notin> set (map fs_Key schema)) (keys object) of
             Some key \<Rightarrow> Inl (validation_error (prefix @ ''.'' @ key) ''unknown field'')
           | None \<Rightarrow> validate_fields prefix object schema []))"

definition canonicalJSON :: "channel_json \<Rightarrow> (string, string) gomap \<Rightarrow> string" where
  "canonicalJSON json vs = (if vs = [] then ''{}'' else cj_marshal json vs)"

definition normalizeNonEmpty :: "string \<Rightarrow> string + string" where
  "normalizeNonEmpty v = (let t = TrimSpace v in if t = [] then Inl ''must not be empty'' else Inr t)"

definition TrimRightSlash :: "string \<Rightarrow> string" where
  "TrimRightSlash s = rev (dropWhile (\<lambda>c. c = CHR ''/'') (rev s))"

definition normalizeBaseURL :: "url_library \<Rightarrow> string \<Rightarrow> string + string" where
  "normalizeBaseURL lib v =
     (let bad = ''must be an absolute HTTP(S) URL without credentials or fragment'' in
      case lib_Parse lib (TrimSpace v) of
        None \<Rightarrow> Inl bad
      | Some parsed0 \<Rightarrow>
          if u_Opaque parsed0 \<noteq> [] \<or> u_User parsed0 \<noteq> None \<or> u_Host parsed0 = [] \<or> u_Fragment parsed0 \<noteq> [] then Inl bad
          else
            let parsed = parsed0\<lparr>u_Scheme := ToLower (u_Scheme parsed0)\<rparr> in
            if u_Scheme parsed \<noteq> ''http'' \<and> u_Scheme parsed \<noteq> ''https'' then Inl bad
            else if u_RawQuery parsed \<noteq> [] \<or> u_ForceQuery parsed then Inl ''must not contain query parameters''
            else
              let host = ToLower (u_Host parsed); port = lib_Port lib host; hostname = lib_Hostname lib host;
                  host' = (if (u_Scheme parsed = ''https'' \<and> port = ''443'') \<or> (u_Scheme parsed = ''http'' \<and> port = ''80'')
                           then (if ContainsSub hostname '':'' then ''['' @ hostname @ '']'' else hostname) else host)
              in Inr (lib_String lib (parsed\<lparr>u_Host := host', u_Path := TrimRightSlash (u_Path parsed),
                        u_RawPath := TrimRightSlash (u_RawPath parsed), u_ForceQuery := False\<rparr>)))"

section \<open>Building the registry\<close>

datatype DefinitionError =
    ErrChannelID string | ErrChannelName string | ErrProviderKind string | ErrConnectionType string
  | ErrCredentialInput string | ErrFixedTarget string | ErrSchemaField string string
  | ErrDuplicateField string string string | ErrNoProtocols string | ErrClientProtocol string Protocol
  | ErrNoOperations string Protocol | ErrRouteMode string Protocol Operation | ErrDuplicateChannel string

definition id_char :: "char \<Rightarrow> bool" where
  "id_char c \<longleftrightarrow> (let n = of_char c :: nat in (97 \<le> n \<and> n \<le> 122) \<or> (48 \<le> n \<and> n \<le> 57) \<or> c = CHR ''_'')"

definition channel_id_valid :: "string \<Rightarrow> bool" where
  "channel_id_valid i \<longleftrightarrow> i \<noteq> [] \<and> list_all id_char i \<and> \<not> HasPrefix i ''_'' \<and> \<not> HasSuffix i ''_''"

fun schema_error :: "string \<Rightarrow> string \<Rightarrow> string set \<Rightarrow> fieldSpec list \<Rightarrow> DefinitionError option" where
  "schema_error i name seen [] = None"
| "schema_error i name seen (field # fs) =
     (if fs_Key field = [] \<or> fs_normalize field = None
         \<or> fs_InputKind field \<notin> {InputText, InputURL, InputSecret} then Some (ErrSchemaField i name)
      else if fs_Key field \<in> seen then Some (ErrDuplicateField i name (fs_Key field))
      else schema_error i name (insert (fs_Key field) seen) fs)"

fun modes_error :: "string \<Rightarrow> Protocol \<Rightarrow> (Operation, RouteMode) gomap \<Rightarrow> DefinitionError option" where
  "modes_error i p [] = None"
| "modes_error i p ((oper, mode) # rest) =
     (if \<not> Operation_Valid oper \<or> \<not> RouteMode_Valid mode then Some (ErrRouteMode i p oper) else modes_error i p rest)"

fun protocols_error :: "string \<Rightarrow> (Protocol, (Operation, RouteMode) gomap) gomap \<Rightarrow> DefinitionError option" where
  "protocols_error i [] = None"
| "protocols_error i ((p, modes) # rest) =
     (if \<not> Protocol_Valid p then Some (ErrClientProtocol i p)
      else if modes = [] then Some (ErrNoOperations i p)
      else case modes_error i p modes of Some e \<Rightarrow> Some e | None \<Rightarrow> protocols_error i rest)"

text \<open>The two schemas are ranged over in an unspecified order, here parameters first.\<close>

definition validateDefinition :: "channel_json \<Rightarrow> channel_definition \<Rightarrow> DefinitionError option" where
  "validateDefinition json d =
     (let i = ds_ID (cd_descriptor d) in
      if \<not> channel_id_valid i then Some (ErrChannelID i)
      else if TrimSpace (ds_Name (cd_descriptor d)) = [] then Some (ErrChannelName i)
      else if \<not> ProviderKind_Valid (cd_providerKind d) then Some (ErrProviderKind i)
      else if cd_connectionType d \<noteq> ConnectionAPIKey \<and> cd_connectionType d \<noteq> ConnectionSubscription then Some (ErrConnectionType i)
      else if cd_credentialInput d = [] then Some (ErrCredentialInput i)
      else if cd_fixedTargetConfig d \<noteq> [] \<and> \<not> cj_valid json (cd_fixedTargetConfig d) then Some (ErrFixedTarget i)
      else case schema_error i ''params'' {} (cd_params d) of
        Some e \<Rightarrow> Some e
      | None \<Rightarrow>
          (case schema_error i ''credential'' {} (cd_credentials d) of
             Some e \<Rightarrow> Some e
           | None \<Rightarrow> if cd_modes d = [] then Some (ErrNoProtocols i) else protocols_error i (cd_modes d)))"

fun register_all :: "channel_json \<Rightarrow> channel_definition list \<Rightarrow> ChannelRegistry \<Rightarrow> DefinitionError + ChannelRegistry" where
  "register_all json [] r = Inr r"
| "register_all json (d # ds) r =
     (case validateDefinition json d of
        Some e \<Rightarrow> Inl e
      | None \<Rightarrow>
          let i = ds_ID (cd_descriptor d) in
          if byID r i \<noteq> None then Inl (ErrDuplicateChannel i)
          else register_all json ds (r\<lparr>byID := (byID r)(i \<mapsto> d), order := order r @ [i]\<rparr>))"

definition newRegistry :: "channel_json \<Rightarrow> channel_definition list \<Rightarrow> DefinitionError + ChannelRegistry" where
  "newRegistry json ds = register_all json ds \<lparr>byID = Map.empty, order = []\<rparr>"

section \<open>Lookups\<close>

definition Channel_Get :: "ChannelRegistry \<Rightarrow> string \<Rightarrow> Descriptor option" where
  "Channel_Get r i = map_option cd_descriptor (byID r i)"

definition Channel_List :: "ChannelRegistry \<Rightarrow> Descriptor list" where
  "Channel_List r = List.map_filter (Channel_Get r) (order r)"

definition definition_matches :: "channel_definition \<Rightarrow> string \<Rightarrow> bool" where
  "definition_matches d query =
     (let ds = cd_descriptor d in
      list_ex (\<lambda>v. ContainsSub (ToLower v) query) ([ds_ID ds, ds_Name ds, ds_Description ds] @ ds_SearchTerms ds))"

definition Channel_Search :: "ChannelRegistry \<Rightarrow> string \<Rightarrow> Descriptor list" where
  "Channel_Search r query =
     (let normalized = ToLower (TrimSpace query) in
      List.map_filter (\<lambda>i. case byID r i of None \<Rightarrow> None
        | Some d \<Rightarrow> if normalized \<noteq> [] \<and> \<not> definition_matches d normalized then None else Some (cd_descriptor d)) (order r))"

definition CatalogProviderID :: "ChannelRegistry \<Rightarrow> string \<Rightarrow> string option" where
  "CatalogProviderID r i = map_option cd_catalogProviderID (byID r i)"

definition Channel_ProviderKind :: "ChannelRegistry \<Rightarrow> string \<Rightarrow> string option" where
  "Channel_ProviderKind r i = map_option cd_providerKind (byID r i)"

definition SupportsOutboundProxy :: "ChannelRegistry \<Rightarrow> string \<Rightarrow> bool" where
  "SupportsOutboundProxy r i = (case byID r i of None \<Rightarrow> False | Some d \<Rightarrow> ProviderKind_SupportsOutboundProxy (cd_providerKind d))"

definition SupportsConnectionType :: "ChannelRegistry \<Rightarrow> string \<Rightarrow> string \<Rightarrow> bool" where
  "SupportsConnectionType r i connectionType =
     (case Channel_Get r i of None \<Rightarrow> False | Some ds \<Rightarrow> ds_ConnectionType ds = TrimSpace connectionType)"

definition Channel_ConnectionType :: "ChannelRegistry \<Rightarrow> string \<Rightarrow> string option" where
  "Channel_ConnectionType r i =
     (case Channel_Get r i of None \<Rightarrow> None
      | Some ds \<Rightarrow> if ds_ConnectionType ds = [] then None else Some (ds_ConnectionType ds))"

definition SupportsAuthorizationMethod :: "ChannelRegistry \<Rightarrow> string \<Rightarrow> AuthorizationMethod \<Rightarrow> bool" where
  "SupportsAuthorizationMethod r i method =
     (case Channel_Get r i of None \<Rightarrow> False
      | Some ds \<Rightarrow> if \<not> AuthorizationMethod_Valid method then False else method \<in> set (ds_AuthorizationMethods ds))"

definition FixedBaseURL :: "ChannelRegistry \<Rightarrow> string \<Rightarrow> string option" where
  "FixedBaseURL r i =
     (case byID r i of None \<Rightarrow> None
      | Some d \<Rightarrow> if cd_endpointPolicy d \<noteq> EndpointFixedWithOverride \<or> cd_fixedBaseURL d = [] then None
                 else Some (cd_fixedBaseURL d))"

section \<open>Validation and resolution\<close>

definition unknown_channel :: ValidationError where
  "unknown_channel = validation_error ''channel_id'' ''unknown channel''"

definition ValidateParams :: "channel_json \<Rightarrow> ChannelRegistry \<Rightarrow> string \<Rightarrow> string \<Rightarrow> ValidationError + (string, string) gomap" where
  "ValidateParams json r i raw =
     (case byID r i of
        None \<Rightarrow> Inl unknown_channel
      | Some d \<Rightarrow>
          (case cd_validateParams d of
             Some validate \<Rightarrow> validate raw
           | None \<Rightarrow> schema_validate json (cd_params d) ''params'' raw))"

definition ValidateCredential :: "channel_json \<Rightarrow> ChannelRegistry \<Rightarrow> string \<Rightarrow> string \<Rightarrow> ValidationError + (string, string) gomap" where
  "ValidateCredential json r i raw =
     (case byID r i of
        None \<Rightarrow> Inl unknown_channel
      | Some d \<Rightarrow>
          (case schema_validate json (cd_credentials d) ''credential'' raw of
             Inl e \<Rightarrow> Inl e
           | Inr vs \<Rightarrow>
               (case cd_validateCredential d of
                  None \<Rightarrow> Inr vs
                | Some check \<Rightarrow> (case check vs of Some e \<Rightarrow> Inl e | None \<Rightarrow> Inr vs))))"

definition resolvedTargetConfig :: "channel_json \<Rightarrow> channel_definition \<Rightarrow> (string, string) gomap \<Rightarrow> string" where
  "resolvedTargetConfig json d params =
     (if cd_fixedTargetConfig d \<noteq> [] then
        (case map_of params ''base_url'' of
           Some baseURL \<Rightarrow> canonicalJSON json [(''base_url'', baseURL)]
         | None \<Rightarrow> cd_fixedTargetConfig d)
      else if cd_params d \<noteq> [] then canonicalJSON json params
      else ''{}'')"

definition Channel_Resolve :: "channel_json \<Rightarrow> ChannelRegistry \<Rightarrow> string \<Rightarrow> string \<Rightarrow> ValidationError + ResolvedTarget" where
  "Channel_Resolve json r i raw =
     (case byID r i of
        None \<Rightarrow> Inl unknown_channel
      | Some d \<Rightarrow>
          (case ValidateParams json r i raw of
             Inl e \<Rightarrow> Inl e
           | Inr params \<Rightarrow>
               Inr \<lparr>rt_ChannelID = i, rt_ProviderKind = cd_providerKind d,
                 rt_TargetConfig = resolvedTargetConfig json d params,
                 rt_CatalogProviderID = cd_catalogProviderID d, rt_modes = cd_modes d,
                 rt_resolvers = cd_resolvers d, rt_responsesStoreHandlings = cd_responsesStoreHandlings d\<rparr>))"

definition ResolveExecutionTarget :: "channel_json \<Rightarrow> ChannelRegistry \<Rightarrow> string \<Rightarrow> string \<Rightarrow> ValidationError + ResolvedTarget" where
  "ResolveExecutionTarget json r i raw =
     (case byID r i of
        None \<Rightarrow> Inl unknown_channel
      | Some d \<Rightarrow>
          if cd_fixedTargetConfig d \<noteq> [] \<and> TrimSpace raw = cd_fixedTargetConfig d then Channel_Resolve json r i []
          else if cd_fixedTargetConfig d \<noteq> [] then
            (case ValidateParams json r i raw of
               Inl e \<Rightarrow> Inl e
             | Inr params \<Rightarrow>
                 if map_of params ''base_url'' = None
                 then Inl (validation_error ''target_config'' ''does not match channel preset'')
                 else Channel_Resolve json r i (canonicalJSON json params))
          else Channel_Resolve json r i raw)"

section \<open>What a built registry guarantees\<close>

definition channel_inv :: "channel_json \<Rightarrow> ChannelRegistry \<Rightarrow> bool" where
  "channel_inv json r \<longleftrightarrow>
     (\<forall>i d. byID r i = Some d \<longrightarrow> validateDefinition json d = None \<and> ds_ID (cd_descriptor d) = i)
     \<and> distinct (order r) \<and> set (order r) = dom (byID r)"

lemma register_all_inv: "register_all json ds r = Inr r' \<Longrightarrow> channel_inv json r \<Longrightarrow> channel_inv json r'"
proof (induction ds arbitrary: r)
  case (Cons d ds)
  let ?i = "ds_ID (cd_descriptor d)"
  from Cons.prems(1) have d: "validateDefinition json d = None" "byID r ?i = None"
    and rest: "register_all json ds (r\<lparr>byID := (byID r)(?i \<mapsto> d), order := order r @ [?i]\<rparr>) = Inr r'"
    by (auto simp: Let_def split: option.splits if_splits)
  have "channel_inv json (r\<lparr>byID := (byID r)(?i \<mapsto> d), order := order r @ [?i]\<rparr>)"
    using Cons.prems(2) d by (auto simp: channel_inv_def)
  with Cons.IH rest show ?case by blast
qed simp

lemma newRegistry_inv: "newRegistry json ds = Inr r \<Longrightarrow> channel_inv json r"
  unfolding newRegistry_def by (erule register_all_inv) (simp add: channel_inv_def)

lemma modes_error_None: "modes_error i p modes = None \<Longrightarrow> (oper, mode) \<in> set modes \<Longrightarrow> Operation_Valid oper \<and> RouteMode_Valid mode"
  by (induction i p modes rule: modes_error.induct) (auto split: if_splits)

lemma protocols_error_None:
  "protocols_error i ps = None \<Longrightarrow> (p, modes) \<in> set ps \<Longrightarrow> Protocol_Valid p \<and> modes \<noteq> [] \<and> modes_error i p modes = None"
  by (induction i ps rule: protocols_error.induct) (auto split: if_splits option.splits)

lemma validateDefinition_protocols:
  "validateDefinition json d = None \<Longrightarrow> protocols_error (ds_ID (cd_descriptor d)) (cd_modes d) = None"
  by (simp add: validateDefinition_def Let_def split: if_splits option.splits)

text \<open>A target resolved from a built registry declares only valid protocols, operations and modes.\<close>

lemma resolved_modes_valid:
  assumes inv: "channel_inv json r" and t: "Channel_Resolve json r i raw = Inr t" and m: "Target_Mode t p oper = Some mode"
  shows "Protocol_Valid p \<and> Operation_Valid oper \<and> RouteMode_Valid mode"
proof -
  from t obtain d where d: "byID r i = Some d" and modes: "rt_modes t = cd_modes d"
    by (auto simp: Channel_Resolve_def split: option.splits sum.splits)
  from d inv have "protocols_error (ds_ID (cd_descriptor d)) (cd_modes d) = None"
    by (metis channel_inv_def validateDefinition_protocols)
  moreover from m modes obtain by_oper where "map_of (cd_modes d) p = Some by_oper" "map_of by_oper oper = Some mode"
    by (auto simp: Target_Mode_def split: option.splits)
  then have "(p, by_oper) \<in> set (cd_modes d)" "(oper, mode) \<in> set by_oper" by (auto dest: map_of_SomeD)
  ultimately show ?thesis using protocols_error_None modes_error_None by blast
qed

text \<open>Every listed channel is one of the registry, and resolution fails for no known channel with valid parameters.\<close>

lemma resolve_iff_params:
  "(\<exists>t. Channel_Resolve json r i raw = Inr t) \<longleftrightarrow> (\<exists>params. ValidateParams json r i raw = Inr params)"
  by (auto simp: Channel_Resolve_def ValidateParams_def split: option.splits sum.splits)

lemma resolve_channel_id: "Channel_Resolve json r i raw = Inr t \<Longrightarrow> rt_ChannelID t = i \<and> byID r i \<noteq> None"
  by (auto simp: Channel_Resolve_def split: option.splits sum.splits)

end
