(* ===== verification/Registry.thy ===== *)
theory Registry
  imports Prelude Complex_Main "HOL-Library.Product_Lexorder"
begin

text \<open>
  The credential registry (\<open>src/internal/state/registry.go\<close>, \<open>runtime_view.go\<close>,
  \<open>runtime_checkpoint.go\<close>, \<open>weight.go\<close>): the credentials of every group with their
  runtime health, indexed by group and by credential.

  The nested maps hold pointers to entries; every entry is reached through exactly
  one bucket, so an entry is modelled by its value and a write through its pointer
  by an update of the bucket. Buckets are ranged over and are association lists;
  the index from credentials to groups is only looked up and is a map. Each
  exported method holds the registry's lock and is one step. Methods that
  dereference an entry without checking for it return \<open>None\<close> where Go would panic.

  Copies that only detach pointers (\<open>cloneWeight\<close>, \<open>cloneFloat\<close>,
  \<open>detachCredentialEntryExact\<close>) are the identity on values.
\<close>

section \<open>Entries\<close>

datatype CredentialStatus = CredentialStatusActive | CredentialStatusDisabled | CredentialStatus_other string

datatype CredentialAuthState =
    CredentialAuthStateEmpty | CredentialAuthStateReady | CredentialAuthStateRefreshing
  | CredentialAuthStateReauthorizationRequired | CredentialAuthStateOutcomeUnknown
  | CredentialAuthState_other string

definition AuthState_normalize :: "CredentialAuthState \<Rightarrow> CredentialAuthState" where
  "AuthState_normalize st = (if st = CredentialAuthStateEmpty then CredentialAuthStateReady else st)"

definition AuthState_valid :: "CredentialAuthState \<Rightarrow> bool" where
  "AuthState_valid st = (case AuthState_normalize st of
     CredentialAuthStateReady \<Rightarrow> True | CredentialAuthStateRefreshing \<Rightarrow> True
   | CredentialAuthStateReauthorizationRequired \<Rightarrow> True | CredentialAuthStateOutcomeUnknown \<Rightarrow> True
   | _ \<Rightarrow> False)"

definition DefaultWeight :: int where
  "DefaultWeight = 50"

definition MaxWeight :: int where
  "MaxWeight = 100"

text \<open>Floating-point numbers, with signed zeros identified.\<close>

datatype float64 = NaN | Infinite bool | Finite rat

record CredentialEntry =
  ce_ID :: nat
  ce_GroupID :: nat
  ce_Version :: uint64
  ce_IdentityGeneration :: uint64
  ce_Fingerprint :: string
  ce_WeightManual :: "int option"
  ce_WeightAuto :: int
  ce_Status :: CredentialStatus
  ce_AuthState :: CredentialAuthState
  ce_CooldownUntil :: time
  ce_Blacklisted :: bool
  ce_FailureCount :: int
  ce_FailureGeneration :: uint64
  ce_EncryptedValue :: string
  ce_EncryptedProxy :: string
  ce_ProxyFingerprint :: string
  ce_quotaRemaining :: "float64 option"
  ce_quotaResetAt :: time

record CredentialMeta =
  cm_ID :: nat
  cm_GroupID :: nat
  cm_Version :: uint64
  cm_IdentityGeneration :: uint64
  cm_WeightManual :: "int option"
  cm_WeightAuto :: int

record CredentialRef =
  cr_ID :: nat
  cr_GroupID :: nat
  cr_Version :: uint64
  cr_IdentityGeneration :: uint64
  cr_Fingerprint :: string
  cr_EncryptedValue :: string
  cr_EncryptedProxy :: string
  cr_ProxyFingerprint :: string
  cr_FailureGeneration :: uint64

record CredentialRegistry =
  buckets :: "(nat, (nat, CredentialEntry) gomap) gomap"
  credentialGroups :: "nat \<Rightarrow> nat option"

definition NewCredentialRegistry :: CredentialRegistry where
  "NewCredentialRegistry = \<lparr>buckets = [], credentialGroups = Map.empty\<rparr>"

datatype RegistryError =
    ErrCredentialIDRequired | ErrCredentialGroupRequired nat | ErrCredentialStatus nat | ErrCredentialAuthState nat
  | ErrManualWeight nat | ErrAutoWeight nat | ErrEncryptedValue nat | ErrProxyIdentity nat | ErrVersion nat
  | ErrIdentityGeneration nat | ErrFingerprint nat | ErrDuplicateCredential nat
  | ErrGroupIDRequired | ErrWrongGroup nat nat nat | ErrForeignGroup nat nat | ErrEntriesRequired | ErrIDsRequired
  | ErrNotFound nat | ErrNotFoundInGroup nat nat | ErrStatusValue

definition status_valid :: "CredentialStatus \<Rightarrow> bool" where
  "status_valid st \<longleftrightarrow> st = CredentialStatusActive \<or> st = CredentialStatusDisabled"

definition validateManualWeight :: "int option \<Rightarrow> bool" where
  "validateManualWeight weight \<longleftrightarrow> (case weight of None \<Rightarrow> True | Some w \<Rightarrow> 0 \<le> w \<and> w \<le> MaxWeight)"

definition validate_entry :: "CredentialEntry \<Rightarrow> RegistryError option" where
  "validate_entry e =
     (if ce_ID e = 0 then Some ErrCredentialIDRequired
      else if ce_GroupID e = 0 then Some (ErrCredentialGroupRequired (ce_ID e))
      else if \<not> status_valid (ce_Status e) then Some (ErrCredentialStatus (ce_ID e))
      else if \<not> AuthState_valid (ce_AuthState e) then Some (ErrCredentialAuthState (ce_ID e))
      else if \<not> validateManualWeight (ce_WeightManual e) then Some (ErrManualWeight (ce_ID e))
      else if ce_WeightAuto e < 0 \<or> ce_WeightAuto e > MaxWeight then Some (ErrAutoWeight (ce_ID e))
      else if ce_EncryptedValue e = [] then Some (ErrEncryptedValue (ce_ID e))
      else if (ce_EncryptedProxy e = []) \<noteq> (ce_ProxyFingerprint e = []) then Some (ErrProxyIdentity (ce_ID e))
      else if ce_Version e = 0 then Some (ErrVersion (ce_ID e))
      else if ce_IdentityGeneration e = 0 then Some (ErrIdentityGeneration (ce_ID e))
      else if TrimSpace (ce_Fingerprint e) = [] then Some (ErrFingerprint (ce_ID e))
      else None)"

fun validate_entries :: "nat set \<Rightarrow> CredentialEntry list \<Rightarrow> RegistryError option" where
  "validate_entries seen [] = None"
| "validate_entries seen (e # es) =
     (case validate_entry e of
        Some err \<Rightarrow> Some err
      | None \<Rightarrow>
          if ce_ID e \<in> seen then Some (ErrDuplicateCredential (ce_ID e))
          else validate_entries (insert (ce_ID e) seen) es)"

definition ValidateCredentialEntries :: "CredentialEntry list \<Rightarrow> RegistryError option" where
  "ValidateCredentialEntries es = validate_entries {} es"

definition cloneCredentialEntry :: "CredentialEntry \<Rightarrow> CredentialEntry" where
  "cloneCredentialEntry e =
     e\<lparr>ce_FailureGeneration := 0,
       ce_WeightAuto := (if ce_WeightAuto e = 0 then DefaultWeight else ce_WeightAuto e)\<rparr>"

section \<open>Buckets\<close>

definition bucket :: "CredentialRegistry \<Rightarrow> nat \<Rightarrow> (nat, CredentialEntry) gomap" where
  "bucket r groupID = (case map_of (buckets r) groupID of None \<Rightarrow> [] | Some b \<Rightarrow> b)"

definition set_bucket :: "nat \<Rightarrow> (nat, CredentialEntry) gomap \<Rightarrow> CredentialRegistry \<Rightarrow> CredentialRegistry" where
  "set_bucket groupID b r = r\<lparr>buckets := AList.update groupID b (buckets r)\<rparr>"

definition delete_bucket :: "nat \<Rightarrow> CredentialRegistry \<Rightarrow> CredentialRegistry" where
  "delete_bucket groupID r = r\<lparr>buckets := AList.delete groupID (buckets r)\<rparr>"

definition set_group :: "nat \<Rightarrow> nat option \<Rightarrow> CredentialRegistry \<Rightarrow> CredentialRegistry" where
  "set_group credentialID g r = r\<lparr>credentialGroups := (credentialGroups r)(credentialID := g)\<rparr>"

text \<open>\<open>r.buckets[groupID][credentialID] = entry\<close>, creating the bucket.\<close>

definition put_entry :: "nat \<Rightarrow> nat \<Rightarrow> CredentialEntry \<Rightarrow> CredentialRegistry \<Rightarrow> CredentialRegistry" where
  "put_entry groupID credentialID e r = set_bucket groupID (AList.update credentialID e (bucket r groupID)) r"

definition entryLocked :: "CredentialRegistry \<Rightarrow> nat \<Rightarrow> CredentialEntry option" where
  "entryLocked r credentialID =
     (case credentialGroups r credentialID of
        None \<Rightarrow> None
      | Some groupID \<Rightarrow> map_of (bucket r groupID) credentialID)"

text \<open>A write through the pointer that \<open>entryLocked\<close> returned.\<close>

definition modify_entry :: "nat \<Rightarrow> (CredentialEntry \<Rightarrow> CredentialEntry) \<Rightarrow> CredentialRegistry \<Rightarrow> CredentialRegistry" where
  "modify_entry credentialID f r =
     (case credentialGroups r credentialID of
        None \<Rightarrow> r
      | Some groupID \<Rightarrow>
          (case map_of (bucket r groupID) credentialID of
             None \<Rightarrow> r
           | Some e \<Rightarrow> put_entry groupID credentialID (f e) r))"

section \<open>Configuration\<close>

definition insert_clone :: "CredentialEntry \<Rightarrow> CredentialRegistry \<Rightarrow> CredentialRegistry" where
  "insert_clone e r =
     set_group (ce_ID e) (Some (ce_GroupID e)) (put_entry (ce_GroupID e) (ce_ID e) (cloneCredentialEntry e) r)"

definition ReplaceCredentials ::
  "CredentialEntry list \<Rightarrow> CredentialRegistry \<Rightarrow> RegistryError option \<times> CredentialRegistry" where
  "ReplaceCredentials es r =
     (case ValidateCredentialEntries es of
        Some err \<Rightarrow> (Some err, r)
      | None \<Rightarrow> (None, fold insert_clone es NewCredentialRegistry))"

definition wrong_group :: "nat \<Rightarrow> CredentialEntry list \<Rightarrow> RegistryError option" where
  "wrong_group groupID es =
     map_option (\<lambda>e. ErrWrongGroup (ce_ID e) (ce_GroupID e) groupID) (find (\<lambda>e. ce_GroupID e \<noteq> groupID) es)"

definition is_foreign :: "nat \<Rightarrow> CredentialRegistry \<Rightarrow> CredentialEntry \<Rightarrow> bool" where
  "is_foreign groupID r e = (case credentialGroups r (ce_ID e) of None \<Rightarrow> False | Some g \<Rightarrow> g \<noteq> groupID)"

definition foreign_group :: "nat \<Rightarrow> CredentialRegistry \<Rightarrow> CredentialEntry list \<Rightarrow> RegistryError option" where
  "foreign_group groupID r es =
     map_option (\<lambda>e. ErrForeignGroup (ce_ID e) (the (credentialGroups r (ce_ID e)))) (find (is_foreign groupID r) es)"

text \<open>The guards of the operations that write entries of one group.\<close>

definition check_group_entries :: "nat \<Rightarrow> CredentialEntry list \<Rightarrow> CredentialRegistry \<Rightarrow> RegistryError option" where
  "check_group_entries groupID es r =
     (case ValidateCredentialEntries es of
        Some err \<Rightarrow> Some err
      | None \<Rightarrow> (case wrong_group groupID es of Some err \<Rightarrow> Some err | None \<Rightarrow> foreign_group groupID r es))"

definition ApplyCredentialImport ::
  "nat \<Rightarrow> CredentialEntry list \<Rightarrow> CredentialRegistry \<Rightarrow> RegistryError option \<times> CredentialRegistry" where
  "ApplyCredentialImport groupID es r =
     (if groupID = 0 then (Some ErrGroupIDRequired, r)
      else case check_group_entries groupID es r of
             Some err \<Rightarrow> (Some err, r)
           | None \<Rightarrow> (None, fold insert_clone es r))"

fun validate_ids :: "CredentialRegistry \<Rightarrow> nat \<Rightarrow> nat set \<Rightarrow> nat list \<Rightarrow> RegistryError option" where
  "validate_ids r groupID seen [] = None"
| "validate_ids r groupID seen (credentialID # ids) =
     (if credentialID = 0 then Some ErrCredentialIDRequired
      else if credentialID \<in> seen then Some (ErrDuplicateCredential credentialID)
      else case credentialGroups r credentialID of
             None \<Rightarrow> Some (ErrNotFound credentialID)
           | Some actual \<Rightarrow>
               if actual \<noteq> groupID then Some (ErrWrongGroup credentialID actual groupID)
               else if map_of (bucket r groupID) credentialID = None then Some (ErrNotFoundInGroup credentialID groupID)
               else validate_ids r groupID (insert credentialID seen) ids)"

definition validateGroupCredentialIDsLocked :: "nat \<Rightarrow> nat list \<Rightarrow> CredentialRegistry \<Rightarrow> RegistryError option" where
  "validateGroupCredentialIDsLocked groupID ids r =
     (if groupID = 0 then Some ErrGroupIDRequired
      else if ids = [] then Some ErrIDsRequired
      else validate_ids r groupID {} ids)"

definition SnapshotGroupCredentialEntriesExact ::
  "nat \<Rightarrow> nat list \<Rightarrow> CredentialRegistry \<Rightarrow> RegistryError + CredentialEntry list" where
  "SnapshotGroupCredentialEntriesExact groupID ids r =
     (case validateGroupCredentialIDsLocked groupID ids r of
        Some err \<Rightarrow> Inl err
      | None \<Rightarrow> Inr (map (\<lambda>credentialID. the (map_of (bucket r groupID) credentialID)) ids))"

definition insert_exact :: "CredentialEntry \<Rightarrow> CredentialRegistry \<Rightarrow> CredentialRegistry" where
  "insert_exact e r = set_group (ce_ID e) (Some (ce_GroupID e)) (put_entry (ce_GroupID e) (ce_ID e) e r)"

definition RestoreGroupCredentialEntriesExact ::
  "nat \<Rightarrow> CredentialEntry list \<Rightarrow> CredentialRegistry \<Rightarrow> RegistryError option \<times> CredentialRegistry" where
  "RestoreGroupCredentialEntriesExact groupID es r =
     (if groupID = 0 then (Some ErrGroupIDRequired, r)
      else if es = [] then (Some ErrEntriesRequired, r)
      else case check_group_entries groupID es r of
             Some err \<Rightarrow> (Some err, r)
           | None \<Rightarrow> (None, fold insert_exact es r))"

definition samePersistedCredentialConfig :: "CredentialEntry \<Rightarrow> CredentialEntry \<Rightarrow> bool" where
  "samePersistedCredentialConfig l r \<longleftrightarrow>
     ce_ID l = ce_ID r \<and> ce_GroupID l = ce_GroupID r \<and> ce_Version l = ce_Version r
     \<and> ce_IdentityGeneration l = ce_IdentityGeneration r \<and> ce_Fingerprint l = ce_Fingerprint r
     \<and> ce_Status l = ce_Status r \<and> ce_EncryptedValue l = ce_EncryptedValue r
     \<and> ce_EncryptedProxy l = ce_EncryptedProxy r \<and> ce_ProxyFingerprint l = ce_ProxyFingerprint r
     \<and> ce_WeightManual l = ce_WeightManual r"

definition matchesGroupLocked :: "nat \<Rightarrow> CredentialEntry list \<Rightarrow> CredentialRegistry \<Rightarrow> bool" where
  "matchesGroupLocked groupID es r \<longleftrightarrow>
     length (bucket r groupID) = length es
     \<and> list_all (\<lambda>desired. case map_of (bucket r groupID) (ce_ID desired) of
          None \<Rightarrow> False | Some existing \<Rightarrow> samePersistedCredentialConfig existing desired) es"

definition MatchesGroup :: "nat \<Rightarrow> CredentialEntry list \<Rightarrow> CredentialRegistry \<Rightarrow> bool" where
  "MatchesGroup groupID es r =
     (if groupID = 0 \<or> ValidateCredentialEntries es \<noteq> None then False
      else if wrong_group groupID es \<noteq> None then False
      else matchesGroupLocked groupID es r)"

definition reconciled_entry :: "(nat, CredentialEntry) gomap \<Rightarrow> CredentialEntry \<Rightarrow> CredentialEntry" where
  "reconciled_entry previous desired =
     (case map_of previous (ce_ID desired) of
        None \<Rightarrow> cloneCredentialEntry desired
      | Some existing \<Rightarrow> if samePersistedCredentialConfig existing desired then existing else cloneCredentialEntry desired)"

definition ReconcileGroup ::
  "nat \<Rightarrow> CredentialEntry list \<Rightarrow> CredentialRegistry \<Rightarrow> (RegistryError + bool) \<times> CredentialRegistry" where
  "ReconcileGroup groupID es r =
     (if groupID = 0 then (Inl ErrGroupIDRequired, r)
      else case check_group_entries groupID es r of
             Some err \<Rightarrow> (Inl err, r)
           | None \<Rightarrow>
               if matchesGroupLocked groupID es r then (Inr False, r)
               else
                 let previous = bucket r groupID;
                     nxt = fold (\<lambda>desired m. AList.update (ce_ID desired) (reconciled_entry previous desired) m) es [];
                     r1 = fold (\<lambda>credentialID. set_group credentialID None) (keys previous) r
                 in (Inr True,
                     if nxt = [] then delete_bucket groupID r1
                     else fold (\<lambda>credentialID. set_group credentialID (Some groupID)) (keys nxt) (set_bucket groupID nxt r1)))"

definition RemoveCredential :: "nat \<Rightarrow> CredentialRegistry \<Rightarrow> bool \<times> CredentialRegistry" where
  "RemoveCredential credentialID r =
     (case credentialGroups r credentialID of
        None \<Rightarrow> (False, r)
      | Some groupID \<Rightarrow>
          let b = AList.delete credentialID (bucket r groupID);
              r1 = (if b = [] then delete_bucket groupID r else set_bucket groupID b r)
          in (True, set_group credentialID None r1))"

definition UpdateGroupCredentialStatuses ::
  "nat \<Rightarrow> nat list \<Rightarrow> CredentialStatus \<Rightarrow> CredentialRegistry \<Rightarrow> RegistryError option \<times> CredentialRegistry" where
  "UpdateGroupCredentialStatuses groupID ids status r =
     (if \<not> status_valid status then (Some ErrStatusValue, r)
      else case validateGroupCredentialIDsLocked groupID ids r of
             Some err \<Rightarrow> (Some err, r)
           | None \<Rightarrow> (None, fold (\<lambda>credentialID. modify_entry credentialID (\<lambda>e. e\<lparr>ce_Status := status\<rparr>)) ids r))"

definition remove_from_group :: "nat \<Rightarrow> nat \<Rightarrow> CredentialRegistry \<Rightarrow> CredentialRegistry" where
  "remove_from_group groupID credentialID r =
     set_group credentialID None (set_bucket groupID (AList.delete credentialID (bucket r groupID)) r)"

definition RemoveGroupCredentials ::
  "nat \<Rightarrow> nat list \<Rightarrow> CredentialRegistry \<Rightarrow> RegistryError option \<times> CredentialRegistry" where
  "RemoveGroupCredentials groupID ids r =
     (case validateGroupCredentialIDsLocked groupID ids r of
        Some err \<Rightarrow> (Some err, r)
      | None \<Rightarrow>
          let r1 = fold (remove_from_group groupID) ids r
          in (None, if bucket r1 groupID = [] then delete_bucket groupID r1 else r1))"

definition RemoveGroup :: "nat \<Rightarrow> CredentialRegistry \<Rightarrow> bool \<times> CredentialRegistry" where
  "RemoveGroup groupID r =
     (if groupID = 0 then (False, r)
      else case map_of (buckets r) groupID of
             None \<Rightarrow> (False, r)
           | Some b \<Rightarrow> (True, delete_bucket groupID (fold (\<lambda>credentialID. set_group credentialID None) (keys b) r)))"

text \<open>\<open>None\<close>: the index names a group whose bucket lacks the entry, and Go panics.\<close>

definition SetCredentialStatus ::
  "nat \<Rightarrow> CredentialStatus \<Rightarrow> CredentialRegistry \<Rightarrow> (RegistryError option \<times> CredentialRegistry) option" where
  "SetCredentialStatus credentialID status r =
     (if \<not> status_valid status then Some (Some ErrStatusValue, r)
      else case credentialGroups r credentialID of
             None \<Rightarrow> Some (Some (ErrNotFound credentialID), r)
           | Some groupID \<Rightarrow>
               (case map_of (bucket r groupID) credentialID of
                  None \<Rightarrow> None
                | Some e \<Rightarrow> Some (None, put_entry groupID credentialID (e\<lparr>ce_Status := status\<rparr>) r)))"

definition UpdateCredentialConfig ::
  "nat \<Rightarrow> CredentialStatus \<Rightarrow> int option \<Rightarrow> CredentialRegistry \<Rightarrow> RegistryError option \<times> CredentialRegistry" where
  "UpdateCredentialConfig credentialID status weightManual r =
     (if \<not> status_valid status then (Some ErrStatusValue, r)
      else if \<not> validateManualWeight weightManual then (Some (ErrManualWeight credentialID), r)
      else if entryLocked r credentialID = None then (Some (ErrNotFound credentialID), r)
      else (None, modify_entry credentialID (\<lambda>e. e\<lparr>ce_Status := status, ce_WeightManual := weightManual\<rparr>) r))"

definition ReplaceCredentialSecretIfMatch ::
  "nat \<Rightarrow> uint64 \<Rightarrow> uint64 \<Rightarrow> string \<Rightarrow> string \<Rightarrow> CredentialRegistry \<Rightarrow> bool \<times> CredentialRegistry" where
  "ReplaceCredentialSecretIfMatch credentialID expectedVersion nextVersion fingerprint encryptedValue r =
     (if credentialID = 0 \<or> expectedVersion = 0 \<or> nextVersion \<le> expectedVersion
         \<or> TrimSpace fingerprint = [] \<or> encryptedValue = [] then (False, r)
      else case entryLocked r credentialID of
             None \<Rightarrow> (False, r)
           | Some e \<Rightarrow>
               if ce_Version e \<noteq> expectedVersion then (False, r)
               else (True, modify_entry credentialID (\<lambda>e. e\<lparr>ce_Version := nextVersion, ce_Fingerprint := fingerprint,
                       ce_EncryptedValue := encryptedValue, ce_AuthState := CredentialAuthStateReady\<rparr>) r))"

definition SetCredentialAuthState ::
  "nat \<Rightarrow> CredentialAuthState \<Rightarrow> CredentialRegistry \<Rightarrow> bool \<times> CredentialRegistry" where
  "SetCredentialAuthState credentialID authState r =
     (if \<not> AuthState_valid authState then (False, r)
      else if entryLocked r credentialID = None then (False, r)
      else (True, modify_entry credentialID (\<lambda>e.
              let e1 = e\<lparr>ce_AuthState := AuthState_normalize authState\<rparr>
              in if ce_AuthState e1 \<noteq> CredentialAuthStateReady
                 then e1\<lparr>ce_quotaRemaining := None, ce_quotaResetAt := 0\<rparr> else e1) r))"

section \<open>Queries\<close>

definition EncryptedCredentialData :: "nat \<Rightarrow> CredentialRegistry \<Rightarrow> (string option) option" where
  "EncryptedCredentialData credentialID r =
     (case credentialGroups r credentialID of
        None \<Rightarrow> Some None
      | Some groupID \<Rightarrow>
          (case map_of (bucket r groupID) credentialID of
             None \<Rightarrow> None | Some e \<Rightarrow> Some (Some (ce_EncryptedValue e))))"

definition active_ready :: "CredentialEntry \<Rightarrow> bool" where
  "active_ready e \<longleftrightarrow> ce_Status e = CredentialStatusActive
     \<and> AuthState_normalize (ce_AuthState e) = CredentialAuthStateReady"

definition ActiveEncryptedCredentialData :: "nat \<Rightarrow> nat \<Rightarrow> CredentialRegistry \<Rightarrow> string option" where
  "ActiveEncryptedCredentialData credentialID expectedGroupID r =
     (case credentialGroups r credentialID of
        None \<Rightarrow> None
      | Some groupID \<Rightarrow>
          if groupID \<noteq> expectedGroupID then None
          else case map_of (bucket r groupID) credentialID of
                 None \<Rightarrow> None
               | Some e \<Rightarrow> if active_ready e then Some (ce_EncryptedValue e) else None)"

definition entry_ref :: "CredentialEntry \<Rightarrow> CredentialRef" where
  "entry_ref e = \<lparr>cr_ID = ce_ID e, cr_GroupID = ce_GroupID e, cr_Version = ce_Version e,
     cr_IdentityGeneration = ce_IdentityGeneration e, cr_Fingerprint = ce_Fingerprint e,
     cr_EncryptedValue = ce_EncryptedValue e, cr_EncryptedProxy = ce_EncryptedProxy e,
     cr_ProxyFingerprint = ce_ProxyFingerprint e, cr_FailureGeneration = ce_FailureGeneration e\<rparr>"

definition sort_refs :: "CredentialRef list \<Rightarrow> CredentialRef list" where
  "sort_refs refs = sort_key (\<lambda>ref. (cr_GroupID ref, cr_ID ref)) refs"

definition CaptureActiveCredentialRefs :: "nat list \<Rightarrow> CredentialRegistry \<Rightarrow> CredentialRef list" where
  "CaptureActiveCredentialRefs groupIDs r =
     sort_refs (concat (map (\<lambda>groupID. map entry_ref (filter active_ready (map snd (bucket r groupID))))
       (remdups (filter (\<lambda>g. g \<noteq> 0) groupIDs))))"

text \<open>The durable identity of an entry, without its failure generation.\<close>

definition ref_matches :: "CredentialRef \<Rightarrow> CredentialEntry \<Rightarrow> bool" where
  "ref_matches ref e \<longleftrightarrow> ce_GroupID e = cr_GroupID ref \<and> ce_Version e = cr_Version ref
     \<and> ce_IdentityGeneration e = cr_IdentityGeneration ref \<and> ce_Fingerprint e = cr_Fingerprint ref
     \<and> ce_EncryptedValue e = cr_EncryptedValue ref \<and> ce_EncryptedProxy e = cr_EncryptedProxy ref
     \<and> ce_ProxyFingerprint e = cr_ProxyFingerprint ref"

definition ActiveEncryptedCredentialDataIfMatch :: "CredentialRef \<Rightarrow> CredentialRegistry \<Rightarrow> string option" where
  "ActiveEncryptedCredentialDataIfMatch ref r =
     (case credentialGroups r (cr_ID ref) of
        None \<Rightarrow> None
      | Some groupID \<Rightarrow>
          if groupID \<noteq> cr_GroupID ref then None
          else case map_of (bucket r groupID) (cr_ID ref) of
                 None \<Rightarrow> None
               | Some e \<Rightarrow>
                   if ce_ID e = cr_ID ref \<and> ref_matches ref e \<and> active_ready e then Some (ce_EncryptedValue e) else None)"

definition all_entries :: "CredentialRegistry \<Rightarrow> CredentialEntry list" where
  "all_entries r = concat (map (\<lambda>(groupID, b). map snd b) (buckets r))"

definition ActiveCredentialIDs :: "CredentialRegistry \<Rightarrow> nat list" where
  "ActiveCredentialIDs r =
     sort (map ce_ID (filter (\<lambda>e. ce_Status e = CredentialStatusActive) (all_entries r)))"

definition Registry_CredentialRef :: "nat \<Rightarrow> CredentialRegistry \<Rightarrow> CredentialRef option" where
  "Registry_CredentialRef credentialID r = map_option entry_ref (entryLocked r credentialID)"

definition BlacklistedCredentials :: "CredentialRegistry \<Rightarrow> CredentialRef list" where
  "BlacklistedCredentials r =
     sort_refs (map entry_ref
       (filter (\<lambda>e. ce_Status e = CredentialStatusActive \<and> ce_Blacklisted e) (all_entries r)))"

section \<open>Runtime view\<close>

record CredentialRuntimeView =
  rv_ID :: nat
  rv_GroupID :: nat
  rv_Version :: uint64
  rv_IdentityGeneration :: uint64
  rv_WeightManual :: "int option"
  rv_WeightAuto :: int
  rv_Status :: CredentialStatus
  rv_AuthState :: CredentialAuthState
  rv_CooldownUntil :: time
  rv_Blacklisted :: bool
  rv_FailureCount :: int
  rv_QuotaRemaining :: "float64 option"
  rv_QuotaResetAt :: time

datatype CredentialRuntimeState =
    CredentialRuntimeAvailable | CredentialRuntimeDisabled | CredentialRuntimeBlacklisted | CredentialRuntimeCooldown

definition AuthReady :: "CredentialRuntimeView \<Rightarrow> bool" where
  "AuthReady view \<longleftrightarrow> AuthState_normalize (rv_AuthState view) = CredentialAuthStateReady"

definition RuntimeState :: "CredentialRuntimeView \<Rightarrow> time \<Rightarrow> CredentialRuntimeState" where
  "RuntimeState view now =
     (if rv_Status view \<noteq> CredentialStatusActive then CredentialRuntimeDisabled
      else if rv_Blacklisted view then CredentialRuntimeBlacklisted
      else if After (rv_CooldownUntil view) now then CredentialRuntimeCooldown
      else CredentialRuntimeAvailable)"

definition runtimeView :: "CredentialEntry \<Rightarrow> CredentialRuntimeView" where
  "runtimeView e = \<lparr>rv_ID = ce_ID e, rv_GroupID = ce_GroupID e, rv_Version = ce_Version e,
     rv_IdentityGeneration = ce_IdentityGeneration e, rv_WeightManual = ce_WeightManual e,
     rv_WeightAuto = ce_WeightAuto e, rv_Status = ce_Status e,
     rv_AuthState = AuthState_normalize (ce_AuthState e), rv_CooldownUntil = ce_CooldownUntil e,
     rv_Blacklisted = ce_Blacklisted e, rv_FailureCount = ce_FailureCount e,
     rv_QuotaRemaining = ce_quotaRemaining e, rv_QuotaResetAt = ce_quotaResetAt e\<rparr>"

definition sortRuntimeViews :: "CredentialRuntimeView list \<Rightarrow> CredentialRuntimeView list" where
  "sortRuntimeViews views = sort_key (\<lambda>v. (rv_GroupID v, rv_ID v)) views"

definition Registry_Snapshot :: "CredentialRegistry \<Rightarrow> CredentialRuntimeView list" where
  "Registry_Snapshot r = sortRuntimeViews (map runtimeView (all_entries r))"

definition entry_meta :: "CredentialEntry \<Rightarrow> CredentialMeta" where
  "entry_meta e = \<lparr>cm_ID = ce_ID e, cm_GroupID = ce_GroupID e, cm_Version = ce_Version e,
     cm_IdentityGeneration = ce_IdentityGeneration e, cm_WeightManual = ce_WeightManual e,
     cm_WeightAuto = ce_WeightAuto e\<rparr>"

definition schedulable :: "time \<Rightarrow> CredentialEntry \<Rightarrow> bool" where
  "schedulable now e \<longleftrightarrow> RuntimeState (runtimeView e) now = CredentialRuntimeAvailable
     \<and> AuthState_normalize (ce_AuthState e) = CredentialAuthStateReady"

definition CollectCredentialCandidates ::
  "nat list \<Rightarrow> (nat \<Rightarrow> bool) \<Rightarrow> time \<Rightarrow> CredentialRegistry \<Rightarrow> CredentialMeta list" where
  "CollectCredentialCandidates groupIDs excluded now r =
     (let metas = concat (map (\<lambda>groupID. map entry_meta (filter (schedulable now) (map snd (bucket r groupID)))) groupIDs);
          filtered = filter (\<lambda>meta. \<not> excluded (cm_ID meta)) metas
      in sort_key (\<lambda>meta. (cm_GroupID meta, cm_ID meta)) filtered)"

section \<open>Quota observations\<close>

text \<open>Float operations of \<open>math\<close> as far as they are used; \<open>rnd\<close> rounds an exact result to the nearest float.\<close>

fun float_one_minus :: "(rat \<Rightarrow> float64) \<Rightarrow> float64 \<Rightarrow> float64" where
  "float_one_minus rnd NaN = NaN"
| "float_one_minus rnd (Infinite neg) = Infinite (\<not> neg)"
| "float_one_minus rnd (Finite x) = rnd (1 - x)"

fun float_div :: "(rat \<Rightarrow> float64) \<Rightarrow> float64 \<Rightarrow> float64 \<Rightarrow> float64" where
  "float_div rnd (Finite x) (Finite y) =
     (if y = 0 then (if x = 0 then NaN else Infinite (x < 0)) else rnd (x / y))"
| "float_div rnd (Finite x) (Infinite neg) = Finite 0"
| "float_div rnd (Infinite neg) (Finite y) = Infinite (neg \<noteq> (y < 0))"
| "float_div rnd _ _ = NaN"

fun float_less :: "float64 \<Rightarrow> float64 \<Rightarrow> bool" where
  "float_less (Finite x) (Finite y) = (x < y)"
| "float_less (Finite x) (Infinite neg) = (\<not> neg)"
| "float_less (Infinite neg) (Finite y) = neg"
| "float_less (Infinite neg) (Infinite neg') = (neg \<and> \<not> neg')"
| "float_less _ _ = False"

definition float_eq :: "float64 \<Rightarrow> float64 \<Rightarrow> bool" where
  "float_eq x y \<longleftrightarrow> x \<noteq> NaN \<and> x = y"

definition float_max :: "float64 \<Rightarrow> float64 \<Rightarrow> float64" where
  "float_max x y = (if x = NaN \<or> y = NaN then NaN else if float_less x y then y else x)"

definition float_min :: "float64 \<Rightarrow> float64 \<Rightarrow> float64" where
  "float_min x y = (if x = NaN \<or> y = NaN then NaN else if float_less y x then y else x)"

definition SetCredentialQuotaObservation ::
  "nat \<Rightarrow> float64 option \<Rightarrow> time \<Rightarrow> CredentialRegistry \<Rightarrow> bool \<times> CredentialRegistry" where
  "SetCredentialQuotaObservation credentialID remaining resetAt r =
     (if credentialID = 0 then (False, r)
      else if (case remaining of None \<Rightarrow> False
               | Some q \<Rightarrow> q = NaN \<or> (\<exists>neg \<in> {True, False}. q = Infinite neg)
                   \<or> float_less q (Finite 0) \<or> float_less (Finite 1) q \<or> IsZero resetAt) then (False, r)
      else if entryLocked r credentialID = None then (False, r)
      else (True, modify_entry credentialID (\<lambda>e.
              e\<lparr>ce_quotaRemaining := remaining,
                ce_quotaResetAt := (case remaining of None \<Rightarrow> 0 | Some _ \<Rightarrow> resetAt)\<rparr>) r))"

record QuotaWindow =
  qw_Scope :: string
  qw_Limit :: "float64 option"
  qw_Remaining :: "float64 option"
  qw_Utilization :: "float64 option"
  qw_ResetAtMS :: "int option"
  qw_State :: string

definition clamp01 :: "float64 \<Rightarrow> float64" where
  "clamp01 x = float_max (Finite 0) (float_min (Finite 1) x)"

definition quotaWindowRemainingRatio :: "(rat \<Rightarrow> float64) \<Rightarrow> QuotaWindow \<Rightarrow> float64 option" where
  "quotaWindowRemainingRatio rnd w =
     (if qw_State w = ''exhausted'' then Some (Finite 0)
      else case qw_Utilization w of
             Some u \<Rightarrow> Some (clamp01 (float_one_minus rnd u))
           | None \<Rightarrow>
               (case (qw_Remaining w, qw_Limit w) of
                  (Some remaining, Some limit) \<Rightarrow>
                    if float_less (Finite 0) limit then Some (clamp01 (float_div rnd remaining limit)) else None
                | _ \<Rightarrow> None))"

fun tightest_window :: "(rat \<Rightarrow> float64) \<Rightarrow> (float64 \<times> int) option \<Rightarrow> QuotaWindow list \<Rightarrow> (float64 \<times> int) option" where
  "tightest_window rnd best [] = best"
| "tightest_window rnd best (w # ws) =
     (if qw_Scope w \<noteq> ''account'' then tightest_window rnd best ws
      else case qw_ResetAtMS w of
             None \<Rightarrow> tightest_window rnd best ws
           | Some reset \<Rightarrow>
               (case quotaWindowRemainingRatio rnd w of
                  None \<Rightarrow> tightest_window rnd best ws
                | Some value \<Rightarrow>
                    (case best of
                       None \<Rightarrow> tightest_window rnd (Some (value, reset)) ws
                     | Some (remaining, resetAtMS) \<Rightarrow>
                         if float_less value remaining then tightest_window rnd (Some (value, reset)) ws
                         else if float_eq value remaining \<and> reset > resetAtMS
                         then tightest_window rnd (Some (remaining, reset)) ws
                         else tightest_window rnd best ws)))"

definition ApplyQuotaWindows ::
  "(rat \<Rightarrow> float64) \<Rightarrow> nat \<Rightarrow> QuotaWindow list \<Rightarrow> CredentialRegistry \<Rightarrow> bool \<times> CredentialRegistry" where
  "ApplyQuotaWindows rnd credentialID windows r =
     (if credentialID = 0 then (False, r)
      else case tightest_window rnd None windows of
             None \<Rightarrow> SetCredentialQuotaObservation credentialID None 0 r
           | Some (remaining, resetAtMS) \<Rightarrow>
               if resetAtMS = 0 then SetCredentialQuotaObservation credentialID None 0 r
               else SetCredentialQuotaObservation credentialID (Some remaining) (unix_epoch + resetAtMS * Millisecond) r)"

section \<open>Runtime health\<close>

definition CredentialCooldownUntil :: "nat \<Rightarrow> CredentialRegistry \<Rightarrow> time option" where
  "CredentialCooldownUntil credentialID r = map_option ce_CooldownUntil (entryLocked r credentialID)"

definition ClearCooldownIfMatch :: "nat \<Rightarrow> time \<Rightarrow> CredentialRegistry \<Rightarrow> bool \<times> CredentialRegistry" where
  "ClearCooldownIfMatch credentialID expected r =
     (if IsZero expected then (False, r)
      else case entryLocked r credentialID of
             None \<Rightarrow> (False, r)
           | Some e \<Rightarrow>
               if ce_CooldownUntil e \<noteq> expected then (False, r)
               else (True, modify_entry credentialID (\<lambda>e. e\<lparr>ce_CooldownUntil := 0\<rparr>) r))"

definition SetCooldownWithChange :: "nat \<Rightarrow> time \<Rightarrow> CredentialRegistry \<Rightarrow> (bool \<times> bool) \<times> CredentialRegistry" where
  "SetCooldownWithChange credentialID until r =
     (case entryLocked r credentialID of
        None \<Rightarrow> ((False, False), r)
      | Some e \<Rightarrow>
          if \<not> After until (ce_CooldownUntil e) then ((True, False), r)
          else ((True, True), modify_entry credentialID (\<lambda>e. e\<lparr>ce_CooldownUntil := until\<rparr>) r))"

definition SetCooldown :: "nat \<Rightarrow> time \<Rightarrow> CredentialRegistry \<Rightarrow> bool \<times> CredentialRegistry" where
  "SetCooldown credentialID until r =
     (let ((exists, changed), r') = SetCooldownWithChange credentialID until r in (exists, r'))"

definition SetCooldownWithChangeIfVersion ::
  "nat \<Rightarrow> uint64 \<Rightarrow> time \<Rightarrow> CredentialRegistry \<Rightarrow> (bool \<times> bool) \<times> CredentialRegistry" where
  "SetCooldownWithChangeIfVersion credentialID expectedVersion until r =
     (case entryLocked r credentialID of
        None \<Rightarrow> ((False, False), r)
      | Some e \<Rightarrow>
          if ce_Version e \<noteq> expectedVersion then ((False, False), r)
          else if \<not> After until (ce_CooldownUntil e) then ((True, False), r)
          else ((True, True), modify_entry credentialID (\<lambda>e. e\<lparr>ce_CooldownUntil := until\<rparr>) r))"

definition SetBlacklistedWithChange :: "nat \<Rightarrow> CredentialRegistry \<Rightarrow> (bool \<times> bool) \<times> CredentialRegistry" where
  "SetBlacklistedWithChange credentialID r =
     (case entryLocked r credentialID of
        None \<Rightarrow> ((False, False), r)
      | Some e \<Rightarrow>
          if ce_Blacklisted e then ((True, False), r)
          else ((True, True), modify_entry credentialID
                 (\<lambda>e. e\<lparr>ce_Blacklisted := True, ce_FailureGeneration := ce_FailureGeneration e + 1\<rparr>) r))"

definition SetBlacklisted :: "nat \<Rightarrow> CredentialRegistry \<Rightarrow> bool \<times> CredentialRegistry" where
  "SetBlacklisted credentialID r =
     (let ((exists, changed), r') = SetBlacklistedWithChange credentialID r in (exists, r'))"

definition SetAutoWeight :: "nat \<Rightarrow> int \<Rightarrow> CredentialRegistry \<Rightarrow> bool \<times> CredentialRegistry" where
  "SetAutoWeight credentialID weight r =
     (if weight < 1 \<or> weight > MaxWeight then (False, r)
      else if entryLocked r credentialID = None then (False, r)
      else (True, modify_entry credentialID (\<lambda>e. e\<lparr>ce_WeightAuto := weight\<rparr>) r))"

definition healthy_entry :: "int \<Rightarrow> CredentialEntry \<Rightarrow> CredentialEntry" where
  "healthy_entry weight e = e\<lparr>ce_WeightAuto := weight, ce_Blacklisted := False, ce_FailureCount := 0,
     ce_FailureGeneration := ce_FailureGeneration e + 1\<rparr>"

definition RestoreRuntimeState :: "nat \<Rightarrow> int \<Rightarrow> CredentialRegistry \<Rightarrow> bool \<times> CredentialRegistry" where
  "RestoreRuntimeState credentialID weight r =
     (if weight < 1 \<or> weight > MaxWeight then (False, r)
      else if entryLocked r credentialID = None then (False, r)
      else (True, modify_entry credentialID (\<lambda>e. (healthy_entry weight e)\<lparr>ce_CooldownUntil := 0\<rparr>) r))"

definition IncrFailure :: "nat \<Rightarrow> CredentialRegistry \<Rightarrow> int option \<times> CredentialRegistry" where
  "IncrFailure credentialID r =
     (case entryLocked r credentialID of
        None \<Rightarrow> (None, r)
      | Some e \<Rightarrow>
          (Some (wrap64 (ce_FailureCount e + 1)),
           modify_entry credentialID (\<lambda>e. e\<lparr>ce_FailureCount := wrap64 (ce_FailureCount e + 1),
             ce_FailureGeneration := ce_FailureGeneration e + 1\<rparr>) r))"

definition ClearFailure :: "nat \<Rightarrow> CredentialRegistry \<Rightarrow> bool \<times> CredentialRegistry" where
  "ClearFailure credentialID r =
     (case entryLocked r credentialID of
        None \<Rightarrow> (False, r)
      | Some e \<Rightarrow>
          (True, if ce_FailureCount e \<noteq> 0
                 then modify_entry credentialID
                        (\<lambda>e. e\<lparr>ce_FailureCount := 0, ce_FailureGeneration := ce_FailureGeneration e + 1\<rparr>) r
                 else r))"

definition Recover :: "nat \<Rightarrow> CredentialRegistry \<Rightarrow> bool \<times> CredentialRegistry" where
  "Recover credentialID r =
     (case entryLocked r credentialID of
        None \<Rightarrow> (False, r)
      | Some e \<Rightarrow>
          (True, if ce_Blacklisted e \<or> ce_FailureCount e \<noteq> 0
                 then modify_entry credentialID (\<lambda>e. e\<lparr>ce_Blacklisted := False, ce_FailureCount := 0,
                        ce_FailureGeneration := ce_FailureGeneration e + 1\<rparr>) r
                 else r))"

definition restoreRuntimeStateIfMatch ::
  "CredentialRef \<Rightarrow> time option \<Rightarrow> int \<Rightarrow> CredentialRegistry \<Rightarrow> bool \<times> CredentialRegistry" where
  "restoreRuntimeStateIfMatch ref cooldownUntil weight r =
     (if weight < 1 \<or> weight > MaxWeight then (False, r)
      else case credentialGroups r (cr_ID ref) of
             None \<Rightarrow> (False, r)
           | Some groupID \<Rightarrow>
               if groupID \<noteq> cr_GroupID ref then (False, r)
               else case map_of (bucket r groupID) (cr_ID ref) of
                      None \<Rightarrow> (False, r)
                    | Some e \<Rightarrow>
                        if ce_Status e \<noteq> CredentialStatusActive \<or> \<not> ce_Blacklisted e \<or> \<not> ref_matches ref e
                           \<or> ce_FailureGeneration e \<noteq> cr_FailureGeneration ref
                           \<or> (case cooldownUntil of None \<Rightarrow> False | Some t \<Rightarrow> ce_CooldownUntil e \<noteq> t)
                        then (False, r)
                        else (True, put_entry groupID (cr_ID ref)
                                (let e1 = healthy_entry weight e
                                 in if cooldownUntil \<noteq> None then e1\<lparr>ce_CooldownUntil := 0\<rparr> else e1) r))"

definition RecoverIfMatch :: "CredentialRef \<Rightarrow> int \<Rightarrow> CredentialRegistry \<Rightarrow> bool \<times> CredentialRegistry" where
  "RecoverIfMatch ref weight r = restoreRuntimeStateIfMatch ref None weight r"

definition RestoreRuntimeStateIfMatch ::
  "CredentialRef \<Rightarrow> time \<Rightarrow> int \<Rightarrow> CredentialRegistry \<Rightarrow> bool \<times> CredentialRegistry" where
  "RestoreRuntimeStateIfMatch ref cooldownUntil weight r = restoreRuntimeStateIfMatch ref (Some cooldownUntil) weight r"

section \<open>Checkpoints\<close>

record CredentialRuntimeCheckpoint =
  cc_ID :: nat
  cc_GroupID :: nat
  cc_WeightAuto :: int
  cc_CooldownUntil :: time
  cc_Blacklisted :: bool
  cc_FailureCount :: int

definition entry_checkpoint :: "CredentialEntry \<Rightarrow> CredentialRuntimeCheckpoint" where
  "entry_checkpoint e = \<lparr>cc_ID = ce_ID e, cc_GroupID = ce_GroupID e, cc_WeightAuto = ce_WeightAuto e,
     cc_CooldownUntil = ce_CooldownUntil e, cc_Blacklisted = ce_Blacklisted e, cc_FailureCount = ce_FailureCount e\<rparr>"

definition CaptureRuntimeCheckpoint :: "CredentialRegistry \<Rightarrow> CredentialRuntimeCheckpoint list" where
  "CaptureRuntimeCheckpoint r =
     sort_key (\<lambda>c. (cc_GroupID c, cc_ID c)) (map entry_checkpoint (all_entries r))"

definition restore_entry :: "CredentialRuntimeCheckpoint \<Rightarrow> CredentialEntry \<Rightarrow> CredentialEntry" where
  "restore_entry c e = e\<lparr>ce_WeightAuto := cc_WeightAuto c, ce_CooldownUntil := cc_CooldownUntil c,
     ce_Blacklisted := cc_Blacklisted c, ce_FailureCount := cc_FailureCount c\<rparr>"

fun RestoreRuntimeCheckpoint ::
  "CredentialRuntimeCheckpoint list \<Rightarrow> CredentialRegistry \<Rightarrow> int \<times> CredentialRegistry" where
  "RestoreRuntimeCheckpoint [] r = (0, r)"
| "RestoreRuntimeCheckpoint (c # cs) r =
     (if cc_ID c = 0 \<or> cc_GroupID c = 0 \<or> cc_WeightAuto c < 0 \<or> cc_WeightAuto c > MaxWeight \<or> cc_FailureCount c < 0
      then RestoreRuntimeCheckpoint cs r
      else case credentialGroups r (cc_ID c) of
             None \<Rightarrow> RestoreRuntimeCheckpoint cs r
           | Some groupID \<Rightarrow>
               if groupID \<noteq> cc_GroupID c then RestoreRuntimeCheckpoint cs r
               else case map_of (bucket r groupID) (cc_ID c) of
                      None \<Rightarrow> RestoreRuntimeCheckpoint cs r
                    | Some e \<Rightarrow>
                        let (restored, r') = RestoreRuntimeCheckpoint cs (put_entry groupID (cc_ID c) (restore_entry c e) r)
                        in (restored + 1, r'))"

end
