(* ===== verification/Runtime_Settings.thy ===== *)
theory Runtime_Settings
  imports Registry "HOL-Library.Multiset"
begin

text \<open>
  Runtime settings (\<open>src/internal/state/runtime_settings.go\<close>) and the header names they
  may not touch (\<open>src/internal/platform/httpheader/policy.go\<close>). A settings object is a
  map from keys to decoded JSON values, ranged over in an unspecified order.

  What the code takes from the platform is in \<open>platform\<close>: the rational value of a
  \<open>json.Number\<close> literal (\<open>None\<close> unless the literal is valid JSON and \<open>big.Rat\<close> reads
  it), and the result of converting a float outside the \<open>int64\<close> range, which the
  language leaves to the implementation.
\<close>

section \<open>Results\<close>

fun and_then :: "'e + 'a \<Rightarrow> ('a \<Rightarrow> 'e + 'b) \<Rightarrow> 'e + 'b" where
  "and_then (Inl e) f = Inl e"
| "and_then (Inr x) f = f x"

fun fold_result :: "('x \<Rightarrow> 's \<Rightarrow> 'e + 's) \<Rightarrow> 'x list \<Rightarrow> 's \<Rightarrow> 'e + 's" where
  "fold_result f [] s = Inr s"
| "fold_result f (x # xs) s = and_then (f x s) (fold_result f xs)"

definition is_ok :: "'e + 'a \<Rightarrow> bool" where
  "is_ok r = (case r of Inl _ \<Rightarrow> False | Inr _ \<Rightarrow> True)"

lemma is_ok_simps [simp]: "\<not> is_ok (Inl e)" "is_ok (Inr x)"
  by (simp_all add: is_ok_def)

lemma is_ok_iff: "is_ok r \<longleftrightarrow> (\<exists>x. r = Inr x)"
  by (cases r) simp_all

lemma and_then_Inr [simp]: "and_then r f = Inr y \<longleftrightarrow> (\<exists>x. r = Inr x \<and> f x = Inr y)"
  by (cases r) simp_all

text \<open>An invariant that every successful step of a fold keeps holds of its result.\<close>

lemma fold_result_inv:
  assumes "fold_result f xs s = Inr t" and "P s"
    and "\<And>x s t. x \<in> set xs \<Longrightarrow> P s \<Longrightarrow> f x s = Inr t \<Longrightarrow> P t"
  shows "P t"
  using assms
proof (induction xs arbitrary: s)
  case (Cons x xs)
  then obtain u where "f x s = Inr u" "fold_result f xs u = Inr t" by auto
  with Cons show ?case by (metis list.set_intros)
qed simp

text \<open>A fold succeeds iff every step does, when success depends on the element alone.\<close>

lemma fold_result_ok:
  assumes "\<And>x s. x \<in> set xs \<Longrightarrow> is_ok (f x s) = ok x"
  shows "is_ok (fold_result f xs s) \<longleftrightarrow> (\<forall>x \<in> set xs. ok x)"
  using assms
proof (induction xs arbitrary: s)
  case (Cons x xs)
  from Cons.prems [of x s] show ?case
    by (cases "f x s") (simp_all add: Cons)
qed simp

section \<open>Values and settings\<close>

datatype any =
    AnyNil | AnyBool bool | AnyInt int | AnyInt64 int | AnyFloat float64 | AnyNumber string
  | AnyString string | AnyArray "any list" | AnyObject "(string \<times> any) list" | AnyOther

type_synonym Settings = "(string, any) gomap"

record platform =
  number_value :: "string \<Rightarrow> rat option"
  float_convert :: "rat \<Rightarrow> int"

record HeaderRules =
  hr_Set :: "(string, string) gomap"
  hr_Remove :: "string list"

record TimeoutConfig =
  to_FirstByte :: duration
  to_Request :: duration
  to_StreamIdle :: duration

record RuntimeSettings =
  rs_FirstByteTimeout :: duration
  rs_RequestTimeout :: duration
  rs_StreamIdleTimeout :: duration
  rs_HeaderRules :: HeaderRules
  rs_InjectUsageOptions :: bool
  rs_RetryCount :: int
  rs_BlacklistThreshold :: int
  rs_AffinityEnabled :: bool
  rs_AffinityTTL :: duration
  rs_AffinityCapacity :: int
  rs_ValidationInterval :: duration
  rs_RequestLogRetentionDays :: int
  rs_ModelsDevAutoSyncEnabled :: bool

record ResolvedGroupSettings =
  gs_Timeouts :: TimeoutConfig
  gs_HeaderRules :: HeaderRules
  gs_InjectUsageOptions :: bool
  gs_RetryCount :: int
  gs_BlacklistThreshold :: int
  gs_AffinityEnabled :: bool

datatype SettingError =
    ErrUnknownRuntimeSetting string | ErrUnknownGroupSetting string | ErrBoolean string
  | ErrNonNegativeWhole string | ErrSafeIntegerRange string | ErrWholeNumberRange string int int
  | ErrPositiveWhole string | ErrDurationRange string
  | ErrHeaderRulesObject | ErrHeaderRulesField string | ErrSetObject | ErrSetName string | ErrSetForbidden string
  | ErrSetDuplicate string | ErrSetString string | ErrSetValue string
  | ErrRemoveArray | ErrRemoveString nat | ErrRemoveName nat string | ErrRemoveForbidden string
  | ErrRemoveDuplicate string

definition SettingFirstByteTimeout :: string where "SettingFirstByteTimeout = ''first_byte_timeout''"
definition SettingRequestTimeout :: string where "SettingRequestTimeout = ''request_timeout''"
definition SettingStreamIdleTimeout :: string where "SettingStreamIdleTimeout = ''stream_idle_timeout''"
definition SettingHeaderRules :: string where "SettingHeaderRules = ''header_rules''"
definition SettingInjectUsageOptions :: string where "SettingInjectUsageOptions = ''inject_usage_options''"
definition SettingRetryCount :: string where "SettingRetryCount = ''retry_count''"
definition SettingBlacklistThreshold :: string where "SettingBlacklistThreshold = ''blacklist_threshold''"
definition SettingAffinityEnabled :: string where "SettingAffinityEnabled = ''affinity_enabled''"
definition SettingAffinityTTL :: string where "SettingAffinityTTL = ''affinity_ttl''"
definition SettingAffinityCapacity :: string where "SettingAffinityCapacity = ''affinity_capacity''"
definition SettingValidationInterval :: string where "SettingValidationInterval = ''validation_interval''"
definition SettingRequestLogRetentionDays :: string where
  "SettingRequestLogRetentionDays = ''request_log_retention_days''"
definition SettingModelsDevAutoSyncEnabled :: string where
  "SettingModelsDevAutoSyncEnabled = ''models_dev_auto_sync_enabled''"

lemmas setting_names = SettingFirstByteTimeout_def SettingRequestTimeout_def SettingStreamIdleTimeout_def
  SettingHeaderRules_def SettingInjectUsageOptions_def SettingRetryCount_def SettingBlacklistThreshold_def
  SettingAffinityEnabled_def SettingAffinityTTL_def SettingAffinityCapacity_def SettingValidationInterval_def
  SettingRequestLogRetentionDays_def SettingModelsDevAutoSyncEnabled_def

definition defaultRequestLogRetentionDays :: int where "defaultRequestLogRetentionDays = 7"
definition minRequestLogRetentionDays :: int where "minRequestLogRetentionDays = 1"
definition maxRequestLogRetentionDays :: int where "maxRequestLogRetentionDays = 365"
definition defaultAffinityCapacity :: int where "defaultAffinityCapacity = 10000"
definition maxAffinityCapacity :: int where "maxAffinityCapacity = 1000000"
definition maxJSONSafeInteger :: int where "maxJSONSafeInteger = 9007199254740991"

definition DefaultRuntimeSettings :: RuntimeSettings where
  "DefaultRuntimeSettings = \<lparr>rs_FirstByteTimeout = 120 * Second, rs_RequestTimeout = 600 * Second,
     rs_StreamIdleTimeout = 300 * Second, rs_HeaderRules = \<lparr>hr_Set = [], hr_Remove = []\<rparr>,
     rs_InjectUsageOptions = True, rs_RetryCount = 2, rs_BlacklistThreshold = 3, rs_AffinityEnabled = True,
     rs_AffinityTTL = Hour, rs_AffinityCapacity = defaultAffinityCapacity, rs_ValidationInterval = 10 * Minute,
     rs_RequestLogRetentionDays = defaultRequestLogRetentionDays, rs_ModelsDevAutoSyncEnabled = True\<rparr>"

definition IsRuntimeSettingKey :: "string \<Rightarrow> bool" where
  "IsRuntimeSettingKey key \<longleftrightarrow> key \<in> {SettingFirstByteTimeout, SettingRequestTimeout, SettingStreamIdleTimeout,
     SettingHeaderRules, SettingInjectUsageOptions, SettingRetryCount, SettingBlacklistThreshold,
     SettingAffinityEnabled, SettingAffinityTTL, SettingAffinityCapacity, SettingValidationInterval,
     SettingRequestLogRetentionDays, SettingModelsDevAutoSyncEnabled}"

section \<open>Scalar settings\<close>

definition strictBoolean :: "string \<Rightarrow> any \<Rightarrow> SettingError + bool" where
  "strictBoolean path v = (case v of AnyBool b \<Rightarrow> Inr b | _ \<Rightarrow> Inl (ErrBoolean path))"

definition rat_IsInt :: "rat \<Rightarrow> bool" where
  "rat_IsInt q \<longleftrightarrow> rat_of_int \<lfloor>q\<rfloor> = q"

text \<open>\<open>int64(f)\<close> of a float without a fraction.\<close>

definition int64_of_float :: "platform \<Rightarrow> rat \<Rightarrow> int" where
  "int64_of_float pl q = (if int64 \<lfloor>q\<rfloor> then \<lfloor>q\<rfloor> else float_convert pl q)"

definition nonNegativeWholeNumber :: "platform \<Rightarrow> string \<Rightarrow> any \<Rightarrow> SettingError + int" where
  "nonNegativeWholeNumber pl path v =
     and_then
       (case v of
          AnyInt n \<Rightarrow> Inr n
        | AnyInt64 n \<Rightarrow> Inr n
        | AnyFloat (Finite q) \<Rightarrow> if rat_IsInt q then Inr \<lfloor>q\<rfloor> else Inl (ErrNonNegativeWhole path)
        | AnyNumber literal \<Rightarrow>
            (case number_value pl literal of
               Some q \<Rightarrow> if rat_IsInt q then Inr \<lfloor>q\<rfloor> else Inl (ErrNonNegativeWhole path)
             | None \<Rightarrow> Inl (ErrNonNegativeWhole path))
        | _ \<Rightarrow> Inl (ErrNonNegativeWhole path))
       (\<lambda>n. if n < 0 \<or> n > maxJSONSafeInteger then Inl (ErrSafeIntegerRange path) else Inr n)"

definition wholeNumberInRange :: "platform \<Rightarrow> string \<Rightarrow> any \<Rightarrow> int \<Rightarrow> int \<Rightarrow> SettingError + int" where
  "wholeNumberInRange pl path v minimum maximum =
     (let bad = ErrWholeNumberRange path minimum maximum in
      and_then
        (case v of
           AnyInt n \<Rightarrow> Inr n
         | AnyInt64 n \<Rightarrow> Inr n
         | AnyFloat (Finite q) \<Rightarrow>
             if \<not> rat_IsInt q \<or> q < rat_of_int minimum \<or> q > rat_of_int maximum then Inl bad
             else Inr (int64_of_float pl q)
         | AnyNumber literal \<Rightarrow>
             (case number_value pl literal of
                Some q \<Rightarrow> if rat_IsInt q \<and> int64 \<lfloor>q\<rfloor> then Inr \<lfloor>q\<rfloor> else Inl bad
              | None \<Rightarrow> Inl bad)
         | _ \<Rightarrow> Inl bad)
        (\<lambda>n. if n < minimum \<or> n > maximum then Inl bad else Inr n))"

definition maxTimeoutSeconds :: int where
  "maxTimeoutSeconds = MaxInt64 div Second"

definition positiveWholeSeconds :: "platform \<Rightarrow> string \<Rightarrow> any \<Rightarrow> SettingError + int" where
  "positiveWholeSeconds pl path v =
     and_then
       (case v of
          AnyInt n \<Rightarrow> Inr n
        | AnyInt64 n \<Rightarrow> Inr n
        | AnyFloat (Finite q) \<Rightarrow>
            if \<not> rat_IsInt q \<or> q > rat_of_int maxTimeoutSeconds then Inl (ErrPositiveWhole path)
            else Inr (int64_of_float pl q)
        | AnyNumber literal \<Rightarrow>
            (case number_value pl literal of
               Some q \<Rightarrow> if rat_IsInt q \<and> int64 \<lfloor>q\<rfloor> then Inr \<lfloor>q\<rfloor> else Inl (ErrPositiveWhole path)
             | None \<Rightarrow> Inl (ErrPositiveWhole path))
        | _ \<Rightarrow> Inl (ErrPositiveWhole path))
       (\<lambda>n. if n \<le> 0 \<or> n > maxTimeoutSeconds then Inl (ErrDurationRange path) else Inr n)"

definition seconds_duration :: "int \<Rightarrow> duration" where
  "seconds_duration n = wrap64 (n * Second)"

section \<open>Header rules\<close>

definition isHTTPTokenByte :: "char \<Rightarrow> bool" where
  "isHTTPTokenByte c \<longleftrightarrow> (let n = of_char c :: nat in
     (48 \<le> n \<and> n \<le> 57) \<or> (97 \<le> n \<and> n \<le> 122) \<or> (65 \<le> n \<and> n \<le> 90)
     \<or> c \<in> set ([CHR ''!'', CHR ''#'', CHR ''$'', CHR ''%'', CHR ''&'', CHR 0x27, CHR ''*'', CHR ''+'', CHR ''-'',
         CHR ''.'', CHR ''^'', CHR ''_'', CHR 0x60, CHR ''|'', CHR ''~'']))"

definition validHTTPHeaderName :: "string \<Rightarrow> bool" where
  "validHTTPHeaderName name \<longleftrightarrow> name \<noteq> [] \<and> list_all isHTTPTokenByte name"

definition validHTTPHeaderValue :: "string \<Rightarrow> bool" where
  "validHTTPHeaderValue v \<longleftrightarrow>
     list_all (\<lambda>c. let n = of_char c :: nat in \<not> ((n < 32 \<and> n \<noteq> 9) \<or> n = 127)) v"

text \<open>\<open>textproto.CanonicalMIMEHeaderKey\<close>: capitals at the start and after a hyphen, unless a byte is no token byte.\<close>

fun canonical_case :: "bool \<Rightarrow> string \<Rightarrow> string" where
  "canonical_case upper [] = []"
| "canonical_case upper (c # s) =
     (let n = of_char c :: nat;
          d = (if upper \<and> 97 \<le> n \<and> n \<le> 122 then char_of (n - 32)
               else if \<not> upper \<and> 65 \<le> n \<and> n \<le> 90 then char_of (n + 32) else c)
      in d # canonical_case (d = CHR ''-'') s)"

definition CanonicalMIMEHeaderKey :: "string \<Rightarrow> string" where
  "CanonicalMIMEHeaderKey s = (if list_all isHTTPTokenByte s then canonical_case True s else s)"

definition credentialNames :: "string list" where
  "credentialNames = [''authorization'', ''proxy-authorization'', ''api-key'', ''x-api-key'', ''x-goog-api-key'']"

definition forbiddenRequestRuleNames :: "string list" where
  "forbiddenRequestRuleNames = [''connection'', ''proxy-connection'', ''keep-alive'', ''te'', ''trailer'',
     ''transfer-encoding'', ''upgrade'', ''cookie'', ''cookie2'', ''accept-encoding'', ''content-encoding'']"

definition normalizeName :: "string \<Rightarrow> string" where
  "normalizeName name = (if name = [] then [] else ToLower (CanonicalMIMEHeaderKey name))"

definition IsCredentialName :: "string \<Rightarrow> bool" where
  "IsCredentialName name =
     (let normalized = normalizeName name in
      if normalized = [] then False else normalized \<in> set credentialNames)"

definition IsForbiddenRequestRuleName :: "string \<Rightarrow> bool" where
  "IsForbiddenRequestRuleName name =
     (let normalized = normalizeName name in
      if normalized = [] then False
      else if HasPrefix normalized ''proxy-'' then True
      else normalized \<in> set forbiddenRequestRuleNames)"

definition forbidden_rule_name :: "string \<Rightarrow> bool" where
  "forbidden_rule_name canonicalName \<longleftrightarrow> IsForbiddenRequestRuleName canonicalName \<or> IsCredentialName canonicalName"

text \<open>One entry of \<open>header_rules.set\<close>; the state is the set of names seen and the rules built so far.\<close>

definition parse_set_rule :: "string \<times> any \<Rightarrow> string set \<times> HeaderRules \<Rightarrow> SettingError + (string set \<times> HeaderRules)" where
  "parse_set_rule item st =
     (case (item, st) of ((name, rawValue), (seen, rules)) \<Rightarrow>
        let canonicalName = CanonicalMIMEHeaderKey name; identity = ToLower name in
        if \<not> validHTTPHeaderName name then Inl (ErrSetName name)
        else if forbidden_rule_name canonicalName then Inl (ErrSetForbidden canonicalName)
        else if identity \<in> seen then Inl (ErrSetDuplicate canonicalName)
        else case rawValue of
               AnyString text \<Rightarrow>
                 if \<not> validHTTPHeaderValue text then Inl (ErrSetValue name)
                 else Inr (insert identity seen, rules\<lparr>hr_Set := AList.update canonicalName text (hr_Set rules)\<rparr>)
             | _ \<Rightarrow> Inl (ErrSetString name))"

definition parse_remove_rule :: "nat \<times> any \<Rightarrow> string set \<times> HeaderRules \<Rightarrow> SettingError + (string set \<times> HeaderRules)" where
  "parse_remove_rule item st =
     (case (item, st) of ((index, rawName), (seen, rules)) \<Rightarrow>
        case rawName of
          AnyString name \<Rightarrow>
            let canonicalName = CanonicalMIMEHeaderKey name; identity = ToLower name in
            if \<not> validHTTPHeaderName name then Inl (ErrRemoveName index name)
            else if forbidden_rule_name canonicalName then Inl (ErrRemoveForbidden canonicalName)
            else if identity \<in> seen then Inl (ErrRemoveDuplicate canonicalName)
            else Inr (insert identity seen, rules\<lparr>hr_Remove := hr_Remove rules @ [canonicalName]\<rparr>)
        | _ \<Rightarrow> Inl (ErrRemoveString index))"

definition parse_set_rules :: "any option \<Rightarrow> string set \<times> HeaderRules \<Rightarrow> SettingError + (string set \<times> HeaderRules)" where
  "parse_set_rules raw st =
     (case raw of
        None \<Rightarrow> Inr st
      | Some (AnyObject rules) \<Rightarrow> fold_result parse_set_rule rules st
      | Some _ \<Rightarrow> Inl ErrSetObject)"

definition parse_remove_rules :: "any option \<Rightarrow> string set \<times> HeaderRules \<Rightarrow> SettingError + (string set \<times> HeaderRules)" where
  "parse_remove_rules raw st =
     (case raw of
        None \<Rightarrow> Inr st
      | Some (AnyArray names) \<Rightarrow> fold_result parse_remove_rule (List.enumerate 0 names) st
      | Some _ \<Rightarrow> Inl ErrRemoveArray)"

definition parseHeaderRules :: "any \<Rightarrow> SettingError + HeaderRules" where
  "parseHeaderRules v =
     (case v of
        AnyObject object \<Rightarrow>
          (case find (\<lambda>key. key \<noteq> ''set'' \<and> key \<noteq> ''remove'') (keys object) of
             Some key \<Rightarrow> Inl (ErrHeaderRulesField key)
           | None \<Rightarrow>
               and_then (parse_set_rules (map_of object ''set'') ({}, \<lparr>hr_Set = [], hr_Remove = []\<rparr>))
                 (\<lambda>st. and_then (parse_remove_rules (map_of object ''remove'') st) (\<lambda>(seen, rules). Inr rules)))
      | _ \<Rightarrow> Inl ErrHeaderRulesObject)"

section \<open>Resolution\<close>

definition apply_runtime_setting :: "platform \<Rightarrow> string \<times> any \<Rightarrow> RuntimeSettings \<Rightarrow> SettingError + RuntimeSettings" where
  "apply_runtime_setting pl item rs =
     (case item of (key, v) \<Rightarrow>
        if key = SettingFirstByteTimeout then
          and_then (positiveWholeSeconds pl key v) (\<lambda>n. Inr (rs\<lparr>rs_FirstByteTimeout := seconds_duration n\<rparr>))
        else if key = SettingRequestTimeout then
          and_then (positiveWholeSeconds pl key v) (\<lambda>n. Inr (rs\<lparr>rs_RequestTimeout := seconds_duration n\<rparr>))
        else if key = SettingStreamIdleTimeout then
          and_then (positiveWholeSeconds pl key v) (\<lambda>n. Inr (rs\<lparr>rs_StreamIdleTimeout := seconds_duration n\<rparr>))
        else if key = SettingHeaderRules then
          and_then (parseHeaderRules v) (\<lambda>rules. Inr (rs\<lparr>rs_HeaderRules := rules\<rparr>))
        else if key = SettingInjectUsageOptions then
          and_then (strictBoolean key v) (\<lambda>b. Inr (rs\<lparr>rs_InjectUsageOptions := b\<rparr>))
        else if key = SettingRetryCount then
          and_then (nonNegativeWholeNumber pl key v) (\<lambda>n. Inr (rs\<lparr>rs_RetryCount := n\<rparr>))
        else if key = SettingBlacklistThreshold then
          and_then (nonNegativeWholeNumber pl key v) (\<lambda>n. Inr (rs\<lparr>rs_BlacklistThreshold := n\<rparr>))
        else if key = SettingAffinityEnabled then
          and_then (strictBoolean key v) (\<lambda>b. Inr (rs\<lparr>rs_AffinityEnabled := b\<rparr>))
        else if key = SettingAffinityTTL then
          and_then (positiveWholeSeconds pl key v) (\<lambda>n. Inr (rs\<lparr>rs_AffinityTTL := seconds_duration n\<rparr>))
        else if key = SettingAffinityCapacity then
          and_then (wholeNumberInRange pl key v 1 maxAffinityCapacity) (\<lambda>n. Inr (rs\<lparr>rs_AffinityCapacity := n\<rparr>))
        else if key = SettingValidationInterval then
          and_then (positiveWholeSeconds pl key v) (\<lambda>n. Inr (rs\<lparr>rs_ValidationInterval := seconds_duration n\<rparr>))
        else if key = SettingRequestLogRetentionDays then
          and_then (wholeNumberInRange pl key v minRequestLogRetentionDays maxRequestLogRetentionDays)
            (\<lambda>n. Inr (rs\<lparr>rs_RequestLogRetentionDays := n\<rparr>))
        else if key = SettingModelsDevAutoSyncEnabled then
          and_then (strictBoolean key v) (\<lambda>b. Inr (rs\<lparr>rs_ModelsDevAutoSyncEnabled := b\<rparr>))
        else Inl (ErrUnknownRuntimeSetting key))"

definition ResolveRuntimeSettings :: "platform \<Rightarrow> Settings \<Rightarrow> SettingError + RuntimeSettings" where
  "ResolveRuntimeSettings pl settings = fold_result (apply_runtime_setting pl) settings DefaultRuntimeSettings"

definition apply_group_setting ::
  "platform \<Rightarrow> string \<times> any \<Rightarrow> ResolvedGroupSettings \<Rightarrow> SettingError + ResolvedGroupSettings" where
  "apply_group_setting pl item gs =
     (case item of (key, v) \<Rightarrow>
        if key = SettingFirstByteTimeout then
          and_then (positiveWholeSeconds pl key v)
            (\<lambda>n. Inr (gs\<lparr>gs_Timeouts := (gs_Timeouts gs)\<lparr>to_FirstByte := seconds_duration n\<rparr>\<rparr>))
        else if key = SettingRequestTimeout then
          and_then (positiveWholeSeconds pl key v)
            (\<lambda>n. Inr (gs\<lparr>gs_Timeouts := (gs_Timeouts gs)\<lparr>to_Request := seconds_duration n\<rparr>\<rparr>))
        else if key = SettingStreamIdleTimeout then
          and_then (positiveWholeSeconds pl key v)
            (\<lambda>n. Inr (gs\<lparr>gs_Timeouts := (gs_Timeouts gs)\<lparr>to_StreamIdle := seconds_duration n\<rparr>\<rparr>))
        else if key = SettingHeaderRules then
          and_then (parseHeaderRules v) (\<lambda>rules. Inr (gs\<lparr>gs_HeaderRules := rules\<rparr>))
        else if key = SettingInjectUsageOptions then
          and_then (strictBoolean key v) (\<lambda>b. Inr (gs\<lparr>gs_InjectUsageOptions := b\<rparr>))
        else if key = SettingRetryCount then
          and_then (nonNegativeWholeNumber pl key v) (\<lambda>n. Inr (gs\<lparr>gs_RetryCount := n\<rparr>))
        else if key = SettingBlacklistThreshold then
          and_then (nonNegativeWholeNumber pl key v) (\<lambda>n. Inr (gs\<lparr>gs_BlacklistThreshold := n\<rparr>))
        else if key = SettingAffinityEnabled then
          and_then (strictBoolean key v) (\<lambda>b. Inr (gs\<lparr>gs_AffinityEnabled := b\<rparr>))
        else Inl (ErrUnknownGroupSetting key))"

definition ResolveGroupRuntimeSettings ::
  "platform \<Rightarrow> RuntimeSettings \<Rightarrow> Settings \<Rightarrow> SettingError + ResolvedGroupSettings" where
  "ResolveGroupRuntimeSettings pl base settings =
     fold_result (apply_group_setting pl) settings
       \<lparr>gs_Timeouts = \<lparr>to_FirstByte = rs_FirstByteTimeout base, to_Request = rs_RequestTimeout base,
          to_StreamIdle = rs_StreamIdleTimeout base\<rparr>,
        gs_HeaderRules = rs_HeaderRules base, gs_InjectUsageOptions = rs_InjectUsageOptions base,
        gs_RetryCount = rs_RetryCount base, gs_BlacklistThreshold = rs_BlacklistThreshold base,
        gs_AffinityEnabled = rs_AffinityEnabled base\<rparr>"

text \<open>The outcome of \<open>ValidateRuntimeSetting\<close> is its error, if any.\<close>

definition error_of :: "'e + 'a \<Rightarrow> 'e option" where
  "error_of r = (case r of Inl e \<Rightarrow> Some e | Inr _ \<Rightarrow> None)"

definition ValidateRuntimeSetting :: "platform \<Rightarrow> string \<Rightarrow> any \<Rightarrow> SettingError option" where
  "ValidateRuntimeSetting pl key v =
     (if key \<in> {SettingFirstByteTimeout, SettingRequestTimeout, SettingStreamIdleTimeout, SettingValidationInterval}
      then error_of (positiveWholeSeconds pl key v)
      else if key = SettingHeaderRules then error_of (parseHeaderRules v)
      else if key = SettingInjectUsageOptions then error_of (strictBoolean key v)
      else if key \<in> {SettingRetryCount, SettingBlacklistThreshold} then error_of (nonNegativeWholeNumber pl key v)
      else if key = SettingAffinityEnabled then error_of (strictBoolean key v)
      else if key = SettingAffinityTTL then error_of (positiveWholeSeconds pl key v)
      else if key = SettingAffinityCapacity then error_of (wholeNumberInRange pl key v 1 maxAffinityCapacity)
      else if key = SettingRequestLogRetentionDays then
        error_of (wholeNumberInRange pl key v minRequestLogRetentionDays maxRequestLogRetentionDays)
      else if key = SettingModelsDevAutoSyncEnabled then error_of (strictBoolean key v)
      else Some (ErrUnknownRuntimeSetting key))"

section \<open>Header names\<close>

lemma token_ascii: "isHTTPTokenByte c \<Longrightarrow> (of_char c :: nat) < 128"
  by (auto simp: isHTTPTokenByte_def Let_def)

lemma token_not_utf8: "isHTTPTokenByte c \<Longrightarrow> c \<noteq> CHR 0xE2 \<and> c \<noteq> CHR 0xC4"
  by (drule token_ascii) auto

lemma ToLower_token: "list_all isHTTPTokenByte s \<Longrightarrow> ToLower s = map ascii_lower s"
  by (induction s rule: ToLower.induct) (auto dest: token_not_utf8)

definition canonical_char :: "bool \<Rightarrow> char \<Rightarrow> char" where
  "canonical_char upper c =
     (let n = of_char c :: nat in
      if upper \<and> 97 \<le> n \<and> n \<le> 122 then char_of (n - 32)
      else if \<not> upper \<and> 65 \<le> n \<and> n \<le> 90 then char_of (n + 32) else c)"

lemma canonical_case_Cons: "canonical_case upper (c # s) = canonical_char upper c # canonical_case (canonical_char upper c = CHR ''-'') s"
  by (simp add: canonical_char_def Let_def)

lemma of_char_canonical:
  "(of_char (canonical_char upper c) :: nat) =
     (let n = of_char c :: nat in
      if upper \<and> 97 \<le> n \<and> n \<le> 122 then n - 32 else if \<not> upper \<and> 65 \<le> n \<and> n \<le> 90 then n + 32 else n)"
  by (auto simp: canonical_char_def Let_def)

lemma char_eq_nat: "c = d \<longleftrightarrow> (of_char c :: nat) = of_char d"
  by simp

lemma canonical_char_facts:
  shows "canonical_char upper (canonical_char upper c) = canonical_char upper c"
    and "ascii_lower (canonical_char upper c) = ascii_lower c"
    and "isHTTPTokenByte (canonical_char upper c) \<longleftrightarrow> isHTTPTokenByte c"
proof -
  let ?n = "of_char c :: nat"
  show "canonical_char upper (canonical_char upper c) = canonical_char upper c"
    unfolding char_eq_nat [of _ "canonical_char upper c"] of_char_canonical by (auto simp: Let_def of_char_canonical)
  show "ascii_lower (canonical_char upper c) = ascii_lower c"
    by (auto simp: ascii_lower_def of_char_canonical Let_def canonical_char_def)
  have "canonical_char upper c = c \<or> (65 \<le> ?n \<and> ?n \<le> 90) \<or> (97 \<le> ?n \<and> ?n \<le> 122)"
    by (simp add: canonical_char_def Let_def)
  then show "isHTTPTokenByte (canonical_char upper c) \<longleftrightarrow> isHTTPTokenByte c"
    by (elim disjE) (auto simp: isHTTPTokenByte_def of_char_canonical Let_def)
qed

lemma canonical_case_facts:
  shows "canonical_case upper (canonical_case upper s) = canonical_case upper s"
    and "map ascii_lower (canonical_case upper s) = map ascii_lower s"
    and "list_all isHTTPTokenByte (canonical_case upper s) = list_all isHTTPTokenByte s"
    and "(canonical_case upper s = []) = (s = [])"
proof -
  show "canonical_case upper (canonical_case upper s) = canonical_case upper s"
    by (induction s arbitrary: upper) (simp_all add: canonical_case_Cons canonical_char_facts del: canonical_case.simps(2))
  show "map ascii_lower (canonical_case upper s) = map ascii_lower s"
    by (induction s arbitrary: upper) (simp_all add: canonical_case_Cons canonical_char_facts del: canonical_case.simps(2))
  show "list_all isHTTPTokenByte (canonical_case upper s) = list_all isHTTPTokenByte s"
    by (induction s arbitrary: upper) (simp_all add: canonical_case_Cons canonical_char_facts del: canonical_case.simps(2))
  show "(canonical_case upper s = []) = (s = [])" by (cases s) (simp_all add: Let_def)
qed

text \<open>The canonical form of a valid name is a valid name with the same identity, and is its own canonical form.\<close>

lemma canonical_name:
  assumes "validHTTPHeaderName name"
  shows "validHTTPHeaderName (CanonicalMIMEHeaderKey name)"
    and "CanonicalMIMEHeaderKey (CanonicalMIMEHeaderKey name) = CanonicalMIMEHeaderKey name"
    and "ToLower (CanonicalMIMEHeaderKey name) = ToLower name"
  using assms by (simp_all add: validHTTPHeaderName_def CanonicalMIMEHeaderKey_def canonical_case_facts ToLower_token)

definition header_rule_names :: "HeaderRules \<Rightarrow> string list" where
  "header_rule_names rules = keys (hr_Set rules) @ hr_Remove rules"

text \<open>Every rule names a permitted header in canonical form, once, and sets only valid values.\<close>

definition header_rules_ok :: "HeaderRules \<Rightarrow> bool" where
  "header_rules_ok rules \<longleftrightarrow>
     distinct (map ToLower (header_rule_names rules))
     \<and> (\<forall>name \<in> set (header_rule_names rules).
          validHTTPHeaderName name \<and> CanonicalMIMEHeaderKey name = name \<and> \<not> forbidden_rule_name name)
     \<and> (\<forall>(name, v) \<in> set (hr_Set rules). validHTTPHeaderValue v)"

definition rules_state_ok :: "string set \<times> HeaderRules \<Rightarrow> bool" where
  "rules_state_ok st \<longleftrightarrow> header_rules_ok (snd st) \<and> fst st = ToLower ` set (header_rule_names (snd st))"

lemma AList_update_new: "k \<notin> set (keys m) \<Longrightarrow> AList.update k v m = m @ [(k, v)]"
  by (induction m) auto

lemma parse_set_rule_ok:
  assumes "rules_state_ok st" and "hr_Remove (snd st) = []" and "parse_set_rule item st = Inr st'"
  shows "rules_state_ok st' \<and> hr_Remove (snd st') = []"
proof -
  obtain name raw seen rules where p: "item = (name, raw)" "st = (seen, rules)" by (cases item, cases st)
  let ?c = "CanonicalMIMEHeaderKey name"
  from assms(3) obtain txtv where new: "validHTTPHeaderName name" "\<not> forbidden_rule_name ?c" "ToLower name \<notin> seen"
      "validHTTPHeaderValue txtv" and
      st': "st' = (insert (ToLower name) seen, rules\<lparr>hr_Set := AList.update ?c txtv (hr_Set rules)\<rparr>)"
    by (auto simp: parse_set_rule_def p Let_def split: if_splits any.splits)
  have seen: "seen = ToLower ` set (keys (hr_Set rules))"
    using assms(1,2) by (simp add: rules_state_ok_def p header_rule_names_def)
  have "?c \<notin> set (keys (hr_Set rules))"
    using new(3) seen canonical_name(3) [OF new(1)] by (metis imageI)
  note upd = AList_update_new [OF this]
  show ?thesis
    using assms(1,2) new canonical_name [OF new(1)]
    by (auto simp: rules_state_ok_def header_rules_ok_def header_rule_names_def st' p upd)
qed

lemma parse_remove_rule_ok:
  assumes "rules_state_ok st" and "parse_remove_rule item st = Inr st'"
  shows "rules_state_ok st'"
proof -
  obtain index raw seen rules where p: "item = (index, raw)" "st = (seen, rules)" by (cases item, cases st)
  from assms(2) obtain name where new: "validHTTPHeaderName name" "\<not> forbidden_rule_name (CanonicalMIMEHeaderKey name)"
      "ToLower name \<notin> seen" and
      st': "st' = (insert (ToLower name) seen, rules\<lparr>hr_Remove := hr_Remove rules @ [CanonicalMIMEHeaderKey name]\<rparr>)"
    by (auto simp: parse_remove_rule_def p Let_def split: if_splits any.splits)
  show ?thesis
    using assms(1) new canonical_name [OF new(1)]
    by (auto simp: rules_state_ok_def header_rules_ok_def header_rule_names_def st' p)
qed

lemma parse_set_rules_ok:
  assumes "parse_set_rules raw st = Inr st'" and "rules_state_ok st" and "hr_Remove (snd st) = []"
  shows "rules_state_ok st'"
proof (cases raw)
  case None
  with assms show ?thesis by (simp add: parse_set_rules_def)
next
  case (Some v)
  with assms(1) obtain rules where "fold_result parse_set_rule rules st = Inr st'"
    by (auto simp: parse_set_rules_def split: any.splits)
  from fold_result_inv [where P = "\<lambda>st. rules_state_ok st \<and> hr_Remove (snd st) = []", OF this] parse_set_rule_ok assms(2,3)
  show ?thesis by blast
qed

lemma parse_remove_rules_ok:
  assumes "parse_remove_rules raw st = Inr st'" and "rules_state_ok st"
  shows "rules_state_ok st'"
proof (cases raw)
  case None
  with assms show ?thesis by (simp add: parse_remove_rules_def)
next
  case (Some v)
  with assms(1) obtain names where "fold_result parse_remove_rule (List.enumerate 0 names) st = Inr st'"
    by (auto simp: parse_remove_rules_def split: any.splits)
  from fold_result_inv [where P = rules_state_ok, OF this] parse_remove_rule_ok assms(2)
  show ?thesis by blast
qed

lemma parseHeaderRules_ok:
  assumes "parseHeaderRules v = Inr rules"
  shows "header_rules_ok rules"
proof -
  from assms obtain raw_set raw_remove st seen where
    s: "parse_set_rules raw_set ({}, \<lparr>hr_Set = [], hr_Remove = []\<rparr>) = Inr st"
    and r: "parse_remove_rules raw_remove st = Inr (seen, rules)"
    by (auto simp: parseHeaderRules_def split: any.splits option.splits)
  have "rules_state_ok st"
    by (rule parse_set_rules_ok [OF s]) (simp_all add: rules_state_ok_def header_rules_ok_def header_rule_names_def)
  from parse_remove_rules_ok [OF r this] show ?thesis by (simp add: rules_state_ok_def)
qed

section \<open>Accepted settings\<close>

definition timeout_ok :: "duration \<Rightarrow> bool" where
  "timeout_ok d \<longleftrightarrow> Second \<le> d \<and> d \<le> MaxInt64 \<and> d mod Second = 0"

definition settings_ok :: "RuntimeSettings \<Rightarrow> bool" where
  "settings_ok rs \<longleftrightarrow>
     timeout_ok (rs_FirstByteTimeout rs) \<and> timeout_ok (rs_RequestTimeout rs) \<and> timeout_ok (rs_StreamIdleTimeout rs)
     \<and> timeout_ok (rs_AffinityTTL rs) \<and> timeout_ok (rs_ValidationInterval rs)
     \<and> rs_RetryCount rs \<in> {0..maxJSONSafeInteger} \<and> rs_BlacklistThreshold rs \<in> {0..maxJSONSafeInteger}
     \<and> rs_AffinityCapacity rs \<in> {1..maxAffinityCapacity}
     \<and> rs_RequestLogRetentionDays rs \<in> {minRequestLogRetentionDays..maxRequestLogRetentionDays}
     \<and> header_rules_ok (rs_HeaderRules rs)"

definition group_settings_ok :: "ResolvedGroupSettings \<Rightarrow> bool" where
  "group_settings_ok gs \<longleftrightarrow>
     timeout_ok (to_FirstByte (gs_Timeouts gs)) \<and> timeout_ok (to_Request (gs_Timeouts gs))
     \<and> timeout_ok (to_StreamIdle (gs_Timeouts gs))
     \<and> gs_RetryCount gs \<in> {0..maxJSONSafeInteger} \<and> gs_BlacklistThreshold gs \<in> {0..maxJSONSafeInteger}
     \<and> header_rules_ok (gs_HeaderRules gs)"

lemma seconds_in_range: "positiveWholeSeconds pl path v = Inr n \<Longrightarrow> 0 < n \<and> n \<le> maxTimeoutSeconds"
  by (auto simp: positiveWholeSeconds_def split: if_splits)

lemma seconds_timeout:
  assumes "positiveWholeSeconds pl path v = Inr n"
  shows "timeout_ok (seconds_duration n)"
proof -
  have n: "0 < n" "n \<le> maxTimeoutSeconds" using seconds_in_range [OF assms] by auto
  have "n * Second \<le> MaxInt64" using n by (simp add: maxTimeoutSeconds_def int64_defs Second_def)
  with n show ?thesis
    by (simp add: timeout_ok_def seconds_duration_def int64_nonneg Second_def)
qed

lemma whole_in_range: "wholeNumberInRange pl path v lo hi = Inr n \<Longrightarrow> n \<in> {lo..hi}"
  by (auto simp: wholeNumberInRange_def Let_def split: if_splits)

lemma nonneg_in_range: "nonNegativeWholeNumber pl path v = Inr n \<Longrightarrow> n \<in> {0..maxJSONSafeInteger}"
  by (auto simp: nonNegativeWholeNumber_def split: if_splits)

lemmas setting_ranges = seconds_timeout whole_in_range nonneg_in_range parseHeaderRules_ok

lemma default_settings_ok: "settings_ok DefaultRuntimeSettings"
  by (simp add: settings_ok_def timeout_ok_def DefaultRuntimeSettings_def duration_defs MaxInt64_def maxJSONSafeInteger_def
      defaultAffinityCapacity_def maxAffinityCapacity_def defaultRequestLogRetentionDays_def minRequestLogRetentionDays_def
      maxRequestLogRetentionDays_def header_rules_ok_def header_rule_names_def)

lemma apply_runtime_setting_ok:
  assumes "settings_ok rs" and "apply_runtime_setting pl item rs = Inr rs'"
  shows "settings_ok rs'"
  using assms
  by (cases item) (auto simp: apply_runtime_setting_def settings_ok_def setting_ranges(1,4)
      split: if_splits dest: setting_ranges(2,3))

lemma apply_group_setting_ok:
  assumes "group_settings_ok gs" and "apply_group_setting pl item gs = Inr gs'"
  shows "group_settings_ok gs'"
  using assms
  by (cases item) (auto simp: apply_group_setting_def group_settings_ok_def setting_ranges(1,4)
      split: if_splits dest: setting_ranges(3))

lemma resolve_settings_ok: "ResolveRuntimeSettings pl settings = Inr rs \<Longrightarrow> settings_ok rs"
  unfolding ResolveRuntimeSettings_def
  by (erule fold_result_inv [where P = settings_ok, OF _ default_settings_ok]) (rule apply_runtime_setting_ok)

lemma resolve_group_settings_ok:
  assumes "ResolveGroupRuntimeSettings pl base settings = Inr gs" and "settings_ok base"
  shows "group_settings_ok gs"
  using assms(1) unfolding ResolveGroupRuntimeSettings_def
proof (rule fold_result_inv)
  show "group_settings_ok \<lparr>gs_Timeouts = \<lparr>to_FirstByte = rs_FirstByteTimeout base, to_Request = rs_RequestTimeout base,
          to_StreamIdle = rs_StreamIdleTimeout base\<rparr>,
        gs_HeaderRules = rs_HeaderRules base, gs_InjectUsageOptions = rs_InjectUsageOptions base,
        gs_RetryCount = rs_RetryCount base, gs_BlacklistThreshold = rs_BlacklistThreshold base,
        gs_AffinityEnabled = rs_AffinityEnabled base\<rparr>"
    using assms(2) by (simp add: group_settings_ok_def settings_ok_def)
qed (rule apply_group_setting_ok)

section \<open>Acceptance and iteration order\<close>

lemma error_of_None [simp]: "error_of r = None \<longleftrightarrow> is_ok r"
  by (cases r) (simp_all add: error_of_def)

lemma is_ok_and_then_Inr [simp]: "is_ok (and_then r (\<lambda>x. Inr (f x))) = is_ok r"
  by (cases r) simp_all

definition set_runtime_setting :: "platform \<Rightarrow> string \<times> any \<Rightarrow> RuntimeSettings \<Rightarrow> RuntimeSettings" where
  "set_runtime_setting pl item rs = (case apply_runtime_setting pl item rs of Inl _ \<Rightarrow> rs | Inr rs' \<Rightarrow> rs')"

definition ok_or :: "'a \<Rightarrow> 'e + 'a \<Rightarrow> 'a" where
  "ok_or d r = (case r of Inl _ \<Rightarrow> d | Inr x \<Rightarrow> x)"

lemma ok_or_simps [simp]: "ok_or d (Inl e) = d" "ok_or d (Inr x) = x"
  by (simp_all add: ok_or_def)

lemma case_and_then: "(case and_then r (\<lambda>x. Inr (f x)) of Inl _ \<Rightarrow> s | Inr y \<Rightarrow> y) = (case r of Inl _ \<Rightarrow> s | Inr x \<Rightarrow> f x)"
  by (cases r) simp_all

text \<open>Each key sets one field, to a value that does not depend on the others.\<close>

lemma set_runtime_setting_key:
  "set_runtime_setting pl (SettingFirstByteTimeout, v) rs =
     rs\<lparr>rs_FirstByteTimeout := ok_or (rs_FirstByteTimeout rs) (and_then (positiveWholeSeconds pl SettingFirstByteTimeout v) (\<lambda>n. Inr (seconds_duration n)))\<rparr>"
  "set_runtime_setting pl (SettingRequestTimeout, v) rs =
     rs\<lparr>rs_RequestTimeout := ok_or (rs_RequestTimeout rs) (and_then (positiveWholeSeconds pl SettingRequestTimeout v) (\<lambda>n. Inr (seconds_duration n)))\<rparr>"
  "set_runtime_setting pl (SettingStreamIdleTimeout, v) rs =
     rs\<lparr>rs_StreamIdleTimeout := ok_or (rs_StreamIdleTimeout rs) (and_then (positiveWholeSeconds pl SettingStreamIdleTimeout v) (\<lambda>n. Inr (seconds_duration n)))\<rparr>"
  "set_runtime_setting pl (SettingHeaderRules, v) rs =
     rs\<lparr>rs_HeaderRules := ok_or (rs_HeaderRules rs) (parseHeaderRules v)\<rparr>"
  "set_runtime_setting pl (SettingInjectUsageOptions, v) rs =
     rs\<lparr>rs_InjectUsageOptions := ok_or (rs_InjectUsageOptions rs) (strictBoolean SettingInjectUsageOptions v)\<rparr>"
  "set_runtime_setting pl (SettingRetryCount, v) rs =
     rs\<lparr>rs_RetryCount := ok_or (rs_RetryCount rs) (nonNegativeWholeNumber pl SettingRetryCount v)\<rparr>"
  "set_runtime_setting pl (SettingBlacklistThreshold, v) rs =
     rs\<lparr>rs_BlacklistThreshold := ok_or (rs_BlacklistThreshold rs) (nonNegativeWholeNumber pl SettingBlacklistThreshold v)\<rparr>"
  "set_runtime_setting pl (SettingAffinityEnabled, v) rs =
     rs\<lparr>rs_AffinityEnabled := ok_or (rs_AffinityEnabled rs) (strictBoolean SettingAffinityEnabled v)\<rparr>"
  "set_runtime_setting pl (SettingAffinityTTL, v) rs =
     rs\<lparr>rs_AffinityTTL := ok_or (rs_AffinityTTL rs) (and_then (positiveWholeSeconds pl SettingAffinityTTL v) (\<lambda>n. Inr (seconds_duration n)))\<rparr>"
  "set_runtime_setting pl (SettingAffinityCapacity, v) rs =
     rs\<lparr>rs_AffinityCapacity := ok_or (rs_AffinityCapacity rs) (wholeNumberInRange pl SettingAffinityCapacity v 1 maxAffinityCapacity)\<rparr>"
  "set_runtime_setting pl (SettingValidationInterval, v) rs =
     rs\<lparr>rs_ValidationInterval := ok_or (rs_ValidationInterval rs) (and_then (positiveWholeSeconds pl SettingValidationInterval v) (\<lambda>n. Inr (seconds_duration n)))\<rparr>"
  "set_runtime_setting pl (SettingRequestLogRetentionDays, v) rs =
     rs\<lparr>rs_RequestLogRetentionDays := ok_or (rs_RequestLogRetentionDays rs) (wholeNumberInRange pl SettingRequestLogRetentionDays v minRequestLogRetentionDays maxRequestLogRetentionDays)\<rparr>"
  "set_runtime_setting pl (SettingModelsDevAutoSyncEnabled, v) rs =
     rs\<lparr>rs_ModelsDevAutoSyncEnabled := ok_or (rs_ModelsDevAutoSyncEnabled rs) (strictBoolean SettingModelsDevAutoSyncEnabled v)\<rparr>"
  unfolding set_runtime_setting_def apply_runtime_setting_def ok_or_def
  by (cases rs; simp add: setting_names case_and_then split: sum.split)+

lemma set_runtime_setting_commute:
  assumes "IsRuntimeSettingKey k" and "IsRuntimeSettingKey l" and "k \<noteq> l"
  shows "set_runtime_setting pl (k, v) (set_runtime_setting pl (l, w) rs) = set_runtime_setting pl (l, w) (set_runtime_setting pl (k, v) rs)"
  using assms unfolding IsRuntimeSettingKey_def
  apply (simp only: insert_iff empty_iff)
  apply (elim disjE FalseE; hypsubst)
  apply (simp_all only: set_runtime_setting_key)
  apply simp_all
  done

text \<open>A setting is accepted by itself iff it is accepted in a settings object.\<close>

lemma apply_runtime_setting_accepts:
  "is_ok (apply_runtime_setting pl (key, v) rs) \<longleftrightarrow> ValidateRuntimeSetting pl key v = None"
proof (cases "IsRuntimeSettingKey key")
  case True
  then show ?thesis unfolding IsRuntimeSettingKey_def apply_runtime_setting_def ValidateRuntimeSetting_def
    by (simp only: insert_iff empty_iff; elim disjE FalseE; hypsubst; simp add: setting_names)
next
  case False
  then show ?thesis by (simp add: IsRuntimeSettingKey_def apply_runtime_setting_def ValidateRuntimeSetting_def)
qed

lemma validated_key: "ValidateRuntimeSetting pl key v = None \<Longrightarrow> IsRuntimeSettingKey key"
  by (auto simp: ValidateRuntimeSetting_def IsRuntimeSettingKey_def split: if_splits)

lemma fold_result_fold:
  "fold_result f xs s = Inr t \<Longrightarrow> t = fold (\<lambda>x s. case f x s of Inl _ \<Rightarrow> s | Inr s' \<Rightarrow> s') xs s"
  by (induction xs arbitrary: s) auto

lemma resolve_accepts:
  "is_ok (ResolveRuntimeSettings pl settings) \<longleftrightarrow> (\<forall>(key, v) \<in> set settings. ValidateRuntimeSetting pl key v = None)"
  unfolding ResolveRuntimeSettings_def
  by (subst fold_result_ok [where ok = "\<lambda>(key, v). ValidateRuntimeSetting pl key v = None"])
    (auto simp: apply_runtime_setting_accepts)

lemma resolve_permuted:
  assumes perm: "mset settings' = mset settings" and wf: "wf_map settings"
    and ok: "ResolveRuntimeSettings pl settings = Inr rs"
  shows "ResolveRuntimeSettings pl settings' = Inr rs"
proof -
  have same: "set settings' = set settings" using perm by (rule mset_eq_setD)
  have valid: "\<forall>(key, v) \<in> set settings. ValidateRuntimeSetting pl key v = None"
    using ok resolve_accepts [of pl settings] by simp
  then have "is_ok (ResolveRuntimeSettings pl settings')" unfolding resolve_accepts same .
  then obtain rs' where ok': "ResolveRuntimeSettings pl settings' = Inr rs'" by (auto simp: is_ok_iff)
  have res: "ResolveRuntimeSettings pl xs = Inr t \<Longrightarrow> t = fold (set_runtime_setting pl) xs DefaultRuntimeSettings" for xs t
    unfolding ResolveRuntimeSettings_def set_runtime_setting_def [abs_def] by (rule fold_result_fold)
  have "fold (set_runtime_setting pl) settings = fold (set_runtime_setting pl) settings'"
  proof (rule fold_multiset_equiv [OF _ perm [symmetric]])
    fix a b assume ab: "a \<in> set settings" "b \<in> set settings"
    show "set_runtime_setting pl a \<circ> set_runtime_setting pl b = set_runtime_setting pl b \<circ> set_runtime_setting pl a"
    proof (cases "a = b")
      case False
      then have "fst a \<noteq> fst b" using ab wf by (metis eq_key_imp_eq_value prod.collapse)
      moreover have "IsRuntimeSettingKey (fst a)" "IsRuntimeSettingKey (fst b)"
        using ab valid validated_key by (metis (mono_tags, lifting) case_prodD prod.collapse)+
      ultimately show ?thesis
        by (cases a, cases b) (auto intro!: ext simp: set_runtime_setting_commute)
    qed simp
  qed
  with res [OF ok] res [OF ok'] ok' show ?thesis by simp
qed

section \<open>Properties\<close>

definition sample_platform :: platform where
  "sample_platform = \<lparr>number_value = (\<lambda>s. if s = ''90'' then Some 90 else None), float_convert = (\<lambda>q. 0)\<rparr>"

definition sample_settings :: Settings where
  "sample_settings = [(''request_timeout'', AnyNumber ''90''), (''retry_count'', AnyInt 5),
     (''header_rules'', AnyObject [(''set'', AnyObject [(''x-trace'', AnyString ''on'')]), (''remove'', AnyArray [AnyString ''user-agent''])])]"

definition sample_group_settings :: Settings where
  "sample_group_settings = [(''affinity_enabled'', AnyBool False), (''stream_idle_timeout'', AnyInt64 30)]"

text \<open>
  Whatever a settings object holds, settings that resolve are in range: every
  timeout is a whole number of seconds of at least one and the product does not wrap,
  the counts are JSON-safe, the capacity and the retention are within their limits, and
  the header rules name permitted headers only, each once, in canonical form. A group's
  overrides keep that.
\<close>

theorem runtime_settings_in_range:
  assumes "ResolveRuntimeSettings pl settings = Inr rs"
    and "ResolveGroupRuntimeSettings pl rs overrides = Inr gs"
  shows "(\<forall>d \<in> {rs_FirstByteTimeout rs, rs_RequestTimeout rs, rs_StreamIdleTimeout rs, rs_AffinityTTL rs, rs_ValidationInterval rs,
           to_FirstByte (gs_Timeouts gs), to_Request (gs_Timeouts gs), to_StreamIdle (gs_Timeouts gs)}.
         Second \<le> d \<and> d \<le> MaxInt64 \<and> d mod Second = 0)
    \<and> (\<forall>n \<in> {rs_RetryCount rs, rs_BlacklistThreshold rs, gs_RetryCount gs, gs_BlacklistThreshold gs}. 0 \<le> n \<and> n \<le> 2 ^ 53 - 1)
    \<and> 1 \<le> rs_AffinityCapacity rs \<and> rs_AffinityCapacity rs \<le> 1000000
    \<and> 1 \<le> rs_RequestLogRetentionDays rs \<and> rs_RequestLogRetentionDays rs \<le> 365
    \<and> header_rules_ok (rs_HeaderRules rs) \<and> header_rules_ok (gs_HeaderRules gs)"
proof -
  have rs: "settings_ok rs" using assms(1) by (rule resolve_settings_ok)
  have gs: "group_settings_ok gs" using assms(2) rs by (rule resolve_group_settings_ok)
  show ?thesis using rs gs
    by (simp add: settings_ok_def group_settings_ok_def timeout_ok_def maxJSONSafeInteger_def maxAffinityCapacity_def
        minRequestLogRetentionDays_def maxRequestLogRetentionDays_def)
qed

theorem runtime_settings_in_range_witness:
  "\<exists>rs gs. ResolveRuntimeSettings sample_platform sample_settings = Inr rs
    \<and> ResolveGroupRuntimeSettings sample_platform rs sample_group_settings = Inr gs
    \<and> rs_RequestTimeout rs = 90 * Second \<and> to_StreamIdle (gs_Timeouts gs) = 30 * Second
    \<and> hr_Set (gs_HeaderRules gs) = [(''X-Trace'', ''on'')] \<and> header_rules_ok (gs_HeaderRules gs)"
proof -
  let ?rs = "projr (ResolveRuntimeSettings sample_platform sample_settings)"
  let ?gs = "projr (ResolveGroupRuntimeSettings sample_platform ?rs sample_group_settings)"
  have ok: "is_ok (ResolveRuntimeSettings sample_platform sample_settings)"
    "is_ok (ResolveGroupRuntimeSettings sample_platform ?rs sample_group_settings)" by code_simp+
  then have run: "ResolveRuntimeSettings sample_platform sample_settings = Inr ?rs"
    "ResolveGroupRuntimeSettings sample_platform ?rs sample_group_settings = Inr ?gs"
    by (auto simp: is_ok_iff)
  have "rs_RequestTimeout ?rs = 90 * Second" "to_StreamIdle (gs_Timeouts ?gs) = 30 * Second"
    "hr_Set (gs_HeaderRules ?gs) = [(''X-Trace'', ''on'')]" by code_simp+
  with run runtime_settings_in_range [OF run] show ?thesis by blast
qed

text \<open>
  Property C38. A settings object resolves exactly when each of its entries passes
  \<open>ValidateRuntimeSetting\<close> by itself, so a setting accepted on its own can never be refused
  later; and the result does not depend on the order in which the map is ranged over.
\<close>

theorem runtime_settings_accepted:
  "((\<exists>rs. ResolveRuntimeSettings pl settings = Inr rs) \<longleftrightarrow> list_all (\<lambda>(key, v). ValidateRuntimeSetting pl key v = None) settings)
   \<and> (wf_map settings \<longrightarrow> mset settings' = mset settings \<longrightarrow> ResolveRuntimeSettings pl settings = Inr rs
        \<longrightarrow> ResolveRuntimeSettings pl settings' = Inr rs)"
proof (intro conjI impI)
  show "(\<exists>rs. ResolveRuntimeSettings pl settings = Inr rs) \<longleftrightarrow> list_all (\<lambda>(key, v). ValidateRuntimeSetting pl key v = None) settings"
    using resolve_accepts [of pl settings] by (simp add: is_ok_iff list_all_iff)
qed (rule resolve_permuted)

theorem runtime_settings_accepted_witness:
  "ResolveRuntimeSettings sample_platform (rev sample_settings) = ResolveRuntimeSettings sample_platform sample_settings
   \<and> is_ok (ResolveRuntimeSettings sample_platform sample_settings)"
proof -
  have "is_ok (ResolveRuntimeSettings sample_platform sample_settings)" "wf_map sample_settings" by code_simp+
  then obtain rs where rs: "ResolveRuntimeSettings sample_platform sample_settings = Inr rs" and "wf_map sample_settings"
    by (auto simp: is_ok_iff)
  then show ?thesis
    using runtime_settings_accepted [of sample_platform sample_settings "rev sample_settings" rs] by simp
qed

end
