(* ===== verification/Config_Snapshot.thy ===== *)
theory Config_Snapshot
  imports Channel_Registry Access_Quota Runtime_Settings
begin

text \<open>
  The immutable runtime configuration (\<open>src/internal/state/snapshot.go\<close>): compilation of
  groups, credentials and access keys into the two route indexes and the views that the
  scheduler and the gateway read.

  The two levels of an index and its cells are association lists; \<open>sort.Slice\<close> orders a
  cell by a key, native routes first, then by group and upstream model.
\<close>

section \<open>Configuration\<close>

record ModelConfig =
  mc_ID :: string
  mc_Alias :: string

definition externalModelName :: "ModelConfig \<Rightarrow> string" where
  "externalModelName model =
     (let alias = TrimSpace (mc_Alias model) in if alias \<noteq> [] then alias else TrimSpace (mc_ID model))"

record GroupConfig =
  gc_ID :: nat
  gc_Name :: string
  gc_ChannelID :: string
  gc_ConnectionType :: string
  gc_Params :: string
  gc_ValidationModel :: string
  gc_Models :: "ModelConfig list"
  gc_Settings :: Settings
  gc_WeightManual :: "int option"
  gc_Enabled :: bool
  gc_Proxy :: "ProxyConfig option"

record CredentialConfig =
  cc_ID :: nat
  cc_GroupID :: nat
  cc_Status :: CredentialStatus
  cc_WeightManual :: "int option"
  cc_Version :: uint64
  cc_IdentityGeneration :: uint64
  cc_Fingerprint :: string

datatype AccessKeyStatus = AccessKeyStatusActive | AccessKeyStatusDisabled | AccessKeyStatus_other string

text \<open>A filter is the list of the keys of its map.\<close>

record FilterSet =
  fl_Groups :: "nat list"
  fl_Protocols :: "Protocol list"
  fl_Models :: "string list"

text \<open>
  A \<open>netip.Prefix\<close>: an address of 32 or 128 bits (0 for the zero address), its zone and
  the prefix length, negative when invalid.
\<close>

record Prefix =
  px_BitLen :: nat
  px_Addr :: nat
  px_Zone :: string
  px_Bits :: int

definition Prefix_IsValid :: "Prefix \<Rightarrow> bool" where
  "Prefix_IsValid p \<longleftrightarrow> px_BitLen p \<in> {32, 128} \<and> 0 \<le> px_Bits p \<and> px_Bits p \<le> int (px_BitLen p)"

definition Prefix_Is4In6 :: "Prefix \<Rightarrow> bool" where
  "Prefix_Is4In6 p \<longleftrightarrow> px_BitLen p = 128 \<and> px_Addr p div 2 ^ 32 = 65535"

definition Prefix_Masked :: "Prefix \<Rightarrow> Prefix" where
  "Prefix_Masked p = (let unit = 2 ^ (px_BitLen p - nat (px_Bits p)) in p\<lparr>px_Addr := px_Addr p div unit * unit\<rparr>)"

record AccessKeyConfig =
  akc_ID :: nat
  akc_Name :: string
  akc_KeyHash :: string
  akc_KeySuffix :: string
  akc_Status :: AccessKeyStatus
  akc_Filters :: FilterSet
  akc_ExpiresAtMS :: "int option"
  akc_AllowedPeerCIDRs :: "Prefix list"
  akc_RPMLimit :: int
  akc_CostLimitRules :: "QuotaRule list"

record CompileInput =
  ci_SystemSettings :: Settings
  ci_ChannelRegistry :: "ChannelRegistry option"
  ci_Groups :: "GroupConfig list"
  ci_Credentials :: "CredentialConfig list"
  ci_AccessKeys :: "AccessKeyConfig list"
  ci_GlobalProxy :: "ProxyConfig option"
  ci_EnvironmentProxy :: "ProxyConfig option"

section \<open>Snapshots\<close>

record RouteTarget =
  tg_GroupID :: nat
  tg_UpstreamModelID :: string
  tg_Mode :: RouteMode
  tg_ResolvedTarget :: ResolvedTarget

definition NoModelRouteKey :: string where "NoModelRouteKey = []"

type_synonym model_routes = "(string, RouteTarget list) gomap"
type_synonym ExecutionCandidateIndex = "(Protocol, (Operation, model_routes) gomap) gomap"

record GroupView =
  gv_ID :: nat
  gv_Name :: string
  gv_ChannelID :: string
  gv_ConnectionType :: string
  gv_Params :: string
  gv_ResolvedTarget :: ResolvedTarget
  gv_ValidationModel :: string
  gv_ClientProtocols :: "Protocol list"
  gv_Models :: "ModelConfig list"
  gv_Timeouts :: TimeoutConfig
  gv_HeaderRules :: HeaderRules
  gv_InjectUsageOptions :: bool
  gv_RetryCount :: int
  gv_BlacklistThreshold :: int
  gv_AffinityEnabled :: bool
  gv_WeightManual :: "int option"
  gv_Proxy :: Effective

record GroupCatalogView =
  gcv_ID :: nat
  gcv_Name :: string
  gcv_Enabled :: bool
  gcv_WeightManual :: "int option"

record AccessKeyView =
  akv_ID :: nat
  akv_Name :: string
  akv_KeySuffix :: string
  akv_Status :: AccessKeyStatus
  akv_Filters :: FilterSet
  akv_ExpiresAtMS :: "int option"
  akv_AllowedPeerCIDRs :: "Prefix list"
  akv_RPMLimit :: int
  akv_CostLimitRules :: "QuotaRule list"

record ConfigSnapshot =
  cs_Revision :: uint64
  cs_Settings :: RuntimeSettings
  cs_ExecutionCandidates :: ExecutionCandidateIndex
  cs_ExecutionRouteCatalog :: ExecutionCandidateIndex
  cs_Groups :: "(nat, GroupView) gomap"
  cs_AccessKeysByHash :: "(string, AccessKeyView) gomap"
  cs_GroupCatalog :: "(nat, GroupCatalogView) gomap"
  cs_AccessKeysByID :: "(nat, AccessKeyView) gomap"
  cs_GlobalProxy :: Effective

datatype CompileError =
    ErrGroupID | ErrDuplicateGroup nat | ErrRegistryRequired nat | ErrChannelRequired nat | ErrUnknownChannel nat string
  | ErrConnection nat string | ErrGroupChannel nat ValidationError | ErrGroupWeight nat | ErrModelID nat
  | ErrDuplicateModel nat string
  | ErrCredID | ErrDuplicateCred nat | ErrCredGroup nat | ErrCredUnknownGroup nat nat | ErrCredStatus nat
  | ErrCredWeight nat | ErrCredVersion nat | ErrCredGeneration nat | ErrCredFingerprint nat
  | ErrKeyID | ErrDuplicateKey nat | ErrKeyRPM nat | ErrKeyExpiry nat | ErrKeyPeers nat | ErrKeyStatus nat
  | ErrKeyHash nat | ErrDuplicateHash string | ErrKeyFilterProtocol nat | ErrKeyFilterModel nat
  | ErrQuotaDefinitions QuotaError | ErrSettings SettingError | ErrGroupSettings nat SettingError
  | ErrGlobalProxy | ErrGroupProxy nat | ErrNoRouteMode nat Protocol Operation
  | ErrNoModelRouteMode nat Protocol Operation string | ErrUnroutableOperation nat Operation

section \<open>Validation of the input\<close>

definition registry_of :: "CompileInput \<Rightarrow> ChannelRegistry" where
  "registry_of input = (case ci_ChannelRegistry input of None \<Rightarrow> \<lparr>byID = Map.empty, order = []\<rparr> | Some r \<Rightarrow> r)"

fun validate_models :: "nat \<Rightarrow> string set \<Rightarrow> ModelConfig list \<Rightarrow> CompileError option" where
  "validate_models g seen [] = None"
| "validate_models g seen (m # ms) =
     (if TrimSpace (mc_ID m) = [] then Some (ErrModelID g)
      else if externalModelName m \<in> seen then Some (ErrDuplicateModel g (externalModelName m))
      else validate_models g (insert (externalModelName m) seen) ms)"

definition validate_group :: "channel_json \<Rightarrow> CompileInput \<Rightarrow> GroupConfig \<Rightarrow> CompileError option" where
  "validate_group json input g =
     (if ci_ChannelRegistry input = None then Some (ErrRegistryRequired (gc_ID g))
      else if gc_ChannelID g = [] then Some (ErrChannelRequired (gc_ID g))
      else if Channel_Get (registry_of input) (gc_ChannelID g) = None then Some (ErrUnknownChannel (gc_ID g) (gc_ChannelID g))
      else if \<not> SupportsConnectionType (registry_of input) (gc_ChannelID g) (TrimSpace (gc_ConnectionType g))
        then Some (ErrConnection (gc_ID g) (TrimSpace (gc_ConnectionType g)))
      else case Channel_Resolve json (registry_of input) (gc_ChannelID g) (gc_Params g) of
        Inl e \<Rightarrow> Some (ErrGroupChannel (gc_ID g) e)
      | Inr _ \<Rightarrow>
          if \<not> validateManualWeight (gc_WeightManual g) then Some (ErrGroupWeight (gc_ID g))
          else validate_models (gc_ID g) {} (gc_Models g))"

fun validate_groups :: "channel_json \<Rightarrow> CompileInput \<Rightarrow> nat set \<Rightarrow> GroupConfig list \<Rightarrow> CompileError option" where
  "validate_groups json input seen [] = None"
| "validate_groups json input seen (g # gs) =
     (if gc_ID g = 0 then Some ErrGroupID
      else if gc_ID g \<in> seen then Some (ErrDuplicateGroup (gc_ID g))
      else case validate_group json input g of
        Some e \<Rightarrow> Some e
      | None \<Rightarrow> validate_groups json input (insert (gc_ID g) seen) gs)"

fun validate_credentials :: "nat set \<Rightarrow> nat set \<Rightarrow> CredentialConfig list \<Rightarrow> CompileError option" where
  "validate_credentials groupIDs seen [] = None"
| "validate_credentials groupIDs seen (c # cs) =
     (if cc_ID c = 0 then Some ErrCredID
      else if cc_ID c \<in> seen then Some (ErrDuplicateCred (cc_ID c))
      else if cc_GroupID c = 0 then Some (ErrCredGroup (cc_ID c))
      else if cc_GroupID c \<notin> groupIDs then Some (ErrCredUnknownGroup (cc_ID c) (cc_GroupID c))
      else if \<not> status_valid (cc_Status c) then Some (ErrCredStatus (cc_ID c))
      else if \<not> validateManualWeight (cc_WeightManual c) then Some (ErrCredWeight (cc_ID c))
      else if cc_Version c = 0 then Some (ErrCredVersion (cc_ID c))
      else if cc_IdentityGeneration c = 0 then Some (ErrCredGeneration (cc_ID c))
      else if TrimSpace (cc_Fingerprint c) = [] then Some (ErrCredFingerprint (cc_ID c))
      else validate_credentials groupIDs (insert (cc_ID c) seen) cs)"

definition maxSafeAccessKeyEpochMS :: int where
  "maxSafeAccessKeyEpochMS = 9007199254740991"

definition validateAllowedPeerCIDRs :: "Prefix list \<Rightarrow> bool" where
  "validateAllowedPeerCIDRs prefixes \<longleftrightarrow> length prefixes \<le> 64
     \<and> list_all (\<lambda>p. Prefix_IsValid p \<and> px_Zone p = [] \<and> \<not> Prefix_Is4In6 p \<and> p = Prefix_Masked p) prefixes
     \<and> distinct prefixes"

definition validateFilterSet :: "nat \<Rightarrow> FilterSet \<Rightarrow> CompileError option" where
  "validateFilterSet k filters =
     (if \<not> list_all Protocol_Valid (fl_Protocols filters) then Some (ErrKeyFilterProtocol k)
      else if \<not> list_all (\<lambda>m. TrimSpace m \<noteq> []) (fl_Models filters) then Some (ErrKeyFilterModel k)
      else None)"

fun validate_keys :: "nat set \<Rightarrow> string set \<Rightarrow> AccessKeyConfig list \<Rightarrow> CompileError option" where
  "validate_keys ids hashes [] = None"
| "validate_keys ids hashes (k # ks) =
     (if akc_ID k = 0 then Some ErrKeyID
      else if akc_ID k \<in> ids then Some (ErrDuplicateKey (akc_ID k))
      else if akc_RPMLimit k < 0 then Some (ErrKeyRPM (akc_ID k))
      else if (case akc_ExpiresAtMS k of None \<Rightarrow> False | Some t \<Rightarrow> t < 0 \<or> t > maxSafeAccessKeyEpochMS) then Some (ErrKeyExpiry (akc_ID k))
      else if \<not> validateAllowedPeerCIDRs (akc_AllowedPeerCIDRs k) then Some (ErrKeyPeers (akc_ID k))
      else if akc_Status k \<noteq> AccessKeyStatusActive \<and> akc_Status k \<noteq> AccessKeyStatusDisabled then Some (ErrKeyStatus (akc_ID k))
      else if TrimSpace (akc_KeyHash k) = [] then Some (ErrKeyHash (akc_ID k))
      else if akc_KeyHash k \<in> hashes then Some (ErrDuplicateHash (akc_KeyHash k))
      else case validateFilterSet (akc_ID k) (akc_Filters k) of
        Some e \<Rightarrow> Some e
      | None \<Rightarrow> validate_keys (insert (akc_ID k) ids) (insert (akc_KeyHash k) hashes) ks)"

definition quota_definitions :: "AccessKeyConfig list \<Rightarrow> (nat, QuotaRule list) gomap" where
  "quota_definitions ks =
     map (\<lambda>k. (akc_ID k, akc_CostLimitRules k)) (filter (\<lambda>k. akc_CostLimitRules k \<noteq> []) ks)"

definition validateCompileInput :: "channel_json \<Rightarrow> CompileInput \<Rightarrow> CompileError option" where
  "validateCompileInput json input =
     (case validate_groups json input {} (ci_Groups input) of
        Some e \<Rightarrow> Some e
      | None \<Rightarrow>
          (case validate_credentials (gc_ID ` set (ci_Groups input)) {} (ci_Credentials input) of
             Some e \<Rightarrow> Some e
           | None \<Rightarrow>
               (case validate_keys {} {} (ci_AccessKeys input) of
                  Some e \<Rightarrow> Some e
                | None \<Rightarrow> map_option ErrQuotaDefinitions (ValidateDefinitions (quota_definitions (ci_AccessKeys input))))))"

section \<open>Route indexes\<close>

definition lookup_or :: "'v \<Rightarrow> ('k, 'v) gomap \<Rightarrow> 'k \<Rightarrow> 'v" where
  "lookup_or d m k = (case map_of m k of None \<Rightarrow> d | Some v \<Rightarrow> v)"

definition appendExecutionTarget ::
  "Protocol \<Rightarrow> Operation \<Rightarrow> string \<Rightarrow> RouteTarget \<Rightarrow> ExecutionCandidateIndex \<Rightarrow> ExecutionCandidateIndex" where
  "appendExecutionTarget clientProtocol oper externalModel target index =
     (let byOperation = lookup_or [] index clientProtocol;
          byModel = lookup_or [] byOperation oper;
          routes = lookup_or [] byModel externalModel
      in AList.update clientProtocol
           (AList.update oper (AList.update externalModel (routes @ [target]) byModel) byOperation) index)"

definition resource_target :: "GroupConfig \<Rightarrow> ResolvedTarget \<Rightarrow> RouteMode \<Rightarrow> RouteTarget" where
  "resource_target g target mode =
     \<lparr>tg_GroupID = gc_ID g, tg_UpstreamModelID = [], tg_Mode = mode, tg_ResolvedTarget = target\<rparr>"

definition append_model ::
  "GroupConfig \<Rightarrow> ResolvedTarget \<Rightarrow> Protocol \<Rightarrow> Operation \<Rightarrow> ModelConfig \<Rightarrow> ExecutionCandidateIndex
     \<Rightarrow> CompileError + ExecutionCandidateIndex" where
  "append_model g target clientProtocol oper model index =
     (case ModeForModel target clientProtocol oper (mc_ID model) of
        None \<Rightarrow> Inl (ErrNoModelRouteMode (gc_ID g) clientProtocol oper (mc_ID model))
      | Some modelMode \<Rightarrow>
          Inr (appendExecutionTarget clientProtocol oper (externalModelName model)
            \<lparr>tg_GroupID = gc_ID g, tg_UpstreamModelID = TrimSpace (mc_ID model), tg_Mode = modelMode,
             tg_ResolvedTarget = target\<rparr> index))"

definition resource_operation :: "Operation \<Rightarrow> bool" where
  "resource_operation oper \<longleftrightarrow> oper \<in> {OperationResponsesRetrieve, OperationResponsesDelete, OperationResponsesCancel,
     OperationResponsesInputItems}"

definition model_operation :: "Operation \<Rightarrow> bool" where
  "model_operation oper \<longleftrightarrow> oper \<in> {OperationChatCompletion, OperationResponsesCreate, OperationResponsesCompact,
     OperationResponsesInputTokens, OperationCountTokens, OperationImagesGenerate, OperationImagesEdit,
     OperationEmbeddingsCreate}"

text \<open>One operation of one protocol; passing requests through falls through to the models.\<close>

definition append_operation ::
  "GroupConfig \<Rightarrow> ResolvedTarget \<Rightarrow> Protocol \<Rightarrow> Operation \<Rightarrow> ExecutionCandidateIndex
     \<Rightarrow> CompileError + ExecutionCandidateIndex" where
  "append_operation g target clientProtocol oper index =
     (if oper = OperationListModels \<or> oper = OperationProbe then Inr index
      else case Target_Mode target clientProtocol oper of
        None \<Rightarrow> Inl (ErrNoRouteMode (gc_ID g) clientProtocol oper)
      | Some mode \<Rightarrow>
          let resource = appendExecutionTarget clientProtocol oper NoModelRouteKey (resource_target g target mode) index in
          if resource_operation oper then Inr resource
          else if oper = OperationResponsesPassthrough then
            fold_result (append_model g target clientProtocol oper) (gc_Models g) resource
          else if model_operation oper then fold_result (append_model g target clientProtocol oper) (gc_Models g) index
          else Inl (ErrUnroutableOperation (gc_ID g) oper))"

definition appendExecutionTargets ::
  "channel_json \<Rightarrow> ChannelRegistry \<Rightarrow> GroupConfig \<Rightarrow> ExecutionCandidateIndex \<Rightarrow> CompileError + ExecutionCandidateIndex" where
  "appendExecutionTargets json registry g index =
     (case Channel_Resolve json registry (gc_ChannelID g) (gc_Params g) of
        Inl e \<Rightarrow> Inl (ErrGroupChannel (gc_ID g) e)
      | Inr target \<Rightarrow>
          (case Channel_Get registry (gc_ChannelID g) of
             None \<Rightarrow> Inl (ErrUnknownChannel (gc_ID g) (gc_ChannelID g))
           | Some descriptor \<Rightarrow>
               if gc_Models g = [] then Inr index
               else fold_result (\<lambda>clientProtocol. fold_result (append_operation g target clientProtocol) (Operations target clientProtocol))
                      (ds_ClientProtocols descriptor) index))"

definition route_key :: "RouteTarget \<Rightarrow> nat \<times> nat \<times> string" where
  "route_key t = (if tg_Mode t = RouteNative then 0 else 1, tg_GroupID t, tg_UpstreamModelID t)"

definition sortExecutionRouteIndex :: "ExecutionCandidateIndex \<Rightarrow> ExecutionCandidateIndex" where
  "sortExecutionRouteIndex index =
     map (\<lambda>(p, byOperation). (p, map (\<lambda>(oper, byModel). (oper,
       map (\<lambda>(model, routes). (model, sort_key route_key routes)) byModel)) byOperation)) index"

section \<open>Compilation\<close>

definition newAccessKeyView :: "AccessKeyConfig \<Rightarrow> AccessKeyView" where
  "newAccessKeyView k = \<lparr>akv_ID = akc_ID k, akv_Name = akc_Name k, akv_KeySuffix = akc_KeySuffix k,
     akv_Status = akc_Status k, akv_Filters = akc_Filters k, akv_ExpiresAtMS = akc_ExpiresAtMS k,
     akv_AllowedPeerCIDRs = akc_AllowedPeerCIDRs k, akv_RPMLimit = akc_RPMLimit k,
     akv_CostLimitRules = sortRules (akc_CostLimitRules k)\<rparr>"

definition catalog_view :: "GroupConfig \<Rightarrow> GroupCatalogView" where
  "catalog_view g = \<lparr>gcv_ID = gc_ID g, gcv_Name = gc_Name g, gcv_Enabled = gc_Enabled g, gcv_WeightManual = gc_WeightManual g\<rparr>"

definition group_view ::
  "GroupConfig \<Rightarrow> ResolvedGroupSettings \<Rightarrow> Effective \<Rightarrow> string \<Rightarrow> ResolvedTarget \<Rightarrow> Protocol list \<Rightarrow> GroupView" where
  "group_view g resolved groupProxy params target protocols =
     \<lparr>gv_ID = gc_ID g, gv_Name = gc_Name g, gv_ChannelID = gc_ChannelID g,
      gv_ConnectionType = TrimSpace (gc_ConnectionType g), gv_Params = params, gv_ResolvedTarget = target,
      gv_ValidationModel = TrimSpace (gc_ValidationModel g), gv_ClientProtocols = protocols, gv_Models = gc_Models g,
      gv_Timeouts = gs_Timeouts resolved, gv_HeaderRules = gs_HeaderRules resolved,
      gv_InjectUsageOptions = gs_InjectUsageOptions resolved, gv_RetryCount = gs_RetryCount resolved,
      gv_BlacklistThreshold = gs_BlacklistThreshold resolved, gv_AffinityEnabled = gs_AffinityEnabled resolved,
      gv_WeightManual = gc_WeightManual g, gv_Proxy = groupProxy\<rparr>"

definition map_error :: "('e \<Rightarrow> 'f) \<Rightarrow> 'e + 'a \<Rightarrow> 'f + 'a" where
  "map_error f r = (case r of Inl e \<Rightarrow> Inl (f e) | Inr x \<Rightarrow> Inr x)"

definition or_error :: "'e \<Rightarrow> 'a option \<Rightarrow> 'e + 'a" where
  "or_error e x = (case x of None \<Rightarrow> Inl e | Some y \<Rightarrow> Inr y)"

lemma map_error_Inr [simp]: "map_error f r = Inr x \<longleftrightarrow> r = Inr x"
  by (cases r) (simp_all add: map_error_def)

lemma or_error_Inr [simp]: "or_error e x = Inr y \<longleftrightarrow> x = Some y"
  by (cases x) (simp_all add: or_error_def)

text \<open>The body of the loop over the groups.\<close>

definition compile_enabled ::
  "channel_json \<Rightarrow> ChannelRegistry \<Rightarrow> GroupConfig \<Rightarrow> ResolvedGroupSettings \<Rightarrow> Effective \<Rightarrow> ConfigSnapshot
     \<Rightarrow> CompileError + ConfigSnapshot" where
  "compile_enabled json registry g resolved groupProxy snapshot =
     and_then (map_error (ErrGroupChannel (gc_ID g)) (ValidateParams json registry (gc_ChannelID g) (gc_Params g))) (\<lambda>params.
     and_then (map_error (ErrGroupChannel (gc_ID g)) (Channel_Resolve json registry (gc_ChannelID g) (gc_Params g))) (\<lambda>target.
     let protocols = (case Channel_Get registry (gc_ChannelID g) of None \<Rightarrow> [] | Some d \<Rightarrow> ds_ClientProtocols d) in
     and_then (appendExecutionTargets json registry g (cs_ExecutionCandidates snapshot)) (\<lambda>candidates.
     Inr (snapshot\<lparr>cs_ExecutionCandidates := candidates,
       cs_Groups := AList.update (gc_ID g) (group_view g resolved groupProxy (canonicalJSON json params) target protocols)
         (cs_Groups snapshot)\<rparr>))))"

definition compile_group ::
  "platform \<Rightarrow> url_library \<Rightarrow> channel_json \<Rightarrow> CompileInput \<Rightarrow> RuntimeSettings \<Rightarrow> GroupConfig \<Rightarrow> ConfigSnapshot
     \<Rightarrow> CompileError + ConfigSnapshot" where
  "compile_group pl lib json input runtimeSettings g snapshot0 =
     (let snapshot1 = snapshot0\<lparr>cs_GroupCatalog := AList.update (gc_ID g) (catalog_view g) (cs_GroupCatalog snapshot0)\<rparr> in
      and_then (appendExecutionTargets json (registry_of input) g (cs_ExecutionRouteCatalog snapshot1)) (\<lambda>catalog.
      let snapshot = snapshot1\<lparr>cs_ExecutionRouteCatalog := catalog\<rparr> in
      and_then (map_error (ErrGroupSettings (gc_ID g)) (ResolveGroupRuntimeSettings pl runtimeSettings (gc_Settings g))) (\<lambda>resolved.
      and_then (or_error (ErrGroupProxy (gc_ID g))
          (Proxy_Resolve lib None (gc_Proxy g) (ci_GlobalProxy input) (ci_EnvironmentProxy input))) (\<lambda>groupProxy.
      if \<not> gc_Enabled g then Inr snapshot
      else compile_enabled json (registry_of input) g resolved groupProxy snapshot))))"

definition compile_key :: "AccessKeyConfig \<Rightarrow> ConfigSnapshot \<Rightarrow> ConfigSnapshot" where
  "compile_key k snapshot =
     (let view = newAccessKeyView k;
          next = snapshot\<lparr>cs_AccessKeysByID := AList.update (akc_ID k) view (cs_AccessKeysByID snapshot)\<rparr>
      in if akc_Status k = AccessKeyStatusActive
         then next\<lparr>cs_AccessKeysByHash := AList.update (akc_KeyHash k) view (cs_AccessKeysByHash next)\<rparr>
         else next)"

definition empty_snapshot :: "RuntimeSettings \<Rightarrow> Effective \<Rightarrow> ConfigSnapshot" where
  "empty_snapshot runtimeSettings globalProxy =
     \<lparr>cs_Revision = 0, cs_Settings = runtimeSettings, cs_ExecutionCandidates = [], cs_ExecutionRouteCatalog = [],
      cs_Groups = [], cs_AccessKeysByHash = [], cs_GroupCatalog = [], cs_AccessKeysByID = [],
      cs_GlobalProxy = globalProxy\<rparr>"

definition Compile :: "platform \<Rightarrow> url_library \<Rightarrow> channel_json \<Rightarrow> CompileInput \<Rightarrow> CompileError + ConfigSnapshot" where
  "Compile pl lib json input =
     (case validateCompileInput json input of
        Some e \<Rightarrow> Inl e
      | None \<Rightarrow>
          and_then (map_error ErrSettings (ResolveRuntimeSettings pl (ci_SystemSettings input))) (\<lambda>runtimeSettings.
          and_then (or_error ErrGlobalProxy
              (Proxy_Resolve lib None None (ci_GlobalProxy input) (ci_EnvironmentProxy input))) (\<lambda>globalProxy.
          and_then (fold_result (compile_group pl lib json input runtimeSettings) (ci_Groups input)
              (empty_snapshot runtimeSettings globalProxy)) (\<lambda>snapshot.
          let keyed = fold compile_key (ci_AccessKeys input) snapshot
          in Inr (keyed\<lparr>cs_ExecutionCandidates := sortExecutionRouteIndex (cs_ExecutionCandidates keyed),
               cs_ExecutionRouteCatalog := sortExecutionRouteIndex (cs_ExecutionRouteCatalog keyed)\<rparr>)))))"

definition AccessQuotaDefinitions :: "ConfigSnapshot \<Rightarrow> (nat, QuotaRule list) gomap" where
  "AccessQuotaDefinitions snapshot =
     map (\<lambda>(k, view). (k, akv_CostLimitRules view))
       (filter (\<lambda>(k, view). akv_CostLimitRules view \<noteq> []) (cs_AccessKeysByID snapshot))"

end
