(* ===== verification/Config_Properties.thy ===== *)
theory Config_Properties
  imports Config_Snapshot
begin

text \<open>
  What compilation guarantees. The cell of a protocol, an operation and a model in an
  index is extended by each group independently of the other groups, so the candidates
  of the scheduler are the catalog restricted to the enabled groups.
\<close>

section \<open>Cells\<close>

definition cell :: "ExecutionCandidateIndex \<Rightarrow> Protocol \<Rightarrow> Operation \<Rightarrow> string \<Rightarrow> RouteTarget list" where
  "cell index p oper m = lookup_or [] (lookup_or [] (lookup_or [] index p) oper) m"

lemma lookup_or_Nil [simp]: "lookup_or d [] k = d"
  by (simp add: lookup_or_def)

lemma lookup_or_update [simp]: "lookup_or d (AList.update k v m) k' = (if k' = k then v else lookup_or d m k')"
  by (simp add: lookup_or_def)

lemma map_of_map_values: "map_of (map (\<lambda>(k, v). (k, f v)) m) k = map_option f (map_of m k)"
  by (induction m) auto

lemma lookup_or_map: "f d = d \<Longrightarrow> lookup_or d (map (\<lambda>(k, v). (k, f v)) m) k = f (lookup_or d m k)"
  by (simp add: lookup_or_def map_of_map_values split: option.split)

lemma cell_append:
  "cell (appendExecutionTarget p oper m t index) p' oper' m' =
     cell index p' oper' m' @ (if p' = p \<and> oper' = oper \<and> m' = m then [t] else [])"
  by (simp add: cell_def appendExecutionTarget_def Let_def)

lemma cell_sort: "cell (sortExecutionRouteIndex index) p oper m = sort_key route_key (cell index p oper m)"
  unfolding cell_def sortExecutionRouteIndex_def by (simp add: lookup_or_map)

lemma cell_Nil [simp]: "cell [] p oper m = []"
  by (simp add: cell_def)

section \<open>Groups extend cells independently\<close>

text \<open>
  A step that always fails, or that appends to every cell routes of one group, the same
  ones whatever the index holds.
\<close>

definition appends :: "(ExecutionCandidateIndex \<Rightarrow> 'e + ExecutionCandidateIndex) \<Rightarrow> (Protocol \<Rightarrow> Operation \<Rightarrow> string \<Rightarrow> RouteTarget list) \<Rightarrow> bool" where
  "appends f extra \<longleftrightarrow> (\<forall>index. \<exists>index'. f index = Inr index'
     \<and> (\<forall>p oper m. cell index' p oper m = cell index p oper m @ extra p oper m))"

definition appender :: "nat \<Rightarrow> (ExecutionCandidateIndex \<Rightarrow> 'e + ExecutionCandidateIndex) \<Rightarrow> bool" where
  "appender g f \<longleftrightarrow>
     (\<forall>index. \<not> is_ok (f index))
     \<or> (\<exists>extra. (\<forall>p oper m. \<forall>t \<in> set (extra p oper m). tg_GroupID t = g) \<and> appends f extra)"

lemma appender_fail: "appender g (\<lambda>index. Inl e)"
  by (simp add: appender_def)

lemma appender_id: "appender g Inr"
proof -
  have "appends Inr (\<lambda>p oper m. [])" by (simp add: appends_def)
  then show ?thesis unfolding appender_def by (intro disjI2 exI [of _ "\<lambda>p oper m. []"]) simp
qed

lemma appender_if: "appender g f \<Longrightarrow> appender g h \<Longrightarrow> appender g (if b then f else h)"
  by simp

lemma appender_single:
  assumes "tg_GroupID t = g"
  shows "appender g (\<lambda>index. Inr (appendExecutionTarget p oper m t index))"
proof -
  let ?extra = "\<lambda>p' oper' m'. if p' = p \<and> oper' = oper \<and> m' = m then [t] else []"
  have "appends (\<lambda>index. Inr (appendExecutionTarget p oper m t index)) ?extra"
    by (simp add: appends_def cell_append)
  then show ?thesis unfolding appender_def using assms by (intro disjI2 exI [of _ ?extra]) simp
qed

lemma appender_then:
  assumes f: "appender g f" and h: "appender g h"
  shows "appender g (\<lambda>index. and_then (f index) h)"
proof -
  consider "\<forall>index. \<not> is_ok (f index)" | "\<forall>index. \<not> is_ok (h index)"
    | a b where "\<forall>p oper m. \<forall>t \<in> set (a p oper m). tg_GroupID t = g" "appends f a"
      "\<forall>p oper m. \<forall>t \<in> set (b p oper m). tg_GroupID t = g" "appends h b"
    using f h unfolding appender_def by blast
  then show ?thesis
  proof cases
    case 1
    then have "\<not> is_ok (and_then (f index) h)" for index by (cases "f index") (auto dest: spec [of _ index])
    then show ?thesis by (simp add: appender_def)
  next
    case 2
    then have "\<not> is_ok (and_then (f index) h)" for index by (cases "f index") simp_all
    then show ?thesis by (simp add: appender_def)
  next
    case 3
    have "\<exists>index'. and_then (f index) h = Inr index'
        \<and> (\<forall>p oper m. cell index' p oper m = cell index p oper m @ a p oper m @ b p oper m)" for index
    proof -
      obtain i1 where i1: "f index = Inr i1" "\<forall>p oper m. cell i1 p oper m = cell index p oper m @ a p oper m"
        using 3(2) unfolding appends_def by blast
      obtain i2 where i2: "h i1 = Inr i2" "\<forall>p oper m. cell i2 p oper m = cell i1 p oper m @ b p oper m"
        using 3(4) unfolding appends_def by blast
      from i1 i2 show ?thesis by (intro exI [of _ i2]) simp
    qed
    then have "appends (\<lambda>index. and_then (f index) h) (\<lambda>p oper m. a p oper m @ b p oper m)"
      by (simp add: appends_def)
    with 3(1,3) show ?thesis unfolding appender_def
      by (intro disjI2 exI [of _ "\<lambda>p oper m. a p oper m @ b p oper m"]) auto
  qed
qed

lemma appender_fold: "(\<And>x. x \<in> set xs \<Longrightarrow> appender g (f x)) \<Longrightarrow> appender g (fold_result f xs)"
proof (induction xs)
  case Nil
  have "fold_result f [] = Inr" by (rule ext) simp
  with appender_id show ?case by metis
next
  case (Cons x xs)
  have "fold_result f (x # xs) = (\<lambda>index. and_then (f x index) (fold_result f xs))" by (rule ext) simp
  moreover have "appender g (\<lambda>index. and_then (f x index) (fold_result f xs))"
    using Cons by (intro appender_then) auto
  ultimately show ?case by simp
qed

lemma appender_model: "appender (gc_ID g) (append_model g target p oper model)"
proof (cases "ModeForModel target p oper (mc_ID model)")
  case None
  then have "append_model g target p oper model = (\<lambda>index. Inl (ErrNoModelRouteMode (gc_ID g) p oper (mc_ID model)))"
    by (auto simp: append_model_def)
  then show ?thesis by (simp only: appender_fail)
next
  case (Some mode)
  let ?t = "\<lparr>tg_GroupID = gc_ID g, tg_UpstreamModelID = TrimSpace (mc_ID model), tg_Mode = mode, tg_ResolvedTarget = target\<rparr>"
  have "append_model g target p oper model = (\<lambda>index. Inr (appendExecutionTarget p oper (externalModelName model) ?t index))"
    using Some by (auto simp: append_model_def)
  then show ?thesis using appender_single [of ?t "gc_ID g"] by simp
qed

lemma appender_operation: "appender (gc_ID g) (append_operation g target p oper)"
proof (cases "Target_Mode target p oper")
  case None
  then have "append_operation g target p oper =
      (if oper = OperationListModels \<or> oper = OperationProbe then Inr else (\<lambda>index. Inl (ErrNoRouteMode (gc_ID g) p oper)))"
    by (auto simp: append_operation_def fun_eq_iff)
  then show ?thesis by (simp add: appender_fail appender_id)
next
  case (Some mode)
  let ?one = "\<lambda>index. Inr (appendExecutionTarget p oper NoModelRouteKey (resource_target g target mode) index)"
  let ?models = "fold_result (append_model g target p oper) (gc_Models g)"
  have one: "appender (gc_ID g) ?one" by (rule appender_single) (simp add: resource_target_def)
  have models: "appender (gc_ID g) ?models" by (rule appender_fold) (rule appender_model)
  have "append_operation g target p oper =
      (if oper = OperationListModels \<or> oper = OperationProbe then Inr
       else if resource_operation oper then ?one
       else if oper = OperationResponsesPassthrough then (\<lambda>index. and_then (?one index) ?models)
       else if model_operation oper then ?models
       else (\<lambda>index. Inl (ErrUnroutableOperation (gc_ID g) oper)))"
    using Some by (simp add: append_operation_def Let_def fun_eq_iff)
  note eq = this
  show ?thesis unfolding eq by (intro appender_if appender_id appender_fail one models appender_then)
qed

lemma appender_targets: "appender (gc_ID g) (appendExecutionTargets json registry g)"
proof (cases "Channel_Resolve json registry (gc_ChannelID g) (gc_Params g)")
  case (Inl e)
  then have "appendExecutionTargets json registry g = (\<lambda>index. Inl (ErrGroupChannel (gc_ID g) e))"
    by (simp add: appendExecutionTargets_def fun_eq_iff)
  then show ?thesis by (simp only: appender_fail)
next
  case (Inr target)
  show ?thesis
  proof (cases "Channel_Get registry (gc_ChannelID g)")
    case None
    with Inr have "appendExecutionTargets json registry g = (\<lambda>index. Inl (ErrUnknownChannel (gc_ID g) (gc_ChannelID g)))"
      by (simp add: appendExecutionTargets_def fun_eq_iff)
    then show ?thesis by (simp only: appender_fail)
  next
    case (Some d)
    let ?f = "fold_result (\<lambda>p. fold_result (append_operation g target p) (Operations target p)) (ds_ClientProtocols d)"
    have "appender (gc_ID g) ?f" by (intro appender_fold appender_operation)
    moreover have "appendExecutionTargets json registry g = (if gc_Models g = [] then Inr else ?f)"
      using Inr Some by (simp add: appendExecutionTargets_def fun_eq_iff)
    ultimately show ?thesis by (simp add: appender_id)
  qed
qed

text \<open>The routes of a group, the same in the catalog and among the candidates.\<close>

lemma appended_routes:
  assumes "appendExecutionTargets json registry g index = Inr index'"
  obtains extra where "\<And>p oper m t. t \<in> set (extra p oper m) \<Longrightarrow> tg_GroupID t = gc_ID g"
    and "\<And>index index' p oper m. appendExecutionTargets json registry g index = Inr index' \<Longrightarrow>
           cell index' p oper m = cell index p oper m @ extra p oper m"
proof -
  have "is_ok (appendExecutionTargets json registry g index)" using assms by simp
  then obtain extra where "\<forall>p oper m. \<forall>t \<in> set (extra p oper m). tg_GroupID t = gc_ID g"
    "appends (appendExecutionTargets json registry g) extra"
    using appender_targets [of g json registry] unfolding appender_def by blast
  then show ?thesis using that unfolding appends_def by (metis Inr_inject)
qed

section \<open>Consistent snapshots\<close>

definition enabled_group :: "ConfigSnapshot \<Rightarrow> nat \<Rightarrow> bool" where
  "enabled_group snapshot g = (case map_of (cs_GroupCatalog snapshot) g of None \<Rightarrow> False | Some v \<Rightarrow> gcv_Enabled v)"

text \<open>
  The catalog lists every routed group under its own identifier with a valid weight, the
  views are those of the enabled groups and agree with the catalog, and the candidates
  are the routes of the catalog whose group is enabled, in the same order.
\<close>

definition consistent :: "ConfigSnapshot \<Rightarrow> bool" where
  "consistent s \<longleftrightarrow>
     (\<forall>g v. map_of (cs_GroupCatalog s) g = Some v \<longrightarrow> gcv_ID v = g \<and> validateManualWeight (gcv_WeightManual v))
     \<and> (\<forall>g. (map_of (cs_Groups s) g \<noteq> None) = enabled_group s g)
     \<and> (\<forall>g v w. map_of (cs_Groups s) g = Some v \<longrightarrow> map_of (cs_GroupCatalog s) g = Some w \<longrightarrow>
          gv_WeightManual v = gcv_WeightManual w)
     \<and> (\<forall>p oper m. \<forall>t \<in> set (cell (cs_ExecutionRouteCatalog s) p oper m). map_of (cs_GroupCatalog s) (tg_GroupID t) \<noteq> None)
     \<and> (\<forall>p oper m. cell (cs_ExecutionCandidates s) p oper m =
          filter (\<lambda>t. enabled_group s (tg_GroupID t)) (cell (cs_ExecutionRouteCatalog s) p oper m))"

lemma consistentD:
  assumes "consistent s"
  shows "map_of (cs_GroupCatalog s) g = Some v \<Longrightarrow> gcv_ID v = g \<and> validateManualWeight (gcv_WeightManual v)"
    and "(map_of (cs_Groups s) g \<noteq> None) = enabled_group s g"
    and "map_of (cs_Groups s) g = Some view \<Longrightarrow> map_of (cs_GroupCatalog s) g = Some v \<Longrightarrow> gv_WeightManual view = gcv_WeightManual v"
    and "t \<in> set (cell (cs_ExecutionRouteCatalog s) p oper m) \<Longrightarrow> map_of (cs_GroupCatalog s) (tg_GroupID t) \<noteq> None"
    and "cell (cs_ExecutionCandidates s) p oper m =
          filter (\<lambda>t. enabled_group s (tg_GroupID t)) (cell (cs_ExecutionRouteCatalog s) p oper m)"
  using assms unfolding consistent_def by blast+

lemma consistent_empty: "consistent (empty_snapshot rs proxy)"
  by (simp add: consistent_def empty_snapshot_def enabled_group_def)

text \<open>The effect of the loop body on the parts a consistent snapshot relates.\<close>

lemma compile_group_effect:
  assumes "compile_group pl lib json input rs g s = Inr s'"
  obtains catalog candidates view where
    "appendExecutionTargets json (registry_of input) g (cs_ExecutionRouteCatalog s) = Inr catalog"
    "cs_ExecutionRouteCatalog s' = catalog"
    "cs_GroupCatalog s' = AList.update (gc_ID g) (catalog_view g) (cs_GroupCatalog s)"
    "cs_ExecutionCandidates s' = candidates"
    "\<not> gc_Enabled g \<Longrightarrow> candidates = cs_ExecutionCandidates s \<and> cs_Groups s' = cs_Groups s"
    "gc_Enabled g \<Longrightarrow> appendExecutionTargets json (registry_of input) g (cs_ExecutionCandidates s) = Inr candidates
       \<and> cs_Groups s' = AList.update (gc_ID g) view (cs_Groups s) \<and> gv_WeightManual view = gc_WeightManual g"
proof (cases "gc_Enabled g")
  case True
  with assms obtain catalog resolved proxy params target protocols candidates where
    e: "appendExecutionTargets json (registry_of input) g (cs_ExecutionRouteCatalog s) = Inr catalog"
    "appendExecutionTargets json (registry_of input) g (cs_ExecutionCandidates s) = Inr candidates"
    and s': "s' = s\<lparr>cs_GroupCatalog := AList.update (gc_ID g) (catalog_view g) (cs_GroupCatalog s),
       cs_ExecutionRouteCatalog := catalog, cs_ExecutionCandidates := candidates,
       cs_Groups := AList.update (gc_ID g) (group_view g resolved proxy params target protocols) (cs_Groups s)\<rparr>"
    by (clarsimp simp: compile_group_def compile_enabled_def Let_def)
  show ?thesis
    by (rule that [of catalog candidates "group_view g resolved proxy params target protocols"])
      (simp_all add: e s' True group_view_def)
next
  case False
  with assms that show ?thesis by (clarsimp simp: compile_group_def Let_def)
qed

lemma compile_group_consistent:
  assumes step: "compile_group pl lib json input rs g s = Inr s'" and s: "consistent s"
    and fresh: "map_of (cs_GroupCatalog s) (gc_ID g) = None" and w: "validateManualWeight (gc_WeightManual g)"
  shows "consistent s'"
proof -
  from compile_group_effect [OF step] obtain catalog candidates view where
    e: "appendExecutionTargets json (registry_of input) g (cs_ExecutionRouteCatalog s) = Inr catalog"
    "cs_ExecutionRouteCatalog s' = catalog"
    "cs_GroupCatalog s' = AList.update (gc_ID g) (catalog_view g) (cs_GroupCatalog s)"
    "cs_ExecutionCandidates s' = candidates"
    "\<not> gc_Enabled g \<Longrightarrow> candidates = cs_ExecutionCandidates s \<and> cs_Groups s' = cs_Groups s"
    "gc_Enabled g \<Longrightarrow> appendExecutionTargets json (registry_of input) g (cs_ExecutionCandidates s) = Inr candidates
       \<and> cs_Groups s' = AList.update (gc_ID g) view (cs_Groups s) \<and> gv_WeightManual view = gc_WeightManual g"
    by metis
  from appended_routes [OF e(1)] obtain extra where
    x: "\<And>p oper m t. t \<in> set (extra p oper m) \<Longrightarrow> tg_GroupID t = gc_ID g"
    and add: "\<And>index index' p oper m. appendExecutionTargets json (registry_of input) g index = Inr index' \<Longrightarrow>
           cell index' p oper m = cell index p oper m @ extra p oper m"
    by metis
  have en: "enabled_group s' h = (if h = gc_ID g then gc_Enabled g else enabled_group s h)" for h
    by (simp add: enabled_group_def e(3) catalog_view_def)
  have cat: "cell catalog p oper m = cell (cs_ExecutionRouteCatalog s) p oper m @ extra p oper m" for p oper m
    by (rule add [OF e(1)])
  have old: "tg_GroupID t \<noteq> gc_ID g" if "t \<in> set (cell (cs_ExecutionRouteCatalog s) p oper m)" for t p oper m
    using consistentD(4) [OF s that] fresh by metis
  have none: "map_of (cs_Groups s) (gc_ID g) = None"
    using consistentD(2) [OF s, of "gc_ID g"] fresh by (simp add: enabled_group_def)
  have keep: "filter (\<lambda>t. enabled_group s' (tg_GroupID t)) (cell (cs_ExecutionRouteCatalog s) p oper m) =
      cell (cs_ExecutionCandidates s) p oper m" for p oper m
    unfolding consistentD(5) [OF s] using old by (auto simp: en intro!: filter_cong)
  have new: "filter (\<lambda>t. enabled_group s' (tg_GroupID t)) (extra p oper m) = (if gc_Enabled g then extra p oper m else [])" for p oper m
    using x by (auto simp: en filter_id_conv filter_empty_conv)
  have "cell candidates p oper m = filter (\<lambda>t. enabled_group s' (tg_GroupID t)) (cell catalog p oper m)" for p oper m
    using e(5,6) add unfolding cat filter_append keep new by (cases "gc_Enabled g") auto
  moreover have "map_of (cs_GroupCatalog s') (tg_GroupID t) \<noteq> None" if "t \<in> set (cell catalog p oper m)" for t p oper m
    using that consistentD(4) [OF s] x unfolding cat by (auto simp: e(3))
  moreover have "(map_of (cs_Groups s') h \<noteq> None) = enabled_group s' h" for h
    using consistentD(2) [OF s, of h] none e(5,6) unfolding en by (cases "gc_Enabled g") auto
  moreover have "gcv_ID v = h \<and> validateManualWeight (gcv_WeightManual v)" if "map_of (cs_GroupCatalog s') h = Some v" for h v
    using that consistentD(1) [OF s, of h v] w by (auto simp: e(3) catalog_view_def split: if_splits)
  moreover have "gv_WeightManual v = gcv_WeightManual w'"
    if "map_of (cs_Groups s') h = Some v" "map_of (cs_GroupCatalog s') h = Some w'" for h v w'
    using that consistentD(3) [OF s, of h v w'] none e(5,6)
    by (cases "gc_Enabled g") (auto simp: e(3) catalog_view_def split: if_splits)
  ultimately show ?thesis unfolding consistent_def e(2,4) by blast
qed

lemma validate_groups_None:
  "validate_groups json input seen gs = None \<Longrightarrow>
     distinct (map gc_ID gs) \<and> (\<forall>g \<in> set gs. gc_ID g \<notin> seen \<and> gc_ID g \<noteq> 0 \<and> validate_group json input g = None)"
  by (induction json input seen gs rule: validate_groups.induct) (auto split: if_splits option.splits)

lemma validate_group_weight: "validate_group json input g = None \<Longrightarrow> validateManualWeight (gc_WeightManual g)"
  by (auto simp: validate_group_def split: if_splits sum.splits)

lemma compile_groups_consistent:
  assumes "fold_result (compile_group pl lib json input rs) gs s = Inr s'" and "consistent s"
    and "distinct (map gc_ID gs)" and "\<forall>g \<in> set gs. map_of (cs_GroupCatalog s) (gc_ID g) = None \<and> validateManualWeight (gc_WeightManual g)"
  shows "consistent s' \<and> dom (map_of (cs_GroupCatalog s')) = dom (map_of (cs_GroupCatalog s)) \<union> gc_ID ` set gs"
  using assms
proof (induction gs arbitrary: s)
  case (Cons g gs)
  then obtain u where u: "compile_group pl lib json input rs g s = Inr u"
    "fold_result (compile_group pl lib json input rs) gs u = Inr s'" by auto
  have cu: "consistent u" using compile_group_consistent [OF u(1)] Cons.prems by simp
  have cat: "cs_GroupCatalog u = AList.update (gc_ID g) (catalog_view g) (cs_GroupCatalog s)"
    using compile_group_effect [OF u(1)] by metis
  have dom_u: "dom (map_of (cs_GroupCatalog u)) = insert (gc_ID g) (dom (map_of (cs_GroupCatalog s)))"
    unfolding cat map_of_update by simp
  have "\<forall>h \<in> set gs. map_of (cs_GroupCatalog u) (gc_ID h) = None \<and> validateManualWeight (gc_WeightManual h)"
  proof
    fix h assume "h \<in> set gs"
    with Cons.prems(3,4) have "gc_ID h \<noteq> gc_ID g" "map_of (cs_GroupCatalog s) (gc_ID h) = None \<and> validateManualWeight (gc_WeightManual h)"
      by (auto simp: image_iff)
    then show "map_of (cs_GroupCatalog u) (gc_ID h) = None \<and> validateManualWeight (gc_WeightManual h)" by (simp add: cat)
  qed
  from Cons.IH [OF u(2) cu _ this] Cons.prems(3) show ?case unfolding dom_u by simp
qed simp

lemma consistent_cong:
  assumes "consistent s" and "cs_GroupCatalog t = cs_GroupCatalog s" and "cs_Groups t = cs_Groups s"
    and "cs_ExecutionCandidates t = sortExecutionRouteIndex (cs_ExecutionCandidates s)"
    and "cs_ExecutionRouteCatalog t = sortExecutionRouteIndex (cs_ExecutionRouteCatalog s)"
  shows "consistent t"
proof -
  have "enabled_group t = enabled_group s" using assms(2) by (simp add: enabled_group_def fun_eq_iff)
  with assms show ?thesis by (simp add: consistent_def cell_sort filter_sort)
qed

lemma compile_keys_frame:
  "cs_GroupCatalog (fold compile_key ks s) = cs_GroupCatalog s \<and> cs_Groups (fold compile_key ks s) = cs_Groups s
   \<and> cs_ExecutionCandidates (fold compile_key ks s) = cs_ExecutionCandidates s
   \<and> cs_ExecutionRouteCatalog (fold compile_key ks s) = cs_ExecutionRouteCatalog s
   \<and> cs_Settings (fold compile_key ks s) = cs_Settings s \<and> cs_Revision (fold compile_key ks s) = cs_Revision s"
  by (induction ks arbitrary: s) (simp_all add: compile_key_def Let_def)

lemma compile_consistent:
  assumes "Compile pl lib json input = Inr s"
  shows "consistent s \<and> dom (map_of (cs_GroupCatalog s)) = gc_ID ` set (ci_Groups input)"
proof -
  from assms obtain rs proxy u where v: "validateCompileInput json input = None"
    and u: "fold_result (compile_group pl lib json input rs) (ci_Groups input) (empty_snapshot rs proxy) = Inr u"
    and s: "s = (fold compile_key (ci_AccessKeys input) u)
      \<lparr>cs_ExecutionCandidates := sortExecutionRouteIndex (cs_ExecutionCandidates (fold compile_key (ci_AccessKeys input) u)),
       cs_ExecutionRouteCatalog := sortExecutionRouteIndex (cs_ExecutionRouteCatalog (fold compile_key (ci_AccessKeys input) u))\<rparr>"
    unfolding Compile_def Let_def by (cases "validateCompileInput json input") (simp_all, blast)
  from v have "validate_groups json input {} (ci_Groups input) = None"
    by (auto simp: validateCompileInput_def split: option.splits)
  from validate_groups_None [OF this]
  have "distinct (map gc_ID (ci_Groups input))" "\<forall>g \<in> set (ci_Groups input). validateManualWeight (gc_WeightManual g)"
    using validate_group_weight by blast+
  then have "consistent u \<and> dom (map_of (cs_GroupCatalog u)) = gc_ID ` set (ci_Groups input)"
    using compile_groups_consistent [OF u consistent_empty] by (simp add: empty_snapshot_def)
  then have u': "consistent u" "dom (map_of (cs_GroupCatalog u)) = gc_ID ` set (ci_Groups input)" by simp_all
  have "consistent s" by (rule consistent_cong [OF u'(1)]) (simp_all add: s compile_keys_frame)
  with u'(2) show ?thesis by (simp add: s compile_keys_frame)
qed

end
