(* ===== verification/Registry_Spec.thy ===== *)
theory Registry_Spec
  imports Registry
begin

text \<open>
  The credential registry as one flat map from credentials to entries. The
  invariant ties the buckets to the index; under it every operation of the
  registry is an operation on the flat map, and no operation dereferences a
  missing entry.
\<close>

section \<open>Invariant\<close>

definition shape :: "CredentialRegistry \<Rightarrow> bool" where
  "shape r \<longleftrightarrow> wf_map (buckets r) \<and> (\<forall>(g, b) \<in> set (buckets r). wf_map b \<and> b \<noteq> [])"

text \<open>Bucket and index agree, and every entry is stored under its own identifiers and is valid.\<close>

definition linked :: "CredentialRegistry \<Rightarrow> bool" where
  "linked r \<longleftrightarrow>
     (\<forall>g c e. map_of (bucket r g) c = Some e \<longrightarrow>
        ce_ID e = c \<and> ce_GroupID e = g \<and> validate_entry e = None \<and> credentialGroups r c = Some g)
     \<and> (\<forall>c g. credentialGroups r c = Some g \<longrightarrow> map_of (bucket r g) c \<noteq> None)"

definition reg_inv :: "CredentialRegistry \<Rightarrow> bool" where
  "reg_inv r \<longleftrightarrow> shape r \<and> linked r"

named_theorems bucket_simps \<open>what a bucket or the index is after a primitive update\<close>

lemma bucket_primitives [bucket_simps]:
  "bucket (set_bucket g b r) h = (if h = g then b else bucket r h)"
  "bucket (delete_bucket g r) h = (if h = g then [] else bucket r h)"
  "bucket (set_group c x r) h = bucket r h"
  "credentialGroups (set_bucket g b r) = credentialGroups r"
  "credentialGroups (delete_bucket g r) = credentialGroups r"
  "credentialGroups (set_group c x r) = (credentialGroups r)(c := x)"
  by (simp_all add: bucket_def set_bucket_def delete_bucket_def set_group_def)

lemma put_entry_primitives [bucket_simps]:
  "map_of (bucket (put_entry g c e r) h) = (if h = g then (map_of (bucket r g))(c \<mapsto> e) else map_of (bucket r h))"
  "credentialGroups (put_entry g c e r) = credentialGroups r"
  by (simp_all add: put_entry_def bucket_simps)

lemma set_groups_primitives [bucket_simps]:
  "bucket (fold (\<lambda>c. set_group c x) ks r) h = bucket r h"
  "buckets (fold (\<lambda>c. set_group c x) ks r) = buckets r"
  "credentialGroups (fold (\<lambda>c. set_group c x) ks r) c = (if c \<in> set ks then x else credentialGroups r c)"
  by (induction ks arbitrary: r) (auto simp: bucket_simps set_group_def bucket_def)

lemma shape_bucket: "shape r \<Longrightarrow> wf_map (bucket r g)"
  by (auto simp: shape_def bucket_def split: option.split dest: map_of_SomeD)

lemma shape_set_bucket: "shape r \<Longrightarrow> wf_map b \<Longrightarrow> b \<noteq> [] \<Longrightarrow> shape (set_bucket g b r)"
  using set_update_subset [of g b "buckets r"] by (fastforce simp: shape_def set_bucket_def)

lemma shape_delete_bucket: "shape r \<Longrightarrow> shape (delete_bucket g r)"
  by (auto simp: shape_def delete_bucket_def AList.delete_eq distinct_map_filter)

lemma shape_set_group [simp]: "shape (set_group c x r) = shape r"
  by (simp add: shape_def set_group_def)

lemma shape_set_groups [simp]: "shape (fold (\<lambda>c. set_group c x) ks r) = shape r"
  by (simp add: shape_def bucket_simps)

lemma shape_put_entry: "shape r \<Longrightarrow> shape (put_entry g c e r)"
  unfolding put_entry_def
proof (rule shape_set_bucket)
  assume s: "shape r"
  show "wf_map (AList.update c e (bucket r g))" using shape_bucket [OF s] by (rule wf_map_update)
  show "AList.update c e (bucket r g) \<noteq> []" by (metis map_of_update fun_upd_same map_of.simps(1) option.distinct(1))
qed

lemma reg_inv_new: "reg_inv NewCredentialRegistry"
  by (simp add: reg_inv_def shape_def linked_def NewCredentialRegistry_def bucket_def)

lemma entryLocked_new: "entryLocked NewCredentialRegistry = Map.empty"
  by (simp add: fun_eq_iff entryLocked_def NewCredentialRegistry_def)

lemma linkedD:
  assumes "linked r"
  shows "map_of (bucket r g) c = Some e \<Longrightarrow> ce_ID e = c \<and> ce_GroupID e = g \<and> validate_entry e = None \<and> credentialGroups r c = Some g"
    and "credentialGroups r c = Some g \<Longrightarrow> map_of (bucket r g) c \<noteq> None"
  using assms unfolding linked_def by blast+

lemma linked_lookup:
  assumes "linked r"
  shows "map_of (bucket r g) c = (case entryLocked r c of None \<Rightarrow> None | Some e \<Rightarrow> if ce_GroupID e = g then Some e else None)"
proof (cases "map_of (bucket r g) c")
  case None
  then show ?thesis using linkedD [OF assms] by (fastforce simp: entryLocked_def split: option.splits)
next
  case (Some e)
  from linkedD(1) [OF assms this] Some show ?thesis by (simp add: entryLocked_def)
qed

lemma linked_index:
  assumes "linked r"
  shows "credentialGroups r c = map_option ce_GroupID (entryLocked r c)"
proof (cases "credentialGroups r c")
  case (Some g)
  with linkedD(2) [OF assms] obtain e where "map_of (bucket r g) c = Some e" by blast
  with linkedD(1) [OF assms this] Some show ?thesis by (simp add: entryLocked_def)
qed (simp add: entryLocked_def)

lemma linked_entry:
  assumes "linked r" and "entryLocked r c = Some e"
  shows "ce_ID e = c \<and> validate_entry e = None \<and> credentialGroups r c = Some (ce_GroupID e)
    \<and> map_of (bucket r (ce_GroupID e)) c = Some e"
proof -
  have m: "map_of (bucket r (ce_GroupID e)) c = Some e" using assms by (simp add: linked_lookup)
  with linkedD(1) [OF assms(1) this] show ?thesis by simp
qed

section \<open>Modifying one entry\<close>

definition keeps_identity :: "(CredentialEntry \<Rightarrow> CredentialEntry) \<Rightarrow> CredentialEntry \<Rightarrow> bool" where
  "keeps_identity f e \<longleftrightarrow> ce_ID (f e) = ce_ID e \<and> ce_GroupID (f e) = ce_GroupID e
     \<and> (validate_entry e = None \<longrightarrow> validate_entry (f e) = None)"

lemma registry_put_entry_inv:
  assumes "reg_inv r" and "credentialGroups r c = Some g" and "ce_ID e = c" and "ce_GroupID e = g" and "validate_entry e = None"
  shows "reg_inv (put_entry g c e r) \<and> entryLocked (put_entry g c e r) = (entryLocked r)(c \<mapsto> e)"
  using assms
  by (auto simp: reg_inv_def shape_put_entry linked_def bucket_simps entryLocked_def fun_eq_iff split: option.splits)

lemma modify_entry_inv:
  assumes inv: "reg_inv r" and f: "\<And>e. entryLocked r c = Some e \<Longrightarrow> keeps_identity f e"
  shows "reg_inv (modify_entry c f r) \<and> entryLocked (modify_entry c f r) = (entryLocked r)(c := map_option f (entryLocked r c))"
proof (cases "entryLocked r c")
  case None
  then show ?thesis using inv by (auto simp: modify_entry_def entryLocked_def fun_eq_iff split: option.splits)
next
  case (Some e)
  have l: "linked r" using inv by (simp add: reg_inv_def)
  note e = linked_entry [OF l Some]
  have "modify_entry c f r = put_entry (ce_GroupID e) c (f e) r" using e by (simp add: modify_entry_def)
  moreover have "keeps_identity f e" using f Some by simp
  ultimately show ?thesis
    using registry_put_entry_inv [OF inv, of c "ce_GroupID e" "f e"] e Some by (auto simp: keeps_identity_def)
qed

section \<open>Guards\<close>

lemma validate_entries_None:
  "validate_entries seen es = None \<longleftrightarrow>
     (\<forall>e \<in> set es. validate_entry e = None \<and> ce_ID e \<notin> seen) \<and> distinct (map ce_ID es)"
proof (induction seen es rule: validate_entries.induct)
  case (2 seen e es)
  show ?case
  proof (cases "validate_entry e = None \<and> ce_ID e \<notin> seen")
    case True
    then have "validate_entries seen (e # es) = validate_entries (insert (ce_ID e) seen) es" by simp
    with 2 True show ?thesis by (auto simp: image_iff)
  qed (auto split: option.split)
qed simp

lemma ValidateCredentialEntries_None:
  "ValidateCredentialEntries es = None \<longleftrightarrow> (\<forall>e \<in> set es. validate_entry e = None) \<and> distinct (map ce_ID es)"
  by (simp add: ValidateCredentialEntries_def validate_entries_None)

type_synonym flat = "nat \<Rightarrow> CredentialEntry option"

definition same_group :: "nat \<Rightarrow> flat \<Rightarrow> CredentialEntry \<Rightarrow> bool" where
  "same_group g m e \<longleftrightarrow> (case m (ce_ID e) of None \<Rightarrow> True | Some x \<Rightarrow> ce_GroupID x = g)"

definition entries_ok :: "nat \<Rightarrow> CredentialEntry list \<Rightarrow> flat \<Rightarrow> bool" where
  "entries_ok g es m \<longleftrightarrow> ValidateCredentialEntries es = None \<and> (\<forall>e \<in> set es. ce_GroupID e = g \<and> same_group g m e)"

definition ids_ok :: "nat \<Rightarrow> nat list \<Rightarrow> flat \<Rightarrow> bool" where
  "ids_ok g ids m \<longleftrightarrow> g \<noteq> 0 \<and> ids \<noteq> [] \<and> distinct ids \<and> 0 \<notin> set ids
     \<and> (\<forall>c \<in> set ids. \<exists>e. m c = Some e \<and> ce_GroupID e = g)"

lemma check_group_entries_None:
  assumes "linked r"
  shows "check_group_entries g es r = None \<longleftrightarrow> entries_ok g es (entryLocked r)"
proof -
  have "is_foreign g r e \<longleftrightarrow> \<not> same_group g (entryLocked r) e" for e
    by (auto simp: is_foreign_def same_group_def linked_index [OF assms] split: option.split)
  then have "is_foreign g r = (\<lambda>e. \<not> same_group g (entryLocked r) e)" by blast
  then have foreign: "foreign_group g r es = None \<longleftrightarrow> (\<forall>e \<in> set es. same_group g (entryLocked r) e)"
    by (simp add: foreign_group_def find_None_iff Ball_def)
  have "wrong_group g es = None \<longleftrightarrow> (\<forall>e \<in> set es. ce_GroupID e = g)" by (auto simp: wrong_group_def find_None_iff)
  with foreign show ?thesis
    by (cases "wrong_group g es") (auto simp: check_group_entries_def entries_ok_def split: option.split)
qed

lemma validate_ids_None:
  assumes "linked r"
  shows "validate_ids r g seen ids = None \<longleftrightarrow>
    distinct ids \<and> 0 \<notin> set ids \<and> set ids \<inter> seen = {} \<and> (\<forall>c \<in> set ids. \<exists>e. entryLocked r c = Some e \<and> ce_GroupID e = g)"
proof (induction ids arbitrary: seen)
  case (Cons c ids)
  show ?case
  proof (cases "\<exists>e. entryLocked r c = Some e \<and> ce_GroupID e = g")
    case True
    then have "credentialGroups r c = Some g" "map_of (bucket r g) c \<noteq> None"
      using linked_entry [OF assms] by auto
    with True Cons show ?thesis by auto
  next
    case False
    then have "credentialGroups r c \<noteq> Some g" using linked_index [OF assms, of c] by auto
    then have "validate_ids r g seen (c # ids) \<noteq> None" by (auto split: option.split)
    with False show ?thesis by (auto simp del: validate_ids.simps)
  qed
qed simp

lemma validateGroupCredentialIDsLocked_None:
  assumes "linked r"
  shows "validateGroupCredentialIDsLocked g ids r = None \<longleftrightarrow> ids_ok g ids (entryLocked r)"
  by (auto simp: validateGroupCredentialIDsLocked_def validate_ids_None [OF assms] ids_ok_def)

section \<open>Inserting entries\<close>

definition insert_as :: "(CredentialEntry \<Rightarrow> CredentialEntry) \<Rightarrow> CredentialEntry \<Rightarrow> CredentialRegistry \<Rightarrow> CredentialRegistry" where
  "insert_as f e r = set_group (ce_ID e) (Some (ce_GroupID e)) (put_entry (ce_GroupID e) (ce_ID e) (f e) r)"

lemma insert_clone_as: "insert_clone = insert_as cloneCredentialEntry"
  by (simp add: fun_eq_iff insert_clone_def insert_as_def)

lemma insert_exact_as: "insert_exact = insert_as (\<lambda>e. e)"
  by (simp add: fun_eq_iff insert_exact_def insert_as_def)

lemma keeps_identity_clone: "keeps_identity cloneCredentialEntry e"
  by (auto simp: keeps_identity_def cloneCredentialEntry_def validate_entry_def DefaultWeight_def MaxWeight_def)

lemma insert_as_inv:
  assumes inv: "reg_inv r" and f: "keeps_identity f e" and ok: "validate_entry e = None"
    and same: "same_group (ce_GroupID e) (entryLocked r) e"
  shows "reg_inv (insert_as f e r) \<and> entryLocked (insert_as f e r) = (entryLocked r)(ce_ID e \<mapsto> f e)"
proof -
  have l: "linked r" using inv by (simp add: reg_inv_def)
  have free: "map_of (bucket r h) (ce_ID e) = None" if "h \<noteq> ce_GroupID e" for h
    using same that by (auto simp: linked_lookup [OF l] same_group_def split: option.splits)
  have "linked (insert_as f e r)"
    using f ok free linkedD [OF l]
    by (auto simp: linked_def insert_as_def bucket_simps keeps_identity_def)
  moreover have "shape (insert_as f e r)" using inv by (simp add: insert_as_def reg_inv_def shape_put_entry)
  moreover have "entryLocked (insert_as f e r) = (entryLocked r)(ce_ID e \<mapsto> f e)"
    by (auto simp: fun_eq_iff entryLocked_def insert_as_def bucket_simps split: option.split)
  ultimately show ?thesis by (simp add: reg_inv_def)
qed

definition overlay :: "(CredentialEntry \<Rightarrow> CredentialEntry) \<Rightarrow> CredentialEntry list \<Rightarrow> flat \<Rightarrow> flat" where
  "overlay f es m = (\<lambda>c. case find (\<lambda>e. ce_ID e = c) es of None \<Rightarrow> m c | Some e \<Rightarrow> Some (f e))"

lemma overlay_Nil [simp]: "overlay f [] m = m"
  by (simp add: overlay_def)

lemma overlay_Cons:
  assumes "ce_ID e \<notin> ce_ID ` set es"
  shows "overlay f (e # es) m = overlay f es (m(ce_ID e \<mapsto> f e))"
proof -
  have "find (\<lambda>x. ce_ID x = ce_ID e) es = None" using assms by (auto simp: find_None_iff image_iff)
  then show ?thesis by (auto simp: overlay_def fun_eq_iff split: option.split)
qed

lemma insert_all_inv:
  assumes "reg_inv r" and f: "\<And>e. keeps_identity f e"
    and "\<And>e. e \<in> set es \<Longrightarrow> validate_entry e = None \<and> same_group (ce_GroupID e) (entryLocked r) e"
    and "distinct (map ce_ID es)"
  shows "reg_inv (fold (insert_as f) es r) \<and> entryLocked (fold (insert_as f) es r) = overlay f es (entryLocked r)"
  using assms(1,3,4)
proof (induction es arbitrary: r)
  case (Cons e es)
  have step: "reg_inv (insert_as f e r) \<and> entryLocked (insert_as f e r) = (entryLocked r)(ce_ID e \<mapsto> f e)"
    using Cons.prems by (intro insert_as_inv f) auto
  have "reg_inv (fold (insert_as f) es (insert_as f e r))
    \<and> entryLocked (fold (insert_as f) es (insert_as f e r)) = overlay f es (entryLocked (insert_as f e r))"
    using Cons.prems step by (intro Cons.IH) (auto simp: same_group_def image_iff)
  with step Cons.prems show ?case by (simp add: overlay_Cons)
qed simp

section \<open>Reconciliation\<close>

lemma fold_update_map:
  assumes "distinct (map ce_ID es)"
  shows "map_of (fold (\<lambda>d m. AList.update (ce_ID d) (f d) m) es m) c = overlay f es (map_of m) c"
  using assms
  by (induction es arbitrary: m) (simp_all add: overlay_Cons)

lemma fold_update_wf: "wf_map m \<Longrightarrow> wf_map (fold (\<lambda>d m. AList.update (ce_ID d) (f d) m) es m)"
  by (induction es arbitrary: m) simp_all

text \<open>The entries of one group, with the ones whose configuration is unchanged kept as they are.\<close>

definition flat_reconcile :: "nat \<Rightarrow> CredentialEntry list \<Rightarrow> flat \<Rightarrow> flat" where
  "flat_reconcile g es m = (\<lambda>c. case find (\<lambda>d. ce_ID d = c) es of
     Some d \<Rightarrow> Some (case m c of Some e \<Rightarrow> if samePersistedCredentialConfig e d then e else cloneCredentialEntry d
                               | None \<Rightarrow> cloneCredentialEntry d)
   | None \<Rightarrow> (case m c of Some e \<Rightarrow> if ce_GroupID e = g then None else Some e | None \<Rightarrow> None))"

lemma find_unique:
  "distinct (map ce_ID es) \<Longrightarrow> d \<in> set es \<Longrightarrow> find (\<lambda>e. ce_ID e = ce_ID d) es = Some d"
  by (induction es) (auto simp: image_iff)

lemma reconcile_matching:
  assumes l: "linked r" and ok: "entries_ok g es (entryLocked r)" and match: "matchesGroupLocked g es r" and s: "shape r"
  shows "flat_reconcile g es (entryLocked r) = entryLocked r"
proof
  fix c
  have dist: "distinct (map ce_ID es)" using ok by (simp add: entries_ok_def ValidateCredentialEntries_None)
  have found: "\<exists>e. entryLocked r (ce_ID d) = Some e \<and> ce_GroupID e = g \<and> samePersistedCredentialConfig e d" if "d \<in> set es" for d
    using match that by (fastforce simp: matchesGroupLocked_def list_all_iff linked_lookup [OF l] split: option.splits if_splits)
  have "ce_ID ` set es \<subseteq> set (keys (bucket r g))"
  proof clarify
    fix d assume "d \<in> set es"
    from found [OF this] have "map_of (bucket r g) (ce_ID d) \<noteq> None" by (auto simp: linked_lookup [OF l])
    then show "ce_ID d \<in> set (keys (bucket r g))" by (simp add: map_of_eq_None_iff)
  qed
  moreover have "card (ce_ID ` set es) = card (set (keys (bucket r g)))"
    using match dist shape_bucket [OF s, of g]
    by (simp add: matchesGroupLocked_def distinct_card flip: set_map)
  ultimately have all: "ce_ID ` set es = set (keys (bucket r g))" by (simp add: card_subset_eq)
  show "flat_reconcile g es (entryLocked r) c = entryLocked r c"
  proof (cases "find (\<lambda>d. ce_ID d = c) es")
    case None
    then have "c \<notin> ce_ID ` set es" by (auto simp: find_None_iff)
    then have "c \<notin> set (keys (bucket r g))" using all by simp
    then have "map_of (bucket r g) c = None" by (simp add: map_of_eq_None_iff)
    with None show ?thesis by (auto simp: flat_reconcile_def linked_lookup [OF l] split: option.splits if_splits)
  next
    case (Some d)
    then have "d \<in> set es" "ce_ID d = c" by (auto dest: find_SomeD)
    with found [of d] Some show ?thesis by (auto simp: flat_reconcile_def)
  qed
qed

text \<open>Replacing the whole bucket of one group.\<close>

definition regroup :: "nat \<Rightarrow> (nat, CredentialEntry) gomap \<Rightarrow> flat \<Rightarrow> flat" where
  "regroup g b m = (\<lambda>c. case map_of b c of
     Some e \<Rightarrow> Some e
   | None \<Rightarrow> (case m c of None \<Rightarrow> None | Some e \<Rightarrow> if ce_GroupID e = g then None else Some e))"

definition bucket_entry_ok :: "nat \<Rightarrow> CredentialRegistry \<Rightarrow> nat \<Rightarrow> CredentialEntry \<Rightarrow> bool" where
  "bucket_entry_ok g r c e \<longleftrightarrow> ce_ID e = c \<and> ce_GroupID e = g \<and> validate_entry e = None \<and> same_group g (entryLocked r) e"

lemma replace_bucket_inv:
  assumes l: "linked r"
    and bucket: "\<And>h. bucket r2 h = (if h = g then b else bucket r h)"
    and index: "\<And>c. credentialGroups r2 c =
      (if map_of b c \<noteq> None then Some g else if map_of (bucket r g) c \<noteq> None then None else credentialGroups r c)"
    and entry: "\<And>c e. map_of b c = Some e \<Longrightarrow> bucket_entry_ok g r c e"
  shows "linked r2 \<and> entryLocked r2 = regroup g b (entryLocked r)"
proof
  have elsewhere: "map_of (bucket r h) c = None" if "map_of b c = Some e" "h \<noteq> g" for c e h
    using entry [OF that(1)] that(2) by (auto simp: bucket_entry_ok_def linked_lookup [OF l] same_group_def split: option.split)
  have fwd: "ce_ID e = c \<and> ce_GroupID e = h \<and> validate_entry e = None \<and> credentialGroups r2 c = Some h"
    if e: "map_of (bucket r2 h) c = Some e" for h c e
  proof (cases "h = g")
    case True
    with e entry show ?thesis by (auto simp: bucket index bucket_entry_ok_def)
  next
    case other: False
    with e have old: "map_of (bucket r h) c = Some e" by (simp add: bucket)
    note D = linkedD(1) [OF l old]
    have "map_of b c = None" using elsewhere [OF _ other] old by (cases "map_of b c") auto
    moreover have "map_of (bucket r g) c = None"
      using linkedD(1) [OF l, of g c] D other by (cases "map_of (bucket r g) c") auto
    ultimately show ?thesis using D by (simp add: index)
  qed
  have bwd: "map_of (bucket r2 h) c \<noteq> None" if h: "credentialGroups r2 c = Some h" for h c
  proof (cases "map_of b c")
    case None
    with h have "map_of (bucket r g) c = None" "credentialGroups r c = Some h" by (auto simp: index split: if_splits)
    with linkedD(2) [OF l this(2)] show ?thesis by (auto simp: bucket)
  next
    case (Some e)
    with h show ?thesis by (simp add: index bucket)
  qed
  from fwd bwd show "linked r2" unfolding linked_def by blast
  show "entryLocked r2 = regroup g b (entryLocked r)"
  proof
    fix c show "entryLocked r2 c = regroup g b (entryLocked r) c"
    proof (cases "map_of b c")
      case None
      then show ?thesis
        by (auto simp: entryLocked_def [of r2] index bucket regroup_def linked_lookup [OF l] linked_index [OF l] split: option.split)
    qed (simp add: entryLocked_def [of r2] index bucket regroup_def)
  qed
qed

lemma reconciled_entry_ok:
  assumes l: "linked r" and ok: "entries_ok g es (entryLocked r)" and d: "d \<in> set es"
  shows "bucket_entry_ok g r (ce_ID d) (reconciled_entry (bucket r g) d)"
proof -
  have D: "validate_entry d = None" "ce_GroupID d = g" "same_group g (entryLocked r) d"
    using ok d by (auto simp: entries_ok_def ValidateCredentialEntries_None)
  have clone: "bucket_entry_ok g r (ce_ID d) (cloneCredentialEntry d)"
    using D keeps_identity_clone [of d] by (simp add: bucket_entry_ok_def keeps_identity_def same_group_def)
  have "bucket_entry_ok g r (ce_ID d) e" if "map_of (bucket r g) (ce_ID d) = Some e" for e
    using linkedD(1) [OF l that] that D by (simp add: bucket_entry_ok_def same_group_def)
  with clone show ?thesis by (simp add: reconciled_entry_def split: option.split)
qed

lemma ReconcileGroup_inv:
  assumes inv: "reg_inv r" and g: "g \<noteq> 0" and ok: "entries_ok g es (entryLocked r)"
  shows "reg_inv (snd (ReconcileGroup g es r)) \<and> entryLocked (snd (ReconcileGroup g es r)) = flat_reconcile g es (entryLocked r)
    \<and> fst (ReconcileGroup g es r) = Inr (\<not> matchesGroupLocked g es r)"
proof -
  have l: "linked r" and s: "shape r" using inv by (simp_all add: reg_inv_def)
  have check: "check_group_entries g es r = None" using ok check_group_entries_None [OF l] by simp
  show ?thesis
  proof (cases "matchesGroupLocked g es r")
    case True
    then show ?thesis using inv g check reconcile_matching [OF l ok True s] by (simp add: ReconcileGroup_def)
  next
    case False
    have dist: "distinct (map ce_ID es)" using ok by (simp add: entries_ok_def ValidateCredentialEntries_None)
    define nxt where "nxt = fold (\<lambda>d m. AList.update (ce_ID d) (reconciled_entry (bucket r g) d) m) es []"
    define r1 where "r1 = fold (\<lambda>c. set_group c None) (keys (bucket r g)) r"
    define r2 where "r2 = (if nxt = [] then delete_bucket g r1 else fold (\<lambda>c. set_group c (Some g)) (keys nxt) (set_bucket g nxt r1))"
    have result: "ReconcileGroup g es r = (Inr True, r2)"
      using g check False by (simp add: ReconcileGroup_def Let_def r2_def r1_def nxt_def)
    have nxt: "map_of nxt c = overlay (reconciled_entry (bucket r g)) es Map.empty c" for c
      unfolding nxt_def by (simp add: fold_update_map [OF dist])
    have "linked r2 \<and> entryLocked r2 = regroup g nxt (entryLocked r)"
    proof (rule replace_bucket_inv [OF l])
      show "bucket r2 h = (if h = g then nxt else bucket r h)" for h by (simp add: r2_def r1_def bucket_simps)
      show "credentialGroups r2 c =
          (if map_of nxt c \<noteq> None then Some g else if map_of (bucket r g) c \<noteq> None then None else credentialGroups r c)" for c
        by (auto simp: r2_def r1_def bucket_simps map_of_eq_None_iff)
      fix c e assume "map_of nxt c = Some e"
      then obtain d where "d \<in> set es" "ce_ID d = c" "e = reconciled_entry (bucket r g) d"
        by (auto simp: nxt overlay_def split: option.splits dest!: find_SomeD)
      then show "bucket_entry_ok g r c e" using reconciled_entry_ok [OF l ok] by blast
    qed
    moreover have "shape r2"
      using s fold_update_wf [of "[]" "reconciled_entry (bucket r g)" es]
      by (simp add: r2_def r1_def nxt_def shape_delete_bucket shape_set_bucket)
    moreover have "regroup g nxt (entryLocked r) c = flat_reconcile g es (entryLocked r) c" for c
    proof (cases "find (\<lambda>d. ce_ID d = c) es")
      case None
      then show ?thesis by (simp add: regroup_def nxt overlay_def flat_reconcile_def split: option.split)
    next
      case (Some d)
      then have "ce_ID d = c" "same_group g (entryLocked r) d" using ok by (auto simp: entries_ok_def dest!: find_SomeD)
      with Some show ?thesis
        by (auto simp: regroup_def nxt overlay_def flat_reconcile_def reconciled_entry_def linked_lookup [OF l] same_group_def
            split: option.splits)
    qed
    ultimately show ?thesis using result False by (simp add: reg_inv_def fun_eq_iff)
  qed
qed

section \<open>Removal\<close>

definition flat_remove :: "nat set \<Rightarrow> flat \<Rightarrow> flat" where
  "flat_remove C m = (\<lambda>c. if c \<in> C then None else m c)"

text \<open>Shape while the bucket of one group may be empty.\<close>

definition shape_but :: "nat \<Rightarrow> CredentialRegistry \<Rightarrow> bool" where
  "shape_but g r \<longleftrightarrow> wf_map (buckets r) \<and> (\<forall>(h, b) \<in> set (buckets r). wf_map b \<and> (h \<noteq> g \<longrightarrow> b \<noteq> []))"

lemma shape_but_set_bucket: "shape_but g r \<Longrightarrow> wf_map b \<Longrightarrow> shape_but g (set_bucket g b r)"
  using set_update_subset [of g b "buckets r"] by (fastforce simp: shape_but_def set_bucket_def)

lemma shape_but_bucket: "shape_but g r \<Longrightarrow> wf_map (bucket r h)"
  by (auto simp: shape_but_def bucket_def split: option.split dest: map_of_SomeD)

lemma shape_but_finish: "shape_but g r \<Longrightarrow> shape (if bucket r g = [] then delete_bucket g r else r)"
proof -
  assume s: "shape_but g r"
  have "bucket r g = b" if "(g, b) \<in> set (buckets r)" for b
    using s that by (simp add: shape_but_def bucket_def)
  with s show ?thesis
    by (auto simp: shape_but_def shape_def delete_bucket_def AList.delete_eq distinct_map_filter)
qed

lemma remove_loop:
  assumes "shape_but g r"
  shows "shape_but g (fold (remove_from_group g) ids r)
    \<and> map_of (bucket (fold (remove_from_group g) ids r) h) =
       (if h = g then (\<lambda>c. if c \<in> set ids then None else map_of (bucket r g) c) else map_of (bucket r h))
    \<and> (h \<noteq> g \<longrightarrow> bucket (fold (remove_from_group g) ids r) h = bucket r h)
    \<and> credentialGroups (fold (remove_from_group g) ids r) = (\<lambda>c. if c \<in> set ids then None else credentialGroups r c)"
  using assms
proof (induction ids arbitrary: r)
  case (Cons c ids)
  have "shape_but g (set_bucket g (AList.delete c (bucket r g)) r)"
    using shape_but_bucket [OF Cons.prems, of g] by (intro shape_but_set_bucket [OF Cons.prems] wf_map_delete)
  then have "shape_but g (remove_from_group g c r)" by (simp add: remove_from_group_def shape_but_def set_group_def)
  from Cons.IH [OF this] show ?case
    by (auto simp: remove_from_group_def bucket_simps fun_eq_iff)
qed auto

lemma regroup_removed:
  assumes "linked r" and "\<And>c. map_of b c = (if c \<in> C then None else map_of (bucket r g) c)"
    and "\<And>c e. c \<in> C \<Longrightarrow> entryLocked r c = Some e \<Longrightarrow> ce_GroupID e = g"
  shows "regroup g b (entryLocked r) = flat_remove C (entryLocked r)"
  using assms(2,3) by (auto simp: fun_eq_iff regroup_def flat_remove_def linked_lookup [OF assms(1)] split: option.splits)

lemma bucket_entry_old: "linked r \<Longrightarrow> map_of (bucket r g) c = Some e \<Longrightarrow> bucket_entry_ok g r c e"
  using linkedD(1) [of r g c e] by (auto simp: bucket_entry_ok_def same_group_def linked_lookup split: option.splits if_splits)

lemma index_removed:
  assumes "linked r" and "\<And>c. c \<in> C \<Longrightarrow> credentialGroups r c = Some g"
  shows "(if c \<in> C then None else credentialGroups r c) =
    (if (if c \<in> C then None else map_of (bucket r g) c) \<noteq> None then Some g
     else if map_of (bucket r g) c \<noteq> None then None else credentialGroups r c)"
  using linkedD [OF assms(1), where g = g and c = c] assms(2) [of c] by (auto split: if_splits)

lemma RemoveGroupCredentials_inv:
  assumes inv: "reg_inv r" and ok: "ids_ok g ids (entryLocked r)"
  shows "reg_inv (snd (RemoveGroupCredentials g ids r))
    \<and> entryLocked (snd (RemoveGroupCredentials g ids r)) = flat_remove (set ids) (entryLocked r)"
proof -
  have l: "linked r" and s: "shape r" using inv by (simp_all add: reg_inv_def)
  let ?r1 = "fold (remove_from_group g) ids r"
  let ?r2 = "if bucket ?r1 g = [] then delete_bucket g ?r1 else ?r1"
  have res: "snd (RemoveGroupCredentials g ids r) = ?r2"
    using ok validateGroupCredentialIDsLocked_None [OF l, of g ids] by (simp add: RemoveGroupCredentials_def Let_def)
  have "shape_but g r" using s by (auto simp: shape_def shape_but_def)
  note loop = remove_loop [OF this, of ids]
  have members: "credentialGroups r c = Some g" if "c \<in> set ids" for c
    using ok that linked_entry [OF l] by (fastforce simp: ids_ok_def)
  have "linked ?r2 \<and> entryLocked ?r2 = regroup g (bucket ?r1 g) (entryLocked r)"
  proof (rule replace_bucket_inv [OF l])
    show "bucket ?r2 h = (if h = g then bucket ?r1 g else bucket r h)" for h using loop by (auto simp: bucket_simps)
    show "credentialGroups ?r2 c = (if map_of (bucket ?r1 g) c \<noteq> None then Some g
        else if map_of (bucket r g) c \<noteq> None then None else credentialGroups r c)" for c
    proof -
      have g: "credentialGroups ?r2 c = (if c \<in> set ids then None else credentialGroups r c)"
        and b: "map_of (bucket ?r1 g) c = (if c \<in> set ids then None else map_of (bucket r g) c)"
        using loop [of g] by (simp_all add: bucket_simps)
      show ?thesis unfolding g b by (rule index_removed [OF l members])
    qed
    show "bucket_entry_ok g r c e" if "map_of (bucket ?r1 g) c = Some e" for c e
      using that loop bucket_entry_old [OF l] by (simp split: if_splits)
  qed
  moreover have "regroup g (bucket ?r1 g) (entryLocked r) = flat_remove (set ids) (entryLocked r)"
    using loop ok by (intro regroup_removed [OF l]) (auto simp: ids_ok_def)
  moreover have "shape ?r2" using loop shape_but_finish by blast
  ultimately show ?thesis unfolding res by (simp add: reg_inv_def)
qed

lemma RemoveCredential_inv:
  assumes inv: "reg_inv r"
  shows "reg_inv (snd (RemoveCredential c r)) \<and> entryLocked (snd (RemoveCredential c r)) = flat_remove {c} (entryLocked r)
    \<and> fst (RemoveCredential c r) = (entryLocked r c \<noteq> None)"
proof (cases "entryLocked r c")
  case None
  have l: "linked r" using inv by (simp add: reg_inv_def)
  show ?thesis using None inv by (auto simp: RemoveCredential_def linked_index [OF l] flat_remove_def fun_eq_iff)
next
  case (Some e)
  have l: "linked r" and s: "shape r" using inv by (simp_all add: reg_inv_def)
  let ?g = "ce_GroupID e"
  let ?b = "AList.delete c (bucket r ?g)"
  let ?r2 = "set_group c None (if ?b = [] then delete_bucket ?g r else set_bucket ?g ?b r)"
  have res: "RemoveCredential c r = (True, ?r2)"
    using Some by (simp add: RemoveCredential_def linked_index [OF l] Let_def)
  have "linked ?r2 \<and> entryLocked ?r2 = regroup ?g ?b (entryLocked r)"
  proof (rule replace_bucket_inv [OF l])
    show "bucket ?r2 h = (if h = ?g then ?b else bucket r h)" for h by (simp add: bucket_simps)
    show "credentialGroups ?r2 d = (if map_of ?b d \<noteq> None then Some ?g
        else if map_of (bucket r ?g) d \<noteq> None then None else credentialGroups r d)" for d
      using index_removed [OF l, of "{c}" ?g d] linked_entry [OF l Some] by (auto simp: bucket_simps split: if_splits)
    show "bucket_entry_ok ?g r d x" if "map_of ?b d = Some x" for d x
      using that bucket_entry_old [OF l] by (simp split: if_splits)
  qed
  moreover have "regroup ?g ?b (entryLocked r) = flat_remove {c} (entryLocked r)"
    using Some by (intro regroup_removed [OF l]) auto
  moreover have "shape ?r2"
    using s shape_bucket [OF s, of ?g] by (simp add: shape_delete_bucket shape_set_bucket wf_map_delete)
  ultimately show ?thesis unfolding res using Some by (simp add: reg_inv_def)
qed

definition in_group :: "nat \<Rightarrow> flat \<Rightarrow> nat set" where
  "in_group g m = {c. \<exists>e. m c = Some e \<and> ce_GroupID e = g}"

lemma RemoveGroup_inv:
  assumes inv: "reg_inv r"
  shows "reg_inv (snd (RemoveGroup g r)) \<and> entryLocked (snd (RemoveGroup g r)) = flat_remove (in_group g (entryLocked r)) (entryLocked r)"
proof -
  have l: "linked r" and s: "shape r" using inv by (simp_all add: reg_inv_def)
  have zero: "map_of (bucket r 0) = Map.empty"
    using linkedD(1) [OF l, of 0] by (auto simp: fun_eq_iff validate_entry_def split: if_splits) (metis not_None_eq)
  let ?r2 = "delete_bucket g (fold (\<lambda>c. set_group c None) (keys (bucket r g)) r)"
  show ?thesis
  proof (cases "g = 0 \<or> map_of (buckets r) g = None")
    case True
    then have "map_of (bucket r g) = Map.empty" using zero by (auto simp: bucket_def fun_eq_iff)
    then have "in_group g (entryLocked r) = {}"
      using linked_entry [OF l] by (fastforce simp: in_group_def)
    with True inv show ?thesis by (auto simp: RemoveGroup_def flat_remove_def)
  next
    case False
    then have res: "RemoveGroup g r = (True, ?r2)" by (auto simp: RemoveGroup_def bucket_def)
    have C: "c \<in> in_group g (entryLocked r) \<longleftrightarrow> map_of (bucket r g) c \<noteq> None" for c
      by (auto simp: in_group_def linked_lookup [OF l] split: option.splits)
    have "linked ?r2 \<and> entryLocked ?r2 = regroup g [] (entryLocked r)"
      by (rule replace_bucket_inv [OF l]) (auto simp: bucket_simps map_of_eq_None_iff)
    moreover have "regroup g [] (entryLocked r) = flat_remove (in_group g (entryLocked r)) (entryLocked r)"
    proof (rule regroup_removed [OF l])
      show "map_of [] c = (if c \<in> in_group g (entryLocked r) then None else map_of (bucket r g) c)" for c
        using C [of c] by auto
    qed (auto simp: in_group_def)
    ultimately show ?thesis unfolding res using s by (simp add: reg_inv_def shape_delete_bucket)
  qed
qed

section \<open>Operations\<close>

datatype RegOp =
    OpReplace "CredentialEntry list"
  | OpImport nat "CredentialEntry list"
  | OpRestoreExact nat "CredentialEntry list"
  | OpReconcile nat "CredentialEntry list"
  | OpRemove nat
  | OpStatuses nat "nat list" CredentialStatus
  | OpRemoveMany nat "nat list"
  | OpRemoveGroup nat
  | OpSetStatus nat CredentialStatus
  | OpUpdateConfig nat CredentialStatus "int option"
  | OpReplaceSecret nat uint64 uint64 string string
  | OpAuthState nat CredentialAuthState
  | OpQuota nat "float64 option" time
  | OpClearCooldown nat time
  | OpCooldown nat time
  | OpCooldownIfVersion nat uint64 time
  | OpBlacklist nat
  | OpAutoWeight nat int
  | OpRestoreState nat int
  | OpIncrFailure nat
  | OpClearFailure nat
  | OpRecover nat
  | OpRestoreIfMatch CredentialRef "time option" int
  | OpRestoreCheckpoint "CredentialRuntimeCheckpoint list"

text \<open>The registry after an operation; \<open>None\<close> if it panics.\<close>

fun reg_op :: "RegOp \<Rightarrow> CredentialRegistry \<Rightarrow> CredentialRegistry option" where
  "reg_op (OpReplace es) r = Some (snd (ReplaceCredentials es r))"
| "reg_op (OpImport g es) r = Some (snd (ApplyCredentialImport g es r))"
| "reg_op (OpRestoreExact g es) r = Some (snd (RestoreGroupCredentialEntriesExact g es r))"
| "reg_op (OpReconcile g es) r = Some (snd (ReconcileGroup g es r))"
| "reg_op (OpRemove c) r = Some (snd (RemoveCredential c r))"
| "reg_op (OpStatuses g ids st) r = Some (snd (UpdateGroupCredentialStatuses g ids st r))"
| "reg_op (OpRemoveMany g ids) r = Some (snd (RemoveGroupCredentials g ids r))"
| "reg_op (OpRemoveGroup g) r = Some (snd (RemoveGroup g r))"
| "reg_op (OpSetStatus c st) r = map_option snd (SetCredentialStatus c st r)"
| "reg_op (OpUpdateConfig c st w) r = Some (snd (UpdateCredentialConfig c st w r))"
| "reg_op (OpReplaceSecret c v v' fp ev) r = Some (snd (ReplaceCredentialSecretIfMatch c v v' fp ev r))"
| "reg_op (OpAuthState c st) r = Some (snd (SetCredentialAuthState c st r))"
| "reg_op (OpQuota c q t) r = Some (snd (SetCredentialQuotaObservation c q t r))"
| "reg_op (OpClearCooldown c t) r = Some (snd (ClearCooldownIfMatch c t r))"
| "reg_op (OpCooldown c t) r = Some (snd (SetCooldown c t r))"
| "reg_op (OpCooldownIfVersion c v t) r = Some (snd (SetCooldownWithChangeIfVersion c v t r))"
| "reg_op (OpBlacklist c) r = Some (snd (SetBlacklisted c r))"
| "reg_op (OpAutoWeight c w) r = Some (snd (SetAutoWeight c w r))"
| "reg_op (OpRestoreState c w) r = Some (snd (RestoreRuntimeState c w r))"
| "reg_op (OpIncrFailure c) r = Some (snd (IncrFailure c r))"
| "reg_op (OpClearFailure c) r = Some (snd (ClearFailure c r))"
| "reg_op (OpRecover c) r = Some (snd (Recover c r))"
| "reg_op (OpRestoreIfMatch ref cd w) r = Some (snd (restoreRuntimeStateIfMatch ref cd w r))"
| "reg_op (OpRestoreCheckpoint cs) r = Some (snd (RestoreRuntimeCheckpoint cs r))"

text \<open>The same operations on one flat map.\<close>

definition flat_upd :: "nat \<Rightarrow> (CredentialEntry \<Rightarrow> CredentialEntry) \<Rightarrow> flat \<Rightarrow> flat" where
  "flat_upd c f m = m(c := map_option f (m c))"

definition quota_ok :: "float64 option \<Rightarrow> time \<Rightarrow> bool" where
  "quota_ok q t \<longleftrightarrow> (case q of None \<Rightarrow> True | Some x \<Rightarrow> (\<exists>y. x = Finite y \<and> 0 \<le> y \<and> y \<le> 1) \<and> t \<noteq> 0)"

definition flat_checkpoint :: "CredentialRuntimeCheckpoint \<Rightarrow> flat \<Rightarrow> flat" where
  "flat_checkpoint c m =
     (if cc_ID c \<noteq> 0 \<and> cc_GroupID c \<noteq> 0 \<and> 0 \<le> cc_WeightAuto c \<and> cc_WeightAuto c \<le> MaxWeight \<and> 0 \<le> cc_FailureCount c
      then flat_upd (cc_ID c) (\<lambda>e. if ce_GroupID e = cc_GroupID c then restore_entry c e else e) m
      else m)"

fun flat_op :: "RegOp \<Rightarrow> flat \<Rightarrow> flat" where
  "flat_op (OpReplace es) m =
     (if ValidateCredentialEntries es = None then overlay cloneCredentialEntry es Map.empty else m)"
| "flat_op (OpImport g es) m = (if g \<noteq> 0 \<and> entries_ok g es m then overlay cloneCredentialEntry es m else m)"
| "flat_op (OpRestoreExact g es) m =
     (if g \<noteq> 0 \<and> es \<noteq> [] \<and> entries_ok g es m then overlay (\<lambda>e. e) es m else m)"
| "flat_op (OpReconcile g es) m = (if g \<noteq> 0 \<and> entries_ok g es m then flat_reconcile g es m else m)"
| "flat_op (OpRemove c) m = flat_remove {c} m"
| "flat_op (OpStatuses g ids st) m =
     (if status_valid st \<and> ids_ok g ids m then fold (\<lambda>c. flat_upd c (\<lambda>e. e\<lparr>ce_Status := st\<rparr>)) ids m else m)"
| "flat_op (OpRemoveMany g ids) m = (if ids_ok g ids m then flat_remove (set ids) m else m)"
| "flat_op (OpRemoveGroup g) m = flat_remove (in_group g m) m"
| "flat_op (OpSetStatus c st) m = (if status_valid st then flat_upd c (\<lambda>e. e\<lparr>ce_Status := st\<rparr>) m else m)"
| "flat_op (OpUpdateConfig c st w) m =
     (if status_valid st \<and> validateManualWeight w
      then flat_upd c (\<lambda>e. e\<lparr>ce_Status := st, ce_WeightManual := w\<rparr>) m else m)"
| "flat_op (OpReplaceSecret c v v' fp ev) m =
     (if 0 < v \<and> v < v' \<and> TrimSpace fp \<noteq> [] \<and> ev \<noteq> []
      then flat_upd c (\<lambda>e. if ce_Version e = v then e\<lparr>ce_Version := v', ce_Fingerprint := fp, ce_EncryptedValue := ev,
             ce_AuthState := CredentialAuthStateReady\<rparr> else e) m else m)"
| "flat_op (OpAuthState c st) m =
     (if AuthState_valid st
      then flat_upd c (\<lambda>e. if AuthState_normalize st = CredentialAuthStateReady then e\<lparr>ce_AuthState := CredentialAuthStateReady\<rparr>
             else e\<lparr>ce_AuthState := st, ce_quotaRemaining := None, ce_quotaResetAt := 0\<rparr>) m else m)"
| "flat_op (OpQuota c q t) m =
     (if quota_ok q t
      then flat_upd c (\<lambda>e. e\<lparr>ce_quotaRemaining := q, ce_quotaResetAt := (if q = None then 0 else t)\<rparr>) m else m)"
| "flat_op (OpClearCooldown c t) m =
     (if t \<noteq> 0 then flat_upd c (\<lambda>e. if ce_CooldownUntil e = t then e\<lparr>ce_CooldownUntil := 0\<rparr> else e) m else m)"
| "flat_op (OpCooldown c t) m = flat_upd c (\<lambda>e. e\<lparr>ce_CooldownUntil := max (ce_CooldownUntil e) t\<rparr>) m"
| "flat_op (OpCooldownIfVersion c v t) m =
     flat_upd c (\<lambda>e. if ce_Version e = v then e\<lparr>ce_CooldownUntil := max (ce_CooldownUntil e) t\<rparr> else e) m"
| "flat_op (OpBlacklist c) m =
     flat_upd c (\<lambda>e. if ce_Blacklisted e then e
       else e\<lparr>ce_Blacklisted := True, ce_FailureGeneration := ce_FailureGeneration e + 1\<rparr>) m"
| "flat_op (OpAutoWeight c w) m = (if 1 \<le> w \<and> w \<le> MaxWeight then flat_upd c (\<lambda>e. e\<lparr>ce_WeightAuto := w\<rparr>) m else m)"
| "flat_op (OpRestoreState c w) m =
     (if 1 \<le> w \<and> w \<le> MaxWeight then flat_upd c (\<lambda>e. (healthy_entry w e)\<lparr>ce_CooldownUntil := 0\<rparr>) m else m)"
| "flat_op (OpIncrFailure c) m =
     flat_upd c (\<lambda>e. e\<lparr>ce_FailureCount := wrap64 (ce_FailureCount e + 1), ce_FailureGeneration := ce_FailureGeneration e + 1\<rparr>) m"
| "flat_op (OpClearFailure c) m =
     flat_upd c (\<lambda>e. if ce_FailureCount e = 0 then e
       else e\<lparr>ce_FailureCount := 0, ce_FailureGeneration := ce_FailureGeneration e + 1\<rparr>) m"
| "flat_op (OpRecover c) m =
     flat_upd c (\<lambda>e. if \<not> ce_Blacklisted e \<and> ce_FailureCount e = 0 then e
       else e\<lparr>ce_Blacklisted := False, ce_FailureCount := 0, ce_FailureGeneration := ce_FailureGeneration e + 1\<rparr>) m"
| "flat_op (OpRestoreIfMatch ref cd w) m =
     (if 1 \<le> w \<and> w \<le> MaxWeight
      then flat_upd (cr_ID ref) (\<lambda>e.
        if ce_Status e = CredentialStatusActive \<and> ce_Blacklisted e \<and> entry_ref e = ref
           \<and> (cd = None \<or> cd = Some (ce_CooldownUntil e))
        then (healthy_entry w e)\<lparr>ce_CooldownUntil := (if cd = None then ce_CooldownUntil e else 0)\<rparr> else e) m
      else m)"
| "flat_op (OpRestoreCheckpoint cs) m = fold flat_checkpoint cs m"

definition refines :: "RegOp \<Rightarrow> CredentialRegistry \<Rightarrow> bool" where
  "refines oper r \<longleftrightarrow> (\<exists>r'. reg_op oper r = Some r' \<and> reg_inv r' \<and> entryLocked r' = flat_op oper (entryLocked r))"

text \<open>An operation that modifies at most one entry.\<close>

lemma flat_upd_id: "(\<And>e. m c = Some e \<Longrightarrow> f e = e) \<Longrightarrow> flat_upd c f m = m"
  by (cases "m c") (auto simp: flat_upd_def fun_eq_iff)

lemma flat_upd_absent: "m c = None \<Longrightarrow> flat_upd c f m = m"
  by (rule flat_upd_id) simp

lemma refines_single:
  assumes inv: "reg_inv r"
    and oper: "reg_op oper r = Some (case entryLocked r c of None \<Rightarrow> r | Some e \<Rightarrow> if G \<and> P e then modify_entry c f r else r)"
    and flat: "flat_op oper (entryLocked r) = (if G then flat_upd c h (entryLocked r) else entryLocked r)"
    and f: "\<And>e. G \<Longrightarrow> P e \<Longrightarrow> keeps_identity f e" and h: "\<And>e. G \<Longrightarrow> h e = (if P e then f e else e)"
  shows "refines oper r"
proof (cases "\<exists>e. entryLocked r c = Some e \<and> G \<and> P e")
  case True
  then obtain e where e: "entryLocked r c = Some e" "G" "P e" by blast
  then have "reg_inv (modify_entry c f r) \<and> entryLocked (modify_entry c f r) = (entryLocked r)(c := map_option f (entryLocked r c))"
    using f by (intro modify_entry_inv [OF inv]) auto
  with e oper flat h show ?thesis by (simp add: refines_def flat_upd_def)
next
  case False
  then have "flat_op oper (entryLocked r) = entryLocked r" using flat h by (auto intro!: flat_upd_id)
  moreover have "reg_op oper r = Some r" using oper False by (auto split: option.splits)
  ultimately show ?thesis using inv by (simp add: refines_def)
qed

lemmas identity_simps = keeps_identity_def validate_entry_def healthy_entry_def restore_entry_def Let_def

lemma max_update [simp]: "ce_CooldownUntil e \<ge> t \<Longrightarrow> e\<lparr>ce_CooldownUntil := max (ce_CooldownUntil e) t\<rparr> = e"
  by (cases e) simp

lemma config_ops_refine:
  assumes inv: "reg_inv r"
  shows "refines (OpUpdateConfig c st w) r" and "refines (OpReplaceSecret c v v' fp ev) r" and "refines (OpAuthState c st') r"
    and "refines (OpQuota c q t) r"
proof -
  note single = refines_single [OF inv]
  show "refines (OpUpdateConfig c st w) r"
    by (rule single [where c = c and G = "status_valid st \<and> validateManualWeight w" and P = "\<lambda>_. True"
          and f = "\<lambda>e. e\<lparr>ce_Status := st, ce_WeightManual := w\<rparr>"])
      (auto simp: UpdateCredentialConfig_def identity_simps split: option.split)
  have zero: "entryLocked r 0 = None"
    using linked_entry [of r 0] inv by (cases "entryLocked r 0") (auto simp: reg_inv_def validate_entry_def split: if_splits)
  show "refines (OpReplaceSecret c v v' fp ev) r"
    by (rule single [where c = c and G = "0 < v \<and> v < v' \<and> TrimSpace fp \<noteq> [] \<and> ev \<noteq> []" and P = "\<lambda>e. ce_Version e = v"
          and f = "\<lambda>e. e\<lparr>ce_Version := v', ce_Fingerprint := fp, ce_EncryptedValue := ev, ce_AuthState := CredentialAuthStateReady\<rparr>"])
      (auto simp: ReplaceCredentialSecretIfMatch_def identity_simps zero AuthState_valid_def AuthState_normalize_def word_gt_0 not_le split: option.split)
  show "refines (OpAuthState c st') r"
    by (rule single [where c = c and G = "AuthState_valid st'" and P = "\<lambda>_. True"
          and f = "\<lambda>e. let e1 = e\<lparr>ce_AuthState := AuthState_normalize st'\<rparr>
              in if ce_AuthState e1 \<noteq> CredentialAuthStateReady
                 then e1\<lparr>ce_quotaRemaining := None, ce_quotaResetAt := 0\<rparr> else e1"
          and h = "\<lambda>e. if AuthState_normalize st' = CredentialAuthStateReady then e\<lparr>ce_AuthState := CredentialAuthStateReady\<rparr>
             else e\<lparr>ce_AuthState := st', ce_quotaRemaining := None, ce_quotaResetAt := 0\<rparr>"])
      (auto simp: SetCredentialAuthState_def identity_simps AuthState_valid_def AuthState_normalize_def split: option.split)
  have quota: "quota_ok q t \<longleftrightarrow> \<not> (case q of None \<Rightarrow> False
               | Some q \<Rightarrow> q = NaN \<or> (\<exists>neg \<in> {True, False}. q = Infinite neg)
                   \<or> float_less q (Finite 0) \<or> float_less (Finite 1) q \<or> IsZero t)"
    by (cases "the q") (auto simp: quota_ok_def IsZero_def split: option.split)
  show "refines (OpQuota c q t) r"
    by (rule single [where c = c and G = "quota_ok q t" and P = "\<lambda>_. True"
          and f = "\<lambda>e. e\<lparr>ce_quotaRemaining := q, ce_quotaResetAt := (case q of None \<Rightarrow> 0 | Some _ \<Rightarrow> t)\<rparr>"])
      (auto simp: SetCredentialQuotaObservation_def quota identity_simps zero split: option.split)
qed

lemma health_ops_refine:
  assumes inv: "reg_inv r"
  shows "refines (OpClearCooldown c t) r" and "refines (OpCooldown c t) r"
    and "refines (OpCooldownIfVersion c v t) r" and "refines (OpBlacklist c) r" and "refines (OpAutoWeight c wa) r"
    and "refines (OpRestoreState c wa) r" and "refines (OpIncrFailure c) r" and "refines (OpClearFailure c) r"
    and "refines (OpRecover c) r"
proof -
  note single = refines_single [OF inv]
  show "refines (OpClearCooldown c t) r"
    by (rule single [where c = c and G = "t \<noteq> 0" and P = "\<lambda>e. ce_CooldownUntil e = t" and f = "\<lambda>e. e\<lparr>ce_CooldownUntil := 0\<rparr>"])
      (auto simp: ClearCooldownIfMatch_def IsZero_def identity_simps split: option.split)
  show "refines (OpCooldown c t) r"
    by (rule single [where c = c and G = True and P = "\<lambda>e. ce_CooldownUntil e < t" and f = "\<lambda>e. e\<lparr>ce_CooldownUntil := t\<rparr>"
          and h = "\<lambda>e. e\<lparr>ce_CooldownUntil := max (ce_CooldownUntil e) t\<rparr>"])
      (auto simp: SetCooldown_def SetCooldownWithChange_def After_def identity_simps split: option.split)
  show "refines (OpCooldownIfVersion c v t) r"
    by (rule single [where c = c and G = True and P = "\<lambda>e. ce_Version e = v \<and> ce_CooldownUntil e < t" and f = "\<lambda>e. e\<lparr>ce_CooldownUntil := t\<rparr>"
          and h = "\<lambda>e. if ce_Version e = v then e\<lparr>ce_CooldownUntil := max (ce_CooldownUntil e) t\<rparr> else e"])
      (auto simp: SetCooldownWithChangeIfVersion_def After_def identity_simps split: option.split)
  show "refines (OpBlacklist c) r"
    by (rule single [where c = c and G = True and P = "\<lambda>e. \<not> ce_Blacklisted e"
          and f = "\<lambda>e. e\<lparr>ce_Blacklisted := True, ce_FailureGeneration := ce_FailureGeneration e + 1\<rparr>"
          and h = "\<lambda>e. if ce_Blacklisted e then e else e\<lparr>ce_Blacklisted := True, ce_FailureGeneration := ce_FailureGeneration e + 1\<rparr>"])
      (auto simp: SetBlacklisted_def SetBlacklistedWithChange_def identity_simps split: option.split)
  show "refines (OpAutoWeight c wa) r"
    by (rule single [where c = c and G = "1 \<le> wa \<and> wa \<le> MaxWeight" and P = "\<lambda>_. True" and f = "\<lambda>e. e\<lparr>ce_WeightAuto := wa\<rparr>"])
      (auto simp: SetAutoWeight_def identity_simps split: option.split)
  show "refines (OpRestoreState c wa) r"
    by (rule single [where c = c and G = "1 \<le> wa \<and> wa \<le> MaxWeight" and P = "\<lambda>_. True"
          and f = "\<lambda>e. (healthy_entry wa e)\<lparr>ce_CooldownUntil := 0\<rparr>"])
      (auto simp: RestoreRuntimeState_def identity_simps split: option.split)
  show "refines (OpIncrFailure c) r"
    by (rule single [where c = c and G = True and P = "\<lambda>_. True"
          and f = "\<lambda>e. e\<lparr>ce_FailureCount := wrap64 (ce_FailureCount e + 1), ce_FailureGeneration := ce_FailureGeneration e + 1\<rparr>"])
      (auto simp: IncrFailure_def identity_simps split: option.split)
  show "refines (OpClearFailure c) r"
    by (rule single [where c = c and G = True and P = "\<lambda>e. ce_FailureCount e \<noteq> 0"
          and f = "\<lambda>e. e\<lparr>ce_FailureCount := 0, ce_FailureGeneration := ce_FailureGeneration e + 1\<rparr>"
          and h = "\<lambda>e. if ce_FailureCount e = 0 then e
            else e\<lparr>ce_FailureCount := 0, ce_FailureGeneration := ce_FailureGeneration e + 1\<rparr>"])
      (auto simp: ClearFailure_def identity_simps split: option.split)
  show "refines (OpRecover c) r"
    by (rule single [where c = c and G = True and P = "\<lambda>e. ce_Blacklisted e \<or> ce_FailureCount e \<noteq> 0"
          and f = "\<lambda>e. e\<lparr>ce_Blacklisted := False, ce_FailureCount := 0, ce_FailureGeneration := ce_FailureGeneration e + 1\<rparr>"
          and h = "\<lambda>e. if \<not> ce_Blacklisted e \<and> ce_FailureCount e = 0 then e
            else e\<lparr>ce_Blacklisted := False, ce_FailureCount := 0, ce_FailureGeneration := ce_FailureGeneration e + 1\<rparr>"])
      (auto simp: Recover_def identity_simps split: option.split)
qed

lemma entry_ref_eq: "entry_ref e = ref \<longleftrightarrow>
    ce_ID e = cr_ID ref \<and> ref_matches ref e \<and> ce_FailureGeneration e = cr_FailureGeneration ref"
  by (cases ref) (auto simp: entry_ref_def ref_matches_def)

lemma restoreIfMatch_refines:
  assumes inv: "reg_inv r"
  shows "refines (OpRestoreIfMatch ref cd w) r"
proof -
  have l: "linked r" using inv by (simp add: reg_inv_def)
  let ?P = "\<lambda>e. ce_Status e = CredentialStatusActive \<and> ce_Blacklisted e \<and> entry_ref e = ref
    \<and> (cd = None \<or> cd = Some (ce_CooldownUntil e))"
  let ?f = "\<lambda>e. (healthy_entry w e)\<lparr>ce_CooldownUntil := (if cd = None then ce_CooldownUntil e else 0)\<rparr>"
  have f: "(healthy_entry w e)\<lparr>ce_CooldownUntil := ce_CooldownUntil e\<rparr> = healthy_entry w e" for e
    by (cases e) (simp add: healthy_entry_def)
  show ?thesis
  proof (rule refines_single [OF inv, where c = "cr_ID ref" and G = "1 \<le> w \<and> w \<le> MaxWeight" and P = ?P and f = ?f])
    show "reg_op (OpRestoreIfMatch ref cd w) r = Some (case entryLocked r (cr_ID ref) of None \<Rightarrow> r
        | Some e \<Rightarrow> if (1 \<le> w \<and> w \<le> MaxWeight) \<and> ?P e then modify_entry (cr_ID ref) ?f r else r)"
    proof (cases "entryLocked r (cr_ID ref)")
      case None
      then show ?thesis by (simp add: restoreRuntimeStateIfMatch_def linked_index [OF l])
    next
      case (Some e)
      note e = linked_entry [OF l Some]
      have m: "modify_entry (cr_ID ref) ?f r = put_entry (ce_GroupID e) (cr_ID ref) (?f e) r"
        using e by (simp add: modify_entry_def)
      show ?thesis
        using Some e unfolding m
        by (cases cd) (auto simp: restoreRuntimeStateIfMatch_def f entry_ref_eq ref_matches_def)
    qed
  qed (auto simp: identity_simps)
qed

lemma set_status_refines:
  assumes inv: "reg_inv r"
  shows "refines (OpSetStatus c st) r"
proof -
  have l: "linked r" using inv by (simp add: reg_inv_def)
  show ?thesis
  proof (rule refines_single [OF inv, where c = c and G = "status_valid st" and P = "\<lambda>_. True" and f = "\<lambda>e. e\<lparr>ce_Status := st\<rparr>"])
    show "reg_op (OpSetStatus c st) r = Some (case entryLocked r c of None \<Rightarrow> r
        | Some e \<Rightarrow> if status_valid st \<and> True then modify_entry c (\<lambda>e. e\<lparr>ce_Status := st\<rparr>) r else r)"
      using linked_entry [OF l, of c]
      by (cases "entryLocked r c") (auto simp: SetCredentialStatus_def linked_index [OF l] modify_entry_def)
  qed (auto simp: identity_simps)
qed

lemma statuses_refines:
  assumes inv: "reg_inv r"
  shows "refines (OpStatuses g ids st) r"
proof -
  have l: "linked r" using inv by (simp add: reg_inv_def)
  have loop: "reg_inv (fold (\<lambda>c. modify_entry c (\<lambda>e. e\<lparr>ce_Status := st\<rparr>)) ids r)
      \<and> entryLocked (fold (\<lambda>c. modify_entry c (\<lambda>e. e\<lparr>ce_Status := st\<rparr>)) ids r) =
        fold (\<lambda>c. flat_upd c (\<lambda>e. e\<lparr>ce_Status := st\<rparr>)) ids (entryLocked r)" if "status_valid st"
    using inv
  proof (induction ids arbitrary: r)
    case (Cons c ids)
    have "reg_inv (modify_entry c (\<lambda>e. e\<lparr>ce_Status := st\<rparr>) r)
      \<and> entryLocked (modify_entry c (\<lambda>e. e\<lparr>ce_Status := st\<rparr>) r) = flat_upd c (\<lambda>e. e\<lparr>ce_Status := st\<rparr>) (entryLocked r)"
      unfolding flat_upd_def using that by (intro modify_entry_inv [OF Cons.prems]) (auto simp: identity_simps)
    with Cons.IH show ?case by auto
  qed simp
  show ?thesis
    using loop inv validateGroupCredentialIDsLocked_None [OF l, of g ids]
    by (cases "validateGroupCredentialIDsLocked g ids r") (auto simp: refines_def UpdateGroupCredentialStatuses_def)
qed

lemma checkpoint_refines:
  assumes "reg_inv r"
  shows "reg_inv (snd (RestoreRuntimeCheckpoint cs r))
    \<and> entryLocked (snd (RestoreRuntimeCheckpoint cs r)) = fold flat_checkpoint cs (entryLocked r)"
  using assms
proof (induction cs arbitrary: r)
  case (Cons c cs)
  have l: "linked r" using Cons.prems by (simp add: reg_inv_def)
  let ?ok = "cc_ID c \<noteq> 0 \<and> cc_GroupID c \<noteq> 0 \<and> 0 \<le> cc_WeightAuto c \<and> cc_WeightAuto c \<le> MaxWeight \<and> 0 \<le> cc_FailureCount c"
  show ?case
  proof (cases "?ok \<and> (\<exists>e. entryLocked r (cc_ID c) = Some e \<and> ce_GroupID e = cc_GroupID c)")
    case True
    then obtain e where e: "entryLocked r (cc_ID c) = Some e" "ce_GroupID e = cc_GroupID c" by blast
    let ?r1 = "put_entry (ce_GroupID e) (cc_ID c) (restore_entry c e) r"
    have flat: "flat_checkpoint c (entryLocked r) = (entryLocked r)(cc_ID c \<mapsto> restore_entry c e)"
      using True e by (simp add: flat_checkpoint_def flat_upd_def)
    have "reg_inv ?r1 \<and> entryLocked ?r1 = flat_checkpoint c (entryLocked r)"
      unfolding flat
      using linked_entry [OF l e(1)] True by (intro registry_put_entry_inv [OF Cons.prems]) (auto simp: identity_simps split: if_splits)
    moreover have "snd (RestoreRuntimeCheckpoint (c # cs) r) = snd (RestoreRuntimeCheckpoint cs ?r1)"
      using True e linked_entry [OF l e(1)] by (auto simp: split_beta Let_def)
    ultimately show ?thesis using Cons.IH [of ?r1] by (simp del: RestoreRuntimeCheckpoint.simps)
  next
    case False
    then have "flat_checkpoint c (entryLocked r) = entryLocked r"
      by (auto simp: flat_checkpoint_def intro!: flat_upd_id)
    moreover have "snd (RestoreRuntimeCheckpoint (c # cs) r) = snd (RestoreRuntimeCheckpoint cs r)"
      using False by (auto simp: linked_index [OF l] linked_lookup [OF l] split: option.split)
    ultimately show ?thesis using Cons by simp
  qed
qed simp

lemma insert_ops_refine:
  assumes inv: "reg_inv r"
  shows "refines (OpReplace es) r" and "refines (OpImport g es) r" and "refines (OpRestoreExact g es) r" and "refines (OpReconcile g es) r"
proof -
  have l: "linked r" using inv by (simp add: reg_inv_def)
  note check = check_group_entries_None [OF l, of g es]
  have exact: "keeps_identity (\<lambda>e. e) e" for e by (simp add: keeps_identity_def)
  have ok: "validate_entry e = None \<and> same_group (ce_GroupID e) (entryLocked r) e" "distinct (map ce_ID es)"
    if "entries_ok g es (entryLocked r)" "e \<in> set es" for e
    using that by (auto simp: entries_ok_def ValidateCredentialEntries_None)
  have dist: "distinct (map ce_ID es)" if "entries_ok g es (entryLocked r)"
    using that by (simp add: entries_ok_def ValidateCredentialEntries_None)
  show "refines (OpReplace es) r"
    using inv insert_all_inv [OF reg_inv_new keeps_identity_clone, of es] ValidateCredentialEntries_None [of es]
    by (cases "ValidateCredentialEntries es")
      (auto simp: refines_def ReplaceCredentials_def insert_clone_as entryLocked_new same_group_def)
  show "refines (OpImport g es) r"
    using inv check insert_all_inv [OF inv keeps_identity_clone, of es] ok(1) dist
    by (cases "check_group_entries g es r") (auto simp: refines_def ApplyCredentialImport_def insert_clone_as)
  show "refines (OpRestoreExact g es) r"
    using inv check insert_all_inv [OF inv exact, of es] ok(1) dist
    by (cases "check_group_entries g es r") (auto simp: refines_def RestoreGroupCredentialEntriesExact_def insert_exact_as)
  show "refines (OpReconcile g es) r"
    using inv check ReconcileGroup_inv [OF inv, of g es]
    by (cases "check_group_entries g es r") (auto simp: refines_def ReconcileGroup_def)
qed

lemma remove_ops_refine:
  assumes inv: "reg_inv r"
  shows "refines (OpRemove c) r" and "refines (OpRemoveMany g ids) r" and "refines (OpRemoveGroup g) r"
proof -
  have l: "linked r" using inv by (simp add: reg_inv_def)
  show "refines (OpRemove c) r" using RemoveCredential_inv [OF inv] by (simp add: refines_def)
  show "refines (OpRemoveMany g ids) r"
    using inv RemoveGroupCredentials_inv [OF inv, of g ids] validateGroupCredentialIDsLocked_None [OF l, of g ids]
    by (cases "validateGroupCredentialIDsLocked g ids r") (auto simp: refines_def RemoveGroupCredentials_def)
  show "refines (OpRemoveGroup g) r" using RemoveGroup_inv [OF inv] by (simp add: refines_def)
qed

lemma reg_op_refines: "reg_inv r \<Longrightarrow> refines oper r"
proof (cases oper)
  case (OpRestoreCheckpoint cs)
  moreover assume "reg_inv r"
  ultimately show ?thesis using checkpoint_refines [of r cs] by (simp add: refines_def)
qed (simp_all add: config_ops_refine health_ops_refine restoreIfMatch_refines set_status_refines statuses_refines
      insert_ops_refine remove_ops_refine)

end
