(* ===== verification/Registry_Properties.thy ===== *)
theory Registry_Properties
  imports Registry_Spec "HOL-Library.Multiset"
begin

text \<open>
  What the credential registry promises in every reachable state: it behaves as
  one flat map, its two indexes agree, reconciliation keeps the health of
  unchanged credentials, stale probes revive nothing, and checkpoints and
  snapshots restore what they captured.
\<close>

section \<open>Runs\<close>

fun run_from :: "CredentialRegistry \<Rightarrow> RegOp list \<Rightarrow> CredentialRegistry option" where
  "run_from r [] = Some r"
| "run_from r (oper # ops) = (case reg_op oper r of None \<Rightarrow> None | Some r' \<Rightarrow> run_from r' ops)"

definition run_registry :: "RegOp list \<Rightarrow> CredentialRegistry option" where
  "run_registry ops = run_from NewCredentialRegistry ops"

lemma run_from_refines:
  assumes "reg_inv r"
  shows "\<exists>r'. run_from r ops = Some r' \<and> reg_inv r' \<and> entryLocked r' = fold flat_op ops (entryLocked r)"
  using assms
proof (induction ops arbitrary: r)
  case (Cons oper ops)
  from reg_op_refines [OF Cons.prems, of oper]
  obtain r1 where r1: "reg_op oper r = Some r1" "reg_inv r1" "entryLocked r1 = flat_op oper (entryLocked r)"
    by (auto simp: refines_def)
  from Cons.IH [OF r1(2)] r1 show ?case by auto
qed simp

lemma run_registry_inv:
  assumes "run_registry ops = Some r"
  shows "reg_inv r \<and> entryLocked r = fold flat_op ops Map.empty"
  using assms run_from_refines [OF reg_inv_new, of ops] by (auto simp: run_registry_def entryLocked_new)

text \<open>
  Property C8. No sequence of operations makes the registry panic, and after any
  sequence the nested buckets with their index hold exactly the entries that the
  same operations leave in one flat map from credentials to entries. In the flat
  map a cooldown only moves forward, a group import or reconciliation is refused as
  a whole unless every entry is valid and free or already in the group, and a
  conditional recovery applies only to the entry it was captured from.
\<close>

theorem registry_refines_flat_map:
  "\<exists>r. run_registry ops = Some r \<and> entryLocked r = fold flat_op ops Map.empty"
  using run_from_refines [OF reg_inv_new, of ops] by (auto simp: run_registry_def entryLocked_new)

section \<open>The entries that are ranged over\<close>

lemma set_all_entries:
  assumes inv: "reg_inv r"
  shows "e \<in> set (all_entries r) \<longleftrightarrow> entryLocked r (ce_ID e) = Some e"
proof -
  have l: "linked r" and s: "shape r" using inv by (simp_all add: reg_inv_def)
  have b: "(g, b) \<in> set (buckets r) \<Longrightarrow> bucket r g = b" for g b
    using s by (simp add: shape_def bucket_def)
  have lookup: "(c, e) \<in> set (bucket r g) \<longleftrightarrow> map_of (bucket r g) c = Some e" for c e g
    using shape_bucket [OF s] by simp
  show ?thesis
  proof
    assume "e \<in> set (all_entries r)"
    then obtain g b c where gb: "(g, b) \<in> set (buckets r)" and "(c, e) \<in> set b" by (auto simp: all_entries_def)
    then have m: "map_of (bucket r g) c = Some e" using b [OF gb] lookup by metis
    with linkedD(1) [OF l this] show "entryLocked r (ce_ID e) = Some e" by (simp add: entryLocked_def)
  next
    assume "entryLocked r (ce_ID e) = Some e"
    from linked_entry [OF l this] have m: "map_of (bucket r (ce_GroupID e)) (ce_ID e) = Some e" by simp
    then obtain b where "map_of (buckets r) (ce_GroupID e) = Some b" "map_of b (ce_ID e) = Some e"
      by (auto simp: bucket_def split: option.splits)
    then show "e \<in> set (all_entries r)" unfolding all_entries_def by (force dest: map_of_SomeD)
  qed
qed

lemma distinct_concat_buckets:
  assumes "wf_map bs" and "\<And>g b. (g, b) \<in> set bs \<Longrightarrow> wf_map b"
    and "\<And>g b c e. (g, b) \<in> set bs \<Longrightarrow> (c, e) \<in> set b \<Longrightarrow> ce_ID e = c \<and> G c = Some g"
  shows "distinct (map ce_ID (concat (map (\<lambda>(g, b). map snd b) bs)))"
  using assms
proof (induction bs)
  case (Cons p bs)
  obtain g b where p: "p = (g, b)" by (cases p)
  have b: "wf_map b" and in_b: "\<And>c e. (c, e) \<in> set b \<Longrightarrow> ce_ID e = c \<and> G c = Some g"
    using Cons.prems(2,3) [of g b] p by auto
  have ids: "map ce_ID (map snd b) = keys b" using in_b by (auto simp: map_eq_conv)
  have "distinct (map ce_ID (concat (map (\<lambda>(g, b). map snd b) bs)))"
  proof (rule Cons.IH)
    show "wf_map bs" using Cons.prems(1) by simp
    show "\<And>g b. (g, b) \<in> set bs \<Longrightarrow> wf_map b" using Cons.prems(2) by (meson list.set_intros(2))
    show "\<And>g b c e. (g, b) \<in> set bs \<Longrightarrow> (c, e) \<in> set b \<Longrightarrow> ce_ID e = c \<and> G c = Some g"
      using Cons.prems(3) by (meson list.set_intros(2))
  qed
  moreover have "ce_ID ` snd ` set b \<inter> ce_ID ` (\<Union>(h, b') \<in> set bs. snd ` set b') = {}"
  proof (rule ccontr)
    assume "ce_ID ` snd ` set b \<inter> ce_ID ` (\<Union>(h, b') \<in> set bs. snd ` set b') \<noteq> {}"
    then obtain c e h b' c' e' where x: "(c, e) \<in> set b" "(h, b') \<in> set bs" "(c', e') \<in> set b'" "ce_ID e = ce_ID e'" by force
    then have "G (ce_ID e) = Some g" "G (ce_ID e') = Some h" using in_b Cons.prems(3) [of h b' c' e'] by auto
    with x have "h = g" by simp
    with x(2) Cons.prems(1) p show False by force
  qed
  moreover have "set (keys b) = ce_ID ` snd ` set b" by (metis ids set_map)
  moreover have "map ce_ID (concat (map (\<lambda>(g, b). map snd b) (p # bs))) = keys b @ map ce_ID (concat (map (\<lambda>(g, b). map snd b) bs))"
    using ids p by simp
  moreover have "set (map ce_ID (concat (map (\<lambda>(g, b). map snd b) bs))) = ce_ID ` (\<Union>(h, b') \<in> set bs. snd ` set b')" by auto
  ultimately show ?case using b by (metis distinct_append)
qed simp

lemma distinct_all_entries:
  assumes inv: "reg_inv r"
  shows "distinct (map ce_ID (all_entries r))"
  unfolding all_entries_def
proof (rule distinct_concat_buckets [where G = "credentialGroups r"])
  have l: "linked r" and s: "shape r" using inv by (simp_all add: reg_inv_def)
  show "wf_map (buckets r)" "\<And>g b. (g, b) \<in> set (buckets r) \<Longrightarrow> wf_map b" using s by (auto simp: shape_def)
  fix g b c e assume "(g, b) \<in> set (buckets r)" "(c, e) \<in> set b"
  then have "map_of (bucket r g) c = Some e" using s by (auto simp: shape_def bucket_def)
  from linkedD(1) [OF l this] show "ce_ID e = c \<and> credentialGroups r c = Some g" by simp
qed

section \<open>Consistency\<close>

text \<open>A configured credential of group 3, for the examples below.\<close>

definition sample_entry :: CredentialEntry where
  "sample_entry = \<lparr>ce_ID = 7, ce_GroupID = 3, ce_Version = 1, ce_IdentityGeneration = 1, ce_Fingerprint = ''fp'',
     ce_WeightManual = None, ce_WeightAuto = 0, ce_Status = CredentialStatusActive, ce_AuthState = CredentialAuthStateEmpty,
     ce_CooldownUntil = 0, ce_Blacklisted = False, ce_FailureCount = 0, ce_FailureGeneration = 0,
     ce_EncryptedValue = ''x'', ce_EncryptedProxy = [], ce_ProxyFingerprint = [], ce_quotaRemaining = None, ce_quotaResetAt = 0\<rparr>"

definition sample_registry :: CredentialRegistry where
  "sample_registry = the (run_registry [OpReplace [sample_entry], OpIncrFailure 7, OpBlacklist 7])"

lemma sample_run: "run_registry [OpReplace [sample_entry], OpIncrFailure 7, OpBlacklist 7] = Some sample_registry"
  using run_from_refines [OF reg_inv_new] by (force simp: sample_registry_def run_registry_def)

text \<open>
  Property C31. Every reachable registry is consistent. An entry sits in exactly one
  bucket, the one the index names, under its own group and identifier, and passes
  validation; every indexed credential has an entry, so the two methods that
  dereference an entry unchecked return; and no bucket is empty.
\<close>

theorem registry_consistent:
  assumes "run_registry ops = Some r"
  shows "(map_of (bucket r g) c = Some e \<longrightarrow> ce_ID e = c \<and> ce_GroupID e = g \<and> validate_entry e = None \<and> credentialGroups r c = Some g)
    \<and> (credentialGroups r c = Some g \<longrightarrow> map_of (bucket r g) c \<noteq> None)
    \<and> EncryptedCredentialData c r = Some (map_option ce_EncryptedValue (entryLocked r c))
    \<and> SetCredentialStatus c st r \<noteq> None
    \<and> [] \<notin> snd ` set (buckets r)"
proof -
  have inv: "linked r" "shape r" using run_registry_inv [OF assms] by (simp_all add: reg_inv_def)
  have enc: "EncryptedCredentialData c r = Some (map_option ce_EncryptedValue (entryLocked r c))"
    using linked_entry [OF inv(1), of c]
    by (cases "entryLocked r c") (auto simp: EncryptedCredentialData_def linked_index [OF inv(1)])
  have "SetCredentialStatus c st r \<noteq> None"
    using linkedD(2) [OF inv(1), of c] by (auto simp: SetCredentialStatus_def split: option.split)
  moreover have "[] \<notin> snd ` set (buckets r)" using inv(2) by (auto simp: shape_def)
  ultimately show ?thesis using enc linkedD [OF inv(1)] by blast
qed

theorem registry_consistent_witness:
  "EncryptedCredentialData 7 sample_registry = Some (Some ''x'')"
proof -
  have "entryLocked sample_registry 7 \<noteq> None \<and> map_option ce_EncryptedValue (entryLocked sample_registry 7) = Some ''x''"
    by code_simp
  then show ?thesis using registry_consistent [OF sample_run, of 3 7 sample_entry CredentialStatusActive] by simp
qed

section \<open>Reconciliation\<close>

lemma same_persisted_refl [simp]: "samePersistedCredentialConfig e e"
  by (simp add: samePersistedCredentialConfig_def)

lemma same_persisted_clone [simp]: "samePersistedCredentialConfig (cloneCredentialEntry d) d"
  by (simp add: samePersistedCredentialConfig_def cloneCredentialEntry_def)

lemma reconciled_matches:
  assumes inv: "reg_inv r'" and ok: "entries_ok g es m" and flat: "entryLocked r' = flat_reconcile g es m"
  shows "matchesGroupLocked g es r'"
proof -
  have l: "linked r'" and s: "shape r'" using inv by (simp_all add: reg_inv_def)
  have dist: "distinct (map ce_ID es)" using ok by (simp add: entries_ok_def ValidateCredentialEntries_None)
  have found: "\<exists>e. entryLocked r' (ce_ID d) = Some e \<and> samePersistedCredentialConfig e d" if d: "d \<in> set es" for d
    unfolding flat flat_reconcile_def using find_unique [OF dist d] by (auto split: option.split)
  have grp: "ce_GroupID e = g" if "samePersistedCredentialConfig e d" "d \<in> set es" for e d
    using that ok by (auto simp: samePersistedCredentialConfig_def entries_ok_def)
  have lookup: "\<exists>e. map_of (bucket r' g) (ce_ID d) = Some e \<and> samePersistedCredentialConfig e d" if d: "d \<in> set es" for d
    using found [OF d] grp d by (auto simp: linked_lookup [OF l])
  have "set (keys (bucket r' g)) = ce_ID ` set es"
  proof
    show "ce_ID ` set es \<subseteq> set (keys (bucket r' g))" using lookup by (force dest: map_of_SomeD)
    show "set (keys (bucket r' g)) \<subseteq> ce_ID ` set es"
    proof
      fix c assume "c \<in> set (keys (bucket r' g))"
      then obtain e where "map_of (bucket r' g) c = Some e" by (metis map_of_eq_None_iff option.exhaust set_map)
      then have e: "entryLocked r' c = Some e" "ce_GroupID e = g"
        by (auto simp: linked_lookup [OF l] split: option.splits if_splits)
      then show "c \<in> ce_ID ` set es"
        unfolding flat flat_reconcile_def by (auto split: option.splits if_splits dest!: find_SomeD)
    qed
  qed
  then have "length (bucket r' g) = length es"
    using dist shape_bucket [OF s, of g] by (metis distinct_card length_map set_map)
  with lookup show ?thesis by (force simp: matchesGroupLocked_def list_all_iff split: option.split)
qed

text \<open>
  Reconciling a group with the stored configuration, in any reachable
  state in which the configuration is valid and claims no credential of another
  group, makes the group match it exactly; a credential whose configuration did not
  change keeps its whole entry, health included; every other group is untouched;
  and a second reconciliation reports no change.
\<close>

theorem reconcile_keeps_health:
  assumes run: "run_registry ops = Some r" and g: "g \<noteq> 0"
    and valid: "ValidateCredentialEntries es = None" and group: "\<forall>d \<in> set es. ce_GroupID d = g"
    and free: "\<forall>d \<in> set es. \<forall>h. credentialGroups r (ce_ID d) = Some h \<longrightarrow> h = g"
    and r': "r' = snd (ReconcileGroup g es r)"
  shows "MatchesGroup g es r'
    \<and> (\<forall>d \<in> set es. \<forall>e. entryLocked r (ce_ID d) = Some e \<and> samePersistedCredentialConfig e d \<longrightarrow> entryLocked r' (ce_ID d) = Some e)
    \<and> (\<forall>c e. ce_GroupID e \<noteq> g \<longrightarrow> (entryLocked r' c = Some e \<longleftrightarrow> entryLocked r c = Some e))
    \<and> ReconcileGroup g es r' = (Inr False, r')"
proof -
  have inv: "reg_inv r" using run_registry_inv [OF run] by simp
  have l: "linked r" using inv by (simp add: reg_inv_def)
  have ok: "entries_ok g es (entryLocked r)"
    using valid group free by (auto simp: entries_ok_def same_group_def linked_index [OF l] split: option.split)
  note R = ReconcileGroup_inv [OF inv g ok, folded r']
  have dist: "distinct (map ce_ID es)" using valid by (simp add: ValidateCredentialEntries_None)
  have match: "matchesGroupLocked g es r'" using R ok by (intro reconciled_matches) auto
  have l': "linked r'" using R by (simp add: reg_inv_def)
  have keep: "entryLocked r' (ce_ID d) = Some e" if "d \<in> set es" "entryLocked r (ce_ID d) = Some e" "samePersistedCredentialConfig e d" for d e
    using R that find_unique [OF dist that(1)] by (simp add: flat_reconcile_def)
  have others: "entryLocked r' c = Some e \<longleftrightarrow> entryLocked r c = Some e" if "ce_GroupID e \<noteq> g" for c e
  proof (cases "find (\<lambda>d. ce_ID d = c) es")
    case None
    with R that show ?thesis by (auto simp: flat_reconcile_def split: option.splits if_splits)
  next
    case (Some d)
    then have d: "d \<in> set es" "ce_ID d = c" by (auto dest: find_SomeD)
    then have "entryLocked r c \<noteq> Some e" using that ok by (auto simp: entries_ok_def same_group_def)
    moreover have "entryLocked r' c \<noteq> Some e"
      using match d that group by (fastforce simp: matchesGroupLocked_def list_all_iff linked_lookup [OF l'] split: option.splits if_splits)
    ultimately show ?thesis by simp
  qed
  have "wrong_group g es = None" using group by (auto simp: wrong_group_def find_None_iff)
  then have "MatchesGroup g es r'" using g valid match by (simp add: MatchesGroup_def)
  moreover have "entries_ok g es (entryLocked r')"
    using ok match by (fastforce simp: entries_ok_def same_group_def matchesGroupLocked_def list_all_iff linked_lookup [OF l']
        split: option.splits if_splits)
  then have "ReconcileGroup g es r' = (Inr False, r')"
    using check_group_entries_None [OF l', of g es] match g by (simp add: ReconcileGroup_def)
  ultimately show ?thesis using keep others by blast
qed

theorem reconcile_keeps_health_witness:
  "ce_Blacklisted (the (entryLocked (snd (ReconcileGroup 3 [sample_entry] sample_registry)) 7))"
proof -
  have "ValidateCredentialEntries [sample_entry] = None" "credentialGroups sample_registry (ce_ID sample_entry) = Some 3"
    "ce_GroupID sample_entry = 3" "ce_ID sample_entry = 7" by code_simp+
  moreover have "entryLocked sample_registry 7 = Some (the (entryLocked sample_registry 7))"
    "samePersistedCredentialConfig (the (entryLocked sample_registry 7)) sample_entry"
    "ce_Blacklisted (the (entryLocked sample_registry 7))" by code_simp+
  ultimately show ?thesis
    using reconcile_keeps_health [OF sample_run, of 3 "[sample_entry]" "snd (ReconcileGroup 3 [sample_entry] sample_registry)"]
    by (metis (no_types, lifting) option.inject option.sel list.set_intros(1) singletonD empty_set list.simps(15) zero_neq_numeral)
qed

section \<open>Stale probes\<close>

text \<open>
  The operations that can install an entry for a credential: one that was configured anew starts with a new
  history of failures.
\<close>

fun installs :: "nat \<Rightarrow> RegOp \<Rightarrow> bool" where
  "installs c (OpReplace es) = (c \<in> ce_ID ` set es)"
| "installs c (OpImport g es) = (c \<in> ce_ID ` set es)"
| "installs c (OpRestoreExact g es) = (c \<in> ce_ID ` set es)"
| "installs c (OpReconcile g es) = (c \<in> ce_ID ` set es)"
| "installs c _ = False"

text \<open>The generation of failures of a credential, unless it was removed.\<close>

definition at_generation :: "nat \<Rightarrow> uint64 \<Rightarrow> flat \<Rightarrow> bool" where
  "at_generation c n m \<longleftrightarrow> (\<forall>e. m c = Some e \<longrightarrow> ce_FailureGeneration e = n)"

lemma at_generation_upd:
  assumes "at_generation c n m" and "\<And>e. ce_FailureGeneration (f e) = ce_FailureGeneration e"
  shows "at_generation c n (flat_upd d f m)"
  using assms by (auto simp: at_generation_def flat_upd_def)

lemma at_generation_fold:
  assumes "\<And>x m. at_generation c n m \<Longrightarrow> at_generation c n (f x m)" and "at_generation c n m"
  shows "at_generation c n (fold f xs m)"
  using assms(2) by (induction xs arbitrary: m) (use assms(1) in auto)

lemma at_generation_checkpoint: "at_generation c n m \<Longrightarrow> at_generation c n (flat_checkpoint k m)"
  by (auto simp: flat_checkpoint_def restore_entry_def intro!: at_generation_upd)

lemma find_other: "c \<notin> ce_ID ` set es \<Longrightarrow> find (\<lambda>e. ce_ID e = c) es = None"
  by (auto simp: find_None_iff)

lemma upd_generation:
  assumes "at_generation c n m" and "\<And>e. ce_FailureGeneration (f e) = ce_FailureGeneration e \<or> ce_FailureGeneration (f e) = ce_FailureGeneration e + 1"
  shows "at_generation c n (flat_upd d f m) \<or> at_generation c (n + 1) (flat_upd d f m)"
  using assms by (cases "m c"; cases "d = c") (auto simp: at_generation_def flat_upd_def)

lemma others_generation:
  assumes "at_generation c n m" and "c \<notin> ce_ID ` set es"
  shows "at_generation c n (overlay f es m)" "at_generation c n (overlay f es Map.empty)" "at_generation c n (flat_reconcile g es m)"
    "at_generation c n (flat_remove C m)"
  using assms by (auto simp: at_generation_def overlay_def flat_reconcile_def flat_remove_def find_other split: option.splits if_splits)

text \<open>Every other operation keeps the generation, or raises it by one; a failure raises it.\<close>

lemma op_generation:
  assumes "\<not> installs c oper" and gen: "at_generation c n m"
  shows "at_generation c n (flat_op oper m) \<and> oper \<noteq> OpIncrFailure c \<or> at_generation c (n + 1) (flat_op oper m)"
proof (cases oper)
  case (OpIncrFailure d)
  then show ?thesis using gen by (cases "d = c") (auto simp: at_generation_def flat_upd_def)
next
  case (OpStatuses g ids st)
  then show ?thesis using gen by (auto intro!: at_generation_fold at_generation_upd)
next
  case (OpRestoreCheckpoint cs)
  then show ?thesis using gen at_generation_checkpoint by (auto intro!: at_generation_fold)
next
  case (OpRestoreIfMatch ref cd w)
  then show ?thesis using gen upd_generation [OF gen] by (simp add: healthy_entry_def)
next
  case (OpRemoveMany g ids)
  then show ?thesis using gen others_generation(4) [OF gen, of "[]"] by simp
next
  case (OpRemove d)
  then show ?thesis using others_generation(4) [OF gen, of "[]"] by simp
next
  case (OpRemoveGroup g)
  then show ?thesis using others_generation(4) [OF gen, of "[]"] by simp
qed (use assms others_generation(1-3) [OF gen] upd_generation [OF gen] in \<open>simp_all add: healthy_entry_def\<close>)

lemma ops_generation:
  assumes "\<forall>oper \<in> set hs. \<not> installs c oper" and "at_generation c n m"
  shows "\<exists>k \<le> length hs. at_generation c (n + of_nat k) (fold flat_op hs m) \<and> (OpIncrFailure c \<in> set hs \<longrightarrow> 1 \<le> k)"
  using assms
proof (induction hs arbitrary: m n)
  case (Cons oper hs)
  obtain j :: nat where j: "j \<le> 1" "at_generation c (n + of_nat j) (flat_op oper m)" "oper = OpIncrFailure c \<longrightarrow> j = 1"
  proof -
    from op_generation [of c oper n m] Cons.prems show thesis using that [of 0] that [of 1] by auto
  qed
  from Cons.IH [OF _ j(2)] Cons.prems obtain k where
    "k \<le> length hs" "at_generation c (n + of_nat j + of_nat k) (fold flat_op hs (flat_op oper m))" "OpIncrFailure c \<in> set hs \<longrightarrow> 1 \<le> k"
    by auto
  with j show ?case by (intro exI [of _ "j + k"]) (auto simp: add.assoc)
qed simp



section \<open>Checkpoints\<close>

lemma flat_checkpoints:
  assumes "distinct (map cc_ID cs)"
  shows "fold flat_checkpoint cs m c =
    (case find (\<lambda>k. cc_ID k = c) cs of None \<Rightarrow> m c | Some k \<Rightarrow> flat_checkpoint k m c)"
  using assms
proof (induction cs arbitrary: m)
  case (Cons k cs)
  have other: "flat_checkpoint k m d = m d" if "d \<noteq> cc_ID k" for d m
    using that by (simp add: flat_checkpoint_def flat_upd_def)
  have here: "flat_checkpoint k m d = flat_checkpoint k m' d" if "m d = m' d" for d m m' k
    using that by (auto simp: flat_checkpoint_def flat_upd_def)
  show ?case
  proof (cases "cc_ID k = c")
    case True
    then have "find (\<lambda>k. cc_ID k = c) cs = None" using Cons.prems by (auto simp: find_None_iff image_iff)
    with True Cons show ?thesis by simp
  next
    case False
    then have same: "flat_checkpoint k m c = m c" using other [of c m] by simp
    then have "flat_checkpoint k' (flat_checkpoint k m) c = flat_checkpoint k' m c" for k' by (rule here)
    with same False Cons.IH [of "flat_checkpoint k m"] Cons.prems show ?thesis by (simp split: option.split)
  qed
qed simp

text \<open>
  Property C36. Restart round trip of credential health. Restoring the checkpoint of
  any reachable registry into any other reachable registry (the one rebuilt from
  the stored configuration) gives every credential that is in the same group of
  both its recorded weight, cooldown, blacklist mark and failure count, and
  changes nothing else.
\<close>

theorem health_checkpoint_roundtrip:
  assumes run: "run_registry ops = Some r" and run0: "run_registry ops0 = Some r0"
    and counts: "\<forall>e \<in> set (all_entries r). 0 \<le> ce_FailureCount e"
  shows "entryLocked (snd (RestoreRuntimeCheckpoint (CaptureRuntimeCheckpoint r) r0)) c =
    (case (entryLocked r0 c, entryLocked r c) of
       (Some e0, Some e) \<Rightarrow> Some (if ce_GroupID e0 = ce_GroupID e
          then e0\<lparr>ce_WeightAuto := ce_WeightAuto e, ce_CooldownUntil := ce_CooldownUntil e,
                  ce_Blacklisted := ce_Blacklisted e, ce_FailureCount := ce_FailureCount e\<rparr> else e0)
     | (e0, _) \<Rightarrow> e0)"
proof -
  have inv: "reg_inv r" "reg_inv r0" using run_registry_inv [OF run] run_registry_inv [OF run0] by simp_all
  have l: "linked r" using inv by (simp add: reg_inv_def)
  let ?cs = "CaptureRuntimeCheckpoint r"
  have ids: "cc_ID (entry_checkpoint e) = ce_ID e" for e by (simp add: entry_checkpoint_def)
  have set: "set ?cs = entry_checkpoint ` set (all_entries r)" by (simp add: CaptureRuntimeCheckpoint_def)
  have "mset (map cc_ID ?cs) = mset (map ce_ID (all_entries r))"
    by (simp add: CaptureRuntimeCheckpoint_def ids multiset.map_comp o_def)
  then have dist: "distinct (map cc_ID ?cs)" using distinct_all_entries [OF inv(1)] by (metis mset_eq_imp_distinct_iff)
  have find: "find (\<lambda>k. cc_ID k = c) ?cs = map_option entry_checkpoint (entryLocked r c)"
  proof (cases "entryLocked r c")
    case None
    then have "cc_ID k \<noteq> c" if "k \<in> set ?cs" for k using that set_all_entries [OF inv(1)] ids by (auto simp: set)
    with None show ?thesis by (auto simp: find_None_iff)
  next
    case (Some e)
    then have mem: "entry_checkpoint e \<in> set ?cs" "cc_ID (entry_checkpoint e) = c"
      using set_all_entries [OF inv(1), of e] linked_entry [OF l Some] by (auto simp: set ids)
    have "find (\<lambda>k. cc_ID k = cc_ID x) xs = Some x" if "distinct (map cc_ID xs)" "x \<in> set xs" for x xs
      using that by (induction xs) (auto simp: image_iff)
    with mem dist Some show ?thesis by force
  qed
  have ok: "cc_ID k = c \<and> cc_ID k \<noteq> 0 \<and> cc_GroupID k \<noteq> 0 \<and> 0 \<le> cc_WeightAuto k \<and> cc_WeightAuto k \<le> MaxWeight \<and> 0 \<le> cc_FailureCount k"
    if e: "entryLocked r c = Some e" "k = entry_checkpoint e" for e k
    using e linked_entry [OF l e(1)] set_all_entries [OF inv(1), of e] counts
    by (auto simp: entry_checkpoint_def validate_entry_def split: if_splits)
  show ?thesis
    using checkpoint_refines [OF inv(2), of ?cs] ok
    by (auto simp: flat_checkpoints [OF dist] find flat_checkpoint_def flat_upd_def restore_entry_def entry_checkpoint_def split: option.splits)
qed

theorem health_checkpoint_roundtrip_witness:
  "ce_Blacklisted (the (entryLocked (snd (RestoreRuntimeCheckpoint (CaptureRuntimeCheckpoint sample_registry)
      (snd (ReplaceCredentials [sample_entry] NewCredentialRegistry)))) 7))"
proof -
  have run0: "run_registry [OpReplace [sample_entry]] = Some (snd (ReplaceCredentials [sample_entry] NewCredentialRegistry))"
    by (simp add: run_registry_def)
  have counts: "\<forall>e \<in> set (all_entries sample_registry). 0 \<le> ce_FailureCount e" by code_simp
  have "entryLocked sample_registry 7 = Some (the (entryLocked sample_registry 7))"
    "entryLocked (snd (ReplaceCredentials [sample_entry] NewCredentialRegistry)) 7 =
       Some (the (entryLocked (snd (ReplaceCredentials [sample_entry] NewCredentialRegistry)) 7))"
    "ce_GroupID (the (entryLocked sample_registry 7)) = 3"
    "ce_GroupID (the (entryLocked (snd (ReplaceCredentials [sample_entry] NewCredentialRegistry)) 7)) = 3"
    "ce_Blacklisted (the (entryLocked sample_registry 7))" by code_simp+
  then show ?thesis
    using health_checkpoint_roundtrip [OF sample_run run0 counts, of 7] by (auto split: option.splits)
qed

section \<open>Rollback of a group\<close>

text \<open>
  Rollback round trip. Entries captured by an exact snapshot of some
  credentials of a group can be restored after any further operations that moved
  none of them to another group: the restore succeeds, the selected credentials
  have their captured entries again, and all others are as the operations left
  them.
\<close>

theorem exact_snapshot_rollback:
  assumes run: "run_registry ops = Some r" and snap: "SnapshotGroupCredentialEntriesExact g ids r = Inr es"
    and later: "run_from r ops' = Some r'" and stay: "\<forall>c \<in> set ids. \<forall>h. credentialGroups r' c = Some h \<longrightarrow> h = g"
  shows "fst (RestoreGroupCredentialEntriesExact g es r') = None
    \<and> entryLocked (snd (RestoreGroupCredentialEntriesExact g es r')) c =
        (if c \<in> set ids then entryLocked r c else entryLocked r' c)"
proof -
  have inv: "reg_inv r" using run_registry_inv [OF run] by simp
  have l: "linked r" using inv by (simp add: reg_inv_def)
  have inv': "reg_inv r'" using run_from_refines [OF inv, of ops'] later by auto
  have l': "linked r'" using inv' by (simp add: reg_inv_def)
  have ok: "ids_ok g ids (entryLocked r)" and es: "es = map (\<lambda>c. the (map_of (bucket r g) c)) ids"
    using snap validateGroupCredentialIDsLocked_None [OF l, of g ids]
    by (auto simp: SnapshotGroupCredentialEntriesExact_def split: option.splits)
  have entry: "\<exists>e. entryLocked r d = Some e \<and> ce_GroupID e = g \<and> ce_ID e = d \<and> validate_entry e = None \<and> map_of (bucket r g) d = Some e"
    if "d \<in> set ids" for d
    using ok that linked_entry [OF l] by (fastforce simp: ids_ok_def)
  have ids: "map ce_ID es = ids" unfolding es map_map by (rule map_idI) (use entry in fastforce)
  have member: "ce_ID e \<in> set ids \<and> ce_GroupID e = g \<and> validate_entry e = None" if "e \<in> set es" for e
    using that entry by (force simp: es)
  have "same_group g (entryLocked r') e" if "e \<in> set es" for e
    using member [OF that] stay by (auto simp: same_group_def linked_index [OF l'] split: option.split)
  moreover have "ValidateCredentialEntries es = None"
    using member ids ok by (auto simp: ValidateCredentialEntries_None ids_ok_def)
  ultimately have es_ok: "entries_ok g es (entryLocked r')" using member by (simp add: entries_ok_def)
  have "es \<noteq> []" "g \<noteq> 0" using ok ids by (auto simp: ids_ok_def)
  with es_ok have res: "fst (RestoreGroupCredentialEntriesExact g es r') = None
      \<and> entryLocked (snd (RestoreGroupCredentialEntriesExact g es r')) = overlay (\<lambda>e. e) es (entryLocked r')"
    using insert_ops_refine(3) [OF inv', of g es] check_group_entries_None [OF l', of g es]
    by (simp add: refines_def RestoreGroupCredentialEntriesExact_def)
  have "find (\<lambda>e. ce_ID e = c) es = (if c \<in> set ids then entryLocked r c else None)"
  proof (cases "c \<in> set ids")
    case True
    with entry obtain e where e: "entryLocked r c = Some e" "ce_ID e = c" "e \<in> set es" by (force simp: es)
    have "distinct (map ce_ID es)" using ids ok by (simp add: ids_ok_def)
    from find_unique [OF this e(3)] e True show ?thesis by simp
  next
    case False
    then have "c \<notin> ce_ID ` set es" using ids by (metis set_map)
    with False show ?thesis by (auto simp: find_None_iff)
  qed
  with res entry [of c] show ?thesis by (auto simp: overlay_def split: option.split)
qed

theorem exact_snapshot_rollback_witness:
  "\<exists>es r'. SnapshotGroupCredentialEntriesExact 3 [7] sample_registry = Inr es
     \<and> run_from sample_registry [OpRemove 7] = Some r' \<and> entryLocked r' 7 = None
     \<and> entryLocked (snd (RestoreGroupCredentialEntriesExact 3 es r')) 7 = entryLocked sample_registry 7"
proof -
  let ?es = "projr (SnapshotGroupCredentialEntriesExact 3 [7] sample_registry)"
  let ?r = "snd (RemoveCredential 7 sample_registry)"
  have snap: "SnapshotGroupCredentialEntriesExact 3 [7] sample_registry = Inr ?es" by code_simp
  have later: "run_from sample_registry [OpRemove 7] = Some ?r" by simp
  have "credentialGroups ?r 7 = None" "entryLocked ?r 7 = None" by code_simp+
  then show ?thesis using exact_snapshot_rollback [OF sample_run snap later, of 7] snap later by auto
qed

end
