(* ===== verification/Scheduler.thy ===== *)
theory Scheduler
  imports Config_Properties Registry_Properties
begin

text \<open>
  The scheduler (\<open>src/internal/scheduler/scheduler.go\<close> and \<open>inspect.go\<close>): which targets of a
  snapshot a query admits and why not, the iterator that draws one credential after the
  other, and the inspection that explains the same decision.

  The iterator reads its credential source and its clock once per pool and mode, so the
  source is a function \<open>collect\<close> of an observation and \<open>observe i\<close> is what the \<open>i\<close>-th reading
  of a call sees; \<open>draw n\<close> stands for \<open>Int63n(n)\<close>. The empty operation is
  \<open>Operation_other []\<close>.
\<close>

section \<open>Queries\<close>

record Query =
  q_ClientProtocol :: Protocol
  q_Operation :: Operation
  q_RouteRequirement :: RouteRequirement
  q_ResponsesStorePreference :: ResponsesStorePreference
  q_ExternalModel :: "string option"
  q_AccessKey :: AccessKeyView
  q_AllowedCredentialIDs :: "nat list option"
  q_PreferredCredentialID :: nat

record normalizedQuery =
  nq_clientProtocol :: Protocol
  nq_operation :: Operation
  nq_routeRequirement :: RouteRequirement
  nq_responsesStorePreference :: ResponsesStorePreference
  nq_externalModel :: "string option"
  nq_accessKey :: AccessKeyView
  nq_allowedCredentialIDs :: "nat list option"

definition normalizeQuery :: "Query \<Rightarrow> normalizedQuery" where
  "normalizeQuery q =
     (let oper = (if q_Operation q = Operation_other [] then
                    (if q_ClientProtocol q = OpenAIImages then q_Operation q
                     else if q_ClientProtocol q = OpenAIResponses then
                       (if q_ExternalModel q = None then OperationResponsesRetrieve else OperationResponsesCreate)
                     else OperationChatCompletion)
                  else q_Operation q)
      in \<lparr>nq_clientProtocol = q_ClientProtocol q, nq_operation = oper,
          nq_routeRequirement = RouteRequirement_Normalize (q_RouteRequirement q),
          nq_responsesStorePreference = q_ResponsesStorePreference q, nq_externalModel = q_ExternalModel q,
          nq_accessKey = q_AccessKey q, nq_allowedCredentialIDs = q_AllowedCredentialIDs q\<rparr>)"

section \<open>Targets\<close>

datatype ReasonCode =
    ReasonNone | ReasonAccessKeyDisabled | ReasonAccessKeyExpired | ReasonProtocolFiltered | ReasonModelFiltered
  | ReasonModelRequiredByFilter | ReasonOperationUnsupported | ReasonNativeRouteRequired | ReasonNoRouteTarget
  | ReasonGroupDisabled | ReasonGroupFiltered | ReasonNoAvailableGroup | ReasonNoCredentials | ReasonGroupWeightZero
  | ReasonCredentialDisabled | ReasonCredentialAuthUnavailable | ReasonCredentialBlacklisted
  | ReasonCredentialCooldown | ReasonCredentialWeightZero | ReasonCredentialNotAllowed | ReasonNoAvailableCredential

datatype InconsistentSnapshot =
    ErrNilSnapshot | ErrRouteGroupMissing nat | ErrCredentialGroupMissing nat nat

record targetDecision =
  td_target :: RouteTarget
  td_group :: GroupCatalogView
  td_requirementOK :: bool
  td_responsesStoreDowngraded :: bool
  td_included :: bool
  td_reason :: ReasonCode

definition routeRequirementSatisfied :: "normalizedQuery \<Rightarrow> RouteTarget \<Rightarrow> bool \<times> bool \<times> ReasonCode" where
  "routeRequirementSatisfied q route =
     (if \<not> RouteRequirement_Allows (nq_routeRequirement q) (tg_Mode route) then (False, False, ReasonNativeRouteRequired)
      else if nq_operation q \<noteq> OperationResponsesCreate then (True, False, ReasonNone)
      else if RouteRequirement_Normalize (nq_routeRequirement q) = RouteRequirementNative then
        (if SupportsResponsesLifecycle (tg_ResolvedTarget route) then (True, False, ReasonNone)
         else (False, False, ReasonNativeRouteRequired))
      else if nq_responsesStorePreference q \<noteq> ResponsesStorePreferencePreferStored then (True, False, ReasonNone)
      else case Target_ResponsesStoreHandling (tg_ResolvedTarget route) OpenAIResponses OperationResponsesCreate of
        ResponsesStoreHandlingUpstreamManaged \<Rightarrow> (True, False, ReasonNone)
      | ResponsesStoreHandlingStateless \<Rightarrow> (True, True, ReasonNone)
      | _ \<Rightarrow> (False, False, ReasonOperationUnsupported))"

definition accessKeyAllowsGroup :: "AccessKeyView \<Rightarrow> nat \<Rightarrow> bool" where
  "accessKeyAllowsGroup accessKey groupID =
     (if fl_Groups (akv_Filters accessKey) = [] then True else groupID \<in> set (fl_Groups (akv_Filters accessKey)))"

definition decide_route :: "normalizedQuery \<Rightarrow> RouteTarget \<Rightarrow> GroupCatalogView \<Rightarrow> targetDecision" where
  "decide_route q route g =
     (case routeRequirementSatisfied q route of (requirementOK, storeDowngraded, requirementReason) \<Rightarrow>
        let groupFiltered = (fl_Groups (akv_Filters (nq_accessKey q)) \<noteq> []
              \<and> tg_GroupID route \<notin> set (fl_Groups (akv_Filters (nq_accessKey q))));
            reason = (if \<not> requirementOK then Some requirementReason
                      else if \<not> gcv_Enabled g then Some ReasonGroupDisabled
                      else if groupFiltered then Some ReasonGroupFiltered
                      else None)
        in \<lparr>td_target = route, td_group = g, td_requirementOK = requirementOK,
            td_responsesStoreDowngraded = storeDowngraded, td_included = (reason = None),
            td_reason = (case reason of None \<Rightarrow> ReasonNone | Some x \<Rightarrow> x)\<rparr>)"

fun decide_routes ::
  "(nat, GroupCatalogView) gomap \<Rightarrow> normalizedQuery \<Rightarrow> nat set \<Rightarrow> RouteTarget list
     \<Rightarrow> InconsistentSnapshot + targetDecision list" where
  "decide_routes catalog q seen [] = Inr []"
| "decide_routes catalog q seen (route # routes) =
     (if tg_GroupID route \<in> seen then decide_routes catalog q seen routes
      else case map_of catalog (tg_GroupID route) of
        None \<Rightarrow> Inl (ErrRouteGroupMissing (tg_GroupID route))
      | Some g \<Rightarrow>
          and_then (decide_routes catalog q (insert (tg_GroupID route) seen) routes)
            (\<lambda>decisions. Inr (decide_route q route g # decisions)))"

definition static_reason :: "targetDecision list \<Rightarrow> ReasonCode" where
  "static_reason decisions =
     (if list_ex td_included decisions then ReasonNone
      else case decisions of
        [] \<Rightarrow> ReasonNone
      | d # ds \<Rightarrow> if list_all (\<lambda>e. td_reason e = td_reason d) ds then td_reason d else ReasonNoAvailableGroup)"

definition evaluateTargets ::
  "ConfigSnapshot option \<Rightarrow> (ConfigSnapshot \<Rightarrow> ExecutionCandidateIndex) \<Rightarrow> normalizedQuery
     \<Rightarrow> InconsistentSnapshot + (targetDecision list \<times> ReasonCode)" where
  "evaluateTargets snapshot0 index q =
     (case snapshot0 of
        None \<Rightarrow> Inl ErrNilSnapshot
      | Some snapshot \<Rightarrow>
          let filters = akv_Filters (nq_accessKey q) in
          if akv_Status (nq_accessKey q) = AccessKeyStatusDisabled then Inr ([], ReasonAccessKeyDisabled)
          else if fl_Protocols filters \<noteq> [] \<and> nq_clientProtocol q \<notin> set (fl_Protocols filters) then Inr ([], ReasonProtocolFiltered)
          else if fl_Models filters \<noteq> [] \<and> nq_externalModel q = None then Inr ([], ReasonModelRequiredByFilter)
          else if fl_Models filters \<noteq> [] \<and> the (nq_externalModel q) \<notin> set (fl_Models filters) then Inr ([], ReasonModelFiltered)
          else if \<not> Protocol_Valid (nq_clientProtocol q) \<or> \<not> Operation_Valid (nq_operation q)
              \<or> \<not> RouteRequirement_Valid (nq_routeRequirement q)
              \<or> \<not> ResponsesStorePreference_Valid (nq_responsesStorePreference q)
            then Inr ([], ReasonOperationUnsupported)
          else
            let byOperation = lookup_or [] (index snapshot) (nq_clientProtocol q) in
            if byOperation = [] then Inr ([], ReasonNoRouteTarget)
            else case map_of byOperation (nq_operation q) of
              None \<Rightarrow> Inr ([], ReasonOperationUnsupported)
            | Some byModel \<Rightarrow>
                let modelKey = (case nq_externalModel q of None \<Rightarrow> NoModelRouteKey | Some m \<Rightarrow> m);
                    routes = lookup_or [] byModel modelKey
                in if routes = [] then Inr ([], ReasonNoRouteTarget)
                   else and_then (decide_routes (cs_GroupCatalog snapshot) q {} routes)
                          (\<lambda>decisions. Inr (decisions, static_reason decisions)))"

definition CandidateGroupIDsForQuery :: "ConfigSnapshot option \<Rightarrow> Query \<Rightarrow> nat list" where
  "CandidateGroupIDsForQuery snapshot q =
     (case evaluateTargets snapshot cs_ExecutionCandidates (normalizeQuery q) of
        Inl _ \<Rightarrow> []
      | Inr (decisions, _) \<Rightarrow> map (\<lambda>d. tg_GroupID (td_target d)) (filter td_included decisions))"

section \<open>Weights\<close>

definition normalizedAutoWeight :: "int \<Rightarrow> int" where
  "normalizedAutoWeight weight = (if weight = 0 then DefaultWeight else weight)"

definition effectiveWeight :: "int option \<Rightarrow> int option \<Rightarrow> int \<Rightarrow> int" where
  "effectiveWeight groupManual credentialManual credentialAuto =
     (let groupWeight = (case groupManual of None \<Rightarrow> DefaultWeight | Some w \<Rightarrow> w);
          credentialWeight = (case credentialManual of None \<Rightarrow> normalizedAutoWeight credentialAuto | Some w \<Rightarrow> w)
      in if groupWeight \<le> 0 \<or> credentialWeight \<le> 0 then 0 else wrap64 (groupWeight * credentialWeight))"

section \<open>The iterator\<close>

record candidateTarget =
  ct_target :: RouteTarget
  ct_group :: GroupView
  ct_responsesStoreDowngraded :: bool

record candidatePool =
  targetsByMode :: "(RouteMode, (nat, candidateTarget) gomap) gomap"
  groupIDsByMode :: "(RouteMode, nat list) gomap"

definition newCandidatePool :: candidatePool where
  "newCandidatePool = \<lparr>targetsByMode = [], groupIDsByMode = []\<rparr>"

record weightedCredential =
  wc_meta :: CredentialMeta
  wc_weight :: int

record Iterator =
  it_regular :: candidatePool
  it_storeDowngraded :: candidatePool
  it_allowedCredentialIDs :: "nat list option"
  it_preferredCredentialID :: nat
  it_tried :: "nat set"
  it_skippedGroups :: "nat set"
  it_staticReason :: ReasonCode

record Selection =
  sel_CredentialID :: nat
  sel_GroupID :: nat
  sel_ChannelID :: string
  sel_ResolvedTarget :: ResolvedTarget
  sel_RouteMode :: RouteMode
  sel_UpstreamModelID :: "string option"
  sel_Group :: GroupView
  sel_ResponsesStoreDowngraded :: bool

text \<open>\<open>ErrNoTarget\<close> stands for the zero target a missing entry would give; it never occurs.\<close>

datatype SchedulerError = ErrExhausted | ErrNoTarget

definition filterTargetsWithReason :: "ConfigSnapshot option \<Rightarrow> Query \<Rightarrow> candidateTarget list \<times> ReasonCode" where
  "filterTargetsWithReason snapshot0 q =
     (case snapshot0 of
        None \<Rightarrow> ([], ReasonNone)
      | Some snapshot \<Rightarrow>
          (case evaluateTargets snapshot0 cs_ExecutionCandidates (normalizeQuery q) of
             Inl _ \<Rightarrow> ([], ReasonNone)
           | Inr (decisions, staticReason) \<Rightarrow>
               (List.map_filter (\<lambda>d.
                  if \<not> td_included d then None
                  else case map_of (cs_Groups snapshot) (tg_GroupID (td_target d)) of
                    None \<Rightarrow> None
                  | Some g \<Rightarrow> Some \<lparr>ct_target = td_target d, ct_group = g,
                      ct_responsesStoreDowngraded = td_responsesStoreDowngraded d\<rparr>) decisions,
                staticReason)))"

definition add_candidate :: "candidateTarget \<Rightarrow> candidatePool \<Rightarrow> candidatePool" where
  "add_candidate target pool =
     (let mode = tg_Mode (ct_target target); g = tg_GroupID (ct_target target) in
      pool\<lparr>targetsByMode := AList.update mode (AList.update g target (lookup_or [] (targetsByMode pool) mode)) (targetsByMode pool),
           groupIDsByMode := AList.update mode (lookup_or [] (groupIDsByMode pool) mode @ [g]) (groupIDsByMode pool)\<rparr>)"

definition add_target :: "candidateTarget \<Rightarrow> Iterator \<Rightarrow> Iterator" where
  "add_target target it =
     (if ct_responsesStoreDowngraded target
      then it\<lparr>it_storeDowngraded := add_candidate target (it_storeDowngraded it)\<rparr>
      else it\<lparr>it_regular := add_candidate target (it_regular it)\<rparr>)"

definition newWithClock :: "ConfigSnapshot option \<Rightarrow> Query \<Rightarrow> Iterator" where
  "newWithClock snapshot q =
     (case filterTargetsWithReason snapshot q of (targets, staticReason) \<Rightarrow>
        fold add_target targets
          \<lparr>it_regular = newCandidatePool, it_storeDowngraded = newCandidatePool,
           it_allowedCredentialIDs = q_AllowedCredentialIDs q, it_preferredCredentialID = q_PreferredCredentialID q,
           it_tried = {}, it_skippedGroups = {}, it_staticReason = staticReason\<rparr>)"

definition SkipGroup :: "nat \<Rightarrow> Iterator \<Rightarrow> Iterator" where
  "SkipGroup groupID it =
     (if groupID = 0 then it else it\<lparr>it_skippedGroups := insert groupID (it_skippedGroups it)\<rparr>)"

definition weigh :: "Iterator \<Rightarrow> candidatePool \<Rightarrow> RouteMode \<Rightarrow> CredentialMeta \<Rightarrow> weightedCredential option" where
  "weigh it pool mode credential =
     (if (case it_allowedCredentialIDs it of None \<Rightarrow> False | Some ids \<Rightarrow> cm_ID credential \<notin> set ids) then None
      else if cm_GroupID credential \<in> it_skippedGroups it then None
      else case map_of (lookup_or [] (targetsByMode pool) mode) (cm_GroupID credential) of
        None \<Rightarrow> None
      | Some target \<Rightarrow>
          let weight = effectiveWeight (gv_WeightManual (ct_group target)) (cm_WeightManual credential) (cm_WeightAuto credential)
          in if weight \<le> 0 then None else Some \<lparr>wc_meta = credential, wc_weight = weight\<rparr>)"

definition total_weight :: "weightedCredential list \<Rightarrow> int" where
  "total_weight weighted = fold (\<lambda>c acc. wrap64 (acc + wc_weight c)) weighted 0"

definition weightedPoolForCandidatePool ::
  "(nat list \<Rightarrow> (nat \<Rightarrow> bool) \<Rightarrow> CredentialMeta list) \<Rightarrow> Iterator \<Rightarrow> candidatePool \<Rightarrow> RouteMode
     \<Rightarrow> weightedCredential list \<times> int" where
  "weightedPoolForCandidatePool credentials it pool mode =
     (let groupIDs = lookup_or [] (groupIDsByMode pool) mode in
      if groupIDs = [] then ([], 0)
      else let weighted = List.map_filter (weigh it pool mode) (credentials groupIDs (\<lambda>c. c \<in> it_tried it))
           in (weighted, total_weight weighted))"

definition preferredCredential :: "weightedCredential list \<Rightarrow> nat \<Rightarrow> CredentialMeta option" where
  "preferredCredential weighted credentialID =
     (if credentialID = 0 then None
      else map_option wc_meta (find (\<lambda>c. cm_ID (wc_meta c) = credentialID) weighted))"

fun pick_ticket :: "int \<Rightarrow> CredentialMeta \<Rightarrow> weightedCredential list \<Rightarrow> CredentialMeta" where
  "pick_ticket ticket selected [] = selected"
| "pick_ticket ticket selected (c # cs) =
     (if ticket < wc_weight c then wc_meta c else pick_ticket (ticket - wc_weight c) selected cs)"

definition optionalModel :: "string \<Rightarrow> string option" where
  "optionalModel v = (if v = [] then None else Some v)"

definition newSelection :: "CredentialMeta \<Rightarrow> candidateTarget \<Rightarrow> Selection" where
  "newSelection credential target =
     \<lparr>sel_CredentialID = cm_ID credential, sel_GroupID = cm_GroupID credential,
      sel_ChannelID = rt_ChannelID (tg_ResolvedTarget (ct_target target)),
      sel_ResolvedTarget = tg_ResolvedTarget (ct_target target), sel_RouteMode = tg_Mode (ct_target target),
      sel_UpstreamModelID = optionalModel (tg_UpstreamModelID (ct_target target)), sel_Group = ct_group target,
      sel_ResponsesStoreDowngraded = ct_responsesStoreDowngraded target\<rparr>"

definition select_credential :: "(int \<Rightarrow> int) \<Rightarrow> Iterator \<Rightarrow> weightedCredential list \<Rightarrow> int \<Rightarrow> CredentialMeta" where
  "select_credential draw it weighted totalWeight =
     (case preferredCredential weighted (it_preferredCredentialID it) of
        Some selected \<Rightarrow> selected
      | None \<Rightarrow> pick_ticket (draw totalWeight) (wc_meta (last weighted)) weighted)"

fun next_from ::
  "('r \<Rightarrow> nat list \<Rightarrow> (nat \<Rightarrow> bool) \<Rightarrow> CredentialMeta list) \<Rightarrow> (nat \<Rightarrow> 'r) \<Rightarrow> (int \<Rightarrow> int) \<Rightarrow> Iterator
     \<Rightarrow> nat \<Rightarrow> (candidatePool \<times> RouteMode) list \<Rightarrow> (SchedulerError + Selection) \<times> Iterator" where
  "next_from collect observe draw it i [] = (Inl ErrExhausted, it)"
| "next_from collect observe draw it i ((pool, mode) # stages) =
     (case weightedPoolForCandidatePool (collect (observe i)) it pool mode of (weighted, totalWeight) \<Rightarrow>
        if totalWeight \<le> 0 then next_from collect observe draw it (Suc i) stages
        else
          let selected = select_credential draw it weighted totalWeight;
              next = it\<lparr>it_tried := insert (cm_ID selected) (it_tried it)\<rparr>
          in (case map_of (lookup_or [] (targetsByMode pool) mode) (cm_GroupID selected) of
                None \<Rightarrow> (Inl ErrNoTarget, next)
              | Some target \<Rightarrow> (Inr (newSelection selected target), next)))"

definition stages :: "Iterator \<Rightarrow> (candidatePool \<times> RouteMode) list" where
  "stages it = [(it_regular it, RouteNative), (it_regular it, RouteConverted),
     (it_storeDowngraded it, RouteNative), (it_storeDowngraded it, RouteConverted)]"

definition Next ::
  "('r \<Rightarrow> nat list \<Rightarrow> (nat \<Rightarrow> bool) \<Rightarrow> CredentialMeta list) \<Rightarrow> (nat \<Rightarrow> 'r) \<Rightarrow> (int \<Rightarrow> int) \<Rightarrow> Iterator
     \<Rightarrow> (SchedulerError + Selection) \<times> Iterator" where
  "Next collect observe draw it = next_from collect observe draw it 0 (stages it)"

end
