(* ===== verification/Scheduler_Inspect.thy ===== *)
theory Scheduler_Inspect
  imports Scheduler
begin

text \<open>
  The inspection of a routing decision (\<open>src/internal/scheduler/inspect.go\<close>): the same
  evaluation of targets over the full catalog, with the reason why a group or a
  credential would not be used.
\<close>

record CredentialInspection =
  ki_CredentialID :: nat
  ki_Available :: bool
  ki_Reason :: ReasonCode
  ki_WeightManual :: "int option"
  ki_WeightAuto :: int
  ki_EffectiveWeight :: int
  ki_CooldownUntil :: time

record GroupInspection =
  gi_GroupID :: nat
  gi_GroupName :: string
  gi_ChannelID :: string
  gi_RouteMode :: RouteMode
  gi_RouteRequirementSatisfied :: bool
  gi_UpstreamModelID :: "string option"
  gi_WeightManual :: "int option"
  gi_Included :: bool
  gi_Routable :: bool
  gi_Reason :: ReasonCode
  gi_Credentials :: "CredentialInspection list"

record Inspection =
  in_ClientProtocol :: Protocol
  in_Operation :: Operation
  in_RouteRequirement :: RouteRequirement
  in_ExternalModel :: "string option"
  in_Routable :: bool
  in_Reason :: ReasonCode
  in_Groups :: "GroupInspection list"

definition inspectCredential ::
  "GroupCatalogView \<Rightarrow> CredentialRuntimeView \<Rightarrow> nat list option \<Rightarrow> time \<Rightarrow> CredentialInspection" where
  "inspectCredential g credential allowed now =
     (let result = \<lparr>ki_CredentialID = rv_ID credential, ki_Available = False, ki_Reason = ReasonNone,
            ki_WeightManual = rv_WeightManual credential, ki_WeightAuto = normalizedAutoWeight (rv_WeightAuto credential),
            ki_EffectiveWeight = 0, ki_CooldownUntil = 0\<rparr> in
      if gcv_WeightManual g = Some 0 then result\<lparr>ki_Reason := ReasonGroupWeightZero\<rparr>
      else if (case allowed of None \<Rightarrow> False | Some ids \<Rightarrow> rv_ID credential \<notin> set ids)
        then result\<lparr>ki_Reason := ReasonCredentialNotAllowed\<rparr>
      else if CredentialRuntimeView.rv_Status credential \<noteq> CredentialStatusActive
        then result\<lparr>ki_Reason := ReasonCredentialDisabled\<rparr>
      else if \<not> AuthReady credential then result\<lparr>ki_Reason := ReasonCredentialAuthUnavailable\<rparr>
      else if rv_WeightManual credential = Some 0 then result\<lparr>ki_Reason := ReasonCredentialWeightZero\<rparr>
      else case RuntimeState credential now of
        CredentialRuntimeBlacklisted \<Rightarrow> result\<lparr>ki_Reason := ReasonCredentialBlacklisted\<rparr>
      | CredentialRuntimeCooldown \<Rightarrow>
          result\<lparr>ki_Reason := ReasonCredentialCooldown, ki_CooldownUntil := rv_CooldownUntil credential\<rparr>
      | _ \<Rightarrow> result\<lparr>ki_Available := True,
               ki_EffectiveWeight := effectiveWeight (gcv_WeightManual g) (rv_WeightManual credential) (rv_WeightAuto credential)\<rparr>)"

text \<open>\<open>credentialsByGroup\<close>, each list sorted by identifier.\<close>

definition group_credentials :: "CredentialRuntimeView list \<Rightarrow> nat \<Rightarrow> CredentialRuntimeView list" where
  "group_credentials credentials g = sort_key rv_ID (filter (\<lambda>v. rv_GroupID v = g) credentials)"

definition unlisted_credential :: "(nat, GroupCatalogView) gomap \<Rightarrow> CredentialRuntimeView list \<Rightarrow> CredentialRuntimeView option" where
  "unlisted_credential catalog credentials = find (\<lambda>v. map_of catalog (rv_GroupID v) = None) credentials"

definition inspectGroup ::
  "CredentialRuntimeView list \<Rightarrow> nat list option \<Rightarrow> time \<Rightarrow> targetDecision \<Rightarrow> GroupInspection" where
  "inspectGroup credentials allowed now d =
     (let g = td_group d;
          result = \<lparr>gi_GroupID = gcv_ID g, gi_GroupName = gcv_Name g,
            gi_ChannelID = rt_ChannelID (tg_ResolvedTarget (td_target d)), gi_RouteMode = tg_Mode (td_target d),
            gi_RouteRequirementSatisfied = td_requirementOK d,
            gi_UpstreamModelID = optionalModel (tg_UpstreamModelID (td_target d)), gi_WeightManual = gcv_WeightManual g,
            gi_Included = td_included d, gi_Routable = False, gi_Reason = td_reason d, gi_Credentials = []\<rparr>
      in if \<not> td_included d then result
         else
           let groupCredentials = group_credentials credentials (gcv_ID g);
               inspected = map (\<lambda>c. inspectCredential g c allowed now) groupCredentials;
               routable = list_ex (\<lambda>k. ki_Available k \<and> ki_EffectiveWeight k > 0) inspected;
               reason = (if gcv_WeightManual g = Some 0 then ReasonGroupWeightZero
                         else if groupCredentials = [] then ReasonNoCredentials
                         else if \<not> routable then ReasonNoAvailableCredential
                         else td_reason d)
           in result\<lparr>gi_Credentials := inspected, gi_Routable := routable, gi_Reason := reason\<rparr>)"

definition Inspect ::
  "ConfigSnapshot option \<Rightarrow> CredentialRuntimeView list \<Rightarrow> Query \<Rightarrow> time \<Rightarrow> InconsistentSnapshot + Inspection" where
  "Inspect snapshot0 credentials q now =
     (let normalized = normalizeQuery q;
          result = \<lparr>in_ClientProtocol = nq_clientProtocol normalized, in_Operation = nq_operation normalized,
            in_RouteRequirement = nq_routeRequirement normalized, in_ExternalModel = nq_externalModel normalized,
            in_Routable = False, in_Reason = ReasonNone, in_Groups = []\<rparr>
      in case snapshot0 of
           None \<Rightarrow> Inl ErrNilSnapshot
         | Some snapshot \<Rightarrow>
             if akv_Status (nq_accessKey normalized) = AccessKeyStatusDisabled
             then Inr (result\<lparr>in_Reason := ReasonAccessKeyDisabled\<rparr>)
             else case unlisted_credential (cs_GroupCatalog snapshot) credentials of
               Some c \<Rightarrow> Inl (ErrCredentialGroupMissing (rv_ID c) (rv_GroupID c))
             | None \<Rightarrow>
                 and_then (evaluateTargets snapshot0 cs_ExecutionRouteCatalog normalized) (\<lambda>(decisions, staticReason).
                   let groups = map (inspectGroup credentials (nq_allowedCredentialIDs normalized) now) decisions;
                       routable = list_ex gi_Routable groups
                   in Inr (result\<lparr>in_Groups := groups, in_Routable := routable,
                        in_Reason := (if routable then ReasonNone
                                      else if staticReason \<noteq> ReasonNone then staticReason
                                      else ReasonNoAvailableCredential)\<rparr>)))"

end
