(* ===== verification/Scheduler_Properties.thy ===== *)
theory Scheduler_Properties
  imports Scheduler_Inspect
begin

text \<open>
  What the scheduler guarantees of any credential source that keeps its contract, and
  the instance of the contract that the credential registry provides.
\<close>

section \<open>Weights and tickets\<close>

lemma weight_range:
  assumes "validateManualWeight gw" and "validateManualWeight cw" and "0 \<le> auto" and "auto \<le> MaxWeight"
  shows "0 \<le> effectiveWeight gw cw auto \<and> effectiveWeight gw cw auto \<le> 10000"
    and "0 < effectiveWeight gw cw auto \<longleftrightarrow> gw \<noteq> Some 0 \<and> cw \<noteq> Some 0"
proof -
  let ?g = "case gw of None \<Rightarrow> DefaultWeight | Some w \<Rightarrow> w"
  let ?c = "case cw of None \<Rightarrow> normalizedAutoWeight auto | Some w \<Rightarrow> w"
  have g: "0 \<le> ?g" "?g \<le> 100" "?g = 0 \<longleftrightarrow> gw = Some 0"
    using assms(1) by (auto simp: validateManualWeight_def MaxWeight_def DefaultWeight_def split: option.splits)
  have c: "0 \<le> ?c" "?c \<le> 100" "?c = 0 \<longleftrightarrow> cw = Some 0"
    using assms(2-4)
    by (auto simp: validateManualWeight_def MaxWeight_def DefaultWeight_def normalizedAutoWeight_def split: option.splits if_splits)
  have p: "0 \<le> ?g * ?c" "?g * ?c \<le> 100 * 100" using g c mult_mono [of ?g 100 ?c 100] by simp_all
  have w: "wrap64 (?g * ?c) = ?g * ?c" using p by (intro wrap64_id int64_nonneg) (auto simp: MaxInt64_def)
  show "0 \<le> effectiveWeight gw cw auto \<and> effectiveWeight gw cw auto \<le> 10000"
    unfolding effectiveWeight_def Let_def w using p by auto
  show "0 < effectiveWeight gw cw auto \<longleftrightarrow> gw \<noteq> Some 0 \<and> cw \<noteq> Some 0"
    unfolding effectiveWeight_def Let_def w using g c by (smt (verit) mult_pos_pos)
qed

definition weights_ok :: "weightedCredential list \<Rightarrow> bool" where
  "weights_ok ws \<longleftrightarrow> (\<forall>c \<in> set ws. 0 < wc_weight c \<and> wc_weight c \<le> 10000)"

abbreviation weight_sum :: "weightedCredential list \<Rightarrow> int" where
  "weight_sum ws \<equiv> sum_list (map wc_weight ws)"

lemma weight_sum_bounds: "weights_ok ws \<Longrightarrow> int (length ws) \<le> weight_sum ws \<and> weight_sum ws \<le> 10000 * int (length ws)"
  by (induction ws) (auto simp: weights_ok_def)

lemma fold_weights:
  "weights_ok ws \<Longrightarrow> 0 \<le> acc \<Longrightarrow> acc + weight_sum ws \<le> MaxInt64 \<Longrightarrow>
     fold (\<lambda>c acc. wrap64 (acc + wc_weight c)) ws acc = acc + weight_sum ws"
proof (induction ws arbitrary: acc)
  case (Cons c ws)
  have "0 \<le> weight_sum ws" using weight_sum_bounds [of ws] Cons.prems(1) by (force simp: weights_ok_def)
  with Cons.prems have "wrap64 (acc + wc_weight c) = acc + wc_weight c"
    by (intro wrap64_id int64_nonneg) (auto simp: weights_ok_def)
  with Cons show ?case by (simp add: weights_ok_def algebra_simps)
qed simp

lemma total_weight_sum:
  assumes "weights_ok ws" and "length ws \<le> 10 ^ 14"
  shows "total_weight ws = weight_sum ws" and "0 < total_weight ws \<longleftrightarrow> ws \<noteq> []"
proof -
  have "10000 * int (length ws) \<le> 10000 * 10 ^ 14" using assms(2) by (metis mult_left_mono of_nat_le_iff of_nat_numeral of_nat_power zero_le_numeral)
  then have b: "weight_sum ws \<le> MaxInt64" using weight_sum_bounds [OF assms(1)] by (simp add: MaxInt64_def)
  show s: "total_weight ws = weight_sum ws"
    unfolding total_weight_def using fold_weights [OF assms(1), of 0] b by simp
  show "0 < total_weight ws \<longleftrightarrow> ws \<noteq> []" unfolding s using weight_sum_bounds [OF assms(1)] by (cases ws) auto
qed

lemma pick_ticket_in: "t < weight_sum ws \<Longrightarrow> pick_ticket t d ws \<in> wc_meta ` set ws \<or> ws = []"
  by (induction ws arbitrary: t) (auto, smt (verit) UnCI imageI list.map(1) sum_list.Nil)

lemma shift_mem: "(t :: int) \<in> (\<lambda>t. t + w) ` S \<longleftrightarrow> t - w \<in> S"
proof
  assume "t - w \<in> S"
  then have "(t - w) + w \<in> (\<lambda>t. t + w) ` S" by (rule imageI)
  then show "t \<in> (\<lambda>t. t + w) ` S" by simp
qed auto

text \<open>Each candidate is picked by exactly as many tickets as its weight.\<close>

lemma ticket_count:
  assumes "weights_ok ws" and "distinct (map wc_meta ws)" and "c \<in> set ws"
  shows "card {t. 0 \<le> t \<and> t < weight_sum ws \<and> pick_ticket t d ws = wc_meta c} = nat (wc_weight c)"
  using assms
proof (induction ws)
  case (Cons x ws)
  let ?w = "wc_weight x"
  let ?T = "\<lambda>m. {t. 0 \<le> t \<and> t < weight_sum ws \<and> pick_ticket t d ws = m}"
  have w: "0 < ?w" and ok: "weights_ok ws" "0 \<le> weight_sum ws"
    using Cons.prems(1) weight_sum_bounds [of ws] by (auto simp: weights_ok_def)
  have split: "{t. 0 \<le> t \<and> t < weight_sum (x # ws) \<and> pick_ticket t d (x # ws) = m} =
      (if wc_meta x = m then {0..<?w} else {}) \<union> (\<lambda>t. t + ?w) ` ?T m" for m
  proof (rule set_eqI)
    fix t
    show "t \<in> {t. 0 \<le> t \<and> t < weight_sum (x # ws) \<and> pick_ticket t d (x # ws) = m} \<longleftrightarrow>
        t \<in> (if wc_meta x = m then {0..<?w} else {}) \<union> (\<lambda>t. t + ?w) ` ?T m"
      unfolding Un_iff shift_mem using w ok(2) by auto
  qed
  show ?case
  proof (cases "wc_meta c = wc_meta x")
    case True
    then have "c = x" using Cons.prems(2,3) by (auto simp: image_iff)
    have empty: "?T (wc_meta x) = {}"
    proof -
      have "wc_meta x \<notin> wc_meta ` set ws" using Cons.prems(2) by simp
      then have "pick_ticket t d ws \<noteq> wc_meta x" if "0 \<le> t" "t < weight_sum ws" for t
        using pick_ticket_in [OF that(2), of d] that by (cases ws) auto
      then show ?thesis by auto
    qed
    show ?thesis unfolding split \<open>c = x\<close> empty by simp
  next
    case False
    then have c: "c \<in> set ws" using Cons.prems(3) by auto
    have "card ((\<lambda>t. t + ?w) ` ?T (wc_meta c)) = card (?T (wc_meta c))" by (rule card_image) (simp add: inj_on_def)
    with False Cons.IH [OF ok(1) _ c] Cons.prems(2) show ?thesis unfolding split by simp
  qed
qed simp

section \<open>Candidates of a stage\<close>

text \<open>What a pool holds under a mode: each group once, with its own target.\<close>

definition pool_inv :: "candidatePool \<Rightarrow> bool" where
  "pool_inv pool \<longleftrightarrow>
     (\<forall>mode. distinct (lookup_or [] (groupIDsByMode pool) mode)
       \<and> dom (map_of (lookup_or [] (targetsByMode pool) mode)) = set (lookup_or [] (groupIDsByMode pool) mode)
       \<and> (\<forall>g t. map_of (lookup_or [] (targetsByMode pool) mode) g = Some t \<longrightarrow>
            tg_GroupID (ct_target t) = g \<and> tg_Mode (ct_target t) = mode \<and> validateManualWeight (gv_WeightManual (ct_group t))))"

definition stage_target :: "candidatePool \<times> RouteMode \<Rightarrow> nat \<Rightarrow> candidateTarget option" where
  "stage_target stage g = map_of (lookup_or [] (targetsByMode (fst stage)) (snd stage)) g"

text \<open>The credentials a stage may choose among what the source offers.\<close>

definition usable :: "Iterator \<Rightarrow> candidatePool \<times> RouteMode \<Rightarrow> CredentialMeta set \<Rightarrow> CredentialMeta set" where
  "usable it stage offers =
     {meta \<in> offers. cm_ID meta \<notin> it_tried it
        \<and> (case it_allowedCredentialIDs it of None \<Rightarrow> True | Some ids \<Rightarrow> cm_ID meta \<in> set ids)
        \<and> cm_GroupID meta \<notin> it_skippedGroups it
        \<and> (\<exists>t. stage_target stage (cm_GroupID meta) = Some t
             \<and> gv_WeightManual (ct_group t) \<noteq> Some 0 \<and> cm_WeightManual meta \<noteq> Some 0)}"

lemma pool_invD:
  assumes "pool_inv pool"
  shows "distinct (lookup_or [] (groupIDsByMode pool) mode)"
    and "dom (map_of (lookup_or [] (targetsByMode pool) mode)) = set (lookup_or [] (groupIDsByMode pool) mode)"
    and "map_of (lookup_or [] (targetsByMode pool) mode) g = Some t \<Longrightarrow>
      tg_GroupID (ct_target t) = g \<and> tg_Mode (ct_target t) = mode \<and> validateManualWeight (gv_WeightManual (ct_group t))"
  using assms unfolding pool_inv_def by blast+

lemma weigh_meta: "weigh it pool mode meta = Some w \<Longrightarrow> wc_meta w = meta"
  by (auto simp: weigh_def Let_def split: if_splits option.splits)

lemma map_map_filter:
  "(\<And>x y. f x = Some y \<Longrightarrow> h y = x) \<Longrightarrow> map h (List.map_filter f xs) = filter (\<lambda>x. f x \<noteq> None) xs"
  by (induction xs) (auto simp: List.map_filter_simps split: option.splits)

lemma in_map_filter: "y \<in> set (List.map_filter f xs) \<longleftrightarrow> (\<exists>x \<in> set xs. f x = Some y)"
  by (induction xs) (auto simp: List.map_filter_simps split: option.splits)

lemma weigh_some:
  assumes "pool_inv pool" and "validateManualWeight (cm_WeightManual meta)" and "0 \<le> cm_WeightAuto meta" "cm_WeightAuto meta \<le> MaxWeight"
  shows "weigh it pool mode meta \<noteq> None \<longleftrightarrow>
      (case it_allowedCredentialIDs it of None \<Rightarrow> True | Some ids \<Rightarrow> cm_ID meta \<in> set ids)
      \<and> cm_GroupID meta \<notin> it_skippedGroups it
      \<and> (\<exists>t. stage_target (pool, mode) (cm_GroupID meta) = Some t
           \<and> gv_WeightManual (ct_group t) \<noteq> Some 0 \<and> cm_WeightManual meta \<noteq> Some 0)"
    and "weigh it pool mode meta = Some w \<Longrightarrow> 0 < wc_weight w \<and> wc_weight w \<le> 10000"
proof -
  have e: "0 \<le> effectiveWeight gw (cm_WeightManual meta) (cm_WeightAuto meta)
      \<and> effectiveWeight gw (cm_WeightManual meta) (cm_WeightAuto meta) \<le> 10000"
    "0 < effectiveWeight gw (cm_WeightManual meta) (cm_WeightAuto meta) \<longleftrightarrow> gw \<noteq> Some 0 \<and> cm_WeightManual meta \<noteq> Some 0"
    if "validateManualWeight gw" for gw
    using weight_range [OF that assms(2-4)] by auto
  show "weigh it pool mode meta = Some w \<Longrightarrow> 0 < wc_weight w \<and> wc_weight w \<le> 10000"
    using pool_invD(3) [OF assms(1), of mode "cm_GroupID meta"] e(1)
    by (auto simp: weigh_def Let_def split: if_splits option.splits)
  show "weigh it pool mode meta \<noteq> None \<longleftrightarrow>
      (case it_allowedCredentialIDs it of None \<Rightarrow> True | Some ids \<Rightarrow> cm_ID meta \<in> set ids)
      \<and> cm_GroupID meta \<notin> it_skippedGroups it
      \<and> (\<exists>t. stage_target (pool, mode) (cm_GroupID meta) = Some t
           \<and> gv_WeightManual (ct_group t) \<noteq> Some 0 \<and> cm_WeightManual meta \<noteq> Some 0)"
  proof (cases "stage_target (pool, mode) (cm_GroupID meta)")
    case (Some t)
    then have m: "map_of (lookup_or [] (targetsByMode pool) mode) (cm_GroupID meta) = Some t" by (simp add: stage_target_def)
    note w = e(2) [of "gv_WeightManual (ct_group t)"] pool_invD(3) [OF assms(1) m]
    show ?thesis unfolding Some weigh_def m Let_def using w by (cases "it_allowedCredentialIDs it") (auto simp: not_le)
  qed (simp add: weigh_def stage_target_def)
qed

lemma preferred_some:
  assumes "preferredCredential ws c = Some meta"
  shows "meta \<in> wc_meta ` set ws \<and> cm_ID meta = c \<and> c \<noteq> 0"
  using assms by (auto simp: preferredCredential_def split: if_splits dest!: find_SomeD)

lemma preferred_none:
  "preferredCredential ws c = None \<longleftrightarrow> c = 0 \<or> (\<forall>w \<in> set ws. cm_ID (wc_meta w) \<noteq> c)"
  by (auto simp: preferredCredential_def find_None_iff)

lemma select_in:
  assumes "ws \<noteq> []" and "draw (weight_sum ws) < weight_sum ws"
  shows "select_credential draw it ws (weight_sum ws) \<in> wc_meta ` set ws"
    and "c = it_preferredCredentialID it \<Longrightarrow> c \<noteq> 0 \<Longrightarrow> c \<in> cm_ID ` wc_meta ` set ws \<Longrightarrow>
      cm_ID (select_credential draw it ws (weight_sum ws)) = c"
proof -
  show "select_credential draw it ws (weight_sum ws) \<in> wc_meta ` set ws"
  proof (cases "preferredCredential ws (it_preferredCredentialID it)")
    case None
    then show ?thesis using pick_ticket_in [OF assms(2)] assms(1) by (simp add: select_credential_def)
  next
    case (Some m)
    then show ?thesis using preferred_some by (simp add: select_credential_def)
  qed
  assume c: "c = it_preferredCredentialID it" "c \<noteq> 0" "c \<in> cm_ID ` wc_meta ` set ws"
  then obtain m where "preferredCredential ws c = Some m"
    using preferred_none [of ws c] by (cases "preferredCredential ws c") auto
  with preferred_some c(1) show "cm_ID (select_credential draw it ws (weight_sum ws)) = c"
    by (auto simp: select_credential_def)
qed

text \<open>One call of the iterator: the first stage with a usable credential decides.\<close>

definition chosen :: "Iterator \<Rightarrow> CredentialMeta set \<Rightarrow> candidatePool \<times> RouteMode \<Rightarrow> Selection \<Rightarrow> Iterator \<Rightarrow> bool" where
  "chosen it available stage sel it' \<longleftrightarrow>
     (\<exists>meta t. meta \<in> usable it stage available \<and> stage_target stage (cm_GroupID meta) = Some t
        \<and> sel = newSelection meta t \<and> it' = it\<lparr>it_tried := insert (cm_ID meta) (it_tried it)\<rparr>
        \<and> (it_preferredCredentialID it \<in> cm_ID ` usable it stage available \<longrightarrow> it_preferredCredentialID it \<noteq> 0 \<longrightarrow>
             cm_ID meta = it_preferredCredentialID it))"

section \<open>The contract of a credential source\<close>

text \<open>
  \<open>CredentialSource\<close>: a collection returns, once each, the credentials on offer in the
  groups asked for that are not excluded, with identifiers of their own and valid weights.
\<close>

locale credential_source =
  fixes collect :: "'r \<Rightarrow> nat list \<Rightarrow> (nat \<Rightarrow> bool) \<Rightarrow> CredentialMeta list"
    and inv :: "'r \<Rightarrow> bool"
    and offers :: "'r \<Rightarrow> CredentialMeta set"
  assumes collected: "inv r \<Longrightarrow> meta \<in> set (collect r gs ex) \<longleftrightarrow>
      meta \<in> offers r \<and> cm_GroupID meta \<in> set gs \<and> \<not> ex (cm_ID meta)"
    and collected_once: "inv r \<Longrightarrow> distinct gs \<Longrightarrow> distinct (collect r gs ex)"
    and offers_finite: "inv r \<Longrightarrow> finite (offers r)"
    and offers_identity: "inv r \<Longrightarrow> inj_on cm_ID (offers r)"
    and offers_weights: "inv r \<Longrightarrow> meta \<in> offers r \<Longrightarrow>
      validateManualWeight (cm_WeightManual meta) \<and> 0 \<le> cm_WeightAuto meta \<and> cm_WeightAuto meta \<le> MaxWeight"
begin

text \<open>The weighted pool of a stage holds exactly its usable credentials.\<close>

lemma weighted_pool:
  assumes inv: "inv r" and pool: "pool_inv pool" and size: "card (offers r) \<le> 10 ^ 14"
    and eq: "weightedPoolForCandidatePool (collect r) it pool mode = (ws, totalWeight)"
  shows "wc_meta ` set ws = usable it (pool, mode) (offers r)" and "distinct (map wc_meta ws)"
    and "weights_ok ws" and "totalWeight = weight_sum ws" and "0 < totalWeight \<longleftrightarrow> usable it (pool, mode) (offers r) \<noteq> {}"
proof -
  let ?gs = "lookup_or [] (groupIDsByMode pool) mode"
  let ?metas = "collect r ?gs (\<lambda>c. c \<in> it_tried it)"
  let ?ws = "List.map_filter (weigh it pool mode) ?metas"
  have ws: "ws = (if ?gs = [] then [] else ?ws)" and tot: "totalWeight = (if ?gs = [] then 0 else total_weight ?ws)"
    using eq by (auto simp: weightedPoolForCandidatePool_def Let_def split: if_splits)
  have none: "?gs = [] \<Longrightarrow> ?metas = []" using collected [OF inv, of _ "[]" "\<lambda>c. c \<in> it_tried it"] by (cases ?metas) auto
  then have ws': "ws = ?ws" by (simp add: ws List.map_filter_simps)
  have metas: "map wc_meta ws = filter (\<lambda>m. weigh it pool mode m \<noteq> None) ?metas"
    unfolding ws' by (rule map_map_filter) (rule weigh_meta)
  have in_offers: "m \<in> set ?metas \<Longrightarrow> validateManualWeight (cm_WeightManual m) \<and> 0 \<le> cm_WeightAuto m \<and> cm_WeightAuto m \<le> MaxWeight" for m
    using collected [OF inv] offers_weights [OF inv] by blast
  show d: "distinct (map wc_meta ws)"
    unfolding metas using collected_once [OF inv pool_invD(1) [OF pool]] by simp
  show ok: "weights_ok ws"
    unfolding weights_ok_def
  proof
    fix c assume "c \<in> set ws"
    then obtain m where m: "m \<in> set ?metas" "weigh it pool mode m = Some c" unfolding ws' in_map_filter by blast
    with in_offers [OF m(1)] show "0 < wc_weight c \<and> wc_weight c \<le> 10000" by (intro weigh_some(2) [OF pool]) auto
  qed
  show u: "wc_meta ` set ws = usable it (pool, mode) (offers r)"
  proof -
    have "wc_meta ` set ws = {m \<in> set ?metas. weigh it pool mode m \<noteq> None}" using metas by (metis set_filter set_map)
    also have "\<dots> = usable it (pool, mode) (offers r)"
    proof (rule set_eqI)
      fix m
      have "m \<in> offers r \<Longrightarrow> weigh it pool mode m \<noteq> None \<longleftrightarrow>
          (case it_allowedCredentialIDs it of None \<Rightarrow> True | Some ids \<Rightarrow> cm_ID m \<in> set ids)
          \<and> cm_GroupID m \<notin> it_skippedGroups it
          \<and> (\<exists>t. stage_target (pool, mode) (cm_GroupID m) = Some t
               \<and> gv_WeightManual (ct_group t) \<noteq> Some 0 \<and> cm_WeightManual m \<noteq> Some 0)"
        using weigh_some(1) [OF pool] offers_weights [OF inv] by blast
      moreover have "stage_target (pool, mode) (cm_GroupID m) = Some t \<Longrightarrow> cm_GroupID m \<in> set ?gs" for t
        using pool_invD(2) [OF pool, of mode] by (auto simp: stage_target_def)
      ultimately show "m \<in> {m \<in> set ?metas. weigh it pool mode m \<noteq> None} \<longleftrightarrow> m \<in> usable it (pool, mode) (offers r)"
        unfolding usable_def mem_Collect_eq collected [OF inv] by blast
    qed
    finally show ?thesis .
  qed
  have "length ws = card (wc_meta ` set ws)" using distinct_card [OF d] by simp
  also have "\<dots> \<le> card (offers r)" using offers_finite [OF inv] unfolding u by (intro card_mono) (auto simp: usable_def)
  finally have len: "length ws \<le> 10 ^ 14" using size by simp
  have t: "totalWeight = total_weight ws" using none by (auto simp: tot ws' List.map_filter_simps total_weight_def)
  show "totalWeight = weight_sum ws" using total_weight_sum(1) [OF ok len] t by simp
  show "0 < totalWeight \<longleftrightarrow> usable it (pool, mode) (offers r) \<noteq> {}"
    using total_weight_sum(2) [OF ok len] unfolding t u [symmetric] by simp
qed

lemma next_from_spec:
  assumes obs: "\<And>i. inv (observe i) \<and> card (offers (observe i)) \<le> 10 ^ 14"
    and pools: "\<forall>stage \<in> set sts. pool_inv (fst stage)"
    and draw: "\<forall>n > 0. draw n < n"
  shows "(next_from collect observe draw it i sts = (Inl ErrExhausted, it)
            \<and> (\<forall>k < length sts. usable it (sts ! k) (offers (observe (i + k))) = {}))
       \<or> (\<exists>k sel it'. k < length sts \<and> next_from collect observe draw it i sts = (Inr sel, it')
            \<and> (\<forall>j < k. usable it (sts ! j) (offers (observe (i + j))) = {})
            \<and> chosen it (offers (observe (i + k))) (sts ! k) sel it')"
  using pools
proof (induction sts arbitrary: i)
  case (Cons stage sts)
  obtain pool mode where stage: "stage = (pool, mode)" by (cases stage)
  obtain ws tw where eq: "weightedPoolForCandidatePool (collect (observe i)) it pool mode = (ws, tw)" by fastforce
  have pool: "pool_inv pool" using Cons.prems stage by simp
  note wp = weighted_pool [OF conjunct1 [OF obs] pool conjunct2 [OF obs] eq]
  show ?case
  proof (cases "0 < tw")
    case False
    then have here: "usable it stage (offers (observe i)) = {}" using wp(5) by (simp add: stage)
    have step: "next_from collect observe draw it i (stage # sts) = next_from collect observe draw it (Suc i) sts"
      using False by (simp add: stage eq)
    have tail: "(\<forall>k < length (stage # sts). usable it ((stage # sts) ! k) (offers (observe (i + k))) = {})
        \<longleftrightarrow> (\<forall>k < length sts. usable it (sts ! k) (offers (observe (Suc i + k))) = {})"
      using here by (auto simp: less_Suc_eq_0_disj)
    have prefix: "(\<forall>j < Suc k. usable it ((stage # sts) ! j) (offers (observe (i + j))) = {})
        \<longleftrightarrow> (\<forall>j < k. usable it (sts ! j) (offers (observe (Suc i + j))) = {})" for k
      using here by (auto simp: less_Suc_eq_0_disj)
    from Cons.IH [of "Suc i"] Cons.prems consider
        "next_from collect observe draw it (Suc i) sts = (Inl ErrExhausted, it)"
          "\<forall>k < length sts. usable it (sts ! k) (offers (observe (Suc i + k))) = {}"
      | k sel it' where "k < length sts" "next_from collect observe draw it (Suc i) sts = (Inr sel, it')"
          "\<forall>j < k. usable it (sts ! j) (offers (observe (Suc i + j))) = {}"
          "chosen it (offers (observe (Suc i + k))) (sts ! k) sel it'" by auto
    then show ?thesis
    proof cases
      case 1
      then show ?thesis unfolding step tail by blast
    next
      case 2
      then show ?thesis unfolding step
        by (intro disjI2 exI [of _ "Suc k"] exI [of _ sel] exI [of _ it']) (simp only: prefix, simp)
    qed
  next
    case True
    let ?m = "select_credential draw it ws tw"
    have ne: "ws \<noteq> []" using True wp(1,5) by auto
    have dr: "draw (weight_sum ws) < weight_sum ws" using draw True wp(4) by simp
    have m: "?m \<in> usable it stage (offers (observe i))"
      using select_in(1) [where draw = draw and ws = ws, OF ne dr] wp(1) wp(4) by (simp add: stage)
    then obtain t where t: "stage_target stage (cm_GroupID ?m) = Some t" by (auto simp: usable_def)
    have "chosen it (offers (observe i)) stage (newSelection ?m t) (it\<lparr>it_tried := insert (cm_ID ?m) (it_tried it)\<rparr>)"
      unfolding chosen_def using m t select_in(2) [where draw = draw and ws = ws, OF ne dr refl] wp(1) wp(4)
      by (intro exI [of _ ?m] exI [of _ t]) (simp add: stage)
    moreover have "next_from collect observe draw it i (stage # sts) =
        (Inr (newSelection ?m t), it\<lparr>it_tried := insert (cm_ID ?m) (it_tried it)\<rparr>)"
      using True t by (simp add: stage eq stage_target_def Let_def)
    ultimately show ?thesis by (intro disjI2 exI [of _ 0]) auto
  qed
qed simp

end

section \<open>The registry as a credential source\<close>

definition registry_collect :: "CredentialRegistry \<times> time \<Rightarrow> nat list \<Rightarrow> (nat \<Rightarrow> bool) \<Rightarrow> CredentialMeta list" where
  "registry_collect reading gs ex = CollectCredentialCandidates gs ex (snd reading) (fst reading)"

definition registry_offers :: "CredentialRegistry \<times> time \<Rightarrow> CredentialMeta set" where
  "registry_offers reading =
     entry_meta ` {e. entryLocked (fst reading) (ce_ID e) = Some e \<and> schedulable (snd reading) e}"

lemma entry_meta_sel [simp]:
  "cm_ID (entry_meta e) = ce_ID e" "cm_GroupID (entry_meta e) = ce_GroupID e"
  "cm_WeightManual (entry_meta e) = ce_WeightManual e" "cm_WeightAuto (entry_meta e) = ce_WeightAuto e"
  by (simp_all add: entry_meta_def)

lemma bucket_member:
  assumes "reg_inv r"
  shows "(c, e) \<in> set (bucket r g) \<longleftrightarrow> c = ce_ID e \<and> entryLocked r (ce_ID e) = Some e \<and> ce_GroupID e = g"
proof -
  have l: "linked r" and s: "shape r" using assms by (simp_all add: reg_inv_def)
  have "(c, e) \<in> set (bucket r g) \<longleftrightarrow> map_of (bucket r g) c = Some e" using shape_bucket [OF s] by simp
  also have "\<dots> \<longleftrightarrow> c = ce_ID e \<and> entryLocked r (ce_ID e) = Some e \<and> ce_GroupID e = g"
  proof
    assume m: "map_of (bucket r g) c = Some e"
    with linkedD(1) [OF l m] show "c = ce_ID e \<and> entryLocked r (ce_ID e) = Some e \<and> ce_GroupID e = g"
      by (simp add: entryLocked_def)
  next
    assume "c = ce_ID e \<and> entryLocked r (ce_ID e) = Some e \<and> ce_GroupID e = g"
    then show "map_of (bucket r g) c = Some e" using linked_entry [OF l] by blast
  qed
  finally show ?thesis .
qed

lemma bucket_entries:
  assumes "reg_inv r"
  shows "set (map snd (bucket r g)) = {e. entryLocked r (ce_ID e) = Some e \<and> ce_GroupID e = g}"
proof (rule set_eqI)
  fix e
  have "e \<in> set (map snd (bucket r g)) \<longleftrightarrow> (\<exists>c. (c, e) \<in> set (bucket r g))" by force
  then show "e \<in> set (map snd (bucket r g)) \<longleftrightarrow> e \<in> {e. entryLocked r (ce_ID e) = Some e \<and> ce_GroupID e = g}"
    by (simp add: bucket_member [OF assms])
qed

lemma collected_metas:
  assumes "reg_inv r"
  shows "m \<in> set (CollectCredentialCandidates gs ex now r) \<longleftrightarrow>
     (\<exists>e. m = entry_meta e \<and> entryLocked r (ce_ID e) = Some e \<and> schedulable now e \<and> ce_GroupID e \<in> set gs \<and> \<not> ex (ce_ID e))"
proof -
  have "set (filter (schedulable now) (map snd (bucket r g))) =
      {e. entryLocked r (ce_ID e) = Some e \<and> ce_GroupID e = g \<and> schedulable now e}" for g
    unfolding set_filter bucket_entries [OF assms] by auto
  then show ?thesis unfolding CollectCredentialCandidates_def Let_def set_sort set_filter set_concat set_map by auto
qed

lemma collected_distinct:
  assumes "reg_inv r" and "distinct gs"
  shows "distinct (CollectCredentialCandidates gs ex now r)"
proof -
  let ?bs = "map (\<lambda>g. (g, filter (\<lambda>(c, e). schedulable now e) (bucket r g))) gs"
  let ?es = "concat (map (\<lambda>(g, b). map snd b) ?bs)"
  have s: "shape r" using assms(1) by (simp add: reg_inv_def)
  have "distinct (map ce_ID ?es)"
  proof (rule distinct_concat_buckets [where G = "credentialGroups r"])
    show "wf_map ?bs" using assms(2) by (simp add: comp_def)
    fix g b assume gb: "(g, b) \<in> set ?bs"
    then have b: "b = filter (\<lambda>(c, e). schedulable now e) (bucket r g)" by auto
    show "wf_map b" unfolding b using shape_bucket [OF s, of g] by (rule distinct_map_filter)
    fix c e assume "(c, e) \<in> set b"
    then have "map_of (bucket r g) c = Some e" unfolding b using shape_bucket [OF s, of g] by auto
    then show "ce_ID e = c \<and> credentialGroups r c = Some g"
      using linkedD(1) assms(1) unfolding reg_inv_def by blast
  qed
  moreover have "map entry_meta ?es = concat (map (\<lambda>g. map entry_meta (filter (schedulable now) (map snd (bucket r g)))) gs)"
    by (simp add: map_concat comp_def filter_map case_prod_unfold)
  moreover have "map cm_ID (map entry_meta ?es) = map ce_ID ?es" by (simp only: map_map comp_def entry_meta_sel)
  ultimately have "distinct (map cm_ID (concat (map (\<lambda>g. map entry_meta (filter (schedulable now) (map snd (bucket r g)))) gs)))"
    by simp
  then have "distinct (concat (map (\<lambda>g. map entry_meta (filter (schedulable now) (map snd (bucket r g)))) gs))"
    by (simp only: distinct_map)
  then show ?thesis unfolding CollectCredentialCandidates_def Let_def by simp
qed

lemma entry_weights:
  assumes "reg_inv r" and "entryLocked r c = Some e"
  shows "validateManualWeight (ce_WeightManual e) \<and> 0 \<le> ce_WeightAuto e \<and> ce_WeightAuto e \<le> MaxWeight"
proof -
  have "validate_entry e = None" using linked_entry [OF _ assms(2)] assms(1) unfolding reg_inv_def by blast
  then show ?thesis by (auto simp: validate_entry_def split: if_splits)
qed

interpretation registry_source: credential_source registry_collect "\<lambda>reading. reg_inv (fst reading)" registry_offers
proof
  fix reading :: "CredentialRegistry \<times> time" and meta gs ex
  assume inv: "reg_inv (fst reading)"
  show "meta \<in> set (registry_collect reading gs ex) \<longleftrightarrow>
      meta \<in> registry_offers reading \<and> cm_GroupID meta \<in> set gs \<and> \<not> ex (cm_ID meta)"
    by (auto simp: registry_collect_def registry_offers_def collected_metas [OF inv])
  show "distinct gs \<Longrightarrow> distinct (registry_collect reading gs ex)"
    unfolding registry_collect_def by (rule collected_distinct [OF inv])
  have "registry_offers reading \<subseteq> entry_meta ` set (all_entries (fst reading))"
    by (auto simp: registry_offers_def set_all_entries [OF inv])
  then show "finite (registry_offers reading)" by (rule finite_subset) simp
  show "inj_on cm_ID (registry_offers reading)"
  proof (rule inj_onI)
    fix a b assume a: "a \<in> registry_offers reading" and b: "b \<in> registry_offers reading" and eq: "cm_ID a = cm_ID b"
    from a obtain d where d: "a = entry_meta d" "entryLocked (fst reading) (ce_ID d) = Some d"
      unfolding registry_offers_def by blast
    from b obtain e where e: "b = entry_meta e" "entryLocked (fst reading) (ce_ID e) = Some e"
      unfolding registry_offers_def by blast
    have "ce_ID d = ce_ID e" using eq d(1) e(1) by simp
    then have "Some d = Some e" using d(2) e(2) by metis
    then show "a = b" using d(1) e(1) by simp
  qed
  show "meta \<in> registry_offers reading \<Longrightarrow>
      validateManualWeight (cm_WeightManual meta) \<and> 0 \<le> cm_WeightAuto meta \<and> cm_WeightAuto meta \<le> MaxWeight"
    using entry_weights [OF inv] by (auto simp: registry_offers_def)
qed

lemma registry_offers_card:
  assumes "reg_inv (fst reading)"
  shows "card (registry_offers reading) \<le> length (all_entries (fst reading))"
proof -
  have "registry_offers reading \<subseteq> entry_meta ` set (all_entries (fst reading))"
    by (auto simp: registry_offers_def set_all_entries [OF assms])
  then have "card (registry_offers reading) \<le> card (entry_meta ` set (all_entries (fst reading)))" by (rule card_mono [rotated]) simp
  also have "\<dots> \<le> length (all_entries (fst reading))"
    by (meson card_image_le card_length finite_set order_trans)
  finally show ?thesis .
qed

end
