(* ===== verification/Scheduler_Theorems.thy ===== *)
theory Scheduler_Theorems
  imports Scheduler_Properties
begin

text \<open>
  The scheduler on compiled snapshots and the credential registry: what a selection
  guarantees, that retries end, and that an inspection agrees with what a request gets.
\<close>

section \<open>Decisions\<close>

text \<open>The conditions on the access key and the query that come before the routes.\<close>

definition query_ok :: "normalizedQuery \<Rightarrow> bool" where
  "query_ok q \<longleftrightarrow>
     (let filters = akv_Filters (nq_accessKey q) in
      akv_Status (nq_accessKey q) \<noteq> AccessKeyStatusDisabled
      \<and> (fl_Protocols filters = [] \<or> nq_clientProtocol q \<in> set (fl_Protocols filters))
      \<and> (fl_Models filters = [] \<or> (\<exists>m. nq_externalModel q = Some m \<and> m \<in> set (fl_Models filters)))
      \<and> Protocol_Valid (nq_clientProtocol q) \<and> Operation_Valid (nq_operation q)
      \<and> RouteRequirement_Valid (nq_routeRequirement q) \<and> ResponsesStorePreference_Valid (nq_responsesStorePreference q))"

definition query_cell :: "ExecutionCandidateIndex \<Rightarrow> normalizedQuery \<Rightarrow> RouteTarget list" where
  "query_cell index q = cell index (nq_clientProtocol q) (nq_operation q)
     (case nq_externalModel q of None \<Rightarrow> NoModelRouteKey | Some m \<Rightarrow> m)"

lemma map_result_fst: "(case and_then r (\<lambda>ds. Inr (ds, f ds)) of Inl e \<Rightarrow> Inl e | Inr (ds, _) \<Rightarrow> Inr ds) = r"
  by (cases r) simp_all

lemma evaluate_decisions:
  "(case evaluateTargets (Some s) index q of Inl e \<Rightarrow> Inl e | Inr (ds, _) \<Rightarrow> Inr ds) =
     (if query_ok q then decide_routes (cs_GroupCatalog s) q {} (query_cell (index s) q) else Inr [])"
proof (cases "query_ok q")
  case False
  then show ?thesis by (auto simp: evaluateTargets_def query_ok_def Let_def)
next
  case True
  let ?by = "lookup_or [] (index s) (nq_clientProtocol q)"
  let ?m = "case nq_externalModel q of None \<Rightarrow> NoModelRouteKey | Some m \<Rightarrow> m"
  have eval: "evaluateTargets (Some s) index q =
      (if ?by = [] then Inr ([], ReasonNoRouteTarget)
       else case map_of ?by (nq_operation q) of
         None \<Rightarrow> Inr ([], ReasonOperationUnsupported)
       | Some byModel \<Rightarrow>
           if lookup_or [] byModel ?m = [] then Inr ([], ReasonNoRouteTarget)
           else and_then (decide_routes (cs_GroupCatalog s) q {} (lookup_or [] byModel ?m)) (\<lambda>ds. Inr (ds, static_reason ds)))"
    using True unfolding evaluateTargets_def query_ok_def Let_def by auto
  have "query_cell (index s) q = lookup_or [] (lookup_or [] ?by (nq_operation q)) ?m"
    by (simp add: query_cell_def cell_def)
  then show ?thesis using True unfolding eval
    by (cases "map_of ?by (nq_operation q)") (auto simp: lookup_or_def [of "[]" ?by] map_result_fst split: if_splits)
qed

definition enabled_in :: "(nat, GroupCatalogView) gomap \<Rightarrow> nat \<Rightarrow> bool" where
  "enabled_in catalog g = (case map_of catalog g of None \<Rightarrow> False | Some v \<Rightarrow> gcv_Enabled v)"

lemma included_enabled: "td_included (decide_route q route g) \<Longrightarrow> gcv_Enabled g"
  by (auto simp: decide_route_def Let_def split: if_splits prod.splits)

lemma decide_route_sel [simp]:
  "td_target (decide_route q route g) = route" "td_group (decide_route q route g) = g"
  by (simp_all add: decide_route_def Let_def split: prod.splits)

text \<open>Leaving out the routes of disabled groups changes no included decision.\<close>

lemma decide_filter:
  assumes "\<forall>g. enabled_in catalog g \<longrightarrow> (g \<in> seen \<longleftrightarrow> g \<in> seen')"
    and "\<forall>t \<in> set routes. map_of catalog (tg_GroupID t) \<noteq> None"
  shows "\<exists>ds ds'. decide_routes catalog q seen routes = Inr ds
    \<and> decide_routes catalog q seen' (filter (\<lambda>t. enabled_in catalog (tg_GroupID t)) routes) = Inr ds'
    \<and> filter td_included ds' = filter td_included ds"
  using assms
proof (induction routes arbitrary: seen seen')
  case (Cons t routes)
  let ?g = "tg_GroupID t"
  obtain v where v: "map_of catalog ?g = Some v" using Cons.prems(2) by auto
  have tail: "\<forall>t \<in> set routes. map_of catalog (tg_GroupID t) \<noteq> None" using Cons.prems(2) by simp
  show ?case
  proof (cases "?g \<in> seen")
    case True
    with Cons.IH [OF Cons.prems(1) tail] Cons.prems(1) show ?thesis by auto
  next
    case False
    show ?thesis
    proof (cases "enabled_in catalog ?g")
      case True
      with Cons.prems(1) False have "?g \<notin> seen'" by auto
      moreover have "\<forall>g. enabled_in catalog g \<longrightarrow> (g \<in> insert ?g seen \<longleftrightarrow> g \<in> insert ?g seen')" using Cons.prems(1) by auto
      from Cons.IH [OF this tail] obtain ds ds' where "decide_routes catalog q (insert ?g seen) routes = Inr ds"
        "decide_routes catalog q (insert ?g seen') (filter (\<lambda>t. enabled_in catalog (tg_GroupID t)) routes) = Inr ds'"
        "filter td_included ds' = filter td_included ds" by blast
      ultimately show ?thesis using False True v by simp
    next
      case dis: False
      then have "\<not> td_included (decide_route q t v)" using included_enabled [of q t v] v by (auto simp: enabled_in_def)
      moreover have "\<forall>g. enabled_in catalog g \<longrightarrow> (g \<in> insert ?g seen \<longleftrightarrow> g \<in> seen')" using Cons.prems(1) dis by auto
      from Cons.IH [OF this tail] obtain ds ds' where "decide_routes catalog q (insert ?g seen) routes = Inr ds"
        "decide_routes catalog q seen' (filter (\<lambda>t. enabled_in catalog (tg_GroupID t)) routes) = Inr ds'"
        "filter td_included ds' = filter td_included ds" by blast
      ultimately show ?thesis using False dis v by simp
    qed
  qed
qed simp

lemma decide_routes_facts:
  "decide_routes catalog q seen routes = Inr ds \<Longrightarrow>
     distinct (map (\<lambda>d. tg_GroupID (td_target d)) ds) \<and> (\<forall>d \<in> set ds. tg_GroupID (td_target d) \<notin> seen
       \<and> td_target d \<in> set routes \<and> map_of catalog (tg_GroupID (td_target d)) = Some (td_group d)
       \<and> d = decide_route q (td_target d) (td_group d))"
proof (induction catalog q seen routes arbitrary: ds rule: decide_routes.induct)
  case (2 catalog q seen route routes)
  show ?case
  proof (cases "tg_GroupID route \<in> seen")
    case True
    with 2 show ?thesis by auto
  next
    case False
    with 2(3) obtain g ds' where g: "map_of catalog (tg_GroupID route) = Some g" and ds: "ds = decide_route q route g # ds'"
      and rest: "decide_routes catalog q (insert (tg_GroupID route) seen) routes = Inr ds'"
      by (auto split: option.splits)
    from 2(2) [OF False g rest] show ?thesis using g False unfolding ds by auto
  qed
qed simp

section \<open>Admitted targets\<close>

definition admitted :: "ConfigSnapshot \<Rightarrow> Query \<Rightarrow> targetDecision list" where
  "admitted s q =
     (case evaluateTargets (Some s) cs_ExecutionCandidates (normalizeQuery q) of
        Inl _ \<Rightarrow> [] | Inr (ds, _) \<Rightarrow> filter td_included ds)"

lemma enabled_in_group: "enabled_in (cs_GroupCatalog s) = enabled_group s"
  by (simp add: enabled_in_def enabled_group_def fun_eq_iff)

text \<open>
  Both indexes evaluate without an error on a consistent snapshot, and include the same
  decisions.
\<close>

lemma evaluate_consistent:
  assumes "consistent s"
  obtains ds reason where "evaluateTargets (Some s) cs_ExecutionRouteCatalog (normalizeQuery q) = Inr (ds, reason)"
    and "filter td_included ds = admitted s q"
proof -
  let ?q = "normalizeQuery q"
  let ?cat = "query_cell (cs_ExecutionRouteCatalog s) ?q"
  have cand: "query_cell (cs_ExecutionCandidates s) ?q = filter (\<lambda>t. enabled_in (cs_GroupCatalog s) (tg_GroupID t)) ?cat"
    unfolding query_cell_def enabled_in_group by (rule consistentD(5) [OF assms])
  have "\<forall>t \<in> set ?cat. map_of (cs_GroupCatalog s) (tg_GroupID t) \<noteq> None"
    unfolding query_cell_def using consistentD(4) [OF assms] by blast
  from decide_filter [where seen = "{}" and seen' = "{}", OF _ this, of ?q] obtain ds ds' where
    ds: "decide_routes (cs_GroupCatalog s) ?q {} ?cat = Inr ds"
    and ds': "decide_routes (cs_GroupCatalog s) ?q {} (query_cell (cs_ExecutionCandidates s) ?q) = Inr ds'"
    and same: "filter td_included ds' = filter td_included ds" unfolding cand by blast
  let ?ds = "if query_ok ?q then ds else []" and ?ds' = "if query_ok ?q then ds' else []"
  have e: "(case evaluateTargets (Some s) cs_ExecutionRouteCatalog ?q of Inl e \<Rightarrow> Inl e | Inr (ds, _) \<Rightarrow> Inr ds) = Inr ?ds"
    unfolding evaluate_decisions ds by simp
  have e': "(case evaluateTargets (Some s) cs_ExecutionCandidates ?q of Inl e \<Rightarrow> Inl e | Inr (ds, _) \<Rightarrow> Inr ds) = Inr ?ds'"
    unfolding evaluate_decisions ds' by simp
  have "admitted s q = filter td_included ?ds'"
    using e' unfolding admitted_def by (auto split: sum.splits prod.splits)
  with same have "filter td_included ?ds = admitted s q" by simp
  with e that show ?thesis by (auto split: sum.splits prod.splits)
qed

lemma admitted_facts:
  assumes "consistent s"
  shows "distinct (map (\<lambda>d. tg_GroupID (td_target d)) (admitted s q))"
    and "d \<in> set (admitted s q) \<Longrightarrow> map_of (cs_GroupCatalog s) (tg_GroupID (td_target d)) = Some (td_group d)
       \<and> td_included d \<and> d = decide_route (normalizeQuery q) (td_target d) (td_group d)
       \<and> map_of (cs_Groups s) (tg_GroupID (td_target d)) \<noteq> None"
proof -
  obtain ds where ds: "admitted s q = filter td_included ds"
    and f: "distinct (map (\<lambda>d. tg_GroupID (td_target d)) ds)"
      "\<forall>d \<in> set ds. map_of (cs_GroupCatalog s) (tg_GroupID (td_target d)) = Some (td_group d)
         \<and> d = decide_route (normalizeQuery q) (td_target d) (td_group d)"
  proof -
    have "(case evaluateTargets (Some s) cs_ExecutionCandidates (normalizeQuery q) of Inl e \<Rightarrow> Inl e | Inr (ds, _) \<Rightarrow> Inr ds) = Inr ds
        \<Longrightarrow> distinct (map (\<lambda>d. tg_GroupID (td_target d)) ds) \<and> (\<forall>d \<in> set ds. map_of (cs_GroupCatalog s) (tg_GroupID (td_target d)) = Some (td_group d)
         \<and> d = decide_route (normalizeQuery q) (td_target d) (td_group d))" for ds
      unfolding evaluate_decisions by (auto split: if_splits dest!: decide_routes_facts)
    note facts = this
    show ?thesis
    proof (cases "evaluateTargets (Some s) cs_ExecutionCandidates (normalizeQuery q)")
      case (Inl e)
      then show ?thesis by (intro that [of "[]"]) (simp_all add: admitted_def)
    next
      case (Inr result)
      obtain ds reason where "result = (ds, reason)" by (cases result)
      with Inr facts [of ds] show ?thesis by (intro that [of ds]) (simp_all add: admitted_def)
    qed
  qed
  show "distinct (map (\<lambda>d. tg_GroupID (td_target d)) (admitted s q))"
    unfolding ds using f(1) by (rule distinct_map_filter)
  assume d: "d \<in> set (admitted s q)"
  then have inc: "td_included d" and e: "map_of (cs_GroupCatalog s) (tg_GroupID (td_target d)) = Some (td_group d)"
      "d = decide_route (normalizeQuery q) (td_target d) (td_group d)" using f(2) by (auto simp: ds)
  have "gcv_Enabled (td_group d)" using included_enabled inc e(2) by metis
  then have "enabled_group s (tg_GroupID (td_target d))" using e(1) by (simp add: enabled_group_def)
  then show "map_of (cs_GroupCatalog s) (tg_GroupID (td_target d)) = Some (td_group d)
       \<and> td_included d \<and> d = decide_route (normalizeQuery q) (td_target d) (td_group d)
       \<and> map_of (cs_Groups s) (tg_GroupID (td_target d)) \<noteq> None"
    using consistentD(2) [OF assms] e inc by blast
qed

section \<open>Fresh iterators\<close>

definition candidate :: "ConfigSnapshot \<Rightarrow> targetDecision \<Rightarrow> candidateTarget" where
  "candidate s d = \<lparr>ct_target = td_target d, ct_group = the (map_of (cs_Groups s) (tg_GroupID (td_target d))),
     ct_responsesStoreDowngraded = td_responsesStoreDowngraded d\<rparr>"

lemma map_filter_all: "(\<And>x. x \<in> set xs \<Longrightarrow> f x = (if P x then Some (g x) else None)) \<Longrightarrow> List.map_filter f xs = map g (filter P xs)"
  by (induction xs) (auto simp: List.map_filter_simps)

lemma filterTargets_admitted:
  assumes "consistent s"
  shows "fst (filterTargetsWithReason (Some s) q) = map (candidate s) (admitted s q)"
proof (cases "evaluateTargets (Some s) cs_ExecutionCandidates (normalizeQuery q)")
  case (Inr result)
  obtain ds reason where res: "result = (ds, reason)" by (cases result)
  have adm: "admitted s q = filter td_included ds" using Inr res by (simp add: admitted_def)
  have "(if \<not> td_included d then None
         else case map_of (cs_Groups s) (tg_GroupID (td_target d)) of
           None \<Rightarrow> None
         | Some g \<Rightarrow> Some \<lparr>ct_target = td_target d, ct_group = g, ct_responsesStoreDowngraded = td_responsesStoreDowngraded d\<rparr>) =
      (if td_included d then Some (candidate s d) else None)" if "d \<in> set ds" for d
    using admitted_facts(2) [OF assms, of d q] that by (auto simp: adm candidate_def)
  then show ?thesis using Inr unfolding adm by (simp add: filterTargetsWithReason_def res map_filter_all)
qed (simp add: filterTargetsWithReason_def admitted_def)

lemma stage_target_add:
  "stage_target (add_candidate t pool, mode) g =
     (if mode = tg_Mode (ct_target t) \<and> g = tg_GroupID (ct_target t) then Some t else stage_target (pool, mode) g)"
  by (simp add: stage_target_def add_candidate_def Let_def)

lemma groups_add:
  "lookup_or [] (groupIDsByMode (add_candidate t pool)) mode =
     lookup_or [] (groupIDsByMode pool) mode @ (if mode = tg_Mode (ct_target t) then [tg_GroupID (ct_target t)] else [])"
  by (simp add: add_candidate_def Let_def)

lemma pool_inv_alt:
  "pool_inv pool \<longleftrightarrow>
     (\<forall>mode. distinct (lookup_or [] (groupIDsByMode pool) mode)
       \<and> (\<forall>g. stage_target (pool, mode) g \<noteq> None \<longleftrightarrow> g \<in> set (lookup_or [] (groupIDsByMode pool) mode))
       \<and> (\<forall>g t. stage_target (pool, mode) g = Some t \<longrightarrow>
            tg_GroupID (ct_target t) = g \<and> tg_Mode (ct_target t) = mode \<and> validateManualWeight (gv_WeightManual (ct_group t))))"
  by (simp add: pool_inv_def stage_target_def dom_def set_eq_iff)

lemma pool_inv_add:
  assumes "pool_inv pool" and "stage_target (pool, tg_Mode (ct_target t)) (tg_GroupID (ct_target t)) = None"
    and "validateManualWeight (gv_WeightManual (ct_group t))"
  shows "pool_inv (add_candidate t pool)"
proof -
  have "tg_GroupID (ct_target t) \<notin> set (lookup_or [] (groupIDsByMode pool) (tg_Mode (ct_target t)))"
    using assms(1,2) unfolding pool_inv_alt by metis
  with assms(1,3) show ?thesis unfolding pool_inv_alt stage_target_add groups_add by auto
qed

definition pool_of :: "bool \<Rightarrow> Iterator \<Rightarrow> candidatePool" where
  "pool_of down it = (if down then it_storeDowngraded it else it_regular it)"

text \<open>The pools of an iterator hold the given targets, each in its own pool and mode.\<close>

definition holds_targets :: "candidateTarget list \<Rightarrow> Iterator \<Rightarrow> bool" where
  "holds_targets ts it \<longleftrightarrow>
     (\<forall>down. pool_inv (pool_of down it)
       \<and> (\<forall>mode g t. stage_target (pool_of down it, mode) g = Some t \<longleftrightarrow>
            t \<in> set ts \<and> ct_responsesStoreDowngraded t = down \<and> tg_Mode (ct_target t) = mode \<and> tg_GroupID (ct_target t) = g))"

lemma holds_targets_fold:
  assumes "holds_targets [] it" and "distinct (map (\<lambda>t. tg_GroupID (ct_target t)) ts)"
    and "\<forall>t \<in> set ts. validateManualWeight (gv_WeightManual (ct_group t))"
  shows "holds_targets ts (fold add_target ts it)"
  using assms(2,3)
proof (induction ts rule: rev_induct)
  case (snoc t ts)
  let ?it = "fold add_target ts it"
  have ih: "holds_targets ts ?it" using snoc by simp
  have pool: "pool_of down (add_target t ?it) =
      (if down = ct_responsesStoreDowngraded t then add_candidate t (pool_of down ?it) else pool_of down ?it)" for down
    by (simp add: pool_of_def add_target_def)
  have fresh: "tg_GroupID (ct_target t) \<notin> (\<lambda>t. tg_GroupID (ct_target t)) ` set ts" using snoc.prems(1) by simp
  have none: "stage_target (pool_of down ?it, mode) (tg_GroupID (ct_target t)) = None" for down mode
  proof (rule ccontr)
    assume "stage_target (pool_of down ?it, mode) (tg_GroupID (ct_target t)) \<noteq> None"
    then obtain u where "stage_target (pool_of down ?it, mode) (tg_GroupID (ct_target t)) = Some u" by blast
    then have "u \<in> set ts \<and> tg_GroupID (ct_target u) = tg_GroupID (ct_target t)"
      using ih unfolding holds_targets_def by blast
    with fresh show False by (auto simp: image_iff)
  qed
  have "pool_inv (pool_of down (add_target t ?it))" for down
  proof -
    have "pool_inv (pool_of down ?it)" using ih unfolding holds_targets_def by blast
    moreover from this have "pool_inv (add_candidate t (pool_of down ?it))"
      by (rule pool_inv_add) (use none snoc.prems(2) in simp_all)
    ultimately show ?thesis unfolding pool by metis
  qed
  moreover have "stage_target (pool_of down (add_target t ?it), mode) g = Some u \<longleftrightarrow>
      u \<in> set (ts @ [t]) \<and> ct_responsesStoreDowngraded u = down \<and> tg_Mode (ct_target u) = mode \<and> tg_GroupID (ct_target u) = g"
    for down mode g u
  proof -
    have old: "stage_target (pool_of down ?it, mode) g = Some u \<longleftrightarrow>
        u \<in> set ts \<and> ct_responsesStoreDowngraded u = down \<and> tg_Mode (ct_target u) = mode \<and> tg_GroupID (ct_target u) = g"
      using ih unfolding holds_targets_def by blast
    have "u \<in> set ts \<Longrightarrow> tg_GroupID (ct_target u) \<noteq> tg_GroupID (ct_target t)" using fresh by (auto simp: image_iff)
    then show ?thesis unfolding pool using old none
      by (cases "down = ct_responsesStoreDowngraded t") (auto simp: stage_target_add)
  qed
  ultimately show ?case unfolding holds_targets_def by simp
qed (use assms(1) in simp)

lemma newWithClock_holds:
  assumes "consistent s"
  shows "holds_targets (map (candidate s) (admitted s q)) (newWithClock (Some s) q)"
proof -
  obtain reason where f: "filterTargetsWithReason (Some s) q = (map (candidate s) (admitted s q), reason)"
    using filterTargets_admitted [OF assms, of q] by (cases "filterTargetsWithReason (Some s) q") auto
  have w: "validateManualWeight (gv_WeightManual (ct_group (candidate s d)))" if "d \<in> set (admitted s q)" for d
  proof -
    from admitted_facts(2) [OF assms that] obtain v where v: "map_of (cs_Groups s) (tg_GroupID (td_target d)) = Some v"
      and c: "map_of (cs_GroupCatalog s) (tg_GroupID (td_target d)) = Some (td_group d)" by auto
    show ?thesis using consistentD(3) [OF assms v c] consistentD(1) [OF assms c] v by (simp add: candidate_def)
  qed
  show ?thesis unfolding newWithClock_def f prod.case
  proof (rule holds_targets_fold)
    show "distinct (map (\<lambda>t. tg_GroupID (ct_target t)) (map (candidate s) (admitted s q)))"
      using admitted_facts(1) [OF assms, of q] by (simp add: comp_def candidate_def)
    show "\<forall>t \<in> set (map (candidate s) (admitted s q)). validateManualWeight (gv_WeightManual (ct_group t))" using w by auto
  qed (simp add: holds_targets_def pool_of_def newCandidatePool_def pool_inv_alt stage_target_def)
qed

section \<open>Eligible credentials\<close>

text \<open>
  A credential a request may use at a level: its group has an admitted target of that
  level, the registry would schedule it now, and nothing excludes it.
\<close>

definition eligible ::
  "ConfigSnapshot \<Rightarrow> Query \<Rightarrow> nat set \<Rightarrow> nat set \<Rightarrow> bool \<times> RouteMode \<Rightarrow> CredentialRegistry \<times> time \<Rightarrow> nat \<Rightarrow> bool" where
  "eligible s q tried skipped level reading c \<longleftrightarrow>
     (\<exists>e d. entryLocked (fst reading) c = Some e \<and> schedulable (snd reading) e
        \<and> c \<notin> tried \<and> ce_GroupID e \<notin> skipped \<and> ce_WeightManual e \<noteq> Some 0
        \<and> (case q_AllowedCredentialIDs q of None \<Rightarrow> True | Some ids \<Rightarrow> c \<in> set ids)
        \<and> d \<in> set (admitted s q) \<and> tg_GroupID (td_target d) = ce_GroupID e
        \<and> td_responsesStoreDowngraded d = fst level \<and> tg_Mode (td_target d) = snd level
        \<and> gcv_WeightManual (td_group d) \<noteq> Some 0)"

lemma eligible_untried: "eligible s q T G level reading c \<Longrightarrow> c \<notin> T"
  by (auto simp: eligible_def)

lemma eligible_tried: "eligible s q (T \<union> X) G level reading c \<longleftrightarrow> eligible s q T G level reading c \<and> c \<notin> X"
  by (auto simp: eligible_def)

definition levels :: "(bool \<times> RouteMode) list" where
  "levels = [(False, RouteNative), (False, RouteConverted), (True, RouteNative), (True, RouteConverted)]"

text \<open>An iterator for a snapshot and a query, whatever it has tried and skipped.\<close>

definition iterator_for :: "ConfigSnapshot \<Rightarrow> Query \<Rightarrow> Iterator \<Rightarrow> bool" where
  "iterator_for s q it \<longleftrightarrow> holds_targets (map (candidate s) (admitted s q)) it
     \<and> it_allowedCredentialIDs it = q_AllowedCredentialIDs q \<and> it_preferredCredentialID it = q_PreferredCredentialID q"

lemma levels_length: "length levels = 4"
  by (simp add: levels_def)

lemma stages_levels: "stages it = map (\<lambda>(down, mode). (pool_of down it, mode)) levels"
  by (simp add: stages_def levels_def pool_of_def)

lemma iterator_for_new: "consistent s \<Longrightarrow> iterator_for s q (newWithClock (Some s) q)"
proof -
  have "it_allowedCredentialIDs (fold add_target ts it) = it_allowedCredentialIDs it
      \<and> it_preferredCredentialID (fold add_target ts it) = it_preferredCredentialID it" for ts it
    by (induction ts arbitrary: it) (simp_all add: add_target_def)
  then show "consistent s \<Longrightarrow> ?thesis"
    unfolding iterator_for_def using newWithClock_holds [of s q] by (auto simp: newWithClock_def split: prod.split)
qed

lemma new_tried: "it_tried (newWithClock s q) = {} \<and> it_skippedGroups (newWithClock s q) = {}"
proof -
  have "it_tried (fold add_target ts it) = it_tried it \<and> it_skippedGroups (fold add_target ts it) = it_skippedGroups it" for ts it
    by (induction ts arbitrary: it) (simp_all add: add_target_def)
  then show ?thesis by (auto simp: newWithClock_def split: prod.split)
qed

lemma iterator_for_marks:
  "iterator_for s q (it\<lparr>it_tried := T\<rparr>) = iterator_for s q it"
  "iterator_for s q (it\<lparr>it_skippedGroups := G\<rparr>) = iterator_for s q it"
  by (simp_all add: iterator_for_def holds_targets_def pool_of_def)

lemma usable_eligible:
  assumes s: "consistent s" and it: "iterator_for s q it" and inv: "reg_inv (fst reading)"
  shows "m \<in> usable it (pool_of (fst level) it, snd level) (registry_offers reading) \<longleftrightarrow>
     eligible s q (it_tried it) (it_skippedGroups it) level reading (cm_ID m)
     \<and> (\<exists>e. entryLocked (fst reading) (cm_ID m) = Some e \<and> m = entry_meta e)"
proof -
  have target: "(\<exists>t. stage_target (pool_of (fst level) it, snd level) g = Some t \<and> gv_WeightManual (ct_group t) \<noteq> Some 0) \<longleftrightarrow>
      (\<exists>d \<in> set (admitted s q). tg_GroupID (td_target d) = g \<and> td_responsesStoreDowngraded d = fst level
         \<and> tg_Mode (td_target d) = snd level \<and> gcv_WeightManual (td_group d) \<noteq> Some 0)" for g
  proof -
    have "stage_target (pool_of (fst level) it, snd level) g = Some t \<longleftrightarrow>
        (\<exists>d \<in> set (admitted s q). t = candidate s d \<and> tg_GroupID (td_target d) = g \<and> td_responsesStoreDowngraded d = fst level
         \<and> tg_Mode (td_target d) = snd level)" for t
      using it unfolding iterator_for_def holds_targets_def by (auto simp: candidate_def)
    moreover have "gv_WeightManual (ct_group (candidate s d)) = gcv_WeightManual (td_group d)" if "d \<in> set (admitted s q)" for d
      using admitted_facts(2) [OF s that] consistentD(3) [OF s] by (auto simp: candidate_def)
    ultimately show ?thesis by auto
  qed
  have offer: "m \<in> registry_offers reading \<longleftrightarrow>
      (\<exists>e. entryLocked (fst reading) (cm_ID m) = Some e \<and> m = entry_meta e \<and> schedulable (snd reading) e)"
  proof
    assume "m \<in> registry_offers reading"
    then show "\<exists>e. entryLocked (fst reading) (cm_ID m) = Some e \<and> m = entry_meta e \<and> schedulable (snd reading) e"
      unfolding registry_offers_def by force
  next
    assume "\<exists>e. entryLocked (fst reading) (cm_ID m) = Some e \<and> m = entry_meta e \<and> schedulable (snd reading) e"
    then obtain e where e: "entryLocked (fst reading) (cm_ID m) = Some e" "m = entry_meta e" "schedulable (snd reading) e" by blast
    then have "cm_ID m = ce_ID e" by simp
    with e(1) have "entryLocked (fst reading) (ce_ID e) = Some e" by simp
    with e show "m \<in> registry_offers reading" unfolding registry_offers_def by blast
  qed
  have allowed: "it_allowedCredentialIDs it = q_AllowedCredentialIDs q" using it by (simp add: iterator_for_def)
  show ?thesis
    unfolding usable_def mem_Collect_eq offer eligible_def allowed
    using target [of "cm_GroupID m"] by (auto 0 4)
qed

lemma eligible_usable:
  assumes "consistent s" and "iterator_for s q it" and "reg_inv (fst reading)"
  shows "(usable it (pool_of (fst level) it, snd level) (registry_offers reading) = {}) \<longleftrightarrow>
     (\<forall>c. \<not> eligible s q (it_tried it) (it_skippedGroups it) level reading c)"
proof -
  have "\<exists>m. m \<in> usable it (pool_of (fst level) it, snd level) (registry_offers reading)"
    if el: "eligible s q (it_tried it) (it_skippedGroups it) level reading c" for c
  proof -
    from el obtain e where e: "entryLocked (fst reading) c = Some e" unfolding eligible_def by blast
    then have "ce_ID e = c" using linked_entry assms(3) unfolding reg_inv_def by blast
    with e el usable_eligible [OF assms, of "entry_meta e" level] show ?thesis by auto
  qed
  then show ?thesis using usable_eligible [OF assms, of _ level] by blast
qed

section \<open>One call of Next\<close>

text \<open>
  What the calls of an iterator may see: each reading is a consistent registry of at most
  \<open>10\<^sup>1\<^sup>4\<close> credentials, so that no sum of weights wraps, and a draw below \<open>n\<close> is
  below \<open>n\<close>.
\<close>

definition readings_ok :: "(nat \<Rightarrow> CredentialRegistry \<times> time) \<Rightarrow> bool" where
  "readings_ok observe \<longleftrightarrow> (\<forall>i. reg_inv (fst (observe i)) \<and> length (all_entries (fst (observe i))) \<le> 10 ^ 14)"

definition draws_ok :: "(int \<Rightarrow> int) \<Rightarrow> bool" where
  "draws_ok draw \<longleftrightarrow> (\<forall>n > 0. 0 \<le> draw n \<and> draw n < n)"

lemma next_spec:
  assumes s: "consistent s" and it: "iterator_for s q it" and obs: "readings_ok observe" and draw: "draws_ok draw"
  shows "(Next registry_collect observe draw it = (Inl ErrExhausted, it)
            \<and> (\<forall>k < 4. \<forall>c. \<not> eligible s q (it_tried it) (it_skippedGroups it) (levels ! k) (observe k) c))
       \<or> (\<exists>k sel. k < 4 \<and> Next registry_collect observe draw it = (Inr sel, it\<lparr>it_tried := insert (sel_CredentialID sel) (it_tried it)\<rparr>)
            \<and> (\<forall>j < k. \<forall>c. \<not> eligible s q (it_tried it) (it_skippedGroups it) (levels ! j) (observe j) c)
            \<and> eligible s q (it_tried it) (it_skippedGroups it) (levels ! k) (observe k) (sel_CredentialID sel)
            \<and> map_option ce_GroupID (entryLocked (fst (observe k)) (sel_CredentialID sel)) = Some (sel_GroupID sel)
            \<and> (sel_ResponsesStoreDowngraded sel, sel_RouteMode sel) = levels ! k
            \<and> (q_PreferredCredentialID q \<noteq> 0
                \<and> eligible s q (it_tried it) (it_skippedGroups it) (levels ! k) (observe k) (q_PreferredCredentialID q)
                \<longrightarrow> sel_CredentialID sel = q_PreferredCredentialID q))"
proof -
  have inv: "reg_inv (fst (observe i))" for i using obs by (simp add: readings_ok_def)
  have o: "reg_inv (fst (observe i)) \<and> card (registry_offers (observe i)) \<le> 10 ^ 14" for i
    using obs registry_offers_card [of "observe i"] by (meson le_trans readings_ok_def)
  have pools: "\<forall>stage \<in> set (stages it). pool_inv (fst stage)"
    using it by (auto simp: stages_levels iterator_for_def holds_targets_def)
  have d: "\<forall>n > 0. draw n < n" using draw by (simp add: draws_ok_def)
  have len: "length (stages it) = 4" by (simp add: stages_def)
  have nth: "k < 4 \<Longrightarrow> stages it ! k = (pool_of (fst (levels ! k)) it, snd (levels ! k))" for k
    unfolding stages_levels by (simp add: case_prod_unfold levels_length)
  have none: "k < 4 \<Longrightarrow> usable it (stages it ! k) (registry_offers (observe (0 + k))) = {} \<longleftrightarrow>
      (\<forall>c. \<not> eligible s q (it_tried it) (it_skippedGroups it) (levels ! k) (observe k) c)" for k
    using eligible_usable [OF s it inv] by (simp add: nth)
  from registry_source.next_from_spec [where it = it and i = 0 and sts = "stages it" and observe = observe and draw = draw, OF o pools d] show ?thesis unfolding Next_def [symmetric] len
  proof (elim disjE conjE exE)
    assume "Next registry_collect observe draw it = (Inl ErrExhausted, it)"
      and "\<forall>k<4. usable it (stages it ! k) (registry_offers (observe (0 + k))) = {}"
    with none show ?thesis by simp
  next
    fix k sel it' assume k: "k < 4" and n: "Next registry_collect observe draw it = (Inr sel, it')"
      and before: "\<forall>j<k. usable it (stages it ! j) (registry_offers (observe (0 + j))) = {}"
      and "chosen it (registry_offers (observe (0 + k))) (stages it ! k) sel it'"
    then obtain m t where m: "m \<in> usable it (stages it ! k) (registry_offers (observe k))"
      and t: "stage_target (stages it ! k) (cm_GroupID m) = Some t" and sel: "sel = newSelection m t"
      and it': "it' = it\<lparr>it_tried := insert (cm_ID m) (it_tried it)\<rparr>"
      and pref: "it_preferredCredentialID it \<in> cm_ID ` usable it (stages it ! k) (registry_offers (observe k)) \<Longrightarrow>
        it_preferredCredentialID it \<noteq> 0 \<Longrightarrow> cm_ID m = it_preferredCredentialID it"
      unfolding chosen_def by auto
    have el: "eligible s q (it_tried it) (it_skippedGroups it) (levels ! k) (observe k) (cm_ID m)"
      and e: "\<exists>e. entryLocked (fst (observe k)) (cm_ID m) = Some e \<and> m = entry_meta e"
      using m [unfolded nth [OF k]] usable_eligible [OF s it inv, where level = "levels ! k" and m = m] by blast+
    have "ct_responsesStoreDowngraded t = fst (levels ! k) \<and> tg_Mode (ct_target t) = snd (levels ! k)"
      using t it unfolding nth [OF k] iterator_for_def holds_targets_def by blast
    then have lvl: "(ct_responsesStoreDowngraded t, tg_Mode (ct_target t)) = levels ! k" by simp
    have p: "sel_CredentialID sel = q_PreferredCredentialID q"
      if p0: "q_PreferredCredentialID q \<noteq> 0"
        and pe: "eligible s q (it_tried it) (it_skippedGroups it) (levels ! k) (observe k) (q_PreferredCredentialID q)"
    proof -
      from pe obtain x where x: "entryLocked (fst (observe k)) (q_PreferredCredentialID q) = Some x" unfolding eligible_def by blast
      then have "ce_ID x = q_PreferredCredentialID q" using linked_entry inv [of k] unfolding reg_inv_def by blast
      then have "cm_ID (entry_meta x) = q_PreferredCredentialID q" by simp
      with x pe have "entry_meta x \<in> usable it (pool_of (fst (levels ! k)) it, snd (levels ! k)) (registry_offers (observe k))"
        unfolding usable_eligible [OF s it inv] by metis
      then have "entry_meta x \<in> usable it (stages it ! k) (registry_offers (observe k))" unfolding nth [OF k] .
      then have "q_PreferredCredentialID q \<in> cm_ID ` usable it (stages it ! k) (registry_offers (observe k))"
        using \<open>ce_ID x = q_PreferredCredentialID q\<close> by (metis entry_meta_sel(1) imageI)
      moreover have "it_preferredCredentialID it = q_PreferredCredentialID q" using it by (simp add: iterator_for_def)
      ultimately show ?thesis using pref p0 by (simp add: sel newSelection_def)
    qed
    have "sel_CredentialID sel = cm_ID m" "sel_GroupID sel = cm_GroupID m"
      "sel_ResponsesStoreDowngraded sel = ct_responsesStoreDowngraded t" "sel_RouteMode sel = tg_Mode (ct_target t)"
      by (simp_all add: sel newSelection_def)
    note fields = this
    have "\<forall>j < k. \<forall>c. \<not> eligible s q (it_tried it) (it_skippedGroups it) (levels ! j) (observe j) c"
      using before none k by simp
    moreover have "map_option ce_GroupID (entryLocked (fst (observe k)) (sel_CredentialID sel)) = Some (sel_GroupID sel)"
      using e unfolding fields by auto
    ultimately show ?thesis
      using k n [unfolded it', folded fields(1)] el [folded fields(1)] lvl [folded fields(3,4)] p
      by (intro disjI2 exI [of _ k] exI [of _ sel] conjI impI) auto
  qed
qed

section \<open>Sequences of calls\<close>

text \<open>
  What a request does with its iterator: it skips groups and draws credentials, each
  draw with the readings and the random source it sees.
\<close>

datatype Call = Skip nat | Draw "nat \<Rightarrow> CredentialRegistry \<times> time" "int \<Rightarrow> int"

fun run_calls :: "Call list \<Rightarrow> Iterator \<Rightarrow> Selection list \<times> Iterator" where
  "run_calls [] it = ([], it)"
| "run_calls (Skip g # calls) it = run_calls calls (SkipGroup g it)"
| "run_calls (Draw observe draw # calls) it =
     (case Next registry_collect observe draw it of
        (Inl _, next) \<Rightarrow> run_calls calls next
      | (Inr sel, next) \<Rightarrow> (case run_calls calls next of (sels, final) \<Rightarrow> (sel # sels, final)))"

fun calls_ok :: "Call list \<Rightarrow> bool" where
  "calls_ok [] = True"
| "calls_ok (Skip g # calls) = calls_ok calls"
| "calls_ok (Draw observe draw # calls) = (readings_ok observe \<and> draws_ok draw \<and> calls_ok calls)"

fun skipped_by :: "Call list \<Rightarrow> nat set" where
  "skipped_by [] = {}"
| "skipped_by (Skip g # calls) = (if g = 0 then {} else {g}) \<union> skipped_by calls"
| "skipped_by (Draw observe draw # calls) = skipped_by calls"

lemma run_calls_marks:
  assumes "consistent s" and "iterator_for s q it" and "calls_ok calls" and "run_calls calls it = (sels, final)"
  shows "iterator_for s q final \<and> it_skippedGroups final = it_skippedGroups it \<union> skipped_by calls
    \<and> it_tried final = it_tried it \<union> sel_CredentialID ` set sels
    \<and> distinct (map sel_CredentialID sels) \<and> sel_CredentialID ` set sels \<inter> it_tried it = {}"
  using assms(2-4)
proof (induction calls arbitrary: it sels)
  case (Cons call calls)
  show ?case
  proof (cases call)
    case (Skip g)
    have "iterator_for s q (SkipGroup g it)" using Cons.prems(1) by (simp add: SkipGroup_def iterator_for_marks)
    from Cons.IH [OF this] Cons.prems(2,3) show ?thesis by (auto simp: Skip SkipGroup_def)
  next
    case (Draw observe draw)
    have obs: "readings_ok observe" "draws_ok draw" "calls_ok calls" using Cons.prems(2) by (auto simp: Draw)
    from next_spec [OF assms(1) Cons.prems(1) obs(1,2)] consider
        "Next registry_collect observe draw it = (Inl ErrExhausted, it)"
      | sel k where "Next registry_collect observe draw it = (Inr sel, it\<lparr>it_tried := insert (sel_CredentialID sel) (it_tried it)\<rparr>)"
          "eligible s q (it_tried it) (it_skippedGroups it) (levels ! k) (observe k) (sel_CredentialID sel)" by blast
    then show ?thesis
    proof cases
      case 1
      then show ?thesis using Cons.IH [OF Cons.prems(1) obs(3)] Cons.prems(3) by (simp add: Draw)
    next
      case 2
      let ?next = "it\<lparr>it_tried := insert (sel_CredentialID sel) (it_tried it)\<rparr>"
      obtain rest where rest: "run_calls calls ?next = (rest, final)" and sels: "sels = sel # rest"
        using Cons.prems(3) 2(1) by (auto simp: Draw split: prod.splits)
      have "iterator_for s q ?next" using Cons.prems(1) by (simp add: iterator_for_marks)
      note ih = Cons.IH [OF this obs(3) rest]
      have "sel_CredentialID sel \<notin> it_tried it" using 2(2) by (rule eligible_untried)
      with ih show ?thesis by (auto simp: sels Draw)
    qed
  qed
qed auto

section \<open>Draining an iterator\<close>

text \<open>The credentials that some level would still give.\<close>

definition open_credentials :: "ConfigSnapshot \<Rightarrow> Query \<Rightarrow> nat set \<Rightarrow> nat set \<Rightarrow> CredentialRegistry \<times> time \<Rightarrow> nat set" where
  "open_credentials s q tried skipped reading = {c. \<exists>k < 4. eligible s q tried skipped (levels ! k) reading c}"

lemma open_credentials_finite:
  assumes "reg_inv (fst reading)"
  shows "finite (open_credentials s q T G reading)"
proof -
  have "open_credentials s q T G reading \<subseteq> ce_ID ` set (all_entries (fst reading))"
  proof
    fix c assume "c \<in> open_credentials s q T G reading"
    then obtain e where e: "entryLocked (fst reading) c = Some e" by (auto simp: open_credentials_def eligible_def)
    then have "ce_ID e = c" using linked_entry assms unfolding reg_inv_def by blast
    with e show "c \<in> ce_ID ` set (all_entries (fst reading))" using set_all_entries [OF assms, of e] by auto
  qed
  then show ?thesis by (rule finite_subset) simp
qed

lemma open_credentials_tried: "open_credentials s q (T \<union> X) G reading = open_credentials s q T G reading - X"
  by (auto simp: open_credentials_def eligible_tried)

lemma drain:
  assumes s: "consistent s" and obs: "readings_ok (\<lambda>i. reading)" and "iterator_for s q it"
    and "list_all draws_ok draws" and "run_calls (map (Draw (\<lambda>i. reading)) draws) it = (sels, final)"
  shows "sel_CredentialID ` set sels \<subseteq> open_credentials s q (it_tried it) (it_skippedGroups it) reading
    \<and> (card (open_credentials s q (it_tried it) (it_skippedGroups it) reading) \<le> length draws \<longrightarrow>
         open_credentials s q (it_tried it) (it_skippedGroups it) reading \<subseteq> sel_CredentialID ` set sels)"
  using assms(3-5)
proof (induction draws arbitrary: it sels)
  case Nil
  have "finite (open_credentials s q (it_tried it) (it_skippedGroups it) reading)"
    using obs by (intro open_credentials_finite) (simp add: readings_ok_def)
  with Nil show ?case by simp
next
  case (Cons draw draws)
  let ?E = "\<lambda>it. open_credentials s q (it_tried it) (it_skippedGroups it) reading"
  have d: "draws_ok draw" "list_all draws_ok draws" using Cons.prems(2) by simp_all
  from next_spec [OF s Cons.prems(1) obs d(1)] consider
      "Next registry_collect (\<lambda>i. reading) draw it = (Inl ErrExhausted, it)" "?E it = {}"
    | sel k where "Next registry_collect (\<lambda>i. reading) draw it = (Inr sel, it\<lparr>it_tried := insert (sel_CredentialID sel) (it_tried it)\<rparr>)"
        "k < 4" "eligible s q (it_tried it) (it_skippedGroups it) (levels ! k) reading (sel_CredentialID sel)"
    unfolding open_credentials_def by blast
  then show ?case
  proof cases
    case 1
    then show ?thesis using Cons.IH [OF Cons.prems(1) d(2)] Cons.prems(3) by simp
  next
    case 2
    let ?c = "sel_CredentialID sel"
    let ?next = "it\<lparr>it_tried := insert ?c (it_tried it)\<rparr>"
    obtain rest where rest: "run_calls (map (Draw (\<lambda>i. reading)) draws) ?next = (rest, final)" and sels: "sels = sel # rest"
      using Cons.prems(3) 2(1) by (auto split: prod.splits)
    have mem: "?c \<in> ?E it" using 2 by (auto simp: open_credentials_def)
    have fin: "finite (?E it)" using obs by (intro open_credentials_finite) (simp add: readings_ok_def)
    have E: "?E ?next = ?E it - {?c}" using open_credentials_tried [of s q "it_tried it" "{?c}"] by simp
    have "card (?E ?next) = card (?E it) - 1" unfolding E using mem fin by simp
    moreover have "0 < card (?E it)" using mem fin by (auto simp: card_gt_0_iff)
    moreover have "iterator_for s q ?next" using Cons.prems(1) by (simp add: iterator_for_marks)
    ultimately show ?thesis using Cons.IH [OF _ d(2) rest] mem unfolding E by (auto simp: sels)
  qed
qed

section \<open>Inspection\<close>

lemma inspected_available:
  assumes e: "entryLocked r (ce_ID e) = Some e" and inv: "reg_inv r"
    and g: "validateManualWeight (gcv_WeightManual g)"
  shows "(let k = inspectCredential g (runtimeView e) allowed now in ki_Available k \<and> ki_EffectiveWeight k > 0) \<longleftrightarrow>
     schedulable now e \<and> gcv_WeightManual g \<noteq> Some 0 \<and> ce_WeightManual e \<noteq> Some 0
     \<and> (case allowed of None \<Rightarrow> True | Some ids \<Rightarrow> ce_ID e \<in> set ids)"
proof -
  have w: "0 < effectiveWeight (gcv_WeightManual g) (ce_WeightManual e) (ce_WeightAuto e) \<longleftrightarrow>
      gcv_WeightManual g \<noteq> Some 0 \<and> ce_WeightManual e \<noteq> Some 0"
    using weight_range(2) [OF g] entry_weights [OF inv e] by blast
  have v: "rv_ID (runtimeView e) = ce_ID e" "rv_WeightManual (runtimeView e) = ce_WeightManual e"
    "rv_WeightAuto (runtimeView e) = ce_WeightAuto e" "CredentialRuntimeView.rv_Status (runtimeView e) = ce_Status e"
    by (simp_all add: runtimeView_def)
  have auth: "AuthReady (runtimeView e) \<longleftrightarrow> AuthState_normalize (ce_AuthState e) = CredentialAuthStateReady"
    by (simp add: AuthReady_def runtimeView_def AuthState_normalize_def)
  have active: "RuntimeState (runtimeView e) now = CredentialRuntimeAvailable \<Longrightarrow> ce_Status e = CredentialStatusActive"
    by (simp add: RuntimeState_def v split: if_splits)
  have states: "ce_Status e = CredentialStatusActive \<Longrightarrow> RuntimeState (runtimeView e) now \<noteq> CredentialRuntimeDisabled"
    by (simp add: RuntimeState_def v)
  show ?thesis
    unfolding inspectCredential_def schedulable_def Let_def v auth using w active states
    by (cases allowed; cases "RuntimeState (runtimeView e) now") auto
qed

lemma included_mode: "td_included (decide_route q route g) \<Longrightarrow> tg_Mode route \<in> {RouteNative, RouteConverted}"
  by (auto simp: decide_route_def routeRequirementSatisfied_def RouteRequirement_Allows_def RouteMode_Valid_def Let_def
      split: if_splits prod.splits)

lemma level_index: "mode \<in> {RouteNative, RouteConverted} \<Longrightarrow> \<exists>k < 4. levels ! k = (down, mode)"
proof -
  assume "mode \<in> {RouteNative, RouteConverted}"
  then have "(down, mode) \<in> set levels" by (cases down) (auto simp: levels_def)
  then show ?thesis by (metis in_set_conv_nth levels_length)
qed

lemma open_credentials_iff:
  assumes s: "consistent s"
  shows "c \<in> open_credentials s q T G reading \<longleftrightarrow>
     (\<exists>e d. entryLocked (fst reading) c = Some e \<and> schedulable (snd reading) e \<and> c \<notin> T \<and> ce_GroupID e \<notin> G
        \<and> ce_WeightManual e \<noteq> Some 0 \<and> (case q_AllowedCredentialIDs q of None \<Rightarrow> True | Some ids \<Rightarrow> c \<in> set ids)
        \<and> d \<in> set (admitted s q) \<and> tg_GroupID (td_target d) = ce_GroupID e \<and> gcv_WeightManual (td_group d) \<noteq> Some 0)"
proof -
  have "\<exists>k < 4. td_responsesStoreDowngraded d = fst (levels ! k) \<and> tg_Mode (td_target d) = snd (levels ! k)"
    if "d \<in> set (admitted s q)" for d
    using admitted_facts(2) [OF s that] included_mode level_index by (metis fst_conv snd_conv)
  then show ?thesis unfolding open_credentials_def eligible_def mem_Collect_eq by blast
qed

lemma snapshot_views: "set (Registry_Snapshot r) = runtimeView ` set (all_entries r)"
  by (simp add: Registry_Snapshot_def sortRuntimeViews_def)

lemma inspect_group_routable:
  assumes s: "consistent s" and inv: "reg_inv r" and d: "d \<in> set (admitted s q)"
  shows "gi_Routable (inspectGroup (Registry_Snapshot r) (nq_allowedCredentialIDs (normalizeQuery q)) now d) \<longleftrightarrow>
     (\<exists>c e. entryLocked r c = Some e \<and> schedulable now e \<and> ce_WeightManual e \<noteq> Some 0
        \<and> (case q_AllowedCredentialIDs q of None \<Rightarrow> True | Some ids \<Rightarrow> c \<in> set ids)
        \<and> tg_GroupID (td_target d) = ce_GroupID e \<and> gcv_WeightManual (td_group d) \<noteq> Some 0)"
proof -
  have f: "td_included d" "map_of (cs_GroupCatalog s) (tg_GroupID (td_target d)) = Some (td_group d)"
    using admitted_facts(2) [OF s d] by auto
  have gid: "gcv_ID (td_group d) = tg_GroupID (td_target d)" and w: "validateManualWeight (gcv_WeightManual (td_group d))"
    using consistentD(1) [OF s f(2)] by auto
  have allowed: "nq_allowedCredentialIDs (normalizeQuery q) = q_AllowedCredentialIDs q" by (simp add: normalizeQuery_def Let_def)
  have views: "set (group_credentials (Registry_Snapshot r) g) = runtimeView ` {e \<in> set (all_entries r). ce_GroupID e = g}" for g
    by (auto simp: group_credentials_def snapshot_views runtimeView_def)
  let ?good = "\<lambda>v. let k = inspectCredential (td_group d) v (q_AllowedCredentialIDs q) now in ki_Available k \<and> ki_EffectiveWeight k > 0"
  have "gi_Routable (inspectGroup (Registry_Snapshot r) (nq_allowedCredentialIDs (normalizeQuery q)) now d) \<longleftrightarrow>
      (\<exists>v \<in> set (group_credentials (Registry_Snapshot r) (tg_GroupID (td_target d))). ?good v)"
    by (simp add: inspectGroup_def Let_def f(1) gid allowed list_ex_iff)
  also have "\<dots> \<longleftrightarrow> (\<exists>e \<in> set (all_entries r). ce_GroupID e = tg_GroupID (td_target d) \<and> ?good (runtimeView e))"
    unfolding views by blast
  also have "\<dots> \<longleftrightarrow> (\<exists>e. entryLocked r (ce_ID e) = Some e \<and> ce_GroupID e = tg_GroupID (td_target d)
      \<and> schedulable now e \<and> gcv_WeightManual (td_group d) \<noteq> Some 0 \<and> ce_WeightManual e \<noteq> Some 0
      \<and> (case q_AllowedCredentialIDs q of None \<Rightarrow> True | Some ids \<Rightarrow> ce_ID e \<in> set ids))"
    using set_all_entries [OF inv] inspected_available [OF _ inv w] by blast
  also have "\<dots> \<longleftrightarrow> (\<exists>c e. entryLocked r c = Some e \<and> schedulable now e \<and> ce_WeightManual e \<noteq> Some 0
        \<and> (case q_AllowedCredentialIDs q of None \<Rightarrow> True | Some ids \<Rightarrow> c \<in> set ids)
        \<and> tg_GroupID (td_target d) = ce_GroupID e \<and> gcv_WeightManual (td_group d) \<noteq> Some 0)" (is "?L \<longleftrightarrow> ?R")
  proof
    assume ?R
    then obtain c e where e: "entryLocked r c = Some e" "schedulable now e" "ce_WeightManual e \<noteq> Some 0"
        "case q_AllowedCredentialIDs q of None \<Rightarrow> True | Some ids \<Rightarrow> c \<in> set ids"
        "tg_GroupID (td_target d) = ce_GroupID e" "gcv_WeightManual (td_group d) \<noteq> Some 0" by blast
    have c: "c = ce_ID e" using linked_entry [OF _ e(1)] inv unfolding reg_inv_def by blast
    show ?L using e [unfolded c] by (intro exI [of _ e]) simp
  next
    assume ?L
    then obtain e where "entryLocked r (ce_ID e) = Some e" "ce_GroupID e = tg_GroupID (td_target d)"
        "schedulable now e" "gcv_WeightManual (td_group d) \<noteq> Some 0" "ce_WeightManual e \<noteq> Some 0"
        "case q_AllowedCredentialIDs q of None \<Rightarrow> True | Some ids \<Rightarrow> ce_ID e \<in> set ids" by blast
    then show ?R by (intro exI [of _ "ce_ID e"] exI [of _ e]) simp
  qed
  finally show ?thesis .
qed

lemma inspect_routable:
  assumes s: "consistent s" and inv: "reg_inv r"
    and listed: "\<forall>e \<in> set (all_entries r). map_of (cs_GroupCatalog s) (ce_GroupID e) \<noteq> None"
  shows "\<exists>insp. Inspect (Some s) (Registry_Snapshot r) q now = Inr insp
    \<and> (in_Routable insp \<longleftrightarrow> open_credentials s q {} {} (r, now) \<noteq> {})"
proof -
  obtain ds reason where ev: "evaluateTargets (Some s) cs_ExecutionRouteCatalog (normalizeQuery q) = Inr (ds, reason)"
    and adm: "filter td_included ds = admitted s q" using evaluate_consistent [OF s] by metis
  have "unlisted_credential (cs_GroupCatalog s) (Registry_Snapshot r) = None"
    using listed by (auto simp: unlisted_credential_def find_None_iff snapshot_views runtimeView_def)
  note unl = this
  let ?ins = "inspectGroup (Registry_Snapshot r) (nq_allowedCredentialIDs (normalizeQuery q)) now"
  have off: "gi_Routable (?ins d) \<Longrightarrow> td_included d" for d by (auto simp: inspectGroup_def Let_def split: if_splits)
  have "(\<exists>d \<in> set ds. gi_Routable (?ins d)) \<longleftrightarrow> (\<exists>d \<in> set (admitted s q). gi_Routable (?ins d))"
    unfolding adm [symmetric] using off by auto
  also have "\<dots> \<longleftrightarrow> open_credentials s q {} {} (r, now) \<noteq> {}"
    using inspect_group_routable [OF s inv] unfolding ex_in_conv [symmetric] open_credentials_iff [OF s] by fastforce
  finally have main: "(\<exists>d \<in> set ds. gi_Routable (?ins d)) \<longleftrightarrow> open_credentials s q {} {} (r, now) \<noteq> {}" .
  show ?thesis
  proof (cases "akv_Status (nq_accessKey (normalizeQuery q)) = AccessKeyStatusDisabled")
    case True
    then have "ds = []" using ev by (simp add: evaluateTargets_def)
    with main True show ?thesis by (simp add: Inspect_def Let_def)
  next
    case False
    with main unl ev show ?thesis by (simp add: Inspect_def Let_def list_ex_iff)
  qed
qed

section \<open>A small configuration\<close>

definition sample_json :: channel_json where
  "sample_json = \<lparr>cj_decode = (\<lambda>raw. Inr []), cj_marshal = (\<lambda>vs. ''{}''), cj_valid = (\<lambda>raw. True)\<rparr>"

definition sample_urls :: url_library where
  "sample_urls = \<lparr>lib_Parse = (\<lambda>s. None), lib_String = u_Host, lib_Hostname = id, lib_Port = (\<lambda>h. []), lib_UserString = id\<rparr>"

definition sample_channel :: channel_definition where
  "sample_channel = \<lparr>cd_descriptor = \<lparr>ds_ID = ''openai'', ds_Name = ''OpenAI'', ds_Description = [], ds_SearchTerms = [],
       ds_ConnectionType = ''api_key'', ds_AuthorizationMethods = [], ds_ClientProtocols = [OpenAICompletions]\<rparr>,
     cd_params = [], cd_validateParams = None, cd_credentials = [], cd_validateCredential = None,
     cd_catalogProviderID = ''openai'', cd_providerKind = ''openai'', cd_connectionType = ConnectionAPIKey,
     cd_credentialInput = ''text'', cd_endpointPolicy = EndpointFixedWithOverride, cd_fixedBaseURL = [],
     cd_fixedTargetConfig = [], cd_modes = [(OpenAICompletions, [(OperationChatCompletion, RouteNative)])],
     cd_resolvers = [], cd_responsesStoreHandlings = []\<rparr>"

definition sample_channels :: ChannelRegistry where
  "sample_channels = \<lparr>byID = [''openai'' \<mapsto> sample_channel], order = [''openai'']\<rparr>"

definition sample_group :: GroupConfig where
  "sample_group = \<lparr>gc_ID = 3, gc_Name = ''main'', gc_ChannelID = ''openai'', gc_ConnectionType = ''api_key'', gc_Params = [],
     gc_ValidationModel = [], gc_Models = [\<lparr>mc_ID = ''gpt'', mc_Alias = []\<rparr>], gc_Settings = [], gc_WeightManual = None,
     gc_Enabled = True, gc_Proxy = None\<rparr>"

definition sample_input :: CompileInput where
  "sample_input = \<lparr>ci_SystemSettings = [], ci_ChannelRegistry = Some sample_channels, ci_Groups = [sample_group],
     ci_Credentials = [], ci_AccessKeys = [], ci_GlobalProxy = None, ci_EnvironmentProxy = None\<rparr>"

definition sample_snapshot :: ConfigSnapshot where
  "sample_snapshot = projr (Compile sample_platform sample_urls sample_json sample_input)"

definition sample_query :: Query where
  "sample_query = \<lparr>q_ClientProtocol = OpenAICompletions, q_Operation = Operation_other [], q_RouteRequirement = RouteRequirementEmpty,
     q_ResponsesStorePreference = ResponsesStorePreferenceNone, q_ExternalModel = Some ''gpt'',
     q_AccessKey = \<lparr>akv_ID = 1, akv_Name = [], akv_KeySuffix = [], akv_Status = AccessKeyStatusActive,
       akv_Filters = \<lparr>fl_Groups = [], fl_Protocols = [], fl_Models = []\<rparr>, akv_ExpiresAtMS = None,
       akv_AllowedPeerCIDRs = [], akv_RPMLimit = 0, akv_CostLimitRules = []\<rparr>,
     q_AllowedCredentialIDs = None, q_PreferredCredentialID = 0\<rparr>"

text \<open>The registry holds one healthy credential, 7, of group 3.\<close>

definition live_registry :: CredentialRegistry where
  "live_registry = the (run_registry [OpReplace [Registry_Properties.sample_entry]])"

definition sample_pool :: candidatePool where
  "sample_pool = it_regular (newWithClock (Some sample_snapshot) sample_query)"

lemma sample_compiles: "Compile sample_platform sample_urls sample_json sample_input = Inr sample_snapshot"
proof -
  have "is_ok (Compile sample_platform sample_urls sample_json sample_input)" by code_simp
  then show ?thesis by (auto simp: sample_snapshot_def is_ok_iff)
qed

lemma live_registry_run: "run_registry [OpReplace [Registry_Properties.sample_entry]] = Some live_registry"
  using run_from_refines [OF reg_inv_new] by (force simp: live_registry_def run_registry_def)

lemma live_registry_inv: "reg_inv live_registry"
  using run_registry_inv [OF live_registry_run] by simp

lemma live_entries: "length (all_entries live_registry) = 1" "map ce_GroupID (all_entries live_registry) = [3]"
  by code_simp+

lemma sample_readings: "readings_ok (\<lambda>i. (live_registry, 5))" "draws_ok (\<lambda>n. 0)"
  by (simp_all add: readings_ok_def draws_ok_def live_registry_inv live_entries)

lemma sample_next:
  "\<exists>sel it'. Next registry_collect (\<lambda>i. (live_registry, 5)) (\<lambda>n. 0) (newWithClock (Some sample_snapshot) sample_query) = (Inr sel, it')
     \<and> sel_CredentialID sel = 7"
proof -
  let ?r = "Next registry_collect (\<lambda>i. (live_registry, 5)) (\<lambda>n. 0) (newWithClock (Some sample_snapshot) sample_query)"
  have "is_ok (fst ?r) \<and> sel_CredentialID (projr (fst ?r)) = 7" by code_simp
  then show ?thesis by (cases ?r; cases "fst ?r") auto
qed

section \<open>Properties\<close>

text \<open>
  Property C4. Whatever a request has drawn and skipped before, a call of \<open>Next\<close> on a
  compiled snapshot either selects a credential that is eligible, of the first level that
  has one (routes that keep stored responses before those that do not, native before
  converted), and the preferred credential if that level offers it, or reports exhaustion,
  and then no level has an eligible credential.
\<close>

theorem next_selects_first_level:
  assumes "Compile pl lib json input = Inr s" and "calls_ok calls"
    and "run_calls calls (newWithClock (Some s) q) = (sels, it)" and "readings_ok observe" and "draws_ok draw"
  defines "can \<equiv> \<lambda>k. eligible s q (sel_CredentialID ` set sels) (skipped_by calls) (levels ! k) (observe k)"
  shows "(fst (Next registry_collect observe draw it) = Inl ErrExhausted \<and> (\<forall>k < 4. \<forall>c. \<not> can k c))
    \<or> (\<exists>k sel. k < 4 \<and> fst (Next registry_collect observe draw it) = Inr sel
         \<and> can k (sel_CredentialID sel) \<and> (\<forall>j < k. \<forall>c. \<not> can j c)
         \<and> map_option ce_GroupID (entryLocked (fst (observe k)) (sel_CredentialID sel)) = Some (sel_GroupID sel)
         \<and> (sel_ResponsesStoreDowngraded sel, sel_RouteMode sel) = levels ! k
         \<and> (q_PreferredCredentialID q \<noteq> 0 \<and> can k (q_PreferredCredentialID q)
              \<longrightarrow> sel_CredentialID sel = q_PreferredCredentialID q))"
proof -
  have s: "consistent s" using compile_consistent [OF assms(1)] by simp
  from run_calls_marks [OF s iterator_for_new [OF s] assms(2,3)] new_tried [of "Some s" q]
  have it: "iterator_for s q it" and marks: "it_tried it = sel_CredentialID ` set sels" "it_skippedGroups it = skipped_by calls"
    by auto
  from next_spec [OF s it assms(4,5)] show ?thesis unfolding can_def marks
    by (elim disjE exE conjE) (fastforce intro: disjI1 disjI2)+
qed

theorem next_selects_first_level_witness:
  "\<exists>sel. fst (Next registry_collect (\<lambda>i. (live_registry, 5)) (\<lambda>n. 0) (newWithClock (Some sample_snapshot) sample_query)) = Inr sel
     \<and> sel_CredentialID sel = 7 \<and> eligible sample_snapshot sample_query {} {} (False, RouteNative) (live_registry, 5) 7"
proof -
  have run: "run_calls [] (newWithClock (Some sample_snapshot) sample_query) = ([], newWithClock (Some sample_snapshot) sample_query)"
    by simp
  have mode: "(sel_ResponsesStoreDowngraded sel, sel_RouteMode sel) = (False, RouteNative)"
    if "fst (Next registry_collect (\<lambda>i. (live_registry, 5)) (\<lambda>n. 0) (newWithClock (Some sample_snapshot) sample_query)) = Inr sel" for sel
  proof -
    have "(let sel = projr (fst (Next registry_collect (\<lambda>i. (live_registry, 5)) (\<lambda>n. 0) (newWithClock (Some sample_snapshot) sample_query)))
           in (sel_ResponsesStoreDowngraded sel, sel_RouteMode sel)) = (False, RouteNative)" by code_simp
    then show ?thesis using that by simp
  qed
  from sample_next next_selects_first_level [OF sample_compiles _ run sample_readings]
  obtain k sel where "fst (Next registry_collect (\<lambda>i. (live_registry, 5)) (\<lambda>n. 0) (newWithClock (Some sample_snapshot) sample_query)) = Inr sel"
    "sel_CredentialID sel = 7" "eligible sample_snapshot sample_query {} {} (levels ! k) (live_registry, 5) (sel_CredentialID sel)"
    "(sel_ResponsesStoreDowngraded sel, sel_RouteMode sel) = levels ! k" by fastforce
  with mode show ?thesis by metis
qed

text \<open>
  Property C10. Retries end. Against a registry that does not change, the draws of a request
  never give a credential twice, as many draws as there are eligible credentials give every
  one of them, and the next draw reports exhaustion.
\<close>

theorem retries_visit_each_once:
  assumes "Compile pl lib json input = Inr s" and "readings_ok (\<lambda>i. reading)" and "list_all draws_ok (draw # draws)"
    and "run_calls (map (Draw (\<lambda>i. reading)) draws) (newWithClock (Some s) q) = (sels, it)"
    and "card (open_credentials s q {} {} reading) \<le> length draws"
  shows "distinct (map sel_CredentialID sels) \<and> sel_CredentialID ` set sels = open_credentials s q {} {} reading
    \<and> fst (Next registry_collect (\<lambda>i. reading) draw it) = Inl ErrExhausted"
proof -
  have s: "consistent s" using compile_consistent [OF assms(1)] by simp
  note it0 = iterator_for_new [OF s, of q] and nt = new_tried [of "Some s" q]
  have ok: "calls_ok (map (Draw (\<lambda>i. reading)) ds)" if "list_all draws_ok ds" for ds
    using that assms(2) by (induction ds) auto
  have d: "list_all draws_ok draws" "draws_ok draw" using assms(3) by simp_all
  from run_calls_marks [OF s it0 ok [OF d(1)] assms(4)] nt
  have it: "iterator_for s q it" "distinct (map sel_CredentialID sels)" "it_tried it = {} \<union> sel_CredentialID ` set sels"
    and sk: "it_skippedGroups it = {}"
  proof -
    have "skipped_by (map (Draw (\<lambda>i. reading)) ds) = {}" for ds by (induction ds) auto
    then show "it_skippedGroups it = {}" using run_calls_marks [OF s it0 ok [OF d(1)] assms(4)] nt by auto
  qed (use run_calls_marks [OF s it0 ok [OF d(1)] assms(4)] nt in auto)
  have all: "sel_CredentialID ` set sels = open_credentials s q {} {} reading"
    using drain [OF s assms(2) it0 d(1) assms(4)] assms(5) nt by auto
  have "open_credentials s q (it_tried it) (it_skippedGroups it) reading = {}"
    unfolding it(3) sk open_credentials_tried all by simp
  then have "\<forall>k < 4. \<forall>c. \<not> eligible s q (it_tried it) (it_skippedGroups it) (levels ! k) reading c"
    by (auto simp: open_credentials_def)
  with next_spec [OF s it(1) assms(2) d(2)] it(2) all show ?thesis by (metis fst_conv)
qed

theorem retries_visit_each_once_witness:
  "card (open_credentials sample_snapshot sample_query {} {} (live_registry, 5)) \<le> 1
   \<and> sel_CredentialID ` set (fst (run_calls [Draw (\<lambda>i. (live_registry, 5)) (\<lambda>n. 0)] (newWithClock (Some sample_snapshot) sample_query)))
       = open_credentials sample_snapshot sample_query {} {} (live_registry, 5)"
proof -
  let ?r = "run_calls (map (Draw (\<lambda>i. (live_registry, 5))) [\<lambda>n. 0]) (newWithClock (Some sample_snapshot) sample_query)"
  have "open_credentials sample_snapshot sample_query {} {} (live_registry, 5) \<subseteq> ce_ID ` set (all_entries live_registry)"
  proof
    fix c assume "c \<in> open_credentials sample_snapshot sample_query {} {} (live_registry, 5)"
    then obtain e where e: "entryLocked live_registry c = Some e" by (auto simp: open_credentials_def eligible_def)
    then have "ce_ID e = c" using linked_entry live_registry_inv unfolding reg_inv_def by blast
    with e show "c \<in> ce_ID ` set (all_entries live_registry)" using set_all_entries [OF live_registry_inv, of e] by auto
  qed
  then have "card (open_credentials sample_snapshot sample_query {} {} (live_registry, 5)) \<le> card (ce_ID ` set (all_entries live_registry))"
    by (intro card_mono) simp_all
  also have "\<dots> \<le> 1" using card_image_le [of "set (all_entries live_registry)" ce_ID] card_length [of "all_entries live_registry"] live_entries(1) by simp
  finally have card: "card (open_credentials sample_snapshot sample_query {} {} (live_registry, 5)) \<le> length [\<lambda>n :: int. 0 :: int]" by simp
  have "?r = (fst ?r, snd ?r)" by simp
  from retries_visit_each_once [OF sample_compiles sample_readings(1) _ this card, of "\<lambda>n. 0"] sample_readings(2) card
  show ?thesis by simp
qed

text \<open>
  Property C14. The inspection tells the truth: on a compiled snapshot whose groups own every
  registered credential, \<open>Inspect\<close> succeeds, and it calls the query routable exactly when a
  fresh iterator would select a credential, although the one reads the full catalog and the
  runtime views and the other the candidates and the registry.
\<close>

theorem inspect_agrees_with_next:
  assumes "Compile pl lib json input = Inr s" and "reg_inv r" and "length (all_entries r) \<le> 10 ^ 14"
    and "ce_GroupID ` set (all_entries r) \<subseteq> gc_ID ` set (ci_Groups input)" and "draws_ok draw"
  shows "\<exists>insp. Inspect (Some s) (Registry_Snapshot r) q now = Inr insp
    \<and> (in_Routable insp \<longleftrightarrow> is_ok (fst (Next registry_collect (\<lambda>i. (r, now)) draw (newWithClock (Some s) q))))"
proof -
  have s: "consistent s" and dom: "dom (map_of (cs_GroupCatalog s)) = gc_ID ` set (ci_Groups input)"
    using compile_consistent [OF assms(1)] by simp_all
  have "\<forall>e \<in> set (all_entries r). map_of (cs_GroupCatalog s) (ce_GroupID e) \<noteq> None"
    using assms(4) dom by blast
  from inspect_routable [OF s assms(2) this] obtain insp where insp: "Inspect (Some s) (Registry_Snapshot r) q now = Inr insp"
    "in_Routable insp \<longleftrightarrow> open_credentials s q {} {} (r, now) \<noteq> {}" by blast
  have obs: "readings_ok (\<lambda>i. (r, now))" using assms(2,3) by (simp add: readings_ok_def)
  from next_spec [OF s iterator_for_new [OF s] obs assms(5), of q] new_tried [of "Some s" q]
  have "is_ok (fst (Next registry_collect (\<lambda>i. (r, now)) draw (newWithClock (Some s) q))) \<longleftrightarrow>
      open_credentials s q {} {} (r, now) \<noteq> {}"
    unfolding open_credentials_def by auto
  with insp show ?thesis by blast
qed

theorem inspect_agrees_with_next_witness:
  "\<exists>insp. Inspect (Some sample_snapshot) (Registry_Snapshot live_registry) sample_query 5 = Inr insp \<and> in_Routable insp"
proof -
  have g: "ce_GroupID ` set (all_entries live_registry) \<subseteq> gc_ID ` set (ci_Groups sample_input)"
    unfolding set_map [symmetric] live_entries(2) by (simp add: sample_input_def sample_group_def)
  have l: "length (all_entries live_registry) \<le> 10 ^ 14" using live_entries(1) by simp
  from inspect_agrees_with_next [OF sample_compiles live_registry_inv l g sample_readings(2), of sample_query 5] sample_next
  show ?thesis by (metis fst_conv is_ok_simps(2))
qed

text \<open>
  Property C26. Without a preferred credential a stage draws in proportion to the weights: of
  the tickets below the total weight exactly as many select a credential as its group weight
  times its own weight, and the total, an \<open>int64\<close> sum, does not wrap.
\<close>

theorem tickets_follow_weights:
  assumes "reg_inv r" and "length (all_entries r) \<le> 10 ^ 14" and "pool_inv pool" and "it_preferredCredentialID it = 0"
    and "weightedPoolForCandidatePool (registry_collect (r, now)) it pool mode = (weighted, totalWeight)" and "c \<in> set weighted"
  shows "0 < wc_weight c \<and> totalWeight = sum_list (map wc_weight weighted) \<and> int64 totalWeight
    \<and> card {t. 0 \<le> t \<and> t < totalWeight \<and> select_credential (\<lambda>n. t) it weighted totalWeight = wc_meta c} = nat (wc_weight c)"
proof -
  have inv: "reg_inv (fst (r, now))" using assms(1) by simp
  have size: "card (registry_offers (r, now)) \<le> 10 ^ 14" using registry_offers_card [OF inv] assms(2) by simp
  note wp = registry_source.weighted_pool [OF inv assms(3) size assms(5)]
  have sel: "select_credential (\<lambda>n. t) it weighted totalWeight = pick_ticket t (wc_meta (last weighted)) weighted" for t
    using assms(4) by (simp add: select_credential_def preferredCredential_def)
  have "length weighted \<le> 10 ^ 14"
  proof -
    have "length weighted = card (wc_meta ` set weighted)" using distinct_card [OF wp(2)] by simp
    also have "\<dots> \<le> card (registry_offers (r, now))"
      unfolding wp(1) using registry_source.offers_finite [OF inv] by (intro card_mono) (auto simp: usable_def)
    finally show ?thesis using size by simp
  qed
  then have "10000 * int (length weighted) \<le> 10000 * 10 ^ 14" by (metis mult_left_mono of_nat_le_iff of_nat_numeral of_nat_power zero_le_numeral)
  then have "int64 totalWeight" using weight_sum_bounds [OF wp(3)] wp(4) by (simp add: int64_defs)
  with ticket_count [OF wp(3,2) assms(6)] wp(3,4) assms(6) show ?thesis unfolding sel by (auto simp: weights_ok_def)
qed

theorem tickets_follow_weights_witness:
  "\<exists>weighted totalWeight. weightedPoolForCandidatePool (registry_collect (live_registry, 5))
         (newWithClock (Some sample_snapshot) sample_query) sample_pool RouteNative = (weighted, totalWeight)
     \<and> map (\<lambda>c. cm_ID (wc_meta c)) weighted = [7]
     \<and> card {t. 0 \<le> t \<and> t < totalWeight \<and> select_credential (\<lambda>n. t) (newWithClock (Some sample_snapshot) sample_query)
              weighted totalWeight = wc_meta (hd weighted)} = nat (wc_weight (hd weighted))"
proof -
  let ?it = "newWithClock (Some sample_snapshot) sample_query"
  obtain w n where wn: "weightedPoolForCandidatePool (registry_collect (live_registry, 5)) ?it sample_pool RouteNative = (w, n)"
    by fastforce
  have s: "consistent sample_snapshot" using compile_consistent [OF sample_compiles] by simp
  have pool: "pool_inv sample_pool" using newWithClock_holds [OF s, of sample_query]
    by (simp add: sample_pool_def holds_targets_def) (metis pool_of_def)
  have l: "length (all_entries live_registry) \<le> 10 ^ 14" using live_entries(1) by simp
  have pref: "it_preferredCredentialID ?it = 0" by code_simp
  have "map (\<lambda>c. cm_ID (wc_meta c)) (fst (weightedPoolForCandidatePool (registry_collect (live_registry, 5)) ?it sample_pool RouteNative)) = [7]"
    by code_simp
  then have ids: "map (\<lambda>c. cm_ID (wc_meta c)) w = [7]" unfolding wn by simp
  then have "hd w \<in> set w" by (intro hd_in_set) auto
  from tickets_follow_weights [OF live_registry_inv l pool pref wn this] wn ids show ?thesis
    by (elim conjE) (intro exI [of _ w] exI [of _ n] conjI; assumption)
qed

end
