(* ===== verification/Gateway_Result.thy ===== *)
theory Gateway_Result
  imports Health_Stats Pricing_Quote
begin

text \<open>
  The gateway's view of one attempt (\<open>src/internal/gateway/forward.go\<close>), the end of a stream
  (\<open>stream_observation.go\<close>), the evidence handed to the judge (\<open>execution_boundary.go\<close>), and the
  reasons and error codes shown to a client (\<open>reason.go\<close>, \<open>request_log.go\<close>).

  A Go \<open>error\<close> is only ever inspected with \<open>errors.Is\<close> and \<open>errors.As\<close>, so an error is the record
  of the answers to those questions; wrapped and joined errors may answer several with yes.
\<close>

section \<open>Errors and contexts\<close>

datatype streamFailureKind =
    streamFailureUpstreamRead | streamFailureProtocol | streamFailureIdle
  | streamFailureDownstreamWrite | streamFailureClientCanceled | streamFailure_other nat

record go_error =
  ge_Canceled :: bool
  ge_DeadlineExceeded :: bool
  ge_UpstreamProtocol :: bool
  ge_NetTimeout :: bool
  ge_StreamIdle :: bool
  ge_streamFailure :: "streamFailureKind option"

definition plain_error :: go_error where
  "plain_error = \<lparr>ge_Canceled = False, ge_DeadlineExceeded = False, ge_UpstreamProtocol = False,
     ge_NetTimeout = False, ge_StreamIdle = False, ge_streamFailure = None\<rparr>"

definition context_Canceled :: go_error where
  "context_Canceled = plain_error\<lparr>ge_Canceled := True\<rparr>"

definition ErrUpstreamProtocol :: go_error where
  "ErrUpstreamProtocol = plain_error\<lparr>ge_UpstreamProtocol := True\<rparr>"

text \<open>\<open>errors.Is\<close> and \<open>errors.As\<close> are false of a nil error.\<close>

definition err_is :: "(go_error \<Rightarrow> bool) \<Rightarrow> go_error option \<Rightarrow> bool" where
  "err_is p e = (case e of None \<Rightarrow> False | Some err \<Rightarrow> p err)"

definition isTimeoutError :: "go_error option \<Rightarrow> bool" where
  "isTimeoutError e \<longleftrightarrow> err_is ge_DeadlineExceeded e \<or> err_is ge_NetTimeout e"

text \<open>The request context: its error once it is done, and whether the server shutdown is the cause.\<close>

record Context =
  cx_Err :: "go_error option"
  cx_ShutdownCause :: bool

definition isServerShutdown :: "Context option \<Rightarrow> bool" where
  "isServerShutdown ctx = (case ctx of None \<Rightarrow> False | Some c \<Rightarrow> cx_ShutdownCause c)"

definition cancellationErrorCode :: "Context option \<Rightarrow> string" where
  "cancellationErrorCode ctx = (if isServerShutdown ctx then ''server_shutdown'' else ''client_canceled'')"

section \<open>Streams\<close>

datatype StreamEndReason =
    StreamEndNone | StreamEndCleanEOF | StreamEndSSEError | StreamEndUpstreamTerminated
  | StreamEndUpstreamProtocolError | StreamEndIdleTimeout | StreamEndDownstreamWriteFailure
  | StreamEndClientCanceled | StreamEndServerShutdown | StreamEndProviderIncomplete
  | StreamEnd_other nat

record StreamObservation =
  so_EndReason :: StreamEndReason
  so_ErrorSummary :: string

definition StreamObservation0 :: StreamObservation where
  "StreamObservation0 = \<lparr>so_EndReason = StreamEndNone, so_ErrorSummary = []\<rparr>"

definition streamErrorCode :: "StreamEndReason \<Rightarrow> string" where
  "streamErrorCode r =
     (case r of
        StreamEndCleanEOF \<Rightarrow> []
      | StreamEndNone \<Rightarrow> []
      | StreamEndSSEError \<Rightarrow> ''upstream_sse_error''
      | StreamEndUpstreamTerminated \<Rightarrow> ''upstream_stream_terminated''
      | StreamEndUpstreamProtocolError \<Rightarrow> ''upstream_protocol_error''
      | StreamEndIdleTimeout \<Rightarrow> ''upstream_stream_idle_timeout''
      | StreamEndDownstreamWriteFailure \<Rightarrow> ''downstream_write_failed''
      | StreamEndClientCanceled \<Rightarrow> ''client_canceled''
      | StreamEndServerShutdown \<Rightarrow> ''server_shutdown''
      | StreamEndProviderIncomplete \<Rightarrow> ''upstream_response_incomplete''
      | StreamEnd_other _ \<Rightarrow> ''upstream_stream_terminated'')"

definition summary_table :: "(string, string) gomap" where
  "summary_table =
     [(''upstream_rate_limited'', ''Upstream rate limited the request.''),
      (''upstream_model_unavailable'', ''The requested upstream model is unavailable.''),
      (''upstream_invalid_key'', ''The upstream credential was rejected.''),
      (''upstream_authentication_required'', ''The upstream credential requires authentication.''),
      (''upstream_host_error'', ''The upstream service returned a server error.''),
      (''upstream_client_error'', ''The upstream service rejected the request.''),
      (''upstream_connect_failed'', ''Could not connect to an upstream service.''),
      (''upstream_timeout'', ''Upstream request timed out.''),
      (''upstream_protocol_error'', ''Upstream returned an unsupported response.''),
      (''protocol_conversion_unsupported'', ''No upstream target could preserve or convert the request.''),
      (''upstream_sse_error'', ''Upstream stream reported an error.''),
      (''upstream_stream_terminated'', ''Upstream stream terminated before completion.''),
      (''upstream_stream_idle_timeout'', ''Upstream stream timed out while idle.''),
      (''downstream_write_failed'', ''The downstream response could not be completed.''),
      (''internal_error'', ''The request failed due to an internal error.''),
      (''client_canceled'', ''The client canceled the request.''),
      (''server_shutdown'', ''The server canceled the request during shutdown.'')]"

definition fixedErrorSummary :: "string \<Rightarrow> string" where
  "fixedErrorSummary code = (case map_of summary_table code of Some s \<Rightarrow> s | None \<Rightarrow> ''Upstream request failed.'')"

definition streamTerminalObservation :: "StreamEndReason \<Rightarrow> StreamObservation" where
  "streamTerminalObservation r = \<lparr>so_EndReason = r, so_ErrorSummary = fixedErrorSummary (streamErrorCode r)\<rparr>"

definition failure_end :: "streamFailureKind \<Rightarrow> StreamEndReason option" where
  "failure_end kind =
     (case kind of
        streamFailureClientCanceled \<Rightarrow> Some StreamEndClientCanceled
      | streamFailureDownstreamWrite \<Rightarrow> Some StreamEndDownstreamWriteFailure
      | streamFailureIdle \<Rightarrow> Some StreamEndIdleTimeout
      | streamFailureProtocol \<Rightarrow> Some StreamEndUpstreamProtocolError
      | streamFailureUpstreamRead \<Rightarrow> Some StreamEndUpstreamTerminated
      | streamFailure_other _ \<Rightarrow> None)"

definition prioritizeStreamObservation :: "Context option \<Rightarrow> go_error option \<Rightarrow> StreamObservation \<Rightarrow> StreamObservation" where
  "prioritizeStreamObservation ctx err observation =
     (if isServerShutdown ctx then streamTerminalObservation StreamEndServerShutdown
      else if (\<exists>c \<in> set_option ctx. cx_Err c \<noteq> None) \<or> err_is ge_Canceled err
      then streamTerminalObservation StreamEndClientCanceled
      else case Option.bind (Option.bind err ge_streamFailure) failure_end of
        Some r \<Rightarrow> streamTerminalObservation r
      | None \<Rightarrow>
          if err_is ge_UpstreamProtocol err then streamTerminalObservation StreamEndUpstreamProtocolError
          else if err_is ge_StreamIdle err then streamTerminalObservation StreamEndIdleTimeout
          else if err \<noteq> None then streamTerminalObservation StreamEndUpstreamTerminated
          else if so_EndReason observation \<noteq> StreamEndNone then observation
          else \<lparr>so_EndReason = StreamEndCleanEOF, so_ErrorSummary = []\<rparr>)"

section \<open>The result of an attempt\<close>

record ReasoningConfig =
  rg_Mode :: string
  rg_Effort :: string
  rg_BudgetTokens :: "int option"

definition ReasoningConfig0 :: ReasoningConfig where
  "ReasoningConfig0 = \<lparr>rg_Mode = [], rg_Effort = [], rg_BudgetTokens = None\<rparr>"

record UpstreamResult =
  ur_StatusCode :: int
  ur_Header :: Header
  ur_Body :: string
  ur_ClassificationBody :: string
  ur_UpstreamReportedModel :: string
  ur_ResponseModelObserved :: bool
  ur_ResponseModelMismatch :: bool
  ur_ErrorSummary :: string
  ur_Err :: "go_error option"
  ur_RequestWritten :: bool
  ur_Committed :: bool
  ur_ProviderErrorBeforeCommit :: bool
  ur_Stream :: StreamObservation
  ur_Usage :: Result
  ur_DispatchState :: DispatchState
  ur_ResponseStarted :: bool
  ur_UpstreamProtocol :: Protocol
  ur_AppliedReasoning :: ReasoningConfig
  ur_UpstreamRequestID :: string
  ur_ExecutionError :: "ErrorEvidence option"

text \<open>The zero values of the structs; the zero \<open>State\<close> and \<open>DispatchState\<close> are the empty string.\<close>

definition Usage_Result0 :: Result where
  "Usage_Result0 = \<lparr>rs_Tokens = Tokens0, rs_State = State_other [], rs_Diagnostics = Diagnostics0\<rparr>"

definition UpstreamResult0 :: UpstreamResult where
  "UpstreamResult0 = \<lparr>ur_StatusCode = 0, ur_Header = [], ur_Body = [], ur_ClassificationBody = [],
     ur_UpstreamReportedModel = [], ur_ResponseModelObserved = False, ur_ResponseModelMismatch = False,
     ur_ErrorSummary = [], ur_Err = None, ur_RequestWritten = False, ur_Committed = False,
     ur_ProviderErrorBeforeCommit = False, ur_Stream = StreamObservation0, ur_Usage = Usage_Result0,
     ur_DispatchState = DispatchState_other [], ur_ResponseStarted = False, ur_UpstreamProtocol = [],
     ur_AppliedReasoning = ReasoningConfig0, ur_UpstreamRequestID = [], ur_ExecutionError = None\<rparr>"

definition ErrorEvidence0 :: ErrorEvidence where
  "ErrorEvidence0 = \<lparr>ev_Kind = ErrorKind_other [], ev_Hint = FailureHintEmpty, ev_OriginHint = ErrorOriginEmpty,
     ev_ScopeHint = ErrorScopeEmpty, ev_StatusCode = 0, ev_Type = [], ev_Code = [], ev_Summary = [],
     ev_RequestID = [], ev_RetryAfter = 0, ev_ReplaySafety = ReplaySafetyEmpty, ev_Header = []\<rparr>"

definition HasResponse :: "UpstreamResult \<Rightarrow> bool" where
  "HasResponse result \<longleftrightarrow> ur_StatusCode result \<noteq> 0 \<and> ur_Err result = None"

definition isConversionUnsupportedResult :: "UpstreamResult \<Rightarrow> bool" where
  "isConversionUnsupportedResult result \<longleftrightarrow> ur_DispatchState result = DispatchNotSent
     \<and> (\<exists>ev \<in> set_option (ur_ExecutionError result). ev_Kind ev = ErrorKindConversionUnsupported)"

definition normalizeUpstreamResultContract :: "UpstreamResult \<Rightarrow> UpstreamResult" where
  "normalizeUpstreamResultContract result =
     (if DispatchState_Valid (ur_DispatchState result) then result
      else
        let dispatchState = (if ur_DispatchState result = DispatchLocal then DispatchLocal
              else if ur_DispatchState result = DispatchMaybeSent \<or> ur_RequestWritten result
                \<or> ur_Committed result \<or> ur_ResponseStarted result \<or> ur_StatusCode result \<noteq> 0
                \<or> ur_Header result \<noteq> [] \<or> ur_Body result \<noteq> [] then DispatchMaybeSent
              else DispatchNotSent);
            evidence = ErrorEvidence0\<lparr>ev_Kind := ErrorKindInternal, ev_OriginHint := ErrorOriginInternal,
              ev_ScopeHint := ErrorScopeRequest, ev_Code := ''attempt_result_contract_invalid'',
              ev_Summary := ''Attempt forwarder returned an invalid result.'', ev_ReplaySafety := ReplaySafetyUnknown\<rparr>;
            normalized = UpstreamResult0\<lparr>ur_Err := Some ErrUpstreamProtocol,
              ur_RequestWritten := (dispatchState = DispatchMaybeSent), ur_Committed := ur_Committed result,
              ur_DispatchState := dispatchState, ur_ExecutionError := Some evidence, ur_ErrorSummary := ev_Summary evidence\<rparr>
        in if ur_Committed result
           then normalized\<lparr>ur_Stream := streamTerminalObservation StreamEndUpstreamProtocolError\<rparr> else normalized)"

section \<open>Evidence for the judge\<close>

definition stream_evidence :: "ErrorKind \<Rightarrow> UpstreamResult \<Rightarrow> string \<Rightarrow> string \<Rightarrow> ErrorEvidence" where
  "stream_evidence kind result code summary =
     ErrorEvidence0\<lparr>ev_Kind := kind, ev_OriginHint := ErrorOriginUpstream, ev_ScopeHint := ErrorScopeRequest,
       ev_StatusCode := ur_StatusCode result, ev_Code := code, ev_Summary := summary\<rparr>"

definition decisionEvidence :: "UpstreamResult \<Rightarrow> ErrorEvidence option \<times> go_error option" where
  "decisionEvidence result =
     (let evidence = ur_ExecutionError result;
          reason = so_EndReason (ur_Stream result);
          summary = (if so_ErrorSummary (ur_Stream result) = [] then fixedErrorSummary (streamErrorCode reason)
                     else so_ErrorSummary (ur_Stream result))
      in case reason of
        StreamEndNone \<Rightarrow>
          if evidence = None \<and> err_is ge_UpstreamProtocol (ur_Err result)
          then (Some (stream_evidence ErrorKindProvider result ''upstream_protocol_error''
                  (fixedErrorSummary ''upstream_protocol_error'')), None)
          else (evidence, ur_Err result)
      | StreamEndCleanEOF \<Rightarrow> (None, None)
      | StreamEndProviderIncomplete \<Rightarrow>
          (Some (stream_evidence ErrorKindProvider result ''upstream_response_incomplete'' summary), None)
      | StreamEndSSEError \<Rightarrow>
          (Some (case evidence of Some ev \<Rightarrow> ev
             | None \<Rightarrow> stream_evidence ErrorKindProvider result ''upstream_sse_error'' summary), None)
      | StreamEndUpstreamTerminated \<Rightarrow>
          (Some (stream_evidence ErrorKindTransport result ''upstream_stream_terminated'' summary), None)
      | StreamEndUpstreamProtocolError \<Rightarrow>
          (Some (stream_evidence ErrorKindProvider result ''upstream_protocol_error'' summary), None)
      | StreamEndIdleTimeout \<Rightarrow>
          (Some (stream_evidence ErrorKindTimeout result ''upstream_stream_idle_timeout'' summary), None)
      | StreamEndDownstreamWriteFailure \<Rightarrow> (evidence, Some plain_error)
      | StreamEndClientCanceled \<Rightarrow> (evidence, Some context_Canceled)
      | StreamEndServerShutdown \<Rightarrow> (evidence, Some context_Canceled)
      | StreamEnd_other _ \<Rightarrow>
          (Some (ErrorEvidence0\<lparr>ev_Kind := ErrorKindInternal, ev_OriginHint := ErrorOriginInternal,
             ev_Code := ''attempt_result_contract_invalid'',
             ev_Summary := ''Attempt ended with an invalid terminal state.''\<rparr>), None))"

text \<open>What the judge asks of the downstream error.\<close>

definition downstream_err :: "go_error option \<Rightarrow> DownstreamErr" where
  "downstream_err e =
     (case e of None \<Rightarrow> DownstreamOK
      | Some err \<Rightarrow> if ge_Canceled err then DownstreamCanceled
                   else if ge_DeadlineExceeded err then DownstreamDeadlineExceeded else DownstreamOther)"

definition judgeUpstreamResult :: "TimeParsers \<Rightarrow> UpstreamResult \<Rightarrow> time \<Rightarrow> DecisionContext \<Rightarrow> HealthDecision" where
  "judgeUpstreamResult tp result now decisionContext =
     (case decisionEvidence result of (evidence, downstreamErr) \<Rightarrow>
        let downstreamErr' = (if evidence \<noteq> None \<and> \<not> ur_Committed result
              \<and> \<not> err_is ge_Canceled (ur_Err result) \<and> \<not> err_is ge_DeadlineExceeded (ur_Err result)
              then None else downstreamErr)
        in JudgeExecution tp
             \<lparr>at_DispatchState = ur_DispatchState result, at_StatusCode = ur_StatusCode result,
              at_Header = ur_Header result, at_Evidence = evidence, at_DownstreamCommitted = ur_Committed result,
              at_DownstreamErr = downstream_err downstreamErr', at_Now = now\<rparr> decisionContext)"

section \<open>Reasons and error codes\<close>

record reason =
  re_Status :: int
  re_Code :: string
  re_Message :: string

definition reasonInvalidAccessKey :: reason where
  "reasonInvalidAccessKey = \<lparr>re_Status = 401, re_Code = ''invalid_access_key'', re_Message = ''Invalid access key.''\<rparr>"
definition reasonEndpointNotFound :: reason where
  "reasonEndpointNotFound = \<lparr>re_Status = 404, re_Code = ''protocol_endpoint_not_found'', re_Message = ''Protocol endpoint not found.''\<rparr>"
definition reasonInvalidProtocolRequest :: reason where
  "reasonInvalidProtocolRequest = \<lparr>re_Status = 400, re_Code = ''invalid_protocol_request'', re_Message = ''Invalid protocol request.''\<rparr>"
definition reasonModelRequiredByFilter :: reason where
  "reasonModelRequiredByFilter = \<lparr>re_Status = 400, re_Code = ''model_required_by_filter'',
     re_Message = ''A model is required by the access key filter.''\<rparr>"
definition reasonNoCandidate :: reason where
  "reasonNoCandidate = \<lparr>re_Status = 503, re_Code = ''no_available_candidate'', re_Message = ''No available upstream candidate.''\<rparr>"
definition reasonUpstreamConnect :: reason where
  "reasonUpstreamConnect = \<lparr>re_Status = 502, re_Code = ''upstream_connect_failed'',
     re_Message = ''Could not connect to an upstream service.''\<rparr>"
definition reasonUpstreamTimeout :: reason where
  "reasonUpstreamTimeout = \<lparr>re_Status = 504, re_Code = ''upstream_timeout'', re_Message = ''Upstream request timed out.''\<rparr>"
definition reasonUpstreamProtocol :: reason where
  "reasonUpstreamProtocol = \<lparr>re_Status = 502, re_Code = ''upstream_protocol_error'',
     re_Message = ''Upstream returned an unsupported response.''\<rparr>"
definition reasonProtocolConversionUnsupported :: reason where
  "reasonProtocolConversionUnsupported = \<lparr>re_Status = 422, re_Code = ''protocol_conversion_unsupported'',
     re_Message = ''No upstream target could preserve or convert the request.''\<rparr>"
definition reasonRequestTooLarge :: reason where
  "reasonRequestTooLarge = \<lparr>re_Status = 413, re_Code = ''request_too_large'', re_Message = ''Request body is too large.''\<rparr>"
definition reasonUnsupportedContentEncoding :: reason where
  "reasonUnsupportedContentEncoding = \<lparr>re_Status = 415, re_Code = ''unsupported_content_encoding'',
     re_Message = ''Unsupported Content-Encoding.''\<rparr>"
definition reasonInvalidContentEncoding :: reason where
  "reasonInvalidContentEncoding = \<lparr>re_Status = 400, re_Code = ''invalid_content_encoding'',
     re_Message = ''Invalid encoded request body.''\<rparr>"
definition reasonNotAcceptable :: reason where
  "reasonNotAcceptable = \<lparr>re_Status = 406, re_Code = ''not_acceptable'',
     re_Message = ''The gateway can only return an identity-encoded response.''\<rparr>"
definition reasonAccessKeyRateLimited :: reason where
  "reasonAccessKeyRateLimited = \<lparr>re_Status = 429, re_Code = ''access_key_rate_limited'',
     re_Message = ''Access key rate limit exceeded.''\<rparr>"
definition reasonAccessKeyCostLimitExceeded :: reason where
  "reasonAccessKeyCostLimitExceeded = \<lparr>re_Status = 429, re_Code = ''access_key_cost_limit_exceeded'',
     re_Message = ''Access key cost limit exceeded.''\<rparr>"
definition reasonConfigurationChanged :: reason where
  "reasonConfigurationChanged = \<lparr>re_Status = 503, re_Code = ''configuration_changed'',
     re_Message = ''Configuration changed; retry the request.''\<rparr>"

definition transportReason :: "UpstreamResult \<Rightarrow> reason" where
  "transportReason result =
     (if isConversionUnsupportedResult result then reasonProtocolConversionUnsupported
      else if ur_DispatchState result = DispatchNotSent
        \<and> (\<exists>ev \<in> set_option (ur_ExecutionError result). ev_Kind ev = ErrorKindInvalidRequest)
      then reasonInvalidProtocolRequest
      else if err_is ge_UpstreamProtocol (ur_Err result) then reasonUpstreamProtocol
      else if isTimeoutError (ur_Err result) then reasonUpstreamTimeout
      else reasonUpstreamConnect)"

definition passed_codes :: "string list" where
  "passed_codes = [''credential_decrypt_failed'', ''credential_normalization_failed'', ''credential_proxy_prepare_failed'',
     ''group_proxy_prepare_failed'', ''server_is_overloaded'', ''rate_limit_exceeded'']"

definition category_code :: "FailureCategory \<Rightarrow> string" where
  "category_code category =
     (case category of
        FailureCategoryOK \<Rightarrow> []
      | FailureCategoryRateLimited \<Rightarrow> ''upstream_rate_limited''
      | FailureCategoryModelUnavailable \<Rightarrow> ''upstream_model_unavailable''
      | FailureCategoryInvalidKey \<Rightarrow> ''upstream_invalid_key''
      | FailureCategoryUpstreamHostError \<Rightarrow> ''upstream_host_error''
      | FailureCategoryClientError \<Rightarrow> ''upstream_client_error''
      | FailureCategoryConversionUnsupported \<Rightarrow> ''protocol_conversion_unsupported''
      | FailureCategoryDownstreamCancel \<Rightarrow> ''client_canceled''
      | FailureCategoryAuthenticationRequired \<Rightarrow> ''upstream_authentication_required''
      | _ \<Rightarrow> ''upstream_error'')"

definition upstreamErrorCode :: "UpstreamResult \<Rightarrow> FailureCategory \<Rightarrow> string" where
  "upstreamErrorCode result category =
     (if \<exists>ev \<in> set_option (ur_ExecutionError result). ev_Code ev \<in> set passed_codes
      then ev_Code (the (ur_ExecutionError result))
      else if err_is ge_Canceled (ur_Err result) then ''client_canceled''
      else if err_is ge_UpstreamProtocol (ur_Err result) then ''upstream_protocol_error''
      else if isTimeoutError (ur_Err result) then ''upstream_timeout''
      else if ur_Err result \<noteq> None \<and> \<not> ur_RequestWritten result then ''upstream_connect_failed''
      else if ur_Err result \<noteq> None then ''upstream_error''
      else category_code category)"

section \<open>What a retry of the judged result tells\<close>

text \<open>
  A judged result that asks for another attempt left nothing downstream, carries evidence, and,
  when the request may have been sent, that evidence does not leave the outcome open.
\<close>

lemma judged_retry:
  assumes "hd_Retry (judgeUpstreamResult tp result now ctx) \<noteq> RetryNone"
    and "ur_DispatchState result \<noteq> DispatchNotSent"
  shows "\<not> ur_Committed result
    \<and> (\<exists>ev. fst (decisionEvidence result) = Some ev \<and> ev_ReplaySafety ev \<noteq> ReplaySafetyUnknown
        \<and> (ev_Kind ev \<in> {ErrorKindTransport, ErrorKindTimeout} \<longrightarrow> ur_StatusCode result \<noteq> 0 \<or> ev_StatusCode ev \<noteq> 0)
        \<and> (dc_Operation ctx \<in> {OperationImagesGenerate, OperationImagesEdit, OperationEmbeddingsCreate} \<longrightarrow>
            ev_ReplaySafety ev = ReplaySafetyRejectedBeforeProcessing))"
proof -
  obtain evidence down where e: "decisionEvidence result = (evidence, down)" by fastforce
  define a where "a = \<lparr>at_DispatchState = ur_DispatchState result, at_StatusCode = ur_StatusCode result,
      at_Header = ur_Header result, at_Evidence = evidence, at_DownstreamCommitted = ur_Committed result,
      at_DownstreamErr = downstream_err (if evidence \<noteq> None \<and> \<not> ur_Committed result
              \<and> \<not> err_is ge_Canceled (ur_Err result) \<and> \<not> err_is ge_DeadlineExceeded (ur_Err result)
              then None else down), at_Now = now\<rparr>"
  have j: "judgeUpstreamResult tp result now ctx = JudgeExecution tp a ctx"
    by (simp add: judgeUpstreamResult_def e a_def Let_def)
  have "at_DispatchState a \<noteq> DispatchNotSent" using assms(2) by (simp add: a_def)
  from judge_retry_known [OF this assms(1) [unfolded j]] show ?thesis
    by (auto simp: a_def e ResponseStarted_def)
qed

end
