(* ===== verification/Gateway_Recorder.thy ===== *)
theory Gateway_Recorder
  imports Gateway_Result Scheduler_Theorems
begin

text \<open>
  The request recorder (\<open>src/internal/gateway/request_log.go\<close>): it collects the attempts of a
  request, attributes usage and cost to one of them with the price table frozen when that attempt
  started, and emits one telemetry event (\<open>src/internal/telemetry/requestlog.go\<close>). Clock readings
  are arguments. The redaction of error texts is an argument too: it gives the text to store for
  header rules, credential secrets and a raw summary. A receipt is kept as the value whose JSON
  encoding is stored.
\<close>

section \<open>Telemetry\<close>

datatype RequestStatus =
    RequestStatusEmpty | RequestStatusSuccess | RequestStatusError | RequestStatusIncomplete | RequestStatusCanceled

datatype ModelConsistency =
    ModelConsistencyNotApplicable | ModelConsistencyMatch | ModelConsistencyUnknown | ModelConsistencyMismatch

record Attempt =
  ta_Sequence :: int
  ta_CompletedAt :: time
  ta_GroupID :: nat
  ta_GroupName :: string
  ta_ChannelID :: string
  ta_CredentialID :: nat
  ta_Operation :: Operation
  ta_RouteMode :: RouteMode
  ta_UpstreamModel :: string
  ta_UpstreamRequestID :: string
  ta_DispatchState :: DispatchState
  ta_ResponseStarted :: bool
  ta_UpstreamProtocol :: Protocol
  ta_Reasoning :: ReasoningConfig
  ta_StatusCode :: int
  ta_DurationMs :: int
  ta_FailureCategory :: string
  ta_FailureOrigin :: ErrorOrigin
  ta_FailureScope :: ErrorScope
  ta_RetryDirective :: RetryDirective
  ta_Effect :: Effect
  ta_RuleID :: string
  ta_Action :: string
  ta_WillRetry :: bool
  ta_ErrorCode :: string
  ta_ErrorSummary :: string
  ta_Committed :: bool

record PricingObservation =
  po_UpstreamModel :: string
  po_CostState :: CostState
  po_PricingCompleteness :: Completeness
  po_EstimatedCostNanoUSD :: int
  po_Receipt :: "Receipt option"

record UsageObservation =
  uo_Result :: Result
  uo_GroupID :: nat
  uo_ChannelID :: string
  uo_CredentialID :: nat
  uo_AttemptSequence :: int
  uo_Pricing :: PricingObservation

record requestOutcome =
  ro_status :: RequestStatus
  ro_statusCode :: int
  ro_errorCode :: string
  ro_errorSummary :: string
  ro_upstreamModel :: string
  ro_upstreamReportedModel :: string
  ro_responseModelObserved :: bool
  ro_responseModelMismatch :: bool

definition requestOutcome0 :: requestOutcome where
  "requestOutcome0 = \<lparr>ro_status = RequestStatusEmpty, ro_statusCode = 0, ro_errorCode = [], ro_errorSummary = [],
     ro_upstreamModel = [], ro_upstreamReportedModel = [], ro_responseModelObserved = False, ro_responseModelMismatch = False\<rparr>"

record frozenAttemptPricing =
  fp_channelID :: string
  fp_groupID :: nat
  fp_upstreamModel :: string
  fp_table :: "Table option"
  fp_applicable :: bool

definition frozenAttemptPricing0 :: frozenAttemptPricing where
  "frozenAttemptPricing0 = \<lparr>fp_channelID = [], fp_groupID = 0, fp_upstreamModel = [], fp_table = None, fp_applicable = False\<rparr>"

text \<open>The sink and the clock are set in every recorder the handler builds.\<close>

record requestRecorder =
  rq_requestID :: string
  rq_startedAt :: time
  rq_accessKeyID :: nat
  rq_protocol :: Protocol
  rq_operation :: Operation
  rq_clientModel :: string
  rq_stream :: bool
  rq_firstResponseMs :: "int option"
  rq_reasoning :: ReasoningConfig
  rq_usageApplicable :: bool
  rq_requestedPricingMode :: Mode
  rq_usageDiagnostics :: Diagnostics
  rq_affinityHit :: bool
  rq_attempts :: "Attempt list"
  rq_attemptPricing :: "frozenAttemptPricing list"
  rq_pendingPricing :: frozenAttemptPricing
  rq_pricingPending :: bool
  rq_outcome :: requestOutcome
  rq_usage :: UsageObservation
  rq_emitted :: bool
  rq_pendingRetry :: int

definition notApplicableUsageObservation :: UsageObservation where
  "notApplicableUsageObservation =
     \<lparr>uo_Result = Usage_Result0\<lparr>rs_State := StateNotApplicable\<rparr>, uo_GroupID = 0, uo_ChannelID = [], uo_CredentialID = 0,
      uo_AttemptSequence = 0,
      uo_Pricing = \<lparr>po_UpstreamModel = [], po_CostState = CostStateNotApplicable,
        po_PricingCompleteness = CompletenessNotApplicable, po_EstimatedCostNanoUSD = 0, po_Receipt = None\<rparr>\<rparr>"

definition newRequestRecorder :: "string \<Rightarrow> time \<Rightarrow> nat \<Rightarrow> Protocol \<Rightarrow> requestRecorder" where
  "newRequestRecorder requestID startedAt accessKeyID clientProtocol =
     \<lparr>rq_requestID = requestID, rq_startedAt = startedAt, rq_accessKeyID = accessKeyID, rq_protocol = clientProtocol,
      rq_operation = Operation_other [], rq_clientModel = [], rq_stream = False, rq_firstResponseMs = None,
      rq_reasoning = ReasoningConfig0, rq_usageApplicable = True, rq_requestedPricingMode = [],
      rq_usageDiagnostics = Diagnostics0, rq_affinityHit = False, rq_attempts = [], rq_attemptPricing = [],
      rq_pendingPricing = frozenAttemptPricing0, rq_pricingPending = False, rq_outcome = requestOutcome0,
      rq_usage = notApplicableUsageObservation, rq_emitted = False, rq_pendingRetry = -1\<rparr>"

section \<open>Attempts\<close>

definition optionalModelValue :: "string option \<Rightarrow> string" where
  "optionalModelValue v = (case v of None \<Rightarrow> [] | Some s \<Rightarrow> s)"

definition freezeNextAttemptPricing :: "frozenAttemptPricing \<Rightarrow> requestRecorder \<Rightarrow> requestRecorder" where
  "freezeNextAttemptPricing frozen rec = rec\<lparr>rq_pendingPricing := frozen, rq_pricingPending := True\<rparr>"

definition setAffinityHit :: "bool \<Rightarrow> requestRecorder \<Rightarrow> requestRecorder" where
  "setAffinityHit hit rec = (if hit then rec\<lparr>rq_affinityHit := True\<rparr> else rec)"

definition attempt_index :: "int \<Rightarrow> requestRecorder \<Rightarrow> nat option" where
  "attempt_index i rec = (if 0 \<le> i \<and> nat i < length (rq_attempts rec) then Some (nat i) else None)"

definition set_attempt :: "nat \<Rightarrow> (Attempt \<Rightarrow> Attempt) \<Rightarrow> requestRecorder \<Rightarrow> requestRecorder" where
  "set_attempt i f rec = rec\<lparr>rq_attempts := (rq_attempts rec)[i := f (rq_attempts rec ! i)]\<rparr>"

definition beforeForward :: "requestRecorder \<Rightarrow> requestRecorder" where
  "beforeForward rec =
     (case attempt_index (rq_pendingRetry rec) rec of
        None \<Rightarrow> rec
      | Some i \<Rightarrow> (set_attempt i (\<lambda>a. a\<lparr>ta_WillRetry := True\<rparr>) rec)\<lparr>rq_pendingRetry := -1\<rparr>)"

definition telemetryFailureCategory :: "FailureCategory \<Rightarrow> string" where
  "telemetryFailureCategory category =
     (case category of
        FailureCategoryOK \<Rightarrow> ''ok''
      | FailureCategoryRateLimited \<Rightarrow> ''rate_limited''
      | FailureCategoryModelUnavailable \<Rightarrow> ''model_unavailable''
      | FailureCategoryInvalidKey \<Rightarrow> ''invalid_key''
      | FailureCategoryUpstreamHostError \<Rightarrow> ''upstream_host_error''
      | FailureCategoryClientError \<Rightarrow> ''client_error''
      | FailureCategoryConversionUnsupported \<Rightarrow> ''conversion_unsupported''
      | FailureCategoryDownstreamCancel \<Rightarrow> ''downstream_cancel''
      | FailureCategoryAuthenticationRequired \<Rightarrow> ''authentication_required''
      | _ \<Rightarrow> ''ambiguous'')"

definition telemetryAction :: "HealthDecision \<Rightarrow> string" where
  "telemetryAction d =
     (case LegacyAction d of
        ActionRetry \<Rightarrow> ''retry''
      | ActionCooldownCredential \<Rightarrow> ''cooldown_credential''
      | ActionFailCredential \<Rightarrow> ''fail_credential''
      | ActionSkipGroup \<Rightarrow> ''skip_group''
      | _ \<Rightarrow> ''terminate'')"

text \<open>\<open>max 0\<close> of the duration, in whole milliseconds.\<close>

definition duration_ms :: "time \<Rightarrow> time \<Rightarrow> int" where
  "duration_ms started completed =
     (let duration = TimeSub completed started in (if duration < 0 then 0 else duration) div Millisecond)"

definition decision_attempt ::
  "Selection \<Rightarrow> UpstreamResult \<Rightarrow> HealthDecision \<Rightarrow> string \<Rightarrow> string \<Rightarrow> time \<Rightarrow> time \<Rightarrow> requestRecorder \<Rightarrow> Attempt" where
  "decision_attempt selection result d errorCode errorSummary startedAt completedAt rec =
     \<lparr>ta_Sequence = int (length (rq_attempts rec)) + 1, ta_CompletedAt = completedAt,
      ta_GroupID = sel_GroupID selection, ta_GroupName = gv_Name (sel_Group selection),
      ta_ChannelID = sel_ChannelID selection, ta_CredentialID = sel_CredentialID selection,
      ta_Operation = rq_operation rec, ta_RouteMode = sel_RouteMode selection,
      ta_UpstreamModel = optionalModelValue (sel_UpstreamModelID selection),
      ta_UpstreamRequestID = ur_UpstreamRequestID result, ta_DispatchState = ur_DispatchState result,
      ta_ResponseStarted = ur_ResponseStarted result, ta_UpstreamProtocol = ur_UpstreamProtocol result,
      ta_Reasoning = ur_AppliedReasoning result, ta_StatusCode = ur_StatusCode result,
      ta_DurationMs = duration_ms startedAt completedAt,
      ta_FailureCategory = telemetryFailureCategory (hd_Category d), ta_FailureOrigin = hd_Origin d,
      ta_FailureScope = hd_Scope d, ta_RetryDirective = hd_Retry d, ta_Effect = hd_Effect d,
      ta_RuleID = hd_RuleID d, ta_Action = telemetryAction d, ta_WillRetry = False, ta_ErrorCode = errorCode,
      ta_ErrorSummary = (if errorCode \<noteq> [] \<and> errorSummary = [] then fixedErrorSummary errorCode else errorSummary),
      ta_Committed = ur_Committed result\<rparr>"

definition appendDecisionAttempt ::
  "Selection \<Rightarrow> UpstreamResult \<Rightarrow> HealthDecision \<Rightarrow> string \<Rightarrow> string \<Rightarrow> time \<Rightarrow> time \<Rightarrow> requestRecorder \<Rightarrow> int \<times> requestRecorder" where
  "appendDecisionAttempt selection result d errorCode errorSummary startedAt completedAt rec =
     (let frozen = (if rq_pricingPending rec then rq_pendingPricing rec else frozenAttemptPricing0);
          attempt = decision_attempt selection result d errorCode errorSummary startedAt completedAt rec
      in (int (length (rq_attempts rec)),
          rec\<lparr>rq_attempts := rq_attempts rec @ [attempt], rq_attemptPricing := rq_attemptPricing rec @ [frozen],
              rq_pendingPricing := frozenAttemptPricing0, rq_pricingPending := False\<rparr>))"

type_synonym redaction = "HeaderRules \<Rightarrow> string list \<Rightarrow> string \<Rightarrow> string"

definition HeaderRules0 :: HeaderRules where
  "HeaderRules0 = \<lparr>hr_Set = [], hr_Remove = []\<rparr>"

definition recordAttempt ::
  "redaction \<Rightarrow> Selection \<Rightarrow> string list \<Rightarrow> UpstreamResult \<Rightarrow> HealthDecision \<Rightarrow> time \<Rightarrow> time \<Rightarrow> requestRecorder \<Rightarrow> int \<times> requestRecorder" where
  "recordAttempt sanitize selection secrets result d startedAt completedAt rec =
     (let rules = (if HasResponse result \<and> \<not> ur_ProviderErrorBeforeCommit result
                   then gv_HeaderRules (sel_Group selection) else HeaderRules0)
      in appendDecisionAttempt selection result d (upstreamErrorCode result (hd_Category d))
           (sanitize rules secrets (ur_ErrorSummary result)) startedAt completedAt rec)"

definition recordStreamAttempt ::
  "redaction \<Rightarrow> Selection \<Rightarrow> string list \<Rightarrow> UpstreamResult \<Rightarrow> HealthDecision \<Rightarrow> time \<Rightarrow> time \<Rightarrow> requestRecorder \<Rightarrow> int \<times> requestRecorder" where
  "recordStreamAttempt sanitize selection secrets result d startedAt completedAt rec =
     (let rules = (if so_EndReason (ur_Stream result) = StreamEndSSEError
                   then gv_HeaderRules (sel_Group selection) else HeaderRules0)
      in appendDecisionAttempt selection result d (streamErrorCode (so_EndReason (ur_Stream result)))
           (sanitize rules secrets (so_ErrorSummary (ur_Stream result))) startedAt completedAt rec)"

definition retryIfAnotherForward :: "int \<Rightarrow> requestRecorder \<Rightarrow> requestRecorder" where
  "retryIfAnotherForward i rec = (if attempt_index i rec \<noteq> None then rec\<lparr>rq_pendingRetry := i\<rparr> else rec)"

section \<open>Usage and cost\<close>

definition validCapturedUsage :: "Result \<Rightarrow> bool" where
  "validCapturedUsage result =
     (if \<exists>t \<in> set (token_fields (rs_Tokens result)). t < 0 then False
      else if CheckedTotal (rs_Tokens result) = None then False
      else case rs_State result of
        StateComplete \<Rightarrow> True
      | StatePartial \<Rightarrow> True
      | StateMissing \<Rightarrow> rs_Tokens result = Tokens0
      | _ \<Rightarrow> False)"

definition effectivePricingMode :: "Mode \<Rightarrow> Mode" where
  "effectivePricingMode requested = (if Mode_Valid requested then requested else ModeStandard)"

definition quoteFrozenAttempt :: "frozenAttemptPricing \<Rightarrow> Result \<Rightarrow> Mode \<Rightarrow> PricingObservation" where
  "quoteFrozenAttempt frozen result mode =
     (let observation = \<lparr>po_UpstreamModel = fp_upstreamModel frozen, po_CostState = CostStateUnpriced,
            po_PricingCompleteness = CompletenessUnavailable, po_EstimatedCostNanoUSD = 0, po_Receipt = None\<rparr>
      in if rs_State result = StateNotApplicable \<or> \<not> fp_applicable frozen
         then observation\<lparr>po_CostState := CostStateNotApplicable, po_PricingCompleteness := CompletenessNotApplicable\<rparr>
         else if fp_table frozen = None \<or> fp_upstreamModel frozen = [] then observation
         else case QuoteForModeWithReceipt (fp_table frozen)
                \<lparr>id_ChannelID = fp_channelID frozen, id_ModelID = fp_upstreamModel frozen\<rparr> result mode of
              (quote, receipt) \<Rightarrow>
                observation\<lparr>po_CostState := qt_State quote, po_PricingCompleteness := qt_Completeness quote,
                  po_EstimatedCostNanoUSD := qt_EstimatedCostNanoUSD quote, po_Receipt := receipt\<rparr>)"

text \<open>The usage that is attributed to an attempt.\<close>

definition bound_result :: "Result \<Rightarrow> bool \<Rightarrow> requestRecorder \<Rightarrow> Result" where
  "bound_result result applicable rec =
     (if \<not> applicable \<or> \<not> rq_usageApplicable rec then Usage_Result0\<lparr>rs_State := StateNotApplicable\<rparr>
      else if \<not> validCapturedUsage result then Usage_Result0\<lparr>rs_State := StateMissing\<rparr>
      else result\<lparr>rs_Diagnostics := Diagnostics_Merge (rs_Diagnostics result) (rq_usageDiagnostics rec)\<rparr>)"

definition bindUsage :: "int \<Rightarrow> Result \<Rightarrow> bool \<Rightarrow> requestRecorder \<Rightarrow> requestRecorder" where
  "bindUsage attemptIndex result applicable rec =
     (case attempt_index attemptIndex rec of
        None \<Rightarrow> rec
      | Some i \<Rightarrow>
          let attempt = rq_attempts rec ! i in
          if ta_DispatchState attempt = DispatchLocal then rec\<lparr>rq_usage := notApplicableUsageObservation\<rparr>
          else if ta_GroupID attempt = 0 \<or> ta_ChannelID attempt = [] \<or> ta_CredentialID attempt = 0 \<or> ta_Sequence attempt < 1 then rec
          else
            let bound = bound_result result applicable rec;
                frozen = (if i < length (rq_attemptPricing rec) then rq_attemptPricing rec ! i else frozenAttemptPricing0)
            in rec\<lparr>rq_usage := \<lparr>uo_Result = bound, uo_GroupID = ta_GroupID attempt, uo_ChannelID = ta_ChannelID attempt,
                 uo_CredentialID = ta_CredentialID attempt, uo_AttemptSequence = ta_Sequence attempt,
                 uo_Pricing = quoteFrozenAttempt frozen bound (effectivePricingMode (rq_requestedPricingMode rec))\<rparr>\<rparr>)"

definition estimatedCostNanoUSD :: "requestRecorder \<Rightarrow> int" where
  "estimatedCostNanoUSD rec = po_EstimatedCostNanoUSD (uo_Pricing (rq_usage rec))"

section \<open>Outcomes\<close>

definition completeReason :: "reason \<Rightarrow> requestRecorder \<Rightarrow> requestRecorder" where
  "completeReason v rec = rec\<lparr>rq_outcome := requestOutcome0\<lparr>ro_status := RequestStatusError, ro_statusCode := re_Status v,
     ro_errorCode := re_Code v, ro_errorSummary := re_Message v\<rparr>\<rparr>"

definition attempt_summary :: "int \<Rightarrow> string \<Rightarrow> requestRecorder \<Rightarrow> string" where
  "attempt_summary i fallback rec =
     (case attempt_index i rec of None \<Rightarrow> fallback | Some k \<Rightarrow> ta_ErrorSummary (rq_attempts rec ! k))"

definition stream_status :: "StreamEndReason \<Rightarrow> RequestStatus" where
  "stream_status r =
     (case r of
        StreamEndCleanEOF \<Rightarrow> RequestStatusSuccess
      | StreamEndSSEError \<Rightarrow> RequestStatusError
      | StreamEndClientCanceled \<Rightarrow> RequestStatusCanceled
      | StreamEndServerShutdown \<Rightarrow> RequestStatusCanceled
      | _ \<Rightarrow> RequestStatusIncomplete)"

definition completeStream :: "UpstreamResult \<Rightarrow> string \<Rightarrow> int \<Rightarrow> requestRecorder \<Rightarrow> requestRecorder" where
  "completeStream result upstreamModel attemptIndex rec =
     (let code = streamErrorCode (so_EndReason (ur_Stream result));
          summary0 = attempt_summary attemptIndex (so_ErrorSummary (ur_Stream result)) rec;
          summary = (if code \<noteq> [] \<and> summary0 = [] then fixedErrorSummary code else summary0)
      in bindUsage attemptIndex (ur_Usage result) True
           (rec\<lparr>rq_outcome := \<lparr>ro_status = stream_status (so_EndReason (ur_Stream result)),
              ro_statusCode = ur_StatusCode result, ro_errorCode = code, ro_errorSummary = summary,
              ro_upstreamModel = upstreamModel, ro_upstreamReportedModel = ur_UpstreamReportedModel result,
              ro_responseModelObserved = ur_ResponseModelObserved result,
              ro_responseModelMismatch = ur_ResponseModelMismatch result\<rparr>\<rparr>))"

definition completeResponse :: "UpstreamResult \<Rightarrow> HealthDecision \<Rightarrow> string \<Rightarrow> int \<Rightarrow> requestRecorder \<Rightarrow> requestRecorder" where
  "completeResponse result d upstreamModel attemptIndex rec =
     (if isSuccessStatus (ur_StatusCode result)
      then bindUsage attemptIndex (ur_Usage result) True
             (rec\<lparr>rq_outcome := \<lparr>ro_status = RequestStatusSuccess, ro_statusCode = ur_StatusCode result, ro_errorCode = [],
                ro_errorSummary = [], ro_upstreamModel = upstreamModel,
                ro_upstreamReportedModel = ur_UpstreamReportedModel result,
                ro_responseModelObserved = ur_ResponseModelObserved result,
                ro_responseModelMismatch = ur_ResponseModelMismatch result\<rparr>\<rparr>)
      else
        let code = upstreamErrorCode result (hd_Category d);
            summary0 = attempt_summary attemptIndex (ur_ErrorSummary result) rec;
            summary = (if summary0 = [] then fixedErrorSummary code else summary0)
        in bindUsage attemptIndex (ur_Usage result) False
             (rec\<lparr>rq_outcome := requestOutcome0\<lparr>ro_status := RequestStatusError, ro_statusCode := ur_StatusCode result,
                ro_errorCode := code, ro_errorSummary := summary, ro_upstreamModel := upstreamModel\<rparr>\<rparr>))"

definition completeProviderError :: "UpstreamResult \<Rightarrow> string \<Rightarrow> int \<Rightarrow> requestRecorder \<Rightarrow> requestRecorder" where
  "completeProviderError result upstreamModel attemptIndex rec =
     (let summary0 = attempt_summary attemptIndex [] rec;
          summary = (if summary0 = [] then re_Message reasonUpstreamProtocol else summary0)
      in bindUsage attemptIndex (ur_Usage result) True
           (rec\<lparr>rq_outcome := requestOutcome0\<lparr>ro_status := RequestStatusError, ro_statusCode := re_Status reasonUpstreamProtocol,
              ro_errorCode := re_Code reasonUpstreamProtocol, ro_errorSummary := summary, ro_upstreamModel := upstreamModel\<rparr>\<rparr>))"

definition completeTransport :: "reason \<Rightarrow> string \<Rightarrow> int \<Rightarrow> requestRecorder \<Rightarrow> requestRecorder" where
  "completeTransport v upstreamModel attemptIndex rec =
     (let summary0 = attempt_summary attemptIndex [] rec;
          summary = (if summary0 = [] then re_Message v else summary0)
      in bindUsage attemptIndex Usage_Result0 False
           (rec\<lparr>rq_outcome := requestOutcome0\<lparr>ro_status := RequestStatusError, ro_statusCode := re_Status v,
              ro_errorCode := re_Code v, ro_errorSummary := summary, ro_upstreamModel := upstreamModel\<rparr>\<rparr>))"

definition completeCanceled :: "Context option \<Rightarrow> int \<Rightarrow> int \<Rightarrow> requestRecorder \<Rightarrow> requestRecorder" where
  "completeCanceled ctx status attemptIndex rec =
     (let code = cancellationErrorCode ctx;
          marked = (case attempt_index attemptIndex rec of None \<Rightarrow> rec
            | Some i \<Rightarrow> set_attempt i (\<lambda>a. a\<lparr>ta_ErrorCode := code, ta_ErrorSummary := fixedErrorSummary code\<rparr>) rec);
          upstreamModel = (case attempt_index attemptIndex rec of None \<Rightarrow> ro_upstreamModel (rq_outcome rec)
            | Some i \<Rightarrow> ta_UpstreamModel (rq_attempts rec ! i))
      in bindUsage attemptIndex Usage_Result0 False
           (marked\<lparr>rq_outcome := requestOutcome0\<lparr>ro_status := RequestStatusCanceled, ro_statusCode := status,
              ro_errorCode := code, ro_errorSummary := fixedErrorSummary code, ro_upstreamModel := upstreamModel\<rparr>\<rparr>))"

definition completeDownstreamWrite :: "int \<Rightarrow> requestRecorder \<Rightarrow> requestRecorder" where
  "completeDownstreamWrite status rec =
     rec\<lparr>rq_outcome := (rq_outcome rec)\<lparr>ro_status := RequestStatusIncomplete, ro_statusCode := status,
       ro_errorCode := ''downstream_write_failed'', ro_errorSummary := fixedErrorSummary ''downstream_write_failed''\<rparr>\<rparr>"

definition completeMissingOutcome :: "bool \<Rightarrow> int \<Rightarrow> requestRecorder \<Rightarrow> requestRecorder" where
  "completeMissingOutcome written statusCode rec =
     (if ro_status (rq_outcome rec) \<noteq> RequestStatusEmpty then rec
      else rec\<lparr>rq_outcome := requestOutcome0\<lparr>ro_status := (if written then RequestStatusIncomplete else RequestStatusError),
             ro_statusCode := (if written then statusCode else 500), ro_errorCode := ''internal_error'',
             ro_errorSummary := fixedErrorSummary ''internal_error''\<rparr>\<rparr>)"

definition recordFirstResponse :: "time \<Rightarrow> requestRecorder \<Rightarrow> requestRecorder" where
  "recordFirstResponse now rec =
     (if \<not> rq_stream rec \<or> rq_firstResponseMs rec \<noteq> None then rec
      else rec\<lparr>rq_firstResponseMs := Some (duration_ms (rq_startedAt rec) now)\<rparr>)"

section \<open>Emission\<close>

definition requestOutcomeModelConsistency :: "requestOutcome \<Rightarrow> string \<times> ModelConsistency" where
  "requestOutcomeModelConsistency out =
     (if ro_status out \<noteq> RequestStatusSuccess \<or> ro_upstreamModel out = [] then ([], ModelConsistencyNotApplicable)
      else if \<not> ro_responseModelObserved out \<or> ro_upstreamReportedModel out = [] then ([], ModelConsistencyUnknown)
      else if ro_responseModelMismatch out \<or> ro_upstreamReportedModel out \<noteq> ro_upstreamModel out
      then (ro_upstreamReportedModel out, ModelConsistencyMismatch)
      else (ro_upstreamReportedModel out, ModelConsistencyMatch))"

definition freezeSensitiveInputErrorSummaries :: "requestRecorder \<Rightarrow> requestRecorder" where
  "freezeSensitiveInputErrorSummaries rec =
     (if rq_protocol rec \<noteq> OpenAIImages \<and> rq_protocol rec \<noteq> OpenAIEmbeddings then rec
      else
        let out = rq_outcome rec;
            out' = (if ro_errorCode out \<noteq> [] then out\<lparr>ro_errorSummary := fixedErrorSummary (ro_errorCode out)\<rparr> else out)
        in rec\<lparr>rq_outcome := out',
               rq_attempts := map (\<lambda>a. if ta_ErrorCode a \<noteq> [] then a\<lparr>ta_ErrorSummary := fixedErrorSummary (ta_ErrorCode a)\<rparr> else a)
                 (rq_attempts rec)\<rparr>)"

record RequestEvent =
  rqe_RequestID :: string
  rqe_CompletedAt :: time
  rqe_AccessKeyID :: nat
  rqe_Protocol :: Protocol
  rqe_Operation :: Operation
  rqe_ClientModel :: string
  rqe_UpstreamReportedModel :: string
  rqe_ModelConsistency :: ModelConsistency
  rqe_Outcome :: requestOutcome
  rqe_Stream :: bool
  rqe_FirstResponseMs :: "int option"
  rqe_DurationMs :: int
  rqe_AffinityHit :: bool
  rqe_Reasoning :: ReasoningConfig
  rqe_Attempts :: "Attempt list"
  rqe_Usage :: UsageObservation

definition emit :: "time \<Rightarrow> requestRecorder \<Rightarrow> RequestEvent option \<times> requestRecorder" where
  "emit now rec0 =
     (if rq_emitted rec0 \<or> rq_requestID rec0 = [] then (None, rec0)
      else
        let rec = freezeSensitiveInputErrorSummaries (rec0\<lparr>rq_emitted := True\<rparr>);
            consistency = requestOutcomeModelConsistency (rq_outcome rec)
        in (Some \<lparr>rqe_RequestID = rq_requestID rec, rqe_CompletedAt = now, rqe_AccessKeyID = rq_accessKeyID rec,
              rqe_Protocol = rq_protocol rec, rqe_Operation = rq_operation rec, rqe_ClientModel = rq_clientModel rec,
              rqe_UpstreamReportedModel = fst consistency, rqe_ModelConsistency = snd consistency,
              rqe_Outcome = rq_outcome rec, rqe_Stream = rq_stream rec, rqe_FirstResponseMs = rq_firstResponseMs rec,
              rqe_DurationMs = duration_ms (rq_startedAt rec) now, rqe_AffinityHit = rq_affinityHit rec,
              rqe_Reasoning = rq_reasoning rec, rqe_Attempts = rq_attempts rec, rqe_Usage = rq_usage rec\<rparr>, rec))"

section \<open>What a recorder holds\<close>

text \<open>The identity of an attempt, which no later call changes.\<close>

definition attempt_id :: "Attempt \<Rightarrow> int \<times> nat \<times> string \<times> nat" where
  "attempt_id a = (ta_Sequence a, ta_GroupID a, ta_ChannelID a, ta_CredentialID a)"

text \<open>
  A usage observation either says that usage does not apply, or belongs to one recorded attempt
  and is priced with what was frozen when that attempt started.
\<close>

definition usage_bound :: "requestRecorder \<Rightarrow> bool" where
  "usage_bound rec \<longleftrightarrow> rq_usage rec = notApplicableUsageObservation \<or>
     (\<exists>i < length (rq_attempts rec). attempt_id (rq_attempts rec ! i) =
          (uo_AttemptSequence (rq_usage rec), uo_GroupID (rq_usage rec), uo_ChannelID (rq_usage rec), uo_CredentialID (rq_usage rec))
        \<and> rs_State (uo_Result (rq_usage rec)) \<in> {StateComplete, StatePartial, StateMissing, StateNotApplicable}
        \<and> (rs_State (uo_Result (rq_usage rec)) \<noteq> StateNotApplicable \<longrightarrow> fp_applicable (rq_attemptPricing rec ! i))
        \<and> uo_Pricing (rq_usage rec) = quoteFrozenAttempt (rq_attemptPricing rec ! i) (uo_Result (rq_usage rec))
             (effectivePricingMode (rq_requestedPricingMode rec)))"

definition recorder_inv :: "requestRecorder \<Rightarrow> bool" where
  "recorder_inv rec \<longleftrightarrow> map ta_Sequence (rq_attempts rec) = map (\<lambda>i. int i + 1) [0..<length (rq_attempts rec)]
     \<and> length (rq_attemptPricing rec) = length (rq_attempts rec)
     \<and> (\<forall>f \<in> set (rq_attemptPricing rec). fp_applicable f = rq_usageApplicable rec)
     \<and> (rq_pricingPending rec \<longrightarrow> fp_applicable (rq_pendingPricing rec) = rq_usageApplicable rec)
     \<and> usage_bound rec"

lemma attempt_index_some: "attempt_index i rec = Some k \<longleftrightarrow> i = int k \<and> k < length (rq_attempts rec)"
  by (auto simp: attempt_index_def)

text \<open>Calls that touch neither the frozen prices nor the identities of the attempts.\<close>

lemma recorder_inv_cong:
  assumes "recorder_inv rec" and "map attempt_id (rq_attempts rec') = map attempt_id (rq_attempts rec)"
    and "rq_attemptPricing rec' = rq_attemptPricing rec" and "rq_usageApplicable rec' = rq_usageApplicable rec"
    and "rq_pricingPending rec' \<longrightarrow> fp_applicable (rq_pendingPricing rec') = rq_usageApplicable rec'"
    and "rq_usage rec' = rq_usage rec" and "rq_requestedPricingMode rec' = rq_requestedPricingMode rec"
  shows "recorder_inv rec'"
proof -
  have n: "length (rq_attempts rec') = length (rq_attempts rec)" using arg_cong [OF assms(2), of length] by simp
  have ids: "attempt_id (rq_attempts rec' ! i) = attempt_id (rq_attempts rec ! i)" if "i < length (rq_attempts rec)" for i
    using arg_cong [OF assms(2), of "\<lambda>xs. xs ! i"] that n by simp
  have "map ta_Sequence (rq_attempts rec') = map ta_Sequence (rq_attempts rec)"
    using arg_cong [OF assms(2), of "map fst"] by (simp add: attempt_id_def comp_def)
  moreover have "usage_bound rec'" using assms(1) ids
    by (auto simp: recorder_inv_def usage_bound_def n assms(3,6,7))
  ultimately show ?thesis using assms(1) by (simp add: recorder_inv_def n assms(3,4)) (use assms(5) in \<open>simp add: assms(4)\<close>)
qed

lemma set_attempt_ids: "(\<And>a. attempt_id (f a) = attempt_id a) \<Longrightarrow> map attempt_id (rq_attempts (set_attempt i f rec)) = map attempt_id (rq_attempts rec)"
  by (cases "i < length (rq_attempts rec)") (simp_all add: set_attempt_def map_update list_update_same_conv list_update_beyond)

lemma recorder_pending: "recorder_inv rec \<Longrightarrow> rq_pricingPending rec \<Longrightarrow> fp_applicable (rq_pendingPricing rec) = rq_usageApplicable rec"
  by (simp add: recorder_inv_def)

lemma recorder_inv_new: "recorder_inv (newRequestRecorder requestID startedAt accessKeyID clientProtocol)"
  by (simp add: newRequestRecorder_def recorder_inv_def usage_bound_def)

lemma recorder_inv_freeze:
  "recorder_inv rec \<Longrightarrow> fp_applicable f = rq_usageApplicable rec \<Longrightarrow> recorder_inv (freezeNextAttemptPricing f rec)"
  by (erule recorder_inv_cong) (simp_all add: freezeNextAttemptPricing_def)

lemma recorder_inv_affinity:
  assumes "recorder_inv rec"
  shows "recorder_inv (setAffinityHit hit rec)"
  by (rule recorder_inv_cong [OF assms]) (simp_all add: setAffinityHit_def recorder_pending [OF assms])

lemma recorder_inv_set_attempt:
  assumes "recorder_inv rec" and "\<And>a. attempt_id (f a) = attempt_id a"
  shows "recorder_inv (set_attempt i f rec)"
  by (rule recorder_inv_cong [OF assms(1)])
    (simp_all only: set_attempt_ids assms(2), simp_all add: set_attempt_def recorder_pending [OF assms(1)])

lemma recorder_inv_pendingRetry:
  assumes "recorder_inv rec"
  shows "recorder_inv (rec\<lparr>rq_pendingRetry := i\<rparr>)"
  by (rule recorder_inv_cong [OF assms]) (simp_all add: recorder_pending [OF assms])

lemma recorder_inv_before: "recorder_inv rec \<Longrightarrow> recorder_inv (beforeForward rec)"
  by (auto simp: beforeForward_def attempt_id_def split: option.split intro!: recorder_inv_pendingRetry recorder_inv_set_attempt)

lemma recorder_inv_retry: "recorder_inv rec \<Longrightarrow> recorder_inv (retryIfAnotherForward i rec)"
  by (simp add: retryIfAnotherForward_def recorder_inv_pendingRetry)

lemma recorder_inv_outcome:
  assumes "recorder_inv rec"
  shows "recorder_inv (rec\<lparr>rq_outcome := out\<rparr>)"
  by (rule recorder_inv_cong [OF assms]) (simp_all add: recorder_pending [OF assms])

lemma recorder_inv_append:
  assumes "recorder_inv rec" and "rq_pricingPending rec"
  shows "recorder_inv (snd (appendDecisionAttempt selection result d code summary started completed rec))"
proof -
  let ?a = "decision_attempt selection result d code summary started completed rec"
  let ?rec = "snd (appendDecisionAttempt selection result d code summary started completed rec)"
  have at: "rq_attempts ?rec = rq_attempts rec @ [?a]" "rq_attemptPricing ?rec = rq_attemptPricing rec @ [rq_pendingPricing rec]"
    using assms(2) by (simp_all add: appendDecisionAttempt_def Let_def)
  have same: "rq_usage ?rec = rq_usage rec" "rq_requestedPricingMode ?rec = rq_requestedPricingMode rec"
    "rq_usageApplicable ?rec = rq_usageApplicable rec" "\<not> rq_pricingPending ?rec"
    by (simp_all add: appendDecisionAttempt_def Let_def)
  have old: "(rq_attempts rec @ [?a]) ! i = rq_attempts rec ! i" "(rq_attemptPricing rec @ [rq_pendingPricing rec]) ! i = rq_attemptPricing rec ! i"
    if "i < length (rq_attempts rec)" for i
    using that assms(1) by (simp_all add: nth_append recorder_inv_def)
  have "usage_bound rec" using assms(1) by (simp add: recorder_inv_def)
  then have "usage_bound ?rec" unfolding usage_bound_def at same
    by (elim disjE exE conjE) (simp, metis old less_SucI length_append_singleton)
  moreover have "ta_Sequence ?a = int (length (rq_attempts rec)) + 1" by (simp add: decision_attempt_def)
  ultimately show ?thesis using assms by (simp add: recorder_inv_def at same)
qed

lemma bound_result_state:
  "rs_State (bound_result result applicable rec) \<in> {StateComplete, StatePartial, StateMissing, StateNotApplicable}
   \<and> (rs_State (bound_result result applicable rec) \<noteq> StateNotApplicable \<longrightarrow> rq_usageApplicable rec)"
  by (auto simp: bound_result_def validCapturedUsage_def split: State.splits)

lemma recorder_inv_bind:
  assumes "recorder_inv rec"
  shows "recorder_inv (bindUsage i result applicable rec)"
proof (cases "attempt_index i rec")
  case (Some k)
  let ?rec = "bindUsage i result applicable rec" and ?a = "rq_attempts rec ! k"
  have k: "k < length (rq_attempts rec)" using Some by (simp add: attempt_index_some)
  have same: "rq_attempts ?rec = rq_attempts rec" "rq_attemptPricing ?rec = rq_attemptPricing rec"
    "rq_usageApplicable ?rec = rq_usageApplicable rec" "rq_pricingPending ?rec = rq_pricingPending rec"
    "rq_pendingPricing ?rec = rq_pendingPricing rec" "rq_requestedPricingMode ?rec = rq_requestedPricingMode rec"
    by (simp_all add: bindUsage_def Some Let_def)
  have pricing: "k < length (rq_attemptPricing rec)" "fp_applicable (rq_attemptPricing rec ! k) = rq_usageApplicable rec"
    using assms k by (simp_all add: recorder_inv_def)
  have "usage_bound ?rec"
  proof (cases "ta_DispatchState ?a = DispatchLocal \<or> ta_GroupID ?a = 0 \<or> ta_ChannelID ?a = [] \<or> ta_CredentialID ?a = 0 \<or> ta_Sequence ?a < 1")
    case True
    then show ?thesis using assms by (auto simp: bindUsage_def Some Let_def recorder_inv_def usage_bound_def)
  next
    case False
    then have "rq_usage ?rec = \<lparr>uo_Result = bound_result result applicable rec, uo_GroupID = ta_GroupID ?a,
        uo_ChannelID = ta_ChannelID ?a, uo_CredentialID = ta_CredentialID ?a, uo_AttemptSequence = ta_Sequence ?a,
        uo_Pricing = quoteFrozenAttempt (rq_attemptPricing rec ! k) (bound_result result applicable rec)
          (effectivePricingMode (rq_requestedPricingMode rec))\<rparr>"
      using pricing(1) by (simp add: bindUsage_def Some Let_def)
    then show ?thesis unfolding usage_bound_def same using k pricing bound_result_state [of result applicable rec]
      by (auto simp: attempt_id_def)
  qed
  then show ?thesis using assms by (simp add: recorder_inv_def same)
qed (use assms in \<open>simp add: bindUsage_def\<close>)

lemmas recorder_bind_outcome = recorder_inv_bind [OF recorder_inv_outcome]

lemma recorder_inv_complete:
  assumes "recorder_inv rec"
  shows "recorder_inv (completeReason v rec)" "recorder_inv (completeStream result model i rec)"
    "recorder_inv (completeResponse result d model i rec)" "recorder_inv (completeProviderError result model i rec)"
    "recorder_inv (completeTransport v model i rec)" "recorder_inv (completeDownstreamWrite status rec)"
    "recorder_inv (completeMissingOutcome written status rec)"
  using assms
  by (auto simp: completeReason_def completeStream_def completeResponse_def completeProviderError_def completeTransport_def
      completeDownstreamWrite_def completeMissingOutcome_def Let_def recorder_bind_outcome recorder_inv_outcome)

lemma recorder_inv_canceled:
  assumes "recorder_inv rec"
  shows "recorder_inv (completeCanceled ctx status i rec)"
proof -
  have "recorder_inv (set_attempt k (\<lambda>a. a\<lparr>ta_ErrorCode := code, ta_ErrorSummary := s\<rparr>) rec)" for k code s
    using assms by (rule recorder_inv_set_attempt) (simp add: attempt_id_def)
  then show ?thesis using assms by (auto simp: completeCanceled_def Let_def recorder_bind_outcome split: option.split)
qed

text \<open>The cost of a bound usage fits the persisted matrix.\<close>

lemma quote_matrix:
  assumes "rs_State res \<in> {StateComplete, StatePartial, StateMissing, StateNotApplicable}"
    and "rs_State res \<noteq> StateNotApplicable \<longrightarrow> fp_applicable f"
  shows "usagecost_Validate (rs_State res) (po_CostState (quoteFrozenAttempt f res mode))
     (po_EstimatedCostNanoUSD (quoteFrozenAttempt f res mode)) = None"
proof -
  have quoted: "usagecost_Validate (rs_State res) (qt_State q) (qt_EstimatedCostNanoUSD q) = None"
    if "QuoteForModeWithReceipt t i res mode = (q, r)" for t i q r
    using quote_matrix_ok [OF assms(1), of t i mode] that by (simp add: QuoteForMode_def)
  have "rs_State res = StateNotApplicable \<Longrightarrow> usagecost_Validate (rs_State res) CostStateNotApplicable 0 = None"
    "rs_State res \<noteq> StateNotApplicable \<Longrightarrow> usagecost_Validate (rs_State res) CostStateUnpriced 0 = None"
    using assms(1) by (auto simp: usagecost_Validate_def)
  then show ?thesis using assms(2) quoted by (auto simp: quoteFrozenAttempt_def Let_def split: prod.split)
qed

lemma recorder_cost_valid:
  assumes "recorder_inv rec"
  shows "usagecost_Validate (rs_State (uo_Result (rq_usage rec))) (po_CostState (uo_Pricing (rq_usage rec)))
      (estimatedCostNanoUSD rec) = None \<and> 0 \<le> estimatedCostNanoUSD rec"
proof -
  have v: "usagecost_Validate (rs_State (uo_Result (rq_usage rec))) (po_CostState (uo_Pricing (rq_usage rec)))
      (estimatedCostNanoUSD rec) = None"
  proof (cases "rq_usage rec = notApplicableUsageObservation")
    case True
    then show ?thesis
      by (simp add: estimatedCostNanoUSD_def notApplicableUsageObservation_def Usage_Result0_def usagecost_Validate_def)
  next
    case False
    have "usage_bound rec" using assms by (simp add: recorder_inv_def)
    with False obtain i where state: "rs_State (uo_Result (rq_usage rec)) \<in> {StateComplete, StatePartial, StateMissing, StateNotApplicable}"
      and app: "rs_State (uo_Result (rq_usage rec)) \<noteq> StateNotApplicable \<longrightarrow> fp_applicable (rq_attemptPricing rec ! i)"
      and quote: "uo_Pricing (rq_usage rec) = quoteFrozenAttempt (rq_attemptPricing rec ! i) (uo_Result (rq_usage rec))
          (effectivePricingMode (rq_requestedPricingMode rec))"
      unfolding usage_bound_def by blast
    show ?thesis unfolding estimatedCostNanoUSD_def quote by (rule quote_matrix [OF state app])
  qed
  then have "0 \<le> estimatedCostNanoUSD rec" by (auto simp: usagecost_Validate_def split: if_splits)
  with v show ?thesis by blast
qed

end
