(* ===== verification/Gateway_Attempts.thy ===== *)
theory Gateway_Attempts
  imports Gateway_Recorder Affinity
begin

text \<open>
  The attempt loop of the data plane (\<open>executeAttempts\<close> and its helpers in
  \<open>src/internal/gateway/handler.go\<close>, with \<open>proxy.go\<close>, \<open>affinity.go\<close> and
  \<open>execution_boundary.go\<close>): draw a credential, prepare it, admit the request against its cost
  limits, forward it, judge the result, apply the effects and retry or deliver.

  The state shared with other requests is a \<open>World\<close>. Each turn of the loop comes with a \<open>Turn\<close>:
  what this turn observes of its surroundings, namely the readings of clock and registry, the random
  draws, the result of the forwarder, and the changes other requests make to the world between its
  steps. The loop runs on a sequence of turns with fuel; the theory of its properties shows how much
  fuel is always enough. Debug headers and logging are left out.
\<close>

section \<open>The surroundings\<close>

record World =
  wd_registry :: CredentialRegistry
  wd_stats :: StatsStore
  wd_quota :: Runtime
  wd_affinity :: "Cache option"
  wd_current :: nat

text \<open>
  Services of the handler. The encryption service, the subscription drivers and the extraction of
  secret values from a stored payload are functions; \<open>None\<close> is a failure. \<open>sv_accessQuota\<close> says that the
  handler has a quota runtime.
\<close>

record Services =
  sv_parsers :: TimeParsers
  sv_decrypt :: "string \<Rightarrow> string option"
  sv_hash :: "string \<Rightarrow> string"
  sv_channels :: ChannelRegistry
  sv_json :: channel_json
  sv_urls :: url_library
  sv_proxyJSON :: json_library
  sv_driver :: "string \<Rightarrow> (string \<Rightarrow> (string \<times> string list) option) option"
  sv_secretValues :: "string \<Rightarrow> string list"
  sv_sanitize :: redaction
  sv_accessQuota :: bool

text \<open>What a write to the client came to; the context is read only when it failed.\<close>

record WriteOutcome =
  wo_failed :: bool
  wo_context :: Context
  wo_written :: bool
  wo_status :: int

record requestAffinity =
  ra_key :: Key
  ra_observation :: Observation
  ra_preferredCredentialID :: nat
  ra_continuityKey :: string

record RequestArgs =
  rx_requestID :: string
  rx_protocol :: Protocol
  rx_method :: string
  rx_externalModel :: string
  rx_stream :: bool
  rx_observeUsage :: bool
  rx_operation :: Operation
  rx_routeRequirement :: RouteRequirement
  rx_affinity :: requestAffinity
  rx_allowedRefs :: "(nat, CredentialRef) gomap"
  rx_write :: WriteOutcome

record CredentialSnapshot =
  cd_CredentialID :: nat
  cd_Version :: uint64
  cd_IdentityGeneration :: uint64
  cd_Payload :: string

text \<open>
  The input of the forwarder. The parsed request and its dialect, which are the same for all attempts, and the
  attempt identifier, made of the request identifier and the sequence number, are left out.
\<close>

record ForwardInput =
  fi_ObserveUsage :: bool
  fi_Group :: GroupView
  fi_APIKey :: string
  fi_CredentialSecrets :: "string list"
  fi_ExternalModel :: string
  fi_UpstreamModelID :: string
  fi_RequestID :: string
  fi_AttemptSequence :: "32 word"
  fi_ClientProtocol :: Protocol
  fi_Operation :: Operation
  fi_RouteRequirement :: RouteRequirement
  fi_ResponsesStoreDowngraded :: bool
  fi_ChannelID :: string
  fi_RouteMode :: RouteMode
  fi_TargetConfig :: string
  fi_Credential :: CredentialSnapshot
  fi_Proxy :: Effective
  fi_ProxyFingerprint :: string
  fi_ForceCredentialRefresh :: bool
  fi_ContinuityKey :: string

text \<open>
  One turn: the context at its start and after the forward, the readings of \<open>Next\<close>, what others do
  to the world before the selection is looked up, before its secret is read, before the admission and
  while the request is forwarded, the first response the forwarder reports, if any, and the instants read.
\<close>

record Turn =
  tn_before :: Context
  tn_views :: "nat \<Rightarrow> CredentialRegistry \<times> time"
  tn_draw :: "int \<Rightarrow> int"
  tn_lookup :: "World \<Rightarrow> World"
  tn_match :: "World \<Rightarrow> World"
  tn_admission :: "World \<Rightarrow> World"
  tn_during :: "World \<Rightarrow> World"
  tn_forward :: "ForwardInput \<Rightarrow> UpstreamResult"
  tn_firstResponse :: "time option"
  tn_after :: Context
  tn_quotaNow :: time
  tn_started :: time
  tn_completed :: time
  tn_now :: time
  tn_affinityNow :: time
  tn_table :: "Table option"
  tn_write :: WriteOutcome

section \<open>Preparation of a credential\<close>

record normalizedCredential =
  nc_apiKey :: string
  nc_payload :: string
  nc_secrets :: "string list"

definition normalizeChannelCredential :: "Services \<Rightarrow> string \<Rightarrow> string \<Rightarrow> string \<Rightarrow> normalizedCredential option" where
  "normalizeChannelCredential sv channelID connectionType decrypted =
     (let trimmed = TrimSpace decrypted in
      if channelID = [] \<or> trimmed = [] then None
      else case Channel_ConnectionType (sv_channels sv) channelID of
        None \<Rightarrow> None
      | Some expected \<Rightarrow>
          if TrimSpace connectionType \<noteq> expected then None
          else case sv_driver sv channelID of
            Some parse \<Rightarrow>
              (case parse trimmed of None \<Rightarrow> None
               | Some (payload, secrets) \<Rightarrow> Some \<lparr>nc_apiKey = [], nc_payload = payload, nc_secrets = secrets\<rparr>)
          | None \<Rightarrow>
              if expected \<noteq> ''api_key'' then None
              else case ValidateCredential (sv_json sv) (sv_channels sv) channelID trimmed of
                Inl _ \<Rightarrow> None
              | Inr validated \<Rightarrow>
                  let payload = canonicalJSON (sv_json sv) validated in
                  Some \<lparr>nc_apiKey = lookup_or [] validated ''api_key'', nc_payload = payload,
                    nc_secrets = sv_secretValues sv payload\<rparr>)"

definition effectiveProxyFingerprint :: "Services \<Rightarrow> Effective \<Rightarrow> string option" where
  "effectiveProxyFingerprint sv effective0 =
     (case NormalizeEffective (sv_urls sv) effective0 of
        None \<Rightarrow> None
      | Some effective \<Rightarrow>
          if pc_Mode (ef_Config effective) = ModeEnvironment
          then Some (sv_hash sv (''{'' @ [CHR 0x22] @ ''mode'' @ [CHR 0x22] @ '':'' @ [CHR 0x22] @ ''environment'' @ [CHR 0x22] @ ''}''))
          else map_option (sv_hash sv) (Proxy_Encode (sv_urls sv) (sv_proxyJSON sv) (ef_Config effective)))"

definition resolveAttemptProxy :: "Services \<Rightarrow> Effective \<Rightarrow> CredentialRef \<Rightarrow> (Effective \<times> string) option" where
  "resolveAttemptProxy sv groupProxy0 ref =
     (case NormalizeEffective (sv_urls sv) groupProxy0 of
        None \<Rightarrow> None
      | Some groupProxy \<Rightarrow>
          if cr_EncryptedProxy ref = [] then
            (if cr_ProxyFingerprint ref \<noteq> [] then None
             else map_option (Pair groupProxy) (effectiveProxyFingerprint sv groupProxy))
          else if cr_ProxyFingerprint ref = [] then None
          else case sv_decrypt sv (cr_EncryptedProxy ref) of
            None \<Rightarrow> None
          | Some plaintext \<Rightarrow>
              if sv_hash sv plaintext \<noteq> cr_ProxyFingerprint ref then None
              else case Proxy_Decode (sv_urls sv) (sv_proxyJSON sv) plaintext of
                None \<Rightarrow> None
              | Some config \<Rightarrow>
                  if pc_Mode config = ModeInherit then None
                  else map_option (\<lambda>effective. (effective, sv_hash sv plaintext))
                         (Proxy_Resolve (sv_urls sv) (Some config) None None None))"

section \<open>Effects on the shared state\<close>

definition applyDecisionEffectWithBlacklistPolicy ::
  "nat \<Rightarrow> uint64 \<Rightarrow> HealthDecision \<Rightarrow> int \<Rightarrow> time \<Rightarrow> int \<Rightarrow> World \<Rightarrow> World" where
  "applyDecisionEffectWithBlacklistPolicy credentialID credentialVersion d statusCode attemptNow blacklistThreshold w =
     (case hd_Effect d of
        EffectCooldownCredential \<Rightarrow>
          (case (if credentialVersion = 0 then SetCooldownWithChange credentialID (hd_CooldownUntil d) (wd_registry w)
                 else SetCooldownWithChangeIfVersion credentialID credentialVersion (hd_CooldownUntil d) (wd_registry w)) of
             ((found, changed), r) \<Rightarrow>
               if \<not> found then w\<lparr>wd_registry := r\<rparr>
               else w\<lparr>wd_registry := r, wd_stats := RecordProblem credentialID (hd_Category d) statusCode attemptNow (wd_stats w)\<rparr>)
      | EffectRecordCredentialFailure \<Rightarrow>
          (case IncrFailure credentialID (wd_registry w) of
             (None, r) \<Rightarrow> w\<lparr>wd_registry := r\<rparr>
           | (Some failures, r) \<Rightarrow>
               if 0 < blacklistThreshold \<and> blacklistThreshold \<le> failures then
                 (case SetBlacklistedWithChange credentialID r of ((found, became), r') \<Rightarrow>
                    if \<not> found then w\<lparr>wd_registry := r'\<rparr>
                    else w\<lparr>wd_registry := r', wd_stats := RecordFailure credentialID (hd_Category d) statusCode attemptNow (wd_stats w)\<rparr>)
               else w\<lparr>wd_registry := r, wd_stats := RecordFailure credentialID (hd_Category d) statusCode attemptNow (wd_stats w)\<rparr>)
      | _ \<Rightarrow> w)"

definition applyGroupDecisionEffect :: "GroupView \<Rightarrow> nat \<Rightarrow> uint64 \<Rightarrow> HealthDecision \<Rightarrow> int \<Rightarrow> time \<Rightarrow> World \<Rightarrow> World" where
  "applyGroupDecisionEffect g credentialID credentialVersion d statusCode attemptNow =
     applyDecisionEffectWithBlacklistPolicy credentialID credentialVersion d statusCode attemptNow (gv_BlacklistThreshold g)"

definition refreshCooldownCredentialVersion :: "UpstreamResult \<Rightarrow> uint64 \<Rightarrow> uint64" where
  "refreshCooldownCredentialVersion result credentialVersion =
     (if ur_DispatchState result = DispatchNotSent
         \<and> (\<exists>ev \<in> set_option (ur_ExecutionError result). ev_Hint ev = FailureHintRefreshUnavailable)
      then credentialVersion else 0)"

definition recordCredentialSuccess :: "nat \<Rightarrow> time \<Rightarrow> World \<Rightarrow> World" where
  "recordCredentialSuccess credentialID now w =
     (case ClearFailure credentialID (wd_registry w) of (found, r) \<Rightarrow>
        if found then w\<lparr>wd_registry := r, wd_stats := Health_Stats.RecordSuccess credentialID now (wd_stats w)\<rparr>
        else w\<lparr>wd_registry := r\<rparr>)"

definition recordAffinitySuccess :: "requestAffinity \<Rightarrow> Selection \<Rightarrow> CredentialRef \<Rightarrow> time \<Rightarrow> World \<Rightarrow> World" where
  "recordAffinitySuccess ra selection ref now w =
     (if wd_affinity w = None \<or> \<not> Key_Valid (ra_key ra) \<or> \<not> gv_AffinityEnabled (sel_Group selection) then w
      else w\<lparr>wd_affinity := snd (Affinity.RecordSuccess (ra_key ra) (ra_observation ra)
              \<lparr>Target.tg_GroupID = sel_GroupID selection, tg_CredentialID = sel_CredentialID selection,
               tg_IdentityGeneration = cr_IdentityGeneration ref\<rparr> now (wd_affinity w))\<rparr>)"

definition retryAttemptLimit :: "GroupView \<Rightarrow> int" where
  "retryAttemptLimit g =
     (if gv_RetryCount g \<le> 0 then 1 else if gv_RetryCount g \<ge> MaxInt64 then MaxInt64 else gv_RetryCount g + 1)"

section \<open>The loop\<close>

record deferredAttempt =
  da_result :: UpstreamResult
  da_decision :: HealthDecision
  da_upstreamModel :: string
  da_attemptIndex :: int

record requestAccessQuotaAdmission =
  qa_accessKeyID :: nat
  qa_snapshot :: "nat option"
  qa_ticket :: Ticket
  qa_admitted :: bool

text \<open>
  The variables of \<open>executeAttempts\<close>, with the world, the calls made to the forwarder (the input,
  the result after \<open>normalizeUpstreamResultContract\<close> and the decision), and the call of \<open>Admit\<close> that admitted the
  request (the world it saw, the instant, and the number of forwards before it).
\<close>

record Loop =
  lp_world :: World
  lp_iterator :: Iterator
  lp_recorder :: requestRecorder
  lp_quota :: requestAccessQuotaAdmission
  lp_lastResponse :: "deferredAttempt option"
  lp_lastTransport :: "deferredAttempt option"
  lp_lastConversion :: "deferredAttempt option"
  lp_lastProviderError :: "deferredAttempt option"
  lp_lastAttemptIndex :: int
  lp_attemptSequence :: int
  lp_forwardAttempts :: int
  lp_forwardAttemptLimit :: int
  lp_retryPolicyResolved :: bool
  lp_refreshRetry :: "(Selection \<times> CredentialRef) option"
  lp_authRefreshReplayUsed :: bool
  lp_forwards :: "(ForwardInput \<times> UpstreamResult \<times> HealthDecision) list"
  lp_admission :: "(World \<times> time \<times> nat) option"

definition start_loop :: "World \<Rightarrow> Iterator \<Rightarrow> requestRecorder \<Rightarrow> requestAccessQuotaAdmission \<Rightarrow> Loop" where
  "start_loop w it rec quota =
     \<lparr>lp_world = w, lp_iterator = it, lp_recorder = rec, lp_quota = quota, lp_lastResponse = None, lp_lastTransport = None,
      lp_lastConversion = None, lp_lastProviderError = None, lp_lastAttemptIndex = -1, lp_attemptSequence = 0,
      lp_forwardAttempts = 0, lp_forwardAttemptLimit = 1, lp_retryPolicyResolved = False, lp_refreshRetry = None,
      lp_authRefreshReplayUsed = False, lp_forwards = [], lp_admission = None\<rparr>"

text \<open>What the client gets.\<close>

datatype Delivery =
    DeliverNothing
  | DeliverStream UpstreamResult
  | DeliverResponse UpstreamResult
  | DeliverReason reason
  | DeliverQuota QuotaDecision

text \<open>A turn ends with \<open>continue\<close>, \<open>break\<close> or \<open>return\<close>.\<close>

datatype step = Continue Loop | Break Loop | Return Delivery Loop

definition completeWriteTerminal :: "WriteOutcome \<Rightarrow> int \<Rightarrow> requestRecorder \<Rightarrow> requestRecorder" where
  "completeWriteTerminal wo selectedStatus rec =
     (if cx_Err (wo_context wo) \<noteq> None
      then completeCanceled (Some (wo_context wo)) (if wo_written wo then wo_status wo else 0) (-1) rec
      else completeDownstreamWrite selectedStatus rec)"

definition after_write :: "WriteOutcome \<Rightarrow> int \<Rightarrow> Loop \<Rightarrow> Loop" where
  "after_write wo status lp = (if wo_failed wo then lp\<lparr>lp_recorder := completeWriteTerminal wo status (lp_recorder lp)\<rparr> else lp)"

definition deliver_reason :: "WriteOutcome \<Rightarrow> reason \<Rightarrow> Loop \<Rightarrow> Delivery \<times> Loop" where
  "deliver_reason wo v lp = (DeliverReason v, after_write wo (re_Status v) lp)"

text \<open>\<open>Handler.completeReason\<close>.\<close>

definition complete_reason :: "WriteOutcome \<Rightarrow> reason \<Rightarrow> Loop \<Rightarrow> Delivery \<times> Loop" where
  "complete_reason wo v lp = deliver_reason wo v (lp\<lparr>lp_recorder := completeReason v (lp_recorder lp)\<rparr>)"

definition DefaultRefreshFailureCooldown :: duration where
  "DefaultRefreshFailureCooldown = 10 * Minute"

definition fixedCooldown :: duration where
  "fixedCooldown = Minute"

definition decisionContextForSelection :: "RequestArgs \<Rightarrow> Selection \<Rightarrow> DecisionContext" where
  "decisionContextForSelection rx selection =
     (let subscription = TrimSpace (gv_ConnectionType (sel_Group selection)) = ''subscription''
      in \<lparr>dc_DefaultRateLimitCooldown = (if subscription then DefaultRefreshFailureCooldown else fixedCooldown),
          dc_CredentialRefreshable = subscription, dc_Method = rx_method rx, dc_Operation = rx_operation rx\<rparr>)"

definition freezeAttemptPricing :: "Table option \<Rightarrow> Selection \<Rightarrow> bool \<Rightarrow> frozenAttemptPricing" where
  "freezeAttemptPricing table selection applicable =
     \<lparr>fp_channelID = sel_ChannelID selection, fp_groupID = sel_GroupID selection,
      fp_upstreamModel = optionalModelValue (sel_UpstreamModelID selection), fp_table = table, fp_applicable = applicable\<rparr>"

text \<open>Both kinds of attempt count, note an affinity hit on the first one, and freeze their prices.\<close>

definition begin_attempt :: "RequestArgs \<Rightarrow> Turn \<Rightarrow> Selection \<Rightarrow> Loop \<Rightarrow> Loop" where
  "begin_attempt rx tn selection lp =
     (let attemptSequence = lp_attemptSequence lp + 1;
          preferred = ra_preferredCredentialID (rx_affinity rx);
          rec1 = setAffinityHit (attemptSequence = 1 \<and> preferred \<noteq> 0 \<and> sel_CredentialID selection = preferred) (lp_recorder lp);
          rec2 = freezeNextAttemptPricing (freezeAttemptPricing (tn_table tn) selection (rx_observeUsage rx)) rec1
      in lp\<lparr>lp_attemptSequence := attemptSequence, lp_recorder := beforeForward rec2\<rparr>)"

definition skip_effect :: "HealthDecision \<Rightarrow> Selection \<Rightarrow> Iterator \<Rightarrow> Iterator" where
  "skip_effect d selection it = (if hd_Effect d = EffectSkipGroup then SkipGroup (sel_GroupID selection) it else it)"

definition deferred_attempt :: "UpstreamResult \<Rightarrow> HealthDecision \<Rightarrow> Selection \<Rightarrow> int \<Rightarrow> deferredAttempt" where
  "deferred_attempt result d selection i =
     \<lparr>da_result = result, da_decision = d, da_upstreamModel = optionalModelValue (sel_UpstreamModelID selection), da_attemptIndex = i\<rparr>"

definition preparation_result :: "string \<Rightarrow> string \<Rightarrow> ErrorScope \<Rightarrow> UpstreamResult" where
  "preparation_result code summary scope =
     UpstreamResult0\<lparr>ur_Err := Some ErrUpstreamProtocol, ur_DispatchState := DispatchNotSent,
       ur_ExecutionError := Some (ErrorEvidence0\<lparr>ev_Kind := ErrorKindInternal, ev_OriginHint := ErrorOriginInternal,
         ev_ScopeHint := scope, ev_Code := code, ev_Summary := summary\<rparr>), ur_ErrorSummary := summary\<rparr>"

definition recordCandidatePreparationFailure ::
  "Services \<Rightarrow> RequestArgs \<Rightarrow> Turn \<Rightarrow> Selection \<Rightarrow> string \<Rightarrow> string \<Rightarrow> ErrorScope \<Rightarrow> Loop \<Rightarrow> step" where
  "recordCandidatePreparationFailure sv rx tn selection code summary scope lp0 =
     (let lp = begin_attempt rx tn selection lp0;
          result = preparation_result code summary scope;
          d = judgeUpstreamResult (sv_parsers sv) result (tn_now tn) (decisionContextForSelection rx selection)
      in case recordAttempt (sv_sanitize sv) selection [] result d (tn_started tn) (tn_completed tn) (lp_recorder lp) of
        (i, rec) \<Rightarrow>
          let lp' = lp\<lparr>lp_recorder := (if hd_Retry d \<noteq> RetryNone then retryIfAnotherForward i rec else rec),
                       lp_lastAttemptIndex := i,
                       lp_world := applyGroupDecisionEffect (sel_Group selection) (sel_CredentialID selection) 0 d 0 (tn_now tn) (lp_world lp),
                       lp_iterator := skip_effect d selection (lp_iterator lp),
                       lp_lastTransport := Some (deferred_attempt result d selection i)\<rparr>
          in if hd_Retry d \<noteq> RetryNone then Continue lp' else Break lp')"

text \<open>The candidate of a turn: the credential to refresh and replay, or the next draw.\<close>

datatype choice = Skip Loop | Exhausted Loop | Chosen Selection CredentialRef bool Loop

definition choose_candidate :: "RequestArgs \<Rightarrow> Turn \<Rightarrow> Loop \<Rightarrow> choice" where
  "choose_candidate rx tn lp0 =
     (case lp_refreshRetry lp0 of
        Some (selection, ref) \<Rightarrow>
          let lp = lp0\<lparr>lp_world := tn_lookup tn (lp_world lp0), lp_refreshRetry := None\<rparr> in
          (case Registry_CredentialRef (sel_CredentialID selection) (wd_registry (lp_world lp)) of
             None \<Rightarrow> Skip lp
           | Some currentRef \<Rightarrow>
               if cr_GroupID currentRef \<noteq> sel_GroupID selection
                  \<or> cr_IdentityGeneration currentRef \<noteq> cr_IdentityGeneration ref
                  \<or> cr_EncryptedProxy currentRef \<noteq> cr_EncryptedProxy ref
                  \<or> cr_ProxyFingerprint currentRef \<noteq> cr_ProxyFingerprint ref then Skip lp
               else Chosen selection currentRef (cr_Version currentRef \<le> cr_Version ref) (lp\<lparr>lp_authRefreshReplayUsed := True\<rparr>))
      | None \<Rightarrow>
          (case Next registry_collect (tn_views tn) (tn_draw tn) (lp_iterator lp0) of (outcome, it) \<Rightarrow>
             let lp = lp0\<lparr>lp_iterator := it\<rparr> in
             (case outcome of
                Inl _ \<Rightarrow> Exhausted lp
              | Inr selection \<Rightarrow>
                  (case map_of (rx_allowedRefs rx) (sel_CredentialID selection) of
                     None \<Rightarrow> Skip lp
                   | Some ref \<Rightarrow> if cr_GroupID ref \<noteq> sel_GroupID selection then Skip lp
                                else Chosen selection ref False lp))))"

text \<open>The first active candidate fixes the number of forwards for the whole request.\<close>

definition resolve_policy :: "Selection \<Rightarrow> Loop \<Rightarrow> Loop" where
  "resolve_policy selection lp =
     (if lp_retryPolicyResolved lp then lp
      else lp\<lparr>lp_forwardAttemptLimit := retryAttemptLimit (sel_Group selection), lp_retryPolicyResolved := True\<rparr>)"

record prepared =
  pd_credential :: normalizedCredential
  pd_proxy :: Effective
  pd_fingerprint :: string

type_synonym preparation_failure = "string \<times> string \<times> ErrorScope"

definition prepare_candidate :: "Services \<Rightarrow> Selection \<Rightarrow> CredentialRef \<Rightarrow> string \<Rightarrow> preparation_failure + prepared" where
  "prepare_candidate sv selection ref encrypted =
     (case sv_decrypt sv encrypted of
        None \<Rightarrow> Inl (''credential_decrypt_failed'', ''Stored credential could not be decrypted.'', ErrorScopeCredential)
      | Some decrypted \<Rightarrow>
          (case normalizeChannelCredential sv (sel_ChannelID selection) (gv_ConnectionType (sel_Group selection)) decrypted of
             None \<Rightarrow> Inl (''credential_normalization_failed'', ''Stored credential could not be prepared.'', ErrorScopeCredential)
           | Some credential \<Rightarrow>
               (case resolveAttemptProxy sv (gv_Proxy (sel_Group selection)) ref of
                  None \<Rightarrow>
                    if cr_EncryptedProxy ref \<noteq> [] \<or> cr_ProxyFingerprint ref \<noteq> []
                    then Inl (''credential_proxy_prepare_failed'', ''Credential proxy configuration could not be prepared.'', ErrorScopeCredential)
                    else Inl (''group_proxy_prepare_failed'', ''Group proxy configuration could not be prepared.'', ErrorScopeGroup)
                | Some (proxy, fingerprint) \<Rightarrow>
                    Inr \<lparr>pd_credential = credential, pd_proxy = proxy, pd_fingerprint = fingerprint\<rparr>)))"

definition admitAccessQuotaForSnapshot :: "nat \<Rightarrow> nat \<Rightarrow> time \<Rightarrow> World \<Rightarrow> ((Ticket \<times> QuotaDecision) \<times> World) option" where
  "admitAccessQuotaForSnapshot snapshot accessKeyID now w =
     (if wd_current w \<noteq> snapshot then None
      else case Admit accessKeyID now (wd_quota w) of (r, rt) \<Rightarrow> Some (r, w\<lparr>wd_quota := rt\<rparr>))"

text \<open>The admission: \<open>Inl\<close> returns from the request.\<close>

definition admit_request :: "Services \<Rightarrow> Turn \<Rightarrow> Loop \<Rightarrow> (Delivery \<times> Loop) + Loop" where
  "admit_request sv tn lp0 =
     (let lp = lp0\<lparr>lp_world := tn_admission tn (lp_world lp0)\<rparr>; quota = lp_quota lp; w = lp_world lp in
      if qa_admitted quota \<or> \<not> sv_accessQuota sv then Inr lp
      else case (case qa_snapshot quota of
                   None \<Rightarrow> (case Admit (qa_accessKeyID quota) (tn_quotaNow tn) (wd_quota w) of (r, rt) \<Rightarrow> Some (r, w\<lparr>wd_quota := rt\<rparr>))
                 | Some snapshot \<Rightarrow> admitAccessQuotaForSnapshot snapshot (qa_accessKeyID quota) (tn_quotaNow tn) w) of
             None \<Rightarrow> Inl (complete_reason (tn_write tn) reasonConfigurationChanged lp)
           | Some ((ticket, d), w') \<Rightarrow>
               if \<not> qd_Allowed d
               then Inl (DeliverQuota d, after_write (tn_write tn) (re_Status reasonAccessKeyCostLimitExceeded)
                      (lp\<lparr>lp_world := w', lp_recorder := completeReason reasonAccessKeyCostLimitExceeded (lp_recorder lp)\<rparr>))
               else Inr (lp\<lparr>lp_world := w', lp_quota := quota\<lparr>qa_ticket := ticket, qa_admitted := True\<rparr>,
                      lp_admission := Some (w, tn_quotaNow tn, length (lp_forwards lp))\<rparr>))"

definition forward_input ::
  "RequestArgs \<Rightarrow> Selection \<Rightarrow> CredentialRef \<Rightarrow> bool \<Rightarrow> prepared \<Rightarrow> int \<Rightarrow> ForwardInput" where
  "forward_input rx selection ref forceRefresh pd attemptSequence =
     \<lparr>fi_ObserveUsage = rx_observeUsage rx, fi_Group = sel_Group selection, fi_APIKey = nc_apiKey (pd_credential pd),
      fi_CredentialSecrets = nc_secrets (pd_credential pd), fi_ExternalModel = rx_externalModel rx,
      fi_UpstreamModelID = optionalModelValue (sel_UpstreamModelID selection),
      fi_RequestID = (if rx_requestID rx \<noteq> [] then rx_requestID rx else ''untracked''),
      fi_AttemptSequence = of_int attemptSequence, fi_ClientProtocol = rx_protocol rx, fi_Operation = rx_operation rx,
      fi_RouteRequirement = rx_routeRequirement rx, fi_ResponsesStoreDowngraded = sel_ResponsesStoreDowngraded selection,
      fi_ChannelID = sel_ChannelID selection, fi_RouteMode = sel_RouteMode selection,
      fi_TargetConfig = rt_TargetConfig (sel_ResolvedTarget selection),
      fi_Credential = \<lparr>cd_CredentialID = sel_CredentialID selection, cd_Version = cr_Version ref,
        cd_IdentityGeneration = cr_IdentityGeneration ref, cd_Payload = nc_payload (pd_credential pd)\<rparr>,
      fi_Proxy = pd_proxy pd, fi_ProxyFingerprint = pd_fingerprint pd, fi_ForceCredentialRefresh = forceRefresh,
      fi_ContinuityKey = ra_continuityKey (rx_affinity rx)\<rparr>"

text \<open>
  The result of the forwarder as the loop uses it, and as the judge sees it: when the request was
  canceled meanwhile the judge gets the error of the context.
\<close>

definition observed_result :: "RequestArgs \<Rightarrow> Turn \<Rightarrow> UpstreamResult \<Rightarrow> UpstreamResult" where
  "observed_result rx tn result0 =
     (let result = normalizeUpstreamResultContract result0 in
      if rx_stream rx \<and> ur_Committed result \<and> so_EndReason (ur_Stream result) = StreamEndNone
      then result\<lparr>ur_Stream := prioritizeStreamObservation (Some (tn_after tn)) (ur_Err result) (ur_Stream result)\<rparr>
      else result)"

definition judged_result :: "Turn \<Rightarrow> UpstreamResult \<Rightarrow> UpstreamResult" where
  "judged_result tn result = (if cx_Err (tn_after tn) \<noteq> None then result\<lparr>ur_Err := cx_Err (tn_after tn)\<rparr> else result)"

text \<open>The end of a request whose response was committed by the forwarder.\<close>

definition settle_committed ::
  "Services \<Rightarrow> RequestArgs \<Rightarrow> Turn \<Rightarrow> Selection \<Rightarrow> CredentialRef \<Rightarrow> string list \<Rightarrow> UpstreamResult \<Rightarrow> HealthDecision \<Rightarrow> Loop \<Rightarrow> step" where
  "settle_committed sv rx tn selection ref secrets result d lp =
     (case recordStreamAttempt (sv_sanitize sv) selection secrets result d (tn_started tn) (tn_completed tn) (lp_recorder lp) of
        (i, rec) \<Rightarrow>
          let w1 = applyGroupDecisionEffect (sel_Group selection) (sel_CredentialID selection) 0 d (ur_StatusCode result) (tn_now tn) (lp_world lp);
              w2 = (if rx_stream rx \<and> so_EndReason (ur_Stream result) = StreamEndCleanEOF
                    then recordAffinitySuccess (rx_affinity rx) selection ref (tn_affinityNow tn)
                           (recordCredentialSuccess (sel_CredentialID selection) (tn_now tn) w1)
                    else w1)
          in Return (DeliverStream result)
               (lp\<lparr>lp_recorder := completeStream result (optionalModelValue (sel_UpstreamModelID selection)) i rec, lp_world := w2\<rparr>))"

text \<open>The effects of a result that was not committed, before the loop decides what to do with it.\<close>

definition settle_effects ::
  "Services \<Rightarrow> RequestArgs \<Rightarrow> Turn \<Rightarrow> Selection \<Rightarrow> CredentialRef \<Rightarrow> string list \<Rightarrow> UpstreamResult \<Rightarrow> HealthDecision \<Rightarrow> Loop \<Rightarrow> int \<times> Loop" where
  "settle_effects sv rx tn selection ref secrets result d lp =
     (case recordAttempt (sv_sanitize sv) selection secrets result d (tn_started tn) (tn_completed tn) (lp_recorder lp) of
        (i, rec) \<Rightarrow>
          let w1 = (if \<not> rx_stream rx \<and> ur_DispatchState result \<noteq> DispatchLocal \<and> \<not> ur_ProviderErrorBeforeCommit result
                      \<and> HasResponse result \<and> isSuccessStatus (ur_StatusCode result)
                    then recordCredentialSuccess (sel_CredentialID selection) (tn_now tn) (lp_world lp) else lp_world lp)
          in (i, lp\<lparr>lp_recorder := rec, lp_lastAttemptIndex := i,
                lp_world := applyGroupDecisionEffect (sel_Group selection) (sel_CredentialID selection)
                  (refreshCooldownCredentialVersion result (cr_Version ref)) d (ur_StatusCode result) (tn_now tn) w1,
                lp_refreshRetry := (if hd_Retry d = RetryRefreshCredential \<and> \<not> lp_authRefreshReplayUsed lp
                                      \<and> lp_forwardAttempts lp < lp_forwardAttemptLimit lp
                                    then Some (selection, ref) else lp_refreshRetry lp),
                lp_iterator := skip_effect d selection (lp_iterator lp)\<rparr>))"

definition retry_after :: "int \<Rightarrow> Loop \<Rightarrow> step" where
  "retry_after i lp = Continue (lp\<lparr>lp_recorder := retryIfAnotherForward i (lp_recorder lp)\<rparr>)"

definition return_with :: "Delivery \<times> Loop \<Rightarrow> step" where
  "return_with r = Return (fst r) (snd r)"

definition settle_response ::
  "RequestArgs \<Rightarrow> Turn \<Rightarrow> Selection \<Rightarrow> CredentialRef \<Rightarrow> UpstreamResult \<Rightarrow> HealthDecision \<Rightarrow> int \<Rightarrow> Loop \<Rightarrow> step" where
  "settle_response rx tn selection ref result d i lp0 =
     (let model = optionalModelValue (sel_UpstreamModelID selection);
          lp = lp0\<lparr>lp_lastResponse := Some (deferred_attempt result d selection i)\<rparr>
      in if hd_Retry d \<noteq> RetryNone then retry_after i lp
         else
           let finished = lp\<lparr>lp_recorder := completeResponse result d model i (lp_recorder lp)\<rparr>
           in Return (DeliverResponse result)
                (if wo_failed (tn_write tn) then after_write (tn_write tn) (ur_StatusCode result) finished
                 else if ur_DispatchState result \<noteq> DispatchLocal \<and> isSuccessStatus (ur_StatusCode result)
                 then finished\<lparr>lp_world := recordAffinitySuccess (rx_affinity rx) selection ref (tn_affinityNow tn) (lp_world finished)\<rparr>
                 else finished))"

definition settle_transport :: "Turn \<Rightarrow> Selection \<Rightarrow> UpstreamResult \<Rightarrow> HealthDecision \<Rightarrow> int \<Rightarrow> Loop \<Rightarrow> step" where
  "settle_transport tn selection result d i lp =
     (let model = optionalModelValue (sel_UpstreamModelID selection) in
      if err_is ge_Canceled (ur_Err result)
      then Return DeliverNothing (lp\<lparr>lp_recorder := completeCanceled (Some (tn_after tn)) 0 i (lp_recorder lp)\<rparr>)
      else if hd_Retry d \<noteq> RetryNone
      then retry_after i (if isConversionUnsupportedResult result
             then lp\<lparr>lp_lastConversion := Some (deferred_attempt result d selection i)\<rparr>
             else lp\<lparr>lp_lastTransport := Some (deferred_attempt result d selection i)\<rparr>)
      else return_with (deliver_reason (tn_write tn) (transportReason result)
             (lp\<lparr>lp_recorder := completeTransport (transportReason result) model i (lp_recorder lp)\<rparr>)))"

definition settle_provider_error :: "Turn \<Rightarrow> Selection \<Rightarrow> UpstreamResult \<Rightarrow> HealthDecision \<Rightarrow> int \<Rightarrow> Loop \<Rightarrow> step" where
  "settle_provider_error tn selection result d i lp =
     (if hd_Retry d \<noteq> RetryNone then retry_after i (lp\<lparr>lp_lastProviderError := Some (deferred_attempt result d selection i)\<rparr>)
      else return_with (deliver_reason (tn_write tn) reasonUpstreamProtocol
             (lp\<lparr>lp_recorder := completeProviderError result (optionalModelValue (sel_UpstreamModelID selection)) i (lp_recorder lp)\<rparr>)))"

definition settle ::
  "Services \<Rightarrow> RequestArgs \<Rightarrow> Turn \<Rightarrow> Selection \<Rightarrow> CredentialRef \<Rightarrow> string list \<Rightarrow> UpstreamResult \<Rightarrow> HealthDecision \<Rightarrow> Loop \<Rightarrow> step" where
  "settle sv rx tn selection ref secrets result d lp0 =
     (if ur_Committed result then settle_committed sv rx tn selection ref secrets result d lp0
      else if cx_Err (tn_after tn) \<noteq> None
      then case recordAttempt (sv_sanitize sv) selection secrets result d (tn_started tn) (tn_completed tn) (lp_recorder lp0) of
        (i, rec) \<Rightarrow> Return DeliverNothing (lp0\<lparr>lp_recorder := completeCanceled (Some (tn_after tn)) 0 i rec\<rparr>)
      else case settle_effects sv rx tn selection ref secrets result d lp0 of
        (i, lp) \<Rightarrow>
          if 100 \<le> ur_StatusCode result \<and> ur_StatusCode result < 200
          then return_with (deliver_reason (tn_write tn) reasonUpstreamProtocol
                 (lp\<lparr>lp_recorder := completeTransport reasonUpstreamProtocol (optionalModelValue (sel_UpstreamModelID selection)) i (lp_recorder lp)\<rparr>))
          else if ur_ProviderErrorBeforeCommit result then settle_provider_error tn selection result d i lp
          else if HasResponse result then settle_response rx tn selection ref result d i lp
          else settle_transport tn selection result d i lp)"

text \<open>\<open>OnFirstResponse\<close>, which the forwarder calls when the first byte of a response arrives.\<close>

definition first_response :: "Turn \<Rightarrow> requestRecorder \<Rightarrow> requestRecorder" where
  "first_response tn rec = (case tn_firstResponse tn of None \<Rightarrow> rec | Some now \<Rightarrow> recordFirstResponse now rec)"

definition forward_attempt ::
  "Services \<Rightarrow> RequestArgs \<Rightarrow> Turn \<Rightarrow> Selection \<Rightarrow> CredentialRef \<Rightarrow> bool \<Rightarrow> prepared \<Rightarrow> Loop \<Rightarrow> step" where
  "forward_attempt sv rx tn selection ref forceRefresh pd lp0 =
     (let lp = (begin_attempt rx tn selection lp0)\<lparr>lp_forwardAttempts := lp_forwardAttempts lp0 + 1\<rparr>;
          input = forward_input rx selection ref forceRefresh pd (lp_attemptSequence lp);
          result = observed_result rx tn (tn_forward tn input);
          d = judgeUpstreamResult (sv_parsers sv) (judged_result tn result) (tn_now tn) (decisionContextForSelection rx selection)
      in settle sv rx tn selection ref (nc_secrets (pd_credential pd)) result d
           (lp\<lparr>lp_world := tn_during tn (lp_world lp), lp_recorder := first_response tn (lp_recorder lp),
               lp_forwards := lp_forwards lp @ [(input, result, d)]\<rparr>))"

definition attempt_turn :: "Services \<Rightarrow> RequestArgs \<Rightarrow> Turn \<Rightarrow> Loop \<Rightarrow> step" where
  "attempt_turn sv rx tn lp0 =
     (if cx_Err (tn_before tn) \<noteq> None
      then Return DeliverNothing (lp0\<lparr>lp_recorder := completeCanceled (Some (tn_before tn)) 0 (lp_lastAttemptIndex lp0) (lp_recorder lp0)\<rparr>)
      else case choose_candidate rx tn lp0 of
        Skip lp \<Rightarrow> Continue lp
      | Exhausted lp \<Rightarrow> Break lp
      | Chosen selection ref forceRefresh lp1 \<Rightarrow>
          let lp2 = lp1\<lparr>lp_world := tn_match tn (lp_world lp1)\<rparr> in
          (case ActiveEncryptedCredentialDataIfMatch ref (wd_registry (lp_world lp2)) of
             None \<Rightarrow> Continue lp2
           | Some encrypted \<Rightarrow>
               let lp = resolve_policy selection lp2 in
               (case prepare_candidate sv selection ref encrypted of
                  Inl (code, summary, scope) \<Rightarrow> recordCandidatePreparationFailure sv rx tn selection code summary scope lp
                | Inr pd \<Rightarrow>
                    (case admit_request sv tn lp of
                       Inl r \<Rightarrow> return_with r
                     | Inr lp3 \<Rightarrow> forward_attempt sv rx tn selection ref forceRefresh pd lp3))))"

text \<open>After the loop: the most telling of the deferred results.\<close>

definition deliver_last :: "RequestArgs \<Rightarrow> Loop \<Rightarrow> Delivery \<times> Loop" where
  "deliver_last rx lp =
     (let wo = rx_write rx in
      case lp_lastProviderError lp of
        Some a \<Rightarrow> deliver_reason wo reasonUpstreamProtocol
          (lp\<lparr>lp_recorder := completeProviderError (da_result a) (da_upstreamModel a) (da_attemptIndex a) (lp_recorder lp)\<rparr>)
      | None \<Rightarrow>
          (case lp_lastResponse lp of
             Some a \<Rightarrow> (DeliverResponse (da_result a), after_write wo (ur_StatusCode (da_result a))
               (lp\<lparr>lp_recorder := completeResponse (da_result a) (da_decision a) (da_upstreamModel a) (da_attemptIndex a) (lp_recorder lp)\<rparr>))
           | None \<Rightarrow>
               (case lp_lastTransport lp of
                  Some a \<Rightarrow> deliver_reason wo (transportReason (da_result a))
                    (lp\<lparr>lp_recorder := completeTransport (transportReason (da_result a)) (da_upstreamModel a) (da_attemptIndex a) (lp_recorder lp)\<rparr>)
                | None \<Rightarrow>
                    (case lp_lastConversion lp of
                       Some a \<Rightarrow> deliver_reason wo reasonProtocolConversionUnsupported
                         (lp\<lparr>lp_recorder := completeTransport reasonProtocolConversionUnsupported (da_upstreamModel a)
                               (da_attemptIndex a) (lp_recorder lp)\<rparr>)
                     | None \<Rightarrow>
                         if it_staticReason (lp_iterator lp) = ReasonModelRequiredByFilter
                         then complete_reason wo reasonModelRequiredByFilter lp
                         else complete_reason wo reasonNoCandidate lp))))"

fun executeAttempts :: "Services \<Rightarrow> RequestArgs \<Rightarrow> (nat \<Rightarrow> Turn) \<Rightarrow> nat \<Rightarrow> nat \<Rightarrow> Loop \<Rightarrow> (Delivery \<times> Loop) option" where
  "executeAttempts sv rx turns n 0 lp = None"
| "executeAttempts sv rx turns n (Suc fuel) lp =
     (if lp_forwardAttempts lp < lp_forwardAttemptLimit lp
      then case attempt_turn sv rx (turns n) lp of
             Continue lp' \<Rightarrow> executeAttempts sv rx turns (Suc n) fuel lp'
           | Break lp' \<Rightarrow> Some (deliver_last rx lp')
           | Return delivery lp' \<Rightarrow> Some (delivery, lp')
      else Some (deliver_last rx lp))"

end
