(* ===== verification/Gateway_Frame.thy ===== *)
theory Gateway_Frame
  imports Gateway_Attempts
begin

text \<open>
  What the parts of a turn of the attempt loop leave alone: a draw takes a credential that was not
  tried, a settled result goes on only to be retried, and the recorder keeps its invariant.
\<close>

section \<open>Draws\<close>

lemma pick_ticket_bound: "pick_ticket t m ws \<in> insert m (wc_meta ` set ws)"
  by (induction ws arbitrary: t) auto

lemma select_credential_in: "ws \<noteq> [] \<Longrightarrow> select_credential draw it ws n \<in> wc_meta ` set ws"
  using pick_ticket_bound [of "draw n" "wc_meta (last ws)" ws]
  by (auto simp: select_credential_def preferredCredential_def find_Some_iff split: option.split if_splits)

definition pool_groups :: "candidatePool \<Rightarrow> GroupView set" where
  "pool_groups pool = {ct_group t |t mode g. map_of (lookup_or [] (targetsByMode pool) mode) g = Some t}"

definition iterator_groups :: "Iterator \<Rightarrow> GroupView set" where
  "iterator_groups it = pool_groups (it_regular it) \<union> pool_groups (it_storeDowngraded it)"

lemma next_from_draw:
  assumes "next_from registry_collect obs draw it i stgs = (Inr sel, it')"
    and "\<forall>(pool, mode) \<in> set stgs. pool_groups pool \<subseteq> iterator_groups it"
  shows "sel_CredentialID sel \<notin> it_tried it \<and> it' = it\<lparr>it_tried := insert (sel_CredentialID sel) (it_tried it)\<rparr>
    \<and> (\<forall>ids. it_allowedCredentialIDs it = Some ids \<longrightarrow> sel_CredentialID sel \<in> set ids)
    \<and> sel_Group sel \<in> iterator_groups it"
  using assms
proof (induction stgs arbitrary: i)
  case (Cons stg stgs)
  obtain pool mode where stg: "stg = (pool, mode)" by fastforce
  obtain ws n where ws: "weightedPoolForCandidatePool (registry_collect (obs i)) it pool mode = (ws, n)" by fastforce
  show ?case
  proof (cases "n \<le> 0")
    case True
    with Cons stg ws show ?thesis by simp
  next
    case False
    then have ne: "ws \<noteq> []" using ws by (auto simp: weightedPoolForCandidatePool_def Let_def total_weight_def split: if_splits)
    let ?m = "select_credential draw it ws n"
    obtain w where w: "w \<in> set ws" "?m = wc_meta w" using select_credential_in [OF ne] by fastforce
    then obtain c where c: "c \<in> set (registry_collect (obs i) (lookup_or [] (groupIDsByMode pool) mode) (\<lambda>c. c \<in> it_tried it))"
      "weigh it pool mode c = Some w"
      using ws by (auto simp: weightedPoolForCandidatePool_def Let_def map_filter_def split: if_splits)
    have "cm_ID c \<notin> it_tried it"
      using c(1) by (simp add: registry_collect_def CollectCredentialCandidates_def Let_def)
    moreover have "wc_meta w = c" using c(2) by (rule weigh_meta)
    moreover have "it_allowedCredentialIDs it = Some ids \<Longrightarrow> cm_ID c \<in> set ids" for ids
      using c(2) by (auto simp: weigh_def split: if_splits)
    moreover obtain t where t: "map_of (lookup_or [] (targetsByMode pool) mode) (cm_GroupID ?m) = Some t"
      "sel = newSelection ?m t" "it' = it\<lparr>it_tried := insert (cm_ID ?m) (it_tried it)\<rparr>"
      using Cons.prems(1) False by (auto simp: stg ws Let_def split: option.splits)
    moreover have "ct_group t \<in> iterator_groups it"
      using Cons.prems(2) t(1) by (auto simp: stg pool_groups_def)
    ultimately show ?thesis using w by (simp add: newSelection_def)
  qed
qed simp

lemma next_draw:
  assumes "Next registry_collect obs draw it = (Inr sel, it')"
  shows "sel_CredentialID sel \<notin> it_tried it \<and> it' = it\<lparr>it_tried := insert (sel_CredentialID sel) (it_tried it)\<rparr>
    \<and> (\<forall>ids. it_allowedCredentialIDs it = Some ids \<longrightarrow> sel_CredentialID sel \<in> set ids)
    \<and> sel_Group sel \<in> iterator_groups it"
  using next_from_draw [OF assms [unfolded Next_def]] by (auto simp: stages_def iterator_groups_def)

section \<open>What a settled result leaves alone\<close>

fun step_loop :: "step \<Rightarrow> Loop" where
  "step_loop (Continue lp) = lp"
| "step_loop (Break lp) = lp"
| "step_loop (Return d lp) = lp"

text \<open>The counters, the budget, the admission and the pools; groups may be skipped.\<close>

definition same_frame :: "Loop \<Rightarrow> Loop \<Rightarrow> bool" where
  "same_frame lp lp' \<longleftrightarrow> lp_forwards lp' = lp_forwards lp \<and> lp_forwardAttempts lp' = lp_forwardAttempts lp
     \<and> lp_forwardAttemptLimit lp' = lp_forwardAttemptLimit lp \<and> lp_retryPolicyResolved lp' = lp_retryPolicyResolved lp
     \<and> lp_authRefreshReplayUsed lp' = lp_authRefreshReplayUsed lp \<and> lp_quota lp' = lp_quota lp \<and> lp_admission lp' = lp_admission lp
     \<and> it_tried (lp_iterator lp') = it_tried (lp_iterator lp)
     \<and> it_allowedCredentialIDs (lp_iterator lp') = it_allowedCredentialIDs (lp_iterator lp)
     \<and> iterator_groups (lp_iterator lp') = iterator_groups (lp_iterator lp)"

lemma same_frame_refl [simp]: "same_frame lp lp"
  by (simp add: same_frame_def)

lemma same_frame_trans: "same_frame a b \<Longrightarrow> same_frame b c \<Longrightarrow> same_frame a c"
  by (simp add: same_frame_def)

lemma skip_effect_frame [simp]:
  "it_tried (skip_effect d selection it) = it_tried it"
  "it_allowedCredentialIDs (skip_effect d selection it) = it_allowedCredentialIDs it"
  "iterator_groups (skip_effect d selection it) = iterator_groups it"
  by (simp_all add: skip_effect_def SkipGroup_def iterator_groups_def)

text \<open>The recorder and the deferred results may change freely, and so may the world.\<close>

lemma frame_updates [simp]:
  "same_frame lp (lp'\<lparr>lp_recorder := rec\<rparr>) = same_frame lp lp'" "same_frame lp (lp'\<lparr>lp_world := w\<rparr>) = same_frame lp lp'"
  "same_frame lp (lp'\<lparr>lp_lastResponse := a\<rparr>) = same_frame lp lp'" "same_frame lp (lp'\<lparr>lp_lastTransport := a\<rparr>) = same_frame lp lp'"
  "same_frame lp (lp'\<lparr>lp_lastConversion := a\<rparr>) = same_frame lp lp'" "same_frame lp (lp'\<lparr>lp_lastProviderError := a\<rparr>) = same_frame lp lp'"
  "same_frame lp (lp'\<lparr>lp_lastAttemptIndex := i\<rparr>) = same_frame lp lp'" "same_frame lp (lp'\<lparr>lp_attemptSequence := i\<rparr>) = same_frame lp lp'"
  "same_frame lp (lp'\<lparr>lp_refreshRetry := r\<rparr>) = same_frame lp lp'"
  by (simp_all add: same_frame_def)

lemma after_write_frame [simp]: "same_frame lp (after_write wo status lp') = same_frame lp lp'"
  "lp_refreshRetry (after_write wo status lp') = lp_refreshRetry lp'"
  by (simp_all add: after_write_def)

lemmas settle_defs = settle_committed_def settle_response_def settle_transport_def settle_provider_error_def
  retry_after_def return_with_def deliver_reason_def complete_reason_def Let_def

lemma settle_effects_frame:
  assumes "settle_effects sv rx tn selection ref secrets result d lp = (i, lp')"
  shows "same_frame lp lp' \<and> lp_refreshRetry lp' =
    (if hd_Retry d = RetryRefreshCredential \<and> \<not> lp_authRefreshReplayUsed lp \<and> lp_forwardAttempts lp < lp_forwardAttemptLimit lp
     then Some (selection, ref) else lp_refreshRetry lp)"
  using assms by (auto simp: settle_effects_def Let_def same_frame_def split: prod.splits)

text \<open>A settled result goes on only to be retried.\<close>

lemma settle_frame:
  assumes "settle sv rx tn selection ref secrets result d lp = st"
  shows "same_frame lp (step_loop st)
    \<and> (\<forall>lp'. st = Continue lp' \<longrightarrow> hd_Retry d \<noteq> RetryNone \<and> \<not> ur_Committed result \<and> cx_Err (tn_after tn) = None)
    \<and> (\<forall>lp'. st \<noteq> Break lp')
    \<and> lp_refreshRetry (step_loop st) \<in> {lp_refreshRetry lp,
         (if \<not> lp_authRefreshReplayUsed lp then Some (selection, ref) else lp_refreshRetry lp)}"
proof (cases "ur_Committed result \<or> cx_Err (tn_after tn) \<noteq> None")
  case True
  then show ?thesis using assms
    by (auto simp: settle_def settle_committed_def Let_def split: prod.splits if_splits)
next
  case False
  obtain i lp1 where e: "settle_effects sv rx tn selection ref secrets result d lp = (i, lp1)" by fastforce
  note f = settle_effects_frame [OF e]
  have "same_frame lp1 (step_loop st) \<and> lp_refreshRetry (step_loop st) = lp_refreshRetry lp1
      \<and> (\<forall>lp'. st = Continue lp' \<longrightarrow> hd_Retry d \<noteq> RetryNone) \<and> (\<forall>lp'. st \<noteq> Break lp')"
    using assms False unfolding settle_def e by (auto simp: settle_defs split: if_splits)
  with f False show ?thesis using same_frame_trans by auto
qed

section \<open>The recorder of a run\<close>

definition recorder_ok :: "RequestArgs \<Rightarrow> requestRecorder \<Rightarrow> bool" where
  "recorder_ok rx rec \<longleftrightarrow> recorder_inv rec \<and> rq_usageApplicable rec = rx_observeUsage rx
     \<and> rq_requestID rec = rx_requestID rx \<and> \<not> rq_emitted rec"

lemma applicable_simps [simp]:
  "rq_usageApplicable (bindUsage i result b rec) = rq_usageApplicable rec"
  "rq_usageApplicable (set_attempt k f rec) = rq_usageApplicable rec"
  "rq_requestID (bindUsage i result b rec) = rq_requestID rec" "rq_requestID (set_attempt k f rec) = rq_requestID rec"
  "rq_emitted (bindUsage i result b rec) = rq_emitted rec" "rq_emitted (set_attempt k f rec) = rq_emitted rec"
  by (auto simp: bindUsage_def set_attempt_def Let_def split: option.split)

lemma recorder_ok_complete [simp]:
  assumes "recorder_ok rx rec"
  shows "recorder_ok rx (completeReason v rec)" "recorder_ok rx (completeStream result model i rec)"
    "recorder_ok rx (completeResponse result d model i rec)" "recorder_ok rx (completeProviderError result model i rec)"
    "recorder_ok rx (completeTransport v model i rec)" "recorder_ok rx (completeDownstreamWrite status rec)"
    "recorder_ok rx (completeCanceled ctx status i rec)" "recorder_ok rx (retryIfAnotherForward i rec)"
    "recorder_ok rx (completeMissingOutcome written status rec)"
  using assms unfolding recorder_ok_def
  by (simp_all add: recorder_inv_complete recorder_inv_canceled recorder_inv_retry)
    (simp_all add: completeReason_def completeStream_def completeResponse_def completeProviderError_def completeTransport_def
      completeDownstreamWrite_def completeCanceled_def retryIfAnotherForward_def completeMissingOutcome_def Let_def split: option.split)

lemma recorder_ok_write [simp]: "recorder_ok rx rec \<Longrightarrow> recorder_ok rx (completeWriteTerminal wo status rec)"
  by (simp add: completeWriteTerminal_def)

lemma recorder_ok_after_write [simp]:
  "recorder_ok rx (lp_recorder lp) \<Longrightarrow> recorder_ok rx (lp_recorder (after_write wo status lp))"
  by (simp add: after_write_def)

lemma recorder_ok_append:
  assumes "recorder_ok rx rec" and "rq_pricingPending rec"
  shows "recordAttempt sanitize selection secrets result d started completed rec = (i, rec') \<Longrightarrow> recorder_ok rx rec'"
    and "recordStreamAttempt sanitize selection secrets result d started completed rec = (i, rec') \<Longrightarrow> recorder_ok rx rec'"
proof -
  have "recorder_ok rx (snd (appendDecisionAttempt selection result d code summary started completed rec))" for code summary
    using assms recorder_inv_append by (simp add: recorder_ok_def appendDecisionAttempt_def Let_def)
  then show "recordAttempt sanitize selection secrets result d started completed rec = (i, rec') \<Longrightarrow> recorder_ok rx rec'"
    "recordStreamAttempt sanitize selection secrets result d started completed rec = (i, rec') \<Longrightarrow> recorder_ok rx rec'"
    by (metis recordAttempt_def recordStreamAttempt_def snd_conv)+
qed

lemma begin_attempt_recorder:
  assumes "recorder_ok rx (lp_recorder lp)"
  shows "recorder_ok rx (lp_recorder (begin_attempt rx tn selection lp)) \<and> rq_pricingPending (lp_recorder (begin_attempt rx tn selection lp))"
proof -
  let ?rec = "freezeNextAttemptPricing (freezeAttemptPricing (tn_table tn) selection (rx_observeUsage rx))
      (setAffinityHit (lp_attemptSequence lp + 1 = 1 \<and> ra_preferredCredentialID (rx_affinity rx) \<noteq> 0
         \<and> sel_CredentialID selection = ra_preferredCredentialID (rx_affinity rx)) (lp_recorder lp))"
  have "recorder_inv ?rec" using assms
    by (intro recorder_inv_freeze recorder_inv_affinity)
      (simp_all add: recorder_ok_def freezeAttemptPricing_def setAffinityHit_def)
  then have "recorder_inv (beforeForward ?rec)" by (rule recorder_inv_before)
  moreover have "rq_usageApplicable (beforeForward ?rec) = rq_usageApplicable (lp_recorder lp)" "rq_pricingPending (beforeForward ?rec)"
    "rq_requestID (beforeForward ?rec) = rq_requestID (lp_recorder lp)" "rq_emitted (beforeForward ?rec) = rq_emitted (lp_recorder lp)"
    by (auto simp: beforeForward_def freezeNextAttemptPricing_def setAffinityHit_def set_attempt_def split: option.split)
  ultimately show ?thesis using assms by (simp add: begin_attempt_def Let_def recorder_ok_def)
qed

lemma first_response_recorder:
  assumes "recorder_ok rx rec"
  shows "recorder_ok rx (first_response tn rec) \<and> rq_pricingPending (first_response tn rec) = rq_pricingPending rec"
proof -
  have "recorder_inv (rec\<lparr>rq_firstResponseMs := v\<rparr>)" for v
    by (rule recorder_inv_cong [of rec]) (use assms in \<open>simp_all add: recorder_ok_def recorder_inv_def\<close>)
  then show ?thesis using assms by (simp add: first_response_def recordFirstResponse_def recorder_ok_def split: option.split)
qed

lemma settle_recorder:
  assumes "recorder_ok rx (lp_recorder lp)" and "rq_pricingPending (lp_recorder lp)"
  shows "recorder_ok rx (lp_recorder (step_loop (settle sv rx tn selection ref secrets result d lp)))"
proof -
  note append = recorder_ok_append [OF assms]
  have eff: "recorder_ok rx (lp_recorder lp')" if "settle_effects sv rx tn selection ref secrets result d lp = (i, lp')" for i lp'
    using that append(1) by (auto simp: settle_effects_def Let_def split: prod.splits)
  obtain i lp1 where e: "settle_effects sv rx tn selection ref secrets result d lp = (i, lp1)" by fastforce
  from eff [OF e] show ?thesis unfolding settle_def e
    by (auto simp: settle_defs split: prod.split dest: append)
qed

end
