(* ===== verification/Gateway_Properties.thy ===== *)
theory Gateway_Properties
  imports Gateway_Frame
begin

text \<open>
  What every run of the attempt loop of the gateway keeps, whatever the registry, the clock, the
  forwarder and the other requests do between its steps, and how much fuel is enough for it.
\<close>

section \<open>The invariant of a run\<close>

definition forwarded_ids :: "Loop \<Rightarrow> nat list" where
  "forwarded_ids lp = map (\<lambda>(input, _, _). cd_CredentialID (fi_Credential input)) (lp_forwards lp)"

text \<open>A credential may be used when it was captured for the request, in the generation captured.\<close>

definition captured :: "RequestArgs \<Rightarrow> nat \<Rightarrow> uint64 \<Rightarrow> bool" where
  "captured rx c generation \<longleftrightarrow> (\<exists>r0. map_of (rx_allowedRefs rx) c = Some r0 \<and> cr_IdentityGeneration r0 = generation)"

definition budget_ok :: "GroupView set \<Rightarrow> Loop \<Rightarrow> bool" where
  "budget_ok G lp \<longleftrightarrow> lp_forwardAttempts lp = int (length (lp_forwards lp)) \<and> lp_forwardAttempts lp \<le> lp_forwardAttemptLimit lp
     \<and> iterator_groups (lp_iterator lp) \<subseteq> G
     \<and> (if lp_retryPolicyResolved lp then lp_forwardAttemptLimit lp \<in> retryAttemptLimit ` G
        else lp_forwards lp = [] \<and> lp_forwardAttemptLimit lp = 1)"

definition tried_ok :: "RequestArgs \<Rightarrow> Loop \<Rightarrow> bool" where
  "tried_ok rx lp \<longleftrightarrow> set (forwarded_ids lp) \<subseteq> it_tried (lp_iterator lp)
     \<and> length (lp_forwards lp) \<le> card (set (forwarded_ids lp)) + (if lp_authRefreshReplayUsed lp then 1 else 0)
     \<and> (\<forall>(input, _, _) \<in> set (lp_forwards lp).
          captured rx (cd_CredentialID (fi_Credential input)) (cd_IdentityGeneration (fi_Credential input)))"

definition refresh_ok :: "RequestArgs \<Rightarrow> GroupView set \<Rightarrow> Loop \<Rightarrow> bool" where
  "refresh_ok rx G lp \<longleftrightarrow> (\<forall>selection ref. lp_refreshRetry lp = Some (selection, ref) \<longrightarrow>
     \<not> lp_authRefreshReplayUsed lp \<and> sel_CredentialID selection \<in> set (forwarded_ids lp) \<and> sel_Group selection \<in> G
     \<and> captured rx (sel_CredentialID selection) (cr_IdentityGeneration ref))"

text \<open>
  The admission of a request: \<open>Admit\<close> was called before anything was forwarded, in the configuration of the request
  when that matters, it allowed the request, and the ticket is the one it returned.
\<close>

definition admitted_by :: "Loop \<Rightarrow> bool" where
  "admitted_by lp \<longleftrightarrow> (\<exists>w now d rt. lp_admission lp = Some (w, now, 0) \<and> qd_Allowed d
     \<and> Admit (qa_accessKeyID (lp_quota lp)) now (wd_quota w) = ((qa_ticket (lp_quota lp), d), rt)
     \<and> (\<forall>snapshot. qa_snapshot (lp_quota lp) = Some snapshot \<longrightarrow> wd_current w = snapshot))"

lemma admitted_by_cong: "lp_admission lp' = lp_admission lp \<Longrightarrow> lp_quota lp' = lp_quota lp \<Longrightarrow> admitted_by lp' = admitted_by lp"
  by (simp add: admitted_by_def)

lemma admitted_by_updates [simp]:
  "admitted_by (lp\<lparr>lp_world := w\<rparr>) = admitted_by lp" "admitted_by (lp\<lparr>lp_iterator := it\<rparr>) = admitted_by lp"
  "admitted_by (lp\<lparr>lp_refreshRetry := r\<rparr>) = admitted_by lp" "admitted_by (lp\<lparr>lp_authRefreshReplayUsed := b\<rparr>) = admitted_by lp"
  "admitted_by (lp\<lparr>lp_forwardAttemptLimit := n, lp_retryPolicyResolved := b\<rparr>) = admitted_by lp"
  by (simp_all add: admitted_by_def)

text \<open>Here and below \<open>q0\<close> is the admission before the loop.\<close>

definition admission_ok :: "Services \<Rightarrow> requestAccessQuotaAdmission \<Rightarrow> Loop \<Rightarrow> bool" where
  "admission_ok sv q0 lp \<longleftrightarrow> (sv_accessQuota sv \<and> lp_forwards lp \<noteq> [] \<longrightarrow> qa_admitted (lp_quota lp))
     \<and> qa_accessKeyID (lp_quota lp) = qa_accessKeyID q0 \<and> qa_snapshot (lp_quota lp) = qa_snapshot q0
     \<and> (qa_admitted (lp_quota lp) \<longrightarrow> qa_admitted q0 \<or> admitted_by lp)"

definition attempts_inv :: "Services \<Rightarrow> RequestArgs \<Rightarrow> requestAccessQuotaAdmission \<Rightarrow> GroupView set \<Rightarrow> Loop \<Rightarrow> bool" where
  "attempts_inv sv rx q0 G lp \<longleftrightarrow> budget_ok G lp \<and> tried_ok rx lp \<and> refresh_ok rx G lp \<and> admission_ok sv q0 lp
     \<and> recorder_ok rx (lp_recorder lp)"

lemmas attempts_inv_defs = attempts_inv_def budget_ok_def tried_ok_def refresh_ok_def admission_ok_def

text \<open>A result that was replayed: the judge asked for it, of a response that was not committed.\<close>

definition replayed :: "Services \<Rightarrow> RequestArgs \<Rightarrow> ForwardInput \<times> UpstreamResult \<times> HealthDecision \<Rightarrow> bool" where
  "replayed sv rx = (\<lambda>(_, result, d). \<not> ur_Committed result \<and> hd_Retry d \<noteq> RetryNone
     \<and> (\<exists>now selection. d = judgeUpstreamResult (sv_parsers sv) result now (decisionContextForSelection rx selection)))"

text \<open>The turns left: two for every credential not drawn yet, and one for a pending refresh.\<close>

definition turns_left :: "nat list \<Rightarrow> Loop \<Rightarrow> nat" where
  "turns_left ids lp = 2 * card (set ids - it_tried (lp_iterator lp)) + (if lp_refreshRetry lp = None then 0 else 1)"

lemma attempts_inv_frame:
  assumes "attempts_inv sv rx q0 G lp" and "same_frame lp lp'" and "recorder_ok rx (lp_recorder lp')"
    and "lp_refreshRetry lp' \<in> {None, lp_refreshRetry lp}"
  shows "attempts_inv sv rx q0 G lp'"
proof -
  have "forwarded_ids lp' = forwarded_ids lp" using assms(2) by (simp add: same_frame_def forwarded_ids_def)
  moreover have "refresh_ok rx G lp'" using assms calculation by (auto simp: attempts_inv_def refresh_ok_def same_frame_def)
  ultimately show ?thesis using assms(1-3) by (simp add: attempts_inv_def budget_ok_def tried_ok_def admission_ok_def same_frame_def
      admitted_by_cong [of lp' lp])
qed

lemma retryAttemptLimit_ge: "1 \<le> retryAttemptLimit g"
  by (simp add: retryAttemptLimit_def MaxInt64_def)

section \<open>One turn\<close>

text \<open>The candidate of a turn is new, or the one to be refreshed, which is taken once.\<close>

definition chosen_from :: "RequestArgs \<Rightarrow> GroupView set \<Rightarrow> Loop \<Rightarrow> Selection \<Rightarrow> CredentialRef \<Rightarrow> Loop \<Rightarrow> bool" where
  "chosen_from rx G lp selection ref lp' \<longleftrightarrow>
     lp_forwards lp' = lp_forwards lp \<and> lp_forwardAttempts lp' = lp_forwardAttempts lp \<and> lp_recorder lp' = lp_recorder lp
     \<and> lp_forwardAttemptLimit lp' = lp_forwardAttemptLimit lp \<and> lp_retryPolicyResolved lp' = lp_retryPolicyResolved lp
     \<and> lp_quota lp' = lp_quota lp \<and> lp_admission lp' = lp_admission lp \<and> lp_refreshRetry lp' = None \<and> iterator_groups (lp_iterator lp') = iterator_groups (lp_iterator lp)
     \<and> it_allowedCredentialIDs (lp_iterator lp') = it_allowedCredentialIDs (lp_iterator lp)
     \<and> sel_Group selection \<in> G \<and> captured rx (sel_CredentialID selection) (cr_IdentityGeneration ref)
     \<and> sel_CredentialID selection \<in> it_tried (lp_iterator lp')
     \<and> it_tried (lp_iterator lp) \<subseteq> it_tried (lp_iterator lp')
     \<and> (if lp_authRefreshReplayUsed lp' \<and> \<not> lp_authRefreshReplayUsed lp then sel_CredentialID selection \<in> set (forwarded_ids lp)
        else sel_CredentialID selection \<notin> set (forwarded_ids lp) \<and> lp_authRefreshReplayUsed lp' = lp_authRefreshReplayUsed lp)"

lemma choose_candidate_chosen:
  assumes "choose_candidate rx tn lp = Chosen selection ref force lp'" and "attempts_inv sv rx q0 G lp"
  shows "chosen_from rx G lp selection ref lp'"
proof (cases "lp_refreshRetry lp")
  case (Some p)
  then show ?thesis using assms
    by (cases p) (fastforce simp: choose_candidate_def chosen_from_def attempts_inv_def tried_ok_def refresh_ok_def Let_def split: option.splits if_splits)
next
  case None
  obtain outcome it where n: "Next registry_collect (tn_views tn) (tn_draw tn) (lp_iterator lp) = (outcome, it)" by fastforce
  with None assms(1) have o: "outcome = Inr selection" and m: "map_of (rx_allowedRefs rx) (sel_CredentialID selection) = Some ref"
    and l: "lp' = lp\<lparr>lp_iterator := it\<rparr>"
    by (auto simp: choose_candidate_def Let_def split: sum.splits option.splits if_splits)
  from next_draw [OF n [unfolded o]] assms(2) m None show ?thesis
    by (auto simp: l chosen_from_def attempts_inv_defs captured_def iterator_groups_def)
qed

text \<open>A loop that is ready to forward with a candidate; the policy may still be open.\<close>

definition ready :: "Services \<Rightarrow> RequestArgs \<Rightarrow> requestAccessQuotaAdmission \<Rightarrow> GroupView set \<Rightarrow> Selection \<Rightarrow> CredentialRef \<Rightarrow> Loop \<Rightarrow> bool" where
  "ready sv rx q0 G selection ref lp \<longleftrightarrow> attempts_inv sv rx q0 G lp \<and> lp_refreshRetry lp = None
     \<and> lp_forwardAttempts lp < lp_forwardAttemptLimit lp \<and> sel_Group selection \<in> G
     \<and> captured rx (sel_CredentialID selection) (cr_IdentityGeneration ref)
     \<and> sel_CredentialID selection \<in> it_tried (lp_iterator lp)
     \<and> length (lp_forwards lp) < card (insert (sel_CredentialID selection) (set (forwarded_ids lp)))
         + (if lp_authRefreshReplayUsed lp then 1 else 0)"

lemma ready_chosen:
  assumes "chosen_from rx G lp selection ref lp'" and "attempts_inv sv rx q0 G lp"
    and "lp_forwardAttempts lp < lp_forwardAttemptLimit lp"
  shows "ready sv rx q0 G selection ref lp'"
proof -
  have ids: "forwarded_ids lp' = forwarded_ids lp" using assms(1) by (simp add: chosen_from_def forwarded_ids_def)
  have adm: "admitted_by lp' = admitted_by lp" by (rule admitted_by_cong) (use assms(1) in \<open>simp_all add: chosen_from_def\<close>)
  have "attempts_inv sv rx q0 G lp'" using assms(1,2) ids
    by (auto simp: chosen_from_def attempts_inv_defs adm split: if_splits)
  moreover have "length (lp_forwards lp') < card (insert (sel_CredentialID selection) (set (forwarded_ids lp')))
         + (if lp_authRefreshReplayUsed lp' then 1 else 0)"
    using assms(1,2) ids by (auto simp: chosen_from_def attempts_inv_def tried_ok_def insert_absorb split: if_splits)
  ultimately show ?thesis using assms by (simp add: ready_def chosen_from_def)
qed

lemma ready_frame:
  assumes "ready sv rx q0 G selection ref lp" and "same_frame lp lp'" and "lp_recorder lp' = lp_recorder lp"
    and "lp_refreshRetry lp' = lp_refreshRetry lp"
  shows "ready sv rx q0 G selection ref lp'"
proof -
  have "forwarded_ids lp' = forwarded_ids lp" using assms(2) by (simp add: same_frame_def forwarded_ids_def)
  moreover have "attempts_inv sv rx q0 G lp'"
    by (rule attempts_inv_frame [where lp = lp]) (use assms in \<open>auto simp: ready_def attempts_inv_def\<close>)
  ultimately show ?thesis using assms by (simp add: ready_def same_frame_def)
qed

lemma ready_policy:
  assumes "ready sv rx q0 G selection ref lp"
  shows "ready sv rx q0 G selection ref (resolve_policy selection lp) \<and> lp_retryPolicyResolved (resolve_policy selection lp)"
proof (cases "lp_retryPolicyResolved lp")
  case True
  then show ?thesis using assms by (simp add: resolve_policy_def)
next
  case False
  with assms retryAttemptLimit_ge [of "sel_Group selection"] show ?thesis
    by (auto simp: resolve_policy_def ready_def attempts_inv_defs forwarded_ids_def)
qed

lemma ready_admission:
  assumes "ready sv rx q0 G selection ref lp" and "admit_request sv tn lp = Inr lp'"
  shows "ready sv rx q0 G selection ref lp' \<and> lp_retryPolicyResolved lp' = lp_retryPolicyResolved lp
    \<and> it_tried (lp_iterator lp') = it_tried (lp_iterator lp) \<and> lp_forwards lp' = lp_forwards lp
    \<and> (sv_accessQuota sv \<longrightarrow> qa_admitted (lp_quota lp'))"
proof (cases "qa_admitted (lp_quota lp) \<or> \<not> sv_accessQuota sv")
  case True
  then have "lp' = lp\<lparr>lp_world := tn_admission tn (lp_world lp)\<rparr>" using assms(2) by (simp add: admit_request_def Let_def)
  moreover have "ready sv rx q0 G selection ref (lp\<lparr>lp_world := w\<rparr>)" for w
    using assms(1) by (simp add: ready_def attempts_inv_defs forwarded_ids_def)
  ultimately show ?thesis using True by auto
next
  case False
  with assms(1) have none: "lp_forwards lp = []" by (auto simp: ready_def attempts_inv_def admission_ok_def)
  let ?w = "tn_admission tn (lp_world lp)"
  obtain ticket d rt w' where adm: "Admit (qa_accessKeyID (lp_quota lp)) (tn_quotaNow tn) (wd_quota ?w) = ((ticket, d), rt)" "qd_Allowed d"
    "\<forall>snapshot. qa_snapshot (lp_quota lp) = Some snapshot \<longrightarrow> wd_current ?w = snapshot"
    "lp' = lp\<lparr>lp_world := w', lp_quota := (lp_quota lp)\<lparr>qa_ticket := ticket, qa_admitted := True\<rparr>,
       lp_admission := Some (?w, tn_quotaNow tn, 0)\<rparr>"
    using assms(2) False none
    by (auto simp: admit_request_def admitAccessQuotaForSnapshot_def Let_def split: if_splits option.splits prod.splits)
  then have "admitted_by lp'" by (simp add: admitted_by_def)
  with adm(4) show ?thesis using assms(1) by (simp add: ready_def attempts_inv_defs forwarded_ids_def)
qed

lemma refused_admission:
  assumes "attempts_inv sv rx q0 G lp" and "admit_request sv tn lp = Inl (delivery, lp')"
  shows "attempts_inv sv rx q0 G lp' \<and> lp_forwards lp' = lp_forwards lp"
proof -
  have "same_frame lp lp' \<and> lp_refreshRetry lp' = lp_refreshRetry lp \<and> recorder_ok rx (lp_recorder lp')"
    using assms
    by (auto simp: admit_request_def Let_def complete_reason_def deliver_reason_def attempts_inv_def split: if_splits option.splits prod.splits)
  with attempts_inv_frame [OF assms(1)] show ?thesis by (simp add: same_frame_def)
qed

lemma preparation_failure_step:
  assumes "attempts_inv sv rx q0 G lp" and "recordCandidatePreparationFailure sv rx tn selection code summary scope lp = st"
  shows "attempts_inv sv rx q0 G (step_loop st) \<and> same_frame lp (step_loop st) \<and> lp_refreshRetry (step_loop st) = lp_refreshRetry lp
    \<and> (\<forall>delivery lp'. st \<noteq> Return delivery lp')"
proof -
  note b = begin_attempt_recorder [of rx lp tn selection]
  have "same_frame lp (step_loop st) \<and> lp_refreshRetry (step_loop st) = lp_refreshRetry lp
    \<and> recorder_ok rx (lp_recorder (step_loop st)) \<and> (\<forall>delivery lp'. st \<noteq> Return delivery lp')"
    using assms b recorder_ok_append(1)
    by (auto simp: recordCandidatePreparationFailure_def Let_def attempts_inv_def same_frame_def begin_attempt_def split: prod.splits if_splits)
  with attempts_inv_frame [OF assms(1)] show ?thesis by simp
qed

text \<open>A forward spends one of the budget and goes on only to be replayed.\<close>

lemma forward_attempt_step:
  assumes r: "ready sv rx q0 G selection ref lp" and p: "lp_retryPolicyResolved lp"
    and q: "sv_accessQuota sv \<longrightarrow> qa_admitted (lp_quota lp)"
    and f: "forward_attempt sv rx tn selection ref force pd lp = st"
  shows "attempts_inv sv rx q0 G (step_loop st)
    \<and> (\<exists>f. lp_forwards (step_loop st) = lp_forwards lp @ [f] \<and> ((\<exists>lp'. st = Continue lp') \<longrightarrow> replayed sv rx f))
    \<and> it_tried (lp_iterator (step_loop st)) = it_tried (lp_iterator lp)
    \<and> it_allowedCredentialIDs (lp_iterator (step_loop st)) = it_allowedCredentialIDs (lp_iterator lp)
    \<and> (lp_authRefreshReplayUsed lp \<longrightarrow> lp_refreshRetry (step_loop st) = None) \<and> (\<forall>lp'. st \<noteq> Break lp')"
proof -
  define lp1 where "lp1 = (begin_attempt rx tn selection lp)\<lparr>lp_forwardAttempts := lp_forwardAttempts lp + 1\<rparr>"
  define input where "input = forward_input rx selection ref force pd (lp_attemptSequence lp1)"
  define result where "result = observed_result rx tn (tn_forward tn input)"
  define d where "d = judgeUpstreamResult (sv_parsers sv) (judged_result tn result) (tn_now tn) (decisionContextForSelection rx selection)"
  define lp2 where "lp2 = lp1\<lparr>lp_world := tn_during tn (lp_world lp1), lp_recorder := first_response tn (lp_recorder lp1), lp_forwards := lp_forwards lp1 @ [(input, result, d)]\<rparr>"
  have st: "settle sv rx tn selection ref (nc_secrets (pd_credential pd)) result d lp2 = st"
    using f by (simp add: forward_attempt_def Let_def lp1_def input_def result_def d_def lp2_def)
  note s = settle_frame [OF st]
  have id: "cd_CredentialID (fi_Credential input) = sel_CredentialID selection"
    "cd_IdentityGeneration (fi_Credential input) = cr_IdentityGeneration ref"
    by (simp_all add: input_def forward_input_def)
  have lp2: "lp_forwards lp2 = lp_forwards lp @ [(input, result, d)]" "lp_iterator lp2 = lp_iterator lp"
    "lp_authRefreshReplayUsed lp2 = lp_authRefreshReplayUsed lp" "lp_refreshRetry lp2 = None"
    "lp_forwardAttempts lp2 = lp_forwardAttempts lp + 1" "lp_forwardAttemptLimit lp2 = lp_forwardAttemptLimit lp"
    "lp_retryPolicyResolved lp2 = lp_retryPolicyResolved lp" "lp_quota lp2 = lp_quota lp" "lp_admission lp2 = lp_admission lp" "lp_recorder lp2 = first_response tn (lp_recorder (begin_attempt rx tn selection lp))"
    using r by (simp_all add: lp2_def lp1_def begin_attempt_def Let_def ready_def)
  have ids: "set (forwarded_ids lp2) = insert (sel_CredentialID selection) (set (forwarded_ids lp))"
    by (simp add: forwarded_ids_def lp2 id)
  have rec: "recorder_ok rx (lp_recorder lp2)" "rq_pricingPending (lp_recorder lp2)"
    using begin_attempt_recorder [of rx lp tn selection] first_response_recorder r by (auto simp: lp2 ready_def attempts_inv_def)
  have inv2: "attempts_inv sv rx q0 G lp2"
    using r p q rec(1) admitted_by_cong [of lp2 lp] by (simp add: attempts_inv_defs ready_def lp2 ids id)
  have inv: "attempts_inv sv rx q0 G (step_loop st)"
  proof (cases "lp_refreshRetry (step_loop st) = None")
    case True
    then show ?thesis using attempts_inv_frame [OF inv2 conjunct1 [OF s]] settle_recorder [OF rec, of sv tn selection ref] st by auto
  next
    case False
    with s have rr: "lp_refreshRetry (step_loop st) = Some (selection, ref)" "\<not> lp_authRefreshReplayUsed lp"
      by (auto simp: lp2 split: if_splits)
    have "attempts_inv sv rx q0 G ((step_loop st)\<lparr>lp_refreshRetry := None\<rparr>)"
      by (rule attempts_inv_frame [OF inv2]) (use s settle_recorder [OF rec, of sv tn selection ref] st in auto)
    moreover have "refresh_ok rx G (step_loop st)"
      using s rr r ids by (simp add: refresh_ok_def same_frame_def lp2 forwarded_ids_def ready_def)
    ultimately show ?thesis by (simp add: attempts_inv_defs forwarded_ids_def cong: if_cong)
  qed
  have "replayed sv rx (input, result, d)" if "st = Continue lp'" for lp'
    using s that by (auto simp: replayed_def judged_result_def d_def)
  with s inv lp2 show ?thesis by (auto simp: same_frame_def split: if_splits)
qed

section \<open>All turns\<close>

text \<open>What a turn leaves: everything it forwarded before was replayed, and a turn that goes on leaves fewer.\<close>

definition turn_ok :: "Services \<Rightarrow> RequestArgs \<Rightarrow> requestAccessQuotaAdmission \<Rightarrow> GroupView set \<Rightarrow> nat list \<Rightarrow> Loop \<Rightarrow> step \<Rightarrow> bool" where
  "turn_ok sv rx q0 G ids lp st \<longleftrightarrow> attempts_inv sv rx q0 G (step_loop st)
     \<and> it_allowedCredentialIDs (lp_iterator (step_loop st)) = Some ids
     \<and> (\<forall>f \<in> set (butlast (lp_forwards (step_loop st))). replayed sv rx f)
     \<and> ((\<forall>delivery lp'. st \<noteq> Return delivery lp') \<longrightarrow> (\<forall>f \<in> set (lp_forwards (step_loop st)). replayed sv rx f))
     \<and> (\<forall>lp'. st = Continue lp' \<longrightarrow> turns_left ids lp' < turns_left ids lp)"

lemma turns_left_draw:
  assumes "c \<in> set ids" and "c \<notin> tried"
  shows "card (set ids - insert c tried) < card (set ids - tried)"
  by (rule psubset_card_mono) (use assms in auto)

lemma choose_candidate_left:
  assumes "choose_candidate rx tn lp = Chosen selection ref force lp'" and "it_allowedCredentialIDs (lp_iterator lp) = Some ids"
  shows "turns_left ids lp' + (if lp_authRefreshReplayUsed lp' then 0 else 1) < turns_left ids lp"
proof (cases "lp_refreshRetry lp")
  case (Some p)
  then show ?thesis using assms by (cases p) (auto simp: choose_candidate_def turns_left_def Let_def split: option.splits if_splits)
next
  case None
  obtain outcome it where n: "Next registry_collect (tn_views tn) (tn_draw tn) (lp_iterator lp) = (outcome, it)" by fastforce
  with None assms(1) have o: "outcome = Inr selection" and l: "lp' = lp\<lparr>lp_iterator := it\<rparr>"
    by (auto simp: choose_candidate_def Let_def split: sum.splits option.splits if_splits)
  from next_draw [OF n [unfolded o]] assms(2) None show ?thesis
    using turns_left_draw [of "sel_CredentialID selection" ids "it_tried (lp_iterator lp)"] by (simp add: turns_left_def l)
qed

text \<open>The draw of a turn that passes its candidate over.\<close>

lemma choose_candidate_skip:
  assumes "choose_candidate rx tn lp = Skip lp'" and "attempts_inv sv rx q0 G lp" and "it_allowedCredentialIDs (lp_iterator lp) = Some ids"
  shows "attempts_inv sv rx q0 G lp' \<and> lp_forwards lp' = lp_forwards lp \<and> turns_left ids lp' < turns_left ids lp
    \<and> it_allowedCredentialIDs (lp_iterator lp') = Some ids"
proof (cases "lp_refreshRetry lp")
  case (Some p)
  then obtain w where l: "lp' = lp\<lparr>lp_world := w, lp_refreshRetry := None\<rparr>"
    using assms(1) by (cases p) (auto simp: choose_candidate_def Let_def split: option.splits if_splits)
  have "attempts_inv sv rx q0 G lp'" by (rule attempts_inv_frame [OF assms(2)]) (use assms(2) in \<open>auto simp: l attempts_inv_def\<close>)
  then show ?thesis using assms(3) Some by (simp add: l turns_left_def)
next
  case None
  obtain outcome it where n: "Next registry_collect (tn_views tn) (tn_draw tn) (lp_iterator lp) = (outcome, it)" by fastforce
  with None assms(1) obtain selection where o: "outcome = Inr selection" and l: "lp' = lp\<lparr>lp_iterator := it\<rparr>"
    by (auto simp: choose_candidate_def Let_def split: sum.splits option.splits if_splits)
  note d = next_draw [OF n [unfolded o]]
  then have "attempts_inv sv rx q0 G lp'" using assms(2) None
    by (auto simp: l attempts_inv_defs forwarded_ids_def iterator_groups_def)
  with d assms(3) None show ?thesis
    using turns_left_draw [of "sel_CredentialID selection" ids "it_tried (lp_iterator lp)"] by (simp add: turns_left_def l)
qed

lemma next_exhausted:
  assumes "Next registry_collect obs draw it = (Inl e, it')"
  shows "\<exists>cs. it' = it\<lparr>it_tried := cs \<union> it_tried it\<rparr>"
proof -
  have "it = it\<lparr>it_tried := {} \<union> it_tried it\<rparr>" by simp
  then have same: "\<exists>cs. it = it\<lparr>it_tried := cs \<union> it_tried it\<rparr>" by blast
  have more: "\<exists>cs. it\<lparr>it_tried := insert c (it_tried it)\<rparr> = it\<lparr>it_tried := cs \<union> it_tried it\<rparr>" for c
    by (rule exI [of _ "{c}"]) simp
  have "next_from registry_collect obs draw it i stgs = (Inl e, it') \<Longrightarrow> \<exists>cs. it' = it\<lparr>it_tried := cs \<union> it_tried it\<rparr>" for i stgs
    using same more by (induction stgs arbitrary: i) (auto simp: Let_def split: if_splits prod.splits option.splits)
  from this [OF assms [unfolded Next_def]] show ?thesis .
qed

lemma choose_candidate_exhausted:
  assumes "choose_candidate rx tn lp = Exhausted lp'" and "attempts_inv sv rx q0 G lp"
  shows "attempts_inv sv rx q0 G lp' \<and> lp_forwards lp' = lp_forwards lp
    \<and> it_allowedCredentialIDs (lp_iterator lp') = it_allowedCredentialIDs (lp_iterator lp)"
proof -
  obtain e it where n: "Next registry_collect (tn_views tn) (tn_draw tn) (lp_iterator lp) = (Inl e, it)"
    and l: "lp' = lp\<lparr>lp_iterator := it\<rparr>"
    using assms(1) by (auto simp: choose_candidate_def Let_def split: option.splits prod.splits sum.splits if_splits)
  from next_exhausted [OF n] obtain cs where "it = (lp_iterator lp)\<lparr>it_tried := cs \<union> it_tried (lp_iterator lp)\<rparr>" by blast
  then show ?thesis using assms(2) by (auto simp: l attempts_inv_defs forwarded_ids_def iterator_groups_def)
qed

lemma butlast_all: "(\<forall>f \<in> set fs. P f) \<Longrightarrow> (\<forall>f \<in> set (butlast fs). P f)"
  by (auto dest: in_set_butlastD)

lemma chosen_turn_ok:
  assumes r: "ready sv rx q0 G selection ref lp" and a: "it_allowedCredentialIDs (lp_iterator lp) = Some ids"
    and all: "\<forall>f \<in> set (lp_forwards lp). replayed sv rx f" and p: "lp_retryPolicyResolved lp"
    and left: "turns_left ids lp + (if lp_authRefreshReplayUsed lp then 0 else 1) < turns_left ids lp0"
  shows "turn_ok sv rx q0 G ids lp0 (case prepare_candidate sv selection ref encrypted of
       Inl (code, summary, scope) \<Rightarrow> recordCandidatePreparationFailure sv rx tn selection code summary scope lp
     | Inr pd \<Rightarrow> (case admit_request sv tn lp of Inl r \<Rightarrow> return_with r
         | Inr lp3 \<Rightarrow> forward_attempt sv rx tn selection ref force pd lp3))"
proof (cases "prepare_candidate sv selection ref encrypted")
  case (Inl failure)
  obtain code summary scope where e: "failure = (code, summary, scope)" by (cases failure)
  have inv: "attempts_inv sv rx q0 G lp" using r by (simp add: ready_def)
  show ?thesis
    using preparation_failure_step [OF inv refl, of tn selection code summary scope] a all left butlast_all [OF all] r [unfolded ready_def]
    by (auto simp: Inl e turn_ok_def same_frame_def turns_left_def)
next
  case (Inr pd)
  show ?thesis
  proof (cases "admit_request sv tn lp")
    case (Inl dl)
    obtain delivery lp' where e: "dl = (delivery, lp')" by (cases dl)
    have "attempts_inv sv rx q0 G lp" using r by (simp add: ready_def)
    from refused_admission [OF this Inl [unfolded e]] show ?thesis
      using a butlast_all [OF all] Inl
      by (auto simp: Inr e turn_ok_def return_with_def admit_request_def Let_def complete_reason_def deliver_reason_def after_write_def
          split: if_splits option.splits prod.splits)
  next
    case (Inr lp3)
    note m = ready_admission [OF r Inr]
    define st where "st = forward_attempt sv rx tn selection ref force pd lp3"
    have eq: "it_allowedCredentialIDs (lp_iterator lp3) = Some ids" "lp_authRefreshReplayUsed lp3 = lp_authRefreshReplayUsed lp"
      using Inr a by (auto simp: admit_request_def Let_def split: if_splits option.splits prod.splits)
    have "ready sv rx q0 G selection ref lp3" "lp_retryPolicyResolved lp3" "sv_accessQuota sv \<longrightarrow> qa_admitted (lp_quota lp3)"
      using m p by auto
    note f = forward_attempt_step [OF this st_def [symmetric]]
    obtain g where g: "lp_forwards (step_loop st) = lp_forwards lp @ [g]" "(\<exists>lp'. st = Continue lp') \<longrightarrow> replayed sv rx g"
      using f m by auto
    have left': "turns_left ids (step_loop st) < turns_left ids lp0"
      using f m eq left r by (auto simp: turns_left_def ready_def)
    have "(\<forall>delivery lp'. st \<noteq> Return delivery lp') \<longrightarrow> (\<exists>lp'. st = Continue lp')"
      using f by (cases st) auto
    then have "turn_ok sv rx q0 G ids lp0 st"
      using f m eq g all left' by (auto simp: turn_ok_def)
    then show ?thesis using \<open>prepare_candidate sv selection ref encrypted = Inr pd\<close> Inr by (simp add: st_def)
  qed
qed

lemma attempt_turn_ok:
  assumes inv: "attempts_inv sv rx q0 G lp" and all: "\<forall>f \<in> set (lp_forwards lp). replayed sv rx f"
    and guard: "lp_forwardAttempts lp < lp_forwardAttemptLimit lp" and a: "it_allowedCredentialIDs (lp_iterator lp) = Some ids"
  shows "turn_ok sv rx q0 G ids lp (attempt_turn sv rx tn lp)"
proof (cases "cx_Err (tn_before tn) = None")
  case False
  then show ?thesis using inv a butlast_all [OF all] attempts_inv_frame [OF inv]
    by (auto simp: attempt_turn_def turn_ok_def attempts_inv_def)
next
  case ctx: True
  show ?thesis
  proof (cases "choose_candidate rx tn lp")
    case (Skip lp')
    with ctx choose_candidate_skip [OF Skip inv a] all butlast_all [OF all] show ?thesis
      by (simp add: attempt_turn_def turn_ok_def)
  next
    case (Exhausted lp')
    with ctx choose_candidate_exhausted [OF Exhausted inv] a all butlast_all [OF all] show ?thesis
      by (simp add: attempt_turn_def turn_ok_def)
  next
    case (Chosen selection ref force lp1)
    note c = choose_candidate_chosen [OF Chosen inv]
    note l = choose_candidate_left [OF Chosen a]
    define lp2 where "lp2 = lp1\<lparr>lp_world := tn_match tn (lp_world lp1)\<rparr>"
    have r: "ready sv rx q0 G selection ref lp2"
      by (rule ready_frame [OF ready_chosen [OF c inv guard]]) (simp_all add: lp2_def)
    have e: "it_allowedCredentialIDs (lp_iterator lp2) = Some ids" "lp_forwards lp2 = lp_forwards lp" "lp_refreshRetry lp2 = None"
      "turns_left ids lp2 + (if lp_authRefreshReplayUsed lp2 then 0 else 1) < turns_left ids lp"
      using c l a by (auto simp: lp2_def chosen_from_def turns_left_def)
    show ?thesis
    proof (cases "ActiveEncryptedCredentialDataIfMatch ref (wd_registry (lp_world lp2))")
      case None
      then have "attempt_turn sv rx tn lp = Continue lp2" using ctx Chosen by (simp add: attempt_turn_def lp2_def Let_def)
      then show ?thesis using r e all butlast_all [OF all] by (simp add: turn_ok_def ready_def)
    next
      case (Some encrypted)
      have "turn_ok sv rx q0 G ids lp (attempt_turn sv rx tn lp) =
        turn_ok sv rx q0 G ids lp (case prepare_candidate sv selection ref encrypted of
          Inl (code, summary, scope) \<Rightarrow> recordCandidatePreparationFailure sv rx tn selection code summary scope (resolve_policy selection lp2)
        | Inr pd \<Rightarrow> (case admit_request sv tn (resolve_policy selection lp2) of Inl r \<Rightarrow> return_with r
            | Inr lp3 \<Rightarrow> forward_attempt sv rx tn selection ref force pd lp3))"
        using ctx Chosen Some unfolding attempt_turn_def lp2_def Let_def by simp
      also have \<dots>
        by (rule chosen_turn_ok) (use ready_policy [OF r] e all in \<open>auto simp: resolve_policy_def turns_left_def\<close>)
      finally show ?thesis .
    qed
  qed
qed

section \<open>The whole loop\<close>

lemma deliver_last_ok:
  assumes "attempts_inv sv rx q0 G lp" and "deliver_last rx lp = (delivery, lp')"
  shows "attempts_inv sv rx q0 G lp' \<and> lp_forwards lp' = lp_forwards lp"
proof -
  have "same_frame lp lp' \<and> lp_refreshRetry lp' = lp_refreshRetry lp \<and> recorder_ok rx (lp_recorder lp')"
    using assms by (auto simp: deliver_last_def Let_def complete_reason_def deliver_reason_def attempts_inv_def
        split: option.splits if_splits)
  with attempts_inv_frame [OF assms(1)] show ?thesis by (simp add: same_frame_def)
qed

theorem executeAttempts_run:
  assumes "attempts_inv sv rx q0 G lp" and "\<forall>f \<in> set (lp_forwards lp). replayed sv rx f"
    and "it_allowedCredentialIDs (lp_iterator lp) = Some ids" and "turns_left ids lp < fuel"
  shows "\<exists>delivery lp'. executeAttempts sv rx turns n fuel lp = Some (delivery, lp') \<and> attempts_inv sv rx q0 G lp'
    \<and> (\<forall>f \<in> set (butlast (lp_forwards lp')). replayed sv rx f)"
  using assms
proof (induction fuel arbitrary: lp n)
  case (Suc fuel)
  have last_ok: "\<exists>delivery lp'. Some (deliver_last rx l) = Some (delivery, lp') \<and> attempts_inv sv rx q0 G lp'
      \<and> (\<forall>f \<in> set (butlast (lp_forwards lp')). replayed sv rx f)"
    if "attempts_inv sv rx q0 G l" "\<forall>f \<in> set (lp_forwards l). replayed sv rx f" for l
    using that(1) butlast_all [OF that(2)] by (cases "deliver_last rx l") (auto dest: deliver_last_ok)
  show ?case
  proof (cases "lp_forwardAttempts lp < lp_forwardAttemptLimit lp")
    case guard: True
    have t: "turn_ok sv rx q0 G ids lp (attempt_turn sv rx (turns n) lp)"
      by (rule attempt_turn_ok [OF Suc.prems(1,2) guard Suc.prems(3)])
    show ?thesis
    proof (cases "attempt_turn sv rx (turns n) lp")
      case (Continue lp')
      with t Suc.prems(4) have "turns_left ids lp' < fuel" by (auto simp: turn_ok_def)
      from Suc.IH [OF _ _ _ this, of "Suc n"] show ?thesis using t guard Continue by (simp add: turn_ok_def)
    next
      case (Break lp')
      then show ?thesis using t guard last_ok [of lp'] by (simp add: turn_ok_def)
    next
      case (Return delivery lp')
      then show ?thesis using t guard by (simp add: turn_ok_def)
    qed
  next
    case False
    then show ?thesis using last_ok [OF Suc.prems(1,2)] by simp
  qed
qed simp

lemma start_loop_inv:
  assumes "recorder_ok rx rec"
  shows "attempts_inv sv rx quota (iterator_groups it) (start_loop w it rec quota)"
  using assms by (simp add: attempts_inv_defs start_loop_def forwarded_ids_def)

lemma start_loop_left: "turns_left ids (start_loop w it rec quota) \<le> 2 * length ids"
proof -
  have "card (set ids - it_tried it) \<le> card (set ids)" by (rule card_mono) auto
  then show ?thesis using card_length [of ids] by (simp add: turns_left_def start_loop_def)
qed

text \<open>From the start of a request: it ends within its fuel, and keeps the invariant.\<close>

lemma executeAttempts_started:
  assumes "recorder_ok rx rec" and "it_allowedCredentialIDs it = Some ids"
  shows "\<exists>delivery lp'. executeAttempts sv rx turns n (Suc (2 * length ids)) (start_loop w it rec quota) = Some (delivery, lp')
    \<and> attempts_inv sv rx quota (iterator_groups it) lp' \<and> (\<forall>f \<in> set (butlast (lp_forwards lp')). replayed sv rx f)"
  using executeAttempts_run [OF start_loop_inv [OF assms(1), of sv quota it w], of ids "Suc (2 * length ids)" turns n]
    start_loop_left [of ids w it rec quota] assms(2)
  by (simp add: start_loop_def less_Suc_eq_le)

section \<open>When a request gets no answer\<close>

text \<open>The context was canceled before or after a forward, or the forwarder reports that it was.\<close>

definition gave_up :: "Turn \<Rightarrow> bool" where
  "gave_up tn \<longleftrightarrow> cx_Err (tn_before tn) \<noteq> None \<or> cx_Err (tn_after tn) \<noteq> None
     \<or> (\<exists>input. err_is ge_Canceled (ur_Err (normalizeUpstreamResultContract (tn_forward tn input))))"

lemma settle_nothing:
  assumes "settle sv rx tn selection ref secrets (observed_result rx tn (tn_forward tn input)) d lp = Return DeliverNothing lp'"
  shows "gave_up tn"
proof (cases "cx_Err (tn_after tn) = None")
  case True
  have err: "ur_Err (observed_result rx tn r) = ur_Err (normalizeUpstreamResultContract r)" for r
    by (simp add: observed_result_def Let_def)
  from True assms have "err_is ge_Canceled (ur_Err (observed_result rx tn (tn_forward tn input)))"
    by (auto simp: settle_def settle_defs split: prod.splits if_splits)
  then show ?thesis unfolding err gave_up_def by blast
qed (simp add: gave_up_def)

lemma attempt_turn_nothing:
  assumes "attempt_turn sv rx tn lp = Return DeliverNothing lp'"
  shows "gave_up tn"
proof (cases "cx_Err (tn_before tn) = None")
  case True
  have prep: "recordCandidatePreparationFailure sv rx tn selection code summary scope l \<noteq> Return DeliverNothing lp'" for selection code summary scope l
    by (simp add: recordCandidatePreparationFailure_def Let_def split: prod.split)
  have admit: "admit_request sv tn l = Inl r \<Longrightarrow> fst r \<noteq> DeliverNothing" for l r
    by (auto simp: admit_request_def Let_def complete_reason_def deliver_reason_def split: if_splits option.splits prod.splits)
  have fwd: "gave_up tn" if "forward_attempt sv rx tn selection ref force pd l = Return DeliverNothing lp'" for selection ref force pd l
    using that settle_nothing unfolding forward_attempt_def Let_def by blast
  show ?thesis using assms True prep admit fwd
    by (auto simp: attempt_turn_def return_with_def Let_def split: choice.splits option.splits sum.splits prod.splits)
qed (simp add: gave_up_def)

lemma executeAttempts_nothing:
  "executeAttempts sv rx turns n fuel lp = Some (DeliverNothing, lp') \<Longrightarrow> \<exists>k. gave_up (turns k)"
proof (induction fuel arbitrary: n lp)
  case (Suc fuel)
  have last: "fst (deliver_last rx l) \<noteq> DeliverNothing" for l
    by (simp add: deliver_last_def Let_def deliver_reason_def complete_reason_def split: option.split)
  from Suc show ?case using last attempt_turn_nothing [of sv rx "turns n" lp]
    by (auto split: if_splits step.splits) (metis fst_conv)+
qed simp

end
