(* ===== verification/Go_Strings.thy ===== *)
theory Go_Strings
  imports Prelude
begin

text \<open>
  Functions of the Go standard library on strings that the data plane uses on requests:
  \<open>strings.Split\<close>, \<open>Join\<close>, \<open>Cut\<close>, \<open>Fields\<close>, \<open>EqualFold\<close>, and \<open>url.QueryUnescape\<close>.
\<close>

section \<open>Splitting\<close>

text \<open>\<open>strings.Split\<close> at a one-byte separator: always at least one part.\<close>

fun Split :: "char \<Rightarrow> string \<Rightarrow> string list" where
  "Split c [] = [[]]"
| "Split c (x # s) = (if x = c then [] # Split c s else (x # hd (Split c s)) # tl (Split c s))"

fun Join :: "string \<Rightarrow> string list \<Rightarrow> string" where
  "Join sep [] = []"
| "Join sep [p] = p"
| "Join sep (p # q # ps) = p @ sep @ Join sep (q # ps)"

text \<open>\<open>strings.Cut\<close>; the flag of the result says whether the separator was found.\<close>

fun Cut :: "char \<Rightarrow> string \<Rightarrow> string \<times> string \<times> bool" where
  "Cut c [] = ([], [], False)"
| "Cut c (x # s) = (if x = c then ([], s, True) else (case Cut c s of (before, after, found) \<Rightarrow> (x # before, after, found)))"

lemma Split_not_empty [simp]: "Split c s \<noteq> []"
  by (cases s) simp_all

lemma Split_join [simp]: "Join [c] (Split c s) = s"
proof (induction s)
  case (Cons x s)
  then show ?case
    by (cases "Split c s"; cases "tl (Split c s)") auto
qed simp

lemma Split_parts: "p \<in> set (Split c s) \<Longrightarrow> c \<notin> set p"
proof (induction s arbitrary: p)
  case (Cons x s)
  have "hd (Split c s) \<in> set (Split c s)" by simp
  with Cons show ?case by (auto split: if_splits dest: list.set_sel(2) [OF Split_not_empty])
qed simp

lemma Split_append [simp]: "c \<notin> set p \<Longrightarrow> Split c (p @ c # s) = p # Split c s"
  by (induction p) auto

lemma Split_single [simp]: "c \<notin> set p \<Longrightarrow> Split c p = [p]"
  by (induction p) auto

lemma Join_split:
  assumes "ps \<noteq> []" and "\<forall>p \<in> set ps. c \<notin> set p"
  shows "Split c (Join [c] ps) = ps"
  using assms by (induction "[c]" ps rule: Join.induct) auto

section \<open>White space\<close>

text \<open>\<open>strings.Fields\<close>: the maximal parts without white space, with the part read so far.\<close>

definition space_at :: "string \<Rightarrow> string option" where
  "space_at s = find (\<lambda>p. p \<noteq> [] \<and> is_prefix p s) utf8_spaces"

function fields_from :: "string \<Rightarrow> string \<Rightarrow> string list" where
  "fields_from part [] = (if part = [] then [] else [rev part])"
| "fields_from part (x # s) =
     (case space_at (x # s) of
        Some p \<Rightarrow> (if part = [] then [] else [rev part]) @ fields_from [] (drop (length p) (x # s))
      | None \<Rightarrow> fields_from (x # part) s)"
  by pat_completeness auto

termination
  by (relation "measure (\<lambda>(part, s). length s)") (auto simp: space_at_def find_Some_iff)

definition Fields :: "string \<Rightarrow> string list" where
  "Fields s = fields_from [] s"

lemma fields_from_parts: "p \<in> set (fields_from part s) \<Longrightarrow> p \<noteq> []"
  by (induction part s rule: fields_from.induct) (auto split: option.splits if_splits)

lemma Fields_parts: "p \<in> set (Fields s) \<Longrightarrow> p \<noteq> []"
  by (simp add: Fields_def fields_from_parts)

section \<open>Case folding and escapes\<close>

text \<open>
  \<open>strings.EqualFold\<close> of ASCII strings, such as the field names of a request, and of any string
  with an ASCII one that has no \<open>k\<close> and no \<open>s\<close>: those two letters alone have a simple fold outside ASCII.
\<close>

definition EqualFold :: "string \<Rightarrow> string \<Rightarrow> bool" where
  "EqualFold s t \<longleftrightarrow> map ascii_lower s = map ascii_lower t"

definition hex_digit :: "char \<Rightarrow> nat option" where
  "hex_digit c = (let n = of_char c :: nat in
     if 48 \<le> n \<and> n \<le> 57 then Some (n - 48)
     else if 97 \<le> n \<and> n \<le> 102 then Some (n - 87)
     else if 65 \<le> n \<and> n \<le> 70 then Some (n - 55) else None)"

text \<open>\<open>url.QueryUnescape\<close>: \<open>None\<close> is the error of a malformed escape.\<close>

fun QueryUnescape :: "string \<Rightarrow> string option" where
  "QueryUnescape [] = Some []"
| "QueryUnescape (x # s) =
     (if x = CHR ''%'' then
        (case s of
           a # b # rest \<Rightarrow>
             (case (hex_digit a, hex_digit b) of
                (Some h, Some l) \<Rightarrow> map_option (Cons (char_of (16 * h + l))) (QueryUnescape rest)
              | _ \<Rightarrow> None)
         | _ \<Rightarrow> None)
      else map_option (Cons (if x = CHR ''+'' then CHR '' '' else x)) (QueryUnescape s))"

text \<open>A string without escapes is left as it is.\<close>

lemma QueryUnescape_plain: "CHR ''%'' \<notin> set s \<Longrightarrow> CHR ''+'' \<notin> set s \<Longrightarrow> QueryUnescape s = Some s"
  by (induction s) auto

end
