(* ===== verification/Gateway_Access.thy ===== *)
theory Gateway_Access
  imports Go_Strings Config_Properties Gateway_Result "HOL-Library.List_Lexorder" "HOL-Library.Char_ord"
begin

text \<open>
  The way into the data plane: peer addresses and their allowlists
  (\<open>src/internal/platform/utils/peer_ip.go\<close>, \<open>allowed_cidrs.go\<close>), the access key of a request and its
  authentication (\<open>src/internal/gateway/auth.go\<close>), and the routes of the data plane
  (\<open>router.go\<close>, \<open>http_routes.go\<close>). The parsers and printers of \<open>net/netip\<close> are functions.
\<close>

section \<open>Peer addresses\<close>

record Addr =
  ad_BitLen :: nat
  ad_Addr :: nat
  ad_Zone :: string

definition Addr_Is4In6 :: "Addr \<Rightarrow> bool" where
  "Addr_Is4In6 a \<longleftrightarrow> ad_BitLen a = 128 \<and> ad_Addr a div 2 ^ 32 = 65535"

definition Addr_Unmap :: "Addr \<Rightarrow> Addr" where
  "Addr_Unmap a = (if Addr_Is4In6 a then \<lparr>ad_BitLen = 32, ad_Addr = ad_Addr a mod 2 ^ 32, ad_Zone = []\<rparr> else a)"

definition Addr_WithZone :: "string \<Rightarrow> Addr \<Rightarrow> Addr" where
  "Addr_WithZone zone a = (if ad_BitLen a \<noteq> 128 then a else a\<lparr>ad_Zone := zone\<rparr>)"

definition Prefix_Contains :: "Prefix \<Rightarrow> Addr \<Rightarrow> bool" where
  "Prefix_Contains p a \<longleftrightarrow> Prefix_IsValid p \<and> ad_Zone a = [] \<and> ad_BitLen a = px_BitLen p
     \<and> (let unit = 2 ^ (px_BitLen p - nat (px_Bits p)) in ad_Addr a div unit = px_Addr p div unit)"

text \<open>\<open>netip.ParseAddrPort\<close> (its address), \<open>ParseAddr\<close>, \<open>ParsePrefix\<close> and the two \<open>String\<close> methods.\<close>

record net_library =
  nl_ParseAddrPort :: "string \<Rightarrow> Addr option"
  nl_ParseAddr :: "string \<Rightarrow> Addr option"
  nl_ParsePrefix :: "string \<Rightarrow> Prefix option"
  nl_AddrString :: "Addr \<Rightarrow> string"
  nl_PrefixString :: "Prefix \<Rightarrow> string"

definition NormalizePeerIP :: "net_library \<Rightarrow> string \<Rightarrow> string option" where
  "NormalizePeerIP nl remoteAddr =
     map_option (\<lambda>a. nl_AddrString nl (Addr_WithZone [] (Addr_Unmap a))) (nl_ParseAddrPort nl (TrimSpace remoteAddr))"

definition AllowedCIDRsContain :: "net_library \<Rightarrow> Prefix list \<Rightarrow> string \<Rightarrow> bool" where
  "AllowedCIDRsContain nl prefixes peer =
     (case nl_ParseAddr nl (TrimSpace peer) of
        None \<Rightarrow> False
      | Some a \<Rightarrow> (\<exists>p \<in> set prefixes. Prefix_Contains p (Addr_WithZone [] (Addr_Unmap a))))"

section \<open>Allowlists\<close>

definition maxAllowedCIDRs :: nat where
  "maxAllowedCIDRs = 64"

datatype CIDRError = ErrCIDRCount | ErrCIDREmpty | ErrCIDRInvalid

definition normalizeAllowedCIDR :: "net_library \<Rightarrow> string \<Rightarrow> Prefix option" where
  "normalizeAllowedCIDR nl value =
     (case nl_ParseAddr nl value of
        Some address0 \<Rightarrow>
          if ad_Zone address0 \<noteq> [] then None
          else
            let address = Addr_Unmap address0 in
            Some \<lparr>px_BitLen = ad_BitLen address, px_Addr = ad_Addr address, px_Zone = [],
                  px_Bits = (if ad_BitLen address = 32 then 32 else 128)\<rparr>
      | None \<Rightarrow>
          (case nl_ParsePrefix nl value of
             None \<Rightarrow> None
           | Some prefix \<Rightarrow>
               if px_Zone prefix \<noteq> [] \<or> Prefix_Is4In6 prefix then None else Some (Prefix_Masked prefix)))"

fun normalize_each :: "net_library \<Rightarrow> string list \<Rightarrow> (string, Prefix) gomap \<Rightarrow> CIDRError + (string, Prefix) gomap" where
  "normalize_each nl [] seen = Inr seen"
| "normalize_each nl (raw # rest) seen =
     (let value = TrimSpace raw in
      if value = [] then Inl ErrCIDREmpty
      else case normalizeAllowedCIDR nl value of
        None \<Rightarrow> Inl ErrCIDRInvalid
      | Some prefix \<Rightarrow> normalize_each nl rest (AList.update (nl_PrefixString nl prefix) prefix seen))"

definition NormalizeAllowedCIDRs :: "net_library \<Rightarrow> string list \<Rightarrow> CIDRError + (string list \<times> Prefix list)" where
  "NormalizeAllowedCIDRs nl values =
     (if maxAllowedCIDRs < length values then Inl ErrCIDRCount
      else case normalize_each nl values [] of
        Inl e \<Rightarrow> Inl e
      | Inr seen \<Rightarrow>
          let canonical = sort (map fst seen)
          in Inr (canonical, map (\<lambda>value. the (map_of seen value)) canonical))"

section \<open>The access key of a request\<close>

record Request =
  hr_Method :: string
  hr_Path :: string
  hr_RawQuery :: string
  hr_Header :: Header
  hr_RemoteAddr :: string

text \<open>\<open>http.Header.Get\<close>.\<close>

definition Header_Get :: "Header \<Rightarrow> string \<Rightarrow> string" where
  "Header_Get header name =
     (case map_of header (CanonicalMIMEHeaderKey name) of Some (v # _) \<Rightarrow> v | _ \<Rightarrow> [])"

definition is_key_segment :: "string \<Rightarrow> bool" where
  "is_key_segment segment \<longleftrightarrow> QueryUnescape (fst (Cut (CHR ''='') segment)) = Some ''key''"

text \<open>The first \<open>key\<close> parameter that can be unescaped; the others are dropped too.\<close>

fun query_key :: "string list \<Rightarrow> string" where
  "query_key [] = []"
| "query_key (segment # segments) =
     (if is_key_segment segment then
        (case QueryUnescape (fst (snd (Cut (CHR ''='') segment))) of
           Some value \<Rightarrow> TrimSpace value
         | None \<Rightarrow> query_key segments)
      else query_key segments)"

definition bearer_key :: "string list \<Rightarrow> string option" where
  "bearer_key parts =
     (if length parts = 2 \<and> EqualFold (parts ! 0) ''Bearer'' \<and> parts ! 1 \<noteq> [] then Some (parts ! 1) else None)"

text \<open>The key, and the request whose query no longer has it.\<close>

definition extractClientKey :: "Request \<Rightarrow> string \<times> Request" where
  "extractClientKey request =
     (let segments = Split (CHR ''&'') (hr_RawQuery request);
          queryKey = query_key segments;
          request' = request\<lparr>hr_RawQuery := Join ''&'' (filter (\<lambda>s. \<not> is_key_segment s) segments)\<rparr>;
          apiKey = TrimSpace (Header_Get (hr_Header request) ''x-api-key'');
          googKey = TrimSpace (Header_Get (hr_Header request) ''x-goog-api-key'')
      in ((case bearer_key (Fields (Header_Get (hr_Header request) ''Authorization'')) of
             Some key \<Rightarrow> key
           | None \<Rightarrow> if apiKey \<noteq> [] then apiKey else if googKey \<noteq> [] then googKey else queryKey), request'))"

datatype accessKeyAuthFailureReason = accessKeyAuthFailureInvalid | accessKeyAuthFailureExpired | accessKeyAuthFailurePeerNotAllowed

definition authenticate ::
  "net_library \<Rightarrow> (string \<Rightarrow> string) \<Rightarrow> Request \<Rightarrow> ConfigSnapshot option \<Rightarrow> time
     \<Rightarrow> (accessKeyAuthFailureReason + AccessKeyView) \<times> Request" where
  "authenticate nl Hash request snapshot requestStarted =
     (case snapshot of
        None \<Rightarrow> (Inl accessKeyAuthFailureInvalid, request)
      | Some s \<Rightarrow>
          (case extractClientKey request of (plaintext, request') \<Rightarrow>
             ((if plaintext = [] then Inl accessKeyAuthFailureInvalid
               else case map_of (cs_AccessKeysByHash s) (Hash plaintext) of
                 None \<Rightarrow> Inl accessKeyAuthFailureInvalid
               | Some accessKey \<Rightarrow>
                   if (\<exists>e \<in> set_option (akv_ExpiresAtMS accessKey). e \<le> UnixMilli requestStarted)
                   then Inl accessKeyAuthFailureExpired
                   else if akv_AllowedPeerCIDRs accessKey \<noteq> []
                     \<and> \<not> (\<exists>peer \<in> set_option (NormalizePeerIP nl (hr_RemoteAddr request')).
                           AllowedCIDRsContain nl (akv_AllowedPeerCIDRs accessKey) peer)
                   then Inl accessKeyAuthFailurePeerNotAllowed
                   else Inr accessKey), request')))"

section \<open>Routes\<close>

definition geminiModelsPath :: string where "geminiModelsPath = ''/v1beta/models''"
definition openAIResponsesPath :: string where "openAIResponsesPath = ''/v1/responses''"
definition anthropicMessagesPath :: string where "anthropicMessagesPath = ''/v1/messages''"

datatype endpointKind = endpointForward | endpointModels

record route =
  ro_Protocol :: Protocol
  ro_Kind :: endpointKind

record dataPlaneEndpoint =
  de_name :: string
  de_methods :: "string list"
  de_path :: string
  de_pathValidator :: "(Request \<Rightarrow> bool) option"
  de_rejectAfterAuth :: "(Request \<Rightarrow> bool) option"
  de_resolve :: "Request \<Rightarrow> route"

definition TrimPrefix :: "string \<Rightarrow> string \<Rightarrow> string" where
  "TrimPrefix s p = (if HasPrefix s p then drop (length p) s else s)"

definition TrimSuffix :: "string \<Rightarrow> string \<Rightarrow> string" where
  "TrimSuffix s p = (if HasSuffix s p then take (length s - length p) s else s)"

definition responsesRegisteredMethods :: "string list" where
  "responsesRegisteredMethods =
     [''GET'', ''POST'', ''PUT'', ''PATCH'', ''HEAD'', ''OPTIONS'', ''DELETE'', ''CONNECT'', ''TRACE'']"

definition staticRoute :: "Protocol \<Rightarrow> endpointKind \<Rightarrow> Request \<Rightarrow> route" where
  "staticRoute selectedProtocol kind request = \<lparr>ro_Protocol = selectedProtocol, ro_Kind = kind\<rparr>"

definition resolveModelListRoute :: "Request \<Rightarrow> route" where
  "resolveModelListRoute request =
     (if TrimSpace (Header_Get (hr_Header request) ''anthropic-version'') \<noteq> []
      then \<lparr>ro_Protocol = Anthropic, ro_Kind = endpointModels\<rparr>
      else \<lparr>ro_Protocol = OpenAICompletions, ro_Kind = endpointModels\<rparr>)"

definition responsesPath :: "string \<Rightarrow> bool" where
  "responsesPath path \<longleftrightarrow> path = openAIResponsesPath
     \<or> HasPrefix path (openAIResponsesPath @ ''/'')
       \<and> list_all (\<lambda>segment. segment \<noteq> ''.'' \<and> segment \<noteq> ''..'') (Split (CHR ''/'') (TrimPrefix path (openAIResponsesPath @ ''/'')))"

definition locallyRejectedForwardMethod :: "string \<Rightarrow> bool" where
  "locallyRejectedForwardMethod method \<longleftrightarrow> method \<in> {''OPTIONS'', ''CONNECT'', ''TRACE''}"

definition rejectResponsesAfterAuthentication :: "Request \<Rightarrow> bool" where
  "rejectResponsesAfterAuthentication request \<longleftrightarrow>
     \<not> responsesPath (hr_Path request) \<or> locallyRejectedForwardMethod (hr_Method request)"

definition geminiActions :: "string list" where
  "geminiActions = ['':generateContent'', '':streamGenerateContent'', '':countTokens'']"

definition geminiRequestPath :: "string \<Rightarrow> bool" where
  "geminiRequestPath path \<longleftrightarrow> HasPrefix path (geminiModelsPath @ ''/'')
     \<and> (let modelAndAction = TrimPrefix path (geminiModelsPath @ ''/'') in
        \<not> ContainsSub modelAndAction ''/''
        \<and> (case find (\<lambda>suffix. TrimSuffix modelAndAction suffix \<noteq> modelAndAction) geminiActions of
             None \<Rightarrow> False
           | Some suffix \<Rightarrow> TrimSuffix modelAndAction suffix \<noteq> []))"

definition validateGeminiRequest :: "Request \<Rightarrow> bool" where
  "validateGeminiRequest request = geminiRequestPath (hr_Path request)"

definition forward_endpoint :: "string \<Rightarrow> string \<Rightarrow> Protocol \<Rightarrow> dataPlaneEndpoint" where
  "forward_endpoint name path p = \<lparr>de_name = name, de_methods = [''POST''], de_path = path, de_pathValidator = None,
     de_rejectAfterAuth = None, de_resolve = staticRoute p endpointForward\<rparr>"

definition responses_endpoint :: "string \<Rightarrow> string \<Rightarrow> dataPlaneEndpoint" where
  "responses_endpoint name path = \<lparr>de_name = name, de_methods = responsesRegisteredMethods, de_path = path,
     de_pathValidator = None, de_rejectAfterAuth = Some rejectResponsesAfterAuthentication,
     de_resolve = staticRoute OpenAIResponses endpointForward\<rparr>"

definition models_endpoint :: "string \<Rightarrow> string \<Rightarrow> (Request \<Rightarrow> route) \<Rightarrow> dataPlaneEndpoint" where
  "models_endpoint name path resolve = \<lparr>de_name = name, de_methods = [''GET''], de_path = path, de_pathValidator = None,
     de_rejectAfterAuth = None, de_resolve = resolve\<rparr>"

definition dataPlaneEndpointCatalog :: "dataPlaneEndpoint list" where
  "dataPlaneEndpointCatalog =
     [forward_endpoint ''data.openai.completions'' ''/v1/chat/completions'' OpenAICompletions,
      forward_endpoint ''data.anthropic.messages'' anthropicMessagesPath Anthropic,
      forward_endpoint ''data.anthropic.count_tokens'' (anthropicMessagesPath @ ''/count_tokens'') Anthropic,
      (forward_endpoint ''data.gemini.generate'' (geminiModelsPath @ ''/:model_action'') Gemini)
        \<lparr>de_pathValidator := Some validateGeminiRequest\<rparr>,
      models_endpoint ''data.gemini.models'' geminiModelsPath (staticRoute Gemini endpointModels),
      models_endpoint ''data.models'' ''/v1/models'' resolveModelListRoute,
      responses_endpoint ''data.openai.responses'' openAIResponsesPath,
      responses_endpoint ''data.openai.responses.resource'' (openAIResponsesPath @ ''/*resource_path''),
      forward_endpoint ''data.openai.images.generations'' ''/v1/images/generations'' OpenAIImages,
      forward_endpoint ''data.openai.images.edits'' ''/v1/images/edits'' OpenAIImages,
      forward_endpoint ''data.openai.embeddings'' ''/v1/embeddings'' OpenAIEmbeddings]"

section \<open>The request context\<close>

record dataPlaneRequestContext =
  rc_requestStarted :: time
  rc_selectedRoute :: route
  rc_snapshot :: "ConfigSnapshot option"
  rc_accessKey :: "AccessKeyView option"
  rc_authenticated :: bool
  rc_locallyRejected :: bool

definition prepareDataPlaneRequest :: "dataPlaneEndpoint \<Rightarrow> Request \<Rightarrow> time \<Rightarrow> dataPlaneRequestContext" where
  "prepareDataPlaneRequest endpoint request now =
     \<lparr>rc_requestStarted = now, rc_selectedRoute = de_resolve endpoint request, rc_snapshot = None, rc_accessKey = None,
      rc_authenticated = False, rc_locallyRejected = (case de_rejectAfterAuth endpoint of None \<Rightarrow> False | Some reject \<Rightarrow> reject request)\<rparr>"

text \<open>On failure the client gets \<open>reasonInvalidAccessKey\<close> and the chain is aborted.\<close>

definition authenticateDataPlaneRequest ::
  "net_library \<Rightarrow> (string \<Rightarrow> string) \<Rightarrow> ConfigSnapshot option \<Rightarrow> Request \<Rightarrow> dataPlaneRequestContext
     \<Rightarrow> (reason + dataPlaneRequestContext) \<times> Request" where
  "authenticateDataPlaneRequest nl Hash current request rc =
     (case authenticate nl Hash request current (rc_requestStarted rc) of
        (Inl _, request') \<Rightarrow> (Inl reasonInvalidAccessKey, request')
      | (Inr accessKey, request') \<Rightarrow>
          (Inr (rc\<lparr>rc_snapshot := current, rc_accessKey := Some accessKey, rc_authenticated := True\<rparr>), request'))"

section \<open>Lemmas\<close>

text \<open>What the parsers of \<open>net/netip\<close> promise: valid results, and that a printed address parses back.\<close>

definition addr_ok :: "Addr \<Rightarrow> bool" where
  "addr_ok a \<longleftrightarrow> ad_BitLen a \<in> {32, 128} \<and> ad_Addr a < 2 ^ ad_BitLen a \<and> (ad_BitLen a = 32 \<longrightarrow> ad_Zone a = [])"

definition net_laws :: "net_library \<Rightarrow> bool" where
  "net_laws nl \<longleftrightarrow> (\<forall>s a. nl_ParseAddrPort nl s = Some a \<longrightarrow> addr_ok a) \<and> (\<forall>s a. nl_ParseAddr nl s = Some a \<longrightarrow> addr_ok a)
     \<and> (\<forall>s p. nl_ParsePrefix nl s = Some p \<longrightarrow> Prefix_IsValid p)
     \<and> (\<forall>a. addr_ok a \<longrightarrow> ad_Zone a = [] \<longrightarrow> \<not> Addr_Is4In6 a \<longrightarrow> nl_ParseAddr nl (TrimSpace (nl_AddrString nl a)) = Some a)"

definition peer_of :: "Addr \<Rightarrow> Addr" where
  "peer_of a = Addr_WithZone [] (Addr_Unmap a)"

lemma peer_of_ok:
  assumes "addr_ok a"
  shows "addr_ok (peer_of a)" "ad_Zone (peer_of a) = []" "\<not> Addr_Is4In6 (peer_of a)" "peer_of (peer_of a) = peer_of a"
  using assms by (auto simp: peer_of_def addr_ok_def Addr_Unmap_def Addr_WithZone_def Addr_Is4In6_def)

text \<open>The peer is matched by its address, whatever its printed form.\<close>

lemma peer_matched:
  assumes "net_laws nl"
  shows "(\<exists>peer \<in> set_option (NormalizePeerIP nl remote). AllowedCIDRsContain nl prefixes peer) \<longleftrightarrow>
    (\<exists>a p. nl_ParseAddrPort nl (TrimSpace remote) = Some a \<and> p \<in> set prefixes \<and> Prefix_Contains p (peer_of a))"
proof (cases "nl_ParseAddrPort nl (TrimSpace remote)")
  case None
  then show ?thesis by (simp add: NormalizePeerIP_def)
next
  case (Some a)
  then have a: "addr_ok a" using assms by (simp add: net_laws_def)
  have "nl_ParseAddr nl (TrimSpace (nl_AddrString nl (peer_of a))) = Some (peer_of a)"
    using assms peer_of_ok [OF a] by (simp add: net_laws_def)
  with peer_of_ok(4) [OF a] Some show ?thesis
    by (auto simp: NormalizePeerIP_def AllowedCIDRsContain_def simp flip: peer_of_def)
qed

text \<open>A compiled snapshot finds exactly the active keys by their hash.\<close>

lemma validate_keys_distinct:
  "validate_keys ids hashes ks = None \<Longrightarrow> distinct (map akc_KeyHash ks) \<and> set (map akc_KeyHash ks) \<inter> hashes = {}"
  by (induction ids hashes ks rule: validate_keys.induct) (auto split: if_splits option.splits)

lemma compile_keys_by_hash:
  assumes "distinct (map akc_KeyHash ks)"
  shows "map_of (cs_AccessKeysByHash (fold compile_key ks s)) h =
    (case find (\<lambda>k. akc_KeyHash k = h \<and> akc_Status k = AccessKeyStatusActive) ks of
       Some k \<Rightarrow> Some (newAccessKeyView k) | None \<Rightarrow> map_of (cs_AccessKeysByHash s) h)"
  using assms
proof (induction ks arbitrary: s)
  case (Cons k ks)
  show ?case
  proof (cases "akc_KeyHash k = h \<and> akc_Status k = AccessKeyStatusActive")
    case True
    with Cons.prems have "find (\<lambda>k. akc_KeyHash k = h \<and> akc_Status k = AccessKeyStatusActive) ks = None"
      by (auto simp: find_None_iff image_iff)
    with Cons True show ?thesis by (simp add: compile_key_def Let_def)
  next
    case False
    with Cons show ?thesis by (auto simp: compile_key_def Let_def split: option.split)
  qed
qed simp

lemma compile_groups_keys:
  assumes "fold_result (compile_group pl lib json input rs) gs s = Inr s'"
  shows "cs_AccessKeysByHash s' = cs_AccessKeysByHash s"
  using assms
proof (induction gs arbitrary: s)
  case (Cons g gs)
  have "cs_AccessKeysByHash t = cs_AccessKeysByHash s" if "compile_group pl lib json input rs g s = Inr t" for t
    using that by (cases "gc_Enabled g") (clarsimp simp: compile_group_def compile_enabled_def Let_def)+
  with Cons show ?case by auto
qed simp

lemma compile_accessKeysByHash:
  assumes "Compile pl lib json input = Inr s"
  shows "map_of (cs_AccessKeysByHash s) h = Some view \<longleftrightarrow>
    (\<exists>k \<in> set (ci_AccessKeys input). akc_KeyHash k = h \<and> akc_Status k = AccessKeyStatusActive \<and> view = newAccessKeyView k)"
proof -
  from assms obtain rs proxy u where v: "validateCompileInput json input = None"
    and u: "fold_result (compile_group pl lib json input rs) (ci_Groups input) (empty_snapshot rs proxy) = Inr u"
    and s: "cs_AccessKeysByHash s = cs_AccessKeysByHash (fold compile_key (ci_AccessKeys input) u)"
    unfolding Compile_def Let_def by (cases "validateCompileInput json input") auto
  have d: "distinct (map akc_KeyHash (ci_AccessKeys input))"
    using v validate_keys_distinct by (fastforce simp: validateCompileInput_def split: option.splits)
  have "cs_AccessKeysByHash u = []" using compile_groups_keys [OF u] by (simp add: empty_snapshot_def)
  with compile_keys_by_hash [OF d, of u h] s have m: "map_of (cs_AccessKeysByHash s) h =
      map_option newAccessKeyView (find (\<lambda>k. akc_KeyHash k = h \<and> akc_Status k = AccessKeyStatusActive) (ci_AccessKeys input))"
    by (simp split: option.split)
  have unique: "k = k'" if "k \<in> set (ci_AccessKeys input)" "k' \<in> set (ci_AccessKeys input)" "akc_KeyHash k = akc_KeyHash k'" for k k'
    using d that by (auto simp: distinct_map dest: inj_onD)
  show ?thesis
  proof (cases "find (\<lambda>k. akc_KeyHash k = h \<and> akc_Status k = AccessKeyStatusActive) (ci_AccessKeys input)")
    case None
    with m have "map_of (cs_AccessKeysByHash s) h = None" by simp
    with None show ?thesis by (auto simp: find_None_iff)
  next
    case (Some k)
    then have "k \<in> set (ci_AccessKeys input) \<and> akc_KeyHash k = h \<and> akc_Status k = AccessKeyStatusActive"
      by (auto simp: find_Some_iff)
    with unique Some m show ?thesis by auto
  qed
qed

text \<open>The segments that are forwarded.\<close>

lemma forwarded_segments:
  assumes "extractClientKey request = (key, request')"
  shows "seg \<in> set (Split (CHR ''&'') (hr_RawQuery request')) \<Longrightarrow> \<not> is_key_segment seg"
    and "hr_RawQuery request' = Join ''&'' (filter (\<lambda>s. \<not> is_key_segment s) (Split (CHR ''&'') (hr_RawQuery request)))"
proof -
  let ?kept = "filter (\<lambda>s. \<not> is_key_segment s) (Split (CHR ''&'') (hr_RawQuery request))"
  show q: "hr_RawQuery request' = Join ''&'' ?kept" using assms by (auto simp: extractClientKey_def Let_def)
  show "\<not> is_key_segment seg" if s: "seg \<in> set (Split (CHR ''&'') (hr_RawQuery request'))"
  proof (cases "?kept = []")
    case True
    with s q have "seg = []" by simp
    then show ?thesis by (simp add: is_key_segment_def)
  next
    case False
    have "Split (CHR ''&'') (Join ''&'' ?kept) = ?kept"
      by (rule Join_split [OF False]) (auto dest: Split_parts)
    with s q show ?thesis by auto
  qed
qed

section \<open>Allowlists pass the compiler\<close>

lemma masked_idem: "Prefix_IsValid p \<Longrightarrow> Prefix_Masked (Prefix_Masked p) = Prefix_Masked p"
  by (simp add: Prefix_Masked_def Let_def)

text \<open>Clearing low bits of an address never makes it a mapped one.\<close>

lemma masked_not_mapped:
  assumes "Prefix_IsValid p" and "\<not> Prefix_Is4In6 p"
  shows "\<not> Prefix_Is4In6 (Prefix_Masked p)"
proof -
  define k where "k = px_BitLen p - nat (px_Bits p)"
  have m: "Prefix_Masked p = p\<lparr>px_Addr := px_Addr p div 2 ^ k * 2 ^ k\<rparr>" by (simp add: Prefix_Masked_def k_def Let_def)
  consider "k \<le> 32" | "32 < k" by linarith
  then have "(px_Addr p div 2 ^ k * 2 ^ k) div 2 ^ 32 = 65535 \<longrightarrow> px_Addr p div 2 ^ 32 = 65535"
  proof cases
    case 1
    then have e: "(2::nat) ^ 32 = 2 ^ k * 2 ^ (32 - k)" by (simp flip: power_add)
    have "(x div 2 ^ k * 2 ^ k) div (2 ^ k * 2 ^ j) = x div (2 ^ k * 2 ^ j)" for x j :: nat
      by (simp add: div_mult2_eq)
    then show ?thesis by (metis e)
  next
    case 2
    then have e: "(2::nat) ^ k = 2 ^ (k - 32) * 2 ^ 32" by (metis le_add_diff_inverse2 less_imp_le power_add)
    have "(px_Addr p div 2 ^ k * 2 ^ k) div 2 ^ 32 = px_Addr p div 2 ^ k * 2 ^ (k - 32)"
      unfolding e by (simp add: mult.assoc [symmetric])
    moreover have "even (px_Addr p div 2 ^ k * 2 ^ (k - 32))" using 2 by simp
    moreover have "odd (65535 :: nat)" by simp
    ultimately show ?thesis by metis
  qed
  then show ?thesis using assms(2) by (auto simp: m Prefix_Is4In6_def)
qed

lemma normalizeAllowedCIDR_ok:
  assumes "net_laws nl" and "normalizeAllowedCIDR nl value = Some p"
  shows "Prefix_IsValid p \<and> px_Zone p = [] \<and> \<not> Prefix_Is4In6 p \<and> p = Prefix_Masked p"
proof (cases "nl_ParseAddr nl value")
  case None
  with assms(2) obtain q where "nl_ParsePrefix nl value = Some q" "px_Zone q = []" "\<not> Prefix_Is4In6 q" "p = Prefix_Masked q"
    by (auto simp: normalizeAllowedCIDR_def split: option.splits if_splits)
  moreover from this(1) assms(1) have "Prefix_IsValid q" by (simp add: net_laws_def)
  ultimately show ?thesis using masked_idem masked_not_mapped by (auto simp: Prefix_Masked_def Prefix_IsValid_def Let_def)
next
  case (Some a)
  then have "addr_ok a" using assms(1) by (simp add: net_laws_def)
  then show ?thesis using assms(2) Some
    by (auto simp: normalizeAllowedCIDR_def Let_def addr_ok_def Addr_Unmap_def Addr_Is4In6_def Prefix_IsValid_def
        Prefix_Is4In6_def Prefix_Masked_def split: if_splits)
qed

lemma normalize_each_ok:
  assumes "net_laws nl" and "normalize_each nl raws seen = Inr seen'" and "distinct (map fst seen)"
    and "\<forall>(k, p) \<in> set seen. k = nl_PrefixString nl p \<and> Prefix_IsValid p \<and> px_Zone p = [] \<and> \<not> Prefix_Is4In6 p \<and> p = Prefix_Masked p"
  shows "distinct (map fst seen') \<and> length seen' \<le> length seen + length raws
    \<and> (\<forall>(k, p) \<in> set seen'. k = nl_PrefixString nl p \<and> Prefix_IsValid p \<and> px_Zone p = [] \<and> \<not> Prefix_Is4In6 p \<and> p = Prefix_Masked p)"
  using assms(2,3,4)
proof (induction raws arbitrary: seen)
  case (Cons raw rest)
  then obtain p where p: "normalizeAllowedCIDR nl (TrimSpace raw) = Some p"
    and r: "normalize_each nl rest (AList.update (nl_PrefixString nl p) p seen) = Inr seen'"
    by (auto simp: Let_def split: if_splits option.splits)
  have len: "length (AList.update k v m) \<le> Suc (length m)" for k v and m :: "(string, Prefix) gomap"
    by (induction m) auto
  have upd: "set (AList.update k v m) \<subseteq> insert (k, v) (set m)" for k v and m :: "(string, Prefix) gomap"
    by (induction m) auto
  have "distinct (map fst seen') \<and> length seen' \<le> length (AList.update (nl_PrefixString nl p) p seen) + length rest
    \<and> (\<forall>(k, p) \<in> set seen'. k = nl_PrefixString nl p \<and> Prefix_IsValid p \<and> px_Zone p = [] \<and> \<not> Prefix_Is4In6 p \<and> p = Prefix_Masked p)"
  proof (rule Cons.IH [OF r])
    show "distinct (map fst (AList.update (nl_PrefixString nl p) p seen))" using Cons.prems(2) by (simp add: distinct_update)
    show "\<forall>(k, p) \<in> set (AList.update (nl_PrefixString nl p) p seen).
        k = nl_PrefixString nl p \<and> Prefix_IsValid p \<and> px_Zone p = [] \<and> \<not> Prefix_Is4In6 p \<and> p = Prefix_Masked p"
      using Cons.prems(3) normalizeAllowedCIDR_ok [OF assms(1) p] upd by blast
  qed
  then show ?case using len [of "nl_PrefixString nl p" p seen] by (auto intro: order_trans)
qed simp

lemma NormalizeAllowedCIDRs_valid:
  assumes "net_laws nl" and "NormalizeAllowedCIDRs nl values = Inr (canonical, prefixes)"
  shows "validateAllowedPeerCIDRs prefixes \<and> canonical = map (nl_PrefixString nl) prefixes \<and> sorted canonical"
proof -
  from assms(2) obtain seen where s: "normalize_each nl values [] = Inr seen" and n: "length values \<le> 64"
    and c: "canonical = sort (map fst seen)" and ps: "prefixes = map (\<lambda>value. the (map_of seen value)) canonical"
    by (auto simp: NormalizeAllowedCIDRs_def maxAllowedCIDRs_def Let_def split: if_splits sum.splits)
  note e = normalize_each_ok [OF assms(1) s, simplified]
  have p: "nl_PrefixString nl (the (map_of seen k)) = k \<and> (k, the (map_of seen k)) \<in> set seen" if "k \<in> set canonical" for k
    using that e by (auto simp: c)
  have m: "map (nl_PrefixString nl) prefixes = canonical" unfolding ps using p by (simp add: map_idI)
  then have "distinct prefixes" using e by (metis c distinct_map distinct_sort)
  moreover have "list_all (\<lambda>p. Prefix_IsValid p \<and> px_Zone p = [] \<and> \<not> Prefix_Is4In6 p \<and> p = Prefix_Masked p) prefixes"
    using p e by (auto simp: ps list_all_iff)
  moreover have "length prefixes \<le> 64" using e n by (simp add: ps c)
  ultimately show ?thesis using m by (simp add: validateAllowedPeerCIDRs_def c)
qed

end
