(* ===== verification/Gateway_Models.thy ===== *)
theory Gateway_Models
  imports Gateway_Access
begin

text \<open>
  The model list of the data plane (\<open>src/internal/gateway/models.go\<close>): which models an access key
  sees, and the body that lists them, which is built only when it fits a limit. The encoding of a
  string as JSON is an argument.
\<close>

section \<open>Visible models\<close>

definition modelListProtocols :: "Protocol \<Rightarrow> Protocol list" where
  "modelListProtocols value =
     (if value = OpenAICompletions then [OpenAICompletions, OpenAIResponses, OpenAIImages, OpenAIEmbeddings] else [value])"

definition anyVisibleTarget :: "RouteTarget list \<Rightarrow> nat list \<Rightarrow> bool" where
  "anyVisibleTarget targets groups =
     (if targets = [] then False else if groups = [] then True
      else list_ex (\<lambda>target. tg_GroupID target \<in> set groups) targets)"

definition protocol_models :: "ConfigSnapshot \<Rightarrow> AccessKeyView \<Rightarrow> Protocol \<Rightarrow> string list" where
  "protocol_models snapshot accessKey selectedProtocol =
     (let filters = akv_Filters accessKey in
      if fl_Protocols filters \<noteq> [] \<and> selectedProtocol \<notin> set (fl_Protocols filters) then []
      else concat (map (\<lambda>(oper, byModel).
             map fst (filter (\<lambda>(modelID, targets). modelID \<noteq> NoModelRouteKey
               \<and> (fl_Models filters = [] \<or> modelID \<in> set (fl_Models filters))
               \<and> anyVisibleTarget targets (fl_Groups filters)) byModel))
             (lookup_or [] (cs_ExecutionCandidates snapshot) selectedProtocol)))"

definition visible_models :: "ConfigSnapshot option \<Rightarrow> AccessKeyView \<Rightarrow> Protocol \<Rightarrow> string list" where
  "visible_models snapshot accessKey value =
     (case snapshot of
        None \<Rightarrow> []
      | Some s \<Rightarrow> sort (remdups (concat (map (protocol_models s accessKey) (modelListProtocols value)))))"

section \<open>The body\<close>

definition quoted :: "string \<Rightarrow> string" where
  "quoted s = [CHR 0x22] @ s @ [CHR 0x22]"

text \<open>A member of a JSON object whose value is encoded already.\<close>

definition member :: "string \<Rightarrow> string \<Rightarrow> string" where
  "member name value = quoted name @ '':'' @ value"

definition json_object :: "string list \<Rightarrow> string" where
  "json_object members = ''{'' @ Join '','' members @ ''}''"

definition json_array :: "string list \<Rightarrow> string" where
  "json_array items = ''['' @ Join '','' items @ '']''"

definition marshalModelListItem :: "(string \<Rightarrow> string) \<Rightarrow> Protocol \<Rightarrow> string \<Rightarrow> string" where
  "marshalModelListItem quote value i =
     (if value = Anthropic then
        json_object [member ''type'' (quoted ''model''), member ''id'' (quote i), member ''display_name'' (quote i),
          member ''created_at'' (quoted ''2025-01-01T00:00:00Z'')]
      else if value = Gemini then json_object [member ''name'' (quote (''models/'' @ i))]
      else json_object [member ''id'' (quote i), member ''object'' (quoted ''model''), member ''created'' ''1735689600'',
          member ''owned_by'' (quoted ''gpt-load'')])"

definition marshalModelList :: "(string \<Rightarrow> string) \<Rightarrow> Protocol \<Rightarrow> string list \<Rightarrow> string" where
  "marshalModelList quote value ids =
     (let items = map (marshalModelListItem quote value) ids in
      if value = Anthropic then
        json_object [member ''data'' (json_array items), member ''has_more'' ''false'',
          member ''first_id'' (quote (if ids = [] then [] else hd ids)),
          member ''last_id'' (quote (if ids = [] then [] else last ids))]
      else if value = Gemini then json_object [member ''models'' (json_array items)]
      else json_object [member ''object'' (quoted ''list''), member ''data'' (json_array items)])"

text \<open>The check of the limit while the items are counted; the first one needs no comma.\<close>

fun within_limit :: "(string \<Rightarrow> string) \<Rightarrow> Protocol \<Rightarrow> int \<Rightarrow> int \<Rightarrow> bool \<Rightarrow> string list \<Rightarrow> bool" where
  "within_limit quote value limit lower first [] = True"
| "within_limit quote value limit lower first (i # ids) =
     (let required = int (length (marshalModelListItem quote value i)) + (if first then 0 else 1)
      in if limit - lower < required then False
         else within_limit quote value limit (lower + required) False ids)"

definition collectVisibleModelIDs ::
  "(string \<Rightarrow> string) \<Rightarrow> ConfigSnapshot option \<Rightarrow> AccessKeyView \<Rightarrow> Protocol \<Rightarrow> int \<Rightarrow> string list option" where
  "collectVisibleModelIDs quote snapshot accessKey value limit =
     (let lower = int (length (marshalModelList quote value [])) in
      if limit < lower then None
      else
        let result = visible_models snapshot accessKey value in
        if within_limit quote value limit lower True result then Some result else None)"

definition visibleModelIDs :: "(string \<Rightarrow> string) \<Rightarrow> ConfigSnapshot option \<Rightarrow> AccessKeyView \<Rightarrow> Protocol \<Rightarrow> string list" where
  "visibleModelIDs quote snapshot accessKey value =
     (case collectVisibleModelIDs quote snapshot accessKey value MaxInt64 of None \<Rightarrow> [] | Some ids \<Rightarrow> ids)"

text \<open>\<open>None\<close> is \<open>errModelListTooLarge\<close>.\<close>

definition buildVisibleModelList ::
  "(string \<Rightarrow> string) \<Rightarrow> ConfigSnapshot option \<Rightarrow> AccessKeyView \<Rightarrow> Protocol \<Rightarrow> int \<Rightarrow> string option" where
  "buildVisibleModelList quote snapshot accessKey value limit =
     (if limit < 0 then None
      else case collectVisibleModelIDs quote snapshot accessKey value limit of
        None \<Rightarrow> None
      | Some ids \<Rightarrow>
          let body = marshalModelList quote value ids
          in if limit < int (length body) then None else Some body)"

section \<open>The candidates are maps\<close>

definition map_all :: "('v \<Rightarrow> bool) \<Rightarrow> ('k, 'v) gomap \<Rightarrow> bool" where
  "map_all P m \<longleftrightarrow> wf_map m \<and> (\<forall>(k, v) \<in> set m. P v)"

definition index_wf :: "ExecutionCandidateIndex \<Rightarrow> bool" where
  "index_wf = map_all (map_all wf_map)"

lemma map_all_Nil [simp]: "map_all P []"
  by (simp add: map_all_def)

lemma map_all_update:
  assumes "map_all P m" and "P v"
  shows "map_all P (AList.update k v m)"
proof -
  have "set (AList.update k v m) \<subseteq> insert (k, v) (set m)" by (induction m) auto
  with assms show ?thesis by (auto simp: map_all_def)
qed

lemma lookup_or_in: "lookup_or [] m k \<noteq> [] \<Longrightarrow> (k, lookup_or [] m k) \<in> set m"
  by (auto simp: lookup_or_def split: option.splits dest: map_of_SomeD)

lemma map_all_lookup: "map_all P m \<Longrightarrow> P [] \<Longrightarrow> P (lookup_or [] m k)"
  by (cases "lookup_or [] m k = []") (auto simp: map_all_def dest: lookup_or_in)

lemma index_wf_append:
  assumes "index_wf index"
  shows "index_wf (appendExecutionTarget p oper m t index)"
proof -
  have o: "map_all wf_map (lookup_or [] index p)" by (rule map_all_lookup) (use assms in \<open>simp_all add: index_wf_def\<close>)
  have m: "wf_map (lookup_or [] (lookup_or [] index p) oper)" by (rule map_all_lookup [OF o]) simp
  show ?thesis unfolding appendExecutionTarget_def Let_def index_wf_def
    by (intro map_all_update wf_map_update assms [unfolded index_wf_def] o m)
qed

lemma map_all_map:
  assumes "map_all P m" and "\<And>v. P v \<Longrightarrow> Q (f v)"
  shows "map_all Q (map (\<lambda>(k, v). (k, f v)) m)"
  using assms by (auto simp: map_all_def comp_def case_prod_unfold)

lemma index_wf_sort:
  assumes "index_wf index"
  shows "index_wf (sortExecutionRouteIndex index)"
proof -
  have "wf_map (map (\<lambda>(k, v). (k, f v)) m)" if "wf_map m" for f and m :: "('k \<times> 'v) list"
    using that by (simp add: comp_def case_prod_unfold)
  then show ?thesis using assms unfolding index_wf_def sortExecutionRouteIndex_def
    by (intro map_all_map [of "map_all wf_map"] map_all_map [of wf_map])
qed

lemma index_wf_models:
  assumes "fold_result (append_model g target p oper) ms index = Inr index'" and "index_wf index"
  shows "index_wf index'"
  by (rule fold_result_inv [where P = index_wf, OF assms])
    (auto simp: append_model_def index_wf_append split: option.splits)

lemma index_wf_operation:
  assumes "append_operation g target p oper index = Inr index'" and "index_wf index"
  shows "index_wf index'"
proof -
  have "index_wf (appendExecutionTarget p oper m t index)" for m t by (rule index_wf_append [OF assms(2)])
  with assms index_wf_models [of g target p oper "gc_Models g" _ index'] show ?thesis
    by (auto simp: append_operation_def Let_def split: if_splits option.splits)
qed

lemma index_wf_targets:
  assumes "appendExecutionTargets json registry g index = Inr index'" and "index_wf index"
  shows "index_wf index'"
proof (cases "index' = index")
  case False
  with assms(1) obtain target ps where
    f: "fold_result (\<lambda>p. fold_result (append_operation g target p) (Operations target p)) ps index = Inr index'"
    by (simp add: appendExecutionTargets_def split: sum.splits option.splits if_splits)
  show ?thesis
  proof (rule fold_result_inv [where P = index_wf, OF f assms(2)])
    fix p u v assume "index_wf u" "fold_result (append_operation g target p) (Operations target p) u = Inr v"
    from this(2,1) show "index_wf v" by (rule fold_result_inv [where P = index_wf]) (rule index_wf_operation)
  qed
qed (use assms(2) in simp)

lemma compile_index_wf:
  assumes "Compile pl lib json input = Inr s"
  shows "index_wf (cs_ExecutionCandidates s)"
proof -
  from assms obtain rs proxy u where
    u: "fold_result (compile_group pl lib json input rs) (ci_Groups input) (empty_snapshot rs proxy) = Inr u"
    and s: "cs_ExecutionCandidates s = sortExecutionRouteIndex (cs_ExecutionCandidates (fold compile_key (ci_AccessKeys input) u))"
    unfolding Compile_def Let_def by (cases "validateCompileInput json input") auto
  have step: "index_wf (cs_ExecutionCandidates t)"
    if "compile_group pl lib json input rs g v = Inr t" "index_wf (cs_ExecutionCandidates v)" for g v t
    using that index_wf_targets
    by (cases "gc_Enabled g") (clarsimp simp: compile_group_def compile_enabled_def Let_def)+
  have "index_wf (cs_ExecutionCandidates u)"
    by (rule fold_result_inv [OF u]) (use step in \<open>auto simp: empty_snapshot_def index_wf_def\<close>)
  then show ?thesis by (simp add: s compile_keys_frame index_wf_sort)
qed

section \<open>Which models are listed\<close>

definition key_sees :: "ConfigSnapshot \<Rightarrow> AccessKeyView \<Rightarrow> Protocol \<Rightarrow> string \<Rightarrow> bool" where
  "key_sees s accessKey p m \<longleftrightarrow>
     (fl_Protocols (akv_Filters accessKey) = [] \<or> p \<in> set (fl_Protocols (akv_Filters accessKey)))
     \<and> (fl_Models (akv_Filters accessKey) = [] \<or> m \<in> set (fl_Models (akv_Filters accessKey)))
     \<and> (\<exists>oper. \<exists>t \<in> set (cell (cs_ExecutionCandidates s) p oper m).
          fl_Groups (akv_Filters accessKey) = [] \<or> tg_GroupID t \<in> set (fl_Groups (akv_Filters accessKey)))"

lemma anyVisibleTarget_iff: "anyVisibleTarget targets groups \<longleftrightarrow> (\<exists>t \<in> set targets. groups = [] \<or> tg_GroupID t \<in> set groups)"
  by (cases targets) (auto simp: anyVisibleTarget_def list_ex_iff)

lemma protocol_models_iff:
  assumes "index_wf (cs_ExecutionCandidates s)"
  shows "m \<in> set (protocol_models s accessKey p) \<longleftrightarrow> m \<noteq> NoModelRouteKey \<and> key_sees s accessKey p m"
proof -
  define ops where "ops = lookup_or [] (cs_ExecutionCandidates s) p"
  have "map_all wf_map ops" unfolding ops_def by (rule map_all_lookup) (use assms in \<open>simp_all add: index_wf_def\<close>)
  then have w: "wf_map ops" "\<And>oper byModel. (oper, byModel) \<in> set ops \<Longrightarrow> wf_map byModel"
    by (auto simp: map_all_def)
  have c: "cell (cs_ExecutionCandidates s) p oper m = lookup_or [] (lookup_or [] ops oper) m" for oper
    by (simp add: cell_def ops_def)
  have e: "(\<exists>(oper, byModel) \<in> set ops. \<exists>targets. (m, targets) \<in> set byModel \<and> anyVisibleTarget targets groups) \<longleftrightarrow>
      (\<exists>oper. anyVisibleTarget (cell (cs_ExecutionCandidates s) p oper m) groups)" for groups
  proof
    assume "\<exists>(oper, byModel) \<in> set ops. \<exists>targets. (m, targets) \<in> set byModel \<and> anyVisibleTarget targets groups"
    then obtain oper byModel targets where t: "(oper, byModel) \<in> set ops" "(m, targets) \<in> set byModel" "anyVisibleTarget targets groups"
      by auto
    have "map_of ops oper = Some byModel" "map_of byModel m = Some targets"
      using wf_map_member [OF w(1)] wf_map_member [OF w(2) [OF t(1)]] t(1,2) by blast+
    then have "cell (cs_ExecutionCandidates s) p oper m = targets" by (simp add: c lookup_or_def)
    with t(3) show "\<exists>oper. anyVisibleTarget (cell (cs_ExecutionCandidates s) p oper m) groups" by blast
  next
    assume "\<exists>oper. anyVisibleTarget (cell (cs_ExecutionCandidates s) p oper m) groups"
    then obtain oper where v: "anyVisibleTarget (lookup_or [] (lookup_or [] ops oper) m) groups" using c by auto
    let ?targets = "lookup_or [] (lookup_or [] ops oper) m"
    have "?targets \<noteq> []" using v by (auto simp: anyVisibleTarget_def)
    then have t: "(m, ?targets) \<in> set (lookup_or [] ops oper)" by (rule lookup_or_in)
    then have "lookup_or [] ops oper \<noteq> []" by (metis list.set(1) empty_iff)
    then have "(oper, lookup_or [] ops oper) \<in> set ops" by (rule lookup_or_in)
    note this t
    with v show "\<exists>(oper, byModel) \<in> set ops. \<exists>targets. (m, targets) \<in> set byModel \<and> anyVisibleTarget targets groups" by blast
  qed
  let ?A = "\<lambda>i. fl_Models (akv_Filters accessKey) = [] \<or> i \<in> set (fl_Models (akv_Filters accessKey))"
  let ?B = "\<lambda>targets. anyVisibleTarget targets (fl_Groups (akv_Filters accessKey))"
  define F where "F byModel = map fst (filter (\<lambda>(i, targets). i \<noteq> NoModelRouteKey \<and> ?A i \<and> ?B targets) byModel)"
    for byModel :: model_routes
  have F: "m \<in> set (F byModel) \<longleftrightarrow> m \<noteq> NoModelRouteKey \<and> ?A m \<and> (\<exists>targets. (m, targets) \<in> set byModel \<and> ?B targets)" for byModel
    unfolding F_def by force
  have "protocol_models s accessKey p =
      (if fl_Protocols (akv_Filters accessKey) \<noteq> [] \<and> p \<notin> set (fl_Protocols (akv_Filters accessKey)) then []
       else concat (map (\<lambda>(oper, byModel). F byModel) ops))"
    by (simp add: protocol_models_def Let_def ops_def F_def)
  then have "m \<in> set (protocol_models s accessKey p) \<longleftrightarrow>
      (fl_Protocols (akv_Filters accessKey) = [] \<or> p \<in> set (fl_Protocols (akv_Filters accessKey)))
      \<and> (\<exists>(oper, byModel) \<in> set ops. m \<in> set (F byModel))" by auto
  then have "m \<in> set (protocol_models s accessKey p) \<longleftrightarrow> m \<noteq> NoModelRouteKey
      \<and> (fl_Protocols (akv_Filters accessKey) = [] \<or> p \<in> set (fl_Protocols (akv_Filters accessKey)))
      \<and> (fl_Models (akv_Filters accessKey) = [] \<or> m \<in> set (fl_Models (akv_Filters accessKey)))
      \<and> (\<exists>(oper, byModel) \<in> set ops. \<exists>targets. (m, targets) \<in> set byModel \<and> anyVisibleTarget targets (fl_Groups (akv_Filters accessKey)))"
    unfolding F by blast
  then show ?thesis unfolding e by (simp add: key_sees_def anyVisibleTarget_iff)
qed

lemma visible_models_iff:
  assumes "index_wf (cs_ExecutionCandidates s)"
  shows "m \<in> set (visible_models (Some s) accessKey value) \<longleftrightarrow>
    m \<noteq> NoModelRouteKey \<and> (\<exists>p \<in> set (modelListProtocols value). key_sees s accessKey p m)"
  using protocol_models_iff [OF assms] by (auto simp: visible_models_def)

lemma visible_models_sorted: "sorted (visible_models snapshot accessKey value) \<and> distinct (visible_models snapshot accessKey value)"
  by (simp add: visible_models_def split: option.split)

section \<open>The limit\<close>

lemma within_limit_iff:
  assumes "lower \<le> limit"
  shows "within_limit quote proto limit lower first ids \<longleftrightarrow>
    lower + (\<Sum>i \<leftarrow> ids. int (length (marshalModelListItem quote proto i)) + 1) - (if first \<and> ids \<noteq> [] then 1 else 0) \<le> limit"
  using assms
proof (induction quote proto limit lower first ids rule: within_limit.induct)
  case (2 quote proto limit lower first i ids)
  have pos: "0 \<le> (\<Sum>i \<leftarrow> ids. int (length (marshalModelListItem quote proto i)) + 1)"
    by (rule sum_list_nonneg) auto
  show ?case
  proof (cases "limit - lower < int (length (marshalModelListItem quote proto i)) + (if first then 0 else 1)")
    case True
    then show ?thesis using pos by (auto simp: Let_def)
  next
    case False
    then show ?thesis using "2.IH" [OF refl False] by (auto simp: Let_def algebra_simps split: if_splits)
  qed
qed simp

lemma length_Join: "length (Join '','' ps) + (if ps = [] then 0 else 1) = (\<Sum>p \<leftarrow> ps. length p + 1)"
  by (induction "'',''" ps rule: Join.induct) auto

text \<open>The bound that was counted is a lower bound of the body, and exact but for the ends of an Anthropic list.\<close>

lemma length_marshalModelList:
  assumes "\<And>i. length (quote []) \<le> length (quote i)"
  shows "int (length (marshalModelList quote proto [])) + (\<Sum>i \<leftarrow> ids. int (length (marshalModelListItem quote proto i)) + 1)
    - (if ids \<noteq> [] then 1 else 0) \<le> int (length (marshalModelList quote proto ids))"
proof -
  let ?items = "map (marshalModelListItem quote proto) ids"
  have sums: "int (\<Sum>i \<leftarrow> is. Suc (length (f i))) = (\<Sum>i \<leftarrow> is. int (length (f i)) + 1)" for f :: "string \<Rightarrow> string" and "is"
    by (induction "is") simp_all
  have a: "int (length (json_array ?items)) = int (length (json_array []))
      + (\<Sum>i \<leftarrow> ids. int (length (marshalModelListItem quote proto i)) + 1) - (if ids \<noteq> [] then 1 else 0)"
    using arg_cong [OF length_Join [of ?items], of int]
    by (cases "ids = []") (simp_all add: json_array_def comp_def sums)
  show ?thesis
    using a assms [of "hd ids"] assms [of "last ids"]
    by (cases "ids = []"; cases "proto = Anthropic"; cases "proto = Gemini")
      (auto simp: marshalModelList_def Let_def json_object_def member_def quoted_def)
qed

text \<open>Counting first never changes the answer.\<close>

lemma buildVisibleModelList_reference:
  assumes "\<And>i. length (quote []) \<le> length (quote i)"
  shows "buildVisibleModelList quote snapshot accessKey proto limit =
    (let body = marshalModelList quote proto (visible_models snapshot accessKey proto)
     in if limit < int (length body) then None else Some body)"
proof -
  let ?ids = "visible_models snapshot accessKey proto"
  define lower where "lower = int (length (marshalModelList quote proto []))"
  define total where "total = int (length (marshalModelList quote proto ?ids))"
  have b: "lower + (\<Sum>i \<leftarrow> ?ids. int (length (marshalModelListItem quote proto i)) + 1) - (if ?ids \<noteq> [] then 1 else 0) \<le> total"
    using length_marshalModelList [where quote = quote and proto = proto and ids = ?ids, OF assms] by (simp add: lower_def total_def)
  have "0 \<le> (\<Sum>i \<leftarrow> ids. int (length (marshalModelListItem quote proto i)) + 1) - (if ids \<noteq> [] then 1 else 0)" for ids
    by (cases ids) (auto intro!: sum_list_nonneg add_nonneg_nonneg)
  with b have l: "lower \<le> total" by (smt (verit))
  show ?thesis
  proof (cases "limit < total")
    case True
    then show ?thesis
      by (auto simp: buildVisibleModelList_def collectVisibleModelIDs_def Let_def total_def)
  next
    case False
    then have "lower \<le> limit" "0 \<le> limit" using l by (simp_all add: total_def)
    moreover have "within_limit quote proto limit lower True ?ids"
      using b False within_limit_iff [OF \<open>lower \<le> limit\<close>, of quote proto True ?ids] by simp
    ultimately show ?thesis using False
      by (simp add: buildVisibleModelList_def collectVisibleModelIDs_def Let_def total_def lower_def)
  qed
qed

end
