(* ===== verification/Content_Coding.thy ===== *)
theory Content_Coding
  imports Go_Strings "HOL-Library.Multiset"
begin

text \<open>
  Content coding of requests (\<open>src/internal/platform/contentcoding\<close>): the parser of
  \<open>Content-Encoding\<close>, the check that the client accepts the identity coding, and decoding under a
  size limit. The decompressors are functions that give the reader of an encoded body.
\<close>

section \<open>Encodings\<close>

datatype Encoding = Identity | Gzip | Brotli | Deflate | Zstd

datatype ContentCodingError = ErrUnsupportedContentEncoding | ErrInvalidContentEncoding | ErrDecodedBodyTooLarge | ErrNegativeLimit

definition ParseContentEncoding :: "string list \<Rightarrow> ContentCodingError + Encoding" where
  "ParseContentEncoding values =
     (case values of
        [] \<Rightarrow> Inr Identity
      | [v] \<Rightarrow>
          (let value = ToLower (TrimSpace v) in
           if value = [] \<or> value = ''identity'' then Inr Identity
           else if ContainsSub value '','' then Inl ErrUnsupportedContentEncoding
           else if value = ''gzip'' then Inr Gzip
           else if value = ''br'' then Inr Brotli
           else if value = ''deflate'' then Inr Deflate
           else if value = ''zstd'' then Inr Zstd
           else Inl ErrUnsupportedContentEncoding)
      | _ \<Rightarrow> Inl ErrUnsupportedContentEncoding)"

section \<open>Acceptable codings\<close>

text \<open>A quality in thousandths, and the flag that is false for a malformed one.\<close>

definition parseQvalue :: "string \<Rightarrow> int \<times> bool" where
  "parseQvalue value =
     (if value = ''0'' then (0, True)
      else if value = ''1'' then (1000, True)
      else if length value < 2 \<or> value ! 1 \<noteq> CHR ''.'' then (0, False)
      else
        let fraction = drop 2 value in
        if 3 < length fraction then (0, False)
        else if \<not> list_all is_digit fraction then (0, False)
        else
          let quality = int (decimal_value fraction) * 10 ^ (3 - length fraction) in
          if value ! 0 = CHR ''0'' then (quality, True)
          else if value ! 0 = CHR ''1'' then (1000, quality = 0)
          else (0, False))"

definition parseAcceptEncodingItem :: "string \<Rightarrow> (string \<times> int) option" where
  "parseAcceptEncodingItem raw =
     (let parts = Split (CHR '';'') raw;
          token = ToLower (TrimSpace (hd parts))
      in if token = [] then None
         else if length parts = 1 then Some (token, 1000)
         else if length parts \<noteq> 2 then None
         else case Cut (CHR ''='') (parts ! 1) of
           (name, value, found) \<Rightarrow>
             if \<not> found \<or> \<not> EqualFold (TrimSpace name) ''q'' then None
             else case parseQvalue (TrimSpace value) of
               (quality, True) \<Rightarrow> Some (token, quality)
             | (_, False) \<Rightarrow> None)"

text \<open>The best quality of a token so far; \<open>None\<close> as long as it was not found.\<close>

record acceptState =
  ac_explicit :: "int option"
  ac_wildcard :: "int option"

definition best :: "int option \<Rightarrow> int \<Rightarrow> int option" where
  "best current quality = Some (max (case current of None \<Rightarrow> -1 | Some q \<Rightarrow> q) quality)"

definition accept_item :: "string \<Rightarrow> acceptState \<Rightarrow> acceptState" where
  "accept_item rawItem st =
     (case parseAcceptEncodingItem rawItem of
        None \<Rightarrow> st
      | Some (token, quality) \<Rightarrow>
          if token = ''identity'' then st\<lparr>ac_explicit := best (ac_explicit st) quality\<rparr>
          else if token = ''*'' then st\<lparr>ac_wildcard := best (ac_wildcard st) quality\<rparr>
          else st)"

definition IdentityAcceptable :: "string list \<Rightarrow> bool" where
  "IdentityAcceptable values =
     (let st = fold accept_item (concat (map (Split (CHR '','')) values)) \<lparr>ac_explicit = None, ac_wildcard = None\<rparr>
      in case ac_explicit st of
           Some q \<Rightarrow> 0 < q
         | None \<Rightarrow> (case ac_wildcard st of Some q \<Rightarrow> 0 < q | None \<Rightarrow> True))"

section \<open>Decoding under a limit\<close>

text \<open>
  A reader gives its bytes up to the end or to an error. After the end, closing it may fail, and
  some of its source may be left.
\<close>

record reader =
  rd_bytes :: string
  rd_failed :: bool
  rd_closeFailed :: bool
  rd_sourceLeft :: nat

record decoders =
  dec_gzip :: "string \<Rightarrow> reader option"
  dec_brotli :: "string \<Rightarrow> reader"
  dec_zlib :: "string \<Rightarrow> reader option"
  dec_zstd :: "int \<Rightarrow> string \<Rightarrow> reader option"

datatype read_error = ReadFailed | ReadTooLarge | ReadNegativeLimit

text \<open>
  \<open>readAtMost\<close>: the limit reader ends after \<open>limit + 1\<close> bytes, so an error beyond them is not seen.
\<close>

definition readAtMost :: "reader \<Rightarrow> int \<Rightarrow> read_error + string" where
  "readAtMost reader limit =
     (if limit < 0 then Inl ReadNegativeLimit
      else if limit < MaxInt64 \<and> limit < int (length (rd_bytes reader)) then Inl ReadTooLarge
      else if rd_failed reader then Inl ReadFailed
      else if limit < int (length (rd_bytes reader)) then Inl ReadTooLarge
      else Inr (rd_bytes reader))"

definition readDecoded :: "reader \<Rightarrow> int \<Rightarrow> ContentCodingError + string" where
  "readDecoded reader limit =
     (case readAtMost reader limit of
        Inr body \<Rightarrow> Inr body
      | Inl ReadTooLarge \<Rightarrow> Inl ErrDecodedBodyTooLarge
      | Inl _ \<Rightarrow> Inl ErrInvalidContentEncoding)"

definition decodeGzip :: "decoders \<Rightarrow> string \<Rightarrow> int \<Rightarrow> ContentCodingError + string" where
  "decodeGzip dec encoded limit =
     (case dec_gzip dec encoded of
        None \<Rightarrow> Inl ErrInvalidContentEncoding
      | Some reader \<Rightarrow>
          (case readDecoded reader limit of
             Inl e \<Rightarrow> Inl e
           | Inr body \<Rightarrow> if rd_closeFailed reader then Inl ErrInvalidContentEncoding else Inr body))"

definition decodeDeflate :: "decoders \<Rightarrow> string \<Rightarrow> int \<Rightarrow> ContentCodingError + string" where
  "decodeDeflate dec encoded limit =
     (case dec_zlib dec encoded of
        None \<Rightarrow> Inl ErrInvalidContentEncoding
      | Some reader \<Rightarrow>
          (case readDecoded reader limit of
             Inl e \<Rightarrow> Inl e
           | Inr body \<Rightarrow>
               if rd_closeFailed reader then Inl ErrInvalidContentEncoding
               else if rd_sourceLeft reader \<noteq> 0 then Inl ErrInvalidContentEncoding
               else Inr body))"

definition ZstdHTTPMaxWindowBytes :: int where
  "ZstdHTTPMaxWindowBytes = 8 * 2 ^ 20"

definition decodeZstd :: "decoders \<Rightarrow> string \<Rightarrow> int \<Rightarrow> ContentCodingError + string" where
  "decodeZstd dec encoded limit =
     (case dec_zstd dec (max limit ZstdHTTPMaxWindowBytes) encoded of
        None \<Rightarrow> Inl ErrInvalidContentEncoding
      | Some reader \<Rightarrow> readDecoded reader limit)"

definition DecodeLimited :: "decoders \<Rightarrow> Encoding \<Rightarrow> string \<Rightarrow> int \<Rightarrow> ContentCodingError + string" where
  "DecodeLimited dec encoding encoded limit =
     (if limit < 0 then Inl ErrNegativeLimit
      else case encoding of
        Identity \<Rightarrow>
          (case readAtMost \<lparr>rd_bytes = encoded, rd_failed = False, rd_closeFailed = False, rd_sourceLeft = 0\<rparr> limit of
             Inr body \<Rightarrow> Inr body
           | Inl _ \<Rightarrow> Inl ErrDecodedBodyTooLarge)
      | Gzip \<Rightarrow> if encoded = [] then Inl ErrInvalidContentEncoding else decodeGzip dec encoded limit
      | Brotli \<Rightarrow> if encoded = [] then Inl ErrInvalidContentEncoding else readDecoded (dec_brotli dec encoded) limit
      | Deflate \<Rightarrow> if encoded = [] then Inl ErrInvalidContentEncoding else decodeDeflate dec encoded limit
      | Zstd \<Rightarrow> if encoded = [] then Inl ErrInvalidContentEncoding else decodeZstd dec encoded limit)"

section \<open>Lemmas\<close>

text \<open>A decoded body never exceeds its limit.\<close>

lemma readAtMost_bound: "readAtMost reader limit = Inr body \<Longrightarrow> int (length body) \<le> limit \<and> body = rd_bytes reader"
  by (auto simp: readAtMost_def split: if_splits)

lemma readDecoded_bound: "readDecoded reader limit = Inr body \<Longrightarrow> int (length body) \<le> limit"
  using readAtMost_bound by (auto simp: readDecoded_def split: sum.splits read_error.splits)

lemma DecodeLimited_bound:
  assumes "DecodeLimited dec encoding encoded limit = Inr body"
  shows "int (length body) \<le> limit \<and> (encoding = Identity \<longrightarrow> body = encoded) \<and> (encoding \<noteq> Identity \<longrightarrow> encoded \<noteq> [])"
  using assms readAtMost_bound readDecoded_bound
  by (cases encoding)
    (fastforce simp: DecodeLimited_def decodeGzip_def decodeDeflate_def decodeZstd_def split: if_splits sum.splits option.splits)+

text \<open>
  The qualities are combined by their maximum, so the answer does not depend on the order in which
  the header values are read.
\<close>

lemma best_commute: "best (best c p) q = best (best c q) p"
  by (simp add: best_def max.assoc max.commute max.left_commute split: option.split)

lemma accept_item_commute: "accept_item x (accept_item y st) = accept_item y (accept_item x st)"
  by (cases st) (auto simp: accept_item_def best_commute split: option.splits)

lemma IdentityAcceptable_order:
  assumes "mset values = mset values'"
  shows "IdentityAcceptable values = IdentityAcceptable values'"
proof -
  have "mset (concat (map (Split (CHR '','')) vs)) = (\<Sum>v \<in># mset vs. mset (Split (CHR '','') v))" for vs
    by (induction vs) simp_all
  then have "mset (concat (map (Split (CHR '','')) values)) = mset (concat (map (Split (CHR '','')) values'))"
    using assms by simp
  moreover have "accept_item x \<circ> accept_item y = accept_item y \<circ> accept_item x" for x y
    by (simp add: fun_eq_iff accept_item_commute)
  ultimately have "fold accept_item (concat (map (Split (CHR '','')) values)) = fold accept_item (concat (map (Split (CHR '','')) values'))"
    by (intro fold_multiset_equiv)
  then show ?thesis by (simp add: IdentityAcceptable_def)
qed

end
