(* ===== verification/Gateway_Handler.thy ===== *)
theory Gateway_Handler
  imports Gateway_Properties Gateway_Models Content_Coding Rate_Limit
begin

text \<open>
  The life of one authenticated request (\<open>Handler.Handle\<close> in \<open>src/internal/gateway/handler.go\<close>, with
  \<open>affinity.go\<close> and \<open>src/internal/platform/httpheader/request_representation.go\<close>): cost limits, rate
  limit, model list, decoding, inspection by the dialect, capture of the credentials, affinity, the
  attempt loop, and the deferred completion of the cost ticket and the request log.

  The dialects, which read the body of a request, are functions. What the request observes of its
  surroundings is an argument, and other requests may change the shared state between its steps.
\<close>

section \<open>Parts of a request\<close>

record HandlerState =
  hs_world :: World
  hs_limiter :: AccessKeyRPM

record ParsedRequest =
  pr_Method :: string
  pr_Path :: string
  pr_RawQuery :: string
  pr_Header :: Header
  pr_Body :: string

record RequestMetadata =
  md_Model :: "string option"
  md_Stream :: bool
  md_AffinityPrefix :: string
  md_Operation :: Operation
  md_RouteRequirement :: RouteRequirement
  md_ResponsesStorePreference :: ResponsesStorePreference
  md_ObserveUsage :: bool
  md_PricingMode :: Mode
  md_UsageDiagnostics :: Diagnostics
  md_Reasoning :: ReasoningConfig

record HandlerConfig =
  hc_services :: Services
  hc_dialects :: "(Protocol, ParsedRequest \<Rightarrow> RequestMetadata option) gomap"
  hc_decoders :: decoders
  hc_quote :: "string \<Rightarrow> string"
  hc_modelListLimit :: int

text \<open>The body of a request: its declared length, the bytes that arrive, and whether reading fails after them.\<close>

record RequestBody =
  rb_ContentLength :: int
  rb_bytes :: string
  rb_failed :: bool

text \<open>
  What one request observes: its identifier (\<open>None\<close> when none could be made), the instants it reads, its context
  after the body, the inspection and the parsing, the turns of the attempt loop, what its writer says at
  the end, and what others do to the state before its steps.
\<close>

record Surroundings =
  sr_requestID :: "string option"
  sr_snapshotID :: nat
  sr_checkNow :: time
  sr_limitNow :: time
  sr_affinityNow :: time
  sr_emitNow :: time
  sr_body :: "RequestBody option"
  sr_afterBody :: Context
  sr_afterInspect :: Context
  sr_afterParse :: Context
  sr_turns :: "nat \<Rightarrow> Turn"
  sr_write :: WriteOutcome
  sr_written :: bool
  sr_status :: int
  sr_beforeCheck :: "HandlerState \<Rightarrow> HandlerState"
  sr_beforeLimit :: "HandlerState \<Rightarrow> HandlerState"
  sr_beforeCapture :: "HandlerState \<Rightarrow> HandlerState"
  sr_beforeAffinity :: "HandlerState \<Rightarrow> HandlerState"
  sr_beforeAttempts :: "World \<Rightarrow> World"
  sr_beforeComplete :: "World \<Rightarrow> World"

text \<open>What the client gets.\<close>

datatype Answer =
    AnswerReason reason
  | AnswerRateLimited int
  | AnswerQuota QuotaDecision
  | AnswerModels string
  | AnswerAttempts Delivery
  | AnswerNothing

text \<open>The variables of \<open>Handle\<close>; there is a recorder for requests to be forwarded only.\<close>

record Flow =
  fw_state :: HandlerState
  fw_recorder :: "requestRecorder option"
  fw_quota :: requestAccessQuotaAdmission

section \<open>Helpers\<close>

definition reasonModelListTooLarge :: reason where
  "reasonModelListTooLarge = \<lparr>re_Status = 500, re_Code = ''model_list_too_large'', re_Message = ''Model list is too large.''\<rparr>"

text \<open>Go rounds towards zero, which differs from \<open>div\<close> only where the result is raised to one.\<close>

definition retryAfterSeconds :: "duration \<Rightarrow> int" where
  "retryAfterSeconds d =
     (let seconds = wrap64 (d + Second - 1) div Second in if seconds < 1 then 1 else if 60 < seconds then 60 else seconds)"

definition headerFieldValues :: "Header \<Rightarrow> string \<Rightarrow> string list" where
  "headerFieldValues headers name = concat (map (\<lambda>(actualName, fieldValues). if EqualFold actualName name then fieldValues else []) headers)"

definition requestRepresentationMetadataNames :: "string list" where
  "requestRepresentationMetadataNames =
     [''Content-Encoding'', ''Content-Length'', ''ETag'', ''Digest'', ''Content-MD5'', ''Content-Range'', ''Content-Digest'',
      ''Repr-Digest'', ''Signature'', ''Signature-Input'']"

definition deleteField :: "string \<Rightarrow> Header \<Rightarrow> Header" where
  "deleteField target headers = filter (\<lambda>(name, _). \<not> EqualFold name target) headers"

definition StripRequestRepresentationMetadata :: "Header \<Rightarrow> Header" where
  "StripRequestRepresentationMetadata headers = fold deleteField requestRepresentationMetadataNames headers"

datatype bodyError = BodyTooLarge | BodyInvalidEncoding | BodyOther

definition readDecodedRequestBody ::
  "decoders \<Rightarrow> RequestBody option \<Rightarrow> Encoding \<Rightarrow> int \<Rightarrow> int \<Rightarrow> bodyError + string" where
  "readDecodedRequestBody dec body encoding encodedLimit decodedLimit =
     (case body of
        None \<Rightarrow> Inl BodyOther
      | Some b \<Rightarrow>
          if encodedLimit < 0 \<or> decodedLimit < 0 then Inl BodyOther
          else if 0 < rb_ContentLength b \<and> encodedLimit < rb_ContentLength b then Inl BodyTooLarge
          else case readAtMost \<lparr>rd_bytes = rb_bytes b, rd_failed = rb_failed b, rd_closeFailed = False, rd_sourceLeft = 0\<rparr> encodedLimit of
            Inl ReadTooLarge \<Rightarrow> Inl BodyTooLarge
          | Inl _ \<Rightarrow> Inl BodyOther
          | Inr encoded \<Rightarrow>
              (case DecodeLimited dec encoding encoded decodedLimit of
                 Inr decoded \<Rightarrow> Inr decoded
               | Inl ErrDecodedBodyTooLarge \<Rightarrow> Inl BodyTooLarge
               | Inl ErrInvalidContentEncoding \<Rightarrow> Inl BodyInvalidEncoding
               | Inl _ \<Rightarrow> Inl BodyOther))"

definition maxRequestBodyBytes :: int where
  "maxRequestBodyBytes = 128 * 2 ^ 20"

definition maxDataPlaneModelBytes :: nat where
  "maxDataPlaneModelBytes = 255"

definition checkAccessQuotaForSnapshot :: "nat \<Rightarrow> nat \<Rightarrow> time \<Rightarrow> World \<Rightarrow> QuotaDecision option" where
  "checkAccessQuotaForSnapshot snapshot accessKeyID now w =
     (if wd_current w \<noteq> snapshot then None else Some (Check accessKeyID now (wd_quota w)))"

definition no_key :: Key where
  "no_key = []"

definition requestAffinity0 :: "Key \<Rightarrow> requestAffinity" where
  "requestAffinity0 key = \<lparr>ra_key = no_key, ra_observation = Observation0, ra_preferredCredentialID = 0, ra_continuityKey = key\<rparr>"

definition resolveRequestAffinity ::
  "Services \<Rightarrow> ConfigSnapshot \<Rightarrow> nat \<Rightarrow> Protocol \<Rightarrow> string \<Rightarrow> (nat, CredentialRef) gomap \<Rightarrow> time \<Rightarrow> World \<Rightarrow> requestAffinity \<times> World" where
  "resolveRequestAffinity sv snapshot accessKeyID clientProtocol prefix allowedCredentialRefs now w =
     (let key = DeriveKey (Some (sv_hash sv)) accessKeyID clientProtocol prefix;
          result = requestAffinity0 key
      in case Configure (cs_Revision snapshot) (rs_AffinityCapacity (cs_Settings snapshot)) (rs_AffinityTTL (cs_Settings snapshot))
                (wd_affinity w) of
           (configured, cache) \<Rightarrow>
             let w1 = w\<lparr>wd_affinity := cache\<rparr> in
             if \<not> configured \<or> \<not> Key_Valid key then (result, w1)
             else (case Cache_Lookup key now cache of
               (observation, cache') \<Rightarrow>
                 let resolved = result\<lparr>ra_key := key, ra_observation := observation\<rparr>;
                     target = ob_Target observation;
                     preferred = Found observation
                       \<and> (case map_of (cs_Groups snapshot) (Target.tg_GroupID target) of None \<Rightarrow> False | Some g \<Rightarrow> gv_AffinityEnabled g)
                       \<and> (case map_of allowedCredentialRefs (tg_CredentialID target) of None \<Rightarrow> False
                          | Some ref \<Rightarrow> cr_GroupID ref = Target.tg_GroupID target \<and> cr_IdentityGeneration ref = tg_IdentityGeneration target)
                 in (if preferred then resolved\<lparr>ra_preferredCredentialID := tg_CredentialID target\<rparr> else resolved,
                     w1\<lparr>wd_affinity := cache'\<rparr>)))"

section \<open>Steps of a request\<close>

text \<open>\<open>completeReason\<close> of the handler, with a recorder or without.\<close>

definition write_terminal :: "WriteOutcome \<Rightarrow> int \<Rightarrow> requestRecorder \<Rightarrow> requestRecorder" where
  "write_terminal wo status rec = (if wo_failed wo then completeWriteTerminal wo status rec else rec)"

definition finish_reason :: "WriteOutcome \<Rightarrow> reason \<Rightarrow> Flow \<Rightarrow> Answer \<times> Flow" where
  "finish_reason wo v fw =
     (AnswerReason v, fw\<lparr>fw_recorder := map_option (\<lambda>rec. write_terminal wo (re_Status v) (completeReason v rec)) (fw_recorder fw)\<rparr>)"

definition finish_canceled :: "Context \<Rightarrow> Flow \<Rightarrow> Answer \<times> Flow" where
  "finish_canceled ctx fw = (AnswerNothing, fw\<lparr>fw_recorder := map_option (completeCanceled (Some ctx) 0 (-1)) (fw_recorder fw)\<rparr>)"

definition start_flow :: "Surroundings \<Rightarrow> dataPlaneRequestContext \<Rightarrow> AccessKeyView \<Rightarrow> HandlerState \<Rightarrow> Flow" where
  "start_flow sr rc accessKey st =
     \<lparr>fw_state = st,
      fw_recorder = (if ro_Kind (rc_selectedRoute rc) = endpointForward
        then Some (newRequestRecorder (case sr_requestID sr of None \<Rightarrow> [] | Some i \<Rightarrow> i) (rc_requestStarted rc) (akv_ID accessKey)
                     (ro_Protocol (rc_selectedRoute rc)))
        else None),
      fw_quota = \<lparr>qa_accessKeyID = akv_ID accessKey,
        qa_snapshot = (if akv_CostLimitRules accessKey \<noteq> [] then Some (sr_snapshotID sr) else None),
        qa_ticket = \<lparr>ti_AccessKeyID = 0, ti_Rules = []\<rparr>, qa_admitted = False\<rparr>\<rparr>"

text \<open>The cost limits before anything else; \<open>Inl\<close> returns from the request.\<close>

definition check_quota :: "HandlerConfig \<Rightarrow> Surroundings \<Rightarrow> Flow \<Rightarrow> (Answer \<times> Flow) + Flow" where
  "check_quota hc sr fw0 =
     (if \<not> sv_accessQuota (hc_services hc) then Inr fw0
      else
        let fw = fw0\<lparr>fw_state := sr_beforeCheck sr (fw_state fw0)\<rparr>; w = hs_world (fw_state fw); quota = fw_quota fw in
        case (case qa_snapshot quota of
                None \<Rightarrow> Some (Check (qa_accessKeyID quota) (sr_checkNow sr) (wd_quota w))
              | Some snapshot \<Rightarrow> checkAccessQuotaForSnapshot snapshot (qa_accessKeyID quota) (sr_checkNow sr) w) of
          None \<Rightarrow> Inl (finish_reason (sr_write sr) reasonConfigurationChanged fw)
        | Some d \<Rightarrow>
            if \<not> qd_Allowed d
            then Inl (AnswerQuota d, snd (finish_reason (sr_write sr) reasonAccessKeyCostLimitExceeded fw))
            else Inr fw)"

text \<open>The rate limit; \<open>None\<close> is a panic of the limiter.\<close>

definition check_rate :: "Surroundings \<Rightarrow> AccessKeyView \<Rightarrow> Flow \<Rightarrow> ((Answer \<times> Flow) + Flow) option" where
  "check_rate sr accessKey fw0 =
     (let st = sr_beforeLimit sr (fw_state fw0) in
      case Allow (sr_limitNow sr) (akv_ID accessKey) (akv_RPMLimit accessKey) (hs_limiter st) of
        (d, limiter) \<Rightarrow>
          let fw = fw0\<lparr>fw_state := st\<lparr>hs_limiter := limiter\<rparr>\<rparr> in
          map_option (\<lambda>d. if ld_Allowed d then Inr fw
            else Inl (AnswerRateLimited (retryAfterSeconds (ld_RetryAfter d)),
                      snd (finish_reason (sr_write sr) reasonAccessKeyRateLimited fw))) d)"

definition list_models :: "HandlerConfig \<Rightarrow> Surroundings \<Rightarrow> ConfigSnapshot \<Rightarrow> AccessKeyView \<Rightarrow> Request \<Rightarrow> Protocol \<Rightarrow> Flow \<Rightarrow> Answer \<times> Flow" where
  "list_models hc sr snapshot accessKey request proto fw =
     (if \<not> IdentityAcceptable (headerFieldValues (hr_Header request) ''Accept-Encoding'')
      then finish_reason (sr_write sr) reasonNotAcceptable fw
      else case buildVisibleModelList (hc_quote hc) (Some snapshot) accessKey proto (hc_modelListLimit hc) of
        None \<Rightarrow> (AnswerReason reasonModelListTooLarge, fw)
      | Some body \<Rightarrow> (AnswerModels body, fw))"

definition inspect_request ::
  "HandlerConfig \<Rightarrow> Surroundings \<Rightarrow> Request \<Rightarrow> Protocol \<Rightarrow> Flow \<Rightarrow> (Answer \<times> Flow) + (ParsedRequest \<times> RequestMetadata \<times> string)" where
  "inspect_request hc sr request proto fw =
     (let wo = sr_write sr in
      case map_of (hc_dialects hc) proto of
        None \<Rightarrow> Inl (finish_reason wo reasonEndpointNotFound fw)
      | Some inspect \<Rightarrow>
          (case ParseContentEncoding (headerFieldValues (hr_Header request) ''Content-Encoding'') of
             Inl _ \<Rightarrow> Inl (finish_reason wo reasonUnsupportedContentEncoding fw)
           | Inr encoding \<Rightarrow>
               if \<not> IdentityAcceptable (headerFieldValues (hr_Header request) ''Accept-Encoding'')
               then Inl (finish_reason wo reasonNotAcceptable fw)
               else (case readDecodedRequestBody (hc_decoders hc) (sr_body sr) encoding maxRequestBodyBytes maxRequestBodyBytes of
                 Inl e \<Rightarrow>
                   Inl (if cx_Err (sr_afterBody sr) \<noteq> None then finish_canceled (sr_afterBody sr) fw
                        else finish_reason wo (case e of BodyTooLarge \<Rightarrow> reasonRequestTooLarge
                               | BodyInvalidEncoding \<Rightarrow> reasonInvalidContentEncoding
                               | BodyOther \<Rightarrow> reasonInvalidProtocolRequest) fw)
               | Inr body \<Rightarrow>
                   let parsed = \<lparr>pr_Method = hr_Method request, pr_Path = hr_Path request, pr_RawQuery = hr_RawQuery request,
                         pr_Header = StripRequestRepresentationMetadata (hr_Header request), pr_Body = body\<rparr>
                   in (case inspect parsed of
                         None \<Rightarrow>
                           Inl (if cx_Err (sr_afterInspect sr) \<noteq> None then finish_canceled (sr_afterInspect sr) fw
                                else finish_reason wo reasonInvalidProtocolRequest fw)
                       | Some metadata \<Rightarrow>
                           let model = (case md_Model metadata of None \<Rightarrow> [] | Some m \<Rightarrow> m) in
                           if maxDataPlaneModelBytes < length model then Inl (finish_reason wo reasonInvalidProtocolRequest fw)
                           else if cx_Err (sr_afterParse sr) \<noteq> None then Inl (finish_canceled (sr_afterParse sr) fw)
                           else Inr (parsed, metadata, model)))))"

definition record_metadata :: "RequestMetadata \<Rightarrow> string \<Rightarrow> requestRecorder \<Rightarrow> requestRecorder" where
  "record_metadata metadata model rec =
     rec\<lparr>rq_clientModel := model, rq_operation := md_Operation metadata, rq_stream := md_Stream metadata,
         rq_reasoning := md_Reasoning metadata, rq_usageApplicable := md_ObserveUsage metadata,
         rq_requestedPricingMode := md_PricingMode metadata,
         rq_usageDiagnostics := Diagnostics_Merge (rq_usageDiagnostics rec) (md_UsageDiagnostics metadata)\<rparr>"

definition request_query :: "Protocol \<Rightarrow> RequestMetadata \<Rightarrow> AccessKeyView \<Rightarrow> Query" where
  "request_query proto metadata accessKey =
     \<lparr>q_ClientProtocol = proto, q_Operation = md_Operation metadata, q_RouteRequirement = md_RouteRequirement metadata,
      q_ResponsesStorePreference = md_ResponsesStorePreference metadata, q_ExternalModel = md_Model metadata,
      q_AccessKey = accessKey, q_AllowedCredentialIDs = None, q_PreferredCredentialID = 0\<rparr>"

definition allowed_refs :: "CredentialRef list \<Rightarrow> (nat, CredentialRef) gomap" where
  "allowed_refs refs = fold (\<lambda>ref m. AList.update (cr_ID ref) ref m) refs []"

text \<open>
  The capture of the credentials, the affinity and the attempts. The fuel of the loop is the one
  that the theory of its properties shows to be enough.
\<close>

definition attempt_request ::
  "HandlerConfig \<Rightarrow> Surroundings \<Rightarrow> ConfigSnapshot \<Rightarrow> AccessKeyView \<Rightarrow> Protocol \<Rightarrow> ParsedRequest \<Rightarrow> RequestMetadata \<Rightarrow> string
     \<Rightarrow> requestRecorder \<Rightarrow> Flow \<Rightarrow> (Delivery \<times> HandlerState \<times> Loop) option" where
  "attempt_request hc sr snapshot accessKey proto parsed metadata model rec fw =
     (let st1 = sr_beforeCapture sr (fw_state fw);
          query = request_query proto metadata accessKey;
          refs = allowed_refs (CaptureActiveCredentialRefs (CandidateGroupIDsForQuery (Some snapshot) query) (wd_registry (hs_world st1)));
          ids = map fst refs;
          st2 = sr_beforeAffinity sr st1
      in case resolveRequestAffinity (hc_services hc) snapshot (akv_ID accessKey) proto (md_AffinityPrefix metadata) refs
                (sr_affinityNow sr) (hs_world st2) of
           (affinity, w) \<Rightarrow>
             let iterator = newWithClock (Some snapshot) (query\<lparr>q_AllowedCredentialIDs := Some ids,
                   q_PreferredCredentialID := ra_preferredCredentialID affinity\<rparr>);
                 rx = \<lparr>rx_requestID = rq_requestID rec, rx_protocol = proto, rx_method = pr_Method parsed, rx_externalModel = model,
                   rx_stream = md_Stream metadata, rx_observeUsage = md_ObserveUsage metadata, rx_operation = md_Operation metadata,
                   rx_routeRequirement = md_RouteRequirement metadata, rx_affinity = affinity, rx_allowedRefs = refs,
                   rx_write = sr_write sr\<rparr>
             in map_option (\<lambda>(delivery, lp). (delivery, st2\<lparr>hs_world := lp_world lp\<rparr>, lp))
                  (executeAttempts (hc_services hc) rx (sr_turns sr) 0 (Suc (2 * length ids))
                     (start_loop (sr_beforeAttempts sr w) iterator (record_metadata metadata model rec) (fw_quota fw))))"

text \<open>The deferred function: the ticket is completed with the cost of the request, and the request is logged.\<close>

definition finish_request :: "HandlerConfig \<Rightarrow> Surroundings \<Rightarrow> requestRecorder \<Rightarrow> Flow \<Rightarrow> HandlerState \<times> requestRecorder \<times> RequestEvent option" where
  "finish_request hc sr rec0 fw =
     (let rec = completeMissingOutcome (sr_written sr) (sr_status sr) rec0;
          st = fw_state fw;
          w = sr_beforeComplete sr (hs_world st);
          w' = (if qa_admitted (fw_quota fw) \<and> sv_accessQuota (hc_services hc)
                then w\<lparr>wd_quota := snd (Complete (qa_ticket (fw_quota fw)) (estimatedCostNanoUSD rec) (wd_quota w))\<rparr> else w)
      in case emit (sr_emitNow sr) rec of (event, rec') \<Rightarrow> (st\<lparr>hs_world := w'\<rparr>, rec', event))"

definition with_deferred ::
  "HandlerConfig \<Rightarrow> Surroundings \<Rightarrow> Answer \<times> Flow \<Rightarrow> Answer \<times> HandlerState \<times> RequestEvent option" where
  "with_deferred hc sr r =
     (case r of (answer, fw) \<Rightarrow>
        (case fw_recorder fw of
           None \<Rightarrow> (answer, fw_state fw, None)
         | Some rec \<Rightarrow> (case finish_request hc sr rec fw of (st, _, event) \<Rightarrow> (answer, st, event))))"

definition forward_request ::
  "HandlerConfig \<Rightarrow> Surroundings \<Rightarrow> ConfigSnapshot \<Rightarrow> AccessKeyView \<Rightarrow> Request \<Rightarrow> Protocol \<Rightarrow> requestRecorder \<Rightarrow> Flow \<Rightarrow> (Answer \<times> Flow) option" where
  "forward_request hc sr snapshot accessKey request proto rec fw =
     (case inspect_request hc sr request proto fw of
        Inl r \<Rightarrow> Some r
      | Inr (parsed, metadata, model) \<Rightarrow>
          map_option (\<lambda>(delivery, st, lp). (AnswerAttempts delivery,
              fw\<lparr>fw_state := st, fw_recorder := Some (lp_recorder lp), fw_quota := lp_quota lp\<rparr>))
            (attempt_request hc sr snapshot accessKey proto parsed metadata model rec fw))"

text \<open>\<open>Handle\<close>; a request to be forwarded has a recorder. \<open>None\<close> is a panic, or a loop that does not end within its fuel.\<close>

definition Handle ::
  "HandlerConfig \<Rightarrow> Surroundings \<Rightarrow> dataPlaneRequestContext \<Rightarrow> Request \<Rightarrow> HandlerState
     \<Rightarrow> (Answer \<times> HandlerState \<times> RequestEvent option) option" where
  "Handle hc sr rc request st =
     (case (rc_snapshot rc, rc_accessKey rc) of
        (Some snapshot, Some accessKey) \<Rightarrow>
          if \<not> rc_authenticated rc \<or> rc_locallyRejected rc then Some (AnswerReason reasonEndpointNotFound, st, None)
          else (case check_quota hc sr (start_flow sr rc accessKey st) of
            Inl r \<Rightarrow> Some (with_deferred hc sr r)
          | Inr fw1 \<Rightarrow>
              (case check_rate sr accessKey fw1 of
                 None \<Rightarrow> None
               | Some (Inl r) \<Rightarrow> Some (with_deferred hc sr r)
               | Some (Inr fw) \<Rightarrow>
                   map_option (with_deferred hc sr)
                     (case ro_Kind (rc_selectedRoute rc) of
                        endpointModels \<Rightarrow> Some (list_models hc sr snapshot accessKey request (ro_Protocol (rc_selectedRoute rc)) fw)
                      | endpointForward \<Rightarrow>
                          Option.bind (fw_recorder fw) (\<lambda>rec.
                            forward_request hc sr snapshot accessKey request (ro_Protocol (rc_selectedRoute rc)) rec fw))))
      | _ \<Rightarrow> Some (AnswerReason reasonEndpointNotFound, st, None))"

end
