(* ===== verification/Gateway_Theorems.thy ===== *)
theory Gateway_Theorems
  imports Gateway_Handler
begin

text \<open>
  What holds of every request of the data plane, from the capture of its credentials to the
  completion of its cost ticket.
\<close>

section \<open>The iterator of a request\<close>

lemma pool_groups_add: "pool_groups (add_candidate t pool) \<subseteq> insert (ct_group t) (pool_groups pool)"
  by (auto simp: pool_groups_def add_candidate_def Let_def split: if_splits)

lemma iterator_groups_fold: "iterator_groups (fold add_target ts it) \<subseteq> ct_group ` set ts \<union> iterator_groups it"
proof (induction ts arbitrary: it)
  case (Cons t ts)
  have "iterator_groups (add_target t it) \<subseteq> insert (ct_group t) (iterator_groups it)"
    using pool_groups_add [of t "it_regular it"] pool_groups_add [of t "it_storeDowngraded it"]
    by (auto simp: iterator_groups_def add_target_def)
  then show ?case using Cons [of "add_target t it"] by auto
qed simp

text \<open>The groups a request can be sent to are groups of the snapshot.\<close>

lemma newWithClock_groups: "iterator_groups (newWithClock (Some s) q) \<subseteq> ran (map_of (cs_Groups s))"
proof -
  obtain ts staticReason where f: "filterTargetsWithReason (Some s) q = (ts, staticReason)" by fastforce
  have "\<exists>g. map_of (cs_Groups s) g = Some (ct_group t)" if "t \<in> set ts" for t
    using f that by (auto simp: filterTargetsWithReason_def map_filter_def split: sum.splits prod.splits if_splits option.splits) blast
  then have "ct_group ` set ts \<subseteq> ran (map_of (cs_Groups s))" by (auto intro: ranI)
  moreover have "iterator_groups \<lparr>it_regular = newCandidatePool, it_storeDowngraded = newCandidatePool,
           it_allowedCredentialIDs = q_AllowedCredentialIDs q, it_preferredCredentialID = q_PreferredCredentialID q,
           it_tried = {}, it_skippedGroups = {}, it_staticReason = staticReason\<rparr> = {}"
    by (simp add: iterator_groups_def pool_groups_def newCandidatePool_def)
  ultimately show ?thesis using iterator_groups_fold unfolding newWithClock_def f by fastforce
qed

lemma newWithClock_allowed: "it_allowedCredentialIDs (newWithClock (Some s) q) = q_AllowedCredentialIDs q"
proof -
  have "it_allowedCredentialIDs (fold add_target ts it) = it_allowedCredentialIDs it" for ts it
    by (induction ts arbitrary: it) (simp_all add: add_target_def)
  then show ?thesis by (simp add: newWithClock_def split: prod.split)
qed

section \<open>The captured credentials\<close>

lemma allowed_refs_member: "map_of (allowed_refs refs) c = Some r \<Longrightarrow> r \<in> set refs \<and> cr_ID r = c"
proof -
  have "map_of (fold (\<lambda>ref m. AList.update (cr_ID ref) ref m) refs m) c = Some r \<Longrightarrow>
      map_of m c = Some r \<or> r \<in> set refs \<and> cr_ID r = c" for m
  proof (induction refs arbitrary: m)
    case (Cons ref refs)
    have "map_of (AList.update (cr_ID ref) ref m) c = Some r \<or> r \<in> set refs \<and> cr_ID r = c"
      by (rule Cons.IH) (use Cons.prems in simp)
    then show ?case by (auto simp: update_conv' split: if_splits)
  qed simp
  from this [of "[]"] show "map_of (allowed_refs refs) c = Some r \<Longrightarrow> r \<in> set refs \<and> cr_ID r = c"
    by (simp add: allowed_refs_def)
qed

lemma captured_refs:
  assumes "r \<in> set (CaptureActiveCredentialRefs groupIDs reg)"
  obtains g k e where "g \<in> set groupIDs" "(k, e) \<in> set (bucket reg g)" "active_ready e" "r = entry_ref e"
  using assms by (auto simp: CaptureActiveCredentialRefs_def sort_refs_def)

section \<open>The attempts of a request\<close>

lemma record_metadata_ok:
  "rx_observeUsage rx = md_ObserveUsage metadata \<Longrightarrow> rx_requestID rx = i \<Longrightarrow>
     recorder_ok rx (record_metadata metadata model (newRequestRecorder i started k proto))"
  by (simp add: recorder_ok_def record_metadata_def newRequestRecorder_def recorder_inv_def usage_bound_def)

text \<open>
  The loop of a request ends, and keeps the invariant for the groups of the snapshot and the credentials
  captured; everything it forwarded but the last was replayed on purpose.
\<close>

lemma attempt_request_run:
  fixes hc sr snapshot accessKey proto parsed metadata model i started fw
  defines "refs \<equiv> allowed_refs (CaptureActiveCredentialRefs
      (CandidateGroupIDsForQuery (Some snapshot) (request_query proto metadata accessKey))
      (wd_registry (hs_world (sr_beforeCapture sr (fw_state fw)))))"
  obtains delivery st lp rx where
    "attempt_request hc sr snapshot accessKey proto parsed metadata model
       (newRequestRecorder i started (akv_ID accessKey) proto) fw = Some (delivery, st, lp)"
    "attempts_inv (hc_services hc) rx (fw_quota fw) (ran (map_of (cs_Groups snapshot))) lp"
    "\<forall>f \<in> set (butlast (lp_forwards lp)). replayed (hc_services hc) rx f"
    "rx_allowedRefs rx = refs" "rx_requestID rx = i" "rx_operation rx = md_Operation metadata" "st = (sr_beforeAffinity sr (sr_beforeCapture sr (fw_state fw)))\<lparr>hs_world := lp_world lp\<rparr>"
proof -
  let ?st2 = "sr_beforeAffinity sr (sr_beforeCapture sr (fw_state fw))"
  let ?query = "request_query proto metadata accessKey"
  let ?rec = "newRequestRecorder i started (akv_ID accessKey) proto"
  obtain affinity w where a: "resolveRequestAffinity (hc_services hc) snapshot (akv_ID accessKey) proto (md_AffinityPrefix metadata) refs
      (sr_affinityNow sr) (hs_world ?st2) = (affinity, w)" by fastforce
  define it where "it = newWithClock (Some snapshot) (?query\<lparr>q_AllowedCredentialIDs := Some (map fst refs),
      q_PreferredCredentialID := ra_preferredCredentialID affinity\<rparr>)"
  define rx where "rx = \<lparr>rx_requestID = rq_requestID ?rec, rx_protocol = proto, rx_method = pr_Method parsed, rx_externalModel = model,
      rx_stream = md_Stream metadata, rx_observeUsage = md_ObserveUsage metadata, rx_operation = md_Operation metadata,
      rx_routeRequirement = md_RouteRequirement metadata, rx_affinity = affinity, rx_allowedRefs = refs, rx_write = sr_write sr\<rparr>"
  have ok: "recorder_ok rx (record_metadata metadata model ?rec)" by (rule record_metadata_ok) (simp_all add: rx_def newRequestRecorder_def)
  have ids: "it_allowedCredentialIDs it = Some (map fst refs)" by (simp add: it_def newWithClock_allowed)
  from executeAttempts_started [OF ok ids, of "hc_services hc" "sr_turns sr" 0 "sr_beforeAttempts sr w" "fw_quota fw"]
  obtain delivery lp where e: "executeAttempts (hc_services hc) rx (sr_turns sr) 0 (Suc (2 * length (map fst refs)))
      (start_loop (sr_beforeAttempts sr w) it (record_metadata metadata model ?rec) (fw_quota fw)) = Some (delivery, lp)"
    and inv: "attempts_inv (hc_services hc) rx (fw_quota fw) (iterator_groups it) lp"
    and all: "\<forall>f \<in> set (butlast (lp_forwards lp)). replayed (hc_services hc) rx f"
    by blast
  have "attempt_request hc sr snapshot accessKey proto parsed metadata model ?rec fw = Some (delivery, ?st2\<lparr>hs_world := lp_world lp\<rparr>, lp)"
    using a e unfolding attempt_request_def Let_def refs_def [symmetric] by (simp add: it_def rx_def)
  moreover have "attempts_inv (hc_services hc) rx (fw_quota fw) (ran (map_of (cs_Groups snapshot))) lp"
    using inv newWithClock_groups [of snapshot] unfolding it_def by (fastforce simp: attempts_inv_defs split: if_splits)
  ultimately show ?thesis using that all by (simp add: rx_def newRequestRecorder_def)
qed

abbreviation request_recorder :: "string \<Rightarrow> time \<Rightarrow> AccessKeyView \<Rightarrow> Protocol \<Rightarrow> requestRecorder" where
  "request_recorder i started accessKey proto \<equiv> newRequestRecorder i started (akv_ID accessKey) proto"

section \<open>A small gateway\<close>

text \<open>Two healthy credentials of group 3; the first upstream answers 429 unprocessed, the next one 200.\<close>

definition gateway_registry :: CredentialRegistry where
  "gateway_registry = the (run_registry [OpReplace [Registry_Properties.sample_entry, Registry_Properties.sample_entry\<lparr>ce_ID := 8, ce_Fingerprint := ''fq''\<rparr>]])"

definition sample_services :: Services where
  "sample_services = \<lparr>sv_parsers = \<lparr>tp_HTTPTime = (\<lambda>s. None), tp_RFC3339 = (\<lambda>s. None), tp_Duration = (\<lambda>s. None)\<rparr>,
     sv_decrypt = Some, sv_hash = id, sv_channels = sample_channels, sv_json = sample_json, sv_urls = sample_urls,
     sv_proxyJSON = \<lparr>lib_Marshal = (\<lambda>c. []), lib_Unmarshal = (\<lambda>s. None)\<rparr>, sv_driver = (\<lambda>c. None), sv_secretValues = (\<lambda>s. []),
     sv_sanitize = (\<lambda>rules secrets s. s), sv_accessQuota = True\<rparr>"

definition sample_context :: Context where
  "sample_context = \<lparr>cx_Err = None, cx_ShutdownCause = False\<rparr>"

definition sample_write :: WriteOutcome where
  "sample_write = \<lparr>wo_failed = False, wo_context = sample_context, wo_written = True, wo_status = 200\<rparr>"

definition sample_forward :: "ForwardInput \<Rightarrow> UpstreamResult" where
  "sample_forward input =
     (if fi_AttemptSequence input = 1
      then UpstreamResult0\<lparr>ur_StatusCode := 429, ur_DispatchState := DispatchMaybeSent, ur_ResponseStarted := True, ur_RequestWritten := True,
        ur_ExecutionError := Some (ErrorEvidence0\<lparr>ev_Kind := ErrorKindHTTP, ev_StatusCode := 429,
          ev_OriginHint := ErrorOriginUpstream, ev_ReplaySafety := ReplaySafetyRejectedBeforeProcessing\<rparr>)\<rparr>
      else UpstreamResult0\<lparr>ur_StatusCode := 200, ur_Body := ''ok'', ur_DispatchState := DispatchMaybeSent, ur_ResponseStarted := True,
        ur_RequestWritten := True\<rparr>)"

definition sample_turn :: "nat \<Rightarrow> Turn" where
  "sample_turn n = \<lparr>tn_before = sample_context, tn_views = (\<lambda>i. (gateway_registry, 5)), tn_draw = (\<lambda>n. 0), tn_lookup = id, tn_match = id,
     tn_admission = id, tn_during = id, tn_forward = sample_forward, tn_firstResponse = None, tn_after = sample_context, tn_quotaNow = 5, tn_started = 5,
     tn_completed = 6, tn_now = 6, tn_affinityNow = 6, tn_table = None, tn_write = sample_write\<rparr>"

definition sample_surroundings :: Surroundings where
  "sample_surroundings = \<lparr>sr_requestID = Some ''r1'', sr_snapshotID = 1, sr_checkNow = 5, sr_limitNow = 5, sr_affinityNow = 5, sr_emitNow = 7,
     sr_body = Some \<lparr>rb_ContentLength = 2, rb_bytes = ''{}'', rb_failed = False\<rparr>, sr_afterBody = sample_context, sr_afterInspect = sample_context,
     sr_afterParse = sample_context, sr_turns = sample_turn, sr_write = sample_write, sr_written = True, sr_status = 200,
     sr_beforeCheck = id, sr_beforeLimit = (\<lambda>st. st\<lparr>hs_limiter := NewAccessKeyRPM\<rparr>), sr_beforeCapture = id, sr_beforeAffinity = id, sr_beforeAttempts = id, sr_beforeComplete = id\<rparr>"

definition sample_metadata :: RequestMetadata where
  "sample_metadata = \<lparr>md_Model = Some ''gpt'', md_Stream = False, md_AffinityPrefix = ''p'', md_Operation = OperationChatCompletion,
     md_RouteRequirement = RouteRequirementEmpty, md_ResponsesStorePreference = ResponsesStorePreferenceNone, md_ObserveUsage = True,
     md_PricingMode = [], md_UsageDiagnostics = Diagnostics0, md_Reasoning = ReasoningConfig0\<rparr>"

definition sample_parsed :: ParsedRequest where
  "sample_parsed = \<lparr>pr_Method = ''POST'', pr_Path = ''/v1/chat/completions'', pr_RawQuery = [], pr_Header = [], pr_Body = ''{}''\<rparr>"

definition sample_handler :: HandlerConfig where
  "sample_handler = \<lparr>hc_services = sample_services, hc_dialects = [(OpenAICompletions, \<lambda>parsed. Some sample_metadata)],
     hc_decoders = \<lparr>dec_gzip = (\<lambda>s. None), dec_brotli = (\<lambda>s. \<lparr>rd_bytes = [], rd_failed = True, rd_closeFailed = False, rd_sourceLeft = 0\<rparr>),
       dec_zlib = (\<lambda>s. None), dec_zstd = (\<lambda>n s. None)\<rparr>, hc_quote = quoted, hc_modelListLimit = 1000\<rparr>"

definition sample_state :: HandlerState where
  "sample_state = \<lparr>hs_world = \<lparr>wd_registry = gateway_registry, wd_stats = NewStatsStore, wd_quota = NewRuntime, wd_affinity = Some (newCache 2 Hour True),
     wd_current = 1\<rparr>, hs_limiter = NewAccessKeyRPM\<rparr>"

definition sample_request :: Request where
  "sample_request = \<lparr>hr_Method = ''POST'', hr_Path = ''/v1/chat/completions'', hr_RawQuery = ''alt=sse&key=k1&x=1'', hr_Header = [],
     hr_RemoteAddr = ''h1''\<rparr>"

definition sample_requestContext :: dataPlaneRequestContext where
  "sample_requestContext = \<lparr>rc_requestStarted = 4, rc_selectedRoute = \<lparr>ro_Protocol = OpenAICompletions, ro_Kind = endpointForward\<rparr>,
     rc_snapshot = Some sample_snapshot, rc_accessKey = Some (q_AccessKey sample_query), rc_authenticated = True, rc_locallyRejected = False\<rparr>"

definition sample_flow :: Flow where
  "sample_flow = \<lparr>fw_state = sample_state, fw_recorder = None,
     fw_quota = fw_quota (start_flow sample_surroundings sample_requestContext (q_AccessKey sample_query) sample_state)\<rparr>"

definition sample_attempts :: "(Delivery \<times> HandlerState \<times> Loop) option" where
  "sample_attempts = attempt_request sample_handler sample_surroundings sample_snapshot (q_AccessKey sample_query) OpenAICompletions
     sample_parsed sample_metadata ''gpt'' (request_recorder ''r1'' 0 (q_AccessKey sample_query) OpenAICompletions) sample_flow"

lemma sample_attempts_run:
  "map_option (\<lambda>(delivery, st, lp). (map (\<lambda>(input, result, d). (cd_CredentialID (fi_Credential input), ur_StatusCode result,
       ur_DispatchState result = DispatchNotSent)) (lp_forwards lp), qa_admitted (lp_quota lp))) sample_attempts
     = Some ([(7, 429, False), (8, 200, False)], True)"
  by code_simp

lemma sample_attempts_forwards:
  obtains delivery st lp input result d input' result' d' where "sample_attempts = Some (delivery, st, lp)"
    "lp_forwards lp = [(input, result, d), (input', result', d')]" "cd_CredentialID (fi_Credential input) = 7"
    "ur_StatusCode result = 429" "ur_DispatchState result \<noteq> DispatchNotSent" "qa_admitted (lp_quota lp)"
  using sample_attempts_run by (auto simp: map_eq_Cons_conv)

lemma sample_retries: "\<forall>g \<in> ran (map_of (cs_Groups sample_snapshot)). gv_RetryCount g \<le> 2"
proof -
  have "list_all (\<lambda>(k, g). gv_RetryCount g \<le> 2) (cs_Groups sample_snapshot)" by code_simp
  then show ?thesis by (auto simp: list_all_iff ran_def dest!: map_of_SomeD)
qed

section \<open>Properties of the attempts\<close>

text \<open>
  Property C2. The attempts of a request end, whatever the registry, the clock, the forwarder and other
  requests do meanwhile; when no group of the configuration asks for more than N retries the
  request is sent at most N + 1 times, and never more often than the number of captured credentials
  plus one forced refresh.
\<close>

theorem request_attempts_bounded:
  assumes "\<forall>g \<in> ran (map_of (cs_Groups snapshot)). gv_RetryCount g \<le> N" and "0 \<le> N" and "N < MaxInt64"
  shows "\<exists>delivery st lp. attempt_request hc sr snapshot accessKey proto parsed metadata model
      (request_recorder i started accessKey proto) fw = Some (delivery, st, lp)
    \<and> int (length (lp_forwards lp)) \<le> N + 1
    \<and> length (lp_forwards lp) \<le> Suc (length (CaptureActiveCredentialRefs
         (CandidateGroupIDsForQuery (Some snapshot) (request_query proto metadata accessKey))
         (wd_registry (hs_world (sr_beforeCapture sr (fw_state fw))))))"
proof -
  let ?refs = "CaptureActiveCredentialRefs (CandidateGroupIDsForQuery (Some snapshot) (request_query proto metadata accessKey))
      (wd_registry (hs_world (sr_beforeCapture sr (fw_state fw))))"
  obtain delivery st lp rx where e: "attempt_request hc sr snapshot accessKey proto parsed metadata model
      (request_recorder i started accessKey proto) fw = Some (delivery, st, lp)"
    and inv: "attempts_inv (hc_services hc) rx (fw_quota fw) (ran (map_of (cs_Groups snapshot))) lp"
    and refs: "rx_allowedRefs rx = allowed_refs ?refs"
    by (rule attempt_request_run [of hc sr snapshot accessKey proto parsed metadata model i started fw]) blast
  have "retryAttemptLimit g \<le> N + 1" if "g \<in> ran (map_of (cs_Groups snapshot))" for g
    using assms that by (fastforce simp: retryAttemptLimit_def)
  then have n: "int (length (lp_forwards lp)) \<le> N + 1"
    using inv assms(2) by (force simp: attempts_inv_defs split: if_splits)
  have "captured rx c generation \<Longrightarrow> c \<in> cr_ID ` set ?refs" for c generation
    using allowed_refs_member by (force simp: captured_def refs)
  then have "set (forwarded_ids lp) \<subseteq> cr_ID ` set ?refs"
    using inv by (fastforce simp: attempts_inv_defs forwarded_ids_def)
  then have "card (set (forwarded_ids lp)) \<le> length ?refs"
    by (meson card_image_le card_length card_mono finite_imageI finite_set order_trans)
  then have "length (lp_forwards lp) \<le> Suc (length ?refs)"
    using inv by (auto simp: attempts_inv_defs split: if_splits)
  with e n show ?thesis by blast
qed

theorem request_attempts_bounded_witness:
  "\<exists>delivery st lp. sample_attempts = Some (delivery, st, lp) \<and> length (lp_forwards lp) = 2 \<and> int (length (lp_forwards lp)) \<le> 3"
proof -
  obtain delivery st lp input result d input' result' d' where s: "sample_attempts = Some (delivery, st, lp)"
    "lp_forwards lp = [(input, result, d), (input', result', d')]"
    by (rule sample_attempts_forwards)
  have "(0::int) \<le> 2" "(2::int) < MaxInt64" by (simp_all add: MaxInt64_def)
  from request_attempts_bounded [OF sample_retries this, of sample_handler sample_surroundings "q_AccessKey sample_query" OpenAICompletions
      sample_parsed sample_metadata "''gpt''" "''r1''" 0 sample_flow] s
  have "int (length (lp_forwards lp)) \<le> 2 + 1" unfolding sample_attempts_def by simp
  with s show ?thesis by (intro exI [of _ delivery] exI [of _ st] exI [of _ lp]) simp
qed

text \<open>
  Property C1. A request is sent again only when that is safe: every result but the last was not
  committed to the client, and when the request may have been sent there is evidence that does not
  leave its fate open; images and embeddings are repeated only when the provider rejected them unprocessed.
\<close>

theorem request_no_unsafe_replay:
  assumes "attempt_request hc sr snapshot accessKey proto parsed metadata model (request_recorder i started accessKey proto) fw
      = Some (delivery, st, lp)"
    and "(input, result, d) \<in> set (butlast (lp_forwards lp))"
  shows "\<not> ur_Committed result \<and> hd_Retry d \<noteq> RetryNone
    \<and> (ur_DispatchState result \<noteq> DispatchNotSent \<longrightarrow>
        (\<exists>ev. fst (decisionEvidence result) = Some ev \<and> ev_ReplaySafety ev \<noteq> ReplaySafetyUnknown
          \<and> (ev_Kind ev \<in> {ErrorKindTransport, ErrorKindTimeout} \<longrightarrow> ur_StatusCode result \<noteq> 0 \<or> ev_StatusCode ev \<noteq> 0)
          \<and> (md_Operation metadata \<in> {OperationImagesGenerate, OperationImagesEdit, OperationEmbeddingsCreate} \<longrightarrow>
              ev_ReplaySafety ev = ReplaySafetyRejectedBeforeProcessing)))"
proof -
  obtain rx where all: "\<forall>f \<in> set (butlast (lp_forwards lp)). replayed (hc_services hc) rx f" and oper: "rx_operation rx = md_Operation metadata"
    by (rule attempt_request_run [of hc sr snapshot accessKey proto parsed metadata model i started fw]) (use assms(1) in auto)
  with assms(2) obtain now selection where r: "\<not> ur_Committed result" "hd_Retry d \<noteq> RetryNone"
    "d = judgeUpstreamResult (sv_parsers (hc_services hc)) result now (decisionContextForSelection rx selection)"
    by (auto simp: replayed_def)
  have "dc_Operation (decisionContextForSelection rx selection) = md_Operation metadata"
    by (simp add: decisionContextForSelection_def Let_def oper)
  with judged_retry [OF r(2) [unfolded r(3)]] r show ?thesis by metis
qed

theorem request_no_unsafe_replay_witness:
  "\<exists>delivery st lp input result d ev. sample_attempts = Some (delivery, st, lp) \<and> (input, result, d) \<in> set (butlast (lp_forwards lp))
     \<and> ur_StatusCode result = 429 \<and> hd_Retry d \<noteq> RetryNone \<and> fst (decisionEvidence result) = Some ev
     \<and> ev_ReplaySafety ev \<noteq> ReplaySafetyUnknown"
proof -
  obtain delivery st lp input result d input' result' d' where s: "sample_attempts = Some (delivery, st, lp)"
    "lp_forwards lp = [(input, result, d), (input', result', d')]" "ur_StatusCode result = 429" "ur_DispatchState result \<noteq> DispatchNotSent"
    by (rule sample_attempts_forwards)
  from s(2) have b: "(input, result, d) \<in> set (butlast (lp_forwards lp))" by simp
  from request_no_unsafe_replay [OF s(1) [unfolded sample_attempts_def] b] s b show ?thesis by blast
qed

text \<open>
  Property C5. Every call of the forwarder uses a credential that was active and ready in the registry when the
  request captured its candidates, in the identity it had then, and of a group the query routes to.
\<close>

theorem request_uses_captured_credentials:
  assumes "attempt_request hc sr snapshot accessKey proto parsed metadata model (request_recorder i started accessKey proto) fw
      = Some (delivery, st, lp)"
    and "(input, result, d) \<in> set (lp_forwards lp)"
  shows "\<exists>g k e. g \<in> set (CandidateGroupIDsForQuery (Some snapshot) (request_query proto metadata accessKey))
    \<and> (k, e) \<in> set (bucket (wd_registry (hs_world (sr_beforeCapture sr (fw_state fw)))) g) \<and> active_ready e
    \<and> ce_ID e = cd_CredentialID (fi_Credential input) \<and> ce_IdentityGeneration e = cd_IdentityGeneration (fi_Credential input)"
proof -
  let ?refs = "CaptureActiveCredentialRefs (CandidateGroupIDsForQuery (Some snapshot) (request_query proto metadata accessKey))
      (wd_registry (hs_world (sr_beforeCapture sr (fw_state fw))))"
  obtain rx where inv: "attempts_inv (hc_services hc) rx (fw_quota fw) (ran (map_of (cs_Groups snapshot))) lp"
    and refs: "rx_allowedRefs rx = allowed_refs ?refs"
    by (rule attempt_request_run [of hc sr snapshot accessKey proto parsed metadata model i started fw]) (use assms(1) in auto)
  have "captured rx (cd_CredentialID (fi_Credential input)) (cd_IdentityGeneration (fi_Credential input))"
    using inv assms(2) by (auto simp: attempts_inv_defs)
  then obtain r where r: "map_of (allowed_refs ?refs) (cd_CredentialID (fi_Credential input)) = Some r"
    "cr_IdentityGeneration r = cd_IdentityGeneration (fi_Credential input)"
    by (auto simp: captured_def refs)
  from allowed_refs_member [OF r(1)] have "r \<in> set ?refs" "cr_ID r = cd_CredentialID (fi_Credential input)" by auto
  with r(2) show ?thesis by (elim captured_refs) (auto simp: entry_ref_def)
qed

theorem request_uses_captured_credentials_witness:
  "\<exists>delivery st lp input result d g k e. sample_attempts = Some (delivery, st, lp) \<and> (input, result, d) \<in> set (lp_forwards lp)
     \<and> (k, e) \<in> set (bucket gateway_registry g) \<and> active_ready e \<and> ce_ID e = 7"
proof -
  obtain delivery st lp input result d input' result' d' where s: "sample_attempts = Some (delivery, st, lp)"
    "lp_forwards lp = [(input, result, d), (input', result', d')]" "cd_CredentialID (fi_Credential input) = 7"
    by (rule sample_attempts_forwards)
  from s(2) have b: "(input, result, d) \<in> set (lp_forwards lp)" by simp
  have "wd_registry (hs_world (sr_beforeCapture sample_surroundings (fw_state sample_flow))) = gateway_registry"
    by (simp add: sample_surroundings_def sample_flow_def sample_state_def)
  with request_uses_captured_credentials [OF s(1) [unfolded sample_attempts_def] b] s b show ?thesis by metis
qed

text \<open>
  Property C12. No request is forwarded before it is admitted against the cost limits of its key: when anything was
  forwarded, \<open>Admit\<close> was called for the key before the first forward, in the current configuration when the key has
  limits, it allowed the request, and the request holds the ticket it returned. The cost this ticket is
  completed with is never negative and agrees with the state of the usage.
\<close>

theorem request_admitted_and_costed:
  assumes "attempt_request hc sr snapshot accessKey proto parsed metadata model (request_recorder i started accessKey proto) fw
      = Some (delivery, st, lp)"
    and "fw_quota fw = fw_quota (start_flow sr rc accessKey st0)"
  shows "(sv_accessQuota (hc_services hc) \<and> lp_forwards lp \<noteq> [] \<longrightarrow>
        (\<exists>w now d rt. lp_admission lp = Some (w, now, 0) \<and> qd_Allowed d
          \<and> Admit (akv_ID accessKey) now (wd_quota w) = ((qa_ticket (lp_quota lp), d), rt)
          \<and> (akv_CostLimitRules accessKey \<noteq> [] \<longrightarrow> wd_current w = sr_snapshotID sr))
        \<and> qa_admitted (lp_quota lp))
    \<and> 0 \<le> estimatedCostNanoUSD (completeMissingOutcome written status (lp_recorder lp))
    \<and> usagecost_Validate (rs_State (uo_Result (rq_usage (lp_recorder lp)))) (po_CostState (uo_Pricing (rq_usage (lp_recorder lp))))
        (estimatedCostNanoUSD (completeMissingOutcome written status (lp_recorder lp))) = None"
proof -
  obtain rx where inv: "attempts_inv (hc_services hc) rx (fw_quota fw) (ran (map_of (cs_Groups snapshot))) lp"
    by (rule attempt_request_run [of hc sr snapshot accessKey proto parsed metadata model i started fw]) (use assms in auto)
  then have "recorder_inv (completeMissingOutcome written status (lp_recorder lp))"
    by (simp add: attempts_inv_def recorder_ok_def recorder_inv_complete)
  from recorder_cost_valid [OF this] have cost: "0 \<le> estimatedCostNanoUSD (completeMissingOutcome written status (lp_recorder lp))
    \<and> usagecost_Validate (rs_State (uo_Result (rq_usage (lp_recorder lp)))) (po_CostState (uo_Pricing (rq_usage (lp_recorder lp))))
        (estimatedCostNanoUSD (completeMissingOutcome written status (lp_recorder lp))) = None"
    by (auto simp: completeMissingOutcome_def split: if_splits)
  have quota: "\<not> qa_admitted (fw_quota fw)" "qa_accessKeyID (fw_quota fw) = akv_ID accessKey"
    "akv_CostLimitRules accessKey \<noteq> [] \<Longrightarrow> qa_snapshot (fw_quota fw) = Some (sr_snapshotID sr)"
    unfolding assms(2) by (simp_all add: start_flow_def)
  have "admitted_by lp \<and> qa_admitted (lp_quota lp)" if "sv_accessQuota (hc_services hc)" "lp_forwards lp \<noteq> []"
    using inv that quota(1) by (simp add: attempts_inv_def admission_ok_def)
  with inv quota(2,3) cost show ?thesis by (auto simp: attempts_inv_def admission_ok_def admitted_by_def)
qed

theorem request_admitted_and_costed_witness:
  "\<exists>delivery st lp w now d rt. sample_attempts = Some (delivery, st, lp) \<and> lp_forwards lp \<noteq> []
     \<and> lp_admission lp = Some (w, now, 0) \<and> Admit (akv_ID (q_AccessKey sample_query)) now (wd_quota w) = ((qa_ticket (lp_quota lp), d), rt)
     \<and> qd_Allowed d"
proof -
  obtain delivery st lp where s: "sample_attempts = Some (delivery, st, lp)" "lp_forwards lp \<noteq> []"
    by (rule sample_attempts_forwards) auto
  have "sv_accessQuota (hc_services sample_handler)" by (simp add: sample_handler_def sample_services_def)
  moreover have "fw_quota sample_flow = fw_quota (start_flow sample_surroundings sample_requestContext (q_AccessKey sample_query) sample_state)"
    by (simp add: sample_flow_def)
  ultimately show ?thesis
    using request_admitted_and_costed [OF s(1) [unfolded sample_attempts_def], of sample_requestContext sample_state] s by blast
qed

section \<open>Every request is answered and logged\<close>

definition logs_as :: "string \<Rightarrow> Flow \<Rightarrow> bool" where
  "logs_as i fw \<longleftrightarrow> (\<exists>rec. fw_recorder fw = Some rec \<and> rq_requestID rec = i \<and> \<not> rq_emitted rec)"

lemma log_frame [simp]:
  "rq_requestID (completeReason v rec) = rq_requestID rec" "rq_emitted (completeReason v rec) = rq_emitted rec"
  "rq_requestID (completeCanceled ctx st k rec) = rq_requestID rec" "rq_emitted (completeCanceled ctx st k rec) = rq_emitted rec"
  "rq_requestID (write_terminal wo st rec) = rq_requestID rec" "rq_emitted (write_terminal wo st rec) = rq_emitted rec"
  by (auto simp: completeReason_def completeCanceled_def write_terminal_def completeWriteTerminal_def completeDownstreamWrite_def Let_def
      split: option.split)

lemma logs_as_finish [simp]:
  "logs_as i fw \<Longrightarrow> logs_as i (snd (finish_reason wo v fw))" "logs_as i fw \<Longrightarrow> logs_as i (snd (finish_canceled ctx fw))"
  by (auto simp: logs_as_def finish_reason_def finish_canceled_def)

lemma with_deferred_logs:
  assumes "logs_as i (snd r)"
  shows "\<exists>st event. with_deferred hc sr r = (fst r, st, event)
    \<and> (if i = [] then event = None
       else \<exists>e. event = Some e \<and> rqe_RequestID e = i \<and> ro_status (rqe_Outcome e) \<noteq> RequestStatusEmpty)"
proof -
  obtain answer fw rec where r: "r = (answer, fw)" "fw_recorder fw = Some rec" "rq_requestID rec = i" "\<not> rq_emitted rec"
    using assms(1) by (cases r) (auto simp: logs_as_def)
  define rec' where "rec' = completeMissingOutcome (sr_written sr) (sr_status sr) rec"
  have m: "rq_requestID rec' = i" "\<not> rq_emitted rec'" "ro_status (rq_outcome rec') \<noteq> RequestStatusEmpty"
    using r by (auto simp: rec'_def completeMissingOutcome_def)
  then have "if i = [] then fst (emit (sr_emitNow sr) rec') = None else \<exists>e. fst (emit (sr_emitNow sr) rec') = Some e \<and> rqe_RequestID e = i
      \<and> ro_status (rqe_Outcome e) \<noteq> RequestStatusEmpty"
    by (auto simp: emit_def Let_def freezeSensitiveInputErrorSummaries_def)
  moreover obtain st where "with_deferred hc sr r = (fst r, st, fst (emit (sr_emitNow sr) rec'))"
    using r by (cases "emit (sr_emitNow sr) rec'") (simp add: with_deferred_def finish_request_def rec'_def [symmetric] Let_def)
  ultimately show ?thesis by blast
qed

text \<open>Nothing is written only where the context was canceled.\<close>

definition answer_ok :: "Surroundings \<Rightarrow> Answer \<Rightarrow> bool" where
  "answer_ok sr answer \<longleftrightarrow>
     (answer = AnswerNothing \<longrightarrow> cx_Err (sr_afterBody sr) \<noteq> None \<or> cx_Err (sr_afterInspect sr) \<noteq> None \<or> cx_Err (sr_afterParse sr) \<noteq> None)
     \<and> (answer = AnswerAttempts DeliverNothing \<longrightarrow> (\<exists>k. gave_up (sr_turns sr k)))"

definition served :: "Surroundings \<Rightarrow> string \<Rightarrow> Answer \<times> Flow \<Rightarrow> bool" where
  "served sr i r \<longleftrightarrow> answer_ok sr (fst r) \<and> logs_as i (snd r)"

lemma finish_served [simp]:
  "logs_as i fw \<Longrightarrow> served sr i (finish_reason wo v fw)" "logs_as i fw \<Longrightarrow> served sr i (AnswerQuota d, snd (finish_reason wo v fw))"
  "logs_as i fw \<Longrightarrow> served sr i (AnswerRateLimited n, snd (finish_reason wo v fw))"
  "logs_as i fw \<Longrightarrow> ctx \<in> {sr_afterBody sr, sr_afterInspect sr, sr_afterParse sr} \<Longrightarrow> cx_Err ctx \<noteq> None \<Longrightarrow> served sr i (finish_canceled ctx fw)"
  by (auto simp: served_def answer_ok_def) (auto simp: finish_reason_def finish_canceled_def)

lemma check_quota_logs:
  assumes "logs_as i fw"
  shows "case check_quota hc sr fw of Inl r \<Rightarrow> served sr i r | Inr fw' \<Rightarrow> fw_recorder fw' = fw_recorder fw"
proof -
  have "logs_as i (fw\<lparr>fw_state := st\<rparr>)" for st using assms by (simp add: logs_as_def)
  then show ?thesis by (auto simp: check_quota_def Let_def split: option.split)
qed

lemma check_rate_logs:
  assumes "logs_as i fw" and "\<exists>log. limiter_rel (sr_limitNow sr) log (hs_limiter (sr_beforeLimit sr (fw_state fw)))"
  obtains r where "check_rate sr accessKey fw = Some (Inl r)" "served sr i r"
    | fw' where "check_rate sr accessKey fw = Some (Inr fw')" "fw_recorder fw' = fw_recorder fw"
proof -
  have l: "logs_as i (fw\<lparr>fw_state := st\<rparr>)" for st using assms(1) by (simp add: logs_as_def)
  obtain d limiter where a: "Allow (sr_limitNow sr) (akv_ID accessKey) (akv_RPMLimit accessKey)
      (hs_limiter (sr_beforeLimit sr (fw_state fw))) = (Some d, limiter)"
    using assms(2) Allow_refines(1) by (metis prod.collapse)
  show thesis
  proof (cases "ld_Allowed d")
    case True
    then show thesis using a that(2) by (simp add: check_rate_def Let_def)
  next
    case False
    then show thesis using a that(1) l by (simp add: check_rate_def Let_def)
  qed
qed

lemma inspect_request_logs:
  assumes "logs_as i fw" and "inspect_request hc sr request proto fw = Inl r"
  shows "served sr i r"
  using assms by (auto simp: inspect_request_def Let_def split: option.splits sum.splits if_splits prod.splits)

lemma attempt_request_nothing:
  "attempt_request hc sr snapshot accessKey proto parsed metadata model rec fw = Some (DeliverNothing, st, lp) \<Longrightarrow>
    \<exists>k. gave_up (sr_turns sr k)"
  by (auto simp: attempt_request_def Let_def simp del: executeAttempts.simps split: prod.splits dest: executeAttempts_nothing)

lemma forward_request_logs:
  assumes "fw_recorder fw = Some (request_recorder i started accessKey proto)"
  shows "\<exists>r. forward_request hc sr snapshot accessKey request proto (request_recorder i started accessKey proto) fw = Some r
    \<and> served sr i r"
proof (cases "inspect_request hc sr request proto fw")
  case (Inl r)
  moreover have "logs_as i fw" using assms by (simp add: logs_as_def newRequestRecorder_def)
  ultimately show ?thesis using inspect_request_logs by (simp add: forward_request_def)
next
  case (Inr x)
  obtain parsed metadata model where x: "x = (parsed, metadata, model)" by (cases x)
  obtain delivery st lp rx where run: "attempt_request hc sr snapshot accessKey proto parsed metadata model
      (request_recorder i started accessKey proto) fw = Some (delivery, st, lp)"
    "attempts_inv (hc_services hc) rx (fw_quota fw) (ran (map_of (cs_Groups snapshot))) lp" "rx_requestID rx = i"
    by (rule attempt_request_run [of hc sr snapshot accessKey proto parsed metadata model i started fw]) blast
  have "answer_ok sr (AnswerAttempts delivery)" using attempt_request_nothing run(1) by (auto simp: answer_ok_def)
  with run show ?thesis using Inr by (simp add: x forward_request_def served_def logs_as_def attempts_inv_def recorder_ok_def)
qed

text \<open>
  Property C9. Every authenticated request to be forwarded returns, provided that the limiter others leave is one that
  calls of \<open>Allow\<close> can produce (\<open>limiter_rel\<close>): neither the rate limiter nor the attempt loop fails to return. It is
  answered, with an error, with a refusal or with the result of its attempts; nothing is written only where a
  context of the request was canceled, or the forwarder reports that. A request with an identifier is logged in one
  event, under that identifier and with a definite outcome; a request for which no identifier could be made in none.
\<close>

theorem handle_answers_and_logs:
  assumes "rc_snapshot rc = Some snapshot" and "rc_accessKey rc = Some accessKey" and "rc_authenticated rc" and "\<not> rc_locallyRejected rc"
    and "ro_Kind (rc_selectedRoute rc) = endpointForward"
    and "\<forall>s. \<exists>log. limiter_rel (sr_limitNow sr) log (hs_limiter (sr_beforeLimit sr s))"
  shows "\<exists>answer st' event. Handle hc sr rc request st = Some (answer, st', event)
    \<and> (answer = AnswerNothing \<longrightarrow> cx_Err (sr_afterBody sr) \<noteq> None \<or> cx_Err (sr_afterInspect sr) \<noteq> None \<or> cx_Err (sr_afterParse sr) \<noteq> None)
    \<and> (answer = AnswerAttempts DeliverNothing \<longrightarrow> (\<exists>k. gave_up (sr_turns sr k)))
    \<and> (if sr_requestID sr \<in> {None, Some []} then event = None
       else \<exists>e. event = Some e \<and> sr_requestID sr = Some (rqe_RequestID e) \<and> ro_status (rqe_Outcome e) \<noteq> RequestStatusEmpty)"
proof -
  define i where "i = (case sr_requestID sr of None \<Rightarrow> [] | Some i \<Rightarrow> i)"
  let ?rec = "request_recorder i (rc_requestStarted rc) accessKey (ro_Protocol (rc_selectedRoute rc))"
  define fw0 where "fw0 = start_flow sr rc accessKey st"
  have r0: "fw_recorder fw0 = Some ?rec" using assms by (simp add: fw0_def start_flow_def i_def)
  have l: "logs_as i fw" if "fw_recorder fw = fw_recorder fw0" for fw using that r0 by (simp add: logs_as_def newRequestRecorder_def)
  have h: "Handle hc sr rc request st = (case check_quota hc sr fw0 of
            Inl r \<Rightarrow> Some (with_deferred hc sr r)
          | Inr fw1 \<Rightarrow> (case check_rate sr accessKey fw1 of
                 None \<Rightarrow> None | Some (Inl r) \<Rightarrow> Some (with_deferred hc sr r)
               | Some (Inr fw) \<Rightarrow> map_option (with_deferred hc sr) (Option.bind (fw_recorder fw) (\<lambda>rec.
                   forward_request hc sr snapshot accessKey request (ro_Protocol (rc_selectedRoute rc)) rec fw))))"
    using assms(1-5) by (simp add: Handle_def fw0_def split: sum.split option.split)
  have "\<exists>r. Handle hc sr rc request st = Some (with_deferred hc sr r) \<and> served sr i r"
  proof (cases "check_quota hc sr fw0")
    case (Inl r)
    then have "Handle hc sr rc request st = Some (with_deferred hc sr r)" "served sr i r"
      using check_quota_logs [OF l [OF refl], where hc = hc and sr = sr] by (simp_all add: h)
    then show ?thesis by blast
  next
    case (Inr fw1)
    then have r1: "fw_recorder fw1 = fw_recorder fw0" using check_quota_logs [OF l [OF refl], where hc = hc and sr = sr] by simp
    from l [OF r1] assms(6) [rule_format] show ?thesis
    proof (cases rule: check_rate_logs [where accessKey = accessKey])
      case (1 r)
      then have "Handle hc sr rc request st = Some (with_deferred hc sr r)" using Inr by (simp add: h)
      with 1(2) show ?thesis by blast
    next
      case (2 fw)
      with r1 r0 have rec: "fw_recorder fw = Some ?rec" by simp
      from forward_request_logs [OF this, where hc = hc and sr = sr and snapshot = snapshot and request = request] obtain r where
        r: "forward_request hc sr snapshot accessKey request (ro_Protocol (rc_selectedRoute rc)) ?rec fw = Some r" "served sr i r"
        by blast
      then have "Handle hc sr rc request st = Some (with_deferred hc sr r)" using Inr 2(1) rec by (simp add: h)
      with r(2) show ?thesis by blast
    qed
  qed
  then obtain r where r: "Handle hc sr rc request st = Some (with_deferred hc sr r)" "answer_ok sr (fst r)" "logs_as i (snd r)"
    by (auto simp: served_def)
  from with_deferred_logs [OF r(3), of hc sr] r show ?thesis
    by (auto simp: answer_ok_def i_def split: option.splits if_splits)
qed

theorem handle_answers_and_logs_witness:
  "\<exists>answer st' event. Handle sample_handler sample_surroundings sample_requestContext sample_request sample_state = Some (answer, st', Some event)
     \<and> rqe_RequestID event = ''r1'' \<and> answer \<noteq> AnswerNothing"
proof -
  have "\<forall>s. \<exists>log. limiter_rel (sr_limitNow sample_surroundings) log (hs_limiter (sr_beforeLimit sample_surroundings s))"
    by (auto simp: sample_surroundings_def intro: exI [of _ "\<lambda>_. []"] limiter_rel_new)
  moreover have rc: "rc_snapshot sample_requestContext = Some sample_snapshot" "rc_accessKey sample_requestContext = Some (q_AccessKey sample_query)"
    "rc_authenticated sample_requestContext" "\<not> rc_locallyRejected sample_requestContext"
    "ro_Kind (rc_selectedRoute sample_requestContext) = endpointForward" by (simp_all add: sample_requestContext_def)
  moreover have sr: "sr_requestID sample_surroundings = Some ''r1''" "cx_Err (sr_afterBody sample_surroundings) = None"
    "cx_Err (sr_afterInspect sample_surroundings) = None" "cx_Err (sr_afterParse sample_surroundings) = None"
    by (simp_all add: sample_surroundings_def sample_context_def)
  ultimately obtain answer st' event where "Handle sample_handler sample_surroundings sample_requestContext sample_request sample_state
      = Some (answer, st', Some event)" "answer \<noteq> AnswerNothing" "rqe_RequestID event = ''r1''"
    using handle_answers_and_logs [OF rc, of sample_surroundings sample_handler sample_request sample_state] by auto
  then show ?thesis by blast
qed

section \<open>Access\<close>

text \<open>
  Property C13. Against a compiled configuration a request is authenticated exactly when it carries the key of
  an active access key that has not expired, and its peer, taken as an unmapped address without zone, lies in
  the allowlist of that key if there is one.
\<close>

theorem authenticate_exact:
  assumes "Compile pl lib json input = Inr s" and "net_laws nl"
  shows "fst (authenticate nl Hash request (Some s) started) = Inr view \<longleftrightarrow>
    (\<exists>k \<in> set (ci_AccessKeys input). fst (extractClientKey request) \<noteq> [] \<and> akc_KeyHash k = Hash (fst (extractClientKey request))
       \<and> akc_Status k = AccessKeyStatusActive \<and> view = newAccessKeyView k
       \<and> (\<forall>e. akc_ExpiresAtMS k = Some e \<longrightarrow> UnixMilli started < e)
       \<and> (akc_AllowedPeerCIDRs k \<noteq> [] \<longrightarrow>
            (\<exists>a p. nl_ParseAddrPort nl (TrimSpace (hr_RemoteAddr request)) = Some a \<and> p \<in> set (akc_AllowedPeerCIDRs k)
               \<and> Prefix_Contains p (peer_of a))))"
proof -
  obtain key request' where k: "extractClientKey request = (key, request')" by fastforce
  have remote: "hr_RemoteAddr request' = hr_RemoteAddr request" using k by (auto simp: extractClientKey_def Let_def)
  define ok where "ok v \<longleftrightarrow> (\<forall>e. akv_ExpiresAtMS v = Some e \<longrightarrow> UnixMilli started < e)
      \<and> (akv_AllowedPeerCIDRs v \<noteq> [] \<longrightarrow> (\<exists>a p. nl_ParseAddrPort nl (TrimSpace (hr_RemoteAddr request)) = Some a
           \<and> p \<in> set (akv_AllowedPeerCIDRs v) \<and> Prefix_Contains p (peer_of a)))" for v :: AccessKeyView
  have "fst (authenticate nl Hash request (Some s) started) = Inr view \<longleftrightarrow>
      key \<noteq> [] \<and> map_of (cs_AccessKeysByHash s) (Hash key) = Some view \<and> ok view"
    unfolding authenticate_def k remote peer_matched [OF assms(2)] ok_def
    by (auto simp: remote peer_matched [OF assms(2)] split: option.split)
  also have "\<dots> \<longleftrightarrow> (\<exists>k \<in> set (ci_AccessKeys input). key \<noteq> [] \<and> akc_KeyHash k = Hash key \<and> akc_Status k = AccessKeyStatusActive
      \<and> view = newAccessKeyView k \<and> ok (newAccessKeyView k))"
    unfolding compile_accessKeysByHash [OF assms(1)] by blast
  finally show ?thesis by (simp add: k ok_def newAccessKeyView_def)
qed

definition sample_key :: AccessKeyConfig where
  "sample_key = \<lparr>akc_ID = 1, akc_Name = ''team'', akc_KeyHash = ''k1'', akc_KeySuffix = ''k1'', akc_Status = AccessKeyStatusActive,
     akc_Filters = \<lparr>fl_Groups = [], fl_Protocols = [], fl_Models = []\<rparr>, akc_ExpiresAtMS = Some 1000,
     akc_AllowedPeerCIDRs = [\<lparr>px_BitLen = 32, px_Addr = 6, px_Zone = [], px_Bits = 31\<rparr>], akc_RPMLimit = 0,
     akc_CostLimitRules = []\<rparr>"

definition access_input :: CompileInput where
  "access_input = sample_input\<lparr>ci_AccessKeys := [sample_key]\<rparr>"

text \<open>Addresses are printed in unary; \<open>h1\<close> is the endpoint of 0.0.0.7 as a mapped address.\<close>

definition sample_net :: net_library where
  "sample_net = \<lparr>nl_ParseAddrPort = (\<lambda>s. if s = ''h1'' then Some \<lparr>ad_BitLen = 128, ad_Addr = 65535 * 2 ^ 32 + 7, ad_Zone = []\<rparr> else None),
     nl_ParseAddr = (\<lambda>s. case s of [] \<Rightarrow> None | c # r \<Rightarrow>
       let n = (if c = CHR ''v'' then 32 else 128) in
       if length r < 2 ^ n \<and> (c = CHR ''v'' \<or> c = CHR ''w'') then Some \<lparr>ad_BitLen = n, ad_Addr = length r, ad_Zone = []\<rparr> else None),
     nl_ParsePrefix = (\<lambda>s. None),
     nl_AddrString = (\<lambda>a. (if ad_BitLen a = 32 then CHR ''v'' else CHR ''w'') # replicate (ad_Addr a) (CHR ''x'')),
     nl_PrefixString = (\<lambda>p. [])\<rparr>"

lemma sample_net_laws: "net_laws sample_net"
proof -
  have "TrimSpace (nl_AddrString sample_net a) = nl_AddrString sample_net a" for a
    by (rule TrimSpace_id) (simp_all add: sample_net_def utf8_spaces_def last_replicate)
  then show ?thesis
    by (auto simp: net_laws_def sample_net_def addr_ok_def Let_def split: list.splits if_splits)
qed

theorem authenticate_exact_witness:
  "\<exists>s. Compile sample_platform sample_urls sample_json access_input = Inr s
     \<and> fst (authenticate sample_net id sample_request (Some s) 5) = Inr (newAccessKeyView sample_key)"
proof -
  have "is_ok (Compile sample_platform sample_urls sample_json access_input)" by code_simp
  then obtain s where c: "Compile sample_platform sample_urls sample_json access_input = Inr s" by (auto simp: is_ok_iff)
  have k: "fst (extractClientKey sample_request) = ''k1''" "UnixMilli 5 < 1000" "TrimSpace ''h1'' = ''h1''" by code_simp+
  have "Prefix_Contains \<lparr>px_BitLen = 32, px_Addr = 6, px_Zone = [], px_Bits = 31\<rparr>
      (peer_of \<lparr>ad_BitLen = 128, ad_Addr = 65535 * 2 ^ 32 + 7, ad_Zone = []\<rparr>)"
    by (simp add: peer_of_def Addr_Unmap_def Addr_Is4In6_def Addr_WithZone_def Prefix_Contains_def Prefix_IsValid_def)
  moreover have "nl_ParseAddrPort sample_net (TrimSpace (hr_RemoteAddr sample_request)) =
      Some \<lparr>ad_BitLen = 128, ad_Addr = 65535 * 2 ^ 32 + 7, ad_Zone = []\<rparr>"
    using k(3) by (simp add: sample_net_def sample_request_def)
  moreover have "sample_key \<in> set (ci_AccessKeys access_input)" "akc_KeyHash sample_key = ''k1''"
    "akc_Status sample_key = AccessKeyStatusActive" "akc_ExpiresAtMS sample_key = Some 1000"
    "\<lparr>px_BitLen = 32, px_Addr = 6, px_Zone = [], px_Bits = 31\<rparr> \<in> set (akc_AllowedPeerCIDRs sample_key)"
    by (simp_all add: access_input_def sample_key_def)
  ultimately have "fst (authenticate sample_net id sample_request (Some s) 5) = Inr (newAccessKeyView sample_key)"
    unfolding authenticate_exact [OF c sample_net_laws] using k(1,2) by (intro bexI [of _ sample_key]) auto
  with c show ?thesis by blast
qed

text \<open>
  The access key of a client is not passed on in the query: no forwarded parameter is called \<open>key\<close>, and the
  other parameters keep their text and their order.
\<close>

theorem access_key_not_forwarded:
  assumes "extractClientKey request = (key, request')"
  shows "(\<forall>seg \<in> set (Split (CHR ''&'') (hr_RawQuery request')). QueryUnescape (fst (Cut (CHR ''='') seg)) \<noteq> Some ''key'')
    \<and> hr_RawQuery request' = Join ''&'' (filter (\<lambda>seg. QueryUnescape (fst (Cut (CHR ''='') seg)) \<noteq> Some ''key'')
        (Split (CHR ''&'') (hr_RawQuery request)))
    \<and> snd (extractClientKey request') = request'"
proof -
  note f = forwarded_segments [OF assms]
  have "filter (\<lambda>seg. \<not> is_key_segment seg) (Split (CHR ''&'') (hr_RawQuery request')) = Split (CHR ''&'') (hr_RawQuery request')"
    using f(1) by (simp add: filter_id_conv)
  then have "snd (extractClientKey request') = request'" by (simp add: extractClientKey_def Let_def)
  with f show ?thesis unfolding is_key_segment_def by blast
qed

theorem access_key_not_forwarded_witness: "hr_RawQuery (snd (extractClientKey sample_request)) = ''alt=sse&x=1''"
proof -
  have "Join ''&'' (filter (\<lambda>seg. QueryUnescape (fst (Cut (CHR ''='') seg)) \<noteq> Some ''key'')
      (Split (CHR ''&'') (hr_RawQuery sample_request))) = ''alt=sse&x=1''" by code_simp
  moreover have "extractClientKey sample_request = (fst (extractClientKey sample_request), snd (extractClientKey sample_request))" by simp
  note conjunct1 [OF conjunct2 [OF access_key_not_forwarded [OF this]]]
  ultimately show ?thesis by metis
qed

section \<open>The model list\<close>

text \<open>
  Property C33. The model list of an access key, on a compiled configuration, names in order and once each exactly the models that one of
  the listed protocols routes to an enabled group within the filters of the key; and counting its size item by item first
  refuses exactly the lists whose body exceeds the limit.
\<close>

theorem model_list_exact:
  assumes "Compile pl lib json input = Inr s" and "\<forall>i. length (quote []) \<le> length (quote i)"
  shows "(m \<in> set (visible_models (Some s) accessKey proto) \<longleftrightarrow>
      m \<noteq> NoModelRouteKey \<and> (\<exists>p \<in> set (modelListProtocols proto). key_sees s accessKey p m))
    \<and> sorted (visible_models (Some s) accessKey proto) \<and> distinct (visible_models (Some s) accessKey proto)
    \<and> buildVisibleModelList quote (Some s) accessKey proto limit =
        (if limit < int (length (marshalModelList quote proto (visible_models (Some s) accessKey proto))) then None
         else Some (marshalModelList quote proto (visible_models (Some s) accessKey proto)))"
  using visible_models_iff [OF compile_index_wf [OF assms(1)]] visible_models_sorted [of "Some s" accessKey proto]
    buildVisibleModelList_reference [where quote = quote and snapshot = "Some s" and accessKey = accessKey and proto = proto and limit = limit,
      OF assms(2) [rule_format]]
  by (simp add: Let_def)

theorem model_list_exact_witness:
  "\<exists>p \<in> set (modelListProtocols OpenAICompletions). key_sees sample_snapshot (q_AccessKey sample_query) p ''gpt''"
proof -
  have "''gpt'' \<in> set (visible_models (Some sample_snapshot) (q_AccessKey sample_query) OpenAICompletions)" by code_simp
  moreover have "\<forall>i. length (quoted []) \<le> length (quoted i)" by (simp add: quoted_def)
  ultimately show ?thesis
    using model_list_exact [OF sample_compiles, of quoted "''gpt''" "q_AccessKey sample_query" OpenAICompletions 0] by simp
qed

end
