(* ===== verification/State_Manager.thy ===== *)
theory State_Manager
  imports Config_Properties
begin

text \<open>
  Publication of configuration snapshots (\<open>src/internal/state/manager.go\<close>). The manager holds the
  current snapshot and a channel that the next publication closes; a channel is the number under which it was
  made. The reconciler of infrastructure resources is a function that says whether it succeeds. The comparison
  \<open>Matches\<close>, which rests on \<open>reflect.DeepEqual\<close>, is left out.
\<close>

section \<open>The manager\<close>

record Manager =
  mg_current :: "ConfigSnapshot option"
  mg_reconciler :: "(ConfigSnapshot \<Rightarrow> bool) option"
  mg_updates :: "nat option"
  mg_closed :: "nat list"
  mg_made :: nat

datatype PublishError = PublishCompile CompileError | PublishReconcile

definition NewManager :: Manager where
  "NewManager = \<lparr>mg_current = None, mg_reconciler = None, mg_updates = Some 0, mg_closed = [], mg_made = 1\<rparr>"

definition SetSnapshotReconciler :: "(ConfigSnapshot \<Rightarrow> bool) option \<Rightarrow> Manager \<Rightarrow> Manager" where
  "SetSnapshotReconciler reconciler m = m\<lparr>mg_reconciler := reconciler\<rparr>"

definition Current :: "Manager \<Rightarrow> ConfigSnapshot option" where
  "Current m = mg_current m"

definition make_channel :: "Manager \<Rightarrow> Manager" where
  "make_channel m = m\<lparr>mg_updates := Some (mg_made m), mg_made := mg_made m + 1\<rparr>"

definition CurrentWithUpdates :: "Manager \<Rightarrow> (ConfigSnapshot option \<times> nat) \<times> Manager" where
  "CurrentWithUpdates m0 =
     (let m = (if mg_updates m0 = None then make_channel m0 else m0) in ((mg_current m, the (mg_updates m)), m))"

text \<open>Both run a callback while publication is blocked.\<close>

definition WithCurrentSnapshot :: "(ConfigSnapshot option \<Rightarrow> bool) \<Rightarrow> Manager \<Rightarrow> bool" where
  "WithCurrentSnapshot fn m = fn (mg_current m)"

definition WithCurrentSnapshotRead :: "(ConfigSnapshot option \<Rightarrow> bool) \<Rightarrow> Manager \<Rightarrow> bool" where
  "WithCurrentSnapshotRead fn m = fn (mg_current m)"

definition publishCompiledLocked :: "ConfigSnapshot \<Rightarrow> Manager \<Rightarrow> ConfigSnapshot \<times> Manager" where
  "publishCompiledLocked next0 m =
     (let next = next0\<lparr>cs_Revision := (case mg_current m of None \<Rightarrow> 1 | Some current \<Rightarrow> cs_Revision current + 1)\<rparr>;
          closed = (case mg_updates m of None \<Rightarrow> mg_closed m | Some c \<Rightarrow> c # mg_closed m)
      in (next, make_channel (m\<lparr>mg_current := Some next, mg_closed := closed\<rparr>)))"

definition Publish ::
  "platform \<Rightarrow> url_library \<Rightarrow> channel_json \<Rightarrow> CompileInput \<Rightarrow> Manager \<Rightarrow> (PublishError + ConfigSnapshot) \<times> Manager" where
  "Publish pl lib json input m =
     (case Compile pl lib json input of
        Inl e \<Rightarrow> (Inl (PublishCompile e), m)
      | Inr next \<Rightarrow>
          if (case mg_reconciler m of None \<Rightarrow> False | Some reconcile \<Rightarrow> \<not> reconcile next) then (Inl PublishReconcile, m)
          else (case publishCompiledLocked next m of (s, m') \<Rightarrow> (Inr s, m')))"

section \<open>Runs\<close>

datatype manager_op = PublishOp CompileInput | SubscribeOp | ReconcilerOp "(ConfigSnapshot \<Rightarrow> bool) option"

fun manager_step :: "platform \<Rightarrow> url_library \<Rightarrow> channel_json \<Rightarrow> manager_op \<Rightarrow> Manager \<Rightarrow> Manager" where
  "manager_step pl lib json (PublishOp input) m = snd (Publish pl lib json input m)"
| "manager_step pl lib json SubscribeOp m = snd (CurrentWithUpdates m)"
| "manager_step pl lib json (ReconcilerOp r) m = SetSnapshotReconciler r m"

definition run_manager :: "platform \<Rightarrow> url_library \<Rightarrow> channel_json \<Rightarrow> manager_op list \<Rightarrow> Manager \<Rightarrow> Manager" where
  "run_manager pl lib json ops m = fold (manager_step pl lib json) ops m"

text \<open>
  The channel in use is open, channels are not made twice, and every publication so far closed one: the
  revision of the current snapshot counts them.
\<close>

definition manager_inv :: "Manager \<Rightarrow> bool" where
  "manager_inv m \<longleftrightarrow> (\<exists>c. mg_updates m = Some c \<and> c < mg_made m \<and> c \<notin> set (mg_closed m))
     \<and> distinct (mg_closed m) \<and> (\<forall>c \<in> set (mg_closed m). c < mg_made m)
     \<and> (case mg_current m of None \<Rightarrow> mg_closed m = [] | Some s \<Rightarrow> cs_Revision s = of_nat (length (mg_closed m)) \<and> mg_closed m \<noteq> [])"

lemma manager_inv_new: "manager_inv NewManager"
  by (simp add: manager_inv_def NewManager_def)

lemma publishCompiledLocked_inv:
  assumes "manager_inv m"
  shows "manager_inv (snd (publishCompiledLocked s m))"
  using assms by (auto simp: manager_inv_def publishCompiledLocked_def make_channel_def Let_def split: option.splits)

lemma Publish_cases:
  obtains e where "Publish pl lib json input m = (Inl e, m)"
    | s where "Compile pl lib json input = Inr s" "Publish pl lib json input m = (Inr (fst (publishCompiledLocked s m)), snd (publishCompiledLocked s m))"
proof (cases "Compile pl lib json input")
  case (Inl e)
  then show thesis using that(1) by (simp add: Publish_def)
next
  case (Inr s)
  show thesis
  proof (cases "case mg_reconciler m of None \<Rightarrow> False | Some reconcile \<Rightarrow> \<not> reconcile s")
    case True
    then show thesis using that(1) Inr by (simp add: Publish_def)
  next
    case False
    then show thesis using that(2) [OF Inr] Inr by (simp add: Publish_def split: prod.split)
  qed
qed

lemma manager_step_inv:
  assumes "manager_inv m"
  shows "manager_inv (manager_step pl lib json oper m)"
proof (cases oper)
  case (PublishOp input)
  then show ?thesis using assms publishCompiledLocked_inv [OF assms]
    by (cases rule: Publish_cases [of pl lib json input m]) auto
next
  case SubscribeOp
  then show ?thesis using assms by (auto simp: CurrentWithUpdates_def Let_def manager_inv_def)
next
  case (ReconcilerOp r)
  then show ?thesis using assms by (simp add: SetSnapshotReconciler_def manager_inv_def cong: option.case_cong)
qed

lemma run_manager_inv: "manager_inv m \<Longrightarrow> manager_inv (run_manager pl lib json ops m)"
  unfolding run_manager_def by (induction ops arbitrary: m) (simp_all add: manager_step_inv)

text \<open>A failed publication changes nothing; a successful one publishes what was compiled under the next revision.\<close>

lemma publish_revision:
  assumes "manager_inv m" and "Publish pl lib json input m = (Inr s, m')"
  shows "\<exists>t. Compile pl lib json input = Inr t \<and> s = t\<lparr>cs_Revision := of_nat (length (mg_closed m'))\<rparr> \<and> mg_current m' = Some s
    \<and> length (mg_closed m') = Suc (length (mg_closed m))"
proof (cases rule: Publish_cases [of pl lib json input m])
  case (2 t)
  then show ?thesis using assms
    by (auto simp: publishCompiledLocked_def make_channel_def Let_def manager_inv_def split: option.splits)
qed (use assms in auto)

lemma publish_failure: "Publish pl lib json input m = (Inl e, m') \<Longrightarrow> m' = m"
  by (auto simp: Publish_def split: sum.splits prod.splits if_splits)

text \<open>
  No update is missed: the channel handed out with a snapshot is open, and as long as it stays open the snapshot is the
  current one, whatever operations follow.
\<close>

lemma manager_step_subscription:
  assumes "manager_inv m" and "c \<in> set (mg_closed m) \<or> mg_updates m = Some c \<and> mg_current m = cur"
  shows "c \<in> set (mg_closed (manager_step pl lib json oper m))
      \<or> mg_updates (manager_step pl lib json oper m) = Some c \<and> mg_current (manager_step pl lib json oper m) = cur"
proof (cases oper)
  case (PublishOp input)
  then show ?thesis using assms
    by (cases rule: Publish_cases [of pl lib json input m])
      (auto simp: publishCompiledLocked_def make_channel_def Let_def split: option.splits)
qed (use assms in \<open>auto simp: CurrentWithUpdates_def SetSnapshotReconciler_def Let_def manager_inv_def\<close>)

lemma no_update_missed:
  assumes "manager_inv m" and "CurrentWithUpdates m = ((cur, c), m1)"
  shows "c \<notin> set (mg_closed (run_manager pl lib json ops m1)) \<Longrightarrow> Current (run_manager pl lib json ops m1) = cur"
    and "c \<notin> set (mg_closed m1)"
proof -
  have m1: "m1 = m" "mg_updates m1 = Some c" "mg_current m1 = cur" "c \<notin> set (mg_closed m1)"
    using assms by (auto simp: CurrentWithUpdates_def Let_def manager_inv_def split: if_splits)
  then show "c \<notin> set (mg_closed m1)" by simp
  have "c \<in> set (mg_closed (run_manager pl lib json ops n)) \<or> mg_current (run_manager pl lib json ops n) = cur"
    if "manager_inv n" "c \<in> set (mg_closed n) \<or> mg_updates n = Some c \<and> mg_current n = cur" for n
    using that unfolding run_manager_def
  proof (induction ops arbitrary: n)
    case (Cons oper ops)
    then show ?case
      using manager_step_inv manager_step_subscription by (simp del: manager_step.simps)
  qed auto
  from this [of m1] m1 assms(1) show "c \<notin> set (mg_closed (run_manager pl lib json ops m1)) \<Longrightarrow> Current (run_manager pl lib json ops m1) = cur"
    by (auto simp: Current_def)
qed

end
