(* ===== verification/Sse_Framing.thy ===== *)
theory Sse_Framing
  imports Go_Strings "HOL-Library.Sublist"
begin

text \<open>
  Framing of server-sent events (\<open>src/internal/gateway/stream_rewrite.go\<close>): the lines of an event, the
  scanner that finds where an event ends in a buffer that grows, and the rewriting of the payload of one event.

  A line ends with a line feed, a carriage return or both; an event ends with an empty line. The scanner is
  called again on a longer buffer whenever bytes arrive, and an event may end with a carriage return whose line
  feed has not arrived yet. The lemmas show what the scanner says of a buffer in terms of the whole input.
  The decoding of an error envelope by \<open>encoding/json\<close> is an argument: the fields \<open>type\<close> and \<open>error\<close> of an
  object, the second one as raw text, or \<open>None\<close> when the input is not such an object.
\<close>

abbreviation CR :: char where "CR \<equiv> CHR 0x0D"
abbreviation LF :: char where "LF \<equiv> CHR 0x0A"

section \<open>Lines\<close>

record sseEventLine =
  el_content :: string
  el_terminator :: string
  el_isData :: bool
  el_data :: string

text \<open>The name of a field and its value, without the one space that may follow the colon.\<close>

definition sse_field :: "string \<Rightarrow> string \<times> string" where
  "sse_field line =
     (case Cut CHR '':'' line of (field, v, found) \<Rightarrow>
        (field, if found \<and> v \<noteq> [] \<and> hd v = CHR '' '' then tl v else v))"

definition parseSSEDataLine :: "string \<Rightarrow> bool \<times> string" where
  "parseSSEDataLine line =
     (if line = [] \<or> hd line = CHR '':'' then (False, [])
      else case sse_field line of (field, v) \<Rightarrow> if field \<noteq> ''data'' then (False, []) else (True, v))"

definition parseSSEEventName :: "string \<Rightarrow> string option" where
  "parseSSEEventName line = (case sse_field line of (field, v) \<Rightarrow> if field \<noteq> ''event'' then None else Some v)"

text \<open>The next line: its content, its terminator (empty at the end of the input) and what follows.\<close>

fun next_line :: "string \<Rightarrow> string \<times> string \<times> string" where
  "next_line [] = ([], [], [])"
| "next_line (c # s) =
     (if c = CR then (if s \<noteq> [] \<and> hd s = LF then ([], [CR, LF], tl s) else ([], [CR], s))
      else if c = LF then ([], [LF], s)
      else case next_line s of (content, t, r) \<Rightarrow> (c # content, t, r))"

lemma next_line_append: "next_line s = (content, t, r) \<Longrightarrow> s = content @ t @ r"
  by (induction s arbitrary: content t r rule: next_line.induct) (auto split: if_splits prod.splits simp: neq_Nil_conv)

lemma next_line_shorter: "(content, t, r) = next_line s \<Longrightarrow> s \<noteq> [] \<Longrightarrow> length r < length s"
proof (induction s arbitrary: content t r rule: next_line.induct)
  case (2 c s)
  then show ?case by (cases "s = []") (auto split: if_splits prod.splits)
qed simp

definition line_of :: "string \<Rightarrow> string \<Rightarrow> sseEventLine" where
  "line_of content t =
     (case parseSSEDataLine content of (isData, v) \<Rightarrow>
        \<lparr>el_content = content, el_terminator = t, el_isData = isData, el_data = v\<rparr>)"

function splitSSEEventLines :: "string \<Rightarrow> sseEventLine list" where
  "splitSSEEventLines s =
     (if s = [] then []
      else case next_line s of (content, t, r) \<Rightarrow> line_of content t # splitSSEEventLines r)"
  by pat_completeness auto

termination
  by (relation "measure length") (auto dest: next_line_shorter)

declare splitSSEEventLines.simps [simp del]

section \<open>Rewriting one event\<close>

record StreamEvent =
  se_Name :: string
  se_Payload :: string

record sseEventRewriteResult =
  ew_body :: string
  ew_terminal :: bool

text \<open>A callback with a state of its own, which returns an error or the new payload.\<close>

type_synonym ('s, 'e) sseEventPayloadRewriter =
  "'s \<Rightarrow> StreamEvent \<Rightarrow> bool \<Rightarrow> ('e + sseEventRewriteResult) \<times> 's"

type_synonym envelope_json = "string \<Rightarrow> (string \<times> string) option"

definition isSSEErrorPayload :: "envelope_json \<Rightarrow> string \<Rightarrow> bool" where
  "isSSEErrorPayload json payload =
     (case json payload of
        None \<Rightarrow> False
      | Some (type, err) \<Rightarrow>
          let errorValue = TrimSpace err in
          type = ''error'' \<or> (errorValue \<noteq> [] \<and> errorValue \<noteq> ''null'' \<and> errorValue \<noteq> ''{}''))"

text \<open>The name of an event is that of its last \<open>event\<close> field; its payload joins the values of its \<open>data\<close> fields.\<close>

definition event_name :: "sseEventLine list \<Rightarrow> string" where
  "event_name lines = fold (\<lambda>l name. case parseSSEEventName (el_content l) of Some n \<Rightarrow> n | None \<Rightarrow> name) lines []"

definition data_values :: "sseEventLine list \<Rightarrow> string list" where
  "data_values lines = map el_data (filter el_isData lines)"

definition event_payload :: "sseEventLine list \<Rightarrow> string" where
  "event_payload lines = Join [LF] (data_values lines)"

definition raw_line :: "sseEventLine \<Rightarrow> string" where
  "raw_line l = el_content l @ el_terminator l"

text \<open>The first data line carries the new payload and the other data lines are dropped.\<close>

fun replace_data :: "string \<Rightarrow> bool \<Rightarrow> sseEventLine list \<Rightarrow> string" where
  "replace_data body done [] = []"
| "replace_data body done (l # ls) =
     (if el_isData l
      then (if done then [] else ''data: '' @ body @ el_terminator l) @ replace_data body True ls
      else raw_line l @ replace_data body done ls)"

definition rewriteSSEEventWithMetadata ::
  "envelope_json \<Rightarrow> ('s, 'e) sseEventPayloadRewriter \<Rightarrow> 's \<Rightarrow> string \<Rightarrow> ('e + sseEventRewriteResult) \<times> 's" where
  "rewriteSSEEventWithMetadata json rewrite s event =
     (let lines = splitSSEEventLines event;
          payload = event_payload lines;
          name = event_name lines
      in if data_values lines = [] \<or> payload = [] \<or> payload = ''[DONE]''
         then (Inr \<lparr>ew_body = event, ew_terminal = False\<rparr>, s)
         else case rewrite s \<lparr>se_Name = name, se_Payload = payload\<rparr> (name = ''error'' \<or> isSSEErrorPayload json payload) of
           (Inl err, s') \<Rightarrow> (Inl err, s')
         | (Inr r, s') \<Rightarrow>
             (Inr (r\<lparr>ew_body := if ew_body r = payload then event else replace_data (ew_body r) False lines\<rparr>), s'))"

section \<open>The scanner\<close>

record sseRewriteBoundaryScanner =
  bs_scanOffset :: nat
  bs_lineHasContent :: bool
  bs_skipLineFeed :: bool
  bs_optionalLineFeed :: bool
  bs_previousInputBytes :: nat
  bs_previousOutputBytes :: nat

definition Scanner_Reset :: sseRewriteBoundaryScanner where
  "Scanner_Reset = \<lparr>bs_scanOffset = 0, bs_lineHasContent = False, bs_skipLineFeed = False, bs_optionalLineFeed = False,
     bs_previousInputBytes = 0, bs_previousOutputBytes = 0\<rparr>"

text \<open>
  The loop of \<open>Find\<close> over the bytes from \<open>index\<close> on; the result is the end of the event. Each round of the
  loop records whether the line has content, whether a line feed is to be skipped, and how far it got.
\<close>

definition mark :: "bool \<Rightarrow> bool \<Rightarrow> nat \<Rightarrow> sseRewriteBoundaryScanner \<Rightarrow> sseRewriteBoundaryScanner" where
  "mark content skip offset sc = sc\<lparr>bs_lineHasContent := content, bs_skipLineFeed := skip, bs_scanOffset := offset\<rparr>"

fun find_from :: "string \<Rightarrow> nat \<Rightarrow> sseRewriteBoundaryScanner \<Rightarrow> nat option \<times> sseRewriteBoundaryScanner" where
  "find_from [] index sc = (None, sc)"
| "find_from (v # rest) index sc =
     (if bs_skipLineFeed sc \<and> v = LF then find_from rest (Suc index) (mark (bs_lineHasContent sc) False (Suc index) sc)
      else if v = CR then
        (if rest \<noteq> [] \<and> hd rest = LF
         then if \<not> bs_lineHasContent sc then (Some (Suc (Suc index)), mark False False (Suc (Suc index)) sc)
              else find_from (tl rest) (Suc (Suc index)) (mark False False (Suc (Suc index)) sc)
         else if \<not> bs_lineHasContent sc then (Some (Suc index), mark False True (Suc index) sc)
         else find_from rest (Suc index) (mark False True (Suc index) sc))
      else if v = LF then
        (if \<not> bs_lineHasContent sc then (Some (Suc index), mark False False (Suc index) sc)
         else find_from rest (Suc index) (mark False False (Suc index) sc))
      else find_from rest (Suc index) (mark True False (Suc index) sc))"

definition Scanner_Find :: "string \<Rightarrow> sseRewriteBoundaryScanner \<Rightarrow> nat option \<times> sseRewriteBoundaryScanner" where
  "Scanner_Find data sc = (let start = min (bs_scanOffset sc) (length data) in find_from (drop start data) start sc)"

definition AfterEvent :: "nat \<Rightarrow> nat \<Rightarrow> sseRewriteBoundaryScanner \<Rightarrow> sseRewriteBoundaryScanner" where
  "AfterEvent inputBytes outputBytes sc =
     sc\<lparr>bs_optionalLineFeed := bs_skipLineFeed sc, bs_previousInputBytes := inputBytes, bs_previousOutputBytes := outputBytes,
        bs_scanOffset := 0, bs_lineHasContent := False, bs_skipLineFeed := False\<rparr>"

definition clearOptionalLineFeed :: "sseRewriteBoundaryScanner \<Rightarrow> sseRewriteBoundaryScanner" where
  "clearOptionalLineFeed sc = sc\<lparr>bs_optionalLineFeed := False, bs_previousInputBytes := 0, bs_previousOutputBytes := 0\<rparr>"

text \<open>The result says how many bytes belong to the previous event and whether they make it too large.\<close>

definition ConsumeOptionalLineFeed ::
  "string \<Rightarrow> bool \<Rightarrow> nat \<Rightarrow> sseRewriteBoundaryScanner \<Rightarrow> (nat \<times> bool) \<times> sseRewriteBoundaryScanner" where
  "ConsumeOptionalLineFeed data final maxEventBytes sc =
     (if \<not> bs_optionalLineFeed sc then ((0, False), sc)
      else if data = [] then ((0, False), if final then clearOptionalLineFeed sc else sc)
      else if hd data \<noteq> LF then ((0, False), clearOptionalLineFeed sc)
      else ((1, maxEventBytes \<le> bs_previousInputBytes sc \<or> maxEventBytes \<le> bs_previousOutputBytes sc), clearOptionalLineFeed sc))"

section \<open>Lines and fields\<close>

lemma raw_line_of [simp]: "raw_line (line_of content t) = content @ t"
  by (simp add: raw_line_def line_of_def split: prod.split)

lemma line_of_sel [simp]: "el_content (line_of content t) = content" "el_terminator (line_of content t) = t"
  "el_isData (line_of content t) = fst (parseSSEDataLine content)" "el_data (line_of content t) = snd (parseSSEDataLine content)"
  by (simp_all add: line_of_def split: prod.split)

text \<open>No byte of an event is lost.\<close>

lemma concat_lines: "concat (map raw_line (splitSSEEventLines s)) = s"
proof (induction s rule: splitSSEEventLines.induct)
  case (1 s)
  show ?case
  proof (cases "s = []")
    case False
    obtain content t r where n: "next_line s = (content, t, r)" by (cases "next_line s")
    with 1 [OF False n [symmetric] refl] False next_line_append [OF n] show ?thesis
      by (subst splitSSEEventLines.simps) simp
  qed (simp add: splitSSEEventLines.simps)
qed

section \<open>Where an event ends\<close>

text \<open>The first event of an input, by its lines, and what follows it.\<close>

function split_event :: "string \<Rightarrow> (string \<times> string) option" where
  "split_event s =
     (case next_line s of (content, t, r) \<Rightarrow>
        if t = [] then None
        else if content = [] then Some (t, r)
        else map_option (\<lambda>(e, r'). (content @ t @ e, r')) (split_event r))"
  by pat_completeness auto

termination
  by (relation "measure length") (auto dest: next_line_shorter split: prod.splits, metis next_line.simps(1) next_line_shorter prod.inject)

declare split_event.simps [simp del]

lemma split_event_append: "split_event s = Some (e, r) \<Longrightarrow> s = e @ r"
proof (induction s arbitrary: e r rule: split_event.induct)
  case (1 s)
  obtain content t r1 where n: "next_line s = (content, t, r1)" by (cases "next_line s")
  note s = next_line_append [OF n]
  show ?case
  proof (cases "content = []")
    case True
    with "1.prems" n s show ?thesis by (subst (asm) split_event.simps) (auto split: if_splits)
  next
    case False
    from "1.prems" n False obtain e1 where "split_event r1 = Some (e1, r)" and "e = content @ t @ e1" and "t \<noteq> []"
      by (subst (asm) split_event.simps) (auto split: if_splits)
    with 1 (1) [OF n [symmetric] refl _ False] s show ?thesis by auto
  qed
qed

lemma split_event_nonempty: "split_event s = Some (e, r) \<Longrightarrow> e \<noteq> []"
  by (subst (asm) split_event.simps) (auto split: prod.splits if_splits)

lemma split_event_shorter: "split_event s = Some (e, r) \<Longrightarrow> length r < length s"
  using split_event_append split_event_nonempty by fastforce

lemma mark_simps [simp]:
  "bs_lineHasContent (mark h k n sc) = h" "bs_skipLineFeed (mark h k n sc) = k" "bs_scanOffset (mark h k n sc) = n"
  "bs_optionalLineFeed (mark h k n sc) = bs_optionalLineFeed sc"
  "bs_previousInputBytes (mark h k n sc) = bs_previousInputBytes sc" "bs_previousOutputBytes (mark h k n sc) = bs_previousOutputBytes sc"
  "mark h k n (mark h' k' n' sc) = mark h k n sc"
  by (simp_all add: mark_def)

lemma mark_id: "bs_lineHasContent sc = h \<Longrightarrow> bs_skipLineFeed sc = k \<Longrightarrow> bs_scanOffset sc = n \<Longrightarrow> mark h k n sc = sc"
  by (cases sc) (simp add: mark_def)

text \<open>The scanner goes on where it stopped, also between a carriage return and its line feed.\<close>

lemma find_from_resume:
  "find_from xs i sc = (None, sc') \<Longrightarrow> find_from (xs @ ys) i sc = find_from ys (i + length xs) sc'"
proof (induction xs i sc arbitrary: sc' rule: find_from.induct)
  case (2 v rest i sc)
  show ?case
  proof (cases "rest = []")
    case True
    with 2 (6) show ?thesis
      by (cases ys) (auto split: if_splits)
  next
    case False
    then have r: "hd (rest @ ys) = hd rest" "tl (rest @ ys) = tl rest @ ys" "Suc (Suc (i + (length rest - Suc 0))) = Suc (i + length rest)" by (simp_all add: Suc_leI)
    show ?thesis using 2 (1-5) [where sc' = sc'] 2 (6) False r(1,2)
      by (cases "bs_lineHasContent sc") (auto simp: r(3) Suc_le_eq split: if_split_asm)
  qed
qed simp

lemma find_from_found:
  "find_from xs i sc = (Some n, sc') \<Longrightarrow>
     i < n \<and> n \<le> i + length xs \<and>
     find_from (xs @ ys) i sc =
       (if bs_skipLineFeed sc' \<and> n = i + length xs \<and> ys \<noteq> [] \<and> hd ys = LF
        then (Some (Suc n), mark False False (Suc n) sc') else (Some n, sc'))"
proof (induction xs i sc arbitrary: sc' rule: find_from.induct)
  case (2 v rest i sc)
  show ?case
  proof (cases "rest = []")
    case True
    with 2 (6) show ?thesis
      by (cases ys) (auto split: if_splits)
  next
    case False
    then have r: "hd (rest @ ys) = hd rest" "tl (rest @ ys) = tl rest @ ys" "Suc (Suc (i + (length rest - Suc 0))) = Suc (i + length rest)" by (simp_all add: Suc_leI)
    show ?thesis using 2 (1-5) [where sc' = sc'] 2 (6) False r(1,2)
      by (cases "bs_lineHasContent sc") (auto simp: r(3) Suc_le_eq split: if_split_asm)
  qed
qed simp

lemma find_from_state:
  "find_from xs i sc = (Some n, sc') \<Longrightarrow>
     bs_scanOffset sc' = n \<and> \<not> bs_lineHasContent sc' \<and> bs_optionalLineFeed sc' = bs_optionalLineFeed sc
     \<and> (bs_skipLineFeed sc' \<longrightarrow> (\<exists>k. n = i + Suc k \<and> xs ! k = CR \<and> (drop (Suc k) xs = [] \<or> hd (drop (Suc k) xs) \<noteq> LF)))"
proof (induction xs i sc rule: find_from.induct)
  case (2 v rest i sc)
  have k: "\<exists>k. i' = Suc (i + k) \<and> (v # rest) ! k = CR \<and> (drop k rest = [] \<or> hd (drop k rest) \<noteq> LF)"
    if "i' = Suc i + Suc k" "rest ! k = CR" "drop (Suc k) rest = [] \<or> hd (drop (Suc k) rest) \<noteq> LF" for i' k
    using that by (intro exI [of _ "Suc k"]) simp
  have k2: "\<exists>k. i' = Suc (i + k) \<and> (v # rest) ! k = CR \<and> (drop k rest = [] \<or> hd (drop k rest) \<noteq> LF)"
    if "i' = Suc (Suc i) + Suc k" "tl rest ! k = CR" "drop (Suc k) (tl rest) = [] \<or> hd (drop (Suc k) (tl rest)) \<noteq> LF" "rest \<noteq> []" for i' k
    using that by (intro exI [of _ "Suc (Suc k)"]) (auto simp: neq_Nil_conv)
  show ?case
    using 2 k k2 by (auto split: if_split_asm)
qed simp

lemma find_from_none:
  "find_from xs i sc = (None, sc') \<Longrightarrow> bs_scanOffset sc = i \<Longrightarrow>
     bs_scanOffset sc' = i + length xs \<and> bs_optionalLineFeed sc' = bs_optionalLineFeed sc"
  by (induction xs i sc rule: find_from.induct) (auto split: if_splits simp: neq_Nil_conv)

lemma find_from_skip:
  assumes "s = [] \<or> hd s \<noteq> LF"
  shows "fst (find_from s i (mark h True n sc)) = fst (find_from s i (mark h False n sc))"
  using assms by (cases s) auto

lemma find_from_line:
  assumes "next_line s = (content, t, r)"
  shows "fst (find_from s i (mark h False n sc)) =
    (if t = [] then None
     else if content = [] \<and> \<not> h then Some (i + length t)
     else fst (find_from r (i + length content + length t) (mark False False (i + length content + length t) sc)))"
  using assms
proof (induction s arbitrary: content t r i n h rule: next_line.induct)
  case (2 c s)
  show ?case
  proof (cases "c = CR \<or> c = LF")
    case True
    then show ?thesis
      using 2 (2) find_from_skip [of s "Suc i" False "Suc i" sc] by (auto split: if_splits)
  next
    case False
    obtain content' where next_s: "next_line s = (content', t, r)" and c: "content = c # content'"
      using False 2 (2) by (auto split: prod.splits)
    from 2 (1) [OF _ _ next_s, of "Suc i" True "Suc i"] False c show ?thesis by simp
  qed
qed simp

lemma find_from_event:
  "fst (find_from s i (mark False False n sc)) = map_option (\<lambda>(e, r). i + length e) (split_event s)"
proof (induction s arbitrary: i n rule: split_event.induct)
  case (1 s)
  obtain content t r where next_s: "next_line s = (content, t, r)" by (cases "next_line s")
  show ?case
    unfolding find_from_line [OF next_s] split_event.simps [of s] next_s
    using 1 [OF next_s [symmetric] refl, of "i + length content + length t" "i + length content + length t"]
    by (auto simp: option.map_comp comp_def case_prod_beta add.assoc)
qed

section \<open>Lines of a longer input\<close>

lemma next_line_terminator: "next_line s = (content, t, r) \<Longrightarrow> t = [] \<and> r = [] \<or> t = [CR] \<and> (r = [] \<or> hd r \<noteq> LF) \<or> t = [LF] \<or> t = [CR, LF]"
  by (induction s arbitrary: content t r rule: next_line.induct) (auto split: if_splits prod.splits)

lemma next_line_content: "next_line s = (content, t, r) \<Longrightarrow> CR \<notin> set content \<and> LF \<notin> set content"
  by (induction s arbitrary: content t r rule: next_line.induct) (auto split: if_splits prod.splits)

lemma next_line_more:
  "next_line s = (content, t, r) \<Longrightarrow> t \<noteq> [] \<Longrightarrow>
     next_line (s @ ys) = (if r = [] \<and> t = [CR] \<and> ys \<noteq> [] \<and> hd ys = LF then (content, [CR, LF], tl ys) else (content, t, r @ ys))"
proof (induction s arbitrary: content t r rule: next_line.induct)
  case (2 c s)
  then show ?case by (cases "s = []") (auto split: if_splits prod.splits)
qed simp

text \<open>A line feed after a final carriage return belongs to the last line.\<close>

lemma lines_snoc:
  "s \<noteq> [] \<Longrightarrow> last s = CR \<Longrightarrow>
     \<exists>ls content. splitSSEEventLines s = ls @ [line_of content [CR]] \<and> splitSSEEventLines (s @ [LF]) = ls @ [line_of content [CR, LF]]"
proof (induction s rule: splitSSEEventLines.induct)
  case (1 s)
  obtain content t r where n: "next_line s = (content, t, r)" by (cases "next_line s")
  note s = next_line_append [OF n] and t = next_line_terminator [OF n] and c = next_line_content [OF n]
  show ?case
  proof (cases "r = []")
    case True
    have t': "t = [CR]" using t True s c "1.prems" by (auto simp: last_append split: if_splits dest: last_in_set)
    then have "next_line (s @ [LF]) = (content, [CR, LF], [])" using next_line_more [OF n, of "[LF]"] True by simp
    then have "splitSSEEventLines s = [] @ [line_of content [CR]] \<and> splitSSEEventLines (s @ [LF]) = [] @ [line_of content [CR, LF]]"
      using n True t' "1.prems" by (subst (1 2) splitSSEEventLines.simps) (simp add: splitSSEEventLines.simps)
    then show ?thesis by blast
  next
    case False
    have "t \<noteq> []" using t False by auto
    then have n': "next_line (s @ [LF]) = (content, t, r @ [LF])" using next_line_more [OF n, of "[LF]"] False by simp
    have "last r = CR" using s False "1.prems" by simp
    with 1 (1) [OF _ n [symmetric] refl] False "1.prems" obtain ls c' where
      "splitSSEEventLines r = ls @ [line_of c' [CR]]" "splitSSEEventLines (r @ [LF]) = ls @ [line_of c' [CR, LF]]" by auto
    then have "splitSSEEventLines s = (line_of content t # ls) @ [line_of c' [CR]]
        \<and> splitSSEEventLines (s @ [LF]) = (line_of content t # ls) @ [line_of c' [CR, LF]]"
      using n n' "1.prems" by (subst (1 2) splitSSEEventLines.simps) simp
    then show ?thesis by blast
  qed
qed

lemma event_last_line:
  "split_event s = Some (s, []) \<Longrightarrow> splitSSEEventLines s \<noteq> [] \<and> el_content (last (splitSSEEventLines s)) = []
     \<and> el_terminator (last (splitSSEEventLines s)) \<noteq> []"
proof (induction s rule: split_event.induct)
  case (1 s)
  obtain content t r where n: "next_line s = (content, t, r)" by (cases "next_line s")
  note s = next_line_append [OF n]
  have t: "t \<noteq> []" using "1.prems" n by (subst (asm) split_event.simps) (auto split: if_splits)
  have lines: "splitSSEEventLines s = line_of content t # splitSSEEventLines r"
    using n t s by (subst splitSSEEventLines.simps) auto
  show ?case
  proof (cases "content = []")
    case True
    then have "r = []" using "1.prems" n t by (subst (asm) split_event.simps) simp
    with lines t True show ?thesis by (simp add: splitSSEEventLines.simps)
  next
    case False
    then have "split_event r = Some (r, [])" using "1.prems" n t s by (subst (asm) split_event.simps) auto
    from 1 (1) [OF n [symmetric] refl t False this] lines show ?thesis by simp
  qed
qed

lemma replace_data_last: "\<not> el_isData l \<Longrightarrow> replace_data body done (ls @ [l]) = replace_data body done ls @ raw_line l"
  by (induction body "done" ls rule: replace_data.induct) auto

lemma parse_empty [simp]: "parseSSEDataLine [] = (False, [])"
  by (simp add: parseSSEDataLine_def)

text \<open>Rewriting an event with its last line feed is rewriting it without, and appending the line feed.\<close>

lemma rewrite_snoc:
  assumes "split_event e = Some (e, [])" and "last e = CR"
  shows "rewriteSSEEventWithMetadata json rewrite s (e @ [LF]) =
    apfst (map_sum id (\<lambda>r. r\<lparr>ew_body := ew_body r @ [LF]\<rparr>)) (rewriteSSEEventWithMetadata json rewrite s e)"
proof -
  have e: "e \<noteq> []" using split_event_nonempty [OF assms(1)] .
  obtain ls content where l: "splitSSEEventLines e = ls @ [line_of content [CR]]"
    "splitSSEEventLines (e @ [LF]) = ls @ [line_of content [CR, LF]]" using lines_snoc [OF e assms(2)] by blast
  have c: "content = []" using event_last_line [OF assms(1)] l by simp
  show ?thesis
    unfolding rewriteSSEEventWithMetadata_def l c Let_def
    by (auto simp: event_name_def data_values_def event_payload_def replace_data_last split: prod.split sum.split)
qed

section \<open>A rewritten event is one event\<close>

text \<open>Lines with contents \<open>cs\<close> and one terminator.\<close>

definition joined :: "string \<Rightarrow> string list \<Rightarrow> string" where
  "joined t cs = concat (map (\<lambda>c. c @ t) cs)"

definition plain :: "string \<Rightarrow> bool" where
  "plain s \<longleftrightarrow> CR \<notin> set s \<and> LF \<notin> set s"

lemma plain_Nil [simp]: "plain []"
  by (simp add: plain_def)

definition terminator :: "string \<Rightarrow> bool" where
  "terminator t \<longleftrightarrow> t = [CR] \<or> t = [LF] \<or> t = [CR, LF]"

lemma joined_simps [simp]: "joined t [] = []" "joined t (c # cs) = c @ t @ joined t cs"
  by (simp_all add: joined_def)

lemma next_line_plain:
  "plain c \<Longrightarrow> terminator t \<Longrightarrow> (t = [CR] \<Longrightarrow> r = [] \<or> hd r \<noteq> LF) \<Longrightarrow> next_line (c @ t @ r) = (c, t, r)"
  by (induction c) (auto simp: plain_def terminator_def)

lemma joined_head: "terminator t \<Longrightarrow> list_all plain cs \<Longrightarrow> t = [CR] \<Longrightarrow> joined t cs = [] \<or> hd (joined t cs) \<noteq> LF"
  by (cases cs; cases "hd cs") (auto simp: plain_def hd_append)

lemma next_line_joined:
  "terminator t \<Longrightarrow> list_all plain (c # cs) \<Longrightarrow> next_line (joined t (c # cs)) = (c, t, joined t cs)"
  unfolding joined_simps using joined_head [of t cs] by (intro next_line_plain) auto

lemma lines_joined: "terminator t \<Longrightarrow> list_all plain cs \<Longrightarrow> splitSSEEventLines (joined t cs) = map (\<lambda>c. line_of c t) cs"
proof (induction cs)
  case (Cons c cs)
  then have "joined t (c # cs) \<noteq> []" by (auto simp: terminator_def)
  with Cons next_line_joined [OF Cons.prems] show ?case by (subst splitSSEEventLines.simps) (simp del: joined_simps)
qed (simp add: splitSSEEventLines.simps)

lemma split_event_joined:
  "terminator t \<Longrightarrow> list_all plain cs \<Longrightarrow> [] \<notin> set cs \<Longrightarrow> split_event (joined t (cs @ [[]])) = Some (joined t (cs @ [[]]), [])"
proof (induction cs)
  case Nil
  then show ?case by (subst split_event.simps) (auto simp: terminator_def)
next
  case (Cons c cs)
  have "next_line (joined t (c # cs @ [[]])) = (c, t, joined t (cs @ [[]]))"
    using next_line_joined [of t c "cs @ [[]]"] Cons.prems plain_Nil by (simp del: joined_simps)
  with Cons show ?case by (subst split_event.simps) (auto simp: terminator_def)
qed

text \<open>The lines of one event: all are terminated, and exactly the last one is empty.\<close>

lemma event_lines:
  "split_event e = Some (e, []) \<Longrightarrow>
     \<exists>cs. map el_content (splitSSEEventLines e) = cs @ [[]] \<and> [] \<notin> set cs \<and> list_all plain cs
       \<and> (\<forall>l \<in> set (splitSSEEventLines e). terminator (el_terminator l) \<and> l = line_of (el_content l) (el_terminator l))"
proof (induction e rule: split_event.induct)
  case (1 e)
  obtain content t r where n: "next_line e = (content, t, r)" by (cases "next_line e")
  note e = next_line_append [OF n]
  have t: "t \<noteq> []" using "1.prems" n by (subst (asm) split_event.simps) (auto split: if_splits)
  then have tm: "terminator t" using next_line_terminator [OF n] by (auto simp: terminator_def)
  have lines: "splitSSEEventLines e = line_of content t # splitSSEEventLines r"
    using n t e by (subst splitSSEEventLines.simps) auto
  show ?case
  proof (cases "content = []")
    case True
    then have "r = []" using "1.prems" n t by (subst (asm) split_event.simps) simp
    with lines True tm show ?thesis by (simp add: splitSSEEventLines.simps)
  next
    case False
    then have "split_event r = Some (r, [])" using "1.prems" n t e by (subst (asm) split_event.simps) auto
    from 1 (1) [OF n [symmetric] refl t False this] obtain cs where
      "map el_content (splitSSEEventLines r) = cs @ [[]]" "[] \<notin> set cs" "list_all plain cs"
      "\<forall>l \<in> set (splitSSEEventLines r). terminator (el_terminator l) \<and> l = line_of (el_content l) (el_terminator l)" by blast
    with lines False tm next_line_content [OF n, folded plain_def] show ?thesis by (intro exI [of _ "content # cs"]) simp
  qed
qed

text \<open>The contents of the lines after rewriting.\<close>

fun new_contents :: "string \<Rightarrow> bool \<Rightarrow> string list \<Rightarrow> string list" where
  "new_contents body done [] = []"
| "new_contents body done (c # cs) =
     (if fst (parseSSEDataLine c) then (if done then [] else [''data: '' @ body]) @ new_contents body True cs
      else c # new_contents body done cs)"

lemma replace_joined: "replace_data body done (map (\<lambda>c. line_of c t) cs) = joined t (new_contents body done cs)"
  by (induction body "done" cs rule: new_contents.induct) auto

lemma new_contents_blank: "new_contents body done (cs @ [[]]) = new_contents body done cs @ [[]]"
  by (induction body "done" cs rule: new_contents.induct) auto

lemma new_contents_plain:
  "list_all plain cs \<Longrightarrow> plain body \<Longrightarrow> [] \<notin> set cs \<Longrightarrow>
     list_all plain (new_contents body done cs) \<and> [] \<notin> set (new_contents body done cs)"
  by (induction body "done" cs rule: new_contents.induct) (auto simp: plain_def)

lemma parse_new_data [simp]: "parseSSEDataLine (CHR ''d'' # CHR ''a'' # CHR ''t'' # CHR ''a'' # CHR '':'' # CHR '' '' # body) = (True, body)"
  by (simp add: parseSSEDataLine_def sse_field_def)

lemma name_data: "fst (parseSSEDataLine c) \<Longrightarrow> parseSSEEventName c = None"
  by (auto simp: parseSSEDataLine_def parseSSEEventName_def split: if_splits prod.splits)

lemma data_new_contents:
  "data_values (map (\<lambda>c. line_of c t) (new_contents body True cs)) = []"
  "data_values (map (\<lambda>c. line_of c t) (new_contents body False cs)) =
     (if data_values (map (\<lambda>c. line_of c t) cs) = [] then [] else [body])"
  by (induction cs) (auto simp: data_values_def)

lemma name_new_contents:
  "fold (\<lambda>l name. case parseSSEEventName (el_content l) of Some n \<Rightarrow> n | None \<Rightarrow> name) (map (\<lambda>c. line_of c t) (new_contents body done cs)) name
     = fold (\<lambda>l name. case parseSSEEventName (el_content l) of Some n \<Rightarrow> n | None \<Rightarrow> name) (map (\<lambda>c. line_of c t) cs) name"
  by (induction body "done" cs arbitrary: name rule: new_contents.induct) (auto simp: name_data split: option.split)

end
