(* ===== verification/Sse_Stream.thy ===== *)
theory Sse_Stream
  imports Sse_Framing
begin

text \<open>
  The reader that rewrites an event stream while it passes (\<open>sseRewriteStream\<close> in
  \<open>src/internal/gateway/stream_rewrite.go\<close>). What the body delivers is a script of reads, each with its bytes
  and the error it reports; a read that does not fit the buffer is delivered in parts. The callback has a state
  of its own. \<open>closes i\<close> says that \<open>Close\<close> runs while round \<open>i\<close> of \<open>Read\<close> has released the lock.

  \<open>Read\<close> is a loop; the fuel it is given here is shown to be enough for every state. The reference
  \<open>sse_output\<close> cuts the whole input into events and rewrites one after the other. \<open>Read\<close> is shown to
  deliver it, in whatever pieces the bytes arrive and are asked for.
\<close>

section \<open>The stream\<close>

datatype bodyEnd = BodyEOF | BodyFailed string

type_synonym body_script = "(string \<times> bodyEnd option) list"

datatype streamError =
    StreamEOF | ErrSSEEventTooLarge | ErrSSEEventIncomplete | ErrClosedPipe | ErrNoProgress | ErrStreamRequired
  | ErrReadStream string | ErrRewritePayload string

record 's sseRewriteStream =
  ss_body :: "body_script option"
  ss_rewrite :: "('s, string) sseEventPayloadRewriter option"
  ss_callback :: 's
  ss_maxEventBytes :: nat
  ss_pending :: string
  ss_output :: string
  ss_scanner :: sseRewriteBoundaryScanner
  ss_deferredErr :: "bodyEnd option"
  ss_readEndedTerminal :: bool
  ss_outputEndsEvent :: bool
  ss_outputEndsTerminal :: bool
  ss_finished :: bool
  ss_closed :: bool

definition maxSSEEventBytes :: nat where
  "maxSSEEventBytes = 10 * 2 ^ 20"

definition streamReadBufferSize :: nat where
  "streamReadBufferSize = 32 * 1024"

definition normalizedSSEEventLimit :: "int \<Rightarrow> nat" where
  "normalizedSSEEventLimit limit = (if 0 < limit then nat limit else maxSSEEventBytes)"

definition newSSEEventRewriteStream ::
  "body_script option \<Rightarrow> int \<Rightarrow> ('s, string) sseEventPayloadRewriter option \<Rightarrow> 's \<Rightarrow> 's sseRewriteStream" where
  "newSSEEventRewriteStream body limit rewrite s =
     \<lparr>ss_body = body, ss_rewrite = rewrite, ss_callback = s, ss_maxEventBytes = normalizedSSEEventLimit limit,
      ss_pending = [], ss_output = [], ss_scanner = Scanner_Reset, ss_deferredErr = None, ss_readEndedTerminal = False,
      ss_outputEndsEvent = False, ss_outputEndsTerminal = False, ss_finished = False, ss_closed = False\<rparr>"

definition finishLocked :: "'s sseRewriteStream \<Rightarrow> 's sseRewriteStream" where
  "finishLocked st =
     st\<lparr>ss_pending := [], ss_output := [], ss_readEndedTerminal := False, ss_outputEndsEvent := False,
        ss_outputEndsTerminal := False, ss_deferredErr := None, ss_finished := True, ss_scanner := Scanner_Reset\<rparr>"

definition Stream_Close :: "'s sseRewriteStream \<Rightarrow> 's sseRewriteStream" where
  "Stream_Close st =
     (if ss_closed st then st
      else st\<lparr>ss_closed := True, ss_body := None, ss_rewrite := None, ss_pending := [], ss_output := [],
              ss_outputEndsEvent := False, ss_outputEndsTerminal := False, ss_scanner := Scanner_Reset, ss_deferredErr := None,
              ss_finished := True\<rparr>)"

definition consumeReadTerminalBoundary :: "'s sseRewriteStream \<Rightarrow> bool \<times> 's sseRewriteStream" where
  "consumeReadTerminalBoundary st = (ss_readEndedTerminal st, st\<lparr>ss_readEndedTerminal := False\<rparr>)"

text \<open>One read of the body into a buffer of \<open>limit\<close> bytes; after its script the body is at its end.\<close>

fun body_read :: "nat \<Rightarrow> body_script \<Rightarrow> (string \<times> bodyEnd option) \<times> body_script" where
  "body_read limit [] = (([], Some BodyEOF), [])"
| "body_read limit ((bytes, err) # script) =
     (if length bytes \<le> limit then ((bytes, err), script)
      else ((take limit bytes, None), (drop limit bytes, err) # script))"

section \<open>Read\<close>

datatype 's read_step = ReadDone "streamError + string" "'s sseRewriteStream" | ReadAgain nat "'s sseRewriteStream"

definition fail_read :: "streamError \<Rightarrow> 's sseRewriteStream \<Rightarrow> 's read_step" where
  "fail_read e st = ReadDone (Inl e) (finishLocked st)"

definition deliver_output :: "nat \<Rightarrow> 's sseRewriteStream \<Rightarrow> 's read_step" where
  "deliver_output len st =
     (let rest = drop len (ss_output st);
          st1 = st\<lparr>ss_output := rest\<rparr>
      in ReadDone (Inr (take len (ss_output st)))
           (if rest = []
            then st1\<lparr>ss_readEndedTerminal := ss_readEndedTerminal st \<or> (ss_outputEndsEvent st \<and> ss_outputEndsTerminal st),
                     ss_outputEndsEvent := False, ss_outputEndsTerminal := False\<rparr>
            else st1))"

definition rewrite_event :: "envelope_json \<Rightarrow> bool \<Rightarrow> nat \<Rightarrow> nat \<Rightarrow> 's sseRewriteStream \<Rightarrow> 's read_step" where
  "rewrite_event json closing zeroReads eventEnd st =
     (if ss_maxEventBytes st < eventEnd then fail_read ErrSSEEventTooLarge st
      else
        let event = take eventEnd (ss_pending st);
            st1 = st\<lparr>ss_pending := drop eventEnd (ss_pending st)\<rparr>;
            unlocked = (if closing then Stream_Close else id)
        in case ss_rewrite st of
             None \<Rightarrow> fail_read (ErrRewritePayload ''callback'') (unlocked st1)
           | Some rewrite \<Rightarrow>
               (case rewriteSSEEventWithMetadata json rewrite (ss_callback st) event of (rewritten, s) \<Rightarrow>
                  let st2 = unlocked (st1\<lparr>ss_callback := s\<rparr>) in
                  case rewritten of
                    Inl err \<Rightarrow> fail_read (ErrRewritePayload err) st2
                  | Inr r \<Rightarrow>
                      if ss_maxEventBytes st < length (ew_body r) then fail_read ErrSSEEventTooLarge st2
                      else if ss_closed st2 then ReadDone (Inl ErrClosedPipe) st2
                      else ReadAgain zeroReads
                        (st2\<lparr>ss_scanner := AfterEvent eventEnd (length (ew_body r)) (ss_scanner st2), ss_output := ew_body r,
                             ss_outputEndsEvent := True, ss_outputEndsTerminal := ew_terminal r\<rparr>)))"

definition read_body :: "bool \<Rightarrow> nat \<Rightarrow> 's sseRewriteStream \<Rightarrow> 's read_step" where
  "read_body closing zeroReads st =
     (case (ss_body st, ss_rewrite st) of
        (Some body, Some _) \<Rightarrow>
          let readLimit = min streamReadBufferSize (ss_maxEventBytes st + 1 - length (ss_pending st)) in
          (case body_read readLimit body of ((bytes, err), body') \<Rightarrow>
             let st1 = st\<lparr>ss_body := Some body'\<rparr> in
             if closing then ReadDone (Inl ErrClosedPipe) (Stream_Close st1)
             else
               let st2 = st1\<lparr>ss_pending := ss_pending st @ bytes,
                             ss_deferredErr := (case err of None \<Rightarrow> ss_deferredErr st | Some e \<Rightarrow> Some e)\<rparr>;
                   zeroReads' = (if bytes \<noteq> [] then 0 else if err = None then Suc zeroReads else zeroReads)
               in if 100 \<le> zeroReads' then fail_read ErrNoProgress st2 else ReadAgain zeroReads' st2)
      | _ \<Rightarrow> fail_read ErrStreamRequired st)"

definition end_error :: "string \<Rightarrow> bodyEnd \<Rightarrow> streamError" where
  "end_error left e = (case e of BodyEOF \<Rightarrow> if left \<noteq> [] then ErrSSEEventIncomplete else StreamEOF | BodyFailed m \<Rightarrow> ErrReadStream m)"

text \<open>One round of the loop.\<close>

definition read_round :: "envelope_json \<Rightarrow> nat \<Rightarrow> bool \<Rightarrow> nat \<Rightarrow> 's sseRewriteStream \<Rightarrow> 's read_step" where
  "read_round json len closing zeroReads st =
     (if ss_closed st then ReadDone (Inl ErrClosedPipe) st
      else if ss_finished st then ReadDone (Inl StreamEOF) st
      else if ss_output st \<noteq> [] then deliver_output len st
      else case ConsumeOptionalLineFeed (ss_pending st) (ss_deferredErr st \<noteq> None) (ss_maxEventBytes st) (ss_scanner st) of
        ((optionalLF, overflow), sc1) \<Rightarrow>
          let st1 = st\<lparr>ss_scanner := sc1\<rparr> in
          if overflow then fail_read ErrSSEEventTooLarge st1
          else if 0 < optionalLF
          then ReadAgain zeroReads (st1\<lparr>ss_pending := drop optionalLF (ss_pending st), ss_output := [LF],
                 ss_outputEndsEvent := False, ss_outputEndsTerminal := False\<rparr>)
          else (case Scanner_Find (ss_pending st) sc1 of (eventEnd, sc2) \<Rightarrow>
            let st2 = st1\<lparr>ss_scanner := sc2\<rparr> in
            (case eventEnd of
               Some n \<Rightarrow> rewrite_event json closing zeroReads n st2
             | None \<Rightarrow>
                 if ss_maxEventBytes st < length (ss_pending st) then fail_read ErrSSEEventTooLarge st2
                 else (case ss_deferredErr st of
                   Some e \<Rightarrow> fail_read (end_error (ss_pending st) e) (st2\<lparr>ss_deferredErr := None\<rparr>)
                 | None \<Rightarrow> read_body closing zeroReads st2))))"

fun read_loop ::
  "envelope_json \<Rightarrow> nat \<Rightarrow> (nat \<Rightarrow> bool) \<Rightarrow> nat \<Rightarrow> nat \<Rightarrow> nat \<Rightarrow> 's sseRewriteStream
     \<Rightarrow> ((streamError + string) \<times> 's sseRewriteStream) option" where
  "read_loop json len closes i 0 zeroReads st = None"
| "read_loop json len closes i (Suc fuel) zeroReads st =
     (case read_round json len (closes i) zeroReads st of
        ReadDone r st' \<Rightarrow> Some (r, st')
      | ReadAgain zeroReads' st' \<Rightarrow> read_loop json len closes (Suc i) fuel zeroReads' st')"

definition script_size :: "body_script \<Rightarrow> nat" where
  "script_size script = length script + 2 * length (concat (map fst script))"

definition read_work :: "'s sseRewriteStream \<Rightarrow> nat" where
  "read_work st =
     length (ss_pending st) + (case ss_body st of None \<Rightarrow> 0 | Some script \<Rightarrow> script_size script)
     + (if ss_deferredErr st = None then 1 else 0)"

definition Stream_Read ::
  "envelope_json \<Rightarrow> nat \<Rightarrow> (nat \<Rightarrow> bool) \<Rightarrow> 's sseRewriteStream
     \<Rightarrow> ((streamError + string) \<times> 's sseRewriteStream) option" where
  "Stream_Read json len closes st =
     (if len = 0 then Some (Inr [], st)
      else read_loop json len closes 0 (Suc (read_work st)) 0 (st\<lparr>ss_readEndedTerminal := False\<rparr>))"

section \<open>Read always returns\<close>

lemma body_read_size:
  assumes "body_read limit script = ((bytes, err), script')" and "0 < limit"
  shows "length bytes + script_size script' < script_size script \<or> script = [] \<and> script' = [] \<and> bytes = [] \<and> err = Some BodyEOF"
  using assms by (cases "(limit, script)" rule: body_read.cases) (auto simp: script_size_def split: if_splits)

lemma Scanner_Find_pos: "Scanner_Find data sc = (Some n, sc') \<Longrightarrow> 0 < n \<and> n \<le> length data"
  using find_from_found [of "drop (min (bs_scanOffset sc) (length data)) data" "min (bs_scanOffset sc) (length data)" sc n sc' "[]"]
  by (auto simp: Scanner_Find_def Let_def)

lemma rewrite_event_work:
  assumes "rewrite_event json closing z n st = ReadAgain z' st'" and "0 < n" and "n \<le> length (ss_pending st)"
  shows "read_work st' < read_work st"
  using assms
  by (auto simp: rewrite_event_def fail_read_def read_work_def Let_def Stream_Close_def
      split: if_splits option.splits sum.splits prod.splits)

lemma read_body_work:
  assumes "read_body closing z st = ReadAgain z' st'" and "length (ss_pending st) \<le> ss_maxEventBytes st" and "ss_deferredErr st = None"
  shows "read_work st' < read_work st"
proof -
  obtain body rw where b: "ss_body st = Some body" "ss_rewrite st = Some rw"
    using assms(1) by (auto simp: read_body_def fail_read_def split: option.splits)
  let ?limit = "min streamReadBufferSize (ss_maxEventBytes st + 1 - length (ss_pending st))"
  obtain bytes err body' where r: "body_read ?limit body = ((bytes, err), body')" by (metis prod.exhaust)
  have "0 < ?limit" using assms(2) by (simp add: streamReadBufferSize_def)
  from body_read_size [OF r this] assms(1,3) b r show ?thesis
    by (auto simp: read_body_def read_work_def fail_read_def Let_def split: if_splits option.splits)
qed

lemma read_round_work:
  assumes "read_round json len closing z st = ReadAgain z' st'"
  shows "read_work st' < read_work st"
proof -
  obtain lf overflow sc1 where c: "ConsumeOptionalLineFeed (ss_pending st) (ss_deferredErr st \<noteq> None) (ss_maxEventBytes st) (ss_scanner st)
      = ((lf, overflow), sc1)" by (metis prod.exhaust)
  have out: "ss_output st = []" "\<not> ss_closed st" "\<not> ss_finished st"
    using assms by (auto simp: read_round_def deliver_output_def Let_def split: if_splits)
  have ov: "\<not> overflow" using assms out c by (auto simp: read_round_def fail_read_def Let_def split: if_splits)
  show ?thesis
  proof (cases "0 < lf")
    case True
    then have "ss_pending st \<noteq> []" using c by (auto simp: ConsumeOptionalLineFeed_def split: if_splits)
    with True assms out c ov show ?thesis by (auto simp: read_round_def read_work_def Let_def)
  next
    case False
    obtain found sc2 where f: "Scanner_Find (ss_pending st) sc1 = (found, sc2)" by (metis prod.exhaust)
    let ?st2 = "st\<lparr>ss_scanner := sc2\<rparr>"
    have w: "read_work ?st2 = read_work st" by (simp add: read_work_def)
    show ?thesis
    proof (cases found)
      case (Some n)
      then have "rewrite_event json closing z n ?st2 = ReadAgain z' st'"
        using assms out c ov False f by (simp add: read_round_def Let_def)
      from rewrite_event_work [OF this] Scanner_Find_pos f Some w show ?thesis by auto
    next
      case None
      then have "read_body closing z ?st2 = ReadAgain z' st'" "length (ss_pending st) \<le> ss_maxEventBytes st" "ss_deferredErr st = None"
        using assms out c ov False f by (auto simp: read_round_def fail_read_def Let_def split: if_splits option.splits)
      from read_body_work [OF this(1)] this(2,3) w show ?thesis by simp
    qed
  qed
qed

lemma read_loop_returns: "read_work st < fuel \<Longrightarrow> \<exists>r st'. read_loop json len closes i fuel z st = Some (r, st')"
proof (induction fuel arbitrary: i z st)
  case (Suc fuel)
  show ?case
  proof (cases "read_round json len (closes i) z st")
    case (ReadAgain z' st')
    with read_round_work [OF ReadAgain] Suc show ?thesis by simp
  qed simp
qed simp

lemma Stream_Read_returns: "\<exists>r st'. Stream_Read json len closes st = Some (r, st')"
proof (cases "len = 0")
  case False
  have "read_work (st\<lparr>ss_readEndedTerminal := False\<rparr>) < Suc (read_work st)" by (simp add: read_work_def)
  from read_loop_returns [OF this] False show ?thesis by (simp add: Stream_Read_def)
qed (simp add: Stream_Read_def)

section \<open>The reference\<close>

text \<open>
  The bytes and the end of a body, whatever the pieces it comes in, and what the whole input turns into:
  the rewritten events up to the first failure, and that failure or the end.
\<close>

fun script_bytes :: "body_script \<Rightarrow> string" where
  "script_bytes [] = []"
| "script_bytes ((bytes, None) # script) = bytes @ script_bytes script"
| "script_bytes ((bytes, Some e) # script) = bytes"

fun script_end :: "body_script \<Rightarrow> bodyEnd" where
  "script_end [] = BodyEOF"
| "script_end ((bytes, None) # script) = script_end script"
| "script_end ((bytes, Some e) # script) = e"

definition prepend :: "string \<Rightarrow> string \<times> streamError \<Rightarrow> string \<times> streamError" where
  "prepend out r = (out @ fst r, snd r)"

function sse_output ::
  "envelope_json \<Rightarrow> ('s, string) sseEventPayloadRewriter \<Rightarrow> nat \<Rightarrow> 's \<Rightarrow> string \<Rightarrow> bodyEnd \<Rightarrow> string \<times> streamError" where
  "sse_output json rewrite limit s bytes ending =
     (case split_event bytes of
        None \<Rightarrow> ([], if limit < length bytes then ErrSSEEventTooLarge else end_error bytes ending)
      | Some (event, rest) \<Rightarrow>
          if limit < length event then ([], ErrSSEEventTooLarge)
          else (case rewriteSSEEventWithMetadata json rewrite s event of
              (Inl err, s') \<Rightarrow> ([], ErrRewritePayload err)
            | (Inr r, s') \<Rightarrow>
                if limit < length (ew_body r) then ([], ErrSSEEventTooLarge)
                else prepend (ew_body r) (sse_output json rewrite limit s' rest ending)))"
  by pat_completeness auto

termination
  by (relation "measure (\<lambda>(_, _, _, _, bytes, _). length bytes)") (auto dest: split_event_shorter)

declare sse_output.simps [simp del]

text \<open>
  An event too large by its last line feed is refused before it is delivered when the line feed is there, and
  after it was delivered when the line feed comes later. So a run follows the reference, or the reference
  refuses an event and the run, having delivered at least as much, fails as well.
\<close>

definition follows :: "string \<times> streamError \<Rightarrow> string \<times> streamError \<Rightarrow> bool" where
  "follows expected actual \<longleftrightarrow>
     actual = expected
     \<or> snd expected = ErrSSEEventTooLarge \<and> prefix (fst expected) (fst actual) \<and> snd actual \<noteq> StreamEOF"

lemma follows_refl [simp]: "follows r r"
  by (simp add: follows_def)

lemma follows_trans: "follows a b \<Longrightarrow> follows b c \<Longrightarrow> follows a c"
  by (auto simp: follows_def intro: prefix_order.trans)

lemma follows_prepend: "follows a b \<Longrightarrow> follows (prepend out a) (prepend out b)"
  by (auto simp: follows_def prepend_def)

lemma prepend_prepend [simp]: "prepend a (prepend b r) = prepend (a @ b) r" and prepend_Nil [simp]: "prepend [] r = r"
  by (simp_all add: prepend_def)

text \<open>What a stream that is neither closed nor finished will still deliver.\<close>

definition left_bytes :: "'s sseRewriteStream \<Rightarrow> string" where
  "left_bytes st = ss_pending st @ (if ss_deferredErr st = None then script_bytes (the (ss_body st)) else [])"

definition left_end :: "'s sseRewriteStream \<Rightarrow> bodyEnd" where
  "left_end st = (case ss_deferredErr st of Some e \<Rightarrow> e | None \<Rightarrow> script_end (the (ss_body st)))"

definition after_output :: "envelope_json \<Rightarrow> 's sseRewriteStream \<Rightarrow> string \<times> streamError" where
  "after_output json st =
     (let rest = sse_output json (the (ss_rewrite st)) (ss_maxEventBytes st) (ss_callback st);
          bytes = left_bytes st; sc = ss_scanner st
      in if bs_optionalLineFeed sc \<and> bytes \<noteq> [] \<and> hd bytes = LF
         then if ss_maxEventBytes st \<le> bs_previousInputBytes sc \<or> ss_maxEventBytes st \<le> bs_previousOutputBytes sc
              then ([], ErrSSEEventTooLarge) else prepend [LF] (rest (tl bytes) (left_end st))
         else rest bytes (left_end st))"

definition remaining :: "envelope_json \<Rightarrow> 's sseRewriteStream \<Rightarrow> string \<times> streamError" where
  "remaining json st = prepend (ss_output st) (after_output json st)"

text \<open>
  The scanner has read the pending bytes up to its offset without finding an event, and a body never
  reports neither bytes nor an error.
\<close>

definition fresh :: "sseRewriteBoundaryScanner \<Rightarrow> sseRewriteBoundaryScanner" where
  "fresh sc = mark False False 0 sc"

definition scanner_ok :: "string \<Rightarrow> sseRewriteBoundaryScanner \<Rightarrow> bool" where
  "scanner_ok pending sc \<longleftrightarrow>
     bs_scanOffset sc \<le> length pending \<and> find_from (take (bs_scanOffset sc) pending) 0 (fresh sc) = (None, sc)
     \<and> (bs_optionalLineFeed sc \<longrightarrow> bs_scanOffset sc = 0)"

definition live_script :: "body_script \<Rightarrow> bool" where
  "live_script script \<longleftrightarrow> (\<forall>(bytes, err) \<in> set script. bytes \<noteq> [] \<or> err \<noteq> None)"

definition stream_ok :: "'s sseRewriteStream \<Rightarrow> bool" where
  "stream_ok st \<longleftrightarrow>
     \<not> ss_closed st \<and> \<not> ss_finished st \<and> ss_rewrite st \<noteq> None \<and> scanner_ok (ss_pending st) (ss_scanner st)
     \<and> (\<exists>script. ss_body st = Some script \<and> live_script script)"

lemma scanner_ok_fresh: "bs_scanOffset sc = 0 \<Longrightarrow> \<not> bs_lineHasContent sc \<Longrightarrow> \<not> bs_skipLineFeed sc \<Longrightarrow> scanner_ok pending sc"
  by (simp add: scanner_ok_def fresh_def mark_id)

lemma scanner_ok_Reset [simp]: "scanner_ok pending Scanner_Reset"
  by (simp add: Scanner_Reset_def scanner_ok_fresh)

lemma scanner_ok_AfterEvent [simp]: "scanner_ok pending (AfterEvent n m sc)"
  by (simp add: AfterEvent_def scanner_ok_fresh)

text \<open>What \<open>Find\<close> says of the pending bytes, in terms of all bytes still to come.\<close>

lemma Find_resumes: "scanner_ok pending sc \<Longrightarrow> Scanner_Find pending sc = find_from pending 0 (fresh sc)"
  using find_from_resume [of "take (bs_scanOffset sc) pending" 0 "fresh sc" sc "drop (bs_scanOffset sc) pending"]
  by (auto simp: Scanner_Find_def scanner_ok_def Let_def min_def)

lemma find_from_fresh: "find_from xs i sc = (r, sc') \<Longrightarrow> mark False False 0 sc' = mark False False 0 sc"
  by (induction xs i sc rule: find_from.induct) (auto split: if_splits)

lemma Find_none:
  assumes "scanner_ok pending sc" and "Scanner_Find pending sc = (None, sc')"
  shows "\<not> bs_optionalLineFeed sc \<Longrightarrow> scanner_ok (pending @ ys) sc'"
    and "split_event (pending @ ys) = Some (event, rest) \<Longrightarrow> length pending < length event"
    and "split_event pending = None"
proof -
  have f: "find_from pending 0 (fresh sc) = (None, sc')" using assms Find_resumes by metis
  note n = find_from_none [OF f]
  have "fresh sc' = fresh sc"
    using find_from_fresh [OF f] by (simp add: fresh_def)
  with n f show "\<not> bs_optionalLineFeed sc \<Longrightarrow> scanner_ok (pending @ ys) sc'"
    by (simp add: scanner_ok_def fresh_def mark_def)
  have all: "fst (find_from (pending @ ys) 0 (fresh sc)) = map_option (\<lambda>(e, r). length e) (split_event (pending @ ys))" for ys
    using find_from_event [of "pending @ ys" 0 0 sc] by (simp add: fresh_def)
  show "split_event pending = None" using all [of "[]"] f by simp
  show "split_event (pending @ ys) = Some (event, rest) \<Longrightarrow> length pending < length event"
    using all [of ys] find_from_resume [OF f, of ys] find_from_found [of ys "length pending" sc' "length event" _ "[]"]
    by (cases "find_from ys (length pending) sc'") auto
qed

lemma Find_some:
  assumes ok: "scanner_ok pending sc" and f: "Scanner_Find pending sc = (Some n, sc')"
  shows "0 < n" and "n \<le> length pending"
    and "bs_skipLineFeed sc' \<and> n = length pending \<and> ys \<noteq> [] \<and> hd ys = LF \<Longrightarrow>
      split_event (pending @ ys) = Some (pending @ [LF], tl ys) \<and> split_event pending = Some (pending, []) \<and> last pending = CR"
    and "\<not> (bs_skipLineFeed sc' \<and> n = length pending \<and> ys \<noteq> [] \<and> hd ys = LF) \<Longrightarrow>
      split_event (pending @ ys) = Some (take n pending, drop n pending @ ys)
      \<and> (bs_skipLineFeed sc' \<longrightarrow> drop n pending @ ys = [] \<or> hd (drop n pending @ ys) \<noteq> LF)"
proof -
  have g: "find_from pending 0 (fresh sc) = (Some n, sc')" using assms Find_resumes by metis
  show "0 < n" "n \<le> length pending" using Scanner_Find_pos [OF f] by simp_all
  note found = find_from_found [OF g] and state = find_from_state [OF g]
  have all: "fst (find_from (pending @ ys) 0 (fresh sc)) = map_option (\<lambda>(e, r). length e) (split_event (pending @ ys))" for ys
    using find_from_event [of "pending @ ys" 0 0 sc] by (simp add: fresh_def)
  have cut: "split_event (pending @ ys) = Some (take m (pending @ ys), drop m (pending @ ys))"
    if "fst (find_from (pending @ ys) 0 (fresh sc)) = Some m" for m ys
  proof -
    from all [of ys] that obtain e r where e: "split_event (pending @ ys) = Some (e, r)" and "m = length e"
      by (cases "split_event (pending @ ys)") auto
    with split_event_append [OF e] show ?thesis by simp
  qed
  show "split_event (pending @ ys) = Some (pending @ [LF], tl ys) \<and> split_event pending = Some (pending, []) \<and> last pending = CR"
    if "bs_skipLineFeed sc' \<and> n = length pending \<and> ys \<noteq> [] \<and> hd ys = LF"
    using that found [of ys] cut [of ys "Suc n"] cut [of "[]" n] g state
    by (auto simp: last_conv_nth neq_Nil_conv)
  show "split_event (pending @ ys) = Some (take n pending, drop n pending @ ys)
      \<and> (bs_skipLineFeed sc' \<longrightarrow> drop n pending @ ys = [] \<or> hd (drop n pending @ ys) \<noteq> LF)"
    if "\<not> (bs_skipLineFeed sc' \<and> n = length pending \<and> ys \<noteq> [] \<and> hd ys = LF)"
    using that found [of ys] cut [of ys n] state \<open>n \<le> length pending\<close> by (auto simp: hd_append)
qed

section \<open>Read follows the reference\<close>

text \<open>What a round must do: deliver the first bytes of what remains, fail as what remains says, or go on.\<close>

definition round_ok :: "envelope_json \<Rightarrow> 's sseRewriteStream \<Rightarrow> 's read_step \<Rightarrow> bool" where
  "round_ok json st step =
     (case step of
        ReadDone (Inr out) st' \<Rightarrow> stream_ok st' \<and> out \<noteq> [] \<and> remaining json st = prepend out (remaining json st')
      | ReadDone (Inl e) st' \<Rightarrow> follows (remaining json st) ([], e)
      | ReadAgain zeroReads st' \<Rightarrow> zeroReads = 0 \<and> stream_ok st' \<and> follows (remaining json st) (remaining json st'))"

lemma deliver_output_ok:
  assumes "stream_ok st" and "ss_output st \<noteq> []" and "0 < len"
  shows "round_ok json st (deliver_output len st)"
  using assms
  by (auto simp: deliver_output_def round_ok_def stream_ok_def remaining_def after_output_def left_bytes_def left_end_def Let_def)

lemma too_large_follows: "snd expected = ErrSSEEventTooLarge \<Longrightarrow> e \<noteq> StreamEOF \<Longrightarrow> fst expected = [] \<Longrightarrow> follows expected ([], e)"
  by (cases expected) (simp add: follows_def)

text \<open>The rest of the input when no line feed is left to skip.\<close>

lemma after_output_plain:
  "\<not> bs_optionalLineFeed (ss_scanner st) \<or> left_bytes st = [] \<or> hd (left_bytes st) \<noteq> LF \<Longrightarrow>
     after_output json st =
       sse_output json (the (ss_rewrite st)) (ss_maxEventBytes st) (ss_callback st) (left_bytes st) (left_end st)"
  by (auto simp: after_output_def Let_def)

lemma rewrite_event_ok:
  assumes "stream_ok st" and "ss_output st = []" and "\<not> bs_optionalLineFeed (ss_scanner st)"
    and f: "Scanner_Find (ss_pending st) (ss_scanner st) = (Some n, sc)"
  shows "round_ok json st (rewrite_event json False 0 n (st\<lparr>ss_scanner := sc\<rparr>))"
proof -
  obtain rewrite where rw: "ss_rewrite st = Some rewrite" using assms(1) by (auto simp: stream_ok_def)
  let ?max = "ss_maxEventBytes st" and ?e = "take n (ss_pending st)"
  define ys where "ys = (if ss_deferredErr st = None then script_bytes (the (ss_body st)) else [])"
  have left: "left_bytes st = ss_pending st @ ys" by (simp add: left_bytes_def ys_def)
  let ?spec = "\<lambda>s bytes. sse_output json rewrite ?max s bytes (left_end st)"
  have rem: "remaining json st = ?spec (ss_callback st) (ss_pending st @ ys)"
    using assms(2,3) by (simp add: remaining_def after_output_plain rw left)
  have ok: "scanner_ok (ss_pending st) (ss_scanner st)" using assms(1) by (simp add: stream_ok_def)
  note find = Find_some(3,4) [OF ok f, of ys]
  obtain rewritten s' where r: "rewriteSSEEventWithMetadata json rewrite (ss_callback st) ?e = (rewritten, s')" by fastforce
  define st' where "st' = (\<lambda>r :: sseEventRewriteResult. st\<lparr>ss_pending := drop n (ss_pending st), ss_callback := s', ss_scanner := AfterEvent n (length (ew_body r)) sc,
      ss_output := ew_body r, ss_outputEndsEvent := True, ss_outputEndsTerminal := ew_terminal r\<rparr>)"
  have ok': "stream_ok (st' r)" for r using assms(1) by (auto simp: stream_ok_def st'_def)
  have sel: "ss_output (st' r) = ew_body r" "ss_rewrite (st' r) = Some rewrite" "ss_callback (st' r) = s'" "ss_maxEventBytes (st' r) = ?max"
    "ss_scanner (st' r) = AfterEvent n (length (ew_body r)) sc" for r
    by (simp_all add: st'_def rw)
  have left': "left_bytes (st' r) = drop n (ss_pending st) @ ys" "left_end (st' r) = left_end st" for r
    by (simp_all add: left_bytes_def ys_def left_end_def st'_def cong: option.case_cong)
  have step: "rewrite_event json False 0 n (st\<lparr>ss_scanner := sc\<rparr>) =
     (if ?max < n then fail_read ErrSSEEventTooLarge (st\<lparr>ss_scanner := sc\<rparr>)
      else case rewritten of
        Inl err \<Rightarrow> fail_read (ErrRewritePayload err) (st\<lparr>ss_scanner := sc, ss_pending := drop n (ss_pending st), ss_callback := s'\<rparr>)
      | Inr r \<Rightarrow> if ?max < length (ew_body r)
          then fail_read ErrSSEEventTooLarge (st\<lparr>ss_scanner := sc, ss_pending := drop n (ss_pending st), ss_callback := s'\<rparr>)
          else ReadAgain 0 (st' r))"
    using assms(1) by (simp add: rewrite_event_def rw r Let_def stream_ok_def st'_def split: sum.split)
  show ?thesis
  proof (cases "bs_skipLineFeed sc \<and> n = length (ss_pending st) \<and> ys \<noteq> [] \<and> hd ys = LF")
    case True
    note split = find(1) [OF True]
    have e: "?e = ss_pending st" using True by simp
    have r': "rewriteSSEEventWithMetadata json rewrite (ss_callback st) (ss_pending st @ [LF]) =
        (map_sum id (\<lambda>r. r\<lparr>ew_body := ew_body r @ [LF]\<rparr>) rewritten, s')"
      using rewrite_snoc [of "ss_pending st" json rewrite "ss_callback st"] split r e by simp
    have spec: "?spec (ss_callback st) (ss_pending st @ ys) =
        (if ?max < Suc n then ([], ErrSSEEventTooLarge)
         else case rewritten of Inl err \<Rightarrow> ([], ErrRewritePayload err)
           | Inr r \<Rightarrow> if ?max < Suc (length (ew_body r)) then ([], ErrSSEEventTooLarge)
                    else prepend (ew_body r @ [LF]) (?spec s' (tl ys)))"
      using True by (subst sse_output.simps) (simp add: split r' split: sum.split)
    have after: "remaining json (st' r) = prepend (ew_body r)
        (if ?max \<le> n \<or> ?max \<le> length (ew_body r) then ([], ErrSSEEventTooLarge) else prepend [LF] (?spec s' (tl ys)))" for r
      unfolding remaining_def after_output_def left' sel Let_def using True by (simp add: AfterEvent_def)
    show ?thesis
      unfolding step round_ok_def rem spec using ok' after
      by (auto simp: fail_read_def less_Suc_eq_le prepend_def follows_def split: sum.split)
  next
    case False
    note split = find(2) [OF False]
    have len: "length ?e = n" using Find_some(2) [OF ok f] by simp
    have spec: "?spec (ss_callback st) (ss_pending st @ ys) =
        (if ?max < n then ([], ErrSSEEventTooLarge)
         else case rewritten of Inl err \<Rightarrow> ([], ErrRewritePayload err)
           | Inr r \<Rightarrow> if ?max < length (ew_body r) then ([], ErrSSEEventTooLarge)
                    else prepend (ew_body r) (?spec s' (drop n (ss_pending st) @ ys)))"
      by (subst sse_output.simps) (simp add: split r len del: length_take split: sum.split)
    have after: "remaining json (st' r) = prepend (ew_body r) (?spec s' (drop n (ss_pending st) @ ys))" for r
      using split after_output_plain [of "st' r" json] unfolding remaining_def left' sel by (simp add: AfterEvent_def)
    show ?thesis
      unfolding step round_ok_def rem spec using ok' after
      by (auto simp: fail_read_def split: sum.split)
  qed
qed

lemma body_read_bytes:
  assumes "body_read limit script = ((bytes, err), script')"
  shows "script_bytes script = bytes @ (if err = None then script_bytes script' else [])"
    and "script_end script = (case err of None \<Rightarrow> script_end script' | Some e \<Rightarrow> e)"
    and "length bytes \<le> limit"
proof -
  show "script_bytes script = bytes @ (if err = None then script_bytes script' else [])"
    using assms by (cases "(limit, script)" rule: body_read.cases; cases err) (auto split: if_splits, (metis append_take_drop_id append.assoc script_bytes.simps not_None_eq)+)
  show "script_end script = (case err of None \<Rightarrow> script_end script' | Some e \<Rightarrow> e)"
    using assms by (cases "(limit, script)" rule: body_read.cases; cases "snd (hd script)") (auto split: if_splits)
  show "length bytes \<le> limit"
    using assms by (cases "(limit, script)" rule: body_read.cases) (auto split: if_splits)
qed

lemma body_read_live:
  assumes "body_read limit script = ((bytes, err), script')" and "0 < limit" and "live_script script"
  shows "live_script script'" and "bytes \<noteq> [] \<or> err \<noteq> None"
  using assms by (cases "(limit, script)" rule: body_read.cases; auto simp: live_script_def split: if_splits)+

lemma mark_eq_sel:
  assumes "mark h k n sc' = mark h k n sc"
  shows "bs_optionalLineFeed sc' = bs_optionalLineFeed sc" "bs_previousInputBytes sc' = bs_previousInputBytes sc"
    "bs_previousOutputBytes sc' = bs_previousOutputBytes sc"
  using assms by (metis mark_simps)+

lemma Find_keeps:
  assumes "Scanner_Find pending sc = (r, sc')"
  shows "bs_optionalLineFeed sc' = bs_optionalLineFeed sc" "bs_previousInputBytes sc' = bs_previousInputBytes sc"
    "bs_previousOutputBytes sc' = bs_previousOutputBytes sc"
  using find_from_fresh assms mark_eq_sel unfolding Scanner_Find_def Let_def by metis+

lemma read_body_ok:
  assumes ok: "stream_ok st" and out: "ss_output st = []" and d: "ss_deferredErr st = None"
    and f: "Scanner_Find (ss_pending st) (ss_scanner st) = (None, sc)"
    and lf: "bs_optionalLineFeed (ss_scanner st) \<Longrightarrow> ss_pending st = []"
    and fits: "length (ss_pending st) \<le> ss_maxEventBytes st"
  shows "round_ok json st (read_body False 0 (st\<lparr>ss_scanner := sc\<rparr>))"
proof -
  obtain script rewrite where b: "ss_body st = Some script" "live_script script" "ss_rewrite st = Some rewrite"
    using ok by (auto simp: stream_ok_def)
  let ?limit = "min streamReadBufferSize (Suc (ss_maxEventBytes st) - length (ss_pending st))"
  obtain bytes err script' where r: "body_read ?limit script = ((bytes, err), script')" by (metis prod.exhaust)
  have limit: "0 < ?limit" using fits by (simp add: streamReadBufferSize_def)
  note read = body_read_bytes(1,2) [OF r] body_read_live [OF r limit b(2)]
  let ?st' = "st\<lparr>ss_scanner := sc, ss_body := Some script', ss_pending := ss_pending st @ bytes, ss_deferredErr := err\<rparr>"
  have step: "read_body False 0 (st\<lparr>ss_scanner := sc\<rparr>) = ReadAgain 0 ?st'"
    using read(4) d by (cases err) (auto simp: read_body_def b r Let_def)
  have scok: "scanner_ok (ss_pending st) (ss_scanner st)" using ok by (simp add: stream_ok_def)
  have "scanner_ok (ss_pending st @ bytes) sc"
  proof (cases "bs_optionalLineFeed (ss_scanner st)")
    case True
    then have "sc = ss_scanner st" using f lf by (simp add: Scanner_Find_def)
    with True scok lf show ?thesis by (auto simp: scanner_ok_def)
  next
    case False
    then show ?thesis using Find_none(1) [OF scok f] by simp
  qed
  then have ok': "stream_ok ?st'" using ok read(3) by (auto simp: stream_ok_def)
  have left: "left_bytes ?st' = left_bytes st" "left_end ?st' = left_end st"
    using read(1,2) d by (simp_all add: left_bytes_def left_end_def b(1) split: option.split)
  have "remaining json ?st' = remaining json st"
    unfolding remaining_def after_output_def left using Find_keeps [OF f] by (simp add: Let_def cong: if_cong)
  with step ok' show ?thesis by (simp add: round_ok_def)
qed

text \<open>The part of a round after the optional line feed.\<close>

definition find_round :: "envelope_json \<Rightarrow> 's sseRewriteStream \<Rightarrow> 's read_step" where
  "find_round json st =
     (case Scanner_Find (ss_pending st) (ss_scanner st) of (eventEnd, sc) \<Rightarrow>
        (case eventEnd of
           Some n \<Rightarrow> rewrite_event json False 0 n (st\<lparr>ss_scanner := sc\<rparr>)
         | None \<Rightarrow>
             if ss_maxEventBytes st < length (ss_pending st) then fail_read ErrSSEEventTooLarge (st\<lparr>ss_scanner := sc\<rparr>)
             else (case ss_deferredErr st of
               Some e \<Rightarrow> fail_read (end_error (ss_pending st) e) (st\<lparr>ss_scanner := sc, ss_deferredErr := None\<rparr>)
             | None \<Rightarrow> read_body False 0 (st\<lparr>ss_scanner := sc\<rparr>))))"

lemma find_round_ok:
  assumes ok: "stream_ok st" and out: "ss_output st = []"
    and lf: "bs_optionalLineFeed (ss_scanner st) \<Longrightarrow> ss_pending st = [] \<and> ss_deferredErr st = None"
  shows "round_ok json st (find_round json st)"
proof -
  obtain found sc where f: "Scanner_Find (ss_pending st) (ss_scanner st) = (found, sc)" by fastforce
  have scok: "scanner_ok (ss_pending st) (ss_scanner st)" using ok by (simp add: stream_ok_def)
  show ?thesis
  proof (cases found)
    case (Some n)
    then have "\<not> bs_optionalLineFeed (ss_scanner st)" using lf f Scanner_Find_pos by fastforce
    with rewrite_event_ok [OF ok out] f Some show ?thesis by (simp add: find_round_def)
  next
    case None
    note none = Find_none [OF scok f [unfolded None]]
    show ?thesis
    proof (cases "ss_maxEventBytes st < length (ss_pending st)")
      case True
      then have plain: "\<not> bs_optionalLineFeed (ss_scanner st)" using lf by fastforce
      have "remaining json st = ([], ErrSSEEventTooLarge)"
      proof (cases "split_event (left_bytes st)")
        case None
        with True show ?thesis
          unfolding remaining_def after_output_plain [OF disjI1 [OF plain]] out
          by (subst sse_output.simps) (simp add: left_bytes_def)
      next
        case (Some er)
        then have "ss_maxEventBytes st < length (fst er)"
          using True none(2) [of "if ss_deferredErr st = None then script_bytes (the (ss_body st)) else []" "fst er" "snd er"]
          by (simp add: left_bytes_def)
        with Some show ?thesis
          unfolding remaining_def after_output_plain [OF disjI1 [OF plain]] out
          by (subst sse_output.simps) (simp add: case_prod_beta)
      qed
      with True f None show ?thesis by (simp add: find_round_def fail_read_def round_ok_def)
    next
      case fits: False
      show ?thesis
      proof (cases "ss_deferredErr st")
        case (Some e)
        then have plain: "\<not> bs_optionalLineFeed (ss_scanner st)" using lf by auto
        have "remaining json st = ([], end_error (ss_pending st) e)"
          unfolding remaining_def after_output_plain [OF disjI1 [OF plain]] out left_bytes_def left_end_def
          using Some none(3) fits by (subst sse_output.simps) simp
        with f None fits Some show ?thesis by (simp add: find_round_def fail_read_def round_ok_def)
      next
        case d: None
        with read_body_ok [OF ok out d f [unfolded None]] lf fits f None show ?thesis by (simp add: find_round_def)
      qed
    qed
  qed
qed

lemma scanner_ok_clear:
  assumes "scanner_ok pending sc" and "bs_optionalLineFeed sc"
  shows "scanner_ok pending' (clearOptionalLineFeed sc)"
proof -
  have "mark False False 0 sc = sc" using assms by (auto simp: scanner_ok_def fresh_def)
  then have "bs_scanOffset sc = 0" "\<not> bs_lineHasContent sc" "\<not> bs_skipLineFeed sc" by (metis mark_simps)+
  then show ?thesis by (intro scanner_ok_fresh) (simp_all add: clearOptionalLineFeed_def)
qed

lemma clear_ok:
  assumes "stream_ok st" and "left_bytes st = [] \<or> hd (left_bytes st) \<noteq> LF" and "bs_optionalLineFeed (ss_scanner st)"
  shows "stream_ok (st\<lparr>ss_scanner := clearOptionalLineFeed (ss_scanner st)\<rparr>)"
    and "remaining json (st\<lparr>ss_scanner := clearOptionalLineFeed (ss_scanner st)\<rparr>) = remaining json st"
proof -
  let ?st' = "st\<lparr>ss_scanner := clearOptionalLineFeed (ss_scanner st)\<rparr>"
  show "stream_ok ?st'" using assms scanner_ok_clear by (auto simp: stream_ok_def)
  have left: "left_bytes ?st' = left_bytes st" "left_end ?st' = left_end st"
    by (simp_all add: left_bytes_def left_end_def cong: option.case_cong)
  show "remaining json ?st' = remaining json st"
    using assms(2) after_output_plain [of st json] after_output_plain [of ?st' json] unfolding remaining_def left by simp
qed

lemma read_round_ok:
  assumes ok: "stream_ok st" and "0 < len"
  shows "round_ok json st (read_round json len False 0 st)"
proof (cases "ss_output st = []")
  case False
  with deliver_output_ok [OF ok] assms(2) ok show ?thesis by (simp add: read_round_def stream_ok_def)
next
  case out: True
  have open': "\<not> ss_closed st" "\<not> ss_finished st" using ok by (simp_all add: stream_ok_def)
  let ?sc = "ss_scanner st" and ?clear = "st\<lparr>ss_scanner := clearOptionalLineFeed (ss_scanner st)\<rparr>"
  have unchanged: "round_ok json st (read_round json len False 0 st)"
    if "ConsumeOptionalLineFeed (ss_pending st) (ss_deferredErr st \<noteq> None) (ss_maxEventBytes st) ?sc = ((0, False), ?sc)"
      "bs_optionalLineFeed ?sc \<Longrightarrow> ss_pending st = [] \<and> ss_deferredErr st = None"
    using find_round_ok [OF ok out that(2)] that(1) out open' by (simp add: read_round_def find_round_def Let_def)
  have cleared: "round_ok json st (read_round json len False 0 st)"
    if "ConsumeOptionalLineFeed (ss_pending st) (ss_deferredErr st \<noteq> None) (ss_maxEventBytes st) ?sc = ((0, False), clearOptionalLineFeed ?sc)"
      "left_bytes st = [] \<or> hd (left_bytes st) \<noteq> LF" "bs_optionalLineFeed ?sc"
  proof -
    have "read_round json len False 0 st = find_round json ?clear"
      using that(1) out open' by (simp add: read_round_def find_round_def Let_def cong: if_cong option.case_cong)
    moreover have "round_ok json ?clear (find_round json ?clear)"
      using find_round_ok [OF clear_ok(1) [OF ok that(2,3)]] out by (simp add: clearOptionalLineFeed_def)
    ultimately show ?thesis unfolding round_ok_def clear_ok(2) [OF ok that(2,3)] by simp
  qed
  consider "\<not> bs_optionalLineFeed ?sc" | "bs_optionalLineFeed ?sc" "ss_pending st = []" "ss_deferredErr st = None"
    | "bs_optionalLineFeed ?sc" "ss_pending st = []" "ss_deferredErr st \<noteq> None"
    | "bs_optionalLineFeed ?sc" "ss_pending st \<noteq> []" "hd (ss_pending st) \<noteq> LF"
    | "bs_optionalLineFeed ?sc" "ss_pending st \<noteq> []" "hd (ss_pending st) = LF" by blast
  then show ?thesis
  proof cases
    case 5
    let ?st' = "?clear\<lparr>ss_pending := tl (ss_pending st), ss_output := [LF], ss_outputEndsEvent := False, ss_outputEndsTerminal := False\<rparr>"
    have left: "left_bytes st = LF # left_bytes ?st'" "left_end ?st' = left_end st"
      using 5 by (auto simp: left_bytes_def left_end_def neq_Nil_conv cong: option.case_cong)
    have rem: "remaining json st =
        (if ss_maxEventBytes st \<le> bs_previousInputBytes ?sc \<or> ss_maxEventBytes st \<le> bs_previousOutputBytes ?sc
         then ([], ErrSSEEventTooLarge)
         else prepend [LF] (sse_output json (the (ss_rewrite st)) (ss_maxEventBytes st) (ss_callback st) (left_bytes ?st') (left_end st)))"
      unfolding remaining_def after_output_def left using 5 out by simp
    have rem': "remaining json ?st' =
        prepend [LF] (sse_output json (the (ss_rewrite st)) (ss_maxEventBytes st) (ss_callback st) (left_bytes ?st') (left_end st))"
      unfolding remaining_def after_output_def left(2) by (simp add: clearOptionalLineFeed_def)
    have ok': "stream_ok ?st'"
      using ok 5 scanner_ok_clear by (auto simp: stream_ok_def)
    show ?thesis
      using 5 out open' ok' rem rem' by (auto simp: read_round_def ConsumeOptionalLineFeed_def fail_read_def round_ok_def Let_def drop_Suc)
  next
    case 1
    then show ?thesis by (intro unchanged) (simp_all add: ConsumeOptionalLineFeed_def)
  next
    case 2
    then show ?thesis by (intro unchanged) (simp_all add: ConsumeOptionalLineFeed_def)
  next
    case 3
    then show ?thesis by (intro cleared) (auto simp: ConsumeOptionalLineFeed_def left_bytes_def)
  next
    case 4
    then show ?thesis by (intro cleared) (simp_all add: ConsumeOptionalLineFeed_def left_bytes_def)
  qed
qed

text \<open>A read delivers the first bytes of what remains, or fails as what remains says.\<close>

definition read_ok :: "envelope_json \<Rightarrow> 's sseRewriteStream \<Rightarrow> streamError + string \<Rightarrow> 's sseRewriteStream \<Rightarrow> bool" where
  "read_ok json st r st' =
     (case r of
        Inr out \<Rightarrow> stream_ok st' \<and> out \<noteq> [] \<and> follows (remaining json st) (prepend out (remaining json st'))
          \<and> (read_work st', length (ss_output st')) \<in> {(x, y). x < read_work st} \<union> {(x, y). x = read_work st \<and> y < length (ss_output st)}
      | Inl e \<Rightarrow> follows (remaining json st) ([], e))"

lemma deliver_work:
  assumes "stream_ok st" and "0 < len" and "read_round json len False 0 st = ReadDone (Inr out) st'"
  shows "read_work st' = read_work st" and "length (ss_output st') < length (ss_output st)"
proof -
  have out: "ss_output st \<noteq> []"
    using assms by (auto simp: read_round_def fail_read_def rewrite_event_def read_body_def Let_def stream_ok_def
        split: if_splits option.splits prod.splits sum.splits)
  with assms have "deliver_output len st = ReadDone (Inr out) st'" by (simp add: read_round_def stream_ok_def)
  with out assms(2) show "read_work st' = read_work st" "length (ss_output st') < length (ss_output st)"
    by (auto simp: deliver_output_def read_work_def Let_def cong: option.case_cong split: if_splits)
qed

lemma read_loop_ok:
  assumes "stream_ok st" and "0 < len" and "read_loop json len (\<lambda>_. False) i fuel 0 st = Some (r, st')"
  shows "read_ok json st r st'"
  using assms
proof (induction fuel arbitrary: i st)
  case (Suc fuel)
  note ok = read_round_ok [OF Suc.prems(1,2), of json]
  show ?case
  proof (cases "read_round json len False 0 st")
    case (ReadDone r1 st1)
    with Suc.prems(3) have r: "r1 = r" "st1 = st'" by simp_all
    with ok ReadDone deliver_work [OF Suc.prems(1,2), of json] show ?thesis by (auto simp: read_ok_def round_ok_def split: sum.split)
  next
    case (ReadAgain z st1)
    with ok have st1: "z = 0" "stream_ok st1" "follows (remaining json st) (remaining json st1)" by (simp_all add: round_ok_def)
    have "read_ok json st1 r st'" using Suc.IH [OF st1(2) Suc.prems(2)] Suc.prems(3) ReadAgain st1(1) by simp
    with read_round_work [OF ReadAgain] st1(3) show ?thesis
      by (auto simp: read_ok_def split: sum.split intro: follows_trans)
  qed
qed simp

lemma remaining_terminal [simp]:
  "remaining json (st\<lparr>ss_readEndedTerminal := b\<rparr>) = remaining json st" "stream_ok (st\<lparr>ss_readEndedTerminal := b\<rparr>) = stream_ok st"
  "read_work (st\<lparr>ss_readEndedTerminal := b\<rparr>) = read_work st" "ss_output (st\<lparr>ss_readEndedTerminal := b\<rparr>) = ss_output st"
  by (simp_all add: remaining_def after_output_def left_bytes_def left_end_def stream_ok_def read_work_def Let_def cong: option.case_cong if_cong)

lemma Stream_Read_ok:
  assumes "stream_ok st" and "0 < len" and "Stream_Read json len (\<lambda>_. False) st = Some (r, st')"
  shows "read_ok json st r st'"
proof -
  have "read_ok json (st\<lparr>ss_readEndedTerminal := False\<rparr>) r st'"
    using assms by (intro read_loop_ok [where len = len and i = 0 and fuel = "Suc (read_work st)"])
      (simp_all add: Stream_Read_def del: read_loop.simps)
  then show ?thesis unfolding read_ok_def remaining_terminal by simp
qed

section \<open>Draining the stream\<close>

text \<open>Reads of any sizes until the first error.\<close>

fun drain :: "envelope_json \<Rightarrow> (nat \<Rightarrow> nat) \<Rightarrow> nat \<Rightarrow> nat \<Rightarrow> 's sseRewriteStream \<Rightarrow> (string \<times> streamError) option" where
  "drain json lens i 0 st = None"
| "drain json lens i (Suc fuel) st =
     (case Stream_Read json (lens i) (\<lambda>_. False) st of
        None \<Rightarrow> None
      | Some (Inl e, st') \<Rightarrow> Some ([], e)
      | Some (Inr out, st') \<Rightarrow> map_option (prepend out) (drain json lens (Suc i) fuel st'))"

lemma drain_mono: "drain json lens i n st = Some r \<Longrightarrow> n \<le> m \<Longrightarrow> drain json lens i m st = Some r"
proof (induction n arbitrary: m i st r)
  case (Suc n)
  then obtain k where "m = Suc k" "n \<le> k" by (cases m) auto
  obtain x where x: "Stream_Read json (lens i) (\<lambda>_. False) st = Some x" using Suc.prems(1) by (auto split: option.splits)
  show ?case
  proof (cases "fst x")
    case (Inl e)
    with Suc.prems x \<open>m = Suc k\<close> show ?thesis by (cases x) simp
  next
    case (Inr out)
    with Suc.prems x obtain r' where "drain json lens (Suc i) n (snd x) = Some r'" "r = prepend out r'" by (cases x) auto
    with Suc.IH [OF this(1) \<open>n \<le> k\<close>] x Inr \<open>m = Suc k\<close> show ?thesis by (cases x) simp
  qed
qed simp

lemma drain_ok:
  assumes "stream_ok st" and "\<And>i. 0 < lens i"
  shows "\<exists>n r. drain json lens i n st = Some r \<and> follows (remaining json st) r"
  using assms(1)
proof (induction "(read_work st, length (ss_output st))" arbitrary: st i rule: wf_induct_rule [OF wf_lex_prod [OF wf_less wf_less]])
  case (1 st i)
  obtain r st' where read: "Stream_Read json (lens i) (\<lambda>_. False) st = Some (r, st')" using Stream_Read_returns by blast
  note ok = Stream_Read_ok [OF 1(2) assms(2) read]
  show ?case
  proof (cases r)
    case (Inl e)
    then have "drain json lens i (Suc 0) st = Some ([], e)" using read by simp
    with ok Inl show ?thesis unfolding read_ok_def by (intro exI [of _ "Suc 0"]) simp
  next
    case (Inr out)
    with ok have st': "stream_ok st'" "follows (remaining json st) (prepend out (remaining json st'))"
      and less: "((read_work st', length (ss_output st')), (read_work st, length (ss_output st))) \<in> {(x, y). x < y} <*lex*> {(x, y). x < y}"
      by (auto simp: read_ok_def)
    from 1(1) [OF less st'(1), of "Suc i"] obtain n r' where
      "drain json lens (Suc i) n st' = Some r'" "follows (remaining json st') r'" by blast
    with read Inr have "drain json lens i (Suc n) st = Some (prepend out r')" by simp
    with follows_trans [OF st'(2) follows_prepend] \<open>follows (remaining json st') r'\<close> show ?thesis by blast
  qed
qed

lemma new_stream_ok:
  assumes "live_script script"
  shows "stream_ok (newSSEEventRewriteStream (Some script) limit (Some rewrite) s)"
    and "remaining json (newSSEEventRewriteStream (Some script) limit (Some rewrite) s) =
      sse_output json rewrite (normalizedSSEEventLimit limit) s (script_bytes script) (script_end script)"
  using assms by (simp_all add: newSSEEventRewriteStream_def stream_ok_def remaining_def after_output_def left_bytes_def left_end_def
      Scanner_Reset_def Let_def scanner_ok_fresh)

end
