(* ===== verification/Sse_Observe.thy ===== *)
theory Sse_Observe
  imports Sse_Stream
begin

text \<open>
  The buffer that watches an event stream without changing it (\<open>sseEventObservationBuffer\<close> in
  \<open>src/internal/gateway/stream_observation.go\<close>): it shares the scanner of the rewriting reader, hands every
  complete event to a callback and returns the bytes that are safe to write. The callback has a state of its own.
\<close>

section \<open>The buffer\<close>

type_synonym 's event_observer = "'s \<Rightarrow> StreamEvent \<Rightarrow> bool \<Rightarrow> (string + bool) \<times> 's"

datatype observationError = ObserveTooLarge | ObserveIncomplete | ObserveCallback string

record 's sseEventObservationBuffer =
  bu_pending :: string
  bu_pendingTerminal :: bool
  bu_maxEventBytes :: nat
  bu_scanner :: sseRewriteBoundaryScanner
  bu_observe :: "'s event_observer"
  bu_callback :: 's

definition newSSEEventObservationBuffer :: "int \<Rightarrow> 's event_observer \<Rightarrow> 's \<Rightarrow> 's sseEventObservationBuffer" where
  "newSSEEventObservationBuffer limit observe s =
     \<lparr>bu_pending = [], bu_pendingTerminal = False, bu_maxEventBytes = normalizedSSEEventLimit limit, bu_scanner = Scanner_Reset,
      bu_observe = observe, bu_callback = s\<rparr>"

definition observeEvent :: "envelope_json \<Rightarrow> 's event_observer \<Rightarrow> 's \<Rightarrow> string \<Rightarrow> (string + bool) \<times> 's" where
  "observeEvent json observe s event =
     (let lines = splitSSEEventLines event;
          payload = event_payload lines;
          name = event_name lines
      in if data_values lines = [] \<or> payload = [] then (Inr False, s)
         else observe s \<lparr>se_Name = name, se_Payload = payload\<rparr> (name = ''error'' \<or> isSSEErrorPayload json payload))"

text \<open>
  One round of the loop of \<open>push\<close>, with the number of bytes consumed and whether a terminal event is complete.
\<close>

datatype 's push_step =
    PushDone "observationError + nat \<times> bool" "'s sseEventObservationBuffer"
  | PushAgain nat bool "'s sseEventObservationBuffer"

definition push_event ::
  "envelope_json \<Rightarrow> nat \<Rightarrow> nat \<Rightarrow> bool \<Rightarrow> 's sseEventObservationBuffer \<Rightarrow> 's push_step" where
  "push_event json n consumed terminal buf =
     (if bu_maxEventBytes buf < n then PushDone (Inl ObserveTooLarge) buf
      else case observeEvent json (bu_observe buf) (bu_callback buf) (take n (bu_pending buf)) of
          (Inl err, s) \<Rightarrow> PushDone (Inl (ObserveCallback err)) (buf\<lparr>bu_callback := s\<rparr>)
        | (Inr terminalEvent, s) \<Rightarrow>
            let buf1 = buf\<lparr>bu_callback := s, bu_pending := drop n (bu_pending buf), bu_scanner := AfterEvent n n (bu_scanner buf)\<rparr>
            in if terminalEvent \<and> bs_optionalLineFeed (bu_scanner buf1)
               then PushAgain (consumed + n) terminal (buf1\<lparr>bu_pendingTerminal := True\<rparr>)
               else PushAgain (consumed + n) (terminal \<or> terminalEvent) buf1)"

definition push_round ::
  "envelope_json \<Rightarrow> nat \<Rightarrow> bool \<Rightarrow> 's sseEventObservationBuffer \<Rightarrow> 's push_step" where
  "push_round json consumed terminal buf =
     (case ConsumeOptionalLineFeed (bu_pending buf) False (bu_maxEventBytes buf) (bu_scanner buf) of
        ((optionalLF, overflow), sc1) \<Rightarrow>
          if overflow then PushDone (Inl ObserveTooLarge) (buf\<lparr>bu_scanner := sc1\<rparr>)
          else
            let settled = bu_pendingTerminal buf \<and> \<not> bs_optionalLineFeed sc1;
                buf1 = buf\<lparr>bu_pendingTerminal := bu_pendingTerminal buf \<and> \<not> settled, bu_scanner := sc1\<rparr>
            in if 0 < optionalLF
               then PushAgain (consumed + optionalLF) (terminal \<or> settled) (buf1\<lparr>bu_pending := drop optionalLF (bu_pending buf)\<rparr>)
               else (case Scanner_Find (bu_pending buf) sc1 of
                   (Some n, sc2) \<Rightarrow> push_event json n consumed (terminal \<or> settled) (buf1\<lparr>bu_scanner := sc2\<rparr>)
                 | (None, sc2) \<Rightarrow>
                     PushDone (if bu_maxEventBytes buf < length (bu_pending buf) then Inl ObserveTooLarge
                               else Inr (consumed, terminal \<or> settled)) (buf1\<lparr>bu_scanner := sc2\<rparr>)))"

fun push_loop ::
  "envelope_json \<Rightarrow> nat \<Rightarrow> nat \<Rightarrow> bool \<Rightarrow> 's sseEventObservationBuffer
     \<Rightarrow> ((observationError + nat \<times> bool) \<times> 's sseEventObservationBuffer) option" where
  "push_loop json 0 consumed terminal buf = None"
| "push_loop json (Suc fuel) consumed terminal buf =
     (case push_round json consumed terminal buf of
        PushDone r buf' \<Rightarrow> Some (r, buf')
      | PushAgain consumed' terminal' buf' \<Rightarrow> push_loop json fuel consumed' terminal' buf')"

definition Observation_push ::
  "envelope_json \<Rightarrow> string \<Rightarrow> 's sseEventObservationBuffer
     \<Rightarrow> ((observationError + string \<times> bool) \<times> 's sseEventObservationBuffer) option" where
  "Observation_push json chunk buf0 =
     (let buf = buf0\<lparr>bu_pending := bu_pending buf0 @ chunk\<rparr>; wire = bu_pending buf in
      map_option (apfst (map_sum id (apfst (\<lambda>consumed. take consumed wire)))) (push_loop json (Suc (length wire)) 0 False buf))"

definition Observation_finish :: "'s sseEventObservationBuffer \<Rightarrow> observationError option \<times> 's sseEventObservationBuffer" where
  "Observation_finish buf =
     (case ConsumeOptionalLineFeed (bu_pending buf) True (bu_maxEventBytes buf) (bu_scanner buf) of
        ((optionalLF, overflow), sc) \<Rightarrow>
          let buf1 = buf\<lparr>bu_scanner := sc\<rparr> in
          if overflow then (Some ObserveTooLarge, buf1)
          else
            let buf2 = buf1\<lparr>bu_pending := drop optionalLF (bu_pending buf),
                  bu_pendingTerminal := bu_pendingTerminal buf \<and> bs_optionalLineFeed sc\<rparr>
            in if bu_pending buf2 \<noteq> [] then (Some ObserveIncomplete, buf2)
               else (None, buf2\<lparr>bu_scanner := Scanner_Reset\<rparr>))"

section \<open>Every event is observed once\<close>

text \<open>The reference: the events of the whole input in order, with what is left after the last one.\<close>

function observe_events :: "envelope_json \<Rightarrow> 's event_observer \<Rightarrow> 's \<Rightarrow> string \<Rightarrow> ('s \<times> string) option" where
  "observe_events json observe s bytes =
     (case split_event bytes of
        None \<Rightarrow> Some (s, bytes)
      | Some (event, rest) \<Rightarrow>
          (case observeEvent json observe s event of
             (Inl err, s') \<Rightarrow> None
           | (Inr terminal, s') \<Rightarrow> observe_events json observe s' rest))"
  by pat_completeness auto

termination
  by (relation "measure (\<lambda>(_, _, _, bytes). length bytes)") (auto dest: split_event_shorter)

declare observe_events.simps [simp del]

lemma observe_snoc:
  assumes "split_event e = Some (e, [])" and "last e = CR"
  shows "observeEvent json observe s (e @ [LF]) = observeEvent json observe s e"
proof -
  have e: "e \<noteq> []" using split_event_nonempty [OF assms(1)] .
  obtain ls content where l: "splitSSEEventLines e = ls @ [line_of content [CR]]"
    "splitSSEEventLines (e @ [LF]) = ls @ [line_of content [CR, LF]]" using lines_snoc [OF e assms(2)] by blast
  show ?thesis
    unfolding observeEvent_def l Let_def by (simp add: event_name_def data_values_def event_payload_def)
qed

text \<open>What the reference will have seen once \<open>ys\<close> has arrived as well.\<close>

definition to_observe :: "envelope_json \<Rightarrow> 's sseEventObservationBuffer \<Rightarrow> string \<Rightarrow> ('s \<times> string) option" where
  "to_observe json buf ys =
     (let bytes = bu_pending buf @ ys in
      observe_events json (bu_observe buf) (bu_callback buf)
        (if bs_optionalLineFeed (bu_scanner buf) \<and> bytes \<noteq> [] \<and> hd bytes = LF then tl bytes else bytes))"

definition buffer_ok :: "'s sseEventObservationBuffer \<Rightarrow> bool" where
  "buffer_ok buf \<longleftrightarrow> scanner_ok (bu_pending buf) (bu_scanner buf)"

lemma observe_event_step:
  assumes ok: "scanner_ok pending sc" and f: "Scanner_Find pending sc = (Some n, sc')"
    and o: "observeEvent json observe s (take n pending) = (Inr terminal, s')"
  shows "observe_events json observe s (pending @ ys) =
    observe_events json observe s'
      (let bytes = drop n pending @ ys in if bs_skipLineFeed sc' \<and> bytes \<noteq> [] \<and> hd bytes = LF then tl bytes else bytes)"
proof (cases "bs_skipLineFeed sc' \<and> n = length pending \<and> ys \<noteq> [] \<and> hd ys = LF")
  case True
  note split = Find_some(3) [OF ok f True]
  from split True o show ?thesis
    by (subst observe_events.simps) (simp add: observe_snoc)
next
  case False
  note split = Find_some(4) [OF ok f False]
  from split o show ?thesis
    by (subst observe_events.simps) (auto simp: Let_def)
qed

text \<open>What a round keeps: the bytes, and what the reference has yet to see.\<close>

definition same_observation :: "envelope_json \<Rightarrow> nat \<Rightarrow> 's sseEventObservationBuffer \<Rightarrow> 's sseEventObservationBuffer \<Rightarrow> bool" where
  "same_observation json k buf buf' \<longleftrightarrow>
     k \<le> length (bu_pending buf) \<and> bu_pending buf' = drop k (bu_pending buf) \<and> bu_observe buf' = bu_observe buf
     \<and> (\<forall>ys. to_observe json buf' ys = to_observe json buf ys)"

lemma same_observation_trans:
  "same_observation json k a b \<Longrightarrow> same_observation json l b c \<Longrightarrow> same_observation json (k + l) a c"
  by (auto simp: same_observation_def add.commute)

lemma push_event_ok:
  assumes ok: "buffer_ok buf" and lf: "\<not> bs_optionalLineFeed (bu_scanner buf)"
    and f: "Scanner_Find (bu_pending buf) (bu_scanner buf) = (Some n, sc)"
    and e: "push_event json n consumed terminal (buf\<lparr>bu_pendingTerminal := b, bu_scanner := sc\<rparr>) = PushAgain consumed' terminal' buf'"
  shows "consumed' = consumed + n \<and> 0 < n \<and> buffer_ok buf' \<and> same_observation json n buf buf'"
proof -
  obtain t s where o: "observeEvent json (bu_observe buf) (bu_callback buf) (take n (bu_pending buf)) = (Inr t, s)"
    using e by (auto simp: push_event_def Let_def split: if_splits prod.splits sum.splits)
  have buf': "bu_pending buf' = drop n (bu_pending buf)" "bu_callback buf' = s" "bu_scanner buf' = AfterEvent n n sc"
    "bu_observe buf' = bu_observe buf" and c: "consumed' = consumed + n"
    using e o by (auto simp: push_event_def Let_def split: if_splits)
  have "to_observe json buf' ys = to_observe json buf ys" for ys
    using observe_event_step [OF ok [unfolded buffer_ok_def] f o, of ys] lf
    by (simp add: to_observe_def buf' AfterEvent_def Let_def)
  with buf' c Scanner_Find_pos [OF f] show ?thesis by (simp add: buffer_ok_def same_observation_def)
qed

lemma push_round_clear:
  assumes "buffer_ok buf" and "bs_optionalLineFeed (bu_scanner buf)" and "bu_pending buf \<noteq> []"
  shows "buffer_ok (buf\<lparr>bu_pendingTerminal := b, bu_scanner := clearOptionalLineFeed (bu_scanner buf),
      bu_pending := if hd (bu_pending buf) = LF then tl (bu_pending buf) else bu_pending buf\<rparr>)"
    and "same_observation json (if hd (bu_pending buf) = LF then 1 else 0) buf
      (buf\<lparr>bu_pendingTerminal := b, bu_scanner := clearOptionalLineFeed (bu_scanner buf),
        bu_pending := if hd (bu_pending buf) = LF then tl (bu_pending buf) else bu_pending buf\<rparr>)"
  using assms scanner_ok_clear
  by (auto simp: buffer_ok_def same_observation_def to_observe_def clearOptionalLineFeed_def Let_def drop_Suc Suc_le_eq)

lemma find_observed:
  assumes ok: "buffer_ok buf" and lf: "\<not> bs_optionalLineFeed (bu_scanner buf)"
    and r: "(case Scanner_Find (bu_pending buf) (bu_scanner buf) of
        (Some n, sc2) \<Rightarrow> push_event json n consumed terminal (buf\<lparr>bu_pendingTerminal := b, bu_scanner := sc2\<rparr>)
      | (None, sc2) \<Rightarrow> PushDone (if bu_maxEventBytes buf < length (bu_pending buf) then Inl ObserveTooLarge
                  else Inr (consumed, terminal)) (buf\<lparr>bu_pendingTerminal := b, bu_scanner := sc2\<rparr>)) = r"
  shows "(case r of
      PushAgain consumed' terminal' buf' \<Rightarrow> \<exists>k > 0. consumed' = consumed + k \<and> buffer_ok buf' \<and> same_observation json k buf buf'
    | PushDone (Inr (consumed', terminal')) buf' \<Rightarrow>
        consumed' = consumed \<and> buffer_ok buf' \<and> same_observation json 0 buf buf' \<and> \<not> bs_optionalLineFeed (bu_scanner buf')
    | PushDone (Inl e) buf' \<Rightarrow> True)"
proof -
  obtain found sc where f: "Scanner_Find (bu_pending buf) (bu_scanner buf) = (found, sc)" by fastforce
  show ?thesis
  proof (cases found)
    case (Some n)
    have "\<exists>k > 0. consumed' = consumed + k \<and> buffer_ok buf' \<and> same_observation json k buf buf'"
      if "r = PushAgain consumed' terminal' buf'" for consumed' terminal' buf'
      using push_event_ok [OF ok lf f [unfolded Some], of json consumed terminal b] r that by (auto simp: f Some)
    moreover have "\<exists>e. x = Inl e" if "r = PushDone x buf'" for x buf'
      using r that by (auto simp: f Some push_event_def Let_def split: if_splits prod.splits sum.splits)
    ultimately show ?thesis by (cases r) (fastforce split: sum.split)+
  next
    case None
    have "buffer_ok (buf\<lparr>bu_pendingTerminal := b, bu_scanner := sc\<rparr>)"
      using Find_none(1) [OF ok [unfolded buffer_ok_def] f [unfolded None] lf, of "[]"] by (simp add: buffer_ok_def)
    moreover have "same_observation json 0 buf (buf\<lparr>bu_pendingTerminal := b, bu_scanner := sc\<rparr>)"
      using Find_keeps [OF f] by (simp add: same_observation_def to_observe_def Let_def)
    ultimately show ?thesis using r Find_keeps [OF f] lf by (auto simp: f None)
  qed
qed

definition push_ok :: "envelope_json \<Rightarrow> nat \<Rightarrow> 's sseEventObservationBuffer \<Rightarrow> 's push_step \<Rightarrow> bool" where
  "push_ok json consumed buf r =
     (case r of
        PushAgain consumed' terminal' buf' \<Rightarrow> \<exists>k > 0. consumed' = consumed + k \<and> buffer_ok buf' \<and> same_observation json k buf buf'
      | PushDone (Inr (consumed', terminal')) buf' \<Rightarrow>
          consumed' = consumed \<and> buffer_ok buf' \<and> same_observation json 0 buf buf'
          \<and> (bs_optionalLineFeed (bu_scanner buf') \<longrightarrow> bu_pending buf' = [])
      | PushDone (Inl e) buf' \<Rightarrow> True)"

lemma push_round_ok:
  assumes ok: "buffer_ok buf"
  shows "push_ok json consumed buf (push_round json consumed terminal buf)"
proof -
  let ?sc = "bu_scanner buf"
  define t where "t = (bu_pendingTerminal buf \<and> bs_optionalLineFeed ?sc \<and> bu_pending buf = [])"
  let ?clear = "buf\<lparr>bu_pendingTerminal := t, bu_scanner := clearOptionalLineFeed ?sc,
      bu_pending := if hd (bu_pending buf) = LF then tl (bu_pending buf) else bu_pending buf\<rparr>"
  consider "\<not> bs_optionalLineFeed ?sc" | "bs_optionalLineFeed ?sc" "bu_pending buf = []"
    | "bs_optionalLineFeed ?sc" "bu_pending buf \<noteq> []" "hd (bu_pending buf) \<noteq> LF"
    | "bs_optionalLineFeed ?sc" "bu_pending buf \<noteq> []" "hd (bu_pending buf) = LF" by blast
  then show ?thesis
  proof cases
    case 1
    have "push_round json consumed terminal buf =
      (case Scanner_Find (bu_pending buf) ?sc of
        (Some n, sc2) \<Rightarrow> push_event json n consumed (terminal \<or> bu_pendingTerminal buf) (buf\<lparr>bu_pendingTerminal := t, bu_scanner := sc2\<rparr>)
      | (None, sc2) \<Rightarrow> PushDone (if bu_maxEventBytes buf < length (bu_pending buf) then Inl ObserveTooLarge
                  else Inr (consumed, terminal \<or> bu_pendingTerminal buf)) (buf\<lparr>bu_pendingTerminal := t, bu_scanner := sc2\<rparr>))"
      using 1 by (simp add: push_round_def ConsumeOptionalLineFeed_def t_def Let_def split: prod.split option.split)
    from find_observed [OF ok 1 this [symmetric]] show ?thesis
      by (auto simp: push_ok_def split: push_step.splits sum.splits)
  next
    case 2
    then show ?thesis
      using ok by (auto simp: push_round_def push_ok_def ConsumeOptionalLineFeed_def Scanner_Find_def Let_def
          buffer_ok_def same_observation_def to_observe_def)
  next
    case 3
    note clear = push_round_clear [OF ok 3(1,2), where b = t]
    have "push_round json consumed terminal buf =
      (case Scanner_Find (bu_pending ?clear) (bu_scanner ?clear) of
        (Some n, sc2) \<Rightarrow> push_event json n consumed (terminal \<or> bu_pendingTerminal buf) (?clear\<lparr>bu_pendingTerminal := t, bu_scanner := sc2\<rparr>)
      | (None, sc2) \<Rightarrow> PushDone (if bu_maxEventBytes ?clear < length (bu_pending ?clear) then Inl ObserveTooLarge
                  else Inr (consumed, terminal \<or> bu_pendingTerminal buf)) (?clear\<lparr>bu_pendingTerminal := t, bu_scanner := sc2\<rparr>))"
      using 3 by (simp add: push_round_def ConsumeOptionalLineFeed_def clearOptionalLineFeed_def t_def Let_def split: prod.split option.split)
    from find_observed [OF clear(1) _ this [symmetric]] same_observation_trans [OF clear(2)] 3 show ?thesis
      by (fastforce simp: push_ok_def clearOptionalLineFeed_def split: push_step.splits sum.splits)
  next
    case 4
    note clear = push_round_clear [OF ok 4(1,2), where b = t]
    then show ?thesis
      using 4 by (auto simp: push_round_def push_ok_def ConsumeOptionalLineFeed_def clearOptionalLineFeed_def t_def Let_def drop_Suc)
  qed
qed

lemma push_loop_ok:
  assumes "buffer_ok buf" and "push_loop json fuel consumed terminal buf = Some (Inr (consumed', terminal'), buf')"
  shows "\<exists>k. consumed' = consumed + k \<and> buffer_ok buf' \<and> same_observation json k buf buf'
    \<and> (bs_optionalLineFeed (bu_scanner buf') \<longrightarrow> bu_pending buf' = [])"
  using assms
proof (induction fuel arbitrary: consumed terminal buf)
  case (Suc fuel)
  note ok = push_round_ok [OF Suc.prems(1), of json consumed terminal]
  show ?case
  proof (cases "push_round json consumed terminal buf")
    case (PushDone r b)
    with Suc.prems(2) ok show ?thesis by (auto simp: push_ok_def)
  next
    case (PushAgain c t b)
    with ok obtain k where k: "c = consumed + k" "buffer_ok b" "same_observation json k buf b" by (auto simp: push_ok_def)
    from Suc.IH [OF k(2)] Suc.prems(2) PushAgain obtain l where
      "consumed' = c + l" "buffer_ok buf'" "same_observation json l b buf'" "bs_optionalLineFeed (bu_scanner buf') \<longrightarrow> bu_pending buf' = []"
      by auto
    with k same_observation_trans [OF k(3)] show ?thesis by (intro exI [of _ "k + l"]) simp
  qed
qed simp

lemma push_loop_returns:
  assumes "buffer_ok buf" and "length (bu_pending buf) < fuel"
  shows "push_loop json fuel consumed terminal buf \<noteq> None"
  using assms
proof (induction fuel arbitrary: consumed terminal buf)
  case (Suc fuel)
  show ?case
  proof (cases "push_round json consumed terminal buf")
    case (PushAgain c t b)
    with push_round_ok [OF Suc.prems(1), of json consumed terminal] obtain k where
      k: "0 < k" "buffer_ok b" "same_observation json k buf b" by (auto simp: push_ok_def)
    then have "length (bu_pending b) < fuel" using Suc.prems(2) by (auto simp: same_observation_def)
    with Suc.IH [OF k(2)] PushAgain show ?thesis by simp
  qed simp
qed simp

section \<open>Pushing a stream\<close>

text \<open>All chunks in order; the result is what may be written, and the buffer at the end.\<close>

fun push_all ::
  "envelope_json \<Rightarrow> string list \<Rightarrow> 's sseEventObservationBuffer
     \<Rightarrow> ((observationError + string) \<times> 's sseEventObservationBuffer) option" where
  "push_all json [] buf = Some (Inr [], buf)"
| "push_all json (chunk # chunks) buf =
     (case Observation_push json chunk buf of
        None \<Rightarrow> None
      | Some (Inl e, buf') \<Rightarrow> Some (Inl e, buf')
      | Some (Inr (wire, terminal), buf') \<Rightarrow> map_option (apfst (map_sum id (append wire))) (push_all json chunks buf'))"

text \<open>A buffer that has nothing pending but what it still waits for.\<close>

definition settled :: "'s sseEventObservationBuffer \<Rightarrow> bool" where
  "settled buf \<longleftrightarrow> buffer_ok buf \<and> (bs_optionalLineFeed (bu_scanner buf) \<longrightarrow> bu_pending buf = [])"

lemma push_more:
  assumes "settled buf"
  shows "buffer_ok (buf\<lparr>bu_pending := bu_pending buf @ chunk\<rparr>)"
    and "to_observe json (buf\<lparr>bu_pending := bu_pending buf @ chunk\<rparr>) ys = to_observe json buf (chunk @ ys)"
  using assms by (auto simp: settled_def buffer_ok_def scanner_ok_def to_observe_def Let_def)

lemma Observation_push_ok:
  assumes "settled buf" and "Observation_push json chunk buf = Some (Inr (wire, terminal), buf')"
  shows "settled buf' \<and> bu_pending buf @ chunk = wire @ bu_pending buf' \<and> to_observe json buf' ys = to_observe json buf (chunk @ ys)"
proof -
  let ?buf = "buf\<lparr>bu_pending := bu_pending buf @ chunk\<rparr>"
  obtain c where p: "push_loop json (Suc (length (bu_pending ?buf))) 0 False ?buf = Some (Inr (c, terminal), buf')"
    and w: "wire = take c (bu_pending ?buf)"
  proof -
    obtain r b where "push_loop json (Suc (length (bu_pending ?buf))) 0 False ?buf = Some (r, b)"
      using assms(2) by (auto simp: Observation_push_def Let_def simp del: push_loop.simps)
    with assms(2) that show ?thesis by (cases r) (auto simp: Observation_push_def Let_def simp del: push_loop.simps)
  qed
  from push_loop_ok [OF push_more(1) [OF assms(1)] p] w push_more(2) [OF assms(1)] show ?thesis
    by (auto simp: settled_def same_observation_def simp del: take_append drop_append)
qed

lemma push_all_ok:
  "settled buf \<Longrightarrow> push_all json chunks buf = Some (Inr wire, buf') \<Longrightarrow>
     settled buf' \<and> bu_pending buf @ concat chunks = wire @ bu_pending buf'
     \<and> to_observe json buf' ys = to_observe json buf (concat chunks @ ys)"
proof (induction chunks arbitrary: buf wire)
  case (Cons chunk chunks)
  obtain w t b where p: "Observation_push json chunk buf = Some (Inr (w, t), b)"
    using Cons.prems(2) by (auto split: option.splits sum.splits)
  note ok = Observation_push_ok [OF Cons.prems(1) p]
  obtain r where "push_all json chunks b = Some (Inr r, buf')" "wire = w @ r"
  proof -
    obtain q b2 where "push_all json chunks b = Some (q, b2)" using Cons.prems(2) p by auto
    with Cons.prems(2) p that show ?thesis by (cases q) auto
  qed
  with Cons.IH [of b r] ok show ?case by (metis append.assoc concat.simps(2))
qed simp

lemma push_all_returns: "settled buf \<Longrightarrow> push_all json chunks buf \<noteq> None"
proof (induction chunks arbitrary: buf)
  case (Cons chunk chunks)
  have "Observation_push json chunk buf \<noteq> None"
    using push_loop_returns [OF push_more(1) [OF Cons.prems]] by (simp add: Observation_push_def Let_def del: push_loop.simps)
  with Cons Observation_push_ok [OF Cons.prems] show ?case by (fastforce split: sum.split)
qed simp

lemma settled_new: "settled (newSSEEventObservationBuffer limit observe s)"
  by (simp add: settled_def newSSEEventObservationBuffer_def buffer_ok_def Scanner_Reset_def scanner_ok_fresh)

lemma finish_settled:
  "settled buf \<Longrightarrow> Observation_finish buf = (None, buf') \<Longrightarrow> bu_pending buf = [] \<and> bu_callback buf' = bu_callback buf"
  by (auto simp: settled_def Observation_finish_def ConsumeOptionalLineFeed_def Let_def split: if_splits)

end
