(* ===== verification/Sse_Forward.thy ===== *)
theory Sse_Forward
  imports Gateway_Recorder Sse_Observe
begin

text \<open>
  Forwarding an event stream (\<open>src/internal/gateway/sse.go\<close>, \<open>stream.go\<close> and the observer of
  \<open>stream_observation.go\<close>): the first event with data, which decides whether the response is committed, the
  pump that copies the body to the client, the watchdog that closes an idle body, and the classification of
  events up to a terminal one. The body is a script of reads, as for the rewriting reader. What a write, a
  flush, the context and the watchdog say in each round of the pump are arguments; the classifier of a dialect
  is one too.
\<close>

section \<open>The first event\<close>

record sseEventScanner =
  es_line :: string
  es_hasData :: bool
  es_dataValues :: "string list"
  es_eventName :: string
  es_skipLineFeed :: bool
  es_pendingEvent :: bool
  es_found :: bool
  es_scannedBytes :: nat
  es_hardLimit :: nat

definition resetEvent :: "sseEventScanner \<Rightarrow> sseEventScanner" where
  "resetEvent sc = sc\<lparr>es_hasData := False, es_dataValues := [], es_eventName := []\<rparr>"

definition finishLine :: "sseEventScanner \<Rightarrow> bool \<times> sseEventScanner" where
  "finishLine sc0 =
     (let line = es_line sc0; sc = sc0\<lparr>es_line := []\<rparr> in
      if line = [] then (es_hasData sc, if es_hasData sc then sc else resetEvent sc)
      else if hd line = CHR '':'' then (False, sc)
      else case sse_field line of (field, v) \<Rightarrow>
        (False,
         if field = ''data'' then sc\<lparr>es_hasData := es_hasData sc \<or> v \<noteq> [], es_dataValues := es_dataValues sc @ [v]\<rparr>
         else if field = ''event'' then sc\<lparr>es_eventName := v\<rparr>
         else sc))"

text \<open>One byte of the loop of \<open>Feed\<close>, at \<open>index\<close>; \<open>Some\<close> is the boundary of a found event.\<close>

definition feed_byte :: "char \<Rightarrow> nat \<Rightarrow> sseEventScanner \<Rightarrow> nat option \<times> sseEventScanner" where
  "feed_byte v index sc0 =
     (let sc = sc0\<lparr>es_scannedBytes := Suc (es_scannedBytes sc0)\<rparr> in
      if es_pendingEvent sc
      then (Some (if v = LF then Suc index else index), sc\<lparr>es_pendingEvent := False, es_found := True\<rparr>)
      else if es_skipLineFeed sc \<and> v = LF then (None, sc\<lparr>es_skipLineFeed := False\<rparr>)
      else if v = CR
      then (case finishLine (sc\<lparr>es_skipLineFeed := True\<rparr>) of (ended, sc1) \<Rightarrow>
              if \<not> ended then (None, sc1)
              else if 0 < es_hardLimit sc1 \<and> es_scannedBytes sc1 = es_hardLimit sc1
              then (None, sc1\<lparr>es_skipLineFeed := False, es_pendingEvent := True\<rparr>)
              else (Some (Suc index), sc1\<lparr>es_found := True\<rparr>))
      else if v = LF
      then (case finishLine (sc\<lparr>es_skipLineFeed := False\<rparr>) of (ended, sc1) \<Rightarrow>
              if ended then (Some (Suc index), sc1\<lparr>es_found := True\<rparr>) else (None, sc1))
      else (None, sc\<lparr>es_skipLineFeed := False, es_line := es_line sc @ [v]\<rparr>))"

fun feed_from :: "string \<Rightarrow> nat \<Rightarrow> sseEventScanner \<Rightarrow> nat option \<times> sseEventScanner" where
  "feed_from [] index sc = (None, sc)"
| "feed_from (v # rest) index sc =
     (case feed_byte v index sc of (Some n, sc') \<Rightarrow> (Some n, sc') | (None, sc') \<Rightarrow> feed_from rest (Suc index) sc')"

definition Scanner_Feed :: "string \<Rightarrow> sseEventScanner \<Rightarrow> nat option \<times> sseEventScanner" where
  "Scanner_Feed chunk sc = (if es_found sc then (Some 0, sc) else feed_from chunk 0 sc)"

definition finishAtEOF :: "sseEventScanner \<Rightarrow> bool \<times> sseEventScanner" where
  "finishAtEOF sc =
     (let sc1 = (if es_pendingEvent sc then sc\<lparr>es_pendingEvent := False, es_found := True\<rparr> else sc) in (es_found sc1, sc1))"

definition scanner_payload :: "sseEventScanner \<Rightarrow> string" where
  "scanner_payload sc = Join [LF] (es_dataValues sc)"

definition isProviderError :: "envelope_json \<Rightarrow> sseEventScanner \<Rightarrow> bool" where
  "isProviderError json sc \<longleftrightarrow> es_eventName sc = ''error'' \<or> isSSEErrorPayload json (scanner_payload sc)"

record firstSSEEvent =
  fe_Prefix :: string
  fe_Name :: string
  fe_Payload :: string
  fe_IsProviderError :: bool

datatype firstEventError = FirstEventTooLarge | FirstEventIncomplete string | FirstEventRead string string

definition first_event :: "envelope_json \<Rightarrow> string \<Rightarrow> sseEventScanner \<Rightarrow> firstSSEEvent" where
  "first_event json buffered sc =
     \<lparr>fe_Prefix = buffered, fe_Name = es_eventName sc, fe_Payload = scanner_payload sc, fe_IsProviderError = isProviderError json sc\<rparr>"

text \<open>The loop of \<open>bufferFirstSSEEvent\<close>; the result comes with what the body still holds.\<close>

fun buffer_first ::
  "envelope_json \<Rightarrow> nat \<Rightarrow> nat \<Rightarrow> sseEventScanner \<Rightarrow> string \<Rightarrow> body_script
     \<Rightarrow> ((firstEventError + firstSSEEvent) \<times> body_script) option" where
  "buffer_first json limit 0 sc buffered script = None"
| "buffer_first json limit (Suc fuel) sc buffered script =
     (if limit - length buffered = 0 \<and> \<not> es_pendingEvent sc then Some (Inl FirstEventTooLarge, script)
      else
        let left = (if limit - length buffered = 0 then 1 else limit - length buffered) in
        case body_read (min streamReadBufferSize left) script of
          ((bytes, err), script') \<Rightarrow>
            let buffered' = buffered @ bytes in
            case Scanner_Feed bytes sc of
              (boundary, sc') \<Rightarrow>
                (case (if bytes = [] then None else boundary) of
                   Some n \<Rightarrow>
                     Some (if limit < length buffered + n then Inl FirstEventTooLarge else Inr (first_event json buffered' sc'), script')
                 | None \<Rightarrow>
                     if bytes \<noteq> [] \<and> length buffered' = limit \<and> \<not> es_pendingEvent sc' then Some (Inl FirstEventTooLarge, script')
                     else (case err of
                         None \<Rightarrow> buffer_first json limit fuel sc' buffered' script'
                       | Some BodyEOF \<Rightarrow>
                           Some (case finishAtEOF sc' of (found, sc1) \<Rightarrow>
                             if found then Inr (first_event json buffered' sc1) else Inl (FirstEventIncomplete buffered'), script')
                       | Some (BodyFailed m) \<Rightarrow> Some (Inl (FirstEventRead buffered' m), script'))))"

definition new_scanner :: "nat \<Rightarrow> sseEventScanner" where
  "new_scanner limit =
     \<lparr>es_line = [], es_hasData = False, es_dataValues = [], es_eventName = [], es_skipLineFeed = False, es_pendingEvent = False,
      es_found = False, es_scannedBytes = 0, es_hardLimit = limit\<rparr>"

definition maxFirstSSEEventBytes :: nat where
  "maxFirstSSEEventBytes = maxSSEEventBytes"

definition bufferFirstSSEEvent :: "envelope_json \<Rightarrow> body_script \<Rightarrow> ((firstEventError + firstSSEEvent) \<times> body_script) option" where
  "bufferFirstSSEEvent json script =
     buffer_first json maxFirstSSEEventBytes (Suc (Suc (script_size script))) (new_scanner maxFirstSSEEventBytes) [] script"

section \<open>The watchdog\<close>

text \<open>
  Timers are numbered by the generation in which they were armed; an expired timer calls \<open>expire\<close> with its
  generation at any later time. \<open>wt_closes\<close> counts the calls of the body's \<open>Close\<close>.
\<close>

definition errStreamIdleTimeout :: go_error where
  "errStreamIdleTimeout = plain_error\<lparr>ge_StreamIdle := True\<rparr>"

record streamWatchdog =
  wt_generation :: uint64
  wt_cause :: "go_error option"
  wt_armed :: "uint64 option"
  wt_closes :: nat

definition newStreamWatchdog :: streamWatchdog where
  "newStreamWatchdog = \<lparr>wt_generation = 0, wt_cause = None, wt_armed = None, wt_closes = 0\<rparr>"

definition watchdog_reset :: "streamWatchdog \<Rightarrow> streamWatchdog" where
  "watchdog_reset wd =
     (if wt_cause wd \<noteq> None then wd
      else wd\<lparr>wt_generation := wt_generation wd + 1, wt_armed := Some (wt_generation wd + 1)\<rparr>)"

definition watchdog_expire :: "uint64 \<Rightarrow> streamWatchdog \<Rightarrow> streamWatchdog" where
  "watchdog_expire generation wd =
     (if wt_cause wd \<noteq> None \<or> wt_generation wd \<noteq> generation then wd
      else wd\<lparr>wt_cause := Some errStreamIdleTimeout, wt_closes := Suc (wt_closes wd)\<rparr>)"

definition watchdog_interrupt :: "go_error option \<Rightarrow> streamWatchdog \<Rightarrow> streamWatchdog" where
  "watchdog_interrupt cause wd =
     (if wt_cause wd \<noteq> None then wd
      else wd\<lparr>wt_generation := wt_generation wd + 1, wt_armed := None,
              wt_cause := Some (case cause of None \<Rightarrow> context_Canceled | Some e \<Rightarrow> e), wt_closes := Suc (wt_closes wd)\<rparr>)"

definition watchdog_stop :: "streamWatchdog \<Rightarrow> streamWatchdog" where
  "watchdog_stop wd = wd\<lparr>wt_generation := wt_generation wd + 1, wt_armed := None\<rparr>"

definition stream_failure :: "streamFailureKind \<Rightarrow> go_error \<Rightarrow> go_error" where
  "stream_failure kind e = e\<lparr>ge_streamFailure := Some kind\<rparr>"

definition streamWatchdogFailure :: "go_error \<Rightarrow> go_error" where
  "streamWatchdogFailure cause =
     stream_failure (if ge_Canceled cause then streamFailureClientCanceled
       else if ge_StreamIdle cause then streamFailureIdle else streamFailureUpstreamRead) cause"

section \<open>The pump\<close>

datatype pumpEnd = PumpEOF | PumpEventTooLarge | PumpEventIncomplete | PumpError go_error

text \<open>
  One round: what the body delivers, and what the context, the watchdog, the write and the flush say; the
  context and the watchdog are read once after the bytes and once after an error.
\<close>

record PumpRound =
  pu_bytes :: string
  pu_end :: "pumpEnd option"
  pu_ctxErr :: "go_error option"
  pu_cause :: "go_error option"
  pu_written :: nat
  pu_writeErr :: "go_error option"
  pu_flushErr :: "go_error option"
  pu_ctxErrAtEnd :: "go_error option"
  pu_causeAtEnd :: "go_error option"

definition pump_write :: "PumpRound \<Rightarrow> (go_error \<times> string) + string" where
  "pump_write r =
     (if pu_bytes r = [] then Inr []
      else case pu_ctxErr r of
        Some e \<Rightarrow> Inl (stream_failure streamFailureClientCanceled e, [])
      | None \<Rightarrow>
          (case pu_cause r of
             Some e \<Rightarrow> Inl (streamWatchdogFailure e, [])
           | None \<Rightarrow>
               let out = take (pu_written r) (pu_bytes r) in
               (case pu_writeErr r of
                  Some e \<Rightarrow> Inl (stream_failure streamFailureDownstreamWrite e, out)
                | None \<Rightarrow>
                    if pu_written r \<noteq> length (pu_bytes r) then Inl (stream_failure streamFailureDownstreamWrite plain_error, out)
                    else (case pu_flushErr r of
                      Some e \<Rightarrow> Inl (stream_failure streamFailureDownstreamWrite e, out)
                    | None \<Rightarrow> Inr out))))"

definition pump_end :: "PumpRound \<Rightarrow> pumpEnd \<Rightarrow> go_error option" where
  "pump_end r e =
     (case pu_ctxErrAtEnd r of
        Some c \<Rightarrow> Some (stream_failure streamFailureClientCanceled c)
      | None \<Rightarrow>
          (case pu_causeAtEnd r of
             Some c \<Rightarrow> Some (streamWatchdogFailure c)
           | None \<Rightarrow>
               (case e of
                  PumpEOF \<Rightarrow> None
                | PumpEventTooLarge \<Rightarrow> Some (stream_failure streamFailureProtocol ErrUpstreamProtocol)
                | PumpEventIncomplete \<Rightarrow> Some (stream_failure streamFailureProtocol ErrUpstreamProtocol)
                | PumpError g \<Rightarrow>
                    Some (stream_failure (if ge_UpstreamProtocol g then streamFailureProtocol else streamFailureUpstreamRead) g))))"

text \<open>The error the pump returns, if any, and the bytes it wrote; \<open>None\<close> while rounds are missing.\<close>

fun pumpStreamWithWatchdogObserver :: "PumpRound list \<Rightarrow> (go_error option \<times> string) option" where
  "pumpStreamWithWatchdogObserver [] = None"
| "pumpStreamWithWatchdogObserver (r # rounds) =
     (case pump_write r of
        Inl (e, out) \<Rightarrow> Some (Some e, out)
      | Inr out \<Rightarrow>
          (case pu_end r of
             Some e \<Rightarrow> Some (pump_end r e, out)
           | None \<Rightarrow> map_option (apsnd (append out)) (pumpStreamWithWatchdogObserver rounds)))"

section \<open>Classification of events\<close>

datatype StreamEventDisposition =
    StreamEventContinue | StreamEventCompleted | StreamEventIncomplete | StreamEventFailed | StreamEventDisposition_other nat

definition IsTerminal :: "StreamEventDisposition \<Rightarrow> bool" where
  "IsTerminal d \<longleftrightarrow> d = StreamEventCompleted \<or> d = StreamEventIncomplete \<or> d = StreamEventFailed"

definition validStreamEventDisposition :: "StreamEventDisposition \<Rightarrow> bool" where
  "validStreamEventDisposition d = (case d of StreamEventDisposition_other _ \<Rightarrow> False | _ \<Rightarrow> True)"

text \<open>A classifier returns \<open>None\<close> where it fails or panics.\<close>

type_synonym event_classifier = "StreamEvent \<Rightarrow> StreamEventDisposition option"

record streamEventObserver =
  ov_classifier :: "event_classifier option"
  ov_terminalRequired :: bool
  ov_sawTerminal :: bool
  ov_terminalForwarded :: bool
  ov_terminalDisposition :: StreamEventDisposition
  ov_eventCount :: nat
  ov_firstProviderError :: bool
  ov_sawErrorEvent :: bool
  ov_firstSummary :: string
  ov_firstErrorPayload :: string

definition newStreamEventObserver :: "(event_classifier \<times> bool) option \<Rightarrow> streamEventObserver" where
  "newStreamEventObserver selected =
     \<lparr>ov_classifier = map_option fst selected, ov_terminalRequired = (case selected of None \<Rightarrow> False | Some (_, required) \<Rightarrow> required),
      ov_sawTerminal = False, ov_terminalForwarded = False, ov_terminalDisposition = StreamEventContinue, ov_eventCount = 0,
      ov_firstProviderError = False, ov_sawErrorEvent = False, ov_firstSummary = [], ov_firstErrorPayload = []\<rparr>"

definition is_done :: "StreamEvent \<Rightarrow> bool" where
  "is_done event \<longleftrightarrow> TrimSpace (se_Payload event) = ''[DONE]''"

definition classify :: "StreamEvent \<Rightarrow> bool \<Rightarrow> streamEventObserver \<Rightarrow> (go_error + bool) \<times> streamEventObserver" where
  "classify event genericProviderError ov =
     (if ov_sawTerminal ov then (if is_done event then Inr False else Inl ErrUpstreamProtocol, ov)
      else
        let disposition = (case ov_classifier ov of None \<Rightarrow> Some StreamEventContinue | Some f \<Rightarrow> f event) in
        case disposition of
          None \<Rightarrow> (Inl ErrUpstreamProtocol, ov)
        | Some d \<Rightarrow>
            if \<not> validStreamEventDisposition d then (Inl ErrUpstreamProtocol, ov)
            else
              let ov1 = (if IsTerminal d then ov\<lparr>ov_sawTerminal := True, ov_terminalDisposition := d\<rparr> else ov);
                  providerError = (genericProviderError \<or> d = StreamEventFailed)
              in (Inr providerError,
                  ov1\<lparr>ov_eventCount := Suc (ov_eventCount ov),
                      ov_firstProviderError := (if ov_eventCount ov = 0 then providerError else ov_firstProviderError ov)\<rparr>))"

definition observeError :: "string \<Rightarrow> string \<Rightarrow> streamEventObserver \<Rightarrow> streamEventObserver" where
  "observeError payload summary ov =
     (let ov1 = ov\<lparr>ov_sawErrorEvent := True\<rparr> in
      if ov_firstSummary ov = [] then ov1\<lparr>ov_firstSummary := summary, ov_firstErrorPayload := payload\<rparr> else ov1)"

definition markTerminalForwarded :: "streamEventObserver \<Rightarrow> bool \<times> streamEventObserver" where
  "markTerminalForwarded ov =
     (if \<not> ov_sawTerminal ov then (False, ov) else (True, ov\<lparr>ov_terminalForwarded := True\<rparr>))"

definition endObservation :: "streamEventObserver \<Rightarrow> StreamObservation" where
  "endObservation ov =
     (if ov_sawErrorEvent ov then \<lparr>so_EndReason = StreamEndSSEError, so_ErrorSummary = ov_firstSummary ov\<rparr>
      else if ov_sawTerminal ov \<and> ov_terminalDisposition ov = StreamEventIncomplete
      then streamTerminalObservation StreamEndProviderIncomplete
      else \<lparr>so_EndReason = StreamEndCleanEOF, so_ErrorSummary = []\<rparr>)"

definition validateEOF :: "streamEventObserver \<Rightarrow> go_error option" where
  "validateEOF ov =
     (if \<not> ov_terminalRequired ov \<or> ov_sawTerminal ov then None
      else Some (stream_failure streamFailureProtocol ErrUpstreamProtocol))"

definition observeStreamTermination :: "Context option \<Rightarrow> go_error option \<Rightarrow> streamEventObserver \<Rightarrow> StreamObservation" where
  "observeStreamTermination ctx err ov =
     (let observation = endObservation ov in
      if ov_terminalForwarded ov \<and> err_is ge_UpstreamProtocol err then prioritizeStreamObservation None err observation
      else if ov_terminalForwarded ov
              \<and> (err_is ge_Canceled err \<or> (case ctx of None \<Rightarrow> False | Some c \<Rightarrow> err_is ge_Canceled (cx_Err c)))
      then observation
      else prioritizeStreamObservation ctx err observation)"

section \<open>Capture of usage\<close>

text \<open>
  An extractor has a state of its own: \<open>uo_observe\<close> says whether an event panics, and \<open>uo_finalize\<close> returns the
  result and whether it is final, or \<open>None\<close> where it panics.
\<close>

record 'x usage_extractor =
  uo_observe :: "'x \<Rightarrow> StreamEvent \<Rightarrow> bool \<times> 'x"
  uo_finalize :: "'x \<Rightarrow> (Result \<times> bool) option"

record 'x streamUsageCapture =
  uc_extractor :: "'x usage_extractor option"
  uc_state :: 'x
  uc_active :: bool
  uc_finalized :: bool
  uc_result :: Result

definition missingUsage :: "bool \<Rightarrow> Result" where
  "missingUsage invalidPayload =
     \<lparr>rs_Tokens = Tokens0, rs_State = StateMissing,
      rs_Diagnostics = (if invalidPayload then Diagnostics_Add Diagnostics0 DiagnosticInvalidPayload else Diagnostics0)\<rparr>"

definition newStreamForRequest :: "('x usage_extractor \<times> 'x) option \<Rightarrow> 'x \<Rightarrow> bool \<Rightarrow> 'x streamUsageCapture" where
  "newStreamForRequest selected unused applicable =
     (let initial = (if applicable then missingUsage False else (missingUsage False)\<lparr>rs_State := StateNotApplicable\<rparr>) in
      case (if applicable then selected else None) of
        None \<Rightarrow> \<lparr>uc_extractor = None, uc_state = unused, uc_active = False, uc_finalized = False, uc_result = initial\<rparr>
      | Some (extractor, x) \<Rightarrow>
          \<lparr>uc_extractor = Some extractor, uc_state = x, uc_active = True, uc_finalized = False, uc_result = initial\<rparr>)"

definition capture_observeEvent :: "StreamEvent \<Rightarrow> 'x streamUsageCapture \<Rightarrow> 'x streamUsageCapture" where
  "capture_observeEvent event uc =
     (case uc_extractor uc of
        None \<Rightarrow> uc
      | Some extractor \<Rightarrow>
          if \<not> uc_active uc \<or> uc_finalized uc then uc
          else (case uo_observe extractor (uc_state uc) event of (panicked, x) \<Rightarrow>
            uc\<lparr>uc_state := x, uc_active := \<not> panicked\<rparr>))"

definition observeUsageEvent :: "StreamEvent \<Rightarrow> 'x streamUsageCapture \<Rightarrow> 'x streamUsageCapture" where
  "observeUsageEvent event uc = (if is_done event then uc else capture_observeEvent event uc)"

definition finalized_usage :: "'x usage_extractor \<Rightarrow> 'x \<Rightarrow> Result" where
  "finalized_usage extractor x =
     (case uo_finalize extractor x of
        None \<Rightarrow> missingUsage False
      | Some (result, finalized) \<Rightarrow> if finalized \<and> validCapturedUsage result then result else missingUsage False)"

definition capture_finalize :: "'x streamUsageCapture \<Rightarrow> Result \<times> 'x streamUsageCapture" where
  "capture_finalize uc =
     (if uc_finalized uc then (uc_result uc, uc)
      else case (if uc_active uc then uc_extractor uc else None) of
          None \<Rightarrow> (uc_result uc, uc\<lparr>uc_finalized := True\<rparr>)
        | Some extractor \<Rightarrow>
            (let result = finalized_usage extractor (uc_state uc) in (result, uc\<lparr>uc_finalized := True, uc_result := result\<rparr>)))"

definition extractNonStreamingPlain :: "(string \<Rightarrow> Result option) option \<Rightarrow> string \<Rightarrow> Result" where
  "extractNonStreamingPlain extractor body =
     (case extractor of
        None \<Rightarrow> missingUsage False
      | Some f \<Rightarrow>
          (case f body of
             None \<Rightarrow> missingUsage True
           | Some result \<Rightarrow> if validCapturedUsage result then result else missingUsage True))"

section \<open>The first event does not depend on the pieces\<close>

lemma feed_from_append:
  "feed_from (xs @ ys) i sc =
     (case feed_from xs i sc of (Some n, sc') \<Rightarrow> (Some n, sc') | (None, sc') \<Rightarrow> feed_from ys (i + length xs) sc')"
  by (induction xs arbitrary: i sc) (auto split: prod.split option.split)

lemma finishLine_keeps:
  assumes "finishLine sc = (b, sc')"
  shows "es_pendingEvent sc' = es_pendingEvent sc" "es_found sc' = es_found sc" "es_scannedBytes sc' = es_scannedBytes sc"
    "es_hardLimit sc' = es_hardLimit sc"
  using assms by (auto simp: finishLine_def resetEvent_def Let_def split: if_splits prod.splits)

text \<open>A scanner that has found nothing has counted its bytes, and waits for one more only at its limit.\<close>

definition waiting_ok :: "sseEventScanner \<Rightarrow> bool" where
  "waiting_ok sc \<longleftrightarrow> \<not> es_found sc \<and> (es_pendingEvent sc \<longrightarrow> es_scannedBytes sc = es_hardLimit sc)"

lemma feed_byte_none:
  assumes "feed_byte v i sc = (None, sc')" and "waiting_ok sc"
  shows "waiting_ok sc'" "es_scannedBytes sc' = Suc (es_scannedBytes sc)" "es_hardLimit sc' = es_hardLimit sc" "\<not> es_pendingEvent sc"
  using assms
  by (auto simp: feed_byte_def waiting_ok_def Let_def finishLine_keeps split: if_splits prod.splits)

lemma feed_byte_some: "feed_byte v i sc = (Some n, sc') \<Longrightarrow> n = Suc i \<or> es_pendingEvent sc \<and> n = i"
  by (auto simp: feed_byte_def Let_def split: if_splits prod.splits)

lemma feed_from_none:
  "feed_from xs i sc = (None, sc') \<Longrightarrow> waiting_ok sc \<Longrightarrow>
     waiting_ok sc' \<and> es_scannedBytes sc' = es_scannedBytes sc + length xs \<and> es_hardLimit sc' = es_hardLimit sc
     \<and> (es_pendingEvent sc \<longrightarrow> xs = [])"
proof (induction xs arbitrary: i sc)
  case (Cons v rest)
  then obtain sc1 where "feed_byte v i sc = (None, sc1)" "feed_from rest (Suc i) sc1 = (None, sc')"
    by (auto split: prod.splits option.splits)
  with Cons feed_byte_none show ?case by fastforce
qed simp

lemma feed_from_some:
  "feed_from xs i sc = (Some n, sc') \<Longrightarrow> waiting_ok sc \<Longrightarrow> i \<le> n \<and> (es_pendingEvent sc \<or> i < n) \<and> xs \<noteq> []"
proof (induction xs arbitrary: i sc)
  case (Cons v rest)
  show ?case
  proof (cases "feed_byte v i sc")
    case (Pair r sc1)
    with Cons feed_byte_some [of v i sc] feed_byte_none [of v i sc] show ?thesis by (cases r) fastforce+
  qed
qed simp

text \<open>What the scanner says of the whole input in one piece, within the limit.\<close>

datatype firstOutcome = FirstFound string string bool | FirstTooLarge | FirstIncomplete | FirstFailed string

definition found_event :: "envelope_json \<Rightarrow> sseEventScanner \<Rightarrow> firstOutcome" where
  "found_event json sc = FirstFound (es_eventName sc) (scanner_payload sc) (isProviderError json sc)"

definition scan_outcome :: "envelope_json \<Rightarrow> nat \<Rightarrow> string \<Rightarrow> bodyEnd \<Rightarrow> firstOutcome" where
  "scan_outcome json limit bytes ending =
     (case feed_from bytes 0 (new_scanner limit) of
        (Some n, sc) \<Rightarrow> if limit < n then FirstTooLarge else found_event json sc
      | (None, sc) \<Rightarrow>
          if limit \<le> length bytes \<and> \<not> es_pendingEvent sc then FirstTooLarge
          else (case ending of
              BodyEOF \<Rightarrow> if es_pendingEvent sc then found_event json sc else FirstIncomplete
            | BodyFailed m \<Rightarrow> FirstFailed m))"

definition outcome_of :: "firstEventError + firstSSEEvent \<Rightarrow> firstOutcome" where
  "outcome_of r =
     (case r of
        Inr ev \<Rightarrow> FirstFound (fe_Name ev) (fe_Payload ev) (fe_IsProviderError ev)
      | Inl FirstEventTooLarge \<Rightarrow> FirstTooLarge
      | Inl (FirstEventIncomplete _) \<Rightarrow> FirstIncomplete
      | Inl (FirstEventRead _ m) \<Rightarrow> FirstFailed m)"

text \<open>The bytes that the loop has buffered, or that the event or the error keeps.\<close>

definition kept_bytes :: "firstEventError + firstSSEEvent \<Rightarrow> string" where
  "kept_bytes r =
     (case r of Inr ev \<Rightarrow> fe_Prefix ev | Inl FirstEventTooLarge \<Rightarrow> [] | Inl (FirstEventIncomplete b) \<Rightarrow> b | Inl (FirstEventRead b _) \<Rightarrow> b)"

lemma found_event_keeps [simp]:
  "found_event json (sc\<lparr>es_pendingEvent := b, es_found := c\<rparr>) = found_event json sc"
  by (simp add: found_event_def scanner_payload_def isProviderError_def)

lemma outcome_first_event [simp]:
  "outcome_of (Inr (first_event json buffered sc)) = found_event json sc" "kept_bytes (Inr (first_event json buffered sc)) = buffered"
  by (simp_all add: outcome_of_def first_event_def found_event_def kept_bytes_def)

lemma feed_byte_shift: "feed_byte v (k + i) sc = apfst (map_option ((+) k)) (feed_byte v i sc)"
  by (simp add: feed_byte_def Let_def split: prod.split)

lemma feed_from_shift: "feed_from xs (k + i) sc = apfst (map_option ((+) k)) (feed_from xs i sc)"
proof (induction xs arbitrary: i sc)
  case (Cons v rest)
  show ?case
    using Cons.IH [of "Suc i"] by (auto simp: feed_byte_shift split: prod.split option.split)
qed simp

lemma new_scanner_ok [simp]: "waiting_ok (new_scanner limit)" "es_scannedBytes (new_scanner limit) = 0" "es_hardLimit (new_scanner limit) = limit"
  by (simp_all add: waiting_ok_def new_scanner_def)

lemma full_buffer:
  assumes f: "feed_from buffered 0 (new_scanner limit) = (None, sc)" and "length buffered = limit" and "\<not> es_pendingEvent sc"
  shows "scan_outcome json limit (buffered @ ys) ending = FirstTooLarge"
proof -
  note w = feed_from_none [OF f new_scanner_ok(1)]
  show ?thesis
  proof (cases "feed_from ys (length buffered) sc")
    case (Pair r sc')
    show ?thesis
    proof (cases r)
      case None
      have "\<not> es_pendingEvent sc'"
        using feed_from_none [OF Pair [unfolded None]] w assms(2,3) Pair None by (cases ys) (auto simp: waiting_ok_def)
      with None Pair f assms(2) show ?thesis by (simp add: scan_outcome_def feed_from_append)
    next
      case (Some n)
      with Pair feed_from_some [OF Pair [unfolded Some]] w assms f show ?thesis
        by (auto simp: scan_outcome_def feed_from_append)
    qed
  qed
qed

lemma buffer_first_exact:
  assumes "feed_from buffered 0 (new_scanner limit) = (None, sc)" and "length buffered \<le> limit" and "0 < limit"
    and "script_size script < fuel"
  shows "\<exists>r script'. buffer_first json limit fuel sc buffered script = Some (r, script')
    \<and> outcome_of r = scan_outcome json limit (buffered @ script_bytes script) (script_end script)
    \<and> prefix (kept_bytes r) (buffered @ script_bytes script)
    \<and> (\<forall>ev. r = Inr ev \<longrightarrow> fe_Prefix ev = buffered @ script_bytes script
          \<or> fe_Prefix ev @ script_bytes script' = buffered @ script_bytes script)
    \<and> (\<forall>err. r = Inl err \<and> err \<noteq> FirstEventTooLarge \<longrightarrow> kept_bytes r = buffered @ script_bytes script)"
  using assms
proof (induction fuel arbitrary: sc buffered script)
  case (Suc fuel)
  note w = feed_from_none [OF Suc.prems(1) new_scanner_ok(1)]
  then have pending: "es_pendingEvent sc \<Longrightarrow> length buffered = limit" and nf: "\<not> es_found sc" by (simp_all add: waiting_ok_def)
  define left where "left = (if limit - length buffered = 0 then 1 else limit - length buffered)"
  show ?case
  proof (cases "limit - length buffered = 0 \<and> \<not> es_pendingEvent sc")
    case True
    then have "length buffered = limit" using Suc.prems(2) by simp
    with full_buffer [OF Suc.prems(1) this] True show ?thesis by (simp add: outcome_of_def kept_bytes_def)
  next
    case False
    obtain bytes err script' where r: "body_read (min streamReadBufferSize left) script = ((bytes, err), script')" by (metis prod.exhaust)
    obtain found sc' where fd: "feed_from bytes 0 sc = (found, sc')" by fastforce
    note b = body_read_bytes [OF r]
    let ?all = "buffered @ script_bytes script" and ?rest = "if err = None then script_bytes script' else []"
    have all: "?all = (buffered @ bytes) @ ?rest" using b(1) by simp
    have step: "buffer_first json limit (Suc fuel) sc buffered script =
        (case (if bytes = [] then None else found) of
           Some n \<Rightarrow> Some (if limit < length buffered + n then Inl FirstEventTooLarge else Inr (first_event json (buffered @ bytes) sc'), script')
         | None \<Rightarrow>
             if bytes \<noteq> [] \<and> length (buffered @ bytes) = limit \<and> \<not> es_pendingEvent sc' then Some (Inl FirstEventTooLarge, script')
             else (case err of
                 None \<Rightarrow> buffer_first json limit fuel sc' (buffered @ bytes) script'
               | Some BodyEOF \<Rightarrow>
                   Some (case finishAtEOF sc' of (found, sc1) \<Rightarrow>
                     if found then Inr (first_event json (buffered @ bytes) sc1) else Inl (FirstEventIncomplete (buffered @ bytes)), script')
               | Some (BodyFailed m) \<Rightarrow> Some (Inl (FirstEventRead (buffered @ bytes) m), script')))"
      using False r nf fd by (auto simp: left_def Scanner_Feed_def Let_def)
    have shifted: "feed_from bytes (length buffered) sc = (map_option ((+) (length buffered)) found, sc')"
      using feed_from_shift [of bytes "length buffered" 0 sc] fd by simp
    show ?thesis
    proof (cases found)
      case (Some n)
      then have ne: "bytes \<noteq> []" using fd by auto
      have "scan_outcome json limit ?all (script_end script) =
          (if limit < length buffered + n then FirstTooLarge else found_event json sc')"
        unfolding all scan_outcome_def feed_from_append using Suc.prems(1) shifted Some by simp
      with step Some ne all show ?thesis by (auto simp: outcome_of_def kept_bytes_def first_event_def found_event_def)
    next
      case None
      have sofar: "feed_from (buffered @ bytes) 0 (new_scanner limit) = (None, sc')"
        unfolding feed_from_append using Suc.prems(1) shifted None by simp
      note w' = feed_from_none [OF sofar new_scanner_ok(1)]
      have fits: "length (buffered @ bytes) \<le> limit"
        using feed_from_none [OF fd [unfolded None]] w pending b(3) False Suc.prems(2)
        by (cases "es_pendingEvent sc") (auto simp: left_def split: if_splits)
      show ?thesis
      proof (cases "bytes \<noteq> [] \<and> length (buffered @ bytes) = limit \<and> \<not> es_pendingEvent sc'")
        case True
        with full_buffer [OF sofar, of json ?rest "script_end script"] step None all show ?thesis
          by (simp add: outcome_of_def kept_bytes_def)
      next
        case open_end: False
        show ?thesis
        proof (cases err)
          case e: None
          have "0 < min streamReadBufferSize left" by (simp add: left_def streamReadBufferSize_def)
          from body_read_size [OF r this] e Suc.prems(4) have "script_size script' < fuel" by auto
          from Suc.IH [OF sofar fits Suc.prems(3) this] step None open_end e b(2) all show ?thesis by auto
        next
          case (Some en)
          have out: "scan_outcome json limit (buffered @ bytes) en =
              (case en of BodyEOF \<Rightarrow> if es_pendingEvent sc' then found_event json sc' else FirstIncomplete | BodyFailed m \<Rightarrow> FirstFailed m)"
            using sofar open_end False fits Suc.prems(2) fd None
            by (cases "bytes = []") (auto simp: scan_outcome_def split: bodyEnd.split)
          have "\<not> es_found sc'" using w' by (simp add: waiting_ok_def)
          with step None open_end Some b all out show ?thesis
            by (auto simp: finishAtEOF_def outcome_of_def kept_bytes_def first_event_def found_event_def Let_def
                scanner_payload_def isProviderError_def split: bodyEnd.split)
        qed
      qed
    qed
  qed
qed simp

section \<open>The pump writes what it read\<close>

lemma pump_write_prefix: "(case pump_write r of Inl (e, out) \<Rightarrow> prefix out (pu_bytes r) | Inr out \<Rightarrow> out = pu_bytes r)"
  by (auto simp: pump_write_def Let_def take_is_prefix split: option.split)

lemma pump_prefix:
  "pumpStreamWithWatchdogObserver rounds = Some (err, out) \<Longrightarrow>
     prefix out (concat (map pu_bytes rounds))
     \<and> (err = None \<longrightarrow> (\<exists>k < length rounds. out = concat (map pu_bytes (take (Suc k) rounds)) \<and> pu_end (rounds ! k) = Some PumpEOF))"
proof (induction rounds arbitrary: out)
  case (Cons r rounds)
  note w = pump_write_prefix [of r]
  show ?case
  proof (cases "pump_write r")
    case (Inl a)
    with Cons.prems w show ?thesis by (auto intro: prefix_order.trans)
  next
    case (Inr o1)
    with w have o1: "o1 = pu_bytes r" by simp
    show ?thesis
    proof (cases "pu_end r")
      case None
      with Cons.prems Inr obtain o2 where "pumpStreamWithWatchdogObserver rounds = Some (err, o2)" "out = o1 @ o2" by auto
      with Cons.IH [of o2] o1 show ?thesis by fastforce
    next
      case (Some e)
      with Cons.prems Inr o1 show ?thesis
        by (auto simp: pump_end_def split: option.splits pumpEnd.splits intro!: exI [of _ 0])
    qed
  qed
qed simp

end
