(* ===== verification/Sse_First.thy ===== *)
theory Sse_First
  imports Sse_Forward
begin

text \<open>
  The first event of a stream in terms of its lines. The scanner of \<open>src/internal/gateway/sse.go\<close> reads byte by byte and
  keeps what it needs of the event so far; here it is shown to find the first event with data as the lines of the
  whole input tell it.
\<close>

section \<open>What an event says, by its lines\<close>

text \<open>An event counts when one of its data lines is not empty.\<close>

definition has_data :: "string \<Rightarrow> bool" where
  "has_data e = list_ex (\<lambda>l. el_isData l \<and> el_data l \<noteq> []) (splitSSEEventLines e)"

text \<open>The first event with data, and where it ends.\<close>

function first_data_event :: "nat \<Rightarrow> string \<Rightarrow> (nat \<times> string) option" where
  "first_data_event k s =
     (case split_event s of
        None \<Rightarrow> None
      | Some (e, r) \<Rightarrow> if has_data e then Some (k + length e, e) else first_data_event (k + length e) r)"
  by pat_completeness auto

termination
  by (relation "measure (\<lambda>(k, s). length s)") (auto dest: split_event_shorter)

declare first_data_event.simps [simp del]

text \<open>
  What the whole input says about its first event with data. It is too large when it ends beyond the limit, or
  when the limit is reached without one. A body that fails just after a final carriage return at the limit leaves open
  whether a line feed belongs to the event.
\<close>

definition first_outcome :: "envelope_json \<Rightarrow> nat \<Rightarrow> string \<Rightarrow> bodyEnd \<Rightarrow> firstOutcome" where
  "first_outcome json limit bytes ending =
     (case first_data_event 0 bytes of
        Some (n, e) \<Rightarrow>
          let lines = splitSSEEventLines e in
          if limit < n then FirstTooLarge
          else if n = limit \<and> n = length bytes \<and> last bytes = CR \<and> ending \<noteq> BodyEOF
          then (case ending of BodyFailed m \<Rightarrow> FirstFailed m | BodyEOF \<Rightarrow> FirstIncomplete)
          else FirstFound (event_name lines) (event_payload lines)
                 (event_name lines = ''error'' \<or> isSSEErrorPayload json (event_payload lines))
      | None \<Rightarrow>
          if limit \<le> length bytes then FirstTooLarge
          else (case ending of BodyEOF \<Rightarrow> FirstIncomplete | BodyFailed m \<Rightarrow> FirstFailed m))"

section \<open>One line\<close>

text \<open>What the scanner remembers of an event: whether it has data, its values and its name.\<close>

type_synonym event_so_far = "bool \<times> string list \<times> string"

definition so_far :: "sseEventScanner \<Rightarrow> event_so_far" where
  "so_far sc = (es_hasData sc, es_dataValues sc, es_eventName sc)"

definition add_line :: "string \<Rightarrow> event_so_far \<Rightarrow> event_so_far" where
  "add_line content = (\<lambda>(d, vs, name). case parseSSEDataLine content of (isData, v) \<Rightarrow>
     (d \<or> isData \<and> v \<noteq> [], if isData then vs @ [v] else vs,
      case parseSSEEventName content of Some n \<Rightarrow> n | None \<Rightarrow> name))"

lemma finishLine_line:
  assumes "es_line sc = content" and "content \<noteq> []"
  shows "\<exists>sc'. finishLine sc = (False, sc') \<and> so_far sc' = add_line content (so_far sc) \<and> es_line sc' = []
    \<and> es_skipLineFeed sc' = es_skipLineFeed sc"
proof (cases "hd content = CHR '':''")
  case True
  then have "sse_field content = ([], snd (sse_field content))"
    using assms(2) by (cases content) (auto simp: sse_field_def split: prod.splits)
  then have "parseSSEEventName content = None" "parseSSEDataLine content = (False, [])"
    using True by (auto simp: parseSSEEventName_def parseSSEDataLine_def split: prod.splits)
  then show ?thesis using assms True by (simp add: finishLine_def Let_def so_far_def add_line_def)
next
  case False
  then show ?thesis using assms
    by (auto simp: finishLine_def Let_def so_far_def add_line_def parseSSEEventName_def parseSSEDataLine_def split: prod.splits)
qed

text \<open>A scanner between two lines of an input of which \<open>s\<close> is left.\<close>

definition at_line :: "nat \<Rightarrow> string \<Rightarrow> nat \<Rightarrow> sseEventScanner \<Rightarrow> bool" where
  "at_line limit s i sc \<longleftrightarrow> es_line sc = [] \<and> \<not> es_pendingEvent sc \<and> \<not> es_found sc \<and> es_scannedBytes sc = i
     \<and> es_hardLimit sc = limit \<and> (es_skipLineFeed sc \<longrightarrow> s = [] \<or> hd s \<noteq> LF)"

lemma feed_content:
  "CR \<notin> set content \<Longrightarrow> LF \<notin> set content \<Longrightarrow> \<not> es_pendingEvent sc \<Longrightarrow>
    feed_from (content @ xs) i sc = feed_from xs (i + length content)
      (sc\<lparr>es_line := es_line sc @ content, es_skipLineFeed := es_skipLineFeed sc \<and> content = [],
          es_scannedBytes := es_scannedBytes sc + length content\<rparr>)"
proof (induction content arbitrary: i sc)
  case (Cons v content)
  then have "feed_byte v i sc = (None, sc\<lparr>es_line := es_line sc @ [v], es_skipLineFeed := False, es_scannedBytes := Suc (es_scannedBytes sc)\<rparr>)"
    by (auto simp: feed_byte_def Let_def)
  with Cons show ?case by simp
qed simp

text \<open>A line with content goes into the event.\<close>

lemma feed_line:
  assumes n: "next_line s = (content, t, r)" and c: "content \<noteq> []" and t: "t \<noteq> []" and sc: "at_line limit s i sc"
  shows "\<exists>sc'. feed_from s i sc = feed_from r (i + length content + length t) sc'
    \<and> at_line limit r (i + length content + length t) sc' \<and> so_far sc' = add_line content (so_far sc)"
proof -
  note plain = next_line_content [OF n]
  have s: "s = content @ t @ r" by (rule next_line_append [OF n])
  let ?sc = "sc\<lparr>es_line := content, es_skipLineFeed := False, es_scannedBytes := i + length content\<rparr>"
  have fed: "feed_from s i sc = feed_from (t @ r) (i + length content) ?sc"
    using feed_content [of content sc "t @ r" i] plain sc c by (simp add: s at_line_def)
  have fin: "\<exists>sc'. finishLine (?sc\<lparr>es_scannedBytes := Suc (i + length content), es_skipLineFeed := k\<rparr>) = (False, sc')
      \<and> so_far sc' = add_line content (so_far sc) \<and> es_line sc' = [] \<and> es_skipLineFeed sc' = k
      \<and> es_scannedBytes sc' = Suc (i + length content) \<and> \<not> es_pendingEvent sc' \<and> \<not> es_found sc' \<and> es_hardLimit sc' = limit" for k
    using finishLine_line [of "?sc\<lparr>es_scannedBytes := Suc (i + length content), es_skipLineFeed := k\<rparr>" content] c
      finishLine_keeps [of "?sc\<lparr>es_scannedBytes := Suc (i + length content), es_skipLineFeed := k\<rparr>"] sc
    by (fastforce simp: so_far_def at_line_def)
  from next_line_terminator [OF n] t consider "t = [CR]" "r = [] \<or> hd r \<noteq> LF" | "t = [LF]" | "t = [CR, LF]" by auto
  then show ?thesis
  proof cases
    case 1
    obtain sc' where f: "finishLine (?sc\<lparr>es_scannedBytes := Suc (i + length content), es_skipLineFeed := True\<rparr>) = (False, sc')"
      and sc': "so_far sc' = add_line content (so_far sc)" "es_line sc' = []" "es_skipLineFeed sc'"
        "es_scannedBytes sc' = Suc (i + length content)" "\<not> es_pendingEvent sc'" "\<not> es_found sc'" "es_hardLimit sc' = limit"
      using fin [of True] by blast
    have "feed_byte CR (i + length content) ?sc = (None, sc')"
      using f sc by (simp add: feed_byte_def Let_def at_line_def)
    with fed 1 sc' show ?thesis by (auto simp: at_line_def intro!: exI [of _ sc'])
  next
    case 2
    obtain sc' where f: "finishLine (?sc\<lparr>es_scannedBytes := Suc (i + length content), es_skipLineFeed := False\<rparr>) = (False, sc')"
      and sc': "so_far sc' = add_line content (so_far sc)" "es_line sc' = []" "\<not> es_skipLineFeed sc'"
        "es_scannedBytes sc' = Suc (i + length content)" "\<not> es_pendingEvent sc'" "\<not> es_found sc'" "es_hardLimit sc' = limit"
      using fin [of False] by blast
    have "feed_byte LF (i + length content) ?sc = (None, sc')"
      using f sc by (simp add: feed_byte_def Let_def at_line_def)
    with fed 2 sc' show ?thesis by (auto simp: at_line_def intro!: exI [of _ sc'])
  next
    case 3
    obtain sc' where f: "finishLine (?sc\<lparr>es_scannedBytes := Suc (i + length content), es_skipLineFeed := True\<rparr>) = (False, sc')"
      and sc': "so_far sc' = add_line content (so_far sc)" "es_line sc' = []" "es_skipLineFeed sc'"
        "es_scannedBytes sc' = Suc (i + length content)" "\<not> es_pendingEvent sc'" "\<not> es_found sc'" "es_hardLimit sc' = limit"
      using fin [of True] by blast
    have "feed_byte CR (i + length content) ?sc = (None, sc')"
      using f sc by (simp add: feed_byte_def Let_def at_line_def)
    moreover have "feed_byte LF (Suc (i + length content)) sc' = (None, sc'\<lparr>es_scannedBytes := Suc (Suc (i + length content)), es_skipLineFeed := False\<rparr>)"
      using sc' by (simp add: feed_byte_def Let_def)
    ultimately show ?thesis using fed 3 sc'
      by (auto simp: at_line_def so_far_def intro!: exI [of _ "sc'\<lparr>es_scannedBytes := Suc (Suc (i + length content)), es_skipLineFeed := False\<rparr>"])
  qed
qed

section \<open>One event\<close>

definition nothing_so_far :: event_so_far where
  "nothing_so_far = (False, [], [])"

text \<open>An empty line ends an event with data, and otherwise the scanner starts again.\<close>

lemma feed_blank:
  assumes n: "next_line s = ([], t, r)" and t: "t \<noteq> []" and sc: "at_line limit s i sc" and no: "\<not> es_hasData sc"
  shows "\<exists>sc'. feed_from s i sc = feed_from r (i + length t) sc' \<and> at_line limit r (i + length t) sc' \<and> so_far sc' = nothing_so_far"
proof -
  have s: "s = t @ r" using next_line_append [OF n] by simp
  let ?fin = "\<lambda>k. resetEvent (sc\<lparr>es_scannedBytes := Suc i, es_skipLineFeed := k\<rparr>)"
  have fin: "finishLine (sc\<lparr>es_scannedBytes := Suc i, es_skipLineFeed := k\<rparr>) = (False, ?fin k)" for k
    using sc no by (simp add: finishLine_def Let_def at_line_def resetEvent_def)
  have keeps: "es_line (?fin k) = []" "\<not> es_pendingEvent (?fin k)" "\<not> es_found (?fin k)" "es_scannedBytes (?fin k) = Suc i"
    "es_hardLimit (?fin k) = limit" "es_skipLineFeed (?fin k) = k" "so_far (?fin k) = nothing_so_far" for k
    using sc by (simp_all add: resetEvent_def at_line_def so_far_def nothing_so_far_def)
  have cr: "feed_byte CR i sc = (None, ?fin True)" using fin [of True] sc by (simp add: feed_byte_def Let_def at_line_def)
  from next_line_terminator [OF n] t consider "t = [CR]" "r = [] \<or> hd r \<noteq> LF" | "t = [LF]" | "t = [CR, LF]" by auto
  then show ?thesis
  proof cases
    case 1
    then show ?thesis using cr keeps [of True] by (intro exI [of _ "?fin True"]) (auto simp: s at_line_def)
  next
    case 2
    have "\<not> es_skipLineFeed sc" using sc s 2 by (simp add: at_line_def)
    then have "feed_byte LF i sc = (None, ?fin False)" using fin [of False] sc by (simp add: feed_byte_def Let_def at_line_def)
    then show ?thesis using 2 keeps [of False] by (intro exI [of _ "?fin False"]) (auto simp: s at_line_def)
  next
    case 3
    let ?sc = "(?fin True)\<lparr>es_scannedBytes := Suc (Suc i), es_skipLineFeed := False\<rparr>"
    have "feed_byte LF (Suc i) (?fin True) = (None, ?sc)" using keeps [of True] by (simp add: feed_byte_def Let_def)
    then show ?thesis using 3 cr keeps [of True] by (intro exI [of _ ?sc]) (auto simp: s at_line_def so_far_def)
  qed
qed

lemma feed_end:
  assumes n: "next_line s = ([], t, r)" and t: "t \<noteq> []" and sc: "at_line limit s i sc" and data: "es_hasData sc" and limit: "0 < limit"
  shows "\<exists>sc'. so_far sc' = so_far sc \<and> (if r = [] \<and> i + length t = limit \<and> t = [CR] then feed_from s i sc = (None, sc') \<and> es_pendingEvent sc'
    else \<exists>k. feed_from s i sc = (Some k, sc') \<and> (limit < k \<longleftrightarrow> limit < i + length t))"
proof -
  have s: "s = t @ r" using next_line_append [OF n] by simp
  let ?fin = "\<lambda>k. sc\<lparr>es_scannedBytes := Suc i, es_skipLineFeed := k\<rparr>"
  have fin: "finishLine (?fin k) = (True, ?fin k)" for k
    using sc data by (cases sc) (simp add: finishLine_def Let_def at_line_def)
  have cr: "feed_byte CR i sc = (if Suc i = limit then (None, (?fin False)\<lparr>es_pendingEvent := True\<rparr>) else (Some (Suc i), (?fin True)\<lparr>es_found := True\<rparr>))"
    using fin [of True] sc limit by (simp add: feed_byte_def Let_def at_line_def)
  have more: "feed_byte v (Suc i) ((?fin False)\<lparr>es_pendingEvent := True\<rparr>) =
      (Some (if v = LF then Suc (Suc i) else Suc i), (?fin False)\<lparr>es_scannedBytes := Suc (Suc i), es_pendingEvent := False, es_found := True\<rparr>)" for v
    by (simp add: feed_byte_def Let_def)
  from next_line_terminator [OF n] t consider "t = [CR]" "r = [] \<or> hd r \<noteq> LF" | "t = [LF]" | "t = [CR, LF]" by auto
  then show ?thesis
  proof cases
    case 1
    show ?thesis
    proof (cases "Suc i = limit")
      case True
      with 1 cr more show ?thesis by (cases r) (auto simp: s so_far_def intro!: exI)
    next
      case False
      with 1 cr show ?thesis by (auto simp: s so_far_def intro!: exI [of _ "(?fin True)\<lparr>es_found := True\<rparr>"])
    qed
  next
    case 2
    have "\<not> es_skipLineFeed sc" using sc s 2 by (simp add: at_line_def)
    then have "feed_byte LF i sc = (Some (Suc i), (?fin False)\<lparr>es_found := True\<rparr>)"
      using fin [of False] sc by (simp add: feed_byte_def Let_def at_line_def)
    with 2 show ?thesis by (auto simp: s so_far_def intro!: exI [of _ "(?fin False)\<lparr>es_found := True\<rparr>"])
  next
    case 3
    with cr more show ?thesis by (cases "Suc i = limit") (auto simp: s so_far_def intro!: exI)
  qed
qed

text \<open>The lines of an event, one by one.\<close>

lemma next_line_build:
  "CR \<notin> set content \<Longrightarrow> LF \<notin> set content \<Longrightarrow> t = [CR] \<and> (r = [] \<or> hd r \<noteq> LF) \<or> t = [LF] \<or> t = [CR, LF] \<Longrightarrow>
    next_line (content @ t @ r) = (content, t, r)"
  by (induction content) auto

lemma event_lines_Cons:
  assumes n: "next_line s = (content, t, e @ r)" and t: "t \<noteq> []" and e: "e \<noteq> []"
  shows "splitSSEEventLines (content @ t @ e) = line_of content t # splitSSEEventLines e"
proof -
  have "next_line (content @ t @ e) = (content, t, e)"
    by (rule next_line_build) (use next_line_terminator [OF n] next_line_content [OF n] t e in auto)
  then show ?thesis using t by (subst splitSSEEventLines.simps) simp
qed

definition event_so_far :: "string \<Rightarrow> event_so_far \<Rightarrow> event_so_far" where
  "event_so_far e = fold (\<lambda>l. add_line (el_content l)) (splitSSEEventLines e)"

lemma add_line_blank [simp]: "add_line [] a = a"
  by (cases a) (simp add: add_line_def parseSSEDataLine_def parseSSEEventName_def sse_field_def)

lemma feed_event:
  assumes "at_line limit s i sc" and "0 < limit"
  shows "case split_event s of
      None \<Rightarrow> \<exists>sc'. feed_from s i sc = (None, sc') \<and> \<not> es_pendingEvent sc'
    | Some (e, r) \<Rightarrow>
        if fst (event_so_far e (so_far sc))
        then \<exists>sc'. so_far sc' = event_so_far e (so_far sc)
          \<and> (if r = [] \<and> i + length e = limit \<and> last e = CR then feed_from s i sc = (None, sc') \<and> es_pendingEvent sc'
             else \<exists>k. feed_from s i sc = (Some k, sc') \<and> (limit < k \<longleftrightarrow> limit < i + length e))
        else \<exists>sc'. feed_from s i sc = feed_from r (i + length e) sc' \<and> at_line limit r (i + length e) sc' \<and> so_far sc' = nothing_so_far"
  using assms(1)
proof (induction s arbitrary: i sc rule: split_event.induct)
  case (1 s)
  obtain content t r where n: "next_line s = (content, t, r)" by (cases "next_line s")
  note s = next_line_append [OF n] and ending = next_line_terminator [OF n] and plain = next_line_content [OF n]
  consider "t = []" | "t \<noteq> []" "content = []" | "t \<noteq> []" "content \<noteq> []" by auto
  then show ?case
  proof cases
    case 1
    then have "split_event s = None" using n by (subst split_event.simps) simp
    moreover have "feed_from s i sc = feed_from [] (i + length content) (sc\<lparr>es_line := es_line sc @ content,
        es_skipLineFeed := es_skipLineFeed sc \<and> content = [], es_scannedBytes := es_scannedBytes sc + length content\<rparr>)"
      using feed_content [of content sc "[]" i] plain s 1 ending "1.prems" by (auto simp: at_line_def)
    ultimately show ?thesis using "1.prems" by (auto simp: at_line_def)
  next
    case 2
    then have e: "split_event s = Some (t, r)" using n by (subst split_event.simps) simp
    have "next_line t = ([], t, [])" using ending 2 by auto
    then have "splitSSEEventLines t = [line_of [] t]" using 2 by (subst splitSSEEventLines.simps) (simp add: splitSSEEventLines.simps)
    then have a: "event_so_far t a = a" for a by (simp add: event_so_far_def line_of_def parseSSEDataLine_def)
    have l: "last t = CR \<longleftrightarrow> t = [CR]" using ending 2 by auto
    have h: "es_hasData sc = fst (so_far sc)" by (simp add: so_far_def)
    show ?thesis
      using feed_blank [OF n [unfolded 2(2)] 2(1) "1.prems"] feed_end [OF n [unfolded 2(2)] 2(1) "1.prems" _ assms(2)]
      by (simp add: e a l h)
  next
    case 3
    from feed_line [OF n 3(2,1) "1.prems"] obtain sc1 where sc1: "feed_from s i sc = feed_from r (i + length content + length t) sc1"
      "at_line limit r (i + length content + length t) sc1" "so_far sc1 = add_line content (so_far sc)" by blast
    note IH = "1.IH" [OF n [symmetric] refl 3(1,2) sc1(2)]
    have e: "split_event s = map_option (\<lambda>(e, r'). (content @ t @ e, r')) (split_event r)"
      using n 3 by (subst split_event.simps) simp
    show ?thesis
    proof (cases "split_event r")
      case None
      then show ?thesis using IH sc1(1) by (simp add: e)
    next
      case (Some p)
      obtain e1 r1 where p: "p = (e1, r1)" by (cases p)
      note r = split_event_append [OF Some [unfolded p]] and ne = split_event_nonempty [OF Some [unfolded p]]
      have ev: "event_so_far (content @ t @ e1) a = event_so_far e1 (add_line content a)" for a
        using event_lines_Cons [OF n [unfolded r] 3(1) ne] by (simp add: event_so_far_def line_of_def split: prod.split)
      have last: "last (content @ t @ e1) = last e1" using ne by simp
      have len: "i + length (content @ t @ e1) = i + length content + length t + length e1" by simp
      from IH show ?thesis unfolding e Some p option.map option.case prod.case ev last len sc1(1,3) .
    qed
  qed
qed

section \<open>The whole input\<close>

lemma event_so_far_lines:
  "event_so_far e (False, [], []) = (has_data e, data_values (splitSSEEventLines e), event_name (splitSSEEventLines e))"
proof -
  have "fold (\<lambda>l. add_line (el_content l)) ls (d, vs, name) =
      (d \<or> list_ex (\<lambda>l. el_isData l \<and> el_data l \<noteq> []) ls, vs @ data_values ls,
       fold (\<lambda>l name. case parseSSEEventName (el_content l) of Some n \<Rightarrow> n | None \<Rightarrow> name) ls name)"
    if "\<forall>l \<in> set ls. l = line_of (el_content l) (el_terminator l)" for ls d vs name
    using that
  proof (induction ls arbitrary: d vs name)
    case (Cons l ls)
    obtain content t where l: "l = line_of content t" using Cons.prems by auto
    with Cons show ?case
      by (cases "parseSSEDataLine content") (auto simp: add_line_def line_of_def data_values_def)
  qed (simp add: data_values_def)
  moreover have "\<forall>l \<in> set (splitSSEEventLines s). l = line_of (el_content l) (el_terminator l)" for s
  proof (induction s rule: splitSSEEventLines.induct)
    case (1 s)
    obtain content t r where n: "next_line s = (content, t, r)" by (cases "next_line s")
    with 1 [OF _ n [symmetric] refl] show ?case
      by (subst splitSSEEventLines.simps) (auto simp: line_of_def split: prod.splits)
  qed
  ultimately show ?thesis by (simp add: event_so_far_def has_data_def event_name_def)
qed

text \<open>The scanner finds the first event with data, and takes it for too large exactly when it ends beyond the limit.\<close>

lemma feed_first:
  assumes "at_line limit s i sc" and "0 < limit" and "so_far sc = nothing_so_far"
  shows "case first_data_event i s of
      None \<Rightarrow> \<exists>sc'. feed_from s i sc = (None, sc') \<and> \<not> es_pendingEvent sc'
    | Some (n, e) \<Rightarrow> \<exists>sc'. so_far sc' = (True, data_values (splitSSEEventLines e), event_name (splitSSEEventLines e))
        \<and> (if n = i + length s \<and> n = limit \<and> last s = CR then feed_from s i sc = (None, sc') \<and> es_pendingEvent sc'
           else \<exists>k. feed_from s i sc = (Some k, sc') \<and> (limit < k \<longleftrightarrow> limit < n))"
  using assms(1,3)
proof (induction i s arbitrary: sc rule: first_data_event.induct)
  case (1 i s)
  note step = feed_event [OF "1.prems"(1) assms(2), unfolded "1.prems"(2) nothing_so_far_def event_so_far_lines]
  show ?case
  proof (cases "split_event s")
    case None
    then show ?thesis using step by (subst first_data_event.simps) simp
  next
    case (Some p)
    obtain e r where p: "p = (e, r)" by (cases p)
    note s = split_event_append [OF Some [unfolded p]] and ne = split_event_nonempty [OF Some [unfolded p]]
    show ?thesis
    proof (cases "has_data e")
      case True
      have f: "first_data_event i s = Some (i + length e, e)" using Some p True by (subst first_data_event.simps) simp
      have cond: "i + length e = i + length s \<and> i + length e = limit \<and> last s = CR \<longleftrightarrow> r = [] \<and> i + length e = limit \<and> last e = CR"
        using s ne by auto
      from step show ?thesis unfolding f option.case prod.case cond by (simp add: Some p True)
    next
      case False
      have f: "first_data_event i s = first_data_event (i + length e) r" using Some p False by (subst first_data_event.simps) simp
      from step obtain sc1 where sc1: "feed_from s i sc = feed_from r (i + length e) sc1" "at_line limit r (i + length e) sc1"
        "so_far sc1 = nothing_so_far" by (auto simp: Some p False nothing_so_far_def)
      have ends: "i + length e + length r = i + length s" "r \<noteq> [] \<Longrightarrow> last r = last s" using s by auto
      have none: "r = [] \<Longrightarrow> first_data_event (i + length e) r = None"
        by (subst first_data_event.simps) (simp add: split_event.simps)
      from "1.IH" [OF Some p [symmetric] False sc1(2,3)] show ?thesis unfolding f sc1(1)
        using ends none by (cases "r = []") (auto split: option.splits)
    qed
  qed
qed

lemma scan_outcome_lines:
  assumes "0 < limit"
  shows "scan_outcome json limit bytes ending = first_outcome json limit bytes ending"
proof -
  have start: "at_line limit bytes 0 (new_scanner limit)" "so_far (new_scanner limit) = nothing_so_far"
    by (simp_all add: at_line_def new_scanner_def so_far_def nothing_so_far_def)
  have found: "found_event json sc = FirstFound name (Join [LF] vs) (name = ''error'' \<or> isSSEErrorPayload json (Join [LF] vs))"
    if "so_far sc = (d, vs, name)" for sc d vs name
    using that by (simp add: found_event_def scanner_payload_def isProviderError_def so_far_def)
  note run = feed_first [OF start(1) assms start(2)]
  show ?thesis
  proof (cases "first_data_event 0 bytes")
    case None
    then show ?thesis using run by (auto simp: scan_outcome_def first_outcome_def split: bodyEnd.split)
  next
    case (Some p)
    obtain n e where p: "p = (n, e)" by (cases p)
    from run obtain sc where sc: "so_far sc = (True, data_values (splitSSEEventLines e), event_name (splitSSEEventLines e))"
      and fed: "if n = length bytes \<and> n = limit \<and> last bytes = CR then feed_from bytes 0 (new_scanner limit) = (None, sc) \<and> es_pendingEvent sc
           else \<exists>k. feed_from bytes 0 (new_scanner limit) = (Some k, sc) \<and> (limit < k \<longleftrightarrow> limit < n)"
      by (auto simp: Some p)
    show ?thesis
    proof (cases "n = length bytes \<and> n = limit \<and> last bytes = CR")
      case True
      with fed have fed': "feed_from bytes 0 (new_scanner limit) = (None, sc)" "es_pendingEvent sc" by simp_all
      show ?thesis using True found [OF sc]
        by (simp add: scan_outcome_def first_outcome_def event_payload_def Let_def fed' Some p split: bodyEnd.split)
    next
      case False
      with fed obtain k where k: "feed_from bytes 0 (new_scanner limit) = (Some k, sc)" "limit < k \<longleftrightarrow> limit < n"
        by (auto simp only: if_False)
      show ?thesis using False found [OF sc] by (auto simp: scan_outcome_def first_outcome_def event_payload_def Let_def k Some p)
    qed
  qed
qed

end
