(* ===== verification/Sse_Theorems.thy ===== *)
theory Sse_Theorems
  imports Sse_First
begin

text \<open>
  What the event streams of the data plane guarantee: rewriting and observing do not depend on the pieces in
  which bytes arrive, a rewritten event is still one event, the first event is found within its limit, the
  watchdog closes a body once, and nothing follows a terminal event.
\<close>

section \<open>The watchdog\<close>

datatype watchdogOp = WatchdogReset | WatchdogExpire uint64 | WatchdogInterrupt "go_error option" | WatchdogStop

fun watchdog_op :: "watchdogOp \<Rightarrow> streamWatchdog \<Rightarrow> streamWatchdog" where
  "watchdog_op WatchdogReset wd = watchdog_reset wd"
| "watchdog_op (WatchdogExpire g) wd = watchdog_expire g wd"
| "watchdog_op (WatchdogInterrupt e) wd = watchdog_interrupt e wd"
| "watchdog_op WatchdogStop wd = watchdog_stop wd"

lemmas watchdog_defs = watchdog_reset_def watchdog_expire_def watchdog_interrupt_def watchdog_stop_def

definition watchdog_inv :: "streamWatchdog \<Rightarrow> bool" where
  "watchdog_inv wd \<longleftrightarrow> wt_closes wd = (if wt_cause wd = None then 0 else 1)"

text \<open>A body is closed exactly when there is a cause, and then once; the first cause stays.\<close>

interpretation watchdog: monotone_system "\<lambda>a b. \<exists>w. b = watchdog_op w a" watchdog_inv
  "\<lambda>a b. wt_cause a \<noteq> None \<longrightarrow> wt_cause b = wt_cause a"
proof unfold_locales
  fix s t
  assume "watchdog_inv s" and "\<exists>w. t = watchdog_op w s"
  then obtain w where "t = watchdog_op w s" by blast
  with \<open>watchdog_inv s\<close> show "watchdog_inv t" by (cases w) (auto simp: watchdog_inv_def watchdog_defs)
next
  fix s t
  assume "watchdog_inv s" and "\<exists>w. t = watchdog_op w s"
  then obtain w where "t = watchdog_op w s" by blast
  then show "wt_cause s \<noteq> None \<longrightarrow> wt_cause t = wt_cause s" by (cases w) (auto simp: watchdog_defs)
qed auto

lemma watchdog_closes_once:
  assumes "(\<lambda>a b. \<exists>w. b = watchdog_op w a)\<^sup>*\<^sup>* newStreamWatchdog wd"
  shows "wt_closes wd \<le> 1" and "wt_closes wd = 1 \<longleftrightarrow> wt_cause wd \<noteq> None"
    and "(\<lambda>a b. \<exists>w. b = watchdog_op w a)\<^sup>*\<^sup>* wd wd' \<Longrightarrow> wt_cause wd \<noteq> None \<Longrightarrow> wt_cause wd' = wt_cause wd"
proof -
  have "watchdog_inv newStreamWatchdog" by (simp add: watchdog_inv_def newStreamWatchdog_def)
  then have "watchdog_inv wd" using watchdog.steps_inv [OF assms] by simp
  then show "wt_closes wd \<le> 1" "wt_closes wd = 1 \<longleftrightarrow> wt_cause wd \<noteq> None"
    and "(\<lambda>a b. \<exists>w. b = watchdog_op w a)\<^sup>*\<^sup>* wd wd' \<Longrightarrow> wt_cause wd \<noteq> None \<Longrightarrow> wt_cause wd' = wt_cause wd"
    using watchdog.steps_rel [of wd wd'] by (auto simp: watchdog_inv_def split: if_splits)
qed

text \<open>A timer that fires after the pump has stopped the watchdog, or after a later reset, has no effect.\<close>

lemma watchdog_late_timer:
  assumes "wt_armed wd = Some g \<longrightarrow> g = wt_generation wd"
  shows "wt_armed wd = Some g \<Longrightarrow> watchdog_expire g (watchdog_stop wd) = watchdog_stop wd"
    and "wt_armed wd = Some g \<Longrightarrow> watchdog_expire g (watchdog_reset wd) = watchdog_reset wd"
  using assms by (auto simp: watchdog_defs)

section \<open>Terminal events\<close>

text \<open>Events in order with their generic error flag, until one is refused.\<close>

fun classify_all :: "(StreamEvent \<times> bool) list \<Rightarrow> streamEventObserver \<Rightarrow> (go_error + bool list) \<times> streamEventObserver" where
  "classify_all [] ov = (Inr [], ov)"
| "classify_all ((event, generic) # events) ov =
     (case classify event generic ov of
        (Inl e, ov') \<Rightarrow> (Inl e, ov')
      | (Inr b, ov') \<Rightarrow> apfst (map_sum id (Cons b)) (classify_all events ov'))"

lemma classify_after_terminal:
  "ov_sawTerminal ov \<Longrightarrow> classify_all events ov = (Inr bs, ov') \<Longrightarrow> list_all (\<lambda>(event, _). is_done event) events \<and> ov' = ov"
proof (induction events arbitrary: bs)
  case (Cons e events)
  obtain event generic where e: "e = (event, generic)" by fastforce
  have d: "is_done event" using Cons.prems e by (auto simp: classify_def split: if_splits)
  obtain r o1 where rest: "classify_all events ov = (r, o1)" by fastforce
  with Cons.prems e d obtain bs1 where "r = Inr bs1" "o1 = ov'" by (cases r) (auto simp: classify_def)
  with Cons.IH [OF Cons.prems(1)] rest d e show ?case by simp
qed simp

section \<open>Captured usage\<close>

lemma capture_finalize_final: "capture_finalize uc = (result, uc') \<Longrightarrow> uc_finalized uc' \<and> uc_result uc' = result"
  by (auto simp: capture_finalize_def Let_def split: if_splits option.splits)

lemma capture_finalize_once:
  assumes "capture_finalize uc = (result, uc')"
  shows "capture_finalize (observeUsageEvent event uc') = (result, uc')"
proof -
  note final = capture_finalize_final [OF assms]
  then have "observeUsageEvent event uc' = uc'"
    by (simp add: observeUsageEvent_def capture_observeEvent_def split: option.split)
  with final show ?thesis by (simp add: capture_finalize_def)
qed

lemma capture_finalize_valid:
  assumes "validCapturedUsage (uc_result uc) \<or> rs_State (uc_result uc) = StateNotApplicable"
    and "capture_finalize uc = (result, uc')"
  shows "validCapturedUsage result \<or> rs_State result = StateNotApplicable"
proof -
  have "validCapturedUsage (missingUsage False)" by code_simp
  with assms show ?thesis
    by (auto simp: capture_finalize_def finalized_usage_def Let_def split: if_splits option.splits)
qed

section \<open>Sample streams\<close>

definition sample_rewrite :: "nat \<Rightarrow> StreamEvent \<Rightarrow> bool \<Rightarrow> (string + sseEventRewriteResult) \<times> nat" where
  "sample_rewrite n event flag = (Inr \<lparr>ew_body = se_Payload event @ ''!'', ew_terminal = flag\<rparr>, Suc n)"

definition sample_script :: body_script where
  "sample_script = [(''data: a'' @ [CR], None), ([LF, CR], None), ([LF] @ ''data: b'' @ [LF], None), ([LF], Some BodyEOF)]"

definition sample_observe :: "string list \<Rightarrow> StreamEvent \<Rightarrow> bool \<Rightarrow> (string + bool) \<times> string list" where
  "sample_observe seen event flag = (Inr flag, seen @ [se_Payload event])"

lemma sample_output:
  "sse_output (\<lambda>_. None) sample_rewrite (normalizedSSEEventLimit 100) 0 (script_bytes sample_script) (script_end sample_script) =
    (''data: a!'' @ [CR, LF, CR, LF] @ ''data: b!'' @ [LF, LF], StreamEOF)"
  by code_simp

text \<open>
  Lines that end in different ways: after the second data line is dropped, the carriage return of the first one and the
  line feed of the empty line read as one terminator, and the rewritten event has lost its end.
\<close>

lemma mixed_terminators_lose_boundary:
  "let event = ''data: a'' @ [CR] @ ''data: b'' @ [LF, LF] in
   split_event event = Some (event, [])
   \<and> (case fst (rewriteSSEEventWithMetadata (\<lambda>_. None) (\<lambda>s event flag. (Inr \<lparr>ew_body = ''c'', ew_terminal = flag\<rparr>, s)) () event) of
        Inr r \<Rightarrow> ew_body r = ''data: c'' @ [CR, LF] \<and> split_event (ew_body r) = None
      | Inl (_ :: string) \<Rightarrow> False)"
  by code_simp

section \<open>Properties\<close>

text \<open>
  Property C7. The rewriting reader delivers, in reads of any sizes and from a body that delivers its bytes in any pieces,
  exactly the rewritten events of the whole input, one after the other, and ends as the whole input says. The
  only exception is an event that is too large: then the reader has delivered at least what precedes it and fails too.
\<close>

theorem rewrite_stream_exact:
  assumes "live_script script" and "\<And>i. 0 < lens i"
  shows "\<exists>n out e. (\<forall>fuel \<ge> n. drain json lens 0 fuel (newSSEEventRewriteStream (Some script) limit (Some rewrite) s) = Some (out, e))
    \<and> follows (sse_output json rewrite (normalizedSSEEventLimit limit) s (script_bytes script) (script_end script)) (out, e)"
proof -
  note new = new_stream_ok [OF assms(1), where limit = limit and rewrite = rewrite and s = s]
  obtain n r where "drain json lens 0 n (newSSEEventRewriteStream (Some script) limit (Some rewrite) s) = Some r"
    "follows (sse_output json rewrite (normalizedSSEEventLimit limit) s (script_bytes script) (script_end script)) r"
    using drain_ok [where lens = lens, OF new(1) assms(2), of json 0] new(2) by auto
  then show ?thesis using drain_mono by (cases r) blast
qed

theorem rewrite_stream_exact_witness:
  "\<exists>n. \<forall>fuel \<ge> n. drain (\<lambda>_. None) (\<lambda>i. Suc i) 0 fuel (newSSEEventRewriteStream (Some sample_script) 100 (Some sample_rewrite) 0)
     = Some (''data: a!'' @ [CR, LF, CR, LF] @ ''data: b!'' @ [LF, LF], StreamEOF)"
proof -
  have live: "live_script sample_script" by (simp add: live_script_def sample_script_def)
  show ?thesis
    using rewrite_stream_exact [OF live, where lens = Suc and json = "\<lambda>_. None" and limit = 100 and rewrite = sample_rewrite and s = 0]
    unfolding sample_output by (auto simp: follows_def)
qed

text \<open>
  Property C17. The observation buffer changes nothing and misses nothing: when a stream is pushed in any chunks and finished
  without an error, the bytes it let through are the bytes pushed, and its callback has seen exactly the events of the whole
  stream, each once and in order. A push always returns.
\<close>

theorem observation_exact:
  fixes buf :: "'s sseEventObservationBuffer"
  assumes "push_all json chunks (newSSEEventObservationBuffer limit observe s) = Some (Inr wire, buf)"
    and "Observation_finish buf = (None, buf')"
  shows "wire = concat chunks \<and> observe_events json observe s (concat chunks) = Some (bu_callback buf', [])"
proof -
  let ?new = "newSSEEventObservationBuffer limit observe s"
  note ok = push_all_ok [OF settled_new assms(1)]
  have p: "bu_pending buf = []" "bu_callback buf' = bu_callback buf" using finish_settled [OF _ assms(2)] ok by auto
  have "to_observe json ?new (concat chunks) = observe_events json observe s (concat chunks)"
    by (simp add: to_observe_def newSSEEventObservationBuffer_def Scanner_Reset_def)
  moreover have "to_observe json buf [] = Some (bu_callback buf, [])"
    by (subst to_observe_def, subst observe_events.simps) (simp add: p split_event.simps)
  moreover have "to_observe json buf [] = to_observe json ?new (concat chunks)" using ok [of "[]"] by simp
  moreover have "wire = concat chunks" using ok p by (simp add: newSSEEventObservationBuffer_def)
  ultimately show ?thesis using p by simp
qed

theorem observation_exact_witness:
  "observe_events (\<lambda>_. None) sample_observe [] (concat [''data: a'' @ [CR], [LF, CR], [LF] @ ''data: b'' @ [LF, LF]])
     = Some ([''a'', ''b''], [])"
proof -
  let ?chunks = "[''data: a'' @ [CR], [LF, CR], [LF] @ ''data: b'' @ [LF, LF]]"
  let ?p = "push_all (\<lambda>_. None) ?chunks (newSSEEventObservationBuffer 100 sample_observe [])"
  have p: "map_option fst ?p = Some (Inr (concat ?chunks))" by code_simp
  have f: "map_option (\<lambda>(_, buf). fst (Observation_finish buf)) ?p = Some None" by code_simp
  have c: "map_option (\<lambda>(_, buf). bu_callback (snd (Observation_finish buf))) ?p = Some [''a'', ''b'']" by code_simp
  obtain buf where "?p = Some (Inr (concat ?chunks), buf)" using p by (cases ?p) auto
  with observation_exact [OF this, of "snd (Observation_finish buf)"] f c show ?thesis
    by (cases "Observation_finish buf") simp
qed




end
