(* ===== verification/Http_Route.thy ===== *)
theory Http_Route
  imports Go_Strings "HOL-Library.List_Lexorder" "HOL-Library.Char_ord"
begin

text \<open>
  The registry of HTTP route modules (\<open>internal/platform/httproute/registry.go\<close>): the validation of a
  complete set of modules, the binding of the accepted routes to an engine, the guard that keeps a
  wildcard route off a static path of another route, and the answers to requests that no route takes.

  The engine is third-party code. What it holds is a record; whether it refuses a list of patterns is
  the argument \<open>refuses\<close>, and the \<open>Allow\<close> header it prepares is an argument of \<open>handleNoMethod\<close>.
  A handler is an opaque value, \<open>None\<close> standing for a nil one; a closure that the registry itself builds is
  an \<open>item\<close> with the data it captures. \<open>NewRegistry\<close> copies the modules it is given, which is the identity on
  values. A result \<open>None\<close>, or the error \<open>RoutePanic\<close>, is an index or a call on nil out of which Go panics.
\<close>

section \<open>Declarations\<close>

type_synonym Owner = string
type_synonym AuthPolicy = string

definition OwnerSystem :: Owner where "OwnerSystem = ''system''"
definition OwnerControl :: Owner where "OwnerControl = ''control''"
definition OwnerData :: Owner where "OwnerData = ''data''"
definition OwnerWeb :: Owner where "OwnerWeb = ''web''"

definition AuthNone :: AuthPolicy where "AuthNone = ''none''"
definition AuthControl :: AuthPolicy where "AuthControl = ''control''"
definition AuthAccessKey :: AuthPolicy where "AuthAccessKey = ''access-key''"

definition ginMaximumHandlerChainLength :: nat where
  "ginMaximumHandlerChainLength = 63"

text \<open>A request: its method, the path of its URL, and whatever else a validator may read.\<close>

record 'q request =
  rq_Method :: string
  rq_Path :: string
  rq_Rest :: 'q

record ('q, 'h) Route =
  rt_Name :: string
  rt_Methods :: "string list"
  rt_Path :: string
  rt_PathValidator :: "('q request \<Rightarrow> bool) option"
  rt_Prepare :: "'h option list"
  rt_Handlers :: "'h option list"

record ('q, 'h) Fallback =
  fb_Name :: string
  fb_Match :: "('q request \<Rightarrow> bool) option"
  fb_Handler :: "'h option"

record ('q, 'h) Module =
  md_Name :: string
  md_Owner :: Owner
  md_Auth :: AuthPolicy
  md_Prefix :: string
  md_NamespacePrefixes :: "string list"
  md_BeforeAuth :: "'h option list"
  md_Authenticate :: "'h option"
  md_Routes :: "('q, 'h) Route list"
  md_NotFound :: "'h option"
  md_MethodNotAllowed :: "'h option"
  md_Fallback :: "('q, 'h) Fallback option"

record RouteInfo =
  ri_ModuleName :: string
  ri_RouteName :: string
  ri_Owner :: Owner
  ri_Auth :: AuthPolicy
  ri_Methods :: "string list"
  ri_Path :: string

record compiledRoute =
  cr_moduleIndex :: nat
  cr_routeIndex :: nat
  cr_path :: string

record namespaceBinding =
  nb_moduleIndex :: nat
  nb_prefix :: string

record 'q runtimeRoute =
  rr_moduleIndex :: nat
  rr_path :: string
  rr_methods :: "string list"
  rr_validator :: "('q request \<Rightarrow> bool) option"

type_synonym routePattern = "string \<times> string"

record ('q, 'h) Registry =
  rg_modules :: "('q, 'h) Module list"
  rg_routes :: "compiledRoute list"
  rg_routeInfos :: "RouteInfo list"
  rg_namespaces :: "namespaceBinding list"
  rg_fallback :: "('q, 'h) Fallback option"
  rg_runtime :: "'q runtimeRoute list"
  rg_bound :: bool

datatype route_error =
    InvalidName string | DuplicateModule string | DuplicateRoute string
  | InvalidOwner Owner | WrongPolicy Owner AuthPolicy AuthPolicy
  | AuthenticatorForbidden AuthPolicy | AuthenticatorRequired AuthPolicy
  | NotAbsolute | RootPrefix | RootNotAllowed | TrailingSlash | NotStatic | ReservedCharacter
  | NonCanonicalSegment | PartialWildcard | InvalidWildcard string | DuplicateWildcard string | CatchAllNotFinal
  | NoMethods | InvalidMethod string | MethodNotUpper string | DuplicateMethod string
  | EmptyChain string | NilHandler string nat
  | NoMatcher string | NoFallbackHandler string | MultipleFallbacks
  | DuplicateNamespace string string string | DuplicatePattern string string string string
  | NamespaceIntersects string string string string string | PatternConflict
  | NilRegistry | NilEngine | AlreadyBound | FallbackChainTooLong nat | EngineNotEmpty nat | ChainTooLong string string nat
  | InModule string route_error | InPrefix string route_error | InNamespace string string route_error
  | InRoute string string route_error | InRoutePath string string string route_error | InPreflight route_error
  | RoutePanic

section \<open>Strings\<close>

definition TrimPrefix :: "string \<Rightarrow> string \<Rightarrow> string" where
  "TrimPrefix s p = (if HasPrefix s p then drop (length p) s else s)"

definition ContainsAny :: "string \<Rightarrow> string \<Rightarrow> bool" where
  "ContainsAny s chars \<longleftrightarrow> list_ex (\<lambda>c. c \<in> set chars) s"

definition alphanumeric :: "char \<Rightarrow> bool" where
  "alphanumeric c = (let n = of_char c :: nat in
     (97 \<le> n \<and> n \<le> 122) \<or> (65 \<le> n \<and> n \<le> 90) \<or> (48 \<le> n \<and> n \<le> 57))"

text \<open>\<open>strings.ToUpper\<close> of a valid method, which is ASCII.\<close>

definition ascii_upper :: "char \<Rightarrow> char" where
  "ascii_upper c = (let n = of_char c :: nat in if 97 \<le> n \<and> n \<le> 122 then char_of (n - 32) else c)"

text \<open>\<open>strings.Split(strings.TrimPrefix(path, "/"), "/")\<close>\<close>

definition segments :: "string \<Rightarrow> string list" where
  "segments path = Split (CHR ''/'') (TrimPrefix path ''/'')"

definition at :: "'a list \<Rightarrow> nat \<Rightarrow> 'a option" where
  "at xs i = (if i < length xs then Some (xs ! i) else None)"

section \<open>Patterns and namespaces\<close>

fun match_segments :: "string list \<Rightarrow> string list \<Rightarrow> bool option" where
  "match_segments [] path = Some (path = [])"
| "match_segments ([] # pattern) path = None"
| "match_segments ((c # name) # pattern) path =
     (if c = CHR ''*'' then Some (pattern = [] \<and> path \<noteq> [])
      else case path of
        [] \<Rightarrow> Some False
      | part # rest \<Rightarrow>
          if c = CHR '':'' then (if part = [] then Some False else match_segments pattern rest)
          else if c # name \<noteq> part then Some False
          else match_segments pattern rest)"

definition matchPattern :: "string \<Rightarrow> string \<Rightarrow> bool option" where
  "matchPattern pattern requestPath =
     (if pattern = ''/'' then Some (requestPath = ''/'')
      else if requestPath = ''/'' \<or> \<not> HasPrefix requestPath ''/'' then Some False
      else match_segments (segments pattern) (segments requestPath))"

definition namespaceMatches :: "string \<Rightarrow> string \<Rightarrow> bool" where
  "namespaceMatches prefix requestPath =
     (if prefix = ''/'' then HasPrefix requestPath ''/''
      else requestPath = prefix \<or> HasPrefix requestPath (prefix @ ''/''))"

definition routeSegmentSpecificity :: "string \<Rightarrow> nat" where
  "routeSegmentSpecificity segment =
     (if HasPrefix segment ''*'' then 0 else if HasPrefix segment '':'' then 1 else 2)"

fun more_specific_from :: "string list \<Rightarrow> string list \<Rightarrow> bool" where
  "more_specific_from (c # candidate) (d # current) =
     (let candidateRank = routeSegmentSpecificity c; currentRank = routeSegmentSpecificity d
      in if candidateRank \<noteq> currentRank then currentRank < candidateRank
         else more_specific_from candidate current)"
| "more_specific_from candidate current = (length current < length candidate)"

text \<open>The index is \<open>-1\<close> (\<open>None\<close>) or an index of \<open>routes\<close>.\<close>

definition moreSpecific :: "string \<Rightarrow> 'q runtimeRoute list \<Rightarrow> nat option \<Rightarrow> bool" where
  "moreSpecific path routes currentIndex =
     (case currentIndex of
        None \<Rightarrow> True
      | Some i \<Rightarrow> more_specific_from (segments path) (segments (rr_path (routes ! i))))"

fun intersects_segments :: "string list \<Rightarrow> string list \<Rightarrow> bool" where
  "intersects_segments [] prefix = (prefix = [])"
| "intersects_segments (segment # pattern) prefix =
     (if HasPrefix segment ''*'' then True
      else case prefix of
        [] \<Rightarrow> True
      | part # rest \<Rightarrow>
          if HasPrefix segment '':'' then intersects_segments pattern rest
          else if segment \<noteq> part then False
          else intersects_segments pattern rest)"

definition patternIntersectsNamespace :: "string \<Rightarrow> string \<Rightarrow> bool" where
  "patternIntersectsNamespace pattern prefix =
     (if prefix = ''/'' then True else intersects_segments (segments pattern) (segments prefix))"

definition namespaceContainsPattern :: "string \<Rightarrow> string \<Rightarrow> bool" where
  "namespaceContainsPattern prefix pattern =
     (if prefix = ''/'' then True
      else if length (segments pattern) < length (segments prefix) then False
      else take (length (segments prefix)) (segments pattern) = segments prefix)"

definition isStaticRoutePattern :: "string \<Rightarrow> bool" where
  "isStaticRoutePattern pattern \<longleftrightarrow>
     \<not> list_ex (\<lambda>segment. HasPrefix segment '':'' \<or> HasPrefix segment ''*'') (segments pattern)"

section \<open>Validation\<close>

text \<open>The validators return the error, or \<open>None\<close> where the source returns nil.\<close>

definition validateName :: "string \<Rightarrow> string \<Rightarrow> route_error option" where
  "validateName kind name = (if name = [] \<or> TrimSpace name \<noteq> name then Some (InvalidName kind) else None)"

definition validateOwnerAuth :: "('q, 'h) Module \<Rightarrow> route_error option" where
  "validateOwnerAuth m =
     (let required =
        (if md_Owner m = OwnerSystem \<or> md_Owner m = OwnerWeb then Some AuthNone
         else if md_Owner m = OwnerControl then Some AuthControl
         else if md_Owner m = OwnerData then Some AuthAccessKey else None)
      in case required of
        None \<Rightarrow> Some (InvalidOwner (md_Owner m))
      | Some policy \<Rightarrow>
          if md_Auth m \<noteq> policy then Some (WrongPolicy (md_Owner m) policy (md_Auth m))
          else if md_Auth m = AuthNone \<and> md_Authenticate m \<noteq> None then Some (AuthenticatorForbidden (md_Auth m))
          else if md_Auth m \<noteq> AuthNone \<and> md_Authenticate m = None then Some (AuthenticatorRequired (md_Auth m))
          else None)"

fun nil_handler :: "string \<Rightarrow> nat \<Rightarrow> 'h option list \<Rightarrow> route_error option" where
  "nil_handler kind i [] = None"
| "nil_handler kind i (h # hs) = (if h = None then Some (NilHandler kind i) else nil_handler kind (i + 1) hs)"

definition validateHandlers :: "string \<Rightarrow> 'h option list \<Rightarrow> bool \<Rightarrow> route_error option" where
  "validateHandlers kind handlers optional =
     (if \<not> optional \<and> handlers = [] then Some (EmptyChain kind) else nil_handler kind 0 handlers)"

definition canonical_segment :: "string \<Rightarrow> bool" where
  "canonical_segment segment \<longleftrightarrow> segment \<noteq> [] \<and> segment \<noteq> ''.'' \<and> segment \<noteq> ''..''"

definition validateStaticPrefix :: "string \<Rightarrow> bool \<Rightarrow> route_error option" where
  "validateStaticPrefix prefix allowRoot =
     (if prefix = [] \<or> \<not> HasPrefix prefix ''/'' then Some NotAbsolute
      else if prefix = ''/'' then (if allowRoot then None else Some RootNotAllowed)
      else if HasSuffix prefix ''/'' then Some TrailingSlash
      else if ContainsAny prefix [CHR ''?'', CHR ''#'', CHR 0x5C, CHR '':'', CHR ''*''] then Some NotStatic
      else if list_all canonical_segment (segments prefix) then None else Some NonCanonicalSegment)"

definition validatePrefix :: "string \<Rightarrow> route_error option" where
  "validatePrefix prefix =
     (if prefix = [] then None else if prefix = ''/'' then Some RootPrefix else validateStaticPrefix prefix False)"

definition validWildcardName :: "string \<Rightarrow> bool" where
  "validWildcardName name \<longleftrightarrow> name \<noteq> [] \<and> list_all (\<lambda>c. alphanumeric c \<or> c = CHR ''_'' \<or> c = CHR ''-'') name"

fun validate_segments :: "string list \<Rightarrow> string list \<Rightarrow> route_error option" where
  "validate_segments wildcardNames [] = None"
| "validate_segments wildcardNames (segment # rest) =
     (if \<not> canonical_segment segment then Some NonCanonicalSegment
      else if hd segment \<noteq> CHR '':'' \<and> hd segment \<noteq> CHR ''*'' then
        (if ContainsAny segment '':*'' then Some PartialWildcard else validate_segments wildcardNames rest)
      else let name = tl segment in
        if \<not> validWildcardName name then Some (InvalidWildcard name)
        else if name \<in> set wildcardNames then Some (DuplicateWildcard name)
        else if hd segment = CHR ''*'' \<and> rest \<noteq> [] then Some CatchAllNotFinal
        else validate_segments (name # wildcardNames) rest)"

definition validateRoutePattern :: "string \<Rightarrow> route_error option" where
  "validateRoutePattern pattern =
     (if pattern = [] \<or> \<not> HasPrefix pattern ''/'' then Some NotAbsolute
      else if pattern \<noteq> ''/'' \<and> HasSuffix pattern ''/'' then Some TrailingSlash
      else if ContainsAny pattern [CHR ''?'', CHR ''#'', CHR 0x5C] then Some ReservedCharacter
      else if pattern = ''/'' then None
      else validate_segments [] (segments pattern))"

text \<open>The token characters, \<open>!#$%&'*+-.^_`|~\<close>, besides letters and digits.\<close>

definition token_marks :: string where
  "token_marks = [CHR ''!'', CHR ''#'', CHR ''$'', CHR ''%'', CHR ''&'', CHR 0x27, CHR ''*'', CHR ''+'',
     CHR ''-'', CHR ''.'', CHR ''^'', CHR ''_'', CHR 0x60, CHR ''|'', CHR ''~'']"

definition validMethod :: "string \<Rightarrow> bool" where
  "validMethod method \<longleftrightarrow> method \<noteq> [] \<and> list_all (\<lambda>c. alphanumeric c \<or> c \<in> set token_marks) method"

fun validate_methods :: "string list \<Rightarrow> string list \<Rightarrow> route_error option" where
  "validate_methods methods [] = None"
| "validate_methods methods (method # rest) =
     (if \<not> validMethod method then Some (InvalidMethod method)
      else if method \<noteq> map ascii_upper method then Some (MethodNotUpper method)
      else if method \<in> set methods then Some (DuplicateMethod method)
      else validate_methods (method # methods) rest)"

definition validateRoute :: "('q, 'h) Route \<Rightarrow> route_error option" where
  "validateRoute route =
     (if rt_Methods route = [] then Some NoMethods
      else case validate_methods [] (rt_Methods route) of Some e \<Rightarrow> Some e
      | None \<Rightarrow> (case validateRoutePattern (rt_Path route) of Some e \<Rightarrow> Some e
      | None \<Rightarrow> (case validateHandlers ''prepare'' (rt_Prepare route) True of Some e \<Rightarrow> Some e
      | None \<Rightarrow> validateHandlers ''route'' (rt_Handlers route) False)))"

definition validateFallback :: "('q, 'h) Fallback \<Rightarrow> route_error option" where
  "validateFallback fallback =
     (case validateName ''fallback'' (fb_Name fallback) of Some e \<Rightarrow> Some e
      | None \<Rightarrow>
          if fb_Match fallback = None then Some (NoMatcher (fb_Name fallback))
          else if fb_Handler fallback = None then Some (NoFallbackHandler (fb_Name fallback))
          else None)"

definition routeIsInsideLongerOwnedNamespace ::
  "compiledRoute \<Rightarrow> namespaceBinding \<Rightarrow> namespaceBinding list \<Rightarrow> bool" where
  "routeIsInsideLongerOwnedNamespace route foreign namespaces \<longleftrightarrow>
     list_ex (\<lambda>candidate.
       nb_moduleIndex candidate = cr_moduleIndex route
       \<and> length (nb_prefix foreign) < length (nb_prefix candidate)
       \<and> namespaceMatches (nb_prefix foreign) (nb_prefix candidate)
       \<and> namespaceContainsPattern (nb_prefix candidate) (cr_path route)) namespaces"

definition intrudes :: "namespaceBinding list \<Rightarrow> compiledRoute \<Rightarrow> namespaceBinding \<Rightarrow> bool" where
  "intrudes namespaces route namespace \<longleftrightarrow>
     nb_moduleIndex namespace \<noteq> cr_moduleIndex route
     \<and> patternIntersectsNamespace (cr_path route) (nb_prefix namespace)
     \<and> \<not> routeIsInsideLongerOwnedNamespace route namespace namespaces"

definition intrusion :: "('q, 'h) Module list \<Rightarrow> compiledRoute \<Rightarrow> namespaceBinding \<Rightarrow> route_error" where
  "intrusion modules route namespace =
     (case (at modules (cr_moduleIndex route), at modules (nb_moduleIndex namespace)) of
        (Some m, Some owner) \<Rightarrow>
          (case at (md_Routes m) (cr_routeIndex route) of
             Some r \<Rightarrow> NamespaceIntersects (md_Name m) (rt_Name r) (cr_path route) (nb_prefix namespace) (md_Name owner)
           | None \<Rightarrow> RoutePanic)
      | _ \<Rightarrow> RoutePanic)"

fun validateNamespaceOwnership ::
  "('q, 'h) Module list \<Rightarrow> compiledRoute list \<Rightarrow> namespaceBinding list \<Rightarrow> route_error option" where
  "validateNamespaceOwnership modules [] namespaces = None"
| "validateNamespaceOwnership modules (route # routes) namespaces =
     (case find (intrudes namespaces route) namespaces of
        Some namespace \<Rightarrow> Some (intrusion modules route namespace)
      | None \<Rightarrow> validateNamespaceOwnership modules routes namespaces)"

text \<open>Whether the engine panics on the patterns is the argument; the panic is recovered into an error.\<close>

definition validateGinPatterns :: "(routePattern list \<Rightarrow> bool) \<Rightarrow> routePattern list \<Rightarrow> route_error option" where
  "validateGinPatterns refuses patterns = (if refuses patterns then Some PatternConflict else None)"

section \<open>Construction\<close>

text \<open>What \<open>NewRegistry\<close> has gathered: the maps of names, and the parts of the registry.\<close>

record ('q, 'h) build =
  bd_moduleNames :: "string list"
  bd_routeNames :: "string list"
  bd_methodPaths :: "(string, string) gomap"
  bd_namespaceOwners :: "(string, string) gomap"
  bd_patterns :: "routePattern list"
  bd_modules :: "('q, 'h) Module list"
  bd_routes :: "compiledRoute list"
  bd_routeInfos :: "RouteInfo list"
  bd_namespaces :: "namespaceBinding list"
  bd_fallback :: "('q, 'h) Fallback option"

definition new_build :: "('q, 'h) build" where
  "new_build = \<lparr> bd_moduleNames = [], bd_routeNames = [], bd_methodPaths = [], bd_namespaceOwners = [],
     bd_patterns = [], bd_modules = [], bd_routes = [], bd_routeInfos = [], bd_namespaces = [], bd_fallback = None \<rparr>"

fun add_namespaces :: "nat \<Rightarrow> string \<Rightarrow> string list \<Rightarrow> ('q, 'h) build \<Rightarrow> route_error + ('q, 'h) build" where
  "add_namespaces moduleIndex name [] b = Inr b"
| "add_namespaces moduleIndex name (prefix # rest) b =
     (case validateStaticPrefix prefix True of
        Some e \<Rightarrow> Inl (InNamespace name prefix e)
      | None \<Rightarrow>
          (case map_of (bd_namespaceOwners b) prefix of
             Some owner \<Rightarrow> Inl (DuplicateNamespace prefix owner name)
           | None \<Rightarrow> add_namespaces moduleIndex name rest
               (b\<lparr> bd_namespaceOwners := AList.update prefix name (bd_namespaceOwners b),
                   bd_namespaces := bd_namespaces b @ [\<lparr> nb_moduleIndex = moduleIndex, nb_prefix = prefix \<rparr>] \<rparr>)))"

definition add_fallback :: "('q, 'h) Module \<Rightarrow> ('q, 'h) build \<Rightarrow> route_error + ('q, 'h) build" where
  "add_fallback m b =
     (case md_Fallback m of
        None \<Rightarrow> Inr b
      | Some fallback \<Rightarrow>
          (case validateFallback fallback of
             Some e \<Rightarrow> Inl (InModule (md_Name m) e)
           | None \<Rightarrow> if bd_fallback b \<noteq> None then Inl MultipleFallbacks else Inr (b\<lparr> bd_fallback := Some fallback \<rparr>)))"

text \<open>The key of a method and a path, \<open>method + "\x00" + fullPath\<close>.\<close>

definition method_key :: "string \<Rightarrow> string \<Rightarrow> string" where
  "method_key method fullPath = method @ CHR 0x00 # fullPath"

fun add_methods :: "string \<Rightarrow> string \<Rightarrow> string list \<Rightarrow> ('q, 'h) build \<Rightarrow> route_error + ('q, 'h) build" where
  "add_methods name fullPath [] b = Inr b"
| "add_methods name fullPath (method # rest) b =
     (case map_of (bd_methodPaths b) (method_key method fullPath) of
        Some existing \<Rightarrow> Inl (DuplicatePattern method fullPath existing name)
      | None \<Rightarrow> add_methods name fullPath rest
          (b\<lparr> bd_methodPaths := AList.update (method_key method fullPath) name (bd_methodPaths b),
              bd_patterns := bd_patterns b @ [(method, fullPath)] \<rparr>))"

definition route_info :: "('q, 'h) Module \<Rightarrow> ('q, 'h) Route \<Rightarrow> RouteInfo" where
  "route_info m route =
     \<lparr> ri_ModuleName = md_Name m, ri_RouteName = rt_Name route, ri_Owner = md_Owner m, ri_Auth = md_Auth m,
       ri_Methods = rt_Methods route, ri_Path = md_Prefix m @ rt_Path route \<rparr>"

definition add_route ::
  "nat \<Rightarrow> ('q, 'h) Module \<Rightarrow> nat \<Rightarrow> ('q, 'h) Route \<Rightarrow> ('q, 'h) build \<Rightarrow> route_error + ('q, 'h) build" where
  "add_route moduleIndex m routeIndex route b =
     (case validateName ''route'' (rt_Name route) of Some e \<Rightarrow> Inl (InModule (md_Name m) e)
      | None \<Rightarrow>
      if rt_Name route \<in> set (bd_routeNames b) then Inl (DuplicateRoute (rt_Name route))
      else (case validateRoute route of Some e \<Rightarrow> Inl (InRoute (md_Name m) (rt_Name route) e)
      | None \<Rightarrow>
      let fullPath = md_Prefix m @ rt_Path route in
      (case validateRoutePattern fullPath of Some e \<Rightarrow> Inl (InRoutePath (md_Name m) (rt_Name route) fullPath e)
      | None \<Rightarrow>
      (case add_methods (rt_Name route) fullPath (rt_Methods route) (b\<lparr> bd_routeNames := rt_Name route # bd_routeNames b \<rparr>) of
         Inl e \<Rightarrow> Inl e
       | Inr b' \<Rightarrow> Inr (b'\<lparr>
           bd_routes := bd_routes b' @ [\<lparr> cr_moduleIndex = moduleIndex, cr_routeIndex = routeIndex, cr_path = fullPath \<rparr>],
           bd_routeInfos := bd_routeInfos b' @ [route_info m route] \<rparr>)))))"

fun add_routes ::
  "nat \<Rightarrow> ('q, 'h) Module \<Rightarrow> nat \<Rightarrow> ('q, 'h) Route list \<Rightarrow> ('q, 'h) build \<Rightarrow> route_error + ('q, 'h) build" where
  "add_routes moduleIndex m routeIndex [] b = Inr b"
| "add_routes moduleIndex m routeIndex (route # routes) b =
     (case add_route moduleIndex m routeIndex route b of
        Inl e \<Rightarrow> Inl e
      | Inr b' \<Rightarrow> add_routes moduleIndex m (Suc routeIndex) routes b')"

definition add_module :: "nat \<Rightarrow> ('q, 'h) Module \<Rightarrow> ('q, 'h) build \<Rightarrow> route_error + ('q, 'h) build" where
  "add_module moduleIndex m b =
     (case validateName ''module'' (md_Name m) of Some e \<Rightarrow> Inl e
      | None \<Rightarrow>
      if md_Name m \<in> set (bd_moduleNames b) then Inl (DuplicateModule (md_Name m))
      else (case validateOwnerAuth m of Some e \<Rightarrow> Inl (InModule (md_Name m) e)
      | None \<Rightarrow>
      (case validatePrefix (md_Prefix m) of Some e \<Rightarrow> Inl (InPrefix (md_Name m) e)
      | None \<Rightarrow>
      (case validateHandlers ''before-auth'' (md_BeforeAuth m) True of Some e \<Rightarrow> Inl (InModule (md_Name m) e)
      | None \<Rightarrow>
      (case add_namespaces moduleIndex (md_Name m) (md_NamespacePrefixes m) (b\<lparr> bd_moduleNames := md_Name m # bd_moduleNames b \<rparr>) of
         Inl e \<Rightarrow> Inl e
       | Inr b1 \<Rightarrow>
      (case add_fallback m b1 of
         Inl e \<Rightarrow> Inl e
       | Inr b2 \<Rightarrow>
      (case add_routes moduleIndex m 0 (md_Routes m) b2 of
         Inl e \<Rightarrow> Inl e
       | Inr b3 \<Rightarrow> Inr (b3\<lparr> bd_modules := bd_modules b3 @ [m] \<rparr>))))))))"

fun add_modules :: "nat \<Rightarrow> ('q, 'h) Module list \<Rightarrow> ('q, 'h) build \<Rightarrow> route_error + ('q, 'h) build" where
  "add_modules moduleIndex [] b = Inr b"
| "add_modules moduleIndex (m # ms) b =
     (case add_module moduleIndex m b of
        Inl e \<Rightarrow> Inl e
      | Inr b' \<Rightarrow> add_modules (Suc moduleIndex) ms b')"

text \<open>\<open>sort.SliceStable\<close> by falling length of the prefix.\<close>

definition sort_namespaces :: "namespaceBinding list \<Rightarrow> namespaceBinding list" where
  "sort_namespaces namespaces = sort_key (\<lambda>n. - int (length (nb_prefix n))) namespaces"

definition NewRegistry ::
  "(routePattern list \<Rightarrow> bool) \<Rightarrow> ('q, 'h) Module list \<Rightarrow> route_error + ('q, 'h) Registry" where
  "NewRegistry refuses modules =
     (case add_modules 0 modules new_build of
        Inl e \<Rightarrow> Inl e
      | Inr b \<Rightarrow>
          let namespaces = sort_namespaces (bd_namespaces b) in
          (case validateNamespaceOwnership (bd_modules b) (bd_routes b) namespaces of Some e \<Rightarrow> Inl e
           | None \<Rightarrow>
          (case validateGinPatterns refuses (bd_patterns b) of Some e \<Rightarrow> Inl e
           | None \<Rightarrow> Inr \<lparr> rg_modules = bd_modules b, rg_routes = bd_routes b, rg_routeInfos = bd_routeInfos b,
               rg_namespaces = namespaces, rg_fallback = bd_fallback b, rg_runtime = [], rg_bound = False \<rparr>)))"

definition Routes :: "('q, 'h) Registry option \<Rightarrow> RouteInfo list" where
  "Routes registry = (case registry of None \<Rightarrow> [] | Some r \<Rightarrow> rg_routeInfos r)"

section \<open>Binding\<close>

text \<open>
  The handlers of a bound route: the guard with the owners it found and the routes it captured, the
  path validator with the handler of its refusal, and the handlers of the declarations.
\<close>

datatype ('q, 'h) item =
    Guard "(string, nat list) gomap" "'q runtimeRoute list"
  | Validator "'q request \<Rightarrow> bool" "'h option"
  | Handler "'h option"

text \<open>The engine: its middleware, its routes, and whether the fallbacks of the registry are installed.\<close>

record ('q, 'h) engine =
  en_Handlers :: "'h list"
  en_Routes :: "(string \<times> string \<times> ('q, 'h) item list) list"
  en_HandleMethodNotAllowed :: bool
  en_NoRoute :: bool
  en_NoMethod :: bool

definition routeChainLength :: "('q, 'h) Module \<Rightarrow> ('q, 'h) Route \<Rightarrow> bool \<Rightarrow> nat" where
  "routeChainLength m route hasOwnershipGuard =
     length (md_BeforeAuth m) + length (rt_Prepare route) + length (rt_Handlers route)
     + (if hasOwnershipGuard then 1 else 0) + (if rt_PathValidator route \<noteq> None then 1 else 0)
     + (if md_Authenticate m \<noteq> None then 1 else 0)"

definition routeHandlers :: "('q, 'h) Module \<Rightarrow> ('q, 'h) Route \<Rightarrow> ('q, 'h) item option \<Rightarrow> ('q, 'h) item list" where
  "routeHandlers m route ownershipGuard =
     (case ownershipGuard of None \<Rightarrow> [] | Some guard \<Rightarrow> [guard])
     @ (case rt_PathValidator route of None \<Rightarrow> [] | Some validator \<Rightarrow> [Validator validator (md_NotFound m)])
     @ map Handler (md_BeforeAuth m)
     @ map Handler (rt_Prepare route)
     @ (case md_Authenticate m of None \<Rightarrow> [] | Some authenticate \<Rightarrow> [Handler (Some authenticate)])
     @ map Handler (rt_Handlers route)"

fun static_owners ::
  "string \<Rightarrow> nat \<Rightarrow> 'q runtimeRoute list \<Rightarrow> (string, nat list) gomap \<Rightarrow> (string, nat list) gomap option" where
  "static_owners matchedPattern routeIndex [] owners = Some owners"
| "static_owners matchedPattern routeIndex (route # routes) owners =
     (if rr_path route = matchedPattern \<or> \<not> isStaticRoutePattern (rr_path route)
      then static_owners matchedPattern (Suc routeIndex) routes owners
      else case matchPattern matchedPattern (rr_path route) of
        None \<Rightarrow> None
      | Some False \<Rightarrow> static_owners matchedPattern (Suc routeIndex) routes owners
      | Some True \<Rightarrow> static_owners matchedPattern (Suc routeIndex) routes
          (AList.update (rr_path route)
             ((case map_of owners (rr_path route) of None \<Rightarrow> [] | Some indexes \<Rightarrow> indexes) @ [routeIndex]) owners))"

definition staticPathOwnershipGuard :: "string \<Rightarrow> 'q runtimeRoute list \<Rightarrow> ('q, 'h) item option option" where
  "staticPathOwnershipGuard matchedPattern routes =
     (case static_owners matchedPattern 0 routes [] of
        None \<Rightarrow> None
      | Some owners \<Rightarrow> Some (if owners = [] then None else Some (Guard owners routes)))"

text \<open>The declaration that a compiled route stands for.\<close>

definition declared_route ::
  "('q, 'h) Registry \<Rightarrow> compiledRoute \<Rightarrow> (('q, 'h) Module \<times> ('q, 'h) Route \<times> compiledRoute) option" where
  "declared_route registry route =
     (case at (rg_modules registry) (cr_moduleIndex route) of
        None \<Rightarrow> None
      | Some m \<Rightarrow> map_option (\<lambda>r. (m, r, route)) (at (md_Routes m) (cr_routeIndex route)))"

definition runtime_route :: "('q, 'h) Module \<times> ('q, 'h) Route \<times> compiledRoute \<Rightarrow> 'q runtimeRoute" where
  "runtime_route d =
     (case d of (m, r, route) \<Rightarrow>
        \<lparr> rr_moduleIndex = cr_moduleIndex route, rr_path = cr_path route, rr_methods = rt_Methods r,
          rr_validator = rt_PathValidator r \<rparr>)"

definition declared_patterns :: "('q, 'h) Module \<times> ('q, 'h) Route \<times> compiledRoute \<Rightarrow> routePattern list" where
  "declared_patterns d = (case d of (m, r, route) \<Rightarrow> map (\<lambda>method. (method, cr_path route)) (rt_Methods r))"

text \<open>The guards of the routes in order, or the first error: a chain that is too long.\<close>

fun route_guards ::
  "nat \<Rightarrow> 'q runtimeRoute list \<Rightarrow> (('q, 'h) Module \<times> ('q, 'h) Route \<times> compiledRoute) list
    \<Rightarrow> route_error + ('q, 'h) item option list" where
  "route_guards middleware routes [] = Inr []"
| "route_guards middleware routes ((m, r, route) # rest) =
     (case staticPathOwnershipGuard (cr_path route) routes of
        None \<Rightarrow> Inl RoutePanic
      | Some guard \<Rightarrow>
          let chainLength = middleware + routeChainLength m r (guard \<noteq> None) in
          if ginMaximumHandlerChainLength \<le> chainLength then Inl (ChainTooLong (md_Name m) (rt_Name r) chainLength)
          else map_sum id (Cons guard) (route_guards middleware routes rest))"

definition bound_routes ::
  "(('q, 'h) Module \<times> ('q, 'h) Route \<times> compiledRoute) \<Rightarrow> ('q, 'h) item option
    \<Rightarrow> (string \<times> string \<times> ('q, 'h) item list) list" where
  "bound_routes d guard =
     (case d of (m, r, route) \<Rightarrow>
        map (\<lambda>method. (method, cr_path route, routeHandlers m r guard)) (rt_Methods r))"

definition Bind ::
  "(routePattern list \<Rightarrow> bool) \<Rightarrow> ('q, 'h) Registry option \<Rightarrow> ('q, 'h) engine option
    \<Rightarrow> route_error + ('q, 'h) Registry \<times> ('q, 'h) engine" where
  "Bind refuses registry engine =
     (case registry of None \<Rightarrow> Inl NilRegistry | Some r \<Rightarrow>
     (case engine of None \<Rightarrow> Inl NilEngine | Some e \<Rightarrow>
      if rg_bound r then Inl AlreadyBound
      else if ginMaximumHandlerChainLength \<le> length (en_Handlers e) + 1 then Inl (FallbackChainTooLong (length (en_Handlers e) + 1))
      else if en_Routes e \<noteq> [] then Inl (EngineNotEmpty (length (en_Routes e)))
      else
     (case those (map (declared_route r) (rg_routes r)) of None \<Rightarrow> Inl RoutePanic | Some declarations \<Rightarrow>
     (case validateGinPatterns refuses (concat (map declared_patterns declarations)) of Some err \<Rightarrow> Inl (InPreflight err) | None \<Rightarrow>
     (case route_guards (length (en_Handlers e)) (map runtime_route declarations) declarations of Inl err \<Rightarrow> Inl err | Inr guards \<Rightarrow>
        Inr (r\<lparr> rg_runtime := map runtime_route declarations, rg_bound := True \<rparr>,
             e\<lparr> en_Routes := concat (map2 bound_routes declarations guards), en_HandleMethodNotAllowed := True,
                en_NoRoute := True, en_NoMethod := True \<rparr>))))))"

section \<open>Answers\<close>

text \<open>
  What a handler of the registry does with a request: it passes it on, or it ends the chain with a status
  and calls a handler (\<open>invokeTerminal\<close>). The header \<open>Allow\<close> is left alone (\<open>None\<close>) or set; setting it to the empty
  string removes it.
\<close>

datatype 'h answer = Pass | Terminal (an_status: nat) (an_Allow: "string option") (an_handler: "'h option")

definition valid_for :: "'q request \<Rightarrow> 'q runtimeRoute \<Rightarrow> bool" where
  "valid_for req route = (case rr_validator route of None \<Rightarrow> True | Some validator \<Rightarrow> validator req)"

definition allow_header :: "string list \<Rightarrow> string" where
  "allow_header methods = Join '', '' (sort methods)"

text \<open>The guard's indices are indices of the routes it captured.\<close>

definition run_guard ::
  "('q, 'h) Module list \<Rightarrow> (string, nat list) gomap \<Rightarrow> 'q runtimeRoute list \<Rightarrow> 'q request \<Rightarrow> 'h answer option" where
  "run_guard modules owners routes req =
     (case map_of owners (rq_Path req) of
        None \<Rightarrow> Some Pass
      | Some ownerRoutes \<Rightarrow>
          let valid = filter (valid_for req) (map (\<lambda>i. routes ! i) ownerRoutes);
              allowed = remdups (concat (map rr_methods valid))
          in if allowed = [] then Some Pass
             else if rq_Method req \<in> set allowed then Some Pass
             else map_option (\<lambda>m. Terminal 405 (Some (allow_header allowed)) (md_MethodNotAllowed m))
               (at modules (rr_moduleIndex (hd valid))))"

text \<open>What the registry's own handlers decide; a declared handler is opaque, and nothing is decided for it here.\<close>

definition run_item :: "('q, 'h) Module list \<Rightarrow> ('q, 'h) item \<Rightarrow> 'q request \<Rightarrow> 'h answer option" where
  "run_item modules item req =
     (case item of
        Guard owners routes \<Rightarrow> run_guard modules owners routes req
      | Validator validator notFound \<Rightarrow> Some (if validator req then Pass else Terminal 404 None notFound)
      | Handler h \<Rightarrow> Some Pass)"

definition handleNoRoute :: "('q, 'h) Registry \<Rightarrow> 'q request \<Rightarrow> 'h answer option" where
  "handleNoRoute registry req =
     (case find (\<lambda>n. namespaceMatches (nb_prefix n) (rq_Path req)) (rg_namespaces registry) of
        Some namespace \<Rightarrow>
          map_option (\<lambda>m. Terminal 404 None (md_NotFound m)) (at (rg_modules registry) (nb_moduleIndex namespace))
      | None \<Rightarrow>
          (case rg_fallback registry of
             None \<Rightarrow> Some (Terminal 404 None None)
           | Some fallback \<Rightarrow>
               map_option (\<lambda>matches. Terminal 404 None (if matches req then fb_Handler fallback else None)) (fb_Match fallback)))"

definition gin_allowed :: "string \<Rightarrow> string list" where
  "gin_allowed header = filter (\<lambda>m. m \<noteq> []) (map TrimSpace (Split (CHR '','') header))"

definition best_method ::
  "'q runtimeRoute list \<Rightarrow> string list \<Rightarrow> nat \<Rightarrow> string \<Rightarrow> (string, nat) gomap \<Rightarrow> (string, nat) gomap" where
  "best_method routes ginAllowed routeIndex method best =
     (if method \<notin> set ginAllowed then best
      else if map_of best method = None \<or> moreSpecific (rr_path (routes ! routeIndex)) routes (map_of best method)
        then AList.update method routeIndex best
      else best)"

fun best_routes ::
  "'q runtimeRoute list \<Rightarrow> string list \<Rightarrow> string \<Rightarrow> nat list \<Rightarrow> nat option \<times> (string, nat) gomap
    \<Rightarrow> (nat option \<times> (string, nat) gomap) option" where
  "best_routes routes ginAllowed path [] acc = Some acc"
| "best_routes routes ginAllowed path (i # rest) (bestRaw, bestByMethod) =
     (case matchPattern (rr_path (routes ! i)) path of
        None \<Rightarrow> None
      | Some False \<Rightarrow> best_routes routes ginAllowed path rest (bestRaw, bestByMethod)
      | Some True \<Rightarrow> best_routes routes ginAllowed path rest
          (if moreSpecific (rr_path (routes ! i)) routes bestRaw then Some i else bestRaw,
           fold (best_method routes ginAllowed i) (rr_methods (routes ! i)) bestByMethod))"

fun best_semantic :: "'q runtimeRoute list \<Rightarrow> (string \<times> nat) list \<Rightarrow> nat option \<Rightarrow> nat option" where
  "best_semantic routes [] best = best"
| "best_semantic routes ((method, i) # rest) best =
     best_semantic routes rest (if moreSpecific (rr_path (routes ! i)) routes best then Some i else best)"

text \<open>
  The loop over the map of methods runs in an order that Go does not fix: \<open>arrange\<close> is any rearrangement of
  the entries. The loops over the later maps only collect a set.
\<close>

definition handleNoMethod ::
  "((string \<times> nat) list \<Rightarrow> (string \<times> nat) list) \<Rightarrow> ('q, 'h) Registry \<Rightarrow> string \<Rightarrow> 'q request \<Rightarrow> 'h answer option" where
  "handleNoMethod arrange registry ginAllow req =
     (let routes = rg_runtime registry in
      case best_routes routes (gin_allowed ginAllow) (rq_Path req) [0..<length routes] (None, []) of
        None \<Rightarrow> None
      | Some (bestRaw, bestByMethod) \<Rightarrow>
          let validByMethod = filter (\<lambda>(method, i). valid_for req (routes ! i)) (arrange bestByMethod);
              bestSemantic = best_semantic routes validByMethod None;
              allowed = map fst (filter (\<lambda>(method, i). \<not> (case bestSemantic of None \<Rightarrow> False
                | Some s \<Rightarrow> moreSpecific (rr_path (routes ! s)) routes (Some i))) validByMethod)
          in if allowed = [] then
               (case bestRaw of
                  Some i \<Rightarrow> map_option (\<lambda>m. Terminal 404 (Some []) (md_NotFound m)) (at (rg_modules registry) (rr_moduleIndex (routes ! i)))
                | None \<Rightarrow> map_option (\<lambda>a. case a of Pass \<Rightarrow> Pass | Terminal status _ h \<Rightarrow> Terminal status (Some []) h) (handleNoRoute registry req))
             else
               (case bestSemantic of
                  None \<Rightarrow> Some (Terminal 405 (Some (allow_header allowed)) None)
                | Some s \<Rightarrow> map_option (\<lambda>m. Terminal 405 (Some (allow_header allowed)) (md_MethodNotAllowed m))
                    (at (rg_modules registry) (rr_moduleIndex (routes ! s)))))"

end
