(* ===== verification/Http_Route_Properties.thy ===== *)
theory Http_Route_Properties
  imports Http_Route
begin

text \<open>
  What the validation of route modules establishes: paths and namespaces as lists of segments, the
  specificity of patterns as an order, and the invariant of the registry that \<open>NewRegistry\<close> builds.
\<close>

section \<open>Segments\<close>

lemma Split_concat: "Split c (a @ c # b) = Split c a @ Split c b"
  by (induction a) auto

lemma is_prefix_append: "is_prefix p s \<longleftrightarrow> (\<exists>rest. s = p @ rest)"
  by (induction p s rule: is_prefix.induct) auto

lemma HasPrefix_append: "HasPrefix s p \<longleftrightarrow> (\<exists>rest. s = p @ rest)"
  by (simp add: HasPrefix_def is_prefix_append)

lemma HasPrefix_char [simp]: "HasPrefix (x # s) [c] \<longleftrightarrow> x = c" "\<not> HasPrefix [] (c # p)"
  by (auto simp: HasPrefix_def)

lemma segments_absolute [simp]: "segments (CHR ''/'' # s) = Split (CHR ''/'') s"
  by (simp add: segments_def TrimPrefix_def)

lemma segments_not_empty [simp]: "segments s \<noteq> []"
  by (simp add: segments_def)

lemma segments_root: "segments s @ rest = segments ''/'' \<Longrightarrow> segments s = [[]]"
  by (cases "segments s") (simp_all add: segments_def TrimPrefix_def)

lemma absolute_join: "HasPrefix s ''/'' \<Longrightarrow> s = CHR ''/'' # Join ''/'' (segments s)"
  by (cases s) auto

lemma Join_append: "xs \<noteq> [] \<Longrightarrow> ys \<noteq> [] \<Longrightarrow> Join sep (xs @ ys) = Join sep xs @ sep @ Join sep ys"
proof (induction sep xs rule: Join.induct)
  case (2 sep p)
  then show ?case by (cases ys) auto
qed auto

text \<open>A path lies in a namespace exactly if its segments start with those of the prefix.\<close>

lemma namespace_segments:
  assumes "HasPrefix prefix ''/''" and "prefix \<noteq> ''/''" and "HasPrefix path ''/''"
  shows "namespaceMatches prefix path \<longleftrightarrow> (\<exists>rest. segments path = segments prefix @ rest)"
proof
  obtain p where p: "prefix = CHR ''/'' # p" using assms(1) by (cases prefix) auto
  assume "namespaceMatches prefix path"
  with assms(2) have "path = prefix \<or> (\<exists>rest. path = prefix @ CHR ''/'' # rest)"
    by (auto simp: namespaceMatches_def HasPrefix_append)
  then show "\<exists>rest. segments path = segments prefix @ rest"
    using p by (auto simp: Split_concat)
next
  assume "\<exists>rest. segments path = segments prefix @ rest"
  then obtain rest where rest: "segments path = segments prefix @ rest" by blast
  have ne: "segments prefix \<noteq> []" by (simp add: segments_def)
  have path: "path = CHR ''/'' # Join ''/'' (segments prefix @ rest)" using absolute_join [OF assms(3)] rest by simp
  have prefix: "prefix = CHR ''/'' # Join ''/'' (segments prefix)" using absolute_join [OF assms(1)] .
  show "namespaceMatches prefix path"
  proof (cases "rest = []")
    case True
    then show ?thesis using path prefix assms(2) by (simp add: namespaceMatches_def)
  next
    case False
    then have "path = prefix @ ''/'' @ Join ''/'' rest"
      using path prefix Join_append [OF ne False, of "''/''"] by (metis append_Cons)
    then show ?thesis using assms(2) by (auto simp: namespaceMatches_def HasPrefix_append)
  qed
qed

section \<open>Patterns\<close>

lemma canonical_nonempty: "canonical_segment s \<Longrightarrow> s \<noteq> []"
  by (simp add: canonical_segment_def)

lemma validate_segments_nonempty: "validate_segments names ss = None \<Longrightarrow> [] \<notin> set ss"
  by (induction names ss rule: validate_segments.induct) (auto simp: canonical_segment_def Let_def split: if_splits)

lemma match_segments_total: "[] \<notin> set ss \<Longrightarrow> match_segments ss path \<noteq> None"
  by (induction ss path rule: match_segments.induct) (auto split: list.splits)

lemma matchPattern_total: "validateRoutePattern pattern = None \<Longrightarrow> matchPattern pattern path \<noteq> None"
  by (auto simp: validateRoutePattern_def matchPattern_def split: if_splits
      dest!: validate_segments_nonempty match_segments_total)

text \<open>A pattern that matches a path in a namespace intersects the namespace.\<close>

lemma match_intersects:
  "match_segments ss path = Some True \<Longrightarrow> path = prefix @ rest \<Longrightarrow> intersects_segments ss prefix"
  by (induction ss path arbitrary: prefix rule: match_segments.induct)
    (auto simp: Cons_eq_append_conv split: if_splits list.splits)

definition static_segment :: "string \<Rightarrow> bool" where
  "static_segment s \<longleftrightarrow> s \<noteq> [] \<and> CHR '':'' \<notin> set s \<and> CHR ''*'' \<notin> set s"

lemma match_static:
  "match_segments (prefix @ ss) path = Some True \<Longrightarrow> list_all static_segment prefix \<Longrightarrow> \<exists>rest. path = prefix @ rest"
proof (induction prefix arbitrary: path)
  case (Cons s prefix)
  then obtain c name where s: "s = c # name" "c \<noteq> CHR '':''" "c \<noteq> CHR ''*''"
    by (cases s) (auto simp: static_segment_def)
  with Cons.prems obtain rest where "path = s # rest" "match_segments (prefix @ ss) rest = Some True"
    by (auto split: list.splits if_splits)
  with Cons show ?case by auto
qed simp

lemma Split_set: "s \<in> set (Split c t) \<Longrightarrow> set s \<subseteq> set t"
proof (induction t arbitrary: s)
  case (Cons x t)
  have "hd (Split c t) \<in> set (Split c t)" by simp
  then have h: "set (hd (Split c t)) \<subseteq> set t" using Cons.IH by blast
  show ?case
  proof (cases "x = c")
    case True
    with Cons show ?thesis by fastforce
  next
    case False
    then have "s = x # hd (Split c t) \<or> s \<in> set (Split c t)"
      using Cons.prems list.set_sel(2) [OF Split_not_empty] by fastforce
    with h Cons.IH [of s] show ?thesis by fastforce
  qed
qed simp

lemma static_prefix:
  assumes "validateStaticPrefix prefix True = None"
  shows "HasPrefix prefix ''/'' \<and> (prefix \<noteq> ''/'' \<longrightarrow> list_all static_segment (segments prefix))"
proof -
  have abs: "HasPrefix prefix ''/''" using assms by (auto simp: validateStaticPrefix_def split: if_splits)
  then obtain p where p: "prefix = CHR ''/'' # p" by (cases prefix) auto
  have "list_all static_segment (segments prefix)" if "prefix \<noteq> ''/''"
  proof -
    have "list_all canonical_segment (segments prefix)" and "\<not> ContainsAny prefix [CHR ''?'', CHR ''#'', CHR 0x5C, CHR '':'', CHR ''*'']"
      using assms that by (auto simp: validateStaticPrefix_def split: if_splits)
    then have "list_all canonical_segment (segments prefix)" and none: "CHR '':'' \<notin> set p" "CHR ''*'' \<notin> set p"
      unfolding ContainsAny_def p by (auto simp: list_ex_iff)
    moreover have "set s \<subseteq> set p" if "s \<in> set (segments prefix)" for s
      using that Split_set p by auto
    ultimately show ?thesis by (auto simp: list_all_iff static_segment_def canonical_segment_def)
  qed
  with abs show ?thesis by blast
qed

lemma matchPattern_absolute: "matchPattern pattern path = Some True \<Longrightarrow> HasPrefix path ''/''"
  by (auto simp: matchPattern_def split: if_splits)

lemma matched_intersects:
  assumes "matchPattern pattern path = Some True" and "namespaceMatches prefix path"
    and "validateStaticPrefix prefix True = None"
  shows "patternIntersectsNamespace pattern prefix"
proof (cases "prefix = ''/''")
  case False
  have abs: "HasPrefix path ''/''" using matchPattern_absolute assms(1) .
  have pre: "HasPrefix prefix ''/''" using static_prefix [OF assms(3)] by blast
  then obtain rest where rest: "segments path = segments prefix @ rest"
    using namespace_segments [OF pre False abs] assms(2) by blast
  have "path \<noteq> ''/''"
  proof
    assume "path = ''/''"
    then have "segments prefix = [[]]" using rest segments_root by metis
    then show False using static_prefix [OF assms(3)] False by (auto simp: static_segment_def)
  qed
  then have "match_segments (segments pattern) (segments path) = Some True"
    using assms(1) by (auto simp: matchPattern_def split: if_splits)
  with rest False show ?thesis by (auto simp: patternIntersectsNamespace_def intro: match_intersects)
qed (simp add: patternIntersectsNamespace_def)

lemma contained_matches:
  assumes "matchPattern pattern path = Some True" and "namespaceContainsPattern prefix pattern"
    and "validateStaticPrefix prefix True = None"
  shows "namespaceMatches prefix path"
proof (cases "prefix = ''/''")
  case True
  then show ?thesis using matchPattern_absolute [OF assms(1)] by (simp add: namespaceMatches_def)
next
  case False
  have pre: "HasPrefix prefix ''/''" and static: "list_all static_segment (segments prefix)"
    using static_prefix [OF assms(3)] False by auto
  have "take (length (segments prefix)) (segments pattern) = segments prefix"
    using assms(2) False by (simp add: namespaceContainsPattern_def split: if_splits)
  then obtain ss where ss: "segments pattern = segments prefix @ ss" by (metis append_take_drop_id)
  have "pattern \<noteq> ''/''"
  proof
    assume "pattern = ''/''"
    then have "segments prefix = [[]]" using ss segments_root by metis
    then show False using static by (simp add: static_segment_def)
  qed
  then have "match_segments (segments pattern) (segments path) = Some True"
    using assms(1) by (auto simp: matchPattern_def split: if_splits)
  then have "\<exists>rest. segments path = segments prefix @ rest" using match_static ss static by metis
  then show ?thesis using namespace_segments [OF pre False matchPattern_absolute [OF assms(1)]] by blast
qed

section \<open>Specificity\<close>

text \<open>The rank of a pattern; more specific is greater in the lexicographic order of the ranks.\<close>

definition pattern_rank :: "string \<Rightarrow> nat list" where
  "pattern_rank pattern = map routeSegmentSpecificity (segments pattern)"

lemma more_specific_from_rank:
  "more_specific_from candidate current \<longleftrightarrow>
    map routeSegmentSpecificity current < map routeSegmentSpecificity candidate"
proof (induction candidate arbitrary: current)
  case Nil
  then show ?case by (cases current) auto
next
  case (Cons segment candidate)
  then show ?case by (cases current) (auto simp: Let_def)
qed

lemma moreSpecific_rank:
  "moreSpecific path routes None" "moreSpecific path routes (Some i) \<longleftrightarrow> pattern_rank (rr_path (routes ! i)) < pattern_rank path"
  by (simp_all add: moreSpecific_def more_specific_from_rank pattern_rank_def)

section \<open>What a module declares\<close>

definition module_namespaces :: "nat \<Rightarrow> ('q, 'h) Module \<Rightarrow> namespaceBinding list" where
  "module_namespaces i m = map (\<lambda>p. \<lparr> nb_moduleIndex = i, nb_prefix = p \<rparr>) (md_NamespacePrefixes m)"

definition compiled_routes :: "nat \<Rightarrow> ('q, 'h) Module \<Rightarrow> nat \<Rightarrow> ('q, 'h) Route list \<Rightarrow> compiledRoute list" where
  "compiled_routes i m j routes =
     map (\<lambda>(j, r). \<lparr> cr_moduleIndex = i, cr_routeIndex = j, cr_path = md_Prefix m @ rt_Path r \<rparr>) (enumerate j routes)"

definition route_patterns :: "('q, 'h) Module \<Rightarrow> ('q, 'h) Route list \<Rightarrow> routePattern list" where
  "route_patterns m routes = concat (map (\<lambda>r. map (\<lambda>method. (method, md_Prefix m @ rt_Path r)) (rt_Methods r)) routes)"

definition all_routes :: "('q, 'h) Module list \<Rightarrow> compiledRoute list" where
  "all_routes ms = concat (map (\<lambda>(i, m). compiled_routes i m 0 (md_Routes m)) (enumerate 0 ms))"

definition all_namespaces :: "('q, 'h) Module list \<Rightarrow> namespaceBinding list" where
  "all_namespaces ms = concat (map (\<lambda>(i, m). module_namespaces i m) (enumerate 0 ms))"

definition all_patterns :: "('q, 'h) Module list \<Rightarrow> routePattern list" where
  "all_patterns ms = concat (map (\<lambda>m. route_patterns m (md_Routes m)) ms)"

definition all_infos :: "('q, 'h) Module list \<Rightarrow> RouteInfo list" where
  "all_infos ms = concat (map (\<lambda>m. map (route_info m) (md_Routes m)) ms)"

definition all_route_names :: "('q, 'h) Module list \<Rightarrow> string list" where
  "all_route_names ms = concat (map (\<lambda>m. map rt_Name (md_Routes m)) ms)"

lemmas declared_defs = all_routes_def all_namespaces_def all_patterns_def all_infos_def all_route_names_def

lemma declared_Nil [simp]:
  "all_routes [] = []" "all_namespaces [] = []" "all_patterns [] = []" "all_infos [] = []" "all_route_names [] = []"
  by (simp_all add: declared_defs)

lemma declared_snoc [simp]:
  "all_routes (ms @ [m]) = all_routes ms @ compiled_routes (length ms) m 0 (md_Routes m)"
  "all_namespaces (ms @ [m]) = all_namespaces ms @ module_namespaces (length ms) m"
  "all_patterns (ms @ [m]) = all_patterns ms @ route_patterns m (md_Routes m)"
  "all_infos (ms @ [m]) = all_infos ms @ map (route_info m) (md_Routes m)"
  "all_route_names (ms @ [m]) = all_route_names ms @ map rt_Name (md_Routes m)"
  by (simp_all add: declared_defs enumerate_append_eq)

lemma compiled_routes_simps [simp]:
  "compiled_routes i m j [] = []"
  "compiled_routes i m j (r # rs) =
    \<lparr> cr_moduleIndex = i, cr_routeIndex = j, cr_path = md_Prefix m @ rt_Path r \<rparr> # compiled_routes i m (Suc j) rs"
  by (simp_all add: compiled_routes_def)

lemma route_patterns_simps [simp]:
  "route_patterns m [] = []"
  "route_patterns m (r # rs) = map (\<lambda>method. (method, md_Prefix m @ rt_Path r)) (rt_Methods r) @ route_patterns m rs"
  by (simp_all add: route_patterns_def)

section \<open>Construction\<close>

lemma add_namespaces_Inr:
  "add_namespaces i name ps b = Inr b' \<Longrightarrow>
    \<exists>owners. b' = b\<lparr> bd_namespaceOwners := owners,
        bd_namespaces := bd_namespaces b @ map (\<lambda>p. \<lparr> nb_moduleIndex = i, nb_prefix = p \<rparr>) ps \<rparr>
      \<and> set (keys owners) = set (keys (bd_namespaceOwners b)) \<union> set ps
      \<and> distinct ps \<and> set ps \<inter> set (keys (bd_namespaceOwners b)) = {}
      \<and> (\<forall>p \<in> set ps. validateStaticPrefix p True = None)"
proof (induction ps arbitrary: b)
  case Nil
  then show ?case by (intro exI [of _ "bd_namespaceOwners b"]) simp
next
  case (Cons p ps)
  then have p: "validateStaticPrefix p True = None" "map_of (bd_namespaceOwners b) p = None"
    by (auto split: option.splits)
  let ?b = "b\<lparr> bd_namespaceOwners := AList.update p name (bd_namespaceOwners b),
    bd_namespaces := bd_namespaces b @ [\<lparr> nb_moduleIndex = i, nb_prefix = p \<rparr>] \<rparr>"
  from Cons.prems p have "add_namespaces i name ps ?b = Inr b'" by simp
  from Cons.IH [OF this] obtain owners where
    "b' = ?b\<lparr> bd_namespaceOwners := owners,
        bd_namespaces := bd_namespaces ?b @ map (\<lambda>p. \<lparr> nb_moduleIndex = i, nb_prefix = p \<rparr>) ps \<rparr>"
    "set (keys owners) = set (keys (bd_namespaceOwners ?b)) \<union> set ps"
    "distinct ps" "set ps \<inter> set (keys (bd_namespaceOwners ?b)) = {}"
    "\<forall>p \<in> set ps. validateStaticPrefix p True = None" by blast
  moreover have "set (keys (bd_namespaceOwners ?b)) = insert p (set (keys (bd_namespaceOwners b)))"
    by (auto simp: update_keys)
  ultimately show ?case using p by (intro exI [of _ owners]) (auto simp: map_of_eq_None_iff)
qed

lemma add_methods_Inr:
  "add_methods name path ms b = Inr b' \<Longrightarrow>
    \<exists>paths. b' = b\<lparr> bd_methodPaths := paths, bd_patterns := bd_patterns b @ map (\<lambda>m. (m, path)) ms \<rparr>
      \<and> set (keys paths) = set (keys (bd_methodPaths b)) \<union> (\<lambda>m. method_key m path) ` set ms
      \<and> (\<forall>m \<in> set ms. method_key m path \<notin> set (keys (bd_methodPaths b))) \<and> distinct ms"
proof (induction ms arbitrary: b)
  case Nil
  then show ?case by (intro exI [of _ "bd_methodPaths b"]) simp
next
  case (Cons m ms)
  let ?key = "method_key m path"
  let ?b = "b\<lparr> bd_methodPaths := AList.update ?key name (bd_methodPaths b), bd_patterns := bd_patterns b @ [(m, path)] \<rparr>"
  from Cons.prems have fresh: "map_of (bd_methodPaths b) ?key = None" and "add_methods name path ms ?b = Inr b'"
    by (auto split: option.splits)
  from Cons.IH [OF this(2)] obtain paths where
    "b' = ?b\<lparr> bd_methodPaths := paths, bd_patterns := bd_patterns ?b @ map (\<lambda>m. (m, path)) ms \<rparr>"
    "set (keys paths) = set (keys (bd_methodPaths ?b)) \<union> (\<lambda>m. method_key m path) ` set ms"
    "\<forall>m \<in> set ms. method_key m path \<notin> set (keys (bd_methodPaths ?b))" "distinct ms" by blast
  moreover have "set (keys (bd_methodPaths ?b)) = insert ?key (set (keys (bd_methodPaths b)))"
    by (auto simp: update_keys)
  ultimately show ?case using fresh by (intro exI [of _ paths]) (auto simp: map_of_eq_None_iff)
qed

definition route_ok :: "('q, 'h) Module \<Rightarrow> ('q, 'h) Route \<Rightarrow> bool" where
  "route_ok m r \<longleftrightarrow> validateName ''route'' (rt_Name r) = None \<and> validateRoute r = None
     \<and> validateRoutePattern (md_Prefix m @ rt_Path r) = None"

definition pattern_inv :: "('q, 'h) build \<Rightarrow> bool" where
  "pattern_inv b \<longleftrightarrow> distinct (bd_patterns b)
     \<and> set (keys (bd_methodPaths b)) = (\<lambda>(method, path). method_key method path) ` set (bd_patterns b)"

lemma pattern_inv_methods:
  assumes "pattern_inv b" and "add_methods name path ms b = Inr b'"
  shows "pattern_inv b'"
proof -
  obtain paths where "b' = b\<lparr> bd_methodPaths := paths, bd_patterns := bd_patterns b @ map (\<lambda>m. (m, path)) ms \<rparr>"
    and "set (keys paths) = set (keys (bd_methodPaths b)) \<union> (\<lambda>m. method_key m path) ` set ms"
    and fresh: "\<forall>m \<in> set ms. method_key m path \<notin> set (keys (bd_methodPaths b))" and "distinct ms"
    using add_methods_Inr [OF assms(2)] by blast
  moreover have "(m, path) \<notin> set (bd_patterns b)" if "m \<in> set ms" for m
    using fresh that assms(1) by (force simp: pattern_inv_def)
  ultimately show ?thesis using assms(1)
    by (auto simp: pattern_inv_def distinct_map inj_on_def image_Un image_image)
qed

lemma pattern_inv_cong [simp]:
  "pattern_inv (b\<lparr> bd_routeNames := names \<rparr>) = pattern_inv b"
  "pattern_inv (b\<lparr> bd_routes := rs, bd_routeInfos := infos \<rparr>) = pattern_inv b"
  "pattern_inv (b\<lparr> bd_moduleNames := names \<rparr>) = pattern_inv b"
  "pattern_inv (b\<lparr> bd_namespaceOwners := owners, bd_namespaces := ns \<rparr>) = pattern_inv b"
  "pattern_inv (b\<lparr> bd_fallback := fallback \<rparr>) = pattern_inv b"
  "pattern_inv (b\<lparr> bd_modules := modules \<rparr>) = pattern_inv b"
  by (simp_all add: pattern_inv_def)

lemma add_route_Inr:
  assumes "add_route i m j r b = Inr b'"
  shows "\<exists>paths. b' = b\<lparr> bd_routeNames := rt_Name r # bd_routeNames b, bd_methodPaths := paths,
      bd_patterns := bd_patterns b @ route_patterns m [r], bd_routes := bd_routes b @ compiled_routes i m j [r],
      bd_routeInfos := bd_routeInfos b @ [route_info m r] \<rparr>"
    and "route_ok m r" and "rt_Name r \<notin> set (bd_routeNames b)" and "pattern_inv b \<Longrightarrow> pattern_inv b'"
proof -
  let ?b = "b\<lparr> bd_routeNames := rt_Name r # bd_routeNames b \<rparr>"
  show "route_ok m r" and "rt_Name r \<notin> set (bd_routeNames b)"
    using assms by (auto simp: add_route_def route_ok_def Let_def split: option.splits if_splits sum.splits)
  obtain b1 where b1: "add_methods (rt_Name r) (md_Prefix m @ rt_Path r) (rt_Methods r) ?b = Inr b1"
    and b': "b' = b1\<lparr> bd_routes := bd_routes b1 @ compiled_routes i m j [r], bd_routeInfos := bd_routeInfos b1 @ [route_info m r] \<rparr>"
    using assms by (auto simp: add_route_def Let_def split: option.splits if_splits sum.splits)
  show "\<exists>paths. b' = b\<lparr> bd_routeNames := rt_Name r # bd_routeNames b, bd_methodPaths := paths,
      bd_patterns := bd_patterns b @ route_patterns m [r], bd_routes := bd_routes b @ compiled_routes i m j [r],
      bd_routeInfos := bd_routeInfos b @ [route_info m r] \<rparr>"
    using add_methods_Inr [OF b1] by (auto simp: b')
  show "pattern_inv b'" if "pattern_inv b"
    using pattern_inv_methods [OF _ b1] that by (simp add: b')
qed

lemma add_routes_Inr:
  "add_routes i m j rs b = Inr b' \<Longrightarrow> pattern_inv b \<Longrightarrow>
    \<exists>paths. b' = b\<lparr> bd_routeNames := rev (map rt_Name rs) @ bd_routeNames b, bd_methodPaths := paths,
      bd_patterns := bd_patterns b @ route_patterns m rs, bd_routes := bd_routes b @ compiled_routes i m j rs,
      bd_routeInfos := bd_routeInfos b @ map (route_info m) rs \<rparr>
    \<and> list_all (route_ok m) rs \<and> pattern_inv b'
    \<and> (distinct (bd_routeNames b) \<longrightarrow> distinct (rev (map rt_Name rs) @ bd_routeNames b))"
proof (induction rs arbitrary: j b)
  case Nil
  then show ?case by (intro exI [of _ "bd_methodPaths b"]) simp
next
  case (Cons r rs)
  then obtain b1 where b1: "add_route i m j r b = Inr b1" and rest: "add_routes i m (Suc j) rs b1 = Inr b'"
    by (auto split: sum.splits)
  obtain paths where paths: "b1 = b\<lparr> bd_routeNames := rt_Name r # bd_routeNames b, bd_methodPaths := paths,
      bd_patterns := bd_patterns b @ route_patterns m [r], bd_routes := bd_routes b @ compiled_routes i m j [r],
      bd_routeInfos := bd_routeInfos b @ [route_info m r] \<rparr>" using add_route_Inr(1) [OF b1] by blast
  note r = add_route_Inr(2,3) [OF b1] and inv = add_route_Inr(4) [OF b1 Cons.prems(2)]
  from Cons.IH [OF rest inv] obtain paths' where
    "b' = b1\<lparr> bd_routeNames := rev (map rt_Name rs) @ bd_routeNames b1, bd_methodPaths := paths',
      bd_patterns := bd_patterns b1 @ route_patterns m rs, bd_routes := bd_routes b1 @ compiled_routes i m (Suc j) rs,
      bd_routeInfos := bd_routeInfos b1 @ map (route_info m) rs \<rparr>"
    and "list_all (route_ok m) rs" "pattern_inv b'"
    and "distinct (bd_routeNames b1) \<longrightarrow> distinct (rev (map rt_Name rs) @ bd_routeNames b1)" by blast
  then show ?case using r by (intro exI [of _ paths']) (auto simp: paths)
qed

text \<open>What an accepted module satisfies, and what the registry holds of the modules added so far.\<close>

definition module_ok :: "('q, 'h) Module \<Rightarrow> bool" where
  "module_ok m \<longleftrightarrow> validateOwnerAuth m = None \<and> list_all (route_ok m) (md_Routes m)
     \<and> (\<forall>p \<in> set (md_NamespacePrefixes m). validateStaticPrefix p True = None)"

definition built :: "('q, 'h) Module list \<Rightarrow> ('q, 'h) build \<Rightarrow> bool" where
  "built ms b \<longleftrightarrow> bd_modules b = ms \<and> bd_routes b = all_routes ms \<and> bd_routeInfos b = all_infos ms
     \<and> bd_namespaces b = all_namespaces ms \<and> bd_patterns b = all_patterns ms \<and> pattern_inv b
     \<and> bd_moduleNames b = rev (map md_Name ms) \<and> distinct (map md_Name ms)
     \<and> bd_routeNames b = rev (all_route_names ms) \<and> distinct (all_route_names ms)
     \<and> set (keys (bd_namespaceOwners b)) = nb_prefix ` set (all_namespaces ms) \<and> distinct (map nb_prefix (all_namespaces ms))
     \<and> list_all module_ok ms \<and> (\<forall>f. bd_fallback b = Some f \<longrightarrow> validateFallback f = None)"

lemma module_prefixes [simp]: "map nb_prefix (module_namespaces i m) = md_NamespacePrefixes m"
  by (simp add: module_namespaces_def comp_def)

lemma add_fallback_Inr:
  "add_fallback m b = Inr b' \<Longrightarrow> (\<forall>f. bd_fallback b = Some f \<longrightarrow> validateFallback f = None) \<Longrightarrow>
    \<exists>fallback. b' = b\<lparr> bd_fallback := fallback \<rparr> \<and> (\<forall>f. fallback = Some f \<longrightarrow> validateFallback f = None)"
  by (auto simp: add_fallback_def split: option.splits if_splits intro: exI [of _ "bd_fallback b"])

lemma add_module_built:
  assumes "built ms b" and "add_module (length ms) m b = Inr b'"
  shows "built (ms @ [m]) b'"
proof -
  let ?b = "b\<lparr> bd_moduleNames := md_Name m # bd_moduleNames b \<rparr>"
  obtain b1 b2 b3 where
    name: "md_Name m \<notin> set (bd_moduleNames b)" and auth: "validateOwnerAuth m = None"
    and b1: "add_namespaces (length ms) (md_Name m) (md_NamespacePrefixes m) ?b = Inr b1"
    and b2: "add_fallback m b1 = Inr b2" and b3: "add_routes (length ms) m 0 (md_Routes m) b2 = Inr b3"
    and b': "b' = b3\<lparr> bd_modules := bd_modules b3 @ [m] \<rparr>"
    using assms(2) by (auto simp: add_module_def split: option.splits if_splits sum.splits)
  obtain owners where owners: "b1 = ?b\<lparr> bd_namespaceOwners := owners, bd_namespaces := bd_namespaces b @ module_namespaces (length ms) m \<rparr>"
    "set (keys owners) = set (keys (bd_namespaceOwners b)) \<union> set (md_NamespacePrefixes m)"
    "distinct (md_NamespacePrefixes m)" "set (md_NamespacePrefixes m) \<inter> set (keys (bd_namespaceOwners b)) = {}"
    "\<forall>p \<in> set (md_NamespacePrefixes m). validateStaticPrefix p True = None"
    using add_namespaces_Inr [OF b1] by (auto simp: module_namespaces_def)
  obtain fallback where fallback: "b2 = b1\<lparr> bd_fallback := fallback \<rparr>" "\<forall>f. fallback = Some f \<longrightarrow> validateFallback f = None"
    using add_fallback_Inr [OF b2] assms(1) by (auto simp: owners(1) built_def)
  have "pattern_inv b2" using assms(1) by (simp add: fallback(1) owners(1) built_def)
  from add_routes_Inr [OF b3 this] obtain paths where
    routes: "b3 = b2\<lparr> bd_routeNames := rev (map rt_Name (md_Routes m)) @ bd_routeNames b2, bd_methodPaths := paths,
      bd_patterns := bd_patterns b2 @ route_patterns m (md_Routes m),
      bd_routes := bd_routes b2 @ compiled_routes (length ms) m 0 (md_Routes m),
      bd_routeInfos := bd_routeInfos b2 @ map (route_info m) (md_Routes m) \<rparr>"
    "list_all (route_ok m) (md_Routes m)" "pattern_inv b3"
    "distinct (bd_routeNames b2) \<longrightarrow> distinct (rev (map rt_Name (md_Routes m)) @ bd_routeNames b2)" by blast
  have ok: "module_ok m" using auth owners routes by (simp add: module_ok_def)
  have inv: "pattern_inv b'" using routes(3) by (simp add: b')
  have prefixes: "nb_prefix ` set (module_namespaces (length ms) m) = set (md_NamespacePrefixes m)"
    by (metis list.set_map module_prefixes)
  show ?thesis
    using assms(1) name owners fallback routes ok inv prefixes
    by (simp add: built_def b' image_Un Int_commute)
qed

lemma built_new [simp]: "built [] new_build"
  by (simp add: built_def new_build_def pattern_inv_def)

lemma add_modules_built: "built done_ms b \<Longrightarrow> add_modules (length done_ms) ms b = Inr b' \<Longrightarrow> built (done_ms @ ms) b'"
proof (induction ms arbitrary: done_ms b)
  case (Cons m ms)
  then obtain b1 where "add_module (length done_ms) m b = Inr b1" "add_modules (Suc (length done_ms)) ms b1 = Inr b'"
    by (auto split: sum.splits)
  with Cons.IH [of "done_ms @ [m]" b1] add_module_built [OF Cons.prems(1)] show ?case by simp
qed simp

end
