(* ===== verification/Http_Route_Theorems.thy ===== *)
theory Http_Route_Theorems
  imports Http_Route_Properties "HOL-Library.Multiset"
begin

text \<open>
  The promises of the route registry: the namespace that answers for a path belongs to the module whose
  routes take paths there, a bound route runs the authenticator of its owner before its handlers, a static
  path is not taken over by a wildcard route, and the answer to a wrong method does not depend on the order
  in which a map is visited.
\<close>

section \<open>The accepted registry\<close>

lemma NewRegistry_Inr:
  assumes "NewRegistry refuses ms = Inr r"
  shows "rg_modules r = ms" and "rg_routes r = all_routes ms" and "rg_routeInfos r = all_infos ms"
    and "rg_namespaces r = sort_namespaces (all_namespaces ms)" and "rg_bound r = False"
    and "validateNamespaceOwnership ms (all_routes ms) (rg_namespaces r) = None"
    and "\<not> refuses (all_patterns ms)" and "list_all module_ok ms" and "distinct (all_patterns ms)"
    and "distinct (map nb_prefix (all_namespaces ms))" and "distinct (all_route_names ms)" and "distinct (map md_Name ms)"
    and "rg_fallback r = Some f \<Longrightarrow> validateFallback f = None"
proof -
  obtain b where b: "add_modules 0 ms new_build = Inr b"
    and own: "validateNamespaceOwnership (bd_modules b) (bd_routes b) (sort_namespaces (bd_namespaces b)) = None"
    and gin: "validateGinPatterns refuses (bd_patterns b) = None"
    and r: "r = \<lparr> rg_modules = bd_modules b, rg_routes = bd_routes b, rg_routeInfos = bd_routeInfos b,
      rg_namespaces = sort_namespaces (bd_namespaces b), rg_fallback = bd_fallback b, rg_runtime = [], rg_bound = False \<rparr>"
    using assms by (auto simp: NewRegistry_def Let_def split: sum.splits option.splits)
  have built: "built ms b" using add_modules_built [of "[]" new_build ms b] b by simp
  show "rg_modules r = ms" and "rg_routes r = all_routes ms" and "rg_routeInfos r = all_infos ms"
    and "rg_namespaces r = sort_namespaces (all_namespaces ms)" and "rg_bound r = False"
    and "list_all module_ok ms" and "distinct (map nb_prefix (all_namespaces ms))"
    and "distinct (all_route_names ms)" and "distinct (map md_Name ms)"
    using built by (simp_all add: r built_def)
  show "validateNamespaceOwnership ms (all_routes ms) (rg_namespaces r) = None"
    using own built by (simp add: r built_def)
  show "\<not> refuses (all_patterns ms)"
    using gin built by (simp add: built_def validateGinPatterns_def split: if_splits)
  show "distinct (all_patterns ms)" using built by (auto simp: built_def pattern_inv_def)
  show "validateFallback f = None" if "rg_fallback r = Some f" using built that by (simp add: r built_def)
qed

lemma in_enumerate: "(i, x) \<in> set (enumerate 0 xs) \<longleftrightarrow> i < length xs \<and> x = xs ! i"
  by (auto simp: in_set_enumerate_eq)

lemma in_all_routes:
  "c \<in> set (all_routes ms) \<longleftrightarrow> cr_moduleIndex c < length ms
    \<and> cr_routeIndex c < length (md_Routes (ms ! cr_moduleIndex c))
    \<and> cr_path c = md_Prefix (ms ! cr_moduleIndex c) @ rt_Path (md_Routes (ms ! cr_moduleIndex c) ! cr_routeIndex c)"
  unfolding all_routes_def compiled_routes_def
  by (cases c) (force simp: in_enumerate)

lemma in_all_namespaces:
  "n \<in> set (all_namespaces ms) \<Longrightarrow> nb_moduleIndex n < length ms \<and> nb_prefix n \<in> set (md_NamespacePrefixes (ms ! nb_moduleIndex n))"
  unfolding all_namespaces_def module_namespaces_def by (auto simp: in_enumerate)

lemma set_sort_namespaces [simp]: "set (sort_namespaces ns) = set ns"
  by (simp add: sort_namespaces_def)

lemma namespace_valid:
  "list_all module_ok ms \<Longrightarrow> n \<in> set (all_namespaces ms) \<Longrightarrow> validateStaticPrefix (nb_prefix n) True = None"
  using in_all_namespaces by (fastforce simp: list_all_iff module_ok_def)

lemma module_of: "list_all module_ok ms \<Longrightarrow> i < length ms \<Longrightarrow> module_ok (ms ! i)"
  by (simp add: list_all_length)

lemma route_pattern_valid:
  assumes "list_all module_ok ms" and "c \<in> set (all_routes ms)"
  shows "validateRoutePattern (cr_path c) = None"
  using assms module_of [of ms "cr_moduleIndex c"] by (auto simp: in_all_routes module_ok_def list_all_length route_ok_def)

lemma ownership_None:
  "validateNamespaceOwnership ms rs ns = None \<Longrightarrow> c \<in> set rs \<Longrightarrow> n \<in> set ns \<Longrightarrow> \<not> intrudes ns c n"
  by (induction ms rs ns rule: validateNamespaceOwnership.induct) (auto simp: find_None_iff split: option.splits)

text \<open>The first namespace of the sorted list that holds a path is the longest one.\<close>

lemma find_sorted_key:
  "sorted (map f xs) \<Longrightarrow> find P xs = Some x \<Longrightarrow> y \<in> set xs \<Longrightarrow> P y \<Longrightarrow> f x \<le> f y"
  by (induction xs) (auto split: if_splits)

lemma first_namespace_longest:
  assumes "find (\<lambda>n. namespaceMatches (nb_prefix n) path) (sort_namespaces ns) = Some n"
    and "m \<in> set ns" and "namespaceMatches (nb_prefix m) path"
  shows "length (nb_prefix m) \<le> length (nb_prefix n)"
  using find_sorted_key [OF _ assms(1), of "\<lambda>n. - int (length (nb_prefix n))" m] assms(2,3)
  by (simp add: sort_namespaces_def)

lemma first_namespace_owner:
  assumes new: "NewRegistry refuses ms = Inr r" and c: "c \<in> set (rg_routes r)"
    and path: "matchPattern (cr_path c) path = Some True"
    and n: "find (\<lambda>n. namespaceMatches (nb_prefix n) path) (rg_namespaces r) = Some n"
  shows "nb_moduleIndex n = cr_moduleIndex c"
proof (rule ccontr)
  assume foreign: "nb_moduleIndex n \<noteq> cr_moduleIndex c"
  note r = NewRegistry_Inr [OF new]
  have nin: "n \<in> set (all_namespaces ms)" and matches: "namespaceMatches (nb_prefix n) path"
    using find_SomeD [OF n] by (simp_all add: r(4))
  have "patternIntersectsNamespace (cr_path c) (nb_prefix n)"
    by (rule matched_intersects [OF path matches namespace_valid [OF r(8) nin]])
  moreover have "\<not> intrudes (rg_namespaces r) c n"
    using ownership_None [OF r(6)] c nin by (simp add: r(2,4))
  ultimately have "routeIsInsideLongerOwnedNamespace c n (rg_namespaces r)"
    using foreign by (simp add: intrudes_def)
  then obtain own where own: "own \<in> set (all_namespaces ms)" "length (nb_prefix n) < length (nb_prefix own)"
    "namespaceContainsPattern (nb_prefix own) (cr_path c)"
    by (auto simp: routeIsInsideLongerOwnedNamespace_def list_ex_iff r(4))
  have "namespaceMatches (nb_prefix own) path"
    by (rule contained_matches [OF path own(3) namespace_valid [OF r(8) own(1)]])
  then have "length (nb_prefix own) \<le> length (nb_prefix n)"
    using first_namespace_longest n own(1) by (simp add: r(4))
  with own(2) show False by simp
qed

section \<open>The bound registry\<close>

lemma declared_some:
  assumes "NewRegistry refuses ms = Inr r" and "c \<in> set (rg_routes r)"
  shows "declared_route r c = Some (ms ! cr_moduleIndex c, md_Routes (ms ! cr_moduleIndex c) ! cr_routeIndex c, c)"
  using assms(2) by (auto simp: NewRegistry_Inr(1,2) [OF assms(1)] in_all_routes declared_route_def at_def)

definition declarations :: "('q, 'h) Module list \<Rightarrow> (('q, 'h) Module \<times> ('q, 'h) Route \<times> compiledRoute) list" where
  "declarations ms = map (\<lambda>c. (ms ! cr_moduleIndex c, md_Routes (ms ! cr_moduleIndex c) ! cr_routeIndex c, c)) (all_routes ms)"

lemma those_map_some: "(\<And>x. x \<in> set xs \<Longrightarrow> f x = Some (g x)) \<Longrightarrow> those (map f xs) = Some (map g xs)"
  by (induction xs) auto

lemma those_declared:
  assumes "NewRegistry refuses ms = Inr r"
  shows "those (map (declared_route r) (rg_routes r)) = Some (declarations ms)"
  using those_map_some [OF declared_some [OF assms]] by (simp add: declarations_def NewRegistry_Inr(2) [OF assms])

lemma static_owners_total:
  "validateRoutePattern p = None \<Longrightarrow> static_owners p k rs owners \<noteq> None"
  by (induction p k rs owners rule: static_owners.induct)
    (auto split: option.splits bool.splits dest: matchPattern_total)

lemma guard_total: "validateRoutePattern p = None \<Longrightarrow> staticPathOwnershipGuard p routes \<noteq> None"
  using static_owners_total by (auto simp: staticPathOwnershipGuard_def split: option.splits)

lemma length_routeHandlers: "length (routeHandlers m r guard) = routeChainLength m r (guard \<noteq> None)"
  by (auto simp: routeHandlers_def routeChainLength_def split: option.splits)

lemma route_guards_Inr:
  "route_guards middleware routes ds = Inr guards \<Longrightarrow>
    list_all2 (\<lambda>(m, r, c) guard. staticPathOwnershipGuard (cr_path c) routes = Some guard
      \<and> middleware + length (routeHandlers m r guard) < ginMaximumHandlerChainLength) ds guards"
proof (induction middleware routes ds arbitrary: guards rule: route_guards.induct)
  case (2 middleware routes m r c rest)
  then show ?case
    by (auto simp: length_routeHandlers Let_def map_sum_def split: option.splits if_splits sum.splits)
qed simp

lemma route_guards_no_panic:
  fixes ds :: "(('q, 'h) Module \<times> ('q, 'h) Route \<times> compiledRoute) list"
  assumes "\<And>m r c. (m, r, c) \<in> set ds \<Longrightarrow> validateRoutePattern (cr_path c) = None"
  shows "route_guards middleware routes ds \<noteq> Inl RoutePanic"
  using assms
proof (induction ds)
  case (Cons d ds)
  obtain m r c where d: "d = (m, r, c)" by (cases d)
  then have "validateRoutePattern (cr_path c) = None" using Cons.prems by (metis list.set_intros(1))
  then have "(staticPathOwnershipGuard (cr_path c) routes :: ('q, 'h) item option option) \<noteq> None" by (rule guard_total)
  then obtain guard :: "('q, 'h) item option" where "staticPathOwnershipGuard (cr_path c) routes = Some guard" by blast
  moreover have "route_guards middleware routes ds \<noteq> Inl RoutePanic" using Cons by (meson list.set_intros(2))
  ultimately show ?case by (cases "route_guards middleware routes ds") (auto simp: d Let_def)
qed simp

lemma Bind_Inr:
  assumes new: "NewRegistry refuses ms = Inr r" and bind: "Bind refuses (Some r) (Some e) = Inr (r', e')"
  shows "rg_modules r' = ms" and "rg_namespaces r' = rg_namespaces r" and "rg_fallback r' = rg_fallback r"
    and "rg_routes r' = rg_routes r" and "rg_runtime r' = map runtime_route (declarations ms)" and "rg_bound r'"
    and "\<exists>guards. en_Routes e' = concat (map2 bound_routes (declarations ms) guards)
      \<and> list_all2 (\<lambda>(m, r, c) guard. staticPathOwnershipGuard (cr_path c) (rg_runtime r') = Some guard
        \<and> length (en_Handlers e) + length (routeHandlers m r guard) < ginMaximumHandlerChainLength) (declarations ms) guards"
proof -
  obtain guards where guards: "route_guards (length (en_Handlers e)) (map runtime_route (declarations ms)) (declarations ms) = Inr guards"
    and r': "r' = r\<lparr> rg_runtime := map runtime_route (declarations ms), rg_bound := True \<rparr>"
    and e': "en_Routes e' = concat (map2 bound_routes (declarations ms) guards)"
    using bind those_declared [OF new] by (auto simp: Bind_def split: option.splits if_splits sum.splits)
  show "rg_modules r' = ms" and "rg_namespaces r' = rg_namespaces r" and "rg_fallback r' = rg_fallback r"
    and "rg_routes r' = rg_routes r" and runtime: "rg_runtime r' = map runtime_route (declarations ms)" and "rg_bound r'"
    by (simp_all add: r' NewRegistry_Inr [OF new])
  show "\<exists>guards. en_Routes e' = concat (map2 bound_routes (declarations ms) guards)
      \<and> list_all2 (\<lambda>(m, r, c) guard. staticPathOwnershipGuard (cr_path c) (rg_runtime r') = Some guard
        \<and> length (en_Handlers e) + length (routeHandlers m r guard) < ginMaximumHandlerChainLength) (declarations ms) guards"
    using e' route_guards_Inr [OF guards] by (auto simp: runtime)
qed

lemma bound_patterns:
  "list_all2 P ds guards \<Longrightarrow>
    map (\<lambda>(method, path, chain). (method, path)) (concat (map2 bound_routes ds guards)) = concat (map declared_patterns ds)"
  by (induction rule: list_all2_induct) (auto simp: bound_routes_def declared_patterns_def)

lemma concat_map_concat: "concat (map f (concat xss)) = concat (map (\<lambda>xs. concat (map f xs)) xss)"
  by (induction xss) auto

lemma map_enumerate: "map (\<lambda>(j, x). f x) (enumerate n xs) = map f xs"
  by (induction xs arbitrary: n) auto

lemma declared_all_patterns: "concat (map declared_patterns (declarations ms)) = all_patterns ms"
proof -
  let ?pats = "\<lambda>c. map (\<lambda>method. (method, cr_path c)) (rt_Methods (md_Routes (ms ! cr_moduleIndex c) ! cr_routeIndex c))"
  have "concat (map ?pats (compiled_routes i m 0 (md_Routes m))) = route_patterns m (md_Routes m)"
    if "(i, m) \<in> set (enumerate 0 ms)" for i m
  proof -
    have m: "m = ms ! i" using that by (simp add: in_enumerate)
    have "map ?pats (compiled_routes i m 0 (md_Routes m))
      = map (\<lambda>(j, r). map (\<lambda>method. (method, md_Prefix m @ rt_Path r)) (rt_Methods r)) (enumerate 0 (md_Routes m))"
      by (auto simp: compiled_routes_def m in_enumerate)
    also have "\<dots> = map (\<lambda>r. map (\<lambda>method. (method, md_Prefix m @ rt_Path r)) (rt_Methods r)) (md_Routes m)"
      by (rule map_enumerate)
    finally show ?thesis by (simp add: route_patterns_def)
  qed
  then have "map (\<lambda>(i, m). concat (map ?pats (compiled_routes i m 0 (md_Routes m)))) (enumerate 0 ms)
    = map (\<lambda>(i, m). route_patterns m (md_Routes m)) (enumerate 0 ms)" by auto
  also have "\<dots> = map (\<lambda>m. route_patterns m (md_Routes m)) ms" by (rule map_enumerate)
  finally have all: "map (\<lambda>(i, m). concat (map ?pats (compiled_routes i m 0 (md_Routes m)))) (enumerate 0 ms)
    = map (\<lambda>m. route_patterns m (md_Routes m)) ms" by simp
  have "concat (map declared_patterns (declarations ms)) = concat (map ?pats (all_routes ms))"
    by (simp add: declarations_def declared_patterns_def comp_def)
  also have "\<dots> = concat (map (\<lambda>(i, m). concat (map ?pats (compiled_routes i m 0 (md_Routes m)))) (enumerate 0 ms))"
    by (simp add: all_routes_def concat_map_concat comp_def split_def)
  finally show ?thesis using all by (simp add: all_patterns_def)
qed

section \<open>The guard\<close>

text \<open>The static routes that own a path which the pattern would take as well.\<close>

definition owner_indexes :: "string \<Rightarrow> nat \<Rightarrow> 'q runtimeRoute list \<Rightarrow> string \<Rightarrow> nat list" where
  "owner_indexes p k routes q = (if q \<noteq> p \<and> isStaticRoutePattern q \<and> matchPattern p q = Some True
     then map fst (filter (\<lambda>(i, r). rr_path r = q) (enumerate k routes)) else [])"

lemma owner_indexes_simps [simp]:
  "owner_indexes p k [] q = []"
  "owner_indexes p k (r # rs) q = (if rr_path r = q \<and> q \<noteq> p \<and> isStaticRoutePattern q \<and> matchPattern p q = Some True
     then [k] else []) @ owner_indexes p (Suc k) rs q"
  by (auto simp: owner_indexes_def)

lemma static_owners_Some:
  "static_owners p k rs owners = Some owners' \<Longrightarrow> map_of owners' q =
    (case map_of owners q of Some l \<Rightarrow> Some (l @ owner_indexes p k rs q)
     | None \<Rightarrow> if owner_indexes p k rs q = [] then None else Some (owner_indexes p k rs q))"
proof (induction rs arbitrary: k owners)
  case (Cons r rs)
  show ?case
  proof (cases "rr_path r = p \<or> \<not> isStaticRoutePattern (rr_path r)")
    case True
    with Cons.prems have "static_owners p (Suc k) rs owners = Some owners'" by simp
    from Cons.IH [OF this] True show ?thesis by (auto split: option.splits)
  next
    case False
    with Cons.prems obtain hit where hit: "matchPattern p (rr_path r) = Some hit" by (auto split: option.splits)
    show ?thesis
    proof (cases hit)
      case True
      let ?l = "case map_of owners (rr_path r) of None \<Rightarrow> [] | Some l \<Rightarrow> l"
      have "static_owners p (Suc k) rs (AList.update (rr_path r) (?l @ [k]) owners) = Some owners'"
        using Cons.prems False hit True by simp
      from Cons.IH [OF this] show ?thesis using False hit True by (auto split: option.splits)
    next
      case miss: False
      with Cons.prems False hit have "static_owners p (Suc k) rs owners = Some owners'" by simp
      from Cons.IH [OF this] hit miss show ?thesis by (auto split: option.splits)
    qed
  qed
qed (simp split: option.splits)

lemma filter_enumerate: "map snd (filter (\<lambda>(i, r). P r) (enumerate k rs)) = filter P rs"
  by (induction rs arbitrary: k) auto

lemma owner_routes:
  "map (\<lambda>i. routes ! i) (owner_indexes p 0 routes q) =
    (if q \<noteq> p \<and> isStaticRoutePattern q \<and> matchPattern p q = Some True then filter (\<lambda>r. rr_path r = q) routes else [])"
proof -
  have "map (\<lambda>i. routes ! i) (map fst (filter (\<lambda>(i, r). rr_path r = q) (enumerate 0 routes)))
    = map snd (filter (\<lambda>(i, r). rr_path r = q) (enumerate 0 routes))"
    by (auto simp: in_enumerate)
  then show ?thesis by (simp add: owner_indexes_def filter_enumerate)
qed

lemma runtime_ok:
  assumes "list_all module_ok ms" and "route \<in> set (map runtime_route (declarations ms))"
  shows "rr_moduleIndex route < length ms \<and> rr_methods route \<noteq> [] \<and> validateRoutePattern (rr_path route) = None"
proof -
  obtain c where c: "c \<in> set (all_routes ms)" and route: "route = runtime_route (ms ! cr_moduleIndex c, md_Routes (ms ! cr_moduleIndex c) ! cr_routeIndex c, c)"
    using assms(2) by (auto simp: declarations_def)
  have "route_ok (ms ! cr_moduleIndex c) (md_Routes (ms ! cr_moduleIndex c) ! cr_routeIndex c)"
    using c module_of [OF assms(1)] by (auto simp: in_all_routes module_ok_def list_all_length)
  with c route_pattern_valid [OF assms(1) c] show ?thesis
    by (auto simp: route runtime_route_def in_all_routes route_ok_def validateRoute_def split: if_splits)
qed

text \<open>The guard refuses exactly the methods that no static route of the path takes.\<close>

lemma guard_refuses:
  assumes guard: "staticPathOwnershipGuard p routes = Some guard"
    and p: "rq_Path req \<noteq> p" "isStaticRoutePattern (rq_Path req)" "matchPattern p (rq_Path req) = Some True"
    and route: "route \<in> set routes" "rr_path route = rq_Path req" "valid_for req route"
    and others: "\<forall>r \<in> set routes. rr_path r = rq_Path req \<and> valid_for req r \<longrightarrow> rq_Method req \<notin> set (rr_methods r)"
    and ok: "\<And>r. r \<in> set routes \<Longrightarrow> rr_moduleIndex r < length ms \<and> rr_methods r \<noteq> []"
  shows "\<exists>item h. guard = Some item \<and> run_item ms item req =
    Some (Terminal 405 (Some (Join '', '' (sorted_list_of_set {m. \<exists>r \<in> set routes. rr_path r = rq_Path req \<and> valid_for req r \<and> m \<in> set (rr_methods r)}))) h)"
proof -
  obtain owners where owners: "static_owners p 0 routes [] = Some owners"
    and g: "guard = (if owners = [] then None else Some (Guard owners routes))"
    using guard by (auto simp: staticPathOwnershipGuard_def split: option.splits)
  let ?is = "owner_indexes p 0 routes (rq_Path req)"
  have found: "map (\<lambda>i. routes ! i) ?is = filter (\<lambda>r. rr_path r = rq_Path req) routes" using p by (simp add: owner_routes)
  then have "?is \<noteq> []" using route by (metis (mono_tags, lifting) filter_empty_conv list.map_disc_iff)
  then have lookup: "map_of owners (rq_Path req) = Some ?is" using static_owners_Some [OF owners] by simp
  let ?valid = "filter (valid_for req) (filter (\<lambda>r. rr_path r = rq_Path req) routes)"
  have rin: "route \<in> set ?valid" using route by simp
  then have hd: "hd ?valid \<in> set routes" by (metis empty_iff empty_set filter_is_subset hd_in_set subset_iff)
  let ?allowed = "remdups (concat (map rr_methods ?valid))"
  have "rr_methods route \<noteq> []" using ok route by blast
  with rin have ne: "?allowed \<noteq> []" by auto
  have fresh: "rq_Method req \<notin> set ?allowed" using others by auto
  have set: "set ?allowed = {m. \<exists>r \<in> set routes. rr_path r = rq_Path req \<and> valid_for req r \<and> m \<in> set (rr_methods r)}" by auto
  have "sort ?allowed = sorted_list_of_set (set ?allowed)" by (metis remdups_remdups sorted_list_of_set_sort_remdups)
  then have header: "allow_header ?allowed = Join '', '' (sorted_list_of_set (set ?allowed))" by (simp add: allow_header_def)
  have "run_guard ms owners routes req = Some (Terminal 405 (Some (allow_header ?allowed)) (md_MethodNotAllowed (ms ! rr_moduleIndex (hd ?valid))))"
    unfolding run_guard_def lookup Let_def found option.case using ne fresh ok [OF hd] by (simp add: at_def)
  moreover have "owners \<noteq> []" using lookup by auto
  ultimately show ?thesis using header set by (auto simp: g run_item_def)
qed

section \<open>Wrong methods\<close>

definition path_matches :: "'q runtimeRoute list \<Rightarrow> string \<Rightarrow> nat \<Rightarrow> bool" where
  "path_matches routes path i \<longleftrightarrow> matchPattern (rr_path (routes ! i)) path = Some True"

abbreviation rank_of :: "'q runtimeRoute list \<Rightarrow> nat \<Rightarrow> nat list" where
  "rank_of routes i \<equiv> pattern_rank (rr_path (routes ! i))"

text \<open>Among the first \<open>n\<close> routes, the most specific one that takes the path with the method, the first of equals.\<close>

definition best_for :: "'q runtimeRoute list \<Rightarrow> string list \<Rightarrow> string \<Rightarrow> nat \<Rightarrow> string \<Rightarrow> nat \<Rightarrow> bool" where
  "best_for routes allow path n m i \<longleftrightarrow> i < n \<and> m \<in> set allow \<and> path_matches routes path i \<and> m \<in> set (rr_methods (routes ! i))
     \<and> (\<forall>j < n. path_matches routes path j \<and> m \<in> set (rr_methods (routes ! j)) \<longrightarrow>
          rank_of routes j < rank_of routes i \<or> rank_of routes j = rank_of routes i \<and> i \<le> j)"

lemma fold_best_method:
  "map_of (fold (best_method routes allow k) ms best) m =
    (if m \<in> set ms \<and> m \<in> set allow \<and> (map_of best m = None \<or> moreSpecific (rr_path (routes ! k)) routes (map_of best m))
     then Some k else map_of best m)"
  by (induction ms arbitrary: best) (auto simp: best_method_def moreSpecific_rank)

lemma wf_best_method: "wf_map best \<Longrightarrow> wf_map (fold (best_method routes allow k) ms best)"
  by (induction ms arbitrary: best) (auto simp: best_method_def)

definition best_inv :: "'q runtimeRoute list \<Rightarrow> string list \<Rightarrow> string \<Rightarrow> nat \<Rightarrow> (string, nat) gomap \<Rightarrow> bool" where
  "best_inv routes allow path n best \<longleftrightarrow> wf_map best \<and> (\<forall>m.
     case map_of best m of
       None \<Rightarrow> \<forall>j < n. \<not> (path_matches routes path j \<and> m \<in> set (rr_methods (routes ! j)) \<and> m \<in> set allow)
     | Some i \<Rightarrow> best_for routes allow path n m i)"

lemma best_inv_None:
  "best_inv routes allow path n best \<Longrightarrow> map_of best m = None \<Longrightarrow>
    \<forall>j < n. \<not> (path_matches routes path j \<and> m \<in> set (rr_methods (routes ! j)) \<and> m \<in> set allow)"
  unfolding best_inv_def by (metis (no_types, lifting) option.case(1))

lemma best_inv_Some: "best_inv routes allow path n best \<Longrightarrow> map_of best m = Some i \<Longrightarrow> best_for routes allow path n m i"
  unfolding best_inv_def by (metis (no_types, lifting) option.case(2))

lemma best_for_skip:
  "best_for routes allow path n m i \<Longrightarrow> \<not> (path_matches routes path n \<and> m \<in> set (rr_methods (routes ! n))) \<Longrightarrow>
    best_for routes allow path (Suc n) m i"
  by (auto simp: best_for_def less_Suc_eq)

lemma best_for_keep:
  "best_for routes allow path n m i \<Longrightarrow> rank_of routes n \<le> rank_of routes i \<Longrightarrow> best_for routes allow path (Suc n) m i"
  by (auto simp: best_for_def less_Suc_eq)

lemma best_for_replace:
  assumes "best_for routes allow path n m i" and "rank_of routes i < rank_of routes n"
    and "path_matches routes path n" and "m \<in> set (rr_methods (routes ! n))"
  shows "best_for routes allow path (Suc n) m n"
  using assms unfolding best_for_def less_Suc_eq by (metis order_less_trans order_refl less_irrefl)

lemma best_inv_skip:
  assumes inv: "best_inv routes allow path n best" and n: "\<not> path_matches routes path n"
  shows "best_inv routes allow path (Suc n) best"
  using best_inv_None [OF inv] best_for_skip [OF best_inv_Some [OF inv]] inv n
  unfolding best_inv_def by (auto simp: less_Suc_eq split: option.split)

lemma best_inv_take:
  assumes inv: "best_inv routes allow path n best" and n: "path_matches routes path n"
  shows "best_inv routes allow path (Suc n) (fold (best_method routes allow n) (rr_methods (routes ! n)) best)"
proof -
  let ?best = "fold (best_method routes allow n) (rr_methods (routes ! n)) best"
  have "case map_of ?best m of
      None \<Rightarrow> \<forall>j < Suc n. \<not> (path_matches routes path j \<and> m \<in> set (rr_methods (routes ! j)) \<and> m \<in> set allow)
    | Some i \<Rightarrow> best_for routes allow path (Suc n) m i" for m
  proof (cases "map_of best m")
    case None
    with best_inv_None [OF inv None] n show ?thesis by (auto simp: fold_best_method best_for_def less_Suc_eq)
  next
    case (Some i)
    then have i: "best_for routes allow path n m i" by (rule best_inv_Some [OF inv])
    show ?thesis
    proof (cases "m \<in> set (rr_methods (routes ! n)) \<and> rank_of routes i < rank_of routes n")
      case True
      moreover have "m \<in> set allow" using i by (simp add: best_for_def)
      ultimately show ?thesis using best_for_replace [OF i _ n] Some by (simp add: fold_best_method moreSpecific_rank)
    next
      case False
      then have "best_for routes allow path (Suc n) m i" using best_for_skip [OF i] best_for_keep [OF i] by fastforce
      with False Some show ?thesis by (auto simp: fold_best_method moreSpecific_rank)
    qed
  qed
  then show ?thesis using inv by (auto simp: best_inv_def wf_best_method)
qed

lemma best_routes_inv:
  assumes "\<And>i. i < length routes \<Longrightarrow> matchPattern (rr_path (routes ! i)) path \<noteq> None"
    and "n + k = length routes" and "best_inv routes allow path n best" and "\<forall>i. raw = Some i \<longrightarrow> i < length routes"
  shows "\<exists>raw' best'. best_routes routes allow path [n..<n + k] (raw, best) = Some (raw', best')
    \<and> best_inv routes allow path (n + k) best' \<and> (\<forall>i. raw' = Some i \<longrightarrow> i < length routes)"
  using assms(2-)
proof (induction k arbitrary: n raw best)
  case (Suc k)
  then have n: "n < length routes" by simp
  then obtain hit where hit: "matchPattern (rr_path (routes ! n)) path = Some hit" using assms(1) by blast
  have upt: "[n..<n + Suc k] = n # [Suc n..<Suc n + k]" by (simp add: upt_rec)
  show ?case
  proof (cases hit)
    case True
    then have "path_matches routes path n" using hit by (simp add: path_matches_def)
    from Suc.IH [OF _ best_inv_take [OF Suc.prems(2) this], of "if moreSpecific (rr_path (routes ! n)) routes raw then Some n else raw"]
    show ?thesis using Suc.prems n hit True unfolding upt by (auto simp del: upt_Suc)
  next
    case False
    then have "\<not> path_matches routes path n" using hit by (simp add: path_matches_def)
    from Suc.IH [OF _ best_inv_skip [OF Suc.prems(2) this], of raw] show ?thesis using Suc.prems hit False unfolding upt by (auto simp del: upt_Suc)
  qed
qed simp

lemma best_for_unique: "best_for routes allow path n m i \<Longrightarrow> best_for routes allow path n m j \<Longrightarrow> i = j"
  unfolding best_for_def by (metis le_antisym less_asym less_irrefl)

lemma best_inv_iff: "best_inv routes allow path n best \<Longrightarrow> map_of best m = Some i \<longleftrightarrow> best_for routes allow path n m i"
proof
  assume inv: "best_inv routes allow path n best" and best: "best_for routes allow path n m i"
  show "map_of best m = Some i"
  proof (cases "map_of best m")
    case None
    with best_inv_None [OF inv None] best show ?thesis by (auto simp: best_for_def)
  next
    case (Some j)
    with best_for_unique [OF best_inv_Some [OF inv Some] best] show ?thesis by simp
  qed
qed (rule best_inv_Some)

lemma best_semantic_max:
  "best_semantic routes entries b = Some s \<Longrightarrow>
    (s \<in> snd ` set entries \<or> b = Some s) \<and> (\<forall>(m, i) \<in> set entries. rank_of routes i \<le> rank_of routes s)
    \<and> (\<forall>i. b = Some i \<longrightarrow> rank_of routes i \<le> rank_of routes s)"
proof (induction entries arbitrary: b)
  case (Cons e entries)
  obtain m i where e: "e = (m, i)" by (cases e)
  let ?b = "if moreSpecific (rr_path (routes ! i)) routes b then Some i else b"
  have IH: "s \<in> snd ` set entries \<or> ?b = Some s" "\<forall>(m, i) \<in> set entries. rank_of routes i \<le> rank_of routes s"
    "\<forall>i. ?b = Some i \<longrightarrow> rank_of routes i \<le> rank_of routes s"
    using Cons.IH [of ?b] Cons.prems by (simp_all add: e)
  have "rank_of routes i \<le> rank_of routes s \<and> (\<forall>j. b = Some j \<longrightarrow> rank_of routes j \<le> rank_of routes s)"
    using IH(3) by (cases b) (auto simp: moreSpecific_rank split: if_splits)
  with IH show ?case by (auto simp: e split: if_splits)
qed auto

lemma best_semantic_some: "entries \<noteq> [] \<or> b \<noteq> None \<Longrightarrow> best_semantic routes entries b \<noteq> None"
proof (induction entries arbitrary: b)
  case (Cons e entries)
  then show ?case by (cases e; cases b) (simp_all add: moreSpecific_rank)
qed simp

text \<open>The methods that the answer names: their best route accepts the request and no accepting one is more specific.\<close>

definition allowed_methods :: "'q runtimeRoute list \<Rightarrow> string list \<Rightarrow> 'q request \<Rightarrow> string set" where
  "allowed_methods routes allow req =
     {m. \<exists>i. best_for routes allow (rq_Path req) (length routes) m i \<and> valid_for req (routes ! i)
        \<and> (\<forall>m' j. best_for routes allow (rq_Path req) (length routes) m' j \<and> valid_for req (routes ! j) \<longrightarrow> rank_of routes j \<le> rank_of routes i)}"

text \<open>A route whose handler may answer: the best of an allowed method.\<close>

definition answers_for :: "'q runtimeRoute list \<Rightarrow> string list \<Rightarrow> 'q request \<Rightarrow> nat \<Rightarrow> bool" where
  "answers_for routes allow req i \<longleftrightarrow> (\<exists>m \<in> allowed_methods routes allow req. best_for routes allow (rq_Path req) (length routes) m i)"

lemma semantic_allowed:
  assumes inv: "best_inv routes allow (rq_Path req) (length routes) best" and perm: "mset entries = mset best"
  defines "valid \<equiv> filter (\<lambda>(m, i). valid_for req (routes ! i)) entries"
  defines "s \<equiv> best_semantic routes valid None"
  defines "allowed \<equiv> map fst (filter (\<lambda>(m, i). \<not> (case s of None \<Rightarrow> False | Some j \<Rightarrow> moreSpecific (rr_path (routes ! j)) routes (Some i))) valid)"
  shows "distinct allowed" and "set allowed = allowed_methods routes allow req"
    and "allowed \<noteq> [] \<Longrightarrow> \<exists>i. s = Some i \<and> answers_for routes allow req i"
proof -
  have entries: "(m, i) \<in> set entries \<longleftrightarrow> best_for routes allow (rq_Path req) (length routes) m i" for m i
    using best_inv_iff [OF inv, of m i] inv mset_eq_setD [OF perm] by (simp add: best_inv_def)
  have "distinct (map fst entries)"
    using inv perm by (metis (no_types, lifting) best_inv_def mset_eq_imp_distinct_iff mset_map)
  then have "distinct (map fst valid)" by (simp add: valid_def distinct_map_filter)
  then show "distinct allowed" by (simp add: allowed_def distinct_map_filter)
  have valid: "(m, i) \<in> set valid \<longleftrightarrow> best_for routes allow (rq_Path req) (length routes) m i \<and> valid_for req (routes ! i)" for m i
    by (auto simp: valid_def entries)
  have top: "\<exists>i. s = Some i \<and> (\<exists>m. (m, i) \<in> set valid) \<and> (\<forall>(m, j) \<in> set valid. rank_of routes j \<le> rank_of routes i)" if ne: "valid \<noteq> []"
  proof -
    obtain i where "s = Some i" using best_semantic_some [of valid None routes] ne by (auto simp: s_def)
    with best_semantic_max [of routes valid None i] show ?thesis by (force simp: s_def)
  qed
  show set: "set allowed = allowed_methods routes allow req"
  proof (cases "valid = []")
    case True
    then have "\<not> (best_for routes allow (rq_Path req) (length routes) m i \<and> valid_for req (routes ! i))" for m i
      using valid [of m i] by simp
    with True show ?thesis by (auto simp: allowed_def allowed_methods_def)
  next
    case False
    then obtain i where i: "s = Some i" "\<exists>m. (m, i) \<in> set valid" "\<forall>(m, j) \<in> set valid. rank_of routes j \<le> rank_of routes i"
      using top by blast
    obtain m0 where m0: "(m0, i) \<in> set valid" using i(2) by blast
    have "m \<in> set allowed \<longleftrightarrow> (\<exists>j. (m, j) \<in> set valid \<and> rank_of routes i \<le> rank_of routes j)" for m
      by (force simp: allowed_def i(1) moreSpecific_rank not_less)
    moreover have "rank_of routes i \<le> rank_of routes j \<longleftrightarrow> (\<forall>m' k. (m', k) \<in> set valid \<longrightarrow> rank_of routes k \<le> rank_of routes j)" for j
    proof
      assume "rank_of routes i \<le> rank_of routes j"
      with i(3) show "\<forall>m' k. (m', k) \<in> set valid \<longrightarrow> rank_of routes k \<le> rank_of routes j" by (auto intro: order_trans)
    qed (use m0 in blast)
    ultimately show ?thesis by (auto simp: allowed_methods_def valid)
  qed
  assume "allowed \<noteq> []"
  then have "valid \<noteq> []" by (auto simp: allowed_def)
  then obtain i m where i: "s = Some i" "(m, i) \<in> set valid" "\<forall>(m, j) \<in> set valid. rank_of routes j \<le> rank_of routes i"
    using top by blast
  have "\<forall>m' j. (m', j) \<in> set valid \<longrightarrow> rank_of routes j \<le> rank_of routes i" using i(3) by auto
  then have "m \<in> allowed_methods routes allow req"
    using i(2) unfolding allowed_methods_def mem_Collect_eq valid by blast
  with i valid show "\<exists>i. s = Some i \<and> answers_for routes allow req i" by (auto simp: answers_for_def)
qed

lemma handleNoRoute_total:
  assumes new: "NewRegistry refuses ms = Inr r" and same: "rg_modules r' = rg_modules r" "rg_namespaces r' = rg_namespaces r"
    "rg_fallback r' = rg_fallback r"
  shows "\<exists>h. handleNoRoute r' req = Some (Terminal 404 None h)"
proof (cases "find (\<lambda>n. namespaceMatches (nb_prefix n) (rq_Path req)) (rg_namespaces r)")
  case None
  then show ?thesis using NewRegistry_Inr(13) [OF new]
    by (auto simp: handleNoRoute_def same validateFallback_def split: option.splits if_splits)
next
  case (Some n)
  then have "nb_moduleIndex n < length ms"
    using in_all_namespaces find_SomeD [OF Some] by (auto simp: NewRegistry_Inr(4) [OF new])
  with Some show ?thesis by (auto simp: handleNoRoute_def same at_def NewRegistry_Inr(1) [OF new])
qed

lemma guard_item: "staticPathOwnershipGuard p routes = Some (Some item) \<Longrightarrow> \<exists>owners. item = Guard owners routes"
  by (auto simp: staticPathOwnershipGuard_def split: option.splits if_splits)

lemma auth_shape:
  assumes "validateOwnerAuth m = None" and "staticPathOwnershipGuard p routes = Some guard"
  shows "\<exists>checks auth. routeHandlers m route guard = checks @ map Handler (md_BeforeAuth m @ rt_Prepare route) @ auth @ map Handler (rt_Handlers route)
    \<and> (\<forall>h. Handler h \<notin> set checks)
    \<and> (if md_Owner m \<in> {OwnerControl, OwnerData} then \<exists>a. md_Authenticate m = Some a \<and> auth = [Handler (Some a)] else auth = [])"
proof -
  let ?checks = "(case guard of None \<Rightarrow> [] | Some g \<Rightarrow> [g])
    @ (case rt_PathValidator route of None \<Rightarrow> [] | Some validator \<Rightarrow> [Validator validator (md_NotFound m)])"
  let ?auth = "case md_Authenticate m of None \<Rightarrow> [] | Some a \<Rightarrow> [Handler (Some a)]"
  have "Handler h \<notin> set ?checks" for h
    using guard_item assms(2) by (auto split: option.splits)
  moreover have "if md_Owner m \<in> {OwnerControl, OwnerData} then \<exists>a. md_Authenticate m = Some a \<and> ?auth = [Handler (Some a)] else ?auth = []"
    using assms(1) by (auto simp: validateOwnerAuth_def Let_def OwnerSystem_def OwnerControl_def OwnerData_def OwnerWeb_def
        AuthNone_def AuthControl_def AuthAccessKey_def split: if_splits option.splits)
  ultimately show ?thesis
    by (intro exI [of _ ?checks] exI [of _ ?auth]) (simp add: routeHandlers_def)
qed

section \<open>Properties\<close>

definition sample_refuses :: "routePattern list \<Rightarrow> bool" where
  "sample_refuses patterns \<longleftrightarrow> \<not> distinct patterns"

definition sample_web :: "(unit, string) Module" where
  "sample_web = \<lparr> md_Name = ''web'', md_Owner = OwnerWeb, md_Auth = AuthNone, md_Prefix = [],
     md_NamespacePrefixes = [], md_BeforeAuth = [], md_Authenticate = None, md_Routes = [],
     md_NotFound = None, md_MethodNotAllowed = None,
     md_Fallback = Some \<lparr> fb_Name = ''page'', fb_Match = Some (\<lambda>req. True), fb_Handler = Some ''page'' \<rparr> \<rparr>"

definition sample_api :: "(unit, string) Module" where
  "sample_api = \<lparr> md_Name = ''api'', md_Owner = OwnerControl, md_Auth = AuthControl, md_Prefix = ''/api'',
     md_NamespacePrefixes = [''/api''], md_BeforeAuth = [Some ''log''], md_Authenticate = Some ''login'',
     md_Routes =
       [\<lparr> rt_Name = ''item'', rt_Methods = [''GET'', ''PUT''], rt_Path = ''/items/:id'', rt_PathValidator = None,
          rt_Prepare = [], rt_Handlers = [Some ''item''] \<rparr>,
        \<lparr> rt_Name = ''new'', rt_Methods = [''POST''], rt_Path = ''/items/new'', rt_PathValidator = None,
          rt_Prepare = [], rt_Handlers = [Some ''new''] \<rparr>],
     md_NotFound = Some ''missing'', md_MethodNotAllowed = Some ''method'', md_Fallback = None \<rparr>"

definition sample_registry :: "(unit, string) Registry" where
  "sample_registry = (case NewRegistry sample_refuses [sample_web, sample_api] of Inr r \<Rightarrow> r)"

definition sample_engine :: "(unit, string) engine" where
  "sample_engine = \<lparr> en_Handlers = [''recover''], en_Routes = [], en_HandleMethodNotAllowed = False, en_NoRoute = False, en_NoMethod = False \<rparr>"

definition sample_bound :: "(unit, string) Registry \<times> (unit, string) engine" where
  "sample_bound = (case Bind sample_refuses (Some sample_registry) (Some sample_engine) of Inr p \<Rightarrow> p)"

lemma sample_new: "NewRegistry sample_refuses [sample_web, sample_api] = Inr sample_registry"
proof -
  have "\<not> isl (NewRegistry sample_refuses [sample_web, sample_api])" by code_simp
  then show ?thesis by (auto simp: sample_registry_def split: sum.split)
qed

lemma sample_bind: "Bind sample_refuses (Some sample_registry) (Some sample_engine) = Inr sample_bound"
proof -
  have "\<not> isl (Bind sample_refuses (Some sample_registry) (Some sample_engine))" by code_simp
  then show ?thesis by (auto simp: sample_bound_def split: sum.split)
qed

text \<open>Property C23. Whatever path a registered route takes, the namespace that answers for the path when no
  route takes the request belongs to the module of that route: an accepted registry never lets a module
  answer inside a namespace of another one.\<close>

theorem namespace_belongs_to_route:
  assumes "NewRegistry refuses ms = Inr r" and "Bind refuses (Some r) (Some e) = Inr (r', e')"
    and "c \<in> set (rg_routes r')" and "matchPattern (cr_path c) (rq_Path req) = Some True"
    and "list_ex (\<lambda>n. namespaceMatches (nb_prefix n) (rq_Path req)) (rg_namespaces r')"
  shows "handleNoRoute r' req = Some (Terminal 404 None (md_NotFound (ms ! cr_moduleIndex c)))"
proof -
  note b = Bind_Inr [OF assms(1,2)]
  obtain n where n: "find (\<lambda>n. namespaceMatches (nb_prefix n) (rq_Path req)) (rg_namespaces r) = Some n"
    using assms(5) by (cases "find (\<lambda>n. namespaceMatches (nb_prefix n) (rq_Path req)) (rg_namespaces r)")
      (auto simp: b(2) find_None_iff list_ex_iff)
  have c: "c \<in> set (rg_routes r)" using assms(3) by (simp add: b(4))
  have "nb_moduleIndex n = cr_moduleIndex c" by (rule first_namespace_owner [OF assms(1) c assms(4) n])
  moreover have "cr_moduleIndex c < length ms" using c by (simp add: NewRegistry_Inr(2) [OF assms(1)] in_all_routes)
  ultimately show ?thesis using n by (simp add: handleNoRoute_def b(1,2) at_def)
qed

definition sample_request :: "string \<Rightarrow> unit request" where
  "sample_request method = \<lparr> rq_Method = method, rq_Path = ''/api/items/new'', rq_Rest = () \<rparr>"

lemma namespace_belongs_to_route_witness:
  "handleNoRoute (fst sample_bound) (sample_request ''GET'') = Some (Terminal 404 None (Some ''missing''))"
proof -
  let ?c = "\<lparr> cr_moduleIndex = 1, cr_routeIndex = 0, cr_path = ''/api/items/:id'' \<rparr>"
  have bind: "Bind sample_refuses (Some sample_registry) (Some sample_engine) = Inr (fst sample_bound, snd sample_bound)"
    using sample_bind by simp
  have "?c \<in> set (rg_routes (fst sample_bound))" by code_simp
  moreover have "matchPattern (cr_path ?c) (rq_Path (sample_request ''GET'')) = Some True" by code_simp
  moreover have "list_ex (\<lambda>n. namespaceMatches (nb_prefix n) (rq_Path (sample_request ''GET''))) (rg_namespaces (fst sample_bound))"
    by code_simp
  ultimately have "handleNoRoute (fst sample_bound) (sample_request ''GET'')
    = Some (Terminal 404 None (md_NotFound ([sample_web, sample_api] ! cr_moduleIndex ?c)))"
    by (rule namespace_belongs_to_route [OF sample_new bind])
  then show ?thesis by (simp add: sample_api_def)
qed

text \<open>Property C24. Binding an accepted registry gives the engine exactly the declared methods and paths, each
  once, with chains the engine can hold; and every handler of a route whose owner demands a login comes
  after the authenticator of its module.\<close>

theorem bound_routes_authenticated:
  assumes "NewRegistry refuses ms = Inr r" and "Bind refuses (Some r) (Some e) = Inr (r', e')"
  shows "map (\<lambda>(method, path, chain). (method, path)) (en_Routes e') = all_patterns ms \<and> distinct (all_patterns ms)
    \<and> (\<forall>(method, path, chain) \<in> set (en_Routes e').
        length (en_Handlers e) + length chain < ginMaximumHandlerChainLength
        \<and> (\<exists>m \<in> set ms. \<exists>route \<in> set (md_Routes m). method \<in> set (rt_Methods route) \<and> path = md_Prefix m @ rt_Path route
            \<and> (\<exists>checks auth. chain = checks @ map Handler (md_BeforeAuth m @ rt_Prepare route) @ auth @ map Handler (rt_Handlers route)
                \<and> (\<forall>h. Handler h \<notin> set checks)
                \<and> (if md_Owner m \<in> {OwnerControl, OwnerData} then \<exists>a. md_Authenticate m = Some a \<and> auth = [Handler (Some a)]
                   else auth = []))))"
proof -
  obtain guards where routes: "en_Routes e' = concat (map2 bound_routes (declarations ms) guards)"
    and guards: "list_all2 (\<lambda>(m, r, c) guard. staticPathOwnershipGuard (cr_path c) (rg_runtime r') = Some guard
      \<and> length (en_Handlers e) + length (routeHandlers m r guard) < ginMaximumHandlerChainLength) (declarations ms) guards"
    using Bind_Inr(7) [OF assms] by blast
  have "length (en_Handlers e) + length chain < ginMaximumHandlerChainLength
      \<and> (\<exists>m \<in> set ms. \<exists>route \<in> set (md_Routes m). verb \<in> set (rt_Methods route) \<and> path = md_Prefix m @ rt_Path route
        \<and> (\<exists>checks auth. chain = checks @ map Handler (md_BeforeAuth m @ rt_Prepare route) @ auth @ map Handler (rt_Handlers route)
            \<and> (\<forall>h. Handler h \<notin> set checks)
            \<and> (if md_Owner m \<in> {OwnerControl, OwnerData} then \<exists>a. md_Authenticate m = Some a \<and> auth = [Handler (Some a)]
               else auth = [])))"
    if "(verb, path, chain) \<in> set (en_Routes e')" for verb path chain
  proof -
    obtain d guard where dg: "(d, guard) \<in> set (zip (declarations ms) guards)" "(verb, path, chain) \<in> set (bound_routes d guard)"
      using \<open>(verb, path, chain) \<in> set (en_Routes e')\<close> by (auto simp: routes)
    obtain m route c where d: "d = (m, route, c)" by (cases d)
    have c: "c \<in> set (all_routes ms)" "m = ms ! cr_moduleIndex c" "route = md_Routes m ! cr_routeIndex c"
      using set_zip_leftD [OF dg(1)] by (auto simp: declarations_def d)
    then have m: "m \<in> set ms" "route \<in> set (md_Routes m)" "cr_path c = md_Prefix m @ rt_Path route" by (auto simp: in_all_routes)
    have auth: "validateOwnerAuth m = None"
      using NewRegistry_Inr(8) [OF assms(1)] m(1) by (simp add: list_all_iff module_ok_def)
    have guard: "staticPathOwnershipGuard (cr_path c) (rg_runtime r') = Some guard"
      "length (en_Handlers e) + length (routeHandlers m route guard) < ginMaximumHandlerChainLength"
      using guards dg(1) by (auto simp: d list_all2_iff)
    have bound: "verb \<in> set (rt_Methods route)" "path = cr_path c" "chain = routeHandlers m route guard"
      using dg(2) by (auto simp: bound_routes_def d)
    show ?thesis using m bound guard auth_shape [OF auth guard(1)] by blast
  qed
  moreover have "map (\<lambda>(method, path, chain). (method, path)) (en_Routes e') = all_patterns ms"
    unfolding routes bound_patterns [OF guards] by (rule declared_all_patterns)
  ultimately show ?thesis using NewRegistry_Inr(9) [OF assms(1)] by blast
qed

definition sample_chain :: "(unit, string) item list" where
  "sample_chain = (case en_Routes (snd sample_bound) of (method, path, chain) # rest \<Rightarrow> chain)"

lemma bound_routes_authenticated_witness:
  "map (\<lambda>(method, path, chain). (method, path)) (en_Routes (snd sample_bound)) = all_patterns [sample_web, sample_api]
    \<and> length (en_Routes (snd sample_bound)) = 3"
proof -
  have bind: "Bind sample_refuses (Some sample_registry) (Some sample_engine) = Inr (fst sample_bound, snd sample_bound)"
    using sample_bind by simp
  have "length (en_Routes (snd sample_bound)) = 3" by code_simp
  then show ?thesis using bound_routes_authenticated [OF sample_new bind] by blast
qed

text \<open>Property C40. A wildcard route does not take over the path of a static one: where a static route with the path
  of the request accepts it, and no static route of the path takes the method, the first handler in the chain
  of the wildcard route refuses the request and names exactly the methods of the static routes.\<close>

theorem static_route_keeps_its_path:
  assumes "NewRegistry refuses ms = Inr r" and "Bind refuses (Some r) (Some e) = Inr (r', e')"
    and "(method, pattern, chain) \<in> set (en_Routes e')"
    and "matchPattern pattern (rq_Path req) = Some True" and "rq_Path req \<noteq> pattern" and "isStaticRoutePattern (rq_Path req)"
    and "route \<in> set (rg_runtime r')" and "rr_path route = rq_Path req" and "valid_for req route"
    and "\<forall>other \<in> set (rg_runtime r'). rr_path other = rq_Path req \<and> valid_for req other \<longrightarrow> rq_Method req \<notin> set (rr_methods other)"
  shows "\<exists>h. run_item (rg_modules r') (hd chain) req = Some (Terminal 405 (Some (Join '', '' (sorted_list_of_set
    {m. \<exists>other \<in> set (rg_runtime r'). rr_path other = rq_Path req \<and> valid_for req other \<and> m \<in> set (rr_methods other)}))) h)"
proof -
  note b = Bind_Inr [OF assms(1,2)]
  obtain guards where routes: "en_Routes e' = concat (map2 bound_routes (declarations ms) guards)"
    and guards: "list_all2 (\<lambda>(m, r, c) guard. staticPathOwnershipGuard (cr_path c) (rg_runtime r') = Some guard
      \<and> length (en_Handlers e) + length (routeHandlers m r guard) < ginMaximumHandlerChainLength) (declarations ms) guards"
    using b(7) by blast
  obtain d guard where dg: "(d, guard) \<in> set (zip (declarations ms) guards)" "(method, pattern, chain) \<in> set (bound_routes d guard)"
    using assms(3) by (auto simp: routes)
  obtain m rt c where d: "d = (m, rt, c)" by (cases d)
  have guard: "staticPathOwnershipGuard pattern (rg_runtime r') = Some guard" and chain: "chain = routeHandlers m rt guard"
    using guards dg by (auto simp: d list_all2_iff bound_routes_def)
  have ok: "rr_moduleIndex other < length ms \<and> rr_methods other \<noteq> []" if "other \<in> set (rg_runtime r')" for other
    using runtime_ok [OF NewRegistry_Inr(8) [OF assms(1)]] that by (simp add: b(5))
  obtain item h where "guard = Some item" "run_item ms item req = Some (Terminal 405 (Some (Join '', '' (sorted_list_of_set
    {m. \<exists>other \<in> set (rg_runtime r'). rr_path other = rq_Path req \<and> valid_for req other \<and> m \<in> set (rr_methods other)}))) h)"
    using guard_refuses [OF guard assms(5,6,4,7,8,9,10) ok] by blast
  then show ?thesis by (auto simp: chain routeHandlers_def b(1))
qed

lemma static_route_keeps_its_path_witness:
  "\<exists>h. run_item (rg_modules (fst sample_bound)) (hd sample_chain) (sample_request ''GET'') =
    Some (Terminal 405 (Some (Join '', '' (sorted_list_of_set
      {m. \<exists>other \<in> set (rg_runtime (fst sample_bound)). rr_path other = rq_Path (sample_request ''GET'')
        \<and> valid_for (sample_request ''GET'') other \<and> m \<in> set (rr_methods other)}))) h)"
proof -
  let ?route = "rg_runtime (fst sample_bound) ! 1"
  have bind: "Bind sample_refuses (Some sample_registry) (Some sample_engine) = Inr (fst sample_bound, snd sample_bound)"
    using sample_bind by simp
  have "length (rg_runtime (fst sample_bound)) = 2" by code_simp
  then have route: "?route \<in> set (rg_runtime (fst sample_bound))" by simp
  have "case en_Routes (snd sample_bound) of (method, path, chain) # rest \<Rightarrow> method = ''GET'' \<and> path = ''/api/items/:id'' | [] \<Rightarrow> False"
    by code_simp
  then have first: "(''GET'', ''/api/items/:id'', sample_chain) \<in> set (en_Routes (snd sample_bound))"
    by (auto simp: sample_chain_def split: list.splits prod.splits)
  have others: "list_all (\<lambda>other. rr_path other = rq_Path (sample_request ''GET'') \<and> valid_for (sample_request ''GET'') other
    \<longrightarrow> rq_Method (sample_request ''GET'') \<notin> set (rr_methods other)) (rg_runtime (fst sample_bound))" by code_simp
  have facts: "matchPattern ''/api/items/:id'' (rq_Path (sample_request ''GET'')) = Some True"
    "rq_Path (sample_request ''GET'') \<noteq> ''/api/items/:id''" "isStaticRoutePattern (rq_Path (sample_request ''GET''))"
    "rr_path ?route = rq_Path (sample_request ''GET'')" "valid_for (sample_request ''GET'') ?route"
    by code_simp+
  show ?thesis
    by (rule static_route_keeps_its_path [OF sample_new bind first facts(1-3) route facts(4,5)])
      (use others in \<open>simp add: list_all_iff\<close>)
qed



text \<open>
  The handler of the answer, unlike its header, may depend on the order of the map: where two modules share
  a path with different methods, either one's handler may be called.
\<close>

definition shared_path :: "string \<Rightarrow> string \<Rightarrow> (unit, string) Module" where
  "shared_path name method = \<lparr> md_Name = name, md_Owner = OwnerSystem, md_Auth = AuthNone, md_Prefix = [],
     md_NamespacePrefixes = [], md_BeforeAuth = [], md_Authenticate = None,
     md_Routes = [\<lparr> rt_Name = name, rt_Methods = [method], rt_Path = ''/shared'', rt_PathValidator = None,
        rt_Prepare = [], rt_Handlers = [Some name] \<rparr>],
     md_NotFound = None, md_MethodNotAllowed = Some name, md_Fallback = None \<rparr>"

definition shared_answer :: "((string \<times> nat) list \<Rightarrow> (string \<times> nat) list) \<Rightarrow> string option" where
  "shared_answer arrange =
     (case NewRegistry sample_refuses [shared_path ''left'' ''GET'', shared_path ''right'' ''POST''] of
        Inl err \<Rightarrow> None
      | Inr r \<Rightarrow> (case Bind sample_refuses (Some r) (Some sample_engine) of
          Inl err \<Rightarrow> None
        | Inr (r', e') \<Rightarrow> Option.bind (handleNoMethod arrange r' ''GET, POST'' \<lparr> rq_Method = ''PUT'', rq_Path = ''/shared'', rq_Rest = () \<rparr>) an_handler))"

lemma shared_path_answer_depends_on_order:
  "shared_answer (\<lambda>entries. entries) = Some ''left''" "shared_answer rev = Some ''right''"
  by code_simp+

end
