(* ===== verification/Usage_Aggregation.thy ===== *)
theory Usage_Aggregation
  imports Pricing_Quote "HOL-Library.List_Lexorder" "HOL-Library.Product_Lexorder" "HOL-Library.Char_ord"
begin

text \<open>
  The batch writer of the request log (\<open>internal/requestlog/worker.go\<close>): the rows that are new, the journal entry
  each of them makes, the hourly statistics per key, and the transaction that stores rows and journals and adds
  the journals to the statistics.

  The database is an explicit store with one component per table; the columns that the writer only stores are
  left out, and the identity and the counters of a statistics row or of a journal entry are grouped as the
  source's \<open>usageStatKey\<close> and \<open>usageStatDelta\<close> group them. A statement fails where the argument \<open>fault\<close> says so, or
  where a primary key is violated; a transaction with a failed statement leaves the store as it was.
\<close>

section \<open>Tables\<close>

record RequestLogAttempt =
  la_RequestID :: string
  la_Sequence :: int
  la_CompletedAtMS :: int
  la_CredentialID :: nat
  la_DispatchState :: string
  la_FailureCategory :: string

record RequestLog =
  lg_ID :: string
  lg_CompletedAtMS :: int
  lg_AccessKeyID :: nat
  lg_GroupID :: nat
  lg_ChannelID :: string
  lg_CredentialID :: nat
  lg_UpstreamModel :: string
  lg_Status :: string
  lg_AttemptCount :: int
  lg_UncachedInputTokens :: int
  lg_OutputTokens :: int
  lg_CacheReadTokens :: int
  lg_CacheWrite5MTokens :: int
  lg_CacheWrite1HTokens :: int
  lg_CacheWriteUnknownTokens :: int
  lg_EstimatedCostNanoUSD :: int
  lg_UsageState :: State
  lg_CostState :: CostState
  lg_PricingCompleteness :: Completeness
  lg_AttemptRows :: "RequestLogAttempt list"

record usageStatKey =
  uk_BucketStartMS :: int
  uk_AccessKeyID :: nat
  uk_ChannelID :: string
  uk_GroupID :: nat
  uk_CredentialID :: nat
  uk_Model :: string

record usageStatDelta =
  ud_RequestCount :: int
  ud_SuccessCount :: int
  ud_FailureCount :: int
  ud_UncachedInputTokens :: int
  ud_OutputTokens :: int
  ud_CacheReadTokens :: int
  ud_CacheWrite5MTokens :: int
  ud_CacheWrite1HTokens :: int
  ud_CacheWriteUnknownTokens :: int
  ud_EstimatedCostNanoUSD :: int
  ud_UsageMissingCount :: int
  ud_PartialCount :: int
  ud_UnpricedRequestCount :: int
  ud_PricingPartialCount :: int

record UsageAggregationJournal =
  jn_RequestID :: string
  jn_key :: usageStatKey
  jn_delta :: usageStatDelta
  jn_Applied :: bool

type_synonym credentialAttemptStatKey = "nat \<times> int"

record credentialAttemptStatDelta =
  cd_SuccessCount :: int
  cd_FailureCount :: int

record database =
  db_logs :: "RequestLog list"
  db_attempts :: "RequestLogAttempt list"
  db_journals :: "UsageAggregationJournal list"
  db_stats :: "(usageStatKey, usageStatDelta) gomap"
  db_attemptStats :: "(credentialAttemptStatKey, credentialAttemptStatDelta) gomap"

datatype statement =
    QueryIDs | StageJournals | InsertLogs | InsertAttempts | QueryJournals
  | QueryAttemptStats | UpsertAttemptStat | QueryStats | UpsertStat | MarkApplied | Transaction

datatype write_error =
    NilDatabase | StatementFailed statement | DuplicateKey statement
  | CompletionTime string | AttemptCompletionTime | AdditionFailed string | TotalFailed string
  | InvalidStatus string string | InvalidUsageState string State
  | NegativeTokens | TokenOverflow | InvalidCost | InvalidPricing | InRow string write_error
  | UnexpectedDeltas string | ZeroCredential | InvalidCategory string | CorruptAttemptStat | MarkedRows nat nat

definition zero_delta :: usageStatDelta where
  "zero_delta = \<lparr> ud_RequestCount = 0, ud_SuccessCount = 0, ud_FailureCount = 0, ud_UncachedInputTokens = 0,
     ud_OutputTokens = 0, ud_CacheReadTokens = 0, ud_CacheWrite5MTokens = 0, ud_CacheWrite1HTokens = 0,
     ud_CacheWriteUnknownTokens = 0, ud_EstimatedCostNanoUSD = 0, ud_UsageMissingCount = 0, ud_PartialCount = 0,
     ud_UnpricedRequestCount = 0, ud_PricingPartialCount = 0 \<rparr>"

definition empty_database :: database where
  "empty_database = \<lparr> db_logs = [], db_attempts = [], db_journals = [], db_stats = [], db_attemptStats = [] \<rparr>"

section \<open>Checked sums\<close>

text \<open>Sequencing of steps of which each may fail.\<close>

definition andThen :: "'e + 'a \<Rightarrow> ('a \<Rightarrow> 'e + 'b) \<Rightarrow> 'e + 'b" where
  "andThen x f = (case x of Inl e \<Rightarrow> Inl e | Inr a \<Rightarrow> f a)"

definition MillisecondsPerHour :: int where
  "MillisecondsPerHour = 3600000"

definition AlignDown :: "int \<Rightarrow> int \<Rightarrow> int option" where
  "AlignDown value width = (if value < 0 then None else if width \<le> 0 then None else Some (value - value mod width))"

definition checkedInt64Add :: "int \<Rightarrow> int \<Rightarrow> string \<Rightarrow> write_error + int" where
  "checkedInt64Add target value field =
     (case CheckedAdd target value of None \<Rightarrow> Inl (AdditionFailed field) | Some t \<Rightarrow> Inr t)"

text \<open>The counters of a statistics row in the order of the source's tables, the cost last.\<close>

definition count_names :: "string list" where
  "count_names = [''request_count'', ''success_count'', ''failure_count'', ''uncached_input_tokens'', ''output_tokens'',
     ''cache_read_tokens'', ''cache_write_5m_tokens'', ''cache_write_1h_tokens'', ''cache_write_unknown_tokens'',
     ''usage_missing_count'', ''partial_count'', ''unpriced_request_count'', ''pricing_partial_count'']"

definition delta_counts :: "usageStatDelta \<Rightarrow> int list" where
  "delta_counts d = [ud_RequestCount d, ud_SuccessCount d, ud_FailureCount d, ud_UncachedInputTokens d, ud_OutputTokens d,
     ud_CacheReadTokens d, ud_CacheWrite5MTokens d, ud_CacheWrite1HTokens d, ud_CacheWriteUnknownTokens d,
     ud_UsageMissingCount d, ud_PartialCount d, ud_UnpricedRequestCount d, ud_PricingPartialCount d]"

definition delta_fields :: "usageStatDelta \<Rightarrow> int list" where
  "delta_fields d = delta_counts d @ [ud_EstimatedCostNanoUSD d]"

fun delta_of :: "int list \<Rightarrow> int \<Rightarrow> usageStatDelta" where
  "delta_of [a, b, c, d, e, f, g, h, i, j, k, l, m] cost =
     \<lparr> ud_RequestCount = a, ud_SuccessCount = b, ud_FailureCount = c, ud_UncachedInputTokens = d, ud_OutputTokens = e,
       ud_CacheReadTokens = f, ud_CacheWrite5MTokens = g, ud_CacheWrite1HTokens = h, ud_CacheWriteUnknownTokens = i,
       ud_EstimatedCostNanoUSD = cost, ud_UsageMissingCount = j, ud_PartialCount = k, ud_UnpricedRequestCount = l,
       ud_PricingPartialCount = m \<rparr>"
| "delta_of counts cost = zero_delta"

fun add_counts :: "(string \<Rightarrow> write_error) \<Rightarrow> string list \<Rightarrow> int list \<Rightarrow> int list \<Rightarrow> write_error + int list" where
  "add_counts err (name # names) (l # ls) (r # rs) =
     (case CheckedAdd l r of
        None \<Rightarrow> Inl (err name)
      | Some t \<Rightarrow> andThen (add_counts err names ls rs) (\<lambda>ts. Inr (t # ts)))"
| "add_counts err names ls rs = Inr []"

definition add_delta :: "(string \<Rightarrow> write_error) \<Rightarrow> usageStatDelta \<Rightarrow> usageStatDelta \<Rightarrow> write_error + usageStatDelta" where
  "add_delta err left right =
     andThen (add_counts err count_names (delta_counts left) (delta_counts right)) (\<lambda>counts.
       case CheckedAddNanoUSD (ud_EstimatedCostNanoUSD left) (ud_EstimatedCostNanoUSD right) of
         None \<Rightarrow> Inl (err ''estimated_cost_nano_usd'')
       | Some cost \<Rightarrow> Inr (delta_of counts cost))"

definition checkedUsageStatTotal :: "usageStatDelta \<Rightarrow> usageStatDelta \<Rightarrow> write_error + usageStatDelta" where
  "checkedUsageStatTotal existing delta = add_delta TotalFailed existing delta"

section \<open>Journals\<close>

definition validateFrozenPricingState :: "State \<Rightarrow> CostState \<Rightarrow> Completeness \<Rightarrow> int \<Rightarrow> write_error option" where
  "validateFrozenPricingState usageState costState completeness cost =
     (if cost < 0 then Some InvalidCost
      else case usageState of
        StateNotApplicable \<Rightarrow>
          if costState \<noteq> CostStateNotApplicable \<or> completeness \<noteq> CompletenessNotApplicable \<or> cost \<noteq> 0 then Some InvalidPricing else None
      | StateMissing \<Rightarrow>
          if costState \<noteq> CostStateUnpriced \<or> completeness \<noteq> CompletenessUnavailable \<or> cost \<noteq> 0 then Some InvalidPricing else None
      | State_other other \<Rightarrow> Some InvalidPricing
      | billable \<Rightarrow>
          (case costState of
             CostStateUnpriced \<Rightarrow> if completeness \<noteq> CompletenessUnavailable \<or> cost \<noteq> 0 then Some InvalidPricing else None
           | CostStatePriced \<Rightarrow>
               if completeness \<noteq> CompletenessComplete \<and> completeness \<noteq> CompletenessPartial then Some InvalidPricing else None
           | other \<Rightarrow> Some InvalidPricing))"

definition row_tokens :: "RequestLog \<Rightarrow> Tokens" where
  "row_tokens row = \<lparr> tk_UncachedInput = lg_UncachedInputTokens row, tk_CacheRead = lg_CacheReadTokens row,
     tk_CacheWrite5M = lg_CacheWrite5MTokens row, tk_CacheWrite1H = lg_CacheWrite1HTokens row,
     tk_CacheWriteUnknown = lg_CacheWriteUnknownTokens row, tk_Output = lg_OutputTokens row \<rparr>"

definition validatePersistedPricingState :: "RequestLog \<Rightarrow> write_error option" where
  "validatePersistedPricingState row =
     (if list_ex (\<lambda>value. value < 0) [lg_UncachedInputTokens row, lg_OutputTokens row, lg_CacheReadTokens row,
          lg_CacheWrite5MTokens row, lg_CacheWrite1HTokens row, lg_CacheWriteUnknownTokens row] then Some NegativeTokens
      else if CheckedTotal (row_tokens row) = None then Some TokenOverflow
      else validateFrozenPricingState (lg_UsageState row) (lg_CostState row) (lg_PricingCompleteness row) (lg_EstimatedCostNanoUSD row))"

definition add_outcome :: "RequestLog \<Rightarrow> usageStatDelta \<Rightarrow> write_error + usageStatDelta" where
  "add_outcome row d =
     (if lg_Status row = ''success'' then
        andThen (checkedInt64Add (ud_SuccessCount d) 1 ''success_count'') (\<lambda>n. Inr (d\<lparr> ud_SuccessCount := n \<rparr>))
      else if lg_Status row \<in> {''error'', ''incomplete'', ''canceled''} then
        andThen (checkedInt64Add (ud_FailureCount d) 1 ''failure_count'') (\<lambda>n. Inr (d\<lparr> ud_FailureCount := n \<rparr>))
      else Inl (InvalidStatus (lg_ID row) (lg_Status row)))"

definition add_usage_state :: "RequestLog \<Rightarrow> usageStatDelta \<Rightarrow> write_error + usageStatDelta" where
  "add_usage_state row d =
     (case lg_UsageState row of
        StateMissing \<Rightarrow> andThen (checkedInt64Add (ud_UsageMissingCount d) 1 ''usage_missing_count'') (\<lambda>n. Inr (d\<lparr> ud_UsageMissingCount := n \<rparr>))
      | StatePartial \<Rightarrow> andThen (checkedInt64Add (ud_PartialCount d) 1 ''partial_count'') (\<lambda>n. Inr (d\<lparr> ud_PartialCount := n \<rparr>))
      | State_other other \<Rightarrow> Inl (InvalidUsageState (lg_ID row) (State_other other))
      | valid \<Rightarrow> Inr d)"

definition billable_row :: "RequestLog \<Rightarrow> bool" where
  "billable_row row \<longleftrightarrow> lg_UsageState row = StateComplete \<or> lg_UsageState row = StatePartial"

definition add_pricing_state :: "RequestLog \<Rightarrow> usageStatDelta \<Rightarrow> write_error + usageStatDelta" where
  "add_pricing_state row d =
     andThen (if billable_row row \<and> lg_CostState row = CostStateUnpriced
        then andThen (checkedInt64Add (ud_UnpricedRequestCount d) 1 ''unpriced_request_count'') (\<lambda>n. Inr (d\<lparr> ud_UnpricedRequestCount := n \<rparr>))
        else Inr d) (\<lambda>d.
     if lg_CostState row = CostStatePriced \<and> lg_PricingCompleteness row = CompletenessPartial
     then andThen (checkedInt64Add (ud_PricingPartialCount d) 1 ''pricing_partial_count'') (\<lambda>n. Inr (d\<lparr> ud_PricingPartialCount := n \<rparr>))
     else Inr d)"

definition add_tokens :: "RequestLog \<Rightarrow> usageStatDelta \<Rightarrow> write_error + usageStatDelta" where
  "add_tokens row d =
     andThen (checkedInt64Add (ud_UncachedInputTokens d) (lg_UncachedInputTokens row) ''uncached_input_tokens'') (\<lambda>a.
     andThen (checkedInt64Add (ud_OutputTokens d) (lg_OutputTokens row) ''output_tokens'') (\<lambda>b.
     andThen (checkedInt64Add (ud_CacheReadTokens d) (lg_CacheReadTokens row) ''cache_read_tokens'') (\<lambda>c.
     andThen (checkedInt64Add (ud_CacheWrite5MTokens d) (lg_CacheWrite5MTokens row) ''cache_write_5m_tokens'') (\<lambda>e.
     andThen (checkedInt64Add (ud_CacheWrite1HTokens d) (lg_CacheWrite1HTokens row) ''cache_write_1h_tokens'') (\<lambda>f.
     andThen (checkedInt64Add (ud_CacheWriteUnknownTokens d) (lg_CacheWriteUnknownTokens row) ''cache_write_unknown_tokens'') (\<lambda>g.
     Inr (d\<lparr> ud_UncachedInputTokens := a, ud_OutputTokens := b, ud_CacheReadTokens := c, ud_CacheWrite5MTokens := e,
       ud_CacheWrite1HTokens := f, ud_CacheWriteUnknownTokens := g \<rparr>)))))))"

definition addRow :: "RequestLog \<Rightarrow> usageStatDelta \<Rightarrow> write_error + usageStatDelta" where
  "addRow row delta =
     andThen (checkedInt64Add (ud_RequestCount delta) 1 ''request_count'') (\<lambda>n.
     andThen (add_outcome row (delta\<lparr> ud_RequestCount := n \<rparr>)) (\<lambda>d.
     andThen (add_usage_state row d) (\<lambda>d.
     andThen (add_pricing_state row d) (\<lambda>d.
     case validatePersistedPricingState row of Some e \<Rightarrow> Inl (InRow (lg_ID row) e)
     | None \<Rightarrow>
     if \<not> billable_row row then Inr d
     else andThen (add_tokens row d) (\<lambda>d.
     if lg_CostState row \<noteq> CostStatePriced then Inr d
     else case CheckedAddNanoUSD (ud_EstimatedCostNanoUSD d) (lg_EstimatedCostNanoUSD row) of
            None \<Rightarrow> Inl (AdditionFailed ''estimated_cost_nano_usd'')
          | Some cost \<Rightarrow> Inr (d\<lparr> ud_EstimatedCostNanoUSD := cost \<rparr>))))))"

definition row_key :: "int \<Rightarrow> RequestLog \<Rightarrow> usageStatKey" where
  "row_key bucketStartMS row =
     \<lparr> uk_BucketStartMS = bucketStartMS, uk_AccessKeyID = lg_AccessKeyID row, uk_ChannelID = lg_ChannelID row,
       uk_GroupID = lg_GroupID row, uk_CredentialID = lg_CredentialID row, uk_Model = lg_UpstreamModel row \<rparr>"

definition delta_at :: "(usageStatKey, usageStatDelta) gomap \<Rightarrow> usageStatKey \<Rightarrow> usageStatDelta" where
  "delta_at m key = (case map_of m key of None \<Rightarrow> zero_delta | Some d \<Rightarrow> d)"

fun stat_deltas :: "RequestLog list \<Rightarrow> (usageStatKey, usageStatDelta) gomap \<Rightarrow> write_error + (usageStatKey, usageStatDelta) gomap" where
  "stat_deltas [] deltas = Inr deltas"
| "stat_deltas (row # rows) deltas =
     (case AlignDown (lg_CompletedAtMS row) MillisecondsPerHour of
        None \<Rightarrow> Inl (CompletionTime (lg_ID row))
      | Some bucket \<Rightarrow>
          andThen (addRow row (delta_at deltas (row_key bucket row))) (\<lambda>d.
            stat_deltas rows (AList.update (row_key bucket row) d deltas)))"

definition buildUsageStatDeltas :: "RequestLog list \<Rightarrow> write_error + (usageStatKey, usageStatDelta) gomap" where
  "buildUsageStatDeltas rows = stat_deltas rows []"

fun buildUsageAggregationJournals :: "RequestLog list \<Rightarrow> write_error + UsageAggregationJournal list" where
  "buildUsageAggregationJournals [] = Inr []"
| "buildUsageAggregationJournals (row # rows) =
     (if lg_AttemptCount row = 0 then buildUsageAggregationJournals rows
      else andThen (buildUsageStatDeltas [row]) (\<lambda>deltas.
        if length deltas \<noteq> 1 then Inl (UnexpectedDeltas (lg_ID row))
        else andThen (buildUsageAggregationJournals rows) (\<lambda>journals.
          Inr (map (\<lambda>(key, delta). \<lparr> jn_RequestID = lg_ID row, jn_key = key, jn_delta = delta, jn_Applied = False \<rparr>) deltas @ journals))))"

fun journal_deltas :: "UsageAggregationJournal list \<Rightarrow> (usageStatKey, usageStatDelta) gomap \<Rightarrow> write_error + (usageStatKey, usageStatDelta) gomap" where
  "journal_deltas [] deltas = Inr deltas"
| "journal_deltas (j # js) deltas =
     andThen (add_delta AdditionFailed (delta_at deltas (jn_key j)) (jn_delta j)) (\<lambda>d.
       journal_deltas js (AList.update (jn_key j) d deltas))"

definition buildUsageJournalDeltas :: "UsageAggregationJournal list \<Rightarrow> write_error + (usageStatKey, usageStatDelta) gomap" where
  "buildUsageJournalDeltas journals = journal_deltas journals []"

section \<open>Credential attempts\<close>

definition zero_attempts :: credentialAttemptStatDelta where
  "zero_attempts = \<lparr> cd_SuccessCount = 0, cd_FailureCount = 0 \<rparr>"

definition attempts_at ::
  "(credentialAttemptStatKey, credentialAttemptStatDelta) gomap \<Rightarrow> credentialAttemptStatKey \<Rightarrow> credentialAttemptStatDelta" where
  "attempts_at m key = (case map_of m key of None \<Rightarrow> zero_attempts | Some d \<Rightarrow> d)"

definition failure_categories :: "string list" where
  "failure_categories = [''rate_limited'', ''model_unavailable'', ''invalid_key'', ''authentication_required'',
     ''upstream_host_error'', ''client_error'', ''conversion_unsupported'', ''ambiguous'']"

fun attempt_deltas ::
  "RequestLogAttempt list \<Rightarrow> (credentialAttemptStatKey, credentialAttemptStatDelta) gomap
    \<Rightarrow> write_error + (credentialAttemptStatKey, credentialAttemptStatDelta) gomap" where
  "attempt_deltas [] deltas = Inr deltas"
| "attempt_deltas (a # as) deltas =
     (if la_CredentialID a = 0 then Inl ZeroCredential
      else if la_DispatchState a = ''local'' then attempt_deltas as deltas
      else if la_FailureCategory a = ''downstream_cancel'' then attempt_deltas as deltas
      else case AlignDown (la_CompletedAtMS a) MillisecondsPerHour of
        None \<Rightarrow> Inl AttemptCompletionTime
      | Some bucket \<Rightarrow>
          let key = (la_CredentialID a, bucket); d = attempts_at deltas key in
          if la_FailureCategory a = ''ok'' then
            andThen (checkedInt64Add (cd_SuccessCount d) 1 ''credential attempt success_count'') (\<lambda>n.
              attempt_deltas as (AList.update key (d\<lparr> cd_SuccessCount := n \<rparr>) deltas))
          else if la_FailureCategory a \<in> set failure_categories then
            andThen (checkedInt64Add (cd_FailureCount d) 1 ''credential attempt failure_count'') (\<lambda>n.
              attempt_deltas as (AList.update key (d\<lparr> cd_FailureCount := n \<rparr>) deltas))
          else Inl (InvalidCategory (la_FailureCategory a)))"

definition buildCredentialAttemptStatDeltas ::
  "RequestLogAttempt list \<Rightarrow> write_error + (credentialAttemptStatKey, credentialAttemptStatDelta) gomap" where
  "buildCredentialAttemptStatDeltas attempts = attempt_deltas attempts []"

fun upsert_attempts ::
  "(statement \<Rightarrow> bool) \<Rightarrow> (credentialAttemptStatKey, credentialAttemptStatDelta) gomap
    \<Rightarrow> (credentialAttemptStatKey, credentialAttemptStatDelta) gomap \<Rightarrow> credentialAttemptStatKey list \<Rightarrow> database \<Rightarrow> write_error + database" where
  "upsert_attempts fault existing deltas [] db = Inr db"
| "upsert_attempts fault existing deltas (key # ks) db =
     andThen (checkedInt64Add (cd_SuccessCount (attempts_at existing key)) (cd_SuccessCount (attempts_at deltas key)) ''credential attempt success_count'') (\<lambda>s.
     andThen (checkedInt64Add (cd_FailureCount (attempts_at existing key)) (cd_FailureCount (attempts_at deltas key)) ''credential attempt failure_count'') (\<lambda>f.
     if fault UpsertAttemptStat then Inl (StatementFailed UpsertAttemptStat)
     else upsert_attempts fault existing deltas ks
       (db\<lparr> db_attemptStats := AList.update key \<lparr> cd_SuccessCount = s, cd_FailureCount = f \<rparr> (db_attemptStats db) \<rparr>)))"

text \<open>The query returns the rows of any of the credentials in any of the buckets.\<close>

definition applyCredentialAttemptStats :: "(statement \<Rightarrow> bool) \<Rightarrow> RequestLogAttempt list \<Rightarrow> database \<Rightarrow> write_error + database" where
  "applyCredentialAttemptStats fault attempts db =
     andThen (buildCredentialAttemptStatDeltas attempts) (\<lambda>deltas.
       if deltas = [] then Inr db
       else
         let sorted_keys = sort (keys deltas);
             existing = filter (\<lambda>((credential, bucket), row). credential \<in> fst ` set (keys deltas) \<and> bucket \<in> snd ` set (keys deltas)) (db_attemptStats db)
         in if fault QueryAttemptStats then Inl (StatementFailed QueryAttemptStats)
            else if list_ex (\<lambda>(key, row). cd_SuccessCount row < 0 \<or> cd_FailureCount row < 0) existing then Inl CorruptAttemptStat
            else upsert_attempts fault existing deltas sorted_keys db)"

section \<open>The transaction\<close>

fun unique_rows :: "string list \<Rightarrow> RequestLog list \<Rightarrow> RequestLog list" where
  "unique_rows seen [] = []"
| "unique_rows seen (row # rows) =
     (if lg_ID row \<in> set seen then unique_rows seen rows else row # unique_rows (lg_ID row # seen) rows)"

definition prepareNewRequestLogRows :: "(statement \<Rightarrow> bool) \<Rightarrow> RequestLog list \<Rightarrow> database \<Rightarrow> write_error + RequestLog list" where
  "prepareNewRequestLogRows fault rows db =
     (let uniqueRows = unique_rows [] rows in
      if uniqueRows = [] then Inr []
      else if fault QueryIDs then Inl (StatementFailed QueryIDs)
      else Inr (filter (\<lambda>row. lg_ID row \<notin> lg_ID ` set (db_logs db)) uniqueRows))"

text \<open>An insert that does nothing on a conflict of the primary key.\<close>

fun insert_journals :: "UsageAggregationJournal list \<Rightarrow> UsageAggregationJournal list \<Rightarrow> UsageAggregationJournal list" where
  "insert_journals [] table = table"
| "insert_journals (j # js) table =
     insert_journals js (if jn_RequestID j \<in> jn_RequestID ` set table then table else table @ [j])"

definition stageUsageAggregationJournals :: "(statement \<Rightarrow> bool) \<Rightarrow> UsageAggregationJournal list \<Rightarrow> database \<Rightarrow> write_error + database" where
  "stageUsageAggregationJournals fault journals db =
     (if journals = [] then Inr db
      else if fault StageJournals then Inl (StatementFailed StageJournals)
      else Inr (db\<lparr> db_journals := insert_journals journals (db_journals db) \<rparr>))"

definition key_order :: "usageStatKey \<Rightarrow> int \<times> nat \<times> string \<times> nat \<times> nat \<times> string" where
  "key_order key = (uk_BucketStartMS key, uk_AccessKeyID key, uk_ChannelID key, uk_GroupID key, uk_CredentialID key, uk_Model key)"

definition sortedUsageStatKeys :: "(usageStatKey, usageStatDelta) gomap \<Rightarrow> usageStatKey list" where
  "sortedUsageStatKeys deltas = sort_key key_order (keys deltas)"

definition queryExistingUsageStats :: "(statement \<Rightarrow> bool) \<Rightarrow> usageStatKey list \<Rightarrow> database \<Rightarrow> write_error + (usageStatKey, usageStatDelta) gomap" where
  "queryExistingUsageStats fault ks db =
     (if fault QueryStats then Inl (StatementFailed QueryStats)
      else Inr (filter (\<lambda>(key, row). key \<in> set ks) (db_stats db)))"

fun absolute_stats ::
  "(usageStatKey, usageStatDelta) gomap \<Rightarrow> (usageStatKey, usageStatDelta) gomap \<Rightarrow> usageStatKey list
    \<Rightarrow> write_error + (usageStatKey \<times> usageStatDelta) list" where
  "absolute_stats existing deltas [] = Inr []"
| "absolute_stats existing deltas (key # ks) =
     andThen (checkedUsageStatTotal (delta_at existing key) (delta_at deltas key)) (\<lambda>d.
     andThen (absolute_stats existing deltas ks) (\<lambda>rest. Inr ((key, d) # rest)))"

definition mark_applied :: "string list \<Rightarrow> UsageAggregationJournal list \<Rightarrow> UsageAggregationJournal list" where
  "mark_applied ids table = map (\<lambda>j. if jn_RequestID j \<in> set ids \<and> \<not> jn_Applied j then j\<lparr> jn_Applied := True \<rparr> else j) table"

definition applyUsageJournalBatch :: "(statement \<Rightarrow> bool) \<Rightarrow> UsageAggregationJournal list \<Rightarrow> database \<Rightarrow> write_error + database" where
  "applyUsageJournalBatch fault journals db =
     (if journals = [] then Inr db
      else
        andThen (buildUsageJournalDeltas journals) (\<lambda>deltas.
        let ks = sortedUsageStatKeys deltas in
        andThen (queryExistingUsageStats fault ks db) (\<lambda>existing.
        andThen (absolute_stats existing deltas ks) (\<lambda>stats.
          let ids = map jn_RequestID journals;
              affected = length (filter (\<lambda>j. jn_RequestID j \<in> set ids \<and> \<not> jn_Applied j) (db_journals db))
          in if stats \<noteq> [] \<and> fault UpsertStat then Inl (StatementFailed UpsertStat)
             else if fault MarkApplied then Inl (StatementFailed MarkApplied)
             else if affected \<noteq> length ids then Inl (MarkedRows affected (length ids))
             else Inr (db\<lparr> db_journals := mark_applied ids (db_journals db),
                          db_stats := fold (\<lambda>(key, d). AList.update key d) stats (db_stats db) \<rparr>)))))"

definition attempt_key :: "RequestLogAttempt \<Rightarrow> string \<times> int" where
  "attempt_key a = (la_RequestID a, la_Sequence a)"

definition writeRequestLogBatch :: "(statement \<Rightarrow> bool) \<Rightarrow> RequestLog list \<Rightarrow> database \<Rightarrow> write_error + database" where
  "writeRequestLogBatch fault rows db =
     (if rows = [] then Inr db
      else if fault InsertLogs then Inl (StatementFailed InsertLogs)
      else if \<not> distinct (map lg_ID (db_logs db @ rows)) then Inl (DuplicateKey InsertLogs)
      else
        let db1 = db\<lparr> db_logs := db_logs db @ rows \<rparr>;
            attemptRows = concat (map lg_AttemptRows rows);
            ids = map lg_ID rows
        in if attemptRows \<noteq> [] \<and> fault InsertAttempts then Inl (StatementFailed InsertAttempts)
           else if attemptRows \<noteq> [] \<and> \<not> distinct (map attempt_key (db_attempts db1 @ attemptRows)) then Inl (DuplicateKey InsertAttempts)
           else if fault QueryJournals then Inl (StatementFailed QueryJournals)
           else
             let db2 = db1\<lparr> db_attempts := db_attempts db1 @ attemptRows \<rparr>;
                 journals = sort_key jn_RequestID (filter (\<lambda>j. jn_RequestID j \<in> set ids \<and> \<not> jn_Applied j) (db_journals db2));
                 pending = filter (\<lambda>a. la_RequestID a \<in> jn_RequestID ` set journals) attemptRows
             in andThen (if attemptRows \<noteq> [] \<and> journals \<noteq> [] then applyCredentialAttemptStats fault pending db2 else Inr db2)
                  (applyUsageJournalBatch fault journals))"

text \<open>
  The rows are looked up before the transaction begins; \<open>db\<close> is the store at both times. The statement
  \<open>Transaction\<close> stands for the beginning and the end of the transaction.
\<close>

definition WriteBatch :: "(statement \<Rightarrow> bool) \<Rightarrow> RequestLog list \<Rightarrow> database option \<Rightarrow> write_error + database" where
  "WriteBatch fault rows writer =
     (case writer of None \<Rightarrow> Inl NilDatabase | Some db \<Rightarrow>
        andThen (prepareNewRequestLogRows fault rows db) (\<lambda>newRows.
        if newRows = [] then Inr db
        else andThen (buildUsageAggregationJournals newRows) (\<lambda>journals.
             if fault Transaction then Inl (StatementFailed Transaction)
             else andThen (stageUsageAggregationJournals fault journals db) (\<lambda>staged.
             writeRequestLogBatch fault newRows staged))))"

end
