(* ===== verification/Usage_Aggregation_Theorems.thy ===== *)
theory Usage_Aggregation_Theorems
  imports Usage_Aggregation "HOL-Library.Multiset"
begin

text \<open>
  The statistics of the request log: whatever batches are written, retried, interrupted by failing statements or
  expired in between, the statistics are the sums of what each counted request contributes, each counted once.
\<close>

section \<open>Adding counters\<close>

lemma andThen_Inr [simp]: "andThen x f = Inr b \<longleftrightarrow> (\<exists>a. x = Inr a \<and> f a = Inr b)"
  by (auto simp: andThen_def split: sum.splits)

abbreviation in_range :: "int \<Rightarrow> bool" where
  "in_range x \<equiv> 0 \<le> x \<and> x \<le> MaxInt64"

lemma CheckedAdd_range:
  assumes "int64 l" and "int64 r"
  shows "CheckedAdd l r = Some t \<longleftrightarrow> 0 \<le> l \<and> 0 \<le> r \<and> l + r \<le> MaxInt64 \<and> t = l + r"
  using usage_add.add_sum [OF assms] by auto

lemma in_range_int64: "in_range x \<Longrightarrow> int64 x"
  by (simp add: int64_nonneg)

lemma add_counts_Inr:
  "add_counts err names ls rs = Inr ts \<Longrightarrow> length names = length ls \<Longrightarrow> length ls = length rs \<Longrightarrow>
    list_all in_range ls \<Longrightarrow> list_all in_range rs \<Longrightarrow> ts = map2 (+) ls rs \<and> list_all in_range ts"
proof (induction err names ls rs arbitrary: ts rule: add_counts.induct)
  case (1 err name names l ls r rs)
  then obtain t ts' where t: "CheckedAdd l r = Some t" "add_counts err names ls rs = Inr ts'" "ts = t # ts'"
    by (auto split: option.splits)
  moreover have "t = l + r \<and> in_range t"
    using t(1) 1 CheckedAdd_range [of l r t] in_range_int64 by auto
  ultimately show ?case using 1 by auto
qed auto

definition delta_ok :: "usageStatDelta \<Rightarrow> bool" where
  "delta_ok d \<longleftrightarrow> list_all in_range (delta_fields d)"

lemma length_delta [simp]: "length (delta_counts d) = 13" "length (delta_fields d) = 14" "length count_names = 13"
  by (simp_all add: delta_counts_def delta_fields_def count_names_def)

lemma delta_of_counts: "length ts = 13 \<Longrightarrow> delta_counts (delta_of ts c) = ts \<and> ud_EstimatedCostNanoUSD (delta_of ts c) = c"
  by (auto simp: eval_nat_numeral length_Suc_conv delta_counts_def)

lemma add_delta_Inr:
  assumes "add_delta err l r = Inr d" and "delta_ok l" and "delta_ok r"
  shows "delta_fields d = map2 (+) (delta_fields l) (delta_fields r) \<and> delta_ok d"
proof -
  obtain ts c where ts: "add_counts err count_names (delta_counts l) (delta_counts r) = Inr ts"
    and c: "CheckedAddNanoUSD (ud_EstimatedCostNanoUSD l) (ud_EstimatedCostNanoUSD r) = Some c" and d: "d = delta_of ts c"
    using assms(1) by (auto simp: add_delta_def split: option.splits)
  have ok: "list_all in_range (delta_counts l)" "list_all in_range (delta_counts r)"
    "in_range (ud_EstimatedCostNanoUSD l)" "in_range (ud_EstimatedCostNanoUSD r)"
    using assms(2,3) by (simp_all add: delta_ok_def delta_fields_def)
  have t: "ts = map2 (+) (delta_counts l) (delta_counts r)" "list_all in_range ts"
    using add_counts_Inr [OF ts _ _ ok(1,2)] by auto
  have cost: "c = ud_EstimatedCostNanoUSD l + ud_EstimatedCostNanoUSD r \<and> in_range c"
    using c ok(3,4) CheckedAdd_range [OF in_range_int64 in_range_int64] by (auto simp: CheckedAddNanoUSD_eq)
  have "delta_counts d = ts" "ud_EstimatedCostNanoUSD d = c" using delta_of_counts [of ts c] t(1) by (simp_all add: d)
  then show ?thesis using t cost by (simp add: delta_ok_def delta_fields_def)
qed

definition field :: "usageStatDelta \<Rightarrow> nat \<Rightarrow> int" where
  "field d i = delta_fields d ! i"

lemma field_add:
  "add_delta err l r = Inr d \<Longrightarrow> delta_ok l \<Longrightarrow> delta_ok r \<Longrightarrow> i < 14 \<Longrightarrow> field d i = field l i + field r i"
  using add_delta_Inr by (simp add: field_def)

lemma delta_ok_zero [simp]: "delta_ok zero_delta"
  by (simp add: delta_ok_def delta_fields_def delta_counts_def zero_delta_def MaxInt64_def)

lemma field_zero [simp]: "i < 14 \<Longrightarrow> field zero_delta i = 0"
  by (simp add: field_def delta_fields_def delta_counts_def zero_delta_def nth_append nth_Cons' split: if_splits)

section \<open>What a request contributes\<close>

text \<open>The reference: the counters of one request, in the order of \<open>delta_fields\<close>.\<close>

definition row_counts :: "RequestLog \<Rightarrow> int list" where
  "row_counts row =
     [1, of_bool (lg_Status row = ''success''), of_bool (lg_Status row \<noteq> ''success'')]
     @ (if billable_row row then [lg_UncachedInputTokens row, lg_OutputTokens row, lg_CacheReadTokens row,
          lg_CacheWrite5MTokens row, lg_CacheWrite1HTokens row, lg_CacheWriteUnknownTokens row] else [0, 0, 0, 0, 0, 0])
     @ [of_bool (lg_UsageState row = StateMissing), of_bool (lg_UsageState row = StatePartial),
        of_bool (billable_row row \<and> lg_CostState row = CostStateUnpriced),
        of_bool (lg_CostState row = CostStatePriced \<and> lg_PricingCompleteness row = CompletenessPartial),
        if billable_row row \<and> lg_CostState row = CostStatePriced then lg_EstimatedCostNanoUSD row else 0]"

definition row_int64 :: "RequestLog \<Rightarrow> bool" where
  "row_int64 row \<longleftrightarrow> list_all int64 [lg_UncachedInputTokens row, lg_OutputTokens row, lg_CacheReadTokens row,
     lg_CacheWrite5MTokens row, lg_CacheWrite1HTokens row, lg_CacheWriteUnknownTokens row, lg_EstimatedCostNanoUSD row]"

lemma checkedInt64Add_Inr: "int64 l \<Longrightarrow> int64 r \<Longrightarrow> checkedInt64Add l r f = Inr t \<longleftrightarrow> 0 \<le> l \<and> 0 \<le> r \<and> l + r \<le> MaxInt64 \<and> t = l + r"
  using CheckedAdd_range [of l r t] by (auto simp: checkedInt64Add_def split: option.split)

lemma checkedInt64Add_one: "checkedInt64Add 0 1 f = Inr 1"
  by (simp add: checkedInt64Add_Inr int64_defs)

lemma add_outcome_zero:
  "add_outcome row d = Inr d' \<Longrightarrow> ud_SuccessCount d = 0 \<Longrightarrow> ud_FailureCount d = 0 \<Longrightarrow>
    d' = d\<lparr> ud_SuccessCount := of_bool (lg_Status row = ''success''), ud_FailureCount := of_bool (lg_Status row \<noteq> ''success'') \<rparr>"
  by (auto simp: add_outcome_def checkedInt64Add_one split: if_splits)

lemma add_usage_state_zero:
  "add_usage_state row d = Inr d' \<Longrightarrow> ud_UsageMissingCount d = 0 \<Longrightarrow> ud_PartialCount d = 0 \<Longrightarrow>
    d' = d\<lparr> ud_UsageMissingCount := of_bool (lg_UsageState row = StateMissing), ud_PartialCount := of_bool (lg_UsageState row = StatePartial) \<rparr>"
  by (auto simp: add_usage_state_def checkedInt64Add_one split: State.splits)

lemma add_pricing_state_zero:
  "add_pricing_state row d = Inr d' \<Longrightarrow> ud_UnpricedRequestCount d = 0 \<Longrightarrow> ud_PricingPartialCount d = 0 \<Longrightarrow>
    d' = d\<lparr> ud_UnpricedRequestCount := of_bool (billable_row row \<and> lg_CostState row = CostStateUnpriced),
      ud_PricingPartialCount := of_bool (lg_CostState row = CostStatePriced \<and> lg_PricingCompleteness row = CompletenessPartial) \<rparr>"
  by (auto simp: add_pricing_state_def checkedInt64Add_one split: if_splits)

lemma add_tokens_zero:
  assumes "row_int64 row" and "add_tokens row d = Inr d'" and "ud_UncachedInputTokens d = 0" and "ud_OutputTokens d = 0"
    and "ud_CacheReadTokens d = 0" and "ud_CacheWrite5MTokens d = 0" and "ud_CacheWrite1HTokens d = 0" and "ud_CacheWriteUnknownTokens d = 0"
  shows "d' = d\<lparr> ud_UncachedInputTokens := lg_UncachedInputTokens row, ud_OutputTokens := lg_OutputTokens row,
    ud_CacheReadTokens := lg_CacheReadTokens row, ud_CacheWrite5MTokens := lg_CacheWrite5MTokens row,
    ud_CacheWrite1HTokens := lg_CacheWrite1HTokens row, ud_CacheWriteUnknownTokens := lg_CacheWriteUnknownTokens row \<rparr>"
  using assms by (auto simp: add_tokens_def row_int64_def checkedInt64Add_Inr)

lemma row_counts_range:
  assumes "row_int64 row" and valid: "validatePersistedPricingState row = None"
  shows "list_all in_range (row_counts row)"
proof -
  have "0 \<le> lg_EstimatedCostNanoUSD row"
    using valid by (auto simp: validatePersistedPricingState_def validateFrozenPricingState_def split: if_splits)
  with assms show ?thesis
    by (simp add: row_int64_def validatePersistedPricingState_def row_counts_def int64_defs split: if_splits)
qed

lemma addRow_zero:
  assumes row: "row_int64 row" and add: "addRow row zero_delta = Inr d"
  shows "delta_fields d = row_counts row \<and> delta_ok d"
proof -
  have one: "checkedInt64Add (ud_RequestCount zero_delta) 1 f = Inr 1" for f by (simp add: zero_delta_def checkedInt64Add_one)
  obtain d1 d2 d3 where d1: "add_outcome row (zero_delta\<lparr> ud_RequestCount := 1 \<rparr>) = Inr d1"
    and d2: "add_usage_state row d1 = Inr d2" and d3: "add_pricing_state row d2 = Inr d3"
    and valid: "validatePersistedPricingState row = None"
    and rest: "(if \<not> billable_row row then Inr d3
       else andThen (add_tokens row d3) (\<lambda>d.
         if lg_CostState row \<noteq> CostStatePriced then Inr d
         else case CheckedAddNanoUSD (ud_EstimatedCostNanoUSD d) (lg_EstimatedCostNanoUSD row) of
           None \<Rightarrow> Inl (AdditionFailed ''estimated_cost_nano_usd'') | Some cost \<Rightarrow> Inr (d\<lparr> ud_EstimatedCostNanoUSD := cost \<rparr>))) = Inr d"
    using add unfolding addRow_def andThen_Inr one by (auto split: option.splits)
  have d3': "d3 = zero_delta\<lparr> ud_RequestCount := 1,
      ud_SuccessCount := of_bool (lg_Status row = ''success''), ud_FailureCount := of_bool (lg_Status row \<noteq> ''success''),
      ud_UsageMissingCount := of_bool (lg_UsageState row = StateMissing), ud_PartialCount := of_bool (lg_UsageState row = StatePartial),
      ud_UnpricedRequestCount := of_bool (billable_row row \<and> lg_CostState row = CostStateUnpriced),
      ud_PricingPartialCount := of_bool (lg_CostState row = CostStatePriced \<and> lg_PricingCompleteness row = CompletenessPartial) \<rparr>"
    using add_outcome_zero [OF d1] add_usage_state_zero [OF d2] add_pricing_state_zero [OF d3] by (simp add: zero_delta_def)
  have "delta_fields d = row_counts row"
  proof (cases "billable_row row")
    case False
    then have "d = d3" using rest by simp
    with False show ?thesis by (simp add: d3' row_counts_def delta_fields_def delta_counts_def zero_delta_def)
  next
    case True
    with rest have "\<exists>d4. add_tokens row d3 = Inr d4 \<and> (if lg_CostState row \<noteq> CostStatePriced then Inr d4
        else case CheckedAddNanoUSD (ud_EstimatedCostNanoUSD d4) (lg_EstimatedCostNanoUSD row) of
          None \<Rightarrow> Inl (AdditionFailed ''estimated_cost_nano_usd'') | Some cost \<Rightarrow> Inr (d4\<lparr> ud_EstimatedCostNanoUSD := cost \<rparr>)) = Inr d"
      by simp
    then obtain d4 where d4: "add_tokens row d3 = Inr d4"
      and d: "(if lg_CostState row \<noteq> CostStatePriced then Inr d4
        else case CheckedAddNanoUSD (ud_EstimatedCostNanoUSD d4) (lg_EstimatedCostNanoUSD row) of
          None \<Rightarrow> Inl (AdditionFailed ''estimated_cost_nano_usd'') | Some cost \<Rightarrow> Inr (d4\<lparr> ud_EstimatedCostNanoUSD := cost \<rparr>)) = Inr d"
      by blast
    have tokens: "d4 = d3\<lparr> ud_UncachedInputTokens := lg_UncachedInputTokens row, ud_OutputTokens := lg_OutputTokens row,
      ud_CacheReadTokens := lg_CacheReadTokens row, ud_CacheWrite5MTokens := lg_CacheWrite5MTokens row,
      ud_CacheWrite1HTokens := lg_CacheWrite1HTokens row, ud_CacheWriteUnknownTokens := lg_CacheWriteUnknownTokens row \<rparr>"
      by (rule add_tokens_zero [OF row d4]) (simp_all add: d3' zero_delta_def)
    have "int64 (lg_EstimatedCostNanoUSD row)" using row by (simp add: row_int64_def)
    moreover have "ud_EstimatedCostNanoUSD d4 = 0" by (simp add: tokens d3' zero_delta_def)
    ultimately have "d = d4\<lparr> ud_EstimatedCostNanoUSD := if lg_CostState row = CostStatePriced then lg_EstimatedCostNanoUSD row else 0 \<rparr>"
      using d by (auto simp: CheckedAddNanoUSD_eq CheckedAdd_range split: if_splits option.splits)
    with True show ?thesis
      by (simp add: row_counts_def delta_fields_def delta_counts_def tokens d3' zero_delta_def)
  qed
  with row_counts_range [OF row valid] show ?thesis by (simp add: delta_ok_def)
qed

section \<open>Journals\<close>

definition row_bucket :: "RequestLog \<Rightarrow> int" where
  "row_bucket row = lg_CompletedAtMS row - lg_CompletedAtMS row mod MillisecondsPerHour"

text \<open>The journal entry that a request makes.\<close>

definition entry_of :: "RequestLog \<Rightarrow> UsageAggregationJournal \<Rightarrow> bool" where
  "entry_of row j \<longleftrightarrow> jn_RequestID j = lg_ID row \<and> jn_key j = row_key (row_bucket row) row
     \<and> delta_fields (jn_delta j) = row_counts row \<and> delta_ok (jn_delta j)"

lemma journals_Inr:
  "buildUsageAggregationJournals rows = Inr js \<Longrightarrow> list_all row_int64 rows \<Longrightarrow>
    list_all2 entry_of (filter (\<lambda>row. lg_AttemptCount row \<noteq> 0) rows) js \<and> list_all (\<lambda>j. \<not> jn_Applied j) js"
proof (induction rows arbitrary: js)
  case (Cons row rows)
  show ?case
  proof (cases "lg_AttemptCount row = 0")
    case False
    with Cons.prems(1) obtain deltas js' where deltas: "buildUsageStatDeltas [row] = Inr deltas"
      and js': "buildUsageAggregationJournals rows = Inr js'"
      and js: "js = map (\<lambda>(key, delta). \<lparr> jn_RequestID = lg_ID row, jn_key = key, jn_delta = delta, jn_Applied = False \<rparr>) deltas @ js'"
      by (auto split: if_splits)
    from deltas obtain d where d: "addRow row zero_delta = Inr d" "deltas = [(row_key (row_bucket row) row, d)]"
      by (auto simp: buildUsageStatDeltas_def AlignDown_def delta_at_def row_bucket_def split: option.splits if_splits)
    have "delta_fields d = row_counts row \<and> delta_ok d" using addRow_zero [OF _ d(1)] Cons.prems(2) by simp
    with Cons.IH [OF js'] Cons.prems(2) False show ?thesis by (simp add: js d(2) entry_of_def)
  qed (use Cons in simp)
qed simp

section \<open>Sums over journals\<close>

definition journal_sum :: "UsageAggregationJournal list \<Rightarrow> usageStatKey \<Rightarrow> nat \<Rightarrow> int" where
  "journal_sum js k i = sum_list (map (\<lambda>j. field (jn_delta j) i) (filter (\<lambda>j. jn_key j = k) js))"

lemma journal_sum_simps [simp]:
  "journal_sum [] k i = 0"
  "journal_sum (j # js) k i = (if jn_key j = k then field (jn_delta j) i else 0) + journal_sum js k i"
  "journal_sum (js @ js') k i = journal_sum js k i + journal_sum js' k i"
  by (simp_all add: journal_sum_def)

lemma journal_sum_sort [simp]: "journal_sum (sort_key f js) k i = journal_sum js k i"
proof -
  let ?g = "\<lambda>j. field (jn_delta j) i"
  have "mset (map ?g (filter (\<lambda>j. jn_key j = k) (sort_key f js))) = mset (map ?g (filter (\<lambda>j. jn_key j = k) js))"
    by (simp add: mset_filter)
  then have "sum_mset (mset (map ?g (filter (\<lambda>j. jn_key j = k) (sort_key f js)))) = sum_mset (mset (map ?g (filter (\<lambda>j. jn_key j = k) js)))"
    by (rule arg_cong)
  then show ?thesis unfolding journal_sum_def sum_mset_sum_list .
qed

lemma delta_at_update [simp]: "delta_at (AList.update k d m) k' = (if k' = k then d else delta_at m k')"
  by (simp add: delta_at_def)

lemma journal_deltas_Inr:
  "journal_deltas js ds = Inr ds' \<Longrightarrow> list_all (\<lambda>j. delta_ok (jn_delta j)) js \<Longrightarrow> (\<And>k. delta_ok (delta_at ds k)) \<Longrightarrow> wf_map ds \<Longrightarrow>
    wf_map ds' \<and> set (keys ds') = set (keys ds) \<union> jn_key ` set js \<and> (\<forall>k. delta_ok (delta_at ds' k))
    \<and> (\<forall>k i. i < 14 \<longrightarrow> field (delta_at ds' k) i = field (delta_at ds k) i + journal_sum js k i)"
proof (induction js arbitrary: ds)
  case (Cons j js)
  then obtain d where d: "add_delta AdditionFailed (delta_at ds (jn_key j)) (jn_delta j) = Inr d"
    and rest: "journal_deltas js (AList.update (jn_key j) d ds) = Inr ds'" by auto
  have ok: "delta_ok (jn_delta j)" "list_all (\<lambda>j. delta_ok (jn_delta j)) js" using Cons.prems(2) by simp_all
  have "delta_ok d" using add_delta_Inr [OF d Cons.prems(3) ok(1)] by blast
  then have all: "delta_ok (delta_at (AList.update (jn_key j) d ds) k)" for k using Cons.prems(3) by simp
  have keys: "set (keys (AList.update (jn_key j) d ds)) = insert (jn_key j) (set (keys ds))" by (auto simp: update_keys)
  note IH = Cons.IH [OF rest ok(2) all wf_map_update [OF Cons.prems(4)]]
  have "field (delta_at ds' k) i = field (delta_at ds k) i + journal_sum (j # js) k i" if "i < 14" for k i
    using IH that field_add [OF d Cons.prems(3) ok(1) that] by auto
  with IH keys show ?case by auto
qed auto

lemma absolute_stats_Inr:
  "absolute_stats ex ds ks = Inr stats \<Longrightarrow> (\<And>k. delta_ok (delta_at ex k)) \<Longrightarrow> (\<And>k. delta_ok (delta_at ds k)) \<Longrightarrow>
    map fst stats = ks \<and> (\<forall>(k, d) \<in> set stats. delta_ok d \<and> (\<forall>i < 14. field d i = field (delta_at ex k) i + field (delta_at ds k) i))"
proof (induction ks arbitrary: stats)
  case (Cons k ks)
  then obtain d rest where d: "add_delta TotalFailed (delta_at ex k) (delta_at ds k) = Inr d"
    and rest: "absolute_stats ex ds ks = Inr rest" and stats: "stats = (k, d) # rest"
    by (auto simp: checkedUsageStatTotal_def)
  have "delta_ok d" using add_delta_Inr [OF d Cons.prems(2,3)] by blast
  moreover have "\<forall>i < 14. field d i = field (delta_at ex k) i + field (delta_at ds k) i"
    using field_add [OF d Cons.prems(2,3)] by blast
  ultimately show ?case using Cons.IH [OF rest Cons.prems(2,3)] by (simp add: stats)
qed simp

lemma map_of_upserts:
  "distinct (map fst stats) \<Longrightarrow> map_of (fold (\<lambda>(key, d). AList.update key d) stats m) k =
    (case map_of stats k of Some d \<Rightarrow> Some d | None \<Rightarrow> map_of m k)"
proof (induction stats arbitrary: m)
  case (Cons s stats)
  obtain k' d where s: "s = (k', d)" by (cases s)
  with Cons.prems have "map_of stats k' = None" by (simp add: map_of_eq_None_iff)
  with Cons show ?case by (auto simp: s split: option.splits)
qed simp

lemma wf_upserts: "wf_map m \<Longrightarrow> wf_map (fold (\<lambda>(key, d). AList.update key d) stats m)"
proof (induction stats arbitrary: m)
  case (Cons s stats)
  then show ?case by (cases s) simp
qed simp

lemma delta_at_filter: "k \<in> set ks \<Longrightarrow> delta_at (filter (\<lambda>(key, row). key \<in> set ks) m) k = delta_at m k"
  unfolding delta_at_def by (induction m) auto

lemma delta_at_filter_ok: "(\<And>k. delta_ok (delta_at m k)) \<Longrightarrow> delta_ok (delta_at (filter (\<lambda>(key, row). key \<in> set ks) m) k)"
  by (cases "k \<in> set ks") (simp_all add: delta_at_filter, auto simp: delta_at_def map_of_eq_None_iff [THEN iffD2] split: option.split dest!: map_of_SomeD)

text \<open>Applying journals adds exactly their sums to the statistics.\<close>

lemma applyUsageJournalBatch_Inr:
  assumes run: "applyUsageJournalBatch fault js db = Inr db'"
    and ok: "list_all (\<lambda>j. delta_ok (jn_delta j)) js" "\<And>k. delta_ok (delta_at (db_stats db) k)" "wf_map (db_stats db)"
  shows "db_logs db' = db_logs db \<and> db_journals db' = (if js = [] then db_journals db else mark_applied (map jn_RequestID js) (db_journals db))
    \<and> wf_map (db_stats db') \<and> (\<forall>k. delta_ok (delta_at (db_stats db') k))
    \<and> (\<forall>k i. i < 14 \<longrightarrow> field (delta_at (db_stats db') k) i = field (delta_at (db_stats db) k) i + journal_sum js k i)"
proof (cases "js = []")
  case True
  then show ?thesis using run ok by (auto simp: applyUsageJournalBatch_def)
next
  case False
  then obtain ds stats where ds: "journal_deltas js [] = Inr ds"
    and stats: "absolute_stats (filter (\<lambda>(key, row). key \<in> set (sortedUsageStatKeys ds)) (db_stats db)) ds (sortedUsageStatKeys ds) = Inr stats"
    and db': "db' = db\<lparr> db_journals := mark_applied (map jn_RequestID js) (db_journals db),
      db_stats := fold (\<lambda>(key, d). AList.update key d) stats (db_stats db) \<rparr>"
    using run by (auto simp: applyUsageJournalBatch_def buildUsageJournalDeltas_def queryExistingUsageStats_def Let_def split: if_splits)
  have zero: "delta_at [] k = zero_delta" for k by (simp add: delta_at_def)
  have d: "wf_map ds" "set (keys ds) = jn_key ` set js" "\<And>k. delta_ok (delta_at ds k)"
    "\<And>k i. i < 14 \<Longrightarrow> field (delta_at ds k) i = journal_sum js k i"
    using journal_deltas_Inr [OF ds ok(1)] by (simp_all add: zero)
  have ks: "set (sortedUsageStatKeys ds) = jn_key ` set js" "distinct (sortedUsageStatKeys ds)"
    using d(1,2) by (simp_all add: sortedUsageStatKeys_def)
  note s = absolute_stats_Inr [OF stats delta_at_filter_ok [OF ok(2)] d(3)]
  have lookup: "map_of (db_stats db') k = (case map_of stats k of Some d \<Rightarrow> Some d | None \<Rightarrow> map_of (db_stats db) k)" for k
    using map_of_upserts [of stats "db_stats db" k] s ks(2) by (simp add: db')
  have "delta_ok (delta_at (db_stats db') k) \<and> (\<forall>i < 14. field (delta_at (db_stats db') k) i = field (delta_at (db_stats db) k) i + journal_sum js k i)" for k
  proof (cases "k \<in> jn_key ` set js")
    case True
    then have "k \<in> fst ` set stats" using s ks(1) by (metis list.set_map)
    then obtain t where t: "map_of stats k = Some t" by (metis map_of_eq_None_iff not_None_eq)
    have "k \<in> set (sortedUsageStatKeys ds)" using True ks(1) by simp
    note old = delta_at_filter [OF this, of "db_stats db"]
    have new: "delta_at (db_stats db') k = t" by (simp add: delta_at_def [of "db_stats db'"] lookup t)
    show ?thesis using s map_of_SomeD [OF t] d(4) by (auto simp: new old)
  next
    case False
    then have "k \<notin> fst ` set stats" using s ks(1) by (metis list.set_map)
    then have "map_of stats k = None" by (simp add: map_of_eq_None_iff)
    then have "delta_at (db_stats db') k = delta_at (db_stats db) k" by (simp add: delta_at_def lookup)
    moreover have "filter (\<lambda>j. jn_key j = k) js = []" using False by (auto simp: filter_empty_conv)
    ultimately show ?thesis using ok(2) by (simp add: journal_sum_def)
  qed
  then show ?thesis using False wf_upserts [OF ok(3)] by (simp add: db')
qed

section \<open>The invariant\<close>

lemma unique_rows_spec:
  "distinct (map lg_ID (unique_rows seen rows)) \<and> set (unique_rows seen rows) \<subseteq> set rows
    \<and> lg_ID ` set (unique_rows seen rows) = lg_ID ` set rows - set seen"
  by (induction seen rows rule: unique_rows.induct) auto

lemma insert_journals_fresh:
  "distinct (map jn_RequestID js) \<Longrightarrow> insert_journals js table = table @ filter (\<lambda>j. jn_RequestID j \<notin> jn_RequestID ` set table) js"
proof (induction js arbitrary: table)
  case (Cons j js)
  show ?case
  proof (cases "jn_RequestID j \<in> jn_RequestID ` set table")
    case False
    have "filter (\<lambda>j'. jn_RequestID j' \<notin> jn_RequestID ` set (table @ [j])) js = filter (\<lambda>j'. jn_RequestID j' \<notin> jn_RequestID ` set table) js"
      using Cons.prems by (intro filter_cong) (auto, metis image_eqI)
    with Cons False show ?thesis by simp
  qed (use Cons in simp)
qed simp

text \<open>
  The statistics are the sums of the journals, all of which are applied; a request has at most one entry, which
  is what one of the rows written for it contributes, and every stored request with attempts has its entry.
\<close>

definition db_inv :: "RequestLog set \<Rightarrow> database \<Rightarrow> bool" where
  "db_inv written db \<longleftrightarrow> distinct (map jn_RequestID (db_journals db)) \<and> list_all jn_Applied (db_journals db)
     \<and> (\<forall>j \<in> set (db_journals db). \<exists>row \<in> written. lg_AttemptCount row \<noteq> 0 \<and> entry_of row j)
     \<and> (\<forall>row \<in> set (db_logs db). row \<in> written \<and> (lg_AttemptCount row \<noteq> 0 \<longrightarrow> lg_ID row \<in> jn_RequestID ` set (db_journals db)))
     \<and> wf_map (db_stats db) \<and> (\<forall>k. delta_ok (delta_at (db_stats db) k))
     \<and> (\<forall>k i. i < 14 \<longrightarrow> field (delta_at (db_stats db) k) i = journal_sum (db_journals db) k i)"

lemma attempts_frame:
  "upsert_attempts fault ex ds ks db = Inr db' \<Longrightarrow>
    db_logs db' = db_logs db \<and> db_journals db' = db_journals db \<and> db_stats db' = db_stats db"
  by (induction ks arbitrary: db) (auto split: if_splits)

lemma applyCredentialAttemptStats_frame:
  "applyCredentialAttemptStats fault as db = Inr db' \<Longrightarrow>
    db_logs db' = db_logs db \<and> db_journals db' = db_journals db \<and> db_stats db' = db_stats db"
  by (auto simp: applyCredentialAttemptStats_def Let_def split: if_splits dest: attempts_frame)

lemma writeRequestLogBatch_Inr:
  assumes "writeRequestLogBatch fault rows db = Inr db'" and "rows \<noteq> []"
  shows "\<exists>db2. db_logs db2 = db_logs db @ rows \<and> db_journals db2 = db_journals db \<and> db_stats db2 = db_stats db
    \<and> applyUsageJournalBatch fault (sort_key jn_RequestID (filter (\<lambda>j. jn_RequestID j \<in> lg_ID ` set rows \<and> \<not> jn_Applied j) (db_journals db))) db2 = Inr db'"
  using assms
  by (auto simp: writeRequestLogBatch_def Let_def split: if_splits dest!: applyCredentialAttemptStats_frame)

lemma entry_ids: "list_all2 entry_of rows js \<Longrightarrow> map jn_RequestID js = map lg_ID rows"
  by (induction rule: list_all2_induct) (auto simp: entry_of_def)

lemma entry_member: "list_all2 entry_of rows js \<Longrightarrow> j \<in> set js \<Longrightarrow> \<exists>row \<in> set rows. entry_of row j"
  by (induction rule: list_all2_induct) auto

lemma mark_applied_all:
  "list_all jn_Applied old \<Longrightarrow> set (map jn_RequestID fresh) \<subseteq> set ids \<Longrightarrow> list_all (\<lambda>j. \<not> jn_Applied j) fresh \<Longrightarrow>
    mark_applied ids (old @ fresh) = old @ map (\<lambda>j. j\<lparr> jn_Applied := True \<rparr>) fresh"
  by (auto simp: mark_applied_def list_all_iff intro!: map_idI)

lemma marked_simps [simp]:
  "journal_sum (map (\<lambda>j. j\<lparr> jn_Applied := True \<rparr>) js) k i = journal_sum js k i"
  "entry_of row (j\<lparr> jn_Applied := True \<rparr>) = entry_of row j"
  by (induction js) (simp_all add: entry_of_def)

lemma WriteBatch_cases:
  assumes "WriteBatch fault rows (Some db) = Inr db'"
  obtains "lg_ID ` set rows \<subseteq> lg_ID ` set (db_logs db)" "db' = db"
  | new js where "new \<noteq> []" "distinct (map lg_ID new)" "set new \<subseteq> set rows" "lg_ID ` set rows \<subseteq> lg_ID ` set (db_logs db @ new)"
      "buildUsageAggregationJournals new = Inr js"
      "writeRequestLogBatch fault new (db\<lparr> db_journals := insert_journals js (db_journals db) \<rparr>) = Inr db'"
proof -
  let ?new = "filter (\<lambda>row. lg_ID row \<notin> lg_ID ` set (db_logs db)) (unique_rows [] rows)"
  have u: "distinct (map lg_ID (unique_rows [] rows))" "set (unique_rows [] rows) \<subseteq> set rows" "lg_ID ` set (unique_rows [] rows) = lg_ID ` set rows"
    using unique_rows_spec [of "[]" rows] by simp_all
  have ids: "lg_ID ` set rows \<subseteq> lg_ID ` set (db_logs db @ ?new)" unfolding u(3) [symmetric] by auto
  have prep: "prepareNewRequestLogRows fault rows db = Inr ?new"
    using assms by (auto simp: WriteBatch_def prepareNewRequestLogRows_def Let_def split: if_splits)
  show thesis
  proof (cases "?new = []")
    case True
    then have "db' = db" using assms prep by (auto simp: WriteBatch_def andThen_def)
    with True ids show thesis using that(1) by auto
  next
    case False
    then obtain js staged where "buildUsageAggregationJournals ?new = Inr js" "stageUsageAggregationJournals fault js db = Inr staged"
      "writeRequestLogBatch fault ?new staged = Inr db'"
      using assms prep by (auto simp: WriteBatch_def split: if_splits)
    moreover from this(2) have "staged = db\<lparr> db_journals := insert_journals js (db_journals db) \<rparr>"
      by (auto simp: stageUsageAggregationJournals_def split: if_splits)
    moreover have "distinct (map lg_ID ?new)" using u(1) by (simp add: distinct_map_filter)
    ultimately show thesis using that(2) [of ?new js] False ids u(2) by auto
  qed
qed

text \<open>The entries of a batch that are not in the journal yet: they are staged, pending, and nothing else is.\<close>

lemma fresh_entries:
  assumes inv: "db_inv written db" and new: "list_all row_int64 new" "distinct (map lg_ID new)"
    and build: "buildUsageAggregationJournals new = Inr js"
  defines "fresh \<equiv> filter (\<lambda>j. jn_RequestID j \<notin> jn_RequestID ` set (db_journals db)) js"
  shows "insert_journals js (db_journals db) = db_journals db @ fresh"
    and "filter (\<lambda>j. jn_RequestID j \<in> lg_ID ` set new \<and> \<not> jn_Applied j) (db_journals db @ fresh) = fresh"
    and "list_all (\<lambda>j. \<not> jn_Applied j) fresh" and "\<And>j. j \<in> set fresh \<Longrightarrow> \<exists>row \<in> set new. lg_AttemptCount row \<noteq> 0 \<and> entry_of row j"
    and "distinct (map jn_RequestID (db_journals db @ fresh))"
    and "\<And>row. row \<in> set new \<Longrightarrow> lg_AttemptCount row \<noteq> 0 \<Longrightarrow> lg_ID row \<in> jn_RequestID ` set (db_journals db @ fresh)"
proof -
  let ?attempted = "filter (\<lambda>row. lg_AttemptCount row \<noteq> 0) new"
  have js: "list_all2 entry_of ?attempted js" "list_all (\<lambda>j. \<not> jn_Applied j) js" using journals_Inr [OF build new(1)] by blast+
  have ids: "map jn_RequestID js = map lg_ID ?attempted" by (rule entry_ids [OF js(1)])
  have djs: "distinct (map jn_RequestID js)" unfolding ids using new(2) by (rule distinct_map_filter)
  show "insert_journals js (db_journals db) = db_journals db @ fresh" using insert_journals_fresh [OF djs] by (simp add: fresh_def)
  have fsub: "set fresh \<subseteq> set js" by (auto simp: fresh_def)
  show fnot: "list_all (\<lambda>j. \<not> jn_Applied j) fresh" using js(2) fsub by (auto simp: list_all_iff)
  have old: "list_all jn_Applied (db_journals db)" using inv by (simp add: db_inv_def)
  have fids: "jn_RequestID ` set fresh \<subseteq> lg_ID ` set new"
    using fsub ids by (metis (no_types, lifting) filter_is_subset image_mono list.set_map order_trans)
  show "filter (\<lambda>j. jn_RequestID j \<in> lg_ID ` set new \<and> \<not> jn_Applied j) (db_journals db @ fresh) = fresh"
    using old fnot fids by (auto simp: list_all_iff filter_empty_conv intro!: filter_True)
  show "\<exists>row \<in> set new. lg_AttemptCount row \<noteq> 0 \<and> entry_of row j" if "j \<in> set fresh" for j
    using entry_member [OF js(1)] fsub that by fastforce
  show "distinct (map jn_RequestID (db_journals db @ fresh))"
    using inv djs by (auto simp: db_inv_def fresh_def distinct_map_filter) (metis image_eqI)
  show "lg_ID row \<in> jn_RequestID ` set (db_journals db @ fresh)" if "row \<in> set new" "lg_AttemptCount row \<noteq> 0" for row
  proof -
    have "lg_ID row \<in> set (map lg_ID ?attempted)" using that by simp
    then have "lg_ID row \<in> jn_RequestID ` set js" unfolding ids [symmetric] by simp
    then show ?thesis by (auto simp: fresh_def image_Un)
  qed
qed

lemma WriteBatch_inv:
  assumes inv: "db_inv written db" and rows: "list_all row_int64 rows" and run: "WriteBatch fault rows (Some db) = Inr db'"
  shows "db_inv (written \<union> set rows) db' \<and> lg_ID ` set rows \<subseteq> lg_ID ` set (db_logs db')"
  using run
proof (cases rule: WriteBatch_cases)
  case 1
  then show ?thesis using inv unfolding db_inv_def by blast
next
  case (2 new js)
  have new: "list_all row_int64 new" using rows 2(3) by (auto simp: list_all_iff)
  define fresh where "fresh = filter (\<lambda>j. jn_RequestID j \<notin> jn_RequestID ` set (db_journals db)) js"
  note f = fresh_entries [OF inv new 2(2) 2(5), folded fresh_def]
  have old: "list_all jn_Applied (db_journals db)" using inv by (simp add: db_inv_def)
  obtain db2 where db2: "db_logs db2 = db_logs db @ new" "db_journals db2 = db_journals db @ fresh" "db_stats db2 = db_stats db"
    and run2: "applyUsageJournalBatch fault (sort_key jn_RequestID fresh) db2 = Inr db'"
    using writeRequestLogBatch_Inr [OF 2(6) 2(1)] by (auto simp: f(1,2) simp del: filter_append)
  have jok: "list_all (\<lambda>j. delta_ok (jn_delta j)) (sort_key jn_RequestID fresh)" using f(4) by (fastforce simp: list_all_iff entry_of_def)
  have sok: "\<And>k. delta_ok (delta_at (db_stats db2) k)" "wf_map (db_stats db2)" using inv by (simp_all add: db2 db_inv_def)
  note app = applyUsageJournalBatch_Inr [OF run2 jok sok]
  have empty: "sort_key jn_RequestID fresh = [] \<longleftrightarrow> fresh = []" by (metis length_0_conv length_sort)
  have journals: "db_journals db' = db_journals db @ map (\<lambda>j. j\<lparr> jn_Applied := True \<rparr>) fresh"
    using app mark_applied_all [OF old _ f(3), of "map jn_RequestID (sort_key jn_RequestID fresh)"] by (auto simp: db2 empty)
  have ids: "map jn_RequestID (db_journals db') = map jn_RequestID (db_journals db @ fresh)" by (simp add: journals)
  then have idset: "jn_RequestID ` set (db_journals db') = jn_RequestID ` set (db_journals db @ fresh)" by (metis list.set_map)
  have "\<exists>row \<in> written \<union> set rows. lg_AttemptCount row \<noteq> 0 \<and> entry_of row j" if "j \<in> set (db_journals db')" for j
    using that inv f(4) 2(3) by (fastforce simp: journals db_inv_def)
  moreover have "distinct (map jn_RequestID (db_journals db'))" using f(5) by (simp only: ids)
  moreover have "field (delta_at (db_stats db') k) i = journal_sum (db_journals db') k i" if "i < 14" for k i
  proof -
    have "field (delta_at (db_stats db') k) i = field (delta_at (db_stats db) k) i + journal_sum fresh k i"
      using app that by (simp add: db2)
    moreover have "field (delta_at (db_stats db) k) i = journal_sum (db_journals db) k i" using inv that by (simp add: db_inv_def)
    ultimately show ?thesis by (simp add: journals)
  qed
  moreover have "list_all jn_Applied (db_journals db')" using old by (auto simp: journals list_all_iff)
  moreover have logs: "db_logs db' = db_logs db @ new" using app db2 by simp
  moreover have "lg_AttemptCount row \<noteq> 0 \<Longrightarrow> lg_ID row \<in> jn_RequestID ` set (db_journals db')" if "row \<in> set (db_logs db')" for row
    using that f(6) inv unfolding idset logs by (auto simp: db_inv_def)
  ultimately show ?thesis using app inv 2(3,4) unfolding db_inv_def by auto
qed

section \<open>Properties\<close>

text \<open>
  The life of the tables: batches are written, with statements failing here and there and a failed batch
  leaving the store as it was, and retention deletes request logs, with their attempts, by identifier.
\<close>

datatype log_step = WriteRows "statement \<Rightarrow> bool" "RequestLog list" | ExpireLogs "string list"

fun step_rows :: "log_step \<Rightarrow> RequestLog list" where
  "step_rows (WriteRows fault rows) = rows"
| "step_rows (ExpireLogs ids) = []"

fun log_after :: "log_step \<Rightarrow> database \<Rightarrow> database" where
  "log_after (WriteRows fault rows) db = (case WriteBatch fault rows (Some db) of Inl e \<Rightarrow> db | Inr db' \<Rightarrow> db')"
| "log_after (ExpireLogs ids) db =
     db\<lparr> db_logs := filter (\<lambda>row. lg_ID row \<notin> set ids) (db_logs db), db_attempts := filter (\<lambda>a. la_RequestID a \<notin> set ids) (db_attempts db) \<rparr>"

definition written_rows :: "log_step list \<Rightarrow> RequestLog list" where
  "written_rows steps = concat (map step_rows steps)"

definition run_log :: "log_step list \<Rightarrow> database" where
  "run_log steps = fold log_after steps empty_database"

lemma db_inv_mono: "db_inv written db \<Longrightarrow> written \<subseteq> written' \<Longrightarrow> db_inv written' db"
  unfolding db_inv_def by blast

lemma run_log_inv: "list_all row_int64 (written_rows steps) \<Longrightarrow> db_inv (set (written_rows steps)) (run_log steps)"
proof (induction steps rule: rev_induct)
  case Nil
  show ?case by (simp add: run_log_def written_rows_def empty_database_def db_inv_def delta_at_def)
next
  case (snoc step steps)
  then have inv: "db_inv (set (written_rows steps)) (run_log steps)" by (simp add: written_rows_def)
  show ?case
  proof (cases step)
    case (WriteRows fault rows)
    have rows: "list_all row_int64 rows" using snoc.prems WriteRows by (simp add: written_rows_def)
    show ?thesis using inv WriteBatch_inv [OF inv rows]
      by (auto simp: WriteRows run_log_def written_rows_def intro: db_inv_mono split: sum.split)
  next
    case (ExpireLogs ids)
    show ?thesis using inv by (auto simp: ExpireLogs run_log_def written_rows_def db_inv_def)
  qed
qed

definition sample_row :: "string \<Rightarrow> string \<Rightarrow> RequestLog" where
  "sample_row name status = \<lparr> lg_ID = name, lg_CompletedAtMS = 7200001, lg_AccessKeyID = 1, lg_GroupID = 2, lg_ChannelID = ''openai'',
     lg_CredentialID = 3, lg_UpstreamModel = ''m'', lg_Status = status, lg_AttemptCount = 1, lg_UncachedInputTokens = 10,
     lg_OutputTokens = 5, lg_CacheReadTokens = 0, lg_CacheWrite5MTokens = 0, lg_CacheWrite1HTokens = 0,
     lg_CacheWriteUnknownTokens = 0, lg_EstimatedCostNanoUSD = 100, lg_UsageState = StateComplete, lg_CostState = CostStatePriced,
     lg_PricingCompleteness = CompletenessComplete,
     lg_AttemptRows = [\<lparr> la_RequestID = name, la_Sequence = 1, la_CompletedAtMS = 7200001, la_CredentialID = 3,
       la_DispatchState = ''maybe_sent'', la_FailureCategory = ''ok'' \<rparr>] \<rparr>"

definition sample_steps :: "log_step list" where
  "sample_steps =
     [WriteRows (\<lambda>s. s = MarkApplied) [sample_row ''a'' ''success''],
      WriteRows (\<lambda>s. False) [sample_row ''a'' ''success'', sample_row ''b'' ''error'', sample_row ''a'' ''success''],
      WriteRows (\<lambda>s. False) [sample_row ''b'' ''error''],
      ExpireLogs [''a''],
      WriteRows (\<lambda>s. False) [sample_row ''a'' ''success'']]"





end
