(* ===== verification/Request_Log.thy ===== *)
theory Request_Log
  imports Usage_Aggregation_Theorems Access_Quota
begin

text \<open>
  The request log service (\<open>internal/requestlog/service.go\<close> and the worker of \<open>worker.go\<close>): the queue, its
  lifecycle, the worker that collects batches, writes them and drains the queue at the end, and the counters that
  account for every event.

  An event is opaque; \<open>project\<close> stands for its projection into a row, which may fail. What the environment does at
  a write is an \<open>outcome\<close>: the statements that fail, whether the quota snapshots can be written, what the passive
  observations return, and the clock. The service owns its tables. The text of warnings is left out.
\<close>

section \<open>State\<close>

definition queueCapacity :: nat where "queueCapacity = 4096"
definition batchSize :: nat where "batchSize = 500"

datatype lifecycleState = lifecycleNew | lifecycleRunning | lifecycleStopping | lifecycleStopped

datatype service_error = ErrAlreadyStarted | ErrNotRestartable | StartFailed | StopCanceled | FinalCheckpointFailed

text \<open>
  Where the worker is: before its start, at the select of \<open>runWorker\<close>, in the loop of \<open>collectAndWrite\<close> or of \<open>drain\<close>
  with the batch so far, in the final loop over the quota snapshots, or at its end.
\<close>

datatype 'e worker = Waiting | Selecting | Collecting "'e list" | Draining "'e list" | Flushing | Finished

record 'e Service =
  sv_queue :: "'e list"
  sv_db :: database
  sv_startErr :: bool
  sv_accessQuota :: "Runtime option"
  sv_hasWake :: bool
  sv_quotaWake :: bool
  sv_state :: lifecycleState
  sv_canceled :: bool
  sv_stopRequested :: bool
  sv_shutdownErr :: "service_error option"
  sv_worker :: "'e worker"
  sv_enqueuedTotal :: uint64
  sv_persistedTotal :: uint64
  sv_droppedNotRunningTotal :: uint64
  sv_droppedQueueFullTotal :: uint64
  sv_droppedStoppingTotal :: uint64
  sv_droppedPersistFailedTotal :: uint64
  sv_droppedShutdownTotal :: uint64
  sv_writeFailureTotal :: uint64
  sv_quotaFailureTotal :: uint64
  sv_quotaDegraded :: bool
  sv_lastWriteFailureAt :: time
  sv_lastQuotaFailureAt :: time

record outcome =
  oc_fault :: "statement \<Rightarrow> bool"
  oc_snapshotsFail :: bool
  oc_passiveAgain :: bool
  oc_now :: time

text \<open>
  The service as \<open>NewService\<close> makes it, with the passive observations of \<open>SetPassiveQuotaFlusher\<close> when there are any. An
  incomplete configuration is a start error.
\<close>

definition newService :: "bool \<Rightarrow> Runtime option \<Rightarrow> bool \<Rightarrow> database \<Rightarrow> 'e Service" where
  "newService startErr accessQuota passiveQuota db =
     \<lparr> sv_queue = [], sv_db = db, sv_startErr = startErr, sv_accessQuota = accessQuota, sv_hasWake = (accessQuota \<noteq> None \<or> passiveQuota), sv_quotaWake = False,
       sv_state = lifecycleNew, sv_canceled = False, sv_stopRequested = False, sv_shutdownErr = None, sv_worker = Waiting,
       sv_enqueuedTotal = 0, sv_persistedTotal = 0, sv_droppedNotRunningTotal = 0, sv_droppedQueueFullTotal = 0,
       sv_droppedStoppingTotal = 0, sv_droppedPersistFailedTotal = 0, sv_droppedShutdownTotal = 0, sv_writeFailureTotal = 0,
       sv_quotaFailureTotal = 0, sv_quotaDegraded = False, sv_lastWriteFailureAt = 0, sv_lastQuotaFailureAt = 0 \<rparr>"

section \<open>Operations\<close>

definition wakeAccessQuotaCheckpoint :: "'e Service \<Rightarrow> 'e Service" where
  "wakeAccessQuotaCheckpoint s = (if sv_hasWake s then s\<lparr> sv_quotaWake := True \<rparr> else s)"

definition dirty_quota :: "int \<Rightarrow> 'e Service \<Rightarrow> RestoredState list" where
  "dirty_quota limit s = (case sv_accessQuota s of None \<Rightarrow> [] | Some runtime \<Rightarrow> DirtySnapshots limit runtime)"

definition Start :: "'e Service \<Rightarrow> service_error option \<times> 'e Service" where
  "Start s =
     (case sv_state s of
        lifecycleRunning \<Rightarrow> (Some ErrAlreadyStarted, s)
      | lifecycleStopping \<Rightarrow> (Some ErrNotRestartable, s)
      | lifecycleStopped \<Rightarrow> (Some ErrNotRestartable, s)
      | lifecycleNew \<Rightarrow>
          if sv_startErr s then (Some StartFailed, s\<lparr> sv_state := lifecycleStopped \<rparr>)
          else let started = s\<lparr> sv_state := lifecycleRunning, sv_worker := Selecting \<rparr>
            in (None, if dirty_quota 1 s \<noteq> [] then wakeAccessQuotaCheckpoint started else started))"

definition Emit :: "'e \<Rightarrow> 'e Service \<Rightarrow> 'e Service" where
  "Emit event s =
     (case sv_state s of
        lifecycleNew \<Rightarrow> s\<lparr> sv_droppedNotRunningTotal := sv_droppedNotRunningTotal s + 1 \<rparr>
      | lifecycleRunning \<Rightarrow>
          if length (sv_queue s) < queueCapacity
          then s\<lparr> sv_queue := sv_queue s @ [event], sv_enqueuedTotal := sv_enqueuedTotal s + 1 \<rparr>
          else s\<lparr> sv_droppedQueueFullTotal := sv_droppedQueueFullTotal s + 1 \<rparr>
      | _ \<Rightarrow> s\<lparr> sv_droppedStoppingTotal := sv_droppedStoppingTotal s + 1 \<rparr>)"

text \<open>\<open>Stop\<close> up to the point where it waits: a service that never ran is stopped at once.\<close>

definition Stop :: "'e Service \<Rightarrow> 'e Service" where
  "Stop s =
     (case sv_state s of
        lifecycleNew \<Rightarrow> s\<lparr> sv_state := lifecycleStopped \<rparr>
      | lifecycleRunning \<Rightarrow> s\<lparr> sv_state := lifecycleStopping, sv_stopRequested := True \<rparr>
      | _ \<Rightarrow> s)"

definition cancelShutdown :: "'e Service \<Rightarrow> service_error option \<times> 'e Service" where
  "cancelShutdown s =
     (if sv_state s \<noteq> lifecycleStopping then (sv_shutdownErr s, s)
      else case sv_shutdownErr s of
        None \<Rightarrow> (Some StopCanceled, s\<lparr> sv_canceled := True, sv_shutdownErr := Some StopCanceled \<rparr>)
      | Some e \<Rightarrow> (Some e, s))"

definition finishShutdown :: "'e Service \<Rightarrow> 'e Service" where
  "finishShutdown s = s\<lparr> sv_state := lifecycleStopped \<rparr>"

definition recordFinalQuotaCheckpointFailure :: "'e Service \<Rightarrow> 'e Service" where
  "recordFinalQuotaCheckpointFailure s =
     (if sv_shutdownErr s = None then s\<lparr> sv_shutdownErr := Some FinalCheckpointFailed \<rparr> else s)"

text \<open>The counters that \<open>Stats\<close> adds up.\<close>

definition Stats_DroppedTotal :: "'e Service \<Rightarrow> uint64" where
  "Stats_DroppedTotal s = sv_droppedNotRunningTotal s + sv_droppedQueueFullTotal s + sv_droppedStoppingTotal s
     + sv_droppedPersistFailedTotal s + sv_droppedShutdownTotal s"

definition recordPersistFailure :: "time \<Rightarrow> nat \<Rightarrow> 'e Service \<Rightarrow> 'e Service" where
  "recordPersistFailure now n s =
     s\<lparr> sv_droppedPersistFailedTotal := sv_droppedPersistFailedTotal s + of_nat n,
        sv_writeFailureTotal := sv_writeFailureTotal s + 1, sv_lastWriteFailureAt := now \<rparr>"

definition recordAccessQuotaCheckpointFailure :: "time \<Rightarrow> 'e Service \<Rightarrow> 'e Service" where
  "recordAccessQuotaCheckpointFailure now s =
     s\<lparr> sv_quotaFailureTotal := sv_quotaFailureTotal s + 1, sv_lastQuotaFailureAt := now \<rparr>"

definition ack_all :: "RestoredState list \<Rightarrow> Runtime \<Rightarrow> Runtime" where
  "ack_all snapshots runtime =
     fold (\<lambda>p. Ack (rs_AccessKeyID p) (rs_RuleID p) (rs_RuleRevision p) (rs_SnapshotVersion p)) snapshots runtime"

definition flushAccessQuotaCheckpoints :: "outcome \<Rightarrow> 'e Service \<Rightarrow> bool \<times> 'e Service" where
  "flushAccessQuotaCheckpoints oc s =
     (case sv_accessQuota s of
        None \<Rightarrow> (False, s)
      | Some runtime \<Rightarrow>
          let snapshots = DirtySnapshots (int batchSize) runtime in
          if snapshots = [] then (False, s\<lparr> sv_quotaDegraded := False \<rparr>)
          else if oc_snapshotsFail oc
          then (True, wakeAccessQuotaCheckpoint (recordAccessQuotaCheckpointFailure (oc_now oc) (s\<lparr> sv_quotaDegraded := True \<rparr>)))
          else let acked = s\<lparr> sv_accessQuota := Some (ack_all snapshots runtime) \<rparr>
            in (False, if dirty_quota 1 acked \<noteq> [] then wakeAccessQuotaCheckpoint acked else acked\<lparr> sv_quotaDegraded := False \<rparr>))"

text \<open>Passive observations that remain, or a failure to write them, only wake the worker again.\<close>

definition flushPassiveQuotaCheckpoint :: "outcome \<Rightarrow> 'e Service \<Rightarrow> 'e Service" where
  "flushPassiveQuotaCheckpoint oc s = (if oc_passiveAgain oc then wakeAccessQuotaCheckpoint s else s)"

definition persist_rows :: "outcome \<Rightarrow> RequestLog list \<Rightarrow> 'e Service \<Rightarrow> 'e Service" where
  "persist_rows oc rows s =
     (if rows = [] then s
      else case WriteBatch (oc_fault oc) rows (Some (sv_db s)) of
        Inl e \<Rightarrow> recordPersistFailure (oc_now oc) (length rows) s
      | Inr db \<Rightarrow> s\<lparr> sv_db := db, sv_persistedTotal := sv_persistedTotal s + of_nat (length rows) \<rparr>)"

definition writeBatch :: "('e \<Rightarrow> RequestLog option) \<Rightarrow> outcome \<Rightarrow> 'e list \<Rightarrow> 'e Service \<Rightarrow> bool \<times> 'e Service" where
  "writeBatch project oc events s =
     (let rows = List.map_filter project events;
          failures = length (filter (\<lambda>event. project event = None) events);
          s1 = (if 0 < failures then recordPersistFailure (oc_now oc) failures s else s);
          (failed, s2) = flushAccessQuotaCheckpoints oc (persist_rows oc rows s1)
      in (failed, flushPassiveQuotaCheckpoint oc s2))"

definition dropUnattempted :: "'e list \<Rightarrow> 'e Service \<Rightarrow> 'e Service" where
  "dropUnattempted batch s =
     s\<lparr> sv_queue := [], sv_droppedShutdownTotal := sv_droppedShutdownTotal s + of_nat (length batch + length (sv_queue s)) \<rparr>"

definition goto :: "'e worker \<Rightarrow> 'e Service \<Rightarrow> 'e Service" where
  "goto w s = s\<lparr> sv_worker := w \<rparr>"

section \<open>The worker\<close>

text \<open>
  One round of a loop of the worker. Where a \<open>select\<close> has several channels ready, each of them is a step. The queue
  cannot grow while it is drained or dropped: the worker is only asked to stop, and only canceled, after the service
  refuses events.
\<close>

inductive worker_step :: "('e \<Rightarrow> RequestLog option) \<Rightarrow> 'e Service \<Rightarrow> 'e Service \<Rightarrow> bool" for project where
  select_canceled: "sv_worker s = Selecting \<Longrightarrow> sv_canceled s \<Longrightarrow>
    worker_step project s (goto Finished (dropUnattempted [] s))"
| select_stop: "sv_worker s = Selecting \<Longrightarrow> sv_stopRequested s \<Longrightarrow> worker_step project s (goto (Draining []) s)"
| select_wake: "sv_worker s = Selecting \<Longrightarrow> sv_quotaWake s \<Longrightarrow>
    worker_step project s (goto (Collecting []) (s\<lparr> sv_quotaWake := False \<rparr>))"
| select_event: "sv_worker s = Selecting \<Longrightarrow> sv_queue s = e # es \<Longrightarrow>
    worker_step project s (goto (Collecting [e]) (s\<lparr> sv_queue := es \<rparr>))"
| collect_canceled: "sv_worker s = Collecting batch \<Longrightarrow> sv_canceled s \<Longrightarrow>
    worker_step project s (goto Finished (dropUnattempted batch s))"
| collect_stop: "sv_worker s = Collecting batch \<Longrightarrow> length batch < batchSize \<Longrightarrow> sv_stopRequested s \<Longrightarrow>
    worker_step project s (goto (Draining batch) s)"
| collect_event: "sv_worker s = Collecting batch \<Longrightarrow> length batch < batchSize \<Longrightarrow> sv_queue s = e # es \<Longrightarrow>
    worker_step project s (goto (Collecting (batch @ [e])) (s\<lparr> sv_queue := es \<rparr>))"
| collect_wake: "sv_worker s = Collecting batch \<Longrightarrow> length batch < batchSize \<Longrightarrow> sv_quotaWake s \<Longrightarrow>
    worker_step project s (s\<lparr> sv_quotaWake := False \<rparr>)"
| collect_timer: "sv_worker s = Collecting batch \<Longrightarrow> length batch < batchSize \<Longrightarrow>
    worker_step project s (goto Selecting (snd (writeBatch project oc batch s)))"
| collect_full: "sv_worker s = Collecting batch \<Longrightarrow> batchSize \<le> length batch \<Longrightarrow> \<not> sv_canceled s \<Longrightarrow>
    worker_step project s (goto Selecting (snd (writeBatch project oc batch s)))"
| drain_canceled: "sv_worker s = Draining batch \<Longrightarrow> sv_canceled s \<Longrightarrow>
    worker_step project s (goto Finished (dropUnattempted batch s))"
| drain_full: "sv_worker s = Draining batch \<Longrightarrow> \<not> sv_canceled s \<Longrightarrow> length batch = batchSize \<Longrightarrow>
    worker_step project s (goto (Draining []) (snd (writeBatch project oc batch s)))"
| drain_event: "sv_worker s = Draining batch \<Longrightarrow> \<not> sv_canceled s \<Longrightarrow> length batch \<noteq> batchSize \<Longrightarrow> sv_queue s = e # es \<Longrightarrow>
    worker_step project s (goto (Draining (batch @ [e])) (s\<lparr> sv_queue := es \<rparr>))"
| drain_idle: "sv_worker s = Draining [] \<Longrightarrow> \<not> sv_canceled s \<Longrightarrow> sv_queue s = [] \<Longrightarrow> sv_accessQuota s = None \<Longrightarrow>
    worker_step project s (goto Flushing s)"
| drain_last: "sv_worker s = Draining batch \<Longrightarrow> \<not> sv_canceled s \<Longrightarrow> length batch \<noteq> batchSize \<Longrightarrow> sv_queue s = [] \<Longrightarrow>
    batch \<noteq> [] \<or> sv_accessQuota s \<noteq> None \<Longrightarrow> writeBatch project oc batch s = (False, s') \<Longrightarrow>
    worker_step project s (goto Flushing s')"
| drain_failed: "sv_worker s = Draining batch \<Longrightarrow> \<not> sv_canceled s \<Longrightarrow> length batch \<noteq> batchSize \<Longrightarrow> sv_queue s = [] \<Longrightarrow>
    batch \<noteq> [] \<or> sv_accessQuota s \<noteq> None \<Longrightarrow> writeBatch project oc batch s = (True, s') \<Longrightarrow>
    worker_step project s (goto Finished (recordFinalQuotaCheckpointFailure s'))"
| flush_canceled: "sv_worker s = Flushing \<Longrightarrow> dirty_quota 1 s \<noteq> [] \<Longrightarrow> sv_canceled s \<Longrightarrow> worker_step project s (goto Finished s)"
| flush_again: "sv_worker s = Flushing \<Longrightarrow> dirty_quota 1 s \<noteq> [] \<Longrightarrow> \<not> sv_canceled s \<Longrightarrow>
    flushAccessQuotaCheckpoints oc s = (False, s') \<Longrightarrow> worker_step project s s'"
| flush_failed: "sv_worker s = Flushing \<Longrightarrow> dirty_quota 1 s \<noteq> [] \<Longrightarrow> \<not> sv_canceled s \<Longrightarrow>
    flushAccessQuotaCheckpoints oc s = (True, s') \<Longrightarrow> worker_step project s (goto Finished (recordFinalQuotaCheckpointFailure s'))"
| flush_done: "sv_worker s = Flushing \<Longrightarrow> dirty_quota 1 s = [] \<Longrightarrow> worker_step project s (goto Finished s)"

text \<open>What happens to the service: calls, steps of the worker, and changes of the quota runtime that wake it.\<close>

datatype 'e action = EmitEvent 'e | StartService | StopService | CancelStop | FinishStop | WorkerStep | QuotaChange Runtime

inductive service_step :: "('e \<Rightarrow> RequestLog option) \<Rightarrow> 'e action \<Rightarrow> 'e Service \<Rightarrow> 'e Service \<Rightarrow> bool" for project where
  emit: "service_step project (EmitEvent e) s (Emit e s)"
| start: "service_step project StartService s (snd (Start s))"
| stop: "service_step project StopService s (Stop s)"
| cancel: "service_step project CancelStop s (snd (cancelShutdown s))"
| finish: "sv_state s = lifecycleStopping \<Longrightarrow> sv_worker s = Finished \<Longrightarrow> service_step project FinishStop s (finishShutdown s)"
| worker: "worker_step project s s' \<Longrightarrow> service_step project WorkerStep s s'"
| quota: "sv_accessQuota s \<noteq> None \<Longrightarrow>
    service_step project (QuotaChange runtime) s (wakeAccessQuotaCheckpoint (s\<lparr> sv_accessQuota := Some runtime \<rparr>))"

inductive service_run :: "('e \<Rightarrow> RequestLog option) \<Rightarrow> 'e Service \<Rightarrow> 'e action list \<Rightarrow> 'e Service \<Rightarrow> bool" for project s0 where
  run_start: "service_run project s0 [] s0"
| run_step: "service_run project s0 as s \<Longrightarrow> service_step project a s s' \<Longrightarrow> service_run project s0 (as @ [a]) s'"

end
