(* ===== verification/Request_Log_Theorems.thy ===== *)
theory Request_Log_Theorems
  imports Request_Log
begin

text \<open>
  The accounting of the request log: after any calls and steps every emitted event is counted as persisted, as
  dropped for one of five reasons, or is still in the queue or in the batch of the worker; and the worker leaves
  the loop that drains the queue.
\<close>

inductive_cases service_stepE: "service_step project a s s'"

section \<open>What the operations leave alone\<close>

definition in_flight :: "'e Service \<Rightarrow> 'e list" where
  "in_flight s = (case sv_worker s of Collecting batch \<Rightarrow> batch | Draining batch \<Rightarrow> batch | _ \<Rightarrow> [])"

text \<open>The events that the counters of the worker have settled.\<close>

definition settled_events :: "'e Service \<Rightarrow> uint64" where
  "settled_events s = sv_persistedTotal s + sv_droppedPersistFailedTotal s + sv_droppedShutdownTotal s"

definition control :: "'e Service \<Rightarrow> 'e list \<times> lifecycleState \<times> bool \<times> bool \<times> 'e worker \<times> uint64 \<times> uint64 \<times> uint64 \<times> uint64" where
  "control s = (sv_queue s, sv_state s, sv_canceled s, sv_stopRequested s, sv_worker s, sv_enqueuedTotal s,
     sv_droppedNotRunningTotal s, sv_droppedQueueFullTotal s, sv_droppedStoppingTotal s)"

definition dropped_before :: "'e Service \<Rightarrow> uint64" where
  "dropped_before s = sv_droppedNotRunningTotal s + sv_droppedQueueFullTotal s + sv_droppedStoppingTotal s"

lemma wake_keeps [simp]: "control (wakeAccessQuotaCheckpoint s) = control s" "settled_events (wakeAccessQuotaCheckpoint s) = settled_events s"
  by (simp_all add: wakeAccessQuotaCheckpoint_def control_def settled_events_def)

lemma flush_keeps [simp]:
  "control (snd (flushAccessQuotaCheckpoints oc s)) = control s" "settled_events (snd (flushAccessQuotaCheckpoints oc s)) = settled_events s"
  by (simp_all add: flushAccessQuotaCheckpoints_def recordAccessQuotaCheckpointFailure_def Let_def split: option.split)
    (simp_all add: control_def settled_events_def)

lemma passive_keeps [simp]: "control (flushPassiveQuotaCheckpoint oc s) = control s" "settled_events (flushPassiveQuotaCheckpoint oc s) = settled_events s"
  by (simp_all add: flushPassiveQuotaCheckpoint_def)

lemma final_keeps [simp]:
  "control (recordFinalQuotaCheckpointFailure s) = control s" "settled_events (recordFinalQuotaCheckpointFailure s) = settled_events s"
  by (simp_all add: recordFinalQuotaCheckpointFailure_def control_def settled_events_def)

lemma persist_counts:
  "control (persist_rows oc rows s) = control s" "settled_events (persist_rows oc rows s) = settled_events s + of_nat (length rows)"
  by (auto simp: persist_rows_def recordPersistFailure_def control_def settled_events_def split: sum.split)

lemma map_filter_length: "length (List.map_filter f xs) + length (filter (\<lambda>x. f x = None) xs) = length xs"
  by (induction xs) (auto simp: List.map_filter_simps split: option.split)

text \<open>A written batch settles each of its events once.\<close>

lemma writeBatch_counts:
  "control (snd (writeBatch project oc batch s)) = control s"
  "settled_events (snd (writeBatch project oc batch s)) = settled_events s + of_nat (length batch)"
proof -
  let ?rows = "List.map_filter project batch" and ?n = "length (filter (\<lambda>event. project event = None) batch)"
  define s1 where "s1 = (if 0 < ?n then recordPersistFailure (oc_now oc) ?n s else s)"
  have w: "snd (writeBatch project oc batch s) = flushPassiveQuotaCheckpoint oc (snd (flushAccessQuotaCheckpoints oc (persist_rows oc ?rows s1)))"
    unfolding writeBatch_def Let_def s1_def by (simp add: split_beta)
  have s1: "control s1 = control s" "settled_events s1 = settled_events s + of_nat ?n"
    by (auto simp: s1_def recordPersistFailure_def control_def settled_events_def)
  show "control (snd (writeBatch project oc batch s)) = control s" by (simp add: w persist_counts s1)
  have "of_nat ?n + of_nat (length ?rows) = (of_nat (length batch) :: uint64)"
    using map_filter_length [of project batch] by (metis add.commute of_nat_add)
  then show "settled_events (snd (writeBatch project oc batch s)) = settled_events s + of_nat (length batch)"
    by (simp add: w persist_counts s1 add.assoc)
qed

lemma control_sel:
  "control s = control s' \<Longrightarrow> sv_queue s = sv_queue s' \<and> sv_state s = sv_state s' \<and> sv_canceled s = sv_canceled s'
    \<and> sv_stopRequested s = sv_stopRequested s' \<and> sv_worker s = sv_worker s' \<and> sv_enqueuedTotal s = sv_enqueuedTotal s' \<and> dropped_before s = dropped_before s'"
  by (simp add: control_def dropped_before_def)

lemmas writeBatch_control = control_sel [OF writeBatch_counts(1)]
lemmas flush_control = control_sel [OF flush_keeps(1)]

lemma goto_simps [simp]:
  "sv_queue (goto w s) = sv_queue s" "sv_state (goto w s) = sv_state s" "sv_canceled (goto w s) = sv_canceled s"
  "sv_stopRequested (goto w s) = sv_stopRequested s" "sv_worker (goto w s) = w" "sv_enqueuedTotal (goto w s) = sv_enqueuedTotal s"
  "dropped_before (goto w s) = dropped_before s" "settled_events (goto w s) = settled_events s"
  "sv_accessQuota (goto w s) = sv_accessQuota s"
  by (simp_all add: goto_def dropped_before_def settled_events_def)

section \<open>The invariant\<close>

text \<open>Every event that was queued is settled, queued or in the batch; a worker that has ended has left nothing behind.\<close>

definition stopping :: "'e Service \<Rightarrow> bool" where
  "stopping s \<longleftrightarrow> sv_state s = lifecycleStopping \<or> sv_state s = lifecycleStopped"

definition service_inv :: "'e Service \<Rightarrow> bool" where
  "service_inv s \<longleftrightarrow>
     sv_enqueuedTotal s = settled_events s + of_nat (length (sv_queue s) + length (in_flight s))
     \<and> length (sv_queue s) \<le> queueCapacity \<and> length (in_flight s) \<le> batchSize
     \<and> (sv_state s = lifecycleNew \<longrightarrow> sv_worker s = Waiting)
     \<and> (case sv_worker s of
          Waiting \<Rightarrow> sv_queue s = [] \<and> (sv_state s = lifecycleNew \<or> sv_state s = lifecycleStopped)
        | Draining batch \<Rightarrow> stopping s
        | Flushing \<Rightarrow> stopping s \<and> sv_queue s = []
        | Finished \<Rightarrow> stopping s \<and> sv_queue s = []
        | _ \<Rightarrow> True)
     \<and> (sv_canceled s \<or> sv_stopRequested s \<longrightarrow> stopping s)"

lemma batch_positive [simp]: "0 < batchSize" "Suc 0 \<le> batchSize"
  by (simp_all add: batchSize_def)

lemma drop_simps [simp]:
  "sv_queue (dropUnattempted b s) = []" "sv_state (dropUnattempted b s) = sv_state s" "sv_canceled (dropUnattempted b s) = sv_canceled s"
  "sv_stopRequested (dropUnattempted b s) = sv_stopRequested s" "sv_enqueuedTotal (dropUnattempted b s) = sv_enqueuedTotal s"
  "dropped_before (dropUnattempted b s) = dropped_before s"
  "settled_events (dropUnattempted b s) = settled_events s + of_nat (length b + length (sv_queue s))"
  by (simp_all add: dropUnattempted_def dropped_before_def settled_events_def)

lemma queue_update [simp]:
  "settled_events (s\<lparr> sv_queue := q \<rparr>) = settled_events s" "dropped_before (s\<lparr> sv_queue := q \<rparr>) = dropped_before s"
  "settled_events (s\<lparr> sv_quotaWake := w \<rparr>) = settled_events s" "dropped_before (s\<lparr> sv_quotaWake := w \<rparr>) = dropped_before s"
  by (simp_all add: settled_events_def dropped_before_def)

lemmas inv_simps = service_inv_def in_flight_def stopping_def

lemma written_inv:
  assumes "service_inv s" and "in_flight s = batch" and "control s' = control s"
    and "settled_events s' = settled_events s + of_nat (length batch)"
    and "w \<in> {Selecting, Draining [], Flushing, Finished}" and "w \<noteq> Selecting \<Longrightarrow> stopping s"
    and "w = Flushing \<or> w = Finished \<Longrightarrow> sv_queue s = []" and "sv_state s \<noteq> lifecycleNew"
  shows "service_inv (goto w s') \<and> dropped_before (goto w s') = dropped_before s \<and> sv_enqueuedTotal (goto w s') = sv_enqueuedTotal s"
  using assms control_sel [OF assms(3)] by (auto simp: service_inv_def in_flight_def stopping_def split: worker.splits)

lemma worker_keeps_inv:
  assumes "worker_step project s s'" and "service_inv s"
  shows "service_inv s' \<and> dropped_before s' = dropped_before s \<and> sv_enqueuedTotal s' = sv_enqueuedTotal s"
  using assms
proof (induction rule: worker_step.induct)
  case (collect_timer s batch oc)
  then show ?case by (intro written_inv [where batch = batch]) (auto simp: writeBatch_counts inv_simps)
next
  case (collect_full s batch oc)
  then show ?case by (intro written_inv [where batch = batch]) (auto simp: writeBatch_counts inv_simps)
next
  case (drain_full s batch oc)
  then show ?case by (intro written_inv [where batch = batch]) (auto simp: writeBatch_counts inv_simps)
next
  case (drain_last s batch oc s')
  then show ?case using writeBatch_counts [of project oc batch s]
    by (intro written_inv [where batch = batch]) (auto simp: inv_simps)
next
  case (drain_failed s batch oc s')
  then show ?case using writeBatch_counts [of project oc batch s]
    by (intro written_inv [where batch = batch]) (auto simp: inv_simps)
next
  case (flush_again s oc s')
  then show ?case using flush_keeps [of oc s] control_sel [of s' s] by (auto simp: inv_simps)
next
  case (flush_failed s oc s')
  then show ?case using flush_keeps [of oc s]
    by (intro written_inv [where batch = "[]"]) (auto simp: inv_simps)
qed (auto simp: inv_simps)

lemma service_inv_cong:
  assumes "control s' = control s" and "settled_events s' = settled_events s"
  shows "service_inv s' = service_inv s"
proof -
  note c = control_sel [OF assms(1)]
  have "in_flight s' = in_flight s" and "stopping s' = stopping s" using c by (simp_all add: in_flight_def stopping_def)
  then show ?thesis using c assms(2) by (simp add: service_inv_def split: worker.split)
qed

lemma counters_cong: "control s' = control s \<Longrightarrow> sv_enqueuedTotal s' + dropped_before s' = sv_enqueuedTotal s + dropped_before s"
  using control_sel by metis

definition is_emit :: "'e action \<Rightarrow> bool" where
  "is_emit a \<longleftrightarrow> (\<exists>e. a = EmitEvent e)"

text \<open>A call or a step keeps the invariant, and the counters of accepted and refused events count the calls of \<open>Emit\<close>.\<close>

lemma service_step_inv:
  assumes "service_step project a s s'" and "service_inv s"
  shows "service_inv s' \<and> sv_enqueuedTotal s' + dropped_before s' = sv_enqueuedTotal s + dropped_before s + of_bool (is_emit a)"
  using assms
proof (cases rule: service_step.cases)
  case (emit e)
  then show ?thesis using assms(2)
    by (auto simp: Emit_def inv_simps is_emit_def dropped_before_def settled_events_def split: lifecycleState.splits worker.splits)
next
  case start
  let ?started = "s\<lparr> sv_state := lifecycleRunning, sv_worker := Selecting \<rparr>"
  have "service_inv ?started \<and> sv_enqueuedTotal ?started + dropped_before ?started = sv_enqueuedTotal s + dropped_before s"
    if "sv_state s = lifecycleNew"
    using assms(2) that by (auto simp: inv_simps dropped_before_def settled_events_def)
  moreover have "service_inv (s\<lparr> sv_state := lifecycleStopped \<rparr>)" if "sv_state s = lifecycleNew"
    using assms(2) that by (auto simp: inv_simps settled_events_def)
  moreover have "dropped_before (s\<lparr> sv_state := lifecycleStopped \<rparr>) = dropped_before s" by (simp add: dropped_before_def)
  ultimately show ?thesis using start assms(2) service_inv_cong [OF wake_keeps, of ?started] counters_cong [OF wake_keeps(1), of ?started]
    by (auto simp: Start_def Let_def is_emit_def split: lifecycleState.splits)
next
  case stop
  then show ?thesis using assms(2)
    by (auto simp: Stop_def inv_simps is_emit_def dropped_before_def settled_events_def split: lifecycleState.splits worker.splits)
next
  case cancel
  then show ?thesis using assms(2)
    by (auto simp: cancelShutdown_def inv_simps is_emit_def dropped_before_def settled_events_def split: option.splits worker.splits)
next
  case finish
  then show ?thesis using assms(2)
    by (auto simp: finishShutdown_def inv_simps is_emit_def dropped_before_def settled_events_def)
next
  case worker
  then show ?thesis using worker_keeps_inv assms(2) by (auto simp: is_emit_def)
next
  case (quota runtime)
  let ?changed = "s\<lparr> sv_accessQuota := Some runtime \<rparr>"
  have c: "control (wakeAccessQuotaCheckpoint ?changed) = control s" and e: "settled_events (wakeAccessQuotaCheckpoint ?changed) = settled_events s"
    by (simp add: control_def [of ?changed] control_def [of s], simp only: wake_keeps, simp add: settled_events_def)
  then show ?thesis using quota assms(2) service_inv_cong [OF c e] counters_cong [OF c] by (simp add: is_emit_def)
qed

lemma new_service_inv: "service_inv (newService startErr quota passive db)"
  by (simp add: newService_def inv_simps settled_events_def)

interpretation request_log: invariant_system "\<lambda>s s'. \<exists>a. service_step project a s s'" service_inv
  by unfold_locales (use service_step_inv in blast)

lemma service_run_counts:
  "service_run project (newService startErr quota passive db) as s \<Longrightarrow>
    service_inv s \<and> sv_enqueuedTotal s + dropped_before s = of_nat (length (filter is_emit as))"
proof (induction rule: service_run.induct)
  case run_start
  show ?case using new_service_inv by (simp add: newService_def dropped_before_def)
next
  case (run_step as s a s')
  then show ?case using service_step_inv [OF run_step(2)] by auto
qed

section \<open>Properties\<close>


definition quiet :: outcome where
  "quiet = \<lparr> oc_fault = (\<lambda>s. False), oc_snapshotsFail = False, oc_passiveAgain = False, oc_now = 1 \<rparr>"

definition sample_project :: "string \<Rightarrow> RequestLog option" where
  "sample_project name = (if name = [] then None else Some (sample_row name ''success''))"

lemma no_quota:
  assumes "sv_accessQuota s = None"
  shows "fst (writeBatch project oc batch s) = False" and "sv_accessQuota (snd (writeBatch project oc batch s)) = None"
proof -
  have persisted: "sv_accessQuota (persist_rows oc rows t) = sv_accessQuota t" for rows and t :: "'a Service"
    by (simp add: persist_rows_def recordPersistFailure_def split: sum.split)
  show "fst (writeBatch project oc batch s) = False"
    using assms by (simp add: writeBatch_def Let_def flushAccessQuotaCheckpoints_def persisted recordPersistFailure_def)
  show "sv_accessQuota (snd (writeBatch project oc batch s)) = None"
    using assms by (simp add: writeBatch_def Let_def flushAccessQuotaCheckpoints_def flushPassiveQuotaCheckpoint_def
        wakeAccessQuotaCheckpoint_def persisted recordPersistFailure_def)
qed

text \<open>A run: two events are queued, the service is stopped, and the worker drains the queue and ends.\<close>

definition sample_queued :: "string Service" where
  "sample_queued = goto (Draining []) (Stop (Emit [] (Emit ''a'' (snd (Start (newService False None False empty_database))))))"

definition sample_drained :: "string Service" where
  "sample_drained = goto (Draining [''a'', []]) (sample_queued\<lparr> sv_queue := [] \<rparr>)"

definition sample_actions :: "string action list" where
  "sample_actions = [StartService, EmitEvent ''a'', EmitEvent [], StopService, WorkerStep, WorkerStep, WorkerStep, WorkerStep, WorkerStep]"

lemma sample_queued_sel:
  "sv_queue sample_queued = [''a'', []]" "sv_canceled sample_queued = False" "sv_accessQuota sample_queued = None"
  by (simp_all add: sample_queued_def Emit_def Stop_def Start_def newService_def dirty_quota_def queueCapacity_def goto_def)

lemma sample_run_queued:
  "service_run project (newService False None False empty_database)
    [StartService, EmitEvent ''a'', EmitEvent [], StopService, WorkerStep] sample_queued"
proof -
  let ?s0 = "newService False None False empty_database"
  let ?s1 = "snd (Start ?s0)" let ?s2 = "Emit ''a'' ?s1" let ?s3 = "Emit [] ?s2" let ?s4 = "Stop ?s3"
  have r1: "service_run project ?s0 ([] @ [StartService]) ?s1" by (rule run_step [OF run_start start])
  have r2: "service_run project ?s0 (([] @ [StartService]) @ [EmitEvent ''a'']) ?s2" by (rule run_step [OF r1 emit])
  have r3: "service_run project ?s0 ((([] @ [StartService]) @ [EmitEvent ''a'']) @ [EmitEvent []]) ?s3" by (rule run_step [OF r2 emit])
  have r4: "service_run project ?s0 (((([] @ [StartService]) @ [EmitEvent ''a'']) @ [EmitEvent []]) @ [StopService]) ?s4"
    by (rule run_step [OF r3 stop])
  have "sv_worker ?s4 = Selecting \<and> sv_stopRequested ?s4"
    by (simp add: Emit_def Stop_def Start_def newService_def dirty_quota_def queueCapacity_def)
  then have "worker_step project ?s4 sample_queued" unfolding sample_queued_def by (intro select_stop) auto
  from run_step [OF r4 worker [OF this]] show ?thesis by simp
qed

lemma sample_drain_run:
  "service_run project (newService False None False empty_database) sample_actions
    (goto Finished (goto Flushing (snd (writeBatch project quiet [''a'', []] sample_drained))))"
proof -
  let ?s0 = "newService False None False empty_database"
  let ?w = "snd (writeBatch project quiet [''a'', []] sample_drained)"
  let ?s6 = "goto (Draining [''a'']) (sample_queued\<lparr> sv_queue := [[]] \<rparr>)"
  have "worker_step project sample_queued (goto (Draining ([] @ [''a''])) (sample_queued\<lparr> sv_queue := [[]] \<rparr>))"
    by (rule drain_event) (simp_all add: sample_queued_sel batchSize_def, simp add: sample_queued_def)
  then have s6: "worker_step project sample_queued ?s6" by simp
  have "worker_step project ?s6 (goto (Draining ([''a''] @ [[]])) (?s6\<lparr> sv_queue := [] \<rparr>))"
    by (rule drain_event) (simp_all add: batchSize_def, simp_all add: goto_def sample_queued_sel)
  then have s7: "worker_step project ?s6 sample_drained" by (simp add: sample_drained_def goto_def)
  have drained: "sv_worker sample_drained = Draining [''a'', []]" "\<not> sv_canceled sample_drained" "sv_queue sample_drained = []"
    "sv_accessQuota sample_drained = None" by (simp_all add: sample_drained_def sample_queued_sel goto_def)
  note nq = no_quota [OF drained(4), of project quiet "[''a'', []]"]
  have s8: "worker_step project sample_drained (goto Flushing ?w)"
    by (rule drain_last [where oc = quiet and batch = "[''a'', []]"]) (use drained nq in \<open>simp_all add: batchSize_def prod_eq_iff\<close>)
  have s9: "worker_step project (goto Flushing ?w) (goto Finished (goto Flushing ?w))"
    by (rule flush_done) (simp_all add: dirty_quota_def nq)
  have "service_run project ?s0 (((([StartService, EmitEvent ''a'', EmitEvent [], StopService, WorkerStep] @ [WorkerStep]) @ [WorkerStep]) @ [WorkerStep]) @ [WorkerStep])
    (goto Finished (goto Flushing ?w))"
    by (intro run_step [OF run_step [OF run_step [OF run_step [OF sample_run_queued worker [OF s6]] worker [OF s7]] worker [OF s8]] worker [OF s9]])
  then show ?thesis by (simp add: sample_actions_def)
qed


section \<open>Draining\<close>

text \<open>The work that is left in the loop of \<open>drain\<close>.\<close>

definition drain_work :: "'e Service \<Rightarrow> nat" where
  "drain_work s = (case sv_worker s of Draining batch \<Rightarrow> Suc (2 * length (sv_queue s) + length batch) | _ \<Rightarrow> 0)"

text \<open>Property C37. A worker that drains the queue always has a next step, and each of its steps, whatever fails at it, leaves less to do:
  after a stop was requested the worker leaves the loop.\<close>

theorem drain_makes_progress:
  assumes "service_run project (newService startErr quota passive db) as s" and "sv_worker s = Draining batch"
  shows "(\<exists>s'. worker_step project s s') \<and> (\<forall>s'. worker_step project s s' \<longrightarrow> drain_work s' < drain_work s)"
proof
  have small: "length batch \<le> batchSize" using service_run_counts [OF assms(1)] assms(2) by (simp add: inv_simps)
  show "\<exists>s'. worker_step project s s'"
  proof (cases "sv_canceled s")
    case True
    then show ?thesis using assms(2) by (blast intro: drain_canceled)
  next
    case live: False
    show ?thesis
    proof (cases "length batch = batchSize \<or> sv_queue s \<noteq> []")
      case True
      then show ?thesis using assms(2) live by (metis drain_event drain_full list.exhaust)
    next
      case False
      then show ?thesis using assms(2) live drain_last [of s batch project quiet] drain_failed [of s batch project quiet] drain_idle [of s project]
        by (metis (full_types) surj_pair)
    qed
  qed
  have queue: "sv_queue (snd (writeBatch project oc b t)) = sv_queue t" for oc b t using writeBatch_control by blast
  show "\<forall>s'. worker_step project s s' \<longrightarrow> drain_work s' < drain_work s"
  proof (intro allI impI)
    fix s'
    assume "worker_step project s s'"
    then show "drain_work s' < drain_work s"
      using assms(2) small by (cases rule: worker_step.cases) (auto simp: drain_work_def batchSize_def queue)
  qed
qed

lemma drain_makes_progress_witness:
  "\<exists>s'. worker_step sample_project sample_queued s' \<and> drain_work s' < drain_work sample_queued"
proof -
  have "sv_worker sample_queued = Draining []" by (simp add: sample_queued_def)
  from drain_makes_progress [OF sample_run_queued this] show ?thesis by blast
qed

end
