(* ===== verification/Spec2Isabelle.thy ===== *)
theory Spec2Isabelle
  imports Pricing_Quote Rate_Limit Affinity Access_Quota Health_Stats Health_Mutation Scheduler_Theorems Gateway_Theorems State_Manager Sse_Theorems Http_Route_Theorems Request_Log_Theorems
begin

text \<open>
  Verification of the core of GPT-Load, a gateway in Go that receives requests of AI clients, chooses a group
  and a credential of an upstream provider, forwards the request, and accounts for usage and cost.

  \<^bold>\<open>The program.\<close> The data plane (\<open>src/internal/gateway\<close>) authenticates a request against the published
  configuration snapshot, checks the cost limits (\<open>accessquota\<close>) and the request rate (\<open>ratelimit\<close>) of its
  access key, reads and inspects the body, captures the active credentials of the candidate groups from the
  registry (\<open>state\<close>), looks up the affinity cache (\<open>affinity\<close>), and runs attempts: the scheduler
  (\<open>scheduler\<close>) draws a credential, the forwarder calls an executor, the health judge (\<open>health\<close>) turns the
  result into a decision, and the decision acts on registry, statistics and retry. What a request used is priced
  (\<open>usage\<close>, \<open>pricing\<close>, \<open>usagecost\<close>) and recorded in one log event. Configuration is compiled into an
  immutable snapshot (\<open>state\<close>, \<open>channel\<close>, \<open>outboundproxy\<close>) and published by the state manager.

  \<^bold>\<open>Theories and code\<close> (paths below \<open>src/internal\<close>).
  \<^item> \<open>Prelude\<close>: machine integers, association lists for Go maps, strings, time, and the locales
    \<open>checked_addition\<close>, \<open>invariant_system\<close> and \<open>monotone_system\<close> that the components share. \<open>Go_Strings\<close>: the
    functions of \<open>strings\<close> and \<open>net/url\<close> that the sources use.
  \<^item> \<open>Usage\<close> (\<open>usage\<close>): the accumulator of token counts; totals stay within 64 bits and a result is published once.
  \<^item> \<open>Pricing_Amount\<close>, \<open>Pricing_Table\<close>, \<open>Pricing_Quote\<close> (\<open>pricing\<close>, \<open>usagecost\<close>): amounts, price tables,
    quotes and receipts; exact rounding, receipts that validate, and the usage and cost matrix.
  \<^item> \<open>Rate_Limit\<close> (\<open>ratelimit\<close>): the sliding minute of an access key, refined to a log of accepted requests
    through the locale \<open>sliding_window\<close>.
  \<^item> \<open>Access_Quota\<close> (\<open>accessquota\<close>): cost limits, windows, tickets, checkpoints and restoration.
  \<^item> \<open>Protocol\<close>, \<open>Affinity\<close> (\<open>protocol\<close>, \<open>affinity\<close>): the affinity cache refined to a bounded list in order of
    last use, and the derivation of its keys.
  \<^item> \<open>Execution\<close>, \<open>Health_Judge\<close>, \<open>Health_Stats\<close>, \<open>Health_Mutation\<close> (\<open>execution/contracts.go\<close>, \<open>health\<close>): the
    evidence of an attempt and its judgement, the statistics ring, and the coordinator of concurrent mutations as a
    step relation with freedom from deadlock.
  \<^item> \<open>Registry\<close>, \<open>Registry_Spec\<close>, \<open>Registry_Properties\<close> (\<open>state/registry.go\<close> and its neighbours): the credential
    registry refined to one flat map; reconciliation, probes, checkpoints.
  \<^item> \<open>Channel_Target\<close>, \<open>Outbound_Proxy\<close>, \<open>Channel_Registry\<close>, \<open>Runtime_Settings\<close>, \<open>Config_Snapshot\<close>,
    \<open>Config_Properties\<close>, \<open>State_Manager\<close> (\<open>channel/channel.go\<close>, \<open>outboundproxy\<close>, \<open>state/runtime_settings.go\<close>,
    \<open>state/snapshot.go\<close>, \<open>state/manager.go\<close>): compilation of a configuration, ranges of accepted settings, and
    publication without a missed update.
  \<^item> \<open>Scheduler\<close>, \<open>Scheduler_Inspect\<close>, \<open>Scheduler_Properties\<close>, \<open>Scheduler_Theorems\<close> (\<open>scheduler\<close>): which targets a
    query admits, the weighted draw, retries and inspection, over the locale \<open>credential_source\<close> that the
    registry interprets.
  \<^item> \<open>Gateway_Result\<close>, \<open>Gateway_Recorder\<close>, \<open>Gateway_Attempts\<close>, \<open>Gateway_Frame\<close>, \<open>Gateway_Properties\<close>,
    \<open>Content_Coding\<close>, \<open>Gateway_Access\<close>, \<open>Gateway_Models\<close>, \<open>Gateway_Handler\<close>, \<open>Gateway_Theorems\<close> (\<open>gateway\<close>,
    \<open>telemetry\<close>, \<open>platform/contentcoding\<close>, \<open>platform/httpheader\<close>, \<open>platform/utils\<close>): the request from its
    authentication to its log event. The theorems span the components: attempts end, nothing unsafe is
    replayed, only captured credentials are used, admission precedes forwarding, and every request is answered and
    logged once.
  \<^item> \<open>Sse_Framing\<close>, \<open>Sse_Stream\<close>, \<open>Sse_Observe\<close>, \<open>Sse_Forward\<close>, \<open>Sse_Theorems\<close> (\<open>gateway/sse.go\<close>, \<open>stream.go\<close>,
    \<open>stream_rewrite.go\<close>, \<open>stream_observation.go\<close>, \<open>usage_capture.go\<close>): event streams. The rewriting reader and the
    observation buffer share one scanner; both are shown to do on any pieces of a stream what a reference does on the
    whole of it. \<open>Read\<close> and \<open>push\<close> are loops whose fuel is computed from the state and shown to be enough.
  \<^item> \<open>Http_Route\<close>, \<open>Http_Route_Properties\<close>, \<open>Http_Route_Theorems\<close> (\<open>platform/httproute/registry.go\<close>): the registry of HTTP
    routes, which decides before anything is bound that modules do not answer in each other's namespaces, and the
    answers for requests without a route. The engine is an argument.
  \<^item> \<open>Usage_Aggregation\<close>, \<open>Usage_Aggregation_Theorems\<close> (\<open>requestlog/worker.go\<close>): the batch writer over an explicit store
    with one component per table. The statistics are shown to be the sums of the journal, whatever fails.
  \<^item> \<open>Request_Log\<close>, \<open>Request_Log_Theorems\<close> (\<open>requestlog/service.go\<close>, \<open>worker.go\<close>): the queue, its lifecycle and the worker
    as a step relation; the counters account for every event and draining ends.

  \<^bold>\<open>Conventions.\<close> An \<open>int64\<close> is an \<open>int\<close> with \<open>wrap64\<close> written out, a \<open>uint64\<close> a \<open>64 word\<close>, an identifier a
  \<open>nat\<close>; a Go map that is ranged over is an association list whose order stands for the unspecified iteration
  order. A mutating method returns its result and the new state; errors are sums, a panic is \<open>None\<close>. Every exported
  method that holds a lock is one step. Clock readings, random draws and what other requests do in between are
  arguments, so the theorems hold for every interleaving at the granularity of the locks.

  \<^bold>\<open>Parameters.\<close> Code outside the sources is an argument of the definitions that use it: the JSON codecs
  (\<open>channel_json\<close>, \<open>json_library\<close>), \<open>url_library\<close>, \<open>net_library\<close>, the decompressors (\<open>decoders\<close>), the number
  reading of \<open>platform\<close>, hashes, encryption and subscription drivers (\<open>Services\<close>). The forwarder and the
  dialects are arguments as well: \<open>Turn\<close> and \<open>Surroundings\<close> hold what a request observes.

  \<^bold>\<open>Bounds.\<close> The attempt loop runs with fuel \<open>Suc (2 * n)\<close> for \<open>n\<close> captured credentials; that it always ends
  within it is a theorem, not a hypothesis. Weights are summed in 64 bits: the theorem on tickets assumes at most
  \<open>10\<^sup>1\<^sup>4\<close> credentials, far above what fits in memory.

  \<^bold>\<open>Not modelled.\<close> The executors and third-party SDKs, the dialects that read and rewrite JSON bodies, the
  SQL storage with the control plane above it, the queries and the retention of the request log, OAuth flows, catalogue downloads and process
  wiring are input and output around third-party code; their results enter as arguments. \<open>Manager.Matches\<close> rests on
  \<open>reflect.DeepEqual\<close>. Logging and debug headers have no effect on the modelled state.
\<close>

end
